(* ===== verification/Prelude.thy ===== *)
theory Prelude
  imports Main "HOL-Library.Word"
begin

text \<open>
  What the component theories share: the fixed-width integer types of the program, the result
  type of code that can fail, the memory cells of a C++ buffer, \<^verbatim>\<open>size_t\<close>
  subtraction, and generic facts on lists and words.

  The modelled build is a 64-bit little-endian host with assertions enabled (\<^verbatim>\<open>NDEBUG\<close>
  undefined).  An operation that can fail returns a value of type \<open>'a result\<close>:
  \<open>Inr\<close> is a normal return and \<open>Inl\<close> names what stops the run.  A failed
  \<^verbatim>\<open>assert\<close> is one of those reasons; a theorem that an operation returns \<open>Inr\<close>
  therefore says that every assertion on its path holds, and carries over to a build without
  assertions.
\<close>

unbundle bit_operations_syntax

section \<open>Integer types\<close>

type_synonym u8 = "8 word"
type_synonym u16 = "16 word"
type_synonym u32 = "32 word"
type_synonym u64 = "64 word"

section \<open>Results of code that can fail\<close>

datatype failure =
    AssertFailure   \<comment> \<open>a failed \<^verbatim>\<open>assert\<close>\<close>
  | OutOfBounds     \<comment> \<open>an access outside the array a pointer points into\<close>
  | NullPointer     \<comment> \<open>an access through a null (or no longer owned) pointer\<close>
  | Indeterminate   \<comment> \<open>the value of an object that was never written is used\<close>
  | OutOfRange      \<comment> \<open>the exception \<^verbatim>\<open>std::out_of_range\<close>\<close>
  | RuntimeError    \<comment> \<open>the exception \<^verbatim>\<open>std::runtime_error\<close>\<close>
  | NoReturn        \<comment> \<open>a loop that is never left\<close>

type_synonym 'a result = "failure + 'a"

definition rbind :: "'a result \<Rightarrow> ('a \<Rightarrow> 'b result) \<Rightarrow> 'b result" where
  "rbind m f = (case m of Inl e \<Rightarrow> Inl e | Inr x \<Rightarrow> f x)"

text \<open>\<open>rassert c k\<close> is \<^verbatim>\<open>assert(c);\<close> followed by \<open>k\<close>.\<close>

definition rassert :: "bool \<Rightarrow> 'a result \<Rightarrow> 'a result" where
  "rassert c k = (if c then k else Inl AssertFailure)"

lemma rbind_simps [simp]:
  "rbind (Inr x) f = f x"
  "rbind (Inl e) f = Inl e"
  by (simp_all add: rbind_def)

lemma rassert_simps [simp]:
  "rassert True k = k"
  "rassert False k = Inl AssertFailure"
  by (simp_all add: rassert_def)

lemma rbind_eq_Inr [simp]: "rbind m f = Inr y \<longleftrightarrow> (\<exists>x. m = Inr x \<and> f x = Inr y)"
  by (cases m) simp_all

lemma rassert_eq_Inr [simp]: "rassert c k = Inr y \<longleftrightarrow> c \<and> k = Inr y"
  by (simp add: rassert_def)

lemma rbind_assoc: "rbind (rbind m f) g = rbind m (\<lambda>x. rbind (f x) g)"
  by (cases m) simp_all

lemma rbind_cong [fundef_cong]:
  "m = m' \<Longrightarrow> (\<And>x. m' = Inr x \<Longrightarrow> f x = f' x) \<Longrightarrow> rbind m f = rbind m' f'"
  by (cases m') simp_all

text \<open>The run of a fallible step over a list, left to right.\<close>

fun rfold :: "('a \<Rightarrow> 's \<Rightarrow> 's result) \<Rightarrow> 'a list \<Rightarrow> 's \<Rightarrow> 's result" where
  "rfold f [] s = Inr s"
| "rfold f (x # xs) s = rbind (f x s) (rfold f xs)"

lemma rfold_append: "rfold f (xs @ ys) s = rbind (rfold f xs s) (rfold f ys)"
  by (induction xs arbitrary: s) (simp_all add: rbind_assoc fun_eq_iff cong: rbind_cong)

text \<open>An invariant that every step keeps, and under which every step returns.\<close>

lemma rfold_invariant:
  assumes "I s"
    and "\<And>x s. x \<in> set xs \<Longrightarrow> I s \<Longrightarrow> \<exists>s'. f x s = Inr s' \<and> I s'"
  shows "\<exists>s'. rfold f xs s = Inr s' \<and> I s'"
  using assms
proof (induction xs arbitrary: s)
  case Nil
  then show ?case by simp
next
  case (Cons x xs)
  from Cons.prems obtain s1 where s1: "f x s = Inr s1" "I s1"
    by (meson list.set_intros(1))
  have "\<exists>s'. rfold f xs s1 = Inr s' \<and> I s'"
    using s1(2) Cons.prems(2) by (intro Cons.IH) auto
  then show ?case using s1(1) by simp
qed

text \<open>\<open>n\<close> runs of a fallible step that yields a value each, in order.\<close>

fun rrepeat :: "('s \<Rightarrow> ('a \<times> 's) result) \<Rightarrow> nat \<Rightarrow> 's \<Rightarrow> ('a list \<times> 's) result" where
  "rrepeat f 0 s = Inr ([], s)"
| "rrepeat f (Suc n) s =
     rbind (f s) (\<lambda>(x, s). rbind (rrepeat f n s) (\<lambda>(xs, s). Inr (x # xs, s)))"

section \<open>Memory\<close>

text \<open>
  A cell of a byte array.  \<open>None\<close> is a byte that was allocated and never written
  (\<^verbatim>\<open>new uint8_t[n]\<close> leaves the array indeterminate).
\<close>

type_synonym cell = "u8 option"

definition fresh_cells :: "nat \<Rightarrow> cell list" where
  "fresh_cells n = replicate n None"

lemma length_fresh_cells [simp]: "length (fresh_cells n) = n"
  by (simp add: fresh_cells_def)

text \<open>\<open>overwrite i xs m\<close> overwrites the array \<open>m\<close> from index \<open>i\<close> on with \<open>xs\<close>.\<close>

definition overwrite :: "nat \<Rightarrow> 'a list \<Rightarrow> 'a list \<Rightarrow> 'a list" where
  "overwrite i xs m = take i m @ xs @ drop (i + length xs) m"

lemma length_overwrite [simp]: "i + length xs \<le> length m \<Longrightarrow> length (overwrite i xs m) = length m"
  by (simp add: overwrite_def)

lemma take_overwrite:
  "i + length xs \<le> n \<Longrightarrow> n \<le> length m \<Longrightarrow> take n (overwrite i xs m) = overwrite i xs (take n m)"
  by (simp add: overwrite_def drop_take min_absorb1)

lemma take_overwrite_before: "n \<le> i \<Longrightarrow> i \<le> length m \<Longrightarrow> take n (overwrite i xs m) = take n m"
  by (simp add: overwrite_def min_def)

lemma overwrite_Nil [simp]: "overwrite i [] m = m"
  by (simp add: overwrite_def)

lemma overwrite_end [simp]: "overwrite (length m) xs m = m @ xs"
  by (simp add: overwrite_def)

lemma map_overwrite: "map f (overwrite i xs m) = overwrite i (map f xs) (map f m)"
  by (simp add: overwrite_def take_map drop_map)

lemma set_overwrite_subset: "set (overwrite i xs m) \<subseteq> set m \<union> set xs"
  unfolding overwrite_def by (fastforce dest: in_set_takeD in_set_dropD)

section \<open>Sizes\<close>

text \<open>
  A \<^verbatim>\<open>size_t\<close> is a natural number below \<open>2 ^ 64\<close>.  Additions of sizes in the
  program stay far below the bound; a subtraction wraps around, which is written out.
\<close>

definition size_sub :: "nat \<Rightarrow> nat \<Rightarrow> nat" where
  "size_sub a b = (a + 2 ^ 64 - b) mod 2 ^ 64"

lemma wrap_sub_eq: "b \<le> a \<Longrightarrow> a < (m :: nat) \<Longrightarrow> (a + m - b) mod m = a - b"
proof -
  assume "b \<le> a" "a < m"
  then have eq: "a + m - b = (a - b) + m" and lt: "a - b < m" by auto
  show ?thesis unfolding eq mod_add_self2 using lt by (rule mod_less)
qed

lemma wrap_sub_wrap: "a < b \<Longrightarrow> b < (m :: nat) \<Longrightarrow> (a + m - b) mod m = a + m - b"
  by simp

lemma size_sub_eq: "b \<le> a \<Longrightarrow> a < 2 ^ 64 \<Longrightarrow> size_sub a b = a - b"
  unfolding size_sub_def by (rule wrap_sub_eq)

lemma size_sub_wrap: "a < b \<Longrightarrow> b < 2 ^ 64 \<Longrightarrow> size_sub a b = a + 2 ^ 64 - b"
  unfolding size_sub_def by (rule wrap_sub_wrap)

text \<open>The largest stream the theorems speak about; far above what the program ever builds.\<close>

definition max_stream :: nat where
  "max_stream = 2 ^ 32"

lemma size_sub_mod: "b \<le> a \<Longrightarrow> b < 2 ^ 64 \<Longrightarrow> size_sub (a mod 2 ^ 64) b = (a - b) mod 2 ^ 64"
proof -
  assume b: "b \<le> a" "b < 2 ^ 64"
  have "(a mod 2 ^ 64 + (2 ^ 64 - b)) mod 2 ^ 64 = (a + (2 ^ 64 - b)) mod 2 ^ 64"
    by (rule mod_add_left_eq)
  also have "a + (2 ^ 64 - b) = (a - b) + 2 ^ 64" using b by simp
  finally show ?thesis using b unfolding size_sub_def mod_add_self2
    by (simp only: Nat.diff_add_assoc [OF less_imp_le])
qed

section \<open>Words and intervals\<close>

lemma unat_of_nat_small: "n < 2 ^ LENGTH('a::len) \<Longrightarrow> unat (of_nat n :: 'a word) = n"
  unfolding unat_of_nat by (rule mod_less)

lemma unat_plus_one:
  fixes x :: "'a::len word"
  assumes "Suc (unat x) < 2 ^ LENGTH('a)"
  shows "unat (x + 1) = Suc (unat x)"
  using assms by (simp add: unat_word_ariths)

lemma unat_diff:
  fixes a b :: "'a::len word"
  shows "unat (a - b) = (if b \<le> a then unat a - unat b else 2 ^ LENGTH('a) + unat a - unat b)"
  by (simp add: unat_sub_if' word_le_nat_alt add.commute)

lemma upt_append: "i \<le> j \<Longrightarrow> j \<le> k \<Longrightarrow> [i..<j] @ [j..<k] = [i..<k]"
  by (metis le_add_diff_inverse upt_add_eq_append)

section \<open>What holds of the results of a computation\<close>

definition rsat :: "('a \<Rightarrow> bool) \<Rightarrow> 'a result \<Rightarrow> bool" where
  "rsat Q m \<longleftrightarrow> (\<forall>y. m = Inr y \<longrightarrow> Q y)"

lemma rsatD: "rsat Q m \<Longrightarrow> m = Inr y \<Longrightarrow> Q y"
  by (simp add: rsat_def)

lemma rsat_any: "rsat (\<lambda>_. True) m"
  by (simp add: rsat_def)

lemma rsat_Inl: "rsat Q (Inl e)"
  by (simp add: rsat_def)

lemma rsat_Inr: "Q y \<Longrightarrow> rsat Q (Inr y)"
  by (simp add: rsat_def)

lemma rsat_Inr_pair: "Q (a, b) \<Longrightarrow> rsat Q (Inr (a, b))"
  by (simp add: rsat_def)

lemma rsat_rassert: "(c \<Longrightarrow> rsat Q k) \<Longrightarrow> rsat Q (rassert c k)"
  by (simp add: rsat_def)

lemma rsat_if: "(c \<Longrightarrow> rsat Q a) \<Longrightarrow> (\<not> c \<Longrightarrow> rsat Q b) \<Longrightarrow> rsat Q (if c then a else b)"
  by simp

lemma rsat_option: "(m = None \<Longrightarrow> rsat Q a) \<Longrightarrow> (\<And>x. m = Some x \<Longrightarrow> rsat Q (f x)) \<Longrightarrow>
    rsat Q (case m of None \<Rightarrow> a | Some x \<Rightarrow> f x)"
  by (cases m) simp_all

lemma rsat_prod: "(\<And>a b. x = (a, b) \<Longrightarrow> rsat Q (f a b)) \<Longrightarrow> rsat Q (case x of (a, b) \<Rightarrow> f a b)"
  by (cases x) simp

lemma rsat_prod_app: "(\<And>a b. x = (a, b) \<Longrightarrow> rsat Q (f a b y)) \<Longrightarrow> rsat Q ((case x of (a, b) \<Rightarrow> f a b) y)"
  by (cases x) simp

lemma rsat_bind: "rsat R m \<Longrightarrow> (\<And>x. R x \<Longrightarrow> rsat Q (f x)) \<Longrightarrow> rsat Q (rbind m f)"
  by (cases m) (simp_all add: rsat_def)

lemma rsat_bind_pair:
  "rsat (\<lambda>(a, b). R a b) m \<Longrightarrow> (\<And>a b. R a b \<Longrightarrow> rsat Q (f a b)) \<Longrightarrow> rsat Q (rbind m (\<lambda>(a, b). f a b))"
  by (cases m) (auto simp: rsat_def)

lemma rsat_bind_triple:
  "rsat (\<lambda>(a, b, c). R a b c) m \<Longrightarrow> (\<And>a b c. R a b c \<Longrightarrow> rsat Q (f a b c)) \<Longrightarrow> rsat Q (rbind m (\<lambda>(a, b, c). f a b c))"
  by (cases m) (auto simp: rsat_def)

lemma rsat_rfold:
  "(\<And>x s. x \<in> set xs \<Longrightarrow> I s \<Longrightarrow> rsat I (f x s)) \<Longrightarrow> I s \<Longrightarrow> rsat I (rfold f xs s)"
  by (induction xs arbitrary: s) (auto intro!: rsat_Inr intro: rsat_bind)

section \<open>Progress\<close>

text \<open>
  A step relation with an invariant, and a measure that some step always makes smaller until the end is reached.
\<close>

locale progressing =
  fixes step :: "'s \<Rightarrow> 's \<Rightarrow> bool" and ok final :: "'s \<Rightarrow> bool" and work :: "'s \<Rightarrow> nat"
  assumes step_ok: "ok s \<Longrightarrow> step s s' \<Longrightarrow> ok s'"
    and progress: "ok s \<Longrightarrow> \<not> final s \<Longrightarrow> \<exists>s'. step s s' \<and> work s' < work s"
begin

lemma stays_ok: "step\<^sup>*\<^sup>* s s' \<Longrightarrow> ok s \<Longrightarrow> ok s'"
  by (induction rule: rtranclp_induct) (auto intro: step_ok)

lemma finishes: "ok s \<Longrightarrow> \<exists>s'. step\<^sup>*\<^sup>* s s' \<and> final s'"
proof (induction "work s" arbitrary: s rule: less_induct)
  case less
  show ?case
  proof (cases "final s")
    case False
    then obtain s1 where "step s s1" "work s1 < work s" using progress less.prems by blast
    then show ?thesis using less.hyps [of s1] step_ok less.prems by (meson converse_rtranclp_into_rtranclp)
  qed auto
qed

end

text \<open>
  If moreover every step that changes anything makes the measure smaller, every run ends that does not stand
  still for ever.
\<close>

locale descending = progressing +
  assumes descends: "ok s \<Longrightarrow> \<not> final s \<Longrightarrow> step s s' \<Longrightarrow> s' \<noteq> s \<Longrightarrow> work s' < work s"
begin

lemma run_ok: "ok (run 0) \<Longrightarrow> (\<And>t. step (run t) (run (Suc t))) \<Longrightarrow> ok (run t)"
  by (induction t) (auto intro: step_ok)

lemma run_descends:
  assumes "ok (run 0)" "\<And>t. step (run t) (run (Suc t))" "\<And>t. \<not> final (run t)" "t \<le> u"
  shows "work (run u) \<le> work (run t)"
  using assms(4)
proof (induction rule: dec_induct)
  case (step n)
  have "run (Suc n) = run n \<or> work (run (Suc n)) < work (run n)"
    using descends run_ok [of run n] assms(1-3) by blast
  then show ?case using step.IH by auto
qed simp

lemma fair_run_finishes:
  assumes "ok (run 0)" "\<And>t. step (run t) (run (Suc t))"
    and fair: "\<And>t. \<not> final (run t) \<Longrightarrow> \<exists>u \<ge> t. run (Suc u) \<noteq> run u"
  shows "\<exists>t. final (run t)"
proof (rule ccontr)
  assume n: "\<nexists>t. final (run t)"
  have "\<exists>u. work (run u) < work (run t)" for t
  proof -
    obtain u where u: "t \<le> u" "run (Suc u) \<noteq> run u" using fair n by blast
    have "work (run (Suc u)) < work (run u)" using descends [OF run_ok] assms(1,2) n u(2) by blast
    moreover have "work (run u) \<le> work (run t)" using run_descends [of run t u] assms(1,2) n u(1) by blast
    ultimately show ?thesis by (intro exI [of _ "Suc u"]) simp
  qed
  then have "\<nexists>t. \<forall>u. work (run t) \<le> work (run u)" by (metis not_le)
  moreover have "\<exists>t. \<forall>u. work (run t) \<le> work (run u)" using ex_has_least_nat [of "\<lambda>_. True" 0 "\<lambda>t. work (run t)"] by auto
  ultimately show False by blast
qed

end

end
