(* ===== verification/Config.thy ===== *)
theory Config
  imports Prelude
begin

text \<open>
  The shared vocabulary of the library: the enumerations of
  \<^verbatim>\<open>include/wirefox/Enumerations.h\<close>, the compile-time settings of
  \<^verbatim>\<open>include/wirefox/WirefoxConfig.h\<close>, time stamps (\<^verbatim>\<open>WirefoxTime\<close>), the
  statistics table (\<^verbatim>\<open>PeerStats\<close>) and channels (\<^verbatim>\<open>Channel\<close>).

  An enumeration whose values are cast from bytes of the network (commands, options, connection
  results) is a byte with named constants, since the cast can produce unnamed values; every other
  enumeration is a datatype.
\<close>

named_theorems config_defs

section \<open>Identifiers\<close>

type_synonym PacketID = u32
type_synonym DatagramID = u32
type_synonym ChannelIndex = u8
type_synonym SequenceID = u32
type_synonym PeerID = u64

section \<open>Enumerations\<close>

datatype ConnectAttemptResult =
    OK | INVALID_PARAMETER | INVALID_HOSTNAME | INVALID_STATE | ALREADY_CONNECTING
  | ALREADY_CONNECTED | NO_FREE_SLOTS

datatype SocketProtocol = IPv4 | IPv6

datatype ConnectionOrigin = INVALID | SELF | REMOTE

datatype ChannelMode = UNORDERED | ORDERED | SEQUENCED

datatype PacketPriority = LOW | MEDIUM | HIGH | CRITICAL

type_synonym ConnectResult = u8

definition CR_IN_PROGRESS :: ConnectResult where [config_defs]: "CR_IN_PROGRESS = 0"
definition CR_OK :: ConnectResult where [config_defs]: "CR_OK = 1"
definition CR_CONNECT_FAILED :: ConnectResult where [config_defs]: "CR_CONNECT_FAILED = 2"
definition CR_INCOMPATIBLE_PROTOCOL :: ConnectResult where
  [config_defs]: "CR_INCOMPATIBLE_PROTOCOL = 3"
definition CR_INCOMPATIBLE_VERSION :: ConnectResult where
  [config_defs]: "CR_INCOMPATIBLE_VERSION = 4"
definition CR_INCOMPATIBLE_SECURITY :: ConnectResult where
  [config_defs]: "CR_INCOMPATIBLE_SECURITY = 5"
definition CR_INCORRECT_REMOTE_IDENTITY :: ConnectResult where
  [config_defs]: "CR_INCORRECT_REMOTE_IDENTITY = 6"
definition CR_INCORRECT_PASSWORD :: ConnectResult where [config_defs]: "CR_INCORRECT_PASSWORD = 7"
definition CR_NO_FREE_SLOTS :: ConnectResult where [config_defs]: "CR_NO_FREE_SLOTS = 8"
definition CR_ALREADY_CONNECTED :: ConnectResult where [config_defs]: "CR_ALREADY_CONNECTED = 9"
definition CR_IP_RATE_LIMITED :: ConnectResult where [config_defs]: "CR_IP_RATE_LIMITED = 10"
definition CR_BANNED :: ConnectResult where [config_defs]: "CR_BANNED = 11"

type_synonym PacketOptions = u8

definition UNRELIABLE :: PacketOptions where [config_defs]: "UNRELIABLE = 0"
definition RELIABLE :: PacketOptions where [config_defs]: "RELIABLE = push_bit 0 1"
definition WITH_RECEIPT :: PacketOptions where [config_defs]: "WITH_RECEIPT = push_bit 1 1"

text \<open>The two bit-mask operators of \<^verbatim>\<open>PacketOptions\<close>.\<close>

definition options_or :: "PacketOptions \<Rightarrow> PacketOptions \<Rightarrow> PacketOptions" where
  "options_or lhs rhs = lhs OR rhs"

definition options_and :: "PacketOptions \<Rightarrow> PacketOptions \<Rightarrow> bool" where
  "options_and lhs rhs \<longleftrightarrow> (lhs AND rhs) = rhs"

lemma options_and_RELIABLE: "options_and opts RELIABLE \<longleftrightarrow> bit opts 0"
  by (simp add: options_and_def RELIABLE_def and_one_eq odd_iff_mod_2_eq_one bit_0)

lemma options_or_RELIABLE: "options_and (options_or opts RELIABLE) RELIABLE"
  by (simp add: options_and_def options_or_def and.commute bit.conj_disj_distrib)

type_synonym PacketCommand = u8

definition PING :: PacketCommand where [config_defs]: "PING = 0"
definition PONG :: PacketCommand where [config_defs]: "PONG = 1"
definition CONNECT_ATTEMPT :: PacketCommand where [config_defs]: "CONNECT_ATTEMPT = 2"
definition DISCONNECT_REQUEST :: PacketCommand where [config_defs]: "DISCONNECT_REQUEST = 3"
definition DISCONNECT_ACK :: PacketCommand where [config_defs]: "DISCONNECT_ACK = 4"
definition ADVERTISEMENT :: PacketCommand where [config_defs]: "ADVERTISEMENT = 5"
definition RPC_SIGNAL :: PacketCommand where [config_defs]: "RPC_SIGNAL = 6"
definition NOTIFY_CONNECT_SUCCESS :: PacketCommand where
  [config_defs]: "NOTIFY_CONNECT_SUCCESS = 7"
definition NOTIFY_CONNECT_FAILED :: PacketCommand where [config_defs]: "NOTIFY_CONNECT_FAILED = 8"
definition NOTIFY_CONNECTION_INCOMING :: PacketCommand where
  [config_defs]: "NOTIFY_CONNECTION_INCOMING = 9"
definition NOTIFY_CONNECTION_LOST :: PacketCommand where
  [config_defs]: "NOTIFY_CONNECTION_LOST = 10"
definition NOTIFY_DISCONNECTED :: PacketCommand where [config_defs]: "NOTIFY_DISCONNECTED = 11"
definition NOTIFY_RECEIPT_ACKED :: PacketCommand where [config_defs]: "NOTIFY_RECEIPT_ACKED = 12"
definition NOTIFY_RECEIPT_LOST :: PacketCommand where [config_defs]: "NOTIFY_RECEIPT_LOST = 13"
definition NOTIFY_ADVERTISEMENT :: PacketCommand where [config_defs]: "NOTIFY_ADVERTISEMENT = 14"
definition USER_PACKET :: PacketCommand where [config_defs]: "USER_PACKET = 15"

section \<open>Compile-time settings\<close>

definition WIREFOX_MAGIC :: "u8 list" where
  [config_defs]: "WIREFOX_MAGIC = [0x57, 0x49, 0x52, 0x45, 0x46, 0x4F, 0x58]"
definition WIREFOX_PROTOCOL_VERSION :: u8 where [config_defs]: "WIREFOX_PROTOCOL_VERSION = 0"
definition MTU :: nat where [config_defs]: "MTU = 1300"
definition PACKETQUEUE_IN_LEN :: nat where [config_defs]: "PACKETQUEUE_IN_LEN = MTU"
definition CONGESTION_WINDOW_SSTHRESH :: nat where
  [config_defs]: "CONGESTION_WINDOW_SSTHRESH = 65536"
definition CONGESTION_RTT_HISTORY_LEN :: nat where
  [config_defs]: "CONGESTION_RTT_HISTORY_LEN = 32"
definition PACKET_MAX_LENGTH :: nat where [config_defs]: "PACKET_MAX_LENGTH = 16777216"
definition BINARYSTREAM_DEFAULT_CAPACITY :: nat where
  [config_defs]: "BINARYSTREAM_DEFAULT_CAPACITY = 128"
definition THREAD_SLEEP_PACKETQUEUE_TICK :: nat where
  [config_defs]: "THREAD_SLEEP_PACKETQUEUE_TICK = 5"
definition CONNECT_RETRY_COUNT :: nat where [config_defs]: "CONNECT_RETRY_COUNT = 4"
definition CONNECT_RETRY_DELAY :: nat where [config_defs]: "CONNECT_RETRY_DELAY = 2000"
definition SEND_RETRY_COUNT :: nat where [config_defs]: "SEND_RETRY_COUNT = 6"

section \<open>Time\<close>

text \<open>
  A \<^verbatim>\<open>Timestamp\<close> is a number of nanoseconds of the steady clock, a
  \<^verbatim>\<open>Timespan\<close> a difference of two.  The clock is an argument: an operation that calls
  \<^verbatim>\<open>Time::Now()\<close> takes the time of the call as \<open>now\<close>.
\<close>

type_synonym Timespan = nat
type_synonym Timestamp = nat

definition Timestamp_IsValid :: "Timestamp \<Rightarrow> bool" where
  "Timestamp_IsValid t \<longleftrightarrow> t > 0"

definition Timestamp_plus :: "Timestamp \<Rightarrow> Timespan \<Rightarrow> Timestamp" where
  "Timestamp_plus t rhs = (t + rhs) mod 2 ^ 64"

definition Timestamp_minus :: "Timestamp \<Rightarrow> Timespan \<Rightarrow> Timestamp" where
  "Timestamp_minus t rhs = (if rhs > t then 0 else t - rhs)"

definition Time_Elapsed :: "Timestamp \<Rightarrow> Timestamp \<Rightarrow> bool" where
  "Time_Elapsed now test \<longleftrightarrow> now \<ge> test"

definition Time_Between :: "Timestamp \<Rightarrow> Timestamp \<Rightarrow> Timespan" where
  "Time_Between lhs rhs = (if lhs > rhs then lhs - rhs else rhs - lhs)"

text \<open>The arguments are converted to \<^verbatim>\<open>int\<close>, and the result, which may be negative, to 64 bits.\<close>

definition FromMilliseconds :: "nat \<Rightarrow> Timespan" where
  "FromMilliseconds milliseconds = nat (sint (of_nat milliseconds :: u32) * 1000000 mod 2 ^ 64)"

definition FromSeconds :: "nat \<Rightarrow> Timespan" where
  "FromSeconds seconds = nat (sint (of_nat seconds :: u32) * 1000000000 mod 2 ^ 64)"

lemma sint_small: "n < 2 ^ 31 \<Longrightarrow> sint (of_nat n :: u32) = int n"
  by (simp add: signed_of_nat signed_take_bit_int_eq_self)

lemma FromMilliseconds_eq: "n < 2 ^ 31 \<Longrightarrow> FromMilliseconds n = n * 1000000"
  by (simp add: FromMilliseconds_def sint_small nat_mult_distrib)

lemma FromSeconds_eq: "n < 2 ^ 31 \<Longrightarrow> FromSeconds n = n * 1000000000"
  by (simp add: FromSeconds_def sint_small nat_mult_distrib)

definition ToMilliseconds :: "Timespan \<Rightarrow> nat" where
  "ToMilliseconds timespan = timespan div 1000000"

section \<open>Statistics\<close>

datatype PeerStatID =
    BYTES_SENT | BYTES_RECEIVED | BYTES_IN_FLIGHT | PACKETS_QUEUED | PACKETS_IN_QUEUE
  | PACKETS_SENT | PACKETS_RECEIVED | PACKETS_LOST | DATAGRAMS_SENT | DATAGRAMS_RECEIVED | CWND

record PeerStats =
  m_stats :: "PeerStatID \<rightharpoonup> nat"

definition PeerStats_empty :: PeerStats where
  "PeerStats_empty = \<lparr>m_stats = Map.empty\<rparr>"

definition PeerStats_Get :: "PeerStats \<Rightarrow> PeerStatID \<Rightarrow> nat" where
  "PeerStats_Get st i = (case m_stats st i of None \<Rightarrow> 0 | Some v \<Rightarrow> v)"

definition PeerStats_Add :: "PeerStatID \<Rightarrow> nat \<Rightarrow> PeerStats \<Rightarrow> PeerStats" where
  "PeerStats_Add i delta st =
     (let m = (case m_stats st i of None \<Rightarrow> (m_stats st)(i \<mapsto> 0) | Some _ \<Rightarrow> m_stats st)
      in st\<lparr>m_stats := m(i \<mapsto> (the (m i) + delta) mod 2 ^ 64)\<rparr>)"

definition PeerStats_Set :: "PeerStatID \<Rightarrow> nat \<Rightarrow> PeerStats \<Rightarrow> PeerStats" where
  "PeerStats_Set i val st =
     (let m = (case m_stats st i of None \<Rightarrow> (m_stats st)(i \<mapsto> 0) | Some _ \<Rightarrow> m_stats st)
      in st\<lparr>m_stats := m(i \<mapsto> val)\<rparr>)"

lemma PeerStats_Get_Set [simp]:
  "PeerStats_Get (PeerStats_Set i v st) j = (if j = i then v else PeerStats_Get st j)"
  by (auto simp: PeerStats_Get_def PeerStats_Set_def Let_def split: option.splits)

lemma PeerStats_Get_Add [simp]:
  "PeerStats_Get (PeerStats_Add i d st) j =
     (if j = i then (PeerStats_Get st i + d) mod 2 ^ 64 else PeerStats_Get st j)"
  by (auto simp: PeerStats_Get_def PeerStats_Add_def Let_def split: option.splits)

lemma PeerStats_Get_empty [simp]: "PeerStats_Get PeerStats_empty i = 0"
  by (simp add: PeerStats_Get_def PeerStats_empty_def)

section \<open>Channels\<close>

record Channel =
  channel_id :: ChannelIndex
  channel_mode :: ChannelMode

definition Channel_default :: Channel where
  "Channel_default = \<lparr>channel_id = 0, channel_mode = UNORDERED\<rparr>"

definition Channel_IsDefault :: "Channel \<Rightarrow> bool" where
  "Channel_IsDefault c \<longleftrightarrow> channel_id c = 0"

definition Channel_RequiresReliability :: "Channel \<Rightarrow> bool" where
  "Channel_RequiresReliability c \<longleftrightarrow> channel_mode c = ORDERED"

end
