(* ===== verification/BinaryStream.thy ===== *)
theory BinaryStream
  imports Config
begin

text \<open>
  The in-memory byte stream: \<^verbatim>\<open>include/wirefox/BinaryStream.h\<close> and
  \<^verbatim>\<open>source/BinaryStream.cpp\<close>.  This theory holds the state and every operation;
  \<^verbatim>\<open>Stream_Laws\<close> states what they promise.

  The owned array is a list of cells, \<open>None\<close> for the null pointer.  The read pointer is
  null, the owned array, or an array of somebody else; in the last case the cells are the ones
  from the pointer to the end of that array, which may reach beyond the wrapped length (the
  receive buffer of a socket is longer than the datagram in it).
\<close>

section \<open>State\<close>

datatype ro_pointer = RoNull | RoOwn | RoExternal "cell list"

record BinaryStream =
  m_buffer :: "cell list option"
  m_buffer_ro :: ro_pointer
  m_capacity :: nat
  m_length :: nat
  m_position :: nat
  m_subBytePosition :: nat
  m_readonly :: bool

datatype WrapMode = COPY | READONLY

definition ro_of :: "cell list option \<Rightarrow> ro_pointer" where
  "ro_of b = (case b of None \<Rightarrow> RoNull | Some _ \<Rightarrow> RoOwn)"

definition GetBuffer :: "BinaryStream \<Rightarrow> cell list option" where
  "GetBuffer s = (case m_buffer_ro s of
      RoNull \<Rightarrow> None | RoOwn \<Rightarrow> m_buffer s | RoExternal m \<Rightarrow> Some m)"

section \<open>Raw memory access\<close>

text \<open>\<open>memcpy_cells\<close> copies \<open>n\<close> cells out of an array without looking at them.\<close>

definition memcpy_cells :: "cell list option \<Rightarrow> nat \<Rightarrow> cell list result" where
  "memcpy_cells p n =
     (if n = 0 then Inr [] else
      case p of None \<Rightarrow> Inl NullPointer
      | Some m \<Rightarrow> if n \<le> length m then Inr (take n m) else Inl OutOfBounds)"

text \<open>\<open>load_bytes p i n\<close> reads the values of \<open>n\<close> bytes from index \<open>i\<close> on.\<close>

definition load_bytes :: "cell list option \<Rightarrow> nat \<Rightarrow> nat \<Rightarrow> u8 list result" where
  "load_bytes p i n =
     (if n = 0 then Inr [] else
      case p of None \<Rightarrow> Inl NullPointer
      | Some m \<Rightarrow>
          if i + n \<le> length m
          then (let cs = take n (drop i m)
                in if None \<in> set cs then Inl Indeterminate else Inr (map the cs))
          else Inl OutOfBounds)"

text \<open>\<open>store_cells i cs s\<close> writes into the owned array from index \<open>i\<close> on.\<close>

definition store_cells :: "nat \<Rightarrow> cell list \<Rightarrow> BinaryStream \<Rightarrow> BinaryStream result" where
  "store_cells i cs s =
     (if cs = [] then Inr s else
      case m_buffer s of None \<Rightarrow> Inl NullPointer
      | Some m \<Rightarrow>
          if i + length cs \<le> length m then Inr (s\<lparr>m_buffer := Some (overwrite i cs m)\<rparr>)
          else Inl OutOfBounds)"

section \<open>Construction, copy and move\<close>

definition ToNextPowerOfTwo :: "u64 \<Rightarrow> u64" where
  "ToNextPowerOfTwo n =
     (let n = n - 1;
          n = n OR drop_bit 1 n;
          n = n OR drop_bit 2 n;
          n = n OR drop_bit 4 n;
          n = n OR drop_bit 8 n;
          n = n OR drop_bit 16 n
      in n + 1)"

definition next_capacity :: "nat \<Rightarrow> nat" where
  "next_capacity n = unat (ToNextPowerOfTwo (of_nat n))"

definition BinaryStream_new :: "nat \<Rightarrow> BinaryStream" where
  "BinaryStream_new capacity =
     (let cap = next_capacity capacity;
          buf = (if cap > 0 then Some (fresh_cells cap) else None)
      in \<lparr>m_buffer = buf, m_buffer_ro = ro_of buf, m_capacity = cap, m_length = 0,
          m_position = 0, m_subBytePosition = 0, m_readonly = False\<rparr>)"

definition BinaryStream_wrap ::
  "cell list option \<Rightarrow> nat \<Rightarrow> WrapMode \<Rightarrow> BinaryStream result" where
  "BinaryStream_wrap buffer bufferlen mode = (case mode of
      COPY \<Rightarrow>
        (let cap = next_capacity bufferlen
         in rassert (cap \<ge> bufferlen)
              (if cap > 0
               then rbind (memcpy_cells buffer bufferlen) (\<lambda>cs.
                      Inr \<lparr>m_buffer = Some (overwrite 0 cs (fresh_cells cap)),
                           m_buffer_ro = RoOwn, m_capacity = cap, m_length = bufferlen,
                           m_position = 0, m_subBytePosition = 0, m_readonly = False\<rparr>)
               else Inr \<lparr>m_buffer = None, m_buffer_ro = RoNull, m_capacity = cap,
                         m_length = bufferlen, m_position = 0, m_subBytePosition = 0,
                         m_readonly = False\<rparr>))
    | READONLY \<Rightarrow>
        Inr \<lparr>m_buffer = None,
             m_buffer_ro = (case buffer of None \<Rightarrow> RoNull | Some m \<Rightarrow> RoExternal m),
             m_capacity = bufferlen, m_length = bufferlen, m_position = 0,
             m_subBytePosition = 0, m_readonly = True\<rparr>)"

definition BinaryStream_copy :: "BinaryStream \<Rightarrow> BinaryStream result" where
  "BinaryStream_copy other = BinaryStream_wrap (GetBuffer other) (m_length other) COPY"

text \<open>The null stream every move leaves behind.\<close>

definition BinaryStream_null :: BinaryStream where
  "BinaryStream_null = \<lparr>m_buffer = None, m_buffer_ro = RoNull, m_capacity = 0, m_length = 0,
     m_position = 0, m_subBytePosition = 0, m_readonly = False\<rparr>"

text \<open>
  Move assignment between two different objects: the new value of \<^verbatim>\<open>*this\<close> and of
  \<^verbatim>\<open>other\<close>.  The old array of \<^verbatim>\<open>*this\<close> is not released.
\<close>

definition BinaryStream_move_assign ::
  "BinaryStream \<Rightarrow> BinaryStream \<Rightarrow> BinaryStream \<times> BinaryStream" where
  "BinaryStream_move_assign this other =
     (this\<lparr>m_buffer := m_buffer other, m_buffer_ro := m_buffer_ro other,
           m_capacity := m_capacity other, m_length := m_length other,
           m_position := m_position other, m_subBytePosition := m_subBytePosition other,
           m_readonly := m_readonly other\<rparr>,
      other\<lparr>m_buffer := None, m_buffer_ro := RoNull, m_length := 0, m_capacity := 0,
            m_position := 0, m_subBytePosition := 0, m_readonly := False\<rparr>)"

definition BinaryStream_move :: "BinaryStream \<Rightarrow> BinaryStream \<times> BinaryStream" where
  "BinaryStream_move other = BinaryStream_move_assign BinaryStream_null other"

definition Reallocate :: "nat \<Rightarrow> BinaryStream \<Rightarrow> BinaryStream result" where
  "Reallocate newCapacity s =
     (if m_readonly s then Inr s else
      (let cap = max (next_capacity newCapacity) 1
       in rbind (case m_buffer s of
                   None \<Rightarrow> Inr (fresh_cells cap)
                 | Some m \<Rightarrow>
                     (let bytesToCopy = min (m_length s) cap
                      in rbind (memcpy_cells (Some m) bytesToCopy)
                           (\<lambda>cs. Inr (overwrite 0 cs (fresh_cells cap)))))
            (\<lambda>newBuffer. Inr (s\<lparr>m_buffer := Some newBuffer, m_buffer_ro := RoOwn,
                                m_capacity := cap\<rparr>))))"

definition BinaryStream_assign :: "BinaryStream \<Rightarrow> BinaryStream \<Rightarrow> BinaryStream result" where
  "BinaryStream_assign this other =
     rbind (Reallocate (m_capacity other) this) (\<lambda>this.
     rassert (m_capacity this = m_capacity other) (
     rassert (m_capacity this \<ge> m_length other) (
     rbind (memcpy_cells (GetBuffer other) (m_length other)) (\<lambda>cs.
     rbind (store_cells 0 cs this) (\<lambda>this.
     Inr (this\<lparr>m_buffer_ro := ro_of (m_buffer this), m_length := m_length other,
               m_position := m_position other,
               m_subBytePosition := m_subBytePosition other,
               m_readonly := m_readonly other\<rparr>))))))"

section \<open>Position and size\<close>

definition IsEOF :: "nat \<Rightarrow> BinaryStream \<Rightarrow> bool" where
  "IsEOF read s \<longleftrightarrow> m_position s > size_sub (m_length s) read"

definition IsEmpty :: "BinaryStream \<Rightarrow> bool" where
  "IsEmpty s \<longleftrightarrow> m_buffer_ro s = RoNull \<or> m_length s = 0"

definition Align :: "BinaryStream \<Rightarrow> BinaryStream" where
  "Align s =
     (let s = (if m_subBytePosition s > 0 then s\<lparr>m_position := m_position s + 1\<rparr> else s)
      in s\<lparr>m_subBytePosition := 0\<rparr>)"

definition Ensure :: "nat \<Rightarrow> BinaryStream \<Rightarrow> BinaryStream result" where
  "Ensure free s =
     (if m_readonly s then Inr s else
      rassert (m_capacity s \<ge> m_position s)
        (if m_capacity s - m_position s \<ge> free then Inr s
         else Reallocate (m_position s + free) s))"

definition Seek :: "nat \<Rightarrow> BinaryStream \<Rightarrow> BinaryStream" where
  "Seek position s = s\<lparr>m_position := min (max position 0) (m_length s)\<rparr>"

definition SeekToBegin :: "BinaryStream \<Rightarrow> BinaryStream" where
  "SeekToBegin s = Seek 0 s"

definition SeekToEnd :: "BinaryStream \<Rightarrow> BinaryStream" where
  "SeekToEnd s = Seek (m_length s) s"

definition Skip :: "nat \<Rightarrow> BinaryStream \<Rightarrow> bool \<times> BinaryStream" where
  "Skip num s =
     (if IsEOF num s then (False, s) else (True, s\<lparr>m_position := m_position s + num\<rparr>))"

definition Reset :: "BinaryStream \<Rightarrow> BinaryStream result" where
  "Reset s =
     rbind (if m_buffer s \<noteq> None
            then rassert (m_buffer_ro s \<noteq> RoNull) (Inr (s\<lparr>m_buffer := None\<rparr>)) else Inr s) (\<lambda>s.
     Inr (s\<lparr>m_buffer_ro := RoNull, m_length := 0, m_position := 0, m_capacity := 0\<rparr>))"

definition Clear :: "BinaryStream \<Rightarrow> BinaryStream" where
  "Clear s = (if m_readonly s then s else s\<lparr>m_position := 0, m_length := 0\<rparr>)"

definition ToArray :: "BinaryStream \<Rightarrow> cell list result" where
  "ToArray s = memcpy_cells (m_buffer s) (m_length s)"

text \<open>
  \<^verbatim>\<open>ReleaseBuffer\<close> returns the array and, unless the stream is read-only, the length
  it writes through its argument.
\<close>

definition ReleaseBuffer ::
  "BinaryStream \<Rightarrow> (cell list option \<times> nat option) \<times> BinaryStream" where
  "ReleaseBuffer s =
     (if m_readonly s then ((None, None), s)
      else (let s = Align s
            in ((m_buffer s, Some (m_length s)),
                s\<lparr>m_buffer := None, m_length := 0, m_position := 0, m_capacity := 0\<rparr>)))"

section \<open>Writing\<close>

definition WriteBytes :: "u8 list \<Rightarrow> BinaryStream \<Rightarrow> BinaryStream result" where
  "WriteBytes bs s =
     (if m_readonly s then Inr s else
      rbind (Ensure (length bs) (Align s)) (\<lambda>s.
      rbind (store_cells (m_position s) (map Some bs) s) (\<lambda>s.
      let s = s\<lparr>m_position := m_position s + length bs\<rparr>
      in Inr (s\<lparr>m_length := max (m_length s) (m_position s)\<rparr>))))"

definition WriteByte :: "u8 \<Rightarrow> BinaryStream \<Rightarrow> BinaryStream result" where
  "WriteByte val s =
     (if m_readonly s then Inr s else
      rbind (Ensure 1 (Align s)) (\<lambda>s.
      rbind (store_cells (m_position s) [Some val] s) (\<lambda>s.
      let s = s\<lparr>m_position := m_position s + 1\<rparr>
      in Inr (s\<lparr>m_length := max (m_length s) (m_position s)\<rparr>))))"

definition WriteZeroes :: "nat \<Rightarrow> BinaryStream \<Rightarrow> BinaryStream result" where
  "WriteZeroes len s =
     (if m_readonly s then Inr s else
      rbind (Ensure len (Align s)) (\<lambda>s.
      rbind (store_cells (m_position s) (replicate len (Some 0)) s) (\<lambda>s.
      let s = s\<lparr>m_position := m_position s + len\<rparr>
      in Inr (s\<lparr>m_length := max (m_length s) (m_position s)\<rparr>))))"

definition WriteBytes_stream :: "BinaryStream \<Rightarrow> BinaryStream \<Rightarrow> BinaryStream result" where
  "WriteBytes_stream other s =
     (if m_readonly s then Inr s else
      rbind (load_bytes (GetBuffer other) 0 (m_length other)) (\<lambda>bs. WriteBytes bs s))"

definition SeekForce :: "nat \<Rightarrow> BinaryStream \<Rightarrow> BinaryStream result" where
  "SeekForce position s =
     rbind (if m_capacity s \<le> position
            then (let s = SeekToEnd s in WriteZeroes (size_sub position (m_position s)) s)
            else Inr s) (\<lambda>s.
     Inr (Seek position s))"

text \<open>
  Integers are converted to network byte order and written as they lie in memory, so their layout
  depends on the byte order of the host.
\<close>

datatype endian = LittleEndian | BigEndian

definition mem_of_u16 :: "endian \<Rightarrow> u16 \<Rightarrow> u8 list" where
  "mem_of_u16 e v =
     (let le = [ucast v, ucast (drop_bit 8 v)]
      in case e of LittleEndian \<Rightarrow> le | BigEndian \<Rightarrow> rev le)"

definition mem_of_u32 :: "endian \<Rightarrow> u32 \<Rightarrow> u8 list" where
  "mem_of_u32 e v =
     (let le = [ucast v, ucast (drop_bit 8 v), ucast (drop_bit 16 v), ucast (drop_bit 24 v)]
      in case e of LittleEndian \<Rightarrow> le | BigEndian \<Rightarrow> rev le)"

definition mem_of_u64 :: "endian \<Rightarrow> u64 \<Rightarrow> u8 list" where
  "mem_of_u64 e v =
     (let le = [ucast v, ucast (drop_bit 8 v), ucast (drop_bit 16 v), ucast (drop_bit 24 v),
                ucast (drop_bit 32 v), ucast (drop_bit 40 v), ucast (drop_bit 48 v),
                ucast (drop_bit 56 v)]
      in case e of LittleEndian \<Rightarrow> le | BigEndian \<Rightarrow> rev le)"

fun le_value :: "u8 list \<Rightarrow> 'a::len word" where
  "le_value [] = 0"
| "le_value (b # bs) = ucast b OR push_bit 8 (le_value bs)"

definition word_of_mem :: "endian \<Rightarrow> u8 list \<Rightarrow> 'a::len word" where
  "word_of_mem e bs = (case e of LittleEndian \<Rightarrow> le_value bs | BigEndian \<Rightarrow> le_value (rev bs))"

definition Htons :: "endian \<Rightarrow> u16 \<Rightarrow> u16" where
  "Htons e v = (case e of LittleEndian \<Rightarrow> push_bit 8 v OR drop_bit 8 v | BigEndian \<Rightarrow> v)"

definition Ntohs :: "endian \<Rightarrow> u16 \<Rightarrow> u16" where
  "Ntohs e v = (case e of LittleEndian \<Rightarrow> push_bit 8 v OR drop_bit 8 v | BigEndian \<Rightarrow> v)"

definition Htonl :: "endian \<Rightarrow> u32 \<Rightarrow> u32" where
  "Htonl e v = (case e of
      LittleEndian \<Rightarrow> push_bit 24 v OR (push_bit 8 v AND 0xFF0000) OR
                      (drop_bit 8 v AND 0xFF00) OR drop_bit 24 v
    | BigEndian \<Rightarrow> v)"

definition Ntohl :: "endian \<Rightarrow> u32 \<Rightarrow> u32" where
  "Ntohl e v = Htonl e v"

definition IsLittleEndian :: "endian \<Rightarrow> bool" where
  "IsLittleEndian e \<longleftrightarrow> Htonl e 1 \<noteq> 1"

definition WriteInt16_on :: "endian \<Rightarrow> u16 \<Rightarrow> BinaryStream \<Rightarrow> BinaryStream result" where
  "WriteInt16_on e val s = WriteBytes (mem_of_u16 e (Htons e val)) s"

definition WriteInt32_on :: "endian \<Rightarrow> u32 \<Rightarrow> BinaryStream \<Rightarrow> BinaryStream result" where
  "WriteInt32_on e val s = WriteBytes (mem_of_u32 e (Htonl e val)) s"

definition WriteInt64_on :: "endian \<Rightarrow> u64 \<Rightarrow> BinaryStream \<Rightarrow> BinaryStream result" where
  "WriteInt64_on e val s =
     (if IsLittleEndian e
      then rbind (WriteInt32_on e (ucast (drop_bit 32 val AND 0xFFFFFFFF)) s)
             (WriteInt32_on e (ucast (val AND 0xFFFFFFFF)))
      else WriteBytes (mem_of_u64 e val) s)"

text \<open>The host of the modelled build.\<close>

abbreviation WriteInt16 where "WriteInt16 \<equiv> WriteInt16_on LittleEndian"
abbreviation WriteInt32 where "WriteInt32 \<equiv> WriteInt32_on LittleEndian"
abbreviation WriteInt64 where "WriteInt64 \<equiv> WriteInt64_on LittleEndian"

lemma drop_bit_7_less: "drop_bit 7 (raw :: u32) > 0 \<Longrightarrow> unat (drop_bit 7 raw) < unat raw"
proof -
  assume "drop_bit 7 raw > 0"
  then have pos: "unat (drop_bit 7 raw) > 0" by (simp add: unat_gt_0 word_greater_zero_iff)
  have "unat (drop_bit 7 raw) = unat raw div 128"
    using unat_drop_bit_eq [of 7 raw] by (simp only: drop_bit_eq_div [where 'a = nat]) simp
  with pos show ?thesis by linarith
qed

function Write7BitEncodedInt :: "u32 \<Rightarrow> BinaryStream \<Rightarrow> BinaryStream result" where
  "Write7BitEncodedInt raw s =
     (let snippet = ucast (raw AND 0x7F);
          raw' = drop_bit 7 raw;
          snippet = (if raw' > 0 then snippet OR 0x80 else snippet)
      in rbind (WriteByte snippet s) (\<lambda>s.
         if raw' > 0 then Write7BitEncodedInt raw' s else Inr s))"
  by pat_completeness auto
termination
  by (relation "measure (\<lambda>(raw, s). unat raw)") (auto simp: drop_bit_7_less)

declare Write7BitEncodedInt.simps [simp del]

definition WriteBool :: "bool \<Rightarrow> BinaryStream \<Rightarrow> BinaryStream result" where
  "WriteBool val s =
     (if m_readonly s then Inr s else
      rbind (Ensure 1 s) (\<lambda>s.
      rbind (if m_subBytePosition s = 0 then store_cells (m_position s) [Some 0] s
             else Inr s) (\<lambda>s.
      rbind (if val
             then rbind (load_bytes (m_buffer s) (m_position s) 1) (\<lambda>bs.
                    store_cells (m_position s)
                      [Some (hd bs OR drop_bit (m_subBytePosition s) 0x80)] s)
             else Inr s) (\<lambda>s.
      let s = s\<lparr>m_subBytePosition := m_subBytePosition s + 1\<rparr>
      in if m_subBytePosition s > 7
         then (let s = s\<lparr>m_position := m_position s + 1, m_subBytePosition := 0\<rparr>
               in Inr (s\<lparr>m_length := max (m_length s) (m_position s)\<rparr>))
         else Inr (s\<lparr>m_length := max (m_length s) (m_position s + 1)\<rparr>)))))"

definition WriteString :: "u8 list \<Rightarrow> BinaryStream \<Rightarrow> BinaryStream result" where
  "WriteString str s =
     rassert (length str < 2 ^ 31 - 1) (
     rbind (Write7BitEncodedInt (of_nat (length str)) s) (\<lambda>s. WriteBytes str s))"

text \<open>\<^verbatim>\<open>Write(ISerializable&)\<close>; the object is its \<^verbatim>\<open>Serialize\<close> method.\<close>

definition Write_object ::
  "(BinaryStream \<Rightarrow> BinaryStream result) \<Rightarrow> BinaryStream \<Rightarrow> BinaryStream result" where
  "Write_object Serialize s = (if m_readonly s then Inr s else Serialize (Align s))"

section \<open>Reading\<close>

definition Read_object ::
  "(BinaryStream \<Rightarrow> ('a \<times> BinaryStream) result) \<Rightarrow> BinaryStream \<Rightarrow> ('a \<times> BinaryStream) result" where
  "Read_object Deserialize s = Deserialize (Align s)"

definition ReadByte :: "BinaryStream \<Rightarrow> (u8 \<times> BinaryStream) result" where
  "ReadByte s =
     (if IsEOF 1 s then Inr (0, s) else
      (let s = Align s
       in rbind (load_bytes (GetBuffer s) (m_position s) 1) (\<lambda>bs.
          Inr (hd bs, s\<lparr>m_position := m_position s + 1\<rparr>))))"

text \<open>
  \<^verbatim>\<open>ReadBytes\<close> into a non-null buffer: the bytes it writes there, or \<open>None\<close>
  when it returns at the end of the stream and leaves the buffer as it was.
\<close>

definition ReadBytes :: "nat \<Rightarrow> BinaryStream \<Rightarrow> (u8 list option \<times> BinaryStream) result" where
  "ReadBytes count s =
     (if IsEOF count s then Inr (None, s) else
      (let s = Align s
       in rbind (load_bytes (GetBuffer s) (m_position s) count) (\<lambda>bs.
          Inr (Some bs, s\<lparr>m_position := m_position s + count\<rparr>))))"

text \<open>
  The integer readers fill a local variable that has no initial value; at the end of the stream
  its indeterminate value is used.
\<close>

definition ReadUInt16_on :: "endian \<Rightarrow> BinaryStream \<Rightarrow> (u16 \<times> BinaryStream) result" where
  "ReadUInt16_on e s =
     rbind (ReadBytes 2 s) (\<lambda>(r, s). case r of
        None \<Rightarrow> Inl Indeterminate | Some bs \<Rightarrow> Inr (Ntohs e (word_of_mem e bs), s))"

definition ReadUInt32_on :: "endian \<Rightarrow> BinaryStream \<Rightarrow> (u32 \<times> BinaryStream) result" where
  "ReadUInt32_on e s =
     rbind (ReadBytes 4 s) (\<lambda>(r, s). case r of
        None \<Rightarrow> Inl Indeterminate | Some bs \<Rightarrow> Inr (Ntohl e (word_of_mem e bs), s))"

text \<open>
  The two halves of a number of 64 bits are read from left to right.  C++ leaves the order of the two calls in the expression open; a
  compiler that takes the other one swaps the halves.
\<close>

definition ReadUInt64_on :: "endian \<Rightarrow> BinaryStream \<Rightarrow> (u64 \<times> BinaryStream) result" where
  "ReadUInt64_on e s =
     (if IsLittleEndian e
      then rbind (ReadUInt32_on e s) (\<lambda>(hi, s).
           rbind (ReadUInt32_on e s) (\<lambda>(lo, s).
           Inr (push_bit 32 (ucast hi) OR ucast lo, s)))
      else rbind (ReadBytes 8 s) (\<lambda>(r, s). case r of
             None \<Rightarrow> Inl Indeterminate | Some bs \<Rightarrow> Inr (word_of_mem e bs, s)))"

abbreviation ReadUInt16 where "ReadUInt16 \<equiv> ReadUInt16_on LittleEndian"
abbreviation ReadUInt32 where "ReadUInt32 \<equiv> ReadUInt32_on LittleEndian"
abbreviation ReadUInt64 where "ReadUInt64 \<equiv> ReadUInt64_on LittleEndian"

text \<open>The signed readers.\<close>

definition ReadInt16 :: "BinaryStream \<Rightarrow> (int \<times> BinaryStream) result" where
  "ReadInt16 s = rbind (ReadUInt16 s) (\<lambda>(v, s). Inr (sint v, s))"

definition ReadInt32 :: "BinaryStream \<Rightarrow> (int \<times> BinaryStream) result" where
  "ReadInt32 s = rbind (ReadUInt32 s) (\<lambda>(v, s). Inr (sint v, s))"

definition ReadInt64 :: "BinaryStream \<Rightarrow> (int \<times> BinaryStream) result" where
  "ReadInt64 s = rbind (ReadUInt64 s) (\<lambda>(v, s). Inr (sint v, s))"

definition ReadBool :: "BinaryStream \<Rightarrow> (bool \<times> BinaryStream) result" where
  "ReadBool s =
     (if IsEOF 1 s then Inr (False, s) else
      rbind (load_bytes (GetBuffer s) (m_position s) 1) (\<lambda>bs.
      let bit = (hd bs AND drop_bit (m_subBytePosition s) 0x80) \<noteq> 0;
          s = s\<lparr>m_subBytePosition := m_subBytePosition s + 1\<rparr>;
          s = (if m_subBytePosition s > 7
               then s\<lparr>m_subBytePosition := 0, m_position := m_position s + 1\<rparr> else s)
      in Inr (bit, s)))"

text \<open>
  The loop of \<^verbatim>\<open>Read7BitEncodedInt\<close> with \<open>i\<close> rounds done.  The shift of the
  fifth byte is taken modulo \<open>2 ^ 32\<close>.
\<close>

function Read7BitEncodedInt_loop ::
  "nat \<Rightarrow> u32 \<Rightarrow> BinaryStream \<Rightarrow> (u32 \<times> BinaryStream) result" where
  "Read7BitEncodedInt_loop i out s =
     (if i < 5
      then rbind (ReadByte s) (\<lambda>(snippet, s).
           let out = out OR push_bit (7 * i) (ucast (snippet AND 0x7F))
           in if snippet AND 0x80 = 0 then Inr (out, s)
              else Read7BitEncodedInt_loop (Suc i) out s)
      else Inr (out, s))"
  by pat_completeness auto
termination
  by (relation "measure (\<lambda>(i, out, s). 5 - i)") auto

declare Read7BitEncodedInt_loop.simps [simp del]

definition Read7BitEncodedInt :: "BinaryStream \<Rightarrow> (u32 \<times> BinaryStream) result" where
  "Read7BitEncodedInt s = Read7BitEncodedInt_loop 0 0 s"

text \<open>
  \<^verbatim>\<open>ReadString\<close>: the signed length is widened to \<^verbatim>\<open>size_t\<close> with its sign.
\<close>

definition ReadString :: "BinaryStream \<Rightarrow> (u8 list \<times> BinaryStream) result" where
  "ReadString s =
     rbind (Read7BitEncodedInt s) (\<lambda>(n, s).
     let len = unat (scast n :: u64)
     in if IsEOF len s then Inr ([], s)
        else rbind (load_bytes (GetBuffer s) (m_position s) len) (\<lambda>bs.
             Inr (bs, s\<lparr>m_position := m_position s + len\<rparr>)))"

end
