(* ===== verification/Stream_Laws.thy ===== *)
theory Stream_Laws
  imports BinaryStream
begin

text \<open>
  What the byte stream promises.  \<open>stream_ok\<close> is the representation invariant of a stream that
  owns its array and \<open>contents\<close> its abstract value, the bytes written so far.
  \<open>written s c bits\<close> describes a stream in the middle of being written: complete bytes
  \<open>c\<close> and the flags \<open>bits\<close> of an unfinished byte; \<open>reading s k c\<close> describes a stream in
  the middle of being read: \<open>c\<close> is left, and the first \<open>k\<close> flags of its first byte are
  consumed.
\<close>

section \<open>The growth policy\<close>

lemma smear_step:
  fixes x y :: "'a::len word"
  assumes "\<And>i. bit y i \<longleftrightarrow> (\<exists>j<m. bit x (i + j))"
  shows "bit (y OR drop_bit m y) i \<longleftrightarrow> (\<exists>j<2 * m. bit x (i + j))"
proof -
  have "bit (y OR drop_bit m y) i \<longleftrightarrow> bit y i \<or> bit y (m + i)"
    by (simp add: bit_or_iff bit_drop_bit_eq)
  also have "\<dots> \<longleftrightarrow> (\<exists>j<m. bit x (i + j)) \<or> (\<exists>j<m. bit x (i + (m + j)))"
    by (simp add: assms ac_simps)
  also have "\<dots> \<longleftrightarrow> (\<exists>j<2 * m. bit x (i + j))"
  proof
    assume "\<exists>j<2 * m. bit x (i + j)"
    then obtain j where j: "j < 2 * m" "bit x (i + j)" by blast
    show "(\<exists>j<m. bit x (i + j)) \<or> (\<exists>j<m. bit x (i + (m + j)))"
    proof (cases "j < m")
      case False
      with j have "j - m < m" "bit x (i + (m + (j - m)))" by auto
      then show ?thesis by blast
    qed (use j in blast)
  next
    assume "(\<exists>j<m. bit x (i + j)) \<or> (\<exists>j<m. bit x (i + (m + j)))"
    then consider j where "j < m" "bit x (i + j)" | j where "j < m" "bit x (i + (m + j))"
      by blast
    then show "\<exists>j<2 * m. bit x (i + j)"
    proof cases
      case (1 j)
      then have "j < 2 * m" by simp
      with 1 show ?thesis by blast
    next
      case (2 j)
      then have "m + j < 2 * m" by simp
      with 2 show ?thesis by blast
    qed
  qed
  finally show ?thesis .
qed

definition smear :: "u64 \<Rightarrow> u64" where
  "smear n = ToNextPowerOfTwo (n + 1) - 1"

lemma bit_smear: "bit (smear x) i \<longleftrightarrow> (\<exists>j<32. bit x (i + j))"
proof -
  have s1: "bit (x OR drop_bit 1 x) i \<longleftrightarrow> (\<exists>j<2. bit x (i + j))" for i
    using smear_step [of x 1 x i] by simp
  note s2 = smear_step [OF s1]
  note s3 = smear_step [OF s2, simplified]
  note s4 = smear_step [OF s3, simplified]
  note s5 = smear_step [OF s4, simplified]
  show ?thesis
    using s5 [of i] by (simp add: smear_def ToNextPowerOfTwo_def Let_def)
qed

lemma unat_smear:
  assumes "2 ^ k \<le> n" "n < 2 ^ Suc k" "k < 32"
  shows "unat (smear (of_nat n)) = 2 ^ Suc k - 1"
proof -
  have n64: "n < 2 ^ 64"
    using assms(2,3) power_strict_increasing_iff [of "2 :: nat" "Suc k" 64] by linarith
  then have bits: "bit (of_nat n :: u64) j \<longleftrightarrow> bit n j" if "j < 64" for j
    using that by (simp add: bit_of_nat_iff)
  have hi: "\<not> bit n j" if "j > k" for j
  proof -
    have "(2 :: nat) ^ Suc k \<le> 2 ^ j" using that by (intro power_increasing) auto
    with assms(2) have "n div 2 ^ j = 0" by (intro div_less) linarith
    then show ?thesis by (simp add: bit_iff_odd)
  qed
  have k: "bit n k"
  proof -
    have "n div 2 ^ k = 1" using assms(1,2) by (intro div_nat_eqI) auto
    then show ?thesis by (simp add: bit_iff_odd)
  qed
  have "unat (smear (of_nat n)) = mask (Suc k)"
  proof (rule bit_eqI)
    fix i
    show "bit (unat (smear (of_nat n))) i \<longleftrightarrow> bit (mask (Suc k) :: nat) i"
    proof (cases "i \<le> k")
      case True
      then have "k - i < 32" "bit (of_nat n :: u64) (i + (k - i))"
        using assms(3) k bits [of k] by auto
      then show ?thesis using True by (auto simp: bit_smear bit_mask_iff bit_unsigned_iff)
    next
      case False
      then have "\<not> bit (of_nat n :: u64) (i + j)" for j
        using hi [of "i + j"] by (auto simp: bit_of_nat_iff)
      then show ?thesis using False by (auto simp: bit_smear bit_mask_iff bit_unsigned_iff)
    qed
  qed
  then show ?thesis by (simp add: mask_eq_exp_minus_1)
qed

lemma ToNextPowerOfTwo_smear: "ToNextPowerOfTwo n = smear (n - 1) + 1"
  by (simp add: smear_def)

lemma next_capacity_0 [simp]: "next_capacity 0 = 0"
  by (simp add: next_capacity_def ToNextPowerOfTwo_def)

lemma next_capacity_smear:
  assumes "0 < n" "n \<le> 2 ^ 63"
  shows "next_capacity n = unat (smear (of_nat (n - 1)) + 1)"
  using assms by (simp add: next_capacity_def ToNextPowerOfTwo_smear of_nat_diff)

lemma smear_ge: "unat x \<le> unat (smear x)"
proof -
  have "smear x AND x = x"
    by (rule bit_word_eqI) (auto simp: bit_and_iff bit_smear intro: exI [of _ 0])
  then show ?thesis by (metis word_and_le1 word_and_le2 word_le_nat_alt)
qed

lemma smear_less: "unat x < 2 ^ 63 \<Longrightarrow> unat (smear x) < 2 ^ 63"
proof -
  assume x: "unat x < 2 ^ 63"
  have "\<not> bit x (63 + j)" for j
  proof -
    have "(2 :: nat) ^ 63 \<le> 2 ^ (63 + j)" by (intro power_increasing) auto
    with x have "unat x div 2 ^ (63 + j) = 0" by (intro div_less) linarith
    then have "\<not> bit (unat x) (63 + j)" by (simp add: bit_iff_odd)
    then show ?thesis by (simp add: bit_unsigned_iff)
  qed
  then have "\<not> bit (smear x) (63 + j)" for j
    by (auto simp: bit_smear add.assoc)
  then have "take_bit 63 (smear x) = smear x"
    by (intro bit_word_eqI) (metis bit_take_bit_iff le_add_diff_inverse linorder_not_less)
  then have "unat (smear x) = take_bit 63 (unat (smear x))"
    by (metis unsigned_take_bit_eq)
  then show ?thesis by (metis take_bit_nat_less_exp)
qed

lemma next_capacity_ge:
  assumes "n \<le> 2 ^ 63"
  shows "n \<le> next_capacity n"
proof (cases "n = 0")
  case False
  have n: "unat (of_nat (n - 1) :: u64) = n - 1"
    using assms by (intro unat_of_nat_small) simp
  have lt: "unat (smear (of_nat (n - 1))) < 2 ^ 63"
    using assms False n by (intro smear_less) linarith
  then have "unat (smear (of_nat (n - 1)) + 1) = Suc (unat (smear (of_nat (n - 1))))"
    by (intro unat_plus_one) simp
  with smear_ge [of "of_nat (n - 1)"] n False show ?thesis
    using next_capacity_smear [of n] assms by simp
qed simp

lemma next_capacity_power_of_two:
  assumes "0 < n" "n \<le> 2 ^ 32"
  shows "\<exists>k. next_capacity n = 2 ^ k \<and> n \<le> 2 ^ k \<and> 2 ^ k < 2 * n"
proof (cases "n = 1")
  case True
  then show ?thesis by (intro exI [of _ 0]) (simp add: next_capacity_def ToNextPowerOfTwo_def)
next
  case False
  with assms(1) obtain k where k: "2 ^ k \<le> n - 1" "n - 1 < 2 ^ Suc k"
    using ex_power_ivl1 [of 2 "n - 1"] by fastforce
  then have k32: "k < 32"
    using assms(2) power_less_imp_less_exp [of "2 :: nat" k 32] False assms(1) by linarith
  have eq: "unat (smear (of_nat (n - 1))) = 2 ^ Suc k - 1"
    using k k32 by (rule unat_smear)
  have "(2 :: nat) ^ Suc k \<le> 2 ^ 32" using k32 by (intro power_increasing) auto
  then have "unat (smear (of_nat (n - 1)) + 1) = Suc (unat (smear (of_nat (n - 1))))"
    using eq by (intro unat_plus_one) simp
  then have "next_capacity n = 2 ^ Suc k"
    using eq next_capacity_smear [of n] assms by simp
  with k show ?thesis by (intro exI [of _ "Suc k"]) auto
qed

section \<open>Invariant and contents\<close>

definition cells :: "BinaryStream \<Rightarrow> cell list" where
  "cells s = (case m_buffer s of None \<Rightarrow> [] | Some m \<Rightarrow> m)"

definition contents :: "BinaryStream \<Rightarrow> u8 list" where
  "contents s = map the (take (m_length s) (cells s))"

definition stream_ok :: "BinaryStream \<Rightarrow> bool" where
  "stream_ok s \<longleftrightarrow>
     \<not> m_readonly s \<and>
     (m_buffer s \<noteq> None \<longrightarrow> m_buffer_ro s = RoOwn) \<and>
     (m_buffer s = None \<longrightarrow> (\<forall>m. m_buffer_ro s \<noteq> RoExternal m)) \<and>
     length (cells s) = m_capacity s \<and>
     m_position s \<le> m_length s \<and> m_length s \<le> m_capacity s \<and>
     m_subBytePosition s < 8 \<and> (m_subBytePosition s > 0 \<longrightarrow> m_position s < m_length s) \<and>
     None \<notin> set (take (m_length s) (cells s))"

lemma length_contents [simp]: "stream_ok s \<Longrightarrow> length (contents s) = m_length s"
  by (simp add: contents_def stream_ok_def)

lemma take_cells: "stream_ok s \<Longrightarrow> take (m_length s) (cells s) = map Some (contents s)"
proof -
  assume "stream_ok s"
  then have "None \<notin> set (take (m_length s) (cells s))" by (simp add: stream_ok_def)
  then have "map (Some \<circ> the) (take (m_length s) (cells s)) = take (m_length s) (cells s)"
    by (intro map_idI) (metis comp_apply option.collapse)
  then show ?thesis by (simp add: contents_def)
qed

lemma stream_okE:
  assumes "stream_ok s"
  shows "\<not> m_readonly s" "length (cells s) = m_capacity s" "m_position s \<le> m_length s"
    "m_length s \<le> m_capacity s" "m_subBytePosition s < 8"
  using assms by (auto simp: stream_ok_def)

lemma Align_ok: "stream_ok s \<Longrightarrow> stream_ok (Align s)"
  by (auto simp: stream_ok_def Align_def Let_def cells_def)

lemma Align_simps [simp]:
  "m_length (Align s) = m_length s" "m_subBytePosition (Align s) = 0" "cells (Align s) = cells s"
  "contents (Align s) = contents s" "m_readonly (Align s) = m_readonly s"
  "GetBuffer (Align s) = GetBuffer s" "m_capacity (Align s) = m_capacity s"
  by (simp_all add: Align_def Let_def cells_def contents_def GetBuffer_def split: ro_pointer.split)

lemma m_position_Align:
  "m_position (Align s) = (if m_subBytePosition s > 0 then Suc (m_position s) else m_position s)"
  by (simp add: Align_def Let_def)

lemma Reallocate_ok:
  assumes ok: "stream_ok s" and n: "m_length s \<le> n" "n \<le> 2 ^ 63"
  shows "\<exists>s'. Reallocate n s = Inr s' \<and> stream_ok s' \<and> contents s' = contents s \<and>
    m_length s' = m_length s \<and> m_position s' = m_position s \<and>
    m_subBytePosition s' = m_subBytePosition s \<and> n \<le> m_capacity s'"
proof -
  let ?cap = "max (next_capacity n) 1"
  let ?buf = "overwrite 0 (take (m_length s) (cells s)) (fresh_cells ?cap)"
  let ?s = "s\<lparr>m_buffer := Some ?buf, m_buffer_ro := RoOwn, m_capacity := ?cap\<rparr>"
  have cap: "n \<le> ?cap" using next_capacity_ge [OF n(2)] by simp
  note okE = stream_okE [OF ok]
  have len: "length (take (m_length s) (cells s)) = m_length s" using okE by simp
  have take: "take (m_length s) ?buf = take (m_length s) (cells s)"
    using len cap n by (simp add: overwrite_def)
  have eq: "Reallocate n s = Inr ?s"
  proof (cases "m_buffer s")
    case None
    with okE have "m_length s = 0" by (simp add: cells_def)
    then show ?thesis using None okE by (simp add: Reallocate_def cells_def Let_def)
  next
    case (Some m)
    have "min (m_length s) ?cap = m_length s" using cap n by simp
    then show ?thesis using Some okE
      by (simp add: Reallocate_def cells_def Let_def memcpy_cells_def)
  qed
  have "cells ?s = ?buf" by (simp add: cells_def)
  moreover have "length ?buf = ?cap" using len cap n by simp
  ultimately have "stream_ok ?s" "contents ?s = contents s"
    using ok take cap n(1) by (auto simp: stream_ok_def contents_def)
  then show ?thesis using eq cap by auto
qed

lemma Ensure_ok:
  assumes ok: "stream_ok s" and n: "m_position s + n \<le> 2 ^ 63"
  shows "\<exists>s'. Ensure n s = Inr s' \<and> stream_ok s' \<and> contents s' = contents s \<and>
    m_length s' = m_length s \<and> m_position s' = m_position s \<and>
    m_subBytePosition s' = m_subBytePosition s \<and> m_position s + n \<le> m_capacity s'"
proof (cases "m_capacity s - m_position s \<ge> n")
  case True
  then show ?thesis using stream_okE [OF ok] ok by (auto simp: Ensure_def)
next
  case False
  then have "m_length s \<le> m_position s + n" using stream_okE [OF ok] by linarith
  from Reallocate_ok [OF ok this n] False show ?thesis
    using stream_okE [OF ok] by (auto simp: Ensure_def)
qed

lemma store_cells_eq:
  assumes "stream_ok s" "cs \<noteq> []" "p + length cs \<le> m_capacity s"
  shows "store_cells p cs s = Inr (s\<lparr>m_buffer := Some (overwrite p cs (cells s))\<rparr>)"
  using assms by (cases "m_buffer s") (auto simp: store_cells_def stream_ok_def cells_def)

text \<open>
  Overwriting a range that starts inside the written part, or right at its end, and moving the
  length up to its end.
\<close>

lemma overwrite_ok:
  assumes ok: "stream_ok s" and p: "p \<le> m_length s" "p + length bs \<le> m_capacity s"
    and ne: "bs \<noteq> []"
    and n: "n = max (m_length s) (p + length bs)" and q: "q \<le> n" "k < 8" "k > 0 \<longrightarrow> q < n"
    and s': "s' = s\<lparr>m_buffer := Some (overwrite p (map Some bs) (cells s)), m_length := n,
      m_position := q, m_subBytePosition := k\<rparr>"
  shows "stream_ok s' \<and> contents s' = overwrite p bs (contents s)"
proof -
  note okE = stream_okE [OF ok]
  have lt: "p < m_capacity s" using p(2) ne by (cases bs) auto
  have c: "cells s' = overwrite p (map Some bs) (cells s)" by (simp add: s' cells_def)
  have "m_buffer s \<noteq> None" using p ne okE(2) by (cases "m_buffer s") (auto simp: cells_def)
  then have ro: "m_buffer_ro s = RoOwn" using ok by (simp add: stream_ok_def)
  have take: "take n (cells s') = map Some (overwrite p bs (contents s))"
  proof -
    have "take n (cells s') = overwrite p (map Some bs) (take (m_length s) (cells s))"
      using p n okE(2,4) lt unfolding c overwrite_def
      by (auto simp: drop_take min_def max_def)
    then show ?thesis using take_cells [OF ok] by (simp add: map_overwrite)
  qed
  have "contents s' = overwrite p bs (contents s)"
    using take by (simp add: contents_def s' comp_def)
  moreover have "stream_ok s'"
    using okE p q n c ro take by (auto simp: stream_ok_def s' cells_def)
  ultimately show ?thesis by simp
qed

text \<open>
  The write of a byte string: it overwrites the contents from the (aligned) position on and
  leaves the position behind the last byte.
\<close>

lemma WriteBytes_ok:
  assumes ok: "stream_ok s" and sz: "m_position (Align s) + length bs \<le> max_stream"
  shows "\<exists>s'. WriteBytes bs s = Inr s' \<and> stream_ok s' \<and>
    contents s' = overwrite (m_position (Align s)) bs (contents s) \<and>
    m_position s' = m_position (Align s) + length bs \<and> m_subBytePosition s' = 0"
proof -
  let ?a = "Align s"
  have aok: "stream_ok ?a" using ok by (rule Align_ok)
  obtain e where e: "Ensure (length bs) ?a = Inr e" "stream_ok e" "contents e = contents s"
    "m_length e = m_length s" "m_position e = m_position ?a" "m_subBytePosition e = 0"
    "m_position ?a + length bs \<le> m_capacity e"
    using Ensure_ok [OF aok, of "length bs"] sz by (auto simp: max_stream_def)
  have pe: "m_position e \<le> m_length e" using stream_okE [OF e(2)] by simp
  show ?thesis
  proof (cases "bs = []")
    case True
    have "e\<lparr>m_length := m_length e\<rparr> = e" by (cases e) simp
    then have "WriteBytes bs s = Inr e" using True e(1) stream_okE(1) [OF ok] pe
      by (simp add: WriteBytes_def store_cells_def Let_def max_absorb1)
    then show ?thesis using e True by simp
  next
    case False
    let ?n = "max (m_length e) (m_position e + length bs)"
    let ?s = "e\<lparr>m_buffer := Some (overwrite (m_position e) (map Some bs) (cells e)),
      m_length := ?n, m_position := m_position e + length bs, m_subBytePosition := 0\<rparr>"
    have "stream_ok ?s \<and> contents ?s = overwrite (m_position e) bs (contents e)"
      by (rule overwrite_ok [OF e(2), where n = ?n and q = "m_position e + length bs" and k = 0])
        (use False e pe in auto)
    moreover have "WriteBytes bs s = Inr ?s"
      using e False stream_okE(1) [OF ok] pe
      by (simp add: WriteBytes_def store_cells_eq Let_def)
    ultimately show ?thesis using e by auto
  qed
qed

lemma WriteByte_WriteBytes: "WriteByte v s = WriteBytes [v] s"
  by (simp add: WriteByte_def WriteBytes_def)

lemma WriteZeroes_WriteBytes: "WriteZeroes n s = WriteBytes (replicate n 0) s"
  by (simp add: WriteZeroes_def WriteBytes_def)

text \<open>Bits: the flags pending in the byte at the position.\<close>

fun pack_from :: "nat \<Rightarrow> bool list \<Rightarrow> u8" where
  "pack_from i [] = 0"
| "pack_from i (b # bs) = (if b then drop_bit i 0x80 else 0) OR pack_from (Suc i) bs"

definition pack :: "bool list \<Rightarrow> u8" where
  "pack bits = pack_from 0 bits"

lemma pack_from_append:
  "pack_from i (xs @ ys) = pack_from i xs OR pack_from (i + length xs) ys"
  by (induction xs arbitrary: i) (auto simp: or.assoc)

lemma pack_snoc: "pack (bits @ [b]) = (if b then pack bits OR drop_bit (length bits) 0x80 else pack bits)"
  by (simp add: pack_def pack_from_append)

lemma bit_0x80: "bit (drop_bit i (0x80 :: u8)) n \<longleftrightarrow> n + i = 7"
proof -
  have e: "(0x80 :: u8) = 2 ^ 7" by simp
  show ?thesis unfolding bit_drop_bit_eq comp_apply e bit_exp_iff by auto
qed

lemma bit_pack_from:
  "i + length bits \<le> 8 \<Longrightarrow> bit (pack_from i bits) n \<longleftrightarrow> n < 8 \<and> i \<le> 7 - n \<and> 7 - n < i + length bits \<and> bits ! (7 - n - i)"
proof (induction bits arbitrary: i)
  case (Cons b bits)
  then have IH: "bit (pack_from (Suc i) bits) n \<longleftrightarrow> n < 8 \<and> Suc i \<le> 7 - n \<and>
      7 - n < Suc i + length bits \<and> bits ! (7 - n - Suc i)"
    by simp
  have hd: "bit (if b then drop_bit i 0x80 else (0 :: u8)) n \<longleftrightarrow> n + i = 7 \<and> b"
    by (simp only: bit_0x80 bit_0_eq bot_apply split: if_split) simp
  show ?case
  proof (cases "n + i = 7")
    case True
    then have "7 - n = i" "n < 8" by auto
    with True Cons.prems show ?thesis unfolding pack_from.simps bit_or_iff hd IH by simp
  next
    case False
    then have "i \<le> 7 - n \<and> n < 8 \<longleftrightarrow> Suc i \<le> 7 - n \<and> n < 8" by auto
    with False show ?thesis unfolding pack_from.simps bit_or_iff hd IH
      by (auto simp: nth_Cons')
  qed
qed simp

lemma pack_AND:
  assumes "length bits \<le> 8" "k < length bits"
  shows "(pack bits AND drop_bit k 0x80 \<noteq> 0) \<longleftrightarrow> bits ! k"
proof -
  have iff: "bit (pack bits AND drop_bit k 0x80) n \<longleftrightarrow> n = 7 - k \<and> bits ! k" for n
  proof (cases "n + k = 7")
    case True
    then have "7 - n = k" "n = 7 - k" "n < 8" by auto
    then show ?thesis using assms unfolding bit_and_iff bit_0x80 pack_def
      by (simp del: pack_from.simps add: bit_pack_from)
  next
    case False
    then show ?thesis using assms unfolding bit_and_iff bit_0x80 by auto
  qed
  show ?thesis
  proof
    assume "bits ! k"
    then have "bit (pack bits AND drop_bit k 0x80) (7 - k)" using iff by blast
    then show "pack bits AND drop_bit k 0x80 \<noteq> 0" by (metis bit_0_eq bot_apply bot_bool_def)
  next
    assume "pack bits AND drop_bit k 0x80 \<noteq> 0"
    then show "bits ! k" using iff by (metis bit_eqI bit_0_eq bot_apply bot_bool_def)
  qed
qed

definition flushed :: "u8 list \<Rightarrow> bool list \<Rightarrow> u8 list" where
  "flushed c bits = (if bits = [] then c else c @ [pack bits])"

definition written :: "BinaryStream \<Rightarrow> u8 list \<Rightarrow> bool list \<Rightarrow> bool" where
  "written s c bits \<longleftrightarrow> stream_ok s \<and> length bits < 8 \<and> contents s = flushed c bits \<and>
     m_position s = length c \<and> m_subBytePosition s = length bits"

lemma written_Align: "written s c bits \<Longrightarrow> m_position (Align s) = length (flushed c bits)"
  by (auto simp: written_def m_position_Align flushed_def)

lemma written_WriteBytes:
  assumes "written s c bits" "length (flushed c bits) + length bs \<le> max_stream"
  shows "\<exists>s'. WriteBytes bs s = Inr s' \<and> written s' (flushed c bits @ bs) []"
proof -
  note wa = written_Align [OF assms(1)]
  have ok: "stream_ok s" and c: "contents s = flushed c bits" using assms(1) by (simp_all add: written_def)
  obtain s' where "WriteBytes bs s = Inr s'" "stream_ok s'"
    "contents s' = overwrite (m_position (Align s)) bs (contents s)"
    "m_position s' = m_position (Align s) + length bs" "m_subBytePosition s' = 0"
    using WriteBytes_ok [OF ok, of bs] assms(2) wa by auto
  then show ?thesis using wa c by (auto simp: written_def flushed_def)
qed

lemma overwrite_single: "i < length m \<Longrightarrow> overwrite i [x] m = m[i := x]"
  by (simp add: overwrite_def upd_conv_take_nth_drop)

lemma load_byte: "i < length m \<Longrightarrow> m ! i = Some b \<Longrightarrow> load_bytes (Some m) i (Suc 0) = Inr [b]"
  by (simp add: load_bytes_def Let_def take_Suc_conv_app_nth flip: Cons_nth_drop_Suc)

lemma WriteBool_eq:
  assumes e: "\<not> m_readonly s" "Ensure 1 s = Inr e" "m_buffer e = Some m" "m_position e < length m"
    and cur: "m_subBytePosition e > 0 \<longrightarrow> m ! m_position e = Some cur"
      "m_subBytePosition e = 0 \<longrightarrow> cur = 0"
    and v: "v = (if b then cur OR drop_bit (m_subBytePosition e) 0x80 else cur)"
    and s': "s' = e\<lparr>m_buffer := Some (overwrite (m_position e) [Some v] m)\<rparr>"
  shows "WriteBool b s = Inr
    (if m_subBytePosition e < 7
     then s'\<lparr>m_subBytePosition := Suc (m_subBytePosition e),
             m_length := max (m_length e) (Suc (m_position e))\<rparr>
     else s'\<lparr>m_position := Suc (m_position e), m_subBytePosition := 0,
             m_length := max (m_length e) (Suc (m_position e))\<rparr>)"
proof (cases "m_subBytePosition e = 0")
  case True
  then show ?thesis using assms
    by (auto simp: WriteBool_def store_cells_def overwrite_single load_byte Let_def)
next
  case False
  have "m[m_position e := Some cur] = m" using False cur list_update_id [of m "m_position e"] by simp
  moreover have "e\<lparr>m_buffer := Some m\<rparr> = e" using e(3) by (cases e) simp
  ultimately show ?thesis using False assms
    by (auto simp: WriteBool_def store_cells_def overwrite_single load_byte Let_def)
qed

lemma written_WriteBool:
  assumes w: "written s c bits" and sz: "length c < max_stream"
  shows "\<exists>s'. WriteBool b s = Inr s' \<and>
    (if length bits < 7 then written s' c (bits @ [b])
     else written s' (c @ [pack (bits @ [b])]) [])"
proof -
  have ok: "stream_ok s" using w by (simp add: written_def)
  have pos: "m_position s = length c" and sub: "m_subBytePosition s = length bits"
    and len: "length bits < 8" and con: "contents s = flushed c bits"
    using w by (simp_all add: written_def)
  obtain e where e: "Ensure 1 s = Inr e" "stream_ok e" "contents e = contents s"
    "m_length e = m_length s" "m_position e = length c" "m_subBytePosition e = length bits"
    "Suc (length c) \<le> m_capacity e"
    using Ensure_ok [OF ok, of 1] sz pos sub by (auto simp: max_stream_def)
  have mlen: "m_length e = length (flushed c bits)" using e con length_contents [OF ok] by simp
  let ?v = "pack (bits @ [b])"
  let ?k = "if length bits < 7 then Suc (length bits) else 0"
  let ?q = "if length bits < 7 then length c else Suc (length c)"
  let ?buf = "Some (overwrite (length c) [Some ?v] (cells e))"
  let ?n = "max (m_length e) (length c + length [?v])"
  let ?s = "e\<lparr>m_buffer := ?buf, m_length := ?n, m_position := ?q, m_subBytePosition := ?k\<rparr>"
  have cl: "length c \<le> m_length e" using stream_okE(3) [OF e(2)] e(5) by simp
  obtain m where m: "m_buffer e = Some m" "length m = m_capacity e" "cells e = m"
    using stream_okE(2) [OF e(2)] e(7) by (cases "m_buffer e") (auto simp: cells_def)
  have cur: "m ! length c = Some (pack bits)" if "bits \<noteq> []"
  proof -
    have "take (m_length e) m ! length c = map Some (contents e) ! length c"
      using take_cells [OF e(2)] m by simp
    then show ?thesis using that e(3) con mlen by (simp add: flushed_def nth_append)
  qed
  have "WriteBool b s = Inr ?s"
  proof -
    have c1: "m_subBytePosition e > 0 \<longrightarrow> m ! m_position e = Some (pack bits)"
      using cur e(5,6) by auto
    have c2: "m_subBytePosition e = 0 \<longrightarrow> pack bits = 0" using e(6) by (auto simp: pack_def)
    have v: "?v = (if b then pack bits OR drop_bit (m_subBytePosition e) 0x80 else pack bits)"
      by (simp add: pack_snoc e(6))
    have lt: "m_position e < length m" using e(5,7) m(2) by simp
    from WriteBool_eq [OF stream_okE(1) [OF ok] e(1) m(1) lt c1 c2 v refl]
    show ?thesis using e(5,6) m len by (cases e) (simp del: pack_from.simps)
  qed
  moreover have "stream_ok ?s \<and> contents ?s = overwrite (length c) [?v] (contents e)"
    by (rule overwrite_ok [OF e(2), where n = ?n and q = ?q and k = ?k])
      (use e mlen len cl in \<open>auto simp: flushed_def\<close>)
  moreover have "overwrite (length c) [?v] (contents e) = c @ [?v]"
    using e con by (auto simp: overwrite_def flushed_def)
  ultimately show ?thesis using len by (auto simp: written_def flushed_def)
qed

section \<open>The end-of-stream test\<close>

lemma IsEOF_iff:
  assumes "m_position s \<le> m_length s" "m_length s < 2 ^ 64" "n < 2 ^ 64"
  shows "IsEOF n s \<longleftrightarrow> n \<le> m_length s \<and> m_length s < m_position s + n"
proof (cases "n \<le> m_length s")
  case True
  then show ?thesis using assms size_sub_eq [OF True assms(2)] by (auto simp: IsEOF_def)
next
  case False
  then have "size_sub (m_length s) n = m_length s + 2 ^ 64 - n"
    using assms by (intro size_sub_wrap) auto
  then show ?thesis using False assms by (auto simp: IsEOF_def)
qed

section \<open>Reading\<close>

lemma load_bytes_Inr:
  "load_bytes p i n = Inr xs \<longleftrightarrow>
     length xs = n \<and> (n = 0 \<or> (\<exists>m. p = Some m \<and> i + n \<le> length m \<and> take n (drop i m) = map Some xs))"
proof -
  have "None \<notin> set cs \<Longrightarrow> map Some (map the cs) = cs" for cs :: "cell list"
    by (induction cs) auto
  then show ?thesis
    by (cases p) (auto simp: load_bytes_def Let_def)
qed

lemma load_bytes_slice:
  assumes "load_bytes p i n = Inr xs" "a + b \<le> n"
  shows "load_bytes p (i + a) b = Inr (take b (drop a xs))"
proof (cases "b = 0")
  case False
  from assms obtain m where m: "length xs = n" "p = Some m" "i + n \<le> length m"
    "take n (drop i m) = map Some xs"
    using False by (auto simp: load_bytes_Inr)
  have "take b (drop a (take n (drop i m))) = take b (drop (i + a) m)"
    using assms(2) by (simp add: drop_take min_def ac_simps)
  then have "take b (drop (i + a) m) = map Some (take b (drop a xs))"
    by (simp add: m(4) take_map drop_map)
  then show ?thesis using m assms(2) by (auto simp: load_bytes_Inr)
qed (simp add: load_bytes_def)

definition reading :: "BinaryStream \<Rightarrow> nat \<Rightarrow> u8 list \<Rightarrow> bool" where
  "reading s k c \<longleftrightarrow> m_subBytePosition s = k \<and> k < 8 \<and> (k > 0 \<longrightarrow> c \<noteq> []) \<and>
     m_position s + length c = m_length s \<and> m_length s < 2 ^ 64 \<and>
     load_bytes (GetBuffer s) (m_position s) (length c) = Inr c"

definition unread :: "nat \<Rightarrow> u8 list \<Rightarrow> u8 list" where
  "unread k c = (if k = 0 then c else tl c)"

lemma unread_0 [simp]: "unread 0 c = c"
  by (simp add: unread_def)

lemma GetBuffer_update [simp]:
  "GetBuffer (s\<lparr>m_position := p\<rparr>) = GetBuffer s"
  "GetBuffer (s\<lparr>m_subBytePosition := k\<rparr>) = GetBuffer s"
  by (simp_all add: GetBuffer_def split: ro_pointer.split)

lemma reading_not_EOF: "reading s k c \<Longrightarrow> n \<le> length c \<Longrightarrow> \<not> IsEOF n s"
  by (subst IsEOF_iff) (auto simp: reading_def)

lemma reading_Align:
  assumes "reading s k c"
  shows "reading (Align s) 0 (unread k c)"
proof (cases "k = 0")
  case True
  then have "Align s = s" using assms by (cases s) (simp add: Align_def reading_def)
  then show ?thesis using assms True by simp
next
  case False
  with assms obtain x c' where c: "c = x # c'" by (cases c) (auto simp: reading_def)
  have "load_bytes (GetBuffer s) (m_position s + 1) (length c') = Inr (take (length c') (drop 1 c))"
    using assms c by (intro load_bytes_slice) (auto simp: reading_def)
  then show ?thesis using assms c False
    by (simp add: reading_def unread_def Align_def Let_def)
qed

lemma reading_advance:
  assumes "reading s 0 c" "n \<le> length c"
  shows "load_bytes (GetBuffer s) (m_position s) n = Inr (take n c) \<and>
    reading (s\<lparr>m_position := m_position s + n\<rparr>) 0 (drop n c)"
  using assms load_bytes_slice [of "GetBuffer s" "m_position s" "length c" c 0 n]
    load_bytes_slice [of "GetBuffer s" "m_position s" "length c" c n "length c - n"]
  by (simp add: reading_def)

lemma reading_ReadBytes:
  assumes r: "reading s k c" and n: "n \<le> length (unread k c)"
  shows "\<exists>s'. ReadBytes n s = Inr (Some (take n (unread k c)), s') \<and>
    reading s' 0 (drop n (unread k c))"
proof -
  have "length (unread k c) \<le> length c" by (simp add: unread_def)
  then have "\<not> IsEOF n s" using n reading_not_EOF [OF r, of n] by simp
  then show ?thesis
    using reading_advance [OF reading_Align [OF r] n] by (simp add: ReadBytes_def Let_def)
qed

lemma reading_ReadByte:
  assumes r: "reading s k c" and c: "unread k c = b # c'"
  shows "\<exists>s'. ReadByte s = Inr (b, s') \<and> reading s' 0 c'"
proof -
  have "c \<noteq> []" using c by (auto simp: unread_def split: if_splits)
  then have "\<not> IsEOF 1 s" using r by (intro reading_not_EOF) (auto simp: Suc_le_eq)
  then show ?thesis
    using reading_advance [OF reading_Align [OF r], of 1] c by (simp add: ReadByte_def Let_def)
qed

lemma reading_ReadBool:
  assumes r: "reading s k (b # c)"
  shows "\<exists>s'. ReadBool s = Inr (b AND drop_bit k 0x80 \<noteq> 0, s') \<and>
    (if k < 7 then reading s' (Suc k) (b # c) else reading s' 0 c)"
proof -
  have "\<not> IsEOF 1 s" using r by (intro reading_not_EOF) auto
  moreover have "load_bytes (GetBuffer s) (m_position s) 1 = Inr [b]"
    using r load_bytes_slice [of "GetBuffer s" "m_position s" "length (b # c)" "b # c" 0 1]
    by (simp add: reading_def)
  moreover have "load_bytes (GetBuffer s) (Suc (m_position s)) (length c) = Inr c"
    using r load_bytes_slice [of "GetBuffer s" "m_position s" "length (b # c)" "b # c" 1 "length c"]
    by (simp add: reading_def)
  ultimately show ?thesis using r by (auto simp: ReadBool_def reading_def Let_def)
qed

end
