(* ===== verification/Stream_Codec.thy ===== *)
theory Stream_Codec
  imports Stream_Laws
begin

text \<open>
  The byte codecs of the stream.  \<open>codec\<close> and \<open>aligning_codec\<close> are the contract between a writer
  and a reader of one type of value; the list laws are proved once from the contract, and the
  integer, variable-length integer and string operations are shown to meet it.
\<close>

section \<open>Byte order\<close>


definition be16 :: "u16 \<Rightarrow> u8 list" where
  "be16 v = [ucast (drop_bit 8 v), ucast v]"
definition be32 :: "u32 \<Rightarrow> u8 list" where
  "be32 v = [ucast (drop_bit 24 v), ucast (drop_bit 16 v), ucast (drop_bit 8 v), ucast v]"
definition be64 :: "u64 \<Rightarrow> u8 list" where
  "be64 v = be32 (ucast (drop_bit 32 v)) @ be32 (ucast v)"

lemma byte_masks:
  "(0xFF0000 :: u32) = push_bit 16 (mask 8)" "(0xFF00 :: u32) = push_bit 8 (mask 8)"
  by (simp_all add: mask_eq_exp_minus_1 push_bit_eq_mult)

lemma bit_le_value:
  "bit (le_value bs :: 'a::len word) i \<longleftrightarrow>
     i < LENGTH('a) \<and> i < 8 * length bs \<and> bit (bs ! (i div 8)) (i mod 8)"
proof (induction bs arbitrary: i)
  case (Cons b bs)
  show ?case
  proof (cases "i < 8")
    case True
    then show ?thesis by (auto simp: bit_simps)
  next
    case False
    then have "i div 8 = Suc ((i - 8) div 8)" "i mod 8 = (i - 8) mod 8"
      by (simp_all add: le_div_geq le_mod_geq)
    moreover have "\<not> bit b i" using False by (auto dest: bit_imp_le_length)
    ultimately show ?thesis using False Cons.IH [of "i - 8"]
      by (auto simp: bit_simps)
  qed
qed simp

lemma le_value_bytes:
  fixes v :: "'a::len word"
  assumes "LENGTH('a) = 8 * length bs"
    and "\<And>j. j < length bs \<Longrightarrow> bs ! j = ucast (drop_bit (8 * j) v)"
  shows "le_value bs = v"
proof (rule bit_word_eqI)
  fix i assume i: "i < LENGTH('a)"
  then have "i div 8 < length bs" using assms(1) by auto
  then have "bit (bs ! (i div 8)) (i mod 8) = bit v (8 * (i div 8) + i mod 8)"
    by (simp add: assms(2) bit_simps)
  then show "bit (le_value bs :: 'a word) i = bit v i"
    using i assms(1) by (simp add: bit_le_value)
qed

lemma swap16_swap16: "Htons e (Htons e v) = v"
  by (cases e) (simp_all add: Htons_def, rule bit_word_eqI, auto simp: bit_simps)

lemma bit_Htonl: "bit (Htonl LittleEndian v) i \<longleftrightarrow> i < 32 \<and> bit v (if i < 8 then i + 24 else if i < 16 then i + 8 else if i < 24 then i - 8 else i - 24)"
  by (cases "i < 8"; cases "i < 16"; cases "i < 24"; cases "i < 32")
    (auto simp: Htonl_def byte_masks bit_simps ac_simps dest: bit_imp_le_length)

lemma swap32_swap32: "Htonl e (Htonl e v) = v"
proof (cases e)
  case LittleEndian
  show ?thesis unfolding LittleEndian
  proof (rule bit_word_eqI)
    fix i assume "i < LENGTH(32)"
    then show "bit (Htonl LittleEndian (Htonl LittleEndian v)) i = bit v i"
      by (auto simp: bit_Htonl)
  qed
qed (simp add: Htonl_def)

lemma mem_Htons: "mem_of_u16 e (Htons e v) = be16 v"
proof (cases e)
  case LittleEndian
  show ?thesis unfolding LittleEndian
    by (simp add: mem_of_u16_def Htons_def be16_def, intro conjI;
        rule bit_word_eqI, auto simp: bit_simps)
qed (simp add: mem_of_u16_def Htons_def be16_def)

lemma mem_Htonl: "mem_of_u32 e (Htonl e v) = be32 v"
proof (cases e)
  case LittleEndian
  show ?thesis unfolding LittleEndian
    by (simp add: mem_of_u32_def Htonl_def be32_def byte_masks, intro conjI;
        rule bit_word_eqI, auto simp: bit_simps)
qed (simp add: mem_of_u32_def Htonl_def be32_def)

lemma mem_u64: "mem_of_u64 BigEndian v = be64 v"
  unfolding mem_of_u64_def be64_def be32_def
  by (simp, intro conjI; rule bit_word_eqI, auto simp: bit_simps)

lemma word_of_mem_mem:
  "word_of_mem e (mem_of_u16 e x) = x" "word_of_mem e (mem_of_u32 e y) = y" "word_of_mem e (mem_of_u64 e z) = z"
  by (cases e; auto simp: word_of_mem_def mem_of_u16_def mem_of_u32_def mem_of_u64_def
     less_Suc_eq numeral_eq_Suc simp del: le_value.simps intro!: le_value_bytes)+

lemma Ntohs_be16: "Ntohs e (word_of_mem e (be16 v)) = v"
proof -
  have "Ntohs e = Htons e" by (simp add: Ntohs_def Htons_def fun_eq_iff)
  then show ?thesis by (metis mem_Htons word_of_mem_mem(1) swap16_swap16)
qed

lemma Ntohl_be32: "Ntohl e (word_of_mem e (be32 v)) = v"
  unfolding Ntohl_def by (metis mem_Htonl word_of_mem_mem(2) swap32_swap32)

lemma word_of_mem_be64: "word_of_mem BigEndian (be64 v) = v"
  by (metis mem_u64 word_of_mem_mem(3))

lemma IsLittleEndian_iff: "IsLittleEndian e \<longleftrightarrow> e = LittleEndian"
  by (cases e) (simp_all add: IsLittleEndian_def Htonl_def)

lemma halves_u64:
  "(ucast (drop_bit 32 v AND 0xFFFFFFFF) :: u32) = ucast (drop_bit 32 (v :: u64))"
  "(ucast (v AND 0xFFFFFFFF) :: u32) = ucast v"
proof -
  have m: "(0xFFFFFFFF :: u64) = mask 32" by (simp add: mask_eq_exp_minus_1)
  show "(ucast (drop_bit 32 v AND 0xFFFFFFFF) :: u32) = ucast (drop_bit 32 v)"
    "(ucast (v AND 0xFFFFFFFF) :: u32) = ucast v"
    unfolding m by (rule bit_word_eqI, auto simp: bit_simps)+
qed

lemma join_u64:
  "push_bit 32 (ucast (ucast (drop_bit 32 v) :: u32)) OR ucast (ucast v :: u32) = (v :: u64)"
  by (rule bit_word_eqI) (auto simp: bit_simps)

lemma length_be [simp]: "length (be16 v) = 2" "length (be32 w) = 4" "length (be64 x) = 8"
  by (simp_all add: be16_def be32_def be64_def)

section \<open>Streams at the start of a write or a read\<close>

lemma cells_new: "cells (BinaryStream_new n) = fresh_cells (next_capacity n)"
  by (simp add: BinaryStream_new_def Let_def cells_def fresh_cells_def)

lemma written_new: "written (BinaryStream_new n) [] []"
  using cells_new [of n]
  by (simp add: written_def stream_ok_def contents_def flushed_def)
    (simp add: BinaryStream_new_def Let_def ro_of_def)

lemma GetBuffer_written:
  assumes "written s c []" "c \<noteq> []"
  shows "\<exists>m. GetBuffer s = Some m \<and> take (length c) m = map Some c \<and> length c \<le> length m"
proof -
  have ok: "stream_ok s" and c: "contents s = c"
    using assms(1) by (simp_all add: written_def flushed_def)
  have len: "m_length s = length c" using length_contents [OF ok] c by simp
  with assms(2) obtain m where m: "m_buffer s = Some m" "m_buffer_ro s = RoOwn"
    using ok by (cases "m_buffer s") (auto simp: stream_ok_def cells_def)
  then have "GetBuffer s = Some m" "cells s = m" by (simp_all add: GetBuffer_def cells_def)
  then show ?thesis using take_cells [OF ok] c len stream_okE [OF ok] by auto
qed

lemma m_length_written: "written s c [] \<Longrightarrow> m_length s = length c"
  using length_contents [of s] by (simp add: written_def flushed_def)

lemma load_written:
  assumes "written s c []"
  shows "load_bytes (GetBuffer s) 0 (length c) = Inr c"
  using GetBuffer_written [OF assms] by (cases "c = []") (auto simp: load_bytes_Inr)

lemma Seek_ok:
  assumes "stream_ok s" "m_subBytePosition s = 0"
  shows "stream_ok (Seek p s)" "contents (Seek p s) = contents s"
    "m_subBytePosition (Seek p s) = 0" "m_length (Seek p s) = m_length s"
    "m_position (Seek p s) = min p (m_length s)"
  using assms by (auto simp: Seek_def stream_ok_def cells_def contents_def)

lemma reading_SeekToBegin:
  assumes w: "written s c []" and sz: "length c \<le> max_stream"
  shows "reading (SeekToBegin s) 0 c"
  using load_written [OF w] m_length_written [OF w] sz w
  by (simp add: reading_def SeekToBegin_def Seek_def max_stream_def written_def)

lemma reading_wrap:
  assumes "length c < 2 ^ 64"
    and "BinaryStream_wrap (Some (map Some c @ rest)) (length c) READONLY = Inr s"
  shows "reading s 0 c"
  using assms by (auto simp: BinaryStream_wrap_def reading_def GetBuffer_def load_bytes_Inr)

lemma written_object: "written s c bits \<Longrightarrow> written (Align s) (flushed c bits) []"
  using Align_ok [of s] written_Align [of s c bits]
  by (simp add: written_def flushed_def)

section \<open>Byte codecs\<close>

text \<open>
  The contract of a pair of stream operations that writes and reads values of one type: from a
  byte boundary on, the writer appends the encoding and the reader consumes it.
\<close>

locale codec =
  fixes put :: "'a \<Rightarrow> BinaryStream \<Rightarrow> BinaryStream result"
    and get :: "BinaryStream \<Rightarrow> ('a \<times> BinaryStream) result"
    and enc :: "'a \<Rightarrow> u8 list"
    and valid :: "'a \<Rightarrow> bool"
  assumes put_written: "valid x \<Longrightarrow> written s c [] \<Longrightarrow> length c + length (enc x) \<le> max_stream \<Longrightarrow>
      \<exists>s'. put x s = Inr s' \<and> written s' (c @ enc x) []"
    and get_reading: "valid x \<Longrightarrow> reading s 0 (enc x @ rest) \<Longrightarrow>
      \<exists>s'. get s = Inr (x, s') \<and> reading s' 0 rest"
begin

lemma put_list:
  assumes "list_all valid xs" "written s c []"
    and "length c + length (concat (map enc xs)) \<le> max_stream"
  shows "\<exists>s'. rfold put xs s = Inr s' \<and> written s' (c @ concat (map enc xs)) []"
  using assms
proof (induction xs arbitrary: s c)
  case (Cons x xs)
  then obtain s1 where s1: "put x s = Inr s1" "written s1 (c @ enc x) []"
    using put_written [of x s c] by auto
  with Cons.IH [of s1 "c @ enc x"] Cons.prems show ?case by auto
qed simp

lemma get_list:
  assumes "list_all valid xs" "reading s 0 (concat (map enc xs) @ rest)"
  shows "\<exists>s'. rrepeat get (length xs) s = Inr (xs, s') \<and> reading s' 0 rest"
  using assms
proof (induction xs arbitrary: s)
  case (Cons x xs)
  then obtain s1 where s1: "get s = Inr (x, s1)" "reading s1 0 (concat (map enc xs) @ rest)"
    using get_reading [of x s "concat (map enc xs) @ rest"] by auto
  with Cons.IH [of s1] Cons.prems show ?case by auto
qed simp

lemma roundtrip:
  assumes "list_all valid xs" "length (concat (map enc xs)) \<le> max_stream"
  shows "\<exists>s' r. rfold put xs (BinaryStream_new n) = Inr s' \<and>
    contents s' = concat (map enc xs) \<and>
    rrepeat get (length xs) (SeekToBegin s') = Inr (xs, r) \<and> m_position r = m_length r"
proof -
  obtain s' where s': "rfold put xs (BinaryStream_new n) = Inr s'"
    "written s' (concat (map enc xs)) []"
    using put_list [OF assms(1) written_new] assms(2) by auto
  then have "reading (SeekToBegin s') 0 (concat (map enc xs) @ [])"
    using reading_SeekToBegin assms(2) by simp
  from get_list [OF assms(1) this] s' show ?thesis
    by (auto simp: written_def flushed_def reading_def)
qed

end

text \<open>
  The contract of a pair that also starts in the middle of a byte of flags, which the writer
  completes and the reader skips.
\<close>

locale aligning_codec =
  fixes put :: "'a \<Rightarrow> BinaryStream \<Rightarrow> BinaryStream result"
    and get :: "BinaryStream \<Rightarrow> ('a \<times> BinaryStream) result"
    and enc :: "'a \<Rightarrow> u8 list"
    and valid :: "'a \<Rightarrow> bool"
  assumes put_aligned: "valid x \<Longrightarrow> written s c bits \<Longrightarrow>
      length (flushed c bits) + length (enc x) \<le> max_stream \<Longrightarrow>
      \<exists>s'. put x s = Inr s' \<and> written s' (flushed c bits @ enc x) []"
    and get_aligned: "valid x \<Longrightarrow> reading s k c \<Longrightarrow> unread k c = enc x @ rest \<Longrightarrow>
      \<exists>s'. get s = Inr (x, s') \<and> reading s' 0 rest"

sublocale aligning_codec \<subseteq> codec put get enc valid
proof
  fix x s c assume "valid x" "written s c []" "length c + length (enc x) \<le> max_stream"
  then show "\<exists>s'. put x s = Inr s' \<and> written s' (c @ enc x) []"
    using put_aligned [of x s c "[]"] by (simp add: flushed_def)
next
  fix x s rest assume "valid x" "reading s 0 (enc x @ rest)"
  then show "\<exists>s'. get s = Inr (x, s') \<and> reading s' 0 rest"
    using get_aligned [of x s 0 "enc x @ rest"] by simp
qed

text \<open>\<^verbatim>\<open>Write\<close> and \<^verbatim>\<open>Read\<close> of an object align first.\<close>

lemma object_codec:
  assumes "codec put get enc valid"
  shows "aligning_codec (\<lambda>x. Write_object (put x)) (Read_object get) enc valid"
proof
  fix x s c bits
  assume a: "valid x" "written s c bits" "length (flushed c bits) + length (enc x) \<le> max_stream"
  then have "\<not> m_readonly s" by (simp add: written_def stream_ok_def)
  with codec.put_written [OF assms a(1) written_object [OF a(2)] a(3)]
  show "\<exists>s'. Write_object (put x) s = Inr s' \<and> written s' (flushed c bits @ enc x) []"
    by (simp add: Write_object_def)
next
  fix x s k c rest
  assume a: "valid x" "reading s k c" "unread k c = enc x @ rest"
  then show "\<exists>s'. Read_object get s = Inr (x, s') \<and> reading s' 0 rest"
    using codec.get_reading [OF assms a(1)] reading_Align [OF a(2)]
    by (simp add: Read_object_def)
qed

section \<open>The codecs of the stream\<close>

lemma reading_ReadBytes':
  assumes "reading s k c" "unread k c = bs @ rest" "length bs = n"
  shows "\<exists>s'. ReadBytes n s = Inr (Some bs, s') \<and> reading s' 0 rest"
  using reading_ReadBytes [OF assms(1), of n] assms(2,3) by simp

interpretation byte: aligning_codec WriteByte ReadByte "\<lambda>b. [b]" "\<lambda>_. True"
  by unfold_locales (auto simp: WriteByte_WriteBytes intro: written_WriteBytes reading_ReadByte)

interpretation int16: aligning_codec "WriteInt16_on e" "ReadUInt16_on e" be16 "\<lambda>_. True" for e
proof
  fix x s c bits
  assume "written s c bits" "length (flushed c bits) + length (be16 x) \<le> max_stream"
  then show "\<exists>s'. WriteInt16_on e x s = Inr s' \<and> written s' (flushed c bits @ be16 x) []"
    unfolding WriteInt16_on_def mem_Htons by (rule written_WriteBytes)
next
  fix x s k c rest
  assume "reading s k c" "unread k c = be16 x @ rest"
  from reading_ReadBytes' [OF this, of 2]
  show "\<exists>s'. ReadUInt16_on e s = Inr (x, s') \<and> reading s' 0 rest"
    by (auto simp: ReadUInt16_on_def Ntohs_be16)
qed

interpretation int32: aligning_codec "WriteInt32_on e" "ReadUInt32_on e" be32 "\<lambda>_. True" for e
proof
  fix x s c bits
  assume "written s c bits" "length (flushed c bits) + length (be32 x) \<le> max_stream"
  then show "\<exists>s'. WriteInt32_on e x s = Inr s' \<and> written s' (flushed c bits @ be32 x) []"
    unfolding WriteInt32_on_def mem_Htonl by (rule written_WriteBytes)
next
  fix x s k c rest
  assume "reading s k c" "unread k c = be32 x @ rest"
  from reading_ReadBytes' [OF this, of 4]
  show "\<exists>s'. ReadUInt32_on e s = Inr (x, s') \<and> reading s' 0 rest"
    by (auto simp: ReadUInt32_on_def Ntohl_be32)
qed

lemma WriteInt64_written:
  assumes w: "written s c bits" and sz: "length (flushed c bits) + length (be64 x) \<le> max_stream"
  shows "\<exists>s'. WriteInt64_on e x s = Inr s' \<and> written s' (flushed c bits @ be64 x) []"
proof (cases e)
  case LittleEndian
  let ?hi = "ucast (drop_bit 32 x)" and ?lo = "ucast x"
  obtain s1 where s1: "WriteInt32_on e ?hi s = Inr s1" "written s1 (flushed c bits @ be32 ?hi) []"
    using int32.put_aligned [OF _ w, of ?hi e] sz by auto
  from int32.put_written [OF _ s1(2), of ?lo e] s1(1) sz show ?thesis
    unfolding WriteInt64_on_def halves_u64 be64_def using LittleEndian
    by (auto simp: IsLittleEndian_iff)
next
  case BigEndian
  then show ?thesis using written_WriteBytes [OF w sz]
    by (simp add: WriteInt64_on_def IsLittleEndian_iff mem_u64)
qed

lemma ReadUInt64_reading:
  assumes r: "reading s k c" and c: "unread k c = be64 x @ rest"
  shows "\<exists>s'. ReadUInt64_on e s = Inr (x, s') \<and> reading s' 0 rest"
proof (cases e)
  case LittleEndian
  let ?hi = "ucast (drop_bit 32 x)" and ?lo = "ucast x"
  obtain s1 where s1: "ReadUInt32_on e s = Inr (?hi, s1)" "reading s1 0 (be32 ?lo @ rest)"
    using int32.get_aligned [OF _ r, of ?hi "be32 ?lo @ rest" e] c by (auto simp: be64_def)
  from int32.get_reading [OF _ s1(2), of e] s1(1) show ?thesis
    using LittleEndian by (auto simp: ReadUInt64_on_def IsLittleEndian_iff join_u64)
next
  case BigEndian
  then show ?thesis using reading_ReadBytes' [OF r c, of 8]
    by (auto simp: ReadUInt64_on_def IsLittleEndian_iff word_of_mem_be64)
qed

interpretation int64: aligning_codec "WriteInt64_on e" "ReadUInt64_on e" be64 "\<lambda>_. True" for e
  by unfold_locales (auto intro: WriteInt64_written ReadUInt64_reading)


subsection \<open>Variable-length integers and strings\<close>

text \<open>The reference encoding: seven bits per byte, least significant group first.\<close>

function enc7 :: "u32 \<Rightarrow> u8 list" where
  "enc7 raw =
     (if drop_bit 7 raw > 0 then (ucast (raw AND 0x7F) OR 0x80) # enc7 (drop_bit 7 raw)
      else [ucast (raw AND 0x7F)])"
  by pat_completeness auto
termination
  by (relation "measure unat") (auto simp: drop_bit_7_less)

declare enc7.simps [simp del]

lemma length_enc7:
  "unat raw < 128 ^ j \<Longrightarrow> 0 < j \<Longrightarrow> length (enc7 raw) \<le> j"
proof (induction raw arbitrary: j rule: enc7.induct)
  case (1 raw)
  show ?case
  proof (cases "drop_bit 7 raw > 0")
    case True
    have eq: "unat (drop_bit 7 raw) = unat raw div 128"
      using unat_drop_bit_eq [of 7 raw] by (simp only: drop_bit_eq_div [where 'a = nat]) simp
    have "unat (drop_bit 7 raw) > 0" using True by (simp add: unat_gt_0 word_greater_zero_iff)
    with eq have "unat raw \<ge> 128" by (simp add: div_greater_zero_iff)
    with "1.prems" obtain i where j: "j = Suc i" "0 < i"
      by (cases j; cases "j - 1") auto
    have "unat (drop_bit 7 raw) < 128 ^ i" using "1.prems"(1) j eq by (simp add: less_mult_imp_div_less mult.commute)
    with "1.IH" [OF True] j have "length (enc7 (drop_bit 7 raw)) \<le> i" by simp
    then show ?thesis using True j by (subst enc7.simps) simp
  next
    case False
    then show ?thesis using "1.prems" by (subst enc7.simps) simp
  qed
qed

lemma length_enc7_le: "length (enc7 raw) \<le> 5"
proof (rule length_enc7)
  have "unat raw < 2 ^ 32" using unsigned_less [of raw] by simp
  then show "unat raw < 128 ^ 5" by simp
qed simp

lemma enc7_le: "unat raw < 128 \<Longrightarrow> length (enc7 raw) = 1"
  using length_enc7 [of raw 1] by (cases "enc7 raw") (auto simp: enc7.simps [of raw] split: if_splits)

lemma Write7BitEncodedInt_written:
  "written s c bits \<Longrightarrow> length (flushed c bits) + length (enc7 raw) \<le> max_stream \<Longrightarrow>
   \<exists>s'. Write7BitEncodedInt raw s = Inr s' \<and> written s' (flushed c bits @ enc7 raw) []"
proof (induction raw arbitrary: s c bits rule: enc7.induct)
  case (1 raw)
  define b where "b = (if drop_bit 7 raw > 0 then ucast (raw AND 0x7F) OR 0x80
                       else (ucast (raw AND 0x7F) :: u8))"
  have enc: "enc7 raw = b # (if drop_bit 7 raw > 0 then enc7 (drop_bit 7 raw) else [])"
    by (subst enc7.simps) (simp add: b_def)
  obtain s1 where s1: "WriteByte b s = Inr s1" "written s1 (flushed c bits @ [b]) []"
    using byte.put_aligned [OF _ "1.prems"(1), of b] "1.prems"(2) enc by auto
  have eq: "Write7BitEncodedInt raw s =
      (if drop_bit 7 raw > 0 then Write7BitEncodedInt (drop_bit 7 raw) s1 else Inr s1)"
    using s1(1) by (subst Write7BitEncodedInt.simps) (auto simp: b_def Let_def)
  show ?case
  proof (cases "drop_bit 7 raw > 0")
    case True
    from "1.IH" [OF True s1(2)] "1.prems"(2) enc True eq show ?thesis by (simp add: flushed_def)
  next
    case False
    with eq s1 enc show ?thesis by simp
  qed
qed

lemma snippet_bits:
  "(ucast (raw AND 0x7F) OR 0x80 :: u8) AND 0x80 \<noteq> 0"
  "(ucast (raw AND 0x7F) :: u8) AND 0x80 = 0"
  "ucast ((ucast (raw AND 0x7F) OR 0x80 :: u8) AND 0x7F) = raw AND (0x7F :: u32)"
  "ucast ((ucast (raw AND 0x7F) :: u8) AND 0x7F) = raw AND (0x7F :: u32)"
proof -
  have m: "(0x7F :: u32) = mask 7" "(0x7F :: u8) = mask 7"
    by (simp_all add: mask_eq_exp_minus_1)
  have b: "bit (0x80 :: u8) n \<longleftrightarrow> n = 7" for n using bit_0x80 [of 0 n] by simp
  have "bit ((ucast (raw AND 0x7F) OR 0x80 :: u8) AND 0x80) 7"
    unfolding m by (simp add: bit_simps b)
  then show "(ucast (raw AND 0x7F) OR 0x80 :: u8) AND 0x80 \<noteq> 0"
    by (metis bit_0_eq bot_apply bot_bool_def)
  show "(ucast (raw AND 0x7F) :: u8) AND 0x80 = 0"
    unfolding m
    by (rule bit_word_eqI)
      (auto simp only: bit_and_iff bit_unsigned_iff bit_mask_iff b bit_0_eq bot_apply bot_bool_def)
  show "ucast ((ucast (raw AND 0x7F) OR 0x80 :: u8) AND 0x7F) = raw AND (0x7F :: u32)"
    unfolding m
    by (rule bit_word_eqI)
      (simp only: bit_and_iff bit_or_iff bit_unsigned_iff bit_mask_iff b, auto)
  show "ucast ((ucast (raw AND 0x7F) :: u8) AND 0x7F) = raw AND (0x7F :: u32)"
    unfolding m by (rule bit_word_eqI) (auto simp: bit_simps b)
qed

lemma snippet_join:
  "push_bit (7 * i) (raw AND 0x7F) OR push_bit (7 * Suc i) (drop_bit 7 raw) =
   push_bit (7 * i) (raw :: u32)"
proof -
  have m: "(0x7F :: u32) = mask 7" by (simp add: mask_eq_exp_minus_1)
  show ?thesis unfolding m
  proof (rule bit_word_eqI)
    fix n assume "n < LENGTH(32)"
    moreover have "7 + (n - (7 + 7 * i)) = n - 7 * i" if "\<not> n < 7 + 7 * i" using that by simp
    ultimately show "bit (push_bit (7 * i) (raw AND mask 7) OR
        push_bit (7 * Suc i) (drop_bit 7 raw)) n = bit (push_bit (7 * i) raw) n"
      by (cases "n < 7 + 7 * i") (auto simp: bit_simps)
  qed
qed

lemma Read7BitEncodedInt_loop_reading:
  "reading s k c \<Longrightarrow> unread k c = enc7 raw @ rest \<Longrightarrow> i + length (enc7 raw) \<le> 5 \<Longrightarrow>
   \<exists>s'. Read7BitEncodedInt_loop i out s = Inr (out OR push_bit (7 * i) raw, s') \<and>
     reading s' 0 rest"
proof (induction raw arbitrary: s k c i out rule: enc7.induct)
  case (1 raw)
  show ?case
  proof (cases "drop_bit 7 raw > 0")
    case True
    then have enc: "enc7 raw = (ucast (raw AND 0x7F) OR 0x80) # enc7 (drop_bit 7 raw)"
      by (subst enc7.simps) simp
    obtain s1 where s1: "ReadByte s = Inr (ucast (raw AND 0x7F) OR 0x80, s1)"
      "reading s1 0 (enc7 (drop_bit 7 raw) @ rest)"
      using reading_ReadByte [OF "1.prems"(1)] "1.prems"(2) enc by auto
    let ?out = "out OR push_bit (7 * i) (raw AND 0x7F)"
    obtain s' where s': "Read7BitEncodedInt_loop (Suc i) ?out s1 =
        Inr (?out OR push_bit (7 * Suc i) (drop_bit 7 raw), s')" "reading s' 0 rest"
      using "1.IH" [OF True s1(2), of "Suc i" ?out] "1.prems"(3) enc by auto
    have "Read7BitEncodedInt_loop i out s = Read7BitEncodedInt_loop (Suc i) ?out s1"
      using s1(1) "1.prems"(3) enc
      by (subst Read7BitEncodedInt_loop.simps) (simp add: snippet_bits Let_def)
    then show ?thesis using s' unfolding or.assoc snippet_join by simp
  next
    case False
    then have enc: "enc7 raw = [ucast (raw AND 0x7F)]" by (subst enc7.simps) simp
    have "drop_bit 7 raw = 0" using False by (simp add: word_greater_zero_iff)
    then have raw: "push_bit (7 * i) (raw AND 0x7F) = push_bit (7 * i) raw"
      using snippet_join [of i raw] by simp
    obtain s1 where "ReadByte s = Inr (ucast (raw AND 0x7F), s1)" "reading s1 0 rest"
      using reading_ReadByte [OF "1.prems"(1)] "1.prems"(2) enc by auto
    then show ?thesis using "1.prems"(3) enc
      by (subst Read7BitEncodedInt_loop.simps) (simp add: snippet_bits raw Let_def del: push_bit_and)
  qed
qed

interpretation varint: aligning_codec Write7BitEncodedInt Read7BitEncodedInt enc7 "\<lambda>_. True"
proof
  fix x s k c rest assume "reading s k c" "unread k c = enc7 x @ rest"
  from Read7BitEncodedInt_loop_reading [OF this, of 0 0]
  show "\<exists>s'. Read7BitEncodedInt s = Inr (x, s') \<and> reading s' 0 rest"
    using length_enc7_le by (simp add: Read7BitEncodedInt_def)
qed (rule Write7BitEncodedInt_written)

definition enc_string :: "u8 list \<Rightarrow> u8 list" where
  "enc_string str = enc7 (of_nat (length str)) @ str"

definition valid_string :: "u8 list \<Rightarrow> bool" where
  "valid_string str \<longleftrightarrow> length str < 2 ^ 31 - 1"

lemma unat_scast_small: "n < 2 ^ 31 \<Longrightarrow> unat (scast (of_nat n :: u32) :: u64) = n"
proof -
  assume n: "n < 2 ^ 31"
  have "sint (of_nat n :: u32) = signed_take_bit 31 (int n)"
    using sint_sbintrunc' [where 'a = 32, of "int n"] by simp
  also have "\<dots> = int n" using n by (intro signed_take_bit_int_eq_self) auto
  finally have "(scast (of_nat n :: u32) :: u64) = of_nat n" by (simp add: scast_eq)
  then show ?thesis using n by (simp add: unat_of_nat_small)
qed

interpretation str: aligning_codec WriteString ReadString enc_string valid_string
proof
  fix x s c bits
  assume a: "valid_string x" "written s c bits"
    "length (flushed c bits) + length (enc_string x) \<le> max_stream"
  let ?n = "of_nat (length x)"
  obtain s1 where s1: "Write7BitEncodedInt ?n s = Inr s1" "written s1 (flushed c bits @ enc7 ?n) []"
    using varint.put_aligned [OF _ a(2), of ?n] a(3) by (auto simp: enc_string_def)
  with written_WriteBytes [OF s1(2), of x] a(1,3)
  show "\<exists>s'. WriteString x s = Inr s' \<and> written s' (flushed c bits @ enc_string x) []"
    by (auto simp: WriteString_def valid_string_def enc_string_def flushed_def)
next
  fix x s k c rest
  assume a: "valid_string x" "reading s k c" "unread k c = enc_string x @ rest"
  let ?n = "of_nat (length x) :: u32"
  obtain s1 where s1: "Read7BitEncodedInt s = Inr (?n, s1)" "reading s1 0 (x @ rest)"
    using varint.get_aligned [OF _ a(2), of ?n "x @ rest"] a(3) by (auto simp: enc_string_def)
  have len: "unat (scast ?n :: u64) = length x"
    using a(1) by (intro unat_scast_small) (auto simp: valid_string_def)
  have "\<not> IsEOF (length x) s1" using s1(2) by (rule reading_not_EOF) simp
  then show "\<exists>s'. ReadString s = Inr (x, s') \<and> reading s' 0 rest"
    using s1 len reading_advance [OF s1(2), of "length x"] by (simp add: ReadString_def Let_def)
qed

subsection \<open>Flags\<close>

lemma put_flags:
  assumes "written s c bits" "length bits + length fs < 8" "length c < max_stream"
  shows "\<exists>s'. rfold WriteBool fs s = Inr s' \<and> written s' c (bits @ fs)"
  using assms
proof (induction fs arbitrary: s bits)
  case (Cons f fs)
  then obtain s1 where "WriteBool f s = Inr s1" "written s1 c (bits @ [f])"
    using written_WriteBool [OF Cons.prems(1,3), of f] by auto
  with Cons.IH [of s1 "bits @ [f]"] Cons.prems show ?case by auto
qed simp

lemma get_flag:
  assumes "reading s k (pack bits # c)" "k < length bits" "length bits < 8"
  shows "\<exists>s'. ReadBool s = Inr (bits ! k, s') \<and> reading s' (Suc k) (pack bits # c)"
  using reading_ReadBool [OF assms(1)] assms(2,3) by (auto simp: pack_AND)


end
