(* ===== verification/Stream_Values.thy ===== *)
theory Stream_Values
  imports Stream_Codec
begin

text \<open>
  Sequences of mixed values on one stream, flags included, and the properties of the byte stream.
  \<open>write_value\<close> and \<open>read_value\<close> choose the stream operation for a value; \<open>enc_values\<close> is the
  reference encoding, in which consecutive flags share a byte.
\<close>


section \<open>Sequences of values\<close>

datatype stream_value =
    VBool bool | VByte u8 | V16 u16 | V32 u32 | V64 u64 | VVar u32 | VString "u8 list"

datatype stream_kind = KBool | KByte | K16 | K32 | K64 | KVar | KString

fun kind_of :: "stream_value \<Rightarrow> stream_kind" where
  "kind_of (VBool _) = KBool"
| "kind_of (VByte _) = KByte"
| "kind_of (V16 _) = K16"
| "kind_of (V32 _) = K32"
| "kind_of (V64 _) = K64"
| "kind_of (VVar _) = KVar"
| "kind_of (VString _) = KString"

fun write_value :: "endian \<Rightarrow> stream_value \<Rightarrow> BinaryStream \<Rightarrow> BinaryStream result" where
  "write_value e (VBool b) = WriteBool b"
| "write_value e (VByte v) = WriteByte v"
| "write_value e (V16 v) = WriteInt16_on e v"
| "write_value e (V32 v) = WriteInt32_on e v"
| "write_value e (V64 v) = WriteInt64_on e v"
| "write_value e (VVar v) = Write7BitEncodedInt v"
| "write_value e (VString v) = WriteString v"

definition read_as ::
  "('a \<Rightarrow> stream_value) \<Rightarrow> ('a \<times> BinaryStream) result \<Rightarrow> (stream_value \<times> BinaryStream) result" where
  "read_as V r = rbind r (\<lambda>(v, s). Inr (V v, s))"

fun read_value :: "endian \<Rightarrow> stream_kind \<Rightarrow> BinaryStream \<Rightarrow> (stream_value \<times> BinaryStream) result" where
  "read_value e KBool s = read_as VBool (ReadBool s)"
| "read_value e KByte s = read_as VByte (ReadByte s)"
| "read_value e K16 s = read_as V16 (ReadUInt16_on e s)"
| "read_value e K32 s = read_as V32 (ReadUInt32_on e s)"
| "read_value e K64 s = read_as V64 (ReadUInt64_on e s)"
| "read_value e KVar s = read_as VVar (Read7BitEncodedInt s)"
| "read_value e KString s = read_as VString (ReadString s)"

fun read_values ::
  "endian \<Rightarrow> stream_kind list \<Rightarrow> BinaryStream \<Rightarrow> (stream_value list \<times> BinaryStream) result" where
  "read_values e [] s = Inr ([], s)"
| "read_values e (k # ks) s =
     rbind (read_value e k s) (\<lambda>(v, s). rbind (read_values e ks s) (\<lambda>(vs, s). Inr (v # vs, s)))"

fun enc_value :: "stream_value \<Rightarrow> u8 list" where
  "enc_value (VBool b) = [pack [b]]"
| "enc_value (VByte v) = [v]"
| "enc_value (V16 v) = be16 v"
| "enc_value (V32 v) = be32 v"
| "enc_value (V64 v) = be64 v"
| "enc_value (VVar v) = enc7 v"
| "enc_value (VString v) = enc_string v"

fun enc_values :: "bool list \<Rightarrow> stream_value list \<Rightarrow> u8 list" where
  "enc_values bits [] = flushed [] bits"
| "enc_values bits (v # vs) = (case v of
      VBool b \<Rightarrow> if length bits < 7 then enc_values (bits @ [b]) vs
                 else pack (bits @ [b]) # enc_values [] vs
    | _ \<Rightarrow> flushed [] bits @ enc_value v @ enc_values [] vs)"

fun valid_value :: "stream_value \<Rightarrow> bool" where
  "valid_value (VString v) = valid_string v"
| "valid_value _ = True"

fun is_flag :: "stream_value \<Rightarrow> bool" where
  "is_flag (VBool _) = True"
| "is_flag _ = False"

lemma flushed_append: "flushed c bits = c @ flushed [] bits"
  by (simp add: flushed_def)

lemma write_value_written:
  assumes "\<not> is_flag v" "valid_value v" "written s c bits"
    "length (flushed c bits) + length (enc_value v) \<le> max_stream"
  shows "\<exists>s'. write_value e v s = Inr s' \<and> written s' (flushed c bits @ enc_value v) []"
  using assms
  by (cases v)
    (auto intro: byte.put_aligned int16.put_aligned int32.put_aligned int64.put_aligned
      varint.put_aligned str.put_aligned)

lemma read_value_reading:
  assumes "\<not> is_flag v" "valid_value v" "reading s k c" "unread k c = enc_value v @ rest"
  shows "\<exists>s'. read_value e (kind_of v) s = Inr (v, s') \<and> reading s' 0 rest"
proof (cases v)
  case (VByte x)
  then show ?thesis using assms byte.get_aligned [OF _ assms(3), of x rest] by (auto simp: read_as_def)
next
  case (V16 x)
  then show ?thesis using assms int16.get_aligned [OF _ assms(3), of x rest e] by (auto simp: read_as_def)
next
  case (V32 x)
  then show ?thesis using assms int32.get_aligned [OF _ assms(3), of x rest e] by (auto simp: read_as_def)
next
  case (V64 x)
  then show ?thesis using assms int64.get_aligned [OF _ assms(3), of x rest e] by (auto simp: read_as_def)
next
  case (VVar x)
  then show ?thesis using assms varint.get_aligned [OF _ assms(3), of x rest] by (auto simp: read_as_def)
next
  case (VString x)
  then show ?thesis using assms str.get_aligned [OF _ assms(3), of x rest] by (auto simp: read_as_def)
qed (use assms in auto)

lemma enc_values_bytes:
  "\<not> is_flag v \<Longrightarrow> enc_values bits (v # vs) = flushed [] bits @ enc_value v @ enc_values [] vs"
  by (cases v) auto

lemma enc_values_ne: "bits \<noteq> [] \<Longrightarrow> enc_values bits vs \<noteq> []"
proof (induction vs arbitrary: bits)
  case (Cons v vs)
  then show ?case by (cases v) (auto simp: flushed_def)
qed (simp add: flushed_def)

lemma write_values_written:
  assumes "list_all valid_value vs" "written s c bits"
    and "length c + length (enc_values bits vs) \<le> max_stream"
  shows "\<exists>s' c' bits'. rfold (write_value e) vs s = Inr s' \<and> written s' c' bits' \<and>
    flushed c' bits' = c @ enc_values bits vs"
  using assms
proof (induction vs arbitrary: s c bits)
  case Nil
  then show ?case using flushed_append [of c bits] by auto
next
  case (Cons v vs)
  show ?case
  proof (cases "is_flag v")
    case True
    then obtain b where v: "v = VBool b" by (cases v) auto
    have "length c < max_stream"
    proof -
      have "length (enc_values bits (v # vs)) > 0" using v enc_values_ne [of "bits @ [b]" vs] by auto
      then show ?thesis using Cons.prems(3) by linarith
    qed
    with written_WriteBool [OF Cons.prems(2), of b] obtain s1 where s1: "WriteBool b s = Inr s1"
      "if length bits < 7 then written s1 c (bits @ [b])
       else written s1 (c @ [pack (bits @ [b])]) []" by auto
    show ?thesis
    proof (cases "length bits < 7")
      case True
      then show ?thesis using Cons.IH [of s1 c "bits @ [b]"] Cons.prems s1 v by auto
    next
      case False
      then show ?thesis
        using Cons.IH [of s1 "c @ [pack (bits @ [b])]" "[]"] Cons.prems s1 v by auto
    qed
  next
    case False
    then have enc: "enc_values bits (v # vs) = flushed [] bits @ enc_value v @ enc_values [] vs"
      by (rule enc_values_bytes)
    obtain s1 where s1: "write_value e v s = Inr s1"
      "written s1 (flushed c bits @ enc_value v) []"
      using write_value_written [OF False, of s c bits e] Cons.prems enc flushed_append [of c bits]
      by auto
    with Cons.IH [OF _ s1(2)] Cons.prems enc flushed_append [of c bits] show ?thesis by auto
  qed
qed

text \<open>The byte in which the pending flags end up.\<close>

lemma enc_values_flags:
  assumes "bits \<noteq> []" "length bits < 8"
  shows "\<exists>fs rest. enc_values bits vs = pack (bits @ fs) # rest \<and> length (bits @ fs) \<le> 8"
  using assms
proof (induction vs arbitrary: bits)
  case Nil
  then show ?case by (intro exI [of _ "[]"]) (auto simp: flushed_def)
next
  case (Cons v vs)
  show ?case
  proof (cases "is_flag v")
    case True
    then obtain b where v: "v = VBool b" by (cases v) auto
    show ?thesis
    proof (cases "length bits < 7")
      case True
      then obtain fs rest where "enc_values (bits @ [b]) vs = pack ((bits @ [b]) @ fs) # rest"
        "length ((bits @ [b]) @ fs) \<le> 8" using Cons.IH [of "bits @ [b]"] by auto
      then show ?thesis using True v by (intro exI [of _ "b # fs"]) auto
    next
      case False
      then show ?thesis using v Cons.prems by (intro exI [of _ "[b]"]) auto
    qed
  next
    case False
    then show ?thesis using Cons.prems
      by (intro exI [of _ "[]"] exI [of _ "enc_value v @ enc_values [] vs"])
        (auto simp: enc_values_bytes flushed_def simp del: enc_values.simps)
  qed
qed

lemma enc_values_flag:
  assumes "length bits < 8"
  shows "\<exists>fs rest. enc_values bits (VBool b # vs) = pack (bits @ b # fs) # rest \<and>
    length (bits @ b # fs) \<le> 8"
proof (cases "length bits < 7")
  case True
  then show ?thesis using enc_values_flags [of "bits @ [b]" vs] by auto
qed (use assms in auto)

lemma read_values_reading:
  assumes "list_all valid_value vs" "reading s (length bits) (enc_values bits vs)" "length bits < 8"
  shows "\<exists>s'. read_values e (map kind_of vs) s = Inr (vs, s') \<and>
    m_position (Align s') = m_length s'"
  using assms
proof (induction vs arbitrary: s bits)
  case Nil
  then show ?case
    using reading_Align [OF Nil.prems(2)]
    by (cases "bits = []") (auto simp: reading_def flushed_def unread_def)
next
  case (Cons v vs)
  show ?case
  proof (cases "is_flag v")
    case True
    then obtain b where v: "v = VBool b" by (cases v) auto
    obtain fs rest where enc: "enc_values bits (v # vs) = pack (bits @ b # fs) # rest"
      "length (bits @ b # fs) \<le> 8" using enc_values_flag [OF Cons.prems(3)] v by blast
    have bit: "(pack (bits @ b # fs) AND drop_bit (length bits) 0x80 \<noteq> 0) = b"
      using pack_AND [OF enc(2), of "length bits"] by simp
    obtain s1 where s1: "ReadBool s = Inr (b, s1)"
      "if length bits < 7 then reading s1 (Suc (length bits)) (pack (bits @ b # fs) # rest)
       else reading s1 0 rest"
      using reading_ReadBool [of s "length bits" "pack (bits @ b # fs)" rest] Cons.prems(2)
      unfolding enc(1) bit by blast
    show ?thesis
    proof (cases "length bits < 7")
      case True
      then show ?thesis using Cons.IH [of s1 "bits @ [b]"] Cons.prems s1 enc v
        by (auto simp: read_as_def)
    next
      case False
      then have "enc_values [] vs = rest" using enc v by auto
      with False show ?thesis using Cons.IH [of s1 "[]"] Cons.prems s1 v
        by (auto simp: read_as_def)
    qed
  next
    case False
    have "unread (length bits) (enc_values bits (v # vs)) = enc_value v @ enc_values [] vs"
      by (simp add: enc_values_bytes [OF False] unread_def flushed_def del: enc_values.simps)
    with read_value_reading [OF False _ Cons.prems(2)] Cons.prems(1)
    obtain s1 where "read_value e (kind_of v) s = Inr (v, s1)" "reading s1 0 (enc_values [] vs)"
      by auto
    with Cons.IH [of s1 "[]"] Cons.prems(1) show ?thesis by auto
  qed
qed

section \<open>Properties\<close>

lemma reading_wrap_own:
  assumes ok: "stream_ok s" and sz: "m_length s < 2 ^ 64"
    and r: "BinaryStream_wrap (GetBuffer s) (m_length s) READONLY = Inr r"
  shows "reading r 0 (contents s)"
proof -
  have "GetBuffer r = GetBuffer s"
    using r by (cases "GetBuffer s") (auto simp: BinaryStream_wrap_def GetBuffer_def [of r])
  moreover have "load_bytes (GetBuffer s) 0 (m_length s) = Inr (contents s)"
  proof (cases "m_length s = 0")
    case False
    then obtain m where "m_buffer s = Some m" "m_buffer_ro s = RoOwn"
      using ok by (cases "m_buffer s") (auto simp: stream_ok_def cells_def)
    then have "GetBuffer s = Some m" "cells s = m" by (simp_all add: GetBuffer_def cells_def)
    then show ?thesis using take_cells [OF ok] stream_okE [OF ok] length_contents [OF ok]
      by (auto simp: load_bytes_Inr)
  qed (use length_contents [OF ok] in \<open>simp add: load_bytes_def\<close>)
  ultimately show ?thesis using r sz length_contents [OF ok]
    by (auto simp: reading_def BinaryStream_wrap_def)
qed

text \<open>
  C10.  Any sequence of flags, bytes, integers, variable-length integers and strings that is written
  to a fresh stream is stored in the reference encoding, and a peer that wraps those bytes
  read-only and reads values of the same kinds gets the same sequence and ends at the end of the
  stream; writer and reader may run on hosts of different byte order.
\<close>

theorem stream_values_roundtrip:
  assumes "list_all valid_value vs" "length (enc_values [] vs) \<le> max_stream"
  shows "\<exists>s r s'. rfold (write_value e) vs (BinaryStream_new n) = Inr s \<and>
    contents s = enc_values [] vs \<and>
    BinaryStream_wrap (GetBuffer s) (m_length s) READONLY = Inr r \<and>
    read_values e' (map kind_of vs) r = Inr (vs, s') \<and> m_position (Align s') = m_length s'"
proof -
  obtain s c bits where s: "rfold (write_value e) vs (BinaryStream_new n) = Inr s"
    "written s c bits" "flushed c bits = enc_values [] vs"
    using write_values_written [OF assms(1) written_new [of n], of e] assms(2) by auto
  then have ok: "stream_ok s" and con: "contents s = enc_values [] vs"
    by (auto simp: written_def)
  obtain r where r: "BinaryStream_wrap (GetBuffer s) (m_length s) READONLY = Inr r"
    by (simp add: BinaryStream_wrap_def)
  have "m_length s < 2 ^ 64"
    using length_contents [OF ok] con assms(2) by (simp add: max_stream_def)
  then have "reading r (length []) (enc_values [] vs)"
    using reading_wrap_own [OF ok _ r] con by simp
  from read_values_reading [OF assms(1) this] s r con show ?thesis by auto
qed

theorem stream_values_roundtrip_witness:
  "\<exists>s r s'. rfold (write_value LittleEndian)
      [VBool True, VBool False, V16 0x1234, VString [104, 105], VBool True, V64 7] (BinaryStream_new 0) = Inr s \<and>
    contents s = [0x80, 0x12, 0x34, 2, 104, 105, 0x80, 0, 0, 0, 0, 0, 0, 0, 7] \<and>
    BinaryStream_wrap (GetBuffer s) (m_length s) READONLY = Inr r \<and>
    read_values BigEndian [KBool, KBool, K16, KString, KBool, K64] r =
      Inr ([VBool True, VBool False, V16 0x1234, VString [104, 105], VBool True, V64 7], s') \<and>
    m_position (Align s') = m_length s'"
proof -
  let ?vs = "[VBool True, VBool False, V16 0x1234, VString [104, 105], VBool True, V64 7]"
  have v: "list_all valid_value ?vs" by (simp add: valid_string_def)
  have "enc7 2 = [2]" by (subst enc7.simps) simp
  then have e: "enc_values [] ?vs = [0x80, 0x12, 0x34, 2, 104, 105, 0x80, 0, 0, 0, 0, 0, 0, 0, 7]"
    by (simp add: flushed_def be16_def be64_def be32_def enc_string_def pack_def)
  have "length (enc_values [] ?vs) \<le> max_stream" unfolding e by (simp add: max_stream_def)
  from stream_values_roundtrip [OF v this, of LittleEndian 0 BigEndian] e show ?thesis by simp
qed

text \<open>
  C34.  Overwriting in the middle: after a seek to a position inside the stream, \<^verbatim>\<open>WriteBytes\<close>
  replaces exactly the bytes from there on, extends the stream where they reach beyond its end,
  keeps the invariant, and the bytes are read back from the same position.
\<close>

theorem seek_write_read:
  assumes ok: "stream_ok s" "m_subBytePosition s = 0" and p: "p \<le> m_length s"
    and sz: "p + length bs \<le> max_stream" "m_length s \<le> max_stream"
  shows "\<exists>s'. WriteBytes bs (Seek p s) = Inr s' \<and> stream_ok s' \<and>
    contents s' = take p (contents s) @ bs @ drop (p + length bs) (contents s) \<and>
    ReadBytes (length bs) (Seek p s') = Inr (Some bs, Seek (p + length bs) s')"
proof -
  let ?s = "Seek p s"
  have ok': "stream_ok ?s" using ok by (auto simp: stream_ok_def Seek_def cells_def)
  have pos: "m_position (Align ?s) = p" using ok(2) p by (simp add: Align_def Seek_def)
  have con: "contents ?s = contents s" by (simp add: contents_def Seek_def cells_def)
  obtain s' where s': "WriteBytes bs ?s = Inr s'" "stream_ok s'"
    "contents s' = overwrite p bs (contents s)" "m_position s' = p + length bs"
    "m_subBytePosition s' = 0"
    using WriteBytes_ok [OF ok', of bs] pos con sz by auto
  have len: "m_length s' = max (m_length s) (p + length bs)"
    using length_contents [OF s'(2)] s'(3) length_contents [OF ok(1)] p
    by (auto simp: overwrite_def)
  obtain r where r: "BinaryStream_wrap (GetBuffer s') (m_length s') READONLY = Inr r"
    by (simp add: BinaryStream_wrap_def)
  have r0: "reading r 0 (contents s')"
    using reading_wrap_own [OF s'(2) _ r] len sz by (simp add: max_stream_def)
  have "GetBuffer r = GetBuffer s'"
    using r by (cases "GetBuffer s'") (auto simp: BinaryStream_wrap_def GetBuffer_def [of r])
  then have "load_bytes (GetBuffer s') 0 (m_length s') = Inr (contents s')"
    using r0 r length_contents [OF s'(2)] by (auto simp: reading_def BinaryStream_wrap_def)
  from load_bytes_slice [OF this, of p "length bs"] len
  have load: "load_bytes (GetBuffer s') p (length bs) = Inr bs"
    using p length_contents [OF ok(1)] by (simp add: s'(3) overwrite_def)
  have seek: "Seek p s' = s'\<lparr>m_position := p\<rparr>"
    "Seek (p + length bs) s' = s'\<lparr>m_position := p + length bs\<rparr>"
    using len p by (simp_all add: Seek_def)
  have al: "Align (s'\<lparr>m_position := p\<rparr>) = s'\<lparr>m_position := p\<rparr>"
    using s'(5) by (cases s') (simp add: Align_def)
  have "\<not> IsEOF (length bs) (Seek p s')"
    using len sz by (subst IsEOF_iff) (auto simp: Seek_def max_stream_def)
  then have "ReadBytes (length bs) (Seek p s') = Inr (Some bs, Seek (p + length bs) s')"
    using load seek al by (simp add: ReadBytes_def Let_def)
  with s' show ?thesis by (auto simp: overwrite_def)
qed

theorem seek_write_read_witness:
  "\<exists>s. WriteBytes [1, 2, 3] (BinaryStream_new 4) = Inr s \<and>
    (\<exists>s'. WriteBytes [8, 9] (Seek 2 s) = Inr s' \<and> stream_ok s' \<and> contents s' = [1, 2, 8, 9] \<and>
      ReadBytes 2 (Seek 2 s') = Inr (Some [8, 9], Seek 4 s'))"
proof -
  obtain s where s: "WriteBytes [1, 2, 3] (BinaryStream_new 4) = Inr s" "written s [1, 2, 3] []"
    using written_WriteBytes [OF written_new, of "[1, 2, 3]" 4]
    by (auto simp: flushed_def max_stream_def)
  then have "stream_ok s" "m_subBytePosition s = 0" "contents s = [1, 2, 3]" "m_length s = 3"
    using m_length_written [OF s(2)] by (simp_all add: written_def flushed_def)
  with seek_write_read [of s 2 "[8, 9]"] s(1) show ?thesis
    by (simp add: max_stream_def flip: numeral_2_eq_2)
qed

text \<open>
  Growth: asking for free space keeps contents and position; it leaves the array as it is
  when there is room, and otherwise installs the least power of two that fits, so a stream never
  holds twice as much memory as was asked for.
\<close>

lemma Ensure_growth:
  assumes ok: "stream_ok s" and n: "m_position s + n \<le> 2 ^ 32"
  shows "\<exists>s'. Ensure n s = Inr s' \<and> stream_ok s' \<and> contents s' = contents s \<and>
    m_position s' = m_position s \<and> m_position s + n \<le> m_capacity s' \<and>
    (if m_position s + n \<le> m_capacity s then s' = s
     else (\<exists>k. m_capacity s' = 2 ^ k) \<and> m_capacity s' < 2 * (m_position s + n))"
proof -
  obtain s' where s': "Ensure n s = Inr s'" "stream_ok s'" "contents s' = contents s"
    "m_position s' = m_position s" "m_position s + n \<le> m_capacity s'"
    using Ensure_ok [OF ok, of n] n by auto
  note okE = stream_okE [OF ok]
  show ?thesis
  proof (cases "m_position s + n \<le> m_capacity s")
    case True
    then have "s' = s" using s'(1) okE by (auto simp: Ensure_def split: if_splits)
    then show ?thesis using s' True by auto
  next
    case False
    then have re: "Reallocate (m_position s + n) s = Inr s'"
      using s'(1) okE by (auto simp: Ensure_def split: if_splits)
    then have "m_capacity s' = max (next_capacity (m_position s + n)) 1"
      using okE(1) by (auto simp: Reallocate_def Let_def split: option.splits)
    moreover have "0 < m_position s + n" using False by linarith
    then obtain k where "next_capacity (m_position s + n) = 2 ^ k" "2 ^ k < 2 * (m_position s + n)"
      using next_capacity_power_of_two [OF _ n] by auto
    ultimately have "m_capacity s' = 2 ^ k" "m_capacity s' < 2 * (m_position s + n)" by simp_all
    then show ?thesis using s' False by auto
  qed
qed

lemma Ensure_growth_witness:
  "\<exists>s'. Ensure 5 (BinaryStream_new 3) = Inr s' \<and> stream_ok s' \<and> contents s' = [] \<and>
    m_position s' = 0 \<and> 5 \<le> m_capacity s' \<and> (\<exists>k. m_capacity s' = 2 ^ k) \<and> m_capacity s' < 10"
proof -
  have w: "written (BinaryStream_new 3) [] []" by (rule written_new)
  have "m_position (BinaryStream_new 3) = 0" "m_capacity (BinaryStream_new 3) = 4"
    by (simp_all add: BinaryStream_new_def next_capacity_def ToNextPowerOfTwo_def Let_def)
  with Ensure_growth [of "BinaryStream_new 3" 5] w show ?thesis
    by (auto simp: written_def flushed_def)
qed

text \<open>
  \<^verbatim>\<open>IsEOF(n)\<close> reports exactly that fewer than \<open>n\<close> bytes are left, unless \<open>n\<close> is larger
  than the whole stream: then the unsigned subtraction wraps around and the test never fires.
\<close>

lemma IsEOF_wraps:
  assumes "m_position s \<le> m_length s" "m_length s < 2 ^ 64" "n < 2 ^ 64"
  shows "IsEOF n s \<longleftrightarrow> n \<le> m_length s \<and> m_length s - m_position s < n"
  using IsEOF_iff [OF assms] assms(1) by auto

lemma IsEOF_wraps_witness:
  "\<exists>s. BinaryStream_wrap (Some [Some 1, Some 2]) 2 READONLY = Inr s \<and>
    \<not> IsEOF 3 s \<and> IsEOF 2 (Seek 1 s) \<and> \<not> IsEOF 1 (Seek 1 s)"
proof -
  obtain s where s: "BinaryStream_wrap (Some [Some 1, Some 2]) 2 READONLY = Inr s"
    by (simp add: BinaryStream_wrap_def)
  then have "m_length s = 2" "m_position s = 0" by (auto simp: BinaryStream_wrap_def)
  then show ?thesis using s IsEOF_wraps [of s 3] IsEOF_wraps [of "Seek 1 s" 2]
    IsEOF_wraps [of "Seek 1 s" 1] by (auto simp: Seek_def)
qed

text \<open>
  Hence a read of more bytes than a datagram holds is not refused when it is the first read:
  it runs over the end of the array.  So does a read of all the bytes that were left after one of
  the flags of the first byte was read, since the test is done before the alignment.
\<close>

lemma ReadBytes_overreads:
  assumes "length c < 2 ^ 64" "BinaryStream_wrap (Some (map Some c)) (length c) READONLY = Inr r"
  shows "(\<forall>n. length c < n \<and> n < 2 ^ 64 \<longrightarrow> ReadBytes n r = Inl OutOfBounds) \<and>
    (\<forall>b r'. c \<noteq> [] \<and> ReadBool r = Inr (b, r') \<longrightarrow> ReadBytes (length c) r' = Inl OutOfBounds)"
proof (intro conjI allI impI)
  have r: "m_position r = 0" "m_length r = length c" "m_subBytePosition r = 0"
    "GetBuffer r = Some (map Some c)"
    using assms(2) by (auto simp: BinaryStream_wrap_def GetBuffer_def)
  show "ReadBytes n r = Inl OutOfBounds" if n: "length c < n \<and> n < 2 ^ 64" for n
  proof -
    have "\<not> IsEOF n r" using r assms(1) n by (subst IsEOF_iff) auto
    then show ?thesis using r n by (auto simp: ReadBytes_def Let_def Align_def load_bytes_def)
  qed
  show "ReadBytes (length c) r' = Inl OutOfBounds"
    if c: "c \<noteq> [] \<and> ReadBool r = Inr (b, r')" for b r'
  proof -
    obtain x c' where x: "c = x # c'" using c by (cases c) auto
    have "reading r 0 (x # c')" using reading_wrap [of c "[]" r] assms x by simp
    from reading_ReadBool [OF this] c have r': "reading r' 1 c" using x by auto
    moreover have "GetBuffer r' = Some (map Some c)" "m_position r' = 0"
      using c r by (auto simp: ReadBool_def Let_def split: if_splits)
    ultimately show ?thesis using reading_not_EOF [OF r', of "length c"] x
      by (auto simp: ReadBytes_def Let_def Align_def load_bytes_def reading_def)
  qed
qed

lemma ReadBytes_overreads_witness:
  "\<exists>r. BinaryStream_wrap (Some (map Some [0x80, 5])) (length [0x80, 5 :: u8]) READONLY = Inr r \<and>
    ReadBytes 3 r = Inl OutOfBounds \<and>
    (\<exists>r'. ReadBool r = Inr (True, r') \<and> ReadBytes 2 r' = Inl OutOfBounds)"
proof -
  let ?c = "[0x80, 5 :: u8]"
  obtain r where r: "BinaryStream_wrap (Some (map Some ?c)) (length ?c) READONLY = Inr r"
    by (simp add: BinaryStream_wrap_def)
  have "reading r 0 ?c" using reading_wrap [of ?c "[]" r] r by simp
  from reading_ReadBool [OF this] obtain r' where "ReadBool r = Inr (True, r')" by auto
  with r ReadBytes_overreads [of ?c r] show ?thesis by (auto simp flip: numeral_2_eq_2)
qed

text \<open>
  Copy assignment from a read-only stream: the assertion on the capacities holds exactly when
  the wrapped length is a power of two, although every length up to \<open>2 ^ 32\<close> can be wrapped.
\<close>

lemma assign_readonly_iff:
  assumes "0 < length c" "length c \<le> 2 ^ 32" "\<not> m_readonly this" "m_length this = 0"
    and "BinaryStream_wrap (Some (map Some c)) (length c) READONLY = Inr other"
  shows "(\<exists>s. BinaryStream_assign this other = Inr s) \<longleftrightarrow> (\<exists>k. length c = 2 ^ k)"
proof -
  have o: "m_capacity other = length c" "m_length other = length c"
    "GetBuffer other = Some (map Some c)"
    using assms(5) by (auto simp: BinaryStream_wrap_def GetBuffer_def)
  obtain k where k: "next_capacity (length c) = 2 ^ k" "length c \<le> 2 ^ k" "2 ^ k < 2 * length c"
    using next_capacity_power_of_two [OF assms(1,2)] by blast
  have mx: "max (2 ^ k) (Suc 0) = 2 ^ k" by (simp add: max_absorb1)
  have re: "\<exists>s. Reallocate (length c) this = Inr s \<and> m_capacity s = 2 ^ k \<and>
      (\<exists>m. m_buffer s = Some m \<and> length m = 2 ^ k)"
    using assms(3,4) k(1) mx
    by (auto simp: Reallocate_def Let_def memcpy_cells_def split: option.splits)
  have "length c = 2 ^ k" if "length c = 2 ^ j" for j
  proof -
    have "2 ^ j \<le> (2 :: nat) ^ k" "(2 :: nat) ^ k < 2 ^ Suc j" using k(2,3) that by simp_all
    then have "j \<le> k" "k < Suc j" by (simp_all only: power_increasing_iff power_strict_increasing_iff)
    then show ?thesis using that by (simp add: le_antisym)
  qed
  then have pow: "(\<exists>j. length c = 2 ^ j) \<longleftrightarrow> length c = 2 ^ k" by blast
  show ?thesis unfolding pow using re o assms(1)
    by (auto simp: BinaryStream_assign_def memcpy_cells_def store_cells_def Let_def)
qed

lemma assign_readonly_iff_witness:
  "\<exists>other. BinaryStream_wrap (Some (map Some [1, 2, 3])) (length [1, 2, 3 :: u8]) READONLY = Inr other \<and>
    \<not> (\<exists>s. BinaryStream_assign (BinaryStream_new 0) other = Inr s)"
proof -
  let ?c = "[1, 2, 3 :: u8]"
  obtain r where r: "BinaryStream_wrap (Some (map Some ?c)) (length ?c) READONLY = Inr r"
    by (simp add: BinaryStream_wrap_def)
  have "\<not> m_readonly (BinaryStream_new 0)" "m_length (BinaryStream_new 0) = 0"
    by (simp_all add: BinaryStream_new_def Let_def)
  with assign_readonly_iff [OF _ _ _ _ r, of "BinaryStream_new 0"]
  have iff: "(\<exists>s. BinaryStream_assign (BinaryStream_new 0) r = Inr s) \<longleftrightarrow> (\<exists>k. length ?c = 2 ^ k)"
    by simp
  have "length ?c \<noteq> 2 ^ k" for k by (cases k) (simp, simp, presburger)
  with iff r show ?thesis by blast
qed

end
