(* ===== verification/Headers.thy ===== *)
theory Headers
  imports Stream_Values
begin

text \<open>
  The two wire headers: \<^verbatim>\<open>source/PacketHeader.cpp\<close> and \<^verbatim>\<open>source/DatagramHeader.cpp\<close>.
  \<^verbatim>\<open>Deserialize\<close> fills in an existing header and reports whether it was valid; it is modelled
  with the header it starts from as an argument.
\<close>

section \<open>Packet header\<close>

record PacketHeader =
  flag_segment :: bool
  flag_jumbo :: bool
  ph_id :: PacketID
  ph_options :: PacketOptions
  ph_channel :: ChannelIndex
  ph_sequence :: SequenceID
  ph_length :: u32
  ph_offset :: u32
  splitContainer :: PacketID
  splitIndex :: u32

definition PacketHeader_default :: PacketHeader where
  "PacketHeader_default = \<lparr>flag_segment = False, flag_jumbo = False, ph_id = 0,
     ph_options = UNRELIABLE, ph_channel = 0, ph_sequence = 0, ph_length = 0, ph_offset = 0,
     splitContainer = 0, splitIndex = 0\<rparr>"

definition PacketHeader_Serialize :: "PacketHeader \<Rightarrow> BinaryStream \<Rightarrow> BinaryStream result" where
  "PacketHeader_Serialize h s =
     rbind (WriteBool (flag_segment h) s) (\<lambda>s.
     rbind (WriteBool (flag_jumbo h) s) (\<lambda>s.
     rbind (WriteInt32 (ph_id h) s) (\<lambda>s.
     rbind (WriteByte (ph_options h) s) (\<lambda>s.
     rbind (WriteByte (ph_channel h) s) (\<lambda>s.
     rbind (if ph_channel h \<noteq> 0 then WriteInt32 (ph_sequence h) s else Inr s) (\<lambda>s.
     rbind (if flag_jumbo h
            then rbind (WriteInt32 (ph_length h) s) (WriteInt32 (ph_offset h))
            else rbind (WriteInt16 (ucast (ph_length h AND 0xFFFF)) s)
                   (WriteInt16 (ucast (ph_offset h AND 0xFFFF)))) (\<lambda>s.
     if flag_segment h \<or> ph_offset h > 0
     then rbind (WriteInt32 (splitContainer h) s) (WriteInt32 (splitIndex h))
     else Inr s)))))))"

definition PacketHeader_Deserialize ::
  "PacketHeader \<Rightarrow> BinaryStream \<Rightarrow> ((bool \<times> PacketHeader) \<times> BinaryStream) result" where
  "PacketHeader_Deserialize h s =
     (if IsEOF 7 s then Inr ((False, h), s) else
      rbind (ReadBool s) (\<lambda>(segment, s).
      rbind (ReadBool s) (\<lambda>(jumbo, s).
      rbind (ReadUInt32 s) (\<lambda>(i, s).
      rbind (ReadByte s) (\<lambda>(opts, s).
      rbind (ReadByte s) (\<lambda>(chan, s).
      let h = h\<lparr>flag_segment := segment, flag_jumbo := jumbo, ph_id := i, ph_options := opts,
                ph_channel := chan\<rparr>
      in rbind (if chan \<noteq> 0
                then rbind (ReadUInt32 s) (\<lambda>(v, s). Inr (h\<lparr>ph_sequence := v\<rparr>, s))
                else Inr (h, s)) (\<lambda>(h, s).
      rbind (if jumbo
             then if IsEOF 8 s then Inr (False, h, s)
                  else rbind (ReadUInt32 s) (\<lambda>(len, s). rbind (ReadUInt32 s) (\<lambda>(off, s).
                       Inr (True, h\<lparr>ph_length := len, ph_offset := off\<rparr>, s)))
             else if IsEOF 4 s then Inr (False, h, s)
                  else rbind (ReadUInt16 s) (\<lambda>(len, s). rbind (ReadUInt16 s) (\<lambda>(off, s).
                       Inr (True, h\<lparr>ph_length := ucast len, ph_offset := ucast off\<rparr>, s))))
        (\<lambda>(ok, h, s).
      if \<not> ok then Inr ((False, h), s) else
      rbind (if flag_segment h \<or> ph_offset h > 0
             then if IsEOF 8 s then Inr (False, h, s)
                  else rbind (ReadUInt32 s) (\<lambda>(c, s). rbind (ReadUInt32 s) (\<lambda>(ix, s).
                       Inr (True, h\<lparr>splitContainer := c, splitIndex := ix\<rparr>, s)))
             else Inr (True, h, s)) (\<lambda>(ok, h, s).
      if \<not> ok then Inr ((False, h), s) else
      Inr ((unat (ph_length h) \<le> PACKET_MAX_LENGTH \<and> unat (ph_offset h) < PACKET_MAX_LENGTH, h), s))))))))))"

text \<open>
  The bytes that \<^verbatim>\<open>Serialize\<close> writes, and the headers they represent without loss.  The description in
  \<^verbatim>\<open>docs/md/WireFormat.md\<close> differs: it has neither the options nor the sequence number nor the two fields of a segment,
  and it puts the offset before the length.
\<close>

definition enc_PacketHeader :: "PacketHeader \<Rightarrow> u8 list" where
  "enc_PacketHeader h =
     pack [flag_segment h, flag_jumbo h] # be32 (ph_id h) @ [ph_options h, ph_channel h] @
     (if ph_channel h \<noteq> 0 then be32 (ph_sequence h) else []) @
     (if flag_jumbo h then be32 (ph_length h) @ be32 (ph_offset h)
      else be16 (ucast (ph_length h)) @ be16 (ucast (ph_offset h))) @
     (if flag_segment h \<or> ph_offset h > 0 then be32 (splitContainer h) @ be32 (splitIndex h)
      else [])"

definition valid_PacketHeader :: "PacketHeader \<Rightarrow> bool" where
  "valid_PacketHeader h \<longleftrightarrow>
     (ph_channel h = 0 \<longrightarrow> ph_sequence h = 0) \<and>
     (\<not> flag_jumbo h \<longrightarrow> unat (ph_length h) < 2 ^ 16 \<and> unat (ph_offset h) < 2 ^ 16) \<and>
     (\<not> flag_segment h \<and> ph_offset h = 0 \<longrightarrow> splitContainer h = 0 \<and> splitIndex h = 0) \<and>
     unat (ph_length h) \<le> PACKET_MAX_LENGTH \<and> unat (ph_offset h) < PACKET_MAX_LENGTH"

lemma ucast_mask16: "(ucast (v AND 0xFFFF) :: u16) = ucast (v :: u32)"
proof -
  have m: "(0xFFFF :: u32) = mask 16" by (simp add: mask_eq_exp_minus_1)
  show ?thesis unfolding m by (rule bit_word_eqI) (auto simp: bit_simps)
qed

lemma ucast_up_down16: "unat (v :: u32) < 2 ^ 16 \<Longrightarrow> ucast (ucast v :: u16) = v"
proof -
  assume v: "unat v < 2 ^ 16"
  have "\<not> bit v i" if "16 \<le> i" for i
  proof -
    have "unat v < 2 ^ i" using v power_increasing [OF that, of "2 :: nat"] by linarith
    then have "\<not> bit (unat v) i" by (simp add: bit_iff_odd)
    then show ?thesis by (simp add: bit_unsigned_iff)
  qed
  then have "bit v n \<Longrightarrow> n < 16" for n by (meson not_le)
  then show ?thesis by (intro bit_word_eqI) (auto simp: bit_simps)
qed

lemma enc_values_snoc:
  "\<not> is_flag v \<Longrightarrow> enc_values bits (vs @ [v]) = enc_values bits vs @ enc_value v"
proof (induction vs arbitrary: bits)
  case Nil
  then show ?case using enc_values_bytes [of v bits "[]"] by (simp add: flushed_def)
next
  case (Cons u vs)
  then show ?case by (cases u) auto
qed

text \<open>A sequence of values that ends at a byte boundary.\<close>

lemma write_values_bytes:
  assumes "list_all valid_value vs" "vs \<noteq> []" "\<not> is_flag (last vs)" "written s c bits"
    and "length c + length (enc_values bits vs) \<le> max_stream"
  shows "\<exists>s'. rfold (write_value e) vs s = Inr s' \<and> written s' (c @ enc_values bits vs) []"
proof -
  obtain us v where vs: "vs = us @ [v]" using assms(2) by (cases vs rule: rev_cases) auto
  then have v: "\<not> is_flag v" "valid_value v" "list_all valid_value us" using assms(1,3) by auto
  note enc = enc_values_snoc [OF v(1), of bits us]
  obtain s1 c1 bits1 where s1: "rfold (write_value e) us s = Inr s1" "written s1 c1 bits1"
    "flushed c1 bits1 = c @ enc_values bits us"
    using write_values_written [OF v(3) assms(4), of e] assms(5) vs enc by auto
  from write_value_written [OF v(1,2) s1(2), of e] s1 assms(5) vs enc show ?thesis
    by (auto simp: rfold_append)
qed

definition PacketHeader_values :: "PacketHeader \<Rightarrow> stream_value list" where
  "PacketHeader_values h =
     [VBool (flag_segment h), VBool (flag_jumbo h), V32 (ph_id h), VByte (ph_options h),
      VByte (ph_channel h)] @
     (if ph_channel h \<noteq> 0 then [V32 (ph_sequence h)] else []) @
     (if flag_jumbo h then [V32 (ph_length h), V32 (ph_offset h)]
      else [V16 (ucast (ph_length h)), V16 (ucast (ph_offset h))]) @
     (if flag_segment h \<or> ph_offset h > 0 then [V32 (splitContainer h), V32 (splitIndex h)]
      else [])"

lemma PacketHeader_Serialize_values:
  "PacketHeader_Serialize h s = rfold (write_value LittleEndian) (PacketHeader_values h) s"
proof -
  have id: "rbind m Inr = m" for m :: "BinaryStream result" by (cases m) simp_all
  have "(\<lambda>s. rbind (f s) Inr) = f" for f :: "BinaryStream \<Rightarrow> BinaryStream result"
    using id by auto
  then show ?thesis
    by (simp add: PacketHeader_Serialize_def PacketHeader_values_def ucast_mask16 id rbind_assoc
      fun_eq_iff cong: rbind_cong)
qed

lemma enc_PacketHeader_values: "enc_values [] (PacketHeader_values h) = enc_PacketHeader h"
  by (simp add: PacketHeader_values_def enc_PacketHeader_def flushed_def)

lemma reading_two_flags:
  assumes "reading s 0 (pack [a, b] # c)"
  shows "\<exists>s1 s2. ReadBool s = Inr (a, s1) \<and> ReadBool s1 = Inr (b, s2) \<and>
    reading s2 2 (pack [a, b] # c)"
  using get_flag [OF assms, of] get_flag [of _ 1 "[a, b]" c] by (fastforce simp: numeral_2_eq_2)

lemma reading_pair32:
  assumes "reading s 0 (be32 a @ be32 b @ rest)"
  shows "\<not> IsEOF 8 s \<and> (\<exists>s1 s2. ReadUInt32 s = Inr (a, s1) \<and> ReadUInt32 s1 = Inr (b, s2) \<and>
    reading s2 0 rest)"
proof -
  obtain s1 where s1: "ReadUInt32 s = Inr (a, s1)" "reading s1 0 (be32 b @ rest)"
    using int32.get_reading [OF _ assms, of LittleEndian] by auto
  then show ?thesis
    using int32.get_reading [OF _ s1(2), of LittleEndian] reading_not_EOF [OF assms, of 8] by auto
qed

lemma reading_pair16:
  assumes "reading s 0 (be16 a @ be16 b @ rest)"
  shows "\<not> IsEOF 4 s \<and> (\<exists>s1 s2. ReadUInt16 s = Inr (a, s1) \<and> ReadUInt16 s1 = Inr (b, s2) \<and>
    reading s2 0 rest)"
proof -
  obtain s1 where s1: "ReadUInt16 s = Inr (a, s1)" "reading s1 0 (be16 b @ rest)"
    using int16.get_reading [OF _ assms, of LittleEndian] by auto
  then show ?thesis
    using int16.get_reading [OF _ s1(2), of LittleEndian] reading_not_EOF [OF assms, of 4] by auto
qed

text \<open>
  Reading over an existing header: the fields that are not in the layout keep their old values.
\<close>

definition fits_PacketHeader :: "PacketHeader \<Rightarrow> bool" where
  "fits_PacketHeader h \<longleftrightarrow>
     (\<not> flag_jumbo h \<longrightarrow> unat (ph_length h) < 2 ^ 16 \<and> unat (ph_offset h) < 2 ^ 16) \<and>
     unat (ph_length h) \<le> PACKET_MAX_LENGTH \<and> unat (ph_offset h) < PACKET_MAX_LENGTH"

definition read_over :: "PacketHeader \<Rightarrow> PacketHeader \<Rightarrow> PacketHeader" where
  "read_over h0 h = h\<lparr>ph_sequence := (if ph_channel h \<noteq> 0 then ph_sequence h else ph_sequence h0),
     splitContainer := (if flag_segment h \<or> ph_offset h > 0 then splitContainer h else splitContainer h0),
     splitIndex := (if flag_segment h \<or> ph_offset h > 0 then splitIndex h else splitIndex h0)\<rparr>"

lemma read_lengths:
  assumes v: "fits_PacketHeader h" and r: "reading s 0 ((if flag_jumbo h then be32 (ph_length h) @ be32 (ph_offset h)
      else be16 (ucast (ph_length h)) @ be16 (ucast (ph_offset h))) @ rest)"
  shows "\<exists>s'. (if flag_jumbo h
       then if IsEOF 8 s then Inr (False, g, s)
            else rbind (ReadUInt32 s) (\<lambda>(len, s). rbind (ReadUInt32 s) (\<lambda>(off, s).
                 Inr (True, g\<lparr>ph_length := len, ph_offset := off\<rparr>, s)))
       else if IsEOF 4 s then Inr (False, g, s)
            else rbind (ReadUInt16 s) (\<lambda>(len, s). rbind (ReadUInt16 s) (\<lambda>(off, s).
                 Inr (True, g\<lparr>ph_length := ucast len, ph_offset := ucast off\<rparr>, s)))) =
      Inr (True, g\<lparr>ph_length := ph_length h, ph_offset := ph_offset h\<rparr>, s') \<and> reading s' 0 rest"
proof (cases "flag_jumbo h")
  case True
  with r reading_pair32 [of s "ph_length h" "ph_offset h" rest] show ?thesis by auto
next
  case False
  moreover have "ucast (ucast (ph_length h) :: u16) = ph_length h"
    "ucast (ucast (ph_offset h) :: u16) = ph_offset h"
    using v False by (auto simp: fits_PacketHeader_def intro!: ucast_up_down16)
  ultimately show ?thesis
    using r reading_pair16 [of s "ucast (ph_length h)" "ucast (ph_offset h)" rest] by auto
qed

lemma read_split_info:
  assumes "reading s 0 ((if split then be32 c @ be32 ix else []) @ rest)"
  shows "\<exists>s'. (if split
       then if IsEOF 8 s then Inr (False, g, s)
            else rbind (ReadUInt32 s) (\<lambda>(c, s). rbind (ReadUInt32 s) (\<lambda>(ix, s).
                 Inr (True, g\<lparr>splitContainer := c, splitIndex := ix\<rparr>, s)))
       else Inr (True, g, s)) =
      Inr (True, if split then g\<lparr>splitContainer := c, splitIndex := ix\<rparr> else g, s') \<and> reading s' 0 rest"
  using assms reading_pair32 [of s c ix rest] by (cases split) auto

lemma PacketHeader_Deserialize_over:
  assumes v: "fits_PacketHeader h" and r: "reading s 0 (enc_PacketHeader h @ rest)"
  shows "\<exists>s'. PacketHeader_Deserialize h0 s = Inr ((True, read_over h0 h), s') \<and> reading s' 0 rest"
proof -
  define fl where "fl = pack [flag_segment h, flag_jumbo h]"
  define c4 where "c4 = (if flag_segment h \<or> ph_offset h > 0
    then be32 (splitContainer h) @ be32 (splitIndex h) else []) @ rest"
  define c3 where "c3 = (if flag_jumbo h then be32 (ph_length h) @ be32 (ph_offset h)
      else be16 (ucast (ph_length h)) @ be16 (ucast (ph_offset h))) @ c4"
  define c2 where "c2 = (if ph_channel h \<noteq> 0 then be32 (ph_sequence h) else []) @ c3"
  have c: "enc_PacketHeader h @ rest =
      fl # be32 (ph_id h) @ [ph_options h] @ [ph_channel h] @ c2"
    by (simp add: enc_PacketHeader_def fl_def c2_def c3_def c4_def)
  have eof: "\<not> IsEOF 7 s" using r unfolding c by (intro reading_not_EOF) auto
  obtain a1 a2 where a: "ReadBool s = Inr (flag_segment h, a1)" "ReadBool a1 = Inr (flag_jumbo h, a2)"
    "reading a2 2 (fl # be32 (ph_id h) @ [ph_options h] @ [ph_channel h] @ c2)"
    using reading_two_flags [of s "flag_segment h" "flag_jumbo h"] r c
    unfolding fl_def by (metis append_Cons)
  obtain a3 where a3: "ReadUInt32 a2 = Inr (ph_id h, a3)"
    "reading a3 0 ([ph_options h] @ [ph_channel h] @ c2)"
    using int32.get_aligned [OF _ a(3)] by (auto simp: unread_def)
  obtain a4 where a4: "ReadByte a3 = Inr (ph_options h, a4)" "reading a4 0 ([ph_channel h] @ c2)"
    using byte.get_reading [OF _ a3(2)] by auto
  obtain a5 where a5: "ReadByte a4 = Inr (ph_channel h, a5)" "reading a5 0 c2"
    using byte.get_reading [OF _ a4(2)] by auto
  let ?h1 = "h0\<lparr>flag_segment := flag_segment h, flag_jumbo := flag_jumbo h,
    ph_id := ph_id h, ph_options := ph_options h, ph_channel := ph_channel h\<rparr>"
  let ?h2 = "?h1\<lparr>ph_sequence := (if ph_channel h \<noteq> 0 then ph_sequence h else ph_sequence h0)\<rparr>"
  obtain a6 where a6: "(if ph_channel h \<noteq> 0
      then rbind (ReadUInt32 a5) (\<lambda>(v, s). Inr (?h1\<lparr>ph_sequence := v\<rparr>, s)) else Inr (?h1, a5)) =
        Inr (?h2, a6)" "reading a6 0 c3"
    using a5(2) int32.get_reading [of a5 "ph_sequence h" c3 LittleEndian]
    by (cases "ph_channel h = 0") (auto simp: c2_def)
  let ?h3 = "?h2\<lparr>ph_length := ph_length h, ph_offset := ph_offset h\<rparr>"
  obtain a7 where a7: "(if flag_jumbo h
       then if IsEOF 8 a6 then Inr (False, ?h2, a6)
            else rbind (ReadUInt32 a6) (\<lambda>(len, s). rbind (ReadUInt32 s) (\<lambda>(off, s).
                 Inr (True, ?h2\<lparr>ph_length := len, ph_offset := off\<rparr>, s)))
       else if IsEOF 4 a6 then Inr (False, ?h2, a6)
            else rbind (ReadUInt16 a6) (\<lambda>(len, s). rbind (ReadUInt16 s) (\<lambda>(off, s).
                 Inr (True, ?h2\<lparr>ph_length := ucast len, ph_offset := ucast off\<rparr>, s)))) =
      Inr (True, ?h3, a7)" "reading a7 0 c4"
    using read_lengths [OF v a6(2) [unfolded c3_def]] by blast
  have ro: "(if flag_segment ?h3 \<or> ph_offset ?h3 > 0
      then ?h3\<lparr>splitContainer := splitContainer h, splitIndex := splitIndex h\<rparr> else ?h3) = read_over h0 h"
    by (cases h; cases h0) (simp add: read_over_def)
  have r7: "reading a7 0 ((if flag_segment ?h3 \<or> ph_offset ?h3 > 0
      then be32 (splitContainer h) @ be32 (splitIndex h) else []) @ rest)"
    using a7(2) by (simp add: c4_def)
  obtain a8 where a8: "(if flag_segment ?h3 \<or> ph_offset ?h3 > 0
       then if IsEOF 8 a7 then Inr (False, ?h3, a7)
            else rbind (ReadUInt32 a7) (\<lambda>(c, s). rbind (ReadUInt32 s) (\<lambda>(ix, s).
                 Inr (True, ?h3\<lparr>splitContainer := c, splitIndex := ix\<rparr>, s)))
       else Inr (True, ?h3, a7)) = Inr (True, read_over h0 h, a8)" "reading a8 0 rest"
    using read_split_info [OF r7, of ?h3] unfolding ro by (elim exE conjE)
  have "ph_length (read_over h0 h) = ph_length h" "ph_offset (read_over h0 h) = ph_offset h"
    by (simp_all add: read_over_def)
  then have "PacketHeader_Deserialize h0 s = Inr ((True, read_over h0 h), a8)"
    using v unfolding PacketHeader_Deserialize_def Let_def
    by (simp only: eof a a3 a4 a5 a6 a7 a8 rbind_simps prod.case if_False not_True_eq_False
      fits_PacketHeader_def simp_thms)
  with a8(2) show ?thesis by blast
qed

lemma PacketHeader_Deserialize_reading:
  assumes v: "valid_PacketHeader h" and r: "reading s 0 (enc_PacketHeader h @ rest)"
  shows "\<exists>s'. PacketHeader_Deserialize PacketHeader_default s = Inr ((True, h), s') \<and>
    reading s' 0 rest"
proof -
  have "fits_PacketHeader h" "read_over PacketHeader_default h = h"
    using v by (simp_all add: valid_PacketHeader_def fits_PacketHeader_def read_over_def
      PacketHeader_default_def word_greater_zero_iff)
  then show ?thesis using PacketHeader_Deserialize_over [OF _ r, of PacketHeader_default] by simp
qed

text \<open>The codec of a packet header; a value is a header together with the verdict \<open>True\<close>.\<close>

interpretation packet_header: codec "\<lambda>(ok, h). PacketHeader_Serialize h"
  "PacketHeader_Deserialize PacketHeader_default" "\<lambda>(ok, h). enc_PacketHeader h"
  "\<lambda>(ok, h). ok \<and> valid_PacketHeader h"
proof (unfold_locales, goal_cases)
  case (1 x s c)
  obtain ok h where x: "x = (ok, h)" by (cases x)
  have "list_all valid_value (PacketHeader_values h)" "PacketHeader_values h \<noteq> []"
    "\<not> is_flag (last (PacketHeader_values h))"
    by (simp_all add: PacketHeader_values_def)
  with 1 x show ?case
    using write_values_bytes [of "PacketHeader_values h" s c "[]" LittleEndian]
    by (simp add: enc_PacketHeader_values PacketHeader_Serialize_values)
next
  case (2 x s rest)
  then show ?case
    using PacketHeader_Deserialize_reading [of "snd x" s rest] by (cases x) auto
qed

section \<open>Datagram header\<close>

record DatagramHeader =
  flag_data :: bool
  flag_link :: bool
  acks :: "DatagramID list"
  nacks :: "DatagramID list"
  dh_datagramID :: DatagramID
  dataLength :: nat

definition DatagramHeader_default :: DatagramHeader where
  "DatagramHeader_default = \<lparr>flag_data = False, flag_link = False, acks = [], nacks = [],
     dh_datagramID = 0, dataLength = 0\<rparr>"

definition Serialize_ids :: "DatagramID list \<Rightarrow> BinaryStream \<Rightarrow> BinaryStream result" where
  "Serialize_ids ids s =
     (if ids \<noteq> []
      then (let num = min (length ids) 256
            in rassert (num > 0) (
               rbind (WriteByte (of_nat (num - 1)) s) (rfold WriteInt32 ids)))
      else Inr s)"

definition DatagramHeader_Serialize :: "DatagramHeader \<Rightarrow> BinaryStream \<Rightarrow> BinaryStream result" where
  "DatagramHeader_Serialize h s =
     rbind (WriteBool (flag_data h) s) (\<lambda>s.
     rbind (WriteBool (flag_link h) s) (\<lambda>s.
     rbind (WriteBool (acks h \<noteq> []) s) (\<lambda>s.
     rbind (WriteBool (nacks h \<noteq> []) s) (\<lambda>s.
     rbind (WriteInt32 (dh_datagramID h) s) (\<lambda>s.
     rbind (Serialize_ids (acks h) s) (\<lambda>s.
     rbind (Serialize_ids (nacks h) s) (\<lambda>s.
     if flag_data h
     then rassert (dataLength h < 2 ^ 16 - 1) (WriteInt16 (of_nat (dataLength h)) s)
     else Inr s)))))))"

definition Deserialize_ids ::
  "DatagramID list \<Rightarrow> bool \<Rightarrow> BinaryStream \<Rightarrow> (DatagramID list \<times> BinaryStream) result" where
  "Deserialize_ids ids has s =
     (if has
      then rbind (ReadByte s) (\<lambda>(n, s). rrepeat ReadUInt32 (unat n + 1) s)
      else Inr (ids, s))"

definition DatagramHeader_Deserialize ::
  "DatagramHeader \<Rightarrow> BinaryStream \<Rightarrow> ((bool \<times> DatagramHeader) \<times> BinaryStream) result" where
  "DatagramHeader_Deserialize h s =
     (if IsEOF 5 s then Inr ((False, h), s) else
      rbind (ReadBool s) (\<lambda>(fdata, s).
      rbind (ReadBool s) (\<lambda>(flink, s).
      rbind (ReadBool s) (\<lambda>(hasAcks, s).
      rbind (ReadBool s) (\<lambda>(hasNacks, s).
      rbind (ReadUInt32 s) (\<lambda>(i, s).
      rbind (Deserialize_ids (acks h) hasAcks s) (\<lambda>(as, s).
      rbind (Deserialize_ids (nacks h) hasNacks s) (\<lambda>(ns, s).
      let h = h\<lparr>flag_data := fdata, flag_link := flink, dh_datagramID := i, acks := as, nacks := ns\<rparr>
      in if fdata
         then if IsEOF 4 s then Inr ((False, h), s)
              else rbind (ReadUInt16 s) (\<lambda>(len, s).
                   let h = h\<lparr>dataLength := unat len\<rparr>
                   in Inr ((\<not> IsEOF (unat len) s, h), s))
         else Inr ((True, h), s)))))))))"

text \<open>
  The bytes of a datagram header.  The byte in front of a list of identifiers holds their number less one, so that it can stand for up to 256
  of them; \<^verbatim>\<open>docs/md/WireFormat.md\<close> describes it as the number itself, between 1 and 255.
\<close>

definition enc_ids :: "DatagramID list \<Rightarrow> u8 list" where
  "enc_ids ids = (if ids = [] then [] else of_nat (min (length ids) 256 - 1) # concat (map be32 ids))"

definition enc_DatagramHeader :: "DatagramHeader \<Rightarrow> u8 list" where
  "enc_DatagramHeader h =
     pack [flag_data h, flag_link h, acks h \<noteq> [], nacks h \<noteq> []] # be32 (dh_datagramID h) @
     enc_ids (acks h) @ enc_ids (nacks h) @
     (if flag_data h then be16 (of_nat (dataLength h)) else [])"

definition valid_DatagramHeader :: "DatagramHeader \<Rightarrow> bool" where
  "valid_DatagramHeader h \<longleftrightarrow> length (acks h) \<le> 256 \<and> length (nacks h) \<le> 256 \<and>
     dataLength h < 2 ^ 16 - 1 \<and> (\<not> flag_data h \<longrightarrow> dataLength h = 0)"

lemma Serialize_ids_written:
  assumes "written s c []" "length c + length (enc_ids ids) \<le> max_stream"
  shows "\<exists>s'. Serialize_ids ids s = Inr s' \<and> written s' (c @ enc_ids ids) []"
proof (cases "ids = []")
  case False
  let ?b = "of_nat (min (length ids) 256 - 1) :: u8"
  obtain s1 where s1: "WriteByte ?b s = Inr s1" "written s1 (c @ [?b]) []"
    using byte.put_written [OF _ assms(1), of ?b] assms(2) False by (auto simp: enc_ids_def)
  from int32.put_list [OF _ s1(2), of ids LittleEndian] assms(2) False s1(1) show ?thesis
    by (auto simp: Serialize_ids_def enc_ids_def list_all_iff)
qed (use assms in \<open>simp add: Serialize_ids_def enc_ids_def\<close>)

lemma Deserialize_ids_reading:
  assumes "length ids \<le> 256" "reading s 0 (enc_ids ids @ rest)"
  shows "\<exists>s'. Deserialize_ids [] (ids \<noteq> []) s = Inr (ids, s') \<and> reading s' 0 rest"
proof (cases "ids = []")
  case False
  let ?b = "of_nat (length ids - 1) :: u8"
  have n: "unat ?b + 1 = length ids"
  proof -
    have "unat ?b = length ids - 1" using assms(1) False
      by (intro unat_of_nat_small) (simp add: less_eq_Suc_le)
    then show ?thesis using False by simp
  qed
  obtain s1 where s1: "ReadByte s = Inr (?b, s1)" "reading s1 0 (concat (map be32 ids) @ rest)"
    using byte.get_reading [of s ?b "concat (map be32 ids) @ rest"] assms False
    by (auto simp: enc_ids_def min_absorb1)
  from int32.get_list [OF _ s1(2), of LittleEndian] s1(1) False show ?thesis
    unfolding Deserialize_ids_def by (simp add: n list_all_iff del: One_nat_def add_Suc_right)
qed (use assms in \<open>simp add: Deserialize_ids_def enc_ids_def\<close>)

text \<open>Reading does not change the length of a stream.\<close>

lemma m_length_reads: "ReadBool s = Inr (b, s') \<Longrightarrow> m_length s' = m_length s"
  by (auto simp: ReadBool_def Let_def split: if_splits)

lemma m_length_ReadByte: "ReadByte s = Inr (b, s') \<Longrightarrow> m_length s' = m_length s"
  by (auto simp: ReadByte_def Let_def split: if_splits)

lemma m_length_ReadUInt32: "ReadUInt32 s = Inr (v, s') \<Longrightarrow> m_length s' = m_length s"
  by (auto simp: ReadUInt32_on_def ReadBytes_def Let_def split: if_splits option.splits)

lemma m_length_rrepeat:
  "rrepeat ReadUInt32 n s = Inr (xs, s') \<Longrightarrow> m_length s' = m_length s"
  by (induction n arbitrary: s xs) (auto dest!: m_length_ReadUInt32)

lemma m_length_Deserialize_ids:
  "Deserialize_ids ids has s = Inr (ids', s') \<Longrightarrow> m_length s' = m_length s"
  by (auto simp: Deserialize_ids_def simp del: rrepeat.simps split: if_splits
    dest!: m_length_rrepeat m_length_ReadByte)

lemma DatagramHeader_Serialize_written:
  assumes v: "flag_data h \<Longrightarrow> dataLength h < 2 ^ 16 - 1" and w: "written s c []"
    and sz: "length c + length (enc_DatagramHeader h) \<le> max_stream"
  shows "\<exists>s'. DatagramHeader_Serialize h s = Inr s' \<and> written s' (c @ enc_DatagramHeader h) []"
proof -
  let ?fl = "[flag_data h, flag_link h, acks h \<noteq> [], nacks h \<noteq> []]"
  have len: "length c < max_stream" using sz by (simp add: enc_DatagramHeader_def)
  obtain s1 where s1: "rfold WriteBool ?fl s = Inr s1" "written s1 c ?fl"
    using put_flags [OF w _ len, of ?fl] by auto
  obtain s2 where s2: "WriteInt32 (dh_datagramID h) s1 = Inr s2"
    "written s2 (c @ pack ?fl # be32 (dh_datagramID h)) []"
    using int32.put_aligned [OF _ s1(2), of "dh_datagramID h" LittleEndian] sz
    by (auto simp: flushed_def enc_DatagramHeader_def)
  obtain s3 where s3: "Serialize_ids (acks h) s2 = Inr s3"
    "written s3 (c @ pack ?fl # be32 (dh_datagramID h) @ enc_ids (acks h)) []"
    using Serialize_ids_written [OF s2(2), of "acks h"] sz by (auto simp: enc_DatagramHeader_def)
  obtain s4 where s4: "Serialize_ids (nacks h) s3 = Inr s4"
    "written s4 (c @ pack ?fl # be32 (dh_datagramID h) @ enc_ids (acks h) @ enc_ids (nacks h)) []"
    using Serialize_ids_written [OF s3(2), of "nacks h"] sz by (auto simp: enc_DatagramHeader_def)
  have eq: "DatagramHeader_Serialize h s =
      (if flag_data h then rassert (dataLength h < 2 ^ 16 - 1) (WriteInt16 (of_nat (dataLength h)) s4)
       else Inr s4)"
    using s1(1) s2(1) s3(1) s4(1)
    by (auto simp: DatagramHeader_Serialize_def)
  show ?thesis
  proof (cases "flag_data h")
    case True
    then show ?thesis
      using eq v int16.put_written [OF _ s4(2), of "of_nat (dataLength h)" LittleEndian] sz
      by (auto simp: enc_DatagramHeader_def)
  qed (use eq s4(2) in \<open>simp add: enc_DatagramHeader_def\<close>)
qed

text \<open>The reader up to the length field.\<close>

lemma DatagramHeader_Deserialize_upto:
  assumes v: "valid_DatagramHeader h" and r: "reading s 0 (enc_DatagramHeader h @ rest)"
  shows "\<exists>s'. reading s' 0 ((if flag_data h then be16 (of_nat (dataLength h)) else []) @ rest) \<and>
    m_length s' = m_length s \<and>
    DatagramHeader_Deserialize DatagramHeader_default s =
      (if flag_data h
       then if IsEOF 4 s' then Inr ((False, h\<lparr>dataLength := 0\<rparr>), s')
            else rbind (ReadUInt16 s') (\<lambda>(len, s).
                 Inr ((\<not> IsEOF (unat len) s, h\<lparr>dataLength := unat len\<rparr>), s))
       else Inr ((True, h), s'))"
proof -
  let ?fl = "[flag_data h, flag_link h, acks h \<noteq> [], nacks h \<noteq> []]"
  define c4 where "c4 = (if flag_data h then be16 (of_nat (dataLength h)) else []) @ rest"
  define c where "c = be32 (dh_datagramID h) @ enc_ids (acks h) @ enc_ids (nacks h) @ c4"
  have enc: "enc_DatagramHeader h @ rest = pack ?fl # c"
    by (simp add: enc_DatagramHeader_def c_def c4_def)
  note r = r [unfolded enc]
  have eof: "\<not> IsEOF 5 s" using r by (intro reading_not_EOF [of _ 0]) (auto simp: c_def)
  obtain a1 where a1: "ReadBool s = Inr (flag_data h, a1)" "reading a1 1 (pack ?fl # c)"
    using get_flag [OF r] by auto
  obtain a2 where a2: "ReadBool a1 = Inr (flag_link h, a2)" "reading a2 2 (pack ?fl # c)"
    using get_flag [OF a1(2)] by (auto simp: numeral_2_eq_2)
  obtain a3 where a3: "ReadBool a2 = Inr (acks h \<noteq> [], a3)" "reading a3 3 (pack ?fl # c)"
    using get_flag [OF a2(2)] by (auto simp: numeral_2_eq_2 numeral_3_eq_3)
  obtain a4 where a4: "ReadBool a3 = Inr (nacks h \<noteq> [], a4)" "reading a4 4 (pack ?fl # c)"
    using get_flag [OF a3(2)] by (auto simp: eval_nat_numeral)
  obtain a5 where a5: "ReadUInt32 a4 = Inr (dh_datagramID h, a5)"
    "reading a5 0 (enc_ids (acks h) @ enc_ids (nacks h) @ c4)"
    using int32.get_aligned [OF _ a4(2), of "dh_datagramID h" _ LittleEndian]
    by (auto simp: unread_def c_def)
  obtain a6 where a6: "Deserialize_ids [] (acks h \<noteq> []) a5 = Inr (acks h, a6)"
    "reading a6 0 (enc_ids (nacks h) @ c4)"
    using Deserialize_ids_reading [OF _ a5(2)] v by (auto simp: valid_DatagramHeader_def)
  obtain a7 where a7: "Deserialize_ids [] (nacks h \<noteq> []) a6 = Inr (nacks h, a7)" "reading a7 0 c4"
    using Deserialize_ids_reading [OF _ a6(2)] v by (auto simp: valid_DatagramHeader_def)
  have "m_length a7 = m_length s"
    using m_length_reads [OF a1(1)] m_length_reads [OF a2(1)] m_length_reads [OF a3(1)]
      m_length_reads [OF a4(1)] m_length_ReadUInt32 [OF a5(1)]
      m_length_Deserialize_ids [OF a6(1)] m_length_Deserialize_ids [OF a7(1)] by simp
  moreover have "DatagramHeader_Deserialize DatagramHeader_default s =
      (if flag_data h
       then if IsEOF 4 a7 then Inr ((False, h\<lparr>dataLength := 0\<rparr>), a7)
            else rbind (ReadUInt16 a7) (\<lambda>(len, s).
                 Inr ((\<not> IsEOF (unat len) s, h\<lparr>dataLength := unat len\<rparr>), s))
       else Inr ((True, h\<lparr>dataLength := 0\<rparr>), a7))"
    using eof a1(1) a2(1) a3(1) a4(1) a5(1) a6(1) a7(1)
    by (cases h) (simp add: DatagramHeader_Deserialize_def Let_def DatagramHeader_default_def)
  moreover have "h\<lparr>dataLength := 0\<rparr> = h" if "\<not> flag_data h"
    using v that by (cases h) (simp add: valid_DatagramHeader_def)
  ultimately show ?thesis using a7(2) by (auto simp: c4_def)
qed

text \<open>The reader needs two bytes behind the header: it looks for four before it reads the length.\<close>

lemma DatagramHeader_Deserialize_reading:
  assumes v: "valid_DatagramHeader h" and r: "reading s 0 (enc_DatagramHeader h @ rest)"
    and d: "flag_data h \<Longrightarrow> 2 \<le> length rest \<and> dataLength h \<le> length rest"
  shows "\<exists>s'. DatagramHeader_Deserialize DatagramHeader_default s = Inr ((True, h), s') \<and>
    reading s' 0 rest"
proof -
  obtain a7 where a7: "reading a7 0 ((if flag_data h then be16 (of_nat (dataLength h)) else []) @ rest)"
    "DatagramHeader_Deserialize DatagramHeader_default s =
      (if flag_data h
       then if IsEOF 4 a7 then Inr ((False, h\<lparr>dataLength := 0\<rparr>), a7)
            else rbind (ReadUInt16 a7) (\<lambda>(len, s).
                 Inr ((\<not> IsEOF (unat len) s, h\<lparr>dataLength := unat len\<rparr>), s))
       else Inr ((True, h), a7))"
    using DatagramHeader_Deserialize_upto [OF v r] by blast
  show ?thesis
  proof (cases "flag_data h")
    case True
    have "\<not> IsEOF 4 a7" using a7(1) d [OF True] True by (intro reading_not_EOF [of _ 0]) auto
    moreover obtain a8 where a8: "ReadUInt16 a7 = Inr (of_nat (dataLength h), a8)" "reading a8 0 rest"
      using int16.get_reading [of a7 "of_nat (dataLength h)" rest LittleEndian] a7(1) True by auto
    moreover have "unat (of_nat (dataLength h) :: u16) = dataLength h"
      using v by (intro unat_of_nat_small) (auto simp: valid_DatagramHeader_def)
    moreover have "\<not> IsEOF (dataLength h) a8" using a8(2) d [OF True]
      by (intro reading_not_EOF [of _ 0]) auto
    ultimately show ?thesis using a7(2) True by simp
  qed (use a7 in auto)
qed

lemma length_enc_ids: "length ids \<le> n \<Longrightarrow> length (enc_ids ids) \<le> 1 + 4 * n"
proof -
  have "length (concat (map be32 ids)) = 4 * length ids" by (induction ids) auto
  then show "length ids \<le> n \<Longrightarrow> length (enc_ids ids) \<le> 1 + 4 * n" by (simp add: enc_ids_def)
qed

lemma length_enc_DatagramHeader:
  "valid_DatagramHeader h \<Longrightarrow> length (enc_DatagramHeader h) \<le> 2057"
  using length_enc_ids [of "acks h" 256] length_enc_ids [of "nacks h" 256]
  by (auto simp: enc_DatagramHeader_def valid_DatagramHeader_def)

lemma rrepeat_length: "rrepeat f n s = Inr (xs, s') \<Longrightarrow> length xs = n"
  by (induction n arbitrary: s xs) auto

lemma Deserialize_ids_bound:
  assumes "Deserialize_ids ids has s = Inr (ids', s')" "length ids \<le> 256"
  shows "length ids' \<le> 256"
proof (cases has)
  case True
  then obtain n :: u8 and s1 where "rrepeat ReadUInt32 (unat n + 1) s1 = Inr (ids', s')"
    using assms(1) by (auto simp: Deserialize_ids_def simp del: rrepeat.simps)
  then have "length ids' = unat n + 1" by (rule rrepeat_length)
  moreover have "unat n < 256" using unsigned_less [of n] by simp
  ultimately show ?thesis by simp
qed (use assms in \<open>simp add: Deserialize_ids_def\<close>)

section \<open>Properties\<close>

text \<open>
  C23.  Packet headers whose fields fit their widths are written as flags, identifier, options, channel, sequence number
  (in a channel), length, offset, and container and index (of a segment), in this order, and read back unchanged, any number of them one
  after the other.
\<close>

theorem packet_headers_roundtrip:
  assumes "list_all valid_PacketHeader hs"
    and "length (concat (map enc_PacketHeader hs)) \<le> max_stream"
  shows "\<exists>s r. rfold PacketHeader_Serialize hs (BinaryStream_new n) = Inr s \<and>
    contents s = concat (map enc_PacketHeader hs) \<and>
    rrepeat (PacketHeader_Deserialize PacketHeader_default) (length hs) (SeekToBegin s) =
      Inr (map (\<lambda>h. (True, h)) hs, r) \<and> m_position r = m_length r"
proof -
  let ?xs = "map (\<lambda>h. (True, h)) hs"
  have fold: "rfold (\<lambda>(ok, h). PacketHeader_Serialize h) ?xs s = rfold PacketHeader_Serialize hs s" for s
    by (induction hs arbitrary: s) (auto cong: rbind_cong)
  have enc: "map (\<lambda>(ok, h). enc_PacketHeader h) ?xs = map enc_PacketHeader hs" by simp
  have "list_all (\<lambda>(ok, h). ok \<and> valid_PacketHeader h) ?xs" using assms(1) by (simp add: list_all_iff)
  from packet_header.roundtrip [OF this, of n] assms(2) show ?thesis
    unfolding fold enc by simp
qed

theorem packet_headers_roundtrip_witness:
  "\<exists>s r. rfold PacketHeader_Serialize
      [PacketHeader_default\<lparr>ph_id := 7, ph_channel := 2, ph_sequence := 3, ph_length := 12\<rparr>,
       PacketHeader_default\<lparr>flag_segment := True, ph_id := 8, ph_length := 12, ph_offset := 1200,
         splitContainer := 9, splitIndex := 1\<rparr>] (BinaryStream_new 0) = Inr s \<and>
    contents s = [0, 0, 0, 0, 7, 0, 2, 0, 0, 0, 3, 0, 12, 0, 0,
                  0x80, 0, 0, 0, 8, 0, 0, 0, 12, 0x04, 0xB0, 0, 0, 0, 9, 0, 0, 0, 1] \<and>
    rrepeat (PacketHeader_Deserialize PacketHeader_default) 2 (SeekToBegin s) =
      Inr ([(True, PacketHeader_default\<lparr>ph_id := 7, ph_channel := 2, ph_sequence := 3, ph_length := 12\<rparr>),
        (True, PacketHeader_default\<lparr>flag_segment := True, ph_id := 8, ph_length := 12, ph_offset := 1200,
         splitContainer := 9, splitIndex := 1\<rparr>)], r) \<and> m_position r = m_length r"
proof -
  let ?h1 = "PacketHeader_default\<lparr>ph_id := 7, ph_channel := 2, ph_sequence := 3, ph_length := 12\<rparr>"
  let ?h2 = "PacketHeader_default\<lparr>flag_segment := True, ph_id := 8, ph_length := 12, ph_offset := 1200,
    splitContainer := 9, splitIndex := 1\<rparr>"
  have v: "list_all valid_PacketHeader [?h1, ?h2]"
    by (simp add: valid_PacketHeader_def PacketHeader_default_def PACKET_MAX_LENGTH_def)
  have e: "concat (map enc_PacketHeader [?h1, ?h2]) =
      [0, 0, 0, 0, 7, 0, 2, 0, 0, 0, 3, 0, 12, 0, 0,
       0x80, 0, 0, 0, 8, 0, 0, 0, 12, 0x04, 0xB0, 0, 0, 0, 9, 0, 0, 0, 1]"
    by (simp add: enc_PacketHeader_def PacketHeader_default_def UNRELIABLE_def pack_def be16_def be32_def)
  have "length (concat (map enc_PacketHeader [?h1, ?h2])) \<le> max_stream"
    unfolding e by (simp add: max_stream_def)
  from packet_headers_roundtrip [OF v this, of 0] show ?thesis
    unfolding e by (simp flip: numeral_2_eq_2)
qed

text \<open>
  C24.  A datagram header with at most 256 acknowledgements of either kind, each list preceded by a byte with its length
  less one, and followed by its payload, is read back unchanged and leaves exactly the payload, provided that the payload has at least two
  bytes.
\<close>

theorem datagram_header_roundtrip:
  assumes v: "valid_DatagramHeader h" and p: "length payload = dataLength h"
    and d: "flag_data h \<longrightarrow> 2 \<le> dataLength h"
  shows "\<exists>s r r'. rbind (DatagramHeader_Serialize h (BinaryStream_new n)) (WriteBytes payload) = Inr s \<and>
    contents s = enc_DatagramHeader h @ payload \<and>
    DatagramHeader_Deserialize DatagramHeader_default (SeekToBegin s) = Inr ((True, h), r) \<and>
    ReadBytes (dataLength h) r = Inr (Some payload, r') \<and> m_position r' = m_length r'"
proof -
  have sz: "length (enc_DatagramHeader h) + length payload \<le> max_stream"
    using length_enc_DatagramHeader [OF v] v p by (auto simp: valid_DatagramHeader_def max_stream_def)
  obtain s1 where s1: "DatagramHeader_Serialize h (BinaryStream_new n) = Inr s1"
    "written s1 (enc_DatagramHeader h) []"
    using DatagramHeader_Serialize_written [OF _ written_new, of h n] sz v
    by (auto simp: valid_DatagramHeader_def)
  obtain s where s: "WriteBytes payload s1 = Inr s" "written s (enc_DatagramHeader h @ payload) []"
    using written_WriteBytes [OF s1(2), of payload] sz by (auto simp: flushed_def)
  have "reading (SeekToBegin s) 0 (enc_DatagramHeader h @ payload)"
    using reading_SeekToBegin [OF s(2)] sz by simp
  from DatagramHeader_Deserialize_reading [OF v this] d p
  obtain r where r: "DatagramHeader_Deserialize DatagramHeader_default (SeekToBegin s) = Inr ((True, h), r)"
    "reading r 0 payload" by auto
  from reading_ReadBytes' [OF r(2), of payload "[]"] p obtain r' where
    "ReadBytes (dataLength h) r = Inr (Some payload, r')" "reading r' 0 []" by auto
  then show ?thesis using r s s1 by (auto simp: written_def flushed_def reading_def)
qed

definition example_header :: DatagramHeader where
  "example_header = \<lparr>flag_data = True, flag_link = True, acks = [4, 5], nacks = [],
     dh_datagramID = 6, dataLength = 3\<rparr>"

theorem datagram_header_roundtrip_witness:
  "\<exists>s r r'. rbind (DatagramHeader_Serialize example_header (BinaryStream_new 8)) (WriteBytes [1, 2, 3]) = Inr s \<and>
    contents s = [0xE0, 0, 0, 0, 6, 1, 0, 0, 0, 4, 0, 0, 0, 5, 0, 3, 1, 2, 3] \<and>
    DatagramHeader_Deserialize DatagramHeader_default (SeekToBegin s) = Inr ((True, example_header), r) \<and>
    ReadBytes 3 r = Inr (Some [1, 2, 3], r') \<and> m_position r' = m_length r'"
proof -
  have "valid_DatagramHeader example_header" "dataLength example_header = 3"
    by (simp_all add: valid_DatagramHeader_def example_header_def)
  moreover have "enc_DatagramHeader example_header = [0xE0, 0, 0, 0, 6, 1, 0, 0, 0, 4, 0, 0, 0, 5, 0, 3]"
    by (simp add: enc_DatagramHeader_def example_header_def pack_def be32_def be16_def enc_ids_def)
  ultimately show ?thesis
    using datagram_header_roundtrip [of example_header "[1, 2, 3]" 8] by simp
qed

text \<open>
  The verdict on a received header with a payload is not that the payload is complete: a length
  field that is larger than the whole datagram is accepted as well, and a payload of fewer than two
  bytes is refused.
\<close>

lemma datagram_header_verdict:
  assumes v: "valid_DatagramHeader h" and d: "flag_data h" and len: "length rest < 2 ^ 32"
    and w: "BinaryStream_wrap (Some (map Some (enc_DatagramHeader h @ rest)))
      (length (enc_DatagramHeader h @ rest)) READONLY = Inr s"
  shows "\<exists>ok h' s'. DatagramHeader_Deserialize DatagramHeader_default s = Inr ((ok, h'), s') \<and>
    (ok \<longleftrightarrow> 2 \<le> length rest \<and>
      (dataLength h \<le> length rest \<or> length (enc_DatagramHeader h @ rest) < dataLength h))"
proof -
  have sz: "length (enc_DatagramHeader h @ rest) < 2 ^ 64"
    using length_enc_DatagramHeader [OF v] len by simp
  have r: "reading s 0 (enc_DatagramHeader h @ rest)"
    using reading_wrap [of "enc_DatagramHeader h @ rest" "[]" s] w sz by simp
  have ml: "m_length s = length (enc_DatagramHeader h @ rest)"
    using w by (auto simp: BinaryStream_wrap_def)
  obtain a7 where a7: "reading a7 0 (be16 (of_nat (dataLength h)) @ rest)" "m_length a7 = m_length s"
    "DatagramHeader_Deserialize DatagramHeader_default s =
      (if IsEOF 4 a7 then Inr ((False, h\<lparr>dataLength := 0\<rparr>), a7)
       else rbind (ReadUInt16 a7) (\<lambda>(len, s). Inr ((\<not> IsEOF (unat len) s, h\<lparr>dataLength := unat len\<rparr>), s)))"
    using DatagramHeader_Deserialize_upto [OF v r] d by auto
  have eof4: "IsEOF 4 a7 \<longleftrightarrow> length rest < 2"
    using a7(1,2) ml by (subst IsEOF_iff) (auto simp: reading_def enc_DatagramHeader_def)
  obtain a8 where a8: "ReadUInt16 a7 = Inr (of_nat (dataLength h), a8)" "reading a8 0 rest"
    using int16.get_reading [OF _ a7(1), of LittleEndian] by auto
  have ml8: "m_length a8 = m_length s"
    using a8(1) a7(2)
    by (auto simp: ReadUInt16_on_def ReadBytes_def Let_def split: if_splits option.splits)
  have n: "unat (of_nat (dataLength h) :: u16) = dataLength h"
    using v by (intro unat_of_nat_small) (auto simp: valid_DatagramHeader_def)
  have "IsEOF (dataLength h) a8 \<longleftrightarrow> dataLength h \<le> m_length s \<and> length rest < dataLength h"
    using a8(2) ml8 v by (subst IsEOF_iff) (auto simp: reading_def valid_DatagramHeader_def)
  then show ?thesis using a7(3) a8(1) eof4 n ml by auto
qed

text \<open>
  More than 256 acknowledgements are written all of them but counted as 256: no received
  datagram ever yields such a header.
\<close>

lemma datagram_header_ack_limit:
  assumes "256 < length (acks h)" "length (acks h) \<le> 2 ^ 20" "length (nacks h) \<le> 2 ^ 20"
    and "flag_data h \<longrightarrow> dataLength h < 2 ^ 16 - 1"
  shows "(\<exists>s. DatagramHeader_Serialize h (BinaryStream_new n) = Inr s \<and>
      contents s = enc_DatagramHeader h) \<and>
    (\<forall>t ok h' r. DatagramHeader_Deserialize DatagramHeader_default t = Inr ((ok, h'), r) \<longrightarrow> h' \<noteq> h)"
proof (intro conjI allI impI)
  have "length (enc_DatagramHeader h) \<le> max_stream"
    using length_enc_ids [OF assms(2)] length_enc_ids [OF assms(3)]
    by (auto simp: enc_DatagramHeader_def max_stream_def)
  then show "\<exists>s. DatagramHeader_Serialize h (BinaryStream_new n) = Inr s \<and>
      contents s = enc_DatagramHeader h"
    using DatagramHeader_Serialize_written [OF _ written_new, of h n] assms(4)
    by (auto simp: written_def flushed_def)
  fix t ok h' r
  assume "DatagramHeader_Deserialize DatagramHeader_default t = Inr ((ok, h'), r)"
  then have "length (acks h') \<le> 256"
    by (auto simp: DatagramHeader_Deserialize_def DatagramHeader_default_def Let_def
      split: if_splits dest!: Deserialize_ids_bound)
  then show "h' \<noteq> h" using assms(1) by auto
qed

lemma datagram_header_verdict_witness:
  "\<exists>s. BinaryStream_wrap (Some (map Some [0xC0, 0, 0, 0, 1, 0, 200, 9, 9]))
      (length [0xC0, 0, 0, 0, 1, 0, 200, 9, 9 :: u8]) READONLY = Inr s \<and>
    (\<exists>h' s'. DatagramHeader_Deserialize DatagramHeader_default s = Inr ((True, h'), s'))"
proof -
  let ?h = "\<lparr>flag_data = True, flag_link = True, acks = [], nacks = [], dh_datagramID = 1,
    dataLength = 200\<rparr>"
  have e: "enc_DatagramHeader ?h @ [9, 9] = [0xC0, 0, 0, 0, 1, 0, 200, 9, 9]"
    by (simp add: enc_DatagramHeader_def pack_def be32_def be16_def enc_ids_def)
  obtain s where s: "BinaryStream_wrap (Some (map Some [0xC0, 0, 0, 0, 1, 0, 200, 9, 9]))
      (length [0xC0, 0, 0, 0, 1, 0, 200, 9, 9 :: u8]) READONLY = Inr s"
    by (simp add: BinaryStream_wrap_def)
  have v: "valid_DatagramHeader ?h" by (simp add: valid_DatagramHeader_def)
  from datagram_header_verdict [OF v, of "[9, 9]" s, unfolded e] s show ?thesis by auto
qed

lemma datagram_header_ack_limit_witness:
  "\<exists>s. DatagramHeader_Serialize (DatagramHeader_default\<lparr>acks := replicate 257 3\<rparr>) (BinaryStream_new 0) = Inr s \<and>
    (\<forall>ok r. DatagramHeader_Deserialize DatagramHeader_default (SeekToBegin s) \<noteq>
      Inr ((ok, DatagramHeader_default\<lparr>acks := replicate 257 3\<rparr>), r))"
proof -
  let ?h = "DatagramHeader_default\<lparr>acks := replicate 257 3\<rparr>"
  have "256 < length (acks ?h)" "length (acks ?h) \<le> 2 ^ 20" "length (nacks ?h) \<le> 2 ^ 20"
    "flag_data ?h \<longrightarrow> dataLength ?h < 2 ^ 16 - 1"
    by (simp_all add: DatagramHeader_default_def)
  from datagram_header_ack_limit [OF this, of 0] show ?thesis by blast
qed

text \<open>
  The acknowledgement lists are read without a look at the end of the stream: a datagram that
  announces acknowledgements and ends behind the count makes the reader use an indeterminate
  value.
\<close>

lemma datagram_header_truncated:
  assumes "BinaryStream_wrap (Some (map Some (pack [d, l, True, b] # be32 i @ [n])))
      (length (pack [d, l, True, b] # be32 i @ [n])) READONLY = Inr s"
  shows "DatagramHeader_Deserialize DatagramHeader_default s = Inl Indeterminate"
proof -
  let ?c = "be32 i @ [n]" and ?fl = "[d, l, True, b]"
  have r: "reading s 0 (pack ?fl # ?c)"
    using reading_wrap [of "pack ?fl # ?c" "[]" s] assms by simp
  have eof: "\<not> IsEOF 5 s" using r by (intro reading_not_EOF [of _ 0]) auto
  obtain a1 where a1: "ReadBool s = Inr (d, a1)" "reading a1 1 (pack ?fl # ?c)"
    using get_flag [OF r] by auto
  obtain a2 where a2: "ReadBool a1 = Inr (l, a2)" "reading a2 2 (pack ?fl # ?c)"
    using get_flag [OF a1(2)] by (auto simp: numeral_2_eq_2)
  obtain a3 where a3: "ReadBool a2 = Inr (True, a3)" "reading a3 3 (pack ?fl # ?c)"
    using get_flag [OF a2(2)] by (auto simp: numeral_2_eq_2 numeral_3_eq_3)
  obtain a4 where a4: "ReadBool a3 = Inr (b, a4)" "reading a4 4 (pack ?fl # ?c)"
    using get_flag [OF a3(2)] by (auto simp: eval_nat_numeral)
  obtain a5 where a5: "ReadUInt32 a4 = Inr (i, a5)" "reading a5 0 [n]"
    using int32.get_aligned [OF _ a4(2), of i "[n]" LittleEndian] by (auto simp: unread_def)
  obtain a6 where a6: "ReadByte a5 = Inr (n, a6)" "reading a6 0 []"
    using byte.get_reading [of a5 n "[]"] a5(2) by auto
  have "m_length a6 = length (pack ?fl # ?c)"
    using m_length_reads [OF a1(1)] m_length_reads [OF a2(1)] m_length_reads [OF a3(1)]
      m_length_reads [OF a4(1)] m_length_ReadUInt32 [OF a5(1)] m_length_ReadByte [OF a6(1)] assms
    by (auto simp: BinaryStream_wrap_def)
  then have "IsEOF 4 a6" using a6(2) by (subst IsEOF_iff) (auto simp: reading_def)
  then have "ReadUInt32 a6 = Inl Indeterminate" by (simp add: ReadUInt32_on_def ReadBytes_def)
  then have "Deserialize_ids [] True a5 = Inl Indeterminate"
    using a6(1) by (simp add: Deserialize_ids_def)
  then show ?thesis using eof a1(1) a2(1) a3(1) a4(1) a5(1)
    by (simp add: DatagramHeader_Deserialize_def DatagramHeader_default_def)
qed

lemma datagram_header_truncated_witness:
  "\<exists>s. BinaryStream_wrap (Some (map Some [0x20, 0, 0, 0, 1, 0])) (length [0x20, 0, 0, 0, 1, 0 :: u8])
      READONLY = Inr s \<and>
    DatagramHeader_Deserialize DatagramHeader_default s = Inl Indeterminate"
proof -
  have e: "pack [False, False, True, False] # be32 1 @ [0] = [0x20, 0, 0, 0, 1, 0]"
    by (simp add: pack_def be32_def)
  obtain s where "BinaryStream_wrap (Some (map Some [0x20, 0, 0, 0, 1, 0]))
      (length [0x20, 0, 0, 0, 1, 0 :: u8]) READONLY = Inr s"
    by (simp add: BinaryStream_wrap_def)
  with datagram_header_truncated [of False False False 1 0 s, unfolded e] show ?thesis by blast
qed

end
