(* ===== verification/Packets.thy ===== *)
theory Packets
  imports Headers
begin

text \<open>
  Network messages: \<^verbatim>\<open>include/wirefox/Packet.h\<close> and \<^verbatim>\<open>source/Packet.cpp\<close>.  The data
  buffer is the array it owns, \<open>None\<close> for the null pointer; the array may be longer than the
  packet, since the move constructor takes over the array of a stream.
\<close>

record Packet =
  m_sender :: PeerID
  m_command :: PacketCommand
  pkt_length :: nat
  m_data :: "cell list option"

definition CopyFrom :: "cell list option \<Rightarrow> nat \<Rightarrow> cell list option result" where
  "CopyFrom raw count =
     (if raw = None \<or> count = 0 then Inr None
      else rbind (memcpy_cells raw count) (\<lambda>cs. Inr (Some cs)))"

definition Packet_of_data :: "PacketCommand \<Rightarrow> cell list option \<Rightarrow> nat \<Rightarrow> Packet result" where
  "Packet_of_data cmd raw datalen =
     rbind (CopyFrom raw datalen) (\<lambda>d.
     Inr \<lparr>m_sender = 0, m_command = cmd, pkt_length = datalen, m_data = d\<rparr>)"

text \<open>
  \<^verbatim>\<open>ToArray\<close> always allocates, so the buffer of this constructor is never null.
\<close>

definition Packet_of_stream :: "PacketCommand \<Rightarrow> BinaryStream \<Rightarrow> Packet result" where
  "Packet_of_stream cmd s =
     rbind (ToArray s) (\<lambda>d.
     Inr \<lparr>m_sender = 0, m_command = cmd, pkt_length = m_length s, m_data = Some d\<rparr>)"

definition Packet_of_moved_stream :: "PacketCommand \<Rightarrow> BinaryStream \<Rightarrow> Packet \<times> BinaryStream" where
  "Packet_of_moved_stream cmd s =
     (let ((d, len), s) = ReleaseBuffer s
      in (\<lparr>m_sender = 0, m_command = cmd,
           pkt_length = (case len of None \<Rightarrow> 0 | Some n \<Rightarrow> n), m_data = d\<rparr>, s))"

definition Packet_assign :: "Packet \<Rightarrow> Packet \<Rightarrow> Packet result" where
  "Packet_assign this rhs =
     rbind (CopyFrom (m_data rhs) (pkt_length rhs)) (\<lambda>d.
     Inr (this\<lparr>m_data := d, m_command := m_command rhs, pkt_length := pkt_length rhs,
               m_sender := m_sender rhs\<rparr>))"

definition Packet_move_assign :: "Packet \<Rightarrow> Packet \<Rightarrow> Packet \<times> Packet" where
  "Packet_move_assign this rhs =
     (this\<lparr>m_data := m_data rhs, m_command := m_command rhs, pkt_length := pkt_length rhs,
           m_sender := m_sender rhs\<rparr>,
      rhs\<lparr>m_data := None, m_command := 0, pkt_length := 0, m_sender := 0\<rparr>)"

definition Packet_blank :: Packet where
  "Packet_blank = \<lparr>m_sender = 0, m_command = 0, pkt_length = 0, m_data = None\<rparr>"

definition Packet_copy :: "Packet \<Rightarrow> Packet result" where
  "Packet_copy other = Packet_assign Packet_blank other"

definition Packet_move :: "Packet \<Rightarrow> Packet \<times> Packet" where
  "Packet_move rhs = Packet_move_assign Packet_blank rhs"

definition GetDatagramLength :: "Packet \<Rightarrow> nat" where
  "GetDatagramLength p = pkt_length p + 1"

definition SetSender :: "PeerID \<Rightarrow> Packet \<Rightarrow> Packet" where
  "SetSender sender p = p\<lparr>m_sender := sender\<rparr>"

definition GetStream :: "Packet \<Rightarrow> BinaryStream result" where
  "GetStream p = BinaryStream_wrap (m_data p) (pkt_length p) READONLY"

definition ToDatagram :: "Packet \<Rightarrow> BinaryStream \<Rightarrow> BinaryStream result" where
  "ToDatagram p s =
     rassert (\<not> m_readonly s) (
     rbind (WriteByte (m_command p) s) (\<lambda>s.
     if pkt_length p > 0 \<and> m_data p \<noteq> None
     then rbind (load_bytes (m_data p) 0 (pkt_length p)) (\<lambda>bs. WriteBytes bs s)
     else Inr s))"

definition FromDatagram ::
  "PeerID \<Rightarrow> nat \<Rightarrow> BinaryStream \<Rightarrow> (Packet \<times> BinaryStream) result" where
  "FromDatagram sender len s =
     rassert (len \<ge> 1) (
     rbind (ReadByte s) (\<lambda>(cmd, s).
     rbind (CopyFrom (map_option (drop (m_position s)) (GetBuffer s)) (len - 1)) (\<lambda>d.
     let p = \<lparr>m_sender = sender, m_command = cmd, pkt_length = size_sub len 1, m_data = d\<rparr>
     in rassert (GetDatagramLength p = len) (Inr (p, snd (Skip (len - 1) s))))))"

text \<open>
  The payload of a packet, the packets whose buffer holds it, and the form in which a packet comes
  out of a datagram.
\<close>

definition payload :: "Packet \<Rightarrow> u8 list" where
  "payload p = (case m_data p of None \<Rightarrow> [] | Some m \<Rightarrow> map the (take (pkt_length p) m))"

definition packet_ok :: "Packet \<Rightarrow> bool" where
  "packet_ok p \<longleftrightarrow>
     (case m_data p of None \<Rightarrow> pkt_length p = 0
      | Some m \<Rightarrow> pkt_length p \<le> length m \<and> None \<notin> set (take (pkt_length p) m)) \<and>
     pkt_length p < 2 ^ 32"

definition packet_of :: "PeerID \<Rightarrow> PacketCommand \<Rightarrow> u8 list \<Rightarrow> Packet" where
  "packet_of sender cmd bs = \<lparr>m_sender = sender, m_command = cmd, pkt_length = length bs,
     m_data = (if bs = [] then None else Some (map Some bs))\<rparr>"

definition enc_Packet :: "Packet \<Rightarrow> u8 list" where
  "enc_Packet p = m_command p # payload p"

lemma length_payload: "packet_ok p \<Longrightarrow> length (payload p) = pkt_length p"
  by (auto simp: packet_ok_def payload_def split: option.splits)

lemma load_payload:
  "packet_ok p \<Longrightarrow> m_data p \<noteq> None \<Longrightarrow> load_bytes (m_data p) 0 (pkt_length p) = Inr (payload p)"
  by (auto simp: packet_ok_def payload_def load_bytes_def Let_def split: option.splits)

lemma packet_ok_packet_of [simp]:
  "length bs < 2 ^ 32 \<Longrightarrow> packet_ok (packet_of sender cmd bs)"
  by (auto simp: packet_of_def packet_ok_def)

lemma payload_packet_of [simp]: "payload (packet_of sender cmd bs) = bs"
  by (auto simp: packet_of_def payload_def)

lemma packet_of_simps [simp]:
  "m_sender (packet_of sender cmd bs) = sender" "m_command (packet_of sender cmd bs) = cmd"
  "pkt_length (packet_of sender cmd bs) = length bs"
  "GetDatagramLength (packet_of sender cmd bs) = Suc (length bs)"
  by (simp_all add: packet_of_def GetDatagramLength_def)

lemma length_enc_Packet: "packet_ok p \<Longrightarrow> length (enc_Packet p) = GetDatagramLength p"
  by (simp add: enc_Packet_def GetDatagramLength_def length_payload)

lemma ToDatagram_written:
  assumes ok: "packet_ok p" and w: "written s c bits"
    and sz: "length (flushed c bits) + length (enc_Packet p) \<le> max_stream"
  shows "\<exists>s'. ToDatagram p s = Inr s' \<and> written s' (flushed c bits @ enc_Packet p) []"
proof -
  have ro: "\<not> m_readonly s" using w by (simp add: written_def stream_ok_def)
  obtain s1 where s1: "WriteByte (m_command p) s = Inr s1"
    "written s1 (flushed c bits @ [m_command p]) []"
    using byte.put_aligned [OF _ w, of "m_command p"] sz by (auto simp: enc_Packet_def)
  show ?thesis
  proof (cases "pkt_length p > 0 \<and> m_data p \<noteq> None")
    case True
    then show ?thesis
      using ro s1 load_payload [OF ok] written_WriteBytes [OF s1(2), of "payload p"] sz
      by (auto simp: ToDatagram_def enc_Packet_def flushed_def)
  next
    case False
    then have "payload p = []" using ok by (auto simp: packet_ok_def payload_def split: option.splits)
    then show ?thesis using ro s1 False by (auto simp: ToDatagram_def enc_Packet_def)
  qed
qed

lemma FromDatagram_reading:
  assumes r: "reading s k c" and c: "unread k c = cmd # bs @ rest"
  shows "\<exists>s'. FromDatagram sender (Suc (length bs)) s = Inr (packet_of sender cmd bs, s') \<and>
    reading s' 0 rest"
proof -
  obtain s1 where s1: "ReadByte s = Inr (cmd, s1)" "reading s1 0 (bs @ rest)"
    using reading_ReadByte [OF r c] by auto
  note adv = reading_advance [OF s1(2), of "length bs"]
  have "length (unread k c) \<le> length c" by (simp add: unread_def)
  then have len: "Suc (length bs) < 2 ^ 64" using r c by (simp add: reading_def)
  have copy: "CopyFrom (map_option (drop (m_position s1)) (GetBuffer s1)) (length bs) =
      Inr (if bs = [] then None else Some (map Some bs))"
  proof (cases "bs = []")
    case False
    then obtain m where "GetBuffer s1 = Some m" "m_position s1 + length bs \<le> length m"
      "take (length bs) (drop (m_position s1) m) = map Some bs"
      using adv by (auto simp: load_bytes_Inr)
    then show ?thesis using False by (simp add: CopyFrom_def memcpy_cells_def)
  qed (simp add: CopyFrom_def)
  have "snd (Skip (length bs) s1) = s1\<lparr>m_position := m_position s1 + length bs\<rparr>"
    using reading_not_EOF [OF s1(2), of "length bs"] by (simp add: Skip_def)
  then show ?thesis using s1(1) copy adv len
    by (simp add: FromDatagram_def GetDatagramLength_def packet_of_def Let_def size_sub_eq)
qed

interpretation packet: aligning_codec ToDatagram "FromDatagram sender len" enc_Packet
  "\<lambda>p. \<exists>cmd bs. p = packet_of sender cmd bs \<and> len = Suc (length bs) \<and> len \<le> 2 ^ 32" for sender len
proof (unfold_locales, goal_cases)
  case (1 x s c bits)
  then show ?case by (intro ToDatagram_written) auto
next
  case (2 x s k c rest)
  then show ?case using FromDatagram_reading [OF 2(2)] by (auto simp: enc_Packet_def)
qed

section \<open>Properties\<close>

text \<open>
  A packet survives the trip through a datagram: what \<^verbatim>\<open>FromDatagram\<close> reads behind any
  prefix has the sender it is told, the same command and the same payload, and it consumes exactly
  the bytes that \<^verbatim>\<open>ToDatagram\<close> appended.
\<close>

lemma packet_datagram_roundtrip:
  assumes ok: "packet_ok p" and w: "written s c []" and sz: "length c + GetDatagramLength p \<le> max_stream"
  shows "\<exists>s' r. ToDatagram p s = Inr s' \<and> contents s' = c @ m_command p # payload p \<and>
    FromDatagram sender (GetDatagramLength p) (Seek (length c) s') =
      Inr (packet_of sender (m_command p) (payload p), r) \<and> m_position r = m_length s'"
proof -
  obtain s' where s': "ToDatagram p s = Inr s'" "written s' (c @ enc_Packet p) []"
    using ToDatagram_written [OF ok w] sz length_enc_Packet [OF ok] by (auto simp: flushed_def)
  let ?t = "Seek (length c) s'"
  have len: "length (c @ enc_Packet p) \<le> max_stream" using sz length_enc_Packet [OF ok] by simp
  have ml: "m_length s' = length (c @ enc_Packet p)" using s'(2) by (rule m_length_written)
  have "load_bytes (GetBuffer s') (length c) (length (enc_Packet p)) = Inr (enc_Packet p)"
    using load_bytes_slice [OF load_written [OF s'(2)], of "length c" "length (enc_Packet p)"] by simp
  then have "reading ?t 0 (enc_Packet p)"
    using ml len s'(2) by (simp add: reading_def Seek_def max_stream_def written_def)
  from FromDatagram_reading [OF this, of "m_command p" "payload p" "[]" sender]
  obtain r where r: "FromDatagram sender (GetDatagramLength p) ?t =
      Inr (packet_of sender (m_command p) (payload p), r)" "reading r 0 []"
    using length_enc_Packet [OF ok] by (auto simp: enc_Packet_def)
  have "m_length r = m_length s'"
    using r(1) by (auto simp: FromDatagram_def Let_def Skip_def Seek_def dest!: m_length_ReadByte
      split: if_splits)
  then show ?thesis using s' r by (auto simp: written_def flushed_def enc_Packet_def reading_def)
qed

lemma packet_datagram_roundtrip_witness:
  "\<exists>s' r. ToDatagram (packet_of 3 17 [1, 2]) (BinaryStream_new 0) = Inr s' \<and> contents s' = [17, 1, 2] \<and>
    FromDatagram 9 3 (Seek 0 s') = Inr (packet_of 9 17 [1, 2], r) \<and> m_position r = m_length s'"
proof -
  have "GetDatagramLength (packet_of 3 17 [1, 2]) = 3" by (simp add: GetDatagramLength_def)
  with packet_datagram_roundtrip [of "packet_of 3 17 [1, 2]" "BinaryStream_new 0" "[]" 9]
    written_new [of 0] show ?thesis by (simp add: max_stream_def del: packet_of_simps(4))
qed

text \<open>
  The three ways to build a packet from a stream that was written to (copying a buffer, copying
  the stream, taking over its buffer) give the same command and payload, unfinished flags included,
  and taking over leaves the stream empty.
\<close>

lemma packet_constructors_agree:
  assumes w: "written s c bits" and sz: "length (flushed c bits) < 2 ^ 32"
    and ne: "flushed c bits \<noteq> []"
  shows "\<exists>p1 p2 p3 s'. Packet_of_data cmd (GetBuffer s) (m_length s) = Inr p1 \<and>
    Packet_of_stream cmd s = Inr p2 \<and> Packet_of_moved_stream cmd s = (p3, s') \<and>
    (\<forall>p \<in> {p1, p2, p3}. packet_ok p \<and> m_sender p = 0 \<and> m_command p = cmd \<and> payload p = flushed c bits) \<and>
    m_length s' = 0 \<and> m_buffer s' = None"
proof -
  have ok: "stream_ok s" and con: "contents s = flushed c bits" using w by (simp_all add: written_def)
  have ml: "m_length s = length (flushed c bits)" using length_contents [OF ok] con by simp
  obtain m where m: "m_buffer s = Some m" "m_buffer_ro s = RoOwn"
    using ok ml ne by (cases "m_buffer s") (auto simp: stream_ok_def cells_def)
  then have get: "GetBuffer s = Some m" and cells: "cells s = m"
    by (simp_all add: GetBuffer_def cells_def)
  have take: "take (m_length s) m = map Some (flushed c bits)"
    using take_cells [OF ok] con cells by simp
  have le: "m_length s \<le> length m" using stream_okE [OF ok] cells by simp
  have ro: "\<not> m_readonly s" using stream_okE [OF ok] by simp
  have ne0: "m_length s \<noteq> 0" using ml ne by simp
  have mem: "memcpy_cells (Some m) (m_length s) = Inr (map Some (flushed c bits))"
    using le take ne0 by (simp add: memcpy_cells_def)
  let ?d = "\<lparr>m_sender = 0, m_command = cmd, pkt_length = m_length s,
    m_data = Some (map Some (flushed c bits))\<rparr>"
  let ?m = "\<lparr>m_sender = 0, m_command = cmd, pkt_length = m_length s, m_data = Some m\<rparr>"
  let ?s = "snd (Packet_of_moved_stream cmd s)"
  have d: "Packet_of_data cmd (GetBuffer s) (m_length s) = Inr ?d" "Packet_of_stream cmd s = Inr ?d"
    using get mem ne0 m
    by (simp_all add: Packet_of_data_def CopyFrom_def Packet_of_stream_def ToArray_def)
  have mv: "Packet_of_moved_stream cmd s = (?m, ?s)" "m_length ?s = 0" "m_buffer ?s = None"
    using m ro by (simp_all add: Packet_of_moved_stream_def ReleaseBuffer_def Let_def Align_def)
  have "packet_ok ?d" "packet_ok ?m" "payload ?d = flushed c bits" "payload ?m = flushed c bits"
    using take le ml sz by (simp_all add: packet_ok_def payload_def comp_def)
  then have "\<forall>p \<in> {?d, ?d, ?m}. packet_ok p \<and> m_sender p = 0 \<and> m_command p = cmd \<and> payload p = flushed c bits"
    by simp
  then show ?thesis using d mv
    by (intro exI [of _ ?d] exI [of _ ?m] exI [of _ ?s] conjI)
qed

lemma moved_packet:
  assumes "written s c bits" "length (flushed c bits) < 2 ^ 32" "flushed c bits \<noteq> []"
  shows "\<exists>p s'. Packet_of_moved_stream cmd s = (p, s') \<and> packet_ok p \<and> m_sender p = 0 \<and>
    m_command p = cmd \<and> payload p = flushed c bits"
  using packet_constructors_agree [OF assms, of cmd] by auto

lemma map_the: "None \<notin> set xs \<Longrightarrow> map Some (map the xs) = xs"
  by (induction xs) auto

lemma GetStream_reading:
  assumes "packet_ok p"
  shows "\<exists>s. GetStream p = Inr s \<and> reading s 0 (payload p) \<and> m_position s = 0"
proof (cases "m_data p")
  case None
  then show ?thesis using assms
    by (simp add: GetStream_def BinaryStream_wrap_def packet_ok_def payload_def reading_def load_bytes_def)
next
  case (Some m)
  have len: "length (payload p) = pkt_length p" by (rule length_payload [OF assms])
  have m: "m = map Some (payload p) @ drop (pkt_length p) m"
  proof -
    have "take (pkt_length p) m = map Some (payload p)"
      using assms Some map_the [of "take (pkt_length p) m"] by (simp add: packet_ok_def payload_def)
    then show ?thesis by (metis append_take_drop_id)
  qed
  obtain s where s: "GetStream p = Inr s" "m_position s = 0" using Some
    by (simp add: GetStream_def BinaryStream_wrap_def)
  then have "BinaryStream_wrap (Some (map Some (payload p) @ drop (pkt_length p) m)) (length (payload p)) READONLY = Inr s"
    using Some len m by (simp add: GetStream_def)
  then show ?thesis using s reading_wrap [of "payload p" "drop (pkt_length p) m" s] assms len
    by (simp add: packet_ok_def)
qed

text \<open>
  The length of a packet in a received datagram is trusted: a length of zero fails an
  assertion, and a length beyond the end of the receive buffer is copied from outside of it.
\<close>

lemma FromDatagram_trusts_length:
  assumes "length (cmd # bs) < 2 ^ 64"
    and w: "BinaryStream_wrap (Some (map Some (cmd # bs))) (length (cmd # bs)) READONLY = Inr s"
  shows "FromDatagram sender 0 s = Inl AssertFailure \<and>
    (\<forall>len > Suc (length bs). FromDatagram sender len s = Inl OutOfBounds)"
proof -
  have r: "reading s 0 (cmd # bs)" using reading_wrap [of "cmd # bs" "[]" s] assms by simp
  obtain s1 where s1: "ReadByte s = Inr (cmd, s1)" "reading s1 0 bs"
    using reading_ReadByte [OF r, of cmd bs] by auto
  have "GetBuffer s1 = Some (map Some (cmd # bs)) \<and> m_position s1 = 1"
    using s1(1) w reading_not_EOF [OF r, of 1] by (auto simp: ReadByte_def BinaryStream_wrap_def Let_def Align_def GetBuffer_def
      split: if_splits)
  then show ?thesis using s1(1)
    by (auto simp: FromDatagram_def CopyFrom_def memcpy_cells_def Let_def)
qed

lemma FromDatagram_trusts_length_witness:
  "\<exists>s. BinaryStream_wrap (Some (map Some [17, 5])) (length [17, 5 :: u8]) READONLY = Inr s \<and>
    FromDatagram 1 0 s = Inl AssertFailure \<and> FromDatagram 1 100 s = Inl OutOfBounds"
proof -
  obtain s where "BinaryStream_wrap (Some (map Some [17, 5])) (length [17, 5 :: u8]) READONLY = Inr s"
    by (simp add: BinaryStream_wrap_def)
  with FromDatagram_trusts_length [of 17 "[5]" s 1] show ?thesis by simp
qed

lemma GetStream_packet_of: "length bs < 2 ^ 32 \<Longrightarrow> \<exists>s. GetStream (packet_of who cmd bs) = Inr s \<and> reading s 0 bs"
  using GetStream_reading [OF packet_ok_packet_of, of bs who cmd] by auto

text \<open>A packet as it comes out of the library at the other end.\<close>

definition as_received :: "PeerID \<Rightarrow> Packet \<Rightarrow> Packet" where
  "as_received who p = packet_of who (m_command p) (payload p)"

end
