(* ===== verification/Ordered_Map.thy ===== *)
theory Ordered_Map
  imports Main
begin

text \<open>
  The ordered container \<^verbatim>\<open>std::map\<close> (and \<^verbatim>\<open>std::set\<close>) as an association list with
  strictly increasing keys, so that \<^verbatim>\<open>begin()\<close> is the head of the list.
\<close>

section \<open>Operations\<close>

fun emplace :: "'k::linorder \<Rightarrow> 'v \<Rightarrow> ('k \<times> 'v) list \<Rightarrow> ('k \<times> 'v) list" where
  "emplace k v [] = [(k, v)]"
| "emplace k v ((k', v') # m) =
     (if k < k' then (k, v) # (k', v') # m
      else if k = k' then (k', v') # m
      else (k', v') # emplace k v m)"

definition erase :: "'k \<Rightarrow> ('k \<times> 'v) list \<Rightarrow> ('k \<times> 'v) list" where
  "erase k m = filter (\<lambda>(k', v). k' \<noteq> k) m"

definition ordered :: "('k::linorder \<times> 'v) list \<Rightarrow> bool" where
  "ordered m \<longleftrightarrow> sorted_wrt (<) (map fst m)"

section \<open>The contract\<close>

text \<open>
  What the clients rely on: \<^verbatim>\<open>emplace\<close> never replaces an entry, \<^verbatim>\<open>erase\<close> removes one,
  and the first entry has the least key.
\<close>

locale std_map =
  fixes find :: "'m \<Rightarrow> 'k::linorder \<Rightarrow> 'v option"
    and insert_new :: "'k \<Rightarrow> 'v \<Rightarrow> 'm \<Rightarrow> 'm"
    and remove :: "'k \<Rightarrow> 'm \<Rightarrow> 'm"
    and first :: "'m \<Rightarrow> ('k \<times> 'v) option"
    and invar :: "'m \<Rightarrow> bool"
  assumes invar_insert: "invar m \<Longrightarrow> invar (insert_new k v m)"
    and invar_remove: "invar m \<Longrightarrow> invar (remove k m)"
    and find_insert: "invar m \<Longrightarrow> find (insert_new k v m) k' =
      (if k' = k \<and> find m k = None then Some v else find m k')"
    and find_remove: "invar m \<Longrightarrow> find (remove k m) k' = (if k' = k then None else find m k')"
    and first_None: "invar m \<Longrightarrow> first m = None \<longleftrightarrow> (\<forall>k. find m k = None)"
    and first_Some: "invar m \<Longrightarrow> first m = Some (k, v) \<Longrightarrow>
      find m k = Some v \<and> (\<forall>k'. find m k' \<noteq> None \<longrightarrow> k \<le> k')"
begin

lemma first_eqI:
  assumes "invar m" "find m k = Some v" "\<And>k'. find m k' \<noteq> None \<Longrightarrow> k \<le> k'"
  shows "first m = Some (k, v)"
proof -
  obtain k1 v1 where f: "first m = Some (k1, v1)"
    using first_None [OF assms(1)] assms(2) by (cases "first m") auto
  from first_Some [OF assms(1) this] assms have "k1 = k" "v1 = v" by force+
  with f show ?thesis by simp
qed

lemma insert_over_remove:
  "invar m \<Longrightarrow> find (insert_new k v (remove k m)) k' = (if k' = k then Some v else find m k')"
  by (simp add: find_insert find_remove invar_remove)

end

section \<open>Sorted lists meet it\<close>

lemma ordered_Nil [simp]: "ordered []"
  by (simp add: ordered_def)

lemma set_emplace: "fst ` set (emplace k v m) = insert k (fst ` set m)"
  by (induction k v m rule: emplace.induct) auto

lemma ordered_emplace: "ordered m \<Longrightarrow> ordered (emplace k v m)"
proof (induction k v m rule: emplace.induct)
  case (2 k v k' v' m)
  then show ?case using set_emplace [of k v m] by (fastforce simp: ordered_def)
qed (simp add: ordered_def)

lemma ordered_erase: "ordered m \<Longrightarrow> ordered (erase k m)"
  by (induction m) (auto simp: ordered_def erase_def)

lemma ordered_ConsD: "ordered ((k, v) # m) \<Longrightarrow> ordered m \<and> map_of m k = None"
  by (auto simp: ordered_def map_of_eq_None_iff)

lemma map_of_emplace:
  "ordered m \<Longrightarrow>
   map_of (emplace k v m) k' = (if k' = k \<and> map_of m k = None then Some v else map_of m k')"
proof (induction k v m rule: emplace.induct)
  case (2 k v j w m)
  have m: "ordered m" using 2(2) by (simp add: ordered_def)
  have "map_of m k = None" if "k < j" using 2(2) that by (auto simp: ordered_def map_of_eq_None_iff)
  then show ?case using 2(1) m by auto
qed auto

lemma map_of_erase: "map_of (erase k m) k' = (if k' = k then None else map_of m k')"
  by (induction m) (auto simp: erase_def)

lemma erase_hd: "ordered ((k, v) # m) \<Longrightarrow> erase k ((k, v) # m) = m"
  by (auto simp: ordered_def erase_def intro!: filter_True)

definition map_begin :: "('k \<times> 'v) list \<Rightarrow> ('k \<times> 'v) option" where
  "map_begin m = (case m of [] \<Rightarrow> None | e # _ \<Rightarrow> Some e)"

interpretation sorted_map: std_map map_of emplace erase map_begin ordered
proof (unfold_locales, goal_cases)
  case (5 m)
  show ?case by (cases m) (auto simp: map_begin_def intro: exI [of _ "fst (hd m)"])
next
  case (6 m k v)
  then obtain m' where m: "m = (k, v) # m'" by (cases m) (auto simp: map_begin_def)
  have "k \<le> k'" if "map_of m k' \<noteq> None" for k'
  proof -
    from that have "k' \<in> fst ` set m" by (metis map_of_eq_None_iff)
    then show ?thesis using 6(1) m by (auto simp: ordered_def intro: less_imp_le)
  qed
  then show ?case using m by simp
qed (auto simp: ordered_emplace ordered_erase map_of_emplace map_of_erase)

end
