(* ===== verification/ChannelBuffers.thy ===== *)
theory ChannelBuffers
  imports Packets Ordered_Map
begin

text \<open>
  The buffer that puts the packets of a channel in order: \<^verbatim>\<open>source/ChannelBuffer.cpp\<close>.
  The delivery mode of a channel is asked from the owning peer (\<^verbatim>\<open>GetChannelModeByIndex\<close>),
  which is the argument \<open>modeOf\<close>.  \<open>HandleChannelPacket\<close> is the part of
  \<^verbatim>\<open>PacketQueue::HandleIncomingPacket\<close> that works on one buffer: enqueue a packet, then
  dequeue as many as possible.
\<close>

section \<open>Operations\<close>

definition halfSpan :: SequenceID where
  "halfSpan = 0xFFFFFFFF div 2"

definition SequenceLessThan :: "SequenceID \<Rightarrow> SequenceID \<Rightarrow> bool" where
  "SequenceLessThan lhs rhs \<longleftrightarrow> lhs \<noteq> rhs \<and> rhs - lhs < halfSpan"

definition SequenceGreaterThanOrEqual :: "SequenceID \<Rightarrow> SequenceID \<Rightarrow> bool" where
  "SequenceGreaterThanOrEqual lhs rhs \<longleftrightarrow> lhs = rhs \<or> rhs - lhs > halfSpan"

record ChannelBuffer =
  m_backlog :: "(SequenceID \<times> Packet) list"
  m_nextEnqueue :: SequenceID
  m_nextDequeue :: SequenceID
  m_outgoing :: SequenceID
  cb_index :: ChannelIndex

type_synonym channel_modes = "ChannelIndex \<Rightarrow> ChannelMode result"

definition GetMode :: "channel_modes \<Rightarrow> ChannelBuffer \<Rightarrow> ChannelMode result" where
  "GetMode modeOf b = modeOf (cb_index b)"

definition ChannelBuffer_new :: "channel_modes \<Rightarrow> ChannelIndex \<Rightarrow> ChannelBuffer result" where
  "ChannelBuffer_new modeOf index =
     (let b = \<lparr>m_backlog = [], m_nextEnqueue = 0, m_nextDequeue = 0, m_outgoing = 0,
               cb_index = index\<rparr>
      in rbind (GetMode modeOf b) (\<lambda>mode. rassert (mode \<noteq> UNORDERED) (Inr b)))"

definition Enqueue ::
  "channel_modes \<Rightarrow> SequenceID \<Rightarrow> Packet \<Rightarrow> ChannelBuffer \<Rightarrow> ChannelBuffer result" where
  "Enqueue modeOf seq packet b =
     rbind (GetMode modeOf b) (\<lambda>mode.
     if mode = SEQUENCED
     then if SequenceLessThan seq (m_nextEnqueue b) then Inr b
          else Inr (b\<lparr>m_nextEnqueue := seq + 1, m_backlog := emplace seq packet (m_backlog b)\<rparr>)
     else Inr (b\<lparr>m_backlog := emplace seq packet (m_backlog b)\<rparr>))"

definition IsEligible :: "channel_modes \<Rightarrow> SequenceID \<Rightarrow> ChannelBuffer \<Rightarrow> bool result" where
  "IsEligible modeOf seq b =
     rbind (GetMode modeOf b) (\<lambda>mode.
     Inr (if mode = ORDERED then SequenceGreaterThanOrEqual (m_nextDequeue b) seq else True))"

definition Dequeue ::
  "channel_modes \<Rightarrow> ChannelBuffer \<Rightarrow> (Packet option \<times> ChannelBuffer) result" where
  "Dequeue modeOf b = (case map_begin (m_backlog b) of
      None \<Rightarrow> Inr (None, b)
    | Some (k, p) \<Rightarrow>
        rbind (IsEligible modeOf k b) (\<lambda>ok.
        if ok then Inr (Some p, b\<lparr>m_nextDequeue := k + 1, m_backlog := erase k (m_backlog b)\<rparr>)
        else Inr (None, b)))"

definition GetNextOutgoing :: "ChannelBuffer \<Rightarrow> SequenceID \<times> ChannelBuffer" where
  "GetNextOutgoing b = (m_outgoing b, b\<lparr>m_outgoing := m_outgoing b + 1\<rparr>)"

lemma Dequeue_shorter:
  "Dequeue modeOf b = Inr (Some p, b') \<Longrightarrow> length (m_backlog b') < length (m_backlog b)"
  by (auto simp: Dequeue_def map_begin_def erase_def le_imp_less_Suc
    split: list.splits if_splits intro!: le_imp_less_Suc)

text \<open>The loop that dequeues until nothing is eligible.\<close>

function Dequeue_all ::
  "channel_modes \<Rightarrow> ChannelBuffer \<Rightarrow> (Packet list \<times> ChannelBuffer) result" where
  "Dequeue_all modeOf b =
     (case Dequeue modeOf b of
        Inl e \<Rightarrow> Inl e
      | Inr (None, b) \<Rightarrow> Inr ([], b)
      | Inr (Some p, b) \<Rightarrow>
          rbind (Dequeue_all modeOf b) (\<lambda>(ps, b). Inr (p # ps, b)))"
  by pat_completeness auto
termination
  by (relation "measure (\<lambda>(modeOf, b). length (m_backlog b))") (auto dest: Dequeue_shorter)

declare Dequeue_all.simps [simp del]

definition HandleChannelPacket ::
  "channel_modes \<Rightarrow> SequenceID \<Rightarrow> Packet \<Rightarrow> ChannelBuffer \<Rightarrow> (Packet list \<times> ChannelBuffer) result" where
  "HandleChannelPacket modeOf seq packet b =
     rbind (Enqueue modeOf seq packet b) (Dequeue_all modeOf)"

text \<open>A run of arrivals: the packets delivered, in order.\<close>

fun deliveries ::
  "channel_modes \<Rightarrow> (SequenceID \<times> Packet) list \<Rightarrow> ChannelBuffer \<Rightarrow>
   (Packet list \<times> ChannelBuffer) result" where
  "deliveries modeOf [] b = Inr ([], b)"
| "deliveries modeOf ((seq, p) # arrivals) b =
     rbind (HandleChannelPacket modeOf seq p b) (\<lambda>(ps, b).
     rbind (deliveries modeOf arrivals b) (\<lambda>(qs, b). Inr (ps @ qs, b)))"

section \<open>Serial number comparison\<close>

lemma halfSpan_eq: "unat halfSpan = 2 ^ 31 - 1"
  by (simp add: halfSpan_def)

lemma SequenceLessThan_small:
  assumes "i < 2 ^ 31" "j < 2 ^ 31"
  shows "SequenceLessThan (of_nat i) (of_nat j) \<longleftrightarrow> i < j \<and> j - i < 2 ^ 31 - 1"
proof -
  have u: "unat (of_nat i :: u32) = i" "unat (of_nat j :: u32) = j"
    using assms by (simp_all add: unat_of_nat_small)
  then have ne: "(of_nat i :: u32) = of_nat j \<longleftrightarrow> i = j" by (metis)
  show ?thesis unfolding SequenceLessThan_def ne word_less_nat_alt unat_diff halfSpan_eq
    using u assms by (auto simp: word_le_nat_alt)
qed

lemma SequenceGreaterThanOrEqual_small:
  assumes "i \<le> j" "j < 2 ^ 31"
  shows "SequenceGreaterThanOrEqual (of_nat i) (of_nat j) \<longleftrightarrow> i = j"
proof -
  have u: "unat (of_nat i :: u32) = i" "unat (of_nat j :: u32) = j"
    using assms by (simp_all add: unat_of_nat_small)
  then have ne: "(of_nat i :: u32) = of_nat j \<longleftrightarrow> i = j" by (metis)
  show ?thesis unfolding SequenceGreaterThanOrEqual_def ne word_less_nat_alt unat_diff halfSpan_eq
    using u assms by (auto simp: word_le_nat_alt)
qed

section \<open>Ordered channels\<close>

text \<open>
  \<open>holds S n b\<close>: the packets with the sequence numbers \<open>S\<close> have arrived, those below \<open>n\<close> are
  delivered and the others wait in the buffer.
\<close>

definition holds :: "(nat \<Rightarrow> Packet) \<Rightarrow> nat set \<Rightarrow> nat \<Rightarrow> ChannelBuffer \<Rightarrow> bool" where
  "holds pkt S n b \<longleftrightarrow> S \<subseteq> {..<2 ^ 31} \<and> {..<n} \<subseteq> S \<and> n \<le> 2 ^ 31 \<and>
     ordered (m_backlog b) \<and> m_nextDequeue b = of_nat n \<and>
     (\<forall>k. map_of (m_backlog b) k = (if unat k \<in> S \<and> n \<le> unat k then Some (pkt (unat k)) else None))"

lemma holds_Enqueue:
  assumes h: "holds pkt S n b" and m: "modeOf (cb_index b) = Inr ORDERED"
    and i: "i \<notin> S" "i < 2 ^ 31"
  shows "\<exists>b'. Enqueue modeOf (of_nat i) (pkt i) b = Inr b' \<and> holds pkt (insert i S) n b' \<and>
    cb_index b' = cb_index b"
proof -
  have u: "unat (of_nat i :: u32) = i" using i(2) by (simp add: unat_of_nat_small)
  have k: "k = of_nat i \<longleftrightarrow> unat k = i" for k :: u32 using u by auto
  have n: "n \<le> i" using h i(1) by (force simp: holds_def)
  let ?b = "b\<lparr>m_backlog := emplace (of_nat i) (pkt i) (m_backlog b)\<rparr>"
  have "map_of (m_backlog ?b) k =
      (if unat k \<in> insert i S \<and> n \<le> unat k then Some (pkt (unat k)) else None)" for k
    using h i u n by (auto simp: holds_def map_of_emplace k)
  then have "holds pkt (insert i S) n ?b"
    using h i n by (auto simp: holds_def ordered_emplace)
  then show ?thesis using m by (simp add: Enqueue_def GetMode_def)
qed

lemma holds_Dequeue_gap:
  assumes h: "holds pkt S n b" and m: "modeOf (cb_index b) = Inr ORDERED" and n: "n \<notin> S"
  shows "Dequeue modeOf b = Inr (None, b)"
proof (cases "map_begin (m_backlog b)")
  case (Some e)
  obtain k p where e: "map_begin (m_backlog b) = Some (k, p)" using Some by (cases e) auto
  from sorted_map.first_Some [OF _ e] h have "unat k \<in> S" "n \<le> unat k"
    by (auto simp: holds_def split: if_splits)
  moreover from this n have "n \<noteq> unat k" by auto
  ultimately have "\<not> SequenceGreaterThanOrEqual (m_nextDequeue b) k"
    using SequenceGreaterThanOrEqual_small [of n "unat k"] h by (auto simp: holds_def)
  then show ?thesis using e m by (simp add: Dequeue_def IsEligible_def GetMode_def)
qed (simp add: Dequeue_def)

lemma holds_Dequeue_next:
  assumes h: "holds pkt S n b" and m: "modeOf (cb_index b) = Inr ORDERED" and n: "n \<in> S"
  shows "\<exists>b'. Dequeue modeOf b = Inr (Some (pkt n), b') \<and> holds pkt S (Suc n) b' \<and>
    cb_index b' = cb_index b"
proof -
  have n31: "n < 2 ^ 31" using h n by (auto simp: holds_def)
  then have u: "unat (of_nat n :: u32) = n" by (simp add: unat_of_nat_small)
  have "map_begin (m_backlog b) = Some (of_nat n, pkt n)"
    using h n u by (intro sorted_map.first_eqI) (auto simp: holds_def word_le_nat_alt split: if_splits)
  moreover have "SequenceGreaterThanOrEqual (m_nextDequeue b) (of_nat n)"
    using h by (simp add: holds_def SequenceGreaterThanOrEqual_def)
  moreover have "holds pkt S (Suc n)
      (b\<lparr>m_nextDequeue := of_nat n + 1, m_backlog := erase (of_nat n) (m_backlog b)\<rparr>)"
  proof -
    have "k = of_nat n \<longleftrightarrow> unat k = n" for k :: u32 using u by auto
    then show ?thesis using h n n31
      by (auto simp: holds_def ordered_erase map_of_erase lessThan_Suc add.commute)
  qed
  ultimately show ?thesis using m by (simp add: Dequeue_def IsEligible_def GetMode_def)
qed

definition first_missing :: "nat set \<Rightarrow> nat" where
  "first_missing S = (LEAST k. k \<notin> S)"

lemma holds_Dequeue_all:
  assumes h: "holds pkt S n b" and m: "modeOf (cb_index b) = Inr ORDERED"
  shows "\<exists>b'. Dequeue_all modeOf b = Inr (map pkt [n..<first_missing S], b') \<and>
    holds pkt S (first_missing S) b' \<and> cb_index b' = cb_index b \<and> n \<le> first_missing S"
  using assms
proof (induction "2 ^ 31 - n" arbitrary: n b)
  case 0
  then have "n \<notin> S" "{..<n} \<subseteq> S" by (auto simp: holds_def)
  moreover from this have "first_missing S = n"
    unfolding first_missing_def by (intro Least_equality) (auto simp: not_less [symmetric])
  ultimately show ?case
    using holds_Dequeue_gap [where modeOf = modeOf, OF 0(2,3)] 0(2) by (subst Dequeue_all.simps) simp
next
  case (Suc d)
  show ?case
  proof (cases "n \<in> S")
    case True
    from holds_Dequeue_next [where modeOf = modeOf, OF Suc.prems True] obtain b1 where
      b1: "Dequeue modeOf b = Inr (Some (pkt n), b1)" "holds pkt S (Suc n) b1"
        "cb_index b1 = cb_index b" by blast
    have "d = 2 ^ 31 - Suc n" using Suc.hyps(2) by simp
    from Suc.hyps(1) [OF this b1(2)] b1(3) Suc.prems(2) obtain b' where
      b': "Dequeue_all modeOf b1 = Inr (map pkt [Suc n..<first_missing S], b')"
        "holds pkt S (first_missing S) b'" "cb_index b' = cb_index b1" "Suc n \<le> first_missing S"
      by auto
    then show ?thesis using b1
      by (subst Dequeue_all.simps) (simp add: upt_conv_Cons)
  next
    case False
    moreover have "first_missing S = n"
      using False Suc.prems(1) unfolding first_missing_def
      by (intro Least_equality) (auto simp: holds_def not_less [symmetric])
    ultimately show ?thesis
      using holds_Dequeue_gap [where modeOf = modeOf, OF Suc.prems] Suc.prems(1) by (subst Dequeue_all.simps) simp
  qed
qed

lemma holds_deliveries:
  assumes "holds pkt S (first_missing S) b" "modeOf (cb_index b) = Inr ORDERED"
    and "distinct is" "set is \<inter> S = {}" "\<forall>i \<in> set is. i < 2 ^ 31"
  shows "\<exists>b'. deliveries modeOf (map (\<lambda>i. (of_nat i, pkt i)) is) b =
      Inr (map pkt [first_missing S..<first_missing (S \<union> set is)], b') \<and>
    first_missing S \<le> first_missing (S \<union> set is)"
  using assms
proof (induction "is" arbitrary: S b)
  case (Cons i "is")
  from holds_Enqueue [where modeOf = modeOf, OF Cons.prems(1,2), of i] Cons.prems obtain b1 where
    b1: "Enqueue modeOf (of_nat i) (pkt i) b = Inr b1" "holds pkt (insert i S) (first_missing S) b1"
      "cb_index b1 = cb_index b" by auto
  from holds_Dequeue_all [where modeOf = modeOf, OF b1(2)] b1(3) Cons.prems(2) obtain b2 where
    b2: "Dequeue_all modeOf b1 = Inr (map pkt [first_missing S..<first_missing (insert i S)], b2)"
      "holds pkt (insert i S) (first_missing (insert i S)) b2" "cb_index b2 = cb_index b"
      "first_missing S \<le> first_missing (insert i S)" by auto
  have "\<exists>b'. deliveries modeOf (map (\<lambda>i. (of_nat i, pkt i)) is) b2 =
      Inr (map pkt [first_missing (insert i S)..<first_missing (insert i S \<union> set is)], b') \<and>
    first_missing (insert i S) \<le> first_missing (insert i S \<union> set is)"
    using b2(2,3) Cons.prems by (intro Cons.IH) auto
  then obtain b3 where
    "deliveries modeOf (map (\<lambda>i. (of_nat i, pkt i)) is) b2 =
      Inr (map pkt [first_missing (insert i S)..<first_missing (insert i S \<union> set is)], b3)"
    "first_missing (insert i S) \<le> first_missing (insert i S \<union> set is)" by blast
  then show ?case using b1(1) b2(1,4)
    by (simp add: HandleChannelPacket_def upt_append flip: map_append)
qed simp

section \<open>Properties\<close>

text \<open>
  C17.  An ordered channel: whatever the order in which packets with distinct sequence numbers below \<open>2 ^ 31\<close> arrive,
  at every moment exactly the packets below the first missing sequence number are delivered, each
  once and in the order of the sequence numbers.
\<close>

theorem ordered_channel_delivers:
  assumes "modeOf index = Inr ORDERED" "distinct is" "\<forall>i \<in> set is. i < 2 ^ 31"
  shows "\<exists>b b'. ChannelBuffer_new modeOf index = Inr b \<and>
    deliveries modeOf (map (\<lambda>i. (of_nat i, pkt i)) is) b =
      Inr (map pkt [0..<(LEAST k. k \<notin> set is)], b')"
proof -
  let ?b = "\<lparr>m_backlog = [], m_nextEnqueue = 0, m_nextDequeue = 0, m_outgoing = 0, cb_index = index\<rparr>"
  have new: "ChannelBuffer_new modeOf index = Inr ?b"
    using assms(1) by (simp add: ChannelBuffer_new_def GetMode_def Let_def)
  have m0: "first_missing {} = 0" 
    unfolding first_missing_def by (intro Least_equality) auto
  have "holds pkt {} (first_missing {}) ?b" by (simp add: m0 holds_def)
  from holds_deliveries [OF this, of modeOf "is"] assms new show ?thesis
    by (auto simp: m0 first_missing_def)
qed

definition example_packet :: "nat \<Rightarrow> Packet" where
  "example_packet i = packet_of 1 USER_PACKET [of_nat i]"

theorem ordered_channel_delivers_witness:
  "\<exists>b b'. ChannelBuffer_new (\<lambda>_. Inr ORDERED) 1 = Inr b \<and>
    deliveries (\<lambda>_. Inr ORDERED) (map (\<lambda>i. (of_nat i, example_packet i)) [1, 0, 3]) b =
      Inr (map example_packet [0, 1], b')"
proof -
  have "(LEAST k. k \<notin> set [1, 0, 3 :: nat]) = 2"
  proof (rule Least_equality)
    fix y assume "y \<notin> set [1, 0, 3 :: nat]"
    then have "y \<noteq> 0" "y \<noteq> 1" by auto
    then show "2 \<le> y" by linarith
  qed simp
  moreover have "[0..<2] = [0, 1 :: nat]" by (simp add: upt_rec)
  ultimately show ?thesis
    using ordered_channel_delivers [of "\<lambda>_. Inr ORDERED" 1 "[1, 0, 3]" example_packet]
    by (simp del: deliveries.simps)
qed

text \<open>The reference for sequenced channels: keep an arrival unless a later one was kept before.\<close>

fun latest :: "nat \<Rightarrow> nat list \<Rightarrow> nat list" where
  "latest n [] = []"
| "latest n (i # is) = (if i < n then latest n is else i # latest (Suc i) is)"

lemma latest_sorted: "sorted_wrt (<) (latest n is) \<and> (\<forall>i \<in> set (latest n is). n \<le> i)"
  by (induction n "is" rule: latest.induct) (auto simp: not_less, (drule (1) bspec, linarith)+)

lemma sequenced_step:
  assumes "modeOf (cb_index b) = Inr SEQUENCED" "m_backlog b = []" "m_nextEnqueue b = of_nat n"
    and "n < 2 ^ 31 - 1" "i < 2 ^ 31 - 1"
  shows "\<exists>b'. HandleChannelPacket modeOf (of_nat i) p b = Inr (if i < n then [] else [p], b') \<and>
    m_backlog b' = [] \<and> m_nextEnqueue b' = of_nat (if i < n then n else Suc i) \<and>
    cb_index b' = cb_index b"
proof (cases "i < n")
  case True
  then have "SequenceLessThan (of_nat i) (of_nat n)"
    using assms(4,5) SequenceLessThan_small [of i n] by auto
  then show ?thesis using assms True
    by (auto simp: HandleChannelPacket_def Enqueue_def GetMode_def Dequeue_def map_begin_def
      Dequeue_all.simps [of modeOf b])
next
  case False
  then have "\<not> SequenceLessThan (of_nat i) (of_nat n)"
    using assms(4,5) SequenceLessThan_small [of i n] by auto
  then show ?thesis using assms False
    by (simp add: HandleChannelPacket_def Enqueue_def GetMode_def Dequeue_def IsEligible_def
      map_begin_def erase_def Dequeue_all.simps add.commute)
qed

lemma sequenced_deliveries:
  assumes "modeOf (cb_index b) = Inr SEQUENCED" "m_backlog b = []" "m_nextEnqueue b = of_nat n"
    and "n < 2 ^ 31 - 1" "\<forall>i \<in> set is. i < 2 ^ 31 - 2"
  shows "\<exists>b'. deliveries modeOf (map (\<lambda>i. (of_nat i, pkt i)) is) b =
    Inr (map pkt (latest n is), b')"
  using assms
proof (induction "is" arbitrary: b n)
  case (Cons i "is")
  have i: "i < 2 ^ 31 - 2" using Cons.prems(5) by simp
  obtain b1 where b1: "HandleChannelPacket modeOf (of_nat i) (pkt i) b =
      Inr (if i < n then [] else [pkt i], b1)" "m_backlog b1 = []"
    "m_nextEnqueue b1 = of_nat (if i < n then n else Suc i)" "cb_index b1 = cb_index b"
    using sequenced_step [where modeOf = modeOf and p = "pkt i", OF Cons.prems(1-4), of i] i by auto
  have "\<exists>b'. deliveries modeOf (map (\<lambda>i. (of_nat i, pkt i)) is) b1 =
      Inr (map pkt (latest (if i < n then n else Suc i) is), b')"
    using b1 Cons.prems i by (intro Cons.IH) auto
  then show ?case using b1(1) by auto
qed simp

text \<open>
  C27.  A sequenced channel delivers an arrival at once or never: exactly those packets are delivered
  that are not older than a packet delivered before, so the delivered sequence numbers strictly
  increase.
\<close>

theorem sequenced_channel_delivers:
  assumes "modeOf index = Inr SEQUENCED" "\<forall>i \<in> set is. i < 2 ^ 31 - 2"
  shows "\<exists>b b'. ChannelBuffer_new modeOf index = Inr b \<and>
    deliveries modeOf (map (\<lambda>i. (of_nat i, pkt i)) is) b = Inr (map pkt (latest 0 is), b') \<and>
    sorted_wrt (<) (latest 0 is)"
proof -
  let ?b = "\<lparr>m_backlog = [], m_nextEnqueue = 0, m_nextDequeue = 0, m_outgoing = 0, cb_index = index\<rparr>"
  have "ChannelBuffer_new modeOf index = Inr ?b"
    using assms(1) by (simp add: ChannelBuffer_new_def GetMode_def Let_def)
  moreover have "\<exists>b'. deliveries modeOf (map (\<lambda>i. (of_nat i, pkt i)) is) ?b =
      Inr (map pkt (latest 0 is), b')"
    using assms by (intro sequenced_deliveries) auto
  ultimately show ?thesis using latest_sorted by blast
qed

theorem sequenced_channel_delivers_witness:
  "\<exists>b b'. ChannelBuffer_new (\<lambda>_. Inr SEQUENCED) 1 = Inr b \<and>
    deliveries (\<lambda>_. Inr SEQUENCED) (map (\<lambda>i. (of_nat i, example_packet i)) [1, 0, 1, 3]) b =
      Inr (map example_packet [1, 3], b')"
  using sequenced_channel_delivers [of "\<lambda>_. Inr SEQUENCED" 1 "[1, 0, 1, 3]" example_packet] by simp

text \<open>
  The comparison of sequence numbers is a serial-number order up to a hole: the two tests are
  complementary except at a distance of exactly \<open>2 ^ 31 - 1\<close>, where both are false.
\<close>

lemma sequence_comparison:
  "(SequenceLessThan a b \<and> \<not> SequenceGreaterThanOrEqual a b) \<or>
   (\<not> SequenceLessThan a b \<and> SequenceGreaterThanOrEqual a b) \<longleftrightarrow> b - a \<noteq> 2 ^ 31 - 1"
proof -
  have h: "halfSpan = 2 ^ 31 - 1" by (simp add: halfSpan_def)
  have "a = b \<longleftrightarrow> b - a = 0" by auto
  then show ?thesis unfolding SequenceLessThan_def SequenceGreaterThanOrEqual_def h
    by (cases "b - a = 2 ^ 31 - 1") (auto simp: word_less_nat_alt word_unat_eq_iff)
qed

text \<open>
  Around the wrap-around of the sequence numbers.  The backlog is sorted by plain numbers, the test of
  eligibility compares in serial order.  A packet whose number has wrapped around while the expected number has
  not stands in front of the backlog and is not eligible, and neither is anything that may be put in front of it.
\<close>

definition stalled :: "SequenceID \<Rightarrow> ChannelBuffer \<Rightarrow> bool" where
  "stalled k b \<longleftrightarrow> ordered (m_backlog b) \<and> map_of (m_backlog b) k \<noteq> None \<and>
     k < m_nextDequeue b \<and> k - m_nextDequeue b \<le> halfSpan"

lemma wrapped_not_eligible:
  assumes "k < n" "k - n \<le> halfSpan" "j \<le> k"
  shows "\<not> SequenceGreaterThanOrEqual n j"
proof -
  have "unat (j - n) = 2 ^ 32 + unat j - unat n" "unat (k - n) = 2 ^ 32 + unat k - unat n"
    using assms(1,3) unat_sub_if_size [of j n] unat_sub_if_size [of k n]
    by (auto simp: word_less_nat_alt word_le_nat_alt word_size)
  then have "j - n \<le> k - n" using assms(3) by (simp add: word_le_nat_alt)
  moreover have "n \<noteq> j" using assms(1,3) by auto
  ultimately show ?thesis using assms(2) by (auto simp: SequenceGreaterThanOrEqual_def)
qed

lemma stalled_Dequeue_all:
  assumes "stalled k b" "modeOf (cb_index b) = Inr ORDERED"
  shows "Dequeue_all modeOf b = Inr ([], b)"
proof -
  have s: "ordered (m_backlog b)" "map_of (m_backlog b) k \<noteq> None" "k < m_nextDequeue b" "k - m_nextDequeue b \<le> halfSpan"
    using assms(1) by (auto simp: stalled_def)
  obtain j q where first: "map_begin (m_backlog b) = Some (j, q)"
    using sorted_map.first_None [OF s(1)] s(2) by (cases "map_begin (m_backlog b)") auto
  then have "j \<le> k" using sorted_map.first_Some [OF s(1)] s(2) by blast
  have "\<not> SequenceGreaterThanOrEqual (m_nextDequeue b) j" by (rule wrapped_not_eligible [OF s(3,4) \<open>j \<le> k\<close>])
  then show ?thesis using first assms(2)
    by (subst Dequeue_all.simps) (simp add: Dequeue_def IsEligible_def GetMode_def)
qed

lemma stalled_forever:
  assumes "stalled k b" "modeOf (cb_index b) = Inr ORDERED"
  shows "\<exists>b'. deliveries modeOf arrivals b = Inr ([], b') \<and> stalled k b' \<and> m_nextDequeue b' = m_nextDequeue b"
  using assms
proof (induction modeOf arrivals b rule: deliveries.induct)
  case (2 modeOf seq p arrivals b)
  let ?b = "b\<lparr>m_backlog := emplace seq p (m_backlog b)\<rparr>"
  have s: "stalled k ?b" using 2(2) by (auto simp: stalled_def ordered_emplace map_of_emplace)
  have h: "HandleChannelPacket modeOf seq p b = Inr ([], ?b)"
    using 2(3) stalled_Dequeue_all [of k ?b modeOf] s by (simp add: HandleChannelPacket_def Enqueue_def GetMode_def)
  have "\<exists>b'. deliveries modeOf arrivals ?b = Inr ([], b') \<and> stalled k b' \<and> m_nextDequeue b' = m_nextDequeue ?b"
    using 2(1) [of "([], ?b)" "[]" ?b] h s 2(3) by simp
  then show ?case using h by auto
qed simp

lemma in_order_deliveries:
  assumes "modeOf (cb_index b) = Inr ORDERED" "m_backlog b = []"
  shows "\<exists>b'. deliveries modeOf (map (\<lambda>i. (m_nextDequeue b + of_nat i, pkt i)) [0..<n]) b = Inr (map pkt [0..<n], b')"
  using assms
proof (induction n arbitrary: b pkt)
  case (Suc n)
  let ?b = "b\<lparr>m_nextDequeue := m_nextDequeue b + 1\<rparr>"
  have u: "[0..<Suc n] = 0 # map Suc [0..<n]" by (simp add: map_Suc_upt upt_conv_Cons del: upt_Suc)
  have "HandleChannelPacket modeOf (m_nextDequeue b) (pkt 0) b = Inr ([pkt 0], ?b)"
    using Suc.prems by (simp add: HandleChannelPacket_def Enqueue_def GetMode_def Dequeue_def IsEligible_def map_begin_def erase_def
        SequenceGreaterThanOrEqual_def Dequeue_all.simps)
  moreover have "\<exists>b'. deliveries modeOf (map (\<lambda>i. (m_nextDequeue ?b + of_nat i, pkt (Suc i))) [0..<n]) ?b = Inr (map (\<lambda>i. pkt (Suc i)) [0..<n], b')"
    using Suc.IH [of ?b "\<lambda>i. pkt (Suc i)"] Suc.prems by simp
  ultimately show ?case unfolding u by (auto simp: o_def add.assoc add.commute [of 1])
qed simp

text \<open>
  C40.  An ordered channel does not survive reordering across the wrap-around of the sequence numbers.  Let the
  expected number be still large and let a packet overtake whose number, at most \<open>2 ^ 31 - 1\<close> further on, has
  already wrapped around.  Then nothing is delivered any more, whatever arrives afterwards, the expected packet and
  all those in between included.  Packets that arrive in order pass the wrap-around.
\<close>

theorem ordered_channel_wrap_stalls:
  assumes "modeOf (cb_index b) = Inr ORDERED" "ordered (m_backlog b)"
    and "k < m_nextDequeue b" "k - m_nextDequeue b \<le> halfSpan"
  shows "(\<exists>b'. deliveries modeOf ((k, p) # arrivals) b = Inr ([], b') \<and> m_nextDequeue b' = m_nextDequeue b) \<and>
    (m_backlog b = [] \<longrightarrow> (\<exists>b'. deliveries modeOf (map (\<lambda>i. (m_nextDequeue b + of_nat i, pkt i)) [0..<n]) b =
      Inr (map pkt [0..<n], b')))"
proof -
  let ?b = "b\<lparr>m_backlog := emplace k p (m_backlog b)\<rparr>"
  have s: "stalled k ?b" using assms by (auto simp: stalled_def ordered_emplace map_of_emplace)
  have "HandleChannelPacket modeOf k p b = Inr ([], ?b)"
    using assms(1) stalled_Dequeue_all [of k ?b modeOf] s by (simp add: HandleChannelPacket_def Enqueue_def GetMode_def)
  moreover have "\<exists>b'. deliveries modeOf arrivals ?b = Inr ([], b') \<and> stalled k b' \<and> m_nextDequeue b' = m_nextDequeue ?b"
    using s assms(1) by (intro stalled_forever) simp_all
  ultimately have "\<exists>b'. deliveries modeOf ((k, p) # arrivals) b = Inr ([], b') \<and> m_nextDequeue b' = m_nextDequeue b" by auto
  then show ?thesis using in_order_deliveries [of modeOf b pkt n] assms(1) by blast
qed

theorem ordered_channel_wrap_stalls_witness:
  "(\<exists>b'. deliveries (\<lambda>_. Inr ORDERED) [(0, example_packet 2), (0xFFFFFFFF, example_packet 1), (1, example_packet 3)]
      \<lparr>m_backlog = [], m_nextEnqueue = 0, m_nextDequeue = 0xFFFFFFFF, m_outgoing = 0, cb_index = 1\<rparr> = Inr ([], b')) \<and>
   (\<exists>b'. deliveries (\<lambda>_. Inr ORDERED) [(0xFFFFFFFF, example_packet 0), (0, example_packet 1)]
      \<lparr>m_backlog = [], m_nextEnqueue = 0, m_nextDequeue = 0xFFFFFFFF, m_outgoing = 0, cb_index = 1\<rparr> =
    Inr ([example_packet 0, example_packet 1], b'))"
proof -
  have wrap: "(0x100000000 :: u32) = 0" by simp
  show ?thesis
    using ordered_channel_wrap_stalls [of "\<lambda>_. Inr ORDERED"
        "\<lparr>m_backlog = [], m_nextEnqueue = 0, m_nextDequeue = 0xFFFFFFFF, m_outgoing = 0, cb_index = 1\<rparr>" 0
        "example_packet 2" "[(0xFFFFFFFF, example_packet 1), (1, example_packet 3)]" example_packet 2]
    by (auto simp: ordered_def halfSpan_def upt_rec wrap simp del: deliveries.simps)
qed

end
