(* ===== verification/Congestion.thy ===== *)
theory Congestion
  imports Config Ordered_Map
begin

text \<open>
  Congestion control: \<^verbatim>\<open>source/CongestionControl.cpp\<close> (identifiers, history, round-trip
  times, bytes in flight, acknowledgement lists) and its only implementation,
  \<^verbatim>\<open>source/CongestionControlWindow.cpp\<close> (send window and budgets).  The derived class is an
  extension of the base record.  \<open>budgets\<close> is the contract of the two virtual budget functions that
  the datagram builder relies on.
\<close>

section \<open>State\<close>

datatype RecvState = NEW | DUPLICATE

record DatagramInFlight =
  pif_bytes :: nat
  pif_sent :: Timestamp

record CongestionControl =
  m_nextPacket :: PacketID
  m_nextDatagram :: DatagramID
  m_remoteDatagram :: DatagramID
  m_nextUpdate :: Timestamp
  m_oldestUnsentAck :: Timestamp
  m_bytesInFlight :: nat
  m_rttHistory :: "Timespan list"
  m_rttMin :: Timespan
  m_rttMax :: Timespan
  m_rttAvg :: Timespan
  m_datagramHistory :: "DatagramID \<rightharpoonup> Timestamp"
  m_packetHistory :: "PacketID \<rightharpoonup> Timestamp"
  cc_outgoing :: "(DatagramID \<times> DatagramInFlight) list"
  m_acks :: "DatagramID list"
  m_nacks :: "DatagramID list"

record CongestionControlWindow = CongestionControl +
  m_window :: nat
  m_threshold :: nat

section \<open>The base class\<close>

definition CC_SequenceGreaterThan :: "DatagramID \<Rightarrow> DatagramID \<Rightarrow> bool" where
  "CC_SequenceGreaterThan lhs rhs \<longleftrightarrow> lhs \<noteq> rhs \<and> rhs - lhs > 0xFFFFFFFF div 2"

definition CC_SequenceLessThan :: "DatagramID \<Rightarrow> DatagramID \<Rightarrow> bool" where
  "CC_SequenceLessThan lhs rhs \<longleftrightarrow> lhs \<noteq> rhs \<and> rhs - lhs < 0xFFFFFFFF div 2"

definition CongestionControl_new :: "Timestamp \<Rightarrow> CongestionControl" where
  "CongestionControl_new now =
     \<lparr>m_nextPacket = 0, m_nextDatagram = 0, m_remoteDatagram = 0, m_nextUpdate = now,
      m_oldestUnsentAck = 0, m_bytesInFlight = 0, m_rttHistory = [], m_rttMin = 0, m_rttMax = 0,
      m_rttAvg = 0, m_datagramHistory = Map.empty, m_packetHistory = Map.empty,
      cc_outgoing = [], m_acks = [], m_nacks = []\<rparr>"

text \<open>The clean-up loops of \<^verbatim>\<open>Update\<close>.\<close>

definition wire_expired :: "Timestamp \<Rightarrow> Timespan \<Rightarrow> DatagramInFlight \<Rightarrow> bool" where
  "wire_expired now expireTime pif \<longleftrightarrow> now \<ge> Timestamp_plus (pif_sent pif) expireTime"

fun expire_outgoing ::
  "Timestamp \<Rightarrow> Timespan \<Rightarrow> nat \<Rightarrow> (DatagramID \<times> DatagramInFlight) list \<Rightarrow>
   nat \<times> (DatagramID \<times> DatagramInFlight) list" where
  "expire_outgoing now expireTime inFlight [] = (inFlight, [])"
| "expire_outgoing now expireTime inFlight ((i, pif) # m) =
     (if wire_expired now expireTime pif
      then expire_outgoing now expireTime (size_sub inFlight (pif_bytes pif)) m
      else (let (inFlight', m') = expire_outgoing now expireTime inFlight m
            in (inFlight', (i, pif) # m')))"

definition expire_history :: "Timestamp \<Rightarrow> ('k \<rightharpoonup> Timestamp) \<Rightarrow> ('k \<rightharpoonup> Timestamp)" where
  "expire_history now h = (\<lambda>k. case h k of
      None \<Rightarrow> None
    | Some t \<Rightarrow> if now \<ge> Timestamp_plus t (FromSeconds 10) then None else Some t)"

definition CongestionControl_Update ::
  "Timestamp \<Rightarrow> 'a CongestionControl_scheme \<Rightarrow> PeerStats \<Rightarrow>
   'a CongestionControl_scheme \<times> PeerStats" where
  "CongestionControl_Update now c stats =
     (if \<not> Time_Elapsed now (m_nextUpdate c) then (c, stats) else
      (let c = c\<lparr>m_nextUpdate := Timestamp_plus now (FromMilliseconds 20)\<rparr>;
           (inFlight, out) =
             expire_outgoing now ((m_rttAvg c * 16) mod 2 ^ 64) (m_bytesInFlight c) (cc_outgoing c);
           c = c\<lparr>m_bytesInFlight := inFlight, cc_outgoing := out,
                 m_datagramHistory := expire_history now (m_datagramHistory c),
                 m_packetHistory := expire_history now (m_packetHistory c)\<rparr>
       in (c, PeerStats_Set BYTES_IN_FLIGHT (m_bytesInFlight c) stats)))"

definition GetNextPacketID ::
  "'a CongestionControl_scheme \<Rightarrow> PacketID \<times> 'a CongestionControl_scheme" where
  "GetNextPacketID c = (m_nextPacket c, c\<lparr>m_nextPacket := m_nextPacket c + 1\<rparr>)"

definition GetNextDatagramID ::
  "'a CongestionControl_scheme \<Rightarrow> DatagramID \<times> 'a CongestionControl_scheme" where
  "GetNextDatagramID c = (m_nextDatagram c, c\<lparr>m_nextDatagram := m_nextDatagram c + 1\<rparr>)"

definition PeekNextDatagramID :: "'a CongestionControl_scheme \<Rightarrow> DatagramID" where
  "PeekNextDatagramID c = m_nextDatagram c"

definition GetRTTHistoryAvailable :: "'a CongestionControl_scheme \<Rightarrow> bool" where
  "GetRTTHistoryAvailable c \<longleftrightarrow> length (m_rttHistory c) \<ge> 2"

text \<open>
  \<^verbatim>\<open>ToMilliseconds\<close> casts to \<^verbatim>\<open>int\<close>; the assertion is that the cast did not give
  a negative number.
\<close>

definition GetAverageRTT :: "'a CongestionControl_scheme \<Rightarrow> nat result" where
  "GetAverageRTT c =
     (let ms = ToMilliseconds (m_rttAvg c) mod 2 ^ 32
      in rassert (ms < 2 ^ 31) (Inr ms))"

definition MakeAckList ::
  "'a CongestionControl_scheme \<Rightarrow>
   (DatagramID list \<times> DatagramID list) \<times> 'a CongestionControl_scheme" where
  "MakeAckList c = ((m_acks c, m_nacks c), c\<lparr>m_acks := [], m_nacks := []\<rparr>)"

definition RecalculateRTT :: "'a CongestionControl_scheme \<Rightarrow> 'a CongestionControl_scheme" where
  "RecalculateRTT c =
     (let (avg, mx, mn) =
        fold (\<lambda>entry (avg, mx, mn). ((avg + entry) mod 2 ^ 64, max mx entry, min mn entry))
          (m_rttHistory c) (0, 0, 2 ^ 64 - 1)
      in c\<lparr>m_rttAvg := avg div length (m_rttHistory c), m_rttMax := mx, m_rttMin := mn\<rparr>)"

definition NotifySendingBytes ::
  "Timestamp \<Rightarrow> DatagramID \<Rightarrow> nat \<Rightarrow> 'a CongestionControl_scheme \<Rightarrow> 'a CongestionControl_scheme" where
  "NotifySendingBytes now outgoing n c =
     c\<lparr>m_bytesInFlight := (m_bytesInFlight c + n) mod 2 ^ 64,
       cc_outgoing := emplace outgoing \<lparr>pif_bytes = n, pif_sent = now\<rparr> (cc_outgoing c)\<rparr>"

definition CongestionControl_NotifyReceivedAck ::
  "Timestamp \<Rightarrow> DatagramID \<Rightarrow> 'a CongestionControl_scheme \<Rightarrow> 'a CongestionControl_scheme" where
  "CongestionControl_NotifyReceivedAck now recv c = (case map_of (cc_outgoing c) recv of
      None \<Rightarrow> c
    | Some pif \<Rightarrow>
        (let rtt = Time_Between now (pif_sent pif);
             h = m_rttHistory c @ [rtt];
             h = (if length h > CONGESTION_RTT_HISTORY_LEN then tl h else h);
             c = RecalculateRTT (c\<lparr>m_rttHistory := h\<rparr>)
         in c\<lparr>m_bytesInFlight := size_sub (m_bytesInFlight c) (pif_bytes pif),
              cc_outgoing := erase recv (cc_outgoing c)\<rparr>))"

definition nack_gap :: "DatagramID \<Rightarrow> DatagramID \<Rightarrow> DatagramID list" where
  "nack_gap recv expected =
     (if CC_SequenceGreaterThan recv expected
      then map (\<lambda>skipped. recv - of_nat skipped) (rev [1..<Suc (unat (recv - expected))])
      else [])"

definition NotifyReceivedDatagram ::
  "Timestamp \<Rightarrow> DatagramID \<Rightarrow> bool \<Rightarrow> 'a CongestionControl_scheme \<Rightarrow>
   RecvState \<times> 'a CongestionControl_scheme" where
  "NotifyReceivedDatagram now recv isAckDatagram c =
     (if m_datagramHistory c recv \<noteq> None then (DUPLICATE, c) else
      (let c = c\<lparr>m_datagramHistory := (m_datagramHistory c)(recv \<mapsto> now)\<rparr>;
           c = (if m_acks c = [] \<and> m_nacks c = [] then c\<lparr>m_oldestUnsentAck := now\<rparr> else c);
           c = c\<lparr>m_nacks := m_nacks c @ nack_gap recv (m_remoteDatagram c)\<rparr>;
           c = c\<lparr>m_remoteDatagram := recv + 1\<rparr>;
           c = (if \<not> isAckDatagram then c\<lparr>m_acks := m_acks c @ [recv]\<rparr> else c)
       in (NEW, c)))"

definition NotifyReceivedPacket ::
  "Timestamp \<Rightarrow> PacketID \<Rightarrow> 'a CongestionControl_scheme \<Rightarrow>
   RecvState \<times> 'a CongestionControl_scheme" where
  "NotifyReceivedPacket now recv c =
     (if m_packetHistory c recv \<noteq> None then (DUPLICATE, c)
      else (NEW, c\<lparr>m_packetHistory := (m_packetHistory c)(recv \<mapsto> now)\<rparr>))"

section \<open>The sliding window\<close>

definition CongestionControlWindow_new :: "Timestamp \<Rightarrow> CongestionControlWindow" where
  "CongestionControlWindow_new now =
     CongestionControl.extend (CongestionControl_new now)
       (CongestionControlWindow.fields MTU CONGESTION_WINDOW_SSTHRESH)"

definition CongestionControlWindow_Update ::
  "Timestamp \<Rightarrow> CongestionControlWindow \<Rightarrow> PeerStats \<Rightarrow> CongestionControlWindow \<times> PeerStats" where
  "CongestionControlWindow_Update now c stats =
     (let (c, stats) = CongestionControl_Update now c stats
      in (c, PeerStats_Set CWND (m_window c) stats))"

definition GetRetransmissionBudget :: "CongestionControlWindow \<Rightarrow> nat" where
  "GetRetransmissionBudget c = min (m_bytesInFlight c) MTU"

definition GetTransmissionBudget :: "CongestionControlWindow \<Rightarrow> nat" where
  "GetTransmissionBudget c =
     min (if m_bytesInFlight c \<ge> m_window c then 0 else m_window c - m_bytesInFlight c)
       (size_sub MTU (GetRetransmissionBudget c))"

definition GetRetransmissionRTO :: "nat \<Rightarrow> CongestionControlWindow \<Rightarrow> Timespan" where
  "GetRetransmissionRTO retries c =
     (let baseDelay = FromMilliseconds THREAD_SLEEP_PACKETQUEUE_TICK
      in if \<not> GetRTTHistoryAvailable c then FromMilliseconds 100 + baseDelay
         else (let variance = size_sub (m_rttMax c) (m_rttMin c);
                   rto = (2 * m_rttAvg c + 4 * variance + baseDelay) mod 2 ^ 64
               in (rto * ((retries + 1) mod 2 ^ 32)) mod 2 ^ 64))"

definition GetNeedsToSendAcks :: "Timestamp \<Rightarrow> CongestionControlWindow \<Rightarrow> bool" where
  "GetNeedsToSendAcks now c \<longleftrightarrow>
     \<not> (m_acks c = [] \<and> m_nacks c = []) \<and>
     (length (m_acks c) + length (m_nacks c) > 10 \<or>
      Time_Elapsed now (Timestamp_plus (m_oldestUnsentAck c) (FromMilliseconds 10)))"

definition GetIsSlowStart :: "CongestionControlWindow \<Rightarrow> bool" where
  "GetIsSlowStart c \<longleftrightarrow> m_window c \<le> m_threshold c"

definition NotifyReceivedAck ::
  "Timestamp \<Rightarrow> DatagramID \<Rightarrow> CongestionControlWindow \<Rightarrow> CongestionControlWindow" where
  "NotifyReceivedAck now recv c =
     (let c = CongestionControl_NotifyReceivedAck now recv c
      in if GetIsSlowStart c then c\<lparr>m_window := (m_window c + MTU) mod 2 ^ 64\<rparr>
         else c\<lparr>m_window := (m_window c + ((MTU * MTU) div m_window c + MTU div 8)) mod 2 ^ 64\<rparr>)"

definition NotifyReceivedNakGroup :: "CongestionControlWindow \<Rightarrow> CongestionControlWindow" where
  "NotifyReceivedNakGroup c =
     c\<lparr>m_threshold := max (m_window c div 2) (MTU * 2), m_window := MTU\<rparr>"

section \<open>Budgets\<close>

text \<open>
  The contract of the budget functions: together the two budgets never exceed one datagram, and
  without a byte in flight there is no retransmission budget.
\<close>

locale budgets =
  fixes transmission :: "'c \<Rightarrow> nat"
    and retransmission :: "'c \<Rightarrow> nat"
  assumes budgets_fit: "transmission c + retransmission c \<le> MTU"
begin

lemma spend_within:
  "n \<le> transmission c \<Longrightarrow> m \<le> retransmission c \<Longrightarrow> n + m \<le> MTU"
  using budgets_fit [of c] by linarith

end

interpretation window: budgets GetTransmissionBudget GetRetransmissionBudget
proof
  fix c
  have "GetRetransmissionBudget c \<le> MTU" "MTU < 2 ^ 64"
    by (simp_all add: GetRetransmissionBudget_def MTU_def)
  then have "size_sub MTU (GetRetransmissionBudget c) = MTU - GetRetransmissionBudget c"
    by (rule size_sub_eq)
  then show "GetTransmissionBudget c + GetRetransmissionBudget c \<le> MTU"
    by (auto simp: GetTransmissionBudget_def GetRetransmissionBudget_def)
qed

section \<open>Runs\<close>

text \<open>
  What a connection does to its congestion manager.  \<open>SendDatagram\<close> is the pair of calls made for
  every outgoing datagram: an identifier is drawn and the bytes are reported.
\<close>

datatype cc_event =
    SendDatagram nat
  | ReceiveAck DatagramID
  | ReceiveNaks
  | ReceiveDatagram DatagramID bool
  | ReceivePacket PacketID
  | Tick PeerStats
  | CollectAcks

fun cc_step :: "Timestamp \<Rightarrow> cc_event \<Rightarrow> CongestionControlWindow \<Rightarrow> CongestionControlWindow" where
  "cc_step now (SendDatagram n) c =
     (let (i, c) = GetNextDatagramID c in NotifySendingBytes now i n c)"
| "cc_step now (ReceiveAck i) c = NotifyReceivedAck now i c"
| "cc_step now ReceiveNaks c = NotifyReceivedNakGroup c"
| "cc_step now (ReceiveDatagram i ack) c = snd (NotifyReceivedDatagram now i ack c)"
| "cc_step now (ReceivePacket i) c = snd (NotifyReceivedPacket now i c)"
| "cc_step now (Tick stats) c = fst (CongestionControlWindow_Update now c stats)"
| "cc_step now CollectAcks c = snd (MakeAckList c)"

definition cc_run ::
  "(Timestamp \<times> cc_event) list \<Rightarrow> CongestionControlWindow \<Rightarrow> CongestionControlWindow" where
  "cc_run evs c = fold (\<lambda>(now, e). cc_step now e) evs c"

fun is_send :: "cc_event \<Rightarrow> bool" where
  "is_send (SendDatagram _) = True"
| "is_send _ = False"

fun is_ack :: "cc_event \<Rightarrow> bool" where
  "is_ack (ReceiveAck _) = True"
| "is_ack _ = False"

definition count_events :: "(cc_event \<Rightarrow> bool) \<Rightarrow> (Timestamp \<times> cc_event) list \<Rightarrow> nat" where
  "count_events P evs = length (filter (P \<circ> snd) evs)"

lemma cc_run_simps [simp]:
  "cc_run [] c = c"
  "cc_run (evs @ [(now, e)]) c = cc_step now e (cc_run evs c)"
  by (simp_all add: cc_run_def)

lemma count_events_simps [simp]:
  "count_events P [] = 0"
  "count_events P (evs @ [(now, e)]) = count_events P evs + (if P e then 1 else 0)"
  by (simp_all add: count_events_def)

subsection \<open>Bytes in flight\<close>

definition tracked :: "(DatagramID \<times> DatagramInFlight) list \<Rightarrow> nat" where
  "tracked m = (\<Sum>(i, pif) \<leftarrow> m. pif_bytes pif)"

lemma tracked_simps [simp]:
  "tracked [] = 0" "tracked ((i, pif) # m) = pif_bytes pif + tracked m"
  by (simp_all add: tracked_def)

lemma tracked_emplace:
  "map_of m i = None \<Longrightarrow> tracked (emplace i pif m) = pif_bytes pif + tracked m"
  by (induction i pif m rule: emplace.induct) (auto split: if_splits)

lemma tracked_erase:
  "ordered m \<Longrightarrow> map_of m i = Some pif \<Longrightarrow> tracked m = pif_bytes pif + tracked (erase i m)"
proof (induction m)
  case (Cons e m)
  obtain j q where e: "e = (j, q)" by (cases e)
  show ?case
  proof (cases "j = i")
    case True
    then show ?thesis using Cons.prems e erase_hd [of j q m] by simp
  next
    case False
    then show ?thesis using Cons ordered_ConsD [of j q m] e by (simp add: erase_def)
  qed
qed simp

lemma expire_outgoing_tracked:
  "expire_outgoing now t inFlight m = (inFlight', m') \<Longrightarrow> inFlight = (tracked m + r) mod 2 ^ 64 \<Longrightarrow>
   \<forall>(i, pif) \<in> set m. pif_bytes pif < 2 ^ 64 \<Longrightarrow>
   inFlight' = (tracked m' + r) mod 2 ^ 64 \<and> m' = filter (\<lambda>(i, pif). \<not> wire_expired now t pif) m"
proof (induction m arbitrary: inFlight inFlight' m' r)
  case (Cons e m)
  obtain i pif where e: "e = (i, pif)" by (cases e)
  have lt: "pif_bytes pif < 2 ^ 64" using Cons.prems(3) e by auto
  show ?case
  proof (cases "wire_expired now t pif")
    case True
    have "size_sub inFlight (pif_bytes pif) = (tracked m + r) mod 2 ^ 64"
      using Cons.prems(2) e size_sub_mod [of "pif_bytes pif" "tracked (e # m) + r"] lt
      by (simp add: add.assoc)
    then show ?thesis using Cons.IH [of "size_sub inFlight (pif_bytes pif)"] Cons.prems e True by auto
  next
    case False
    obtain n m1 where nm: "expire_outgoing now t inFlight m = (n, m1)" by fastforce
    have "n = (tracked m1 + (pif_bytes pif + r)) mod 2 ^ 64 \<and>
        m1 = filter (\<lambda>(i, pif). \<not> wire_expired now t pif) m"
      using Cons.prems e by (intro Cons.IH [OF nm]) (auto simp: ac_simps)
    then show ?thesis using Cons.prems(1) e False nm by (auto simp: ac_simps)
  qed
qed simp

definition flight_ok :: "nat \<Rightarrow> 'a CongestionControl_scheme \<Rightarrow> bool" where
  "flight_ok n c \<longleftrightarrow> m_nextDatagram c = of_nat n \<and> ordered (cc_outgoing c) \<and>
     (\<forall>(i, pif) \<in> set (cc_outgoing c). unat i < n \<and> pif_bytes pif < 2 ^ 64) \<and>
     m_bytesInFlight c = tracked (cc_outgoing c) mod 2 ^ 64"

lemma set_emplaceD: "e \<in> set (emplace k v m) \<Longrightarrow> e = (k, v) \<or> e \<in> set m"
  by (induction k v m rule: emplace.induct) (auto split: if_splits)

lemma set_eraseD: "e \<in> set (erase k m) \<Longrightarrow> e \<in> set m"
  by (simp add: erase_def)

lemma flight_ok_send:
  assumes ok: "flight_ok n c" and n: "n < 2 ^ 32" and b: "b < 2 ^ 64"
  shows "flight_ok (Suc n) (cc_step now (SendDatagram b) c)"
proof -
  have u: "unat (of_nat n :: u32) = n" using n by (simp add: unat_of_nat_small)
  have fresh: "map_of (cc_outgoing c) (of_nat n) = None"
    using ok u by (force simp: flight_ok_def map_of_eq_None_iff)
  have "\<forall>(i, pif) \<in> set (emplace (of_nat n) \<lparr>pif_bytes = b, pif_sent = now\<rparr> (cc_outgoing c)).
      unat i < Suc n \<and> pif_bytes pif < 2 ^ 64"
    using ok u b by (force simp: flight_ok_def dest!: set_emplaceD)
  moreover have "(tracked (cc_outgoing c) mod 2 ^ 64 + b) mod 2 ^ 64 = (b + tracked (cc_outgoing c)) mod 2 ^ 64"
    by (metis add.commute mod_add_left_eq)
  ultimately show ?thesis using ok fresh
    by (simp add: flight_ok_def GetNextDatagramID_def NotifySendingBytes_def ordered_emplace
      tracked_emplace add.commute)
qed

lemma RecalculateRTT_simps [simp]:
  "m_nextDatagram (RecalculateRTT c) = m_nextDatagram c" "cc_outgoing (RecalculateRTT c) = cc_outgoing c"
  "m_bytesInFlight (RecalculateRTT c) = m_bytesInFlight c" "m_rttHistory (RecalculateRTT c) = m_rttHistory c"
  "m_packetHistory (RecalculateRTT c) = m_packetHistory c"
  "m_datagramHistory (RecalculateRTT c) = m_datagramHistory c"
  by (simp_all add: RecalculateRTT_def split: prod.split)

lemma flight_ok_ack: "flight_ok n c \<Longrightarrow> flight_ok n (NotifyReceivedAck now i c)"
proof -
  assume ok: "flight_ok n c"
  have "flight_ok n (CongestionControl_NotifyReceivedAck now i c)"
  proof (cases "map_of (cc_outgoing c) i")
    case (Some pif)
    then have tr: "tracked (cc_outgoing c) = pif_bytes pif + tracked (erase i (cc_outgoing c))"
      using ok by (auto simp: flight_ok_def tracked_erase)
    have lt: "pif_bytes pif < 2 ^ 64" using ok map_of_SomeD [OF Some] by (auto simp: flight_ok_def)
    have "size_sub (m_bytesInFlight c) (pif_bytes pif) = tracked (erase i (cc_outgoing c)) mod 2 ^ 64"
      using ok size_sub_mod [of "pif_bytes pif" "tracked (cc_outgoing c)"] lt tr
      by (simp add: flight_ok_def)
    then show ?thesis using ok Some
      by (auto simp: CongestionControl_NotifyReceivedAck_def flight_ok_def Let_def ordered_erase
        dest!: set_eraseD)
  qed (use ok in \<open>simp add: CongestionControl_NotifyReceivedAck_def\<close>)
  then show ?thesis by (auto simp: NotifyReceivedAck_def flight_ok_def Let_def)
qed

lemma flight_ok_tick: "flight_ok n c \<Longrightarrow> flight_ok n (fst (CongestionControlWindow_Update now c stats))"
proof -
  assume ok: "flight_ok n c"
  let ?t = "(m_rttAvg c * 16) mod 2 ^ 64"
  obtain k m where e: "expire_outgoing now ?t (m_bytesInFlight c) (cc_outgoing c) = (k, m)" by fastforce
  have "k = tracked m mod 2 ^ 64 \<and> m = filter (\<lambda>(i, pif). \<not> wire_expired now ?t pif) (cc_outgoing c)"
    using expire_outgoing_tracked [OF e, of 0] ok by (auto simp: flight_ok_def)
  then have "k = tracked m mod 2 ^ 64" "ordered m" "set m \<subseteq> set (cc_outgoing c)"
    using ok by (auto simp: flight_ok_def ordered_def sorted_wrt_map intro!: sorted_wrt_filter)
  then show ?thesis using ok e
    by (auto simp: CongestionControlWindow_Update_def CongestionControl_Update_def flight_ok_def
      Let_def split: prod.splits)
qed

lemma flight_ok_step:
  assumes "flight_ok n c" "\<not> is_send e"
  shows "flight_ok n (cc_step now e c)"
  using assms
proof (cases e)
  case (ReceiveAck i)
  then show ?thesis using assms(1) flight_ok_ack by simp
next
  case (Tick stats)
  then show ?thesis using assms(1) flight_ok_tick by simp
qed (use assms in \<open>auto simp: flight_ok_def NotifyReceivedNakGroup_def NotifyReceivedDatagram_def
  NotifyReceivedPacket_def MakeAckList_def Let_def\<close>)

lemma flight_ok_new: "flight_ok 0 (CongestionControlWindow_new t)"
  by (simp add: flight_ok_def CongestionControlWindow_new_def CongestionControl_new_def
    CongestionControl.defs CongestionControlWindow.defs)

lemma flight_ok_run:
  assumes "count_events is_send evs \<le> 2 ^ 32"
    and "\<forall>(now, e) \<in> set evs. \<forall>n. e = SendDatagram n \<longrightarrow> n < 2 ^ 64"
  shows "flight_ok (count_events is_send evs) (cc_run evs (CongestionControlWindow_new t))"
  using assms
proof (induction evs rule: rev_induct)
  case (snoc x evs)
  obtain now e where x: "x = (now, e)" by (cases x)
  show ?case
  proof (cases "is_send e")
    case True
    then obtain n where e: "e = SendDatagram n" by (cases e) auto
    have n: "n < 2 ^ 64" using snoc.prems(2) x e by auto
    have c: "count_events is_send evs < 2 ^ 32" using snoc.prems(1) x True by simp
    have "flight_ok (count_events is_send evs) (cc_run evs (CongestionControlWindow_new t))"
      using snoc x True by auto
    from flight_ok_send [OF this c n] show ?thesis using x e by (simp del: cc_step.simps)
  next
    case False
    have "flight_ok (count_events is_send evs) (cc_run evs (CongestionControlWindow_new t))"
      using snoc x False by auto
    from flight_ok_step [OF this False] show ?thesis using x False by simp
  qed
qed (simp add: flight_ok_new)

subsection \<open>The window\<close>

definition window_ok :: "nat \<Rightarrow> CongestionControlWindow \<Rightarrow> bool" where
  "window_ok k c \<longleftrightarrow> MTU \<le> m_window c \<and> m_window c \<le> MTU * Suc k \<and> 2 * MTU \<le> m_threshold c"

lemma window_ok_ack:
  assumes ok: "window_ok k c" and k: "k < 2 ^ 50"
  shows "window_ok (Suc k) (NotifyReceivedAck now i c)"
proof -
  let ?c = "CongestionControl_NotifyReceivedAck now i c"
  have w: "m_window ?c = m_window c" "m_threshold ?c = m_threshold c"
    by (auto simp: CongestionControl_NotifyReceivedAck_def RecalculateRTT_def Let_def
      split: option.splits prod.splits)
  have wk: "m_window c + MTU \<le> MTU * Suc (Suc k)" using ok by (simp add: window_ok_def)
  also have "\<dots> < 2 ^ 64" using k by (simp add: MTU_def)
  finally have lt: "m_window c + MTU < 2 ^ 64" .
  show ?thesis
  proof (cases "GetIsSlowStart ?c")
    case True
    then show ?thesis using ok wk lt w
      by (simp add: NotifyReceivedAck_def Let_def window_ok_def GetIsSlowStart_def)
  next
    case False
    let ?g = "(MTU * MTU) div m_window c + MTU div 8"
    have "2 * MTU \<le> m_window c" using False ok w by (simp add: GetIsSlowStart_def window_ok_def)
    then have "(MTU * MTU) div m_window c \<le> (MTU * MTU) div (2 * MTU)"
      by (intro div_le_mono2) (auto simp: MTU_def)
    then have g: "?g \<le> MTU" by (simp add: MTU_def)
    then have "(m_window c + ?g) mod 2 ^ 64 = m_window c + ?g" using lt by (intro mod_less) linarith
    then show ?thesis using ok wk g w False
      by (simp add: NotifyReceivedAck_def Let_def window_ok_def GetIsSlowStart_def)
  qed
qed

lemma window_ok_step:
  assumes "window_ok k c" "\<not> is_ack e"
  shows "window_ok k (cc_step now e c)"
  using assms
proof (cases e)
  case (Tick stats)
  have "m_window (fst (CongestionControlWindow_Update now c stats)) = m_window c"
    "m_threshold (fst (CongestionControlWindow_Update now c stats)) = m_threshold c"
    by (simp_all add: CongestionControlWindow_Update_def CongestionControl_Update_def Let_def
      split: prod.split)
  then show ?thesis using Tick assms(1) by (simp add: window_ok_def)
qed (use assms in \<open>auto simp: window_ok_def NotifyReceivedNakGroup_def NotifyReceivedDatagram_def
  NotifyReceivedPacket_def MakeAckList_def NotifySendingBytes_def GetNextDatagramID_def Let_def\<close>)

lemma window_ok_run:
  assumes "count_events is_ack evs \<le> 2 ^ 50"
  shows "window_ok (count_events is_ack evs) (cc_run evs (CongestionControlWindow_new t))"
  using assms
proof (induction evs rule: rev_induct)
  case Nil
  show ?case by (simp add: window_ok_def CongestionControlWindow_new_def CongestionControl_new_def
    CongestionControl.defs CongestionControlWindow.defs MTU_def CONGESTION_WINDOW_SSTHRESH_def)
next
  case (snoc x evs)
  obtain now e where x: "x = (now, e)" by (cases x)
  show ?case
  proof (cases "is_ack e")
    case True
    then obtain i where e: "e = ReceiveAck i" by (cases e) auto
    show ?thesis using snoc x True e window_ok_ack by simp
  next
    case False
    then show ?thesis using snoc x window_ok_step by simp
  qed
qed

section \<open>Duplicate detection\<close>

lemma history_step:
  assumes "t + FromSeconds 10 < 2 ^ 64" "now < t + FromSeconds 10"
  shows "m_packetHistory c i = Some t \<Longrightarrow> m_packetHistory (cc_step now e c) i = Some t"
    and "m_datagramHistory c j = Some t \<Longrightarrow> m_datagramHistory (cc_step now e c) j = Some t"
proof -
  have "Timestamp_plus t (FromSeconds 10) = t + FromSeconds 10"
    using assms(1) by (simp add: Timestamp_plus_def)
  then have ex: "\<not> now \<ge> Timestamp_plus t (FromSeconds 10)" using assms(2) by simp
  have ack: "m_packetHistory (NotifyReceivedAck now d c) = m_packetHistory c"
    "m_datagramHistory (NotifyReceivedAck now d c) = m_datagramHistory c" for d
    by (auto simp: NotifyReceivedAck_def CongestionControl_NotifyReceivedAck_def Let_def
      split: option.split)
  show "m_packetHistory c i = Some t \<Longrightarrow> m_packetHistory (cc_step now e c) i = Some t"
    "m_datagramHistory c j = Some t \<Longrightarrow> m_datagramHistory (cc_step now e c) j = Some t"
    using ex by (cases e; auto simp: ack NotifyReceivedNakGroup_def NotifyReceivedDatagram_def
      NotifyReceivedPacket_def MakeAckList_def NotifySendingBytes_def GetNextDatagramID_def Let_def
      CongestionControlWindow_Update_def CongestionControl_Update_def expire_history_def
      split: prod.split)+
qed

lemma history_run:
  assumes "t + FromSeconds 10 < 2 ^ 64" "\<forall>(now, e) \<in> set evs. now < t + FromSeconds 10"
  shows "m_packetHistory c i = Some t \<Longrightarrow> m_packetHistory (cc_run evs c) i = Some t"
    and "m_datagramHistory c j = Some t \<Longrightarrow> m_datagramHistory (cc_run evs c) j = Some t"
  using assms(2)
  by (induction evs arbitrary: c) (auto simp: cc_run_def history_step [OF assms(1)])

section \<open>Gaps\<close>

lemma CC_SequenceGreaterThan_iff:
  "CC_SequenceGreaterThan a b \<longleftrightarrow> a \<noteq> b \<and> unat (a - b) \<le> 2 ^ 31"
proof (cases "a = b")
  case False
  have half: "unat (0xFFFFFFFF div 2 :: u32) = 2 ^ 31 - 1" by simp
  have "unat (b - a) = 2 ^ 32 - unat (a - b)"
    using False unsigned_less [of a, where 'a = nat] unsigned_less [of b, where 'a = nat]
    by (auto simp: unat_diff word_le_nat_alt word_unat_eq_iff)
  moreover have "unat (a - b) < 2 ^ 32" using unsigned_less [of "a - b"] by simp
  ultimately show ?thesis using False unfolding CC_SequenceGreaterThan_def word_less_nat_alt half
    by auto
qed (simp add: CC_SequenceGreaterThan_def)

lemma nack_gap_eq:
  "nack_gap recv expected =
     (if unat (recv - expected) \<le> 2 ^ 31
      then map (\<lambda>k. expected + of_nat k) [0..<unat (recv - expected)] else [])"
proof (cases "CC_SequenceGreaterThan recv expected")
  case True
  define d where "d = unat (recv - expected)"
  have recv: "recv = expected + of_nat d" unfolding d_def by simp
  have "map (\<lambda>k. recv - of_nat k) (rev [1..<Suc d]) = map (\<lambda>k. expected + of_nat k) [0..<d]"
  proof (rule nth_equalityI)
    fix i assume "i < length (map (\<lambda>k. recv - of_nat k) (rev [1..<Suc d]))"
    then have i: "i < d" by (simp del: upt_Suc)
    then have "rev [1..<Suc d] ! i = d - i"
      by (subst rev_nth) (auto simp: nth_upt simp del: upt_Suc)
    with i show "map (\<lambda>k. recv - of_nat k) (rev [1..<Suc d]) ! i =
        map (\<lambda>k. expected + of_nat k) [0..<d] ! i"
      by (simp add: recv of_nat_diff del: upt_Suc)
  qed simp
  then show ?thesis using True unfolding nack_gap_def d_def
    by (simp add: CC_SequenceGreaterThan_iff del: upt_Suc)
next
  case False
  then show ?thesis by (auto simp: nack_gap_def CC_SequenceGreaterThan_iff)
qed

lemma NotifyReceivedDatagram_NEW:
  assumes "NotifyReceivedDatagram now recv ack c = (NEW, c')"
  shows "m_nacks c' = m_nacks c @ nack_gap recv (m_remoteDatagram c)" "m_remoteDatagram c' = recv + 1"
    "m_acks c' = m_acks c @ (if ack then [] else [recv])"
    "m_datagramHistory c' = (m_datagramHistory c)(recv \<mapsto> now)"
  using assms by (auto simp: NotifyReceivedDatagram_def Let_def split: if_splits)

section \<open>Properties\<close>

text \<open>
  C21.  The number of bytes in flight is, modulo \<open>2 ^ 64\<close>, exactly the sum of the sizes of the
  datagrams that are still tracked, after any run with at most \<open>2 ^ 32\<close> datagrams sent: what the
  debug build asserts at the end of the clean-up.
\<close>

theorem bytes_in_flight_exact:
  assumes "count_events is_send evs \<le> 2 ^ 32"
    and "\<forall>(now, e) \<in> set evs. \<forall>n. e = SendDatagram n \<longrightarrow> n < 2 ^ 64"
  shows "m_bytesInFlight (cc_run evs (CongestionControlWindow_new t)) =
    (\<Sum>(i, pif) \<leftarrow> cc_outgoing (cc_run evs (CongestionControlWindow_new t)). pif_bytes pif) mod 2 ^ 64"
  using flight_ok_run [OF assms, of t] by (simp add: flight_ok_def tracked_def)

theorem bytes_in_flight_exact_witness:
  "m_bytesInFlight (cc_run [(5, SendDatagram 1200), (6, SendDatagram 100), (9, ReceiveAck 0)]
      (CongestionControlWindow_new 5)) =
    (\<Sum>(i, pif) \<leftarrow> cc_outgoing (cc_run [(5, SendDatagram 1200), (6, SendDatagram 100), (9, ReceiveAck 0)]
      (CongestionControlWindow_new 5)). pif_bytes pif) mod 2 ^ 64"
  using bytes_in_flight_exact [of "[(5, SendDatagram 1200), (6, SendDatagram 100), (9, ReceiveAck 0)]" 5]
  by (simp add: count_events_def)

text \<open>
  C22.  The send window never falls below one datagram and grows by at most one datagram per
  acknowledgement; the budgets for new and for repeated data fit into one datagram together, and
  with nothing in flight a full datagram may be sent.
\<close>

theorem window_and_budgets:
  assumes "count_events is_ack evs \<le> 2 ^ 50" "c = cc_run evs (CongestionControlWindow_new t)"
  shows "MTU \<le> m_window c \<and> m_window c \<le> MTU * (count_events is_ack evs + 1) \<and>
    GetTransmissionBudget c + GetRetransmissionBudget c \<le> MTU \<and>
    m_bytesInFlight c + GetTransmissionBudget c \<le> max (m_window c) (m_bytesInFlight c) \<and>
    (m_bytesInFlight c = 0 \<longrightarrow> GetTransmissionBudget c = MTU)"
proof -
  have ok: "window_ok (count_events is_ack evs) c" using window_ok_run [OF assms(1)] assms(2) by simp
  have "size_sub MTU 0 = MTU" by (simp add: size_sub_eq MTU_def)
  then have "m_bytesInFlight c = 0 \<longrightarrow> GetTransmissionBudget c = MTU"
    using ok by (auto simp: GetTransmissionBudget_def GetRetransmissionBudget_def window_ok_def)
  moreover have "m_bytesInFlight c + GetTransmissionBudget c \<le> max (m_window c) (m_bytesInFlight c)"
    by (auto simp: GetTransmissionBudget_def)
  ultimately show ?thesis using ok window.budgets_fit [of c] by (auto simp: window_ok_def)
qed

theorem window_and_budgets_witness:
  "MTU \<le> m_window (cc_run [(5, SendDatagram 1200), (9, ReceiveAck 0)] (CongestionControlWindow_new 5)) \<and>
   m_window (cc_run [(5, SendDatagram 1200), (9, ReceiveAck 0)] (CongestionControlWindow_new 5)) \<le> MTU * 2"
  using window_and_budgets [of "[(5, SendDatagram 1200), (9, ReceiveAck 0)]" _ 5, OF _ refl]
  by (simp add: count_events_def)

text \<open>
  C25.  A packet or datagram that was accepted once is reported as a duplicate for the next ten
  seconds, whatever else happens on the connection in between.
\<close>

theorem duplicates_detected:
  assumes "t + FromSeconds 10 < 2 ^ 64" "\<forall>(now, e) \<in> set evs. now < t + FromSeconds 10"
  shows "(NotifyReceivedPacket t i c = (NEW, c1) \<longrightarrow>
      fst (NotifyReceivedPacket now i (cc_run evs c1)) = DUPLICATE) \<and>
    (NotifyReceivedDatagram t j ack c = (NEW, c2) \<longrightarrow>
      fst (NotifyReceivedDatagram now j ack' (cc_run evs c2)) = DUPLICATE)"
proof -
  have "m_packetHistory (cc_run evs c1) i = Some t" if "NotifyReceivedPacket t i c = (NEW, c1)"
    using that by (intro history_run(1) [OF assms]) (auto simp: NotifyReceivedPacket_def split: if_splits)
  moreover have "m_datagramHistory (cc_run evs c2) j = Some t"
    if "NotifyReceivedDatagram t j ack c = (NEW, c2)"
    using that by (intro history_run(2) [OF assms])
      (auto simp: NotifyReceivedDatagram_def Let_def split: if_splits)
  ultimately show ?thesis by (auto simp: NotifyReceivedPacket_def NotifyReceivedDatagram_def)
qed

theorem duplicates_detected_witness:
  "fst (NotifyReceivedPacket 1000 7 (cc_run [(900, Tick PeerStats_empty)]
     (snd (NotifyReceivedPacket 100 7 (CongestionControlWindow_new 5))))) = DUPLICATE"
proof -
  have "NotifyReceivedPacket 100 7 (CongestionControlWindow_new 5) =
      (NEW, snd (NotifyReceivedPacket 100 7 (CongestionControlWindow_new 5)))"
    by (simp add: NotifyReceivedPacket_def CongestionControlWindow_new_def CongestionControl_new_def
      CongestionControl.defs)
  then show ?thesis
    using duplicates_detected [of 100 "[(900, Tick PeerStats_empty)]" 7 "CongestionControlWindow_new 5"
      "snd (NotifyReceivedPacket 100 7 (CongestionControlWindow_new 5))" 1000]
    by (simp add: FromSeconds_eq)
qed

text \<open>
  C26.  A datagram that is new and not behind the expected one is acknowledged, unless it only carries
  acknowledgements, and exactly the identifiers between the expected one and itself are reported as
  missing, in increasing order.
\<close>

theorem gaps_reported:
  assumes "m_datagramHistory c recv = None" "unat (recv - m_remoteDatagram c) \<le> 2 ^ 31"
  shows "\<exists>c'. NotifyReceivedDatagram now recv ack c = (NEW, c') \<and>
    m_nacks c' = m_nacks c @ map (\<lambda>k. m_remoteDatagram c + of_nat k) [0..<unat (recv - m_remoteDatagram c)] \<and>
    m_acks c' = m_acks c @ (if ack then [] else [recv]) \<and> m_remoteDatagram c' = recv + 1"
proof -
  obtain c' where c': "NotifyReceivedDatagram now recv ack c = (NEW, c')"
    using assms(1) by (simp add: NotifyReceivedDatagram_def Let_def)
  from NotifyReceivedDatagram_NEW [OF this] c' assms(2) show ?thesis by (simp add: nack_gap_eq)
qed

theorem gaps_reported_witness:
  "\<exists>c'. NotifyReceivedDatagram 10 2 False (CongestionControlWindow_new 5) = (NEW, c') \<and>
    m_nacks c' = [0, 1] \<and> m_acks c' = [2] \<and> m_remoteDatagram c' = 3"
proof -
  have "[0..<2] = [0, 1 :: nat]" by (simp add: upt_rec)
  with gaps_reported [of "CongestionControlWindow_new 5" 2 10 False] show ?thesis
    by (simp add: CongestionControlWindow_new_def CongestionControl_new_def CongestionControl.defs)
qed

text \<open>
  A datagram that arrives late moves the expected identifier backwards: the next datagram in
  order then reports every identifier after the late one as missing, although they were all passed
  before.
\<close>

lemma late_datagram_spurious_nacks:
  assumes late: "m_datagramHistory c j = None" "unat (m_remoteDatagram c - j) \<le> 2 ^ 31"
    and e: "m_datagramHistory c (m_remoteDatagram c) = None" "m_remoteDatagram c \<noteq> j"
    and early: "unat (j - m_remoteDatagram c) > 2 ^ 31"
  shows "\<exists>c1 c2. NotifyReceivedDatagram t1 j a1 c = (NEW, c1) \<and>
    NotifyReceivedDatagram t2 (m_remoteDatagram c) a2 c1 = (NEW, c2) \<and>
    m_nacks c2 = m_nacks c @ map (\<lambda>k. j + 1 + of_nat k) [0..<unat (m_remoteDatagram c - j) - 1]"
proof -
  let ?e = "m_remoteDatagram c"
  obtain c1 where c1: "NotifyReceivedDatagram t1 j a1 c = (NEW, c1)"
    using late(1) by (simp add: NotifyReceivedDatagram_def Let_def)
  note n1 = NotifyReceivedDatagram_NEW [OF c1]
  have h: "m_datagramHistory c1 ?e = None" using n1(4) e by auto
  then obtain c2 where c2: "NotifyReceivedDatagram t2 ?e a2 c1 = (NEW, c2)"
    by (simp add: NotifyReceivedDatagram_def Let_def)
  have d: "unat (?e - (j + 1)) = unat (?e - j) - 1"
  proof -
    have "unat (?e - j) \<noteq> 0" using e(2) by (simp add: unat_eq_0)
    then show ?thesis by (metis diff_diff_add unat_minus_one unat_0)
  qed
  have "m_nacks c1 = m_nacks c" using n1(1) early by (simp add: nack_gap_eq)
  moreover have "m_nacks c2 = m_nacks c1 @ map (\<lambda>k. j + 1 + of_nat k) [0..<unat (?e - j) - 1]"
    using NotifyReceivedDatagram_NEW(1) [OF c2] n1(2) late(2) d by (simp add: nack_gap_eq)
  ultimately show ?thesis using c1 c2 by auto
qed

text \<open>
  Until the first round-trip time is known every clean-up forgets all datagrams in flight: the
  expiry time is sixteen times the average round-trip time, which is still zero.  An acknowledgement
  that arrives later yields no round-trip time, and yet enlarges the window.
\<close>

lemma clean_up_forgets_all:
  assumes "m_rttAvg c = 0" "m_nextUpdate c \<le> now" "\<forall>(i, pif) \<in> set (cc_outgoing c). pif_sent pif \<le> now"
    and "c' = fst (CongestionControlWindow_Update now c stats)" "m_window c \<le> m_threshold c"
  shows "cc_outgoing c' = [] \<and>
    (\<forall>t i. m_rttHistory (NotifyReceivedAck t i c') = m_rttHistory c \<and>
      m_rttAvg (NotifyReceivedAck t i c') = 0 \<and>
      m_window (NotifyReceivedAck t i c') = (m_window c + MTU) mod 2 ^ 64)"
proof -
  have "snd (expire_outgoing now 0 n m) = []" if "\<forall>(i, pif) \<in> set m. pif_sent pif \<le> now" for n m
    using that
  proof (induction m arbitrary: n)
    case (Cons e m)
    obtain i pif where e: "e = (i, pif)" by (cases e)
    have "wire_expired now 0 pif" using Cons.prems e
      by (auto simp: wire_expired_def Timestamp_plus_def intro: le_trans [OF mod_less_eq_dividend])
    then show ?case using Cons e by simp
  qed simp
  then have "snd (expire_outgoing now 0 (m_bytesInFlight c) (cc_outgoing c)) = []"
    using assms(3) by blast
  then obtain n where n: "expire_outgoing now 0 (m_bytesInFlight c) (cc_outgoing c) = (n, [])"
    by (metis prod.collapse)
  have out: "cc_outgoing c' = []" "m_rttAvg c' = 0" "m_rttHistory c' = m_rttHistory c"
    "m_window c' = m_window c" "m_threshold c' = m_threshold c"
    unfolding assms(4) using assms(1,2) n
    by (simp_all add: CongestionControlWindow_Update_def CongestionControl_Update_def
      Time_Elapsed_def Let_def)
  then show ?thesis using assms(5)
    by (simp add: NotifyReceivedAck_def CongestionControl_NotifyReceivedAck_def Let_def
      GetIsSlowStart_def)
qed

lemma clean_up_forgets_all_witness:
  "\<exists>c c'. c = cc_run [(5, SendDatagram 1200)] (CongestionControlWindow_new 5) \<and>
    c' = fst (CongestionControlWindow_Update 100 c PeerStats_empty) \<and> cc_outgoing c' = [] \<and>
    m_rttHistory (NotifyReceivedAck 200 0 c') = m_rttHistory c"
proof -
  let ?c = "cc_run [(5, SendDatagram 1200)] (CongestionControlWindow_new 5)"
  have "m_rttAvg ?c = 0" "m_nextUpdate ?c \<le> 100"
    "\<forall>(i, pif) \<in> set (cc_outgoing ?c). pif_sent pif \<le> 100" "m_window ?c \<le> m_threshold ?c"
    by (simp_all add: cc_run_def GetNextDatagramID_def NotifySendingBytes_def
      CongestionControlWindow_new_def CongestionControl_new_def CongestionControl.defs
      CongestionControlWindow.defs MTU_def CONGESTION_WINDOW_SSTHRESH_def)
  from clean_up_forgets_all [OF this(1-3) refl this(4), of PeerStats_empty] show ?thesis by blast
qed

lemma late_datagram_spurious_nacks_witness:
  "\<exists>c c1 c2. c = cc_run [(10, ReceiveDatagram 0 False), (11, ReceiveDatagram 2 False),
        (12, ReceiveDatagram 3 False)] (CongestionControlWindow_new 5) \<and>
    NotifyReceivedDatagram 13 1 False c = (NEW, c1) \<and> NotifyReceivedDatagram 14 4 False c1 = (NEW, c2) \<and>
    m_nacks c2 = [1, 2, 3]"
proof -
  let ?c = "cc_run [(10, ReceiveDatagram 0 False), (11, ReceiveDatagram 2 False),
    (12, ReceiveDatagram 3 False)] (CongestionControlWindow_new 5)"
  have c: "m_remoteDatagram ?c = 4" "m_nacks ?c = [1]" "m_datagramHistory ?c 1 = None"
    "m_datagramHistory ?c 4 = None"
    by (simp_all add: cc_run_def NotifyReceivedDatagram_def nack_gap_eq CongestionControlWindow_new_def
      CongestionControl_new_def CongestionControl.defs Let_def)
  have "[0..<2] = [0, 1 :: nat]" by (simp add: upt_rec)
  with late_datagram_spurious_nacks [of ?c 1 13 False 14 False] c show ?thesis by auto
qed

end
