(* ===== verification/Reassembly.thy ===== *)
theory Reassembly
  imports Packets
begin

text \<open>
  Reassembly of split packets: \<^verbatim>\<open>source/ReassemblyBuffer.cpp\<close>.  The identifier of the remote
  peer, which the code reads through a back pointer, is an argument.
\<close>

section \<open>Operations\<close>

record SplitPacket =
  sp_received :: "u32 set"
  sp_blob :: BinaryStream
  sp_last :: u32

record ReassemblyBuffer =
  ra_backlog :: "PacketID \<rightharpoonup> SplitPacket"

definition SplitPacket_default :: SplitPacket where
  "SplitPacket_default = \<lparr>sp_received = {}, sp_blob = BinaryStream_new BINARYSTREAM_DEFAULT_CAPACITY,
     sp_last = 0\<rparr>"

definition ReassemblyBuffer_new :: ReassemblyBuffer where
  "ReassemblyBuffer_new = \<lparr>ra_backlog = Map.empty\<rparr>"

text \<open>Move assignment: the new value of \<^verbatim>\<open>*this\<close>; the other buffer is left empty.\<close>

definition ReassemblyBuffer_move_assign ::
  "ReassemblyBuffer \<Rightarrow> ReassemblyBuffer \<Rightarrow> ReassemblyBuffer \<times> ReassemblyBuffer" where
  "ReassemblyBuffer_move_assign this other = (this\<lparr>ra_backlog := ra_backlog other\<rparr>,
     other\<lparr>ra_backlog := Map.empty\<rparr>)"

text \<open>The part of \<^verbatim>\<open>Insert\<close> that places a segment into the blob.\<close>

definition Insert_blob ::
  "nat \<Rightarrow> nat \<Rightarrow> BinaryStream \<Rightarrow> BinaryStream \<Rightarrow> (BinaryStream \<times> BinaryStream) result" where
  "Insert_blob offset len instream blob =
     rbind (SeekForce offset blob) (\<lambda>blob.
     rassert (m_position blob = offset) (
     rbind (WriteZeroes len blob) (\<lambda>blob.
     rbind (ReadBytes len instream) (\<lambda>(bs, instream).
     rbind (case bs of None \<Rightarrow> Inr blob | Some bs \<Rightarrow> store_cells offset (map Some bs) blob) (\<lambda>blob.
     Inr (blob, instream))))))"

definition Insert ::
  "PacketHeader \<Rightarrow> BinaryStream \<Rightarrow> ReassemblyBuffer \<Rightarrow> (ReassemblyBuffer \<times> BinaryStream) result" where
  "Insert header instream r =
     rassert (unat (ph_offset header + ph_length header) < PACKET_MAX_LENGTH) (
     let split = (case ra_backlog r (splitContainer header) of
                    None \<Rightarrow> SplitPacket_default | Some sp \<Rightarrow> sp)
     in rbind (Insert_blob (unat (ph_offset header)) (unat (ph_length header)) instream (sp_blob split))
          (\<lambda>(blob, instream).
        let split = split\<lparr>sp_blob := blob, sp_received := insert (splitIndex header) (sp_received split)\<rparr>
        in rbind (if \<not> flag_segment header
                  then rassert (splitIndex header > 0) (Inr (split\<lparr>sp_last := splitIndex header\<rparr>))
                  else Inr split) (\<lambda>split.
           Inr (r\<lparr>ra_backlog := (ra_backlog r)(splitContainer header \<mapsto> split)\<rparr>, instream))))"

definition Reassemble ::
  "PeerID \<Rightarrow> PacketID \<Rightarrow> ReassemblyBuffer \<Rightarrow> (Packet option \<times> ReassemblyBuffer) result" where
  "Reassemble remoteID container r = (case ra_backlog r container of
      None \<Rightarrow> Inl AssertFailure
    | Some split \<Rightarrow>
        if sp_last split = 0 \<or> card (sp_received split) \<noteq> unat (sp_last split + 1)
        then Inr (None, r)
        else rbind (FromDatagram remoteID (m_length (SeekToBegin (sp_blob split)))
                 (SeekToBegin (sp_blob split))) (\<lambda>(packet, blob).
             Inr (Some packet, r\<lparr>ra_backlog := (ra_backlog r)(container := None)\<rparr>)))"

section \<open>Placing one segment\<close>

lemma SeekToEnd_ok:
  assumes "stream_ok s" "m_subBytePosition s = 0"
  shows "stream_ok (SeekToEnd s)" "contents (SeekToEnd s) = contents s"
    "m_position (SeekToEnd s) = m_length s" "m_subBytePosition (SeekToEnd s) = 0"
    "m_length (SeekToEnd s) = m_length s"
  using assms by (auto simp: SeekToEnd_def Seek_def stream_ok_def cells_def contents_def)

lemma Align_id: "m_subBytePosition s = 0 \<Longrightarrow> Align s = s"
  by (cases s) (simp add: Align_def)

text \<open>The capacity of the array after a write.\<close>

lemma WriteBytes_capacity:
  assumes "WriteBytes bs s = Inr s'" "stream_ok s" "m_subBytePosition s = 0"
  shows "m_capacity s' = (if m_position s + length bs \<le> m_capacity s then m_capacity s
    else max (next_capacity (m_position s + length bs)) 1)"
proof -
  note okE = stream_okE [OF assms(2)]
  obtain e where e: "Ensure (length bs) s = Inr e" "m_capacity s' = m_capacity e"
    using assms(1,3) okE(1)
    by (auto simp: WriteBytes_def Align_id store_cells_def Let_def split: if_splits option.splits)
  then show ?thesis using okE
    by (auto simp: Ensure_def Reallocate_def Let_def split: if_splits option.splits)
qed

text \<open>Where the forced seek works: it reaches the offset and fills a gap with zeroes.\<close>

lemma SeekForce_ok:
  assumes ok: "stream_ok s" "m_subBytePosition s = 0"
    and o: "offset \<le> m_length s \<or> m_capacity s \<le> offset" "offset \<le> max_stream"
  shows "\<exists>s'. SeekForce offset s = Inr s' \<and> stream_ok s' \<and> m_subBytePosition s' = 0 \<and>
    m_position s' = offset \<and>
    contents s' = contents s @ replicate (offset - m_length s) 0"
proof (cases "m_capacity s \<le> offset")
  case True
  note okE = stream_okE [OF ok(1)]
  have le: "m_length s \<le> offset" using True okE by linarith
  note e = SeekToEnd_ok [OF ok]
  have sub: "size_sub offset (m_length s) = offset - m_length s"
    using o(2) by (intro size_sub_eq [OF le]) (simp add: max_stream_def)
  obtain s1 where s1: "WriteZeroes (offset - m_length s) (SeekToEnd s) = Inr s1" "stream_ok s1"
    "contents s1 = overwrite (m_length s) (replicate (offset - m_length s) 0) (contents s)"
    "m_position s1 = offset" "m_subBytePosition s1 = 0"
    using WriteBytes_ok [OF e(1), of "replicate (offset - m_length s) 0"] o(2) le e
    by (auto simp: WriteZeroes_WriteBytes Align_id)
  have con: "contents s1 = contents s @ replicate (offset - m_length s) 0"
    using s1(3) length_contents [OF ok(1)] overwrite_end [of "contents s"] by simp
  then have ml: "m_length s1 = offset"
    using length_contents [OF s1(2)] length_contents [OF ok(1)] le by simp
  show ?thesis using True s1 con ml sub e Seek_ok [OF s1(2,5), of offset]
    by (simp add: SeekForce_def Let_def)
next
  case False
  then have "offset \<le> m_length s" using o by simp
  then show ?thesis using False Seek_ok [OF ok, of offset] by (simp add: SeekForce_def)
qed

lemma Insert_blob_ok:
  assumes ok: "stream_ok s" "m_subBytePosition s = 0"
    and o: "offset \<le> m_length s \<or> m_capacity s \<le> offset" "offset + length bs \<le> max_stream"
    and r: "reading t 0 (bs @ rest)"
  shows "\<exists>s' t'. Insert_blob offset (length bs) t s = Inr (s', t') \<and> stream_ok s' \<and>
    m_subBytePosition s' = 0 \<and> reading t' 0 rest \<and>
    contents s' = overwrite offset bs (contents s @ replicate (offset - m_length s) 0) \<and>
    (offset < m_capacity s \<longrightarrow> m_capacity s' = (if offset + length bs \<le> m_capacity s
      then m_capacity s else max (next_capacity (offset + length bs)) 1))"
proof -
  obtain s1 where s1: "SeekForce offset s = Inr s1" "stream_ok s1" "m_subBytePosition s1 = 0"
    "m_position s1 = offset" "contents s1 = contents s @ replicate (offset - m_length s) 0"
    using SeekForce_ok [OF ok o(1)] o(2) by auto
  obtain s2 where s2: "WriteZeroes (length bs) s1 = Inr s2" "stream_ok s2"
    "contents s2 = overwrite offset (replicate (length bs) 0) (contents s1)"
    "m_position s2 = offset + length bs" "m_subBytePosition s2 = 0"
    using WriteBytes_ok [OF s1(2), of "replicate (length bs) 0"] o(2) s1
    by (auto simp: WriteZeroes_WriteBytes Align_id)
  have "m_capacity s1 = m_capacity s" if "offset < m_capacity s"
    using s1(1) that by (auto simp: SeekForce_def Seek_def)
  then have cap: "offset < m_capacity s \<longrightarrow> m_capacity s2 = (if offset + length bs \<le> m_capacity s
      then m_capacity s else max (next_capacity (offset + length bs)) 1)"
    using WriteBytes_capacity [of "replicate (length bs) 0" s1 s2] s1(2-4) s2(1)
    by (simp add: WriteZeroes_WriteBytes)
  have off: "offset \<le> length (contents s1)"
    using s1(4) stream_okE [OF s1(2)] length_contents [OF s1(2)] by simp
  have end2: "offset + length bs \<le> m_length s2" using stream_okE [OF s2(2)] s2(4) by simp
  obtain t' where t': "ReadBytes (length bs) t = Inr (Some bs, t')" "reading t' 0 rest"
    using reading_ReadBytes' [OF r, of bs rest] by auto
  have ow: "overwrite offset bs (contents s2) = overwrite offset bs (contents s1)"
    using off by (simp add: s2(3) overwrite_def)
  show ?thesis
  proof (cases "bs = []")
    case True
    then show ?thesis using s1 s2 t' ow cap by (simp add: Insert_blob_def store_cells_def)
  next
    case False
    let ?s = "s2\<lparr>m_buffer := Some (overwrite offset (map Some bs) (cells s2))\<rparr>"
    have "?s = s2\<lparr>m_buffer := Some (overwrite offset (map Some bs) (cells s2)),
        m_length := m_length s2, m_position := m_position s2, m_subBytePosition := 0\<rparr>"
      using s2(5) by (cases s2) simp
    then have "stream_ok ?s \<and> contents ?s = overwrite offset bs (contents s2)"
      using end2 False stream_okE [OF s2(2)]
      by (intro overwrite_ok [OF s2(2), where n = "m_length s2" and q = "m_position s2" and k = 0]) auto
    moreover have "store_cells offset (map Some bs) s2 = Inr ?s"
      using end2 stream_okE [OF s2(2)] False by (intro store_cells_eq [OF s2(2)]) auto
    ultimately show ?thesis using s1 s2 t' ow cap by (simp add: Insert_blob_def)
  qed
qed

text \<open>Where it does not: an offset behind the written part but inside the allocated one.\<close>

lemma Insert_blob_gap:
  assumes "m_length s < offset" "offset < m_capacity s"
  shows "Insert_blob offset len t s = Inl AssertFailure"
  using assms by (simp add: Insert_blob_def SeekForce_def Seek_def)

section \<open>Segments of a message\<close>

text \<open>How \<^verbatim>\<open>PacketQueue::EnqueueOutgoing\<close> cuts a message into segments.\<close>

definition CHUNK_SIZE :: nat where
  "CHUNK_SIZE = MTU - 100"

definition segments :: "nat \<Rightarrow> nat" where
  "segments n = (n - 1) div CHUNK_SIZE + 1"

definition segment :: "u8 list \<Rightarrow> nat \<Rightarrow> u8 list" where
  "segment full i = take CHUNK_SIZE (drop (i * CHUNK_SIZE) full)"

definition is_segment :: "u8 list \<Rightarrow> PacketID \<Rightarrow> nat \<Rightarrow> PacketHeader \<Rightarrow> bool" where
  "is_segment full container i h \<longleftrightarrow> i < segments (length full) \<and> splitContainer h = container \<and>
     unat (ph_offset h) = i * CHUNK_SIZE \<and> unat (ph_length h) = length (segment full i) \<and>
     splitIndex h = of_nat i \<and> (flag_segment h \<longleftrightarrow> i < segments (length full) - 1)"

lemma CHUNK_SIZE_eq: "CHUNK_SIZE = 1200"
  by (simp add: CHUNK_SIZE_def MTU_def)

lemma segments_iff: "0 < n \<Longrightarrow> i < segments n \<longleftrightarrow> i * CHUNK_SIZE < n"
proof -
  assume "0 < n"
  have "i < segments n \<longleftrightarrow> i \<le> (n - 1) div CHUNK_SIZE" by (simp add: segments_def less_Suc_eq_le)
  also have "\<dots> \<longleftrightarrow> i * CHUNK_SIZE \<le> n - 1" by (simp add: less_eq_div_iff_mult_less_eq CHUNK_SIZE_eq)
  finally show ?thesis using \<open>0 < n\<close> by linarith
qed

lemma segment_end: "i * CHUNK_SIZE + length (segment full i) = max (i * CHUNK_SIZE) (min (length full) ((i + 1) * CHUNK_SIZE))"
  by (simp add: segment_def CHUNK_SIZE_eq)

lemma segment_nth: "p < length (segment full i) \<Longrightarrow> segment full i ! p = full ! (i * CHUNK_SIZE + p)"
  by (auto simp: segment_def intro!: nth_drop)

text \<open>The state of a partial message: the segments \<open>I\<close> are in place.\<close>

definition assembled :: "u8 list \<Rightarrow> nat set \<Rightarrow> SplitPacket \<Rightarrow> bool" where
  "assembled full I sp \<longleftrightarrow> stream_ok (sp_blob sp) \<and> m_subBytePosition (sp_blob sp) = 0 \<and>
     I \<subseteq> {..<segments (length full)} \<and> sp_received sp = of_nat ` I \<and>
     sp_last sp = (if segments (length full) - 1 \<in> I then of_nat (segments (length full) - 1) else 0) \<and>
     (let c = contents (sp_blob sp) in
        length c \<le> length full \<and>
        (\<forall>i \<in> I. min (length full) ((i + 1) * CHUNK_SIZE) \<le> length c) \<and>
        (\<forall>p < length c. p div CHUNK_SIZE \<in> I \<longrightarrow> c ! p = full ! p))"

lemma assembled_empty: "assembled full {} SplitPacket_default"
  using written_new [of BINARYSTREAM_DEFAULT_CAPACITY]
  by (simp add: assembled_def SplitPacket_default_def written_def flushed_def)

lemma overwrite_nth:
  assumes "off \<le> length c" "p < length (overwrite off bs c)"
  shows "overwrite off bs c ! p =
    (if off \<le> p \<and> p < off + length bs then bs ! (p - off) else c ! p)"
  using assms by (auto simp: overwrite_def nth_append min_def)

lemma assembled_place:
  assumes as: "assembled full I sp" and full: "length full < PACKET_MAX_LENGTH" "0 < length full"
    and i: "i < segments (length full)"
    and ok: "stream_ok s'" "m_subBytePosition s' = 0"
    and c': "contents s' = overwrite (i * CHUNK_SIZE) (segment full i)
      (contents (sp_blob sp) @ replicate (i * CHUNK_SIZE - m_length (sp_blob sp)) 0)"
    and sp': "sp' = sp\<lparr>sp_blob := s', sp_received := insert (of_nat i) (sp_received sp),
      sp_last := (if i = segments (length full) - 1 then of_nat i else sp_last sp)\<rparr>"
  shows "assembled full (insert i I) sp'"
proof -
  let ?c = "contents (sp_blob sp)" and ?o = "i * CHUNK_SIZE" and ?n = "length full"
  let ?d = "?c @ replicate (?o - m_length (sp_blob sp)) 0"
  have ml: "m_length (sp_blob sp) = length ?c"
    using as length_contents [of "sp_blob sp"] by (simp add: assembled_def)
  have o: "?o < ?n" using segments_iff [of ?n i] full i by simp
  then have e: "?o + length (segment full i) = min ?n ((i + 1) * CHUNK_SIZE)"
    using segment_end [of i full] by (simp add: CHUNK_SIZE_eq)
  have d: "length ?d = max ?o (length ?c)" using ml by simp
  then have len': "length (contents s') = max (length ?c) (min ?n ((i + 1) * CHUNK_SIZE))"
    using c' e by (auto simp: overwrite_def)
  have nth: "contents s' ! p = full ! p"
    if p: "p < length (contents s')" "p div CHUNK_SIZE \<in> insert i I" for p
  proof (cases "?o \<le> p \<and> p < ?o + length (segment full i)")
    case True
    then have "p - ?o < length (segment full i)" "?o + (p - ?o) = p" by linarith+
    with True show ?thesis
      using overwrite_nth [of ?o ?d p "segment full i"] d p(1) c' segment_nth [of "p - ?o" full i]
      by simp
  next
    case False
    have "contents s' ! p = ?d ! p"
      unfolding c' using False d p(1) c' by (subst overwrite_nth) auto
    have "p < length ?c \<and> p div CHUNK_SIZE \<in> I"
    proof -
      have "p div CHUNK_SIZE \<noteq> i \<or> ?n \<le> p" using False e by (auto simp: CHUNK_SIZE_eq)
      moreover have "p < ?n" using p(1) len' as by (auto simp: assembled_def Let_def)
      ultimately have I: "p div CHUNK_SIZE \<in> I" using p(2) by auto
      then have "min ?n ((p div CHUNK_SIZE + 1) * CHUNK_SIZE) \<le> length ?c"
        using as by (auto simp: assembled_def Let_def)
      moreover have "p < (p div CHUNK_SIZE + 1) * CHUNK_SIZE"
        using dividend_less_times_div [of CHUNK_SIZE p] by (simp add: CHUNK_SIZE_eq)
      ultimately show ?thesis using I \<open>p < ?n\<close> by auto
    qed
    then show ?thesis using \<open>contents s' ! p = ?d ! p\<close> as
      by (auto simp: assembled_def Let_def nth_append)
  qed
  have parts: "I \<subseteq> {..<segments ?n}" "sp_received sp = of_nat ` I" "length ?c \<le> ?n"
    "sp_last sp = (if segments ?n - 1 \<in> I then of_nat (segments ?n - 1) else 0)"
    "\<forall>j \<in> I. min ?n ((j + 1) * CHUNK_SIZE) \<le> length ?c"
    using as unfolding assembled_def Let_def by blast+
  have "length (contents s') \<le> ?n" using len' parts(3) by simp
  moreover have "\<forall>j \<in> insert i I. min ?n ((j + 1) * CHUNK_SIZE) \<le> length (contents s')"
    unfolding len' using parts(5) by (auto intro: max.coboundedI1)
  moreover have "insert i I \<subseteq> {..<segments ?n}" using parts(1) i by simp
  ultimately show ?thesis using ok nth parts(2,4) unfolding sp' assembled_def Let_def by simp
qed

section \<open>Inserting segments\<close>

lemma Insert_segment:
  assumes full: "length full < PACKET_MAX_LENGTH" "CHUNK_SIZE < length full"
    and h: "is_segment full container i h"
    and sp: "sp = (case ra_backlog r container of None \<Rightarrow> SplitPacket_default | Some sp \<Rightarrow> sp)"
    and as: "assembled full I sp" and t: "reading t 0 (segment full i @ rest)"
  shows "if i * CHUNK_SIZE \<le> m_length (sp_blob sp) \<or> m_capacity (sp_blob sp) \<le> i * CHUNK_SIZE
    then \<exists>sp' t'. Insert h t r = Inr (r\<lparr>ra_backlog := (ra_backlog r)(container \<mapsto> sp')\<rparr>, t') \<and>
      assembled full (insert i I) sp' \<and> reading t' 0 rest \<and>
      m_length (sp_blob sp') = max (m_length (sp_blob sp)) (i * CHUNK_SIZE + length (segment full i)) \<and>
      (i * CHUNK_SIZE < m_capacity (sp_blob sp) \<longrightarrow> m_capacity (sp_blob sp') =
        (if i * CHUNK_SIZE + length (segment full i) \<le> m_capacity (sp_blob sp)
         then m_capacity (sp_blob sp) else max (next_capacity (i * CHUNK_SIZE + length (segment full i))) 1))
    else Insert h t r = Inl AssertFailure"
proof -
  let ?o = "i * CHUNK_SIZE" and ?n = "length full"
  have i: "i < segments ?n" and o: "unat (ph_offset h) = ?o"
    and l: "unat (ph_length h) = length (segment full i)" and cont: "splitContainer h = container"
    and ix: "splitIndex h = of_nat i" and fl: "flag_segment h \<longleftrightarrow> i < segments ?n - 1"
    using h by (simp_all add: is_segment_def)
  have n0: "0 < ?n" using full by linarith
  have on: "?o < ?n" using segments_iff [OF n0] i by simp
  then have end_le: "?o + length (segment full i) \<le> ?n"
    using segment_end [of i full] by (simp add: CHUNK_SIZE_eq)
  have two: "1 < segments ?n" using segments_iff [OF n0, of 1] full(2) by simp
  have small: "segments ?n < 2 ^ 32"
    using full(1) by (simp add: segments_def CHUNK_SIZE_eq PACKET_MAX_LENGTH_def)
  have asrt: "unat (ph_offset h + ph_length h) < PACKET_MAX_LENGTH"
  proof -
    have "unat (ph_offset h) + unat (ph_length h) < 2 ^ 32"
      using o l end_le full(1) by (simp add: PACKET_MAX_LENGTH_def)
    then have "unat (ph_offset h + ph_length h) = unat (ph_offset h) + unat (ph_length h)"
      by (simp add: unat_word_ariths)
    then show ?thesis using o l end_le full(1) by simp
  qed
  show ?thesis
  proof (cases "?o \<le> m_length (sp_blob sp) \<or> m_capacity (sp_blob sp) \<le> ?o")
    case True
    have ok: "stream_ok (sp_blob sp)" "m_subBytePosition (sp_blob sp) = 0"
      using as by (simp_all add: assembled_def)
    have mx: "?o + length (segment full i) \<le> max_stream"
      using end_le full(1) by (simp add: max_stream_def PACKET_MAX_LENGTH_def)
    obtain s' t' where s': "Insert_blob ?o (length (segment full i)) t (sp_blob sp) = Inr (s', t')"
      "stream_ok s'" "m_subBytePosition s' = 0" "reading t' 0 rest"
      "contents s' = overwrite ?o (segment full i)
        (contents (sp_blob sp) @ replicate (?o - m_length (sp_blob sp)) 0)"
      "?o < m_capacity (sp_blob sp) \<longrightarrow> m_capacity s' =
        (if ?o + length (segment full i) \<le> m_capacity (sp_blob sp)
         then m_capacity (sp_blob sp) else max (next_capacity (?o + length (segment full i))) 1)"
      using Insert_blob_ok [OF ok True mx t] by blast
    have ml': "m_length s' = max (m_length (sp_blob sp)) (?o + length (segment full i))"
      using length_contents [OF s'(2)] length_contents [OF ok(1)] s'(5) by (auto simp: overwrite_def)
    let ?sp = "sp\<lparr>sp_blob := s', sp_received := insert (of_nat i) (sp_received sp),
      sp_last := (if i = segments ?n - 1 then of_nat i else sp_last sp)\<rparr>"
    have as': "assembled full (insert i I) ?sp"
      by (rule assembled_place [OF as full(1) n0 i s'(2,3,5) refl])
    have "of_nat i > (0 :: u32)" if "i = segments ?n - 1"
    proof -
      have "unat (of_nat i :: u32) = i" using i small by (simp add: unat_of_nat_small)
      then show ?thesis using that two by (simp add: word_less_nat_alt)
    qed
    then have "Insert h t r = Inr (r\<lparr>ra_backlog := (ra_backlog r)(container \<mapsto> ?sp)\<rparr>, t')"
      using asrt o l cont ix fl i s'(1) sp
      by (cases "i = segments ?n - 1") (auto simp: Insert_def Let_def)
    then show ?thesis using True as' s'(4,6) ml' by auto
  next
    case False
    then have "Insert_blob ?o (length (segment full i)) t (sp_blob sp) = Inl AssertFailure"
      by (intro Insert_blob_gap) auto
    then show ?thesis using False asrt o l cont sp by (simp add: Insert_def Let_def)
  qed
qed

text \<open>A run of insertions, each from its own datagram.\<close>

definition insert_all ::
  "(PacketHeader \<times> BinaryStream) list \<Rightarrow> ReassemblyBuffer \<Rightarrow> ReassemblyBuffer result" where
  "insert_all xs r = rfold (\<lambda>(h, t) r. rbind (Insert h t r) (\<lambda>(r, _). Inr r)) xs r"

definition partial :: "PacketID \<Rightarrow> ReassemblyBuffer \<Rightarrow> SplitPacket" where
  "partial container r = (case ra_backlog r container of None \<Rightarrow> SplitPacket_default | Some sp \<Rightarrow> sp)"

definition segment_in :: "u8 list \<Rightarrow> PacketID \<Rightarrow> nat \<Rightarrow> PacketHeader \<times> BinaryStream \<Rightarrow> bool" where
  "segment_in full container i = (\<lambda>(h, t). is_segment full container i h \<and>
     (\<exists>rest. reading t 0 (segment full i @ rest)))"

lemma insert_all_assembled:
  assumes full: "length full < PACKET_MAX_LENGTH" "CHUNK_SIZE < length full"
    and "list_all2 (segment_in full container) is xs" "assembled full I (partial container r)"
    and "insert_all xs r = Inr r'"
  shows "assembled full (I \<union> set is) (partial container r')"
  using assms(3-5)
proof (induction "is" xs arbitrary: I r rule: list_all2_induct)
  case (Cons i "is" x xs)
  obtain h t where x: "x = (h, t)" by (cases x)
  obtain rest where h: "is_segment full container i h" "reading t 0 (segment full i @ rest)"
    using Cons.hyps(1) x by (auto simp: segment_in_def)
  from Cons.prems(2) x obtain r1 t1 where r1: "Insert h t r = Inr (r1, t1)" "insert_all xs r1 = Inr r'"
    by (auto simp: insert_all_def)
  from Insert_segment [OF full h(1) partial_def Cons.prems(1) h(2)] r1(1)
  have "assembled full (insert i I) (partial container r1)"
    by (auto simp: partial_def split: if_splits)
  from Cons.IH [OF this r1(2)] show ?case by simp
qed (simp add: insert_all_def)

lemma assembled_complete:
  assumes as: "assembled full {..<segments (length full)} sp"
    and full: "0 < length full"
  shows "contents (sp_blob sp) = full"
proof (rule nth_equalityI)
  let ?c = "contents (sp_blob sp)" and ?n = "length full"
  have "(segments ?n - 1) \<in> {..<segments ?n}" by (simp add: segments_def)
  then have "min ?n ((segments ?n - 1 + 1) * CHUNK_SIZE) \<le> length ?c"
    using as unfolding assembled_def Let_def by blast
  moreover have "\<not> segments ?n * CHUNK_SIZE < ?n" using segments_iff [OF full, of "segments ?n"] by simp
  ultimately have "?n \<le> length ?c" by (simp add: segments_def)
  then show len: "length ?c = ?n" using as by (simp add: assembled_def Let_def)
  fix p assume p: "p < length ?c"
  then have "p div CHUNK_SIZE < segments ?n"
    using segments_iff [OF full, of "p div CHUNK_SIZE"] len
    by (metis div_times_less_eq_dividend le_less_trans)
  then show "?c ! p = full ! p" using as p by (simp add: assembled_def Let_def)
qed

lemma Reassemble_assembled:
  assumes full: "length full < PACKET_MAX_LENGTH" "CHUNK_SIZE < length full"
    and sp: "ra_backlog r container = Some sp" and as: "assembled full I sp"
  shows "if I = {..<segments (length full)}
    then Reassemble pid container r =
      Inr (Some (packet_of pid (hd full) (tl full)), r\<lparr>ra_backlog := (ra_backlog r)(container := None)\<rparr>)
    else Reassemble pid container r = Inr (None, r)"
proof -
  let ?n = "length full" and ?m = "segments (length full)"
  have n0: "0 < ?n" using full by linarith
  have two: "1 < ?m" using segments_iff [OF n0, of 1] full(2) by simp
  have small: "?m < 2 ^ 32" using full(1) by (simp add: segments_def CHUNK_SIZE_eq PACKET_MAX_LENGTH_def)
  have I: "I \<subseteq> {..<?m}" using as by (simp add: assembled_def)
  have inj: "inj_on (of_nat :: nat \<Rightarrow> u32) I"
  proof (rule inj_onI)
    fix a b assume "a \<in> I" "b \<in> I" "(of_nat a :: u32) = of_nat b"
    have len32: "LENGTH(32) = 32" by simp
    moreover have "a < 2 ^ 32" "b < 2 ^ 32" using \<open>a \<in> I\<close> \<open>b \<in> I\<close> I small by auto
    moreover have "unat (of_nat a :: u32) = unat (of_nat b :: u32)"
      using \<open>(of_nat a :: u32) = of_nat b\<close> by (simp only:)
    ultimately show "a = b" by (simp only: unat_of_nat_small len32)
  qed
  have card: "card (sp_received sp) = card I" using as inj by (simp add: assembled_def card_image)
  have last: "(of_nat (?m - 1) + 1 :: u32) = of_nat ?m" using two by (simp add: of_nat_diff)
  have um: "unat (of_nat ?m :: u32) = ?m" using small by (simp add: unat_of_nat_small)
  have lastnz: "(of_nat (?m - 1) :: u32) \<noteq> 0"
  proof -
    have "unat (of_nat (?m - 1) :: u32) = ?m - 1" using small by (simp add: unat_of_nat_small)
    then show ?thesis using two by (metis unat_0 zero_less_diff less_numeral_extra(3))
  qed
  show ?thesis
  proof (cases "I = {..<?m}")
    case True
    have con: "contents (sp_blob sp) = full" using assembled_complete [OF _ n0] as True by simp
    have ok: "stream_ok (sp_blob sp)" "m_subBytePosition (sp_blob sp) = 0"
      using as by (simp_all add: assembled_def)
    let ?s = "SeekToBegin (sp_blob sp)"
    have w: "written (SeekToEnd (sp_blob sp)) full []"
      using SeekToEnd_ok [OF ok] con length_contents [OF ok(1)] by (simp add: written_def flushed_def)
    have "reading (SeekToBegin (SeekToEnd (sp_blob sp))) 0 full"
      using reading_SeekToBegin [OF w] full(1) by (simp add: max_stream_def PACKET_MAX_LENGTH_def)
    moreover have "SeekToBegin (SeekToEnd (sp_blob sp)) = ?s"
      by (cases "sp_blob sp") (simp add: SeekToBegin_def SeekToEnd_def Seek_def)
    ultimately have r: "reading ?s 0 full" by simp
    have ml: "m_length ?s = Suc (length (tl full))"
      using length_contents [OF ok(1)] con n0 by (simp add: SeekToBegin_def Seek_def)
    obtain s' where "FromDatagram pid (Suc (length (tl full))) ?s =
        Inr (packet_of pid (hd full) (tl full), s')"
      using FromDatagram_reading [OF r, of "hd full" "tl full" "[]" pid] n0 by (cases full) auto
    then show ?thesis using True sp as card last um lastnz ml two
      by (auto simp: Reassemble_def assembled_def)
  next
    case False
    then have "card I < ?m" using I by (metis card_lessThan finite_lessThan psubsetI psubset_card_mono)
    then show ?thesis using False sp as card last um lastnz
      by (auto simp: Reassemble_def assembled_def)
  qed
qed

lemma partial_Some:
  assumes "assembled full I (partial container r)" "I \<noteq> {}"
  shows "ra_backlog r container = Some (partial container r)"
  using assms by (cases "ra_backlog r container") (auto simp: partial_def assembled_def SplitPacket_default_def)

lemma partial_upd [simp]:
  "partial container (r\<lparr>ra_backlog := (ra_backlog r)(container \<mapsto> sp)\<rparr>) = sp"
  by (simp add: partial_def)

lemma assembled_reaches:
  assumes full: "length full < PACKET_MAX_LENGTH" "CHUNK_SIZE < length full"
    and as: "assembled full {..<k} sp" and k: "k < segments (length full)"
  shows "k * CHUNK_SIZE \<le> m_length (sp_blob sp)"
proof (cases k)
  case (Suc j)
  have n0: "0 < length full" using full by linarith
  have kn: "k * CHUNK_SIZE < length full" using segments_iff [OF n0, of k] k by simp
  have "min (length full) ((j + 1) * CHUNK_SIZE) \<le> length (contents (sp_blob sp))"
    using as Suc unfolding assembled_def Let_def by blast
  moreover have "stream_ok (sp_blob sp)" using as unfolding assembled_def by blast
  ultimately show ?thesis using Suc kn by simp
qed simp

lemma insert_in_order:
  assumes full: "length full < PACKET_MAX_LENGTH" "CHUNK_SIZE < length full"
    and "list_all2 (segment_in full container) [k..<segments (length full)] xs"
    and "assembled full {..<k} (partial container r)" "k \<le> segments (length full)"
  shows "\<exists>r'. insert_all xs r = Inr r'"
  using assms(3-5)
proof (induction xs arbitrary: k r rule: list.induct)
  case (Cons x xs)
  let ?m = "segments (length full)"
  have k: "k < ?m" using Cons.prems(1) by (cases "k < ?m") auto
  then have seg: "segment_in full container k x" "list_all2 (segment_in full container) [Suc k..<?m] xs"
    using Cons.prems(1) by (simp_all add: upt_conv_Cons)
  obtain h t rest where x: "x = (h, t)" "is_segment full container k h" "reading t 0 (segment full k @ rest)"
    using seg(1) by (cases x) (auto simp: segment_in_def)
  have "k * CHUNK_SIZE \<le> m_length (sp_blob (partial container r))"
    by (rule assembled_reaches [OF full Cons.prems(2) k])
  then obtain sp' t' where ins: "Insert h t r = Inr (r\<lparr>ra_backlog := (ra_backlog r)(container \<mapsto> sp')\<rparr>, t')"
    "assembled full (insert k {..<k}) sp'"
    using Insert_segment [OF full x(2) partial_def Cons.prems(2) x(3)] by auto
  have "\<exists>r'. insert_all xs (r\<lparr>ra_backlog := (ra_backlog r)(container \<mapsto> sp')\<rparr>) = Inr r'"
    using seg(2) ins(2) k by (intro Cons.IH [of "Suc k"]) (auto simp: lessThan_Suc)
  then show ?case using x(1) ins(1) by (auto simp: insert_all_def)
qed (simp add: insert_all_def)

text \<open>The segments of a message in datagrams of their own, for the examples.\<close>

definition example_segment :: "u8 list \<Rightarrow> PacketID \<Rightarrow> nat \<Rightarrow> PacketHeader \<times> BinaryStream" where
  "example_segment full container i =
     (PacketHeader_default\<lparr>flag_segment := i < segments (length full) - 1, splitContainer := container,
        ph_offset := of_nat (i * CHUNK_SIZE), ph_length := of_nat (length (segment full i)),
        splitIndex := of_nat i\<rparr>,
      projr (BinaryStream_wrap (Some (map Some (segment full i))) (length (segment full i)) READONLY))"

lemma example_segments:
  assumes "length full < PACKET_MAX_LENGTH" "0 < length full" "\<forall>i \<in> set is. i < segments (length full)"
  shows "list_all2 (segment_in full container) is (map (example_segment full container) is)"
proof -
  have "segment_in full container i (example_segment full container i)"
    if i: "i < segments (length full)" for i
  proof -
    have o: "i * CHUNK_SIZE < length full" using segments_iff [OF assms(2)] i by simp
    have l: "length (segment full i) \<le> length full" by (simp add: segment_def)
    have "unat (of_nat (i * CHUNK_SIZE) :: u32) = i * CHUNK_SIZE"
      using o assms(1) by (intro unat_of_nat_small) (simp add: PACKET_MAX_LENGTH_def)
    moreover have "unat (of_nat (length (segment full i)) :: u32) = length (segment full i)"
      using l assms(1) by (intro unat_of_nat_small) (simp add: PACKET_MAX_LENGTH_def)
    moreover obtain t where t: "BinaryStream_wrap (Some (map Some (segment full i)))
        (length (segment full i)) READONLY = Inr t"
      by (simp add: BinaryStream_wrap_def)
    moreover have "reading t 0 (segment full i)"
      using reading_wrap [of "segment full i" "[]" t] t l assms(1) by (simp add: PACKET_MAX_LENGTH_def)
    ultimately show ?thesis using i
      by (auto simp: segment_in_def example_segment_def is_segment_def simp del: of_nat_mult
        intro: exI [of _ "[]"])
  qed
  then show ?thesis using assms(3) by (simp add: list_all2_map2 list_all2_same)
qed

section \<open>Properties\<close>

text \<open>
  C18.  Whatever the order in which the segments of a message arrive, and however often: if every
  insertion passes its assertions and each segment arrived, then the reassembled packet is the
  original message; as long as a segment is missing there is no packet.
\<close>

theorem reassembly_correct:
  assumes full: "length full < PACKET_MAX_LENGTH" "CHUNK_SIZE < length full"
    and xs: "list_all2 (segment_in full container) is xs" "is \<noteq> []"
    and new: "ra_backlog r container = None" and ins: "insert_all xs r = Inr r'"
  shows "if set is = {..<segments (length full)}
    then \<exists>r''. Reassemble pid container r' = Inr (Some (packet_of pid (hd full) (tl full)), r'') \<and>
      ra_backlog r'' container = None
    else Reassemble pid container r' = Inr (None, r')"
proof -
  have "assembled full {} (partial container r)" using new assembled_empty by (simp add: partial_def)
  from insert_all_assembled [OF full xs(1) this ins]
  have as: "assembled full (set is) (partial container r')" by simp
  moreover from this have "ra_backlog r' container = Some (partial container r')"
    using partial_Some xs(2) by auto
  ultimately show ?thesis using Reassemble_assembled [OF full, of r' container _ "set is" pid] by auto
qed

theorem reassembly_correct_witness:
  "\<exists>r' r''. insert_all (map (example_segment (replicate 1201 7) 5) [1, 0]) ReassemblyBuffer_new = Inr r' \<and>
    Reassemble 9 5 r' = Inr (Some (packet_of 9 7 (replicate 1200 7)), r'')"
proof -
  let ?f = "replicate 1201 (7 :: u8)"
  have f: "length ?f < PACKET_MAX_LENGTH" "CHUNK_SIZE < length ?f" "0 < length ?f"
    by (simp_all add: PACKET_MAX_LENGTH_def CHUNK_SIZE_eq)
  have m: "segments (length ?f) = 2" by (simp add: segments_def CHUNK_SIZE_eq)
  have new: "ra_backlog ReassemblyBuffer_new 5 = None" by (simp add: ReassemblyBuffer_new_def)
  have xs: "list_all2 (segment_in ?f 5) [1, 0] (map (example_segment ?f 5) [1, 0])"
    using example_segments [OF f(1,3), of "[1, 0]" 5] m by simp
  have seg: "segment_in ?f 5 1 (example_segment ?f 5 1)" "segment_in ?f 5 0 (example_segment ?f 5 0)"
    using xs by simp_all
  obtain h1 t1 u1 where h1: "example_segment ?f 5 1 = (h1, t1)" "is_segment ?f 5 1 h1"
    "reading t1 0 (segment ?f 1 @ u1)" using seg(1) by (auto simp: segment_in_def)
  obtain h0 t0 u0 where h0: "example_segment ?f 5 0 = (h0, t0)" "is_segment ?f 5 0 h0"
    "reading t0 0 (segment ?f 0 @ u0)" using seg(2) by (auto simp: segment_in_def)
  have d: "m_length (sp_blob SplitPacket_default) = 0" "m_capacity (sp_blob SplitPacket_default) = 128"
    by (simp_all add: SplitPacket_default_def BinaryStream_new_def next_capacity_def
      ToNextPowerOfTwo_def BINARYSTREAM_DEFAULT_CAPACITY_def Let_def)
  have p0: "partial 5 ReassemblyBuffer_new = SplitPacket_default"
    by (simp add: partial_def ReassemblyBuffer_new_def)
  obtain sp1 t1' where s1: "Insert h1 t1 ReassemblyBuffer_new =
      Inr (ReassemblyBuffer_new\<lparr>ra_backlog := (ra_backlog ReassemblyBuffer_new)(5 \<mapsto> sp1)\<rparr>, t1')"
    "assembled ?f {1} sp1"
    using Insert_segment [OF f(1,2) h1(2) partial_def _ h1(3), where r = ReassemblyBuffer_new and I = "{}"]
      assembled_empty p0 d by (auto simp: CHUNK_SIZE_eq)
  let ?r1 = "ReassemblyBuffer_new\<lparr>ra_backlog := (ra_backlog ReassemblyBuffer_new)(5 \<mapsto> sp1)\<rparr>"
  obtain r' t0' where "Insert h0 t0 ?r1 = Inr (r', t0')"
    using Insert_segment [OF f(1,2) h0(2) partial_def _ h0(3), where r = ?r1 and I = "{1}"] s1(2)
    by auto
  then have ins: "insert_all (map (example_segment ?f 5) [1, 0]) ReassemblyBuffer_new = Inr r'"
    using s1(1) h0(1) h1(1) by (simp add: insert_all_def)
  have "set [1, 0] = {..<segments (length ?f)}" unfolding m by auto
  moreover have "hd ?f = 7" "tl ?f = replicate 1200 7" by simp_all
  ultimately show ?thesis using reassembly_correct [OF f(1,2) xs _ new ins, of 9] ins by auto
qed

text \<open>Segments that arrive in order pass every assertion, and the last one completes the packet.\<close>

lemma reassembly_in_order:
  assumes full: "length full < PACKET_MAX_LENGTH" "CHUNK_SIZE < length full"
    and xs: "list_all2 (segment_in full container) [0..<segments (length full)] xs"
    and new: "ra_backlog r container = None"
  shows "\<exists>r' r''. insert_all xs r = Inr r' \<and>
    Reassemble pid container r' = Inr (Some (packet_of pid (hd full) (tl full)), r'')"
proof -
  have as0: "assembled full {} (partial container r)" using new assembled_empty by (simp add: partial_def)
  then obtain r' where r': "insert_all xs r = Inr r'" using insert_in_order [OF full xs] by auto
  from insert_all_assembled [OF full xs as0 r']
  have as: "assembled full {..<segments (length full)} (partial container r')"
    by (simp add: atLeast0LessThan)
  moreover have "{..<segments (length full)} \<noteq> {}" by (simp add: segments_def lessThan_empty_iff)
  ultimately have "ra_backlog r' container = Some (partial container r')" using partial_Some by blast
  from Reassemble_assembled [OF full this as, of pid] r' show ?thesis by auto
qed

lemma reassembly_in_order_witness:
  "\<exists>r' r''. insert_all (map (example_segment (replicate 1201 7) 5) [0, 1]) ReassemblyBuffer_new = Inr r' \<and>
    Reassemble 9 5 r' = Inr (Some (packet_of 9 7 (replicate 1200 7)), r'')"
proof -
  let ?f = "replicate 1201 (7 :: u8)"
  have f: "length ?f < PACKET_MAX_LENGTH" "CHUNK_SIZE < length ?f" "0 < length ?f"
    by (simp_all add: PACKET_MAX_LENGTH_def CHUNK_SIZE_eq)
  have m: "segments (length ?f) = 2" by (simp add: segments_def CHUNK_SIZE_eq)
  have u: "[0..<segments (length ?f)] = [0, 1]" unfolding m by (simp add: upt_rec)
  have xs: "list_all2 (segment_in ?f 5) [0..<segments (length ?f)] (map (example_segment ?f 5) [0, 1])"
    unfolding u using example_segments [OF f(1,3), of "[0, 1]" 5] m by simp
  have new: "ra_backlog ReassemblyBuffer_new 5 = None" by (simp add: ReassemblyBuffer_new_def)
  have "hd ?f = 7" "tl ?f = replicate 1200 7" by simp_all
  then show ?thesis using reassembly_in_order [OF f(1,2) xs new, of 9] by simp
qed

text \<open>
  C39.  A lost segment stops the receiver: when the segments 0, 1 and 3 of a message of at least four
  segments arrive, the first two are placed and the insertion of the last fails its assertion, since the array is already
  larger than the offset.
\<close>

theorem reassembly_lost_segment:
  assumes full: "length full < PACKET_MAX_LENGTH" "3 * CHUNK_SIZE < length full"
    and xs: "list_all2 (segment_in full container) [0, 1, 3] xs"
    and new: "ra_backlog r container = None"
  shows "\<exists>r'. insert_all (take 2 xs) r = Inr r' \<and> insert_all (drop 2 xs) r' = Inl AssertFailure \<and> insert_all xs r = Inl AssertFailure"
proof -
  have n: "CHUNK_SIZE < length full" using full(2) by linarith
  obtain h0 t0 h1 t1 h3 t3 where x: "xs = [(h0, t0), (h1, t1), (h3, t3)]"
    using xs by (auto simp: list_all2_Cons1)
  obtain u0 u1 u3 where h: "is_segment full container 0 h0" "reading t0 0 (segment full 0 @ u0)"
    "is_segment full container 1 h1" "reading t1 0 (segment full 1 @ u1)"
    "is_segment full container 3 h3" "reading t3 0 (segment full 3 @ u3)"
    using xs x by (auto simp: segment_in_def)
  have len: "length (segment full 0) = CHUNK_SIZE" "length (segment full 1) = CHUNK_SIZE"
    using full(2) by (simp_all add: segment_def CHUNK_SIZE_eq)
  have d: "m_length (sp_blob SplitPacket_default) = 0" "m_capacity (sp_blob SplitPacket_default) = 128"
    by (simp_all add: SplitPacket_default_def BinaryStream_new_def next_capacity_def
      ToNextPowerOfTwo_def BINARYSTREAM_DEFAULT_CAPACITY_def Let_def)
  have cap: "next_capacity 1200 = 2048" "next_capacity 2400 = 4096"
    by (simp_all add: next_capacity_def ToNextPowerOfTwo_def)
  have p0: "partial container r = SplitPacket_default" using new by (simp add: partial_def)
  obtain sp0 t0' where s0: "Insert h0 t0 r = Inr (r\<lparr>ra_backlog := (ra_backlog r)(container \<mapsto> sp0)\<rparr>, t0')"
    "assembled full {0} sp0" "m_length (sp_blob sp0) = 1200" "m_capacity (sp_blob sp0) = 2048"
    using Insert_segment [OF full(1) n h(1) partial_def _ h(2), where r = r and I = "{}"] assembled_empty p0 d len cap
    by (auto simp: CHUNK_SIZE_eq)
  let ?r0 = "r\<lparr>ra_backlog := (ra_backlog r)(container \<mapsto> sp0)\<rparr>"
  obtain sp1 t1' where s1: "Insert h1 t1 ?r0 = Inr (?r0\<lparr>ra_backlog := (ra_backlog ?r0)(container \<mapsto> sp1)\<rparr>, t1')"
    "assembled full {1, 0} sp1" "m_length (sp_blob sp1) = 2400" "m_capacity (sp_blob sp1) = 4096"
    using Insert_segment [OF full(1) n h(3) partial_def _ h(4), where r = ?r0 and I = "{0}"] s0 len cap
    by (auto simp: CHUNK_SIZE_eq)
  let ?r1 = "?r0\<lparr>ra_backlog := (ra_backlog ?r0)(container \<mapsto> sp1)\<rparr>"
  have "Insert h3 t3 ?r1 = Inl AssertFailure"
    using Insert_segment [OF full(1) n h(5) partial_def _ h(6), where r = ?r1 and I = "{1, 0}"] s1
    by (simp add: CHUNK_SIZE_eq)
  then show ?thesis using x s0(1) s1(1) by (simp add: insert_all_def)
qed

theorem reassembly_lost_segment_witness:
  "\<exists>r'. insert_all (take 2 (map (example_segment (replicate 3601 7) 5) [0, 1, 3])) ReassemblyBuffer_new = Inr r' \<and>
    insert_all (drop 2 (map (example_segment (replicate 3601 7) 5) [0, 1, 3])) r' = Inl AssertFailure \<and>
    insert_all (map (example_segment (replicate 3601 7) 5) [0, 1, 3]) ReassemblyBuffer_new = Inl AssertFailure"
proof -
  let ?f = "replicate 3601 (7 :: u8)"
  have f: "length ?f < PACKET_MAX_LENGTH" "3 * CHUNK_SIZE < length ?f" "0 < length ?f"
    by (simp_all add: PACKET_MAX_LENGTH_def CHUNK_SIZE_eq)
  have m: "segments (length ?f) = 4" by (simp add: segments_def CHUNK_SIZE_eq)
  have xs: "list_all2 (segment_in ?f 5) [0, 1, 3] (map (example_segment ?f 5) [0, 1, 3])"
    using m by (intro example_segments [OF f(1,3)]) auto
  show ?thesis
    by (rule reassembly_lost_segment [OF f(1,2) xs]) (simp add: ReassemblyBuffer_new_def)
qed

end
