(* ===== verification/Encryption.thy ===== *)
theory Encryption
  imports Stream_Values
begin

text \<open>
  The encryption layers: the interface \<^verbatim>\<open>source/EncryptionLayer.h\<close>, the layer that does
  nothing (\<^verbatim>\<open>source/EncryptionLayerNull.h\<close>) and the one built on libsodium
  (\<^verbatim>\<open>source/EncryptionLayerSodium.cpp\<close>).

  libsodium is not part of the sources.  Its functions are the fields of the record \<open>sodium\<close>,
  an argument of every operation that calls it, and the bytes the library draws at random are
  arguments as well.  What the layer relies on is the predicate \<open>sodium_laws\<close>: the documented sizes,
  that the two ends of a key exchange compute the same pair of session keys, and that opening undoes
  sealing.
\<close>

section \<open>The library\<close>

type_synonym bytes = "u8 list"

text \<open>
  \<^verbatim>\<open>crypto_kx_*_session_keys\<close> gets the old contents of the two key buffers and yields whether it
  succeeded and what they hold afterwards.  The functions that open a box yield \<open>None\<close> when the
  verification fails.
\<close>

record sodium =
  sodium_init :: int
  crypto_box_keypair :: "bytes \<Rightarrow> bytes \<times> bytes"
  crypto_kx_keypair :: "bytes \<Rightarrow> bytes \<times> bytes"
  crypto_kx_client_session_keys ::
    "bytes \<Rightarrow> bytes \<Rightarrow> bytes \<Rightarrow> bytes \<Rightarrow> bytes \<Rightarrow> bool \<times> bytes \<times> bytes"
  crypto_kx_server_session_keys ::
    "bytes \<Rightarrow> bytes \<Rightarrow> bytes \<Rightarrow> bytes \<Rightarrow> bytes \<Rightarrow> bool \<times> bytes \<times> bytes"
  crypto_box_seal :: "bytes \<Rightarrow> bytes \<Rightarrow> bytes \<Rightarrow> bytes"
  crypto_box_seal_open :: "bytes \<Rightarrow> bytes \<Rightarrow> bytes \<Rightarrow> bytes option"
  crypto_secretbox_easy :: "bytes \<Rightarrow> bytes \<Rightarrow> bytes \<Rightarrow> bytes"
  crypto_secretbox_open_easy :: "bytes \<Rightarrow> bytes \<Rightarrow> bytes \<Rightarrow> bytes option"
  crypto_secretbox_NONCEBYTES :: nat
  crypto_secretbox_MACBYTES :: nat
  crypto_box_SEALBYTES :: nat

section \<open>The layer on top of it\<close>

definition KEY_LENGTH :: nat where
  "KEY_LENGTH = 32"

definition CHALLENGE_LENGTH :: nat where
  "CHALLENGE_LENGTH = 64"

definition WIREFOX_SODIUM_NONCE_LEN :: "sodium \<Rightarrow> nat" where
  "WIREFOX_SODIUM_NONCE_LEN lib = crypto_secretbox_NONCEBYTES lib"

definition WIREFOX_SODIUM_MAC_LEN :: "sodium \<Rightarrow> nat" where
  "WIREFOX_SODIUM_MAC_LEN lib = crypto_secretbox_MACBYTES lib"

record Keypair =
  key_public :: bytes
  key_secret :: bytes

record EncryptionLayerSodium =
  m_identity :: "Keypair option"
  m_kx :: "Keypair option"
  m_remote_identity_pk :: bytes
  m_issued_challenge :: bytes
  m_key_rx :: bytes
  m_key_tx :: bytes
  m_error :: bool
  m_established :: bool
  m_remoteIdentityKnown :: bool
  m_remoteAuthExpected :: bool

definition zero_bytes :: "nat \<Rightarrow> bytes" where
  "zero_bytes n = replicate n 0"

definition PreallocateBuffer :: "nat \<Rightarrow> BinaryStream result" where
  "PreallocateBuffer len =
     rbind (WriteZeroes len (BinaryStream_new len)) (\<lambda>buffer. Inr (SeekToBegin buffer))"

subsection \<open>Key pairs\<close>

definition Keypair_default :: "sodium \<Rightarrow> Keypair result" where
  "Keypair_default lib =
     (if sodium_init lib < 0 then Inl RuntimeError
      else Inr \<lparr>key_public = zero_bytes KEY_LENGTH, key_secret = zero_bytes KEY_LENGTH\<rparr>)"

definition Keypair_of_keys :: "cell list option \<Rightarrow> cell list option \<Rightarrow> Keypair result" where
  "Keypair_of_keys secret public =
     rbind (load_bytes secret 0 KEY_LENGTH) (\<lambda>sk.
     rbind (load_bytes public 0 KEY_LENGTH) (\<lambda>pk.
     Inr \<lparr>key_public = pk, key_secret = sk\<rparr>))"

definition CreateIdentity :: "sodium \<Rightarrow> bytes \<Rightarrow> Keypair result" where
  "CreateIdentity lib rnd =
     rbind (Keypair_default lib) (\<lambda>ret.
     let (pk, sk) = crypto_box_keypair lib rnd in Inr (ret\<lparr>key_public := pk, key_secret := sk\<rparr>))"

definition CreateKeyExchange :: "sodium \<Rightarrow> bytes \<Rightarrow> Keypair result" where
  "CreateKeyExchange lib rnd =
     rbind (Keypair_default lib) (\<lambda>ret.
     let (pk, sk) = crypto_kx_keypair lib rnd in Inr (ret\<lparr>key_public := pk, key_secret := sk\<rparr>))"

text \<open>\<^verbatim>\<open>CopyTo\<close>: the bytes written to the buffer of the secret and of the public key.\<close>

definition Keypair_CopyTo :: "Keypair \<Rightarrow> bytes \<times> bytes" where
  "Keypair_CopyTo kp = (take KEY_LENGTH (key_secret kp), take KEY_LENGTH (key_public kp))"

text \<open>The memory of a key pair after its destruction.\<close>

definition Keypair_destroy :: "Keypair \<Rightarrow> Keypair" where
  "Keypair_destroy kp =
     kp\<lparr>key_public := zero_bytes KEY_LENGTH, key_secret := zero_bytes KEY_LENGTH\<rparr>"

subsection \<open>Construction, move and destruction\<close>

definition Sodium_new :: "sodium \<Rightarrow> bytes \<Rightarrow> EncryptionLayerSodium result" where
  "Sodium_new lib rnd =
     (if sodium_init lib < 0 then Inl RuntimeError
      else rbind (CreateKeyExchange lib rnd) (\<lambda>kx.
        Inr \<lparr>m_identity = None, m_kx = Some kx, m_remote_identity_pk = zero_bytes KEY_LENGTH,
             m_issued_challenge = zero_bytes CHALLENGE_LENGTH, m_key_rx = zero_bytes KEY_LENGTH,
             m_key_tx = zero_bytes KEY_LENGTH, m_error = False, m_established = False,
             m_remoteIdentityKnown = False, m_remoteAuthExpected = False\<rparr>))"

text \<open>
  Move assignment between two different objects.  The issued challenge stays behind.
\<close>

definition Sodium_move_assign ::
  "EncryptionLayerSodium \<Rightarrow> EncryptionLayerSodium \<Rightarrow> EncryptionLayerSodium \<times> EncryptionLayerSodium" where
  "Sodium_move_assign this other =
     (this\<lparr>m_kx := m_kx other, m_identity := m_identity other,
           m_remote_identity_pk := m_remote_identity_pk other,
           m_key_rx := m_key_rx other, m_key_tx := m_key_tx other, m_error := m_error other,
           m_established := m_established other,
           m_remoteIdentityKnown := m_remoteIdentityKnown other,
           m_remoteAuthExpected := m_remoteAuthExpected other\<rparr>,
      other\<lparr>m_kx := None, m_identity := None, m_remote_identity_pk := zero_bytes KEY_LENGTH,
            m_key_rx := zero_bytes KEY_LENGTH, m_key_tx := zero_bytes KEY_LENGTH,
            m_error := False, m_established := False, m_remoteIdentityKnown := False,
            m_remoteAuthExpected := False\<rparr>)"

definition Sodium_move ::
  "sodium \<Rightarrow> bytes \<Rightarrow> EncryptionLayerSodium \<Rightarrow> (EncryptionLayerSodium \<times> EncryptionLayerSodium) result" where
  "Sodium_move lib rnd other =
     rbind (Sodium_new lib rnd) (\<lambda>this. Inr (Sodium_move_assign this other))"

text \<open>The memory of the object after its destructor: the key for sending is erased twice.\<close>

definition Sodium_destroy :: "EncryptionLayerSodium \<Rightarrow> EncryptionLayerSodium" where
  "Sodium_destroy c =
     (let c = c\<lparr>m_remote_identity_pk := zero_bytes KEY_LENGTH\<rparr>;
          c = c\<lparr>m_key_tx := zero_bytes KEY_LENGTH\<rparr>
      in c\<lparr>m_key_tx := zero_bytes KEY_LENGTH\<rparr>)"

subsection \<open>State of the connection\<close>

definition Sodium_GetNeedsToBail :: "EncryptionLayerSodium \<Rightarrow> bool" where
  "Sodium_GetNeedsToBail c = m_error c"

definition Sodium_GetOverhead :: "sodium \<Rightarrow> nat" where
  "Sodium_GetOverhead lib = WIREFOX_SODIUM_NONCE_LEN lib + WIREFOX_SODIUM_MAC_LEN lib"

definition Sodium_GetKeyLength :: nat where
  "Sodium_GetKeyLength = KEY_LENGTH"

definition Sodium_GetEphemeralPublicKey :: "EncryptionLayerSodium \<Rightarrow> BinaryStream result" where
  "Sodium_GetEphemeralPublicKey c = (case m_kx c of
      None \<Rightarrow> Inl NullPointer
    | Some kx \<Rightarrow>
        rbind (WriteBytes (key_public kx) (BinaryStream_new KEY_LENGTH)) (\<lambda>ret.
        Inr (SeekToBegin ret)))"

definition Sodium_SetCryptoEstablished :: "EncryptionLayerSodium \<Rightarrow> EncryptionLayerSodium" where
  "Sodium_SetCryptoEstablished c = c\<lparr>m_established := True\<rparr>"

definition Sodium_GetCryptoEstablished :: "EncryptionLayerSodium \<Rightarrow> bool" where
  "Sodium_GetCryptoEstablished c = m_established c"

definition Sodium_GetNeedsChallenge :: "EncryptionLayerSodium \<Rightarrow> bool" where
  "Sodium_GetNeedsChallenge c = m_remoteIdentityKnown c"

definition Sodium_SetLocalIdentity ::
  "Keypair option \<Rightarrow> EncryptionLayerSodium \<Rightarrow> EncryptionLayerSodium" where
  "Sodium_SetLocalIdentity keypair c = c\<lparr>m_identity := keypair\<rparr>"

definition Sodium_ExpectRemoteIdentity ::
  "BinaryStream \<Rightarrow> EncryptionLayerSodium \<Rightarrow> (BinaryStream \<times> EncryptionLayerSodium) result" where
  "Sodium_ExpectRemoteIdentity pubkey c =
     (let c = c\<lparr>m_remoteIdentityKnown := True\<rparr>
      in rbind (ReadBytes KEY_LENGTH pubkey) (\<lambda>(r, pubkey).
         Inr (pubkey, (case r of None \<Rightarrow> c | Some pk \<Rightarrow> c\<lparr>m_remote_identity_pk := pk\<rparr>))))"

subsection \<open>Key exchange and challenge\<close>

text \<open>
  The local buffers that \<^verbatim>\<open>ReadBytes\<close> fills have no initial value: when it returns early,
  their indeterminate bytes are used.
\<close>

definition ReadBuffer :: "nat \<Rightarrow> BinaryStream \<Rightarrow> (bytes \<times> BinaryStream) result" where
  "ReadBuffer n s =
     rbind (ReadBytes n s) (\<lambda>(r, s). case r of None \<Rightarrow> Inl Indeterminate | Some bs \<Rightarrow> Inr (bs, s))"

definition Sodium_CreateChallenge ::
  "sodium \<Rightarrow> bytes \<Rightarrow> bytes \<Rightarrow> BinaryStream \<Rightarrow> EncryptionLayerSodium \<Rightarrow>
   (BinaryStream \<times> EncryptionLayerSodium) result" where
  "Sodium_CreateChallenge lib challenge rnd outstream c =
     (let c = c\<lparr>m_remoteAuthExpected := True\<rparr>;
          c = c\<lparr>m_issued_challenge := challenge\<rparr>;
          encrypted = crypto_box_seal lib rnd (m_issued_challenge c) (m_remote_identity_pk c)
      in rbind (WriteBytes encrypted outstream) (\<lambda>outstream. Inr (outstream, c)))"

definition Sodium_HandleKeyExchange ::
  "sodium \<Rightarrow> ConnectionOrigin \<Rightarrow> BinaryStream \<Rightarrow> EncryptionLayerSodium \<Rightarrow>
   (bool \<times> BinaryStream \<times> EncryptionLayerSodium) result" where
  "Sodium_HandleKeyExchange lib origin pubkey c =
     rbind (ReadBuffer KEY_LENGTH pubkey) (\<lambda>(remotekey, pubkey).
     rbind (case origin of
        SELF \<Rightarrow> (case m_kx c of None \<Rightarrow> Inl NullPointer
          | Some kx \<Rightarrow> Inr (crypto_kx_client_session_keys lib (m_key_rx c) (m_key_tx c)
              (key_public kx) (key_secret kx) remotekey))
      | REMOTE \<Rightarrow> (case m_kx c of None \<Rightarrow> Inl NullPointer
          | Some kx \<Rightarrow> Inr (crypto_kx_server_session_keys lib (m_key_rx c) (m_key_tx c)
              (key_public kx) (key_secret kx) remotekey))
      | INVALID \<Rightarrow> Inl AssertFailure) (\<lambda>(ok, rx, tx).
     let c = c\<lparr>m_key_rx := rx, m_key_tx := tx\<rparr>;
         c = (if ok then c else c\<lparr>m_error := True\<rparr>)
     in Inr (\<not> m_error c, pubkey, c)))"

definition Sodium_HandleChallengeResponse ::
  "BinaryStream \<Rightarrow> EncryptionLayerSodium \<Rightarrow> (bool \<times> BinaryStream) result" where
  "Sodium_HandleChallengeResponse instream c =
     rbind (ReadBuffer CHALLENGE_LENGTH instream) (\<lambda>(response, instream).
     Inr (response = m_issued_challenge c, instream))"

definition Sodium_HandleChallengeIncoming ::
  "sodium \<Rightarrow> BinaryStream \<Rightarrow> BinaryStream \<Rightarrow> EncryptionLayerSodium \<Rightarrow>
   (bool \<times> BinaryStream \<times> BinaryStream) result" where
  "Sodium_HandleChallengeIncoming lib instream answer c =
     rbind (ReadBuffer (CHALLENGE_LENGTH + crypto_box_SEALBYTES lib) instream) (\<lambda>(encrypted, instream).
     case m_identity c of None \<Rightarrow> Inl NullPointer
     | Some me \<Rightarrow>
        (case crypto_box_seal_open lib encrypted (key_public me) (key_secret me) of
           None \<Rightarrow> Inr (False, instream, answer)
         | Some decrypted \<Rightarrow>
             rbind (WriteBytes decrypted answer) (\<lambda>answer. Inr (True, instream, answer))))"

subsection \<open>Messages\<close>

definition Sodium_Encrypt ::
  "sodium \<Rightarrow> bytes \<Rightarrow> BinaryStream \<Rightarrow> EncryptionLayerSodium \<Rightarrow> BinaryStream result" where
  "Sodium_Encrypt lib nonce plaintext c =
     (let ciphertext_len_full =
            m_length plaintext + WIREFOX_SODIUM_MAC_LEN lib + WIREFOX_SODIUM_NONCE_LEN lib
      in rbind (PreallocateBuffer ciphertext_len_full) (\<lambda>ciphertext.
         rbind (WriteBytes nonce ciphertext) (\<lambda>ciphertext.
         rbind (load_bytes (GetBuffer plaintext) 0 (m_length plaintext)) (\<lambda>message.
         rbind (store_cells (WIREFOX_SODIUM_NONCE_LEN lib)
                  (map Some (crypto_secretbox_easy lib message nonce (m_key_tx c))) ciphertext)
           (\<lambda>ciphertext. Inr (SeekToBegin ciphertext))))))"

definition Sodium_Decrypt ::
  "sodium \<Rightarrow> BinaryStream \<Rightarrow> EncryptionLayerSodium \<Rightarrow>
   (BinaryStream \<times> BinaryStream \<times> EncryptionLayerSodium) result" where
  "Sodium_Decrypt lib ciphertext c =
     rassert (m_position ciphertext = 0) (
     let ciphertext = SeekToBegin ciphertext
     in rbind (ReadBytes (WIREFOX_SODIUM_NONCE_LEN lib) ciphertext) (\<lambda>(nonce, ciphertext).
        if m_length ciphertext < WIREFOX_SODIUM_MAC_LEN lib + WIREFOX_SODIUM_NONCE_LEN lib
        then rbind (BinaryStream_copy ciphertext) (\<lambda>r. Inr (r, ciphertext, c\<lparr>m_error := True\<rparr>))
        else
        (let ciphertext_len = m_length ciphertext - WIREFOX_SODIUM_NONCE_LEN lib;
             plaintext_len = ciphertext_len - WIREFOX_SODIUM_MAC_LEN lib
         in rbind (PreallocateBuffer plaintext_len) (\<lambda>plaintext.
            rassert (m_capacity plaintext \<ge> plaintext_len) (
            case nonce of None \<Rightarrow> Inl Indeterminate
            | Some nonce \<Rightarrow>
              rbind (load_bytes (GetBuffer ciphertext) (WIREFOX_SODIUM_NONCE_LEN lib) ciphertext_len)
                (\<lambda>box.
              case crypto_secretbox_open_easy lib box nonce (m_key_rx c) of
                None \<Rightarrow> Inr (plaintext, ciphertext, c\<lparr>m_error := True\<rparr>)
              | Some message \<Rightarrow>
                  rbind (store_cells 0 (map Some message) plaintext) (\<lambda>plaintext.
                  Inr (plaintext, ciphertext, c))))))))"

section \<open>The layer that does nothing\<close>

definition Null_GetEphemeralPublicKey :: "BinaryStream result" where
  "Null_GetEphemeralPublicKey = Inr (BinaryStream_new 0)"

definition Null_Encrypt :: "BinaryStream \<Rightarrow> BinaryStream result" where
  "Null_Encrypt plaintext = BinaryStream_copy plaintext"

definition Null_Decrypt :: "BinaryStream \<Rightarrow> BinaryStream result" where
  "Null_Decrypt ciphertext = BinaryStream_copy ciphertext"

definition Null_GetKeyLength :: nat where
  "Null_GetKeyLength = 0"

definition Null_GetOverhead :: nat where
  "Null_GetOverhead = 0"

section \<open>The interface\<close>

text \<open>
  An object behind the interface \<^verbatim>\<open>EncryptionLayer\<close> is one of the two layers; each virtual
  function dispatches on it.
\<close>

datatype EncryptionLayer = LayerNull | LayerSodium EncryptionLayerSodium

definition Crypto_GetNeedsToBail :: "EncryptionLayer \<Rightarrow> bool" where
  "Crypto_GetNeedsToBail e = (case e of LayerNull \<Rightarrow> False | LayerSodium c \<Rightarrow> Sodium_GetNeedsToBail c)"

definition Crypto_GetEphemeralPublicKey :: "EncryptionLayer \<Rightarrow> BinaryStream result" where
  "Crypto_GetEphemeralPublicKey e = (case e of
      LayerNull \<Rightarrow> Null_GetEphemeralPublicKey
    | LayerSodium c \<Rightarrow> Sodium_GetEphemeralPublicKey c)"

definition Crypto_SetCryptoEstablished :: "EncryptionLayer \<Rightarrow> EncryptionLayer" where
  "Crypto_SetCryptoEstablished e = (case e of
      LayerNull \<Rightarrow> LayerNull | LayerSodium c \<Rightarrow> LayerSodium (Sodium_SetCryptoEstablished c))"

definition Crypto_GetCryptoEstablished :: "EncryptionLayer \<Rightarrow> bool" where
  "Crypto_GetCryptoEstablished e = (case e of
      LayerNull \<Rightarrow> False | LayerSodium c \<Rightarrow> Sodium_GetCryptoEstablished c)"

definition Crypto_GetNeedsChallenge :: "EncryptionLayer \<Rightarrow> bool" where
  "Crypto_GetNeedsChallenge e = (case e of
      LayerNull \<Rightarrow> False | LayerSodium c \<Rightarrow> Sodium_GetNeedsChallenge c)"

definition Crypto_CreateChallenge ::
  "sodium \<Rightarrow> bytes \<Rightarrow> bytes \<Rightarrow> BinaryStream \<Rightarrow> EncryptionLayer \<Rightarrow>
   (BinaryStream \<times> EncryptionLayer) result" where
  "Crypto_CreateChallenge lib challenge rnd outstream e = (case e of
      LayerNull \<Rightarrow> Inr (outstream, LayerNull)
    | LayerSodium c \<Rightarrow>
        rbind (Sodium_CreateChallenge lib challenge rnd outstream c) (\<lambda>(outstream, c).
        Inr (outstream, LayerSodium c)))"

definition Crypto_HandleChallengeIncoming ::
  "sodium \<Rightarrow> BinaryStream \<Rightarrow> BinaryStream \<Rightarrow> EncryptionLayer \<Rightarrow>
   (bool \<times> BinaryStream \<times> BinaryStream) result" where
  "Crypto_HandleChallengeIncoming lib instream answer e = (case e of
      LayerNull \<Rightarrow> Inr (True, instream, answer)
    | LayerSodium c \<Rightarrow> Sodium_HandleChallengeIncoming lib instream answer c)"

definition Crypto_HandleChallengeResponse ::
  "BinaryStream \<Rightarrow> EncryptionLayer \<Rightarrow> (bool \<times> BinaryStream) result" where
  "Crypto_HandleChallengeResponse instream e = (case e of
      LayerNull \<Rightarrow> Inr (True, instream)
    | LayerSodium c \<Rightarrow> Sodium_HandleChallengeResponse instream c)"

definition Crypto_HandleKeyExchange ::
  "sodium \<Rightarrow> ConnectionOrigin \<Rightarrow> BinaryStream \<Rightarrow> EncryptionLayer \<Rightarrow>
   (bool \<times> BinaryStream \<times> EncryptionLayer) result" where
  "Crypto_HandleKeyExchange lib origin pubkey e = (case e of
      LayerNull \<Rightarrow> Inr (True, pubkey, LayerNull)
    | LayerSodium c \<Rightarrow>
        rbind (Sodium_HandleKeyExchange lib origin pubkey c) (\<lambda>(ok, pubkey, c).
        Inr (ok, pubkey, LayerSodium c)))"

definition Crypto_SetLocalIdentity :: "Keypair option \<Rightarrow> EncryptionLayer \<Rightarrow> EncryptionLayer" where
  "Crypto_SetLocalIdentity keypair e = (case e of
      LayerNull \<Rightarrow> LayerNull | LayerSodium c \<Rightarrow> LayerSodium (Sodium_SetLocalIdentity keypair c))"

definition Crypto_ExpectRemoteIdentity ::
  "BinaryStream \<Rightarrow> EncryptionLayer \<Rightarrow> (BinaryStream \<times> EncryptionLayer) result" where
  "Crypto_ExpectRemoteIdentity pubkey e = (case e of
      LayerNull \<Rightarrow> Inr (pubkey, LayerNull)
    | LayerSodium c \<Rightarrow>
        rbind (Sodium_ExpectRemoteIdentity pubkey c) (\<lambda>(pubkey, c). Inr (pubkey, LayerSodium c)))"

definition Crypto_Encrypt ::
  "sodium \<Rightarrow> bytes \<Rightarrow> BinaryStream \<Rightarrow> EncryptionLayer \<Rightarrow> BinaryStream result" where
  "Crypto_Encrypt lib nonce plaintext e = (case e of
      LayerNull \<Rightarrow> Null_Encrypt plaintext | LayerSodium c \<Rightarrow> Sodium_Encrypt lib nonce plaintext c)"

definition Crypto_Decrypt ::
  "sodium \<Rightarrow> BinaryStream \<Rightarrow> EncryptionLayer \<Rightarrow>
   (BinaryStream \<times> BinaryStream \<times> EncryptionLayer) result" where
  "Crypto_Decrypt lib ciphertext e = (case e of
      LayerNull \<Rightarrow> rbind (Null_Decrypt ciphertext) (\<lambda>r. Inr (r, ciphertext, LayerNull))
    | LayerSodium c \<Rightarrow>
        rbind (Sodium_Decrypt lib ciphertext c) (\<lambda>(r, ciphertext, c).
        Inr (r, ciphertext, LayerSodium c)))"

section \<open>What the layer relies on\<close>

definition sodium_laws :: "sodium \<Rightarrow> bool" where
  "sodium_laws lib \<longleftrightarrow>
     0 \<le> sodium_init lib \<and> crypto_secretbox_NONCEBYTES lib = 24 \<and>
     crypto_secretbox_MACBYTES lib = 16 \<and> crypto_box_SEALBYTES lib = 48 \<and>
     (\<forall>r. length (fst (crypto_kx_keypair lib r)) = 32 \<and> length (snd (crypto_kx_keypair lib r)) = 32 \<and>
          length (fst (crypto_box_keypair lib r)) = 32 \<and> length (snd (crypto_box_keypair lib r)) = 32) \<and>
     (\<forall>r r' a b a' b'. \<exists>k1 k2. length k1 = 32 \<and> length k2 = 32 \<and>
        crypto_kx_client_session_keys lib a b (fst (crypto_kx_keypair lib r))
          (snd (crypto_kx_keypair lib r)) (fst (crypto_kx_keypair lib r')) = (True, k1, k2) \<and>
        crypto_kx_server_session_keys lib a' b' (fst (crypto_kx_keypair lib r'))
          (snd (crypto_kx_keypair lib r')) (fst (crypto_kx_keypair lib r)) = (True, k2, k1)) \<and>
     (\<forall>m n k. length n = 24 \<and> length k = 32 \<longrightarrow>
        length (crypto_secretbox_easy lib m n k) = length m + 16 \<and>
        crypto_secretbox_open_easy lib (crypto_secretbox_easy lib m n k) n k = Some m) \<and>
     (\<forall>b n k m. crypto_secretbox_open_easy lib b n k = Some m \<longrightarrow> length b = length m + 16) \<and>
     (\<forall>q r m. length (crypto_box_seal lib q m (fst (crypto_box_keypair lib r))) = length m + 48 \<and>
        crypto_box_seal_open lib (crypto_box_seal lib q m (fst (crypto_box_keypair lib r)))
          (fst (crypto_box_keypair lib r)) (snd (crypto_box_keypair lib r)) = Some m)"

text \<open>A library for the witnesses: every key is public and nothing is hidden.\<close>

definition open_box :: "nat \<Rightarrow> bytes \<Rightarrow> bytes option" where
  "open_box n b = (if n \<le> length b then Some (drop n b) else None)"

definition example_sodium :: sodium where
  "example_sodium = \<lparr>sodium_init = 0,
     crypto_box_keypair = (\<lambda>r. (replicate 32 1, replicate 32 2)),
     crypto_kx_keypair = (\<lambda>r. (replicate 32 3, replicate 32 4)),
     crypto_kx_client_session_keys = (\<lambda>rx tx pk sk remote. (True, replicate 32 5, replicate 32 6)),
     crypto_kx_server_session_keys = (\<lambda>rx tx pk sk remote. (True, replicate 32 6, replicate 32 5)),
     crypto_box_seal = (\<lambda>r m pk. replicate 48 0 @ m),
     crypto_box_seal_open = (\<lambda>b pk sk. open_box 48 b),
     crypto_secretbox_easy = (\<lambda>m n k. replicate 16 0 @ m),
     crypto_secretbox_open_easy = (\<lambda>b n k. open_box 16 b),
     crypto_secretbox_NONCEBYTES = 24, crypto_secretbox_MACBYTES = 16, crypto_box_SEALBYTES = 48\<rparr>"

lemma example_sodium_laws: "sodium_laws example_sodium"
  unfolding sodium_laws_def example_sodium_def open_box_def by simp

section \<open>Messages survive\<close>

lemma lens [simp]: "sodium_laws lib \<Longrightarrow> WIREFOX_SODIUM_NONCE_LEN lib = 24"
  "sodium_laws lib \<Longrightarrow> WIREFOX_SODIUM_MAC_LEN lib = 16"
  "sodium_laws lib \<Longrightarrow> crypto_box_SEALBYTES lib = 48"
  by (simp_all add: sodium_laws_def WIREFOX_SODIUM_NONCE_LEN_def WIREFOX_SODIUM_MAC_LEN_def)

lemma secretbox_laws:
  assumes "sodium_laws lib" "length n = 24" "length k = 32"
  shows "length (crypto_secretbox_easy lib m n k) = length m + 16"
    "crypto_secretbox_open_easy lib (crypto_secretbox_easy lib m n k) n k = Some m"
  using assms unfolding sodium_laws_def by blast+

lemma open_easy_length:
  "sodium_laws lib \<Longrightarrow> crypto_secretbox_open_easy lib b n k = Some m \<Longrightarrow> length b = length m + 16"
  unfolding sodium_laws_def by blast

lemma PreallocateBuffer_ok:
  assumes "len \<le> max_stream"
  shows "\<exists>s. PreallocateBuffer len = Inr s \<and> stream_ok s \<and> contents s = replicate len 0 \<and>
    m_position s = 0 \<and> m_subBytePosition s = 0 \<and> m_length s = len"
proof -
  obtain s where s: "WriteZeroes len (BinaryStream_new len) = Inr s" "written s (replicate len 0) []"
    using written_WriteBytes [OF written_new, of "replicate len 0" len] assms
    by (auto simp: WriteZeroes_WriteBytes flushed_def)
  then have ok: "stream_ok s" "m_subBytePosition s = 0" "contents s = replicate len 0"
    by (simp_all add: written_def flushed_def)
  then show ?thesis using s(1) Seek_ok [OF ok(1,2), of 0] m_length_written [OF s(2)]
    by (simp add: PreallocateBuffer_def SeekToBegin_def)
qed

text \<open>Bytes that a library function stores into a prepared buffer.\<close>

lemma store_ok:
  assumes "stream_ok s" "m_subBytePosition s = 0" "p + length bs \<le> m_length s"
  shows "\<exists>s'. store_cells p (map Some bs) s = Inr s' \<and> stream_ok s' \<and>
    contents s' = overwrite p bs (contents s) \<and> m_position s' = m_position s \<and>
    m_subBytePosition s' = 0 \<and> m_length s' = m_length s"
proof (cases "bs = []")
  case True
  then show ?thesis using assms by (simp add: store_cells_def)
next
  case False
  have cap: "m_length s \<le> m_capacity s" "m_position s \<le> m_length s"
    using assms(1) by (simp_all add: stream_ok_def)
  define s' where "s' = s\<lparr>m_buffer := Some (overwrite p (map Some bs) (cells s))\<rparr>"
  have eq: "store_cells p (map Some bs) s = Inr s'"
    unfolding s'_def using False assms cap by (intro store_cells_eq) auto
  have s'': "s' = s\<lparr>m_buffer := Some (overwrite p (map Some bs) (cells s)), m_length := m_length s,
      m_position := m_position s, m_subBytePosition := 0\<rparr>"
    unfolding s'_def using assms(2) by (cases s) simp
  have "stream_ok s' \<and> contents s' = overwrite p bs (contents s)"
    by (rule overwrite_ok [OF assms(1) _ _ False _ _ _ _ s'']) (use assms cap in auto)
  then show ?thesis using eq assms(2) by (simp add: s'_def)
qed

lemma reading_start:
  assumes "stream_ok s" "m_position s = 0" "m_subBytePosition s = 0" "m_length s \<le> max_stream"
  shows "reading s 0 (contents s)"
proof -
  have w: "SeekToBegin s = s" using assms(2) by (cases s) (simp add: SeekToBegin_def Seek_def)
  have "load_bytes (GetBuffer s) 0 (length (contents s)) = Inr (contents s)"
  proof (cases "contents s = []")
    case True
    then show ?thesis by (simp add: load_bytes_def)
  next
    case False
    then have b: "m_buffer s = Some (cells s)"
      by (auto simp: contents_def cells_def split: option.splits)
    then have "GetBuffer s = Some (cells s)" using assms(1) by (simp add: stream_ok_def GetBuffer_def)
    then show ?thesis using assms(1) take_cells [OF assms(1)]
      by (simp add: load_bytes_Inr) (simp add: stream_ok_def)
  qed
  then show ?thesis using assms by (simp add: reading_def max_stream_def)
qed

lemma Encrypt_ok:
  assumes lib: "sodium_laws lib" and n: "length nonce = 24" and k: "length (m_key_tx c) = 32"
    and p: "load_bytes (GetBuffer p) 0 (m_length p) = Inr message"
    and sz: "length message + 40 \<le> max_stream"
  shows "\<exists>s. Sodium_Encrypt lib nonce p c = Inr s \<and> stream_ok s \<and>
    contents s = nonce @ crypto_secretbox_easy lib message nonce (m_key_tx c) \<and>
    m_position s = 0 \<and> m_subBytePosition s = 0"
proof -
  let ?box = "crypto_secretbox_easy lib message nonce (m_key_tx c)"
  have len: "length message = m_length p" using p by (simp add: load_bytes_Inr)
  note box = secretbox_laws [OF lib n k, of message]
  obtain s1 where s1: "PreallocateBuffer (m_length p + 40) = Inr s1" "stream_ok s1"
    "contents s1 = replicate (m_length p + 40) 0" "m_position s1 = 0" "m_subBytePosition s1 = 0"
    using PreallocateBuffer_ok [of "m_length p + 40"] sz len by auto
  obtain s2 where s2: "WriteBytes nonce s1 = Inr s2" "stream_ok s2"
    "contents s2 = overwrite 0 nonce (contents s1)" "m_subBytePosition s2 = 0"
    using WriteBytes_ok [OF s1(2), of nonce] s1(4,5) n by (auto simp: m_position_Align max_stream_def)
  have len2: "m_length s2 = m_length p + 40"
    using length_contents [OF s2(2)] s2(3) s1(3) n by simp
  obtain s3 where s3: "store_cells 24 (map Some ?box) s2 = Inr s3" "stream_ok s3"
    "contents s3 = overwrite 24 ?box (contents s2)" "m_subBytePosition s3 = 0"
    using store_ok [OF s2(2,4), of 24 ?box] len2 box(1) len by auto
  have c: "contents s3 = nonce @ ?box"
    unfolding s3(3) s2(3) s1(3) using n box(1) len by (simp add: overwrite_def)
  have "Sodium_Encrypt lib nonce p c = Inr (SeekToBegin s3)"
    unfolding Sodium_Encrypt_def Let_def using s1(1) s2(1) s3(1) p lib by (simp add: add.commute)
  then show ?thesis using Seek_ok [OF s3(2,4), of 0] c by (simp add: SeekToBegin_def)
qed

lemma Decrypt_eq:
  assumes lib: "sodium_laws lib" and r: "reading s 0 (nonce @ box)" and pos: "m_position s = 0"
    and n: "length nonce = 24" and b: "16 \<le> length box" and sz: "length box \<le> max_stream"
  shows "\<exists>s' p. stream_ok p \<and> m_position p = 0 \<and> m_subBytePosition p = 0 \<and>
    contents p = replicate (length box - 16) 0 \<and> m_length p = length box - 16 \<and>
    Sodium_Decrypt lib s c =
      (case crypto_secretbox_open_easy lib box nonce (m_key_rx c) of
         None \<Rightarrow> Inr (p, s', c\<lparr>m_error := True\<rparr>)
       | Some message \<Rightarrow>
           rbind (store_cells 0 (map Some message) p) (\<lambda>p. Inr (p, s', c)))"
proof -
  have seek: "SeekToBegin s = s" using pos by (cases s) (simp add: SeekToBegin_def Seek_def)
  have l: "m_length s = 24 + length box" "m_length s < 2 ^ 64" "m_subBytePosition s = 0"
    using r pos n by (simp_all add: reading_def)
  have load: "load_bytes (GetBuffer s) 0 (length (nonce @ box)) = Inr (nonce @ box)"
    using r pos unfolding reading_def by metis
  have nb: "ReadBytes 24 s = Inr (Some nonce, s\<lparr>m_position := 24\<rparr>)"
  proof -
    have "\<not> IsEOF 24 s" using reading_not_EOF [OF r, of 24] n by simp
    moreover have "Align s = s" using l(3) by (cases s) (simp add: Align_def)
    ultimately show ?thesis
      using load_bytes_slice [OF load, of 0 24] n pos by (simp add: ReadBytes_def)
  qed
  have bb: "load_bytes (GetBuffer s) 24 (length box) = Inr box"
    using load_bytes_slice [OF load, of 24 "length box"] n by simp
  obtain p where p: "PreallocateBuffer (length box - 16) = Inr p" "stream_ok p"
    "contents p = replicate (length box - 16) 0" "m_position p = 0" "m_subBytePosition p = 0"
    "m_length p = length box - 16"
    using PreallocateBuffer_ok [OF le_trans [OF diff_le_self sz], of 16] by blast
  have cap: "length box - 16 \<le> m_capacity p" using p(2,6) by (simp add: stream_ok_def)
  have "Sodium_Decrypt lib s c =
      (case crypto_secretbox_open_easy lib box nonce (m_key_rx c) of
         None \<Rightarrow> Inr (p, s\<lparr>m_position := 24\<rparr>, c\<lparr>m_error := True\<rparr>)
       | Some message \<Rightarrow>
           rbind (store_cells 0 (map Some message) p) (\<lambda>p. Inr (p, s\<lparr>m_position := 24\<rparr>, c)))"
    unfolding Sodium_Decrypt_def Let_def seek lens [OF lib]
    using pos nb l b p(1) cap bb by simp
  then show ?thesis using p by blast
qed

lemma Decrypt_ok:
  assumes lib: "sodium_laws lib" and r: "reading s 0 (nonce @ box)" and pos: "m_position s = 0"
    and n: "length nonce = 24" and sz: "length box \<le> max_stream"
    and o: "crypto_secretbox_open_easy lib box nonce (m_key_rx c) = Some message"
  shows "\<exists>p s'. Sodium_Decrypt lib s c = Inr (p, s', c) \<and> stream_ok p \<and> contents p = message \<and>
    m_position p = 0 \<and> m_subBytePosition p = 0"
proof -
  have b: "length box = length message + 16" by (rule open_easy_length [OF lib o])
  obtain s' p where p: "stream_ok p" "m_position p = 0" "m_subBytePosition p = 0"
    "contents p = replicate (length box - 16) 0" "m_length p = length box - 16"
    "Sodium_Decrypt lib s c = rbind (store_cells 0 (map Some message) p) (\<lambda>p. Inr (p, s', c))"
    using Decrypt_eq [OF lib r pos n _ sz, of c] b o by auto
  obtain q where q: "store_cells 0 (map Some message) p = Inr q" "stream_ok q"
    "contents q = overwrite 0 message (contents p)" "m_position q = 0" "m_subBytePosition q = 0"
    using store_ok [OF p(1,3), of 0 message] p(2,5) b by auto
  have "contents q = message" unfolding q(3) p(4) using b by (simp add: overwrite_def)
  then show ?thesis using p(6) q by auto
qed

text \<open>
  One end can read what the other sends: every message is encrypted, and the datagram, wherever it
  lies in a receive buffer, is decrypted to the same message.
\<close>

definition delivers :: "sodium \<Rightarrow> EncryptionLayerSodium \<Rightarrow> EncryptionLayerSodium \<Rightarrow> bool" where
  "delivers lib a b \<longleftrightarrow> (\<forall>nonce p message rest.
     length nonce = 24 \<and> load_bytes (GetBuffer p) 0 (m_length p) = Inr message \<and>
     length message + 40 \<le> max_stream \<longrightarrow>
     (\<exists>s t q t'. Sodium_Encrypt lib nonce p a = Inr s \<and>
       m_length s = length message + Sodium_GetOverhead lib \<and>
       BinaryStream_wrap (Some (map Some (contents s) @ rest)) (m_length s) READONLY = Inr t \<and>
       Sodium_Decrypt lib t b = Inr (q, t', b) \<and> contents q = message \<and> m_position q = 0))"

lemma delivers_keys:
  assumes lib: "sodium_laws lib" and k: "length (m_key_tx a) = 32" "m_key_rx b = m_key_tx a"
  shows "delivers lib a b"
  unfolding delivers_def
proof (intro allI impI)
  fix nonce message :: bytes and p and rest :: "cell list"
  assume "length nonce = 24 \<and> load_bytes (GetBuffer p) 0 (m_length p) = Inr message \<and>
    length message + 40 \<le> max_stream"
  then have n: "length nonce = 24" and p: "load_bytes (GetBuffer p) 0 (m_length p) = Inr message"
    and sz: "length message + 40 \<le> max_stream" by auto
  let ?box = "crypto_secretbox_easy lib message nonce (m_key_tx a)"
  note box = secretbox_laws [OF lib n k(1), of message]
  obtain s where s: "Sodium_Encrypt lib nonce p a = Inr s" "stream_ok s" "contents s = nonce @ ?box"
    using Encrypt_ok [OF lib n k(1) p sz] by blast
  have len: "m_length s = length message + 40"
    using length_contents [OF s(2)] s(3) n box(1) by simp
  obtain t where t: "BinaryStream_wrap (Some (map Some (contents s) @ rest)) (m_length s) READONLY = Inr t"
    "m_position t = 0" by (simp add: BinaryStream_wrap_def)
  have "reading t 0 (nonce @ ?box)"
    using reading_wrap [of "contents s" rest t] t(1) s(3) len sz length_contents [OF s(2)]
    by (simp add: max_stream_def)
  moreover have "length ?box \<le> max_stream" using box(1) sz by simp
  ultimately obtain q t' where "Sodium_Decrypt lib t b = Inr (q, t', b)" "contents q = message"
    "m_position q = 0"
    using Decrypt_ok [OF lib _ t(2) n, of ?box b message] box(2) k(2) by auto
  then show "\<exists>s t q t'. Sodium_Encrypt lib nonce p a = Inr s \<and>
       m_length s = length message + Sodium_GetOverhead lib \<and>
       BinaryStream_wrap (Some (map Some (contents s) @ rest)) (m_length s) READONLY = Inr t \<and>
       Sodium_Decrypt lib t b = Inr (q, t', b) \<and> contents q = message \<and> m_position q = 0"
    using s(1) len t(1) lib by (auto simp: Sodium_GetOverhead_def)
qed

section \<open>Key exchange\<close>

lemma kx_laws:
  assumes "sodium_laws lib"
  shows "\<exists>k1 k2. length k1 = 32 \<and> length k2 = 32 \<and>
    crypto_kx_client_session_keys lib a b (fst (crypto_kx_keypair lib r))
      (snd (crypto_kx_keypair lib r)) (fst (crypto_kx_keypair lib r')) = (True, k1, k2) \<and>
    crypto_kx_server_session_keys lib a' b' (fst (crypto_kx_keypair lib r'))
      (snd (crypto_kx_keypair lib r')) (fst (crypto_kx_keypair lib r)) = (True, k2, k1)"
  using assms unfolding sodium_laws_def by blast

lemma kx_length: "sodium_laws lib \<Longrightarrow> length (fst (crypto_kx_keypair lib r)) = 32"
  unfolding sodium_laws_def by blast

lemma Sodium_new_eq:
  assumes "sodium_laws lib"
  shows "\<exists>c. Sodium_new lib rnd = Inr c \<and> \<not> m_error c \<and> \<not> m_established c \<and>
    m_kx c = Some \<lparr>key_public = fst (crypto_kx_keypair lib rnd), key_secret = snd (crypto_kx_keypair lib rnd)\<rparr> \<and>
    m_identity c = None \<and> \<not> m_remoteIdentityKnown c"
  using assms
  by (auto simp: Sodium_new_def CreateKeyExchange_def Keypair_default_def sodium_laws_def split: prod.split)

lemma GetEphemeralPublicKey_ok:
  assumes "m_kx c = Some kx" "length (key_public kx) = 32"
  shows "\<exists>s. Sodium_GetEphemeralPublicKey c = Inr s \<and> stream_ok s \<and> contents s = key_public kx \<and>
    m_position s = 0 \<and> m_subBytePosition s = 0 \<and> m_length s = 32"
proof -
  obtain s where s: "WriteBytes (key_public kx) (BinaryStream_new KEY_LENGTH) = Inr s"
    "written s (key_public kx) []"
    using written_WriteBytes [OF written_new, of "key_public kx" KEY_LENGTH] assms
    by (auto simp: flushed_def max_stream_def)
  then have ok: "stream_ok s" "m_subBytePosition s = 0" "contents s = key_public kx"
    by (simp_all add: written_def flushed_def)
  then show ?thesis using s(1) Seek_ok [OF ok(1,2), of 0] m_length_written [OF s(2)] assms
    by (simp add: Sodium_GetEphemeralPublicKey_def SeekToBegin_def)
qed

lemma ReadBuffer_reading:
  assumes "reading s k c" "unread k c = bs @ rest" "length bs = n"
  shows "\<exists>s'. ReadBuffer n s = Inr (bs, s') \<and> reading s' 0 rest"
  using reading_ReadBytes' [OF assms] by (auto simp: ReadBuffer_def)

text \<open>The key exchange as both ends perform it on the same pair of ephemeral keys.\<close>

definition kx_of :: "sodium \<Rightarrow> bytes \<Rightarrow> Keypair" where
  "kx_of lib rnd = \<lparr>key_public = fst (crypto_kx_keypair lib rnd), key_secret = snd (crypto_kx_keypair lib rnd)\<rparr>"

lemma HandleKeyExchange_SELF:
  assumes "m_kx c = Some kx" "reading s 0 (pk @ rest)" "length pk = 32" "\<not> m_error c"
    "crypto_kx_client_session_keys lib (m_key_rx c) (m_key_tx c) (key_public kx) (key_secret kx) pk =
      (True, rx, tx)"
  shows "\<exists>s'. Sodium_HandleKeyExchange lib SELF s c =
    Inr (True, s', c\<lparr>m_key_rx := rx, m_key_tx := tx\<rparr>) \<and> reading s' 0 rest"
  using ReadBuffer_reading [OF assms(2), of pk rest 32] assms
  by (auto simp: Sodium_HandleKeyExchange_def KEY_LENGTH_def)

lemma HandleKeyExchange_REMOTE:
  assumes "m_kx c = Some kx" "reading s 0 (pk @ rest)" "length pk = 32" "\<not> m_error c"
    "crypto_kx_server_session_keys lib (m_key_rx c) (m_key_tx c) (key_public kx) (key_secret kx) pk =
      (True, rx, tx)"
  shows "\<exists>s'. Sodium_HandleKeyExchange lib REMOTE s c =
    Inr (True, s', c\<lparr>m_key_rx := rx, m_key_tx := tx\<rparr>) \<and> reading s' 0 rest"
  using ReadBuffer_reading [OF assms(2), of pk rest 32] assms
  by (auto simp: Sodium_HandleKeyExchange_def KEY_LENGTH_def)

text \<open>
  C14.  A key exchange between two new layers succeeds on both ends, and afterwards every message that
  one end encrypts is decrypted by the other end to the same bytes, in both directions, whatever lies
  behind the datagram in the receive buffer.
\<close>

theorem session_roundtrip:
  assumes "sodium_laws lib"
  shows "\<exists>client server pkc pks s t client' server'.
    Sodium_new lib r1 = Inr client \<and> Sodium_new lib r2 = Inr server \<and>
    Sodium_GetEphemeralPublicKey client = Inr pkc \<and> Sodium_GetEphemeralPublicKey server = Inr pks \<and>
    Sodium_HandleKeyExchange lib SELF pks client = Inr (True, s, client') \<and>
    Sodium_HandleKeyExchange lib REMOTE pkc server = Inr (True, t, server') \<and>
    delivers lib client' server' \<and> delivers lib server' client'"
proof -
  obtain cl where cl: "Sodium_new lib r1 = Inr cl" "\<not> m_error cl" "m_kx cl = Some (kx_of lib r1)"
    using Sodium_new_eq [OF assms, of r1] by (auto simp: kx_of_def)
  obtain sv where sv: "Sodium_new lib r2 = Inr sv" "\<not> m_error sv" "m_kx sv = Some (kx_of lib r2)"
    using Sodium_new_eq [OF assms, of r2] by (auto simp: kx_of_def)
  have len: "length (key_public (kx_of lib r)) = 32" for r
    using kx_length [OF assms] by (simp add: kx_of_def)
  obtain pc where pc: "Sodium_GetEphemeralPublicKey cl = Inr pc" "reading pc 0 (key_public (kx_of lib r1))"
    using GetEphemeralPublicKey_ok [OF cl(3) len] reading_start by (force simp: max_stream_def)
  obtain ps where ps: "Sodium_GetEphemeralPublicKey sv = Inr ps" "reading ps 0 (key_public (kx_of lib r2))"
    using GetEphemeralPublicKey_ok [OF sv(3) len] reading_start by (force simp: max_stream_def)
  obtain k1 k2 where k: "length k1 = 32" "length k2 = 32"
    "crypto_kx_client_session_keys lib (m_key_rx cl) (m_key_tx cl) (key_public (kx_of lib r1))
      (key_secret (kx_of lib r1)) (key_public (kx_of lib r2)) = (True, k1, k2)"
    "crypto_kx_server_session_keys lib (m_key_rx sv) (m_key_tx sv) (key_public (kx_of lib r2))
      (key_secret (kx_of lib r2)) (key_public (kx_of lib r1)) = (True, k2, k1)"
    using kx_laws [OF assms] unfolding kx_of_def Keypair.simps by blast
  let ?cl = "cl\<lparr>m_key_rx := k1, m_key_tx := k2\<rparr>"
  let ?sv = "sv\<lparr>m_key_rx := k2, m_key_tx := k1\<rparr>"
  obtain s where "Sodium_HandleKeyExchange lib SELF ps cl = Inr (True, s, ?cl)"
    using HandleKeyExchange_SELF [OF cl(3) _ len cl(2) k(3), of ps "[]"] ps(2) by auto
  moreover obtain t where "Sodium_HandleKeyExchange lib REMOTE pc sv = Inr (True, t, ?sv)"
    using HandleKeyExchange_REMOTE [OF sv(3) _ len sv(2) k(4), of pc "[]"] pc(2) by auto
  moreover have "delivers lib ?cl ?sv" "delivers lib ?sv ?cl"
    using delivers_keys [OF assms] k(1,2) by simp_all
  ultimately show ?thesis using cl(1) sv(1) pc(1) ps(1) by blast
qed

theorem session_roundtrip_witness:
  "\<exists>client server pkc pks s t client' server'.
    Sodium_new example_sodium [7] = Inr client \<and> Sodium_new example_sodium [8] = Inr server \<and>
    Sodium_GetEphemeralPublicKey client = Inr pkc \<and> Sodium_GetEphemeralPublicKey server = Inr pks \<and>
    Sodium_HandleKeyExchange example_sodium SELF pks client = Inr (True, s, client') \<and>
    Sodium_HandleKeyExchange example_sodium REMOTE pkc server = Inr (True, t, server') \<and>
    delivers example_sodium client' server' \<and> delivers example_sodium server' client'"
  by (rule session_roundtrip [OF example_sodium_laws])

text \<open>
  C29.  Every datagram that arrives on an encrypted connection is either decrypted or marks the
  connection for its end: the layer asks to bail exactly when the datagram is shorter than a nonce and
  an authentication code, or when its verification fails.  Nothing else of the layer changes.
\<close>

theorem Decrypt_verdict:
  assumes lib: "sodium_laws lib" and e: "\<not> Sodium_GetNeedsToBail c"
    and sz: "length datagram \<le> max_stream" "24 \<le> length (datagram @ rest)"
    and w: "BinaryStream_wrap (Some (map Some (datagram @ rest))) (length datagram) READONLY = Inr s"
  shows "\<exists>q s' c'. Sodium_Decrypt lib s c = Inr (q, s', c') \<and>
    (Sodium_GetNeedsToBail c' \<longleftrightarrow> length datagram < 40 \<or>
      crypto_secretbox_open_easy lib (drop 24 datagram) (take 24 datagram) (m_key_rx c) = None) \<and>
    c' = c\<lparr>m_error := Sodium_GetNeedsToBail c'\<rparr>"
proof (cases "length datagram < 40")
  case True
  have s: "m_position s = 0" "m_subBytePosition s = 0" "m_length s = length datagram"
    "GetBuffer s = Some (map Some (datagram @ rest))"
    using w by (auto simp: BinaryStream_wrap_def GetBuffer_def)
  have seek: "SeekToBegin s = s" using s(1) by (cases s) (simp add: SeekToBegin_def Seek_def)
  have al: "Align s = s" using s(2) by (cases s) (simp add: Align_def)
  have eof: "\<not> IsEOF 24 s" by (subst IsEOF_iff) (use s sz in \<open>auto simp: max_stream_def\<close>)
  have "load_bytes (GetBuffer s) 0 24 = Inr (take 24 (datagram @ rest))"
    unfolding s(4) load_bytes_Inr using sz(2) by (simp add: take_map)
  then have rd: "ReadBytes 24 s = Inr (Some (take 24 (datagram @ rest)), s\<lparr>m_position := 24\<rparr>)"
    unfolding ReadBytes_def Let_def al using eof s(1) by simp
  have "next_capacity (length datagram) \<ge> length datagram"
    using True by (intro next_capacity_ge) simp
  moreover have "memcpy_cells (Some (map Some (datagram @ rest))) (length datagram) =
      Inr (map Some datagram)"
    by (auto simp: memcpy_cells_def)
  ultimately obtain r where "BinaryStream_copy (s\<lparr>m_position := 24\<rparr>) = Inr r"
    unfolding BinaryStream_copy_def using s(3,4)
    by (cases "next_capacity (length datagram) = 0") (auto simp: BinaryStream_wrap_def Let_def)
  then have "Sodium_Decrypt lib s c = Inr (r, s\<lparr>m_position := 24\<rparr>, c\<lparr>m_error := True\<rparr>)"
    unfolding Sodium_Decrypt_def Let_def seek lens [OF lib] using s(1,3) rd True by simp
  then show ?thesis using True by (auto simp: Sodium_GetNeedsToBail_def)
next
  case False
  have r: "reading s 0 (take 24 datagram @ drop 24 datagram)"
    using reading_wrap [of datagram "map Some rest" s] w sz by (simp add: max_stream_def)
  have pos: "m_position s = 0" using w by (auto simp: BinaryStream_wrap_def)
  have l: "length (take 24 datagram) = 24" "16 \<le> length (drop 24 datagram)"
    "length (drop 24 datagram) \<le> max_stream"
    using False sz(1) by simp_all
  obtain p where dec: "\<exists>s'. stream_ok p \<and> m_subBytePosition p = 0 \<and> m_length p = length (drop 24 datagram) - 16 \<and>
    Sodium_Decrypt lib s c =
      (case crypto_secretbox_open_easy lib (drop 24 datagram) (take 24 datagram) (m_key_rx c) of
         None \<Rightarrow> Inr (p, s', c\<lparr>m_error := True\<rparr>)
       | Some message \<Rightarrow> rbind (store_cells 0 (map Some message) p) (\<lambda>p. Inr (p, s', c)))"
    using Decrypt_eq [OF lib r pos l, of c] by blast
  show ?thesis
  proof (cases "crypto_secretbox_open_easy lib (drop 24 datagram) (take 24 datagram) (m_key_rx c)")
    case None
    then show ?thesis using dec by (auto simp: Sodium_GetNeedsToBail_def)
  next
    case (Some message)
    have "length message \<le> m_length p" using open_easy_length [OF lib Some] dec by auto
    then obtain p' where "store_cells 0 (map Some message) p = Inr p'"
      using store_ok [of p 0 message] dec by auto
    moreover have "c = c\<lparr>m_error := False\<rparr>" using e by (cases c) (simp add: Sodium_GetNeedsToBail_def)
    ultimately show ?thesis using dec Some False e by (auto simp: Sodium_GetNeedsToBail_def)
  qed
qed

definition example_layer :: EncryptionLayerSodium where
  "example_layer = \<lparr>m_identity = None, m_kx = None, m_remote_identity_pk = zero_bytes 32,
     m_issued_challenge = zero_bytes 64, m_key_rx = replicate 32 5, m_key_tx = replicate 32 6,
     m_error = False, m_established = True, m_remoteIdentityKnown = False,
     m_remoteAuthExpected = False\<rparr>"

theorem Decrypt_verdict_witness:
  "(\<exists>s q s' c'. BinaryStream_wrap (Some (map Some ([1, 2, 3] @ replicate 30 0)))
      (length [1, 2, 3 :: u8]) READONLY = Inr s \<and>
    Sodium_Decrypt example_sodium s example_layer = Inr (q, s', c') \<and> Sodium_GetNeedsToBail c') \<and>
   (\<exists>s q s' c'. BinaryStream_wrap (Some (map Some (replicate 45 7 @ []))) (length (replicate 45 (7 :: u8)))
      READONLY = Inr s \<and>
    Sodium_Decrypt example_sodium s example_layer = Inr (q, s', c') \<and> \<not> Sodium_GetNeedsToBail c')"
proof (rule conjI, goal_cases)
  case 1
  obtain s where s: "BinaryStream_wrap (Some (map Some ([1, 2, 3] @ replicate 30 0)))
      (length [1, 2, 3 :: u8]) READONLY = Inr s"
    by (simp add: BinaryStream_wrap_def)
  show ?case using s Decrypt_verdict [OF example_sodium_laws _ _ _ s, of example_layer]
    by (auto simp: example_layer_def Sodium_GetNeedsToBail_def max_stream_def)
next
  case 2
  obtain s where s: "BinaryStream_wrap (Some (map Some (replicate 45 7 @ [])))
      (length (replicate 45 (7 :: u8))) READONLY = Inr s"
    by (simp add: BinaryStream_wrap_def)
  show ?case using s Decrypt_verdict [OF example_sodium_laws _ _ _ s, of example_layer]
    by (auto simp: example_layer_def Sodium_GetNeedsToBail_def max_stream_def example_sodium_def open_box_def)
qed

end
