(* ===== verification/Authenticator.thy ===== *)
theory Authenticator
  imports Encryption
begin

text \<open>
  Setting up the encryption of a connection: \<^verbatim>\<open>source/EncryptionAuthenticator.cpp\<close>.  The
  reference to the encryption layer is explicit: an operation takes the layer and returns it.
\<close>

section \<open>Operations\<close>

datatype AuthState = STATE_KEY_EXCHANGE | STATE_AUTHENTICATION | STATE_DONE

fun state_byte :: "AuthState \<Rightarrow> u8" where
  "state_byte STATE_KEY_EXCHANGE = 0"
| "state_byte STATE_AUTHENTICATION = 1"
| "state_byte STATE_DONE = 2"

record EncryptionAuthenticator =
  ea_origin :: ConnectionOrigin
  ea_state :: AuthState
  m_enableCryptoAfterReply :: bool

definition EncryptionAuthenticator_new :: "ConnectionOrigin \<Rightarrow> EncryptionAuthenticator" where
  "EncryptionAuthenticator_new origin =
     \<lparr>ea_origin = origin, ea_state = STATE_KEY_EXCHANGE, m_enableCryptoAfterReply = False\<rparr>"

text \<open>The key length of \<^verbatim>\<open>cfg::DefaultEncryption\<close>, the class of every layer of a build.\<close>

definition DefaultEncryption_GetKeyLength :: "EncryptionLayer \<Rightarrow> nat" where
  "DefaultEncryption_GetKeyLength e = (case e of
      LayerNull \<Rightarrow> Null_GetKeyLength | LayerSodium _ \<Rightarrow> Sodium_GetKeyLength)"

definition Auth_Begin ::
  "BinaryStream \<Rightarrow> EncryptionLayer \<Rightarrow> EncryptionAuthenticator \<Rightarrow>
   (BinaryStream \<times> EncryptionAuthenticator) result" where
  "Auth_Begin outstream crypto a =
     rbind (WriteByte (state_byte STATE_KEY_EXCHANGE) outstream) (\<lambda>outstream.
     rbind (Crypto_GetEphemeralPublicKey crypto) (\<lambda>pk.
     rbind (WriteBytes_stream pk outstream) (\<lambda>outstream.
     rbind (WriteBool (Crypto_GetNeedsChallenge crypto) outstream) (\<lambda>outstream.
     Inr (outstream, a\<lparr>ea_state := STATE_KEY_EXCHANGE\<rparr>)))))"

type_synonym auth_result =
  "(ConnectResult \<times> BinaryStream \<times> BinaryStream \<times> EncryptionLayer \<times> EncryptionAuthenticator) result"

definition Auth_HandleKeyExchange ::
  "sodium \<Rightarrow> bytes \<Rightarrow> bytes \<Rightarrow> BinaryStream \<Rightarrow> BinaryStream \<Rightarrow> EncryptionLayer \<Rightarrow>
   EncryptionAuthenticator \<Rightarrow> auth_result" where
  "Auth_HandleKeyExchange lib challenge rnd instream outstream crypto a =
     (let keylen = DefaultEncryption_GetKeyLength crypto
      in rbind (WriteZeroes keylen (BinaryStream_new keylen)) (\<lambda>remoteKey.
         let remoteKey = SeekToBegin remoteKey
         in rbind (if m_buffer remoteKey = None then Inr (None, instream) else ReadBytes keylen instream)
              (\<lambda>(r, instream).
            rbind (case r of None \<Rightarrow> Inr remoteKey
                   | Some bs \<Rightarrow> store_cells 0 (map Some bs) remoteKey) (\<lambda>remoteKey.
            rbind (Crypto_HandleKeyExchange lib (ea_origin a) remoteKey crypto) (\<lambda>(ok, remoteKey, crypto).
            if \<not> ok then Inr (CR_INCORRECT_REMOTE_IDENTITY, instream, outstream, crypto, a) else
            (case ea_origin a of
               SELF \<Rightarrow>
                 (let crypto = Crypto_SetCryptoEstablished crypto
                  in if Crypto_GetNeedsChallenge crypto
                     then rbind (WriteByte (state_byte STATE_AUTHENTICATION) outstream) (\<lambda>outstream.
                          rbind (Crypto_CreateChallenge lib challenge rnd outstream crypto)
                            (\<lambda>(outstream, crypto).
                          Inr (CR_IN_PROGRESS, instream, outstream, crypto,
                               a\<lparr>ea_state := STATE_AUTHENTICATION\<rparr>)))
                     else rbind (WriteByte (state_byte STATE_DONE) outstream) (\<lambda>outstream.
                          Inr (CR_OK, instream, outstream, crypto, a\<lparr>ea_state := STATE_DONE\<rparr>)))
             | REMOTE \<Rightarrow>
                 rbind (WriteByte (state_byte STATE_KEY_EXCHANGE) outstream) (\<lambda>outstream.
                 rbind (Crypto_GetEphemeralPublicKey crypto) (\<lambda>pk.
                 rbind (WriteBytes_stream pk outstream) (\<lambda>outstream.
                 rbind (ReadBool instream) (\<lambda>(b, instream).
                 Inr (CR_IN_PROGRESS, instream, outstream, crypto,
                      a\<lparr>m_enableCryptoAfterReply := True,
                        ea_state := (if b then STATE_AUTHENTICATION else STATE_DONE)\<rparr>)))))
             | INVALID \<Rightarrow> Inl AssertFailure))))))"

definition Auth_HandleAuth ::
  "sodium \<Rightarrow> BinaryStream \<Rightarrow> BinaryStream \<Rightarrow> EncryptionLayer \<Rightarrow> EncryptionAuthenticator \<Rightarrow> auth_result" where
  "Auth_HandleAuth lib instream outstream crypto a =
     (if ea_origin a = REMOTE
      then rbind (WriteByte (state_byte STATE_AUTHENTICATION) outstream) (\<lambda>outstream.
           rbind (Crypto_HandleChallengeIncoming lib instream outstream crypto)
             (\<lambda>(ok, instream, outstream).
           if \<not> ok then Inr (CR_INCOMPATIBLE_SECURITY, instream, outstream, crypto, a)
           else Inr (CR_IN_PROGRESS, instream, outstream, crypto, a\<lparr>ea_state := STATE_DONE\<rparr>)))
      else rbind (Crypto_HandleChallengeResponse instream crypto) (\<lambda>(result, instream).
           if \<not> result
           then Inr (CR_INCORRECT_REMOTE_IDENTITY, instream, Clear outstream, crypto, a)
           else rbind (WriteByte (state_byte STATE_DONE) outstream) (\<lambda>outstream.
                Inr (CR_OK, instream, outstream, crypto, a\<lparr>ea_state := STATE_DONE\<rparr>))))"

definition Auth_Handle ::
  "sodium \<Rightarrow> bytes \<Rightarrow> bytes \<Rightarrow> BinaryStream \<Rightarrow> BinaryStream \<Rightarrow> EncryptionLayer \<Rightarrow>
   EncryptionAuthenticator \<Rightarrow> auth_result" where
  "Auth_Handle lib challenge rnd instream outstream crypto a =
     rbind (ReadByte instream) (\<lambda>(b, instream).
     if b \<noteq> state_byte (ea_state a) then Inr (CR_IN_PROGRESS, instream, outstream, crypto, a) else
     (case ea_state a of
        STATE_KEY_EXCHANGE \<Rightarrow> Auth_HandleKeyExchange lib challenge rnd instream outstream crypto a
      | STATE_AUTHENTICATION \<Rightarrow> Auth_HandleAuth lib instream outstream crypto a
      | STATE_DONE \<Rightarrow>
          rassert (ea_origin a = REMOTE) (Inr (CR_OK, instream, outstream, crypto, a))))"

definition Auth_PostHandle ::
  "EncryptionLayer \<Rightarrow> EncryptionAuthenticator \<Rightarrow> EncryptionLayer \<times> EncryptionAuthenticator" where
  "Auth_PostHandle crypto a =
     (if \<not> m_enableCryptoAfterReply a then (crypto, a)
      else (Crypto_SetCryptoEstablished crypto, a\<lparr>m_enableCryptoAfterReply := False\<rparr>))"

section \<open>One message at a time\<close>

lemma WriteBytes_stream_written:
  assumes "reading pk 0 bs" "m_position pk = 0" "written s c []" "length c + length bs \<le> max_stream"
  shows "\<exists>s'. WriteBytes_stream pk s = Inr s' \<and> written s' (c @ bs) []"
proof -
  have "load_bytes (GetBuffer pk) 0 (m_length pk) = Inr bs"
    using assms(1,2) unfolding reading_def by (metis add_0)
  moreover have "\<not> m_readonly s" using assms(3) by (simp add: written_def stream_ok_def)
  ultimately show ?thesis using written_WriteBytes [OF assms(3), of bs] assms(4)
    by (simp add: WriteBytes_stream_def flushed_def)
qed

lemma put_byte:
  assumes "written s c []" "length c < max_stream"
  shows "\<exists>s'. WriteByte b s = Inr s' \<and> written s' (c @ [b]) []"
  using byte.put_written [OF _ assms(1), of b] assms(2) by simp

lemma get_byte:
  assumes "reading s 0 (b # c)"
  shows "\<exists>s'. ReadByte s = Inr (b, s') \<and> reading s' 0 c"
  using reading_ReadByte [OF assms, of b c] by simp

text \<open>A layer that was just built from the ephemeral key pair of \<open>rnd\<close>.\<close>

definition fresh_layer :: "sodium \<Rightarrow> bytes \<Rightarrow> EncryptionLayerSodium \<Rightarrow> bool" where
  "fresh_layer lib rnd c \<longleftrightarrow> m_kx c = Some (kx_of lib rnd) \<and> \<not> m_error c"

lemma ephemeral_key:
  assumes "sodium_laws lib" "fresh_layer lib rnd c"
  shows "\<exists>pk. Crypto_GetEphemeralPublicKey (LayerSodium c) = Inr pk \<and>
    reading pk 0 (key_public (kx_of lib rnd)) \<and> m_position pk = 0"
proof -
  have len: "length (key_public (kx_of lib rnd)) = 32"
    using kx_length [OF assms(1)] by (simp add: kx_of_def)
  then obtain pk where pk: "Sodium_GetEphemeralPublicKey c = Inr pk" "stream_ok pk"
    "contents pk = key_public (kx_of lib rnd)" "m_position pk = 0" "m_subBytePosition pk = 0"
    "m_length pk = 32"
    using GetEphemeralPublicKey_ok assms(2) by (auto simp: fresh_layer_def)
  have "reading pk 0 (key_public (kx_of lib rnd))"
    using reading_start [OF pk(2,4,5)] pk(3,6) by (simp add: max_stream_def)
  then show ?thesis using pk(1,4) by (simp add: Crypto_GetEphemeralPublicKey_def)
qed

lemma length_pk [simp]: "sodium_laws lib \<Longrightarrow> length (key_public (kx_of lib rnd)) = 32"
  using kx_length by (simp add: kx_of_def)

lemma Auth_Begin_written:
  assumes lib: "sodium_laws lib" and c: "fresh_layer lib rnd c"
    and w: "written out c0 []" and sz: "length c0 \<le> 1000"
  shows "\<exists>out'. Auth_Begin out (LayerSodium c) a = Inr (out', a\<lparr>ea_state := STATE_KEY_EXCHANGE\<rparr>) \<and>
    stream_ok out' \<and> contents out' = c0 @ 0 # key_public (kx_of lib rnd) @ [pack [m_remoteIdentityKnown c]]"
proof -
  let ?pk = "key_public (kx_of lib rnd)"
  obtain s1 where s1: "WriteByte 0 out = Inr s1" "written s1 (c0 @ [0]) []"
    using put_byte [OF w] sz by (auto simp: max_stream_def)
  obtain pk where pk: "Crypto_GetEphemeralPublicKey (LayerSodium c) = Inr pk" "reading pk 0 ?pk"
    "m_position pk = 0" using ephemeral_key [OF lib c] by blast
  obtain s2 where s2: "WriteBytes_stream pk s1 = Inr s2" "written s2 ((c0 @ [0]) @ ?pk) []"
    using WriteBytes_stream_written [OF pk(2,3) s1(2)] sz lib by (auto simp: max_stream_def)
  obtain s3 where s3: "WriteBool (m_remoteIdentityKnown c) s2 = Inr s3"
    "written s3 ((c0 @ [0]) @ ?pk) [m_remoteIdentityKnown c]"
    using written_WriteBool [OF s2(2)] sz lib by (force simp: max_stream_def)
  have "Crypto_GetNeedsChallenge (LayerSodium c) = m_remoteIdentityKnown c"
    by (simp add: Crypto_GetNeedsChallenge_def Sodium_GetNeedsChallenge_def)
  then have "Auth_Begin out (LayerSodium c) a = Inr (s3, a\<lparr>ea_state := STATE_KEY_EXCHANGE\<rparr>)"
    unfolding Auth_Begin_def using s1(1) pk(1) s2(1) s3(1) by simp
  then show ?thesis using s3(2) by (simp add: written_def flushed_def)
qed

text \<open>The buffer the remote public key is copied to.\<close>

lemma remote_key_buffer:
  assumes "length pk = 32" "reading s 0 (pk @ rest)"
  shows "\<exists>b m s' k. WriteZeroes 32 (BinaryStream_new 32) = Inr b \<and> m_buffer (SeekToBegin b) = Some m \<and>
    ReadBytes 32 s = Inr (Some pk, s') \<and> reading s' 0 rest \<and>
    store_cells 0 (map Some pk) (SeekToBegin b) = Inr k \<and> reading k 0 (pk @ [])"
proof -
  obtain b where b: "PreallocateBuffer 32 = Inr b" "stream_ok b" "contents b = replicate 32 0"
    "m_position b = 0" "m_subBytePosition b = 0" "m_length b = 32"
    using PreallocateBuffer_ok [of 32] by (auto simp: max_stream_def)
  then obtain b0 where b0: "WriteZeroes 32 (BinaryStream_new 32) = Inr b0" "SeekToBegin b0 = b"
    by (auto simp: PreallocateBuffer_def)
  have "contents b \<noteq> []" using b(3) by simp
  then have ne: "\<exists>m. m_buffer b = Some m" by (auto simp: contents_def cells_def split: option.splits)
  obtain s' where s': "ReadBytes 32 s = Inr (Some pk, s')" "reading s' 0 rest"
    using reading_ReadBytes' [OF assms(2), of pk rest 32] assms(1) by auto
  obtain k where k: "store_cells 0 (map Some pk) b = Inr k" "stream_ok k"
    "contents k = overwrite 0 pk (contents b)" "m_position k = 0" "m_subBytePosition k = 0" "m_length k = 32"
    using store_ok [OF b(2,5), of 0 pk] b(4,6) assms(1) by auto
  have "contents k = pk" using k(3) b(3) assms(1) by (simp add: overwrite_def)
  then have "reading k 0 (pk @ [])" using reading_start [OF k(2,4,5)] k(6) by (simp add: max_stream_def)
  then show ?thesis using b0 ne s' k(1) by auto
qed

lemma key_length [simp]: "DefaultEncryption_GetKeyLength (LayerSodium c) = 32"
  by (simp add: DefaultEncryption_GetKeyLength_def Sodium_GetKeyLength_def KEY_LENGTH_def)

lemma Auth_server_kx:
  assumes lib: "sodium_laws lib" and c: "fresh_layer lib r2 c"
    and a: "ea_origin a = REMOTE" "ea_state a = STATE_KEY_EXCHANGE"
    and r: "reading s 0 (0 # key_public (kx_of lib r1) @ [pack [b]])"
    and w: "written out c0 []" and sz: "length c0 \<le> 1000"
    and k: "crypto_kx_server_session_keys lib (m_key_rx c) (m_key_tx c) (key_public (kx_of lib r2))
      (key_secret (kx_of lib r2)) (key_public (kx_of lib r1)) = (True, rx, tx)"
  shows "\<exists>s' out'. Auth_Handle lib ch q s out (LayerSodium c) a =
      Inr (CR_IN_PROGRESS, s', out', LayerSodium (c\<lparr>m_key_rx := rx, m_key_tx := tx\<rparr>),
        a\<lparr>m_enableCryptoAfterReply := True,
          ea_state := (if b then STATE_AUTHENTICATION else STATE_DONE)\<rparr>) \<and>
    written out' (c0 @ 0 # key_public (kx_of lib r2)) []"
proof -
  let ?pk = "key_public (kx_of lib r1)"
  let ?c = "c\<lparr>m_key_rx := rx, m_key_tx := tx\<rparr>"
  obtain s1 where s1: "ReadByte s = Inr (0, s1)" "reading s1 0 (?pk @ [pack [b]])"
    using get_byte [OF r] by auto
  obtain z m s2 kb where kb: "WriteZeroes 32 (BinaryStream_new 32) = Inr z" "m_buffer (SeekToBegin z) = Some m"
    "ReadBytes 32 s1 = Inr (Some ?pk, s2)" "reading s2 0 [pack [b]]"
    "store_cells 0 (map Some ?pk) (SeekToBegin z) = Inr kb" "reading kb 0 (?pk @ [])"
    using remote_key_buffer [OF length_pk [OF lib] s1(2)] by blast
  obtain kb' where kx: "Sodium_HandleKeyExchange lib REMOTE kb c = Inr (True, kb', ?c)"
    using HandleKeyExchange_REMOTE [OF _ kb(6) length_pk [OF lib] _ k] c by (auto simp: fresh_layer_def)
  have c': "fresh_layer lib r2 ?c" using c by (simp add: fresh_layer_def)
  obtain o1 where o1: "WriteByte 0 out = Inr o1" "written o1 (c0 @ [0]) []"
    using put_byte [OF w] sz by (auto simp: max_stream_def)
  obtain pk where pk: "Crypto_GetEphemeralPublicKey (LayerSodium ?c) = Inr pk"
    "reading pk 0 (key_public (kx_of lib r2))" "m_position pk = 0" using ephemeral_key [OF lib c'] by blast
  obtain o2 where o2: "WriteBytes_stream pk o1 = Inr o2"
    "written o2 ((c0 @ [0]) @ key_public (kx_of lib r2)) []"
    using WriteBytes_stream_written [OF pk(2,3) o1(2)] sz lib by (auto simp: max_stream_def)
  obtain s3 where s3: "ReadBool s2 = Inr (b, s3)" using get_flag [of s2 0 "[b]" "[]"] kb(4) by auto
  show ?thesis
    unfolding Auth_Handle_def Auth_HandleKeyExchange_def Let_def Crypto_HandleKeyExchange_def
    using a s1(1) kb(1,2,3,5) kx o1(1) pk(1) o2 s3 by simp
qed

lemma Auth_client_kx:
  assumes lib: "sodium_laws lib" and c: "fresh_layer lib r1 c"
    and a: "ea_origin a = SELF" "ea_state a = STATE_KEY_EXCHANGE"
    and r: "reading s 0 (0 # key_public (kx_of lib r2))"
    and w: "written out c0 []" and sz: "length c0 \<le> 1000"
    and k: "crypto_kx_client_session_keys lib (m_key_rx c) (m_key_tx c) (key_public (kx_of lib r1))
      (key_secret (kx_of lib r1)) (key_public (kx_of lib r2)) = (True, rx, tx)"
    and c': "c' = c\<lparr>m_key_rx := rx, m_key_tx := tx, m_established := True\<rparr>"
    and seal: "m_remoteIdentityKnown c \<Longrightarrow>
      length (crypto_box_seal lib q ch (m_remote_identity_pk c)) \<le> 200"
  shows "\<exists>s' out'. Auth_Handle lib ch q s out (LayerSodium c) a =
    (if m_remoteIdentityKnown c
     then Inr (CR_IN_PROGRESS, s', out',
       LayerSodium (c'\<lparr>m_remoteAuthExpected := True, m_issued_challenge := ch\<rparr>),
       a\<lparr>ea_state := STATE_AUTHENTICATION\<rparr>)
     else Inr (CR_OK, s', out', LayerSodium c', a\<lparr>ea_state := STATE_DONE\<rparr>)) \<and>
    written out' (c0 @ (if m_remoteIdentityKnown c
      then 1 # crypto_box_seal lib q ch (m_remote_identity_pk c) else [2])) []"
proof -
  let ?pk = "key_public (kx_of lib r2)"
  obtain s1 where s1: "ReadByte s = Inr (0, s1)" "reading s1 0 (?pk @ [])"
    using get_byte [OF r] by auto
  obtain z m s2 kb where kb: "WriteZeroes 32 (BinaryStream_new 32) = Inr z" "m_buffer (SeekToBegin z) = Some m"
    "ReadBytes 32 s1 = Inr (Some ?pk, s2)"
    "store_cells 0 (map Some ?pk) (SeekToBegin z) = Inr kb" "reading kb 0 (?pk @ [])"
    using remote_key_buffer [OF length_pk [OF lib] s1(2)] by blast
  obtain kb' where kx: "Sodium_HandleKeyExchange lib SELF kb c =
      Inr (True, kb', c\<lparr>m_key_rx := rx, m_key_tx := tx\<rparr>)"
    using HandleKeyExchange_SELF [OF _ kb(5) length_pk [OF lib] _ k] c by (auto simp: fresh_layer_def)
  have est: "Crypto_SetCryptoEstablished (LayerSodium (c\<lparr>m_key_rx := rx, m_key_tx := tx\<rparr>)) = LayerSodium c'"
    by (simp add: Crypto_SetCryptoEstablished_def Sodium_SetCryptoEstablished_def c')
  have needs: "Crypto_GetNeedsChallenge (LayerSodium c') = m_remoteIdentityKnown c"
    by (simp add: Crypto_GetNeedsChallenge_def Sodium_GetNeedsChallenge_def c')
  note unf = Auth_Handle_def Auth_HandleKeyExchange_def Let_def Crypto_HandleKeyExchange_def
  show ?thesis
  proof (cases "m_remoteIdentityKnown c")
    case True
    let ?seal = "crypto_box_seal lib q ch (m_remote_identity_pk c)"
    obtain o1 where o1: "WriteByte 1 out = Inr o1" "written o1 (c0 @ [1]) []"
      using put_byte [OF w] sz by (auto simp: max_stream_def)
    obtain o2 where o2: "WriteBytes ?seal o1 = Inr o2" "written o2 ((c0 @ [1]) @ ?seal) []"
      using written_WriteBytes [OF o1(2), of ?seal] seal [OF True] sz by (auto simp: flushed_def max_stream_def)
    then have "Crypto_CreateChallenge lib ch q o1 (LayerSodium c') =
        Inr (o2, LayerSodium (c'\<lparr>m_remoteAuthExpected := True, m_issued_challenge := ch\<rparr>))"
      by (simp add: Crypto_CreateChallenge_def Sodium_CreateChallenge_def Let_def c')
    then show ?thesis unfolding unf using a s1(1) kb(1,2,3,4) kx o1(1) o2(2) True est needs by simp
  next
    case False
    obtain o1 where o1: "WriteByte 2 out = Inr o1" "written o1 (c0 @ [2]) []"
      using put_byte [OF w] sz by (auto simp: max_stream_def)
    then show ?thesis unfolding unf using a s1(1) kb(1,2,3,4) kx False est needs by simp
  qed
qed

lemma seal_laws:
  assumes "sodium_laws lib"
  shows "length (crypto_box_seal lib q m (fst (crypto_box_keypair lib r))) = length m + 48"
    "crypto_box_seal_open lib (crypto_box_seal lib q m (fst (crypto_box_keypair lib r)))
      (fst (crypto_box_keypair lib r)) (snd (crypto_box_keypair lib r)) = Some m"
  using assms unfolding sodium_laws_def by blast+

definition identity_of :: "sodium \<Rightarrow> bytes \<Rightarrow> Keypair" where
  "identity_of lib rnd =
     \<lparr>key_public = fst (crypto_box_keypair lib rnd), key_secret = snd (crypto_box_keypair lib rnd)\<rparr>"

lemma Auth_server_auth:
  assumes lib: "sodium_laws lib" and i: "m_identity c = Some (identity_of lib ri)"
    and a: "ea_origin a = REMOTE" "ea_state a = STATE_AUTHENTICATION"
    and ch: "length ch = 64"
    and r: "reading s 0 (1 # crypto_box_seal lib q ch (key_public (identity_of lib ri)))"
    and w: "written out c0 []" and sz: "length c0 \<le> 1000"
  shows "\<exists>s' out'. Auth_Handle lib ch' q' s out (LayerSodium c) a =
      Inr (CR_IN_PROGRESS, s', out', LayerSodium c, a\<lparr>ea_state := STATE_DONE\<rparr>) \<and>
    written out' (c0 @ 1 # ch) []"
proof -
  let ?seal = "crypto_box_seal lib q ch (key_public (identity_of lib ri))"
  obtain s1 where s1: "ReadByte s = Inr (1, s1)" "reading s1 0 (?seal @ [])" using get_byte [OF r] by auto
  have len: "length ?seal = 112" using seal_laws(1) [OF lib] ch by (simp add: identity_of_def)
  obtain s2 where s2: "ReadBuffer 112 s1 = Inr (?seal, s2)"
    using ReadBuffer_reading [OF s1(2), of ?seal "[]" 112] len by auto
  have open': "crypto_box_seal_open lib ?seal (key_public (identity_of lib ri)) (key_secret (identity_of lib ri))
      = Some ch" using seal_laws(2) [OF lib] by (simp add: identity_of_def)
  obtain o1 where o1: "WriteByte 1 out = Inr o1" "written o1 (c0 @ [1]) []"
    using put_byte [OF w] sz by (auto simp: max_stream_def)
  obtain o2 where o2: "WriteBytes ch o1 = Inr o2" "written o2 ((c0 @ [1]) @ ch) []"
    using written_WriteBytes [OF o1(2), of ch] ch sz by (auto simp: flushed_def max_stream_def)
  show ?thesis
    unfolding Auth_Handle_def Auth_HandleAuth_def Crypto_HandleChallengeIncoming_def
      Sodium_HandleChallengeIncoming_def CHALLENGE_LENGTH_def
    using a s1(1) o1(1) s2 i open' o2 lib by simp
qed

lemma Auth_client_auth:
  assumes a: "ea_origin a = SELF" "ea_state a = STATE_AUTHENTICATION"
    and r: "reading s 0 (1 # response @ rest)" "length response = 64"
    and w: "written out c0 []" and sz: "length c0 \<le> 1000"
  shows "\<exists>s' out'. Auth_Handle lib ch q s out (LayerSodium c) a =
      (if response = m_issued_challenge c
       then Inr (CR_OK, s', out', LayerSodium c, a\<lparr>ea_state := STATE_DONE\<rparr>)
       else Inr (CR_INCORRECT_REMOTE_IDENTITY, s', out', LayerSodium c, a)) \<and>
    (if response = m_issued_challenge c then written out' (c0 @ [2]) [] else m_length out' = 0)"
proof -
  obtain s1 where s1: "ReadByte s = Inr (1, s1)" "reading s1 0 (response @ rest)" using get_byte [OF r(1)] by auto
  obtain s2 where s2: "ReadBuffer 64 s1 = Inr (response, s2)"
    using ReadBuffer_reading [OF s1(2), of response rest 64] r(2) by auto
  obtain o1 where o1: "WriteByte 2 out = Inr o1" "written o1 (c0 @ [2]) []"
    using put_byte [OF w] sz by (auto simp: max_stream_def)
  have "m_length (Clear out) = 0" using w by (simp add: Clear_def written_def stream_ok_def)
  then show ?thesis
    unfolding Auth_Handle_def Auth_HandleAuth_def Crypto_HandleChallengeResponse_def
      Sodium_HandleChallengeResponse_def CHALLENGE_LENGTH_def
    using a s1(1) o1 s2 by simp
qed

lemma Auth_server_done:
  assumes a: "ea_origin a = REMOTE" "ea_state a = STATE_DONE" and r: "reading s 0 (2 # rest)"
  shows "\<exists>s'. Auth_Handle lib ch q s out e a = Inr (CR_OK, s', out, e, a)"
  unfolding Auth_Handle_def using a get_byte [OF r] by auto

section \<open>The whole exchange\<close>

text \<open>
  What arrives at the other end, and the exchange of messages between two authenticators, each message
  in a stream of its own.  The result is the verdict of the client and of the server and the two layers.
\<close>

definition relay :: "BinaryStream \<Rightarrow> BinaryStream result" where
  "relay s = BinaryStream_wrap (GetBuffer s) (m_length s) READONLY"

text \<open>The messages after the exchange of keys.\<close>

definition auth_finish ::
  "sodium \<Rightarrow> bytes \<Rightarrow> bytes \<Rightarrow> ConnectResult \<Rightarrow> BinaryStream \<Rightarrow> EncryptionLayer \<Rightarrow> EncryptionAuthenticator \<Rightarrow>
   EncryptionLayer \<Rightarrow> EncryptionAuthenticator \<Rightarrow> (ConnectResult \<times> ConnectResult \<times> EncryptionLayer \<times> EncryptionLayer) result" where
  "auth_finish lib ch q rc m3 client ca server sa =
     (let out = BinaryStream_new 17 in
      rbind (relay m3) (\<lambda>m3.
      rbind (Auth_Handle lib ch q m3 out server sa) (\<lambda>(rs, i, m4, server, sa).
      if rc = CR_OK then Inr (rc, rs, client, server) else
      rbind (relay m4) (\<lambda>m4.
      rbind (Auth_Handle lib ch q m4 out client ca) (\<lambda>(rc, i, m5, client, ca).
      rbind (relay m5) (\<lambda>m5.
      rbind (Auth_Handle lib ch q m5 out server sa) (\<lambda>(rs, i, m6, server, sa).
      Inr (rc, rs, client, server))))))))"

definition auth_exchange ::
  "sodium \<Rightarrow> bytes \<Rightarrow> bytes \<Rightarrow> EncryptionLayer \<Rightarrow> EncryptionLayer \<Rightarrow>
   (ConnectResult \<times> ConnectResult \<times> EncryptionLayer \<times> EncryptionLayer) result" where
  "auth_exchange lib ch q client server =
     (let out = BinaryStream_new 17 in
      rbind (Auth_Begin out client (EncryptionAuthenticator_new SELF)) (\<lambda>(m1, ca).
      rbind (relay m1) (\<lambda>m1.
      rbind (Auth_Handle lib ch q m1 out server (EncryptionAuthenticator_new REMOTE))
        (\<lambda>(r, i, m2, server, sa).
      let (server, sa) = Auth_PostHandle server sa in
      rbind (relay m2) (\<lambda>m2.
      rbind (Auth_Handle lib ch q m2 out client ca) (\<lambda>(rc, i, m3, client, ca).
      let (client, ca) = Auth_PostHandle client ca in
      auth_finish lib ch q rc m3 client ca server sa))))))"

lemma relay_ok:
  assumes "stream_ok s" "m_length s < 2 ^ 64"
  shows "\<exists>r. relay s = Inr r \<and> reading r 0 (contents s)"
proof -
  obtain r where "relay s = Inr r" by (simp add: relay_def BinaryStream_wrap_def)
  then show ?thesis using reading_wrap_own [OF assms, of r] by (simp add: relay_def)
qed

lemma relay_written:
  assumes "written s c []" "length c < 2 ^ 64"
  shows "\<exists>r. relay s = Inr r \<and> reading r 0 c"
  using relay_ok [of s] assms m_length_written [OF assms(1)] by (auto simp: written_def flushed_def)

lemma PostHandle_simps [simp]:
  "m_enableCryptoAfterReply a \<Longrightarrow> Auth_PostHandle (LayerSodium c) a =
     (LayerSodium (c\<lparr>m_established := True\<rparr>), a\<lparr>m_enableCryptoAfterReply := False\<rparr>)"
  "\<not> m_enableCryptoAfterReply a \<Longrightarrow> Auth_PostHandle e a = (e, a)"
  by (simp_all add: Auth_PostHandle_def Crypto_SetCryptoEstablished_def Sodium_SetCryptoEstablished_def)

lemma CR_neq [simp]: "CR_IN_PROGRESS \<noteq> CR_OK" "CR_OK \<noteq> CR_IN_PROGRESS"
  by (simp_all add: config_defs)

lemma auth_finish_plain:
  assumes "ea_origin sa = REMOTE" "ea_state sa = STATE_DONE" "written m3 [2] []"
  shows "auth_finish lib ch q CR_OK m3 client ca server sa = Inr (CR_OK, CR_OK, client, server)"
proof -
  obtain i3 where i3: "relay m3 = Inr i3" "reading i3 0 [2]" using relay_written [OF assms(3)] by auto
  show ?thesis using i3 Auth_server_done [OF assms(1,2), of i3 "[]" lib ch q "BinaryStream_new 17" server] by (auto simp: auth_finish_def)
qed

lemma auth_finish_challenge:
  assumes lib: "sodium_laws lib" and ch: "length ch = 64" and i: "m_identity sv = Some (identity_of lib ri)"
    and sa: "ea_origin sa = REMOTE" "ea_state sa = STATE_AUTHENTICATION" and ca: "ea_origin ca = SELF" "ea_state ca = STATE_AUTHENTICATION"
    and m3: "written m3 (1 # crypto_box_seal lib q ch (key_public (identity_of lib ri))) []" and cl: "m_issued_challenge cl = ch"
  shows "auth_finish lib ch q CR_IN_PROGRESS m3 (LayerSodium cl) ca (LayerSodium sv) sa = Inr (CR_OK, CR_OK, LayerSodium cl, LayerSodium sv)"
proof -
  let ?out = "BinaryStream_new 17" and ?sa = "sa\<lparr>ea_state := STATE_DONE\<rparr>"
  note w0 = written_new [of 17]
  have seal: "length (crypto_box_seal lib q ch (key_public (identity_of lib ri))) = 112" using seal_laws(1) [OF lib] ch by (simp add: identity_of_def)
  obtain i3 where i3: "relay m3 = Inr i3" "reading i3 0 (1 # crypto_box_seal lib q ch (key_public (identity_of lib ri)))"
    using relay_written [OF m3] seal by auto
  obtain i3' m4 where m4: "Auth_Handle lib ch q i3 ?out (LayerSodium sv) sa = Inr (CR_IN_PROGRESS, i3', m4, LayerSodium sv, ?sa)" "written m4 (1 # ch) []"
    using Auth_server_auth [OF lib i sa ch i3(2) w0, of ch q] by auto
  obtain i4 where i4: "relay m4 = Inr i4" "reading i4 0 (1 # ch @ [])" using relay_written [OF m4(2)] ch by auto
  obtain i4' m5 where m5: "Auth_Handle lib ch q i4 ?out (LayerSodium cl) ca =
      Inr (CR_OK, i4', m5, LayerSodium cl, ca\<lparr>ea_state := STATE_DONE\<rparr>)" "written m5 [2] []"
    using Auth_client_auth [OF ca i4(2) ch w0, of lib ch q cl] cl by auto
  obtain i5 where i5: "relay m5 = Inr i5" "reading i5 0 [2]" using relay_written [OF m5(2)] by auto
  obtain i5' where "Auth_Handle lib ch q i5 ?out (LayerSodium sv) ?sa = Inr (CR_OK, i5', ?out, LayerSodium sv, ?sa)"
    using Auth_server_done [of ?sa i5 "[]" lib ch q ?out "LayerSodium sv"] i5(2) sa by auto
  then show ?thesis unfolding auth_finish_def Let_def using i3(1) m4(1) i4(1) m5(1) i5(1) by simp
qed

text \<open>The exchange of keys, up to the message with which the client goes on.\<close>

lemma auth_keys_exchanged:
  assumes lib: "sodium_laws lib" and cl: "fresh_layer lib r1 cl" and sv: "fresh_layer lib r2 sv"
    and keys: "crypto_kx_client_session_keys lib (m_key_rx cl) (m_key_tx cl) (key_public (kx_of lib r1))
        (key_secret (kx_of lib r1)) (key_public (kx_of lib r2)) = (True, k1, k2)"
      "crypto_kx_server_session_keys lib (m_key_rx sv) (m_key_tx sv) (key_public (kx_of lib r2))
        (key_secret (kx_of lib r2)) (key_public (kx_of lib r1)) = (True, k2, k1)"
    and seal: "m_remoteIdentityKnown cl \<Longrightarrow> length (crypto_box_seal lib q ch (m_remote_identity_pk cl)) \<le> 200"
    and sv': "sv' = sv\<lparr>m_key_rx := k2, m_key_tx := k1, m_established := True\<rparr>"
    and cl': "cl' = cl\<lparr>m_key_rx := k1, m_key_tx := k2, m_established := True\<rparr>"
  shows "\<exists>m3. auth_exchange lib ch q (LayerSodium cl) (LayerSodium sv) =
    (if m_remoteIdentityKnown cl
     then auth_finish lib ch q CR_IN_PROGRESS m3 (LayerSodium (cl'\<lparr>m_remoteAuthExpected := True, m_issued_challenge := ch\<rparr>))
       (EncryptionAuthenticator_new SELF\<lparr>ea_state := STATE_AUTHENTICATION\<rparr>) (LayerSodium sv') (EncryptionAuthenticator_new REMOTE\<lparr>ea_state := STATE_AUTHENTICATION\<rparr>)
     else auth_finish lib ch q CR_OK m3 (LayerSodium cl') (EncryptionAuthenticator_new SELF\<lparr>ea_state := STATE_DONE\<rparr>)
       (LayerSodium sv') (EncryptionAuthenticator_new REMOTE\<lparr>ea_state := STATE_DONE\<rparr>)) \<and>
    written m3 (if m_remoteIdentityKnown cl then 1 # crypto_box_seal lib q ch (m_remote_identity_pk cl) else [2]) []"
proof -
  let ?pk = "\<lambda>r. key_public (kx_of lib r)" and ?needs = "m_remoteIdentityKnown cl" and ?out = "BinaryStream_new 17"
  let ?ca = "EncryptionAuthenticator_new SELF" and ?sa = "EncryptionAuthenticator_new REMOTE"
  note w0 = written_new [of 17]
  have new [simp]: "ea_origin ?ca = SELF" "ea_state ?ca = STATE_KEY_EXCHANGE" "ea_origin ?sa = REMOTE"
    "ea_state ?sa = STATE_KEY_EXCHANGE" "\<not> m_enableCryptoAfterReply ?ca" "\<not> m_enableCryptoAfterReply ?sa"
    "?ca\<lparr>ea_state := STATE_KEY_EXCHANGE\<rparr> = ?ca" "?sa\<lparr>m_enableCryptoAfterReply := False\<rparr> = ?sa"
    by (simp_all add: EncryptionAuthenticator_new_def)
  obtain m1 where m1: "Auth_Begin ?out (LayerSodium cl) ?ca = Inr (m1, ?ca)" "stream_ok m1" "contents m1 = 0 # ?pk r1 @ [pack [?needs]]"
    using Auth_Begin_written [OF lib cl w0, of ?ca] by auto
  have "m_length m1 < 2 ^ 64" using length_contents [OF m1(2)] m1(3) lib by simp
  then obtain i1 where i1: "relay m1 = Inr i1" "reading i1 0 (0 # ?pk r1 @ [pack [?needs]])" using relay_ok [OF m1(2)] m1(3) by auto
  obtain i1' m2 where m2: "Auth_Handle lib ch q i1 ?out (LayerSodium sv) ?sa = Inr (CR_IN_PROGRESS, i1', m2, LayerSodium (sv\<lparr>m_key_rx := k2, m_key_tx := k1\<rparr>),
      ?sa\<lparr>m_enableCryptoAfterReply := True, ea_state := (if ?needs then STATE_AUTHENTICATION else STATE_DONE)\<rparr>)" "written m2 (0 # ?pk r2) []"
    using Auth_server_kx [OF lib sv new(3,4) i1(2) w0 _ keys(2), of ch q] by auto
  obtain i2 where i2: "relay m2 = Inr i2" "reading i2 0 (0 # ?pk r2)" using relay_written [OF m2(2)] lib by auto
  obtain i2' m3 where m3: "Auth_Handle lib ch q i2 ?out (LayerSodium cl) ?ca =
    (if ?needs then Inr (CR_IN_PROGRESS, i2', m3, LayerSodium (cl'\<lparr>m_remoteAuthExpected := True, m_issued_challenge := ch\<rparr>), ?ca\<lparr>ea_state := STATE_AUTHENTICATION\<rparr>)
     else Inr (CR_OK, i2', m3, LayerSodium cl', ?ca\<lparr>ea_state := STATE_DONE\<rparr>))"
    "written m3 (if ?needs then 1 # crypto_box_seal lib q ch (m_remote_identity_pk cl) else [2]) []"
    using Auth_client_kx [OF lib cl new(1,2) i2(2) w0 _ keys(1) cl', of q ch] seal by auto
  have sa: "?sa\<lparr>ea_state := x, m_enableCryptoAfterReply := False\<rparr> = ?sa\<lparr>ea_state := x\<rparr>" for x by (simp add: EncryptionAuthenticator_new_def)
  show ?thesis using m3(2) m1(1) i1(1) m2(1) i2(1) m3(1)
    by (intro exI [of _ m3]) (simp add: auth_exchange_def Let_def sv' sa)
qed

text \<open>
  C13.  The encryption set-up between a client and a server with the identity the client expects, or
  that expects none, succeeds: both ends report success, have encryption established, and can decrypt
  what the other sends.
\<close>

theorem auth_exchange_succeeds:
  assumes lib: "sodium_laws lib" and ch: "length ch = 64"
    and cl: "fresh_layer lib r1 cl" and sv: "fresh_layer lib r2 sv"
    and i: "m_identity sv = Some (identity_of lib ri)"
    and k: "m_remoteIdentityKnown cl \<longrightarrow> m_remote_identity_pk cl = key_public (identity_of lib ri)"
  shows "\<exists>cl' sv'. auth_exchange lib ch q (LayerSodium cl) (LayerSodium sv) =
      Inr (CR_OK, CR_OK, LayerSodium cl', LayerSodium sv') \<and>
    Sodium_GetCryptoEstablished cl' \<and> Sodium_GetCryptoEstablished sv' \<and>
    delivers lib cl' sv' \<and> delivers lib sv' cl'"
proof -
  let ?pk = "\<lambda>r. key_public (kx_of lib r)"
  obtain k1 k2 where keys: "length k1 = 32" "length k2 = 32"
    "crypto_kx_client_session_keys lib (m_key_rx cl) (m_key_tx cl) (?pk r1) (key_secret (kx_of lib r1)) (?pk r2) = (True, k1, k2)"
    "crypto_kx_server_session_keys lib (m_key_rx sv) (m_key_tx sv) (?pk r2) (key_secret (kx_of lib r2)) (?pk r1) = (True, k2, k1)"
    using kx_laws [OF lib] unfolding kx_of_def Keypair.simps by blast
  define sv' where "sv' = sv\<lparr>m_key_rx := k2, m_key_tx := k1, m_established := True\<rparr>"
  define cl' where "cl' = cl\<lparr>m_key_rx := k1, m_key_tx := k2, m_established := True\<rparr>"
  define cl2 where "cl2 = (if m_remoteIdentityKnown cl then cl'\<lparr>m_remoteAuthExpected := True, m_issued_challenge := ch\<rparr> else cl')"
  have "m_remoteIdentityKnown cl \<Longrightarrow> length (crypto_box_seal lib q ch (m_remote_identity_pk cl)) \<le> 200"
    using seal_laws(1) [OF lib] k ch by (simp add: identity_of_def)
  from auth_keys_exchanged [OF lib cl sv keys(3,4) this sv'_def cl'_def] have "auth_exchange lib ch q (LayerSodium cl) (LayerSodium sv) =
      Inr (CR_OK, CR_OK, LayerSodium cl2, LayerSodium sv')"
    using auth_finish_plain auth_finish_challenge [OF lib ch, of sv' ri] i k
    by (auto simp: cl2_def sv'_def EncryptionAuthenticator_new_def)
  moreover have "delivers lib cl2 sv'" "delivers lib sv' cl2"
    using delivers_keys [OF lib] keys(1,2) by (simp_all add: cl2_def cl'_def sv'_def)
  moreover have "Sodium_GetCryptoEstablished cl2" "Sodium_GetCryptoEstablished sv'"
    by (simp_all add: Sodium_GetCryptoEstablished_def cl2_def cl'_def sv'_def)
  ultimately show ?thesis by blast
qed

definition example_client :: EncryptionLayerSodium where
  "example_client = example_layer\<lparr>m_kx := Some (kx_of example_sodium [1]), m_established := False,
     m_remoteIdentityKnown := True,
     m_remote_identity_pk := key_public (identity_of example_sodium [3])\<rparr>"

definition example_server :: EncryptionLayerSodium where
  "example_server = example_layer\<lparr>m_kx := Some (kx_of example_sodium [2]), m_established := False,
     m_identity := Some (identity_of example_sodium [3])\<rparr>"

theorem auth_exchange_succeeds_witness:
  "\<exists>cl' sv'. auth_exchange example_sodium (replicate 64 9) [4] (LayerSodium example_client)
      (LayerSodium example_server) = Inr (CR_OK, CR_OK, LayerSodium cl', LayerSodium sv') \<and>
    Sodium_GetCryptoEstablished cl' \<and> Sodium_GetCryptoEstablished sv' \<and>
    delivers example_sodium cl' sv' \<and> delivers example_sodium sv' cl'"
  by (rule auth_exchange_succeeds [OF example_sodium_laws, of _ "[1]" _ "[2]" _ "[3]"])
    (simp_all add: fresh_layer_def example_client_def example_server_def example_layer_def)

text \<open>
  C28.  A client that has issued a challenge reports success exactly when the reply is marked as an
  answer and repeats the challenge; on any other reply neither the authenticator nor the layer changes,
  and the connection fails when the reply is a wrong answer.
\<close>

theorem challenge_answer_checked:
  assumes a: "ea_origin a = SELF" "ea_state a = STATE_AUTHENTICATION"
    and r: "reading s 0 (mark # response @ rest)" "length response = 64"
    and out: "stream_ok out" "m_length out \<le> 1000" "m_subBytePosition out = 0"
  shows "\<exists>result s' out' a'. Auth_Handle lib ch q s out (LayerSodium c) a =
      Inr (result, s', out', LayerSodium c, a') \<and>
    (result = CR_OK \<longleftrightarrow> mark = 1 \<and> response = m_issued_challenge c) \<and>
    (result = CR_INCORRECT_REMOTE_IDENTITY \<longleftrightarrow> mark = 1 \<and> response \<noteq> m_issued_challenge c) \<and>
    (result \<noteq> CR_OK \<longrightarrow> a' = a)"
proof (cases "mark = 1")
  case False
  obtain s1 where "ReadByte s = Inr (mark, s1)" using get_byte [OF r(1)] by auto
  then show ?thesis unfolding Auth_Handle_def using a False by (simp add: config_defs)
next
  case True
  obtain s1 where s1: "ReadByte s = Inr (1, s1)" "reading s1 0 (response @ rest)"
    using get_byte [OF r(1)] True by auto
  obtain s2 where s2: "ReadBuffer 64 s1 = Inr (response, s2)"
    using ReadBuffer_reading [OF s1(2), of response rest 64] r(2) by auto
  obtain o1 where o1: "WriteByte 2 out = Inr o1"
    using WriteBytes_ok [OF out(1), of "[2]"] out
    by (auto simp: WriteByte_WriteBytes m_position_Align max_stream_def stream_ok_def)
  show ?thesis
    unfolding Auth_Handle_def Auth_HandleAuth_def Crypto_HandleChallengeResponse_def
      Sodium_HandleChallengeResponse_def CHALLENGE_LENGTH_def
    using a s1(1) o1 s2 True by (simp add: config_defs)
qed

theorem challenge_answer_checked_witness:
  "\<exists>s result s' out' a'.
    BinaryStream_wrap (Some (map Some (1 # replicate 64 7))) 65 READONLY = Inr s \<and>
    Auth_Handle example_sodium [] [] s (BinaryStream_new 17) (LayerSodium example_layer)
      (EncryptionAuthenticator_new SELF\<lparr>ea_state := STATE_AUTHENTICATION\<rparr>) =
      Inr (result, s', out', LayerSodium example_layer, a') \<and>
    result = CR_INCORRECT_REMOTE_IDENTITY"
proof -
  obtain s where s: "BinaryStream_wrap (Some (map Some (1 # replicate 64 7))) 65 READONLY = Inr s"
    by (simp add: BinaryStream_wrap_def)
  have r: "reading s 0 (1 # replicate 64 7 @ [])"
    using reading_wrap [of "1 # replicate 64 7" "[]" s] s by simp
  have out: "stream_ok (BinaryStream_new 17)" "m_length (BinaryStream_new 17) \<le> 1000"
    "m_subBytePosition (BinaryStream_new 17) = 0"
    using written_new [of 17] m_length_written [OF written_new, of 17] by (simp_all add: written_def)
  have "m_issued_challenge example_layer = replicate 64 0"
    by (simp add: example_layer_def zero_bytes_def)
  moreover have "replicate 64 (7 :: u8) \<noteq> replicate 64 0"
    by (simp only: replicate_eq_replicate) simp
  ultimately show ?thesis
    using s challenge_answer_checked [OF _ _ r _ out, of "EncryptionAuthenticator_new SELF\<lparr>ea_state := STATE_AUTHENTICATION\<rparr>"
      example_sodium "[]" "[]" example_layer]
    by (force simp: EncryptionAuthenticator_new_def)
qed

end
