(* ===== verification/Receipts.thy ===== *)
theory Receipts
  imports Config Ordered_Map
begin

text \<open>
  Delivery receipts: \<^verbatim>\<open>source/ReceiptTracker.cpp\<close>.  The notifications that the tracker
  posts to the peer are returned as a list of packet identifiers, each with the flag for delivered or
  lost, in the order in which they are posted.  The table of split packets is a list in the order of insertion; the code iterates
  over a hash map, whose order may be another one, but the segments of different packets are disjoint, so that an
  acknowledgement concerns at most one entry.
\<close>

section \<open>Operations\<close>

record ReceiptTracker =
  m_splits :: "(PacketID \<times> PacketID set) list"
  m_tracker :: "PacketID set"

type_synonym receipts = "(PacketID \<times> bool) list"

definition ReceiptTracker_new :: ReceiptTracker where
  "ReceiptTracker_new = \<lparr>m_splits = [], m_tracker = {}\<rparr>"

definition Track :: "PacketID \<Rightarrow> ReceiptTracker \<Rightarrow> ReceiptTracker" where
  "Track i t = t\<lparr>m_tracker := insert i (m_tracker t)\<rparr>"

text \<open>
  \<^verbatim>\<open>Acknowledge\<close> walks over the table while it erases entries and calls itself.  The loop is
  given the call to use for the containers and the keys the iterator has still to visit.  When an
  entry is erased, the iterator moves to the next one; if the nested call erases that entry as well,
  the iterator dangles.
\<close>

fun Acknowledge_loop ::
  "(PacketID \<Rightarrow> ReceiptTracker \<Rightarrow> (receipts \<times> ReceiptTracker) result) \<Rightarrow> PacketID \<Rightarrow> PacketID list \<Rightarrow>
   ReceiptTracker \<Rightarrow> (receipts \<times> ReceiptTracker) result" where
  "Acknowledge_loop ack i [] t = Inr ([], t)"
| "Acknowledge_loop ack i (k # ks) t = (case map_of (m_splits t) k of
      None \<Rightarrow> Acknowledge_loop ack i ks t
    | Some segments \<Rightarrow>
        (let segments = segments - {i}
         in if segments = {}
            then (let t = t\<lparr>m_splits := erase k (m_splits t)\<rparr>;
                      it = find (\<lambda>j. j \<in> fst ` set (m_splits t)) ks
                  in rbind (ack k t) (\<lambda>(rs, t).
                     if (case it of None \<Rightarrow> True | Some j \<Rightarrow> j \<in> fst ` set (m_splits t))
                     then rbind (Acknowledge_loop ack i ks t) (\<lambda>(rs', t). Inr (rs @ rs', t))
                     else Inl NullPointer))
            else Acknowledge_loop ack i ks
                   (t\<lparr>m_splits := map (\<lambda>(j, S). (j, if j = k then segments else S)) (m_splits t)\<rparr>)))"

text \<open>
  The calls nest at most as deep as the table has entries, since an entry is erased before each nested
  call: with an empty table the loop does nothing.
\<close>

fun Acknowledge_depth ::
  "nat \<Rightarrow> PacketID \<Rightarrow> ReceiptTracker \<Rightarrow> (receipts \<times> ReceiptTracker) result" where
  "Acknowledge_depth n i t =
     rbind (case n of 0 \<Rightarrow> Inr ([], t)
            | Suc n \<Rightarrow> Acknowledge_loop (Acknowledge_depth n) i (map fst (m_splits t)) t) (\<lambda>(rs, t).
     if i \<in> m_tracker t then Inr (rs @ [(i, True)], t\<lparr>m_tracker := m_tracker t - {i}\<rparr>)
     else Inr (rs, t))"

declare Acknowledge_depth.simps [simp del]

definition Acknowledge :: "PacketID \<Rightarrow> ReceiptTracker \<Rightarrow> (receipts \<times> ReceiptTracker) result" where
  "Acknowledge i t = Acknowledge_depth (length (m_splits t)) i t"

definition RegisterSplitPacket ::
  "PacketID \<Rightarrow> PacketID set \<Rightarrow> ReceiptTracker \<Rightarrow> ReceiptTracker" where
  "RegisterSplitPacket container segments t =
     (if container \<in> fst ` set (m_splits t) then t
      else t\<lparr>m_splits := m_splits t @ [(container, segments)]\<rparr>)"

text \<open>
  \<^verbatim>\<open>Update\<close> on the datagrams of the sent box, each with the time of its removal and the
  packets in it: the notifications, the tracker, and for every datagram whether it is kept.
\<close>

fun lose_packets :: "PacketID list \<Rightarrow> ReceiptTracker \<Rightarrow> receipts \<times> ReceiptTracker" where
  "lose_packets [] t = ([], t)"
| "lose_packets (i # ids) t =
     (if i \<in> m_tracker t
      then (let (rs, t) = lose_packets ids (t\<lparr>m_tracker := m_tracker t - {i}\<rparr>) in ((i, False) # rs, t))
      else lose_packets ids t)"

fun ReceiptTracker_Update ::
  "Timestamp \<Rightarrow> (Timestamp \<times> PacketID list) list \<Rightarrow> ReceiptTracker \<Rightarrow> bool list \<times> receipts \<times> ReceiptTracker" where
  "ReceiptTracker_Update now [] t = ([], [], t)"
| "ReceiptTracker_Update now ((discard, ids) # sent) t =
     (if \<not> Time_Elapsed now discard
      then (let (keep, rs, t) = ReceiptTracker_Update now sent t in (True # keep, rs, t))
      else (let (rs, t) = lose_packets ids t;
                (keep, rs', t) = ReceiptTracker_Update now sent t
            in (False # keep, rs @ rs', t)))"

section \<open>One acknowledgement\<close>

text \<open>
  The table of a connection: the containers differ, every entry waits for a segment, and no container
  is a segment itself, since each packet identifier is used once.
\<close>

definition splits_ok :: "(PacketID \<times> PacketID set) list \<Rightarrow> bool" where
  "splits_ok sp \<longleftrightarrow> distinct (map fst sp) \<and> {} \<notin> snd ` set sp \<and>
     \<Union> (snd ` set sp) \<inter> fst ` set sp = {}"

definition completed :: "PacketID \<Rightarrow> (PacketID \<times> PacketID set) list \<Rightarrow> PacketID list" where
  "completed i sp = map fst (filter (\<lambda>(c, S). S \<subseteq> {i}) sp)"

definition remaining :: "PacketID \<Rightarrow> (PacketID \<times> PacketID set) list \<Rightarrow> (PacketID \<times> PacketID set) list" where
  "remaining i sp = map (\<lambda>(c, S). (c, S - {i})) (filter (\<lambda>(c, S). \<not> S \<subseteq> {i}) sp)"

definition acked :: "PacketID set \<Rightarrow> PacketID list \<Rightarrow> receipts" where
  "acked tracker ids = map (\<lambda>c. (c, True)) (filter (\<lambda>c. c \<in> tracker) ids)"

lemma replace_same:
  assumes "distinct (map fst sp)" "map_of sp k = Some S"
  shows "map (\<lambda>(j, T). (j, if j = k then S else T)) sp = sp"
  using assms(2) map_of_is_SomeI [OF assms(1)] by (intro map_idI) fastforce

lemma replace_absent:
  "c \<notin> fst ` set sp \<Longrightarrow> map (\<lambda>(j, T). (j, if j = c then X else T)) sp = sp"
  by (induction sp) auto

lemma erase_absent: "c \<notin> fst ` set sp \<Longrightarrow> erase c sp = sp"
  by (auto simp: erase_def filter_id_conv rev_image_eqI)

lemma erase_append: "erase c (xs @ ys) = erase c xs @ erase c ys"
  by (simp add: erase_def)

lemma loop_idle:
  assumes "distinct (map fst (m_splits t))" "\<forall>(c, S) \<in> set (m_splits t). i \<notin> S \<and> S \<noteq> {}"
  shows "Acknowledge_loop ack i ks t = Inr ([], t)"
proof (induction ks)
  case Nil
  then show ?case by simp
next
  case (Cons k ks)
  show ?case
  proof (cases "map_of (m_splits t) k")
    case None
    then show ?thesis using Cons by simp
  next
    case (Some S)
    then have "(k, S) \<in> set (m_splits t)" by (rule map_of_SomeD)
    then have "S - {i} = S" "S \<noteq> {}" using assms(2) by auto
    then show ?thesis using Some Cons replace_same [OF assms(1) Some] by simp
  qed
qed

lemma Acknowledge_idle:
  assumes "distinct (map fst (m_splits t))" "\<forall>(c, S) \<in> set (m_splits t). i \<notin> S \<and> S \<noteq> {}"
  shows "Acknowledge_depth n i t = Inr (acked (m_tracker t) [i], t\<lparr>m_tracker := m_tracker t - {i}\<rparr>)"
  using loop_idle [OF assms]
  by (cases n; cases t) (simp_all add: Acknowledge_depth.simps acked_def)

lemma loop_flat:
  assumes "splits_ok (before @ sp)" "i \<notin> fst ` set (before @ sp)" "m_splits t = before @ sp"
    "\<forall>(c, S) \<in> set before. i \<notin> S"
  shows "Acknowledge_loop (Acknowledge_depth n) i (map fst sp) t =
    Inr (acked (m_tracker t) (completed i sp),
      t\<lparr>m_splits := before @ remaining i sp, m_tracker := m_tracker t - set (completed i sp)\<rparr>)"
  using assms
proof (induction sp arbitrary: before t)
  case Nil
  then show ?case by (cases t) (simp add: completed_def remaining_def acked_def)
next
  case (Cons e sp)
  obtain c S where e: "e = (c, S)" by (cases e)
  have d: "distinct (map fst (before @ (c, S) # sp))" using Cons.prems(1) e by (simp add: splits_ok_def)
  have lk: "map_of (m_splits t) c = Some S"
    unfolding Cons.prems(3) e by (rule map_of_is_SomeI [OF d]) simp
  show ?case
  proof (cases "S \<subseteq> {i}")
    case True
    let ?t = "t\<lparr>m_splits := before @ sp\<rparr>"
    let ?t' = "?t\<lparr>m_tracker := m_tracker t - {c}\<rparr>"
    have er: "erase c (m_splits t) = before @ sp"
      unfolding Cons.prems(3) e using d erase_absent [of c before] erase_absent [of c sp]
      by (simp add: erase_append) (simp add: erase_def)
    have ok: "splits_ok (before @ sp)" using Cons.prems(1) e by (auto simp: splits_ok_def)
    have "c \<in> fst ` set (before @ e # sp)" using e by simp
    then have "c \<notin> \<Union> (snd ` set (before @ sp))" "{} \<notin> snd ` set (before @ sp)"
      using Cons.prems(1) by (auto simp: splits_ok_def)
    then have "c \<notin> T \<and> T \<noteq> {}" if "(d, T) \<in> set (before @ sp)" for d T
      using that by (metis UN_I image_eqI snd_conv)
    then have "\<forall>(d, T) \<in> set (m_splits ?t). c \<notin> T \<and> T \<noteq> {}" by auto
    then have idle: "Acknowledge_depth n c ?t = Inr (acked (m_tracker t) [c], ?t')"
      using Acknowledge_idle [of ?t c n] ok by (simp add: splits_ok_def)
    have it: "case find (\<lambda>j. j \<in> fst ` set (before @ sp)) (map fst sp) of None \<Rightarrow> True
        | Some j \<Rightarrow> j \<in> fst ` set (m_splits ?t')"
      by (auto split: option.split simp: find_Some_iff)
    have rec: "Acknowledge_loop (Acknowledge_depth n) i (map fst sp) ?t' =
      Inr (acked (m_tracker ?t') (completed i sp),
        ?t'\<lparr>m_splits := before @ remaining i sp, m_tracker := m_tracker ?t' - set (completed i sp)\<rparr>)"
      using Cons.prems ok by (intro Cons.IH) auto
    have c: "c \<notin> set (completed i sp)" using d by (auto simp: completed_def)
    have a: "acked (m_tracker t - {c}) (completed i sp) = acked (m_tracker t) (completed i sp)"
      unfolding acked_def using c by (metis (no_types, lifting) DiffE DiffI filter_cong singletonD)
    show ?thesis
      unfolding e list.map fst_conv
      using lk True er idle it rec a
      by (auto simp: Let_def acked_def completed_def remaining_def Diff_insert2 [symmetric]
        simp flip: Diff_insert Diff_insert2)
  next
    case False
    let ?t = "t\<lparr>m_splits := (before @ [(c, S - {i})]) @ sp\<rparr>"
    have m: "map (\<lambda>(j, T). (j, if j = c then S - {i} else T)) (m_splits t) = before @ (c, S - {i}) # sp"
      unfolding Cons.prems(3) e using d by (simp add: replace_absent)
    have rec: "Acknowledge_loop (Acknowledge_depth n) i (map fst sp) ?t =
      Inr (acked (m_tracker ?t) (completed i sp),
        ?t\<lparr>m_splits := (before @ [(c, S - {i})]) @ remaining i sp,
           m_tracker := m_tracker ?t - set (completed i sp)\<rparr>)"
      using Cons.prems e False by (intro Cons.IH) (auto simp: splits_ok_def)
    show ?thesis
      unfolding e list.map fst_conv using lk False m rec
      by (auto simp: Let_def completed_def remaining_def)
  qed
qed

lemma Acknowledge_flat:
  assumes "splits_ok (m_splits t)" "i \<notin> fst ` set (m_splits t)"
  shows "Acknowledge i t = Inr (acked (m_tracker t) (completed i (m_splits t) @ [i]),
    t\<lparr>m_splits := remaining i (m_splits t),
      m_tracker := m_tracker t - set (completed i (m_splits t) @ [i])\<rparr>)"
proof -
  have i: "i \<notin> set (completed i (m_splits t))" using assms(2) by (auto simp: completed_def)
  show ?thesis
  proof (cases "m_splits t")
    case Nil
    then show ?thesis
      by (cases t) (simp add: Acknowledge_def Acknowledge_depth.simps acked_def completed_def remaining_def)
  next
    case (Cons a sp)
    then obtain n where n: "length (m_splits t) = Suc n" by auto
    have "Acknowledge_loop (Acknowledge_depth n) i (map fst (m_splits t)) t =
      Inr (acked (m_tracker t) (completed i (m_splits t)),
        t\<lparr>m_splits := [] @ remaining i (m_splits t),
          m_tracker := m_tracker t - set (completed i (m_splits t))\<rparr>)"
      by (rule loop_flat) (use assms in auto)
    then show ?thesis unfolding Acknowledge_def n
      using i by (auto simp: Acknowledge_depth.simps acked_def simp flip: Diff_insert Diff_insert2)
  qed
qed

lemma splits_ok_remaining:
  assumes "splits_ok sp"
  shows "splits_ok (remaining i sp)" "fst ` set (remaining i sp) \<subseteq> fst ` set sp"
    "\<Union> (snd ` set (remaining i sp)) \<subseteq> \<Union> (snd ` set sp)"
proof -
  show f: "fst ` set (remaining i sp) \<subseteq> fst ` set sp" by (force simp: remaining_def)
  show s: "\<Union> (snd ` set (remaining i sp)) \<subseteq> \<Union> (snd ` set sp)" by (force simp: remaining_def)
  have "map fst (remaining i sp) = map fst (filter (\<lambda>(c, S). \<not> S \<subseteq> {i}) sp)"
    by (simp add: remaining_def comp_def case_prod_unfold)
  then have "distinct (map fst (remaining i sp))"
    using assms by (simp add: splits_ok_def distinct_map_filter)
  moreover have "{} \<notin> snd ` set (remaining i sp)" by (auto simp: remaining_def)
  moreover have "\<Union> (snd ` set (remaining i sp)) \<inter> fst ` set (remaining i sp) = {}"
    using Int_mono [OF s f] assms unfolding splits_ok_def by (metis subset_empty)
  ultimately show "splits_ok (remaining i sp)" by (simp add: splits_ok_def)
qed

section \<open>Runs\<close>

datatype rt_event =
    RTrack PacketID
  | RSplit PacketID "PacketID set"
  | RAck PacketID
  | RUpdate Timestamp "(Timestamp \<times> PacketID list) list"

fun rt_step :: "rt_event \<Rightarrow> ReceiptTracker \<Rightarrow> (receipts \<times> ReceiptTracker) result" where
  "rt_step (RTrack i) t = Inr ([], Track i t)"
| "rt_step (RSplit c S) t = Inr ([], RegisterSplitPacket c S t)"
| "rt_step (RAck i) t = Acknowledge i t"
| "rt_step (RUpdate now sent) t = Inr (snd (ReceiptTracker_Update now sent t))"

fun rt_run :: "rt_event list \<Rightarrow> ReceiptTracker \<Rightarrow> (receipts \<times> ReceiptTracker) result" where
  "rt_run [] t = Inr ([], t)"
| "rt_run (e # es) t = rbind (rt_step e t) (\<lambda>(rs, t). rbind (rt_run es t) (\<lambda>(rs', t). Inr (rs @ rs', t)))"

definition tracked_ids :: "rt_event list \<Rightarrow> PacketID list" where
  "tracked_ids es = concat (map (\<lambda>e. case e of RTrack i \<Rightarrow> [i] | _ \<Rightarrow> []) es)"

definition containers :: "rt_event list \<Rightarrow> PacketID set" where
  "containers es = {c. \<exists>S. RSplit c S \<in> set es}"

definition split_segments :: "rt_event list \<Rightarrow> PacketID set" where
  "split_segments es = \<Union> {S. \<exists>c. RSplit c S \<in> set es}"

text \<open>
  The runs the program produces: a packet identifier stands for a container or for a segment and not
  for both, a split packet has segments, and datagrams carry segments and never containers.
\<close>

definition run_ok :: "rt_event list \<Rightarrow> bool" where
  "run_ok es \<longleftrightarrow> containers es \<inter> split_segments es = {} \<and> (\<forall>c. RSplit c {} \<notin> set es) \<and>
     (\<forall>i. RAck i \<in> set es \<longrightarrow> i \<notin> containers es)"

lemma lose_packets_accounts:
  "lose_packets ids t = (rs, t') \<Longrightarrow> distinct (map fst rs) \<and> set (map fst rs) \<subseteq> m_tracker t \<and>
     m_tracker t' = m_tracker t - set (map fst rs) \<and> m_splits t' = m_splits t"
proof (induction ids arbitrary: t rs t')
  case (Cons i ids)
  show ?case
  proof (cases "i \<in> m_tracker t")
    case True
    let ?t = "t\<lparr>m_tracker := m_tracker t - {i}\<rparr>"
    obtain rs1 t1 where l: "lose_packets ids ?t = (rs1, t1)" by force
    then have "rs = (i, False) # rs1" "t' = t1" using Cons.prems True by (auto simp: Let_def)
    then show ?thesis using Cons.IH [OF l] True by auto
  next
    case False
    then show ?thesis using Cons.IH [of t rs t'] Cons.prems by simp
  qed
qed simp

lemma Update_accounts:
  "ReceiptTracker_Update now sent t = (keep, rs, t') \<Longrightarrow>
     distinct (map fst rs) \<and> set (map fst rs) \<subseteq> m_tracker t \<and>
     m_tracker t' = m_tracker t - set (map fst rs) \<and> m_splits t' = m_splits t"
proof (induction now sent t arbitrary: keep rs t' rule: ReceiptTracker_Update.induct)
  case (2 now discard ids sent t)
  show ?case
  proof (cases "Time_Elapsed now discard")
    case False
    then show ?thesis using 2(1) 2(3) by (auto split: prod.splits)
  next
    case True
    obtain rs1 t1 where l: "lose_packets ids t = (rs1, t1)" by force
    obtain k2 rs2 t2 where u: "ReceiptTracker_Update now sent t1 = (k2, rs2, t2)" by (metis prod_cases3)
    have "rs = rs1 @ rs2" "t' = t2" using 2(3) True l u by auto
    then show ?thesis using lose_packets_accounts [OF l] 2(2) [OF _ l [symmetric] refl u] True by auto
  qed
qed simp

lemma acked_accounts:
  assumes "distinct ids"
  shows "distinct (map fst (acked T ids))" "set (map fst (acked T ids)) = T \<inter> set ids"
  using assms by (auto simp: acked_def comp_def image_iff)

text \<open>What one step posts leaves the tracker, and nothing else does.\<close>

definition accounts :: "receipts \<Rightarrow> PacketID set \<Rightarrow> PacketID set \<Rightarrow> bool" where
  "accounts rs T T' \<longleftrightarrow> distinct (map fst rs) \<and> set (map fst rs) \<subseteq> T \<and> T' = T - set (map fst rs)"

lemma rt_step_ok:
  assumes "run_ok (e # es)" "splits_ok (m_splits t)" "fst ` set (m_splits t) \<subseteq> C"
    "\<Union> (snd ` set (m_splits t)) \<subseteq> G" "containers (e # es) \<subseteq> C" "split_segments (e # es) \<subseteq> G" "C \<inter> G = {}"
    "\<forall>i. RAck i \<in> set (e # es) \<longrightarrow> i \<notin> C"
  shows "\<exists>rs t'. rt_step e t = Inr (rs, t') \<and> splits_ok (m_splits t') \<and> fst ` set (m_splits t') \<subseteq> C \<and>
    \<Union> (snd ` set (m_splits t')) \<subseteq> G \<and>
    accounts rs (m_tracker t \<union> set (tracked_ids [e])) (m_tracker t')"
proof (cases e)
  case (RTrack i)
  then show ?thesis using assms by (auto simp: Track_def tracked_ids_def accounts_def)
next
  case (RSplit c S)
  have c: "c \<in> C" "S \<subseteq> G" "S \<noteq> {}"
    using assms(1,5,6) RSplit by (auto simp: containers_def split_segments_def run_ok_def)
  have "\<Union> (snd ` set (m_splits t @ [(c, S)])) \<subseteq> G" "fst ` set (m_splits t @ [(c, S)]) \<subseteq> C"
    using assms(3,4) c by auto
  then have "\<Union> (snd ` set (m_splits t @ [(c, S)])) \<inter> fst ` set (m_splits t @ [(c, S)]) = {}"
    using assms(7) by blast
  then have "splits_ok (m_splits t @ [(c, S)])" if "c \<notin> fst ` set (m_splits t)"
    using assms(2) c(3) that by (auto simp: splits_ok_def)
  then show ?thesis using assms c RSplit
    by (auto simp: RegisterSplitPacket_def tracked_ids_def accounts_def)
next
  case (RAck i)
  have i: "i \<notin> fst ` set (m_splits t)" using assms(3,8) RAck by auto
  let ?ids = "completed i (m_splits t) @ [i]"
  have "distinct ?ids"
    using assms(2) i by (auto simp: completed_def splits_ok_def distinct_map_filter)
  note acc = acked_accounts [OF this, of "m_tracker t"]
  have "m_tracker t - set ?ids = m_tracker t - set (map fst (acked (m_tracker t) ?ids))"
    unfolding acc(2) by blast
  then have "accounts (acked (m_tracker t) ?ids) (m_tracker t) (m_tracker t - set ?ids)"
    unfolding accounts_def using acc by blast
  moreover note r = splits_ok_remaining [OF assms(2), of i]
  have "fst ` set (remaining i (m_splits t)) \<subseteq> C" "\<Union> (snd ` set (remaining i (m_splits t))) \<subseteq> G"
    using subset_trans [OF r(2) assms(3)] subset_trans [OF r(3) assms(4)] by blast+
  ultimately show ?thesis using RAck Acknowledge_flat [OF assms(2) i] r(1)
    by (simp add: tracked_ids_def)
next
  case (RUpdate now sent)
  obtain keep rs t' where u: "ReceiptTracker_Update now sent t = (keep, rs, t')" by (metis prod_cases3)
  then show ?thesis using RUpdate assms Update_accounts [OF u]
    by (auto simp: tracked_ids_def accounts_def)
qed

lemma run_ok_tail: "run_ok (e # es) \<Longrightarrow> run_ok es"
  by (fastforce simp: run_ok_def containers_def split_segments_def)

lemma tracked_ids_Cons: "tracked_ids (e # es) = tracked_ids [e] @ tracked_ids es"
  by (simp add: tracked_ids_def)

lemma accounts_append:
  assumes "accounts rs (T \<union> A) T1" "accounts rs' (T1 \<union> B) T'" "B \<inter> (T \<union> A) = {}"
  shows "accounts (rs @ rs') (T \<union> (A \<union> B)) T'"
proof -
  have d: "distinct (map fst rs)" "distinct (map fst rs')" and s: "set (map fst rs) \<subseteq> T \<union> A"
    and T1: "T1 = T \<union> A - set (map fst rs)" and s': "set (map fst rs') \<subseteq> T1 \<union> B"
    and T': "T' = T1 \<union> B - set (map fst rs')" using assms(1,2) by (auto simp: accounts_def)
  have disj: "set (map fst rs) \<inter> set (map fst rs') = {}" using s s' T1 assms(3) by blast
  have "set (map fst rs) \<inter> B = {}" using s assms(3) by blast
  then have "T' = T \<union> (A \<union> B) - (set (map fst rs) \<union> set (map fst rs'))" using T' T1 by blast
  moreover have "set (map fst rs) \<union> set (map fst rs') \<subseteq> T \<union> (A \<union> B)" using s s' T1 by blast
  ultimately show ?thesis using d disj by (simp add: accounts_def)
qed

lemma rt_run_ok:
  assumes "run_ok es" "splits_ok (m_splits t)" "fst ` set (m_splits t) \<subseteq> C"
    "\<Union> (snd ` set (m_splits t)) \<subseteq> G" "containers es \<subseteq> C" "split_segments es \<subseteq> G" "C \<inter> G = {}"
    "\<forall>i. RAck i \<in> set es \<longrightarrow> i \<notin> C" "distinct (tracked_ids es)" "set (tracked_ids es) \<inter> T = {}" "m_tracker t \<subseteq> T"
  shows "\<exists>rs t'. rt_run es t = Inr (rs, t') \<and> accounts rs (m_tracker t \<union> set (tracked_ids es)) (m_tracker t')"
  using assms
proof (induction es arbitrary: t T)
  case Nil
  then show ?case by (simp add: accounts_def tracked_ids_def)
next
  case (Cons e es)
  note step = rt_step_ok [OF Cons.prems(1,2,3,4,5,6,7,8)]
  then obtain rs t1 where s: "rt_step e t = Inr (rs, t1)" "splits_ok (m_splits t1)"
    "fst ` set (m_splits t1) \<subseteq> C" "\<Union> (snd ` set (m_splits t1)) \<subseteq> G"
    "accounts rs (m_tracker t \<union> set (tracked_ids [e])) (m_tracker t1)" by blast
  have sub: "containers es \<subseteq> C" "split_segments es \<subseteq> G"
    using Cons.prems(5,6) by (auto simp: containers_def split_segments_def)
  have tr: "distinct (tracked_ids es)" "set (tracked_ids es) \<inter> (T \<union> set (tracked_ids [e])) = {}"
    using Cons.prems(9,10) unfolding tracked_ids_Cons [of e es] by auto
  have "m_tracker t1 \<subseteq> T \<union> set (tracked_ids [e])" using s(5) Cons.prems(11) by (auto simp: accounts_def)
  then obtain rs' t' where r: "rt_run es t1 = Inr (rs', t')"
    "accounts rs' (m_tracker t1 \<union> set (tracked_ids es)) (m_tracker t')"
    using Cons.IH [OF run_ok_tail [OF Cons.prems(1)] s(2,3,4) sub Cons.prems(7) _ tr] Cons.prems(8) by auto
  have "set (tracked_ids es) \<inter> (m_tracker t \<union> set (tracked_ids [e])) = {}" using tr(2) Cons.prems(11) by blast
  from accounts_append [OF s(5) r(2) this]
  have "accounts (rs @ rs') (m_tracker t \<union> set (tracked_ids (e # es))) (m_tracker t')"
    unfolding tracked_ids_Cons [of e es] by simp
  then show ?case using s(1) r(1) by simp
qed

text \<open>
  C20.  Receipts are exact: in every run in which no identifier is tracked twice, no receipt is posted twice, and a packet whose receipt was
  requested has either had its receipt posted or is still tracked, never both.  The run never
  meets a dangling iterator.
\<close>

theorem receipts_exactly_once:
  assumes "run_ok es" "distinct (tracked_ids es)"
  shows "\<exists>rs t. rt_run es ReceiptTracker_new = Inr (rs, t) \<and> distinct (map fst rs) \<and>
    set (map fst rs) \<inter> m_tracker t = {} \<and> set (map fst rs) \<union> m_tracker t = set (tracked_ids es)"
proof -
  have "\<exists>rs t. rt_run es ReceiptTracker_new = Inr (rs, t) \<and>
      accounts rs (m_tracker ReceiptTracker_new \<union> set (tracked_ids es)) (m_tracker t)"
    by (rule rt_run_ok [where C = "containers es" and G = "split_segments es" and T = "{}"])
      (use assms in \<open>auto simp: ReceiptTracker_new_def splits_ok_def run_ok_def\<close>)
  then obtain rs t where "rt_run es ReceiptTracker_new = Inr (rs, t)" "distinct (map fst rs)"
    "set (map fst rs) \<subseteq> set (tracked_ids es)" "m_tracker t = set (tracked_ids es) - set (map fst rs)"
    by (auto simp: accounts_def ReceiptTracker_new_def)
  then show ?thesis by (metis Diff_disjoint Diff_partition)
qed

definition example_run :: "rt_event list" where
  "example_run = [RTrack 10, RSplit 10 {11, 12}, RTrack 13, RAck 11, RAck 12, RUpdate 9 [(5, [13, 11])]]"

theorem receipts_exactly_once_witness:
  "\<exists>rs t. rt_run example_run ReceiptTracker_new = Inr (rs, t) \<and> distinct (map fst rs) \<and>
    set (map fst rs) \<inter> m_tracker t = {} \<and> set (map fst rs) \<union> m_tracker t = {10, 13}"
proof -
  have "run_ok example_run" "distinct (tracked_ids example_run)" "set (tracked_ids example_run) = {10, 13}"
    by (auto simp: run_ok_def example_run_def containers_def split_segments_def tracked_ids_def)
  then show ?thesis using receipts_exactly_once [of example_run] by simp
qed

text \<open>A run of acknowledgements, which tracks nothing new.\<close>

lemma acks_run:
  assumes "splits_ok (m_splits t)" "set ids \<inter> fst ` set (m_splits t) = {}"
  shows "\<exists>rs t'. rt_run (map RAck ids) t = Inr (rs, t')"
proof -
  have none: "containers (map RAck ids) = {}" "split_segments (map RAck ids) = {}" "tracked_ids (map RAck ids) = []"
    by (auto simp: containers_def split_segments_def tracked_ids_def)
  then have "run_ok (map RAck ids)" by (auto simp: run_ok_def)
  then have "\<exists>rs t'. rt_run (map RAck ids) t = Inr (rs, t') \<and>
      accounts rs (m_tracker t \<union> set (tracked_ids (map RAck ids))) (m_tracker t')"
    by (rule rt_run_ok [where C = "fst ` set (m_splits t)" and G = "\<Union> (snd ` set (m_splits t))"
          and T = "m_tracker t"])
      (use assms none in \<open>auto simp: splits_ok_def Int_commute\<close>)
  then show ?thesis by blast
qed

lemma acks_split:
  assumes "splits_ok (m_splits t)" "(c, S) \<in> set (m_splits t)" "c \<in> m_tracker t"
    "set ids \<inter> fst ` set (m_splits t) = {}"
  shows "\<exists>rs t'. rt_run (map RAck ids) t = Inr (rs, t') \<and> ((c, True) \<in> set rs \<longleftrightarrow> S \<subseteq> set ids)"
  using assms
proof (induction ids arbitrary: t S)
  case Nil
  then have "S \<noteq> {}" by (force simp: splits_ok_def)
  then show ?case by simp
next
  case (Cons i ids)
  let ?sp = "m_splits t"
  let ?t = "t\<lparr>m_splits := remaining i ?sp, m_tracker := m_tracker t - set (completed i ?sp @ [i])\<rparr>"
  have i: "i \<notin> fst ` set ?sp" using Cons.prems(4) by simp
  note ack = Acknowledge_flat [OF Cons.prems(1) i]
  note rem = splits_ok_remaining [OF Cons.prems(1), of i]
  have c: "c \<noteq> i" using i Cons.prems(2) by force
  have uniq: "S' = S" if "(c, S') \<in> set ?sp" for S'
    using that Cons.prems(1,2) unfolding splits_ok_def by (meson eq_key_imp_eq_value)
  show ?case
  proof (cases "S \<subseteq> {i}")
    case True
    then have "c \<in> set (completed i ?sp)" using Cons.prems(2) by (force simp: completed_def)
    then have mem: "(c, True) \<in> set (acked (m_tracker t) (completed i ?sp @ [i]))"
      using Cons.prems(3) by (simp add: acked_def)
    have "set ids \<inter> fst ` set (m_splits ?t) = {}" using Cons.prems(4) rem(2) by auto
    then obtain rs t' where "rt_run (map RAck ids) ?t = Inr (rs, t')"
      using acks_run [of ?t ids] rem(1) by auto
    then show ?thesis using ack mem True by auto
  next
    case False
    have nc: "c \<notin> set (completed i ?sp)" using False uniq by (auto simp: completed_def)
    have mem: "(c, S - {i}) \<in> set (m_splits ?t)" using False Cons.prems(2) by (force simp: remaining_def)
    have tr: "c \<in> m_tracker ?t" using Cons.prems(3) nc c by simp
    have "set ids \<inter> fst ` set (m_splits ?t) = {}" using Cons.prems(4) rem(2) by auto
    then obtain rs t' where "rt_run (map RAck ids) ?t = Inr (rs, t')"
      "(c, True) \<in> set rs \<longleftrightarrow> S - {i} \<subseteq> set ids"
      using Cons.IH [OF _ mem tr] rem(1) by auto
    moreover have "(c, True) \<notin> set (acked (m_tracker t) (completed i ?sp @ [i]))"
      using nc c by (auto simp: acked_def)
    ultimately show ?thesis using ack by auto
  qed
qed

text \<open>
  C30.  The receipt of a split packet: it is posted as delivered exactly when the last of its segments
  has been acknowledged, whatever other packets are acknowledged in between.
\<close>

theorem split_receipt:
  assumes "splits_ok (m_splits t)" "S \<noteq> {}" "c \<notin> S" "c \<notin> fst ` set (m_splits t)"
    "c \<notin> \<Union> (snd ` set (m_splits t))" "S \<inter> fst ` set (m_splits t) = {}"
    "set ids \<inter> insert c (fst ` set (m_splits t)) = {}"
  shows "\<exists>rs t'. rt_run (RTrack c # RSplit c S # map RAck ids) t = Inr (rs, t') \<and>
    ((c, True) \<in> set rs \<longleftrightarrow> S \<subseteq> set ids)"
proof -
  let ?t = "RegisterSplitPacket c S (Track c t)"
  have sp: "m_splits ?t = m_splits t @ [(c, S)]" "c \<in> m_tracker ?t"
    using assms(4) by (auto simp: RegisterSplitPacket_def Track_def)
  have "splits_ok (m_splits ?t)" using assms by (auto simp: sp splits_ok_def)
  then show ?thesis using acks_split [of ?t c S ids] assms(7) sp by auto
qed

theorem split_receipt_witness:
  "\<exists>rs t'. rt_run (RTrack 10 # RSplit 10 {11, 12} # map RAck [12, 20, 11]) ReceiptTracker_new = Inr (rs, t') \<and>
    (10, True) \<in> set rs"
  using split_receipt [of ReceiptTracker_new "{11, 12}" 10 "[12, 20, 11]"]
  by (simp add: splits_ok_def ReceiptTracker_new_def)

end
