(* ===== verification/Rpc.thy ===== *)
theory Rpc
  imports Packets Encryption
begin

text \<open>
  Remote procedure calls: \<^verbatim>\<open>source/RpcController.cpp\<close>, and the two ends of a call in
  \<^verbatim>\<open>source/Peer.cpp\<close> that build and take apart its packet.  A callback is a value of an
  arbitrary type; calling it is an entry in the list of invocations that \<^verbatim>\<open>Signal\<close> returns.
\<close>

section \<open>Operations\<close>

text \<open>
  The hash of the null-terminated string at the head of the given memory.  A \<^verbatim>\<open>char\<close> is signed.
  The terminator is looked for behind the first character.
\<close>

fun djb2hash_loop :: "u8 list \<Rightarrow> u64 \<Rightarrow> u64 result" where
  "djb2hash_loop [] hash = Inl OutOfBounds"
| "djb2hash_loop (c # str) hash =
     (let hash = (push_bit 5 hash + hash) + scast c
      in case str of [] \<Rightarrow> Inl OutOfBounds
         | d # _ \<Rightarrow> if d \<noteq> 0 then djb2hash_loop str hash else Inr hash)"

definition djb2hash :: "u8 list \<Rightarrow> u64 result" where
  "djb2hash identifier = djb2hash_loop (identifier @ [0]) 5381"

record 'cb RpcController =
  m_slots :: "u64 \<rightharpoonup> 'cb list"

definition RpcController_new :: "'cb RpcController" where
  "RpcController_new = \<lparr>m_slots = Map.empty\<rparr>"

definition Slot :: "u8 list \<Rightarrow> 'cb \<Rightarrow> 'cb RpcController \<Rightarrow> 'cb RpcController result" where
  "Slot identifier fn c =
     rbind (djb2hash identifier) (\<lambda>hash.
     let slots = (case m_slots c hash of None \<Rightarrow> (m_slots c)(hash \<mapsto> []) | Some _ \<Rightarrow> m_slots c)
     in case slots hash of None \<Rightarrow> Inl AssertFailure
        | Some fns \<Rightarrow> Inr (c\<lparr>m_slots := slots(hash \<mapsto> fns @ [fn])\<rparr>))"

definition RemoveSlot :: "u8 list \<Rightarrow> 'cb RpcController \<Rightarrow> 'cb RpcController result" where
  "RemoveSlot identifier c =
     rbind (djb2hash identifier) (\<lambda>hash.
     Inr (case m_slots c hash of None \<Rightarrow> c | Some _ \<Rightarrow> c\<lparr>m_slots := (m_slots c)(hash := None)\<rparr>))"

type_synonym 'cb invocation = "'cb \<times> PeerID \<times> BinaryStream"

definition Signal ::
  "u8 list \<Rightarrow> PeerID \<Rightarrow> BinaryStream \<Rightarrow> 'cb RpcController \<Rightarrow> 'cb invocation list result" where
  "Signal identifier sender params c =
     rbind (djb2hash identifier) (\<lambda>hash.
     case m_slots c hash of None \<Rightarrow> Inr []
     | Some fns \<Rightarrow>
         rbind (BinaryStream_wrap (GetBuffer params) (m_length params) READONLY) (\<lambda>instreamCopy.
         Inr (map (\<lambda>fn. (fn, sender, instreamCopy)) fns)))"

text \<open>The packet that \<^verbatim>\<open>Peer::RpcSignal\<close> sends.\<close>

definition RpcSignal_packet :: "u8 list \<Rightarrow> BinaryStream \<Rightarrow> Packet result" where
  "RpcSignal_packet identifier params =
     rbind (WriteString identifier
              (BinaryStream_new (m_length params + length identifier + 2 * 8))) (\<lambda>data.
     rbind (Write7BitEncodedInt (of_nat (m_length params)) data) (\<lambda>data.
     rbind (WriteBytes_stream params data) (\<lambda>data.
     Inr (fst (Packet_of_moved_stream RPC_SIGNAL data)))))"

text \<open>The branch of \<^verbatim>\<open>Peer::OnSystemPacket\<close> that handles such a packet.\<close>

definition OnRpcSignal :: "Packet \<Rightarrow> 'cb RpcController \<Rightarrow> 'cb invocation list result" where
  "OnRpcSignal packet c =
     rbind (GetStream packet) (\<lambda>instream.
     rbind (ReadString instream) (\<lambda>(ident, instream).
     rbind (Read7BitEncodedInt instream) (\<lambda>(paramslen, instream).
     let params = BinaryStream_new (unat (scast paramslen :: u64))
     in rbind (if sint paramslen > 0
               then rbind (WriteZeroes (unat paramslen) params) (\<lambda>params.
                    rbind (ReadBytes (unat paramslen) instream) (\<lambda>(r, instream).
                    case r of None \<Rightarrow> Inr params
                    | Some bs \<Rightarrow> store_cells 0 (map Some bs) params))
               else Inr params) (\<lambda>params.
        Signal ident (m_sender packet) params c))))"

section \<open>The table of callbacks\<close>

text \<open>
  Registrations and removals, and the callbacks that are registered under a hash, oldest first.
\<close>

datatype 'cb rpc_event = RpcSlot "u8 list" 'cb | RpcRemove "u8 list"

fun rpc_step :: "'cb rpc_event \<Rightarrow> 'cb RpcController \<Rightarrow> 'cb RpcController result" where
  "rpc_step (RpcSlot i fn) c = Slot i fn c"
| "rpc_step (RpcRemove i) c = RemoveSlot i c"

fun event_name :: "'cb rpc_event \<Rightarrow> u8 list" where
  "event_name (RpcSlot i fn) = i"
| "event_name (RpcRemove i) = i"

fun registered :: "u64 \<Rightarrow> 'cb rpc_event list \<Rightarrow> 'cb list \<Rightarrow> 'cb list" where
  "registered h [] fns = fns"
| "registered h (RpcSlot i fn # es) fns =
     registered h es (if djb2hash i = Inr h then fns @ [fn] else fns)"
| "registered h (RpcRemove i # es) fns =
     registered h es (if djb2hash i = Inr h then [] else fns)"

lemma djb2hash_loop_total: "str \<noteq> [] \<Longrightarrow> 0 \<notin> set str \<Longrightarrow> \<exists>h. djb2hash_loop (str @ [0]) h0 = Inr h"
proof (induction str arbitrary: h0)
  case (Cons c str)
  show ?case
  proof (cases str)
    case Nil
    then show ?thesis by (simp add: Let_def)
  next
    case (Cons d str')
    then have "d \<noteq> 0" "0 \<notin> set str" "str \<noteq> []" using Cons.prems by auto
    then show ?thesis using Cons.IH [of "(push_bit 5 h0 + h0) + scast c"] Cons
      by (simp only: append_Cons djb2hash_loop.simps Let_def list.case if_True simp_thms)
  qed
qed simp

lemma djb2hash_total: "i \<noteq> [] \<Longrightarrow> 0 \<notin> set i \<Longrightarrow> \<exists>h. djb2hash i = Inr h"
  unfolding djb2hash_def by (rule djb2hash_loop_total)

definition callbacks :: "u64 \<Rightarrow> 'cb RpcController \<Rightarrow> 'cb list" where
  "callbacks h c = (case m_slots c h of None \<Rightarrow> [] | Some fns \<Rightarrow> fns)"

lemma Slot_callbacks:
  assumes "djb2hash i = Inr h0"
  shows "\<exists>c'. Slot i fn c = Inr c' \<and> (\<forall>h. callbacks h c' = (if h = h0 then callbacks h c @ [fn] else callbacks h c))"
  using assms by (cases "m_slots c h0") (auto simp: Slot_def callbacks_def)

lemma RemoveSlot_callbacks:
  assumes "djb2hash i = Inr h0"
  shows "\<exists>c'. RemoveSlot i c = Inr c' \<and> (\<forall>h. callbacks h c' = (if h = h0 then [] else callbacks h c))"
  using assms by (cases "m_slots c h0") (auto simp: RemoveSlot_def callbacks_def)

lemma rpc_run_callbacks:
  assumes "\<forall>e \<in> set es. event_name e \<noteq> [] \<and> 0 \<notin> set (event_name e)"
  shows "\<exists>c'. rfold rpc_step es c = Inr c' \<and> (\<forall>h. callbacks h c' = registered h es (callbacks h c))"
  using assms
proof (induction es arbitrary: c)
  case Nil
  then show ?case by simp
next
  case (Cons e es)
  obtain h0 where h0: "djb2hash (event_name e) = Inr h0" using djb2hash_total Cons.prems by fastforce
  obtain c1 where c1: "rpc_step e c = Inr c1" "\<forall>h. callbacks h c1 = registered h [e] (callbacks h c)"
  proof (cases e)
    case (RpcSlot i fn)
    then show thesis using that Slot_callbacks [of i h0 fn c] h0 by fastforce
  next
    case (RpcRemove i)
    then show thesis using that RemoveSlot_callbacks [of i h0 c] h0 by fastforce
  qed
  obtain c2 where c2: "rfold rpc_step es c1 = Inr c2" "\<forall>h. callbacks h c2 = registered h es (callbacks h c1)"
    using Cons.IH [of c1] Cons.prems by auto
  have "registered h (e # es) fns = registered h es (registered h [e] fns)" for h and fns
    by (cases e) simp_all
  then show ?case using c1 c2 by simp
qed

lemma Signal_callbacks:
  assumes "djb2hash i = Inr h" "reading params 0 bs" "m_position params = 0"
  shows "\<exists>r. Signal i sender params c = Inr (map (\<lambda>fn. (fn, sender, r)) (callbacks h c)) \<and> reading r 0 bs"
proof -
  have len: "m_length params = length bs" "length bs < 2 ^ 64"
    "load_bytes (GetBuffer params) 0 (length bs) = Inr bs"
    using assms(2,3) unfolding reading_def by auto
  obtain r where r: "BinaryStream_wrap (GetBuffer params) (m_length params) READONLY = Inr r"
    "GetBuffer r = GetBuffer params" "m_length r = length bs" "m_position r = 0" "m_subBytePosition r = 0"
    using len(1) by (auto simp: BinaryStream_wrap_def GetBuffer_def split: ro_pointer.split option.split)
  then have "reading r 0 bs" using len by (simp add: reading_def)
  then show ?thesis using r(1) assms(1) by (cases "m_slots c h") (auto simp: Signal_def callbacks_def)
qed

text \<open>The position of the parameters is ignored.\<close>

lemma Signal_stream:
  assumes "djb2hash i = Inr h" "stream_ok params" "m_length params < 2 ^ 64"
  shows "\<exists>r. Signal i sender params c = Inr (map (\<lambda>fn. (fn, sender, r)) (callbacks h c)) \<and>
    reading r 0 (contents params)"
proof -
  obtain r where r: "BinaryStream_wrap (GetBuffer params) (m_length params) READONLY = Inr r"
    by (auto simp: BinaryStream_wrap_def)
  then show ?thesis using reading_wrap_own [OF assms(2,3) r] assms(1)
    by (cases "m_slots c h") (auto simp: Signal_def callbacks_def)
qed

text \<open>
  C33.  A signal calls exactly the callbacks that were registered, and not removed since, under names
  with the hash of the signalled name, in the order of registration, and hands each of them the
  parameters from their beginning.
\<close>

theorem signal_calls_registered:
  assumes "\<forall>e \<in> set es. event_name e \<noteq> [] \<and> 0 \<notin> set (event_name e)"
    and "djb2hash name = Inr h" "reading params 0 bs" "m_position params = 0"
  shows "\<exists>c r. rfold rpc_step es RpcController_new = Inr c \<and>
    Signal name sender params c = Inr (map (\<lambda>fn. (fn, sender, r)) (registered h es [])) \<and> reading r 0 bs"
proof -
  obtain c where c: "rfold rpc_step es RpcController_new = Inr c"
    "\<forall>h. callbacks h c = registered h es (callbacks h RpcController_new)"
    using rpc_run_callbacks [OF assms(1)] by blast
  have "callbacks h c = registered h es []"
    unfolding c(2) [rule_format] by (simp add: callbacks_def RpcController_new_def)
  then show ?thesis using c(1) Signal_callbacks [OF assms(2,3,4), of sender c] by auto
qed

text \<open>
  Names are compared by their hash only: a signal for \<^verbatim>\<open>bA\<close> calls what was registered for
  \<^verbatim>\<open>ab\<close>.  The empty name makes the hash read behind the end of the string.
\<close>

lemma rpc_names_collide:
  assumes "reading params 0 bs" "m_position params = 0"
  shows "(\<exists>c r. Slot [97, 98] fn RpcController_new = Inr c \<and>
      Signal [98, 65] sender params c = Inr [(fn, sender, r)] \<and> reading r 0 bs) \<and>
    Slot [] fn RpcController_new = Inl OutOfBounds"
proof -
  have h: "djb2hash [97, 98] = Inr 5863208" "djb2hash [98, 65] = Inr 5863208" "djb2hash [] = Inl OutOfBounds"
    by (simp_all add: djb2hash_def)
  obtain c where c: "Slot [97, 98] fn RpcController_new = Inr c" "callbacks 5863208 c = [fn]"
    using Slot_callbacks [OF h(1), of fn RpcController_new]
    by (auto simp: callbacks_def RpcController_new_def)
  then show ?thesis using Signal_callbacks [OF h(2) assms, of sender c] h(3)
    by (auto simp: Slot_def)
qed

section \<open>A call over the network\<close>

definition rpc_payload :: "u8 list \<Rightarrow> u32 \<Rightarrow> u8 list \<Rightarrow> u8 list" where
  "rpc_payload ident n bs = enc_string ident @ enc7 n @ bs"

lemma RpcSignal_packet_ok:
  assumes v: "valid_string ident" and p: "load_bytes (GetBuffer params) 0 (m_length params) = Inr bs" "m_length params = length bs"
    and sz: "length ident + length bs + 16 < 2 ^ 31"
  shows "\<exists>p. RpcSignal_packet ident params = Inr p \<and> packet_ok p \<and> m_sender p = 0 \<and>
    m_command p = RPC_SIGNAL \<and> payload p = rpc_payload ident (of_nat (length bs)) bs"
proof -
  note load = p(1) and len = p(2)
  have l7: "length (enc7 n) \<le> 5" for n by (rule length_enc7_le)
  let ?n = "m_length params + length ident + 2 * 8"
  let ?l = "of_nat (length bs) :: u32"
  have e: "length (enc_string ident) \<le> length ident + 5" using l7 by (simp add: enc_string_def)
  obtain s1 where s1: "WriteString ident (BinaryStream_new ?n) = Inr s1" "written s1 (enc_string ident) []"
    using str.put_written [OF v written_new, of ?n] e sz by (auto simp: max_stream_def)
  obtain s2 where s2: "Write7BitEncodedInt ?l s1 = Inr s2" "written s2 (enc_string ident @ enc7 ?l) []"
    using varint.put_written [OF _ s1(2), of ?l] e l7 [of ?l] sz by (auto simp: max_stream_def)
  obtain s3 where s3: "WriteBytes bs s2 = Inr s3" "written s3 (rpc_payload ident ?l bs) []"
    using written_WriteBytes [OF s2(2), of bs] e l7 [of ?l] sz by (auto simp: max_stream_def flushed_def rpc_payload_def)
  have ro: "\<not> m_readonly s2" using s2(2) by (simp add: written_def stream_ok_def)
  have ne: "rpc_payload ident ?l bs \<noteq> []" "length (rpc_payload ident ?l bs) < 2 ^ 32"
    using e l7 [of ?l] sz by (auto simp: rpc_payload_def enc_string_def enc7.simps Let_def)
  obtain p s' where "Packet_of_moved_stream RPC_SIGNAL s3 = (p, s')" "packet_ok p" "m_command p = RPC_SIGNAL"
    "payload p = rpc_payload ident ?l bs" "m_sender p = 0"
    using moved_packet [OF s3(2), of RPC_SIGNAL] ne by (auto simp: flushed_def)
  then show ?thesis unfolding RpcSignal_packet_def len [symmetric]
    using s1(1) s2(1) s3(1) ro load len by (simp add: WriteBytes_stream_def)
qed

lemma call_parts:
  assumes q: "packet_ok q" "payload q = rpc_payload ident n rest" and v: "valid_string ident"
  shows "\<exists>s s1 s2. GetStream q = Inr s \<and> ReadString s = Inr (ident, s1) \<and>
    Read7BitEncodedInt s1 = Inr (n, s2) \<and> reading s2 0 rest"
proof -
  obtain s where s: "GetStream q = Inr s" "reading s 0 (enc_string ident @ enc7 n @ rest)"
    using GetStream_reading [OF q(1)] q(2) by (auto simp: rpc_payload_def)
  obtain s1 where s1: "ReadString s = Inr (ident, s1)" "reading s1 0 (enc7 n @ rest)"
    using str.get_reading [OF v s(2)] by blast
  then show ?thesis using s varint.get_reading [OF _ s1(2)] by blast
qed

lemma ReadByte_keeps: "ReadByte s = Inr (x, s') \<Longrightarrow> GetBuffer s' = GetBuffer s \<and> m_length s' = m_length s"
  by (auto simp: ReadByte_def Let_def split: if_splits)

lemma varint_keeps:
  "Read7BitEncodedInt_loop i out s = Inr (n, s') \<Longrightarrow> GetBuffer s' = GetBuffer s \<and> m_length s' = m_length s"
proof (induction i out s arbitrary: n rule: Read7BitEncodedInt_loop.induct)
  case (1 i out s)
  show ?case
  proof (cases "i < 5")
    case True
    then obtain x t where t: "ReadByte s = Inr (x, t)"
      using "1.prems" by (auto simp: Read7BitEncodedInt_loop.simps [of i out s])
    then show ?thesis using "1.prems" True ReadByte_keeps [OF t] "1.IH" [OF True t refl refl]
      by (auto simp: Read7BitEncodedInt_loop.simps [of i out s] Let_def split: if_splits)
  next
    case False
    then show ?thesis using "1.prems" by (simp add: Read7BitEncodedInt_loop.simps [of i out s])
  qed
qed

lemma reads_keep:
  "ReadString s = Inr (str, s') \<Longrightarrow> GetBuffer s' = GetBuffer s \<and> m_length s' = m_length s"
  "Read7BitEncodedInt s = Inr (n, s') \<Longrightarrow> GetBuffer s' = GetBuffer s \<and> m_length s' = m_length s"
  by (auto simp: ReadString_def Read7BitEncodedInt_def Let_def dest: varint_keeps split: if_splits)

lemma small_word:
  assumes "k < 2 ^ 31"
  shows "unat (of_nat k :: u32) = k" "unat (scast (of_nat k :: u32) :: u64) = k" "sint (of_nat k :: u32) = int k"
proof -
  show u: "unat (of_nat k :: u32) = k" using assms by (intro unat_of_nat_small) simp
  show "unat (scast (of_nat k :: u32) :: u64) = k" using assms by (rule unat_scast_small)
  show "sint (of_nat k :: u32) = int k" using assms by (simp add: signed_of_nat signed_take_bit_int_eq_self)
qed

lemma OnRpcSignal_reading:
  assumes q: "packet_ok q" "payload q = rpc_payload ident (of_nat (length bs)) bs"
    and v: "valid_string ident" and h: "djb2hash ident = Inr h" and sz: "length bs < 2 ^ 31"
  shows "\<exists>r. OnRpcSignal q c = Inr (map (\<lambda>fn. (fn, m_sender q, r)) (callbacks h c)) \<and> reading r 0 bs"
proof -
  let ?n = "length bs"
  note w = small_word [OF sz]
  obtain s s1 s2 where s: "GetStream q = Inr s" "ReadString s = Inr (ident, s1)"
    "Read7BitEncodedInt s1 = Inr (of_nat ?n, s2)" "reading s2 0 bs" using call_parts [OF q v] by blast
  have "\<exists>p. (if sint (of_nat ?n :: u32) > 0
      then rbind (WriteZeroes ?n (BinaryStream_new ?n)) (\<lambda>params.
           rbind (ReadBytes ?n s2) (\<lambda>(r, instream).
           case r of None \<Rightarrow> Inr params | Some bs \<Rightarrow> store_cells 0 (map Some bs) params))
      else Inr (BinaryStream_new ?n)) = Inr p \<and> stream_ok p \<and> contents p = bs \<and>
      m_length p = ?n \<and> m_subBytePosition p = 0"
  proof (cases "bs = []")
    case True
    then show ?thesis using written_new [of 0] m_length_written [OF written_new, of 0]
      by (simp add: written_def flushed_def)
  next
    case False
    obtain p where p: "WriteZeroes ?n (BinaryStream_new ?n) = Inr p" "written p (replicate ?n 0) []"
      using written_WriteBytes [OF written_new, of "replicate ?n 0" ?n] sz
      by (auto simp: WriteZeroes_WriteBytes flushed_def max_stream_def)
    have ok: "stream_ok p" "m_subBytePosition p = 0" "contents p = replicate ?n 0"
      using p(2) by (simp_all add: written_def flushed_def)
    obtain s3 where s3: "ReadBytes ?n s2 = Inr (Some bs, s3)"
      using reading_ReadBytes' [OF s(4), of bs "[]" ?n] by auto
    obtain p' where "store_cells 0 (map Some bs) p = Inr p'" "stream_ok p'"
      "contents p' = overwrite 0 bs (contents p)" "m_subBytePosition p' = 0" "m_length p' = ?n"
      using store_ok [OF ok(1,2), of 0 bs] m_length_written [OF p(2)] by auto
    moreover have "overwrite 0 bs (contents p) = bs" unfolding ok(3) by (simp add: overwrite_def)
    ultimately show ?thesis using p(1) s3 w(3) False by simp
  qed
  then obtain p where p: "(if sint (of_nat ?n :: u32) > 0
      then rbind (WriteZeroes ?n (BinaryStream_new ?n)) (\<lambda>params.
           rbind (ReadBytes ?n s2) (\<lambda>(r, instream).
           case r of None \<Rightarrow> Inr params | Some bs \<Rightarrow> store_cells 0 (map Some bs) params))
      else Inr (BinaryStream_new ?n)) = Inr p" "stream_ok p" "contents p = bs" "m_length p = ?n"
    by blast
  have "OnRpcSignal q c = Signal ident (m_sender q) p c"
    by (simp only: OnRpcSignal_def Let_def s rbind_simps prod.case w(1,2) p(1))
  then show ?thesis using Signal_stream [OF h p(2), of "m_sender q" c] p(3,4) sz by auto
qed

text \<open>
  C31.  A remote procedure call arrives as it was made: whatever carries the payload of the packet to
  the other end, the callbacks of the name are called with the sender and with a stream of exactly the
  parameters.
\<close>

theorem rpc_roundtrip:
  assumes "valid_string ident" "djb2hash ident = Inr h"
    and "load_bytes (GetBuffer params) 0 (m_length params) = Inr bs" "m_length params = length bs" "length ident + length bs + 16 < 2 ^ 31"
  shows "\<exists>p. RpcSignal_packet ident params = Inr p \<and> m_command p = RPC_SIGNAL \<and>
    (\<forall>q. packet_ok q \<and> payload q = payload p \<longrightarrow>
      (\<exists>r. OnRpcSignal q c = Inr (map (\<lambda>fn. (fn, m_sender q, r)) (callbacks h c)) \<and> reading r 0 bs))"
proof -
  obtain p where p: "RpcSignal_packet ident params = Inr p" "m_command p = RPC_SIGNAL"
    "payload p = rpc_payload ident (of_nat (length bs)) bs"
    using RpcSignal_packet_ok [OF assms(1,3,4,5)] by blast
  show ?thesis using p OnRpcSignal_reading [OF _ _ assms(1,2), of _ bs c] assms(5) by auto
qed

definition example_params :: BinaryStream where
  "example_params = \<lparr>m_buffer = Some [Some 1, Some 2], m_buffer_ro = RoOwn, m_capacity = 2, m_length = 2,
     m_position = 0, m_subBytePosition = 0, m_readonly = False\<rparr>"

lemma example_params_bytes:
  "load_bytes (GetBuffer example_params) 0 (m_length example_params) = Inr [1, 2]" "m_length example_params = length [1, 2 :: u8]"
  by (simp_all add: example_params_def GetBuffer_def load_bytes_def)

lemma example_params_reading: "reading example_params 0 [1, 2]" "m_position example_params = 0"
  by (simp_all add: reading_def example_params_def GetBuffer_def load_bytes_def)

theorem rpc_roundtrip_witness:
  "\<exists>p h. RpcSignal_packet [97, 98] example_params = Inr p \<and> djb2hash [97, 98] = Inr h \<and>
    (\<exists>r. OnRpcSignal p (RpcController_new\<lparr>m_slots := [h \<mapsto> [''callback'']]\<rparr>) =
      Inr [(''callback'', 0, r)] \<and> reading r 0 [1, 2])"
proof -
  have h: "djb2hash [97, 98] = Inr 5863208" by (simp add: djb2hash_def)
  have v: "valid_string [97, 98]" by (simp add: valid_string_def)
  obtain p where p: "RpcSignal_packet [97, 98] example_params = Inr p" "packet_ok p" "m_sender p = 0"
    using RpcSignal_packet_ok [OF v example_params_bytes] by auto
  then show ?thesis using p h
    rpc_roundtrip [OF v h example_params_bytes, of "RpcController_new\<lparr>m_slots := [5863208 \<mapsto> [''callback'']]\<rparr>"]
    by (fastforce simp: callbacks_def)
qed

theorem signal_calls_registered_witness:
  "\<exists>c r. rfold rpc_step [RpcSlot [97, 98] (1 :: nat), RpcSlot [120] 2, RpcRemove [120], RpcSlot [97, 98] 3]
      RpcController_new = Inr c \<and>
    Signal [97, 98] 7 example_params c = Inr [(1, 7, r), (3, 7, r)] \<and> reading r 0 [1, 2]"
proof -
  let ?es = "[RpcSlot [97, 98] (1 :: nat), RpcSlot [120] 2, RpcRemove [120], RpcSlot [97, 98] 3]"
  have h: "djb2hash [97, 98] = Inr 5863208" "djb2hash [120] = Inr 177693" by (simp_all add: djb2hash_def)
  then have "registered 5863208 ?es [] = [1, 3]" by simp
  then show ?thesis
    using signal_calls_registered [of ?es "[97, 98]" 5863208 example_params "[1, 2]" 7] h example_params_reading
    by simp
qed

lemma rpc_names_collide_witness:
  "(\<exists>c r. Slot [97, 98] (1 :: nat) RpcController_new = Inr c \<and>
      Signal [98, 65] 7 example_params c = Inr [(1, 7, r)] \<and> reading r 0 [1, 2]) \<and>
    Slot [] (1 :: nat) RpcController_new = Inl OutOfBounds"
  by (rule rpc_names_collide [OF example_params_reading])

text \<open>
  The length of the parameters in a received call is trusted: a length that is larger than the
  whole packet makes the receiver copy from behind the end of the packet.
\<close>

lemma rpc_length_trusted:
  assumes v: "valid_string ident" and sz: "length (rpc_payload ident n rest) < unat n" "unat n < 2 ^ 31"
  shows "OnRpcSignal (packet_of sender RPC_SIGNAL (rpc_payload ident n rest)) c = Inl OutOfBounds"
proof -
  let ?bs = "rpc_payload ident n rest"
  let ?q = "packet_of sender RPC_SIGNAL ?bs"
  have ok: "packet_ok ?q" using sz by simp
  obtain s s1 s2 where s: "GetStream ?q = Inr s" "ReadString s = Inr (ident, s1)"
    "Read7BitEncodedInt s1 = Inr (n, s2)" "reading s2 0 rest" using call_parts [OF ok payload_packet_of v] by auto
  have ne: "?bs \<noteq> []" by (simp add: rpc_payload_def enc_string_def enc7.simps Let_def)
  have "GetBuffer s = Some (map Some ?bs)" "m_length s = length ?bs"
    using s(1) ne by (auto simp: GetStream_def BinaryStream_wrap_def packet_of_def GetBuffer_def)
  then have b: "GetBuffer s2 = Some (map Some ?bs)" "m_length s2 = length ?bs"
    using reads_keep(1) [OF s(2)] reads_keep(2) [OF s(3)] by simp_all
  have al: "Align s2 = s2" using s(4) by (cases s2) (simp add: reading_def Align_def)
  have "\<not> IsEOF (unat n) s2" by (subst IsEOF_iff) (use s(4) b sz in \<open>auto simp: reading_def\<close>)
  then have rd: "ReadBytes (unat n) s2 = Inl OutOfBounds"
    unfolding ReadBytes_def Let_def al using b sz by (auto simp: load_bytes_def)
  have "sint n = int (unat n)" using small_word(3) [of "unat n"] sz(2) by simp
  moreover have "0 < int (unat n)" using sz(1) by linarith
  ultimately have "sint n > 0" "unat (scast n :: u64) = unat n"
    using small_word(2) [of "unat n"] sz(2) by (simp_all only: of_nat_unat ucast_id)
  moreover obtain p where "WriteZeroes (unat n) (BinaryStream_new (unat n)) = Inr p"
    using written_WriteBytes [OF written_new, of "replicate (unat n) 0" "unat n"] sz
    by (auto simp: WriteZeroes_WriteBytes flushed_def max_stream_def)
  ultimately show ?thesis unfolding OnRpcSignal_def Let_def using s rd by simp
qed

lemma rpc_length_trusted_witness:
  "OnRpcSignal (packet_of 5 RPC_SIGNAL (rpc_payload [97] 1000 [3, 4])) RpcController_new = Inl OutOfBounds"
proof -
  have "length (rpc_payload [97] 1000 [3, 4]) < unat (1000 :: u32)"
    using length_enc7_le [of 1] length_enc7_le [of 1000] by (simp add: rpc_payload_def enc_string_def)
  then show ?thesis using rpc_length_trusted [of "[97]" 1000 "[3, 4]" 5] by (simp add: valid_string_def)
qed

end
