(* ===== verification/Sockets.thy ===== *)
theory Sockets
  imports Config
begin

text \<open>
  The UDP socket: \<^verbatim>\<open>source/platform/desktop/SocketUDP.cpp\<close> and
  \<^verbatim>\<open>RemoteAddressASIO.cpp\<close>.  The networking library below it (asio) and the operating system
  are not part of the sources: what they answer is the record \<open>network\<close>, an argument of the
  operations that ask, and what they deliver later are the arguments of the completion handlers.
  A completion handler of the socket runs on its worker thread.
\<close>

section \<open>Addresses\<close>

type_synonym udp_endpoint = "u8 list \<times> u16"

record RemoteAddress =
  endpoint_udp :: udp_endpoint

definition RemoteAddress_default :: RemoteAddress where
  "RemoteAddress_default = \<lparr>endpoint_udp = ([0, 0, 0, 0], 0)\<rparr>"

definition RemoteAddress_eq :: "RemoteAddress \<Rightarrow> RemoteAddress \<Rightarrow> bool" where
  "RemoteAddress_eq lhs rhs \<longleftrightarrow> endpoint_udp lhs = endpoint_udp rhs"

definition RemoteAddress_neq :: "RemoteAddress \<Rightarrow> RemoteAddress \<Rightarrow> bool" where
  "RemoteAddress_neq lhs rhs \<longleftrightarrow> \<not> RemoteAddress_eq lhs rhs"

lemma RemoteAddress_eq_iff [simp]: "RemoteAddress_eq a b \<longleftrightarrow> a = b"
  by (cases a; cases b) (simp add: RemoteAddress_eq_def)

text \<open>
  What the networking library answers: the results of resolving a name (\<open>None\<close> for an error),
  whether opening the socket, binding it and enabling broadcasts succeed, and the text of an address.
\<close>

record network =
  asio_resolve :: "SocketProtocol \<Rightarrow> u8 list \<Rightarrow> u16 \<Rightarrow> udp_endpoint list option"
  asio_open :: "SocketProtocol \<Rightarrow> bool"
  asio_bind :: "SocketProtocol \<Rightarrow> u16 \<Rightarrow> bool"
  asio_broadcast :: "SocketProtocol \<Rightarrow> bool"
  asio_address_text :: "u8 list \<Rightarrow> u8 list"

definition RemoteAddress_ToString :: "network \<Rightarrow> RemoteAddress \<Rightarrow> u8 list" where
  "RemoteAddress_ToString net a = asio_address_text net (fst (endpoint_udp a))"

section \<open>State\<close>

datatype SocketState = CLOSED | OPEN

text \<open>
  \<open>su_is_open\<close> is the state of the asio socket, \<open>su_joinable\<close> whether a worker thread has
  been started and not been joined, \<open>su_posted\<close> the connect callbacks waiting in the queue of the
  io context, \<open>su_write\<close> the datagram being sent and \<open>m_readbuf\<close> the receive buffer, which keeps
  the bytes of older datagrams.  Callbacks are values of arbitrary types.
\<close>

record ('c, 'w) SocketUDP =
  su_state :: SocketState
  m_family :: SocketProtocol
  su_is_open :: bool
  su_joinable :: bool
  m_socketThreadAbort :: bool
  m_reading :: bool
  m_sending :: bool
  su_posted :: "('c \<times> bool \<times> RemoteAddress) list"
  su_write :: "(RemoteAddress \<times> u8 list \<times> 'w) option"
  m_readbuf :: "u8 list"

definition SocketUDP_new :: "('c, 'w) SocketUDP" where
  "SocketUDP_new = \<lparr>su_state = CLOSED, m_family = IPv4, su_is_open = False, su_joinable = False,
     m_socketThreadAbort = False, m_reading = False, m_sending = False, su_posted = [],
     su_write = None, m_readbuf = replicate PACKETQUEUE_IN_LEN 0\<rparr>"

section \<open>Operations\<close>

definition GetState :: "('c, 'w) SocketUDP \<Rightarrow> SocketState" where
  "GetState s = su_state s"

definition GetProtocol :: "('c, 'w) SocketUDP \<Rightarrow> SocketProtocol" where
  "GetProtocol s = m_family s"

definition IsOpenAndReady :: "('c, 'w) SocketUDP \<Rightarrow> bool" where
  "IsOpenAndReady s = su_is_open s"

definition IsReadPending :: "('c, 'w) SocketUDP \<Rightarrow> bool" where
  "IsReadPending s = m_reading s"

definition IsWritePending :: "('c, 'w) SocketUDP \<Rightarrow> bool" where
  "IsWritePending s = m_sending s"

definition GetAsioProtocol :: "('c, 'w) SocketUDP \<Rightarrow> SocketProtocol" where
  "GetAsioProtocol s = (if m_family s = IPv4 then IPv4 else IPv6)"

definition SocketUDP_Resolve ::
  "network \<Rightarrow> u8 list \<Rightarrow> u16 \<Rightarrow> ('c, 'w) SocketUDP \<Rightarrow> RemoteAddress option" where
  "SocketUDP_Resolve net hostname port s =
     (case asio_resolve net (GetAsioProtocol s) hostname port of
        None \<Rightarrow> None
      | Some [] \<Rightarrow> None
      | Some (it # _) \<Rightarrow> Some \<lparr>endpoint_udp = it\<rparr>)"

definition SocketUDP_Connect ::
  "network \<Rightarrow> u8 list \<Rightarrow> u16 \<Rightarrow> 'c \<Rightarrow> ('c, 'w) SocketUDP \<Rightarrow>
   ConnectAttemptResult \<times> ('c, 'w) SocketUDP" where
  "SocketUDP_Connect net host port callback s =
     (if GetState s \<noteq> OPEN \<or> \<not> IsOpenAndReady s then (INVALID_STATE, s)
      else if host = [] \<or> port = 0 then (INVALID_PARAMETER, s)
      else (case SocketUDP_Resolve net host port s of
              None \<Rightarrow> (INVALID_HOSTNAME, s)
            | Some addr \<Rightarrow> (OK, s\<lparr>su_posted := su_posted s @ [(callback, False, addr)]\<rparr>)))"

definition SocketUDP_Disconnect :: "('c, 'w) SocketUDP \<Rightarrow> ('c, 'w) SocketUDP" where
  "SocketUDP_Disconnect s = s"

definition SocketUDP_Unbind :: "('c, 'w) SocketUDP \<Rightarrow> ('c, 'w) SocketUDP" where
  "SocketUDP_Unbind s =
     (let s = (if su_is_open s then s\<lparr>su_is_open := False, su_state := CLOSED\<rparr> else s);
          s = s\<lparr>m_socketThreadAbort := True\<rparr>
      in if su_joinable s then s\<lparr>su_joinable := False\<rparr> else s)"

definition SocketUDP_Bind ::
  "network \<Rightarrow> SocketProtocol \<Rightarrow> u16 \<Rightarrow> ('c, 'w) SocketUDP \<Rightarrow> bool \<times> ('c, 'w) SocketUDP" where
  "SocketUDP_Bind net family port s =
     (if GetState s \<noteq> CLOSED then (False, s)
      else (let s = s\<lparr>m_family := family\<rparr>; protocol = GetAsioProtocol s
            in if \<not> asio_open net protocol then (False, s\<lparr>su_is_open := False\<rparr>)
               else if \<not> asio_bind net protocol port \<or> \<not> asio_broadcast net protocol
               then (False, s\<lparr>su_is_open := True\<rparr>)
               else (True, s\<lparr>su_is_open := True, su_joinable := True, su_state := OPEN\<rparr>)))"

definition SocketUDP_destroy :: "('c, 'w) SocketUDP \<Rightarrow> ('c, 'w) SocketUDP" where
  "SocketUDP_destroy s = SocketUDP_Unbind (SocketUDP_Disconnect s)"

definition BeginWrite ::
  "RemoteAddress \<Rightarrow> u8 list \<Rightarrow> 'w \<Rightarrow> ('c, 'w) SocketUDP \<Rightarrow> ('c, 'w) SocketUDP" where
  "BeginWrite addr data callback s = s\<lparr>m_sending := True, su_write := Some (addr, data, callback)\<rparr>"

definition BeginRead :: "('c, 'w) SocketUDP \<Rightarrow> ('c, 'w) SocketUDP" where
  "BeginRead s = s\<lparr>m_reading := True\<rparr>"

text \<open>
  The completion of a write: the callback to call, if a write was under way.  The completion of a
  read: the datagram is in the receive buffer, the callback runs, and then reading continues if there
  was no error and the socket is still open.
\<close>

definition write_completion :: "('c, 'w) SocketUDP \<Rightarrow> 'w option \<times> ('c, 'w) SocketUDP" where
  "write_completion s = (map_option (snd \<circ> snd) (su_write s), s\<lparr>m_sending := False, su_write := None\<rparr>)"

definition fill_readbuf :: "u8 list \<Rightarrow> ('c, 'w) SocketUDP \<Rightarrow> ('c, 'w) SocketUDP" where
  "fill_readbuf data s =
     (let data = take PACKETQUEUE_IN_LEN data
      in s\<lparr>m_readbuf := overwrite 0 data (m_readbuf s)\<rparr>)"

definition after_read :: "bool \<Rightarrow> ('c, 'w) SocketUDP \<Rightarrow> ('c, 'w) SocketUDP" where
  "after_read error s =
     (if \<not> error \<and> IsOpenAndReady s then BeginRead s else s\<lparr>m_reading := False\<rparr>)"

text \<open>The worker thread processes the queue of the io context as long as it is not told to stop.\<close>

definition SocketUDP_ThreadWorker ::
  "('c, 'w) SocketUDP \<Rightarrow> ('c \<times> bool \<times> RemoteAddress) option \<times> ('c, 'w) SocketUDP" where
  "SocketUDP_ThreadWorker s =
     (if su_joinable s \<and> \<not> m_socketThreadAbort s
      then (case su_posted s of [] \<Rightarrow> (None, s) | p # ps \<Rightarrow> (Some p, s\<lparr>su_posted := ps\<rparr>))
      else (None, s))"

section \<open>Laws\<close>

datatype 'c socket_event =
    SBind SocketProtocol u16
  | SUnbind
  | SConnect "u8 list" u16 'c
  | SWorker

fun socket_step :: "network \<Rightarrow> 'c socket_event \<Rightarrow> ('c, 'w) SocketUDP \<Rightarrow> ('c, 'w) SocketUDP" where
  "socket_step net (SBind f p) s = snd (SocketUDP_Bind net f p s)"
| "socket_step net SUnbind s = SocketUDP_Unbind s"
| "socket_step net (SConnect h p c) s = snd (SocketUDP_Connect net h p c s)"
| "socket_step net SWorker s = snd (SocketUDP_ThreadWorker s)"

definition socket_ok :: "('c, 'w) SocketUDP \<Rightarrow> bool" where
  "socket_ok s \<longleftrightarrow> (su_state s = OPEN \<longrightarrow> su_is_open s) \<and> (su_state s = OPEN \<longleftrightarrow> su_joinable s)"

lemma socket_step_ok: "socket_ok s \<Longrightarrow> socket_ok (socket_step net e s)"
  by (cases e)
    (auto simp: socket_ok_def SocketUDP_Bind_def SocketUDP_Unbind_def SocketUDP_Connect_def
      SocketUDP_ThreadWorker_def GetState_def Let_def split: option.splits list.splits SocketState.splits)

lemma abort_stays: "m_socketThreadAbort s \<Longrightarrow> m_socketThreadAbort (socket_step net e s)"
  by (cases e)
    (auto simp: SocketUDP_Bind_def SocketUDP_Unbind_def SocketUDP_Connect_def
      SocketUDP_ThreadWorker_def Let_def split: option.splits list.splits)

lemma fold_abort: "m_socketThreadAbort s \<Longrightarrow> m_socketThreadAbort (fold (socket_step net) es s)"
  by (induction es arbitrary: s) (auto intro: abort_stays)

lemma fold_ok: "socket_ok s \<Longrightarrow> socket_ok (fold (socket_step net) es s)"
  by (induction es arbitrary: s) (auto intro: socket_step_ok)

text \<open>
  A socket that was unbound once is dead although it can be bound again: binding succeeds and
  connect attempts are accepted, but its worker thread never runs another callback.
\<close>

lemma rebound_socket_dead:
  assumes "asio_open net family" "asio_bind net family port" "asio_broadcast net family"
    and "host \<noteq> []" "hport \<noteq> 0"
    and "asio_resolve net family host hport = Some (ep # eps)"
    and s: "s = fold (socket_step net) es SocketUDP_new"
  shows "\<exists>s1 s2. SocketUDP_Bind net family port (SocketUDP_Unbind s) = (True, s1) \<and>
    SocketUDP_Connect net host hport cb s1 = (OK, s2) \<and>
    (\<forall>es'. fst (SocketUDP_ThreadWorker (fold (socket_step net) es' s2)) = None)"
proof -
  have ok: "socket_ok s" unfolding s by (rule fold_ok) (simp add: socket_ok_def SocketUDP_new_def)
  have p: "GetAsioProtocol (t\<lparr>m_family := family\<rparr>) = family" for t :: "('a, 'b) SocketUDP"
    by (cases family) (simp_all add: GetAsioProtocol_def)
  have u: "su_state (SocketUDP_Unbind s) = CLOSED" "m_socketThreadAbort (SocketUDP_Unbind s)"
    using ok by (cases "su_state s"; auto simp: SocketUDP_Unbind_def socket_ok_def Let_def)+
  let ?s1 = "(SocketUDP_Unbind s)\<lparr>m_family := family, su_is_open := True, su_joinable := True, su_state := OPEN\<rparr>"
  have b: "SocketUDP_Bind net family port (SocketUDP_Unbind s) = (True, ?s1)"
    using u(1) assms(1,2,3) p by (simp add: SocketUDP_Bind_def GetState_def Let_def)
  have "GetAsioProtocol ?s1 = family" by (cases family) (simp_all add: GetAsioProtocol_def)
  then have c: "SocketUDP_Connect net host hport cb ?s1 =
      (OK, ?s1\<lparr>su_posted := su_posted ?s1 @ [(cb, False, \<lparr>endpoint_udp = ep\<rparr>)]\<rparr>)"
    using assms(4,5,6)
    by (simp add: SocketUDP_Connect_def SocketUDP_Resolve_def GetState_def IsOpenAndReady_def)
  have "fst (SocketUDP_ThreadWorker (fold (socket_step net) es' t)) = None"
    if "m_socketThreadAbort t" for es' and t :: "('a, 'b) SocketUDP"
    using fold_abort [OF that, of net es'] by (simp add: SocketUDP_ThreadWorker_def)
  then show ?thesis using b c u(2) by fastforce
qed

definition example_network :: network where
  "example_network = \<lparr>asio_resolve = (\<lambda>f h p. Some [([127, 0, 0, 1], p)]), asio_open = (\<lambda>f. True),
     asio_bind = (\<lambda>f p. True), asio_broadcast = (\<lambda>f. True),
     asio_address_text = (\<lambda>a. [49])\<rparr>"

lemma rebound_socket_dead_witness:
  "\<exists>s1 s2. SocketUDP_Bind example_network IPv4 1337 (SocketUDP_Unbind
      (fold (socket_step example_network) [SBind IPv4 1337] SocketUDP_new :: (nat, nat) SocketUDP)) = (True, s1) \<and>
    SocketUDP_Connect example_network [104] 80 1 s1 = (OK, s2) \<and>
    (\<forall>es'. fst (SocketUDP_ThreadWorker (fold (socket_step example_network) es' s2)) = None)"
  by (rule rebound_socket_dead [OF _ _ _ _ _ _ refl]) (simp_all add: example_network_def)

end
