(* ===== verification/Peer_State.thy ===== *)
theory Peer_State
  imports ChannelBuffers Congestion Reassembly Authenticator Receipts Rpc Sockets
begin

text \<open>
  The state of a peer and the operations on one slot of it: \<^verbatim>\<open>source/RemotePeer.cpp\<close>, the
  data of \<^verbatim>\<open>PacketQueue.h\<close>, \<^verbatim>\<open>Handshaker.h\<close> and \<^verbatim>\<open>Peer.h\<close>, the
  look-up functions of \<^verbatim>\<open>Peer.cpp\<close> and the queueing functions of
  \<^verbatim>\<open>PacketQueue.cpp\<close>.

  A pointer to a \<^verbatim>\<open>RemotePeer\<close> is the index of its slot in \<^verbatim>\<open>m_remotes\<close>.  The
  encryption layers are shared between a slot, the authenticator of its handshake and the packets
  that are to be encrypted with them; they live in the store \<open>p_layers\<close> and a
  \<^verbatim>\<open>shared_ptr\<close> is an index of it.  Every socket handle is the one UDP socket of the peer.
  The clock, the random numbers and the libraries an operation asks are the record \<open>Env\<close>.
\<close>

section \<open>Data\<close>

type_synonym slot = nat

record Env =
  e_now :: Timestamp
  e_sodium :: sodium
  e_net :: network
  e_encryption :: bool   \<comment> \<open>built with \<^verbatim>\<open>WIREFOX_ENABLE_ENCRYPTION\<close>\<close>
  e_rnd_identity :: bytes
  e_rnd_kx :: bytes
  e_rnd_challenge :: bytes
  e_rnd_seal :: bytes
  e_rnd_nonce :: bytes

record OutgoingPacket =
  op_crypto :: "nat option"
  op_blob :: BinaryStream
  op_addr :: RemoteAddress
  op_remote :: slot
  sendNext :: Timestamp
  sendCount :: nat
  op_id :: PacketID
  op_options :: PacketOptions

record OutgoingDatagram =
  od_crypto :: "nat option"
  od_blob :: BinaryStream
  od_addr :: RemoteAddress
  od_id :: DatagramID
  od_discard :: Timestamp
  od_packets :: "PacketID list"

text \<open>
  A handshake.  The two handlers are member functions of the peer, bound to the slot; the fields say
  whether they are set.
\<close>

record Handshaker =
  hs_origin :: ConnectionOrigin
  hs_result :: ConnectResult
  m_auth :: "(nat \<times> EncryptionAuthenticator) option"
  m_replyHandler :: bool
  m_completionHandler :: bool
  m_lastReply :: BinaryStream
  m_resendNext :: Timestamp
  m_resendAttempts :: nat
  m_expectedOpcode :: u8

record RemotePeer =
  channels :: "ChannelIndex \<rightharpoonup> ChannelBuffer"
  rp_addr :: RemoteAddress
  outbox :: "OutgoingPacket list"
  sentbox :: "OutgoingDatagram list"
  rp_socket :: bool
  crypto :: "nat option"
  handshake :: "Handshaker option"
  congestion :: "CongestionControlWindow option"
  receipt :: "ReceiptTracker option"
  assembly :: ReassemblyBuffer
  rp_stats :: PeerStats
  rp_id :: PeerID
  disconnect :: Timestamp
  reserved :: bool
  active :: bool

type_synonym callback = nat

text \<open>
  The peer with its queue.  \<open>p_calls\<close> records the callbacks that were invoked,
  \<open>m_updateThread\<close> says whether the worker thread of the queue is running.
\<close>

record Peer =
  m_id :: PeerID
  m_remotesMax :: nat
  m_remotesIncoming :: nat
  m_advertisement :: BinaryStream
  m_rpc :: "callback RpcController"
  m_masterSocket :: "(slot, slot \<times> DatagramID) SocketUDP"
  m_remotes :: "RemotePeer list"
  m_inbox :: "Packet list"
  m_remoteLookup :: "PeerID \<rightharpoonup> slot"
  m_channels :: "ChannelMode list"
  m_crypto_identity :: "Keypair option"
  m_crypto_enabled :: bool
  p_layers :: "EncryptionLayer list"
  p_calls :: "callback invocation list"
  m_updateThreadAbort :: bool
  m_updateThread :: bool

definition at_slot :: "slot \<Rightarrow> Peer \<Rightarrow> RemotePeer" where
  "at_slot i p = m_remotes p ! i"

definition upd_slot :: "slot \<Rightarrow> (RemotePeer \<Rightarrow> RemotePeer) \<Rightarrow> Peer \<Rightarrow> Peer" where
  "upd_slot i f p = p\<lparr>m_remotes := (m_remotes p)[i := f (m_remotes p ! i)]\<rparr>"

definition upd_stats :: "slot \<Rightarrow> (PeerStats \<Rightarrow> PeerStats) \<Rightarrow> Peer \<Rightarrow> Peer" where
  "upd_stats i f p = upd_slot i (\<lambda>r. r\<lparr>rp_stats := f (rp_stats r)\<rparr>) p"

definition HasFlag :: "PacketOptions \<Rightarrow> OutgoingPacket \<Rightarrow> bool" where
  "HasFlag test out \<longleftrightarrow> (op_options out AND test) = test"

section \<open>Slots\<close>

definition RemotePeer_new :: RemotePeer where
  "RemotePeer_new = \<lparr>channels = Map.empty, rp_addr = RemoteAddress_default, outbox = [], sentbox = [],
     rp_socket = False, crypto = None, handshake = None, congestion = None, receipt = None,
     assembly = ReassemblyBuffer_new, rp_stats = PeerStats_empty, rp_id = 0, disconnect = 0,
     reserved = False, active = False\<rparr>"

definition IsConnected :: "RemotePeer \<Rightarrow> bool" where
  "IsConnected r \<longleftrightarrow> active r \<and>
     (case handshake r of None \<Rightarrow> False | Some h \<Rightarrow> hs_result h = CR_OK)"

definition IsOutOfBand :: "RemotePeer \<Rightarrow> bool" where
  "IsOutOfBand r \<longleftrightarrow> rp_id r = 0 \<or> handshake r = None"

definition IsDisconnecting :: "RemotePeer \<Rightarrow> bool" where
  "IsDisconnecting r \<longleftrightarrow> Timestamp_IsValid (disconnect r)"

definition DefaultEncryption_new :: "Env \<Rightarrow> EncryptionLayer result" where
  "DefaultEncryption_new env =
     (if e_encryption env
      then rbind (Sodium_new (e_sodium env) (e_rnd_kx env)) (\<lambda>c. Inr (LayerSodium c))
      else Inr LayerNull)"

definition NOT_STARTED :: u8 where "NOT_STARTED = 0"
definition INITIAL_CLIENT :: u8 where "INITIAL_CLIENT = 1"
definition INITIAL_SERVER :: u8 where "INITIAL_SERVER = 2"
definition AUTH_MSG :: u8 where "AUTH_MSG = 3"
definition UNENCRYPTED_ACK :: u8 where "UNENCRYPTED_ACK = 4"
definition ERROR_OCCURRED :: u8 where "ERROR_OCCURRED = 5"

lemmas opcode_defs = NOT_STARTED_def INITIAL_CLIENT_def INITIAL_SERVER_def AUTH_MSG_def
  UNENCRYPTED_ACK_def ERROR_OCCURRED_def

definition Handshaker_new :: "bool \<Rightarrow> nat \<Rightarrow> ConnectionOrigin \<Rightarrow> Handshaker" where
  "Handshaker_new encryption layer origin =
     \<lparr>hs_origin = origin, hs_result = CR_IN_PROGRESS,
      m_auth = (if encryption then Some (layer, EncryptionAuthenticator_new origin) else None),
      m_replyHandler = False, m_completionHandler = False, m_lastReply = BinaryStream_new 0,
      m_resendNext = 0, m_resendAttempts = 0, m_expectedOpcode = NOT_STARTED\<rparr>"

definition IsDone :: "Handshaker \<Rightarrow> bool" where
  "IsDone h \<longleftrightarrow> hs_result h \<noteq> CR_IN_PROGRESS"

definition RemotePeer_Setup :: "Env \<Rightarrow> slot \<Rightarrow> ConnectionOrigin \<Rightarrow> Peer \<Rightarrow> Peer result" where
  "RemotePeer_Setup env i origin p =
     (let p = upd_slot i (\<lambda>r. r\<lparr>reserved := True,
                congestion := Some (CongestionControlWindow_new (e_now env)),
                receipt := Some ReceiptTracker_new\<rparr>) p
      in if origin = INVALID then Inr p
         else rbind (DefaultEncryption_new env) (\<lambda>layer.
              let a = length (p_layers p);
                  p = p\<lparr>p_layers := p_layers p @ [Crypto_SetLocalIdentity (m_crypto_identity p) layer]\<rparr>
              in Inr (upd_slot i (\<lambda>r. r\<lparr>crypto := Some a,
                   handshake := Some (Handshaker_new (m_crypto_enabled p) a origin)\<rparr>) p)))"

definition RemotePeer_Reset :: "slot \<Rightarrow> Peer \<Rightarrow> Peer" where
  "RemotePeer_Reset i p = upd_slot i (\<lambda>r. r\<lparr>active := False, disconnect := 0, rp_id := 0,
     rp_addr := RemoteAddress_default, rp_socket := False, handshake := None, congestion := None,
     crypto := None, receipt := None,
     assembly := fst (ReassemblyBuffer_move_assign (assembly r) ReassemblyBuffer_new),
     rp_stats := PeerStats_empty, outbox := [], sentbox := [], channels := Map.empty,
     reserved := False\<rparr>) p"

section \<open>Look-up\<close>

definition GetMaximumPeers :: "Peer \<Rightarrow> nat" where
  "GetMaximumPeers p = size_sub (m_remotesMax p) 1"

definition GetMaximumIncomingPeers :: "Peer \<Rightarrow> nat" where
  "GetMaximumIncomingPeers p = m_remotesIncoming p"

definition SetMaximumIncomingPeers :: "nat \<Rightarrow> Peer \<Rightarrow> Peer" where
  "SetMaximumIncomingPeers incoming p =
     p\<lparr>m_remotesIncoming := min (max incoming 0) (GetMaximumPeers p)\<rparr>"

definition GetMyPeerID :: "Peer \<Rightarrow> PeerID" where
  "GetMyPeerID p = m_id p"

definition GetEncryptionEnabled :: "Peer \<Rightarrow> bool" where
  "GetEncryptionEnabled p = m_crypto_enabled p"

definition GetRemoteByIndex :: "nat \<Rightarrow> Peer \<Rightarrow> slot result" where
  "GetRemoteByIndex index p = rassert (index < m_remotesMax p) (Inr index)"

definition find_remote :: "PeerID \<Rightarrow> Peer \<Rightarrow> slot option" where
  "find_remote who p =
     find (\<lambda>i. rp_id (at_slot i p) = who \<and> active (at_slot i p)) [1..<m_remotesMax p]"

definition GetRemoteByID :: "PeerID \<Rightarrow> Peer \<Rightarrow> slot option \<times> Peer" where
  "GetRemoteByID who p = (case m_remoteLookup p who of
      Some i \<Rightarrow> (Some i, p)
    | None \<Rightarrow> (case find_remote who p of
          Some i \<Rightarrow> (Some i, p\<lparr>m_remoteLookup := (m_remoteLookup p)(who \<mapsto> i)\<rparr>)
        | None \<Rightarrow> (None, p)))"

definition GetRemoteByID_const :: "PeerID \<Rightarrow> Peer \<Rightarrow> slot option" where
  "GetRemoteByID_const who p = (case m_remoteLookup p who of
      Some i \<Rightarrow> Some i
    | None \<Rightarrow> find_remote who p)"

definition GetRemoteByAddress :: "RemoteAddress \<Rightarrow> Peer \<Rightarrow> slot option" where
  "GetRemoteByAddress addr p =
     find (\<lambda>i. active (at_slot i p) \<and> RemoteAddress_eq (rp_addr (at_slot i p)) addr) [1..<m_remotesMax p]"

definition GetNextAvailableConnectSlot :: "Peer \<Rightarrow> slot option" where
  "GetNextAvailableConnectSlot p = find (\<lambda>i. \<not> reserved (at_slot i p)) [0..<m_remotesMax p]"

definition GetNextAvailableIncomingSlot :: "Peer \<Rightarrow> slot option" where
  "GetNextAvailableIncomingSlot p =
     (if GetMaximumIncomingPeers p = 0 then None
      else (let minIndex = m_remotesMax p - GetMaximumIncomingPeers p
            in find (\<lambda>i. \<not> reserved (at_slot i p)) (rev [minIndex..<m_remotesMax p])))"

definition MakeChannel :: "ChannelMode \<Rightarrow> Peer \<Rightarrow> Channel \<times> Peer" where
  "MakeChannel mode p =
     (if length (m_channels p) < 255
      then (let p = p\<lparr>m_channels := m_channels p @ [mode]\<rparr>
            in (\<lparr>channel_id = of_nat (length (m_channels p) - 1), channel_mode = mode\<rparr>, p))
      else (\<lparr>channel_id = 0, channel_mode = UNORDERED\<rparr>, p))"

definition GetChannelModeByIndex :: "ChannelIndex \<Rightarrow> Peer \<Rightarrow> ChannelMode result" where
  "GetChannelModeByIndex index p =
     (if unat index < length (m_channels p) then Inr (m_channels p ! unat index) else Inl OutOfRange)"

text \<open>
  The buffer of a channel, built when it is first asked for.  The pointer to it is the index of the
  channel.
\<close>

definition GetChannelBuffer ::
  "slot \<Rightarrow> ChannelIndex \<Rightarrow> Peer \<Rightarrow> (ChannelIndex option \<times> Peer) result" where
  "GetChannelBuffer i index p =
     (if index = 0 then Inr (None, p) else
      rbind (GetChannelModeByIndex index p) (\<lambda>mode.
      if mode = UNORDERED then Inr (None, p) else
      if channels (at_slot i p) index \<noteq> None then Inr (Some index, p) else
      rbind (ChannelBuffer_new (\<lambda>k. GetChannelModeByIndex k p) index) (\<lambda>b.
      Inr (Some index, upd_slot i (\<lambda>r. r\<lparr>channels := (channels r)(index \<mapsto> b)\<rparr>) p))))"

section \<open>Queueing\<close>

definition EnqueueLoopback :: "Packet \<Rightarrow> Peer \<Rightarrow> Peer result" where
  "EnqueueLoopback packet p =
     rbind (Packet_copy packet) (\<lambda>c. Inr (p\<lparr>m_inbox := m_inbox p @ [c]\<rparr>))"

definition SendLoopback :: "Packet \<Rightarrow> Peer \<Rightarrow> Peer result" where
  "SendLoopback packet p = EnqueueLoopback packet p"

definition DequeueIncoming :: "Peer \<Rightarrow> Packet option \<times> Peer" where
  "DequeueIncoming p = (case m_inbox p of
      [] \<Rightarrow> (None, p)
    | next # rest \<Rightarrow> (Some next, p\<lparr>m_inbox := rest\<rparr>))"

definition EnqueueOutOfBand ::
  "Env \<Rightarrow> Packet \<Rightarrow> RemoteAddress \<Rightarrow> slot option \<Rightarrow> Peer \<Rightarrow> Peer result" where
  "EnqueueOutOfBand env packet addr forceCryptoBy p =
     rassert (pkt_length packet < MTU - 100) (
     rbind (GetRemoteByIndex 0 p) (\<lambda>r0.
     let header = PacketHeader_default\<lparr>ph_options := UNRELIABLE,
                    ph_length := of_nat (GetDatagramLength packet), ph_offset := 0\<rparr>
     in rbind (PacketHeader_Serialize header (BinaryStream_new BINARYSTREAM_DEFAULT_CAPACITY)) (\<lambda>blob.
        rbind (ToDatagram packet blob) (\<lambda>blob.
        let meta = \<lparr>op_crypto = (case forceCryptoBy of None \<Rightarrow> None | Some i \<Rightarrow> crypto (at_slot i p)),
                    op_blob = blob, op_addr = addr, op_remote = r0, sendNext = e_now env,
                    sendCount = 0, op_id = 0, op_options = UNRELIABLE\<rparr>
        in Inr (upd_slot r0 (\<lambda>r. r\<lparr>outbox := outbox r @ [meta]\<rparr>) p)))))"

definition SendOutOfBand :: "Env \<Rightarrow> Packet \<Rightarrow> RemoteAddress \<Rightarrow> Peer \<Rightarrow> Peer result" where
  "SendOutOfBand env packet addr p = EnqueueOutOfBand env packet addr None p"

text \<open>One round of the loop of \<^verbatim>\<open>EnqueueOutgoing\<close>: segment \<open>k\<close> of \<open>nsegs\<close>.\<close>

definition Enqueue_segment ::
  "Env \<Rightarrow> Packet \<Rightarrow> BinaryStream \<Rightarrow> slot \<Rightarrow> PacketOptions \<Rightarrow> ChannelIndex \<Rightarrow> SequenceID \<Rightarrow> PacketID \<Rightarrow>
   nat \<Rightarrow> nat \<Rightarrow> PacketID set \<times> RemotePeer \<Rightarrow> (PacketID set \<times> RemotePeer) result" where
  "Enqueue_segment env packet full i opts chan seq container nsegs k = (\<lambda>(ids, r).
     rbind (if nsegs > 1
            then (case congestion r of None \<Rightarrow> Inl NullPointer
              | Some c \<Rightarrow> (let (n, c) = GetNextPacketID c
                          in Inr (n, options_or opts RELIABLE, insert n ids, r\<lparr>congestion := Some c\<rparr>)))
            else Inr (container, opts, ids, r)) (\<lambda>(mid, mopts, ids, r).
     let bufferLength = min (size_sub (m_length full) (k * CHUNK_SIZE)) CHUNK_SIZE;
         header = \<lparr>flag_segment = (k < nsegs - 1), flag_jumbo = (pkt_length packet \<ge> 65535),
                   ph_id = mid, ph_options = opts, ph_channel = chan, ph_sequence = seq,
                   ph_length = of_nat bufferLength, ph_offset = of_nat (k * CHUNK_SIZE),
                   splitContainer = container, splitIndex = of_nat k\<rparr>
     in rbind (PacketHeader_Serialize header (BinaryStream_new BINARYSTREAM_DEFAULT_CAPACITY)) (\<lambda>blob.
        rbind (load_bytes (GetBuffer full) (unat (ph_offset header)) bufferLength) (\<lambda>bs.
        rbind (WriteBytes bs blob) (\<lambda>blob.
        let meta = \<lparr>op_crypto = None, op_blob = blob, op_addr = rp_addr r, op_remote = i,
                    sendNext = e_now env, sendCount = 0, op_id = mid, op_options = mopts\<rparr>
        in Inr (ids, r\<lparr>outbox := outbox r @ [meta]\<rparr>))))))"

definition EnqueueOutgoing ::
  "Env \<Rightarrow> Packet \<Rightarrow> slot \<Rightarrow> PacketOptions \<Rightarrow> PacketPriority \<Rightarrow> Channel \<Rightarrow> Peer \<Rightarrow>
   (PacketID \<times> Peer) result" where
  "EnqueueOutgoing env packet i opts priority channel p =
     rassert (pkt_length packet < PACKET_MAX_LENGTH) (
     if IsDisconnecting (at_slot i p) then Inr (0, p) else
     rbind (ToDatagram packet (BinaryStream_new (GetDatagramLength packet))) (\<lambda>full.
     rassert (m_length full = GetDatagramLength packet) (
     let nsegs = size_sub (m_length full) 1 div CHUNK_SIZE + 1
     in case congestion (at_slot i p) of None \<Rightarrow> Inl NullPointer
        | Some c \<Rightarrow>
          (let (container, c) = GetNextPacketID c;
               p = upd_slot i (\<lambda>r. r\<lparr>congestion := Some c\<rparr>) p
           in rbind (GetChannelBuffer i (channel_id channel) p) (\<lambda>(chbuf, p).
              rbind (case chbuf of None \<Rightarrow> Inr (0, p)
                | Some ix \<Rightarrow> (case channels (at_slot i p) ix of None \<Rightarrow> Inl NullPointer
                    | Some b \<Rightarrow> (let (seq, b) = GetNextOutgoing b
                        in Inr (seq, upd_slot i (\<lambda>r. r\<lparr>channels := (channels r)(ix \<mapsto> b)\<rparr>) p)))) (\<lambda>(seq, p).
              rbind (rfold (Enqueue_segment env packet full i opts (channel_id channel) seq container nsegs)
                       [0..<nsegs] ({}, at_slot i p)) (\<lambda>(ids, r).
              rbind (if options_and opts WITH_RECEIPT
                     then (case receipt r of None \<Rightarrow> Inl NullPointer
                       | Some t \<Rightarrow>
                          (let t = Track container t;
                               t = (if nsegs > 1 then RegisterSplitPacket container ids t else t)
                           in Inr (r\<lparr>receipt := Some t\<rparr>)))
                     else Inr r) (\<lambda>r.
              Inr (container,
                   upd_stats i (PeerStats_Add PACKETS_QUEUED 1) (upd_slot i (\<lambda>_. r) p)))))))))) "

definition OnMessageReceipt :: "PacketID \<Rightarrow> bool \<Rightarrow> Peer \<Rightarrow> Peer result" where
  "OnMessageReceipt i delivered p =
     rbind (WriteInt32 i (BinaryStream_new 4)) (\<lambda>outstream.
     let cmd = (if delivered then NOTIFY_RECEIPT_ACKED else NOTIFY_RECEIPT_LOST);
         notification = fst (Packet_of_moved_stream cmd outstream)
     in SendLoopback (SetSender (ucast i) notification) p)"

definition OnMessageReceipts :: "receipts \<Rightarrow> Peer \<Rightarrow> Peer result" where
  "OnMessageReceipts rs p = rfold (\<lambda>(i, delivered). OnMessageReceipt i delivered) rs p"

section \<open>Acknowledgements\<close>

definition GetOutgoingPacketByID :: "PacketID \<Rightarrow> OutgoingPacket list \<Rightarrow> nat option" where
  "GetOutgoingPacketByID packetID box = find (\<lambda>k. op_id (box ! k) = packetID) [0..<length box]"

definition list_erase :: "nat \<Rightarrow> 'a list \<Rightarrow> 'a list" where
  "list_erase k xs = take k xs @ drop (Suc k) xs"

definition RemovePacketFromOutbox :: "PacketID \<Rightarrow> RemotePeer \<Rightarrow> RemotePeer" where
  "RemovePacketFromOutbox remove r = (case GetOutgoingPacketByID remove (outbox r) of
      None \<Rightarrow> r
    | Some k \<Rightarrow> r\<lparr>outbox := list_erase k (outbox r)\<rparr>)"

definition find_datagram :: "DatagramID \<Rightarrow> OutgoingDatagram list \<Rightarrow> nat option" where
  "find_datagram ack box = find (\<lambda>k. od_id (box ! k) = ack) [0..<length box]"

text \<open>A packet of an acknowledged datagram; the receipts are posted to the peer at once.\<close>

definition acknowledge_packet :: "slot \<Rightarrow> PacketID \<Rightarrow> Peer \<Rightarrow> Peer result" where
  "acknowledge_packet i packetID p = (case receipt (at_slot i p) of None \<Rightarrow> Inl NullPointer
    | Some t \<Rightarrow>
        rbind (Acknowledge packetID t) (\<lambda>(rs, t).
        rbind (OnMessageReceipts rs p) (\<lambda>p.
        Inr (upd_slot i (\<lambda>r. RemovePacketFromOutbox packetID (r\<lparr>receipt := Some t\<rparr>)) p))))"

definition acknowledge_datagram :: "Env \<Rightarrow> slot \<Rightarrow> DatagramID \<Rightarrow> Peer \<Rightarrow> Peer result" where
  "acknowledge_datagram env i ack p =
     rbind (case find_datagram ack (sentbox (at_slot i p)) of
              None \<Rightarrow> Inr p
            | Some k \<Rightarrow>
                rbind (rfold (acknowledge_packet i) (od_packets (sentbox (at_slot i p) ! k)) p) (\<lambda>p.
                Inr (upd_slot i (\<lambda>r. r\<lparr>sentbox := list_erase k (sentbox r)\<rparr>) p))) (\<lambda>p.
     case congestion (at_slot i p) of None \<Rightarrow> Inl NullPointer
     | Some c \<Rightarrow> Inr (upd_slot i (\<lambda>r. r\<lparr>congestion := Some (NotifyReceivedAck (e_now env) ack c)\<rparr>) p))"

definition HandleAcknowledgements :: "Env \<Rightarrow> slot \<Rightarrow> DatagramID list \<Rightarrow> Peer \<Rightarrow> Peer result" where
  "HandleAcknowledgements env i acklist p = rfold (acknowledge_datagram env i) acklist p"

definition resend_now :: "Timestamp \<Rightarrow> PacketID \<Rightarrow> RemotePeer \<Rightarrow> RemotePeer" where
  "resend_now now packetID r = (case GetOutgoingPacketByID packetID (outbox r) of
      None \<Rightarrow> r
    | Some k \<Rightarrow> r\<lparr>outbox := (outbox r)[k := (outbox r ! k)\<lparr>sendNext := now\<rparr>]\<rparr>)"

definition nack_datagram :: "Timestamp \<Rightarrow> DatagramID \<Rightarrow> RemotePeer \<Rightarrow> RemotePeer" where
  "nack_datagram now nak r = (case find_datagram nak (sentbox r) of
      None \<Rightarrow> r
    | Some k \<Rightarrow> (let r = fold (resend_now now) (od_packets (sentbox r ! k)) r
                in r\<lparr>sentbox := list_erase k (sentbox r)\<rparr>))"

definition HandleNonAcknowledgements :: "Env \<Rightarrow> slot \<Rightarrow> DatagramID list \<Rightarrow> Peer \<Rightarrow> Peer result" where
  "HandleNonAcknowledgements env i naklist p =
     (let p = upd_slot i (fold (nack_datagram (e_now env)) naklist) p
      in case congestion (at_slot i p) of None \<Rightarrow> Inl NullPointer
         | Some c \<Rightarrow> Inr (upd_slot i (\<lambda>r. r\<lparr>congestion := Some (NotifyReceivedNakGroup c)\<rparr>) p))"

section \<open>Frame rules\<close>

lemma length_upd_slot [simp]: "length (m_remotes (upd_slot i f p)) = length (m_remotes p)"
  by (simp add: upd_slot_def)

lemma at_upd_slot [simp]:
  "i < length (m_remotes p) \<Longrightarrow> at_slot i (upd_slot j f p) = (if i = j then f (at_slot i p) else at_slot i p)"
  by (auto simp: upd_slot_def at_slot_def)

lemma upd_slot_fields [simp]:
  "m_id (upd_slot i f p) = m_id p" "m_remotesMax (upd_slot i f p) = m_remotesMax p"
  "m_remotesIncoming (upd_slot i f p) = m_remotesIncoming p"
  "m_advertisement (upd_slot i f p) = m_advertisement p" "m_rpc (upd_slot i f p) = m_rpc p"
  "m_masterSocket (upd_slot i f p) = m_masterSocket p" "m_inbox (upd_slot i f p) = m_inbox p"
  "m_remoteLookup (upd_slot i f p) = m_remoteLookup p" "m_channels (upd_slot i f p) = m_channels p"
  "m_crypto_identity (upd_slot i f p) = m_crypto_identity p"
  "m_crypto_enabled (upd_slot i f p) = m_crypto_enabled p" "p_layers (upd_slot i f p) = p_layers p"
  "p_calls (upd_slot i f p) = p_calls p" "m_updateThreadAbort (upd_slot i f p) = m_updateThreadAbort p"
  "m_updateThread (upd_slot i f p) = m_updateThread p"
  by (simp_all add: upd_slot_def)

lemma upd_upd_slot [simp]:
  "i < length (m_remotes p) \<Longrightarrow> upd_slot i f (upd_slot i g p) = upd_slot i (\<lambda>r. f (g r)) p"
  by (simp add: upd_slot_def)

lemma at_slot_other [simp]:
  "at_slot i (p\<lparr>m_inbox := a\<rparr>) = at_slot i p" "at_slot i (p\<lparr>p_layers := b\<rparr>) = at_slot i p"
  "at_slot i (p\<lparr>m_remoteLookup := c\<rparr>) = at_slot i p" "at_slot i (p\<lparr>m_masterSocket := d\<rparr>) = at_slot i p"
  "at_slot i (p\<lparr>p_calls := e\<rparr>) = at_slot i p" "at_slot i (p\<lparr>m_updateThread := f\<rparr>) = at_slot i p"
  by (simp_all add: at_slot_def)

lemma GetChannelModeByIndex_frame [simp]:
  "GetChannelModeByIndex k (upd_slot i f p) = GetChannelModeByIndex k p"
  by (simp add: GetChannelModeByIndex_def)

end
