(* ===== verification/Handshake.thy ===== *)
theory Handshake
  imports Peer_State
begin

text \<open>
  The handshake of a connection: \<^verbatim>\<open>source/Handshaker.cpp\<close>,
  \<^verbatim>\<open>source/HandshakerThreeWay.cpp\<close>, and the functions of \<^verbatim>\<open>source/Peer.cpp\<close> it
  calls back: sending a part, posting the result, and taking a connection down.

  The handshaker is owned by its slot.  When a failed handshake resets the slot, the handshaker is
  destroyed while its member function still runs; an access to a member after that point is the
  failure \<open>NullPointer\<close>.
\<close>

section \<open>Sending and completing\<close>

definition the_handshake :: "slot \<Rightarrow> Peer \<Rightarrow> Handshaker result" where
  "the_handshake i p = (case handshake (at_slot i p) of None \<Rightarrow> Inl NullPointer | Some h \<Rightarrow> Inr h)"

definition upd_handshake :: "slot \<Rightarrow> (Handshaker \<Rightarrow> Handshaker) \<Rightarrow> Peer \<Rightarrow> Peer" where
  "upd_handshake i f p = upd_slot i (\<lambda>r. r\<lparr>handshake := map_option f (handshake r)\<rparr>) p"

definition SetupRemotePeerCallbacks :: "slot \<Rightarrow> Peer \<Rightarrow> Peer result" where
  "SetupRemotePeerCallbacks i p =
     rbind (the_handshake i p) (\<lambda>_.
     Inr (upd_handshake i (\<lambda>h. h\<lparr>m_replyHandler := True, m_completionHandler := True\<rparr>) p))"

definition SendHandshakePart :: "Env \<Rightarrow> slot \<Rightarrow> BinaryStream \<Rightarrow> Peer \<Rightarrow> Peer result" where
  "SendHandshakePart env i outstream p = (case crypto (at_slot i p) of
      None \<Rightarrow> Inl AssertFailure
    | Some a \<Rightarrow>
        (let forceCryptoBy = (if Crypto_GetCryptoEstablished (p_layers p ! a) then Some i else None);
             packet = fst (Packet_of_moved_stream CONNECT_ATTEMPT outstream)
         in EnqueueOutOfBand env packet (rp_addr (at_slot i p)) forceCryptoBy p))"

definition SendHandshakeCompleteNotification :: "slot \<Rightarrow> Packet \<Rightarrow> Peer \<Rightarrow> Peer result" where
  "SendHandshakeCompleteNotification i notification p =
     rbind (the_handshake i p) (\<lambda>h.
     let isRemote = (hs_origin h = REMOTE);
         isFailure = (hs_result h \<noteq> CR_OK)
     in rbind (if \<not> isRemote \<or> \<not> isFailure
               then SendLoopback (SetSender (rp_id (at_slot i p)) notification) p
               else Inr p) (\<lambda>p.
        Inr (if isFailure then RemotePeer_Reset i p else p)))"

definition Reply :: "Env \<Rightarrow> slot \<Rightarrow> BinaryStream \<Rightarrow> bool \<Rightarrow> Peer \<Rightarrow> Peer result" where
  "Reply env i outstream isRetry p =
     rbind (the_handshake i p) (\<lambda>h.
     rassert (m_replyHandler h) (
     rbind (BinaryStream_assign (m_lastReply h) outstream) (\<lambda>lastReply.
     let p = upd_handshake i (\<lambda>h. h\<lparr>m_lastReply := lastReply,
               m_resendAttempts := (if \<not> isRetry then 1 else m_resendAttempts h),
               m_resendNext := Timestamp_plus (e_now env) (FromMilliseconds CONNECT_RETRY_DELAY)\<rparr>) p
     in SendHandshakePart env i outstream p)))"

definition Complete :: "slot \<Rightarrow> ConnectResult \<Rightarrow> Peer \<Rightarrow> Peer result" where
  "Complete i res p =
     rbind (the_handshake i p) (\<lambda>h.
     rbind (Reset (m_lastReply h)) (\<lambda>lastReply.
     let p = upd_handshake i (\<lambda>h. h\<lparr>hs_result := res, m_lastReply := lastReply\<rparr>) p
     in if m_completionHandler h
        then rbind (WriteByte res (BinaryStream_new 1)) (\<lambda>payload.
             let notifyCmd = (if hs_origin h = SELF
                              then if res = CR_OK then NOTIFY_CONNECT_SUCCESS else NOTIFY_CONNECT_FAILED
                              else NOTIFY_CONNECTION_INCOMING);
                 notification = fst (Packet_of_moved_stream notifyCmd payload)
             in SendHandshakeCompleteNotification i notification p)
        else Inr p))"

definition Handshaker_Update :: "Env \<Rightarrow> slot \<Rightarrow> Peer \<Rightarrow> Peer result" where
  "Handshaker_Update env i p =
     rbind (the_handshake i p) (\<lambda>h.
     if IsDone h \<or> \<not> Time_Elapsed (e_now env) (m_resendNext h) then Inr p else
     let p = upd_handshake i (\<lambda>h. h\<lparr>m_resendAttempts := m_resendAttempts h + 1\<rparr>) p
     in if m_resendAttempts h + 1 > CONNECT_RETRY_COUNT then Complete i CR_CONNECT_FAILED p
        else if \<not> IsEmpty (m_lastReply h)
        then rbind (BinaryStream_copy (m_lastReply h)) (\<lambda>replyCopy. Reply env i replyCopy True p)
        else Inr p)"

section \<open>Taking a connection down\<close>

definition OnDisconnect :: "slot \<Rightarrow> PacketCommand \<Rightarrow> Peer \<Rightarrow> Peer result" where
  "OnDisconnect i cmd p =
     (let p = p\<lparr>m_remoteLookup := (m_remoteLookup p)(rp_id (at_slot i p) := None)\<rparr>
      in rbind (Packet_of_data cmd None 0) (\<lambda>notification.
         SendLoopback (SetSender (rp_id (at_slot i p)) notification) p))"

definition DisconnectImmediate :: "slot option \<Rightarrow> Peer \<Rightarrow> Peer result" where
  "DisconnectImmediate remote p = (case remote of
      None \<Rightarrow> Inr p
    | Some i \<Rightarrow> (case handshake (at_slot i p) of
          None \<Rightarrow> Inr p
        | Some h \<Rightarrow>
            rbind (if IsDone h \<and> hs_result h = CR_OK
                   then OnDisconnect i (if IsDisconnecting (at_slot i p) then NOTIFY_DISCONNECTED
                                        else NOTIFY_CONNECTION_LOST) p
                   else Complete i CR_CONNECT_FAILED p) (\<lambda>p.
            Inr (RemotePeer_Reset i p))))"

section \<open>The three-way handshake\<close>

definition HANDSHAKE_HEADER_LEN :: nat where
  "HANDSHAKE_HEADER_LEN = length WIREFOX_MAGIC + 1 + 8 + 1"

definition WriteReplyHeader :: "PeerID \<Rightarrow> BinaryStream \<Rightarrow> BinaryStream result" where
  "WriteReplyHeader myID outstream =
     rbind (WriteBytes WIREFOX_MAGIC outstream) (\<lambda>outstream.
     rbind (WriteByte WIREFOX_PROTOCOL_VERSION outstream) (\<lambda>outstream.
     WriteInt64 myID outstream))"

definition WriteOutOfBandErrorReply ::
  "PeerID \<Rightarrow> ConnectResult \<Rightarrow> BinaryStream \<Rightarrow> BinaryStream result" where
  "WriteOutOfBandErrorReply myID res outstream =
     rbind (WriteReplyHeader myID outstream) (\<lambda>outstream.
     rbind (WriteByte ERROR_OCCURRED outstream) (WriteByte res))"

definition ReplyWithError ::
  "Env \<Rightarrow> slot \<Rightarrow> BinaryStream \<Rightarrow> ConnectResult \<Rightarrow> Peer \<Rightarrow> Peer result" where
  "ReplyWithError env i outstream problem p =
     rbind (WriteByte ERROR_OCCURRED outstream) (\<lambda>outstream.
     rbind (WriteByte problem outstream) (\<lambda>outstream. Reply env i outstream False p))"

definition Begin :: "Env \<Rightarrow> slot \<Rightarrow> Peer \<Rightarrow> Peer result" where
  "Begin env i p =
     rbind (the_handshake i p) (\<lambda>h.
     rassert (hs_origin h = SELF) (
     rbind (WriteReplyHeader (GetMyPeerID p) (BinaryStream_new HANDSHAKE_HEADER_LEN)) (\<lambda>hello.
     rbind (WriteByte INITIAL_CLIENT hello) (\<lambda>hello.
     rbind (WriteBool (GetEncryptionEnabled p) hello) (\<lambda>hello.
     Reply env i hello False (upd_handshake i (\<lambda>h. h\<lparr>m_expectedOpcode := INITIAL_SERVER\<rparr>) p))))))"

text \<open>
  The stages of \<^verbatim>\<open>Handle\<close>: the connection request at the server, the answer at the client,
  and a message of the authenticator.
\<close>

definition Handle_request :: "Env \<Rightarrow> slot \<Rightarrow> BinaryStream \<Rightarrow> BinaryStream \<Rightarrow> Peer \<Rightarrow> Peer result" where
  "Handle_request env i instream reply p =
     rbind (the_handshake i p) (\<lambda>h.
     rassert (hs_origin h = REMOTE) (
     rassert (crypto (at_slot i p) \<noteq> None) (
     rbind (ReadBool instream) (\<lambda>(remoteWantsCrypto, instream).
     if remoteWantsCrypto \<noteq> GetEncryptionEnabled p
     then rbind (ReplyWithError env i reply CR_INCOMPATIBLE_SECURITY p) (Complete i CR_INCOMPATIBLE_SECURITY)
     else
     let p = upd_handshake i (\<lambda>h. h\<lparr>m_expectedOpcode :=
               (if GetEncryptionEnabled p then AUTH_MSG else UNENCRYPTED_ACK)\<rparr>) p
     in rbind (WriteByte INITIAL_SERVER reply) (\<lambda>reply.
        rbind (WriteBool (GetEncryptionEnabled p) reply) (\<lambda>reply.
        Reply env i reply False p))))))"

definition Handle_answer :: "Env \<Rightarrow> slot \<Rightarrow> BinaryStream \<Rightarrow> Peer \<Rightarrow> Peer result" where
  "Handle_answer env i reply p =
     rbind (the_handshake i p) (\<lambda>h.
     rassert (hs_origin h = SELF) (
     rbind (if GetEncryptionEnabled p
            then rbind (WriteByte AUTH_MSG reply) (\<lambda>reply.
                 case m_auth h of None \<Rightarrow> Inl NullPointer
                 | Some (a, auth) \<Rightarrow>
                     rbind (Auth_Begin reply (p_layers p ! a) auth) (\<lambda>(reply, auth).
                     Inr (reply, upd_handshake i (\<lambda>h. h\<lparr>m_expectedOpcode := AUTH_MSG,
                                   m_auth := Some (a, auth)\<rparr>) p)))
            else rbind (WriteByte UNENCRYPTED_ACK reply) (\<lambda>reply.
                 rbind (Complete i CR_OK p) (\<lambda>p. Inr (reply, p)))) (\<lambda>(reply, p).
     Reply env i reply False p)))"

definition Handle_auth :: "Env \<Rightarrow> slot \<Rightarrow> BinaryStream \<Rightarrow> BinaryStream \<Rightarrow> Peer \<Rightarrow> Peer result" where
  "Handle_auth env i instream reply p =
     rbind (the_handshake i p) (\<lambda>h.
     rbind (WriteByte AUTH_MSG reply) (\<lambda>reply.
     case m_auth h of None \<Rightarrow> Inl NullPointer
     | Some (a, auth) \<Rightarrow>
        rbind (Auth_Handle (e_sodium env) (e_rnd_challenge env) (e_rnd_seal env) instream reply
                 (p_layers p ! a) auth) (\<lambda>(authresult, instream, reply, layer, auth).
        let p = upd_handshake i (\<lambda>h. h\<lparr>m_auth := Some (a, auth)\<rparr>) (p\<lparr>p_layers := (p_layers p)[a := layer]\<rparr>)
        in rbind (if \<not> IsEmpty reply then Reply env i reply False p else Inr p) (\<lambda>p.
           let (layer, auth) = Auth_PostHandle (p_layers p ! a) auth;
               p = upd_handshake i (\<lambda>h. h\<lparr>m_auth := Some (a, auth)\<rparr>) (p\<lparr>p_layers := (p_layers p)[a := layer]\<rparr>)
           in if authresult \<noteq> CR_IN_PROGRESS then Complete i authresult p else Inr p))))"

text \<open>What \<^verbatim>\<open>Handle\<close> does once the sender is known to be a compatible peer.\<close>

definition Handle_stage :: "Env \<Rightarrow> slot \<Rightarrow> u8 \<Rightarrow> BinaryStream \<Rightarrow> BinaryStream \<Rightarrow> Peer \<Rightarrow> Peer result" where
  "Handle_stage env i opcode instream reply p =
     (if opcode = ERROR_OCCURRED
      then rbind (ReadByte instream) (\<lambda>(problem, instream).
           rassert (problem \<noteq> CR_OK \<and> problem \<noteq> CR_IN_PROGRESS) (Complete i problem p))
      else rbind (the_handshake i p) (\<lambda>h.
        if m_expectedOpcode h = NOT_STARTED \<and> opcode = INITIAL_CLIENT
        then Handle_request env i instream reply p
        else if m_expectedOpcode h = UNENCRYPTED_ACK \<and> opcode = m_expectedOpcode h
        then rassert (hs_origin h = REMOTE) (Complete i CR_OK p)
        else if m_expectedOpcode h = INITIAL_SERVER \<and> opcode = m_expectedOpcode h
        then Handle_answer env i reply p
        else if m_expectedOpcode h = AUTH_MSG \<and> opcode = m_expectedOpcode h
        then Handle_auth env i instream reply p
        else Inr p))"

definition Handle :: "Env \<Rightarrow> slot \<Rightarrow> Packet \<Rightarrow> Peer \<Rightarrow> Peer result" where
  "Handle env i packet p =
     rbind (the_handshake i p) (\<lambda>h.
     if IsDone h then Inr p else
     rbind (GetStream packet) (\<lambda>instream.
     rbind (WriteReplyHeader (GetMyPeerID p) (BinaryStream_new HANDSHAKE_HEADER_LEN)) (\<lambda>reply.
     rbind (if IsEOF HANDSHAKE_HEADER_LEN instream then Complete i CR_INCOMPATIBLE_PROTOCOL p
            else Inr p) (\<lambda>p.
     rbind (ReadBytes (length WIREFOX_MAGIC) instream) (\<lambda>(r, instream).
     let magic = (case r of None \<Rightarrow> replicate (length WIREFOX_MAGIC) 0 | Some bs \<Rightarrow> bs)
     in if magic \<noteq> WIREFOX_MAGIC then Complete i CR_INCOMPATIBLE_PROTOCOL p else
        rbind (ReadByte instream) (\<lambda>(version, instream).
        if version \<noteq> WIREFOX_PROTOCOL_VERSION
        then rbind (ReplyWithError env i reply CR_INCOMPATIBLE_VERSION p) (Complete i CR_INCOMPATIBLE_VERSION)
        else
        rbind (ReadUInt64 instream) (\<lambda>(remoteID, instream).
        rbind (ReadByte instream) (\<lambda>(opcode, instream).
        rbind (the_handshake i p) (\<lambda>_.
        let (competitor, p) = GetRemoteByID remoteID p
        in if competitor \<noteq> None \<and> competitor \<noteq> Some i
           then rbind (ReplyWithError env i reply CR_ALREADY_CONNECTED p) (Complete i CR_ALREADY_CONNECTED)
           else Handle_stage env i opcode instream reply
                  (upd_slot i (\<lambda>r. r\<lparr>rp_id := remoteID\<rparr>) p))))))))))"

end
