(* ===== verification/Datagrams.thy ===== *)
theory Datagrams
  imports Handshake
begin

text \<open>
  Building the datagrams of a slot: \<^verbatim>\<open>source/DatagramBuilder.cpp\<close> and
  \<^verbatim>\<open>RemotePeer::GetNextDatagram\<close>.

  The send queue of \<^verbatim>\<open>MakeDatagram\<close> holds pointers into the outbox; they are indices here.
  Erasing an element of the outbox invalidates the pointers to it and to everything behind it, and
  the use of such a pointer is the failure \<open>NullPointer\<close>.  A returned pointer to a datagram is its
  index in the sent box.
\<close>

section \<open>Choosing packets\<close>

definition GetQueuedPacket :: "Timestamp \<Rightarrow> OutgoingPacket list \<Rightarrow> nat \<Rightarrow> bool \<Rightarrow> nat option" where
  "GetQueuedPacket now box maxLength wantResend =
     find (\<lambda>k. m_length (op_blob (box ! k)) \<le> maxLength \<and>
        ((wantResend \<and> sendCount (box ! k) > 0) \<or> (\<not> wantResend \<and> sendCount (box ! k) = 0)) \<and>
        Time_Elapsed now (sendNext (box ! k))) [0..<length box]"

definition set_sendNext :: "Env \<Rightarrow> nat \<Rightarrow> RemotePeer \<Rightarrow> RemotePeer result" where
  "set_sendNext env k r = (case congestion r of None \<Rightarrow> Inl NullPointer
    | Some c \<Rightarrow> Inr (r\<lparr>outbox := (outbox r)[k := (outbox r ! k)\<lparr>sendNext :=
        Timestamp_plus (e_now env) (GetRetransmissionRTO (sendCount (outbox r ! k)) c)\<rparr>]\<rparr>))"

definition Datagram_AddResendPacket ::
  "Env \<Rightarrow> nat \<Rightarrow> nat list \<times> RemotePeer \<Rightarrow> (nat list \<times> RemotePeer) result" where
  "Datagram_AddResendPacket env budget = (\<lambda>(sendQueue, r).
     case GetQueuedPacket (e_now env) (outbox r) budget True of
       None \<Rightarrow> Inr (sendQueue, r)
     | Some k \<Rightarrow>
         rbind (set_sendNext env k r) (\<lambda>r.
         Inr (sendQueue @ [k], r\<lparr>rp_stats := PeerStats_Add PACKETS_LOST 1 (rp_stats r)\<rparr>)))"

definition Datagram_AddNewPacket ::
  "Env \<Rightarrow> nat list \<times> RemotePeer \<times> nat \<Rightarrow> (nat list \<times> RemotePeer \<times> nat) result" where
  "Datagram_AddNewPacket env = (\<lambda>(sendQueue, r, budget).
     case GetQueuedPacket (e_now env) (outbox r) budget False of
       None \<Rightarrow> Inr (sendQueue, r, 0)
     | Some k \<Rightarrow>
         rbind (set_sendNext env k r) (\<lambda>r.
         rassert (budget \<ge> m_length (op_blob (outbox r ! k))) (
         Inr (sendQueue @ [k], r, budget - m_length (op_blob (outbox r ! k))))))"

text \<open>
  The loop that fills the datagram.  A round that does not end the loop spends a part of the budget,
  since no blob is empty, or at least postpones one more packet; \<open>fuel\<close> counts both.
\<close>

fun Datagram_AddNewPackets ::
  "nat \<Rightarrow> Env \<Rightarrow> nat list \<times> RemotePeer \<times> nat \<Rightarrow> (nat list \<times> RemotePeer) result" where
  "Datagram_AddNewPackets 0 env (sendQueue, r, budget) = Inl NoReturn"
| "Datagram_AddNewPackets (Suc fuel) env (sendQueue, r, budget) =
     (if budget > 0 \<and> \<not> (IsOutOfBand r \<and> sendQueue \<noteq> [])
      then rbind (Datagram_AddNewPacket env (sendQueue, r, budget)) (Datagram_AddNewPackets fuel env)
      else Inr (sendQueue, r))"

section \<open>Building a datagram\<close>

text \<open>
  The first loop over the send queue: it counts the attempts and adds up the lengths.  A packet that
  was sent too often ends the connection, and there is no datagram.
\<close>

fun Datagram_count ::
  "slot \<Rightarrow> nat list \<Rightarrow> nat \<Rightarrow> PacketID list \<Rightarrow> Peer \<Rightarrow> ((nat \<times> PacketID list) option \<times> Peer) result" where
  "Datagram_count i [] len ids p = Inr (Some (len, ids), p)"
| "Datagram_count i (k # ks) len ids p =
     (let out = (outbox (at_slot i p) ! k)\<lparr>sendCount := sendCount (outbox (at_slot i p) ! k) + 1\<rparr>;
          p = upd_slot i (\<lambda>r. r\<lparr>outbox := (outbox r)[k := out]\<rparr>) p
      in if sendCount out > SEND_RETRY_COUNT
         then rbind (if HasFlag WITH_RECEIPT out then OnMessageReceipt (op_id out) False p else Inr p) (\<lambda>p.
              rassert (HasFlag RELIABLE out) (
              rassert (rp_id (at_slot i p) \<noteq> 0) (
              rbind (DisconnectImmediate (Some i) p) (\<lambda>p. Inr (None, p)))))
         else Datagram_count i ks (len + m_length (op_blob out)) (ids @ [op_id out]) p)"

text \<open>
  The second loop writes the packets and removes the unreliable ones.  \<open>invalid\<close> is the smallest
  index that was erased.
\<close>

definition invalidated :: "nat option \<Rightarrow> nat \<Rightarrow> bool" where
  "invalidated invalid k = (case invalid of None \<Rightarrow> False | Some j \<Rightarrow> j \<le> k)"

fun Datagram_write ::
  "nat list \<Rightarrow> nat option \<Rightarrow> BinaryStream \<Rightarrow> RemotePeer \<Rightarrow> (BinaryStream \<times> RemotePeer) result" where
  "Datagram_write [] invalid blob r = Inr (blob, r)"
| "Datagram_write (k # ks) invalid blob r =
     (if invalidated invalid k then Inl NullPointer else
      (let out = outbox r ! k
       in rbind (WriteBytes_stream (op_blob out) blob) (\<lambda>blob.
          if \<not> HasFlag RELIABLE out
          then Datagram_write ks
                 (case GetOutgoingPacketByID (op_id out) (outbox r) of
                    None \<Rightarrow> invalid
                  | Some j \<Rightarrow> (case invalid of None \<Rightarrow> Some j | Some j' \<Rightarrow> Some (min j j')))
                 blob (RemovePacketFromOutbox (op_id out) r)
          else Datagram_write ks invalid blob r)))"

definition MakeDatagram :: "Env \<Rightarrow> slot \<Rightarrow> Peer \<Rightarrow> (nat option \<times> Peer) result" where
  "MakeDatagram env i p =
     (if outbox (at_slot i p) = [] then Inr (None, p) else
      case congestion (at_slot i p) of None \<Rightarrow> Inl NullPointer
      | Some c \<Rightarrow>
        (let budgetResend = GetRetransmissionBudget c;
             budgetSend = GetTransmissionBudget c
         in rassert (budgetSend + budgetResend \<le> MTU) (
            if budgetSend = 0 \<and> budgetResend = 0 then Inr (None, p) else
            rbind (if budgetResend > 0 then Datagram_AddResendPacket env budgetResend ([], at_slot i p)
                   else Inr ([], at_slot i p)) (\<lambda>(sendQueue, r).
            rbind (Datagram_AddNewPackets (budgetSend + length (outbox r) + 1) env (sendQueue, r, budgetSend))
              (\<lambda>(sendQueue, r).
            let p = upd_slot i (\<lambda>_. r) p
            in if sendQueue = [] then Inr (None, p) else
               rassert (\<not> IsOutOfBand r \<or> length sendQueue = 1) (
               case congestion r of None \<Rightarrow> Inl NullPointer
               | Some c \<Rightarrow>
                 (let (did, c) = GetNextDatagramID c;
                      p = upd_slot i (\<lambda>r. r\<lparr>congestion := Some c\<rparr>) p;
                      addr = op_addr (outbox r ! hd sendQueue);
                      layer = op_crypto (outbox r ! hd sendQueue);
                      link = IsConnected r
                  in rbind (Datagram_count i sendQueue 0 [] p) (\<lambda>(counted, p).
                     case counted of None \<Rightarrow> Inr (None, p)
                     | Some (len, ids) \<Rightarrow>
                        (let header = DatagramHeader_default\<lparr>flag_data := True, flag_link := link,
                               dh_datagramID := did, dataLength := len\<rparr>
                         in rbind (DatagramHeader_Serialize header
                                     (BinaryStream_new BINARYSTREAM_DEFAULT_CAPACITY)) (\<lambda>blob.
                            rbind (Datagram_write sendQueue None blob (at_slot i p)) (\<lambda>(blob, r).
                            let datagram = \<lparr>od_crypto = layer, od_blob = blob, od_addr = addr, od_id = did,
                                  od_discard = Timestamp_plus (e_now env) (FromSeconds 5), od_packets = ids\<rparr>;
                                r = r\<lparr>rp_stats := PeerStats_Add PACKETS_SENT (length sendQueue) (rp_stats r),
                                      sentbox := sentbox r @ [datagram]\<rparr>
                            in Inr (Some (length (sentbox r) - 1), upd_slot i (\<lambda>_. r) p))))))))))))"

definition MakeAckgram :: "Env \<Rightarrow> slot \<Rightarrow> Peer \<Rightarrow> (nat option \<times> Peer) result" where
  "MakeAckgram env i p = (case congestion (at_slot i p) of None \<Rightarrow> Inl NullPointer
    | Some c \<Rightarrow>
      (let ((ackl, nackl), c) = MakeAckList c;
           (did, c) = GetNextDatagramID c;
           header = DatagramHeader_default\<lparr>flag_data := False, flag_link := True, dh_datagramID := did,
                      acks := ackl, nacks := nackl\<rparr>
       in rbind (DatagramHeader_Serialize header (BinaryStream_new BINARYSTREAM_DEFAULT_CAPACITY)) (\<lambda>blob.
          let ackgram = \<lparr>od_crypto = None, od_blob = blob, od_addr = rp_addr (at_slot i p), od_id = did,
                od_discard = Timestamp_plus (e_now env) (FromSeconds 1), od_packets = []\<rparr>
          in Inr (Some (length (sentbox (at_slot i p))),
                  upd_slot i (\<lambda>r. r\<lparr>congestion := Some c, sentbox := sentbox r @ [ackgram]\<rparr>) p))))"

definition GetNextDatagram :: "Env \<Rightarrow> slot \<Rightarrow> Peer \<Rightarrow> (nat option \<times> Peer) result" where
  "GetNextDatagram env i p = (case congestion (at_slot i p) of None \<Rightarrow> Inl NullPointer
    | Some c \<Rightarrow>
        if GetNeedsToSendAcks (e_now env) c
        then rassert (IsConnected (at_slot i p)) (MakeAckgram env i p)
        else MakeDatagram env i p)"

section \<open>The loop returns\<close>

text \<open>
  The fuel that \<open>MakeDatagram\<close> gives to the loop is enough: as long as no packet of the outbox is empty, every budget below the fuel
  lets the loop end.
\<close>

lemma GetQueuedPacket_fits:
  "GetQueuedPacket now box n resend = Some k \<Longrightarrow> k < length box \<and> m_length (op_blob (box ! k)) \<le> n"
  by (auto simp: GetQueuedPacket_def find_Some_iff)

lemma AddNewPackets_returns:
  assumes "congestion r \<noteq> None" "\<forall>out \<in> set (outbox r). 0 < m_length (op_blob out)" "budget < fuel"
  shows "\<exists>sendQueue' r'. Datagram_AddNewPackets fuel env (sendQueue, r, budget) = Inr (sendQueue', r')"
  using assms
proof (induction fuel arbitrary: sendQueue r budget)
  case (Suc fuel)
  obtain c where c: "congestion r = Some c" using Suc.prems(1) by blast
  show ?case
  proof (cases "GetQueuedPacket (e_now env) (outbox r) budget False")
    case None
    show ?thesis using Suc.IH [of r 0 sendQueue] Suc.prems None by (cases "budget = 0") (auto simp: Datagram_AddNewPacket_def)
  next
    case (Some k)
    let ?out = "(outbox r ! k)\<lparr>sendNext := Timestamp_plus (e_now env) (GetRetransmissionRTO (sendCount (outbox r ! k)) c)\<rparr>"
    let ?r = "r\<lparr>outbox := (outbox r)[k := ?out]\<rparr>" and ?n = "m_length (op_blob (outbox r ! k))"
    have k: "k < length (outbox r)" "?n \<le> budget" "0 < ?n" using GetQueuedPacket_fits [OF Some] Suc.prems(2) by auto
    then have "\<forall>out \<in> set (outbox ?r). 0 < m_length (op_blob out)" using Suc.prems(2) set_update_subset_insert [of "outbox r" k ?out] by fastforce
    then have "\<exists>sendQueue' r'. Datagram_AddNewPackets fuel env (sendQueue @ [k], ?r, budget - ?n) = Inr (sendQueue', r')"
      using Suc.IH [of ?r "budget - ?n"] Suc.prems(1,3) k(2,3) by simp
    then show ?thesis using Some c k by (auto simp: Datagram_AddNewPacket_def set_sendNext_def)
  qed
qed simp

end
