(* ===== verification/Peers.thy ===== *)
theory Peers
  imports Datagrams
begin

text \<open>
  The peer: \<^verbatim>\<open>source/Peer.cpp\<close>.  The handlers called by the network threads come after
  the functions of the application interface.  \<^verbatim>\<open>Stop\<close> sleeps while the network threads
  go on; what they do in that time is an argument.
\<close>

section \<open>Construction and destruction\<close>

text \<open>The outputs of the random number generator are an argument.\<close>

fun GeneratePeerID :: "u64 list \<Rightarrow> PeerID result" where
  "GeneratePeerID [] = Inl NoReturn"
| "GeneratePeerID (ret # rng) = (if ret = 0 then GeneratePeerID rng else Inr ret)"

definition Peer_new :: "u64 list \<Rightarrow> nat \<Rightarrow> Peer result" where
  "Peer_new rng maxPeers =
     rbind (GeneratePeerID rng) (\<lambda>newID.
     Inr \<lparr>m_id = newID, m_remotesMax = maxPeers + 1, m_remotesIncoming = 0,
          m_advertisement = BinaryStream_new 0, m_rpc = RpcController_new,
          m_masterSocket = SocketUDP_new, m_remotes = replicate (maxPeers + 1) RemotePeer_new,
          m_inbox = [], m_remoteLookup = Map.empty, m_channels = [UNORDERED],
          m_crypto_identity = None, m_crypto_enabled = False, p_layers = [], p_calls = [],
          m_updateThreadAbort = False, m_updateThread = True\<rparr>)"

definition IPeer_Factory_Create :: "u64 list \<Rightarrow> nat \<Rightarrow> Peer result" where
  "IPeer_Factory_Create rng maxPeers = Peer_new rng maxPeers"

definition PacketQueue_Stop :: "Peer \<Rightarrow> Peer" where
  "PacketQueue_Stop p =
     (let p = p\<lparr>m_updateThreadAbort := True\<rparr>
      in if m_updateThread p then p\<lparr>m_updateThread := False\<rparr> else p)"

definition Peer_destroy :: "Peer \<Rightarrow> Peer" where
  "Peer_destroy p = PacketQueue_Stop (p\<lparr>m_masterSocket := SocketUDP_Unbind (m_masterSocket p)\<rparr>)"

section \<open>Connections\<close>

text \<open>The callback of \<^verbatim>\<open>Socket::Connect\<close>, run by the thread of the socket.\<close>

definition OnSocketConnected :: "Env \<Rightarrow> slot \<Rightarrow> bool \<Rightarrow> RemoteAddress \<Rightarrow> Peer \<Rightarrow> Peer result" where
  "OnSocketConnected env i error addr p =
     rassert (\<not> error) (
     rbind (SetupRemotePeerCallbacks i (upd_slot i (\<lambda>r. r\<lparr>rp_addr := addr, rp_socket := True\<rparr>) p)) (\<lambda>p.
     rbind (Begin env i p) (\<lambda>p.
     Inr (upd_slot i (\<lambda>r. r\<lparr>active := True\<rparr>) p))))"

definition Connect ::
  "Env \<Rightarrow> u8 list \<Rightarrow> u16 \<Rightarrow> cell list option \<Rightarrow> Peer \<Rightarrow> (ConnectAttemptResult \<times> Peer) result" where
  "Connect env host port public_key p = (case GetNextAvailableConnectSlot p of
      None \<Rightarrow> Inr (NO_FREE_SLOTS, p)
    | Some i \<Rightarrow>
        rbind (RemotePeer_Setup env i SELF p) (\<lambda>p.
        rbind (case public_key of None \<Rightarrow> Inr (True, p)
          | Some _ \<Rightarrow>
              if \<not> GetEncryptionEnabled p then Inr (False, RemotePeer_Reset i p)
              else (case crypto (at_slot i p) of None \<Rightarrow> Inl NullPointer
                | Some a \<Rightarrow>
                    rbind (BinaryStream_wrap public_key
                             (DefaultEncryption_GetKeyLength (p_layers p ! a)) READONLY) (\<lambda>key.
                    rbind (Crypto_ExpectRemoteIdentity key (p_layers p ! a)) (\<lambda>(key, layer).
                    Inr (True, p\<lparr>p_layers := (p_layers p)[a := layer]\<rparr>))))) (\<lambda>(go, p).
        if \<not> go then Inr (INVALID_PARAMETER, p) else
        (let (ret, sock) = SocketUDP_Connect (e_net env) host port i (m_masterSocket p);
             p = p\<lparr>m_masterSocket := sock\<rparr>
         in Inr (ret, if ret \<noteq> OK then RemotePeer_Reset i p else p)))))"

definition Bind :: "Env \<Rightarrow> SocketProtocol \<Rightarrow> u16 \<Rightarrow> Peer \<Rightarrow> (bool \<times> Peer) result" where
  "Bind env family port p =
     rbind (RemotePeer_Setup env 0 INVALID p) (\<lambda>p.
     let p = upd_slot 0 (\<lambda>r. r\<lparr>rp_socket := True, active := True\<rparr>) p;
         (ok, sock) = SocketUDP_Bind (e_net env) family port (m_masterSocket p)
     in Inr (ok, p\<lparr>m_masterSocket := sock\<rparr>))"

definition Disconnect :: "Env \<Rightarrow> PeerID \<Rightarrow> Timespan \<Rightarrow> Peer \<Rightarrow> Peer result" where
  "Disconnect env who linger p =
     (let (remote, p) = GetRemoteByID who p
      in case remote of None \<Rightarrow> Inr p
         | Some i \<Rightarrow>
             rbind (Packet_of_data DISCONNECT_REQUEST None 0) (\<lambda>request.
             rbind (EnqueueOutgoing env request i RELIABLE CRITICAL Channel_default p) (\<lambda>(_, p).
             Inr (upd_slot i (\<lambda>r. r\<lparr>disconnect := Timestamp_plus (e_now env) linger\<rparr>) p))))"

definition DisconnectImmediate_id :: "PeerID \<Rightarrow> Peer \<Rightarrow> Peer result" where
  "DisconnectImmediate_id who p =
     (let (remote, p) = GetRemoteByID who p
      in case remote of None \<Rightarrow> Inr p | Some i \<Rightarrow> DisconnectImmediate (Some i) p)"

definition Stop_slot :: "Env \<Rightarrow> Timespan \<Rightarrow> slot \<Rightarrow> Peer \<Rightarrow> Peer result" where
  "Stop_slot env linger i p =
     (if IsConnected (at_slot i p) \<and> linger > 0 then Disconnect env (rp_id (at_slot i p)) linger p
      else Inr (upd_slot i (\<lambda>r. r\<lparr>disconnect := Timestamp_plus (e_now env) linger\<rparr>) p))"

definition Stop :: "Env \<Rightarrow> Timespan \<Rightarrow> (Peer \<Rightarrow> Peer result) \<Rightarrow> Peer \<Rightarrow> Peer result" where
  "Stop env linger sleep p =
     rbind (rfold (Stop_slot env linger) [1..<m_remotesMax p] p) (\<lambda>p.
     rbind (if linger > 0 then sleep p else Inr p) (\<lambda>p.
     let p = fold RemotePeer_Reset [1..<m_remotesMax p] p
     in Inr (p\<lparr>m_masterSocket := SocketUDP_Unbind (m_masterSocket p)\<rparr>)))"

section \<open>Messages\<close>

definition Send ::
  "Env \<Rightarrow> Packet \<Rightarrow> PeerID \<Rightarrow> PacketOptions \<Rightarrow> PacketPriority \<Rightarrow> Channel \<Rightarrow> Peer \<Rightarrow> (PacketID \<times> Peer) result" where
  "Send env packet recipient opts priority channel p =
     (if pkt_length packet > PACKET_MAX_LENGTH then Inr (0, p) else
      (let (remote, p) = GetRemoteByID recipient p
       in case remote of None \<Rightarrow> Inr (0, p)
          | Some i \<Rightarrow> EnqueueOutgoing env packet i opts priority channel p))"

definition Receive :: "Peer \<Rightarrow> Packet option \<times> Peer" where
  "Receive p = DequeueIncoming p"

definition Ping :: "Env \<Rightarrow> u8 list \<Rightarrow> u16 \<Rightarrow> Peer \<Rightarrow> Peer result" where
  "Ping env hostname port p = (case SocketUDP_Resolve (e_net env) hostname port (m_masterSocket p) of
      None \<Rightarrow> Inr p
    | Some addr \<Rightarrow>
        rbind (Packet_of_data PING None 0) (\<lambda>ping. EnqueueOutOfBand env ping addr None p))"

definition multicast_v4 :: "u8 list" where
  "multicast_v4 = [50, 53, 53, 46, 50, 53, 53, 46, 50, 53, 53, 46, 50, 53, 53]"

definition multicast_v6 :: "u8 list" where
  "multicast_v6 = [70, 70, 48, 50, 58, 58, 49]"

definition PingLocalNetwork :: "Env \<Rightarrow> u16 \<Rightarrow> Peer \<Rightarrow> Peer result" where
  "PingLocalNetwork env port p = Ping env (case GetProtocol (m_masterSocket p) of
      IPv4 \<Rightarrow> multicast_v4 | IPv6 \<Rightarrow> multicast_v6) port p"

definition SetOfflineAdvertisement :: "BinaryStream \<Rightarrow> Peer \<Rightarrow> Peer result" where
  "SetOfflineAdvertisement data p =
     rbind (BinaryStream_assign (m_advertisement p) data) (\<lambda>s. Inr (p\<lparr>m_advertisement := s\<rparr>))"

definition DisableOfflineAdvertisement :: "Peer \<Rightarrow> Peer result" where
  "DisableOfflineAdvertisement p =
     rbind (Reset (m_advertisement p)) (\<lambda>s. Inr (p\<lparr>m_advertisement := s\<rparr>))"

section \<open>Encryption settings\<close>

definition SetEncryptionEnabled :: "Env \<Rightarrow> bool \<Rightarrow> Peer \<Rightarrow> Peer result" where
  "SetEncryptionEnabled env enabled p =
     (if IsOpenAndReady (m_masterSocket p) then Inr p else
      if e_encryption env
      then if enabled
           then rbind (CreateIdentity (e_sodium env) (e_rnd_identity env)) (\<lambda>kp.
                Inr (p\<lparr>m_crypto_identity := Some kp, m_crypto_enabled := True\<rparr>))
           else Inr (p\<lparr>m_crypto_identity := None, m_crypto_enabled := False\<rparr>)
      else Inr (p\<lparr>m_crypto_enabled := False\<rparr>))"

definition SetEncryptionIdentity ::
  "Env \<Rightarrow> cell list option \<Rightarrow> cell list option \<Rightarrow> Peer \<Rightarrow> Peer result" where
  "SetEncryptionIdentity env secret public p =
     (if \<not> m_crypto_enabled p then Inr p else
      if e_encryption env
      then rbind (Keypair_of_keys secret public) (\<lambda>kp. Inr (p\<lparr>m_crypto_identity := Some kp\<rparr>))
      else Inr p)"

text \<open>What \<^verbatim>\<open>GenerateIdentity\<close> writes to its two arguments, if anything.\<close>

definition GenerateIdentity :: "Env \<Rightarrow> (bytes \<times> bytes) option result" where
  "GenerateIdentity env =
     (if e_encryption env
      then rbind (CreateIdentity (e_sodium env) (e_rnd_identity env)) (\<lambda>kp. Inr (Some (Keypair_CopyTo kp)))
      else Inr None)"

definition GetEncryptionKeyLength :: "Env \<Rightarrow> nat" where
  "GetEncryptionKeyLength env = (if e_encryption env then Sodium_GetKeyLength else Null_GetKeyLength)"

section \<open>Queries\<close>

definition GetAllConnectedPeers :: "PeerID list \<Rightarrow> Peer \<Rightarrow> PeerID list" where
  "GetAllConnectedPeers output p =
     output @ map (\<lambda>i. rp_id (at_slot i p)) (filter (\<lambda>i. IsConnected (at_slot i p)) [1..<m_remotesMax p])"

definition GetPingAvailable :: "PeerID \<Rightarrow> Peer \<Rightarrow> bool result" where
  "GetPingAvailable who p = (case GetRemoteByID_const who p of
      None \<Rightarrow> Inr False
    | Some i \<Rightarrow> (case congestion (at_slot i p) of None \<Rightarrow> Inl NullPointer
        | Some c \<Rightarrow> Inr (GetRTTHistoryAvailable c)))"

definition GetPing :: "PeerID \<Rightarrow> Peer \<Rightarrow> nat result" where
  "GetPing who p = (case GetRemoteByID_const who p of
      None \<Rightarrow> Inr 0
    | Some i \<Rightarrow> (case congestion (at_slot i p) of None \<Rightarrow> Inl NullPointer
        | Some c \<Rightarrow> GetAverageRTT c))"

definition GetStats :: "PeerID \<Rightarrow> Peer \<Rightarrow> PeerStats option" where
  "GetStats who p = map_option (\<lambda>i. rp_stats (at_slot i p)) (GetRemoteByID_const who p)"

section \<open>Remote procedure calls\<close>

definition RpcRegisterSlot :: "u8 list \<Rightarrow> callback \<Rightarrow> Peer \<Rightarrow> Peer result" where
  "RpcRegisterSlot identifier handler p =
     rbind (Slot identifier handler (m_rpc p)) (\<lambda>c. Inr (p\<lparr>m_rpc := c\<rparr>))"

definition RpcUnregisterSlot :: "u8 list \<Rightarrow> Peer \<Rightarrow> Peer result" where
  "RpcUnregisterSlot identifier p =
     rbind (RemoveSlot identifier (m_rpc p)) (\<lambda>c. Inr (p\<lparr>m_rpc := c\<rparr>))"

definition RpcSignal :: "Env \<Rightarrow> u8 list \<Rightarrow> PeerID \<Rightarrow> BinaryStream \<Rightarrow> Peer \<Rightarrow> Peer result" where
  "RpcSignal env identifier recipient params p =
     rbind (RpcSignal_packet identifier params) (\<lambda>rpc.
     rbind (Send env rpc recipient RELIABLE MEDIUM Channel_default p) (\<lambda>(_, p). Inr p))"

section \<open>What arrives\<close>

definition SendRejectionReply :: "Env \<Rightarrow> RemoteAddress \<Rightarrow> ConnectResult \<Rightarrow> Peer \<Rightarrow> Peer result" where
  "SendRejectionReply env addr reason p =
     rbind (WriteOutOfBandErrorReply (GetMyPeerID p) reason
              (BinaryStream_new BINARYSTREAM_DEFAULT_CAPACITY)) (\<lambda>reply.
     SendOutOfBand env (fst (Packet_of_moved_stream CONNECT_ATTEMPT reply)) addr p)"

definition OnNewIncomingPeer :: "Env \<Rightarrow> RemoteAddress \<Rightarrow> Packet \<Rightarrow> Peer \<Rightarrow> Peer result" where
  "OnNewIncomingPeer env addr packet p = (case GetNextAvailableIncomingSlot p of
      None \<Rightarrow> SendRejectionReply env addr CR_NO_FREE_SLOTS p
    | Some i \<Rightarrow>
        rbind (RemotePeer_Setup env i REMOTE p) (\<lambda>p.
        rbind (SetupRemotePeerCallbacks i p) (\<lambda>p.
        Handle env i packet (upd_slot i (\<lambda>r. r\<lparr>rp_socket := True, rp_addr := addr, active := True\<rparr>) p))))"

definition OnSystemPacket :: "Env \<Rightarrow> slot \<Rightarrow> Packet \<Rightarrow> Peer \<Rightarrow> Peer result" where
  "OnSystemPacket env i packet p =
     (if m_command packet = DISCONNECT_REQUEST
      then rbind (OnDisconnect i NOTIFY_DISCONNECTED p) (\<lambda>p.
           rbind (Packet_of_data DISCONNECT_ACK None 0) (\<lambda>dc_ack.
           rbind (EnqueueOutOfBand env dc_ack (rp_addr (at_slot i p)) (Some i) p) (\<lambda>p.
           Inr (RemotePeer_Reset i p))))
      else if m_command packet = RPC_SIGNAL
      then rbind (OnRpcSignal packet (m_rpc p)) (\<lambda>calls. Inr (p\<lparr>p_calls := p_calls p @ calls\<rparr>))
      else Inl AssertFailure)"

definition OnPing :: "Env \<Rightarrow> RemoteAddress \<Rightarrow> Peer \<Rightarrow> Peer result" where
  "OnPing env addr p =
     (if IsEmpty (m_advertisement p) then Inr p else
      rbind (Packet_of_stream ADVERTISEMENT (m_advertisement p)) (\<lambda>pong. SendOutOfBand env pong addr p))"

definition OnConnectAttempt :: "Env \<Rightarrow> RemoteAddress \<Rightarrow> Packet \<Rightarrow> Peer \<Rightarrow> Peer result" where
  "OnConnectAttempt env addr packet p = (case GetRemoteByAddress addr p of
      None \<Rightarrow> OnNewIncomingPeer env addr packet p
    | Some i \<Rightarrow>
        rbind (the_handshake i p) (\<lambda>h. if IsDone h then Inr p else Handle env i packet p))"

definition OnAdvertisement :: "Env \<Rightarrow> RemoteAddress \<Rightarrow> Packet \<Rightarrow> Peer \<Rightarrow> Peer result" where
  "OnAdvertisement env addr packet p =
     (let address = RemoteAddress_ToString (e_net env) addr
      in rbind (GetStream packet) (\<lambda>original.
         rbind (WriteString address (BinaryStream_new (m_length original + length address + 4))) (\<lambda>prefixed.
         rbind (WriteBytes_stream original prefixed) (\<lambda>prefixed.
         EnqueueLoopback (fst (Packet_of_moved_stream NOTIFY_ADVERTISEMENT prefixed)) p))))"

definition OnUnconnectedMessage_stream ::
  "Env \<Rightarrow> RemoteAddress \<Rightarrow> BinaryStream \<Rightarrow> Peer \<Rightarrow> Peer result" where
  "OnUnconnectedMessage_stream env addr instream p =
     rbind (PacketHeader_Deserialize PacketHeader_default instream) (\<lambda>((ok, header), instream).
     rassert (ok \<and> \<not> flag_segment header) (
     rbind (FromDatagram 0 (unat (ph_length header)) instream) (\<lambda>(packet, instream).
     if m_command packet = PING then OnPing env addr p
     else if m_command packet = CONNECT_ATTEMPT then OnConnectAttempt env addr packet p
     else if m_command packet = DISCONNECT_ACK
     then (case GetRemoteByAddress addr p of None \<Rightarrow> Inr p | Some i \<Rightarrow> DisconnectImmediate (Some i) p)
     else if m_command packet = ADVERTISEMENT then OnAdvertisement env addr packet p
     else Inr p)))"

definition OnUnconnectedMessage ::
  "Env \<Rightarrow> RemoteAddress \<Rightarrow> cell list option \<Rightarrow> nat \<Rightarrow> Peer \<Rightarrow> Peer result" where
  "OnUnconnectedMessage env addr msg msglen p =
     rbind (BinaryStream_wrap msg msglen READONLY) (\<lambda>instream.
     rbind (DatagramHeader_Deserialize DatagramHeader_default instream) (\<lambda>((ok, header), instream).
     if \<not> ok then Inr p else
     if flag_link header then Inr p else
     rassert (flag_data header) (OnUnconnectedMessage_stream env addr instream p)))"

end
