(* ===== verification/Queue.thy ===== *)
theory Queue
  imports Peers
begin

text \<open>
  The network side of a peer: the reading, writing and worker functions of
  \<^verbatim>\<open>source/PacketQueue.cpp\<close>, and the completion events of the socket that drive them.
\<close>

section \<open>Delivering packets\<close>

definition HandleIncomingPacket :: "slot \<Rightarrow> PacketHeader \<Rightarrow> Packet \<Rightarrow> Peer \<Rightarrow> Peer result" where
  "HandleIncomingPacket i header packet p =
     rbind (GetChannelBuffer i (ph_channel header) p) (\<lambda>(channel, p).
     case channel of
       None \<Rightarrow> Inr (p\<lparr>m_inbox := m_inbox p @ [packet]\<rparr>)
     | Some ix \<Rightarrow> (case channels (at_slot i p) ix of None \<Rightarrow> Inl NullPointer
         | Some b \<Rightarrow>
             rbind (HandleChannelPacket (\<lambda>k. GetChannelModeByIndex k p) (ph_sequence header) packet b)
               (\<lambda>(ps, b).
             Inr (upd_slot i (\<lambda>r. r\<lparr>channels := (channels r)(ix \<mapsto> b)\<rparr>) (p\<lparr>m_inbox := m_inbox p @ ps\<rparr>)))))"

definition HandleSplitPacket ::
  "slot \<Rightarrow> PacketHeader \<Rightarrow> BinaryStream \<Rightarrow> Peer \<Rightarrow> (Peer \<times> BinaryStream) result" where
  "HandleSplitPacket i header instream p =
     rbind (Insert header instream (assembly (at_slot i p))) (\<lambda>(asm, instream).
     rbind (Reassemble (rp_id (at_slot i p)) (splitContainer header) asm) (\<lambda>(q, asm).
     let p = upd_slot i (\<lambda>r. r\<lparr>assembly := asm\<rparr>) p
     in case q of None \<Rightarrow> Inr (p, instream)
        | Some packet \<Rightarrow> rbind (HandleIncomingPacket i header packet p) (\<lambda>p. Inr (p, instream))))"

text \<open>One packet of a datagram, its header already read.\<close>

definition OnReadFinished_packet ::
  "Env \<Rightarrow> slot \<Rightarrow> nat \<Rightarrow> PacketHeader \<Rightarrow> BinaryStream \<Rightarrow> Peer \<Rightarrow> (Peer \<times> BinaryStream) result" where
  "OnReadFinished_packet env i len header instream p =
     rassert (unat (ph_offset header) < PACKET_MAX_LENGTH) (
     rassert (unat (ph_length header) < len) (
     case congestion (at_slot i p) of None \<Rightarrow> Inl NullPointer
     | Some c \<Rightarrow>
       (let (st, c) = NotifyReceivedPacket (e_now env) (ph_id header) c;
            p = upd_slot i (\<lambda>r. r\<lparr>congestion := Some c\<rparr>) p
        in if st = NEW
           then (let p = upd_stats i (PeerStats_Add PACKETS_RECEIVED 1) p
                 in if flag_segment header \<or> ph_offset header > 0
                    then HandleSplitPacket i header instream p
                    else rbind (FromDatagram (rp_id (at_slot i p)) (unat (ph_length header)) instream)
                           (\<lambda>(packet, instream).
                         rbind (if m_command packet < USER_PACKET then OnSystemPacket env i packet p
                                else HandleIncomingPacket i header packet p) (\<lambda>p. Inr (p, instream))))
           else Inr (p, snd (Skip (unat (ph_length header)) instream)))))"

section \<open>The loop over the packets of a datagram ends\<close>

text \<open>
  Reading never moves backwards and never changes the array or the length; a header that was read lies inside of
  the array, so each round brings the position closer to its end.
\<close>

definition mem_size :: "BinaryStream \<Rightarrow> nat" where
  "mem_size s = (case GetBuffer s of None \<Rightarrow> 0 | Some m \<Rightarrow> length m)"

definition advances :: "BinaryStream \<Rightarrow> BinaryStream \<Rightarrow> bool" where
  "advances s s' \<longleftrightarrow> GetBuffer s' = GetBuffer s \<and> m_length s' = m_length s \<and> m_position s \<le> m_position s'"

lemma advances_trans: "advances s s' \<Longrightarrow> advances s' s'' \<Longrightarrow> advances s s''"
  by (auto simp: advances_def)

lemma advances_refl: "advances s s"
  by (simp add: advances_def)

lemma GetBuffer_pos [simp]:
  "GetBuffer (s\<lparr>m_position := n\<rparr>) = GetBuffer s" "GetBuffer (s\<lparr>m_subBytePosition := k\<rparr>) = GetBuffer s"
  by (simp_all add: GetBuffer_def split: ro_pointer.split)

lemma Align_advances: "advances s (Align s)"
  by (simp add: Align_def advances_def Let_def)

lemma GetBuffer_Align [simp]: "GetBuffer (Align s) = GetBuffer s"
  by (simp add: Align_def Let_def)

lemma load_bytes_inside: "load_bytes b i n = Inr bs \<Longrightarrow> 0 < n \<Longrightarrow> \<exists>m. b = Some m \<and> i + n \<le> length m"
  by (auto simp: load_bytes_def Let_def split: option.splits if_splits)

lemma ReadByte_advances: "ReadByte s = Inr (v, s') \<Longrightarrow> advances s s'"
  using Align_advances [of s] by (auto simp: ReadByte_def advances_def Let_def split: if_splits)

lemma ReadBytes_advances: "ReadBytes n s = Inr (v, s') \<Longrightarrow> advances s s'"
  using Align_advances [of s] by (auto simp: ReadBytes_def advances_def Let_def split: if_splits)

lemma ReadBool_advances: "ReadBool s = Inr (v, s') \<Longrightarrow> advances s s'"
  by (auto simp: ReadBool_def advances_def Let_def split: if_splits)

lemma ReadUInt16_advances: "ReadUInt16_on e s = Inr (v, s') \<Longrightarrow> advances s s'"
  by (auto simp: ReadUInt16_on_def split: option.splits dest: ReadBytes_advances)

lemma ReadUInt32_advances: "ReadUInt32_on e s = Inr (v, s') \<Longrightarrow> advances s s'"
  by (auto simp: ReadUInt32_on_def split: option.splits dest: ReadBytes_advances)

lemma ReadUInt32_strict:
  "ReadUInt32_on e s = Inr (v, s') \<Longrightarrow> m_position s < m_position s' \<and> m_position s < mem_size s"
proof -
  assume "ReadUInt32_on e s = Inr (v, s')"
  then obtain bs where bs: "ReadBytes 4 s = Inr (Some bs, s')"
    by (auto simp: ReadUInt32_on_def split: option.splits)
  then have "load_bytes (GetBuffer s) (m_position (Align s)) 4 = Inr bs"
    "m_position s' = m_position (Align s) + 4"
    by (auto simp: ReadBytes_def Let_def split: if_splits)
  moreover have "m_position s \<le> m_position (Align s)" using Align_advances by (simp add: advances_def)
  ultimately show ?thesis using load_bytes_inside [of _ _ 4 bs] by (fastforce simp: mem_size_def)
qed

lemma Skip_advances: "advances s (snd (Skip n s))"
  by (simp add: Skip_def advances_def)

lemmas reads_advance = ReadByte_advances ReadBytes_advances ReadBool_advances ReadUInt16_advances
  ReadUInt32_advances

lemma FromDatagram_advances: "FromDatagram who n s = Inr (q, s') \<Longrightarrow> advances s s'"
  by (auto simp: FromDatagram_def Let_def intro: advances_trans [OF ReadByte_advances Skip_advances])

lemma Insert_advances: "Insert header s asm = Inr (asm', s') \<Longrightarrow> advances s s'"
  by (auto simp: Insert_def Insert_blob_def Let_def split: option.splits if_splits
      dest!: ReadBytes_advances)

lemma HandleSplitPacket_advances: "HandleSplitPacket i header s p = Inr (p', s') \<Longrightarrow> advances s s'"
  by (auto simp: HandleSplitPacket_def Let_def split: option.splits dest: Insert_advances)

lemma OnReadFinished_packet_advances:
  "OnReadFinished_packet env i len header s p = Inr (p', s') \<Longrightarrow> advances s s'"
  by (auto simp: OnReadFinished_packet_def Let_def Skip_advances split: option.splits if_splits prod.splits
      dest: HandleSplitPacket_advances FromDatagram_advances)

text \<open>The same for the result of a reader, with \<open>sel\<close> the stream in it.\<close>

definition adv_res :: "('a \<Rightarrow> BinaryStream) \<Rightarrow> BinaryStream \<Rightarrow> 'a result \<Rightarrow> bool" where
  "adv_res sel s m \<longleftrightarrow> (\<forall>y. m = Inr y \<longrightarrow> advances s (sel y))"

lemma adv_res_Inr: "sel y = s \<Longrightarrow> adv_res sel s (Inr y)"
  by (simp add: adv_res_def advances_refl)

lemma adv_res_if: "adv_res sel s a \<Longrightarrow> adv_res sel s b \<Longrightarrow> adv_res sel s (if c then a else b)"
  by simp

lemma adv_res_bind:
  "adv_res snd s m \<Longrightarrow> (\<And>v t. adv_res sel t (k v t)) \<Longrightarrow> adv_res sel s (rbind m (\<lambda>(v, t). k v t))"
  by (cases m) (auto simp: adv_res_def intro: advances_trans)

lemma adv_res_bind3:
  "adv_res (\<lambda>(ok, h, t). t) s m \<Longrightarrow> (\<And>ok h t. adv_res sel t (k ok h t)) \<Longrightarrow>
   adv_res sel s (rbind m (\<lambda>(ok, h, t). k ok h t))"
  by (cases m) (auto simp: adv_res_def intro: advances_trans)

lemma adv_res_reads:
  "adv_res snd s (ReadBool s)" "adv_res snd s (ReadByte s)" "adv_res snd s (ReadUInt16 s)"
  "adv_res snd s (ReadUInt32 s)"
  by (auto simp: adv_res_def dest: reads_advance)

lemma adv_res_rrepeat: "adv_res snd s (rrepeat ReadUInt32 n s)"
  by (induction n arbitrary: s) (auto intro!: adv_res_Inr adv_res_bind adv_res_reads)

lemmas adv_res_intros = adv_res_rrepeat adv_res_reads adv_res_if adv_res_bind adv_res_bind3 adv_res_Inr

lemma Deserialize_strict:
  assumes "PacketHeader_Deserialize h s = Inr ((True, h'), s')"
  shows "GetBuffer s' = GetBuffer s" "m_position s < m_position s'" "m_position s < mem_size s" "advances s s'"
proof -
  have "\<exists>b1 s1 b2 s2 n s3. ReadBool s = Inr (b1, s1) \<and> ReadBool s1 = Inr (b2, s2) \<and> ReadUInt32 s2 = Inr (n, s3)"
    using assms unfolding PacketHeader_Deserialize_def
    by (cases "IsEOF 7 s"; cases "ReadBool s"; clarsimp)
  then obtain b1 s1 b2 s2 n s3 where
    1: "ReadBool s = Inr (b1, s1)" "ReadBool s1 = Inr (b2, s2)" "ReadUInt32 s2 = Inr (n, s3)" by blast
  have "adv_res snd s3 (PacketHeader_Deserialize h s)"
    if "\<not> IsEOF 7 s"
    unfolding PacketHeader_Deserialize_def Let_def using that 1
    by (simp only: if_False rbind_simps prod.case) (intro adv_res_intros; simp)
  moreover have "\<not> IsEOF 7 s" using assms by (auto simp: PacketHeader_Deserialize_def)
  ultimately have 2: "advances s3 s'" using assms by (simp add: adv_res_def)
  have "advances s s2" using 1 ReadBool_advances advances_trans by blast
  then show "GetBuffer s' = GetBuffer s" "m_position s < m_position s'" "m_position s < mem_size s" "advances s s'"
    using ReadUInt32_strict [OF 1(3)] ReadUInt32_advances [OF 1(3)] 2 by (auto simp: advances_def mem_size_def)
qed

lemma DatagramHeader_Deserialize_advances:
  assumes "DatagramHeader_Deserialize h s = Inr (x, s')"
  shows "advances s s'"
proof -
  have "adv_res snd s (DatagramHeader_Deserialize h s)"
    unfolding DatagramHeader_Deserialize_def Deserialize_ids_def Let_def
    by (intro adv_res_intros; simp)
  then show ?thesis using assms by (simp add: adv_res_def)
qed

lemma round_decreases:
  assumes "PacketHeader_Deserialize h s = Inr ((True, h'), s1)" "advances s1 s2"
  shows "mem_size s2 - m_position s2 < mem_size s - m_position s"
  using Deserialize_strict [OF assms(1)] assms(2) by (auto simp: advances_def mem_size_def)

function OnReadFinished_loop ::
  "Env \<Rightarrow> slot \<Rightarrow> nat \<Rightarrow> PacketHeader \<Rightarrow> BinaryStream \<Rightarrow> Peer \<Rightarrow> Peer result" where
  "OnReadFinished_loop env i len header instream p =
     rbind (PacketHeader_Deserialize header instream) (\<lambda>(res, instream).
     case res of (ok, header) \<Rightarrow>
     if \<not> ok then Inr p else
     rbind (OnReadFinished_packet env i len header instream p) (\<lambda>(p, instream).
     OnReadFinished_loop env i len header instream p))"
  by pat_completeness auto
termination
  by (relation "measure (\<lambda>(env, i, len, header, s, p). mem_size s - m_position s)")
    (auto intro!: round_decreases elim: OnReadFinished_packet_advances)

declare OnReadFinished_loop.simps [simp del]

section \<open>Reading\<close>

text \<open>Decryption of a datagram from a known sender: whether to go on, and the stream to read.\<close>

definition OnReadFinished_decrypt ::
  "Env \<Rightarrow> slot \<Rightarrow> BinaryStream \<Rightarrow> Peer \<Rightarrow> (bool \<times> BinaryStream \<times> Peer) result" where
  "OnReadFinished_decrypt env i inbuffer p = (case crypto (at_slot i p) of
      None \<Rightarrow> Inr (True, inbuffer, p)
    | Some a \<Rightarrow>
        if Crypto_GetCryptoEstablished (p_layers p ! a)
        then rbind (Crypto_Decrypt (e_sodium env) inbuffer (p_layers p ! a)) (\<lambda>(plain, _, layer).
             Inr (\<not> Crypto_GetNeedsToBail layer, fst (BinaryStream_move_assign inbuffer plain),
                  p\<lparr>p_layers := (p_layers p)[a := layer]\<rparr>))
        else Inr (True, inbuffer, p))"

text \<open>A datagram of an established connection, its header already read.\<close>

definition OnReadFinished_connected ::
  "Env \<Rightarrow> slot \<Rightarrow> DatagramHeader \<Rightarrow> BinaryStream \<Rightarrow> Peer \<Rightarrow> Peer result" where
  "OnReadFinished_connected env i header inbuffer p = (case congestion (at_slot i p) of
      None \<Rightarrow> Inl NullPointer
    | Some c \<Rightarrow>
      (let (st, c) = NotifyReceivedDatagram (e_now env) (dh_datagramID header) (\<not> flag_data header) c;
           p = upd_slot i (\<lambda>r. r\<lparr>congestion := Some c\<rparr>) p
       in if st = DUPLICATE then Inr p else
          rbind (if acks header \<noteq> [] then HandleAcknowledgements env i (acks header) p else Inr p) (\<lambda>p.
          rbind (if nacks header \<noteq> [] then HandleNonAcknowledgements env i (nacks header) p else Inr p) (\<lambda>p.
          OnReadFinished_loop env i (dataLength header) PacketHeader_default inbuffer p))))"

definition OnReadFinished ::
  "Env \<Rightarrow> bool \<Rightarrow> RemoteAddress \<Rightarrow> cell list option \<Rightarrow> nat \<Rightarrow> Peer \<Rightarrow> Peer result" where
  "OnReadFinished env error sender buffer transferred p =
     (let remote = GetRemoteByAddress sender p
      in if error then DisconnectImmediate remote p else
      case remote of
        None \<Rightarrow> OnUnconnectedMessage env sender buffer transferred p
      | Some i \<Rightarrow>
        rbind (BinaryStream_wrap buffer transferred READONLY) (\<lambda>inbuffer.
        let p = upd_stats i (PeerStats_Add DATAGRAMS_RECEIVED 1) p;
            p = upd_stats i (PeerStats_Add BYTES_RECEIVED transferred) p
        in rbind (OnReadFinished_decrypt env i inbuffer p) (\<lambda>(ok, inbuffer, p).
           if \<not> ok then DisconnectImmediate (Some i) p else
           rbind (DatagramHeader_Deserialize DatagramHeader_default inbuffer) (\<lambda>((ok, header), inbuffer).
           if \<not> ok then DisconnectImmediate (Some i) p else
           if flag_data header \<and> dataLength header + m_position inbuffer > MTU
           then DisconnectImmediate (Some i) p else
           if \<not> flag_link header then OnUnconnectedMessage_stream env sender inbuffer p else
           rbind (the_handshake i p) (\<lambda>h.
           if \<not> IsDone h \<or> hs_result h \<noteq> CR_OK then DisconnectImmediate (Some i) p else
           OnReadFinished_connected env i header inbuffer p)))))"

section \<open>Writing\<close>

definition DoReadCycle :: "Peer \<Rightarrow> Peer" where
  "DoReadCycle p =
     (if IsReadPending (m_masterSocket p) then p
      else p\<lparr>m_masterSocket := BeginRead (m_masterSocket p)\<rparr>)"

text \<open>Encryption of the datagram at index \<open>k\<close> of the sent box: whether it may be sent.\<close>

definition DoWriteCycle_encrypt :: "Env \<Rightarrow> slot \<Rightarrow> nat \<Rightarrow> Peer \<Rightarrow> (bool \<times> Peer) result" where
  "DoWriteCycle_encrypt env i k p =
     (if \<not> GetEncryptionEnabled p then Inr (True, p) else
      (let datagram = sentbox (at_slot i p) ! k
       in case (case od_crypto datagram of Some a \<Rightarrow> Some a | None \<Rightarrow> crypto (at_slot i p)) of
            None \<Rightarrow> Inr (True, p)
          | Some a \<Rightarrow>
              if \<not> Crypto_GetCryptoEstablished (p_layers p ! a) then Inr (True, p) else
              rbind (Crypto_Encrypt (e_sodium env) (e_rnd_nonce env) (od_blob datagram) (p_layers p ! a)) (\<lambda>blob.
              let p = upd_slot i (\<lambda>r. r\<lparr>sentbox := (sentbox r)[k := datagram\<lparr>od_blob :=
                        fst (BinaryStream_move_assign (od_blob datagram) blob)\<rparr>]\<rparr>) p
              in if Crypto_GetNeedsToBail (p_layers p ! a)
                 then rbind (DisconnectImmediate (Some i) p) (\<lambda>p. Inr (False, p))
                 else Inr (True, p))))"

definition DoWriteCycle :: "Env \<Rightarrow> slot \<Rightarrow> Peer \<Rightarrow> Peer result" where
  "DoWriteCycle env i p =
     (if IsWritePending (m_masterSocket p) then Inr p else
      (let p = upd_stats i (PeerStats_Set PACKETS_IN_QUEUE (length (outbox (at_slot i p)))) p
       in rbind (GetNextDatagram env i p) (\<lambda>(datagram, p).
          case datagram of None \<Rightarrow> Inr p
          | Some k \<Rightarrow>
            rbind (DoWriteCycle_encrypt env i k p) (\<lambda>(go, p).
            if \<not> go then Inr p else
            (let datagram = sentbox (at_slot i p) ! k;
                 p = upd_stats i (PeerStats_Add BYTES_SENT (m_length (od_blob datagram))) p;
                 p = upd_stats i (PeerStats_Add DATAGRAMS_SENT 1) p
             in case congestion (at_slot i p) of None \<Rightarrow> Inl NullPointer
                | Some c \<Rightarrow>
                  (let c = NotifySendingBytes (e_now env) (od_id datagram) (m_length (od_blob datagram)) c;
                       p = upd_slot i (\<lambda>r. r\<lparr>congestion := Some c\<rparr>) p
                   in rbind (load_bytes (GetBuffer (od_blob datagram)) 0 (m_length (od_blob datagram))) (\<lambda>data.
                      Inr (p\<lparr>m_masterSocket :=
                        BeginWrite (od_addr datagram) data (i, od_id datagram) (m_masterSocket p)\<rparr>))))))))"

definition OnWriteFinished :: "slot \<Rightarrow> bool \<Rightarrow> Peer \<Rightarrow> Peer result" where
  "OnWriteFinished i error p = (if error then DisconnectImmediate (Some i) p else Inr p)"

section \<open>The worker thread\<close>

definition update_congestion :: "Env \<Rightarrow> slot \<Rightarrow> Peer \<Rightarrow> Peer" where
  "update_congestion env i p = (case congestion (at_slot i p) of
      None \<Rightarrow> p
    | Some c \<Rightarrow> (let (c, stats) = CongestionControlWindow_Update (e_now env) c (rp_stats (at_slot i p))
                in upd_slot i (\<lambda>r. r\<lparr>congestion := Some c, rp_stats := stats\<rparr>) p))"

definition update_receipts :: "Env \<Rightarrow> slot \<Rightarrow> Peer \<Rightarrow> Peer result" where
  "update_receipts env i p = (case receipt (at_slot i p) of
      None \<Rightarrow> Inr p
    | Some t \<Rightarrow>
        (let (keep, rs, t) = ReceiptTracker_Update (e_now env)
               (map (\<lambda>d. (od_discard d, od_packets d)) (sentbox (at_slot i p))) t
         in rbind (OnMessageReceipts rs p) (\<lambda>p.
            Inr (upd_slot i (\<lambda>r. r\<lparr>receipt := Some t,
                   sentbox := map fst (filter snd (zip (sentbox r) keep))\<rparr>) p))))"

text \<open>One slot of a pass; the flag is false when the thread function returns.\<close>

definition ThreadWorker_slot :: "Env \<Rightarrow> slot \<Rightarrow> Peer \<Rightarrow> (bool \<times> Peer) result" where
  "ThreadWorker_slot env i p =
     (if \<not> active (at_slot i p) then Inr (True, p) else
      rbind (case handshake (at_slot i p) of None \<Rightarrow> Inr p
             | Some h \<Rightarrow> if \<not> IsDone h then Handshaker_Update env i p else Inr p) (\<lambda>p.
      rbind (update_receipts env i (update_congestion env i p)) (\<lambda>p.
      let timeout = disconnect (at_slot i p)
      in if Timestamp_IsValid timeout \<and> Time_Elapsed (e_now env) timeout
         then rbind (DisconnectImmediate (Some i) p) (\<lambda>p. Inr (False, p))
         else if \<not> rp_socket (at_slot i p) \<or> \<not> IsOpenAndReady (m_masterSocket p) then Inr (True, p)
         else rbind (DoWriteCycle env i (DoReadCycle p)) (\<lambda>p. Inr (True, p)))))"

fun ThreadWorker_slots :: "(slot \<Rightarrow> Env) \<Rightarrow> slot list \<Rightarrow> Peer \<Rightarrow> (bool \<times> Peer) result" where
  "ThreadWorker_slots env [] p = Inr (True, p)"
| "ThreadWorker_slots env (i # is) p =
     rbind (ThreadWorker_slot (env i) i p) (\<lambda>(go, p).
     if go then ThreadWorker_slots env is p else Inr (False, p))"

definition ThreadWorker :: "(slot \<Rightarrow> Env) \<Rightarrow> Peer \<Rightarrow> Peer result" where
  "ThreadWorker env p =
     (if \<not> m_updateThread p then Inr p else
      if m_updateThreadAbort p then Inr (p\<lparr>m_updateThread := False\<rparr>) else
      rbind (ThreadWorker_slots env [0..<Suc (GetMaximumPeers p)] p) (\<lambda>(go, p).
      Inr (if go then p else p\<lparr>m_updateThread := False\<rparr>)))"

section \<open>Events of the socket\<close>

text \<open>
  What the worker thread of the socket does with the peer: a posted connect callback, the completion
  of a read and the completion of a write.  A datagram overwrites the front of the receive buffer.
\<close>

definition socket_connected :: "Env \<Rightarrow> Peer \<Rightarrow> Peer result" where
  "socket_connected env p =
     (let (posted, sock) = SocketUDP_ThreadWorker (m_masterSocket p);
          p = p\<lparr>m_masterSocket := sock\<rparr>
      in case posted of None \<Rightarrow> Inr p
         | Some (i, error, addr) \<Rightarrow> OnSocketConnected env i error addr p)"

definition socket_read :: "Env \<Rightarrow> bool \<Rightarrow> RemoteAddress \<Rightarrow> u8 list \<Rightarrow> Peer \<Rightarrow> Peer result" where
  "socket_read env error sender data p =
     (let data = (if error then [] else take PACKETQUEUE_IN_LEN data);
          p = p\<lparr>m_masterSocket := fill_readbuf data (m_masterSocket p)\<rparr>
      in rbind (OnReadFinished env error sender (Some (map Some (m_readbuf (m_masterSocket p))))
                  (length data) p) (\<lambda>p.
         Inr (p\<lparr>m_masterSocket := after_read error (m_masterSocket p)\<rparr>)))"

definition socket_written :: "bool \<Rightarrow> Peer \<Rightarrow> Peer result" where
  "socket_written error p =
     (let (done, sock) = write_completion (m_masterSocket p);
          p = p\<lparr>m_masterSocket := sock\<rparr>
      in case done of None \<Rightarrow> Inr p | Some (i, did) \<Rightarrow> OnWriteFinished i error p)"

end
