(* ===== verification/Sending.thy ===== *)
theory Sending
  imports Queue
begin

text \<open>
  How a message leaves: it is queued in segments, and packets are put into datagrams and written to
  the socket.
\<close>

section \<open>Queueing a message\<close>

definition segment_header ::
  "PacketOptions \<Rightarrow> ChannelIndex \<Rightarrow> SequenceID \<Rightarrow> PacketID \<Rightarrow> PacketID \<Rightarrow> u8 list \<Rightarrow> nat \<Rightarrow> PacketHeader" where
  "segment_header opts chan seq container mid full k =
     \<lparr>flag_segment = (k < segments (length full) - 1), flag_jumbo = (65535 \<le> length full - 1), ph_id = mid,
      ph_options = opts, ph_channel = chan, ph_sequence = seq,
      ph_length = of_nat (length (segment full k)), ph_offset = of_nat (k * CHUNK_SIZE),
      splitContainer = container, splitIndex = of_nat k\<rparr>"

definition segment_id :: "PacketID \<Rightarrow> u8 list \<Rightarrow> nat \<Rightarrow> PacketID" where
  "segment_id container full k = (if segments (length full) > 1 then container + 1 + of_nat k else container)"

definition queued ::
  "Timestamp \<Rightarrow> slot \<Rightarrow> RemoteAddress \<Rightarrow> PacketOptions \<Rightarrow> ChannelIndex \<Rightarrow> SequenceID \<Rightarrow> PacketID \<Rightarrow>
   u8 list \<Rightarrow> nat \<Rightarrow> OutgoingPacket \<Rightarrow> bool" where
  "queued now i addr opts chan seq container full k out \<longleftrightarrow>
     written (op_blob out)
       (enc_PacketHeader (segment_header opts chan seq container (segment_id container full k) full k) @
        segment full k) [] \<and>
     op_id out = segment_id container full k \<and>
     op_options out = (if segments (length full) > 1 then options_or opts RELIABLE else opts) \<and>
     sendCount out = 0 \<and> sendNext out = now \<and> op_addr out = addr \<and> op_crypto out = None \<and>
     op_remote out = i"

lemma length_enc_PacketHeader: "length (enc_PacketHeader h) \<le> 27" "9 \<le> length (enc_PacketHeader h)"
  by (auto simp: enc_PacketHeader_def)

lemma Serialize_header:
  assumes "written s c []" "length c + 27 \<le> max_stream"
  shows "\<exists>s'. PacketHeader_Serialize h s = Inr s' \<and> written s' (c @ enc_PacketHeader h) []"
proof -
  have "list_all valid_value (PacketHeader_values h)" "PacketHeader_values h \<noteq> []"
    "\<not> is_flag (last (PacketHeader_values h))"
    by (simp_all add: PacketHeader_values_def)
  then show ?thesis
    using write_values_bytes [of "PacketHeader_values h" s c "[]" LittleEndian] assms length_enc_PacketHeader [of h]
    by (simp add: enc_PacketHeader_values PacketHeader_Serialize_values)
qed

lemma length_segment:
  assumes "k < segments (length full)" "0 < length full"
  shows "length (segment full k) = min (length full - k * CHUNK_SIZE) CHUNK_SIZE" "0 < length (segment full k)"
    "length (segment full k) \<le> 1200"
  using assms segments_iff [of "length full" k] by (auto simp: segment_def CHUNK_SIZE_eq)

lemma load_segment:
  assumes w: "written s full []" and k: "k < segments (length full)" and n: "0 < length full"
  shows "load_bytes (GetBuffer s) (k * CHUNK_SIZE) (length (segment full k)) = Inr (segment full k)"
proof -
  obtain m where m: "GetBuffer s = Some m" "take (length full) m = map Some full" "length full \<le> length m"
    using GetBuffer_written [OF w] n by auto
  have e: "k * CHUNK_SIZE + length (segment full k) \<le> length full"
    using length_segment [OF k n] segments_iff [OF n, of k] k by auto
  have "take (length (segment full k)) (drop (k * CHUNK_SIZE) m) =
      take (length (segment full k)) (drop (k * CHUNK_SIZE) (take (length full) m))"
    using e by (simp add: drop_take)
  also have "\<dots> = map Some (segment full k)"
    unfolding m(2) using length_segment [OF k n]
    by (simp add: segment_def drop_map take_map min_def)
  finally show ?thesis using m(1,3) e by (simp add: load_bytes_Inr)
qed

lemma Enqueue_segment_ok:
  assumes w: "written fs full []" and len: "length full = pkt_length packet + 1" "length full < 2 ^ 32"
    and k: "k < segments (length full)" and c: "congestion r = Some c"
    and nx: "segments (length full) > 1 \<Longrightarrow> m_nextPacket c = container + 1 + of_nat k"
  shows "\<exists>out. Enqueue_segment env packet fs i opts chan seq container (segments (length full)) k (ids, r) =
      Inr (if segments (length full) > 1 then insert (segment_id container full k) ids else ids,
           r\<lparr>congestion := Some (if segments (length full) > 1 then c\<lparr>m_nextPacket := m_nextPacket c + 1\<rparr> else c),
             outbox := outbox r @ [out]\<rparr>) \<and>
    queued (e_now env) i (rp_addr r) opts chan seq container full k out"
proof -
  have n: "0 < length full" using len by simp
  have o: "k * CHUNK_SIZE < length full" using segments_iff [OF n] k by simp
  have ml: "m_length fs = length full" using m_length_written [OF w] .
  have bl: "min (size_sub (m_length fs) (k * CHUNK_SIZE)) CHUNK_SIZE = length (segment full k)"
    using length_segment [OF k n] o ml len(2) by (simp add: size_sub_eq)
  have uo: "unat (of_nat (k * CHUNK_SIZE) :: u32) = k * CHUNK_SIZE"
    using o len(2) by (intro unat_of_nat_small) auto
  let ?mid = "segment_id container full k"
  let ?h = "segment_header opts chan seq container ?mid full k"
  have h: "\<lparr>flag_segment = (k < segments (length full) - 1), flag_jumbo = (pkt_length packet \<ge> 65535),
      ph_id = ?mid, ph_options = opts, ph_channel = chan, ph_sequence = seq,
      ph_length = of_nat (length (segment full k)), ph_offset = of_nat (k * CHUNK_SIZE),
      splitContainer = container, splitIndex = of_nat k\<rparr> = ?h"
    using len by (simp add: segment_header_def)
  obtain b1 where b1: "PacketHeader_Serialize ?h (BinaryStream_new BINARYSTREAM_DEFAULT_CAPACITY) = Inr b1"
    "written b1 (enc_PacketHeader ?h) []"
    using Serialize_header [OF written_new] by (auto simp: max_stream_def)
  obtain b2 where b2: "WriteBytes (segment full k) b1 = Inr b2"
    "written b2 (enc_PacketHeader ?h @ segment full k) []"
    using written_WriteBytes [OF b1(2), of "segment full k"] length_enc_PacketHeader [of ?h]
      length_segment [OF k n] by (auto simp: max_stream_def flushed_def)
  note ld = load_segment [OF w k n]
  define out where "out = \<lparr>op_crypto = None, op_blob = b2, op_addr = rp_addr r, op_remote = i,
      sendNext = e_now env, sendCount = 0, op_id = ?mid,
      op_options = (if segments (length full) > 1 then options_or opts RELIABLE else opts)\<rparr>"
  have "queued (e_now env) i (rp_addr r) opts chan seq container full k out"
    using b2(2) by (simp add: queued_def out_def)
  moreover have "Enqueue_segment env packet fs i opts chan seq container (segments (length full)) k (ids, r) =
      Inr (if segments (length full) > 1 then insert ?mid ids else ids,
           r\<lparr>congestion := Some (if segments (length full) > 1 then c\<lparr>m_nextPacket := m_nextPacket c + 1\<rparr> else c),
             outbox := outbox r @ [out]\<rparr>)"
  proof (cases "segments (length full) > 1")
    case True
    then have mid: "m_nextPacket c = ?mid" using nx by (simp add: segment_id_def)
    show ?thesis unfolding Enqueue_segment_def Let_def prod.case bl
      using True c mid h b1(1) b2(1) ld uo by (simp add: GetNextPacketID_def out_def)
  next
    case False
    then have mid: "?mid = container" by (simp add: segment_id_def)
    show ?thesis unfolding Enqueue_segment_def Let_def prod.case bl
      using False c mid h b1(1) b2(1) ld uo by (cases r) (simp add: out_def)
  qed
  ultimately show ?thesis by blast
qed

lemma rbind_rfold_Nil: "rbind m (rfold f []) = m"
  by (cases m) simp_all

lemma Enqueue_segments_ok:
  assumes w: "written fs full []" and len: "length full = pkt_length packet + 1" "length full < 2 ^ 32"
    and c: "congestion r = Some c" and nx: "m_nextPacket c = container + 1"
    and m: "m \<le> segments (length full)"
  shows "\<exists>os. rfold (Enqueue_segment env packet fs i opts chan seq container (segments (length full))) [0..<m] ({}, r) =
      Inr (if segments (length full) > 1 then segment_id container full ` {..<m} else {},
           r\<lparr>congestion := Some (if segments (length full) > 1 then c\<lparr>m_nextPacket := container + 1 + of_nat m\<rparr> else c),
             outbox := outbox r @ os\<rparr>) \<and>
    list_all2 (queued (e_now env) i (rp_addr r) opts chan seq container full) [0..<m] os"
  using m
proof (induction m)
  case 0
  have "r = r\<lparr>congestion := Some c, outbox := outbox r\<rparr>" "c = c\<lparr>m_nextPacket := container + 1\<rparr>"
    using c nx by simp_all
  then show ?case using nx c by simp
next
  case (Suc m)
  let ?multi = "segments (length full) > 1"
  define c1 where "c1 = (if ?multi then c\<lparr>m_nextPacket := container + 1 + of_nat m\<rparr> else c)"
  obtain os where os: "rfold (Enqueue_segment env packet fs i opts chan seq container (segments (length full))) [0..<m] ({}, r) =
      Inr (if ?multi then segment_id container full ` {..<m} else {}, r\<lparr>congestion := Some c1, outbox := outbox r @ os\<rparr>)"
    "list_all2 (queued (e_now env) i (rp_addr r) opts chan seq container full) [0..<m] os"
    using Suc c1_def by auto
  define r1 where "r1 = r\<lparr>congestion := Some c1, outbox := outbox r @ os\<rparr>"
  have k: "m < segments (length full)" using Suc.prems by simp
  have nx1: "m_nextPacket c1 = container + 1 + of_nat m" if ?multi using that by (simp add: c1_def)
  have "congestion r1 = Some c1" "rp_addr r1 = rp_addr r" by (simp_all add: r1_def)
  define ids0 where "ids0 = (if ?multi then segment_id container full ` {..<m} else {})"
  from Enqueue_segment_ok [OF w len k \<open>congestion r1 = Some c1\<close> nx1, of env i opts chan seq ids0]
    \<open>rp_addr r1 = rp_addr r\<close>
  obtain out where out: "Enqueue_segment env packet fs i opts chan seq container (segments (length full)) m (ids0, r1) =
      Inr (if ?multi then insert (segment_id container full m) ids0 else ids0,
           r1\<lparr>congestion := Some (if ?multi then c1\<lparr>m_nextPacket := m_nextPacket c1 + 1\<rparr> else c1),
             outbox := outbox r1 @ [out]\<rparr>)"
    "queued (e_now env) i (rp_addr r) opts chan seq container full m out"
    by metis
  have "list_all2 (queued (e_now env) i (rp_addr r) opts chan seq container full) [0..<Suc m] (os @ [out])"
    using os(2) out(2) by (simp add: list_all2_appendI)
  moreover have "(if ?multi then c1\<lparr>m_nextPacket := m_nextPacket c1 + 1\<rparr> else c1) =
      (if ?multi then c\<lparr>m_nextPacket := container + 1 + of_nat (Suc m)\<rparr> else c)"
    by (simp add: c1_def algebra_simps)
  moreover have "r1\<lparr>congestion := Some d, outbox := outbox r1 @ [out]\<rparr> =
      r\<lparr>congestion := Some d, outbox := outbox r @ (os @ [out])\<rparr>" for d
    by (simp add: r1_def)
  moreover have "(if ?multi then insert (segment_id container full m) ids0 else ids0) =
      (if ?multi then segment_id container full ` {..<Suc m} else {})" by (simp add: lessThan_Suc ids0_def)
  moreover have "rfold (Enqueue_segment env packet fs i opts chan seq container (segments (length full))) [0..<Suc m] ({}, r) =
      Enqueue_segment env packet fs i opts chan seq container (segments (length full)) m (ids0, r1)"
    using os(1) unfolding r1_def [symmetric] ids0_def [symmetric] by (simp add: rfold_append rbind_rfold_Nil)
  ultimately show ?case using out(1) by (intro exI [of _ "os @ [out]"]) (simp only: simp_thms)
qed

text \<open>
  The state after queueing a message on the default channel, and the receipt tracker of it.
\<close>

definition tracked_message :: "PacketOptions \<Rightarrow> PacketID \<Rightarrow> u8 list \<Rightarrow> ReceiptTracker \<Rightarrow> ReceiptTracker" where
  "tracked_message opts container full t =
     (if options_and opts WITH_RECEIPT
      then if segments (length full) > 1
           then RegisterSplitPacket container (segment_id container full ` {..<segments (length full)}) (Track container t)
           else Track container t
      else t)"

definition after_message :: "PacketID \<Rightarrow> u8 list \<Rightarrow> PacketID" where
  "after_message container full =
     (if segments (length full) > 1 then container + 1 + of_nat (segments (length full)) else container + 1)"

lemma EnqueueOutgoing_ok:
  assumes i: "i < length (m_remotes p)" and ok: "packet_ok packet" "pkt_length packet < PACKET_MAX_LENGTH"
    and nd: "\<not> IsDisconnecting (at_slot i p)" and c: "congestion (at_slot i p) = Some c"
    and t: "receipt (at_slot i p) = Some t" and ch: "channel_id channel = 0"
  shows "\<exists>os. EnqueueOutgoing env packet i opts prio channel p =
      Inr (m_nextPacket c, upd_slot i (\<lambda>r. r\<lparr>
        congestion := Some (c\<lparr>m_nextPacket := after_message (m_nextPacket c) (enc_Packet packet)\<rparr>),
        outbox := outbox r @ os, receipt := Some (tracked_message opts (m_nextPacket c) (enc_Packet packet) t),
        rp_stats := PeerStats_Add PACKETS_QUEUED 1 (rp_stats r)\<rparr>) p) \<and>
    list_all2 (queued (e_now env) i (rp_addr (at_slot i p)) opts 0 0 (m_nextPacket c) (enc_Packet packet))
      [0..<segments (length (enc_Packet packet))] os"
proof -
  let ?full = "enc_Packet packet" and ?id = "m_nextPacket c" and ?r = "at_slot i p"
  have len: "length ?full = pkt_length packet + 1" using length_enc_Packet [OF ok(1)] by (simp add: GetDatagramLength_def)
  have big: "length ?full < 2 ^ 32" using len ok(2) by (simp add: PACKET_MAX_LENGTH_def)
  obtain fs where fs: "ToDatagram packet (BinaryStream_new (GetDatagramLength packet)) = Inr fs" "written fs ?full []"
    using ToDatagram_written [OF ok(1) written_new, of "GetDatagramLength packet"] big
    by (auto simp: flushed_def max_stream_def)
  have ml: "m_length fs = GetDatagramLength packet"
    using m_length_written [OF fs(2)] len by (simp add: GetDatagramLength_def)
  have segs: "size_sub (m_length fs) 1 div CHUNK_SIZE + 1 = segments (length ?full)"
    using ml len big by (simp add: segments_def size_sub_eq GetDatagramLength_def)
  define c1 where "c1 = c\<lparr>m_nextPacket := ?id + 1\<rparr>"
  define r1 where "r1 = ?r\<lparr>congestion := Some c1\<rparr>"
  have "congestion r1 = Some c1" "m_nextPacket c1 = ?id + 1" by (simp_all add: r1_def c1_def)
  from Enqueue_segments_ok [OF fs(2) len big this order.refl, of env i opts 0 0]
  obtain os where os: "rfold (Enqueue_segment env packet fs i opts 0 0 ?id (segments (length ?full)))
      [0..<segments (length ?full)] ({}, r1) =
      Inr (if segments (length ?full) > 1 then segment_id ?id ?full ` {..<segments (length ?full)} else {},
           r1\<lparr>congestion := Some (if segments (length ?full) > 1
                then c1\<lparr>m_nextPacket := ?id + 1 + of_nat (segments (length ?full))\<rparr> else c1),
             outbox := outbox r1 @ os\<rparr>)"
    "list_all2 (queued (e_now env) i (rp_addr ?r) opts 0 0 ?id ?full) [0..<segments (length ?full)] os"
    by (auto simp: r1_def)
  have r1': "at_slot i (upd_slot i (\<lambda>r. r\<lparr>congestion := Some c1\<rparr>) p) = r1" using i by (simp add: r1_def)
  have ra: "rassert (m_length fs = GetDatagramLength packet) x = x" for x :: "(PacketID \<times> Peer) result"
    using ml by simp
  have rt: "?r\<lparr>congestion := x, outbox := y, receipt := Some t\<rparr> = ?r\<lparr>congestion := x, outbox := y\<rparr>" for x y
    using t by (cases ?r) simp
  have gc: "GetChannelBuffer i 0 q = Inr (None, q)" for q by (simp add: GetChannelBuffer_def)
  have cc: "(if segments (length ?full) > 1
       then c1\<lparr>m_nextPacket := ?id + 1 + of_nat (segments (length ?full))\<rparr> else c1) =
      c\<lparr>m_nextPacket := after_message ?id ?full\<rparr>"
    by (simp add: c1_def after_message_def)
  have "EnqueueOutgoing env packet i opts prio channel p =
      Inr (?id, upd_stats i (PeerStats_Add PACKETS_QUEUED 1) (upd_slot i (\<lambda>_.
        r1\<lparr>congestion := Some (c\<lparr>m_nextPacket := after_message ?id ?full\<rparr>), outbox := outbox r1 @ os,
          receipt := Some (tracked_message opts ?id ?full t)\<rparr>) (upd_slot i (\<lambda>r. r\<lparr>congestion := Some c1\<rparr>) p)))"
    using t
    by (simp only: EnqueueOutgoing_def nd ok(2) rassert_simps if_False fs(1) rbind_simps ra segs Let_def
        c ch option.case GetNextPacketID_def prod.case c1_def [symmetric] gc r1' os(1) cc)
      (simp add: tracked_message_def r1_def rt)
  also have "\<dots> = Inr (?id, upd_slot i (\<lambda>r. r\<lparr>
        congestion := Some (c\<lparr>m_nextPacket := after_message ?id ?full\<rparr>),
        outbox := outbox r @ os, receipt := Some (tracked_message opts ?id ?full t),
        rp_stats := PeerStats_Add PACKETS_QUEUED 1 (rp_stats r)\<rparr>) p)"
    using i by (simp add: upd_stats_def upd_slot_def r1_def at_slot_def)
  finally show ?thesis using os(2) by blast
qed

section \<open>Building a datagram\<close>

definition postpone :: "Timestamp \<Rightarrow> OutgoingPacket \<Rightarrow> OutgoingPacket" where
  "postpone t out = out\<lparr>sendNext := t\<rparr>"

lemma postpone_simps [simp]:
  "op_blob (postpone t out) = op_blob out" "sendCount (postpone t out) = sendCount out"
  "sendNext (postpone t out) = t" "op_id (postpone t out) = op_id out"
  "op_addr (postpone t out) = op_addr out" "op_crypto (postpone t out) = op_crypto out"
  "op_options (postpone t out) = op_options out" "HasFlag f (postpone t out) = HasFlag f out"
  by (simp_all add: postpone_def HasFlag_def)

text \<open>A packet that was never sent and may be sent now.\<close>

definition sendable :: "Timestamp \<Rightarrow> OutgoingPacket \<Rightarrow> bool" where
  "sendable now out \<longleftrightarrow> sendCount out = 0 \<and> sendNext out \<le> now \<and> 0 < m_length (op_blob out)"

definition blob_lengths :: "OutgoingPacket list \<Rightarrow> nat" where
  "blob_lengths os = (\<Sum>out \<leftarrow> os. m_length (op_blob out))"

lemma blob_lengths_simps [simp]:
  "blob_lengths [] = 0" "blob_lengths (out # os) = m_length (op_blob out) + blob_lengths os"
  "blob_lengths (xs @ ys) = blob_lengths xs + blob_lengths ys"
  by (simp_all add: blob_lengths_def)

lemma find_upt:
  assumes "k < n" "P k" "\<And>j. j < k \<Longrightarrow> \<not> P j"
  shows "find P [0..<n] = Some k"
  using assms by (auto simp: find_Some_iff intro!: exI [of _ k])

lemma find_upt_None: "(\<And>j. j < n \<Longrightarrow> \<not> P j) \<Longrightarrow> find P [0..<n] = None"
  by (simp add: find_None_iff)

lemma GetQueuedPacket_next:
  assumes "\<forall>out \<in> set xs. now < sendNext out" "sendable now out" "m_length (op_blob out) \<le> budget"
  shows "GetQueuedPacket now (xs @ out # ys) budget False = Some (length xs)"
  unfolding GetQueuedPacket_def using assms
  by (intro find_upt) (auto simp: sendable_def Time_Elapsed_def nth_append not_le)

lemma GetQueuedPacket_none:
  assumes "\<forall>out \<in> set xs. now < sendNext out"
  shows "GetQueuedPacket now xs budget resend = None"
  unfolding GetQueuedPacket_def using assms
  by (intro find_upt_None) (auto simp: Time_Elapsed_def not_le)

lemma GetQueuedPacket_no_resend:
  assumes "\<forall>out \<in> set xs. sendCount out = 0"
  shows "GetQueuedPacket now xs budget True = None"
  unfolding GetQueuedPacket_def using assms by (intro find_upt_None) auto

lemma fill_all:
  assumes "\<not> IsOutOfBand r" "congestion r = Some c" "t = Timestamp_plus (e_now env) (GetRetransmissionRTO 0 c)"
    and "e_now env < t" "outbox r = map (postpone t) xs @ ys"
    and "\<forall>out \<in> set ys. sendable (e_now env) out" "blob_lengths ys \<le> budget" "length ys + 2 \<le> fuel"
  shows "Datagram_AddNewPackets fuel env (q, r, budget) =
    Inr (q @ [length xs..<length xs + length ys], r\<lparr>outbox := map (postpone t) (xs @ ys)\<rparr>)"
  using assms
proof (induction ys arbitrary: xs r q budget fuel)
  case Nil
  then have "GetQueuedPacket (e_now env) (outbox r) budget False = None"
    by (intro GetQueuedPacket_none) auto
  moreover have "r\<lparr>outbox := map (postpone t) xs\<rparr> = r" using Nil.prems by simp
  moreover obtain f where "fuel = Suc (Suc f)" using Nil.prems by (cases fuel; cases "fuel - 1") auto
  ultimately show ?case using Nil.prems(1) by (simp add: Datagram_AddNewPacket_def)
next
  case (Cons out ys)
  let ?r = "r\<lparr>outbox := map (postpone t) (xs @ [out]) @ ys\<rparr>"
  obtain f where f: "fuel = Suc f" "length ys + 2 \<le> f" using Cons.prems(8) by (cases fuel) auto
  have pos: "0 < budget" using Cons.prems(6,7) by (auto simp: sendable_def)
  have nxt: "GetQueuedPacket (e_now env) (outbox r) budget False = Some (length xs)"
    using Cons.prems(4-7) GetQueuedPacket_next [of "map (postpone t) xs" "e_now env" out budget ys] by simp
  have set: "set_sendNext env (length xs) r = Inr ?r"
    using Cons.prems(2,3,5,6) by (simp add: set_sendNext_def nth_append list_update_append sendable_def postpone_def)
  have "Datagram_AddNewPacket env (q, r, budget) = Inr (q @ [length xs], ?r, budget - m_length (op_blob out))"
    using Cons.prems(5,7) nxt set by (simp add: Datagram_AddNewPacket_def nth_append)
  moreover have "Datagram_AddNewPackets f env (q @ [length xs], ?r, budget - m_length (op_blob out)) =
      Inr ((q @ [length xs]) @ [length (xs @ [out])..<length (xs @ [out]) + length ys],
           ?r\<lparr>outbox := map (postpone t) ((xs @ [out]) @ ys)\<rparr>)"
    using Cons.prems f by (intro Cons.IH) (auto simp: IsOutOfBand_def)
  moreover have "[length xs..<length xs + length (out # ys)] =
      length xs # [length (xs @ [out])..<length (xs @ [out]) + length ys]"
    by (simp add: upt_conv_Cons del: upt_Suc)
  ultimately show ?case using Cons.prems(1) f(1) pos by (simp del: upt_Suc)
qed

text \<open>A packet after it has been put into a datagram.\<close>

definition sent :: "Timestamp \<Rightarrow> OutgoingPacket \<Rightarrow> OutgoingPacket" where
  "sent t out = out\<lparr>sendNext := t, sendCount := 1\<rparr>"

lemma count_all:
  assumes i: "i < length (m_remotes p)" and "outbox (at_slot i p) = map (sent t) xs @ map (postpone t) ys"
    and "\<forall>out \<in> set ys. sendCount out = 0"
  shows "Datagram_count i [length xs..<length xs + length ys] n ids p =
    Inr (Some (n + blob_lengths ys, ids @ map op_id ys),
         upd_slot i (\<lambda>r. r\<lparr>outbox := map (sent t) (xs @ ys)\<rparr>) p)"
  using assms
proof (induction ys arbitrary: xs n ids p)
  case Nil
  have "upd_slot i (\<lambda>r. r\<lparr>outbox := map (sent t) xs\<rparr>) p = p"
    using Nil.prems by (simp add: upd_slot_def at_slot_def list_update_same_conv)
  then show ?case by simp
next
  case (Cons out ys)
  let ?p = "upd_slot i (\<lambda>r. r\<lparr>outbox := map (sent t) (xs @ [out]) @ map (postpone t) ys\<rparr>) p"
  let ?out = "postpone t out\<lparr>sendCount := sendCount (postpone t out) + 1\<rparr>"
  have o: "?out = sent t out" using Cons.prems(3) by (simp add: sent_def postpone_def)
  have nth: "outbox (at_slot i p) ! length xs = postpone t out" using Cons.prems(2) by (simp add: nth_append)
  have upd: "upd_slot i (\<lambda>r. r\<lparr>outbox := (outbox r)[length xs := sent t out]\<rparr>) p = ?p"
    using Cons.prems(2) by (simp add: upd_slot_def at_slot_def list_update_append)
  have lim: "\<not> sendCount (sent t out) > SEND_RETRY_COUNT" by (simp add: sent_def SEND_RETRY_COUNT_def)
  have "Datagram_count i (length xs # ks) n ids p =
      Datagram_count i ks (n + m_length (op_blob out)) (ids @ [op_id out]) ?p" for ks
    using lim by (simp only: Datagram_count.simps Let_def nth o upd if_False) (simp add: sent_def)
  moreover have "[length xs..<length xs + length (out # ys)] =
      length xs # [length (xs @ [out])..<length (xs @ [out]) + length ys]"
    by (simp add: upt_conv_Cons del: upt_Suc)
  moreover have "Datagram_count i [length (xs @ [out])..<length (xs @ [out]) + length ys]
      (n + m_length (op_blob out)) (ids @ [op_id out]) ?p =
      Inr (Some (n + m_length (op_blob out) + blob_lengths ys, (ids @ [op_id out]) @ map op_id ys),
           upd_slot i (\<lambda>r. r\<lparr>outbox := map (sent t) ((xs @ [out]) @ ys)\<rparr>) ?p)"
    using Cons.prems by (intro Cons.IH) auto
  ultimately show ?case using Cons.prems(1) by (simp add: add.assoc del: upt_Suc)
qed

definition blob_bytes :: "OutgoingPacket \<Rightarrow> u8 list" where
  "blob_bytes out = contents (op_blob out)"

definition blob_ok :: "OutgoingPacket \<Rightarrow> bool" where
  "blob_ok out \<longleftrightarrow> written (op_blob out) (blob_bytes out) []"

lemma blob_ok_length: "blob_ok out \<Longrightarrow> m_length (op_blob out) = length (blob_bytes out)"
  using m_length_written by (auto simp: blob_ok_def)

lemma write_blob:
  assumes "blob_ok out" "written s c []" "length c + m_length (op_blob out) \<le> max_stream"
  shows "\<exists>s'. WriteBytes_stream (op_blob out) s = Inr s' \<and> written s' (c @ blob_bytes out) []"
proof -
  have w: "written (op_blob out) (blob_bytes out) []" using assms(1) by (simp add: blob_ok_def)
  have "\<not> m_readonly s" using assms(2) by (simp add: written_def stream_ok_def)
  then show ?thesis using written_WriteBytes [OF assms(2), of "blob_bytes out"] assms(3)
      load_written [OF w] m_length_written [OF w]
    by (simp add: WriteBytes_stream_def flushed_def)
qed

lemma write_all:
  assumes "outbox r = xs @ ys" "\<forall>out \<in> set ys. blob_ok out \<and> HasFlag RELIABLE out"
    and "written s c []" "length c + blob_lengths ys \<le> max_stream"
  shows "\<exists>s'. Datagram_write [length xs..<length xs + length ys] None s r = Inr (s', r) \<and>
    written s' (c @ concat (map blob_bytes ys)) []"
  using assms
proof (induction ys arbitrary: xs s c)
  case Nil
  then show ?case by simp
next
  case (Cons out ys)
  obtain s1 where s1: "WriteBytes_stream (op_blob out) s = Inr s1" "written s1 (c @ blob_bytes out) []"
    using write_blob [of out s c] Cons.prems by auto
  have "m_length (op_blob out) = length (blob_bytes out)" using blob_ok_length Cons.prems(2) by auto
  then obtain s' where s': "Datagram_write [length (xs @ [out])..<length (xs @ [out]) + length ys] None s1 r = Inr (s', r)"
    "written s' ((c @ blob_bytes out) @ concat (map blob_bytes ys)) []"
    using Cons.IH [of "xs @ [out]" s1 "c @ blob_bytes out"] Cons.prems s1(2) by fastforce
  have "[length xs..<length xs + length (out # ys)] =
      length xs # [length (xs @ [out])..<length (xs @ [out]) + length ys]"
    by (simp add: upt_conv_Cons del: upt_Suc)
  then show ?case using s1(1) s' Cons.prems(1,2)
    by (auto simp: invalidated_def nth_append simp del: upt_Suc intro!: exI [of _ s'])
qed

definition data_header :: "bool \<Rightarrow> DatagramID \<Rightarrow> nat \<Rightarrow> DatagramHeader" where
  "data_header link did n = DatagramHeader_default\<lparr>flag_data := True, flag_link := link,
     dh_datagramID := did, dataLength := n\<rparr>"

lemma data_header_simps [simp]:
  "flag_data (data_header link did n)" "flag_link (data_header link did n) = link"
  "dh_datagramID (data_header link did n) = did" "dataLength (data_header link did n) = n"
  "acks (data_header link did n) = []" "nacks (data_header link did n) = []"
  by (simp_all add: data_header_def DatagramHeader_default_def)

lemma length_data_header [simp]: "length (enc_DatagramHeader (data_header link did n)) = 7"
  by (simp add: enc_DatagramHeader_def enc_ids_def)

lemma data_header_written:
  assumes "n < 2 ^ 16 - 1"
  shows "\<exists>s. DatagramHeader_Serialize (data_header link did n) (BinaryStream_new BINARYSTREAM_DEFAULT_CAPACITY) = Inr s \<and>
    written s (enc_DatagramHeader (data_header link did n)) []"
  using DatagramHeader_Serialize_written [OF _ written_new, of "data_header link did n"] assms
  by (auto simp: max_stream_def)

text \<open>
  The datagram in which packets leave, and the slot afterwards.  Unreliable packets are not kept.
\<close>

definition the_datagram :: "Timestamp \<Rightarrow> RemotePeer \<Rightarrow> CongestionControlWindow \<Rightarrow> OutgoingPacket list \<Rightarrow> BinaryStream \<Rightarrow> OutgoingDatagram" where
  "the_datagram now r c os blob = \<lparr>od_crypto = op_crypto (hd os), od_blob = blob, od_addr = op_addr (hd os),
     od_id = m_nextDatagram c, od_discard = Timestamp_plus now (FromSeconds 5), od_packets = map op_id os\<rparr>"

definition after_datagram ::
  "RemotePeer \<Rightarrow> CongestionControlWindow \<Rightarrow> OutgoingPacket list \<Rightarrow> nat \<Rightarrow> OutgoingDatagram \<Rightarrow> RemotePeer" where
  "after_datagram r c box n d = r\<lparr>outbox := box,
     congestion := Some (c\<lparr>m_nextDatagram := m_nextDatagram c + 1\<rparr>),
     rp_stats := PeerStats_Add PACKETS_SENT n (rp_stats r), sentbox := sentbox r @ [d]\<rparr>"

lemma no_resend:
  assumes "\<forall>out \<in> set (outbox r). sendCount out = 0"
  shows "(if b > 0 then Datagram_AddResendPacket env b ([], r) else Inr ([], r)) = Inr ([], r)"
  using GetQueuedPacket_no_resend [OF assms] by (simp add: Datagram_AddResendPacket_def)

lemma MakeDatagram_all:
  assumes i: "i < length (m_remotes p)" and r: "at_slot i p = r" and os: "outbox r = os" "os \<noteq> []"
    and ok: "\<forall>out \<in> set os. sendable (e_now env) out \<and> blob_ok out \<and> HasFlag RELIABLE out"
    and c: "congestion r = Some c" and t: "t = Timestamp_plus (e_now env) (GetRetransmissionRTO 0 c)" "e_now env < t"
    and oob: "\<not> IsOutOfBand r" and bud: "blob_lengths os \<le> GetTransmissionBudget c"
  shows "\<exists>blob. MakeDatagram env i p = Inr (Some (length (sentbox r)),
      upd_slot i (\<lambda>_. after_datagram r c (map (sent t) os) (length os) (the_datagram (e_now env) r c os blob)) p) \<and>
    written blob (enc_DatagramHeader (data_header (IsConnected r) (m_nextDatagram c) (blob_lengths os)) @
      concat (map blob_bytes os)) []"
proof -
  have fit: "GetTransmissionBudget c + GetRetransmissionBudget c \<le> MTU" by (rule window.budgets_fit)
  have pos: "0 < GetTransmissionBudget c" using os(2) ok bud by (cases os) (auto simp: sendable_def)
  have small: "blob_lengths os < 2 ^ 16 - 1" using bud fit by (simp add: MTU_def)
  have ln: "length os \<le> blob_lengths os" using ok
    by (induction os) (auto simp: sendable_def Suc_le_eq)
  have f: "Datagram_AddNewPackets (GetTransmissionBudget c + length (outbox r) + 1) env ([], r, GetTransmissionBudget c) =
      Inr ([0..<length os], r\<lparr>outbox := map (postpone t) os\<rparr>)"
    using fill_all [OF oob c t(1,2), of "[]" os "GetTransmissionBudget c" _ "[]"] os ok bud pos
    by (simp del: Datagram_AddNewPackets.simps)
  let ?r1 = "r\<lparr>outbox := map (postpone t) os\<rparr>" and ?c1 = "c\<lparr>m_nextDatagram := m_nextDatagram c + 1\<rparr>"
  let ?p1 = "upd_slot i (\<lambda>r. r\<lparr>congestion := Some ?c1\<rparr>) (upd_slot i (\<lambda>_. ?r1) p)"
  have cnt: "Datagram_count i [0..<length os] 0 [] ?p1 =
      Inr (Some (blob_lengths os, map op_id os), upd_slot i (\<lambda>r. r\<lparr>outbox := map (sent t) os\<rparr>) ?p1)"
    using count_all [of i ?p1 t "[]" os 0 "[]"] i ok by (simp add: sendable_def)
  let ?p2 = "upd_slot i (\<lambda>r. r\<lparr>outbox := map (sent t) os\<rparr>) ?p1"
  have r2: "at_slot i ?p2 = r\<lparr>outbox := map (sent t) os, congestion := Some ?c1\<rparr>" using i by simp
  have sentok: "\<forall>out \<in> set (map (sent t) os). blob_ok out \<and> HasFlag RELIABLE out"
    using ok by (auto simp: sent_def blob_ok_def blob_bytes_def HasFlag_def)
  have same: "blob_lengths (map (sent t) os) = blob_lengths os" "blob_bytes \<circ> sent t = blob_bytes"
    by (auto simp: blob_lengths_def sent_def blob_bytes_def comp_def)
  obtain b0 where b0: "DatagramHeader_Serialize (data_header (IsConnected r) (m_nextDatagram c) (blob_lengths os))
      (BinaryStream_new BINARYSTREAM_DEFAULT_CAPACITY) = Inr b0"
    "written b0 (enc_DatagramHeader (data_header (IsConnected r) (m_nextDatagram c) (blob_lengths os))) []"
    using data_header_written [OF small] by blast
  obtain blob where blob: "Datagram_write [0..<length os] None b0 (at_slot i ?p2) = Inr (blob, at_slot i ?p2)"
    "written blob (enc_DatagramHeader (data_header (IsConnected r) (m_nextDatagram c) (blob_lengths os)) @
      concat (map blob_bytes os)) []"
    using write_all [of "at_slot i ?p2" "[]" "map (sent t) os" b0, OF _ sentok b0(2)] small same r2
    by (auto simp: max_stream_def)
  have c1: "congestion ?r1 = Some c" using c by simp
  have conn: "IsConnected ?r1 = IsConnected r" "IsOutOfBand ?r1 = IsOutOfBand r"
    by (simp_all add: IsConnected_def IsOutOfBand_def)
  have z: "\<forall>out \<in> set (outbox r). sendCount out = 0" using os ok by (simp add: sendable_def)
  have ne: "([0..<length os] = []) = False" "(os = []) = False" using os(2) by simp_all
  have fit0: "(GetTransmissionBudget c + GetRetransmissionBudget c \<le> MTU) = True"
    "(GetTransmissionBudget c = 0) = False" using fit pos by simp_all
  have bx: "outbox ?r1 ! hd [0..<length os] = postpone t (hd os)"
    using os(2) by (simp add: hd_conv_nth)
  have "MakeDatagram env i p = Inr (Some (length (sentbox r)),
      upd_slot i (\<lambda>_. after_datagram r c (map (sent t) os) (length os) (the_datagram (e_now env) r c os blob)) p)"
    unfolding MakeDatagram_def r
    by (simp only: os(1) c option.case Let_def if_False rassert_simps rbind_simps prod.case simp_thms
        ne fit0 f [unfolded os(1)] no_resend [OF z] GetNextDatagramID_def conn oob c1 bx cnt r2 b0
        blob(1) [unfolded r2] data_header_def [symmetric])
      (use i in \<open>simp add: after_datagram_def the_datagram_def upd_slot_def\<close>)
  then show ?thesis using blob(2) by blast
qed

text \<open>The slot for unconnected messages sends one packet at a time, and none is reliable.\<close>

lemma fill_oob:
  assumes "IsOutOfBand r" "congestion r = Some c" "t = Timestamp_plus (e_now env) (GetRetransmissionRTO 0 c)"
    and "outbox r = out # ys" "sendable (e_now env) out" "m_length (op_blob out) \<le> budget" "2 \<le> fuel"
  shows "Datagram_AddNewPackets fuel env ([], r, budget) = Inr ([0], r\<lparr>outbox := postpone t out # ys\<rparr>)"
proof -
  obtain f where f: "fuel = Suc (Suc f)" using assms(7) by (cases fuel; cases "fuel - 1") auto
  have "GetQueuedPacket (e_now env) (outbox r) budget False = Some 0"
    using GetQueuedPacket_next [of "[]" _ out budget ys] assms(4-6) by simp
  moreover have "set_sendNext env 0 r = Inr (r\<lparr>outbox := postpone t out # ys\<rparr>)"
    using assms(2-5) by (simp add: set_sendNext_def postpone_def sendable_def)
  moreover have "IsOutOfBand (r\<lparr>outbox := x\<rparr>)" for x using assms(1) by (simp add: IsOutOfBand_def)
  moreover have "0 < budget" using assms(5,6) by (simp add: sendable_def)
  ultimately show ?thesis using f assms(6) by (simp add: Datagram_AddNewPacket_def)
qed

lemma RemovePacket_first: "outbox r = out # ys \<Longrightarrow> RemovePacketFromOutbox (op_id out) r = r\<lparr>outbox := ys\<rparr>"
proof -
  assume o: "outbox r = out # ys"
  have "GetOutgoingPacketByID (op_id out) (outbox r) = Some 0"
    unfolding GetOutgoingPacketByID_def using o by (intro find_upt) auto
  then show ?thesis using o by (simp add: RemovePacketFromOutbox_def list_erase_def)
qed

lemma MakeDatagram_oob:
  assumes i: "i < length (m_remotes p)" and r: "at_slot i p = r" and os: "outbox r = out # ys"
    and ok: "sendable (e_now env) out" "blob_ok out" "\<not> HasFlag RELIABLE out"
    and z: "\<forall>out \<in> set (outbox r). sendCount out = 0"
    and c: "congestion r = Some c" and oob: "IsOutOfBand r"
    and bud: "m_length (op_blob out) \<le> GetTransmissionBudget c"
  shows "\<exists>blob. MakeDatagram env i p = Inr (Some (length (sentbox r)),
      upd_slot i (\<lambda>_. after_datagram r c ys 1 (the_datagram (e_now env) r c [out] blob)) p) \<and>
    written blob (enc_DatagramHeader (data_header (IsConnected r) (m_nextDatagram c) (m_length (op_blob out))) @
      blob_bytes out) []"
proof -
  define t where "t = Timestamp_plus (e_now env) (GetRetransmissionRTO 0 c)"
  have fit: "GetTransmissionBudget c + GetRetransmissionBudget c \<le> MTU" by (rule window.budgets_fit)
  have pos: "0 < GetTransmissionBudget c" using ok bud by (simp add: sendable_def)
  have small: "m_length (op_blob out) < 2 ^ 16 - 1" using bud fit by (simp add: MTU_def)
  have f: "Datagram_AddNewPackets (GetTransmissionBudget c + length (out # ys) + 1) env ([], r, GetTransmissionBudget c) =
      Inr ([0], r\<lparr>outbox := postpone t out # ys\<rparr>)"
    by (rule fill_oob [OF oob c t_def os ok(1) bud]) simp
  let ?r1 = "r\<lparr>outbox := postpone t out # ys\<rparr>" and ?c1 = "c\<lparr>m_nextDatagram := m_nextDatagram c + 1\<rparr>"
  let ?p1 = "upd_slot i (\<lambda>r. r\<lparr>congestion := Some ?c1\<rparr>) (upd_slot i (\<lambda>_. ?r1) p)"
  let ?p2 = "upd_slot i (\<lambda>r. r\<lparr>outbox := sent t out # ys\<rparr>) ?p1"
  have cnt: "Datagram_count i [0] 0 [] ?p1 = Inr (Some (m_length (op_blob out), [op_id out]), ?p2)"
    using i ok(1) by (simp add: Let_def sent_def postpone_def sendable_def SEND_RETRY_COUNT_def)
  have r2: "at_slot i ?p2 = r\<lparr>outbox := sent t out # ys, congestion := Some ?c1\<rparr>" using i by simp
  obtain b0 where b0: "DatagramHeader_Serialize (data_header (IsConnected r) (m_nextDatagram c) (m_length (op_blob out)))
      (BinaryStream_new BINARYSTREAM_DEFAULT_CAPACITY) = Inr b0"
    "written b0 (enc_DatagramHeader (data_header (IsConnected r) (m_nextDatagram c) (m_length (op_blob out)))) []"
    using data_header_written [OF small] by blast
  obtain blob where blob: "WriteBytes_stream (op_blob out) b0 = Inr blob"
    "written blob (enc_DatagramHeader (data_header (IsConnected r) (m_nextDatagram c) (m_length (op_blob out))) @
      blob_bytes out) []"
    using write_blob [OF ok(2) b0(2)] small by (auto simp: max_stream_def)
  have rm: "RemovePacketFromOutbox (op_id out) (at_slot i ?p2) = r\<lparr>outbox := ys, congestion := Some ?c1\<rparr>"
    using RemovePacket_first [of "at_slot i ?p2" "sent t out" ys] r2 by (simp add: sent_def)
  have wr: "Datagram_write [0] None b0 (at_slot i ?p2) = Inr (blob, r\<lparr>outbox := ys, congestion := Some ?c1\<rparr>)"
    using blob(1) ok(3) rm r2 by (simp add: invalidated_def Let_def sent_def HasFlag_def)
  have conn: "IsConnected ?r1 = IsConnected r" "IsOutOfBand ?r1 = IsOutOfBand r"
    by (simp_all add: IsConnected_def IsOutOfBand_def)
  have c1: "congestion ?r1 = Some c" using c by simp
  have fit0: "(GetTransmissionBudget c + GetRetransmissionBudget c \<le> MTU) = True"
    "(GetTransmissionBudget c = 0) = False" using fit pos by simp_all
  have bx: "outbox ?r1 ! hd [0] = postpone t out" by simp
  have one: "(length [0 :: nat] = 1) = True" "([0 :: nat] = []) = False" "(out # ys = []) = False" by simp_all
  have "MakeDatagram env i p = Inr (Some (length (sentbox r)),
      upd_slot i (\<lambda>_. after_datagram r c ys 1 (the_datagram (e_now env) r c [out] blob)) p)"
    unfolding MakeDatagram_def r
    by (simp only: os c option.case Let_def if_False rassert_simps rbind_simps prod.case simp_thms
        fit0 f no_resend [OF z] GetNextDatagramID_def conn oob c1 bx one cnt r2 b0
        wr [unfolded r2] data_header_def [symmetric])
      (use i in \<open>simp add: after_datagram_def the_datagram_def upd_slot_def\<close>)
  then show ?thesis using blob(2) by blast
qed

section \<open>Writing to the socket\<close>

text \<open>What sending does not touch in a slot.\<close>

definition same_connection :: "RemotePeer \<Rightarrow> RemotePeer \<Rightarrow> bool" where
  "same_connection r r' \<longleftrightarrow> channels r' = channels r \<and> rp_addr r' = rp_addr r \<and> rp_socket r' = rp_socket r \<and>
     crypto r' = crypto r \<and> handshake r' = handshake r \<and> receipt r' = receipt r \<and> assembly r' = assembly r \<and>
     rp_id r' = rp_id r \<and> disconnect r' = disconnect r \<and> reserved r' = reserved r \<and> active r' = active r"

lemma same_connection_trans: "same_connection r s \<Longrightarrow> same_connection s t \<Longrightarrow> same_connection r t"
  by (simp add: same_connection_def)

text \<open>Writing the datagram that was built, without encryption.\<close>

lemma DoWriteCycle_next:
  assumes i: "i < length (m_remotes p)" and idle: "\<not> m_sending (m_masterSocket p)" and plain: "\<not> m_crypto_enabled p"
    and st: "st = PeerStats_Set PACKETS_IN_QUEUE (length (outbox (at_slot i p))) (rp_stats (at_slot i p))"
    and nx: "GetNextDatagram env i (upd_slot i (\<lambda>r. r\<lparr>rp_stats := st\<rparr>) p) =
      Inr (Some k, upd_slot i (\<lambda>_. r2) (upd_slot i (\<lambda>r. r\<lparr>rp_stats := st\<rparr>) p))"
    and d: "sentbox r2 ! k = d" "written (od_blob d) data []" and c: "congestion r2 = Some c"
  shows "\<exists>st'. DoWriteCycle env i p = Inr ((upd_slot i (\<lambda>_. r2\<lparr>rp_stats := st',
      congestion := Some (NotifySendingBytes (e_now env) (od_id d) (length data) c)\<rparr>) p)
    \<lparr>m_masterSocket := BeginWrite (od_addr d) data (i, od_id d) (m_masterSocket p)\<rparr>)"
proof -
  let ?r = "at_slot i p" and ?p1 = "upd_slot i (\<lambda>r. r\<lparr>rp_stats := st\<rparr>) p"
  let ?p2 = "upd_slot i (\<lambda>_. r2) ?p1"
  have stats: "upd_stats i (PeerStats_Set PACKETS_IN_QUEUE (length (outbox ?r))) p = ?p1"
    by (simp add: upd_stats_def upd_slot_def at_slot_def st)
  have enc: "\<not> m_crypto_enabled q \<Longrightarrow> DoWriteCycle_encrypt env i k q = Inr (True, q)" for k q
    by (simp add: DoWriteCycle_encrypt_def GetEncryptionEnabled_def)
  have len: "m_length (od_blob d) = length data" using m_length_written [OF d(2)] .
  have ld: "load_bytes (GetBuffer (od_blob d)) 0 (length data) = Inr data" using load_written [OF d(2)] .
  let ?st = "PeerStats_Add DATAGRAMS_SENT 1 (PeerStats_Add BYTES_SENT (length data) (rp_stats r2))"
  have "DoWriteCycle env i p = Inr ((upd_slot i (\<lambda>_. r2\<lparr>rp_stats := ?st,
      congestion := Some (NotifySendingBytes (e_now env) (od_id d) (length data) c)\<rparr>) p)
    \<lparr>m_masterSocket := BeginWrite (od_addr d) data (i, od_id d) (m_masterSocket p)\<rparr>)"
    unfolding DoWriteCycle_def Let_def stats nx
    using idle i d(1) len ld plain c
    by (simp add: IsWritePending_def enc upd_stats_def del: rbind_eq_Inr)
  then show ?thesis by blast
qed

lemma DoWriteCycle_plain:
  assumes i: "i < length (m_remotes p)" and idle: "\<not> m_sending (m_masterSocket p)"
    and plain: "\<not> m_crypto_enabled p" and c: "congestion (at_slot i p) = Some c"
    and noacks: "\<not> GetNeedsToSendAcks (e_now env) c"
    and mk: "\<And>stats. \<exists>blob. MakeDatagram env i (upd_slot i (\<lambda>r. r\<lparr>rp_stats := stats\<rparr>) p) =
        Inr (Some (length (sentbox (at_slot i p))),
          upd_slot i (\<lambda>_. after_datagram (at_slot i p\<lparr>rp_stats := stats\<rparr>) c box n
            (the_datagram (e_now env) (at_slot i p\<lparr>rp_stats := stats\<rparr>) c os blob))
            (upd_slot i (\<lambda>r. r\<lparr>rp_stats := stats\<rparr>) p)) \<and> written blob data []"
  shows "\<exists>r'. DoWriteCycle env i p = Inr ((upd_slot i (\<lambda>_. r') p)\<lparr>m_masterSocket :=
        BeginWrite (op_addr (hd os)) data (i, m_nextDatagram c) (m_masterSocket p)\<rparr>) \<and>
    same_connection (at_slot i p) r' \<and> outbox r' = box \<and>
    congestion r' = Some (NotifySendingBytes (e_now env) (m_nextDatagram c) (length data)
      (c\<lparr>m_nextDatagram := m_nextDatagram c + 1\<rparr>)) \<and>
    (\<exists>d. sentbox r' = sentbox (at_slot i p) @ [d] \<and> od_id d = m_nextDatagram c \<and> od_packets d = map op_id os)"
proof -
  let ?r = "at_slot i p"
  let ?st = "PeerStats_Set PACKETS_IN_QUEUE (length (outbox ?r)) (rp_stats ?r)"
  let ?p1 = "upd_slot i (\<lambda>r. r\<lparr>rp_stats := ?st\<rparr>) p"
  obtain blob where blob: "MakeDatagram env i ?p1 = Inr (Some (length (sentbox ?r)),
      upd_slot i (\<lambda>_. after_datagram (?r\<lparr>rp_stats := ?st\<rparr>) c box n
        (the_datagram (e_now env) (?r\<lparr>rp_stats := ?st\<rparr>) c os blob)) ?p1)"
    "written blob data []" using mk by blast
  let ?d = "the_datagram (e_now env) (?r\<lparr>rp_stats := ?st\<rparr>) c os blob"
  let ?r2 = "after_datagram (?r\<lparr>rp_stats := ?st\<rparr>) c box n ?d"
  have nx: "GetNextDatagram env i ?p1 = Inr (Some (length (sentbox ?r)), upd_slot i (\<lambda>_. ?r2) ?p1)"
    using i c noacks blob(1) by (simp add: GetNextDatagram_def)
  have d: "sentbox ?r2 ! length (sentbox ?r) = ?d" "written (od_blob ?d) data []"
    "congestion ?r2 = Some (c\<lparr>m_nextDatagram := m_nextDatagram c + 1\<rparr>)" "od_id ?d = m_nextDatagram c" "od_addr ?d = op_addr (hd os)"
    "od_packets ?d = map op_id os" "sentbox ?r2 = sentbox ?r @ [?d]"
    using blob(2) by (simp_all add: after_datagram_def the_datagram_def nth_append)
  obtain st' where w: "DoWriteCycle env i p = Inr ((upd_slot i (\<lambda>_. ?r2\<lparr>rp_stats := st',
      congestion := Some (NotifySendingBytes (e_now env) (m_nextDatagram c) (length data) (c\<lparr>m_nextDatagram := m_nextDatagram c + 1\<rparr>))\<rparr>) p)
    \<lparr>m_masterSocket := BeginWrite (op_addr (hd os)) data (i, m_nextDatagram c) (m_masterSocket p)\<rparr>)"
    using DoWriteCycle_next [OF i idle plain refl nx d(1-3)] d(4,5) by auto
  let ?r3 = "?r2\<lparr>rp_stats := st', congestion := Some (NotifySendingBytes (e_now env) (m_nextDatagram c) (length data)
      (c\<lparr>m_nextDatagram := m_nextDatagram c + 1\<rparr>))\<rparr>"
  have "same_connection ?r ?r3" by (simp add: same_connection_def after_datagram_def)
  moreover have "outbox ?r3 = box" by (simp add: after_datagram_def)
  moreover have "sentbox ?r3 = sentbox ?r @ [?d] \<and> od_id ?d = m_nextDatagram c \<and> od_packets ?d = map op_id os"
    using d(4,6,7) by simp
  ultimately show ?thesis using w by (intro exI [of _ ?r3] conjI) (simp, simp, simp, simp, blast)
qed

lemma DoWriteCycle_all:
  assumes i: "i < length (m_remotes p)" and idle: "\<not> m_sending (m_masterSocket p)"
    and plain: "\<not> m_crypto_enabled p" and os: "outbox (at_slot i p) = os" "os \<noteq> []"
    and ok: "\<forall>out \<in> set os. sendable (e_now env) out \<and> blob_ok out \<and> HasFlag RELIABLE out"
    and c: "congestion (at_slot i p) = Some c" and noacks: "\<not> GetNeedsToSendAcks (e_now env) c"
    and t: "t = Timestamp_plus (e_now env) (GetRetransmissionRTO 0 c)" "e_now env < t"
    and oob: "\<not> IsOutOfBand (at_slot i p)" and bud: "blob_lengths os \<le> GetTransmissionBudget c"
    and data: "data = enc_DatagramHeader (data_header (IsConnected (at_slot i p)) (m_nextDatagram c)
      (blob_lengths os)) @ concat (map blob_bytes os)"
  shows "\<exists>r'. DoWriteCycle env i p = Inr ((upd_slot i (\<lambda>_. r') p)\<lparr>m_masterSocket :=
        BeginWrite (op_addr (hd os)) data (i, m_nextDatagram c) (m_masterSocket p)\<rparr>) \<and>
    same_connection (at_slot i p) r' \<and> outbox r' = map (sent t) os \<and>
    congestion r' = Some (NotifySendingBytes (e_now env) (m_nextDatagram c) (length data)
      (c\<lparr>m_nextDatagram := m_nextDatagram c + 1\<rparr>)) \<and>
    (\<exists>d. sentbox r' = sentbox (at_slot i p) @ [d] \<and> od_id d = m_nextDatagram c \<and> od_packets d = map op_id os)"
proof (rule DoWriteCycle_plain [OF i idle plain c noacks])
  fix stats
  let ?r = "at_slot i p\<lparr>rp_stats := stats\<rparr>"
  have r: "at_slot i (upd_slot i (\<lambda>r. r\<lparr>rp_stats := stats\<rparr>) p) = ?r" using i by simp
  have "outbox ?r = os" "congestion ?r = Some c" "\<not> IsOutOfBand ?r" using os c oob by (auto simp: IsOutOfBand_def)
  moreover have "IsConnected ?r = IsConnected (at_slot i p)" by (simp add: IsConnected_def)
  ultimately show "\<exists>blob. MakeDatagram env i (upd_slot i (\<lambda>r. r\<lparr>rp_stats := stats\<rparr>) p) =
        Inr (Some (length (sentbox (at_slot i p))),
          upd_slot i (\<lambda>_. after_datagram ?r c (map (sent t) os) (length os) (the_datagram (e_now env) ?r c os blob))
            (upd_slot i (\<lambda>r. r\<lparr>rp_stats := stats\<rparr>) p)) \<and> written blob data []"
    using MakeDatagram_all [OF _ r _ os(2) ok _ t _ bud] i data by simp
qed

lemma DoWriteCycle_oob:
  assumes i: "i < length (m_remotes p)" and idle: "\<not> m_sending (m_masterSocket p)"
    and plain: "\<not> m_crypto_enabled p" and os: "outbox (at_slot i p) = out # ys"
    and ok: "sendable (e_now env) out" "blob_ok out" "\<not> HasFlag RELIABLE out"
    and z: "\<forall>out \<in> set (outbox (at_slot i p)). sendCount out = 0"
    and c: "congestion (at_slot i p) = Some c" and noacks: "\<not> GetNeedsToSendAcks (e_now env) c"
    and oob: "IsOutOfBand (at_slot i p)"
    and bud: "m_length (op_blob out) \<le> GetTransmissionBudget c"
    and data: "data = enc_DatagramHeader (data_header (IsConnected (at_slot i p)) (m_nextDatagram c)
      (m_length (op_blob out))) @ blob_bytes out"
  shows "\<exists>r'. DoWriteCycle env i p = Inr ((upd_slot i (\<lambda>_. r') p)\<lparr>m_masterSocket :=
        BeginWrite (op_addr out) data (i, m_nextDatagram c) (m_masterSocket p)\<rparr>) \<and>
    same_connection (at_slot i p) r' \<and> outbox r' = ys \<and>
    congestion r' = Some (NotifySendingBytes (e_now env) (m_nextDatagram c) (length data)
      (c\<lparr>m_nextDatagram := m_nextDatagram c + 1\<rparr>))"
proof -
  have "\<exists>blob. MakeDatagram env i (upd_slot i (\<lambda>r. r\<lparr>rp_stats := stats\<rparr>) p) =
        Inr (Some (length (sentbox (at_slot i p))),
          upd_slot i (\<lambda>_. after_datagram (at_slot i p\<lparr>rp_stats := stats\<rparr>) c ys 1
            (the_datagram (e_now env) (at_slot i p\<lparr>rp_stats := stats\<rparr>) c [out] blob))
            (upd_slot i (\<lambda>r. r\<lparr>rp_stats := stats\<rparr>) p)) \<and> written blob data []" for stats
  proof -
    let ?r = "at_slot i p\<lparr>rp_stats := stats\<rparr>"
    have r: "at_slot i (upd_slot i (\<lambda>r. r\<lparr>rp_stats := stats\<rparr>) p) = ?r" using i by simp
    have "outbox ?r = out # ys" "congestion ?r = Some c" "IsOutOfBand ?r" "\<forall>out \<in> set (outbox ?r). sendCount out = 0"
      "IsConnected ?r = IsConnected (at_slot i p)"
      using os c oob z by (auto simp: IsOutOfBand_def IsConnected_def)
    then show ?thesis
      using MakeDatagram_oob [OF _ r _ ok _ _ _ bud] i data by simp
  qed
  from DoWriteCycle_plain [OF i idle plain c noacks this] show ?thesis by auto
qed

end
