(* ===== verification/Arrival.thy ===== *)
theory Arrival
  imports Sending
begin

text \<open>
  How a datagram arrives: the functions of \<^verbatim>\<open>source/PacketQueue.cpp\<close> that read it from a stream
  agree with a description of its effect that has the packets as lists of bytes.
\<close>

section \<open>Packets as lists of bytes\<close>

text \<open>A packet on the wire: its header and the bytes behind it.\<close>

type_synonym wire_packet = "PacketHeader \<times> u8 list"

definition wire_packet_ok :: "wire_packet \<Rightarrow> bool" where
  "wire_packet_ok = (\<lambda>(h, bs). fits_PacketHeader h \<and> bs \<noteq> [] \<and> length bs = unat (ph_length h))"

definition enc_packets :: "wire_packet list \<Rightarrow> u8 list" where
  "enc_packets ps = concat (map (\<lambda>(h, bs). enc_PacketHeader h @ bs) ps)"

lemma enc_packets_simps [simp]:
  "enc_packets [] = []" "enc_packets ((h, bs) # ps) = enc_PacketHeader h @ bs @ enc_packets ps"
  by (simp_all add: enc_packets_def)

text \<open>What one packet does: \<^verbatim>\<open>Insert\<close> with the bytes of the segment, then the whole packet.\<close>

definition insert_bytes :: "PacketHeader \<Rightarrow> u8 list \<Rightarrow> ReassemblyBuffer \<Rightarrow> ReassemblyBuffer result" where
  "insert_bytes h bs r =
     rassert (unat (ph_offset h + ph_length h) < PACKET_MAX_LENGTH) (
     let split = partial (splitContainer h) r
     in rbind (SeekForce (unat (ph_offset h)) (sp_blob split)) (\<lambda>blob.
        rassert (m_position blob = unat (ph_offset h)) (
        rbind (WriteZeroes (length bs) blob) (\<lambda>blob.
        rbind (store_cells (unat (ph_offset h)) (map Some bs) blob) (\<lambda>blob.
        let split = split\<lparr>sp_blob := blob, sp_received := insert (splitIndex h) (sp_received split)\<rparr>
        in if \<not> flag_segment h
           then rassert (splitIndex h > 0)
             (Inr (r\<lparr>ra_backlog := (ra_backlog r)(splitContainer h \<mapsto> split\<lparr>sp_last := splitIndex h\<rparr>)\<rparr>))
           else Inr (r\<lparr>ra_backlog := (ra_backlog r)(splitContainer h \<mapsto> split)\<rparr>))))))"

definition receive_packet ::
  "Env \<Rightarrow> slot \<Rightarrow> nat \<Rightarrow> PacketHeader \<Rightarrow> u8 list \<Rightarrow> Peer \<Rightarrow> Peer result" where
  "receive_packet env i len h bs p =
     rassert (length bs < len) (
     case congestion (at_slot i p) of None \<Rightarrow> Inl NullPointer
     | Some c \<Rightarrow>
       (let (st, c) = NotifyReceivedPacket (e_now env) (ph_id h) c;
            p = upd_slot i (\<lambda>r. r\<lparr>congestion := Some c\<rparr>) p;
            q = upd_stats i (PeerStats_Add PACKETS_RECEIVED 1) p
        in if st = DUPLICATE then Inr p
           else if flag_segment h \<or> ph_offset h > 0
           then rbind (insert_bytes h bs (assembly (at_slot i q))) (\<lambda>asm.
                rbind (Reassemble (rp_id (at_slot i q)) (splitContainer h) asm) (\<lambda>(whole, asm).
                let q = upd_slot i (\<lambda>r. r\<lparr>assembly := asm\<rparr>) q
                in case whole of None \<Rightarrow> Inr q | Some packet \<Rightarrow> HandleIncomingPacket i h packet q))
           else (let packet = packet_of (rp_id (at_slot i q)) (hd bs) (tl bs)
                 in if m_command packet < USER_PACKET then OnSystemPacket env i packet q
                    else HandleIncomingPacket i h packet q)))"

text \<open>All packets of a datagram; the header object is reused, so absent fields keep their values.\<close>

fun receive_packets ::
  "Env \<Rightarrow> slot \<Rightarrow> nat \<Rightarrow> PacketHeader \<Rightarrow> wire_packet list \<Rightarrow> Peer \<Rightarrow> Peer result" where
  "receive_packets env i len h0 [] p = Inr p"
| "receive_packets env i len h0 ((h, bs) # ps) p =
     rbind (receive_packet env i len (read_over h0 h) bs p)
       (receive_packets env i len (read_over h0 h) ps)"

section \<open>The stream functions agree\<close>

lemma rbind_rassert: "rbind (rassert c m) f = rassert c (rbind m f)"
  by (simp add: rassert_def)

lemma rbind_if: "rbind (if c then a else b) f = (if c then rbind a f else rbind b f)"
  by simp

lemma rbind_option:
  "rbind (case q of None \<Rightarrow> Inr a | Some x \<Rightarrow> b x) f = (case q of None \<Rightarrow> f a | Some x \<Rightarrow> rbind (b x) f)"
  by (simp split: option.split)

lemma rbind_pair: "rbind (case x of (a, b) \<Rightarrow> g a b) f = (case x of (a, b) \<Rightarrow> rbind (g a b) f)"
  by (simp split: prod.split)

lemma Insert_bytes:
  assumes r: "reading s 0 (bs @ rest)" and len: "length bs = unat (ph_length h)"
  shows "\<exists>s'. Insert h s asm = rbind (insert_bytes h bs asm) (\<lambda>asm. Inr (asm, s')) \<and>
    reading s' 0 rest \<and> advances s s'"
proof -
  obtain s' where s': "ReadBytes (unat (ph_length h)) s = Inr (Some bs, s')" "reading s' 0 rest"
    using reading_ReadBytes' [OF r, of bs rest "unat (ph_length h)"] len by auto
  have "Insert h s asm = rbind (insert_bytes h bs asm) (\<lambda>asm. Inr (asm, s'))"
    unfolding Insert_def insert_bytes_def Insert_blob_def Let_def partial_def
    by (cases "flag_segment h") (simp_all add: s'(1) len rbind_assoc rbind_rassert split_beta)
  then show ?thesis using s'(2) ReadBytes_advances [OF s'(1)] by blast
qed


lemma OnReadFinished_packet_bytes:
  assumes r: "reading s 0 (bs @ rest)" and ok: "wire_packet_ok (h, bs)"
    and h: "h' = read_over h0 h"
  shows "\<exists>s'. OnReadFinished_packet env i len h' s p =
      rbind (receive_packet env i len h' bs p) (\<lambda>p. Inr (p, s')) \<and> reading s' 0 rest \<and> advances s s'"
proof -
  have len: "length bs = unat (ph_length h')" "bs \<noteq> []" "unat (ph_offset h') < PACKET_MAX_LENGTH"
    using ok h by (auto simp: wire_packet_ok_def read_over_def fits_PacketHeader_def)
  consider (crash) "\<not> length bs < len \<or> congestion (at_slot i p) = None"
    | (dup) c c' where "length bs < len" "congestion (at_slot i p) = Some c"
        "NotifyReceivedPacket (e_now env) (ph_id h') c = (DUPLICATE, c')"
    | (split) c c' where "length bs < len" "congestion (at_slot i p) = Some c"
        "NotifyReceivedPacket (e_now env) (ph_id h') c = (NEW, c')" "flag_segment h' \<or> ph_offset h' > 0"
    | (whole) c c' where "length bs < len" "congestion (at_slot i p) = Some c"
        "NotifyReceivedPacket (e_now env) (ph_id h') c = (NEW, c')" "\<not> (flag_segment h' \<or> ph_offset h' > 0)"
    by (cases "congestion (at_slot i p)"; cases "NotifyReceivedPacket (e_now env) (ph_id h') (the (congestion (at_slot i p)))";
        cases "fst (NotifyReceivedPacket (e_now env) (ph_id h') (the (congestion (at_slot i p))))")
      (simp_all, blast+)
  then show ?thesis
  proof cases
    case crash
    obtain s' where "ReadBytes (length bs) s = Inr (Some bs, s')" "reading s' 0 rest"
      using reading_ReadBytes' [OF r, of bs rest] by auto
    then show ?thesis using crash len ReadBytes_advances
      by (auto simp: OnReadFinished_packet_def receive_packet_def rassert_def intro!: exI [of _ s'])
  next
    case dup
    have "snd (Skip (length bs) s) = s\<lparr>m_position := m_position s + length bs\<rparr>"
      using reading_not_EOF [OF r, of "length bs"] by (simp add: Skip_def)
    moreover have "reading (s\<lparr>m_position := m_position s + length bs\<rparr>) 0 rest"
      using reading_advance [OF r, of "length bs"] by simp
    ultimately show ?thesis using dup len Skip_advances [of s "length bs"]
      by (simp add: OnReadFinished_packet_def receive_packet_def)
  next
    case split
    let ?q = "upd_stats i (PeerStats_Add PACKETS_RECEIVED 1) (upd_slot i (\<lambda>r. r\<lparr>congestion := Some c'\<rparr>) p)"
    obtain s' where s': "Insert h' s (assembly (at_slot i ?q)) =
        rbind (insert_bytes h' bs (assembly (at_slot i ?q))) (\<lambda>asm. Inr (asm, s'))" "reading s' 0 rest" "advances s s'"
      using Insert_bytes [OF r len(1)] by blast
    have "HandleSplitPacket i h' s ?q = rbind (receive_packet env i len h' bs p) (\<lambda>p. Inr (p, s'))"
      unfolding HandleSplitPacket_def s'(1) receive_packet_def using split
      by (simp add: rbind_assoc rbind_option rbind_pair Let_def)
    moreover have "OnReadFinished_packet env i len h' s p = HandleSplitPacket i h' s ?q"
      using split len by (auto simp: OnReadFinished_packet_def)
    ultimately show ?thesis using s'(2,3) by auto
  next
    case whole
    let ?q = "upd_stats i (PeerStats_Add PACKETS_RECEIVED 1) (upd_slot i (\<lambda>r. r\<lparr>congestion := Some c'\<rparr>) p)"
    have "Suc (length (tl bs)) = unat (ph_length h')" using len by (cases bs) auto
    then obtain s' where s': "FromDatagram (rp_id (at_slot i ?q)) (unat (ph_length h')) s =
        Inr (packet_of (rp_id (at_slot i ?q)) (hd bs) (tl bs), s')" "reading s' 0 rest"
      using FromDatagram_reading [OF r, of "hd bs" "tl bs" rest "rp_id (at_slot i ?q)"] len(2)
      by (metis append_Cons list.collapse unread_0)
    show ?thesis using whole len s'(2) FromDatagram_advances [OF s'(1)]
      by (intro exI [of _ s']) (simp add: OnReadFinished_packet_def receive_packet_def Let_def s'(1)
          del: One_nat_def)
  qed
qed

lemma Deserialize_end:
  "reading s 0 [] \<Longrightarrow> 7 \<le> m_length s \<Longrightarrow> PacketHeader_Deserialize h s = Inr ((False, h), s)"
  by (simp add: PacketHeader_Deserialize_def IsEOF_def reading_def size_sub_eq)

lemma OnReadFinished_loop_bytes:
  assumes "reading s 0 (enc_packets ps)" "\<forall>x \<in> set ps. wire_packet_ok x" "7 \<le> m_length s"
  shows "OnReadFinished_loop env i len h0 s p = receive_packets env i len h0 ps p"
  using assms
proof (induction ps arbitrary: s h0 p)
  case Nil
  then show ?case by (simp add: OnReadFinished_loop.simps Deserialize_end)
next
  case (Cons x ps)
  obtain h bs where x: "x = (h, bs)" by (cases x)
  then have ok: "wire_packet_ok (h, bs)" "fits_PacketHeader h" using Cons.prems(2) by (auto simp: wire_packet_ok_def)
  obtain s1 where s1: "PacketHeader_Deserialize h0 s = Inr ((True, read_over h0 h), s1)"
    "reading s1 0 (bs @ enc_packets ps)"
    using PacketHeader_Deserialize_over [OF ok(2), of s "bs @ enc_packets ps"] Cons.prems(1) x by auto
  obtain s2 where s2: "OnReadFinished_packet env i len (read_over h0 h) s1 p =
      rbind (receive_packet env i len (read_over h0 h) bs p) (\<lambda>p. Inr (p, s2))" "reading s2 0 (enc_packets ps)" "advances s1 s2"
    using OnReadFinished_packet_bytes [OF s1(2) ok(1) refl] by blast
  have "OnReadFinished_loop env i len h0 s p = rbind (receive_packet env i len (read_over h0 h) bs p)
      (\<lambda>p. OnReadFinished_loop env i len (read_over h0 h) s2 p)"
    by (subst OnReadFinished_loop.simps) (simp add: s1(1) s2(1) rbind_assoc)
  also have "\<dots> = receive_packets env i len h0 (x # ps) p"
    using Cons.IH [OF s2(2)] Cons.prems(2,3) x s2(3) Deserialize_strict(4) [OF s1(1)]
    by (simp add: advances_def)
  finally show ?case .
qed

section \<open>Whole datagrams\<close>

definition enc_datagram :: "DatagramHeader \<Rightarrow> wire_packet list \<Rightarrow> u8 list" where
  "enc_datagram h ps = enc_DatagramHeader h @ enc_packets ps"

definition datagram_ok :: "DatagramHeader \<Rightarrow> wire_packet list \<Rightarrow> bool" where
  "datagram_ok h ps \<longleftrightarrow> valid_DatagramHeader h \<and> (flag_data h \<longleftrightarrow> ps \<noteq> []) \<and>
     (flag_data h \<or> acks h \<noteq> [] \<or> nacks h \<noteq> []) \<and> (flag_data h \<longrightarrow> dataLength h = length (enc_packets ps)) \<and>
     (\<forall>x \<in> set ps. wire_packet_ok x) \<and> length (enc_datagram h ps) \<le> MTU"

definition receive_datagram ::
  "Env \<Rightarrow> slot \<Rightarrow> DatagramHeader \<Rightarrow> wire_packet list \<Rightarrow> Peer \<Rightarrow> Peer result" where
  "receive_datagram env i h ps p = (case congestion (at_slot i p) of
      None \<Rightarrow> Inl NullPointer
    | Some c \<Rightarrow>
      (let (st, c) = NotifyReceivedDatagram (e_now env) (dh_datagramID h) (\<not> flag_data h) c;
           p = upd_slot i (\<lambda>r. r\<lparr>congestion := Some c\<rparr>) p
       in if st = DUPLICATE then Inr p else
          rbind (if acks h \<noteq> [] then HandleAcknowledgements env i (acks h) p else Inr p) (\<lambda>p.
          rbind (if nacks h \<noteq> [] then HandleNonAcknowledgements env i (nacks h) p else Inr p) (\<lambda>p.
          receive_packets env i (dataLength h) PacketHeader_default ps p))))"

text \<open>Whether datagrams of a slot are encrypted, and the counting of a received datagram.\<close>

definition secured :: "slot \<Rightarrow> Peer \<Rightarrow> bool" where
  "secured i p = (case crypto (at_slot i p) of None \<Rightarrow> False | Some a \<Rightarrow> Crypto_GetCryptoEstablished (p_layers p ! a))"

definition count_datagram :: "slot \<Rightarrow> nat \<Rightarrow> Peer \<Rightarrow> Peer" where
  "count_datagram i n p =
     upd_stats i (PeerStats_Add BYTES_RECEIVED n) (upd_stats i (PeerStats_Add DATAGRAMS_RECEIVED 1) p)"

lemma enc_datagram_length: "datagram_ok h ps \<Longrightarrow> 7 \<le> length (enc_datagram h ps)"
  by (cases "acks h"; cases "nacks h") (auto simp: datagram_ok_def enc_datagram_def enc_DatagramHeader_def enc_ids_def)

lemma enc_packets_length:
  assumes "wire_packet_ok x" shows "10 \<le> length (enc_packets (x # ps))"
proof -
  obtain h bs where "x = (h, bs)" by (cases x)
  then show ?thesis using assms length_enc_PacketHeader(2) [of h]
    by (cases bs) (auto simp: wire_packet_ok_def)
qed

lemma datagram_header_read:
  assumes ok: "datagram_ok h ps" and r: "reading s 0 (enc_datagram h ps)" and pos: "m_position s = 0"
  shows "\<exists>s'. DatagramHeader_Deserialize DatagramHeader_default s = Inr ((True, h), s') \<and>
    reading s' 0 (enc_packets ps) \<and> m_length s' = length (enc_datagram h ps) \<and>
    (flag_data h \<longrightarrow> dataLength h + m_position s' = length (enc_datagram h ps))"
proof -
  have v: "valid_DatagramHeader h" using ok by (simp add: datagram_ok_def)
  have "flag_data h \<Longrightarrow> 2 \<le> length (enc_packets ps) \<and> dataLength h \<le> length (enc_packets ps)"
  proof -
    assume f: "flag_data h"
    then obtain x ps' where "ps = x # ps'" "wire_packet_ok x" using ok by (cases ps) (auto simp: datagram_ok_def)
    then show ?thesis using enc_packets_length [of x ps'] ok f by (simp add: datagram_ok_def)
  qed
  from DatagramHeader_Deserialize_reading [OF v r [unfolded enc_datagram_def] this]
  obtain s' where s': "DatagramHeader_Deserialize DatagramHeader_default s = Inr ((True, h), s')"
    "reading s' 0 (enc_packets ps)" by blast
  have "m_length s' = length (enc_datagram h ps)"
    using DatagramHeader_Deserialize_advances [OF s'(1)] r pos by (simp add: advances_def reading_def)
  moreover from this have "flag_data h \<Longrightarrow> dataLength h + m_position s' = length (enc_datagram h ps)"
    using s'(2) ok by (simp add: reading_def datagram_ok_def)
  ultimately show ?thesis using s' by blast
qed

lemma wrap_readbuf:
  assumes "length data < 2 ^ 64"
  shows "\<exists>s. BinaryStream_wrap (Some (map Some (data @ old))) (length data) READONLY = Inr s \<and>
    reading s 0 data \<and> m_position s = 0"
proof -
  obtain s where s: "BinaryStream_wrap (Some (map Some (data @ old))) (length data) READONLY = Inr s" "m_position s = 0"
    by (simp add: BinaryStream_wrap_def)
  then show ?thesis using reading_wrap [OF assms, of "map Some old" s] by simp
qed

lemma count_datagram_frame [simp]:
  "length (m_remotes (count_datagram i n p)) = length (m_remotes p)"
  "m_inbox (count_datagram i n p) = m_inbox p" "p_layers (count_datagram i n p) = p_layers p"
  "m_masterSocket (count_datagram i n p) = m_masterSocket p" "m_channels (count_datagram i n p) = m_channels p"
  by (simp_all add: count_datagram_def upd_stats_def)

lemma at_count_datagram:
  "i < length (m_remotes p) \<Longrightarrow> \<exists>st. at_slot i (count_datagram i n p) = at_slot i p\<lparr>rp_stats := st\<rparr>"
  by (auto simp: count_datagram_def upd_stats_def)

text \<open>A datagram from a known sender, up to the point where it is known to belong to the connection.\<close>

lemma OnReadFinished_header:
  assumes ok: "datagram_ok h ps" and i: "GetRemoteByAddress sender p = Some i" "i < length (m_remotes p)"
    and plain: "\<not> secured i p"
  shows "\<exists>s. OnReadFinished env False sender (Some (map Some (enc_datagram h ps @ old))) (length (enc_datagram h ps)) p =
      (let p = count_datagram i (length (enc_datagram h ps)) p
       in if \<not> flag_link h then OnUnconnectedMessage_stream env sender s p else
          rbind (the_handshake i p) (\<lambda>hs.
          if \<not> IsDone hs \<or> hs_result hs \<noteq> CR_OK then DisconnectImmediate (Some i) p
          else receive_datagram env i h ps p)) \<and>
    reading s 0 (enc_packets ps) \<and> m_length s = length (enc_datagram h ps)"
proof -
  let ?data = "enc_datagram h ps" and ?p = "count_datagram i (length (enc_datagram h ps)) p"
  have mtu: "length ?data \<le> MTU" using ok by (simp add: datagram_ok_def)
  then have "length ?data < 2 ^ 64" by (simp add: MTU_def)
  from wrap_readbuf [OF this, of old] obtain s where
    s: "BinaryStream_wrap (Some (map Some (?data @ old))) (length ?data) READONLY = Inr s"
      "reading s 0 ?data" "m_position s = 0" by blast
  obtain s' where s': "DatagramHeader_Deserialize DatagramHeader_default s = Inr ((True, h), s')"
    "reading s' 0 (enc_packets ps)" "m_length s' = length ?data"
    "flag_data h \<longrightarrow> dataLength h + m_position s' = length ?data"
    using datagram_header_read [OF ok s(2,3)] by blast
  have dec: "OnReadFinished_decrypt env i s ?p = Inr (True, s, ?p)"
    using plain at_count_datagram [OF i(2), of "length ?data"]
    by (auto simp: OnReadFinished_decrypt_def secured_def split: option.splits)
  have mt: "(flag_data h \<and> dataLength h + m_position s' > MTU) = False" using s'(4) mtu by auto
  have con: "OnReadFinished_connected env i h s' q = receive_datagram env i h ps q" for q
  proof -
    have loop: "OnReadFinished_loop env i l PacketHeader_default s' = receive_packets env i l PacketHeader_default ps" for l
      using OnReadFinished_loop_bytes [OF s'(2), of env i l PacketHeader_default] enc_datagram_length [OF ok] s'(3) ok
      by (intro ext) (simp add: datagram_ok_def)
    show ?thesis unfolding OnReadFinished_connected_def receive_datagram_def loop ..
  qed
  have "OnReadFinished env False sender (Some (map Some (?data @ old))) (length ?data) p =
     (if \<not> flag_link h then OnUnconnectedMessage_stream env sender s' ?p else
          rbind (the_handshake i ?p) (\<lambda>hs.
          if \<not> IsDone hs \<or> hs_result hs \<noteq> CR_OK then DisconnectImmediate (Some i) ?p
          else receive_datagram env i h ps ?p))"
    by (simp only: OnReadFinished_def Let_def i(1) option.case if_False s(1) rbind_simps
        count_datagram_def [symmetric] dec prod.case s'(1) mt con not_True_eq_False)
  then show ?thesis using s'(2,3) by (auto simp: Let_def)
qed

end
