(* ===== verification/Delivery.thy ===== *)
theory Delivery
  imports Arrival
begin

text \<open>
  From the queue of one peer to the inbox of another: a message that is sent over an established
  connection, in one packet or in segments, is delivered once and as it was.
\<close>

section \<open>Established connections\<close>

text \<open>Slot \<open>i\<close> is an established, unencrypted connection to the peer at \<open>addr\<close>.\<close>

definition link :: "slot \<Rightarrow> RemoteAddress \<Rightarrow> Peer \<Rightarrow> bool" where
  "link i addr p \<longleftrightarrow> i < length (m_remotes p) \<and> m_remotesMax p \<le> length (m_remotes p) \<and> GetRemoteByAddress addr p = Some i \<and> \<not> secured i p \<and>
     (\<exists>h. handshake (at_slot i p) = Some h \<and> hs_result h = CR_OK) \<and> congestion (at_slot i p) \<noteq> None"

text \<open>What the steps of this theory leave alone.\<close>

definition same_link :: "slot \<Rightarrow> Peer \<Rightarrow> Peer \<Rightarrow> bool" where
  "same_link i p q \<longleftrightarrow> (\<exists>r. m_remotes q = (m_remotes p)[i := r] \<and> handshake r = handshake (at_slot i p) \<and>
     crypto r = crypto (at_slot i p) \<and> active r = active (at_slot i p) \<and> rp_addr r = rp_addr (at_slot i p) \<and>
     rp_id r = rp_id (at_slot i p) \<and> disconnect r = disconnect (at_slot i p) \<and> congestion r \<noteq> None) \<and>
     m_remotesMax q = m_remotesMax p \<and> p_layers q = p_layers p \<and> m_channels q = m_channels p \<and>
     m_crypto_enabled q = m_crypto_enabled p \<and> p_calls q = p_calls p"

lemma same_link_at: "same_link i p q \<Longrightarrow> j < length (m_remotes p) \<Longrightarrow>
    active (at_slot j q) = active (at_slot j p) \<and> rp_addr (at_slot j q) = rp_addr (at_slot j p)"
  by (cases "i = j") (auto simp: same_link_def at_slot_def)

lemma link_same:
  assumes l: "link i addr p" and s: "same_link i p q"
  shows "link i addr q"
proof -
  have i: "i < length (m_remotes p)" "m_remotesMax p \<le> length (m_remotes p)" using l by (simp_all add: link_def)
  have "GetRemoteByAddress addr q = GetRemoteByAddress addr p"
    unfolding GetRemoteByAddress_def using s i same_link_at [OF s]
    by (intro find_cong) (auto simp: same_link_def)
  moreover obtain r where r: "m_remotes q = (m_remotes p)[i := r]" "handshake r = handshake (at_slot i p)"
    "crypto r = crypto (at_slot i p)" "congestion r \<noteq> None" using s by (auto simp: same_link_def)
  moreover have "at_slot i q = r" using r(1) i by (simp add: at_slot_def)
  moreover have "p_layers q = p_layers p" "m_remotesMax q = m_remotesMax p" using s by (simp_all add: same_link_def)
  ultimately show "link i addr q" using l by (simp add: link_def secured_def cong: option.case_cong)
qed

lemma same_link_trans:
  "same_link i p q \<Longrightarrow> same_link i q r \<Longrightarrow> i < length (m_remotes p) \<Longrightarrow> same_link i p r"
  by (auto simp: same_link_def at_slot_def)

lemma same_link_upd:
  "i < length (m_remotes p) \<Longrightarrow> handshake (f (at_slot i p)) = handshake (at_slot i p) \<Longrightarrow>
   crypto (f (at_slot i p)) = crypto (at_slot i p) \<Longrightarrow> active (f (at_slot i p)) = active (at_slot i p) \<Longrightarrow>
   rp_addr (f (at_slot i p)) = rp_addr (at_slot i p) \<Longrightarrow> rp_id (f (at_slot i p)) = rp_id (at_slot i p) \<Longrightarrow>
   disconnect (f (at_slot i p)) = disconnect (at_slot i p) \<Longrightarrow> congestion (f (at_slot i p)) \<noteq> None \<Longrightarrow>
   same_link i p (upd_slot i f p)"
  by (auto simp: same_link_def upd_slot_def at_slot_def)

lemma same_link_fields:
  "congestion (at_slot i p) \<noteq> None \<Longrightarrow> i < length (m_remotes p) \<Longrightarrow> same_link i p (p\<lparr>m_inbox := x\<rparr>)"
  "congestion (at_slot i p) \<noteq> None \<Longrightarrow> i < length (m_remotes p) \<Longrightarrow> same_link i p (p\<lparr>m_masterSocket := y\<rparr>)"
  by (auto simp: same_link_def at_slot_def intro!: exI [of _ "m_remotes p ! i"])

text \<open>A datagram of the other side reaches the connection.\<close>

lemma link_read:
  assumes l: "link i addr p" and ok: "datagram_ok h ps" "flag_link h"
  shows "socket_read env False addr (enc_datagram h ps) p =
    rbind (receive_datagram env i h ps (count_datagram i (length (enc_datagram h ps))
      (p\<lparr>m_masterSocket := fill_readbuf (enc_datagram h ps) (m_masterSocket p)\<rparr>)))
      (\<lambda>p. Inr (p\<lparr>m_masterSocket := after_read False (m_masterSocket p)\<rparr>))"
proof -
  let ?data = "enc_datagram h ps"
  let ?p = "p\<lparr>m_masterSocket := fill_readbuf ?data (m_masterSocket p)\<rparr>"
  let ?q = "count_datagram i (length ?data) ?p"
  have tk: "take PACKETQUEUE_IN_LEN ?data = ?data" using ok by (simp add: datagram_ok_def PACKETQUEUE_IN_LEN_def)
  have buf: "m_readbuf (m_masterSocket ?p) = ?data @ drop (length ?data) (m_readbuf (m_masterSocket p))"
    by (simp add: fill_readbuf_def tk overwrite_def Let_def)
  have i: "i < length (m_remotes p)" "congestion (at_slot i p) \<noteq> None" using l by (simp_all add: link_def)
  have lp: "link i addr ?p" by (rule link_same [OF l same_link_fields(2) [OF i(2,1)]])
  obtain hs where hs: "handshake (at_slot i ?p) = Some hs" "hs_result hs = CR_OK" using lp by (auto simp: link_def)
  have th: "the_handshake i ?q = Inr hs" using at_count_datagram [of i ?p "length ?data"] i(1) hs(1)
    by (auto simp: the_handshake_def)
  have "OnReadFinished env False addr (Some (map Some (?data @ drop (length ?data) (m_readbuf (m_masterSocket p)))))
      (length ?data) ?p = receive_datagram env i h ps ?q"
    using OnReadFinished_header [OF ok(1), of addr ?p i env "drop (length ?data) (m_readbuf (m_masterSocket p))"]
      lp th hs(2) ok(2) by (auto simp: link_def Let_def IsDone_def)
  then show ?thesis unfolding socket_read_def Let_def if_False tk buf by simp
qed

section \<open>Packets of a new datagram\<close>

definition noted_datagram :: "Timestamp \<Rightarrow> DatagramID \<Rightarrow> CongestionControlWindow \<Rightarrow> CongestionControlWindow" where
  "noted_datagram now did c = snd (NotifyReceivedDatagram now did False c)"

definition noted_packet :: "Timestamp \<Rightarrow> PacketID \<Rightarrow> CongestionControlWindow \<Rightarrow> CongestionControlWindow" where
  "noted_packet now pid c = c\<lparr>m_packetHistory := (m_packetHistory c)(pid \<mapsto> now)\<rparr>"

lemma noted_histories:
  "m_packetHistory (noted_datagram now did c) = m_packetHistory c"
  "did' \<noteq> did \<Longrightarrow> m_datagramHistory (noted_datagram now did c) did' = m_datagramHistory c did'"
  "m_datagramHistory (noted_packet now pid c) = m_datagramHistory c"
  "pid' \<noteq> pid \<Longrightarrow> m_packetHistory (noted_packet now pid c) pid' = m_packetHistory c pid'"
  by (auto simp: noted_datagram_def noted_packet_def NotifyReceivedDatagram_def Let_def)

lemma receive_data:
  assumes "congestion (at_slot i p) = Some c" "m_datagramHistory c did = None"
  shows "receive_datagram env i (data_header True did n) ps p =
    receive_packets env i n PacketHeader_default ps
      (upd_slot i (\<lambda>r. r\<lparr>congestion := Some (noted_datagram (e_now env) did c)\<rparr>) p)"
proof -
  have "NotifyReceivedDatagram (e_now env) did False c = (NEW, noted_datagram (e_now env) did c)"
    using assms(2) by (simp add: noted_datagram_def NotifyReceivedDatagram_def Let_def)
  then show ?thesis using assms(1) by (simp add: receive_datagram_def)
qed

text \<open>A whole user packet of the default channel goes to the inbox.\<close>

lemma receive_user_packet:
  assumes i: "i < length (m_remotes p)" and c: "congestion (at_slot i p) = Some c" "m_packetHistory c (ph_id h) = None"
    and whole: "length bs < len" "\<not> flag_segment h" "ph_offset h = 0" and ch: "ph_channel h = 0"
    and user: "\<not> hd bs < USER_PACKET"
  shows "\<exists>st. receive_packet env i len h bs p = Inr ((upd_slot i (\<lambda>r. r\<lparr>
      congestion := Some (noted_packet (e_now env) (ph_id h) c), rp_stats := st\<rparr>) p)
      \<lparr>m_inbox := m_inbox p @ [packet_of (rp_id (at_slot i p)) (hd bs) (tl bs)]\<rparr>)"
proof -
  have n: "NotifyReceivedPacket (e_now env) (ph_id h) c = (NEW, noted_packet (e_now env) (ph_id h) c)"
    using c(2) by (simp add: NotifyReceivedPacket_def noted_packet_def)
  have hi: "HandleIncomingPacket i h packet q = Inr (q\<lparr>m_inbox := m_inbox q @ [packet]\<rparr>)" for packet q
    using ch by (simp add: HandleIncomingPacket_def GetChannelBuffer_def)
  show ?thesis using i whole user
    by (intro exI [of _ "PeerStats_Add PACKETS_RECEIVED 1 (rp_stats (at_slot i p))"])
      (simp add: receive_packet_def c(1) n Let_def hi upd_stats_def, simp add: upd_slot_def at_slot_def)
qed

text \<open>A segment is placed; the last missing one completes the message, which goes to the inbox.\<close>

lemma receive_segment:
  assumes i: "i < length (m_remotes p)" and c: "congestion (at_slot i p) = Some c" "m_packetHistory c (ph_id h) = None"
    and full: "length full < PACKET_MAX_LENGTH" "CHUNK_SIZE < length full"
    and h: "is_segment full container k h" and ch: "ph_channel h = 0"
    and bs: "bs = segment full k" "length bs < len"
    and as: "assembled full {..<k} (partial container (assembly (at_slot i p)))"
  shows "\<exists>st asm. receive_packet env i len h bs p = Inr ((upd_slot i (\<lambda>r. r\<lparr>
      congestion := Some (noted_packet (e_now env) (ph_id h) c), rp_stats := st, assembly := asm\<rparr>) p)
      \<lparr>m_inbox := m_inbox p @ (if Suc k = segments (length full)
        then [packet_of (rp_id (at_slot i p)) (hd full) (tl full)] else [])\<rparr>) \<and>
    (if Suc k = segments (length full) then ra_backlog asm container = None
     else assembled full {..<Suc k} (partial container asm))"
proof -
  let ?asm = "assembly (at_slot i p)"
  have n0: "0 < length full" using full by linarith
  have k: "k < segments (length full)" using h by (simp add: is_segment_def)
  have n: "NotifyReceivedPacket (e_now env) (ph_id h) c = (NEW, noted_packet (e_now env) (ph_id h) c)"
    using c(2) by (simp add: NotifyReceivedPacket_def noted_packet_def)
  have hi: "HandleIncomingPacket i h packet q = Inr (q\<lparr>m_inbox := m_inbox q @ [packet]\<rparr>)" for packet q
    using ch by (simp add: HandleIncomingPacket_def GetChannelBuffer_def)
  have split: "flag_segment h \<or> ph_offset h > 0"
  proof (cases "k = 0")
    case True
    then show ?thesis using h segments_iff [OF n0, of 1] full(2) by (auto simp: is_segment_def)
  next
    case False
    then have "0 < unat (ph_offset h)" using h by (simp add: is_segment_def CHUNK_SIZE_eq)
    then show ?thesis by (metis unat_0 word_neq_0_conv less_irrefl)
  qed
  have "length bs < 2 ^ 64" using bs(1) by (simp add: segment_def CHUNK_SIZE_eq)
  from wrap_readbuf [OF this, of "[]"] obtain t where t: "reading t 0 (segment full k @ [])"
    using bs(1) by auto
  have low: "k * CHUNK_SIZE \<le> m_length (sp_blob (partial container ?asm))"
    by (rule assembled_reaches [OF full as k])
  then obtain sp' t' where ins: "Insert h t ?asm = Inr (?asm\<lparr>ra_backlog := (ra_backlog ?asm)(container \<mapsto> sp')\<rparr>, t')"
    "assembled full (insert k {..<k}) sp'"
    using Insert_segment [OF full h partial_def as t] by auto
  have ib: "insert_bytes h bs ?asm = Inr (?asm\<lparr>ra_backlog := (ra_backlog ?asm)(container \<mapsto> sp')\<rparr>)"
  proof -
    obtain s' where "Insert h t ?asm = rbind (insert_bytes h bs ?asm) (\<lambda>asm. Inr (asm, s'))"
      using Insert_bytes [of t bs "[]" h ?asm] t bs(1) h by (auto simp: is_segment_def)
    then have "rbind (insert_bytes h bs ?asm) (\<lambda>asm. Inr (asm, s')) =
        Inr (?asm\<lparr>ra_backlog := (ra_backlog ?asm)(container \<mapsto> sp')\<rparr>, t')" using ins(1) by (simp only:)
    then show ?thesis by simp
  qed
  have as': "assembled full {..<Suc k} sp'" using ins(2) by (simp add: lessThan_Suc)
  let ?asm' = "?asm\<lparr>ra_backlog := (ra_backlog ?asm)(container \<mapsto> sp')\<rparr>"
  let ?st = "PeerStats_Add PACKETS_RECEIVED 1 (rp_stats (at_slot i p))"
  have re: "if Suc k = segments (length full)
    then Reassemble pid container ?asm' = Inr (Some (packet_of pid (hd full) (tl full)),
      ?asm'\<lparr>ra_backlog := (ra_backlog ?asm')(container := None)\<rparr>)
    else Reassemble pid container ?asm' = Inr (None, ?asm')" for pid
    using Reassemble_assembled [OF full, of ?asm' container sp' "{..<Suc k}" pid] as' by simp
  have con: "splitContainer h = container" using h by (simp add: is_segment_def)
  show ?thesis
  proof (cases "Suc k = segments (length full)")
    case True
    then show ?thesis using i split bs(2) re
      by (intro exI [of _ ?st] exI [of _ "?asm'\<lparr>ra_backlog := (ra_backlog ?asm')(container := None)\<rparr>"])
        (simp add: receive_packet_def c(1) n Let_def upd_stats_def ib con hi, simp add: upd_slot_def at_slot_def)
  next
    case False
    then show ?thesis using i split bs(2) re as'
      by (intro exI [of _ ?st] exI [of _ ?asm'])
        (simp add: receive_packet_def c(1) n Let_def upd_stats_def ib con hi, simp add: upd_slot_def at_slot_def)
  qed
qed

section \<open>The segments of a message arrive\<close>

text \<open>A datagram that carries one queued packet.\<close>

definition packet_datagram :: "DatagramID \<Rightarrow> OutgoingPacket \<Rightarrow> u8 list" where
  "packet_datagram did out = enc_DatagramHeader (data_header True did (m_length (op_blob out))) @ blob_bytes out"

lemma length_segment_pos: "k < segments (length full) \<Longrightarrow> full \<noteq> [] \<Longrightarrow> 0 < length (segment full k) \<and> length (segment full k) \<le> 1200"
  using segments_iff [of "length full" k] by (simp add: segment_def CHUNK_SIZE_eq)

lemma segments_pos: "0 < segments n"
  by (simp add: segments_def)

lemma segment_header_fits:
  assumes "length full \<le> PACKET_MAX_LENGTH" "k < segments (length full)" "full \<noteq> []"
  shows "wire_packet_ok (segment_header opts chan seq container mid full k, segment full k)"
    "unat (ph_offset (segment_header opts chan seq container mid full k)) = k * CHUNK_SIZE"
proof -
  let ?h = "segment_header opts chan seq container mid full k"
  have k: "k * CHUNK_SIZE < length full" using segments_iff [of "length full" k] assms by simp
  note len = length_segment_pos [OF assms(2,3)]
  have ul: "unat (ph_length ?h) = length (segment full k)"
    using len by (simp add: segment_header_def unat_of_nat_small)
  show uo: "unat (ph_offset ?h) = k * CHUNK_SIZE"
    using k assms(1) unat_of_nat_small [of "k * CHUNK_SIZE", where 'a = 32]
    by (simp add: segment_header_def PACKET_MAX_LENGTH_def del: of_nat_mult)
  have "\<not> flag_jumbo ?h \<Longrightarrow> k * CHUNK_SIZE < 2 ^ 16" using k by (simp add: segment_header_def)
  then show "wire_packet_ok (?h, segment full k)"
    using len ul uo k assms(1) by (auto simp: wire_packet_ok_def fits_PacketHeader_def PACKET_MAX_LENGTH_def)
qed

lemma queued_datagram:
  assumes q: "queued now i addr opts chan seq container full k out"
    and full: "length full \<le> PACKET_MAX_LENGTH" "k < segments (length full)" "full \<noteq> []"
    and ps: "ps = [(segment_header opts chan seq container (segment_id container full k) full k, segment full k)]"
  shows "packet_datagram did out = enc_datagram (data_header True did (m_length (op_blob out))) ps"
    "datagram_ok (data_header True did (m_length (op_blob out))) ps" "length (segment full k) < m_length (op_blob out)"
proof -
  let ?h = "segment_header opts chan seq container (segment_id container full k) full k"
  have w: "written (op_blob out) (enc_packets ps) []" using q ps by (simp add: queued_def)
  have b: "blob_bytes out = enc_packets ps" using w by (simp add: blob_bytes_def written_def flushed_def)
  have l: "m_length (op_blob out) = length (enc_packets ps)" by (rule m_length_written [OF w])
  show "packet_datagram did out = enc_datagram (data_header True did (m_length (op_blob out))) ps"
    by (simp add: packet_datagram_def enc_datagram_def b)
  have n: "length (enc_packets ps) \<le> 1227" "length (segment full k) < length (enc_packets ps)"
    using length_enc_PacketHeader [of ?h] length_segment_pos [OF full(2,3)] by (auto simp: ps)
  then show "length (segment full k) < m_length (op_blob out)" using l by simp
  show "datagram_ok (data_header True did (m_length (op_blob out))) ps"
    using n l segment_header_fits(1) [OF full] ps
    by (simp add: datagram_ok_def enc_datagram_def valid_DatagramHeader_def MTU_def)
qed

text \<open>One datagram with one packet over an established connection.\<close>

lemma link_read_packet:
  assumes l: "link i addr p" and c: "congestion (at_slot i p) = Some c" "m_datagramHistory c did = None"
    and ok: "datagram_ok (data_header True did n) [(h, bs)]"
    and p1: "p1 = upd_slot i (\<lambda>r. r\<lparr>congestion := Some (noted_datagram (e_now env) did c)\<rparr>)
      (count_datagram i (length (enc_datagram (data_header True did n) [(h, bs)]))
        (p\<lparr>m_masterSocket := fill_readbuf (enc_datagram (data_header True did n) [(h, bs)]) (m_masterSocket p)\<rparr>))"
  shows "socket_read env False addr (enc_datagram (data_header True did n) [(h, bs)]) p =
      rbind (receive_packet env i n (read_over PacketHeader_default h) bs p1)
        (\<lambda>p. Inr (p\<lparr>m_masterSocket := after_read False (m_masterSocket p)\<rparr>))"
    "same_link i p p1" "m_inbox p1 = m_inbox p" "congestion (at_slot i p1) = Some (noted_datagram (e_now env) did c)"
    "assembly (at_slot i p1) = assembly (at_slot i p)"
proof -
  let ?data = "enc_datagram (data_header True did n) [(h, bs)]"
  let ?q = "count_datagram i (length ?data) (p\<lparr>m_masterSocket := fill_readbuf ?data (m_masterSocket p)\<rparr>)"
  have i: "i < length (m_remotes p)" using l by (simp add: link_def)
  obtain st where st: "at_slot i ?q = at_slot i p\<lparr>rp_stats := st\<rparr>"
    using at_count_datagram [of i "p\<lparr>m_masterSocket := fill_readbuf ?data (m_masterSocket p)\<rparr>" "length ?data"] i by auto
  then have cq: "congestion (at_slot i ?q) = Some c" using c(1) by simp
  have "receive_packets env i n PacketHeader_default [(h, bs)] q = receive_packet env i n (read_over PacketHeader_default h) bs q" for q
    by (cases "receive_packet env i n (read_over PacketHeader_default h) bs q") simp_all
  then show "socket_read env False addr ?data p = rbind (receive_packet env i n (read_over PacketHeader_default h) bs p1)
        (\<lambda>p. Inr (p\<lparr>m_masterSocket := after_read False (m_masterSocket p)\<rparr>))"
    using link_read [OF l ok, of env] receive_data [OF cq c(2), of env n "[(h, bs)]"] p1 by simp
  show "same_link i p p1" using i p1 by (simp add: count_datagram_def upd_stats_def) (auto simp: same_link_def upd_slot_def at_slot_def)
  show "m_inbox p1 = m_inbox p" using p1 by simp
  show "congestion (at_slot i p1) = Some (noted_datagram (e_now env) did c)"
    "assembly (at_slot i p1) = assembly (at_slot i p)" using i p1 st by simp_all
qed


lemma read_over_split:
  "flag_segment h \<or> ph_offset h > 0 \<Longrightarrow>
   splitContainer (read_over h0 h) = splitContainer h \<and> splitIndex (read_over h0 h) = splitIndex h"
  by (auto simp: read_over_def)

lemma read_over_simps [simp]:
  "ph_id (read_over h0 h) = ph_id h" "ph_channel (read_over h0 h) = ph_channel h"
  "ph_offset (read_over h0 h) = ph_offset h" "ph_length (read_over h0 h) = ph_length h"
  "flag_segment (read_over h0 h) = flag_segment h"
  by (simp_all add: read_over_def)

lemma segment_header_is_segment:
  assumes "length full \<le> PACKET_MAX_LENGTH" "k < segments (length full)" "full \<noteq> []" "segments (length full) > 1"
  shows "is_segment full container k (read_over h0 (segment_header opts chan seq container mid full k))"
proof -
  let ?h = "segment_header opts chan seq container mid full k"
  note fits = segment_header_fits [OF assms(1-3), of opts chan seq container mid]
  have "flag_segment ?h \<or> ph_offset ?h > 0"
  proof (cases "k = 0")
    case False
    then have "0 < unat (ph_offset ?h)" using fits(2) by (simp add: CHUNK_SIZE_eq)
    then show ?thesis by (metis unat_0 word_neq_0_conv less_irrefl)
  qed (use assms(4) in \<open>simp add: segment_header_def\<close>)
  from read_over_split [OF this, of h0] have "splitContainer (read_over h0 ?h) = splitContainer ?h"
    "splitIndex (read_over h0 ?h) = splitIndex ?h" by simp_all
  moreover have "unat (ph_length (read_over h0 ?h)) = length (segment full k)"
    "unat (ph_offset (read_over h0 ?h)) = k * CHUNK_SIZE"
    using fits by (simp_all add: wire_packet_ok_def)
  ultimately show ?thesis using assms(2) by (simp add: is_segment_def) (simp add: segment_header_def)
qed

lemma segment_ids_differ:
  assumes "j < k" "k < segments (length full)" "length full < 2 ^ 32"
  shows "segment_id container full j \<noteq> segment_id container full k"
proof
  assume "segment_id container full j = segment_id container full k"
  then have "(of_nat j :: u32) = of_nat k" using assms by (simp add: segment_id_def)
  moreover have "segments (length full) \<le> 2 ^ 32" using assms(3) by (simp add: segments_def CHUNK_SIZE_eq)
  ultimately have "unat (of_nat j :: u32) = unat (of_nat k :: u32)" "j < 2 ^ 32" "k < 2 ^ 32"
    using assms by simp_all
  then show False using assms(1) unat_of_nat_small [of j, where 'a = 32] unat_of_nat_small [of k, where 'a = 32] by simp
qed

definition receive_all :: "Env \<Rightarrow> RemoteAddress \<Rightarrow> (DatagramID \<times> OutgoingPacket) list \<Rightarrow> Peer \<Rightarrow> Peer result" where
  "receive_all env addr xs p = rfold (\<lambda>(did, out) p. socket_read env False addr (packet_datagram did out) p) xs p"

text \<open>Nothing of the remaining datagrams and segments has been seen before.\<close>

definition unseen :: "DatagramID list \<Rightarrow> PacketID set \<Rightarrow> CongestionControlWindow \<Rightarrow> bool" where
  "unseen dids pids c \<longleftrightarrow> distinct dids \<and> (\<forall>d \<in> set dids. m_datagramHistory c d = None) \<and>
     (\<forall>x \<in> pids. m_packetHistory c x = None)"

lemma unseen_step:
  assumes "unseen (did # dids) (insert pid pids) c" "pid \<notin> pids"
  shows "unseen dids pids (noted_packet now pid (noted_datagram now did c))"
proof -
  have "d \<noteq> did" if "d \<in> set dids" for d using assms(1) that by (auto simp: unseen_def)
  moreover have "x \<noteq> pid" if "x \<in> pids" for x using assms(2) that by auto
  ultimately show ?thesis using assms(1) by (simp add: unseen_def noted_histories)
qed

lemma segment_arrives:
  assumes full: "length full < PACKET_MAX_LENGTH" "CHUNK_SIZE < length full"
    and q: "queued now i addr' opts 0 0 container full k out" "k < segments (length full)"
    and l: "link j addr p" "congestion (at_slot j p) = Some c"
    and new: "m_datagramHistory c did = None" "m_packetHistory c (segment_id container full k) = None"
    and asm: "assembled full {..<k} (partial container (assembly (at_slot j p)))"
  shows "\<exists>p'. socket_read env False addr (packet_datagram did out) p = Inr p' \<and> same_link j p p' \<and>
    congestion (at_slot j p') = Some (noted_packet (e_now env) (segment_id container full k) (noted_datagram (e_now env) did c)) \<and>
    rp_id (at_slot j p') = rp_id (at_slot j p) \<and>
    m_inbox p' = m_inbox p @ (if Suc k = segments (length full) then [packet_of (rp_id (at_slot j p)) (hd full) (tl full)] else []) \<and>
    (if Suc k = segments (length full) then ra_backlog (assembly (at_slot j p')) container = None
     else assembled full {..<Suc k} (partial container (assembly (at_slot j p'))))"
proof -
  let ?n = "segments (length full)"
  let ?h = "segment_header opts 0 0 container (segment_id container full k) full k"
  let ?pid = "segment_id container full k" and ?len = "m_length (op_blob out)"
  have "0 < length full" using full(2) by linarith
  then have fl: "length full \<le> PACKET_MAX_LENGTH" "full \<noteq> []" "1 < ?n"
    using full segments_iff [of "length full" 1] by simp_all
  note qd = queued_datagram [OF q(1) fl(1) q(2) fl(2) refl]
  note dg = qd(1,2) [of did] qd(3)
  define p1 where "p1 = upd_slot j (\<lambda>r. r\<lparr>congestion := Some (noted_datagram (e_now env) did c)\<rparr>)
      (count_datagram j (length (enc_datagram (data_header True did ?len) [(?h, segment full k)]))
        (p\<lparr>m_masterSocket := fill_readbuf (enc_datagram (data_header True did ?len) [(?h, segment full k)]) (m_masterSocket p)\<rparr>))"
  note rd = link_read_packet [OF l new(1) dg(2) p1_def]
  have j: "j < length (m_remotes p1)" "j < length (m_remotes p)" using link_same [OF l(1) rd(2)] l(1) by (simp_all add: link_def)
  have id: "rp_id (at_slot j p1) = rp_id (at_slot j p)" using rd(2) j by (auto simp: same_link_def at_slot_def)
  have seg: "is_segment full container k (read_over PacketHeader_default ?h)"
    by (rule segment_header_is_segment [OF fl(1) q(2) fl(2,3)])
  let ?c = "noted_packet (e_now env) ?pid (noted_datagram (e_now env) did c)"
  have hid: "ph_id ?h = ?pid" "ph_channel ?h = 0" by (simp_all add: segment_header_def)
  obtain st asm where rp: "receive_packet env j ?len (read_over PacketHeader_default ?h) (segment full k) p1 =
      Inr ((upd_slot j (\<lambda>r. r\<lparr>congestion := Some ?c, rp_stats := st, assembly := asm\<rparr>) p1)
      \<lparr>m_inbox := m_inbox p1 @ (if Suc k = ?n then [packet_of (rp_id (at_slot j p1)) (hd full) (tl full)] else [])\<rparr>)"
    "if Suc k = ?n then ra_backlog asm container = None else assembled full {..<Suc k} (partial container asm)"
    using receive_segment [OF j(1) rd(4) _ full seg _ refl dg(3), where env = env] new(2) asm rd(5)
    by (auto simp: hid noted_histories)
  define p2 where "p2 = (upd_slot j (\<lambda>r. r\<lparr>congestion := Some ?c, rp_stats := st, assembly := asm\<rparr>) p1)
      \<lparr>m_inbox := m_inbox p1 @ (if Suc k = ?n then [packet_of (rp_id (at_slot j p1)) (hd full) (tl full)] else [])\<rparr>"
  define p3 where "p3 = p2\<lparr>m_masterSocket := after_read False (m_masterSocket p2)\<rparr>"
  have "socket_read env False addr (packet_datagram did out) p = Inr p3"
    using rd(1) rp(1) by (simp add: dg(1) p3_def p2_def)
  moreover have "at_slot j p3 = (at_slot j p1)\<lparr>congestion := Some ?c, rp_stats := st, assembly := asm\<rparr>"
    using j by (simp add: p3_def p2_def)
  moreover have "same_link j p1 p3" using j(1) by (auto simp: p3_def p2_def same_link_def upd_slot_def at_slot_def)
  then have "same_link j p p3" using rd(2) j(2) by (blast intro: same_link_trans)
  moreover have "m_inbox p3 = m_inbox p @ (if Suc k = ?n then [packet_of (rp_id (at_slot j p)) (hd full) (tl full)] else [])"
    using rd(3) id by (simp add: p3_def p2_def)
  ultimately show ?thesis using rp(2) id by (intro exI [of _ p3]) simp
qed

lemma segments_arrive:
  assumes full: "length full < PACKET_MAX_LENGTH" "CHUNK_SIZE < length full"
    and "list_all2 (queued now i addr' opts 0 0 container full) [k..<segments (length full)] os"
    and "length dids = length os" "k < segments (length full)" "link j addr p" "congestion (at_slot j p) = Some c"
    and "unseen dids (segment_id container full ` {k..<segments (length full)}) c"
    and "assembled full {..<k} (partial container (assembly (at_slot j p)))"
  shows "\<exists>p'. receive_all env addr (zip dids os) p = Inr p' \<and> same_link j p p' \<and>
    m_inbox p' = m_inbox p @ [packet_of (rp_id (at_slot j p)) (hd full) (tl full)] \<and>
    ra_backlog (assembly (at_slot j p')) container = None"
  using assms(3-)
proof (induction os arbitrary: k dids p c rule: list.induct)
  case (Cons out os)
  let ?n = "segments (length full)"
  obtain did dids' where dids: "dids = did # dids'" using Cons.prems(2) by (cases dids) auto
  have q: "queued now i addr' opts 0 0 container full k out"
    "list_all2 (queued now i addr' opts 0 0 container full) [Suc k..<?n] os"
    using Cons.prems(1,3) by (simp_all add: upt_conv_Cons)
  let ?pid = "segment_id container full k"
  have new: "m_datagramHistory c did = None" "m_packetHistory c ?pid = None"
    using Cons.prems(3,6) dids by (auto simp: unseen_def)
  obtain p3 where step: "socket_read env False addr (packet_datagram did out) p = Inr p3" and s3: "same_link j p p3"
    and c3: "congestion (at_slot j p3) = Some (noted_packet (e_now env) ?pid (noted_datagram (e_now env) did c))"
    and id: "rp_id (at_slot j p3) = rp_id (at_slot j p)"
    and in3: "m_inbox p3 = m_inbox p @ (if Suc k = ?n then [packet_of (rp_id (at_slot j p)) (hd full) (tl full)] else [])"
    and asm: "if Suc k = ?n then ra_backlog (assembly (at_slot j p3)) container = None
      else assembled full {..<Suc k} (partial container (assembly (at_slot j p3)))"
    using segment_arrives [OF full q(1) Cons.prems(3,4,5) new Cons.prems(7), of env] by blast
  have j: "j < length (m_remotes p)" using Cons.prems(4) by (simp add: link_def)
  show ?case
  proof (cases "Suc k = ?n")
    case True
    then have "os = []" using q(2) by simp
    then show ?thesis using step s3 in3 True asm dids by (auto simp: receive_all_def)
  next
    case False
    then have k: "Suc k < ?n" using Cons.prems(3) by simp
    have "{k..<?n} = insert k {Suc k..<?n}" using k by auto
    moreover have "?pid \<notin> segment_id container full ` {Suc k..<?n}"
    proof
      assume "?pid \<in> segment_id container full ` {Suc k..<?n}"
      then obtain x where "x \<in> {Suc k..<?n}" "?pid = segment_id container full x" by (rule imageE)
      then show False using segment_ids_differ [of k x full container] full(1) by (simp add: PACKET_MAX_LENGTH_def)
    qed
    ultimately have "unseen dids' (segment_id container full ` {Suc k..<?n}) (noted_packet (e_now env) ?pid (noted_datagram (e_now env) did c))"
      using Cons.prems(6) dids by (intro unseen_step) simp_all
    then obtain p' where "receive_all env addr (zip dids' os) p3 = Inr p'" "same_link j p3 p'"
      "m_inbox p' = m_inbox p3 @ [packet_of (rp_id (at_slot j p3)) (hd full) (tl full)]"
      "ra_backlog (assembly (at_slot j p')) container = None"
      using Cons.IH [OF q(2) _ k link_same [OF Cons.prems(4) s3] c3] Cons.prems(2) dids asm False by auto
    then show ?thesis using step s3 in3 False dids id j same_link_trans [OF s3]
      by (auto simp: receive_all_def)
  qed
qed simp


text \<open>What the arrival of a packet leaves alone besides: the sending side of the slot and of the socket.\<close>

definition same_sending :: "slot \<Rightarrow> Peer \<Rightarrow> Peer \<Rightarrow> bool" where
  "same_sending i p q \<longleftrightarrow> same_connection (at_slot i p) (at_slot i q) \<and> outbox (at_slot i q) = outbox (at_slot i p) \<and>
     sentbox (at_slot i q) = sentbox (at_slot i p) \<and> m_sending (m_masterSocket q) = m_sending (m_masterSocket p) \<and>
     su_write (m_masterSocket q) = su_write (m_masterSocket p) \<and> su_is_open (m_masterSocket q) = su_is_open (m_masterSocket p)"

lemma socket_read_fields [simp]:
  "m_sending (after_read error s) = m_sending s" "su_write (after_read error s) = su_write s"
  "su_is_open (after_read error s) = su_is_open s" "m_sending (fill_readbuf data s) = m_sending s"
  "su_write (fill_readbuf data s) = su_write s" "su_is_open (fill_readbuf data s) = su_is_open s"
  by (simp_all add: after_read_def BeginRead_def fill_readbuf_def Let_def)

lemma packet_arrives:
  assumes full: "length full \<le> CHUNK_SIZE" "full \<noteq> []" and user: "\<not> hd full < USER_PACKET"
    and q: "queued now i addr' opts 0 0 container full 0 out"
    and l: "link j addr p" and c: "congestion (at_slot j p) = Some c" "unseen [did] {container} c"
  shows "\<exists>p'. socket_read env False addr (packet_datagram did out) p = Inr p' \<and> same_link j p p' \<and>
    m_inbox p' = m_inbox p @ [packet_of (rp_id (at_slot j p)) (hd full) (tl full)] \<and> same_sending j p p' \<and>
    congestion (at_slot j p') = Some (noted_packet (e_now env) container (noted_datagram (e_now env) did c))"
proof -
  have one: "segments (length full) = 1" using full by (cases full) (auto simp: segments_def CHUNK_SIZE_eq)
  have fl: "length full \<le> PACKET_MAX_LENGTH" using full(1) by (simp add: PACKET_MAX_LENGTH_def CHUNK_SIZE_eq)
  have seg: "segment full 0 = full" using full(1) by (simp add: segment_def)
  let ?h = "segment_header opts 0 0 container (segment_id container full 0) full 0"
  let ?len = "m_length (op_blob out)"
  note qd = queued_datagram [OF q fl _ full(2) refl]
  have dg: "packet_datagram did out = enc_datagram (data_header True did ?len) [(?h, full)]"
    "datagram_ok (data_header True did ?len) [(?h, full)]" "length full < ?len"
    using qd one by (simp_all add: seg)
  have new: "m_datagramHistory c did = None" "m_packetHistory c container = None"
    using c(2) by (auto simp: unseen_def)
  define p1 where "p1 = upd_slot j (\<lambda>r. r\<lparr>congestion := Some (noted_datagram (e_now env) did c)\<rparr>)
      (count_datagram j (length (enc_datagram (data_header True did ?len) [(?h, full)]))
        (p\<lparr>m_masterSocket := fill_readbuf (enc_datagram (data_header True did ?len) [(?h, full)]) (m_masterSocket p)\<rparr>))"
  note rd = link_read_packet [OF l c(1) new(1) dg(2) p1_def]
  have j: "j < length (m_remotes p1)" "j < length (m_remotes p)"
    using l link_same [OF l rd(2)] by (simp_all add: link_def)
  have id: "rp_id (at_slot j p1) = rp_id (at_slot j p)" using rd(2) j by (auto simp: same_link_def at_slot_def)
  have h: "\<not> flag_segment (read_over PacketHeader_default ?h)" "ph_offset (read_over PacketHeader_default ?h) = 0"
    "ph_channel (read_over PacketHeader_default ?h) = 0" "ph_id (read_over PacketHeader_default ?h) = container"
    using one by (simp_all add: segment_header_def segment_id_def)
  have ch: "m_packetHistory (noted_datagram (e_now env) did c) (ph_id (read_over PacketHeader_default ?h)) = None"
    using new(2) h(4) by (simp only: noted_histories(1))
  obtain st where rp: "receive_packet env j ?len (read_over PacketHeader_default ?h) full p1 =
      Inr ((upd_slot j (\<lambda>r. r\<lparr>congestion := Some (noted_packet (e_now env) (ph_id (read_over PacketHeader_default ?h))
          (noted_datagram (e_now env) did c)), rp_stats := st\<rparr>) p1)
        \<lparr>m_inbox := m_inbox p1 @ [packet_of (rp_id (at_slot j p1)) (hd full) (tl full)]\<rparr>)"
    using receive_user_packet [OF j(1) rd(4) ch dg(3) h(1-3) user] by blast
  let ?p2 = "(upd_slot j (\<lambda>r. r\<lparr>congestion := Some (noted_packet (e_now env) (ph_id (read_over PacketHeader_default ?h))
          (noted_datagram (e_now env) did c)), rp_stats := st\<rparr>) p1)
        \<lparr>m_inbox := m_inbox p1 @ [packet_of (rp_id (at_slot j p1)) (hd full) (tl full)]\<rparr>"
  let ?p3 = "?p2\<lparr>m_masterSocket := after_read False (m_masterSocket ?p2)\<rparr>"
  have "same_link j p1 ?p3" using j(1) by (auto simp: same_link_def upd_slot_def at_slot_def)
  then have "same_link j p ?p3" using rd(2) j(2) by (blast intro: same_link_trans)
  moreover have "socket_read env False addr (packet_datagram did out) p = Inr ?p3"
    unfolding dg(1) rd(1) rp by simp
  moreover have "m_inbox ?p3 = m_inbox p @ [packet_of (rp_id (at_slot j p)) (hd full) (tl full)]" using rd(3) id by simp
  moreover have "congestion (at_slot j ?p3) = Some (noted_packet (e_now env) container (noted_datagram (e_now env) did c))"
    using j(1) h(4) by simp
  moreover have "same_sending j p ?p3"
  proof -
    let ?data = "enc_datagram (data_header True did ?len) [(?h, full)]"
    obtain st' where "at_slot j (count_datagram j (length ?data) (p\<lparr>m_masterSocket := fill_readbuf ?data (m_masterSocket p)\<rparr>)) =
        at_slot j p\<lparr>rp_stats := st'\<rparr>"
      using at_count_datagram [of j "p\<lparr>m_masterSocket := fill_readbuf ?data (m_masterSocket p)\<rparr>" "length ?data"] j(2) by auto
    then have "at_slot j p1 = at_slot j p\<lparr>congestion := Some (noted_datagram (e_now env) did c), rp_stats := st'\<rparr>"
      using j(2) by (simp add: p1_def)
    moreover have "m_sending (m_masterSocket p1) = m_sending (m_masterSocket p)"
      "su_write (m_masterSocket p1) = su_write (m_masterSocket p)" "su_is_open (m_masterSocket p1) = su_is_open (m_masterSocket p)"
      by (simp_all add: p1_def)
    ultimately show ?thesis using j by (simp add: same_sending_def same_connection_def)
  qed
  ultimately show ?thesis by blast
qed

text \<open>Both cases: whatever its size, a queued message arrives as a whole.\<close>

lemma message_arrives:
  assumes full: "length full < PACKET_MAX_LENGTH" "full \<noteq> []" and user: "\<not> hd full < USER_PACKET"
    and os: "list_all2 (queued now i addr' opts 0 0 container full) [0..<segments (length full)] os"
    and dids: "length dids = segments (length full)"
    and l: "link j addr p" and c: "congestion (at_slot j p) = Some c"
    and new: "unseen dids (segment_id container full ` {..<segments (length full)}) c"
      "ra_backlog (assembly (at_slot j p)) container = None"
  shows "\<exists>p'. receive_all env addr (zip dids os) p = Inr p' \<and> same_link j p p' \<and>
    m_inbox p' = m_inbox p @ [packet_of (rp_id (at_slot j p)) (hd full) (tl full)]"
proof (cases "CHUNK_SIZE < length full")
  case True
  have n: "0 < segments (length full)" by (simp add: segments_def)
  have "length dids = length os" using list_all2_lengthD [OF os] dids by simp
  moreover have "assembled full {..<0} (partial container (assembly (at_slot j p)))"
    using assembled_empty new(2) by (simp add: partial_def)
  moreover have "{0..<segments (length full)} = {..<segments (length full)}" by auto
  ultimately show ?thesis
    using segments_arrive [OF full(1) True os _ n l c, of dids env] new(1) by auto
next
  case False
  then have one: "segments (length full) = 1" using full by (cases full) (auto simp: segments_def CHUNK_SIZE_eq)
  obtain out where out: "os = [out]" "queued now i addr' opts 0 0 container full 0 out"
    using os one by (auto simp: list_all2_Cons1)
  obtain did where did: "dids = [did]" using dids one by (cases dids) auto
  have "unseen [did] {container} c" using new(1) one did by (simp add: segment_id_def lessThan_Suc)
  then show ?thesis using packet_arrives [OF _ full(2) user out(2) l c] False out(1) did
    by (auto simp: receive_all_def)
qed

section \<open>Sending over a connection\<close>

text \<open>Slot \<open>i\<close> can take a message for \<open>who\<close>, and nothing is queued or in flight.\<close>

definition accepts :: "PeerID \<Rightarrow> slot \<Rightarrow> Peer \<Rightarrow> bool" where
  "accepts who i p \<longleftrightarrow> fst (GetRemoteByID who p) = Some i \<and> i < length (m_remotes p) \<and>
     congestion (at_slot i p) \<noteq> None \<and> receipt (at_slot i p) \<noteq> None \<and> \<not> IsDisconnecting (at_slot i p)"

definition quiet :: "Timestamp \<Rightarrow> slot \<Rightarrow> Peer \<Rightarrow> bool" where
  "quiet now i p \<longleftrightarrow> IsConnected (at_slot i p) \<and> rp_id (at_slot i p) \<noteq> 0 \<and> outbox (at_slot i p) = [] \<and>
     \<not> m_sending (m_masterSocket p) \<and> \<not> m_crypto_enabled p \<and>
     (let c = the (congestion (at_slot i p))
      in m_bytesInFlight c = 0 \<and> MTU \<le> m_window c \<and> \<not> GetNeedsToSendAcks now c \<and>
         now < Timestamp_plus now (GetRetransmissionRTO 0 c))"

lemma Send_ok:
  assumes a: "accepts who i p" and ok: "packet_ok packet" "pkt_length packet < PACKET_MAX_LENGTH"
    and c: "congestion (at_slot i p) = Some c" and ch: "channel_id channel = 0"
  shows "\<exists>os p' r. Send env packet who opts prio channel p = Inr (m_nextPacket c, p') \<and>
    list_all2 (queued (e_now env) i (rp_addr (at_slot i p)) opts 0 0 (m_nextPacket c) (enc_Packet packet))
      [0..<segments (length (enc_Packet packet))] os \<and>
    m_remotes p' = (m_remotes p)[i := r] \<and> same_connection (at_slot i p\<lparr>receipt := receipt r\<rparr>) r \<and>
    outbox r = outbox (at_slot i p) @ os \<and>
    congestion r = Some (c\<lparr>m_nextPacket := after_message (m_nextPacket c) (enc_Packet packet)\<rparr>) \<and>
    m_masterSocket p' = m_masterSocket p \<and> m_crypto_enabled p' = m_crypto_enabled p \<and>
    sentbox r = sentbox (at_slot i p) \<and> m_inbox p' = m_inbox p \<and> same_link i p p' \<and> m_remoteLookup p' who = Some i \<and>
    receipt r = map_option (tracked_message opts (m_nextPacket c) (enc_Packet packet)) (receipt (at_slot i p))"
proof -
  obtain t where t: "receipt (at_slot i p) = Some t" using a by (auto simp: accepts_def)
  obtain q where q: "GetRemoteByID who p = (Some i, q)" using a by (cases "GetRemoteByID who p") (auto simp: accepts_def)
  have sq: "at_slot k q = at_slot k p" "m_remotes q = m_remotes p" "m_masterSocket q = m_masterSocket p"
    "m_crypto_enabled q = m_crypto_enabled p" "m_inbox q = m_inbox p" "m_remotesMax q = m_remotesMax p" "p_layers q = p_layers p"
    "m_channels q = m_channels p" "p_calls q = p_calls p" for k
    using q by (auto simp: GetRemoteByID_def split: option.splits)
  have look: "m_remoteLookup q who = Some i" using q by (auto simp: GetRemoteByID_def split: option.splits)
  have "i < length (m_remotes q)" "\<not> IsDisconnecting (at_slot i q)" "congestion (at_slot i q) = Some c"
    "receipt (at_slot i q) = Some t" using a c t sq by (simp_all add: accepts_def)
  from EnqueueOutgoing_ok [OF this(1) ok this(2-4) ch, of env opts prio] obtain os where
    os: "EnqueueOutgoing env packet i opts prio channel q =
      Inr (m_nextPacket c, upd_slot i (\<lambda>r. r\<lparr>
        congestion := Some (c\<lparr>m_nextPacket := after_message (m_nextPacket c) (enc_Packet packet)\<rparr>),
        outbox := outbox r @ os, receipt := Some (tracked_message opts (m_nextPacket c) (enc_Packet packet) t),
        rp_stats := PeerStats_Add PACKETS_QUEUED 1 (rp_stats r)\<rparr>) q)"
    "list_all2 (queued (e_now env) i (rp_addr (at_slot i q)) opts 0 0 (m_nextPacket c) (enc_Packet packet))
      [0..<segments (length (enc_Packet packet))] os" by blast
  have "Send env packet who opts prio channel p = EnqueueOutgoing env packet i opts prio channel q"
    using ok(2) q by (simp add: Send_def)
  moreover define r where "r = (at_slot i p)\<lparr>
        congestion := Some (c\<lparr>m_nextPacket := after_message (m_nextPacket c) (enc_Packet packet)\<rparr>),
        outbox := outbox (at_slot i p) @ os, receipt := Some (tracked_message opts (m_nextPacket c) (enc_Packet packet) t),
        rp_stats := PeerStats_Add PACKETS_QUEUED 1 (rp_stats (at_slot i p))\<rparr>"
  moreover have "upd_slot i (\<lambda>r. r\<lparr>
        congestion := Some (c\<lparr>m_nextPacket := after_message (m_nextPacket c) (enc_Packet packet)\<rparr>),
        outbox := outbox r @ os, receipt := Some (tracked_message opts (m_nextPacket c) (enc_Packet packet) t),
        rp_stats := PeerStats_Add PACKETS_QUEUED 1 (rp_stats r)\<rparr>) q = q\<lparr>m_remotes := (m_remotes p)[i := r]\<rparr>"
    using sq by (simp add: upd_slot_def r_def at_slot_def)
  moreover have "same_link i p (q\<lparr>m_remotes := (m_remotes p)[i := r]\<rparr>)" using sq by (auto simp: same_link_def r_def)
  ultimately show ?thesis using os sq t look
    by (intro exI [of _ os] exI [of _ "q\<lparr>m_remotes := (m_remotes p)[i := r]\<rparr>"] exI [of _ r])
      (simp add: same_connection_def)
qed


text \<open>A small message in one datagram: it is queued, and the next write cycle puts it on the wire.\<close>

lemma RTO_nextPacket: "GetRetransmissionRTO n (c\<lparr>m_nextPacket := x\<rparr>) = GetRetransmissionRTO n c"
  by (simp add: GetRetransmissionRTO_def GetRTTHistoryAvailable_def Let_def)

lemma queued_blob:
  assumes q: "queued now i addr opts chan seq container full k out" and k: "k < segments (length full)" "full \<noteq> []"
  shows "blob_ok out" "0 < m_length (op_blob out)" "m_length (op_blob out) \<le> 1227"
proof -
  let ?h = "segment_header opts chan seq container (segment_id container full k) full k"
  have w: "written (op_blob out) (enc_PacketHeader ?h @ segment full k) []" using q by (simp add: queued_def)
  then show "blob_ok out" by (simp add: blob_ok_def blob_bytes_def written_def flushed_def)
  show "0 < m_length (op_blob out)" "m_length (op_blob out) \<le> 1227"
    using m_length_written [OF w] length_enc_PacketHeader [of ?h] length_segment_pos [OF k] by simp_all
qed

lemma enc_Packet_nonempty: "enc_Packet packet \<noteq> []"
  by (simp add: enc_Packet_def)

lemma write_message:
  assumes a: "accepts who i p" and q: "quiet (e_now env) i p" and c: "congestion (at_slot i p) = Some c"
    and ok: "packet_ok packet" "pkt_length packet < CHUNK_SIZE" and ch: "channel_id channel = 0"
    and rel: "(opts AND RELIABLE) = RELIABLE"
  shows "\<exists>p1 p2 out. Send env packet who opts prio channel p = Inr (m_nextPacket c, p1) \<and>
    DoWriteCycle env i p1 = Inr p2 \<and>
    queued (e_now env) i (rp_addr (at_slot i p)) opts 0 0 (m_nextPacket c) (enc_Packet packet) 0 out \<and>
    su_write (m_masterSocket p2) = Some (rp_addr (at_slot i p), packet_datagram (m_nextDatagram c) out, (i, m_nextDatagram c))"
proof -
  let ?full = "enc_Packet packet"
  have len: "length ?full = pkt_length packet + 1" using length_enc_Packet [OF ok(1)] by (simp add: GetDatagramLength_def)
  have one: "segments (length ?full) = 1" using len ok(2) by (simp add: segments_def CHUNK_SIZE_eq)
  have big: "pkt_length packet < PACKET_MAX_LENGTH" using ok(2) by (simp add: PACKET_MAX_LENGTH_def CHUNK_SIZE_eq)
  obtain os p1 r where s: "Send env packet who opts prio channel p = Inr (m_nextPacket c, p1)"
    "list_all2 (queued (e_now env) i (rp_addr (at_slot i p)) opts 0 0 (m_nextPacket c) ?full) [0..<segments (length ?full)] os"
    "m_remotes p1 = (m_remotes p)[i := r]" "same_connection (at_slot i p\<lparr>receipt := receipt r\<rparr>) r"
    "outbox r = outbox (at_slot i p) @ os"
    "congestion r = Some (c\<lparr>m_nextPacket := after_message (m_nextPacket c) ?full\<rparr>)"
    "m_masterSocket p1 = m_masterSocket p" "m_crypto_enabled p1 = m_crypto_enabled p"
    using Send_ok [OF a ok(1) big c ch, of env opts prio] by blast
  obtain out where out: "os = [out]" "queued (e_now env) i (rp_addr (at_slot i p)) opts 0 0 (m_nextPacket c) ?full 0 out"
    using s(2) one by (auto simp: list_all2_Cons1)
  have i: "i < length (m_remotes p1)" "at_slot i p1 = r" using a s(3) by (simp_all add: accepts_def at_slot_def)
  let ?c = "c\<lparr>m_nextPacket := after_message (m_nextPacket c) ?full\<rparr>"
  note bo = queued_blob [OF out(2) _ enc_Packet_nonempty, unfolded one, simplified]
  have sok: "\<forall>x \<in> set [out]. sendable (e_now env) x \<and> blob_ok x \<and> HasFlag RELIABLE x"
    using out(2) bo rel one by (simp add: sendable_def queued_def HasFlag_def)
  have conn: "IsConnected r" "\<not> IsOutOfBand r" using s(4) q
    by (auto simp: same_connection_def IsConnected_def IsOutOfBand_def quiet_def split: option.splits)
  have bud: "blob_lengths [out] \<le> GetTransmissionBudget ?c"
    using q c bo(3) by (simp add: quiet_def GetTransmissionBudget_def GetRetransmissionBudget_def size_sub_eq MTU_def)
  have q': "\<not> GetNeedsToSendAcks (e_now env) ?c" "e_now env < Timestamp_plus (e_now env) (GetRetransmissionRTO 0 ?c)"
    "\<not> m_sending (m_masterSocket p1)" "\<not> m_crypto_enabled p1" "outbox r = [out]"
    using q c s(5,7,8) out(1)
    by (simp_all add: quiet_def GetNeedsToSendAcks_def RTO_nextPacket)
  obtain r' where "DoWriteCycle env i p1 = Inr ((upd_slot i (\<lambda>_. r') p1)\<lparr>m_masterSocket :=
        BeginWrite (op_addr out) (packet_datagram (m_nextDatagram c) out) (i, m_nextDatagram c) (m_masterSocket p1)\<rparr>)"
    using DoWriteCycle_all [OF i(1) q'(3,4), of "[out]" env ?c _ "packet_datagram (m_nextDatagram c) out"]
      i(2) q' sok s(6) conn bud by (auto simp: packet_datagram_def)
  moreover have "op_addr out = rp_addr (at_slot i p)" using out(2) by (simp add: queued_def)
  ultimately show ?thesis using s(1) out(2)
    by (intro exI conjI) (assumption+, simp add: BeginWrite_def)
qed

text \<open>The same packet again, in the same datagram or in another one, is not delivered again.\<close>

lemma repeated_packet:
  assumes ok: "datagram_ok (data_header True did n) [(h, bs)]" "length bs < n"
    and l: "link i addr p" and c: "congestion (at_slot i p) = Some c" "m_packetHistory c (ph_id h) \<noteq> None"
  shows "\<exists>p' c'. socket_read env False addr (enc_datagram (data_header True did n) [(h, bs)]) p = Inr p' \<and>
    link i addr p' \<and> m_inbox p' = m_inbox p \<and> congestion (at_slot i p') = Some c' \<and>
    m_packetHistory c' (ph_id h) \<noteq> None"
proof -
  let ?data = "enc_datagram (data_header True did n) [(h, bs)]"
  let ?q = "count_datagram i (length ?data) (p\<lparr>m_masterSocket := fill_readbuf ?data (m_masterSocket p)\<rparr>)"
  have i: "i < length (m_remotes p)" using l by (simp add: link_def)
  obtain st where st: "at_slot i ?q = at_slot i p\<lparr>rp_stats := st\<rparr>"
    using at_count_datagram [of i "p\<lparr>m_masterSocket := fill_readbuf ?data (m_masterSocket p)\<rparr>" "length ?data"] i by auto
  then have cq: "congestion (at_slot i ?q) = Some c" using c(1) by simp
  have iq: "i < length (m_remotes ?q)" using i by simp
  have sq: "same_link i p ?q" using i c(1)
    by (simp add: count_datagram_def upd_stats_def) (auto simp: same_link_def upd_slot_def at_slot_def)
  have "\<exists>c'. receive_datagram env i (data_header True did n) [(h, bs)] ?q =
      Inr (upd_slot i (\<lambda>r. r\<lparr>congestion := Some c'\<rparr>) ?q) \<and> m_packetHistory c' (ph_id h) \<noteq> None"
  proof (cases "m_datagramHistory c did = None")
    case True
    let ?c = "noted_datagram (e_now env) did c"
    let ?q1 = "upd_slot i (\<lambda>r. r\<lparr>congestion := Some ?c\<rparr>) ?q"
    have hist: "m_packetHistory ?c (ph_id h) \<noteq> None" using c(2) by (simp add: noted_histories)
    have "NotifyReceivedPacket (e_now env) (ph_id h) ?c = (DUPLICATE, ?c)"
      using hist by (simp add: NotifyReceivedPacket_def)
    then have "receive_packet env i n (read_over PacketHeader_default h) bs ?q1 = Inr ?q1"
      using iq ok(2) by (simp add: receive_packet_def)
    then have "receive_datagram env i (data_header True did n) [(h, bs)] ?q = Inr ?q1"
      using receive_data [OF cq True, of env n "[(h, bs)]"] by simp
    then show ?thesis using hist by blast
  next
    case False
    then show ?thesis using cq c(2) by (auto simp: receive_datagram_def NotifyReceivedDatagram_def)
  qed
  then obtain c' where c': "receive_datagram env i (data_header True did n) [(h, bs)] ?q =
      Inr (upd_slot i (\<lambda>r. r\<lparr>congestion := Some c'\<rparr>) ?q)" "m_packetHistory c' (ph_id h) \<noteq> None" by blast
  let ?p2 = "upd_slot i (\<lambda>r. r\<lparr>congestion := Some c'\<rparr>) ?q"
  let ?p3 = "?p2\<lparr>m_masterSocket := after_read False (m_masterSocket ?p2)\<rparr>"
  have "socket_read env False addr ?data p = Inr ?p3"
    using link_read [OF l ok(1), of env] c'(1) by simp
  moreover have "same_link i ?q ?p3" using iq by (auto simp: same_link_def upd_slot_def at_slot_def)
  then have "link i addr ?p3" using link_same [OF link_same [OF l sq]] by blast
  ultimately show ?thesis using c'(2) iq by (intro exI [of _ ?p3] exI [of _ c']) simp
qed

section \<open>Properties\<close>

text \<open>
  C3.  A user message of any length up to the limit that is sent over the default channel of an unencrypted connection is queued in segments
  whose datagrams, one segment each and arriving in order at an established connection, put exactly that message into the
  inbox of the receiver: sender, command and payload, and nothing else.
\<close>

theorem message_delivered:
  assumes "accepts who i p" "congestion (at_slot i p) = Some c" "channel_id channel = 0"
    and "packet_ok packet" "pkt_length packet + 1 < PACKET_MAX_LENGTH" "USER_PACKET \<le> m_command packet"
    and "link j addr q" "congestion (at_slot j q) = Some d"
    and "length dids = segments (length (enc_Packet packet))"
    and "unseen dids (segment_id (m_nextPacket c) (enc_Packet packet) ` {..<segments (length (enc_Packet packet))}) d"
    and "ra_backlog (assembly (at_slot j q)) (m_nextPacket c) = None"
  shows "\<exists>p' os q'. Send env packet who opts prio channel p = Inr (m_nextPacket c, p') \<and>
    outbox (at_slot i p') = outbox (at_slot i p) @ os \<and>
    receive_all env' addr (zip dids os) q = Inr q' \<and>
    m_inbox q' = m_inbox q @ [packet_of (rp_id (at_slot j q)) (m_command packet) (payload packet)]"
proof -
  let ?full = "enc_Packet packet"
  have len: "length ?full = pkt_length packet + 1" using length_enc_Packet [OF assms(4)] by (simp add: GetDatagramLength_def)
  have small: "pkt_length packet < PACKET_MAX_LENGTH" using assms(5) by simp
  obtain os p' r where s: "Send env packet who opts prio channel p = Inr (m_nextPacket c, p')"
    "list_all2 (queued (e_now env) i (rp_addr (at_slot i p)) opts 0 0 (m_nextPacket c) ?full) [0..<segments (length ?full)] os"
    "m_remotes p' = (m_remotes p)[i := r]" "outbox r = outbox (at_slot i p) @ os"
    using Send_ok [OF assms(1,4) small assms(2,3), of env opts prio] by blast
  have "outbox (at_slot i p') = outbox (at_slot i p) @ os" using s(3,4) assms(1) by (simp add: accepts_def at_slot_def)
  moreover have "\<exists>q'. receive_all env' addr (zip dids os) q = Inr q' \<and> same_link j q q' \<and>
      m_inbox q' = m_inbox q @ [packet_of (rp_id (at_slot j q)) (hd ?full) (tl ?full)]"
    using assms(5,6) len by (intro message_arrives [OF _ _ _ s(2) assms(9,7,8,10,11)]) (auto simp: enc_Packet_def)
  ultimately show ?thesis using s(1) by (auto simp: enc_Packet_def)
qed

text \<open>
  A reliable message that fits into one packet, end to end: it is sent, the next write cycle
  hands one datagram for the address of the peer to the socket, the receiver reads that datagram and
  can take the message out of its inbox.
\<close>

lemma message_exchange:
  assumes "accepts who i p" "quiet (e_now env) i p" "congestion (at_slot i p) = Some c" "channel_id channel = 0"
    and "packet_ok packet" "pkt_length packet < CHUNK_SIZE" "USER_PACKET \<le> m_command packet"
    and "(opts AND RELIABLE) = RELIABLE"
    and "link j addr q" "congestion (at_slot j q) = Some d" "m_inbox q = []"
    and "unseen [m_nextDatagram c] {m_nextPacket c} d"
  shows "\<exists>p1 p2 data q1 q2. Send env packet who opts prio channel p = Inr (m_nextPacket c, p1) \<and>
    DoWriteCycle env i p1 = Inr p2 \<and>
    su_write (m_masterSocket p2) = Some (rp_addr (at_slot i p), data, (i, m_nextDatagram c)) \<and>
    socket_read env' False addr data q = Inr q1 \<and>
    Receive q1 = (Some (packet_of (rp_id (at_slot j q)) (m_command packet) (payload packet)), q2)"
proof -
  let ?full = "enc_Packet packet"
  have len: "length ?full = pkt_length packet + 1" using length_enc_Packet [OF assms(5)] by (simp add: GetDatagramLength_def)
  obtain p1 p2 out where w: "Send env packet who opts prio channel p = Inr (m_nextPacket c, p1)" "DoWriteCycle env i p1 = Inr p2"
    "queued (e_now env) i (rp_addr (at_slot i p)) opts 0 0 (m_nextPacket c) ?full 0 out"
    "su_write (m_masterSocket p2) = Some (rp_addr (at_slot i p), packet_datagram (m_nextDatagram c) out, (i, m_nextDatagram c))"
    using write_message [OF assms(1,2,3,5,6,4,8), of prio] by blast
  have user: "\<not> hd ?full < USER_PACKET" using assms(7) by (simp add: enc_Packet_def not_less)
  obtain q1 where "socket_read env' False addr (packet_datagram (m_nextDatagram c) out) q = Inr q1"
    "m_inbox q1 = [packet_of (rp_id (at_slot j q)) (hd ?full) (tl ?full)]"
    using packet_arrives [OF _ _ user w(3) assms(9,10,12), of env'] assms(6,11) len by (auto simp: enc_Packet_def)
  then show ?thesis using w(1,2,4) by (auto simp: Receive_def DequeueIncoming_def enc_Packet_def)
qed


text \<open>
  However often a packet is retransmitted, and in whichever datagrams, the receiver delivers it
  exactly once as long as it remembers it.
\<close>

lemma delivered_once:
  assumes "length full \<le> CHUNK_SIZE" "full \<noteq> []" "USER_PACKET \<le> hd full"
    and "queued now i addr' opts 0 0 container full 0 out"
    and "link j addr q" "congestion (at_slot j q) = Some c" "unseen [did] {container} c"
  shows "\<exists>q'. receive_all env addr (map (\<lambda>d. (d, out)) (did # dids)) q = Inr q' \<and>
    m_inbox q' = m_inbox q @ [packet_of (rp_id (at_slot j q)) (hd full) (tl full)]"
proof -
  let ?ps = "[(segment_header opts 0 0 container (segment_id container full 0) full 0, segment full 0)]"
  have user: "\<not> hd full < USER_PACKET" using assms(3) by (simp add: not_less)
  define c1 where "c1 = noted_packet (e_now env) container (noted_datagram (e_now env) did c)"
  obtain q1 where q1: "socket_read env False addr (packet_datagram did out) q = Inr q1" "same_link j q q1"
    "m_inbox q1 = m_inbox q @ [packet_of (rp_id (at_slot j q)) (hd full) (tl full)]"
    "congestion (at_slot j q1) = Some c1" "m_packetHistory c1 container \<noteq> None"
    using packet_arrives [OF assms(1,2) user assms(4-7)] by (auto simp: c1_def noted_packet_def)
  have one: "segments (length full) = 1" using assms(1,2) by (cases full) (auto simp: segments_def CHUNK_SIZE_eq)
  have fl: "length full \<le> PACKET_MAX_LENGTH" using assms(1) by (simp add: PACKET_MAX_LENGTH_def CHUNK_SIZE_eq)
  have hid: "ph_id (segment_header opts 0 0 container (segment_id container full 0) full 0) = container"
    using one by (simp add: segment_header_def segment_id_def)
  have "0 < segments (length full)" using one by simp
  note qd = queued_datagram [OF assms(4) fl this assms(2) refl]
  have "\<exists>q'. receive_all env addr (map (\<lambda>d. (d, out)) dids) r = Inr q' \<and> m_inbox q' = m_inbox r"
    if "link j addr r" "congestion (at_slot j r) = Some d" "m_packetHistory d container \<noteq> None" for r d
    using that
  proof (induction dids arbitrary: r d)
    case (Cons x dids)
    obtain r' d' where "socket_read env False addr (packet_datagram x out) r = Inr r'" "link j addr r'"
      "m_inbox r' = m_inbox r" "congestion (at_slot j r') = Some d'" "m_packetHistory d' container \<noteq> None"
      using repeated_packet [OF qd(2) [of x] qd(3) Cons.prems(1,2), of env] Cons.prems(3) hid qd(1) [of x] by auto
    then show ?case using Cons.IH by (fastforce simp: receive_all_def)
  qed (simp add: receive_all_def)
  then show ?thesis using q1 link_same [OF assms(5) q1(2)] by (fastforce simp: receive_all_def)
qed

text \<open>
  C35.  A packet of the library itself, such as the call of a remote procedure, that is too long for
  one segment is not handled: reassembled, it ends up in the inbox of the application and no callback
  is called.
\<close>

theorem split_system_packet_misdelivered:
  assumes "accepts who i p" "congestion (at_slot i p) = Some c" "channel_id channel = 0"
    and "packet_ok packet" "CHUNK_SIZE \<le> pkt_length packet" "pkt_length packet + 1 < PACKET_MAX_LENGTH"
    and "m_command packet < USER_PACKET"
    and "link j addr q" "congestion (at_slot j q) = Some d"
    and "length dids = segments (length (enc_Packet packet))"
    and "unseen dids (segment_id (m_nextPacket c) (enc_Packet packet) ` {..<segments (length (enc_Packet packet))}) d"
    and "ra_backlog (assembly (at_slot j q)) (m_nextPacket c) = None"
  shows "\<exists>p' os q'. Send env packet who opts prio channel p = Inr (m_nextPacket c, p') \<and>
    outbox (at_slot i p') = outbox (at_slot i p) @ os \<and>
    receive_all env' addr (zip dids os) q = Inr q' \<and> p_calls q' = p_calls q \<and>
    m_inbox q' = m_inbox q @ [packet_of (rp_id (at_slot j q)) (m_command packet) (payload packet)]"
proof -
  let ?full = "enc_Packet packet"
  have len: "length ?full = pkt_length packet + 1" using length_enc_Packet [OF assms(4)] by (simp add: GetDatagramLength_def)
  have small: "pkt_length packet < PACKET_MAX_LENGTH" using assms(6) by simp
  obtain os p' r where s: "Send env packet who opts prio channel p = Inr (m_nextPacket c, p')"
    "list_all2 (queued (e_now env) i (rp_addr (at_slot i p)) opts 0 0 (m_nextPacket c) ?full) [0..<segments (length ?full)] os"
    "m_remotes p' = (m_remotes p)[i := r]" "outbox r = outbox (at_slot i p) @ os"
    using Send_ok [OF assms(1,4) small assms(2,3), of env opts prio] by blast
  have "outbox (at_slot i p') = outbox (at_slot i p) @ os" using s(3,4) assms(1) by (simp add: accepts_def at_slot_def)
  moreover have "\<exists>q'. receive_all env' addr (zip dids os) q = Inr q' \<and> same_link j q q' \<and>
      m_inbox q' = m_inbox q @ [packet_of (rp_id (at_slot j q)) (hd ?full) (tl ?full)] \<and>
      ra_backlog (assembly (at_slot j q')) (m_nextPacket c) = None"
  proof (rule segments_arrive [OF _ _ s(2) _ segments_pos assms(8,9)])
    show "assembled ?full {..<0} (partial (m_nextPacket c) (assembly (at_slot j q)))"
      using assembled_empty assms(12) by (simp add: partial_def)
    have "{0..<segments (length ?full)} = {..<segments (length ?full)}" by auto
    then show "unseen dids (segment_id (m_nextPacket c) ?full ` {0..<segments (length ?full)}) d" using assms(11) by simp
  qed (use assms(5,6,10) len list_all2_lengthD [OF s(2)] in simp_all)
  ultimately show ?thesis using s(1) by (auto simp: enc_Packet_def same_link_def)
qed

text \<open>
  C37.  The longest message that the sender accepts brings the receiver down: the last of its segments
  ends at the limit, where the receiver asserts that it ends before it.
\<close>

theorem longest_message_crashes:
  assumes "accepts who i p" "congestion (at_slot i p) = Some c" "channel_id channel = 0"
    and "packet_ok packet" "pkt_length packet + 1 = PACKET_MAX_LENGTH"
    and "link j addr q" "congestion (at_slot j q) = Some d" "m_datagramHistory d did = None"
    and "m_packetHistory d (segment_id (m_nextPacket c) (enc_Packet packet) (segments PACKET_MAX_LENGTH - 1)) = None"
  shows "\<exists>p' os. Send env packet who opts prio channel p = Inr (m_nextPacket c, p') \<and>
    outbox (at_slot i p') = outbox (at_slot i p) @ os \<and> os \<noteq> [] \<and>
    socket_read env' False addr (packet_datagram did (last os)) q = Inl AssertFailure"
proof -
  let ?full = "enc_Packet packet" and ?k = "segments PACKET_MAX_LENGTH - 1"
  have len: "length ?full = PACKET_MAX_LENGTH" "?full \<noteq> []"
    using length_enc_Packet [OF assms(4)] assms(5) by (auto simp: GetDatagramLength_def enc_Packet_def)
  have small: "pkt_length packet < PACKET_MAX_LENGTH" using assms(5) by simp
  have k: "?k < segments (length ?full)" "0 < ?k" by (simp_all add: len(1) segments_def PACKET_MAX_LENGTH_def CHUNK_SIZE_eq)
  obtain os p' r where s: "Send env packet who opts prio channel p = Inr (m_nextPacket c, p')"
    "list_all2 (queued (e_now env) i (rp_addr (at_slot i p)) opts 0 0 (m_nextPacket c) ?full) [0..<segments (length ?full)] os"
    "m_remotes p' = (m_remotes p)[i := r]" "outbox r = outbox (at_slot i p) @ os"
    using Send_ok [OF assms(1,4) small assms(2,3), of env opts prio] by blast
  have lo: "length os = segments (length ?full)" using list_all2_lengthD [OF s(2)] by simp
  then have ne: "os \<noteq> []" using k(1) by auto
  have out: "queued (e_now env) i (rp_addr (at_slot i p)) opts 0 0 (m_nextPacket c) ?full ?k (last os)"
    using list_all2_nthD [OF s(2), of ?k] k lo len(1) by (simp add: last_conv_nth [OF ne])
  let ?h = "segment_header opts 0 0 (m_nextPacket c) (segment_id (m_nextPacket c) ?full ?k) ?full ?k"
  let ?len = "m_length (op_blob (last os))"
  note qd = queued_datagram [OF out _ k(1) len(2) refl]
  have dg: "packet_datagram did (last os) = enc_datagram (data_header True did ?len) [(?h, segment ?full ?k)]"
    "datagram_ok (data_header True did ?len) [(?h, segment ?full ?k)]" "length (segment ?full ?k) < ?len"
    using qd len(1) by simp_all
  note rd = link_read_packet [OF assms(6,7,8) dg(2) refl, of env']
  have "unat (ph_offset ?h + ph_length ?h) = PACKET_MAX_LENGTH"
    using len(1) by (simp add: segment_header_def segments_def PACKET_MAX_LENGTH_def CHUNK_SIZE_eq segment_def)
  then have "insert_bytes (read_over PacketHeader_default ?h) (segment ?full ?k) asm = Inl AssertFailure" for asm
    by (simp add: insert_bytes_def)
  moreover have "ph_offset ?h > 0"
    using len(1) by (simp add: segment_header_def segments_def PACKET_MAX_LENGTH_def CHUNK_SIZE_eq)
  moreover have "ph_id ?h = segment_id (m_nextPacket c) ?full ?k" by (simp add: segment_header_def)
  ultimately have "receive_packet env' j ?len (read_over PacketHeader_default ?h) (segment ?full ?k) q1 = Inl AssertFailure"
    if "congestion (at_slot j q1) = Some (noted_datagram (e_now env') did d)" for q1
    using that dg(3) assms(9) by (simp add: receive_packet_def NotifyReceivedPacket_def noted_histories)
  then have "socket_read env' False addr (packet_datagram did (last os)) q = Inl AssertFailure"
    using rd(1,4) dg(1) by simp
  moreover have "outbox (at_slot i p') = outbox (at_slot i p) @ os" using s(3,4) assms(1) by (simp add: accepts_def at_slot_def)
  ultimately show ?thesis using s(1) ne by blast
qed

text \<open>Two peers that are connected to each other.\<close>

definition example_address :: "nat \<Rightarrow> RemoteAddress" where
  "example_address k = \<lparr>endpoint_udp = ([127, 0, 0, of_nat k], 1337)\<rparr>"

definition example_peer :: "PeerID \<Rightarrow> PeerID \<Rightarrow> RemoteAddress \<Rightarrow> Peer" where
  "example_peer me other addr =
     \<lparr>m_id = me, m_remotesMax = 2, m_remotesIncoming = 1, m_advertisement = BinaryStream_new 0,
      m_rpc = RpcController_new, m_masterSocket = SocketUDP_new\<lparr>su_state := OPEN, su_is_open := True\<rparr>,
      m_remotes = [RemotePeer_new, RemotePeer_new\<lparr>rp_addr := addr, rp_socket := True,
        handshake := Some ((Handshaker_new False 0 SELF)\<lparr>hs_result := CR_OK\<rparr>),
        congestion := Some (CongestionControlWindow_new 0), receipt := Some ReceiptTracker_new,
        rp_id := other, reserved := True, active := True\<rparr>],
      m_inbox = [], m_remoteLookup = Map.empty, m_channels = [UNORDERED], m_crypto_identity = None,
      m_crypto_enabled = False, p_layers = [], p_calls = [], m_updateThreadAbort = False, m_updateThread = True\<rparr>"

definition example_env :: "Timestamp \<Rightarrow> Env" where
  "example_env now = \<lparr>e_now = now, e_sodium = example_sodium, e_net = example_network, e_encryption = False,
     e_rnd_identity = [], e_rnd_kx = [], e_rnd_challenge = [], e_rnd_seal = [], e_rnd_nonce = []\<rparr>"

lemma example_accepts: "other \<noteq> 0 \<Longrightarrow> accepts other 1 (example_peer me other addr)"
  by (simp add: accepts_def example_peer_def GetRemoteByID_def find_remote_def at_slot_def IsDisconnecting_def
      Timestamp_IsValid_def RemotePeer_new_def upt_rec)

lemma example_linked: "link 1 addr (example_peer me other addr)"
  by (simp add: link_def example_peer_def GetRemoteByAddress_def secured_def at_slot_def RemotePeer_new_def upt_rec)

lemma example_congestion:
  "congestion (at_slot 1 (example_peer me other addr)) = Some (CongestionControlWindow_new 0)"
  by (simp add: example_peer_def at_slot_def)

lemma example_fields:
  "rp_id (at_slot 1 (example_peer me other addr)) = other" "m_inbox (example_peer me other addr) = []"
  "outbox (at_slot 1 (example_peer me other addr)) = []" "rp_addr (at_slot 1 (example_peer me other addr)) = addr"
  "ra_backlog (assembly (at_slot 1 (example_peer me other addr))) k = None"
  "e_now (example_env now) = now" "channel_id Channel_default = 0"
  "m_nextPacket (CongestionControlWindow_new now) = 0" "m_nextDatagram (CongestionControlWindow_new now) = 0"
  by (simp_all add: example_peer_def at_slot_def RemotePeer_new_def example_env_def Channel_default_def
      ReassemblyBuffer_new_def CongestionControlWindow_new_def CongestionControl_new_def CongestionControl.extend_def)

lemma example_quiet: "other \<noteq> 0 \<Longrightarrow> quiet 1 1 (example_peer me other addr)"
  by (simp add: quiet_def example_peer_def at_slot_def IsConnected_def RemotePeer_new_def SocketUDP_new_def
      CongestionControlWindow_new_def CongestionControl_new_def CongestionControl.extend_def CongestionControlWindow.fields_def GetNeedsToSendAcks_def
      GetRetransmissionRTO_def GetRTTHistoryAvailable_def Timestamp_plus_def FromMilliseconds_eq
      THREAD_SLEEP_PACKETQUEUE_TICK_def)

lemma example_unseen: "distinct dids \<Longrightarrow> unseen dids pids (CongestionControlWindow_new 0)"
  by (simp add: unseen_def CongestionControlWindow_new_def CongestionControl_new_def CongestionControl.extend_def)

theorem message_delivered_witness:
  "\<exists>p' os q'. Send (example_env 1) (packet_of 0 20 (replicate 2000 7)) 12 RELIABLE MEDIUM Channel_default
      (example_peer 11 12 (example_address 2)) = Inr (0, p') \<and>
    outbox (at_slot 1 p') = os \<and>
    receive_all (example_env 2) (example_address 1) (zip [0, 1] os) (example_peer 12 11 (example_address 1)) = Inr q' \<and>
    m_inbox q' = [packet_of 11 20 (replicate 2000 7)]"
proof -
  have seg: "segments (length (enc_Packet (packet_of 0 20 (replicate 2000 7)))) = 2"
    by (simp add: segments_def CHUNK_SIZE_eq enc_Packet_def)
  show ?thesis
  using message_delivered [of 12 1 "example_peer 11 12 (example_address 2)" _ Channel_default
      "packet_of 0 20 (replicate 2000 7)" 1 "example_address 1" "example_peer 12 11 (example_address 1)" _ "[0, 1]"
      "example_env 1" RELIABLE MEDIUM "example_env 2"]
    example_accepts example_linked example_congestion example_unseen [of "[0, 1]"]
  by (simp add: example_fields seg PACKET_MAX_LENGTH_def USER_PACKET_def del: One_nat_def)
qed

lemma message_exchange_witness:
  "\<exists>p1 p2 data q1 q2. Send (example_env 1) (packet_of 0 20 [1, 2, 3]) 12 RELIABLE MEDIUM Channel_default
      (example_peer 11 12 (example_address 2)) = Inr (0, p1) \<and>
    DoWriteCycle (example_env 1) 1 p1 = Inr p2 \<and>
    su_write (m_masterSocket p2) = Some (example_address 2, data, (1, 0)) \<and>
    socket_read (example_env 2) False (example_address 1) data (example_peer 12 11 (example_address 1)) = Inr q1 \<and>
    Receive q1 = (Some (packet_of 11 20 [1, 2, 3]), q2)"
  using message_exchange [of 12 1 "example_peer 11 12 (example_address 2)" "example_env 1" _ Channel_default
      "packet_of 0 20 [1, 2, 3]" RELIABLE 1 "example_address 1" "example_peer 12 11 (example_address 1)" _
      MEDIUM "example_env 2"]
    example_accepts example_linked example_congestion example_quiet example_unseen [of "[0]"]
  by (simp add: example_fields CHUNK_SIZE_eq USER_PACKET_def del: One_nat_def)


lemma delivered_once_witness:
  "\<exists>out q'. queued 1 1 (example_address 2) RELIABLE 0 0 0 [20, 1, 2, 3] 0 out \<and>
    receive_all (example_env 2) (example_address 1) (map (\<lambda>d. (d, out)) [0, 0, 7])
      (example_peer 12 11 (example_address 1)) = Inr q' \<and>
    m_inbox q' = [packet_of 11 20 [1, 2, 3]]"
proof -
  obtain os where "list_all2 (queued 1 1 (example_address 2) RELIABLE 0 0 0 [20, 1, 2, 3]) [0..<1] os"
    using Send_ok [OF example_accepts _ _ example_congestion, of 12 "packet_of 0 20 [1, 2, 3]" Channel_default
      "example_env 1" RELIABLE MEDIUM 11 "example_address 2"]
    by (auto simp: example_fields PACKET_MAX_LENGTH_def enc_Packet_def segments_def CHUNK_SIZE_eq simp del: One_nat_def)
  then obtain out where "queued 1 1 (example_address 2) RELIABLE 0 0 0 [20, 1, 2, 3] 0 out"
    by (auto simp: list_all2_Cons1)
  with delivered_once [OF _ _ _ this example_linked [of "example_address 1" 12 11] example_congestion example_unseen,
      where did = 0 and env = "example_env 2" and dids = "[0, 7]"]
  show ?thesis by (auto simp: example_fields CHUNK_SIZE_eq USER_PACKET_def simp del: One_nat_def)
qed

theorem split_system_packet_misdelivered_witness:
  "\<exists>p' os q'. Send (example_env 1) (packet_of 0 RPC_SIGNAL (replicate 2000 7)) 12 RELIABLE MEDIUM Channel_default
      (example_peer 11 12 (example_address 2)) = Inr (0, p') \<and>
    outbox (at_slot 1 p') = os \<and>
    receive_all (example_env 2) (example_address 1) (zip [0, 1] os) (example_peer 12 11 (example_address 1)) = Inr q' \<and>
    p_calls q' = [] \<and> m_inbox q' = [packet_of 11 RPC_SIGNAL (replicate 2000 7)]"
proof -
  have seg: "segments (length (enc_Packet (packet_of 0 cmd (replicate 2000 7)))) = 2" for cmd
    by (simp add: segments_def CHUNK_SIZE_eq enc_Packet_def)
  have "p_calls (example_peer 12 11 (example_address 1)) = []" by (simp add: example_peer_def)
  then show ?thesis
    using split_system_packet_misdelivered [of 12 1 "example_peer 11 12 (example_address 2)" _ Channel_default
      "packet_of 0 RPC_SIGNAL (replicate 2000 7)" 1 "example_address 1" "example_peer 12 11 (example_address 1)" _ "[0, 1]"
      "example_env 1" RELIABLE MEDIUM "example_env 2"]
    example_accepts example_linked example_congestion example_unseen [of "[0, 1]"]
    by (simp add: example_fields seg PACKET_MAX_LENGTH_def CHUNK_SIZE_eq USER_PACKET_def RPC_SIGNAL_def del: One_nat_def)
qed

theorem longest_message_crashes_witness:
  "\<exists>p' os. Send (example_env 1) (packet_of 0 20 (replicate 16777215 7)) 12 RELIABLE MEDIUM Channel_default
      (example_peer 11 12 (example_address 2)) = Inr (0, p') \<and>
    outbox (at_slot 1 p') = os \<and> os \<noteq> [] \<and>
    socket_read (example_env 2) False (example_address 1) (packet_datagram 0 (last os))
      (example_peer 12 11 (example_address 1)) = Inl AssertFailure"
  using longest_message_crashes [of 12 1 "example_peer 11 12 (example_address 2)" _ Channel_default
      "packet_of 0 20 (replicate 16777215 7)" 1 "example_address 1" "example_peer 12 11 (example_address 1)" _ 0
      "example_env 1" RELIABLE MEDIUM "example_env 2"]
    example_accepts example_linked example_congestion example_unseen [of "[0]" UNIV]
  by (simp add: example_fields PACKET_MAX_LENGTH_def unseen_def del: One_nat_def)

end
