(* ===== verification/Connecting.thy ===== *)
theory Connecting
  imports Delivery
begin

text \<open>
  The handshake of \<^verbatim>\<open>source/HandshakerThreeWay.cpp\<close> from end to end: from the call of
  \<^verbatim>\<open>Connect\<close> to two slots that carry messages.
\<close>

section \<open>Streams that can be copied\<close>

text \<open>
  Copy assignment insists on a capacity that is a power of two, which every stream that was built by
  writing has.
\<close>

definition copyable :: "BinaryStream \<Rightarrow> bool" where
  "copyable s \<longleftrightarrow> (\<exists>k. m_capacity s = 2 ^ k \<and> k \<le> 32)"

definition reusable :: "BinaryStream \<Rightarrow> bool" where
  "reusable s \<longleftrightarrow> \<not> m_readonly s \<and>
     (case m_buffer s of None \<Rightarrow> True | Some m \<Rightarrow> m_length s \<le> length m \<and> m_buffer_ro s \<noteq> RoNull)"

lemma next_capacity_le:
  assumes "0 < n" "n \<le> 2 ^ 31" shows "\<exists>k. next_capacity n = 2 ^ k \<and> k \<le> 32"
proof -
  obtain k where k: "next_capacity n = 2 ^ k" "2 ^ k < 2 * n" using next_capacity_power_of_two [of n] assms by auto
  then have "(2 :: nat) ^ k < 2 ^ 32" using assms(2) by simp
  then have "k < 32" by (simp only: power_strict_increasing_iff one_less_numeral_iff semiring_norm)
  then show ?thesis using k(1) by auto
qed

lemma next_capacity_power:
  assumes "k \<le> 32" shows "next_capacity (2 ^ k) = 2 ^ k"
proof -
  have "(2 :: nat) ^ k \<le> 2 ^ 32" using assms by (rule power_increasing) simp
  then obtain j where j: "next_capacity (2 ^ k) = 2 ^ j" "(2 :: nat) ^ k \<le> 2 ^ j" "(2 :: nat) ^ j < 2 * 2 ^ k"
    using next_capacity_power_of_two [of "2 ^ k"] by auto
  then have "(2 :: nat) ^ j < 2 ^ Suc k" by simp
  then have "k \<le> j" "j < Suc k" using j(2) by (simp_all only: power_increasing_iff power_strict_increasing_iff one_less_numeral_iff semiring_norm)
  then show ?thesis using j(1) by simp
qed

lemma copyable_new: "0 < n \<Longrightarrow> n \<le> 2 ^ 31 \<Longrightarrow> copyable (BinaryStream_new n)"
  using next_capacity_le [of n] by (auto simp: copyable_def BinaryStream_new_def Let_def)

lemma copyable_Reallocate:
  assumes "Reallocate n s = Inr s'" "0 < n" "n \<le> 2 ^ 31" "\<not> m_readonly s"
  shows "copyable s'"
proof -
  obtain k where "next_capacity n = 2 ^ k" "k \<le> 32" using next_capacity_le assms(2,3) by blast
  moreover have "max (2 ^ k) (Suc 0) = (2 :: nat) ^ k" by (simp add: max_absorb1)
  ultimately show ?thesis using assms(1,4) by (auto simp: Reallocate_def copyable_def Let_def split: option.splits)
qed

lemma copyable_Ensure:
  assumes "Ensure n s = Inr s'" "copyable s" "0 < n" "m_position s + n \<le> 2 ^ 31"
  shows "copyable s'"
  using assms copyable_Reallocate [of "m_position s + n" s s'] by (auto simp: Ensure_def split: if_splits)

lemma copyable_frame [simp]:
  "copyable (s\<lparr>m_position := a\<rparr>) = copyable s" "copyable (s\<lparr>m_length := a\<rparr>) = copyable s"
  "copyable (s\<lparr>m_subBytePosition := a\<rparr>) = copyable s" "copyable (s\<lparr>m_buffer := b\<rparr>) = copyable s"
  by (simp_all add: copyable_def)

lemma copyable_Align [simp]: "copyable (Align s) = copyable s"
  by (simp add: Align_def Let_def)

text \<open>The same for the result of a writer.\<close>

definition cop_res :: "BinaryStream result \<Rightarrow> bool" where
  "cop_res m \<longleftrightarrow> (\<forall>s. m = Inr s \<longrightarrow> copyable s)"

lemma cop_bind: "cop_res m \<Longrightarrow> (\<And>s. copyable s \<Longrightarrow> cop_res (f s)) \<Longrightarrow> cop_res (rbind m f)"
  by (cases m) (auto simp: cop_res_def)

lemma cop_bind_other: "(\<And>v. cop_res (f v)) \<Longrightarrow> cop_res (rbind m f)"
  by (cases m) (auto simp: cop_res_def)

lemma cop_if: "cop_res a \<Longrightarrow> cop_res b \<Longrightarrow> cop_res (if c then a else b)"
  by simp

lemma cop_Inr: "copyable s \<Longrightarrow> cop_res (Inr s)"
  by (simp add: cop_res_def)

lemma cop_store: "copyable s \<Longrightarrow> cop_res (store_cells i cs s)"
  by (auto simp: cop_res_def store_cells_def split: option.splits if_splits)

lemma cop_Ensure: "copyable s \<Longrightarrow> m_position s + n \<le> 2 ^ 31 \<Longrightarrow> cop_res (Ensure n s)"
  using copyable_Ensure [of n s] by (cases "n = 0") (auto simp: cop_res_def Ensure_def rassert_def)

lemma copyable_WriteBytes:
  assumes "WriteBytes bs s = Inr s'" "copyable s" "m_position (Align s) + length bs \<le> 2 ^ 31"
  shows "copyable s'"
proof -
  have "cop_res (WriteBytes bs s)" unfolding WriteBytes_def Let_def using assms(2,3)
    by (intro cop_if cop_bind cop_Ensure cop_store cop_Inr) simp_all
  then show ?thesis using assms(1) by (simp add: cop_res_def)
qed

lemma copyable_WriteBool:
  assumes "WriteBool b s = Inr s'" "copyable s" "m_position s + 1 \<le> 2 ^ 31"
  shows "copyable s'"
proof -
  have "cop_res (WriteBool b s)" unfolding WriteBool_def Let_def using assms(2,3)
    by (intro cop_if cop_bind [OF cop_Ensure] cop_bind [OF cop_if] cop_bind_other cop_store cop_Inr) simp_all
  then show ?thesis using assms(1) by (simp add: cop_res_def)
qed

lemma memcpy_inside: "n \<le> length m \<Longrightarrow> memcpy_cells (Some m) n = Inr (take n m)"
  by (simp add: memcpy_cells_def)

lemma assign_copyable:
  assumes old: "reusable this" and other: "written other c bits" "copyable other"
  shows "\<exists>s. BinaryStream_assign this other = Inr s \<and> reusable s \<and> written s c bits"
proof -
  obtain k where k: "m_capacity other = 2 ^ k" "k \<le> 32" using other(2) by (auto simp: copyable_def)
  have cap: "max (next_capacity (2 ^ k)) (Suc 0) = 2 ^ k" using next_capacity_power [OF k(2)] by (simp add: max_absorb1)
  have ok: "stream_ok other" using other(1) by (simp add: written_def)
  have pos: "0 < m_capacity other" using k by simp
  then obtain m where m: "GetBuffer other = Some m" "length m = m_capacity other" "m = cells other"
    using ok by (cases "m_buffer other") (auto simp: stream_ok_def cells_def GetBuffer_def)
  have len: "m_length other \<le> m_capacity other" using ok by (simp add: stream_ok_def)
  obtain s where s: "Reallocate (2 ^ k) this = Inr s" "m_capacity s = 2 ^ k" "\<not> m_readonly s"
    "\<exists>b. m_buffer s = Some b \<and> length b = 2 ^ k"
    using old cap
    by (cases "m_buffer this") (auto simp: Reallocate_def Let_def reusable_def memcpy_inside min_le_iff_disj)
  obtain b where b: "m_buffer s = Some b" "length b = 2 ^ k" using s(4) by blast
  have mc: "memcpy_cells (GetBuffer other) (m_length other) = Inr (take (m_length other) m)"
    using m len by (simp add: memcpy_cells_def)
  have st: "\<exists>b'. store_cells 0 (take (m_length other) m) s = Inr (s\<lparr>m_buffer := Some b'\<rparr>) \<and> length b' = 2 ^ k \<and>
      take (m_length other) b' = take (m_length other) m"
  proof (cases "take (m_length other) m = []")
    case True
    then show ?thesis using b pos m(2) by (intro exI [of _ b]) (auto simp: store_cells_def)
  next
    case False
    then show ?thesis using b m len k
      by (intro exI [of _ "overwrite 0 (take (m_length other) m) b"]) (simp add: store_cells_def overwrite_def)
  qed
  then obtain b' where b': "store_cells 0 (take (m_length other) m) s = Inr (s\<lparr>m_buffer := Some b'\<rparr>)" "length b' = 2 ^ k"
    "take (m_length other) b' = take (m_length other) m" by blast
  let ?s = "s\<lparr>m_buffer := Some b', m_buffer_ro := RoOwn, m_length := m_length other, m_position := m_position other,
    m_subBytePosition := m_subBytePosition other, m_readonly := False\<rparr>"
  have "BinaryStream_assign this other = Inr ?s" using k s(1,2) len mc b'(1) ok
    by (simp add: BinaryStream_assign_def ro_of_def stream_ok_def)
  moreover have "reusable ?s" using len k(1) b'(2) by (simp add: reusable_def)
  moreover have "written ?s c bits" using other(1) ok m(3) b'(2,3) s(2) k(1)
    by (simp add: written_def stream_ok_def contents_def cells_def)
  ultimately show ?thesis by blast
qed

lemma Reset_reusable: "reusable s \<Longrightarrow> \<exists>s'. Reset s = Inr s' \<and> reusable s'"
  by (auto simp: Reset_def reusable_def split: option.splits)

lemma reusable_new: "reusable (BinaryStream_new n)"
  by (simp add: reusable_def BinaryStream_new_def Let_def ro_of_def)

section \<open>Handshake messages\<close>

text \<open>The part that all messages of the handshake begin with.\<close>

definition enc_hello :: "PeerID \<Rightarrow> u8 list" where
  "enc_hello who = WIREFOX_MAGIC @ [WIREFOX_PROTOCOL_VERSION] @ be64 who"

lemma length_enc_hello [simp]: "length (enc_hello who) = 16"
  by (simp add: enc_hello_def WIREFOX_MAGIC_def)

lemma WriteBytes_copyable:
  assumes "written s c bits" "copyable s" "length (flushed c bits) + length bs \<le> 2 ^ 31"
  shows "\<exists>s'. WriteBytes bs s = Inr s' \<and> written s' (flushed c bits @ bs) [] \<and> copyable s'"
proof -
  obtain s' where s': "WriteBytes bs s = Inr s'" "written s' (flushed c bits @ bs) []"
    using written_WriteBytes [OF assms(1), of bs] assms(3) by (auto simp: max_stream_def)
  moreover have "copyable s'" using copyable_WriteBytes [OF s'(1) assms(2)] assms(3) written_Align [OF assms(1)] by simp
  ultimately show ?thesis by blast
qed

lemma WriteByte_copyable:
  assumes "written s c bits" "copyable s" "length (flushed c bits) + 1 \<le> 2 ^ 31"
  shows "\<exists>s'. WriteByte b s = Inr s' \<and> written s' (flushed c bits @ [b]) [] \<and> copyable s'"
  using WriteBytes_copyable [OF assms(1,2), of "[b]"] assms(3) by (simp add: WriteByte_WriteBytes)

lemma WriteBool_copyable:
  assumes "written s c []" "copyable s" "length c + 1 \<le> 2 ^ 31"
  shows "\<exists>s'. WriteBool b s = Inr s' \<and> written s' c [b] \<and> copyable s'"
proof -
  obtain s' where s': "WriteBool b s = Inr s'" "written s' c [b]"
    using written_WriteBool [OF assms(1), of b] assms(3) by (auto simp: max_stream_def)
  moreover have "copyable s'" using copyable_WriteBool [OF s'(1) assms(2)] assms(1,3) by (simp add: written_def)
  ultimately show ?thesis by blast
qed

lemma WriteReplyHeader_ok:
  "\<exists>s. WriteReplyHeader who (BinaryStream_new HANDSHAKE_HEADER_LEN) = Inr s \<and> written s (enc_hello who) [] \<and> copyable s"
proof -
  have c0: "copyable (BinaryStream_new HANDSHAKE_HEADER_LEN)"
    by (rule copyable_new) (simp_all add: HANDSHAKE_HEADER_LEN_def WIREFOX_MAGIC_def)
  obtain s1 where s1: "WriteBytes WIREFOX_MAGIC (BinaryStream_new HANDSHAKE_HEADER_LEN) = Inr s1"
    "written s1 WIREFOX_MAGIC []" "copyable s1"
    using WriteBytes_copyable [OF written_new c0, of WIREFOX_MAGIC] by (auto simp: flushed_def WIREFOX_MAGIC_def)
  obtain s2 where s2: "WriteByte WIREFOX_PROTOCOL_VERSION s1 = Inr s2"
    "written s2 (WIREFOX_MAGIC @ [WIREFOX_PROTOCOL_VERSION]) []" "copyable s2"
    using WriteByte_copyable [OF s1(2,3)] by (auto simp: flushed_def WIREFOX_MAGIC_def)
  obtain s3 where s3: "WriteInt32 (ucast (drop_bit 32 who)) s2 = Inr s3"
    "written s3 (WIREFOX_MAGIC @ [WIREFOX_PROTOCOL_VERSION] @ be32 (ucast (drop_bit 32 who))) []" "copyable s3"
    using WriteBytes_copyable [OF s2(2,3), of "be32 (ucast (drop_bit 32 who))"]
    by (auto simp: flushed_def WIREFOX_MAGIC_def WriteInt32_on_def mem_Htonl)
  obtain s4 where s4: "WriteInt32 (ucast who) s3 = Inr s4" "written s4 (enc_hello who) []" "copyable s4"
    using WriteBytes_copyable [OF s3(2,3), of "be32 (ucast who)"]
    by (auto simp: flushed_def WIREFOX_MAGIC_def WriteInt32_on_def mem_Htonl enc_hello_def be64_def)
  have "WriteInt64 who s2 = Inr s4" using s3(1) s4(1) by (simp add: WriteInt64_on_def halves_u64 IsLittleEndian_iff)
  then show ?thesis using s1(1) s2(1) s4(2,3) by (simp add: WriteReplyHeader_def)
qed

section \<open>Out-of-band packets\<close>

definition oob_header :: "nat \<Rightarrow> PacketHeader" where
  "oob_header n = PacketHeader_default\<lparr>ph_options := UNRELIABLE, ph_length := of_nat n, ph_offset := 0\<rparr>"

text \<open>A packet that waits in the out-of-band slot.\<close>

definition waiting :: "Timestamp \<Rightarrow> RemoteAddress \<Rightarrow> u8 list \<Rightarrow> OutgoingPacket \<Rightarrow> bool" where
  "waiting now addr bs out \<longleftrightarrow> written (op_blob out) (enc_PacketHeader (oob_header (length bs)) @ bs) [] \<and>
     op_addr out = addr \<and> op_crypto out = None \<and> sendCount out = 0 \<and> sendNext out = now \<and>
     op_options out = UNRELIABLE"

lemma EnqueueOutOfBand_ok:
  assumes ok: "packet_ok packet" "pkt_length packet < MTU - 100" and m: "0 < m_remotesMax p"
  shows "\<exists>out. EnqueueOutOfBand env packet addr None p = Inr (upd_slot 0 (\<lambda>r. r\<lparr>outbox := outbox r @ [out]\<rparr>) p) \<and>
    waiting (e_now env) addr (enc_Packet packet) out"
proof -
  have len: "length (enc_Packet packet) = GetDatagramLength packet" by (rule length_enc_Packet [OF ok(1)])
  have small: "length (enc_Packet packet) \<le> 1200" using len ok(2) by (simp add: GetDatagramLength_def MTU_def)
  obtain s1 where s1: "PacketHeader_Serialize (oob_header (GetDatagramLength packet)) (BinaryStream_new BINARYSTREAM_DEFAULT_CAPACITY) = Inr s1"
    "written s1 (enc_PacketHeader (oob_header (GetDatagramLength packet))) []"
    using Serialize_header [OF written_new, where h = "oob_header (GetDatagramLength packet)"] by (auto simp: max_stream_def)
  obtain s2 where s2: "ToDatagram packet s1 = Inr s2"
    "written s2 (enc_PacketHeader (oob_header (GetDatagramLength packet)) @ enc_Packet packet) []"
    using ToDatagram_written [OF ok(1) s1(2)] small length_enc_PacketHeader(1) [of "oob_header (GetDatagramLength packet)"]
    by (auto simp: flushed_def max_stream_def)
  show ?thesis using ok(2) m s1(1) s2 len
    by (auto simp: EnqueueOutOfBand_def GetRemoteByIndex_def oob_header_def waiting_def Let_def)
qed


text \<open>The datagram that carries an out-of-band packet.\<close>

definition oob_datagram :: "DatagramID \<Rightarrow> u8 list \<Rightarrow> u8 list" where
  "oob_datagram did bs = enc_datagram (data_header False did (length (enc_packets [(oob_header (length bs), bs)])))
     [(oob_header (length bs), bs)]"

lemma length_oob_header [simp]: "length (enc_PacketHeader (oob_header n)) = 11"
  by (simp add: enc_PacketHeader_def oob_header_def PacketHeader_default_def)

lemma oob_datagram_ok:
  assumes "bs \<noteq> []" "length bs \<le> 1200"
  shows "datagram_ok (data_header False did (length (enc_packets [(oob_header (length bs), bs)]))) [(oob_header (length bs), bs)]"
    "wire_packet_ok (oob_header (length bs), bs)"
proof -
  have "unat (of_nat (length bs) :: u32) = length bs" using assms(2) by (simp add: unat_of_nat_small)
  then show w: "wire_packet_ok (oob_header (length bs), bs)"
    using assms by (simp add: wire_packet_ok_def fits_PacketHeader_def oob_header_def PacketHeader_default_def PACKET_MAX_LENGTH_def)
  show "datagram_ok (data_header False did (length (enc_packets [(oob_header (length bs), bs)]))) [(oob_header (length bs), bs)]"
    using w assms(2) by (simp add: datagram_ok_def enc_datagram_def valid_DatagramHeader_def MTU_def)
qed

text \<open>The out-of-band slot can send \<open>n\<close> more bytes.\<close>

definition oob_ready :: "nat \<Rightarrow> Peer \<Rightarrow> bool" where
  "oob_ready n p \<longleftrightarrow> 0 < length (m_remotes p) \<and> handshake (at_slot 0 p) = None \<and>
     \<not> m_crypto_enabled p \<and> \<not> m_sending (m_masterSocket p) \<and>
     (\<exists>c. congestion (at_slot 0 p) = Some c \<and> m_acks c = [] \<and> m_nacks c = [] \<and> MTU \<le> m_window c \<and>
        m_bytesInFlight c + n \<le> MTU)"

lemma oob_written:
  assumes r: "oob_ready (length bs + 18) p" and w: "waiting t addr bs out" "t \<le> e_now env" and os: "outbox (at_slot 0 p) = [out]"
    and bs: "bs \<noteq> []" "length bs \<le> 1200"
  shows "\<exists>r did. DoWriteCycle env 0 p = Inr ((upd_slot 0 (\<lambda>_. r) p)\<lparr>m_masterSocket :=
        BeginWrite addr (oob_datagram did bs) (0, did) (m_masterSocket p)\<rparr>) \<and>
    same_connection (at_slot 0 p) r \<and> outbox r = [] \<and>
    (\<forall>n. oob_ready (length bs + 18 + n) p \<longrightarrow>
      oob_ready n ((upd_slot 0 (\<lambda>_. r) p)\<lparr>m_masterSocket := (m_masterSocket p)\<lparr>m_sending := False, su_write := x\<rparr>\<rparr>))"
proof -
  let ?h = "oob_header (length bs)"
  obtain c where c: "congestion (at_slot 0 p) = Some c" "m_acks c = []" "m_nacks c = []" "MTU \<le> m_window c"
    "m_bytesInFlight c + (length bs + 18) \<le> MTU" and i: "0 < length (m_remotes p)" "handshake (at_slot 0 p) = None"
    "\<not> m_crypto_enabled p" "\<not> m_sending (m_masterSocket p)"
    using r by (auto simp: oob_ready_def)
  have wr: "written (op_blob out) (enc_PacketHeader ?h @ bs) []" using w(1) by (simp add: waiting_def)
  have ml: "m_length (op_blob out) = 11 + length bs" using m_length_written [OF wr] by simp
  have bb: "blob_bytes out = enc_PacketHeader ?h @ bs" using wr by (simp add: blob_bytes_def written_def flushed_def)
  have ok: "sendable (e_now env) out" "blob_ok out" "\<not> HasFlag RELIABLE out"
    using w ml wr bs(1) bb
    by (auto simp: sendable_def waiting_def blob_ok_def HasFlag_def UNRELIABLE_def RELIABLE_def)
  have oob: "IsOutOfBand (at_slot 0 p)" "\<not> IsConnected (at_slot 0 p)" using i(2) by (simp_all add: IsOutOfBand_def IsConnected_def)
  have mtu: "MTU < 2 ^ 64" by (simp add: MTU_def)
  have bud: "m_length (op_blob out) \<le> GetTransmissionBudget c"
  proof -
    have "11 + length bs \<le> m_window c - m_bytesInFlight c" "11 + length bs \<le> MTU - m_bytesInFlight c"
      using c(4,5) by linarith+
    then show ?thesis using c(4,5) ml mtu
      by (simp add: GetTransmissionBudget_def GetRetransmissionBudget_def size_sub_eq)
  qed
  have data: "oob_datagram (m_nextDatagram c) bs = enc_DatagramHeader (data_header (IsConnected (at_slot 0 p)) (m_nextDatagram c)
      (m_length (op_blob out))) @ blob_bytes out"
    using oob(2) ml bb by (simp add: oob_datagram_def enc_datagram_def)
  have dl: "length (oob_datagram (m_nextDatagram c) bs) = length bs + 18"
    by (simp add: oob_datagram_def enc_datagram_def)
  obtain r' where r': "DoWriteCycle env 0 p = Inr ((upd_slot 0 (\<lambda>_. r') p)\<lparr>m_masterSocket :=
        BeginWrite (op_addr out) (oob_datagram (m_nextDatagram c) bs) (0, m_nextDatagram c) (m_masterSocket p)\<rparr>)"
    "same_connection (at_slot 0 p) r'" "outbox r' = []"
    "congestion r' = Some (NotifySendingBytes (e_now env) (m_nextDatagram c) (length bs + 18)
      (c\<lparr>m_nextDatagram := m_nextDatagram c + 1\<rparr>))"
    using DoWriteCycle_oob [OF i(1,4,3) os ok _ c(1) _ oob(1) bud data] ok(1) os c(2,3) dl
    by (auto simp: GetNeedsToSendAcks_def sendable_def)
  have "oob_ready n ((upd_slot 0 (\<lambda>_. r') p)\<lparr>m_masterSocket := (m_masterSocket p)\<lparr>m_sending := False, su_write := x\<rparr>\<rparr>)"
    if "oob_ready (length bs + 18 + n) p" for n
    using that r'(2,4) c i mtu by (auto simp: oob_ready_def same_connection_def NotifySendingBytes_def)
  then show ?thesis using r'(1-3) w(1) by (intro exI [of _ r'] exI [of _ "m_nextDatagram c"]) (auto simp: waiting_def)
qed

section \<open>Receiving an out-of-band packet\<close>

text \<open>What a peer does with an out-of-band packet, by its command.\<close>

definition on_unconnected :: "Env \<Rightarrow> RemoteAddress \<Rightarrow> Packet \<Rightarrow> Peer \<Rightarrow> Peer result" where
  "on_unconnected env addr packet p =
     (if m_command packet = PING then OnPing env addr p
      else if m_command packet = CONNECT_ATTEMPT then OnConnectAttempt env addr packet p
      else if m_command packet = DISCONNECT_ACK
      then (case GetRemoteByAddress addr p of None \<Rightarrow> Inr p | Some i \<Rightarrow> DisconnectImmediate (Some i) p)
      else if m_command packet = ADVERTISEMENT then OnAdvertisement env addr packet p
      else Inr p)"

lemma OnUnconnectedMessage_packet:
  assumes r: "reading s 0 (enc_packets [(oob_header (length bs), bs)])" and bs: "bs = cmd # body" "length bs \<le> 1200"
  shows "OnUnconnectedMessage_stream env addr s p = on_unconnected env addr (packet_of 0 cmd body) p"
proof -
  let ?h = "oob_header (length bs)"
  have ok: "fits_PacketHeader ?h" "unat (ph_length ?h) = length bs"
    using oob_datagram_ok(2) [of bs] bs by (auto simp: wire_packet_ok_def)
  obtain s1 where s1: "PacketHeader_Deserialize PacketHeader_default s = Inr ((True, read_over PacketHeader_default ?h), s1)"
    "reading s1 0 bs" using PacketHeader_Deserialize_over [OF ok(1), of s bs] r by auto
  obtain s2 where s2: "FromDatagram 0 (Suc (length body)) s1 = Inr (packet_of 0 cmd body, s2)"
    using FromDatagram_reading [OF s1(2), of cmd body "[]" 0] bs(1) by auto
  have h: "\<not> flag_segment ?h" by (simp add: oob_header_def PacketHeader_default_def)
  have len: "unat (ph_length ?h) = Suc (length body)" using ok(2) bs(1) by simp
  show ?thesis
    by (simp add: OnUnconnectedMessage_stream_def s1(1) h len s2 on_unconnected_def)
qed

text \<open>The peer whose socket took the datagram, with the datagram counted when the sender is known.\<close>

definition arrived :: "RemoteAddress \<Rightarrow> u8 list \<Rightarrow> Peer \<Rightarrow> Peer" where
  "arrived addr data p =
     (let p = p\<lparr>m_masterSocket := fill_readbuf data (m_masterSocket p)\<rparr>
      in case GetRemoteByAddress addr p of None \<Rightarrow> p | Some i \<Rightarrow> count_datagram i (length data) p)"

lemma GetRemoteByAddress_socket [simp]: "GetRemoteByAddress addr (p\<lparr>m_masterSocket := x\<rparr>) = GetRemoteByAddress addr p"
  by (simp add: GetRemoteByAddress_def)

lemma secured_socket [simp]: "secured i (p\<lparr>m_masterSocket := x\<rparr>) = secured i p"
  by (simp add: secured_def split: option.split)

lemma oob_received:
  assumes bs: "bs = cmd # body" "length bs \<le> 1200"
    and known: "\<And>i. GetRemoteByAddress addr p = Some i \<Longrightarrow> i < length (m_remotes p) \<and> \<not> secured i p"
  shows "socket_read env False addr (oob_datagram did bs) p =
    rbind (on_unconnected env addr (packet_of 0 cmd body) (arrived addr (oob_datagram did bs) p))
      (\<lambda>p. Inr (p\<lparr>m_masterSocket := after_read False (m_masterSocket p)\<rparr>))"
proof -
  let ?ps = "[(oob_header (length bs), bs)]"
  let ?hd = "data_header False did (length (enc_packets ?ps))" and ?data = "oob_datagram did bs"
  let ?p = "p\<lparr>m_masterSocket := fill_readbuf ?data (m_masterSocket p)\<rparr>"
  let ?old = "drop (length ?data) (m_readbuf (m_masterSocket p))"
  have ok: "datagram_ok ?hd ?ps" by (rule oob_datagram_ok(1)) (use bs in simp_all)
  have data: "?data = enc_datagram ?hd ?ps" by (simp only: oob_datagram_def)
  have tk: "take PACKETQUEUE_IN_LEN ?data = ?data" using ok data by (simp add: datagram_ok_def PACKETQUEUE_IN_LEN_def)
  have buf: "m_readbuf (m_masterSocket ?p) = ?data @ ?old"
    by (simp add: fill_readbuf_def tk overwrite_def Let_def)
  have "OnReadFinished env False addr (Some (map Some (?data @ ?old))) (length ?data) ?p =
      on_unconnected env addr (packet_of 0 cmd body) (arrived addr ?data p)"
  proof (cases "GetRemoteByAddress addr p")
    case None
    have "length ?data < 2 ^ 64" using ok data by (simp add: datagram_ok_def MTU_def)
    from wrap_readbuf [OF this, of ?old] obtain s where
      s: "BinaryStream_wrap (Some (map Some (?data @ ?old))) (length ?data) READONLY = Inr s" "reading s 0 ?data" "m_position s = 0"
      by blast
    obtain s' where s': "DatagramHeader_Deserialize DatagramHeader_default s = Inr ((True, ?hd), s')" "reading s' 0 (enc_packets ?ps)"
      using datagram_header_read [OF ok _ s(3)] s(2) data by auto
    have "OnUnconnectedMessage env addr (Some (map Some (?data @ ?old))) (length ?data) ?p = OnUnconnectedMessage_stream env addr s' ?p"
      by (simp only: OnUnconnectedMessage_def s(1) rbind_simps s'(1) prod.case data_header_simps if_False rassert_simps not_True_eq_False)
    also have "\<dots> = on_unconnected env addr (packet_of 0 cmd body) ?p"
      by (rule OnUnconnectedMessage_packet [OF s'(2) bs])
    finally show ?thesis using None by (simp add: OnReadFinished_def arrived_def)
  next
    case (Some i)
    obtain s where s: "OnReadFinished env False addr (Some (map Some (?data @ ?old))) (length ?data) ?p =
        OnUnconnectedMessage_stream env addr s (count_datagram i (length ?data) ?p)" "reading s 0 (enc_packets ?ps)"
      using OnReadFinished_header [OF ok, of addr ?p i env ?old] known [OF Some] Some data by auto
    show ?thesis unfolding s(1) OnUnconnectedMessage_packet [OF s(2) bs] using Some by (simp add: arrived_def)
  qed
  then show ?thesis unfolding socket_read_def Let_def if_False tk buf by simp
qed

lemma connect_received:
  assumes "bs = CONNECT_ATTEMPT # body" "length bs \<le> 1200"
    and "\<And>i. GetRemoteByAddress addr p = Some i \<Longrightarrow> i < length (m_remotes p) \<and> \<not> secured i p"
  shows "socket_read env False addr (oob_datagram did bs) p =
    rbind (OnConnectAttempt env addr (packet_of 0 CONNECT_ATTEMPT body) (arrived addr (oob_datagram did bs) p))
      (\<lambda>p. Inr (p\<lparr>m_masterSocket := after_read False (m_masterSocket p)\<rparr>))"
  using oob_received [OF assms] by (simp add: on_unconnected_def packet_of_def PING_def CONNECT_ATTEMPT_def)

section \<open>The stages of the handshake\<close>

lemma Handle_message:
  assumes h: "handshake (at_slot i p) = Some h" "\<not> IsDone h"
    and body: "body = enc_hello who @ opcode # extra" "length body < 2 ^ 32"
    and free: "GetRemoteByID who p = (competitor, q)" "competitor = None \<or> competitor = Some i"
      "handshake (at_slot i q) = Some h"
  shows "\<exists>s reply. Handle env i (packet_of sender cmd body) p =
      Handle_stage env i opcode s reply (upd_slot i (\<lambda>r. r\<lparr>rp_id := who\<rparr>) q) \<and>
    reading s 0 extra \<and> written reply (enc_hello (m_id p)) [] \<and> copyable reply"
proof -
  obtain s where s: "GetStream (packet_of sender cmd body) = Inr s" "reading s 0 body"
    using GetStream_reading [OF packet_ok_packet_of [OF body(2)], of sender cmd] by auto
  obtain reply where reply: "WriteReplyHeader (m_id p) (BinaryStream_new HANDSHAKE_HEADER_LEN) = Inr reply"
    "written reply (enc_hello (m_id p)) []" "copyable reply" using WriteReplyHeader_ok by blast
  have eof: "\<not> IsEOF HANDSHAKE_HEADER_LEN s"
    using reading_not_EOF [OF s(2), of 17] body(1) by (simp add: HANDSHAKE_HEADER_LEN_def WIREFOX_MAGIC_def)
  obtain s1 where s1: "ReadBytes (length WIREFOX_MAGIC) s = Inr (Some WIREFOX_MAGIC, s1)"
    "reading s1 0 ([WIREFOX_PROTOCOL_VERSION] @ be64 who @ opcode # extra)"
    using reading_ReadBytes' [OF s(2), of WIREFOX_MAGIC] body(1) by (auto simp: enc_hello_def)
  obtain s2 where s2: "ReadByte s1 = Inr (WIREFOX_PROTOCOL_VERSION, s2)" "reading s2 0 (be64 who @ opcode # extra)"
    using reading_ReadByte [OF s1(2)] by auto
  obtain s3 where s3: "ReadUInt64 s2 = Inr (who, s3)" "reading s3 0 (opcode # extra)"
    using ReadUInt64_reading [OF s2(2)] by auto
  obtain s4 where s4: "ReadByte s3 = Inr (opcode, s4)" "reading s4 0 extra"
    using reading_ReadByte [OF s3(2)] by auto
  have th: "the_handshake i p = Inr h" using h(1) by (simp add: the_handshake_def)
  have comp: "(competitor \<noteq> None \<and> competitor \<noteq> Some i) = False" using free(2) by auto
  have "Handle env i (packet_of sender cmd body) p = Handle_stage env i opcode s4 reply (upd_slot i (\<lambda>r. r\<lparr>rp_id := who\<rparr>) q)"
    using h(2) eof
    by (simp only: Handle_def th rbind_simps if_False s(1) GetMyPeerID_def reply(1) s1(1) prod.case option.case
        s2(1) s3(1) s4(1) free(1) comp Let_def not_True_eq_False simp_thms)
  then show ?thesis using s4(2) reply(2,3) by blast
qed

text \<open>A reply is remembered and queued for the other side.\<close>

lemma Reply_ok:
  assumes i: "i < length (m_remotes p)" "0 < i" "0 < m_remotesMax p"
    and h: "handshake (at_slot i p) = Some h" "m_replyHandler h" "reusable (m_lastReply h)"
    and plain: "crypto (at_slot i p) = Some a" "\<not> Crypto_GetCryptoEstablished (p_layers p ! a)"
    and w: "written reply c bits" "copyable reply" "flushed c bits \<noteq> []" "length (flushed c bits) < 1200"
  shows "\<exists>last out. Reply env i reply False p = Inr (upd_slot 0 (\<lambda>r. r\<lparr>outbox := outbox r @ [out]\<rparr>)
      (upd_slot i (\<lambda>r. r\<lparr>handshake := Some (h\<lparr>m_lastReply := last, m_resendAttempts := 1,
        m_resendNext := Timestamp_plus (e_now env) (FromMilliseconds CONNECT_RETRY_DELAY)\<rparr>)\<rparr>) p)) \<and>
    reusable last \<and> waiting (e_now env) (rp_addr (at_slot i p)) (CONNECT_ATTEMPT # flushed c bits) out"
proof -
  obtain last where last: "BinaryStream_assign (m_lastReply h) reply = Inr last" "reusable last"
    using assign_copyable [OF h(3) w(1,2)] by blast
  have big: "length (flushed c bits) < 2 ^ 32" using w(4) by simp
  obtain packet where packet: "fst (Packet_of_moved_stream CONNECT_ATTEMPT reply) = packet" "packet_ok packet"
    "m_command packet = CONNECT_ATTEMPT" "payload packet = flushed c bits"
    using moved_packet [OF w(1) big w(3), of CONNECT_ATTEMPT] by force
  let ?h = "h\<lparr>m_lastReply := last, m_resendAttempts := 1,
        m_resendNext := Timestamp_plus (e_now env) (FromMilliseconds CONNECT_RETRY_DELAY)\<rparr>"
  let ?p = "upd_slot i (\<lambda>r. r\<lparr>handshake := Some ?h\<rparr>) p"
  have up: "upd_handshake i (\<lambda>h. h\<lparr>m_lastReply := last, m_resendAttempts := (if \<not> False then 1 else m_resendAttempts h),
        m_resendNext := Timestamp_plus (e_now env) (FromMilliseconds CONNECT_RETRY_DELAY)\<rparr>) p = ?p"
    using h(1) i by (simp add: upd_handshake_def upd_slot_def at_slot_def)
  have "pkt_length packet < MTU - 100" using length_payload [OF packet(2)] packet(4) w(4) by (simp add: MTU_def)
  then obtain out where out: "EnqueueOutOfBand env packet (rp_addr (at_slot i p)) None ?p =
      Inr (upd_slot 0 (\<lambda>r. r\<lparr>outbox := outbox r @ [out]\<rparr>) ?p)"
    "waiting (e_now env) (rp_addr (at_slot i p)) (enc_Packet packet) out"
    using EnqueueOutOfBand_ok [OF packet(2), of ?p env "rp_addr (at_slot i p)"] i(3) by auto
  have "SendHandshakePart env i reply ?p = EnqueueOutOfBand env packet (rp_addr (at_slot i p)) None ?p"
    using plain i(1) packet(1) by (simp add: SendHandshakePart_def)
  then have "Reply env i reply False p = Inr (upd_slot 0 (\<lambda>r. r\<lparr>outbox := outbox r @ [out]\<rparr>) ?p)"
    unfolding Reply_def the_handshake_def h(1) using h(2) last(1) up out(1) by simp
  then show ?thesis using out(2) last(2) packet(3,4) by (auto simp: enc_Packet_def)
qed

lemma Packet_copy_ok:
  assumes "packet_ok p" "payload p \<noteq> []"
  shows "Packet_copy p = Inr (packet_of (m_sender p) (m_command p) (payload p))"
proof -
  have len: "length (payload p) = pkt_length p" by (rule length_payload [OF assms(1)])
  then have pos: "0 < pkt_length p" using assms(2) by (cases "payload p") auto
  obtain m where m: "m_data p = Some m" "pkt_length p \<le> length m" "None \<notin> set (take (pkt_length p) m)"
    using assms by (cases "m_data p") (auto simp: packet_ok_def payload_def)
  then have "take (pkt_length p) m = map Some (payload p)" using map_the [OF m(3)] by (simp add: payload_def)
  with m show ?thesis using len pos assms(2)
    by (simp add: Packet_copy_def Packet_assign_def CopyFrom_def memcpy_cells_def Packet_blank_def packet_of_def)
qed

lemma Complete_ok:
  assumes i: "i < length (m_remotes p)" and h: "handshake (at_slot i p) = Some h" "m_completionHandler h" "reusable (m_lastReply h)"
    and cmd: "cmd = (if hs_origin h = SELF then NOTIFY_CONNECT_SUCCESS else NOTIFY_CONNECTION_INCOMING)"
  shows "\<exists>last. Complete i CR_OK p = Inr ((upd_slot i (\<lambda>r. r\<lparr>handshake := Some (h\<lparr>hs_result := CR_OK, m_lastReply := last\<rparr>)\<rparr>) p)
      \<lparr>m_inbox := m_inbox p @ [packet_of (rp_id (at_slot i p)) cmd [CR_OK]]\<rparr>) \<and> reusable last"
proof -
  obtain last where last: "Reset (m_lastReply h) = Inr last" "reusable last" using Reset_reusable [OF h(3)] by blast
  let ?p = "upd_slot i (\<lambda>r. r\<lparr>handshake := Some (h\<lparr>hs_result := CR_OK, m_lastReply := last\<rparr>)\<rparr>) p"
  have up: "upd_handshake i (\<lambda>h. h\<lparr>hs_result := CR_OK, m_lastReply := last\<rparr>) p = ?p"
    using h(1) i by (simp add: upd_handshake_def upd_slot_def at_slot_def)
  obtain b where b: "WriteByte CR_OK (BinaryStream_new 1) = Inr b" "written b [CR_OK] []"
    using byte.put_aligned [OF _ written_new, of CR_OK 1] by (auto simp: flushed_def max_stream_def)
  obtain packet where packet: "fst (Packet_of_moved_stream cmd b) = packet" "packet_ok packet"
    "m_command packet = cmd" "payload packet = [CR_OK]"
    using moved_packet [OF b(2), of cmd] by (force simp: flushed_def)
  have "packet_ok (SetSender (rp_id (at_slot i p)) packet)" "payload (SetSender (rp_id (at_slot i p)) packet) = [CR_OK]"
    using packet(2,4) by (simp_all add: SetSender_def packet_ok_def payload_def split: option.splits)
  then have "Packet_copy (SetSender (rp_id (at_slot i p)) packet) = Inr (packet_of (rp_id (at_slot i p)) cmd [CR_OK])"
    using Packet_copy_ok [of "SetSender (rp_id (at_slot i p)) packet"] packet(3) by (simp add: SetSender_def)
  then have n: "SendHandshakeCompleteNotification i packet ?p =
      Inr (?p\<lparr>m_inbox := m_inbox p @ [packet_of (rp_id (at_slot i p)) cmd [CR_OK]]\<rparr>)"
    using i by (simp add: SendHandshakeCompleteNotification_def the_handshake_def SendLoopback_def EnqueueLoopback_def)
  have "Complete i CR_OK p = SendHandshakeCompleteNotification i packet ?p"
    unfolding Complete_def the_handshake_def h(1) Let_def using h(2) last(1) b(1) packet(1) up cmd
    by (cases "hs_origin h = SELF") simp_all
  then show ?thesis using n last(2) by auto
qed

section \<open>Slots during and after the handshake\<close>

definition in_handshake :: "ConnectionOrigin \<Rightarrow> u8 \<Rightarrow> slot \<Rightarrow> RemoteAddress \<Rightarrow> Peer \<Rightarrow> bool" where
  "in_handshake origin opcode i addr p \<longleftrightarrow> 0 < i \<and> i < length (m_remotes p) \<and> 0 < m_remotesMax p \<and> m_remotesMax p \<le> length (m_remotes p) \<and>
     GetRemoteByAddress addr p = Some i \<and> rp_addr (at_slot i p) = addr \<and> active (at_slot i p) \<and>
     (\<exists>t. congestion (at_slot i p) = Some (CongestionControlWindow_new t)) \<and> receipt (at_slot i p) = Some ReceiptTracker_new \<and>
     disconnect (at_slot i p) = 0 \<and> outbox (at_slot i p) = [] \<and>
     (\<exists>h a. handshake (at_slot i p) = Some h \<and> hs_origin h = origin \<and> hs_result h = CR_IN_PROGRESS \<and>
        m_expectedOpcode h = opcode \<and> m_replyHandler h \<and> m_completionHandler h \<and> reusable (m_lastReply h) \<and>
        crypto (at_slot i p) = Some a \<and> \<not> Crypto_GetCryptoEstablished (p_layers p ! a))"

text \<open>No slot but \<open>i\<close> is taken for the peer \<open>who\<close>.\<close>

definition only_slot :: "slot \<Rightarrow> PeerID \<Rightarrow> Peer \<Rightarrow> bool" where
  "only_slot i who p \<longleftrightarrow> (m_remoteLookup p who = None \<or> m_remoteLookup p who = Some i) \<and>
     (\<forall>k. 0 < k \<and> k < m_remotesMax p \<and> k \<noteq> i \<and> active (at_slot k p) \<longrightarrow> rp_id (at_slot k p) \<noteq> who)"

lemma find_SomeD: "find P xs = Some x \<Longrightarrow> x \<in> set xs \<and> P x"
  by (auto simp: find_Some_iff)

lemma only_slot_lookup:
  assumes "only_slot i who p"
  shows "\<exists>competitor l. GetRemoteByID who p = (competitor, p\<lparr>m_remoteLookup := l\<rparr>) \<and> (competitor = None \<or> competitor = Some i) \<and>
    (\<forall>x. x \<noteq> who \<longrightarrow> l x = m_remoteLookup p x) \<and> (l who = None \<or> l who = Some i)"
proof -
  have "find_remote who p = None \<or> find_remote who p = Some i"
  proof (cases "find_remote who p")
    case (Some k)
    then have "k \<in> set [1..<m_remotesMax p] \<and> rp_id (at_slot k p) = who \<and> active (at_slot k p)"
      unfolding find_remote_def by (rule find_SomeD)
    then have "0 < k" "k < m_remotesMax p" "rp_id (at_slot k p) = who" "active (at_slot k p)" by auto
    then have "k = i" using assms unfolding only_slot_def by blast
    then show ?thesis using Some by simp
  qed simp
  moreover have "m_remoteLookup p who = None \<or> m_remoteLookup p who = Some i" using assms by (simp add: only_slot_def)
  ultimately consider "m_remoteLookup p who = Some i" | "m_remoteLookup p who = None" "find_remote who p = None"
    | "m_remoteLookup p who = None" "find_remote who p = Some i"
    by metis
  then show ?thesis
  proof cases
    case 1
    then show ?thesis by (intro exI [of _ "Some i"] exI [of _ "m_remoteLookup p"]) (simp add: GetRemoteByID_def)
  next
    case 2
    then show ?thesis by (intro exI [of _ None] exI [of _ "m_remoteLookup p"]) (simp add: GetRemoteByID_def)
  next
    case 3
    then show ?thesis
      by (intro exI [of _ "Some i"] exI [of _ "(m_remoteLookup p)(who \<mapsto> i)"]) (simp add: GetRemoteByID_def)
  qed
qed

lemma only_slot_found:
  assumes o: "only_slot i who p" and i: "0 < i" "i < m_remotesMax p" "active (at_slot i p)" "rp_id (at_slot i p) = who"
  shows "fst (GetRemoteByID who p) = Some i"
proof -
  have "find_remote who p \<noteq> None" using i by (auto simp: find_remote_def find_None_iff)
  then obtain k where k: "find_remote who p = Some k" by auto
  then have "k \<in> set [1..<m_remotesMax p] \<and> rp_id (at_slot k p) = who \<and> active (at_slot k p)"
    unfolding find_remote_def by (rule find_SomeD)
  then have "0 < k" "k < m_remotesMax p" "rp_id (at_slot k p) = who" "active (at_slot k p)" by auto
  then have "k = i" using o unfolding only_slot_def by blast
  then show ?thesis using o k by (auto simp: GetRemoteByID_def only_slot_def)
qed

text \<open>The slot table seen from slot zero.\<close>

lemma find_remote_slot0 [simp]: "find_remote who (upd_slot 0 f p) = find_remote who p"
  unfolding find_remote_def by (intro find_cong) (auto simp: upd_slot_def at_slot_def)

lemma fst_GetRemoteByID: "fst (GetRemoteByID who p) = (case m_remoteLookup p who of Some i \<Rightarrow> Some i | None \<Rightarrow> find_remote who p)"
  by (simp add: GetRemoteByID_def split: option.splits)

lemma GetRemoteByAddress_slot0 [simp]: "GetRemoteByAddress addr (upd_slot 0 f p) = GetRemoteByAddress addr p"
  unfolding GetRemoteByAddress_def by (intro find_cong) (auto simp: upd_slot_def at_slot_def)

lemma at_upd_slot0 [simp]: "0 < i \<Longrightarrow> at_slot i (upd_slot 0 f p) = at_slot i p"
  by (simp add: upd_slot_def at_slot_def)

lemma at_slot0_upd [simp]: "0 < i \<Longrightarrow> at_slot 0 (upd_slot i f p) = at_slot 0 p"
  by (simp add: upd_slot_def at_slot_def)

lemma in_handshake_frame [simp]:
  "in_handshake origin opcode i addr (upd_slot 0 f p) = in_handshake origin opcode i addr p"
  "in_handshake origin opcode i addr (p\<lparr>m_masterSocket := x\<rparr>) = in_handshake origin opcode i addr p"
  "in_handshake origin opcode i addr (p\<lparr>m_inbox := y\<rparr>) = in_handshake origin opcode i addr p"
proof -
  show "in_handshake origin opcode i addr (upd_slot 0 f p) = in_handshake origin opcode i addr p"
    unfolding in_handshake_def by (cases "0 < i") simp_all
qed (simp_all add: in_handshake_def GetRemoteByAddress_def)

lemma only_slot_frame [simp]:
  "only_slot i who (upd_slot 0 f p) = only_slot i who p"
  "only_slot i who (p\<lparr>m_masterSocket := x\<rparr>) = only_slot i who p"
  "only_slot i who (p\<lparr>m_inbox := y\<rparr>) = only_slot i who p"
  by (auto simp: only_slot_def)

lemma only_slot_upd:
  "only_slot i who p \<Longrightarrow> only_slot i who (upd_slot i f p)"
  by (auto simp: only_slot_def upd_slot_def at_slot_def nth_list_update)

lemma GetRemoteByAddress_upd:
  assumes "i < length (m_remotes p)" "rp_addr (f (at_slot i p)) = rp_addr (at_slot i p)" "active (f (at_slot i p)) = active (at_slot i p)"
  shows "GetRemoteByAddress addr (upd_slot i f p) = GetRemoteByAddress addr p"
  unfolding GetRemoteByAddress_def using assms
  by (intro find_cong) (auto simp: upd_slot_def at_slot_def nth_list_update)

lemma GetRemoteByAddress_new:
  assumes "GetRemoteByAddress addr p = None" "0 < i" "i < length (m_remotes p)" "i < m_remotesMax p"
    and "rp_addr (f (at_slot i p)) = addr" "active (f (at_slot i p))"
  shows "GetRemoteByAddress addr (upd_slot i f p) = Some i"
proof -
  have none: "\<not> (active (at_slot k p) \<and> rp_addr (at_slot k p) = addr)" if "0 < k" "k < m_remotesMax p" for k
    using assms(1) that by (auto simp: GetRemoteByAddress_def find_None_iff)
  have "find P [1..<m] = Some i" if "0 < i" "i < m" "P i" "\<And>k. 0 < k \<Longrightarrow> k < m \<Longrightarrow> k \<noteq> i \<Longrightarrow> \<not> P k" for P and m :: nat
  proof -
    have "find P [1..<m] \<noteq> None" using that by (auto simp: find_None_iff)
    then obtain k where "find P [1..<m] = Some k" by auto
    then show ?thesis using find_SomeD [of P "[1..<m]" k] that(4) [of k] by auto
  qed
  then show ?thesis unfolding GetRemoteByAddress_def using assms none
    by (auto simp: upd_slot_def at_slot_def nth_list_update)
qed

section \<open>The steps\<close>

text \<open>The encryption layer of a new slot, not established yet.\<close>

definition fresh_layer :: "Env \<Rightarrow> Peer \<Rightarrow> bool" where
  "fresh_layer env p \<longleftrightarrow> (case DefaultEncryption_new env of Inl _ \<Rightarrow> False
     | Inr layer \<Rightarrow> \<not> Crypto_GetCryptoEstablished (Crypto_SetLocalIdentity (m_crypto_identity p) layer))"

text \<open>A free slot of a peer without encryption.\<close>

definition free_slot :: "slot \<Rightarrow> Peer \<Rightarrow> bool" where
  "free_slot i p \<longleftrightarrow> 0 < i \<and> i < m_remotesMax p \<and> m_remotesMax p \<le> length (m_remotes p) \<and> \<not> m_crypto_enabled p \<and>
     disconnect (at_slot i p) = 0 \<and> outbox (at_slot i p) = []"

lemma Setup_ok:
  assumes f: "free_slot i p" "fresh_layer env p" and o: "origin \<noteq> INVALID"
  shows "\<exists>layer. RemotePeer_Setup env i origin p = Inr ((upd_slot i (\<lambda>r. r\<lparr>reserved := True,
        congestion := Some (CongestionControlWindow_new (e_now env)), receipt := Some ReceiptTracker_new,
        crypto := Some (length (p_layers p)), handshake := Some (Handshaker_new False (length (p_layers p)) origin)\<rparr>) p)
      \<lparr>p_layers := p_layers p @ [layer]\<rparr>) \<and> \<not> Crypto_GetCryptoEstablished layer"
proof -
  obtain layer where l: "DefaultEncryption_new env = Inr layer"
    "\<not> Crypto_GetCryptoEstablished (Crypto_SetLocalIdentity (m_crypto_identity p) layer)"
    using f(2) by (auto simp: fresh_layer_def split: sum.splits)
  have i: "i < length (m_remotes p)" "\<not> m_crypto_enabled p" using f(1) by (simp_all add: free_slot_def)
  show ?thesis using l i o
    by (intro exI [of _ "Crypto_SetLocalIdentity (m_crypto_identity p) layer"])
      (simp add: RemotePeer_Setup_def Let_def, simp add: upd_slot_def)
qed

text \<open>The client: the slot is set up and the greeting is queued.\<close>

definition greeting :: "PeerID \<Rightarrow> u8 \<Rightarrow> u8 list" where
  "greeting who opcode = CONNECT_ATTEMPT # enc_hello who @ [opcode, pack [False]]"

lemma connected_calls:
  assumes i: "0 < i" "i < length (m_remotes p)" "i < m_remotesMax p" "m_remotesMax p \<le> length (m_remotes p)" "\<not> m_crypto_enabled p"
    and r: "handshake (at_slot i p) = Some (Handshaker_new False a SELF)" "crypto (at_slot i p) = Some a"
      "\<not> Crypto_GetCryptoEstablished (p_layers p ! a)" "congestion (at_slot i p) = Some (CongestionControlWindow_new t)"
      "receipt (at_slot i p) = Some ReceiptTracker_new" "disconnect (at_slot i p) = 0" "outbox (at_slot i p) = []"
    and none: "GetRemoteByAddress addr p = None"
  shows "\<exists>p' r out. OnSocketConnected env i False addr p = Inr p' \<and>
    p' = upd_slot 0 (\<lambda>r. r\<lparr>outbox := outbox r @ [out]\<rparr>) (upd_slot i (\<lambda>_. r) p) \<and> rp_id r = rp_id (at_slot i p) \<and>
    in_handshake SELF INITIAL_SERVER i addr p' \<and> waiting (e_now env) addr (greeting (m_id p) INITIAL_CLIENT) out"
proof -
  obtain h1 where h1: "WriteReplyHeader (m_id p) (BinaryStream_new HANDSHAKE_HEADER_LEN) = Inr h1" "written h1 (enc_hello (m_id p)) []" "copyable h1"
    using WriteReplyHeader_ok by blast
  obtain h2 where h2: "WriteByte INITIAL_CLIENT h1 = Inr h2" "written h2 (enc_hello (m_id p) @ [INITIAL_CLIENT]) []" "copyable h2"
    using WriteByte_copyable [OF h1(2,3), of INITIAL_CLIENT] by (auto simp: flushed_def)
  obtain h3 where h3: "WriteBool False h2 = Inr h3" "written h3 (enc_hello (m_id p) @ [INITIAL_CLIENT]) [False]" "copyable h3"
    using WriteBool_copyable [OF h2(2,3), of False] by auto
  let ?h = "(Handshaker_new False a SELF)\<lparr>m_replyHandler := True, m_completionHandler := True, m_expectedOpcode := INITIAL_SERVER\<rparr>"
  define r2 where "r2 = (at_slot i p)\<lparr>rp_addr := addr, rp_socket := True, handshake := Some ?h\<rparr>"
  define p2 where "p2 = upd_slot i (\<lambda>_. r2) p"
  have s2: "at_slot i p2 = r2" "i < length (m_remotes p2)" "0 < m_remotesMax p2" using i by (simp_all add: p2_def)
  have hh: "handshake (at_slot i p2) = Some ?h" "m_replyHandler ?h" "reusable (m_lastReply ?h)"
    using s2 by (simp_all add: r2_def Handshaker_new_def reusable_new)
  have cr: "crypto (at_slot i p2) = Some a" "\<not> Crypto_GetCryptoEstablished (p_layers p2 ! a)"
    using s2 r by (simp_all add: r2_def p2_def)
  have fl: "flushed (enc_hello (m_id p) @ [INITIAL_CLIENT]) [False] = enc_hello (m_id p) @ [INITIAL_CLIENT, pack [False]]"
    by (simp add: flushed_def)
  obtain last out where reply: "Reply env i h3 False p2 = Inr (upd_slot 0 (\<lambda>r. r\<lparr>outbox := outbox r @ [out]\<rparr>)
      (upd_slot i (\<lambda>r. r\<lparr>handshake := Some (?h\<lparr>m_lastReply := last, m_resendAttempts := 1,
        m_resendNext := Timestamp_plus (e_now env) (FromMilliseconds CONNECT_RETRY_DELAY)\<rparr>)\<rparr>) p2))"
    "reusable last" "waiting (e_now env) (rp_addr (at_slot i p2)) (CONNECT_ATTEMPT # enc_hello (m_id p) @ [INITIAL_CLIENT, pack [False]]) out"
    using Reply_ok [OF s2(2) i(1) s2(3) hh cr h3(2,3), of env] by (auto simp: fl)
  let ?q = "upd_slot i (\<lambda>r. r\<lparr>rp_addr := addr, rp_socket := True\<rparr>) p"
  let ?hc = "(Handshaker_new False a SELF)\<lparr>m_replyHandler := True, m_completionHandler := True\<rparr>"
  let ?qc = "upd_slot i (\<lambda>r. r\<lparr>rp_addr := addr, rp_socket := True, handshake := Some ?hc\<rparr>) p"
  have cb: "SetupRemotePeerCallbacks i ?q = Inr ?qc"
    using i r(1) by (simp add: SetupRemotePeerCallbacks_def the_handshake_def upd_handshake_def) (simp add: upd_slot_def at_slot_def)
  have th: "the_handshake i ?qc = Inr ?hc" using i by (simp add: the_handshake_def)
  have up: "upd_handshake i (\<lambda>h. h\<lparr>m_expectedOpcode := INITIAL_SERVER\<rparr>) ?qc = p2"
    using i by (simp add: upd_handshake_def p2_def r2_def) (simp add: upd_slot_def at_slot_def)
  have "Begin env i ?qc = Reply env i h3 False p2"
    unfolding Begin_def th using h1(1) h2(1) h3(1) up i(5)
    by (simp add: GetMyPeerID_def GetEncryptionEnabled_def Handshaker_new_def)
  define r3 where "r3 = r2\<lparr>handshake := Some (?h\<lparr>m_lastReply := last, m_resendAttempts := 1,
        m_resendNext := Timestamp_plus (e_now env) (FromMilliseconds CONNECT_RETRY_DELAY)\<rparr>), active := True\<rparr>"
  define p3 where "p3 = upd_slot 0 (\<lambda>r. r\<lparr>outbox := outbox r @ [out]\<rparr>) (upd_slot i (\<lambda>_. r3) p)"
  have "OnSocketConnected env i False addr p = Inr (upd_slot i (\<lambda>r. r\<lparr>active := True\<rparr>)
      (upd_slot 0 (\<lambda>r. r\<lparr>outbox := outbox r @ [out]\<rparr>)
      (upd_slot i (\<lambda>r. r\<lparr>handshake := Some (?h\<lparr>m_lastReply := last, m_resendAttempts := 1,
        m_resendNext := Timestamp_plus (e_now env) (FromMilliseconds CONNECT_RETRY_DELAY)\<rparr>)\<rparr>) p2)))"
    unfolding OnSocketConnected_def using cb \<open>Begin env i ?qc = _\<close> reply(1) by simp
  also have "\<dots> = Inr p3" using i(1,2)
    by (simp add: p3_def p2_def r3_def upd_slot_def list_update_swap)
  finally have run: "OnSocketConnected env i False addr p = Inr p3" .
  have at3: "at_slot i (upd_slot i (\<lambda>_. r3) p) = r3" using i(2) by simp
  have "GetRemoteByAddress addr (upd_slot i (\<lambda>_. r3) p) = Some i"
    by (rule GetRemoteByAddress_new [OF none i(1,2,3)]) (simp_all add: r3_def r2_def)
  then have "in_handshake SELF INITIAL_SERVER i addr (upd_slot i (\<lambda>_. r3) p)"
    unfolding in_handshake_def at3 using i r reply(2)
    by (auto simp: r3_def r2_def Handshaker_new_def)
  then have "in_handshake SELF INITIAL_SERVER i addr p3" by (simp add: p3_def)
  moreover have "waiting (e_now env) addr (greeting (m_id p) INITIAL_CLIENT) out"
    using reply(3) s2(1) by (simp add: r2_def greeting_def)
  moreover have "rp_id r3 = rp_id (at_slot i p)" by (simp add: r3_def r2_def)
  ultimately show ?thesis using run p3_def by blast
qed


lemma greeting_body: "greeting who opcode = CONNECT_ATTEMPT # enc_hello who @ opcode # [pack [False]]"
  by (simp add: greeting_def)

text \<open>The server: a slot is set up for the greeting and the answer is queued.\<close>

lemma request_answered:
  assumes i: "0 < i" "i < length (m_remotes p)" "i < m_remotesMax p" "m_remotesMax p \<le> length (m_remotes p)" "\<not> m_crypto_enabled p"
    and h: "handshake (at_slot i p) = Some h" "hs_origin h = REMOTE" "m_replyHandler h" "reusable (m_lastReply h)"
    and r: "crypto (at_slot i p) = Some a" "\<not> Crypto_GetCryptoEstablished (p_layers p ! a)"
    and s: "reading s 0 [pack [False]]" and reply: "written reply (enc_hello (m_id p)) []" "copyable reply"
  shows "\<exists>last out. Handle_request env i s reply p = Inr (upd_slot 0 (\<lambda>r. r\<lparr>outbox := outbox r @ [out]\<rparr>)
      (upd_slot i (\<lambda>r. r\<lparr>handshake := Some (h\<lparr>m_expectedOpcode := UNENCRYPTED_ACK, m_lastReply := last, m_resendAttempts := 1,
        m_resendNext := Timestamp_plus (e_now env) (FromMilliseconds CONNECT_RETRY_DELAY)\<rparr>)\<rparr>) p)) \<and>
    reusable last \<and> waiting (e_now env) (rp_addr (at_slot i p)) (greeting (m_id p) INITIAL_SERVER) out"
proof -
  obtain s1 where s1: "ReadBool s = Inr (False, s1)" using reading_ReadBool [OF s] by (auto simp: pack_def)
  obtain h2 where h2: "WriteByte INITIAL_SERVER reply = Inr h2" "written h2 (enc_hello (m_id p) @ [INITIAL_SERVER]) []" "copyable h2"
    using WriteByte_copyable [OF reply, of INITIAL_SERVER] by (auto simp: flushed_def)
  obtain h3 where h3: "WriteBool False h2 = Inr h3" "written h3 (enc_hello (m_id p) @ [INITIAL_SERVER]) [False]" "copyable h3"
    using WriteBool_copyable [OF h2(2,3), of False] by auto
  let ?h = "h\<lparr>m_expectedOpcode := UNENCRYPTED_ACK\<rparr>"
  define p2 where "p2 = upd_slot i (\<lambda>r. r\<lparr>handshake := Some ?h\<rparr>) p"
  have s2: "i < length (m_remotes p2)" "0 < m_remotesMax p2" "handshake (at_slot i p2) = Some ?h" "rp_addr (at_slot i p2) = rp_addr (at_slot i p)"
    "crypto (at_slot i p2) = Some a" "\<not> Crypto_GetCryptoEstablished (p_layers p2 ! a)" "m_replyHandler ?h" "reusable (m_lastReply ?h)"
    using i r h by (simp_all add: p2_def)
  have cr: "\<not> m_crypto_enabled p2" using i(5) by (simp add: p2_def)
  have fl: "flushed (enc_hello (m_id p) @ [INITIAL_SERVER]) [False] = enc_hello (m_id p) @ [INITIAL_SERVER, pack [False]]"
    by (simp add: flushed_def)
  obtain last out where ro: "Reply env i h3 False p2 = Inr (upd_slot 0 (\<lambda>r. r\<lparr>outbox := outbox r @ [out]\<rparr>)
      (upd_slot i (\<lambda>r. r\<lparr>handshake := Some (?h\<lparr>m_lastReply := last, m_resendAttempts := 1,
        m_resendNext := Timestamp_plus (e_now env) (FromMilliseconds CONNECT_RETRY_DELAY)\<rparr>)\<rparr>) p2))"
    "reusable last" "waiting (e_now env) (rp_addr (at_slot i p)) (greeting (m_id p) INITIAL_SERVER) out"
    using Reply_ok [OF s2(1) i(1) s2(2,3,7,8,5,6) h3(2,3), of env] by (auto simp: fl s2(4) greeting_def)
  have up: "upd_handshake i (\<lambda>h. h\<lparr>m_expectedOpcode := UNENCRYPTED_ACK\<rparr>) p = p2"
    using h(1) i by (simp add: upd_handshake_def p2_def upd_slot_def at_slot_def)
  have "Handle_request env i s reply p = Reply env i h3 False p2"
    unfolding Handle_request_def the_handshake_def h(1) using h(2) r(1) s1 i(5) h2(1) h3(1) up cr
    by (simp add: GetEncryptionEnabled_def)
  moreover have "upd_slot i (\<lambda>r. r\<lparr>handshake := x\<rparr>) p2 = upd_slot i (\<lambda>r. r\<lparr>handshake := x\<rparr>) p" for x
    using i by (simp add: p2_def)
  ultimately show ?thesis using ro by auto
qed

text \<open>The slot of a newcomer when its first message is handed to the handshake.\<close>

definition newcomer_slot :: "Timestamp \<Rightarrow> RemoteAddress \<Rightarrow> nat \<Rightarrow> RemotePeer \<Rightarrow> RemotePeer" where
  "newcomer_slot now addr a r = r\<lparr>reserved := True, congestion := Some (CongestionControlWindow_new now), receipt := Some ReceiptTracker_new,
     crypto := Some a, handshake := Some ((Handshaker_new False a REMOTE)\<lparr>m_replyHandler := True, m_completionHandler := True\<rparr>),
     rp_socket := True, rp_addr := addr, active := True\<rparr>"

lemma newcomer_set_up:
  assumes f: "free_slot j q" "GetNextAvailableIncomingSlot q = Some j" "fresh_layer env q"
  shows "\<exists>layer. \<not> Crypto_GetCryptoEstablished layer \<and> (\<forall>packet. OnNewIncomingPeer env addr packet q =
    Handle env j packet ((upd_slot j (\<lambda>_. newcomer_slot (e_now env) addr (length (p_layers q)) (at_slot j q)) q)
      \<lparr>p_layers := p_layers q @ [layer]\<rparr>))"
proof -
  have i: "0 < j" "j < length (m_remotes q)" using f(1) by (simp_all add: free_slot_def)
  let ?a = "length (p_layers q)"
  let ?h = "(Handshaker_new False ?a REMOTE)\<lparr>m_replyHandler := True, m_completionHandler := True\<rparr>"
  obtain layer where layer: "RemotePeer_Setup env j REMOTE q = Inr ((upd_slot j (\<lambda>r. r\<lparr>reserved := True,
        congestion := Some (CongestionControlWindow_new (e_now env)), receipt := Some ReceiptTracker_new,
        crypto := Some ?a, handshake := Some (Handshaker_new False ?a REMOTE)\<rparr>) q)
      \<lparr>p_layers := p_layers q @ [layer]\<rparr>)" "\<not> Crypto_GetCryptoEstablished layer"
    using Setup_ok [OF f(1,3), of REMOTE] by auto
  define q0 where "q0 = (upd_slot j (\<lambda>r. r\<lparr>reserved := True,
        congestion := Some (CongestionControlWindow_new (e_now env)), receipt := Some ReceiptTracker_new,
        crypto := Some ?a, handshake := Some (Handshaker_new False ?a REMOTE)\<rparr>) q)\<lparr>p_layers := p_layers q @ [layer]\<rparr>"
  have cb: "SetupRemotePeerCallbacks j q0 = Inr (upd_slot j (\<lambda>r. r\<lparr>handshake := Some ?h\<rparr>) q0)"
    using i by (simp add: SetupRemotePeerCallbacks_def the_handshake_def upd_handshake_def q0_def upd_slot_def at_slot_def)
  have "upd_slot j (\<lambda>r. r\<lparr>rp_socket := True, rp_addr := addr, active := True\<rparr>) (upd_slot j (\<lambda>r. r\<lparr>handshake := Some ?h\<rparr>) q0) =
      (upd_slot j (\<lambda>_. newcomer_slot (e_now env) addr ?a (at_slot j q)) q)\<lparr>p_layers := p_layers q @ [layer]\<rparr>"
    using i by (simp add: q0_def newcomer_slot_def upd_slot_def at_slot_def)
  then have "OnNewIncomingPeer env addr packet q = Handle env j packet
      ((upd_slot j (\<lambda>_. newcomer_slot (e_now env) addr ?a (at_slot j q)) q)\<lparr>p_layers := p_layers q @ [layer]\<rparr>)" for packet
    using f(2) layer(1) cb by (simp add: OnNewIncomingPeer_def q0_def [symmetric])
  with layer(2) show ?thesis by blast
qed

lemma newcomer_answered:
  assumes f: "free_slot j q" "GetNextAvailableIncomingSlot q = Some j" "fresh_layer env q"
    and who: "GetRemoteByAddress addr q = None" "only_slot j who q"
  shows "\<exists>q' r out layers l. OnNewIncomingPeer env addr (packet_of 0 CONNECT_ATTEMPT (tl (greeting who INITIAL_CLIENT))) q = Inr q' \<and>
    q' = upd_slot 0 (\<lambda>r. r\<lparr>outbox := outbox r @ [out]\<rparr>) (upd_slot j (\<lambda>_. r) (q\<lparr>p_layers := layers, m_remoteLookup := l\<rparr>)) \<and>
    in_handshake REMOTE UNENCRYPTED_ACK j addr q' \<and> only_slot j who q' \<and> rp_id r = who \<and>
    waiting (e_now env) addr (greeting (m_id q) INITIAL_SERVER) out"
proof -
  have i: "0 < j" "j < length (m_remotes q)" "j < m_remotesMax q" "m_remotesMax q \<le> length (m_remotes q)" "\<not> m_crypto_enabled q"
    using f(1) by (simp_all add: free_slot_def)
  let ?a = "length (p_layers q)"
  let ?h = "(Handshaker_new False ?a REMOTE)\<lparr>m_replyHandler := True, m_completionHandler := True\<rparr>"
  define r1 where "r1 = newcomer_slot (e_now env) addr ?a (at_slot j q)"
  obtain layer where layer: "\<not> Crypto_GetCryptoEstablished layer" "\<And>packet. OnNewIncomingPeer env addr packet q =
      Handle env j packet ((upd_slot j (\<lambda>_. r1) q)\<lparr>p_layers := p_layers q @ [layer]\<rparr>)"
    using newcomer_set_up [OF f, of addr] unfolding r1_def by blast
  define q1 where "q1 = (upd_slot j (\<lambda>_. r1) q)\<lparr>p_layers := p_layers q @ [layer]\<rparr>"
  note set = layer(2) [folded q1_def]
  have at1: "at_slot j q1 = r1" "j < length (m_remotes q1)" using i by (simp_all add: q1_def)
  note r1_def = r1_def [unfolded newcomer_slot_def]
  have os1: "only_slot j who q1" using only_slot_upd [OF who(2)] by (simp add: q1_def only_slot_def)
  obtain competitor l where look: "GetRemoteByID who q1 = (competitor, q1\<lparr>m_remoteLookup := l\<rparr>)"
    "competitor = None \<or> competitor = Some j" "\<forall>x. x \<noteq> who \<longrightarrow> l x = m_remoteLookup q1 x" "l who = None \<or> l who = Some j"
    using only_slot_lookup [OF os1] by blast
  let ?q2 = "upd_slot j (\<lambda>r. r\<lparr>rp_id := who\<rparr>) (q1\<lparr>m_remoteLookup := l\<rparr>)"
  have hs: "handshake (at_slot j q1) = Some ?h" "\<not> IsDone ?h" by (simp_all add: at1 r1_def IsDone_def Handshaker_new_def)
  have len: "length (tl (greeting who INITIAL_CLIENT)) < 2 ^ 32" by (simp add: greeting_def)
  obtain s reply where hm: "Handle env j (packet_of 0 CONNECT_ATTEMPT (tl (greeting who INITIAL_CLIENT))) q1 =
      Handle_stage env j INITIAL_CLIENT s reply ?q2" "reading s 0 [pack [False]]" "written reply (enc_hello (m_id q1)) []" "copyable reply"
    using Handle_message [OF hs _ len look(1,2), where opcode = INITIAL_CLIENT and extra = "[pack [False]]" and
        env = env and sender = 0 and cmd = CONNECT_ATTEMPT] hs(1)
    by (auto simp: greeting_def)
  have st: "Handle_stage env j INITIAL_CLIENT s reply ?q2 = Handle_request env j s reply ?q2"
    using i at1 by (simp add: Handle_stage_def the_handshake_def r1_def Handshaker_new_def opcode_defs)
  have at2: "at_slot j ?q2 = r1\<lparr>rp_id := who\<rparr>" using at1 by simp
  have hr: "\<exists>last out. Handle_request env j s reply ?q2 = Inr (upd_slot 0 (\<lambda>r. r\<lparr>outbox := outbox r @ [out]\<rparr>)
      (upd_slot j (\<lambda>r. r\<lparr>handshake := Some (?h\<lparr>m_expectedOpcode := UNENCRYPTED_ACK, m_lastReply := last, m_resendAttempts := 1,
        m_resendNext := Timestamp_plus (e_now env) (FromMilliseconds CONNECT_RETRY_DELAY)\<rparr>)\<rparr>) ?q2)) \<and>
    reusable last \<and> waiting (e_now env) (rp_addr (at_slot j ?q2)) (greeting (m_id ?q2) INITIAL_SERVER) out"
    by (rule request_answered [where a = ?a])
      (use i hm at1 layer(1) at2 in \<open>simp_all add: q1_def r1_def Handshaker_new_def reusable_new\<close>)
  then obtain last out where ro: "Handle_request env j s reply ?q2 = Inr (upd_slot 0 (\<lambda>r. r\<lparr>outbox := outbox r @ [out]\<rparr>)
      (upd_slot j (\<lambda>r. r\<lparr>handshake := Some (?h\<lparr>m_expectedOpcode := UNENCRYPTED_ACK, m_lastReply := last, m_resendAttempts := 1,
        m_resendNext := Timestamp_plus (e_now env) (FromMilliseconds CONNECT_RETRY_DELAY)\<rparr>)\<rparr>) ?q2))"
    "reusable last" "waiting (e_now env) addr (greeting (m_id q) INITIAL_SERVER) out"
    unfolding at2 by (auto simp: r1_def q1_def)
  define r3 where "r3 = r1\<lparr>rp_id := who, handshake := Some (?h\<lparr>m_expectedOpcode := UNENCRYPTED_ACK, m_lastReply := last, m_resendAttempts := 1,
        m_resendNext := Timestamp_plus (e_now env) (FromMilliseconds CONNECT_RETRY_DELAY)\<rparr>)\<rparr>"
  define q3 where "q3 = upd_slot j (\<lambda>_. r3) (q\<lparr>p_layers := p_layers q @ [layer], m_remoteLookup := l\<rparr>)"
  have eq: "upd_slot j (\<lambda>r. r\<lparr>handshake := Some (?h\<lparr>m_expectedOpcode := UNENCRYPTED_ACK, m_lastReply := last, m_resendAttempts := 1,
        m_resendNext := Timestamp_plus (e_now env) (FromMilliseconds CONNECT_RETRY_DELAY)\<rparr>)\<rparr>) ?q2 = q3"
    using i by (simp add: q3_def q1_def r3_def upd_slot_def)
  have run: "OnNewIncomingPeer env addr (packet_of 0 CONNECT_ATTEMPT (tl (greeting who INITIAL_CLIENT))) q =
      Inr (upd_slot 0 (\<lambda>r. r\<lparr>outbox := outbox r @ [out]\<rparr>) q3)"
    unfolding set hm(1) st ro(1) eq ..
  have at3: "at_slot j q3 = r3" using i by (simp add: q3_def)
  have ga: "GetRemoteByAddress addr q3 = Some j"
    unfolding q3_def using who(1) i
    by (intro GetRemoteByAddress_new) (simp_all add: GetRemoteByAddress_def r3_def r1_def)
  have ih: "in_handshake REMOTE UNENCRYPTED_ACK j addr q3"
    unfolding in_handshake_def at3 using i ro(2) f(1) layer(1) ga
    by (auto simp: q3_def r3_def r1_def Handshaker_new_def free_slot_def)
  have os: "only_slot j who q3"
    unfolding only_slot_def q3_def using look(4) who(2)
    by (auto simp: only_slot_def upd_slot_def at_slot_def nth_list_update)
  show ?thesis
    using run ih os ro(3) q3_def
    by (intro exI [of _ "upd_slot 0 (\<lambda>r. r\<lparr>outbox := outbox r @ [out]\<rparr>) q3"] exI [of _ r3] exI [of _ out]
        exI [of _ "p_layers q @ [layer]"] exI [of _ l]) (simp add: r3_def)
qed

text \<open>A slot after the handshake.\<close>

definition established :: "slot \<Rightarrow> RemoteAddress \<Rightarrow> PeerID \<Rightarrow> Peer \<Rightarrow> bool" where
  "established i addr who p \<longleftrightarrow> link i addr p \<and> 0 < i \<and> IsConnected (at_slot i p) \<and> rp_id (at_slot i p) = who \<and>
     rp_addr (at_slot i p) = addr \<and> receipt (at_slot i p) \<noteq> None \<and> \<not> IsDisconnecting (at_slot i p) \<and>
     outbox (at_slot i p) = [] \<and> fst (GetRemoteByID who p) = Some i \<and>
     (\<exists>t. congestion (at_slot i p) = Some (CongestionControlWindow_new t))"

lemma established_frame [simp]:
  "established i addr who (upd_slot 0 f p) = established i addr who p"
  "established i addr who (p\<lparr>m_masterSocket := x\<rparr>) = established i addr who p"
proof -
  show "established i addr who (upd_slot 0 f p) = established i addr who p"
    unfolding established_def link_def secured_def fst_GetRemoteByID by (cases "0 < i") (simp_all cong: option.case_cong)
qed (simp_all add: established_def link_def fst_GetRemoteByID find_remote_def cong: option.case_cong)

text \<open>A message of the handshake reaches the stage function of its slot.\<close>

lemma handshake_received:
  assumes ih: "in_handshake origin expected i addr p" and os: "only_slot i who p"
    and body: "body = enc_hello who @ opcode # extra" "length body < 2 ^ 32"
  shows "\<exists>h l s reply. OnConnectAttempt env addr (packet_of 0 CONNECT_ATTEMPT body) p =
      Handle_stage env i opcode s reply (upd_slot i (\<lambda>r. r\<lparr>rp_id := who\<rparr>) (p\<lparr>m_remoteLookup := l\<rparr>)) \<and>
    reading s 0 extra \<and> written reply (enc_hello (m_id p)) [] \<and> copyable reply \<and> only_slot i who (p\<lparr>m_remoteLookup := l\<rparr>)"
proof -
  obtain h where h: "handshake (at_slot i p) = Some h" "\<not> IsDone h" and ga: "GetRemoteByAddress addr p = Some i"
    using ih by (auto simp: in_handshake_def IsDone_def)
  obtain competitor l where look: "GetRemoteByID who p = (competitor, p\<lparr>m_remoteLookup := l\<rparr>)"
    "competitor = None \<or> competitor = Some i" "l who = None \<or> l who = Some i" using only_slot_lookup [OF os] by blast
  have os': "only_slot i who (p\<lparr>m_remoteLookup := l\<rparr>)" using os look(3) by (simp add: only_slot_def)
  have "handshake (at_slot i (p\<lparr>m_remoteLookup := l\<rparr>)) = Some h" using h(1) by simp
  from Handle_message [OF h body look(1,2) this, where env = env and sender = 0 and cmd = CONNECT_ATTEMPT]
  obtain s reply where "Handle env i (packet_of 0 CONNECT_ATTEMPT body) p =
      Handle_stage env i opcode s reply (upd_slot i (\<lambda>r. r\<lparr>rp_id := who\<rparr>) (p\<lparr>m_remoteLookup := l\<rparr>))"
    "reading s 0 extra" "written reply (enc_hello (m_id p)) []" "copyable reply" by blast
  moreover have "OnConnectAttempt env addr (packet_of 0 CONNECT_ATTEMPT body) p = Handle env i (packet_of 0 CONNECT_ATTEMPT body) p"
    using ga h by (simp add: OnConnectAttempt_def the_handshake_def)
  ultimately show ?thesis using os' by auto
qed

definition farewell :: "PeerID \<Rightarrow> u8 list" where
  "farewell who = CONNECT_ATTEMPT # enc_hello who @ [UNENCRYPTED_ACK]"

text \<open>A slot in the handshake whose handshake becomes a success is established.\<close>

lemma success_establishes:
  assumes ih: "in_handshake origin opcode i addr p" and os: "only_slot i who q"
    and q: "m_remotes q = (m_remotes p)[i := (at_slot i p)\<lparr>rp_id := who, handshake := Some h\<rparr>]" "m_remotesMax q = m_remotesMax p"
      "p_layers q = p_layers p" and h: "hs_result h = CR_OK"
  shows "established i addr who q"
proof -
  let ?r = "(at_slot i p)\<lparr>rp_id := who, handshake := Some h\<rparr>"
  have i: "0 < i" "i < length (m_remotes p)" "GetRemoteByAddress addr p = Some i" "rp_addr (at_slot i p) = addr"
    using ih by (auto simp: in_handshake_def)
  have at: "at_slot i q = ?r" using q(1) i by (simp add: at_slot_def)
  have "i < m_remotesMax p" using i(3) find_SomeD unfolding GetRemoteByAddress_def by fastforce
  then have found: "fst (GetRemoteByID who q) = Some i"
    using only_slot_found [OF os i(1)] q(2) ih at by (simp add: in_handshake_def)
  have "GetRemoteByAddress addr q = GetRemoteByAddress addr (upd_slot i (\<lambda>_. ?r) p)"
    using q by (simp add: GetRemoteByAddress_def upd_slot_def at_slot_def)
  also have "\<dots> = Some i" using i by (simp add: GetRemoteByAddress_upd)
  finally show ?thesis unfolding established_def link_def secured_def at
    using ih h q found by (auto simp: in_handshake_def IsConnected_def IsDisconnecting_def Timestamp_IsValid_def)
qed

lemma answer_completes:
  assumes ih: "in_handshake SELF INITIAL_SERVER i addr p" and os: "only_slot i who p" and plain: "\<not> m_crypto_enabled p"
  shows "\<exists>p' r out l. OnConnectAttempt env addr (packet_of 0 CONNECT_ATTEMPT (tl (greeting who INITIAL_SERVER))) p = Inr p' \<and>
    p' = upd_slot 0 (\<lambda>r. r\<lparr>outbox := outbox r @ [out]\<rparr>) ((upd_slot i (\<lambda>_. r) (p\<lparr>m_remoteLookup := l\<rparr>))
      \<lparr>m_inbox := m_inbox p @ [packet_of who NOTIFY_CONNECT_SUCCESS [CR_OK]]\<rparr>) \<and>
    established i addr who p' \<and> waiting (e_now env) addr (farewell (m_id p)) out"
proof -
  obtain h a where h: "handshake (at_slot i p) = Some h" "hs_origin h = SELF" "m_expectedOpcode h = INITIAL_SERVER"
    "m_replyHandler h" "m_completionHandler h" "reusable (m_lastReply h)" "crypto (at_slot i p) = Some a"
    "\<not> Crypto_GetCryptoEstablished (p_layers p ! a)"
    and i: "0 < i" "i < length (m_remotes p)" "0 < m_remotesMax p" "rp_addr (at_slot i p) = addr"
    using ih by (auto simp: in_handshake_def)
  obtain l s reply where st: "OnConnectAttempt env addr (packet_of 0 CONNECT_ATTEMPT (tl (greeting who INITIAL_SERVER))) p =
      Handle_stage env i INITIAL_SERVER s reply (upd_slot i (\<lambda>r. r\<lparr>rp_id := who\<rparr>) (p\<lparr>m_remoteLookup := l\<rparr>))"
    "written reply (enc_hello (m_id p)) []" "copyable reply" "only_slot i who (p\<lparr>m_remoteLookup := l\<rparr>)"
    using handshake_received [OF ih os, of "tl (greeting who INITIAL_SERVER)" INITIAL_SERVER "[pack [False]]" env]
    by (auto simp: greeting_def)
  define p1 where "p1 = upd_slot i (\<lambda>r. r\<lparr>rp_id := who\<rparr>) (p\<lparr>m_remoteLookup := l\<rparr>)"
  have at1: "at_slot i p1 = (at_slot i p)\<lparr>rp_id := who\<rparr>" "i < length (m_remotes p1)" using i by (simp_all add: p1_def)
  obtain h2 where h2: "WriteByte UNENCRYPTED_ACK reply = Inr h2" "written h2 (enc_hello (m_id p) @ [UNENCRYPTED_ACK]) []" "copyable h2"
    using WriteByte_copyable [OF st(2,3), of UNENCRYPTED_ACK] by (auto simp: flushed_def)
  have hs1: "handshake (at_slot i p1) = Some h" using at1 h(1) by simp
  obtain last where co: "Complete i CR_OK p1 = Inr ((upd_slot i (\<lambda>r. r\<lparr>handshake := Some (h\<lparr>hs_result := CR_OK, m_lastReply := last\<rparr>)\<rparr>) p1)
      \<lparr>m_inbox := m_inbox p @ [packet_of who NOTIFY_CONNECT_SUCCESS [CR_OK]]\<rparr>)" "reusable last"
    using Complete_ok [OF at1(2) hs1 h(5,6) refl] h(2) at1(1) by (auto simp: p1_def)
  define p2 where "p2 = (upd_slot i (\<lambda>r. r\<lparr>handshake := Some (h\<lparr>hs_result := CR_OK, m_lastReply := last\<rparr>)\<rparr>) p1)
      \<lparr>m_inbox := m_inbox p @ [packet_of who NOTIFY_CONNECT_SUCCESS [CR_OK]]\<rparr>"
  let ?h = "h\<lparr>hs_result := CR_OK, m_lastReply := last\<rparr>"
  have at2: "at_slot i p2 = (at_slot i p)\<lparr>rp_id := who, handshake := Some ?h\<rparr>" "i < length (m_remotes p2)" "0 < m_remotesMax p2"
    "p_layers p2 = p_layers p" using i at1 by (simp_all add: p2_def p1_def)
  obtain last' out where ro: "Reply env i h2 False p2 = Inr (upd_slot 0 (\<lambda>r. r\<lparr>outbox := outbox r @ [out]\<rparr>)
      (upd_slot i (\<lambda>r. r\<lparr>handshake := Some (?h\<lparr>m_lastReply := last', m_resendAttempts := 1,
        m_resendNext := Timestamp_plus (e_now env) (FromMilliseconds CONNECT_RETRY_DELAY)\<rparr>)\<rparr>) p2))"
    "waiting (e_now env) addr (farewell (m_id p)) out"
  proof -
    have hh: "handshake (at_slot i p2) = Some ?h" "m_replyHandler ?h" "reusable (m_lastReply ?h)" "crypto (at_slot i p2) = Some a"
      "\<not> Crypto_GetCryptoEstablished (p_layers p2 ! a)" "rp_addr (at_slot i p2) = addr"
      using at2 h(4,7,8) co(2) i(4) by simp_all
    show thesis using that Reply_ok [OF at2(2) i(1) at2(3) hh(1-5) h2(2,3), of env] hh(6)
      by (auto simp: flushed_def farewell_def)
  qed
  let ?h' = "?h\<lparr>m_lastReply := last', m_resendAttempts := 1,
        m_resendNext := Timestamp_plus (e_now env) (FromMilliseconds CONNECT_RETRY_DELAY)\<rparr>"
  define r3 where "r3 = (at_slot i p)\<lparr>rp_id := who, handshake := Some ?h'\<rparr>"
  define p3 where "p3 = (upd_slot i (\<lambda>_. r3) (p\<lparr>m_remoteLookup := l\<rparr>))
      \<lparr>m_inbox := m_inbox p @ [packet_of who NOTIFY_CONNECT_SUCCESS [CR_OK]]\<rparr>"
  have eq: "upd_slot i (\<lambda>r. r\<lparr>handshake := Some ?h'\<rparr>) p2 = p3"
    using i by (simp add: p3_def p2_def p1_def r3_def upd_slot_def at_slot_def)
  have "Handle_stage env i INITIAL_SERVER s reply p1 = Handle_answer env i reply p1"
    using hs1 h(3) by (simp add: Handle_stage_def the_handshake_def opcode_defs)
  also have "\<dots> = Reply env i h2 False p2"
    unfolding Handle_answer_def the_handshake_def hs1 using h(2) plain h2(1) co(1)
    by (simp add: GetEncryptionEnabled_def p1_def [symmetric] p2_def [symmetric]) (simp add: p1_def)
  finally have run: "OnConnectAttempt env addr (packet_of 0 CONNECT_ATTEMPT (tl (greeting who INITIAL_SERVER))) p =
      Inr (upd_slot 0 (\<lambda>r. r\<lparr>outbox := outbox r @ [out]\<rparr>) p3)"
    using st(1) ro(1) eq by (simp add: p1_def)
  have "only_slot i who p3" using only_slot_upd [OF st(4)] by (simp add: p3_def)
  then have "established i addr who p3"
    by (rule success_establishes [OF ih, where h = ?h']) (simp_all add: p3_def r3_def upd_slot_def at_slot_def)
  then show ?thesis using run ro(2) p3_def
    by (intro exI [of _ "upd_slot 0 (\<lambda>r. r\<lparr>outbox := outbox r @ [out]\<rparr>) p3"] exI [of _ r3] exI [of _ out] exI [of _ l]) simp
qed

lemma farewell_completes:
  assumes ih: "in_handshake REMOTE UNENCRYPTED_ACK i addr p" and os: "only_slot i who p"
  shows "\<exists>p' r l. OnConnectAttempt env addr (packet_of 0 CONNECT_ATTEMPT (tl (farewell who))) p = Inr p' \<and>
    p' = (upd_slot i (\<lambda>_. r) (p\<lparr>m_remoteLookup := l\<rparr>))\<lparr>m_inbox := m_inbox p @ [packet_of who NOTIFY_CONNECTION_INCOMING [CR_OK]]\<rparr> \<and>
    established i addr who p'"
proof -
  obtain h where h: "handshake (at_slot i p) = Some h" "hs_origin h = REMOTE" "m_expectedOpcode h = UNENCRYPTED_ACK"
    "m_completionHandler h" "reusable (m_lastReply h)" and i: "i < length (m_remotes p)"
    using ih by (auto simp: in_handshake_def)
  obtain l s reply where st: "OnConnectAttempt env addr (packet_of 0 CONNECT_ATTEMPT (tl (farewell who))) p =
      Handle_stage env i UNENCRYPTED_ACK s reply (upd_slot i (\<lambda>r. r\<lparr>rp_id := who\<rparr>) (p\<lparr>m_remoteLookup := l\<rparr>))"
    "only_slot i who (p\<lparr>m_remoteLookup := l\<rparr>)"
    using handshake_received [OF ih os, of "tl (farewell who)" UNENCRYPTED_ACK "[]" env] by (auto simp: farewell_def)
  define p1 where "p1 = upd_slot i (\<lambda>r. r\<lparr>rp_id := who\<rparr>) (p\<lparr>m_remoteLookup := l\<rparr>)"
  have at1: "at_slot i p1 = (at_slot i p)\<lparr>rp_id := who\<rparr>" "i < length (m_remotes p1)" using i by (simp_all add: p1_def)
  have hs1: "handshake (at_slot i p1) = Some h" using at1 h(1) by simp
  obtain last where co: "Complete i CR_OK p1 = Inr ((upd_slot i (\<lambda>r. r\<lparr>handshake := Some (h\<lparr>hs_result := CR_OK, m_lastReply := last\<rparr>)\<rparr>) p1)
      \<lparr>m_inbox := m_inbox p @ [packet_of who NOTIFY_CONNECTION_INCOMING [CR_OK]]\<rparr>)"
    using Complete_ok [OF at1(2) hs1 h(4,5) refl] h(2) at1(1) by (auto simp: p1_def)
  define r3 where "r3 = (at_slot i p)\<lparr>rp_id := who, handshake := Some (h\<lparr>hs_result := CR_OK, m_lastReply := last\<rparr>)\<rparr>"
  define p3 where "p3 = (upd_slot i (\<lambda>_. r3) (p\<lparr>m_remoteLookup := l\<rparr>))
      \<lparr>m_inbox := m_inbox p @ [packet_of who NOTIFY_CONNECTION_INCOMING [CR_OK]]\<rparr>"
  have "Handle_stage env i UNENCRYPTED_ACK s reply p1 = Complete i CR_OK p1"
    using hs1 h(2,3) by (simp add: Handle_stage_def the_handshake_def opcode_defs)
  also have "\<dots> = Inr p3" using co i by (simp add: p3_def p1_def r3_def upd_slot_def at_slot_def)
  finally have run: "OnConnectAttempt env addr (packet_of 0 CONNECT_ATTEMPT (tl (farewell who))) p = Inr p3"
    using st(1) by (simp add: p1_def)
  have "only_slot i who p3" using only_slot_upd [OF st(2)] by (simp add: p3_def)
  then have "established i addr who p3"
    by (rule success_establishes [OF ih, where h = "h\<lparr>hs_result := CR_OK, m_lastReply := last\<rparr>"]) (simp_all add: p3_def r3_def upd_slot_def at_slot_def)
  then show ?thesis using run p3_def by blast
qed

section \<open>The whole exchange\<close>

definition can_call :: "Env \<Rightarrow> slot \<Rightarrow> u8 list \<Rightarrow> u16 \<Rightarrow> RemoteAddress \<Rightarrow> PeerID \<Rightarrow> Peer \<Rightarrow> bool" where
  "can_call env i host port addr who p \<longleftrightarrow> free_slot i p \<and> GetNextAvailableConnectSlot p = Some i \<and> fresh_layer env p \<and>
     oob_ready 200 p \<and> outbox (at_slot 0 p) = [] \<and> GetRemoteByAddress addr p = None \<and> only_slot i who p \<and> rp_id (at_slot i p) = 0 \<and>
     su_posted (m_masterSocket p) = [] \<and> su_joinable (m_masterSocket p) \<and> \<not> m_socketThreadAbort (m_masterSocket p) \<and>
     su_state (m_masterSocket p) = OPEN \<and> su_is_open (m_masterSocket p) \<and> host \<noteq> [] \<and> port \<noteq> 0 \<and>
     SocketUDP_Resolve (e_net env) host port (m_masterSocket p) = Some addr"

definition can_answer :: "Env \<Rightarrow> slot \<Rightarrow> RemoteAddress \<Rightarrow> PeerID \<Rightarrow> Peer \<Rightarrow> bool" where
  "can_answer env j addr who q \<longleftrightarrow> free_slot j q \<and> GetNextAvailableIncomingSlot q = Some j \<and> fresh_layer env q \<and>
     oob_ready 100 q \<and> outbox (at_slot 0 q) = [] \<and> GetRemoteByAddress addr q = None \<and> only_slot j who q"

lemma length_greeting [simp]: "length (greeting who opcode) = 19" "length (farewell who) = 18"
  by (simp_all add: greeting_def farewell_def)

lemma Connect_ok:
  assumes c: "can_call env i host port addr who p" and who: "who \<noteq> 0"
  shows "\<exists>p1 p2 out. Connect env host port None p = Inr (OK, p1) \<and> socket_connected env p1 = Inr p2 \<and>
    in_handshake SELF INITIAL_SERVER i addr p2 \<and> only_slot i who p2 \<and> outbox (at_slot 0 p2) = [out] \<and>
    waiting (e_now env) addr (greeting (m_id p) INITIAL_CLIENT) out \<and> oob_ready 200 p2 \<and> m_id p2 = m_id p \<and>
    m_inbox p2 = m_inbox p"
proof -
  have f: "free_slot i p" "GetNextAvailableConnectSlot p = Some i" "fresh_layer env p" "oob_ready 200 p" "outbox (at_slot 0 p) = []"
    "GetRemoteByAddress addr p = None" "only_slot i who p" "rp_id (at_slot i p) = 0"
    using c by (simp_all add: can_call_def)
  have i: "0 < i" "i < length (m_remotes p)" "i < m_remotesMax p" "m_remotesMax p \<le> length (m_remotes p)" "\<not> m_crypto_enabled p"
    "disconnect (at_slot i p) = 0" "outbox (at_slot i p) = []" using f(1) by (simp_all add: free_slot_def)
  let ?a = "length (p_layers p)"
  obtain layer where layer: "RemotePeer_Setup env i SELF p = Inr ((upd_slot i (\<lambda>r. r\<lparr>reserved := True,
        congestion := Some (CongestionControlWindow_new (e_now env)), receipt := Some ReceiptTracker_new,
        crypto := Some ?a, handshake := Some (Handshaker_new False ?a SELF)\<rparr>) p)
      \<lparr>p_layers := p_layers p @ [layer]\<rparr>)" "\<not> Crypto_GetCryptoEstablished layer"
    using Setup_ok [OF f(1,3), of SELF] by auto
  define p0 where "p0 = (upd_slot i (\<lambda>r. r\<lparr>reserved := True,
        congestion := Some (CongestionControlWindow_new (e_now env)), receipt := Some ReceiptTracker_new,
        crypto := Some ?a, handshake := Some (Handshaker_new False ?a SELF)\<rparr>) p)\<lparr>p_layers := p_layers p @ [layer]\<rparr>"
  define p1 where "p1 = p0\<lparr>m_masterSocket := (m_masterSocket p)\<lparr>su_posted := [(i, False, addr)]\<rparr>\<rparr>"
  have con: "Connect env host port None p = Inr (OK, p1)"
    using f(2) layer(1) c
    by (simp add: Connect_def p0_def [symmetric] SocketUDP_Connect_def can_call_def GetState_def IsOpenAndReady_def p1_def)
       (simp add: p0_def)
  define q where "q = p0\<lparr>m_masterSocket := (m_masterSocket p)\<lparr>su_posted := []\<rparr>\<rparr>"
  have sc: "socket_connected env p1 = OnSocketConnected env i False addr q"
    using c by (simp add: socket_connected_def SocketUDP_ThreadWorker_def p1_def q_def can_call_def)
  have atq: "at_slot i q = (at_slot i p)\<lparr>reserved := True,
        congestion := Some (CongestionControlWindow_new (e_now env)), receipt := Some ReceiptTracker_new,
        crypto := Some ?a, handshake := Some (Handshaker_new False ?a SELF)\<rparr>" "at_slot 0 q = at_slot 0 p"
    using i by (simp_all add: q_def p0_def)
  have gq: "GetRemoteByAddress addr q = None"
    using f(6) GetRemoteByAddress_upd [of i p _ addr] i by (simp add: q_def p0_def GetRemoteByAddress_def)
  obtain p2 r out where oc: "OnSocketConnected env i False addr q = Inr p2"
    "p2 = upd_slot 0 (\<lambda>r. r\<lparr>outbox := outbox r @ [out]\<rparr>) (upd_slot i (\<lambda>_. r) q)" "rp_id r = rp_id (at_slot i q)"
    "in_handshake SELF INITIAL_SERVER i addr p2" "waiting (e_now env) addr (greeting (m_id q) INITIAL_CLIENT) out"
    using connected_calls [of i q ?a "e_now env" addr env] i atq layer(2) gq by (auto simp: q_def p0_def)
  have "only_slot i who q" using only_slot_upd [OF f(7)] by (simp add: q_def p0_def only_slot_def)
  then have "only_slot i who p2" using oc(2) by (simp add: only_slot_upd)
  moreover have len: "0 < length (m_remotes q)" using i(2) by (auto simp: q_def p0_def)
  then have at0: "at_slot 0 p2 = (at_slot 0 p)\<lparr>outbox := [out]\<rparr>" using oc(2) i(1) atq(2) f(5) by simp
  moreover have "oob_ready 200 p2"
    using f(4) oc(2) len unfolding oob_ready_def at0 by (simp add: q_def p0_def)
  ultimately show ?thesis using con sc oc by (auto simp: q_def p0_def)
qed


lemma arrived_unknown: "GetRemoteByAddress addr p = None \<Longrightarrow> arrived addr data p = p\<lparr>m_masterSocket := fill_readbuf data (m_masterSocket p)\<rparr>"
  by (simp add: arrived_def)

lemma in_handshake_unsecured:
  assumes "in_handshake origin opcode i addr p" "GetRemoteByAddress addr p = Some k"
  shows "k < length (m_remotes p) \<and> \<not> secured k p"
  using assms by (auto simp: in_handshake_def secured_def)

lemma arrived_known:
  assumes "in_handshake origin opcode i addr p"
  shows "in_handshake origin opcode i addr (arrived addr data p)" "only_slot i who p \<Longrightarrow> only_slot i who (arrived addr data p)"
    "at_slot 0 (arrived addr data p) = at_slot 0 p" "m_inbox (arrived addr data p) = m_inbox p" "m_id (arrived addr data p) = m_id p"
    "m_crypto_enabled (arrived addr data p) = m_crypto_enabled p" "length (m_remotes (arrived addr data p)) = length (m_remotes p)"
    "m_masterSocket (arrived addr data p) = fill_readbuf data (m_masterSocket p)"
proof -
  have i: "GetRemoteByAddress addr p = Some i" "0 < i" "i < length (m_remotes p)" using assms by (auto simp: in_handshake_def)
  let ?p = "p\<lparr>m_masterSocket := fill_readbuf data (m_masterSocket p)\<rparr>"
  have a: "arrived addr data p = upd_slot i (\<lambda>r. r\<lparr>rp_stats := PeerStats_Add BYTES_RECEIVED (length data)
      (PeerStats_Add DATAGRAMS_RECEIVED 1 (rp_stats r))\<rparr>) ?p"
    using i by (simp add: arrived_def count_datagram_def upd_stats_def)
  have "in_handshake origin opcode i addr ?p" using assms by simp
  then show "in_handshake origin opcode i addr (arrived addr data p)"
    unfolding a using i by (auto simp: in_handshake_def GetRemoteByAddress_upd)
  show "only_slot i who p \<Longrightarrow> only_slot i who (arrived addr data p)" unfolding a by (simp add: only_slot_upd)
  show "at_slot 0 (arrived addr data p) = at_slot 0 p" "m_inbox (arrived addr data p) = m_inbox p" "m_id (arrived addr data p) = m_id p"
    "m_crypto_enabled (arrived addr data p) = m_crypto_enabled p" "length (m_remotes (arrived addr data p)) = length (m_remotes p)"
    "m_masterSocket (arrived addr data p) = fill_readbuf data (m_masterSocket p)"
    unfolding a using i by simp_all
qed

text \<open>An out-of-band packet is handed to the socket, and the write completes.\<close>

lemma send_oob:
  assumes r: "oob_ready (length bs + 18 + n) p" and w: "waiting t addr bs out" "t \<le> e_now env" and os: "outbox (at_slot 0 p) = [out]"
    and bs: "bs \<noteq> []" "length bs \<le> 1200"
  shows "\<exists>p3 p4 did r s3 s4. DoWriteCycle env 0 p = Inr p3 \<and>
    su_write (m_masterSocket p3) = Some (addr, oob_datagram did bs, (0, did)) \<and>
    p3 = (upd_slot 0 (\<lambda>_. r) p)\<lparr>m_masterSocket := s3\<rparr> \<and> outbox r = [] \<and>
    socket_written False p3 = Inr p4 \<and> p4 = (upd_slot 0 (\<lambda>_. r) p)\<lparr>m_masterSocket := s4\<rparr> \<and> oob_ready n p4"
proof -
  have r0: "oob_ready (length bs + 18) p" using r by (auto simp: oob_ready_def)
  obtain r' did where w3: "DoWriteCycle env 0 p = Inr ((upd_slot 0 (\<lambda>_. r') p)\<lparr>m_masterSocket :=
        BeginWrite addr (oob_datagram did bs) (0, did) (m_masterSocket p)\<rparr>)" "outbox r' = []"
    "oob_ready n ((upd_slot 0 (\<lambda>_. r') p)\<lparr>m_masterSocket := (m_masterSocket p)\<lparr>m_sending := False, su_write := None\<rparr>\<rparr>)"
    using oob_written [OF r0 w os bs, of None] r by blast
  then show ?thesis
    by (intro exI conjI) (auto simp: BeginWrite_def socket_written_def write_completion_def OnWriteFinished_def)
qed

text \<open>The three receptions of the exchange: the first message at a peer that does not know the sender, the
  answer at the caller, and the last message at the peer that was called.\<close>

lemma hello_bytes: "greeting who opcode = CONNECT_ATTEMPT # tl (greeting who opcode)" "farewell who = CONNECT_ATTEMPT # tl (farewell who)"
  by (simp_all add: greeting_def farewell_def)

lemma greeting_received:
  assumes s: "can_answer env j addr who q"
  shows "\<exists>q1 out. socket_read env False addr (oob_datagram did (greeting who INITIAL_CLIENT)) q = Inr q1 \<and>
    in_handshake REMOTE UNENCRYPTED_ACK j addr q1 \<and> only_slot j who q1 \<and> outbox (at_slot 0 q1) = [out] \<and>
    waiting (e_now env) addr (greeting (m_id q) INITIAL_SERVER) out \<and> oob_ready 100 q1 \<and> m_inbox q1 = m_inbox q \<and> m_id q1 = m_id q"
proof -
  have q: "free_slot j q" "GetNextAvailableIncomingSlot q = Some j" "fresh_layer env q" "oob_ready 100 q" "outbox (at_slot 0 q) = []"
    "GetRemoteByAddress addr q = None" "only_slot j who q" using s by (simp_all add: can_answer_def)
  let ?d1 = "oob_datagram did (greeting who INITIAL_CLIENT)"
  let ?q0 = "q\<lparr>m_masterSocket := fill_readbuf ?d1 (m_masterSocket q)\<rparr>"
  have "free_slot j ?q0" "GetNextAvailableIncomingSlot ?q0 = Some j" "fresh_layer env ?q0" "GetRemoteByAddress addr ?q0 = None"
    "only_slot j who ?q0" using q
    by (simp_all add: free_slot_def fresh_layer_def GetNextAvailableIncomingSlot_def GetMaximumIncomingPeers_def Let_def
      split: if_splits sum.splits)
  from newcomer_answered [OF this] obtain q1' rj out layers l where k2:
    "OnNewIncomingPeer env addr (packet_of 0 CONNECT_ATTEMPT (tl (greeting who INITIAL_CLIENT))) ?q0 = Inr q1'"
    "q1' = upd_slot 0 (\<lambda>r. r\<lparr>outbox := outbox r @ [out]\<rparr>) (upd_slot j (\<lambda>_. rj) (?q0\<lparr>p_layers := layers, m_remoteLookup := l\<rparr>))"
    "in_handshake REMOTE UNENCRYPTED_ACK j addr q1'" "only_slot j who q1'"
    "waiting (e_now env) addr (greeting (m_id q) INITIAL_SERVER) out" by auto
  define q1 where "q1 = q1'\<lparr>m_masterSocket := after_read False (m_masterSocket q1')\<rparr>"
  have r1: "socket_read env False addr ?d1 q = Inr q1"
    using connect_received [OF hello_bytes(1), of who INITIAL_CLIENT addr q env did] q(6) k2(1)
    by (simp add: arrived_unknown OnConnectAttempt_def q1_def)
  have j: "0 < j" using q(1) by (simp add: free_slot_def)
  have at1: "at_slot 0 q1 = (at_slot 0 q)\<lparr>outbox := [out]\<rparr>"
    using j q(4,5) by (simp add: q1_def k2(2) oob_ready_def)
  have "oob_ready 100 q1"
    using q(4) unfolding oob_ready_def at1 by (simp add: q1_def k2(2) after_read_def BeginRead_def fill_readbuf_def Let_def)
  moreover have "m_inbox q1 = m_inbox q" "m_id q1 = m_id q" by (simp_all add: q1_def k2(2))
  ultimately show ?thesis using r1 at1 k2(3-5) by (simp add: q1_def)
qed

lemma answer_received:
  assumes ih: "in_handshake SELF INITIAL_SERVER i addr p" and os: "only_slot i who p" and r: "oob_ready n p" and out: "outbox (at_slot 0 p) = []"
  shows "\<exists>p1 out. socket_read env False addr (oob_datagram did (greeting who INITIAL_SERVER)) p = Inr p1 \<and>
    established i addr who p1 \<and> outbox (at_slot 0 p1) = [out] \<and> waiting (e_now env) addr (farewell (m_id p)) out \<and> oob_ready n p1 \<and>
    m_inbox p1 = m_inbox p @ [packet_of who NOTIFY_CONNECT_SUCCESS [CR_OK]]"
proof -
  let ?d = "oob_datagram did (greeting who INITIAL_SERVER)"
  let ?p0 = "arrived addr ?d p"
  note a = arrived_known [OF ih, where data = ?d]
  have plain: "\<not> m_crypto_enabled ?p0" using r a(6) by (simp add: oob_ready_def)
  obtain p1' r1 out1 l where k: "OnConnectAttempt env addr (packet_of 0 CONNECT_ATTEMPT (tl (greeting who INITIAL_SERVER))) ?p0 = Inr p1'"
    "p1' = upd_slot 0 (\<lambda>r. r\<lparr>outbox := outbox r @ [out1]\<rparr>) ((upd_slot i (\<lambda>_. r1) (?p0\<lparr>m_remoteLookup := l\<rparr>))
      \<lparr>m_inbox := m_inbox ?p0 @ [packet_of who NOTIFY_CONNECT_SUCCESS [CR_OK]]\<rparr>)"
    "established i addr who p1'" "waiting (e_now env) addr (farewell (m_id p)) out1"
    using answer_completes [OF a(1) _ plain, of who env] a(2) [OF os] a(5) by auto
  define p1 where "p1 = p1'\<lparr>m_masterSocket := after_read False (m_masterSocket p1')\<rparr>"
  have r1: "socket_read env False addr ?d p = Inr p1"
    using connect_received [OF hello_bytes(1), of who INITIAL_SERVER addr p env did] in_handshake_unsecured [OF ih] k(1)
    by (simp add: p1_def)
  have i: "0 < i" using ih by (simp add: in_handshake_def)
  have at1: "at_slot 0 p1 = (at_slot 0 p)\<lparr>outbox := [out1]\<rparr>"
    using i r out a(3,7) by (simp add: p1_def k(2) oob_ready_def)
  have "oob_ready n p1"
    using r a(6-8) unfolding oob_ready_def at1 by (simp add: p1_def k(2) after_read_def BeginRead_def fill_readbuf_def Let_def)
  moreover have "m_inbox p1 = m_inbox p @ [packet_of who NOTIFY_CONNECT_SUCCESS [CR_OK]]" by (simp add: p1_def k(2) a(4))
  ultimately show ?thesis using r1 at1 k(3,4) by (simp add: p1_def)
qed

lemma farewell_received:
  assumes ih: "in_handshake REMOTE UNENCRYPTED_ACK i addr p" and os: "only_slot i who p" and r: "oob_ready n p"
  shows "\<exists>p1. socket_read env False addr (oob_datagram did (farewell who)) p = Inr p1 \<and> established i addr who p1 \<and> oob_ready n p1 \<and>
    m_inbox p1 = m_inbox p @ [packet_of who NOTIFY_CONNECTION_INCOMING [CR_OK]]"
proof -
  let ?d = "oob_datagram did (farewell who)"
  note a = arrived_known [OF ih, where data = ?d]
  obtain p1' r1 l where k: "OnConnectAttempt env addr (packet_of 0 CONNECT_ATTEMPT (tl (farewell who))) (arrived addr ?d p) = Inr p1'"
    "p1' = (upd_slot i (\<lambda>_. r1) ((arrived addr ?d p)\<lparr>m_remoteLookup := l\<rparr>))\<lparr>m_inbox := m_inbox p @ [packet_of who NOTIFY_CONNECTION_INCOMING [CR_OK]]\<rparr>"
    "established i addr who p1'"
    using farewell_completes [OF a(1) a(2) [OF os], of env] a(4) by auto
  have i: "0 < i" using ih by (simp add: in_handshake_def)
  let ?p1 = "p1'\<lparr>m_masterSocket := after_read False (m_masterSocket p1')\<rparr>"
  have at: "at_slot 0 ?p1 = at_slot 0 p" using i a(3) by (simp add: k(2))
  have "oob_ready n ?p1"
    using r a(6-8) unfolding oob_ready_def at by (simp add: k(2) after_read_def BeginRead_def fill_readbuf_def Let_def)
  then show ?thesis using k
    using connect_received [OF hello_bytes(2), of who addr p env did] in_handshake_unsecured [OF ih] by simp
qed

text \<open>One write of slot \<open>i\<close> of a peer, whose datagram the network carries to the peer at the address \<open>dst\<close>.\<close>

definition transmit :: "Env \<Rightarrow> slot \<Rightarrow> RemoteAddress \<Rightarrow> RemoteAddress \<Rightarrow> Env \<Rightarrow> Peer \<Rightarrow> Peer \<Rightarrow> (Peer \<times> Peer) result" where
  "transmit env i src dst env' p q =
     rbind (DoWriteCycle env i p) (\<lambda>p. case su_write (m_masterSocket p) of
         None \<Rightarrow> Inr (p, q)
       | Some (addr, data, _) \<Rightarrow>
           rbind (socket_written False p) (\<lambda>p.
           if addr = dst then rbind (socket_read env' False src data q) (\<lambda>q. Inr (p, q)) else Inr (p, q)))"

lemma handshake_exchange:
  assumes c: "can_call env i host port addrB (m_id q) p" and s: "can_answer env' j addrA (m_id p) q"
    and ids: "m_id p \<noteq> 0" "m_id q \<noteq> 0"
  shows "\<exists>p1 p2 p3 p4 p5 q1 q2 q3. Connect env host port None p = Inr (OK, p1) \<and> socket_connected env p1 = Inr p2 \<and>
    transmit env 0 addrA addrB env' p2 q = Inr (p3, q1) \<and>
    transmit env' 0 addrB addrA env q1 p3 = Inr (q2, p4) \<and>
    transmit env 0 addrA addrB env' p4 q2 = Inr (p5, q3) \<and>
    established i addrB (m_id q) p5 \<and> established j addrA (m_id p) q3 \<and> oob_ready 0 p5 \<and> oob_ready 0 q3 \<and>
    m_inbox p5 = m_inbox p @ [packet_of (m_id q) NOTIFY_CONNECT_SUCCESS [CR_OK]] \<and>
    m_inbox q3 = m_inbox q @ [packet_of (m_id p) NOTIFY_CONNECTION_INCOMING [CR_OK]]"
proof -
  obtain p1 p2 out1 where k1: "Connect env host port None p = Inr (OK, p1)" "socket_connected env p1 = Inr p2"
    "in_handshake SELF INITIAL_SERVER i addrB p2" "only_slot i (m_id q) p2" "outbox (at_slot 0 p2) = [out1]"
    "waiting (e_now env) addrB (greeting (m_id p) INITIAL_CLIENT) out1" "oob_ready 200 p2" "m_id p2 = m_id p" "m_inbox p2 = m_inbox p"
    using Connect_ok [OF c ids(2)] by blast
  obtain p2' p3 did1 r3 s3 where w1: "DoWriteCycle env 0 p2 = Inr p2'"
    "su_write (m_masterSocket p2') = Some (addrB, oob_datagram did1 (greeting (m_id p) INITIAL_CLIENT), (0, did1))"
    "socket_written False p2' = Inr p3" "p3 = (upd_slot 0 (\<lambda>_. r3) p2)\<lparr>m_masterSocket := s3\<rparr>" "outbox r3 = []" "oob_ready 163 p3"
    using send_oob [OF _ k1(6) order.refl k1(5), of 163] k1(7) by (auto simp: greeting_def)
  obtain q1 out2 where k2: "socket_read env' False addrA (oob_datagram did1 (greeting (m_id p) INITIAL_CLIENT)) q = Inr q1"
    "in_handshake REMOTE UNENCRYPTED_ACK j addrA q1" "only_slot j (m_id p) q1" "outbox (at_slot 0 q1) = [out2]"
    "waiting (e_now env') addrA (greeting (m_id q) INITIAL_SERVER) out2" "oob_ready 100 q1" "m_inbox q1 = m_inbox q"
    using greeting_received [OF s] by blast
  obtain q1' q2 did2 r2 s2 where w2: "DoWriteCycle env' 0 q1 = Inr q1'"
    "su_write (m_masterSocket q1') = Some (addrA, oob_datagram did2 (greeting (m_id q) INITIAL_SERVER), (0, did2))"
    "socket_written False q1' = Inr q2" "q2 = (upd_slot 0 (\<lambda>_. r2) q1)\<lparr>m_masterSocket := s2\<rparr>" "oob_ready 63 q2"
    using send_oob [OF _ k2(5) order.refl k2(4), of 63] k2(6) by (auto simp: greeting_def)
  have p3: "in_handshake SELF INITIAL_SERVER i addrB p3" "only_slot i (m_id q) p3" "outbox (at_slot 0 p3) = []" "m_id p3 = m_id p" "m_inbox p3 = m_inbox p"
    using w1(4,5) k1(3,4,8,9) k1(7) by (simp_all add: oob_ready_def)
  obtain p4 out3 where k3: "socket_read env False addrB (oob_datagram did2 (greeting (m_id q) INITIAL_SERVER)) p3 = Inr p4"
    "established i addrB (m_id q) p4" "outbox (at_slot 0 p4) = [out3]" "waiting (e_now env) addrB (farewell (m_id p)) out3"
    "oob_ready 163 p4" "m_inbox p4 = m_inbox p @ [packet_of (m_id q) NOTIFY_CONNECT_SUCCESS [CR_OK]]"
    using answer_received [OF p3(1,2) w1(6) p3(3), of env did2] p3(4,5) by auto
  obtain p4' p5 did3 r5 s5 where w3: "DoWriteCycle env 0 p4 = Inr p4'"
    "su_write (m_masterSocket p4') = Some (addrB, oob_datagram did3 (farewell (m_id p)), (0, did3))"
    "socket_written False p4' = Inr p5" "p5 = (upd_slot 0 (\<lambda>_. r5) p4)\<lparr>m_masterSocket := s5\<rparr>" "oob_ready 0 p5"
    using send_oob [OF _ k3(4) order.refl k3(3), of 0] k3(5) by (auto simp: farewell_def oob_ready_def)
  obtain q3 where k4: "socket_read env' False addrA (oob_datagram did3 (farewell (m_id p))) q2 = Inr q3" "established j addrA (m_id p) q3"
    "oob_ready 63 q3" "m_inbox q3 = m_inbox q2 @ [packet_of (m_id p) NOTIFY_CONNECTION_INCOMING [CR_OK]]"
    using farewell_received [OF _ _ w2(5), of j addrA "m_id p" env' did3] k2(2,3) w2(4) by auto
  have "oob_ready 0 q3" using k4(3) by (auto simp: oob_ready_def)
  moreover have "established i addrB (m_id q) p5" "m_inbox p5 = m_inbox p4" "m_inbox q2 = m_inbox q" using w3(4) w2(4) k2(7) k3(2) by simp_all
  ultimately show ?thesis using k1(1,2) w1(1-3) k2(1) w2(1-3) k3(1,6) w3(1-3,5) k4 by (simp add: transmit_def)
qed

text \<open>Over an established connection a message can be sent at once.\<close>

lemma established_talks:
  assumes e: "established i addr who p" and who: "who \<noteq> 0" and r: "oob_ready 0 p" and now: "now < 2 ^ 63"
  shows "\<exists>t. accepts who i p \<and> quiet now i p \<and> congestion (at_slot i p) = Some (CongestionControlWindow_new t)"
proof -
  obtain t where c: "congestion (at_slot i p) = Some (CongestionControlWindow_new t)" using e by (auto simp: established_def)
  have "accepts who i p" using e by (auto simp: accepts_def established_def link_def)
  moreover have "quiet now i p" using e who r c now
    by (simp add: quiet_def established_def oob_ready_def CongestionControlWindow_new_def CongestionControl_new_def
      CongestionControl.extend_def CongestionControlWindow.fields_def GetNeedsToSendAcks_def
      GetRetransmissionRTO_def GetRTTHistoryAvailable_def Timestamp_plus_def FromMilliseconds_eq THREAD_SLEEP_PACKETQUEUE_TICK_def)
  ultimately show ?thesis using c by blast
qed

lemma established_message:
  assumes p: "established i addrB who p" "who \<noteq> 0" "oob_ready 0 p" "e_now env < 2 ^ 63"
    and q: "established j addrA me q"
    and m: "packet_ok packet" "pkt_length packet < CHUNK_SIZE" "USER_PACKET \<le> m_command packet" "channel_id channel = 0"
      "(opts AND RELIABLE) = RELIABLE"
  shows "\<exists>p1 p2 q1. Send env packet who opts prio channel p = Inr (0, p1) \<and> transmit env i addrA addrB env' p1 q = Inr (p2, q1) \<and>
    m_inbox q1 = m_inbox q @ [packet_of me (m_command packet) (payload packet)]"
proof -
  obtain t where t: "accepts who i p" "quiet (e_now env) i p" "congestion (at_slot i p) = Some (CongestionControlWindow_new t)"
    using established_talks [OF p] by blast
  let ?full = "enc_Packet packet"
  have len: "length ?full = pkt_length packet + 1" using length_enc_Packet [OF m(1)] by (simp add: GetDatagramLength_def)
  have addr: "rp_addr (at_slot i p) = addrB" "rp_id (at_slot j q) = me" "link j addrA q" using p(1) q by (simp_all add: established_def)
  obtain u where u: "congestion (at_slot j q) = Some (CongestionControlWindow_new u)" using q by (auto simp: established_def)
  have z: "m_nextPacket (CongestionControlWindow_new t) = 0" "m_nextDatagram (CongestionControlWindow_new t) = 0"
    "unseen [0] {0} (CongestionControlWindow_new u)"
    by (simp_all add: unseen_def CongestionControlWindow_new_def CongestionControl_new_def CongestionControl.extend_def)
  obtain p1 p2 out where w: "Send env packet who opts prio channel p = Inr (0, p1)" "DoWriteCycle env i p1 = Inr p2"
    "queued (e_now env) i addrB opts 0 0 0 ?full 0 out"
    "su_write (m_masterSocket p2) = Some (addrB, packet_datagram 0 out, (i, 0))"
    using write_message [OF t m(1,2,4,5), of prio] addr(1) z(1,2) by auto
  have user: "\<not> hd ?full < USER_PACKET" using m(3) by (simp add: enc_Packet_def not_less)
  obtain q1 where "socket_read env' False addrA (packet_datagram 0 out) q = Inr q1"
    "m_inbox q1 = m_inbox q @ [packet_of me (hd ?full) (tl ?full)]"
    using packet_arrives [OF _ _ user w(3) addr(3) u z(3), of env'] addr(2) m(2) len by (auto simp: enc_Packet_def)
  then show ?thesis using w
    by (simp add: transmit_def socket_written_def write_completion_def OnWriteFinished_def enc_Packet_def)
qed

section \<open>Fresh peers\<close>

lemma GeneratePeerID_nonzero: "GeneratePeerID rng = Inr x \<Longrightarrow> x \<noteq> 0"
  by (induction rng) (auto split: if_splits)

lemma DefaultEncryption_fresh: "DefaultEncryption_new env = Inr layer \<Longrightarrow> fresh_layer env p"
  by (auto simp: fresh_layer_def DefaultEncryption_new_def Sodium_new_def Crypto_GetCryptoEstablished_def Sodium_GetCryptoEstablished_def
      Crypto_SetLocalIdentity_def Sodium_SetLocalIdentity_def split: if_splits)

lemma Bind_new:
  assumes n: "Peer_new rng n = Inr p0" and b: "Bind env family port (p0\<lparr>m_remotesIncoming := k\<rparr>) = Inr (True, p)"
  shows "m_remotes p = RemotePeer_new\<lparr>reserved := True, congestion := Some (CongestionControlWindow_new (e_now env)),
      receipt := Some ReceiptTracker_new, rp_socket := True, active := True\<rparr> # replicate n RemotePeer_new"
    and "m_masterSocket p = SocketUDP_new\<lparr>m_family := family, su_is_open := True, su_joinable := True, su_state := OPEN\<rparr>"
    and "m_remotesMax p = n + 1" "m_remotesIncoming p = k" "m_remoteLookup p = Map.empty" "\<not> m_crypto_enabled p" "m_id p \<noteq> 0" "m_inbox p = []"
  using n b GeneratePeerID_nonzero
  by (auto simp: Peer_new_def Bind_def RemotePeer_Setup_def SocketUDP_Bind_def GetState_def SocketUDP_new_def upd_slot_def
      RemotePeer_new_def Let_def split: if_splits)

lemma idle_slots:
  assumes r: "m_remotes p = r # replicate n RemotePeer_new" "m_remotesMax p = n + 1" "m_remoteLookup p = Map.empty"
  shows "0 < i \<Longrightarrow> i \<le> n \<Longrightarrow> at_slot i p = RemotePeer_new" "at_slot 0 p = r" "GetRemoteByAddress addr p = None" "only_slot i who p"
proof -
  show at: "0 < i \<Longrightarrow> i \<le> n \<Longrightarrow> at_slot i p = RemotePeer_new" for i using r(1) by (simp add: at_slot_def nth_Cons')
  show "at_slot 0 p = r" using r(1) by (simp add: at_slot_def)
  have na: "\<not> active (at_slot k p)" if "0 < k" "k < n + 1" for k using at [of k] that by (simp add: RemotePeer_new_def)
  show "GetRemoteByAddress addr p = None" using na r(2) by (auto simp: GetRemoteByAddress_def find_None_iff)
  show "only_slot i who p" using na r(2,3) unfolding only_slot_def by auto
qed

lemma new_oob_ready:
  assumes "Peer_new rng n = Inr p0" "Bind env family port (p0\<lparr>m_remotesIncoming := k\<rparr>) = Inr (True, p)" "m \<le> MTU"
  shows "oob_ready m p" "outbox (at_slot 0 p) = []"
  using Bind_new [OF assms(1,2)] assms(3)
  by (simp_all add: oob_ready_def at_slot_def RemotePeer_new_def SocketUDP_new_def CongestionControlWindow_new_def
      CongestionControl_new_def CongestionControl.extend_def CongestionControlWindow.fields_def)

lemma new_can_call:
  assumes n: "Peer_new rng n = Inr p0" "Bind env family port (p0\<lparr>m_remotesIncoming := k\<rparr>) = Inr (True, p)" and "0 < n"
    and "DefaultEncryption_new env' = Inr layer" "host \<noteq> []" "port' \<noteq> 0"
    and "SocketUDP_Resolve (e_net env') host port' (m_masterSocket p) = Some addr"
  shows "can_call env' 1 host port' addr who p"
proof -
  note b = Bind_new [OF n] and o = new_oob_ready [OF n, of 200]
  note i = idle_slots [OF b(1,3,5)]
  have "GetNextAvailableConnectSlot p = Some 1"
    using i(1) [of 1] i(2) b(3) \<open>0 < n\<close> by (simp add: GetNextAvailableConnectSlot_def upt_rec RemotePeer_new_def)
  moreover have "free_slot 1 p" using i(1) [of 1] b(1,3,6) \<open>0 < n\<close> by (simp add: free_slot_def RemotePeer_new_def)
  moreover have "rp_id (at_slot 1 p) = 0" using i(1) [of 1] \<open>0 < n\<close> by (simp add: RemotePeer_new_def)
  moreover have "oob_ready 200 p" "outbox (at_slot 0 p) = []" using o by (simp_all add: MTU_def)
  ultimately show ?thesis using assms(5-7) i(3,4) b(2) DefaultEncryption_fresh [OF assms(4)]
    by (simp add: can_call_def SocketUDP_new_def)
qed

lemma new_can_answer:
  assumes n: "Peer_new rng n = Inr p0" "Bind env family port (p0\<lparr>m_remotesIncoming := k\<rparr>) = Inr (True, p)" and k: "0 < k" "k \<le> n"
    and "DefaultEncryption_new env' = Inr layer"
  shows "can_answer env' n addr who p"
proof -
  note b = Bind_new [OF n] and o = new_oob_ready [OF n, of 100]
  note i = idle_slots [OF b(1,3,5)]
  have "[n + 1 - k..<n + 1] = [n + 1 - k..<n] @ [n]" using k by simp
  then have "GetNextAvailableIncomingSlot p = Some n"
    using i(1) [of n] b(3,4) k by (simp add: GetNextAvailableIncomingSlot_def GetMaximumIncomingPeers_def Let_def RemotePeer_new_def)
  moreover have "free_slot n p" using i(1) [of n] b(1,3,6) k by (simp add: free_slot_def RemotePeer_new_def)
  moreover have "oob_ready 100 p" "outbox (at_slot 0 p) = []" using o by (simp_all add: MTU_def)
  ultimately show ?thesis using i(3,4) DefaultEncryption_fresh [OF assms(5)] by (simp add: can_answer_def)
qed

text \<open>
  C6.  The handshake without encryption connects two peers: when a peer with a free slot connects to a peer that accepts
  connections and knows neither its address nor its identity, then three datagrams of the handshake, each
  written by one side and read by the other, establish the connection on both sides, with the right
  address and identity in the slots, and put the notification of the connection into both inboxes.
\<close>

theorem handshake_connects:
  assumes "can_call env i host port addrB (m_id q) p" "can_answer env' j addrA (m_id p) q"
    and "m_id p \<noteq> 0" "m_id q \<noteq> 0"
  shows "\<exists>p1 p2 p3 p4 p5 q1 q2 q3. Connect env host port None p = Inr (OK, p1) \<and> socket_connected env p1 = Inr p2 \<and>
    transmit env 0 addrA addrB env' p2 q = Inr (p3, q1) \<and>
    transmit env' 0 addrB addrA env q1 p3 = Inr (q2, p4) \<and>
    transmit env 0 addrA addrB env' p4 q2 = Inr (p5, q3) \<and>
    established i addrB (m_id q) p5 \<and> established j addrA (m_id p) q3 \<and>
    m_inbox p5 = m_inbox p @ [packet_of (m_id q) NOTIFY_CONNECT_SUCCESS [CR_OK]] \<and>
    m_inbox q3 = m_inbox q @ [packet_of (m_id p) NOTIFY_CONNECTION_INCOMING [CR_OK]]"
  using handshake_exchange [OF assms] by blast

text \<open>
  C1.  From the constructors to the first message: of two fresh peers, bound to their sockets, one
  connects to the other, which allows incoming connections; the handshake of three datagrams takes the
  first slot of the one and the last slot of the other; and a reliable message of one packet that is
  sent then arrives after the notification of the connection.
\<close>

theorem fresh_peers_talk:
  assumes "Peer_new rng n = Inr p0" "0 < n" "Bind env family port p0 = Inr (True, p)"
    and "Peer_new rng' n' = Inr q0" "0 < k" "k \<le> n'" "Bind env' family' port' (SetMaximumIncomingPeers k q0) = Inr (True, q)"
    and "DefaultEncryption_new env = Inr l" "DefaultEncryption_new env' = Inr l'" "e_now env < 2 ^ 63"
    and "host \<noteq> []" "port' \<noteq> 0" "SocketUDP_Resolve (e_net env) host port' (m_masterSocket p) = Some addrB"
    and "packet_ok packet" "pkt_length packet < CHUNK_SIZE" "USER_PACKET \<le> m_command packet" "channel_id channel = 0"
      "(opts AND RELIABLE) = RELIABLE" and "n' < 2 ^ 64"
  shows "\<exists>p1 p2 p3 p4 p5 p6 p7 q1 q2 q3 q4. Connect env host port' None p = Inr (OK, p1) \<and> socket_connected env p1 = Inr p2 \<and>
    transmit env 0 addrA addrB env' p2 q = Inr (p3, q1) \<and> transmit env' 0 addrB addrA env q1 p3 = Inr (q2, p4) \<and>
    transmit env 0 addrA addrB env' p4 q2 = Inr (p5, q3) \<and>
    Send env packet (m_id q) opts prio channel p5 = Inr (0, p6) \<and>
    transmit env 1 addrA addrB env' p6 q3 = Inr (p7, q4) \<and>
    m_inbox q4 = [packet_of (m_id p) NOTIFY_CONNECTION_INCOMING [CR_OK], packet_of (m_id p) (m_command packet) (payload packet)]"
proof -
  have p0: "p0\<lparr>m_remotesIncoming := 0\<rparr> = p0" using assms(1) by (auto simp: Peer_new_def)
  have bp: "Bind env family port (p0\<lparr>m_remotesIncoming := 0\<rparr>) = Inr (True, p)" unfolding p0 by (rule assms(3))
  have "SetMaximumIncomingPeers k q0 = q0\<lparr>m_remotesIncoming := k\<rparr>"
    using assms(4,6,19) by (auto simp: SetMaximumIncomingPeers_def GetMaximumPeers_def Peer_new_def size_sub_def)
  then have bq: "Bind env' family' port' (q0\<lparr>m_remotesIncoming := k\<rparr>) = Inr (True, q)" using assms(7) by simp
  have ids: "m_id p \<noteq> 0" "m_id q \<noteq> 0" "m_inbox q = []" using Bind_new(7) [OF assms(1) bp] Bind_new(7,8) [OF assms(4) bq] by auto
  note call = new_can_call [OF assms(1) bp assms(2,8,11-13), of "m_id q"]
  note answer = new_can_answer [OF assms(4) bq assms(5,6,9), of addrA "m_id p"]
  obtain p1 p2 p3 p4 p5 q1 q2 q3 where x: "Connect env host port' None p = Inr (OK, p1)" "socket_connected env p1 = Inr p2"
    "transmit env 0 addrA addrB env' p2 q = Inr (p3, q1)" "transmit env' 0 addrB addrA env q1 p3 = Inr (q2, p4)"
    "transmit env 0 addrA addrB env' p4 q2 = Inr (p5, q3)"
    "established 1 addrB (m_id q) p5" "established n' addrA (m_id p) q3" "oob_ready 0 p5"
    "m_inbox q3 = m_inbox q @ [packet_of (m_id p) NOTIFY_CONNECTION_INCOMING [CR_OK]]"
    using handshake_exchange [OF call answer ids(1,2)] by blast
  obtain p6 p7 q4 where "Send env packet (m_id q) opts prio channel p5 = Inr (0, p6)" "transmit env 1 addrA addrB env' p6 q3 = Inr (p7, q4)"
    "m_inbox q4 = m_inbox q3 @ [packet_of (m_id p) (m_command packet) (payload packet)]"
    using established_message [OF x(6) ids(2) x(8) assms(10) x(7) assms(14-18), of prio env'] by blast
  with x ids(3) show ?thesis by simp
qed

section \<open>Examples\<close>

text \<open>A fresh peer with the given identity and slots, bound to its socket.\<close>

definition example_new :: "PeerID \<Rightarrow> nat \<Rightarrow> Peer" where
  "example_new me n = projr (Peer_new [me] n)"

definition example_fresh :: "PeerID \<Rightarrow> nat \<Rightarrow> nat \<Rightarrow> Peer" where
  "example_fresh me n k = snd (projr (Bind (example_env 1) IPv4 1337 (SetMaximumIncomingPeers k (example_new me n))))"

lemmas example_fresh_defs = example_new_def example_fresh_def Peer_new_def Bind_def RemotePeer_Setup_def SocketUDP_Bind_def
  GetState_def SocketUDP_new_def SocketUDP_Resolve_def example_env_def example_network_def example_address_def
  SetMaximumIncomingPeers_def GetMaximumPeers_def size_sub_def Let_def

lemma example_new: "me \<noteq> 0 \<Longrightarrow> Peer_new [me] n = Inr (example_new me n)"
  by (simp add: example_fresh_defs)

lemma example_new_incoming: "me \<noteq> 0 \<Longrightarrow> k \<le> n \<Longrightarrow> n < 2 ^ 64 \<Longrightarrow>
    SetMaximumIncomingPeers k (example_new me n) = (example_new me n)\<lparr>m_remotesIncoming := k\<rparr>"
  by (simp add: example_fresh_defs)

lemma example_bind:
  assumes "me \<noteq> 0" "k \<le> n" "n < 2 ^ 64"
  shows "Bind (example_env 1) IPv4 1337 (SetMaximumIncomingPeers k (example_new me n)) = Inr (True, example_fresh me n k)"
    "Bind (example_env 1) IPv4 1337 ((example_new me n)\<lparr>m_remotesIncoming := k\<rparr>) = Inr (True, example_fresh me n k)"
  using assms by (simp_all add: example_new_incoming example_fresh_def) (simp_all add: example_fresh_defs)

lemma example_fresh_fields:
  assumes "me \<noteq> 0"
  shows "m_id (example_fresh me n k) = me" "m_inbox (example_fresh me n k) = []"
    "SocketUDP_Resolve (e_net (example_env t)) [104] 1337 (m_masterSocket (example_fresh me n k)) = Some (example_address 1)"
  using assms by (simp_all add: example_fresh_defs)

lemma example_layer: "DefaultEncryption_new (example_env t) = Inr LayerNull"
  by (simp add: DefaultEncryption_new_def example_env_def)

theorem handshake_connects_witness:
  "\<exists>p1 p2 p3 p4 p5 q1 q2 q3. Connect (example_env 1) [104] 1337 None (example_fresh 11 1 0) = Inr (OK, p1) \<and>
    socket_connected (example_env 1) p1 = Inr p2 \<and>
    transmit (example_env 1) 0 (example_address 2) (example_address 1) (example_env 2) p2 (example_fresh 12 3 2) = Inr (p3, q1) \<and>
    transmit (example_env 2) 0 (example_address 1) (example_address 2) (example_env 1) q1 p3 = Inr (q2, p4) \<and>
    transmit (example_env 1) 0 (example_address 2) (example_address 1) (example_env 2) p4 q2 = Inr (p5, q3) \<and>
    established 1 (example_address 1) 12 p5 \<and> established 3 (example_address 2) 11 q3 \<and>
    m_inbox p5 = [packet_of 12 NOTIFY_CONNECT_SUCCESS [CR_OK]] \<and>
    m_inbox q3 = [packet_of 11 NOTIFY_CONNECTION_INCOMING [CR_OK]]"
proof -
  have ids: "m_id (example_fresh 11 1 0) = 11" "m_id (example_fresh 12 3 2) = 12" by (simp_all add: example_fresh_fields)
  have c: "can_call (example_env 1) 1 [104] 1337 (example_address 1) (m_id (example_fresh 12 3 2)) (example_fresh 11 1 0)"
    by (rule new_can_call [OF example_new example_bind(2) _ example_layer _ _ example_fresh_fields(3)]) simp_all
  have a: "can_answer (example_env 2) 3 (example_address 2) (m_id (example_fresh 11 1 0)) (example_fresh 12 3 2)"
    by (rule new_can_answer [OF example_new example_bind(2) _ _ example_layer]) simp_all
  show ?thesis using handshake_connects [OF c a] example_fresh_fields(2) [of 11 1 0] example_fresh_fields(2) [of 12 3 2]
    unfolding ids by simp
qed

theorem fresh_peers_talk_witness:
  "\<exists>p1 p2 p3 p4 p5 p6 p7 q1 q2 q3 q4. Connect (example_env 1) [104] 1337 None (example_fresh 11 1 0) = Inr (OK, p1) \<and>
    socket_connected (example_env 1) p1 = Inr p2 \<and>
    transmit (example_env 1) 0 (example_address 2) (example_address 1) (example_env 1) p2 (example_fresh 12 3 2) = Inr (p3, q1) \<and>
    transmit (example_env 1) 0 (example_address 1) (example_address 2) (example_env 1) q1 p3 = Inr (q2, p4) \<and>
    transmit (example_env 1) 0 (example_address 2) (example_address 1) (example_env 1) p4 q2 = Inr (p5, q3) \<and>
    Send (example_env 1) (packet_of 0 20 [1, 2, 3]) 12 RELIABLE MEDIUM Channel_default p5 = Inr (0, p6) \<and>
    transmit (example_env 1) 1 (example_address 2) (example_address 1) (example_env 1) p6 q3 = Inr (p7, q4) \<and>
    m_inbox q4 = [packet_of 11 NOTIFY_CONNECTION_INCOMING [CR_OK], packet_of 11 20 [1, 2, 3]]"
proof -
  have ids: "m_id (example_fresh 11 1 0) = 11" "m_id (example_fresh 12 3 2) = 12" by (simp_all add: example_fresh_fields)
  have "(example_new 11 1)\<lparr>m_remotesIncoming := 0\<rparr> = example_new 11 1" by (simp add: example_new_def Peer_new_def)
  then have b: "Bind (example_env 1) IPv4 1337 (example_new 11 1) = Inr (True, example_fresh 11 1 0)"
    using example_bind(2) [of 11 0 1] by simp
  have now: "e_now (example_env 1) < 2 ^ 63" by (simp add: example_env_def)
  show ?thesis
    using fresh_peers_talk [OF example_new _ b example_new _ _ example_bind(1) example_layer example_layer now _ _ example_fresh_fields(3),
        of 12 2 3 "packet_of 0 20 [1, 2, 3]" Channel_default RELIABLE "example_address 2" MEDIUM]
    unfolding ids by (simp add: example_fields CHUNK_SIZE_eq USER_PACKET_def del: One_nat_def)
qed

end
