(* ===== verification/Mailbox.thy ===== *)
theory Mailbox
  imports Connecting
begin

text \<open>
  What a connection promises to its receiving side, as a specification: a mailbox that remembers which
  datagrams and which packets it has seen and appends every packet it has not seen to the inbox.  The
  reading side of the queue refines it, for whatever sequence of datagrams the network makes of those
  that were sent: lost, duplicated or out of order.
\<close>

section \<open>Forward simulation\<close>

text \<open>
  The contract between a component and its specification: every step of the component, from a state that
  satisfies the invariant, succeeds, keeps the invariant and does to the abstract state what the
  specification says.  Then so does every run.
\<close>

locale refines =
  fixes inv :: "'c \<Rightarrow> bool" and abs :: "'c \<Rightarrow> 'a" and step :: "'d \<Rightarrow> 'c \<Rightarrow> 'c result"
    and spec :: "'d \<Rightarrow> 'a \<Rightarrow> 'a" and ok :: "'d \<Rightarrow> bool"
  assumes step_refines: "inv c \<Longrightarrow> ok d \<Longrightarrow> \<exists>c'. step d c = Inr c' \<and> inv c' \<and> abs c' = spec d (abs c)"
begin

lemma run_refines:
  "inv c \<Longrightarrow> (\<forall>d \<in> set ds. ok d) \<Longrightarrow> \<exists>c'. rfold step ds c = Inr c' \<and> inv c' \<and> abs c' = fold spec ds (abs c)"
proof (induction ds arbitrary: c)
  case (Cons d ds)
  then obtain c1 where "step d c = Inr c1" "inv c1" "abs c1 = spec d (abs c)" using step_refines [of c d] by auto
  then show ?case using Cons.IH [of c1] Cons.prems by auto
qed simp

end

section \<open>The specification\<close>

record mailbox =
  mb_datagrams :: "DatagramID set"
  mb_packets :: "PacketID set"
  mb_inbox :: "Packet list"

definition arrive_packet :: "PeerID \<Rightarrow> wire_packet \<Rightarrow> mailbox \<Rightarrow> mailbox" where
  "arrive_packet who = (\<lambda>(h, bs) m.
     if ph_id h \<in> mb_packets m then m
     else m\<lparr>mb_packets := insert (ph_id h) (mb_packets m), mb_inbox := mb_inbox m @ [packet_of who (hd bs) (tl bs)]\<rparr>)"

definition arrive :: "PeerID \<Rightarrow> DatagramID \<Rightarrow> wire_packet list \<Rightarrow> mailbox \<Rightarrow> mailbox" where
  "arrive who did ps m =
     (if did \<in> mb_datagrams m then m
      else fold (arrive_packet who) ps (m\<lparr>mb_datagrams := insert did (mb_datagrams m)\<rparr>))"

text \<open>The mailbox of slot \<open>j\<close>.\<close>

definition mailbox_of :: "slot \<Rightarrow> Peer \<Rightarrow> mailbox" where
  "mailbox_of j q = (case congestion (at_slot j q) of
      None \<Rightarrow> \<lparr>mb_datagrams = {}, mb_packets = {}, mb_inbox = m_inbox q\<rparr>
    | Some c \<Rightarrow> \<lparr>mb_datagrams = dom (m_datagramHistory c), mb_packets = dom (m_packetHistory c), mb_inbox = m_inbox q\<rparr>)"

text \<open>A packet of the application in one piece, on the default channel.\<close>

definition user_packet :: "wire_packet \<Rightarrow> bool" where
  "user_packet = (\<lambda>(h, bs). \<not> flag_segment h \<and> ph_offset h = 0 \<and> ph_channel h = 0 \<and> USER_PACKET \<le> hd bs)"

definition user_datagram :: "DatagramID \<Rightarrow> wire_packet list \<Rightarrow> bool" where
  "user_datagram did ps \<longleftrightarrow> datagram_ok (data_header True did (length (enc_packets ps))) ps \<and> (\<forall>x \<in> set ps. user_packet x)"

section \<open>The refinement\<close>

lemma same_link_refl: "congestion (at_slot i p) \<noteq> None \<Longrightarrow> i < length (m_remotes p) \<Longrightarrow> same_link i p p"
  by (auto simp: same_link_def at_slot_def intro!: exI [of _ "m_remotes p ! i"])

lemma receive_user_packets:
  assumes "link i addr p" "\<forall>(h, bs) \<in> set ps. user_packet (h, bs) \<and> length bs < n"
  shows "\<exists>p'. receive_packets env i n h0 ps p = Inr p' \<and> same_link i p p' \<and>
    mailbox_of i p' = fold (arrive_packet (rp_id (at_slot i p))) ps (mailbox_of i p)"
  using assms
proof (induction ps arbitrary: p h0)
  case Nil
  then show ?case by (auto simp: link_def intro: same_link_refl)
next
  case (Cons x ps)
  obtain h bs where x: "x = (h, bs)" by (cases x)
  obtain c where c: "congestion (at_slot i p) = Some c" using Cons.prems(1) by (auto simp: link_def)
  have i: "i < length (m_remotes p)" using Cons.prems(1) by (simp add: link_def)
  have u: "\<not> flag_segment h" "ph_offset h = 0" "ph_channel h = 0" "\<not> hd bs < USER_PACKET" "length bs < n"
    using Cons.prems(2) x by (auto simp: user_packet_def)
  have "\<exists>p1. receive_packet env i n (read_over h0 h) bs p = Inr p1 \<and> same_link i p p1 \<and>
    mailbox_of i p1 = arrive_packet (rp_id (at_slot i p)) (h, bs) (mailbox_of i p)"
  proof (cases "m_packetHistory c (ph_id h) = None")
    case True
    obtain st where st: "receive_packet env i n (read_over h0 h) bs p = Inr ((upd_slot i (\<lambda>r. r\<lparr>
        congestion := Some (noted_packet (e_now env) (ph_id h) c), rp_stats := st\<rparr>) p)
        \<lparr>m_inbox := m_inbox p @ [packet_of (rp_id (at_slot i p)) (hd bs) (tl bs)]\<rparr>)" (is "_ = Inr ?p1")
      using receive_user_packet [OF i c, of "read_over h0 h" bs n env] True u by auto
    have "same_link i p ?p1" using i by (auto simp: same_link_def upd_slot_def at_slot_def)
    moreover have "mailbox_of i ?p1 = arrive_packet (rp_id (at_slot i p)) (h, bs) (mailbox_of i p)"
      using True c i by (simp add: mailbox_of_def arrive_packet_def noted_packet_def domIff dom_def insert_Collect)
    ultimately show ?thesis using st by blast
  next
    case False
    have "(m_remotes p)[i := (m_remotes p ! i)\<lparr>congestion := Some c\<rparr>] = m_remotes p"
      using c by (intro list_update_same_conv [THEN iffD2] i) (simp add: at_slot_def)
    then have "upd_slot i (\<lambda>r. r\<lparr>congestion := Some c\<rparr>) p = p" by (simp add: upd_slot_def)
    then have "receive_packet env i n (read_over h0 h) bs p = Inr p"
      using False c u(5) by (simp add: receive_packet_def NotifyReceivedPacket_def)
    moreover have "mailbox_of i p = arrive_packet (rp_id (at_slot i p)) (h, bs) (mailbox_of i p)"
      using False c by (simp add: mailbox_of_def arrive_packet_def domIff)
    ultimately show ?thesis using same_link_refl c i by auto
  qed
  then obtain p1 where p1: "receive_packet env i n (read_over h0 h) bs p = Inr p1" "same_link i p p1"
    "mailbox_of i p1 = arrive_packet (rp_id (at_slot i p)) (h, bs) (mailbox_of i p)" by blast
  have id: "rp_id (at_slot i p1) = rp_id (at_slot i p)" using p1(2) i by (auto simp: same_link_def at_slot_def)
  obtain p2 where "receive_packets env i n (read_over h0 h) ps p1 = Inr p2" "same_link i p1 p2"
    "mailbox_of i p2 = fold (arrive_packet (rp_id (at_slot i p1))) ps (mailbox_of i p1)"
    using Cons.IH [OF link_same [OF Cons.prems(1) p1(2)], of "read_over h0 h"] Cons.prems(2) by auto
  then show ?case using p1 x id same_link_trans [OF p1(2) _ i] by auto
qed

lemma receive_user_datagram:
  assumes l: "link j addr q" and u: "user_datagram did ps"
  shows "\<exists>q'. socket_read env False addr (enc_datagram (data_header True did (length (enc_packets ps))) ps) q = Inr q' \<and> same_link j q q' \<and>
    mailbox_of j q' = arrive (rp_id (at_slot j q)) did ps (mailbox_of j q)"
proof -
  let ?h = "data_header True did (length (enc_packets ps))"
  let ?data = "enc_datagram ?h ps"
  let ?q = "count_datagram j (length ?data) (q\<lparr>m_masterSocket := fill_readbuf ?data (m_masterSocket q)\<rparr>)"
  have ok: "datagram_ok ?h ps" "\<forall>x \<in> set ps. user_packet x" using u by (simp_all add: user_datagram_def)
  obtain c where c: "congestion (at_slot j q) = Some c" using l by (auto simp: link_def)
  have j: "j < length (m_remotes q)" using l by (simp add: link_def)
  obtain st where st: "at_slot j ?q = at_slot j q\<lparr>rp_stats := st\<rparr>"
    using at_count_datagram [of j "q\<lparr>m_masterSocket := fill_readbuf ?data (m_masterSocket q)\<rparr>" "length ?data"] j by auto
  have sq: "same_link j q ?q" using j c
    by (simp add: count_datagram_def upd_stats_def) (auto simp: same_link_def upd_slot_def at_slot_def)
  have cq: "congestion (at_slot j ?q) = Some c" "rp_id (at_slot j ?q) = rp_id (at_slot j q)" "m_inbox ?q = m_inbox q" using st c by simp_all
  have jq: "j < length (m_remotes ?q)" using j by simp
  have "\<exists>q1. receive_datagram env j ?h ps ?q = Inr q1 \<and> same_link j ?q q1 \<and>
    mailbox_of j q1 = arrive (rp_id (at_slot j q)) did ps (mailbox_of j q)"
  proof (cases "m_datagramHistory c did = None")
    case True
    let ?q1 = "upd_slot j (\<lambda>r. r\<lparr>congestion := Some (noted_datagram (e_now env) did c)\<rparr>) ?q"
    have s1: "same_link j ?q ?q1" using jq by (auto simp: same_link_def upd_slot_def at_slot_def)
    have l1: "link j addr ?q1" by (rule link_same [OF link_same [OF l sq] s1])
    have "m_datagramHistory (noted_datagram (e_now env) did c) = (m_datagramHistory c)(did \<mapsto> e_now env)"
      using True by (simp add: noted_datagram_def NotifyReceivedDatagram_def Let_def)
    then have m1: "mailbox_of j ?q1 = (mailbox_of j q)\<lparr>mb_datagrams := insert did (mb_datagrams (mailbox_of j q))\<rparr>"
      using c cq(3) jq by (simp add: mailbox_of_def noted_histories)
    have len: "length bs < length (enc_packets ps)" if m: "(h, bs) \<in> set ps" for h bs
    proof -
      obtain as zs where "ps = as @ (h, bs) # zs" using split_list [OF m] by blast
      then show ?thesis using length_enc_PacketHeader(2) [of h] by (auto simp: enc_packets_def)
    qed
    have "\<exists>q2. receive_packets env j (length (enc_packets ps)) PacketHeader_default ps ?q1 = Inr q2 \<and> same_link j ?q1 q2 \<and>
        mailbox_of j q2 = fold (arrive_packet (rp_id (at_slot j ?q1))) ps (mailbox_of j ?q1)"
      by (rule receive_user_packets [OF l1]) (use ok(2) len in blast)
    then obtain q2 where q2: "receive_packets env j (length (enc_packets ps)) PacketHeader_default ps ?q1 = Inr q2" "same_link j ?q1 q2"
      "mailbox_of j q2 = fold (arrive_packet (rp_id (at_slot j ?q1))) ps (mailbox_of j ?q1)" by blast
    have "did \<notin> mb_datagrams (mailbox_of j q)" using True c by (simp add: mailbox_of_def domIff)
    then have "mailbox_of j q2 = arrive (rp_id (at_slot j q)) did ps (mailbox_of j q)"
      using q2(3) m1 jq cq(2) by (simp add: arrive_def)
    then show ?thesis using q2(1) receive_data [OF cq(1) True, of env "length (enc_packets ps)" ps] same_link_trans [OF s1 q2(2) jq] by auto
  next
    case False
    then have "receive_datagram env j ?h ps ?q = Inr (upd_slot j (\<lambda>r. r\<lparr>congestion := Some c\<rparr>) ?q)"
      using cq(1) by (simp add: receive_datagram_def NotifyReceivedDatagram_def)
    moreover have "same_link j ?q (upd_slot j (\<lambda>r. r\<lparr>congestion := Some c\<rparr>) ?q)" using jq by (auto simp: same_link_def upd_slot_def at_slot_def)
    moreover have "mailbox_of j (upd_slot j (\<lambda>r. r\<lparr>congestion := Some c\<rparr>) ?q) = arrive (rp_id (at_slot j q)) did ps (mailbox_of j q)"
      using False c cq(3) jq by (simp add: mailbox_of_def arrive_def domIff)
    ultimately show ?thesis by blast
  qed
  then obtain q1 where q1: "receive_datagram env j ?h ps ?q = Inr q1" "same_link j ?q q1"
    "mailbox_of j q1 = arrive (rp_id (at_slot j q)) did ps (mailbox_of j q)" by blast
  let ?q3 = "q1\<lparr>m_masterSocket := after_read False (m_masterSocket q1)\<rparr>"
  have "socket_read env False addr ?data q = Inr ?q3" using link_read [OF l ok(1), of env] q1(1) by simp
  moreover have "same_link j q q1" by (rule same_link_trans [OF sq q1(2) j])
  then have "same_link j q ?q3" by (simp add: same_link_def)
  moreover have "mailbox_of j ?q3 = mailbox_of j q1" by (simp add: mailbox_of_def cong: option.case_cong)
  ultimately show ?thesis using q1(3) by auto
qed

definition receive_datagrams :: "RemoteAddress \<Rightarrow> (Env \<times> DatagramID \<times> wire_packet list) list \<Rightarrow> Peer \<Rightarrow> Peer result" where
  "receive_datagrams addr ds q = rfold (\<lambda>(env, did, ps).
     socket_read env False addr (enc_datagram (data_header True did (length (enc_packets ps))) ps)) ds q"

interpretation receiving: refines
  "\<lambda>q. link j addr q \<and> rp_id (at_slot j q) = who" "mailbox_of j"
  "\<lambda>(env, did, ps). socket_read env False addr (enc_datagram (data_header True did (length (enc_packets ps))) ps)"
  "\<lambda>(env, did, ps). arrive who did ps" "\<lambda>(env, did, ps). user_datagram did ps" for j addr who
proof
  fix q and d :: "Env \<times> DatagramID \<times> wire_packet list"
  assume q: "link j addr q \<and> rp_id (at_slot j q) = who" and d: "case d of (env, did, ps) \<Rightarrow> user_datagram did ps"
  obtain env did ps where e: "d = (env, did, ps)" by (cases d)
  obtain q' where q': "socket_read env False addr (enc_datagram (data_header True did (length (enc_packets ps))) ps) q = Inr q'"
    "same_link j q q'" "mailbox_of j q' = arrive (rp_id (at_slot j q)) did ps (mailbox_of j q)"
    using receive_user_datagram [of j addr q did ps env] q d e by auto
  have "j < length (m_remotes q)" using q by (simp add: link_def)
  then have "rp_id (at_slot j q') = rp_id (at_slot j q)" using q'(2) by (auto simp: same_link_def at_slot_def)
  then show "\<exists>q'. (case d of (env, did, ps) \<Rightarrow>
      socket_read env False addr (enc_datagram (data_header True did (length (enc_packets ps))) ps)) q = Inr q' \<and>
    (link j addr q' \<and> rp_id (at_slot j q') = who) \<and> mailbox_of j q' = (case d of (env, did, ps) \<Rightarrow> arrive who did ps) (mailbox_of j q)"
    using q' e q link_same by auto
qed

text \<open>
  C7.  The reading side of a connection refines the mailbox: whatever datagrams of whole user packets
  arrive at an established connection, in whichever order and however often, the peer ends up with the
  histories and the inbox of the specification, in which every packet that was not seen before is
  delivered exactly once, in the order of arrival.
\<close>

theorem reception_refines_mailbox:
  assumes "link j addr q" "\<forall>(env, did, ps) \<in> set ds. user_datagram did ps"
  shows "\<exists>q'. receive_datagrams addr ds q = Inr q' \<and>
    mailbox_of j q' = fold (\<lambda>(env, did, ps). arrive (rp_id (at_slot j q)) did ps) ds (mailbox_of j q)"
  using receiving.run_refines [of j addr q "rp_id (at_slot j q)" ds] assms unfolding receive_datagrams_def by blast

definition example_packet :: "PacketID \<Rightarrow> u8 list \<Rightarrow> wire_packet" where
  "example_packet k bs = (segment_header RELIABLE 0 0 k k bs 0, bs)"

lemma example_datagram:
  assumes "bs \<noteq> []" "length bs \<le> 1000" "USER_PACKET \<le> hd bs"
  shows "user_datagram did [example_packet k bs]"
proof -
  let ?h = "segment_header RELIABLE 0 0 k k bs 0"
  have one: "segments (length bs) = 1" "segment bs 0 = bs" using assms(1,2) by (cases bs; simp add: segments_def segment_def CHUNK_SIZE_eq)+
  have w: "wire_packet_ok (?h, bs)"
    using segment_header_fits(1) [of bs 0 RELIABLE 0 0 k k] assms(1,2) one by (simp add: PACKET_MAX_LENGTH_def)
  have "length (enc_packets [(?h, bs)]) \<le> 1027" using length_enc_PacketHeader(1) [of ?h] assms(2) by simp
  then have "datagram_ok (data_header True did (length (enc_packets [(?h, bs)]))) [(?h, bs)]"
    using w by (simp add: datagram_ok_def enc_datagram_def valid_DatagramHeader_def MTU_def)
  moreover have "user_packet (?h, bs)" using one assms(3) by (simp add: user_packet_def segment_header_def)
  ultimately show ?thesis by (simp add: user_datagram_def example_packet_def)
qed

theorem reception_refines_mailbox_witness:
  "\<exists>q'. receive_datagrams (example_address 1)
      [(example_env 2, 1, [example_packet 5 [20, 7]]), (example_env 3, 0, [example_packet 4 [30]]),
       (example_env 4, 1, [example_packet 5 [20, 7]]), (example_env 5, 2, [example_packet 4 [30]])]
      (example_peer 12 11 (example_address 1)) = Inr q' \<and>
    mb_inbox (mailbox_of 1 q') = [packet_of 11 20 [7], packet_of 11 30 []]"
proof -
  let ?q = "example_peer 12 11 (example_address 1)"
  let ?ds = "[(example_env 2, 1, [example_packet 5 [20, 7]]), (example_env 3, 0, [example_packet 4 [30]]),
       (example_env 4, 1, [example_packet 5 [20, 7]]), (example_env 5, 2, [example_packet 4 [30]])]"
  have q: "congestion (at_slot 1 ?q) = Some (CongestionControlWindow_new 0)" "m_inbox ?q = []" "rp_id (at_slot 1 ?q) = 11"
    by (simp_all add: example_peer_def at_slot_def)
  have "mailbox_of 1 ?q = \<lparr>mb_datagrams = {}, mb_packets = {}, mb_inbox = []\<rparr>"
    unfolding mailbox_of_def q by (simp add: CongestionControlWindow_new_def CongestionControl_new_def CongestionControl.extend_def)
  moreover have "ph_id (segment_header RELIABLE 0 0 k k bs 0) = k" for k bs by (simp add: segment_header_def)
  moreover have "\<forall>(env, did, ps) \<in> set ?ds. user_datagram did ps" by (simp add: example_datagram USER_PACKET_def)
  then have "\<exists>q'. receive_datagrams (example_address 1) ?ds ?q = Inr q' \<and>
      mailbox_of 1 q' = fold (\<lambda>(env, did, ps). arrive (rp_id (at_slot 1 ?q)) did ps) ?ds (mailbox_of 1 ?q)"
    by (rule reception_refines_mailbox [OF example_linked])
  ultimately show ?thesis
    by (auto simp: q(3) arrive_def arrive_packet_def example_packet_def simp del: One_nat_def)
qed

end
