(* ===== verification/Peer_Invariant.thy ===== *)
theory Peer_Invariant
  imports Connecting
begin

text \<open>
  The invariant of a peer: whatever sequence of calls of the application interface and of events of the
  network threads it has gone through, its slots are well formed.  A slot that is taken has its congestion
  control and its receipt tracker, every taken slot but the first has a handshake and an encryption
  layer, and every index of a layer, a slot or a channel that is stored anywhere is in range.
\<close>

section \<open>The invariant\<close>

definition handshake_ok :: "nat option \<Rightarrow> Handshaker \<Rightarrow> bool" where
  "handshake_ok layer h \<longleftrightarrow> (case m_auth h of None \<Rightarrow> True | Some (a, _) \<Rightarrow> layer = Some a)"

definition layer_ok :: "nat \<Rightarrow> nat option \<Rightarrow> bool" where
  "layer_ok layers a = (case a of None \<Rightarrow> True | Some a \<Rightarrow> a < layers)"

text \<open>The layers that the packets and datagrams of a slot are to be encrypted with.\<close>

definition layers_used :: "RemotePeer \<Rightarrow> nat option set" where
  "layers_used r = insert None (op_crypto ` set (outbox r) \<union> od_crypto ` set (sentbox r))"

text \<open>Channel buffers exist only for known channels other than the default one.\<close>

definition channels_ok :: "nat \<Rightarrow> (ChannelIndex \<rightharpoonup> ChannelBuffer) \<Rightarrow> bool" where
  "channels_ok chans m \<longleftrightarrow> (\<forall>ix. m ix \<noteq> None \<longrightarrow> ix \<noteq> 0 \<and> unat ix < chans)"

text \<open>Slot \<open>i\<close> of a peer with the given numbers of encryption layers and channels.\<close>

definition slot_ok :: "nat \<Rightarrow> nat \<Rightarrow> slot \<Rightarrow> RemotePeer \<Rightarrow> bool" where
  "slot_ok layers chans i r \<longleftrightarrow>
     (congestion r = None \<longleftrightarrow> \<not> reserved r) \<and> (receipt r = None \<longleftrightarrow> \<not> reserved r) \<and>
     (handshake r = None \<longleftrightarrow> i = 0 \<or> \<not> reserved r) \<and> (crypto r = None \<longleftrightarrow> i = 0 \<or> \<not> reserved r) \<and>
     (active r \<longrightarrow> reserved r) \<and> layer_ok layers (crypto r) \<and>
     (\<forall>h. handshake r = Some h \<longrightarrow> handshake_ok (crypto r) h) \<and>
     (\<forall>a \<in> layers_used r. layer_ok layers a) \<and>
     channels_ok chans (channels r)"

definition lookup_ok :: "nat \<Rightarrow> (PeerID \<rightharpoonup> slot) \<Rightarrow> bool" where
  "lookup_ok n l \<longleftrightarrow> (\<forall>who i. l who = Some i \<longrightarrow> 0 < i \<and> i < n)"

definition master_ok :: "nat \<Rightarrow> bool \<Rightarrow> (slot, slot \<times> DatagramID) SocketUDP \<Rightarrow> bool" where
  "master_ok n bound s \<longleftrightarrow> (\<forall>x \<in> set (su_posted s). 0 < fst x \<and> fst x < n) \<and>
     (\<forall>addr data i did. su_write s = Some (addr, data, (i, did)) \<longrightarrow> i < n) \<and> (su_state s = OPEN \<longrightarrow> bound)"

definition peer_ok :: "PeerID \<Rightarrow> nat \<Rightarrow> Peer \<Rightarrow> bool" where
  "peer_ok me n p \<longleftrightarrow> m_id p = me \<and> m_remotesMax p = n \<and> length (m_remotes p) = n \<and> 0 < n \<and> n < 2 ^ 64 \<and>
     m_remotesIncoming p < n \<and> 0 < length (m_channels p) \<and> length (m_channels p) \<le> 255 \<and> m_channels p ! 0 = UNORDERED \<and>
     lookup_ok n (m_remoteLookup p) \<and> master_ok n (reserved (at_slot 0 p)) (m_masterSocket p) \<and>
     (\<forall>i < n. slot_ok (length (p_layers p)) (length (m_channels p)) i (at_slot i p))"

lemma peer_okD:
  assumes "peer_ok me n p"
  shows "m_id p = me" "m_remotesMax p = n" "length (m_remotes p) = n" "0 < n" "lookup_ok n (m_remoteLookup p)"
    "i < n \<Longrightarrow> slot_ok (length (p_layers p)) (length (m_channels p)) i (at_slot i p)"
  using assms by (simp_all add: peer_ok_def)

lemma layer_ok_mono: "layer_ok k a \<Longrightarrow> k \<le> k' \<Longrightarrow> layer_ok k' a"
  by (auto simp: layer_ok_def split: option.splits)

lemma slot_ok_mono: "slot_ok k c i r \<Longrightarrow> k \<le> k' \<Longrightarrow> c \<le> c' \<Longrightarrow> slot_ok k' c' i r"
  unfolding slot_ok_def channels_ok_def using layer_ok_mono order.strict_trans2 by blast

lemma peer_ok_upd:
  assumes p: "peer_ok me n p"
    and f: "\<And>r. i < n \<Longrightarrow> r = at_slot i p \<Longrightarrow> slot_ok (length (p_layers p)) (length (m_channels p)) i r \<Longrightarrow>
      slot_ok (length (p_layers p)) (length (m_channels p)) i (f r) \<and> (i = 0 \<longrightarrow> reserved r \<longrightarrow> reserved (f r))"
  shows "peer_ok me n (upd_slot i f p)"
proof (cases "i < n")
  case True
  then show ?thesis using p f [of "at_slot i p"] by (auto simp: peer_ok_def master_ok_def)
next
  case False
  then have "(m_remotes p)[i := f (m_remotes p ! i)] = m_remotes p" using p by (simp add: peer_ok_def list_update_beyond)
  then show ?thesis using p by (simp add: upd_slot_def)
qed

lemma peer_ok_frame [simp]:
  "peer_ok me n (p\<lparr>m_inbox := a\<rparr>) = peer_ok me n p" "peer_ok me n (p\<lparr>p_calls := b\<rparr>) = peer_ok me n p"
  "peer_ok me n (p\<lparr>m_advertisement := c\<rparr>) = peer_ok me n p" "peer_ok me n (p\<lparr>m_rpc := d\<rparr>) = peer_ok me n p"
  "peer_ok me n (p\<lparr>m_crypto_identity := e\<rparr>) = peer_ok me n p" "peer_ok me n (p\<lparr>m_crypto_enabled := f\<rparr>) = peer_ok me n p"
  "peer_ok me n (p\<lparr>m_updateThread := g\<rparr>) = peer_ok me n p" "peer_ok me n (p\<lparr>m_updateThreadAbort := g\<rparr>) = peer_ok me n p"
  by (simp_all add: peer_ok_def at_slot_def)

lemma peer_ok_layers: "peer_ok me n p \<Longrightarrow> length (p_layers p) \<le> length ls \<Longrightarrow> peer_ok me n (p\<lparr>p_layers := ls\<rparr>)"
  by (auto simp: peer_ok_def intro: slot_ok_mono)

lemma peer_ok_layer_upd [simp]: "peer_ok me n (p\<lparr>p_layers := (p_layers p)[a := layer]\<rparr>) = peer_ok me n p"
  by (simp add: peer_ok_def)

lemma peer_ok_lookup: "peer_ok me n p \<Longrightarrow> lookup_ok n l \<Longrightarrow> peer_ok me n (p\<lparr>m_remoteLookup := l\<rparr>)"
  by (simp add: peer_ok_def)

lemma peer_ok_socket: "peer_ok me n p \<Longrightarrow> master_ok n (reserved (at_slot 0 p)) s \<Longrightarrow> peer_ok me n (p\<lparr>m_masterSocket := s\<rparr>)"
  by (simp add: peer_ok_def)

text \<open>A change of a slot that touches nothing the invariant speaks of.\<close>

definition same_slot :: "RemotePeer \<Rightarrow> RemotePeer \<Rightarrow> bool" where
  "same_slot r r' \<longleftrightarrow> reserved r' = reserved r \<and> active r' = active r \<and> crypto r' = crypto r \<and> handshake r' = handshake r \<and>
     channels r' = channels r \<and> (congestion r' = None) = (congestion r = None) \<and> (receipt r' = None) = (receipt r = None) \<and>
     layers_used r' \<subseteq> layers_used r"

lemma same_slot_keeps:
  assumes s: "same_slot r r'" and r: "slot_ok k c i r"
  shows "slot_ok k c i r'"
proof -
  have "\<forall>a \<in> layers_used r'. layer_ok k a" using s r unfolding same_slot_def slot_ok_def by blast
  then show ?thesis using s r unfolding same_slot_def slot_ok_def by simp
qed

lemma same_slot_refl [simp]: "same_slot r r"
  by (simp add: same_slot_def)

lemma same_slot_trans: "same_slot r r' \<Longrightarrow> same_slot r' r'' \<Longrightarrow> same_slot r r''"
  by (simp add: same_slot_def subset_trans [of "layers_used r''" "layers_used r'"])

lemma peer_ok_same:
  assumes "peer_ok me n p" "\<And>r. i < n \<Longrightarrow> r = at_slot i p \<Longrightarrow> same_slot r (f r)"
  shows "peer_ok me n (upd_slot i f p)"
proof (rule peer_ok_upd [OF assms(1)], intro conjI)
  fix r assume r: "i < n" "r = at_slot i p" "slot_ok (length (p_layers p)) (length (m_channels p)) i r"
  show "slot_ok (length (p_layers p)) (length (m_channels p)) i (f r)" by (rule same_slot_keeps [OF assms(2) [OF r(1,2)] r(3)])
  show "i = 0 \<longrightarrow> reserved r \<longrightarrow> reserved (f r)" using assms(2) [OF r(1,2)] by (simp add: same_slot_def)
qed

named_theorems keeps \<open>what the operations keep\<close>

lemmas rsat_cases = rsat_rassert rsat_if rsat_option rsat_prod rsat_Inl

section \<open>Look-up and queueing\<close>

lemma upd_stats_keeps: "peer_ok me n p \<Longrightarrow> peer_ok me n (upd_stats i f p)"
  unfolding upd_stats_def by (rule peer_ok_same) (simp_all add: same_slot_def layers_used_def)

lemma GetRemoteByID_keeps:
  assumes "GetRemoteByID who p = (remote, p')" "peer_ok me n p"
  shows "peer_ok me n p'" "remote = Some i \<Longrightarrow> 0 < i \<and> i < n"
proof -
  have "0 < k \<and> k < n" if "find_remote who p = Some k" for k
    using that assms(2) by (auto simp: find_remote_def find_Some_iff peer_ok_def)
  then show "peer_ok me n p'" "remote = Some i \<Longrightarrow> 0 < i \<and> i < n"
    using assms peer_okD(5) [OF assms(2)]
    by (auto simp: GetRemoteByID_def lookup_ok_def intro!: peer_ok_lookup split: option.splits if_splits)
qed

lemma GetRemoteByAddress_keeps: "GetRemoteByAddress addr p = Some i \<Longrightarrow> peer_ok me n p \<Longrightarrow> 0 < i \<and> i < n"
  by (auto simp: GetRemoteByAddress_def find_Some_iff peer_ok_def)

lemma SendLoopback_keeps [keeps]: "peer_ok me n p \<Longrightarrow> rsat (peer_ok me n) (SendLoopback packet p)"
  unfolding SendLoopback_def EnqueueLoopback_def by (rule rsat_bind [OF rsat_any], rule rsat_Inr) simp

lemma EnqueueLoopback_keeps [keeps]: "peer_ok me n p \<Longrightarrow> rsat (peer_ok me n) (EnqueueLoopback packet p)"
  using SendLoopback_keeps by (simp add: SendLoopback_def)

lemma OnMessageReceipt_keeps [keeps]: "peer_ok me n p \<Longrightarrow> rsat (peer_ok me n) (OnMessageReceipt i d p)"
  unfolding OnMessageReceipt_def Let_def by (rule rsat_bind [OF rsat_any]) (auto intro: keeps)

lemma OnMessageReceipts_keeps [keeps]: "peer_ok me n p \<Longrightarrow> rsat (peer_ok me n) (OnMessageReceipts rs p)"
  unfolding OnMessageReceipts_def by (rule rsat_rfold) (auto intro: keeps split: prod.splits)

lemma EnqueueOutOfBand_keeps [keeps]:
  assumes "peer_ok me n p" "\<And>i. force = Some i \<Longrightarrow> i < n"
  shows "rsat (peer_ok me n) (EnqueueOutOfBand env packet addr force p)"
  unfolding EnqueueOutOfBand_def GetRemoteByIndex_def Let_def
proof (rule rsat_rassert, rule rsat_bind [where R = "\<lambda>r0. r0 = 0"], goal_cases)
  case 1
  show ?case by (auto intro!: rsat_rassert rsat_Inr)
next
  case (2 r0)
  have "layer_ok (length (p_layers p)) (case force of None \<Rightarrow> None | Some i \<Rightarrow> crypto (at_slot i p))"
    using assms(2) peer_okD(6) [OF assms(1)] by (cases force) (auto simp: slot_ok_def layer_ok_def)
  then show ?case
    by (intro rsat_bind [OF rsat_any] rsat_Inr peer_ok_upd [OF assms(1)]) (simp add: slot_ok_def layers_used_def del: not_None_eq)
qed

lemma SendOutOfBand_keeps [keeps]: "peer_ok me n p \<Longrightarrow> rsat (peer_ok me n) (SendOutOfBand env packet addr p)"
  unfolding SendOutOfBand_def by (rule keeps) simp_all

lemma GetChannelBuffer_keeps [keeps]:
  assumes p: "peer_ok me n p"
  shows "rsat (\<lambda>(_, p). peer_ok me n p) (GetChannelBuffer i ix p)"
proof -
  have "peer_ok me n (upd_slot i (\<lambda>r. r\<lparr>channels := (channels r)(ix \<mapsto> b)\<rparr>) p)" if "ix \<noteq> 0" "unat ix < length (m_channels p)" for b
    by (rule peer_ok_upd [OF p]) (use that in \<open>simp add: slot_ok_def layers_used_def channels_ok_def\<close>)
  then show ?thesis unfolding GetChannelBuffer_def GetChannelModeByIndex_def using p by (auto simp: rsat_def)
qed

lemma Enqueue_segment_same:
  assumes "same_slot r r1"
  shows "rsat (\<lambda>(_, r'). same_slot r r') (Enqueue_segment env packet full i opts chan seq container nsegs k (ids, r1))"
  unfolding Enqueue_segment_def prod.case Let_def
proof (rule rsat_bind [where R = "\<lambda>(_, _, _, r'). same_slot r r'"], goal_cases)
  case 1
  have "same_slot r (r1\<lparr>congestion := Some c\<rparr>)" if "congestion r1 \<noteq> None" for c
    using assms that by (simp add: same_slot_def layers_used_def)
  then show ?case using assms by (auto simp: rsat_def split: option.splits prod.splits)
next
  case (2 x)
  have "same_slot r (r'\<lparr>outbox := outbox r' @ [out]\<rparr>)" if "same_slot r r'" "op_crypto out = None" for r' out
    using that by (simp add: same_slot_def layers_used_def)
  with 2 show ?case by (cases x) (auto intro!: rsat_bind [OF rsat_any] rsat_Inr)
qed

lemma EnqueueOutgoing_keeps [keeps]:
  assumes p: "peer_ok me n p"
  shows "rsat (\<lambda>(_, p). peer_ok me n p) (EnqueueOutgoing env packet i opts priority channel p)"
  unfolding EnqueueOutgoing_def Let_def
proof (rule rsat_rassert, rule rsat_if, goal_cases)
  case 1
  show ?case using p by (simp add: rsat_def)
next
  case 2
  show ?case
  proof (rule rsat_bind [OF rsat_any], rule rsat_rassert, rule rsat_option, rule rsat_Inl, rule rsat_prod, goal_cases)
    case (1 full c container c')
    let ?p = "upd_slot i (\<lambda>r. r\<lparr>congestion := Some c'\<rparr>) p"
    have p1: "peer_ok me n ?p"
      by (rule peer_ok_same [OF p]) (use 1(3) in \<open>simp add: same_slot_def layers_used_def\<close>)
    show ?case
    proof (rule rsat_bind_pair [OF GetChannelBuffer_keeps [OF p1]], rule rsat_bind_pair [where R = "\<lambda>_. peer_ok me n"], goal_cases)
      case (1 chbuf p2)
      have "peer_ok me n (upd_slot i (\<lambda>r. r\<lparr>channels := (channels r)(ix \<mapsto> b)\<rparr>) p2)" if "channels (at_slot i p2) ix \<noteq> None" for ix b
        by (rule peer_ok_upd [OF 1]) (use that in \<open>simp add: slot_ok_def layers_used_def channels_ok_def\<close>)
      then show ?case using 1 by (auto simp: rsat_def split: option.splits prod.splits)
    next
      case (2 chbuf p2 seq p3)
      show ?case
      proof (rule rsat_bind_pair [where R = "\<lambda>_ r. same_slot (at_slot i p3) r"], goal_cases)
        case 1
        show ?case by (rule rsat_rfold) (auto intro: Enqueue_segment_same)
      next
        case (2 ids r)
        have "same_slot (at_slot i p3) (r\<lparr>receipt := Some t\<rparr>)" if "receipt r \<noteq> None" for t
          using 2 that by (simp add: same_slot_def layers_used_def)
        then have "rsat (same_slot (at_slot i p3)) (if options_and opts WITH_RECEIPT
            then (case receipt r of None \<Rightarrow> Inl NullPointer
              | Some t \<Rightarrow> Inr (r\<lparr>receipt := Some (if size_sub (m_length full) 1 div CHUNK_SIZE + 1 > 1
                  then RegisterSplitPacket container ids (Track container t) else Track container t)\<rparr>)) else Inr r)"
          using 2 by (auto simp: rsat_def split: option.splits)
        then show ?case
        proof (rule rsat_bind)
          fix r' assume r': "same_slot (at_slot i p3) r'"
          have "peer_ok me n (upd_slot i (\<lambda>_. r') p3)" by (rule peer_ok_same [OF \<open>peer_ok me n p3\<close>]) (simp add: r')
          then show "rsat (\<lambda>(_, p). peer_ok me n p) (Inr (container, upd_stats i (PeerStats_Add PACKETS_QUEUED 1) (upd_slot i (\<lambda>_. r') p3)))"
            by (simp add: rsat_def upd_stats_keeps)
        qed
      qed
    qed
  qed
qed

section \<open>Acknowledgements\<close>

lemma set_list_erase: "set (list_erase k xs) \<subseteq> set xs"
  unfolding list_erase_def using set_take_subset [of k xs] set_drop_subset [of "Suc k" xs] by auto

lemma same_slot_boxes:
  "set os \<subseteq> set (outbox r) \<Longrightarrow> same_slot r (r\<lparr>outbox := os\<rparr>)" "set ds \<subseteq> set (sentbox r) \<Longrightarrow> same_slot r (r\<lparr>sentbox := ds\<rparr>)"
  by (auto simp: same_slot_def layers_used_def)

lemma RemovePacketFromOutbox_same: "same_slot r (RemovePacketFromOutbox i r)"
  by (auto simp: RemovePacketFromOutbox_def same_slot_boxes(1) [OF set_list_erase] split: option.splits)

text \<open>Notifications change the inbox only.\<close>

definition inbox_only :: "Peer \<Rightarrow> Peer \<Rightarrow> bool" where
  "inbox_only p p' \<longleftrightarrow> (\<exists>x. p' = p\<lparr>m_inbox := x\<rparr>)"

lemma inbox_only_refl: "inbox_only p p"
  unfolding inbox_only_def by (rule exI [of _ "m_inbox p"]) simp

lemma inbox_only_trans: "inbox_only p q \<Longrightarrow> inbox_only q r \<Longrightarrow> inbox_only p r"
  by (auto simp: inbox_only_def)

lemma inbox_onlyD:
  assumes "inbox_only p p'"
  shows "at_slot i p' = at_slot i p" "peer_ok me n p' = peer_ok me n p" "p_layers p' = p_layers p"
  using assms by (auto simp: inbox_only_def)

lemma SendLoopback_inbox: "rsat (inbox_only p) (SendLoopback packet p)"
  by (auto simp: SendLoopback_def EnqueueLoopback_def inbox_only_def rsat_def)

lemma OnMessageReceipt_inbox: "rsat (inbox_only p) (OnMessageReceipt i d p)"
  unfolding OnMessageReceipt_def Let_def by (rule rsat_bind [OF rsat_any]) (rule SendLoopback_inbox)

lemma OnMessageReceipts_inbox: "rsat (inbox_only p) (OnMessageReceipts rs p)"
  unfolding OnMessageReceipts_def
  by (rule rsat_rfold) (auto simp: inbox_only_refl rsat_def dest: rsatD [OF OnMessageReceipt_inbox] intro: inbox_only_trans split: prod.splits)

lemma acknowledge_packet_keeps [keeps]: "peer_ok me n p \<Longrightarrow> rsat (peer_ok me n) (acknowledge_packet i k p)"
  unfolding acknowledge_packet_def
proof (rule rsat_option, rule rsat_Inl, rule rsat_bind_pair [where R = "\<lambda>_ _. True"], simp add: rsat_def,
    rule rsat_bind [OF OnMessageReceipts_inbox], rule rsat_Inr)
  fix t rs t' p1 assume p: "peer_ok me n p" "receipt (at_slot i p) = Some t" "inbox_only p p1"
  have "same_slot r (RemovePacketFromOutbox k (r\<lparr>receipt := Some t'\<rparr>))" if "r = at_slot i p1" for r
    by (rule same_slot_trans [OF _ RemovePacketFromOutbox_same])
      (use p(2) that inbox_onlyD(1) [OF p(3), of i] in \<open>simp add: same_slot_def layers_used_def\<close>)
  then show "peer_ok me n (upd_slot i (\<lambda>r. RemovePacketFromOutbox k (r\<lparr>receipt := Some t'\<rparr>)) p1)"
    using p(1) inbox_onlyD(2) [OF p(3)] by (intro peer_ok_same) simp_all
qed

lemma peer_ok_congestion:
  "peer_ok me n p \<Longrightarrow> congestion (at_slot i p) \<noteq> None \<Longrightarrow> peer_ok me n (upd_slot i (\<lambda>r. r\<lparr>congestion := Some c\<rparr>) p)"
  by (rule peer_ok_same) (simp_all add: same_slot_def layers_used_def)

lemma acknowledge_datagram_keeps [keeps]: "peer_ok me n p \<Longrightarrow> rsat (peer_ok me n) (acknowledge_datagram env i ack p)"
  unfolding acknowledge_datagram_def
proof (rule rsat_bind [where R = "peer_ok me n"], rule rsat_option, goal_cases)
  case (2 k)
  show ?case
    by (rule rsat_bind [where R = "peer_ok me n"], rule rsat_rfold [OF acknowledge_packet_keeps], use 2 in simp_all)
      (auto intro!: rsat_Inr peer_ok_same same_slot_boxes set_list_erase)
qed (auto simp: rsat_def peer_ok_congestion split: option.splits)

lemma HandleAcknowledgements_keeps [keeps]: "peer_ok me n p \<Longrightarrow> rsat (peer_ok me n) (HandleAcknowledgements env i ls p)"
  unfolding HandleAcknowledgements_def by (rule rsat_rfold [OF acknowledge_datagram_keeps])

lemma resend_now_same: "same_slot r (resend_now now k r)"
proof -
  have "layers_used (r\<lparr>outbox := (outbox r)[j := (outbox r ! j)\<lparr>sendNext := now\<rparr>]\<rparr>) \<subseteq> layers_used r" for j
  proof (cases "j < length (outbox r)")
    case True
    then have "op_crypto ` set ((outbox r)[j := (outbox r ! j)\<lparr>sendNext := now\<rparr>]) \<subseteq> op_crypto ` set (outbox r)"
      using set_update_subset_insert [of "outbox r" j] by (fastforce dest: nth_mem)
    then show ?thesis by (auto simp: layers_used_def)
  qed (simp add: layers_used_def list_update_beyond)
  then show ?thesis by (simp add: resend_now_def same_slot_def split: option.splits)
qed

lemma fold_same: "(\<And>x r. same_slot r (f x r)) \<Longrightarrow> same_slot r (fold f xs r)"
  by (induction xs arbitrary: r) (auto intro: same_slot_trans)

lemma nack_datagram_same: "same_slot r (nack_datagram now nak r)"
proof -
  have "same_slot r (fold (resend_now now) ks r)" for ks by (rule fold_same) (rule resend_now_same)
  moreover have "sentbox (fold (resend_now now) ks r) = sentbox r" for ks
    by (induction ks arbitrary: r) (simp_all add: resend_now_def split: option.splits)
  ultimately show ?thesis
    by (auto simp: nack_datagram_def Let_def intro!: same_slot_trans [OF _ same_slot_boxes(2)] dest: subsetD [OF set_list_erase] split: option.splits)
qed

lemma HandleNonAcknowledgements_keeps [keeps]:
  assumes "peer_ok me n p" shows "rsat (peer_ok me n) (HandleNonAcknowledgements env i ls p)"
proof -
  have "peer_ok me n (upd_slot i (fold (nack_datagram (e_now env)) ls) p)"
    by (rule peer_ok_same [OF assms]) (simp add: fold_same nack_datagram_same)
  then show ?thesis unfolding HandleNonAcknowledgements_def Let_def
    by (auto simp: rsat_def peer_ok_congestion simp del: upd_upd_slot split: option.splits)
qed

section \<open>The handshake\<close>

lemma upd_handshake_keeps:
  assumes p: "peer_ok me n p"
    and f: "\<And>h. handshake (at_slot i p) = Some h \<Longrightarrow> handshake_ok (crypto (at_slot i p)) h \<Longrightarrow> handshake_ok (crypto (at_slot i p)) (f h)"
  shows "peer_ok me n (upd_handshake i f p)"
  unfolding upd_handshake_def
proof (rule peer_ok_upd [OF p])
  fix r assume r: "i < n" "r = at_slot i p" "slot_ok (length (p_layers p)) (length (m_channels p)) i r"
  then show "slot_ok (length (p_layers p)) (length (m_channels p)) i (r\<lparr>handshake := map_option f (handshake r)\<rparr>) \<and>
      (i = 0 \<longrightarrow> reserved r \<longrightarrow> reserved (r\<lparr>handshake := map_option f (handshake r)\<rparr>))"
    using f by (auto simp: slot_ok_def layers_used_def)
qed

lemma upd_handshake_auth: "peer_ok me n p \<Longrightarrow> (\<And>h. m_auth (f h) = m_auth h) \<Longrightarrow> peer_ok me n (upd_handshake i f p)"
  by (rule upd_handshake_keeps) (auto simp: handshake_ok_def)

lemma RemotePeer_Reset_keeps:
  assumes "peer_ok me n p" "0 < i" shows "peer_ok me n (RemotePeer_Reset i p)"
  unfolding RemotePeer_Reset_def
  by (rule peer_ok_upd [OF assms(1)])
    (use assms(2) in \<open>simp add: slot_ok_def layers_used_def layer_ok_def channels_ok_def\<close>)

lemma no_handshake0: "peer_ok me n p \<Longrightarrow> handshake (at_slot 0 p) = None"
  using peer_okD(4,6) by (fastforce simp: slot_ok_def)

lemma SetupRemotePeerCallbacks_keeps [keeps]: "peer_ok me n p \<Longrightarrow> rsat (peer_ok me n) (SetupRemotePeerCallbacks i p)"
  unfolding SetupRemotePeerCallbacks_def by (intro rsat_bind [OF rsat_any] rsat_Inr upd_handshake_auth) simp_all

lemma SendHandshakePart_keeps [keeps]: "peer_ok me n p \<Longrightarrow> i < n \<Longrightarrow> rsat (peer_ok me n) (SendHandshakePart env i s p)"
  unfolding SendHandshakePart_def Let_def by (intro rsat_option rsat_Inl keeps) (auto split: if_splits)

lemma SendHandshakeCompleteNotification_keeps [keeps]:
  assumes "peer_ok me n p" shows "rsat (peer_ok me n) (SendHandshakeCompleteNotification i packet p)"
  unfolding SendHandshakeCompleteNotification_def Let_def the_handshake_def
proof (rule rsat_bind [where R = "\<lambda>_. 0 < i"], goal_cases)
  case 1
  show ?case using no_handshake0 [OF assms] by (cases i) (auto simp: rsat_def split: option.splits)
next
  case (2 h)
  show ?case
    by (rule rsat_bind [where R = "peer_ok me n"], rule rsat_if)
      (use assms 2 in \<open>auto simp: rsat_def RemotePeer_Reset_keeps dest: rsatD [OF SendLoopback_keeps]\<close>)
qed

lemma Complete_keeps [keeps]: "peer_ok me n p \<Longrightarrow> rsat (peer_ok me n) (Complete i res p)"
  unfolding Complete_def Let_def
  by (intro rsat_bind [OF rsat_any] rsat_if keeps rsat_Inr upd_handshake_auth) simp_all

lemma Reply_keeps [keeps]: "peer_ok me n p \<Longrightarrow> i < n \<Longrightarrow> rsat (peer_ok me n) (Reply env i s retry p)"
  unfolding Reply_def Let_def
  by (intro rsat_bind [OF rsat_any] rsat_rassert keeps upd_handshake_auth) simp_all

text \<open>Sending a message of the handshake changes neither the layer of the slot nor whether it is taken.\<close>

definition same_layer :: "slot \<Rightarrow> Peer \<Rightarrow> Peer \<Rightarrow> bool" where
  "same_layer i p p' \<longleftrightarrow> crypto (at_slot i p') = crypto (at_slot i p) \<and> reserved (at_slot i p') = reserved (at_slot i p)"

lemma EnqueueOutOfBand_layer:
  assumes "i < length (m_remotes p)" shows "rsat (same_layer i p) (EnqueueOutOfBand env packet addr force p)"
  using assms by (auto simp: EnqueueOutOfBand_def GetRemoteByIndex_def Let_def rsat_def same_layer_def split: if_splits)

lemma same_layer_handshake: "i < length (m_remotes p) \<Longrightarrow> same_layer i (upd_handshake i f p) = same_layer i p"
  by (simp add: fun_eq_iff same_layer_def upd_handshake_def)

lemma Reply_layer:
  assumes "i < length (m_remotes p)" shows "rsat (same_layer i p) (Reply env i s retry p)"
proof -
  have "rsat (same_layer i p) (EnqueueOutOfBand env packet addr force (upd_handshake i f p))" for packet addr force f
    using EnqueueOutOfBand_layer [of i "upd_handshake i f p" env packet addr force] assms
    by (simp add: same_layer_handshake) (simp add: upd_handshake_def)
  then show ?thesis unfolding Reply_def SendHandshakePart_def Let_def
    by (intro rsat_bind [OF rsat_any] rsat_rassert rsat_option rsat_Inl) simp_all
qed

lemma Begin_layer:
  assumes "i < length (m_remotes p)" shows "rsat (same_layer i p) (Begin env i p)"
proof -
  have "rsat (same_layer i p) (Reply env i s retry (upd_handshake i f p))" for s retry f
    using Reply_layer [of i "upd_handshake i f p" env s retry] assms
    by (simp add: same_layer_handshake) (simp add: upd_handshake_def)
  then show ?thesis unfolding Begin_def by (intro rsat_bind [OF rsat_any] rsat_rassert) simp_all
qed

lemma ReplyWithError_keeps [keeps]: "peer_ok me n p \<Longrightarrow> i < n \<Longrightarrow> rsat (peer_ok me n) (ReplyWithError env i s problem p)"
  unfolding ReplyWithError_def by (intro rsat_bind [OF rsat_any] keeps)

lemma rejection_keeps [keeps]:
  assumes "peer_ok me n p" "i < n"
  shows "rsat (peer_ok me n) (rbind (ReplyWithError env i s problem p) (Complete i problem))"
  by (rule rsat_bind [OF ReplyWithError_keeps [OF assms]]) (rule keeps)

lemma Begin_keeps [keeps]: "peer_ok me n p \<Longrightarrow> i < n \<Longrightarrow> rsat (peer_ok me n) (Begin env i p)"
  unfolding Begin_def by (intro rsat_bind [OF rsat_any] rsat_rassert keeps upd_handshake_auth) simp_all

lemma Handle_request_keeps [keeps]: "peer_ok me n p \<Longrightarrow> i < n \<Longrightarrow> rsat (peer_ok me n) (Handle_request env i s reply p)"
  unfolding Handle_request_def Let_def
  by (rule rsat_bind [OF rsat_any], rule rsat_rassert, rule rsat_rassert, rule rsat_bind [OF rsat_any], rule rsat_prod, rule rsat_if,
      rule rejection_keeps, assumption+, intro rsat_bind [OF rsat_any] Reply_keeps upd_handshake_auth) simp_all

lemma auth_handshake_keeps:
  assumes "peer_ok me n p" "crypto (at_slot i p) = Some a"
  shows "peer_ok me n (upd_handshake i (\<lambda>h. h\<lparr>m_auth := Some (a, auth)\<rparr>) p)"
    "peer_ok me n (upd_handshake i (\<lambda>h. h\<lparr>m_expectedOpcode := x, m_auth := Some (a, auth)\<rparr>) p)"
  by (rule upd_handshake_keeps [OF assms(1)]; use assms(2) in \<open>simp add: handshake_ok_def\<close>)+

lemma auth_layer:
  assumes "peer_ok me n p" "i < n" "handshake (at_slot i p) = Some h" "m_auth h = Some (a, auth)"
  shows "crypto (at_slot i p) = Some a"
  using peer_okD(6) [OF assms(1,2)] assms(3,4) by (auto simp: slot_ok_def handshake_ok_def)

lemma Handle_answer_keeps [keeps]:
  assumes p: "peer_ok me n p" "i < n" shows "rsat (peer_ok me n) (Handle_answer env i reply p)"
  unfolding Handle_answer_def the_handshake_def
proof (rule rsat_bind [where R = "\<lambda>h. handshake (at_slot i p) = Some h"], goal_cases)
  case 1
  show ?case by (auto simp: rsat_def split: option.splits)
next
  case (2 h)
  show ?case
  proof (rule rsat_rassert, rule rsat_bind_pair [where R = "\<lambda>_. peer_ok me n"], rule rsat_if, goal_cases)
    case 1
    show ?case
      by (rule rsat_bind [OF rsat_any])
        (use auth_layer [OF p 2] p(1) in \<open>auto simp: rsat_def auth_handshake_keeps split: option.splits\<close>)
  next
    case 2
    show ?case
      by (intro rsat_bind [OF rsat_any] rsat_bind [OF Complete_keeps [OF p(1)]]) (simp add: rsat_def)
  qed (use p(2) in \<open>auto intro: keeps\<close>)
qed

lemma Handle_auth_keeps [keeps]:
  assumes p: "peer_ok me n p" "i < n" shows "rsat (peer_ok me n) (Handle_auth env i s reply p)"
  unfolding Handle_auth_def the_handshake_def Let_def
proof (rule rsat_bind [where R = "\<lambda>h. handshake (at_slot i p) = Some h"], goal_cases)
  case 1
  show ?case by (auto simp: rsat_def split: option.splits)
next
  case (2 h)
  show ?case
  proof (rule rsat_bind [OF rsat_any], rule rsat_option, rule rsat_Inl, rule rsat_prod, rule rsat_bind [OF rsat_any], goal_cases)
    case (1 reply x a auth y)
    obtain res s' reply' layer auth' where y: "y = (res, s', reply', layer, auth')" by (cases y)
    have len: "i < length (m_remotes p)" using p peer_okD(3) by auto
    have cr: "crypto (at_slot i p) = Some a" using auth_layer [OF p 2] 1 by simp
    let ?p = "upd_handshake i (\<lambda>h. h\<lparr>m_auth := Some (a, auth')\<rparr>) (p\<lparr>p_layers := (p_layers p)[a := layer]\<rparr>)"
    have p1: "peer_ok me n ?p" by (rule auth_handshake_keeps) (use p(1) cr in simp_all)
    have cr1: "crypto (at_slot i ?p) = Some a" "i < length (m_remotes ?p)" using cr len by (simp_all add: upd_handshake_def)
    have "rsat (\<lambda>q. peer_ok me n q \<and> crypto (at_slot i q) = Some a) (if \<not> IsEmpty reply' then Reply env i reply' False ?p else Inr ?p)"
      using Reply_keeps [OF p1 p(2), of env reply' False] Reply_layer [OF cr1(2), of env reply' False] p1 cr1
      by (auto simp: rsat_def same_layer_def)
    then show ?case unfolding y prod.case
      by (rule rsat_bind) (auto intro!: rsat_prod rsat_if rsat_Inr keeps auth_handshake_keeps)
  qed
qed

lemma Handle_stage_keeps [keeps]: "peer_ok me n p \<Longrightarrow> i < n \<Longrightarrow> rsat (peer_ok me n) (Handle_stage env i opcode s reply p)"
  unfolding Handle_stage_def
  by (rule rsat_if; rule rsat_bind [OF rsat_any]) (auto intro!: rsat_prod rsat_if rsat_rassert rsat_Inr keeps)

lemma Handle_keeps [keeps]:
  assumes p: "peer_ok me n p" "i < n" shows "rsat (peer_ok me n) (Handle env i packet p)"
  unfolding Handle_def Let_def
proof (rule rsat_bind [OF rsat_any], rule rsat_if, rule rsat_Inr, rule p(1), rule rsat_bind [OF rsat_any], rule rsat_bind [OF rsat_any],
    rule rsat_bind [where R = "peer_ok me n"], goal_cases)
  case 1
  show ?case using p by (auto intro!: rsat_if keeps rsat_Inr)
next
  case (2 _ _ _ p1)
  have rp: "peer_ok me n (upd_slot i (\<lambda>r. r\<lparr>rp_id := x\<rparr>) q)" if "peer_ok me n q" for x q
    by (rule peer_ok_same [OF that]) (simp add: same_slot_def layers_used_def)
  note p1 = \<open>peer_ok me n p1\<close>
  show ?case
    by (rule rsat_bind [OF rsat_any], rule rsat_prod, rule rsat_if, rule Complete_keeps [OF p1],
        rule rsat_bind [OF rsat_any], rule rsat_prod, rule rsat_if, rule rejection_keeps [OF p1 p(2)],
        rule rsat_bind [OF rsat_any], rule rsat_prod, rule rsat_bind [OF rsat_any], rule rsat_prod,
        rule rsat_bind [OF rsat_any], rule rsat_prod, rule rsat_if)
      (auto dest: GetRemoteByID_keeps(1) [OF _ p1] intro: rejection_keeps Handle_stage_keeps rp p(2))
qed

lemma Handshaker_Update_keeps [keeps]: "peer_ok me n p \<Longrightarrow> i < n \<Longrightarrow> rsat (peer_ok me n) (Handshaker_Update env i p)"
  unfolding Handshaker_Update_def Let_def
  by (rule rsat_bind [OF rsat_any], intro rsat_if rsat_Inr rsat_bind [OF rsat_any] Complete_keeps Reply_keeps upd_handshake_auth) simp_all

section \<open>Setting up and taking down\<close>

lemma OnDisconnect_keeps [keeps]:
  assumes "peer_ok me n p" shows "rsat (peer_ok me n) (OnDisconnect i cmd p)"
proof -
  have "lookup_ok n ((m_remoteLookup p)(x := None))" for x using peer_okD(5) [OF assms] by (simp add: lookup_ok_def)
  then have "peer_ok me n (p\<lparr>m_remoteLookup := (m_remoteLookup p)(x := None)\<rparr>)" for x using assms by (simp add: peer_ok_lookup)
  then show ?thesis unfolding OnDisconnect_def Let_def by (intro rsat_bind [OF rsat_any] keeps)
qed

lemma DisconnectImmediate_keeps [keeps]:
  assumes "peer_ok me n p" shows "rsat (peer_ok me n) (DisconnectImmediate remote p)"
  unfolding DisconnectImmediate_def
proof (rule rsat_option, rule rsat_Inr, rule assms, rule rsat_option, rule rsat_Inr, rule assms, goal_cases)
  case (1 i h)
  then have i: "0 < i" using no_handshake0 [OF assms] by (cases i) auto
  show ?case
    by (rule rsat_bind [where R = "peer_ok me n"], rule rsat_if)
      (auto intro!: keeps assms rsat_Inr RemotePeer_Reset_keeps i)
qed

lemma RemotePeer_Setup_keeps:
  assumes p: "peer_ok me n p" and i: "0 < i" "i < n" "origin \<noteq> INVALID"
  shows "rsat (\<lambda>p'. peer_ok me n p' \<and> crypto (at_slot i p') \<noteq> None \<and> reserved (at_slot i p') \<and>
    m_masterSocket p' = m_masterSocket p) (RemotePeer_Setup env i origin p)"
proof -
  let ?r = "\<lambda>r. r\<lparr>reserved := True, congestion := Some (CongestionControlWindow_new (e_now env)), receipt := Some ReceiptTracker_new\<rparr>"
  have "peer_ok me n (upd_slot i (\<lambda>r. r\<lparr>crypto := Some (length (p_layers p)), handshake := Some (Handshaker_new b (length (p_layers p)) origin)\<rparr>)
      ((upd_slot i ?r p)\<lparr>p_layers := p_layers p @ [layer]\<rparr>))" for b layer
  proof -
    let ?f = "\<lambda>r. (?r r)\<lparr>crypto := Some (length (p_layers p)), handshake := Some (Handshaker_new b (length (p_layers p)) origin)\<rparr>"
    have "peer_ok me n (upd_slot i ?f (p\<lparr>p_layers := p_layers p @ [layer]\<rparr>))"
    proof (rule peer_ok_upd)
      show "peer_ok me n (p\<lparr>p_layers := p_layers p @ [layer]\<rparr>)" by (rule peer_ok_layers [OF p]) simp
    qed (use i in \<open>auto simp: slot_ok_def layers_used_def layer_ok_def handshake_ok_def Handshaker_new_def\<close>)
    then show ?thesis by (simp add: upd_slot_def) (use p i in \<open>simp add: peer_ok_def\<close>)
  qed
  moreover have "i < length (m_remotes p)" using p i by (simp add: peer_ok_def)
  ultimately show ?thesis using i(3) by (auto simp: RemotePeer_Setup_def Let_def rsat_def)
qed

lemma Bind_keeps [keeps]:
  assumes p: "peer_ok me n p" shows "rsat (\<lambda>(_, p). peer_ok me n p) (Bind env family port p)"
proof -
  let ?f = "\<lambda>r. r\<lparr>reserved := True, congestion := Some (CongestionControlWindow_new (e_now env)), receipt := Some ReceiptTracker_new,
      rp_socket := True, active := True\<rparr>"
  have p1: "peer_ok me n (upd_slot 0 ?f p)"
    by (rule peer_ok_upd [OF p]) (simp add: slot_ok_def layers_used_def)
  have "master_ok n True (snd (SocketUDP_Bind net family port (m_masterSocket p)))" for net
    using p by (auto simp: peer_ok_def master_ok_def SocketUDP_Bind_def Let_def)
  moreover have "0 < length (m_remotes p)" using p by (simp add: peer_ok_def)
  ultimately show ?thesis using p1
    by (auto simp: Bind_def RemotePeer_Setup_def Let_def rsat_def intro!: peer_ok_socket split: prod.splits) (metis snd_conv)
qed

lemma OnSocketConnected_keeps [keeps]:
  assumes p: "peer_ok me n p" "i < n" shows "rsat (peer_ok me n) (OnSocketConnected env i error addr p)"
proof -
  let ?p = "upd_slot i (\<lambda>r. r\<lparr>rp_addr := addr, rp_socket := True\<rparr>) p"
  have p1: "peer_ok me n ?p" by (rule peer_ok_same [OF p(1)]) (simp add: same_slot_def layers_used_def)
  have act: "peer_ok me n (upd_slot i (\<lambda>r. r\<lparr>active := True\<rparr>) q)" if "peer_ok me n q" "reserved (at_slot i q)" for q
    by (rule peer_ok_upd [OF that(1)]) (use that(2) in \<open>simp add: slot_ok_def layers_used_def\<close>)
  have hs: "rsat (\<lambda>q. peer_ok me n q \<and> reserved (at_slot i q)) (SetupRemotePeerCallbacks i ?p)"
  proof -
    have "reserved (at_slot i q)" if "SetupRemotePeerCallbacks i ?p = Inr q" for q
      using that peer_okD(6) [OF p] p peer_okD(3) [OF p(1)]
      by (auto simp: SetupRemotePeerCallbacks_def the_handshake_def upd_handshake_def slot_ok_def split: option.splits)
    then show ?thesis using SetupRemotePeerCallbacks_keeps [OF p1, of i] by (auto simp: rsat_def)
  qed
  show ?thesis unfolding OnSocketConnected_def
  proof (rule rsat_rassert, rule rsat_bind [OF hs], rule rsat_bind [where R = "\<lambda>q. peer_ok me n q \<and> reserved (at_slot i q)"], goal_cases)
    case (1 q)
    then show ?case using Begin_keeps [of me n q i env] Begin_layer [of i q env] p(2) peer_okD(3) by (fastforce simp: rsat_def same_layer_def)
  next
    case (2 q q')
    then show ?case using act by (simp add: rsat_def)
  qed
qed

text \<open>A socket without slots other than those of the peer.\<close>

lemma GetNextAvailableConnectSlot_keeps:
  "GetNextAvailableConnectSlot p = Some i \<Longrightarrow> peer_ok me n p \<Longrightarrow> i < n \<and> \<not> reserved (at_slot i p)"
  by (auto simp: GetNextAvailableConnectSlot_def find_Some_iff peer_ok_def)

lemma SocketUDP_Connect_keeps:
  assumes "SocketUDP_Connect net host port i s = (ret, s')" "master_ok n b s" "0 < i" "i < n"
  shows "master_ok n b s'"
  using assms by (auto simp: SocketUDP_Connect_def master_ok_def split: if_splits option.splits)

text \<open>
  A connect attempt takes slot zero when the peer was never bound; then the socket refuses, and the slot
  is free again.
\<close>

lemma Setup_shape:
  assumes "RemotePeer_Setup env i origin p = Inr p1" "i < length (m_remotes p)"
  shows "\<exists>r l. p1 = p\<lparr>m_remotes := (m_remotes p)[i := r], p_layers := l\<rparr> \<and> length (p_layers p) \<le> length l"
proof -
  have "p1 = p\<lparr>m_remotes := (m_remotes p)[i := at_slot i p1], p_layers := p_layers p1\<rparr>"
    by (rule Peer.equality) (use assms in \<open>auto simp: RemotePeer_Setup_def Let_def upd_slot_def at_slot_def split: if_splits\<close>)
  moreover have "length (p_layers p) \<le> length (p_layers p1)"
    using assms by (auto simp: RemotePeer_Setup_def Let_def split: if_splits)
  ultimately show ?thesis by blast
qed

lemma Reset_after_Setup:
  assumes p: "peer_ok me n p" "\<not> reserved (at_slot 0 p)" and s: "RemotePeer_Setup env 0 SELF p = Inr p1"
    and ls: "length (p_layers p1) \<le> length ls"
  shows "peer_ok me n (RemotePeer_Reset 0 (p1\<lparr>p_layers := ls\<rparr>))" "m_masterSocket p1 = m_masterSocket p"
proof -
  have n: "0 < length (m_remotes p)" using p(1) by (simp add: peer_ok_def)
  obtain r l where p1: "p1 = p\<lparr>m_remotes := (m_remotes p)[0 := r], p_layers := l\<rparr>" "length (p_layers p) \<le> length l"
    using Setup_shape [OF s n] by blast
  then show "m_masterSocket p1 = m_masterSocket p" by simp
  let ?q = "p\<lparr>p_layers := ls\<rparr>"
  have q: "peer_ok me n ?q" by (rule peer_ok_layers [OF p(1)]) (use p1 ls in simp)
  define r' where "r' = at_slot 0 (RemotePeer_Reset 0 (p1\<lparr>p_layers := ls\<rparr>))"
  have "RemotePeer_Reset 0 (p1\<lparr>p_layers := ls\<rparr>) = upd_slot 0 (\<lambda>_. r') ?q"
    by (rule Peer.equality) (use n in \<open>simp_all add: RemotePeer_Reset_def p1(1) r'_def upd_slot_def at_slot_def\<close>)
  moreover have "peer_ok me n (upd_slot 0 (\<lambda>_. r') ?q)"
    by (rule peer_ok_upd [OF q]) (use p(2) n in \<open>simp add: r'_def p1(1) RemotePeer_Reset_def slot_ok_def layers_used_def layer_ok_def channels_ok_def\<close>)
  ultimately show "peer_ok me n (RemotePeer_Reset 0 (p1\<lparr>p_layers := ls\<rparr>))" by simp
qed

lemma Connect_keeps [keeps]:
  assumes p: "peer_ok me n p" shows "rsat (\<lambda>(_, p). peer_ok me n p) (Connect env host port key p)"
  unfolding Connect_def
proof (rule rsat_option, goal_cases)
  case 1
  show ?case using p by (simp add: rsat_def)
next
  case (2 i)
  note i = GetNextAvailableConnectSlot_keeps [OF 2 p]
  have closed: "fst (SocketUDP_Connect net host port i (m_masterSocket p)) \<noteq> OK \<and>
      snd (SocketUDP_Connect net host port i (m_masterSocket p)) = m_masterSocket p" if "i = 0" for net
    using p i that by (simp add: SocketUDP_Connect_def peer_ok_def master_ok_def GetState_def)
  define state where "state = (\<lambda>go q. if \<not> go then peer_ok me n q else if 0 < i then peer_ok me n q
      else \<exists>p1 ls. RemotePeer_Setup env 0 SELF p = Inr p1 \<and> q = p1\<lparr>p_layers := ls\<rparr> \<and> length (p_layers p1) \<le> length ls)"
  show ?case
  proof (rule rsat_bind [where R = "state True"], goal_cases)
    case 1
    have st0: "state True q" if "RemotePeer_Setup env 0 SELF p = Inr q" "i = 0" for q
    proof -
      have "\<exists>p1 ls. RemotePeer_Setup env 0 SELF p = Inr p1 \<and> q = p1\<lparr>p_layers := ls\<rparr> \<and> length (p_layers p1) \<le> length ls"
        by (rule exI [of _ q], rule exI [of _ "p_layers q"]) (use that(1) in simp)
      with that(2) show ?thesis by (simp add: state_def)
    qed
    show ?case
    proof (cases "i = 0")
      case True
      then show ?thesis using st0 unfolding rsat_def by blast
    next
      case False
      then show ?thesis using RemotePeer_Setup_keeps [OF p, of i SELF env] i by (simp add: rsat_def state_def)
    qed
  next
    case (2 p1)
    show ?case
    proof (rule rsat_bind_pair [where R = state], goal_cases)
      case 1
      have "state False (RemotePeer_Reset i p1)"
        using 2 Reset_after_Setup(1) [OF p] i by (cases "i = 0") (auto simp: state_def RemotePeer_Reset_keeps)
      moreover have "state True (p1\<lparr>p_layers := (p_layers p1)[a := layer]\<rparr>)" for a layer
        using 2 by (fastforce simp: state_def)
      ultimately show ?case using 2 by (auto simp: rsat_def split: option.splits)
    next
      case (2 go q)
      show ?case
      proof (cases go)
        case False
        then show ?thesis using 2 by (simp add: rsat_def state_def)
      next
        case go: True
        show ?thesis
        proof (cases "i = 0")
          case True
          obtain p1 ls where q: "RemotePeer_Setup env 0 SELF p = Inr p1" "q = p1\<lparr>p_layers := ls\<rparr>" "length (p_layers p1) \<le> length ls"
            using 2 go True by (auto simp: state_def)
          note r = Reset_after_Setup [OF p _ q(1,3)]
          have m: "m_masterSocket q = m_masterSocket p" "peer_ok me n (RemotePeer_Reset i q)" using q(2) r i True by simp_all
          then obtain ret where "SocketUDP_Connect (e_net env) host port i (m_masterSocket q) = (ret, m_masterSocket q)" "ret \<noteq> OK"
            using closed [OF True, of "e_net env"] by (metis prod.collapse)
          then show ?thesis using m(2) go by (simp add: rsat_def)
        next
          case False
          then have q: "peer_ok me n q" using 2 go by (simp add: state_def)
          have "peer_ok me n (q\<lparr>m_masterSocket := sock\<rparr>)" if "SocketUDP_Connect net host port i (m_masterSocket q) = (ret, sock)" for net ret sock
            by (rule peer_ok_socket [OF q]) (use SocketUDP_Connect_keeps [OF that] q False i in \<open>simp add: peer_ok_def\<close>)
          then show ?thesis using go False by (auto simp: rsat_def Let_def RemotePeer_Reset_keeps split: prod.splits)
        qed
      qed
    qed
  qed
qed

lemma Disconnect_keeps [keeps]:
  assumes p: "peer_ok me n p" shows "rsat (peer_ok me n) (Disconnect env who linger p)"
  unfolding Disconnect_def Let_def
proof (rule rsat_prod, rule rsat_option, goal_cases)
  case (1 remote p1)
  then show ?case using GetRemoteByID_keeps(1) [OF _ p] by (auto intro: rsat_Inr)
next
  case (2 remote p1 i)
  then have p1: "peer_ok me n p1" using GetRemoteByID_keeps(1) [OF _ p] by auto
  show ?case
    by (rule rsat_bind [OF rsat_any], rule rsat_bind_pair [OF EnqueueOutgoing_keeps [OF p1]], rule rsat_Inr, rule peer_ok_same)
      (simp_all add: same_slot_def layers_used_def)
qed

lemma DisconnectImmediate_id_keeps [keeps]: "peer_ok me n p \<Longrightarrow> rsat (peer_ok me n) (DisconnectImmediate_id who p)"
  unfolding DisconnectImmediate_id_def Let_def
  by (rule rsat_prod, rule rsat_option) (auto intro!: rsat_Inr keeps dest: GetRemoteByID_keeps(1))

lemma Stop_slot_keeps [keeps]: "peer_ok me n p \<Longrightarrow> rsat (peer_ok me n) (Stop_slot env linger i p)"
  unfolding Stop_slot_def
  by (rule rsat_if) (auto intro!: keeps rsat_Inr peer_ok_same simp: same_slot_def layers_used_def)

lemma SocketUDP_Unbind_keeps: "master_ok n b s \<Longrightarrow> master_ok n b (SocketUDP_Unbind s)"
  by (auto simp: master_ok_def SocketUDP_Unbind_def Let_def)

lemma Stop_keeps [keeps]:
  assumes "peer_ok me n p" "\<And>q. peer_ok me n q \<Longrightarrow> rsat (peer_ok me n) (sleep q)"
  shows "rsat (peer_ok me n) (Stop env linger sleep p)"
  unfolding Stop_def Let_def
proof (rule rsat_bind [OF rsat_rfold [OF Stop_slot_keeps]], assumption, rule assms(1), rule rsat_bind [where R = "peer_ok me n"], goal_cases)
  case (1 q)
  then show ?case using assms(2) by (auto intro: rsat_Inr)
next
  case (2 q q')
  have "peer_ok me n (fold RemotePeer_Reset xs q')" if "0 \<notin> set xs" for xs
    using that 2(2) by (induction xs arbitrary: q') (auto intro: RemotePeer_Reset_keeps)
  then have "peer_ok me n (fold RemotePeer_Reset [1..<m_remotesMax q'] q')" by simp
  then show ?case by (intro rsat_Inr peer_ok_socket SocketUDP_Unbind_keeps) (simp_all add: peer_ok_def)
qed

lemma Send_keeps [keeps]:
  assumes p: "peer_ok me n p" shows "rsat (\<lambda>(_, p). peer_ok me n p) (Send env packet who opts prio channel p)"
  unfolding Send_def Let_def
  by (rule rsat_if, simp add: rsat_def p, rule rsat_prod, rule rsat_option)
    (auto simp: rsat_Inr dest: GetRemoteByID_keeps(1) [OF _ p] intro: keeps)

lemma RpcSignal_keeps [keeps]: "peer_ok me n p \<Longrightarrow> rsat (peer_ok me n) (RpcSignal env name who params p)"
  unfolding RpcSignal_def by (intro rsat_bind [OF rsat_any] rsat_bind_pair [OF Send_keeps] rsat_Inr) simp_all

lemma Ping_keeps [keeps]: "peer_ok me n p \<Longrightarrow> rsat (peer_ok me n) (Ping env host port p)"
  unfolding Ping_def by (intro rsat_option rsat_Inr rsat_bind [OF rsat_any] keeps) simp_all

lemma PingLocalNetwork_keeps [keeps]: "peer_ok me n p \<Longrightarrow> rsat (peer_ok me n) (PingLocalNetwork env port p)"
  unfolding PingLocalNetwork_def by (rule keeps)

lemma settings_keeps [keeps]:
  assumes "peer_ok me n p"
  shows "rsat (peer_ok me n) (SetOfflineAdvertisement data p)" "rsat (peer_ok me n) (DisableOfflineAdvertisement p)"
    "rsat (peer_ok me n) (SetEncryptionEnabled env enabled p)" "rsat (peer_ok me n) (SetEncryptionIdentity env sk pk p)"
    "rsat (peer_ok me n) (RpcRegisterSlot name handler p)" "rsat (peer_ok me n) (RpcUnregisterSlot name p)"
  using assms by (auto simp: SetOfflineAdvertisement_def DisableOfflineAdvertisement_def SetEncryptionEnabled_def
      SetEncryptionIdentity_def RpcRegisterSlot_def RpcUnregisterSlot_def rsat_def split: if_splits)

lemma SetMaximumIncomingPeers_keeps: "peer_ok me n p \<Longrightarrow> peer_ok me n (SetMaximumIncomingPeers k p)"
  by (auto simp: SetMaximumIncomingPeers_def GetMaximumPeers_def size_sub_eq peer_ok_def at_slot_def min_less_iff_disj)

lemma MakeChannel_keeps: "peer_ok me n p \<Longrightarrow> peer_ok me n (snd (MakeChannel mode p))"
  by (auto simp: MakeChannel_def Let_def peer_ok_def at_slot_def nth_append intro: slot_ok_mono)

lemma Receive_keeps: "peer_ok me n p \<Longrightarrow> peer_ok me n (snd (Receive p))"
  by (auto simp: Receive_def DequeueIncoming_def split: list.splits)

section \<open>What arrives\<close>

lemma SendRejectionReply_keeps [keeps]: "peer_ok me n p \<Longrightarrow> rsat (peer_ok me n) (SendRejectionReply env addr reason p)"
  unfolding SendRejectionReply_def by (intro rsat_bind [OF rsat_any] keeps)

lemma GetNextAvailableIncomingSlot_keeps:
  "GetNextAvailableIncomingSlot p = Some i \<Longrightarrow> peer_ok me n p \<Longrightarrow> 0 < i \<and> i < n"
  by (auto simp: GetNextAvailableIncomingSlot_def GetMaximumIncomingPeers_def Let_def peer_ok_def find_Some_iff rev_nth split: if_splits)

lemma OnNewIncomingPeer_keeps [keeps]:
  assumes p: "peer_ok me n p" shows "rsat (peer_ok me n) (OnNewIncomingPeer env addr packet p)"
  unfolding OnNewIncomingPeer_def
proof (rule rsat_option, rule keeps, rule p, goal_cases)
  case (1 i)
  note i = GetNextAvailableIncomingSlot_keeps [OF 1 p]
  have act: "peer_ok me n (upd_slot i (\<lambda>r. r\<lparr>rp_socket := True, rp_addr := addr, active := True\<rparr>) q)"
    if "peer_ok me n q" "reserved (at_slot i q)" for q
    by (rule peer_ok_upd [OF that(1)]) (use that(2) in \<open>simp add: slot_ok_def layers_used_def\<close>)
  have cb: "rsat (\<lambda>q. peer_ok me n q \<and> reserved (at_slot i q)) (SetupRemotePeerCallbacks i q)"
    if "peer_ok me n q" "reserved (at_slot i q)" for q
    using SetupRemotePeerCallbacks_keeps [OF that(1), of i] that i peer_okD(3) [OF that(1)]
    by (auto simp: rsat_def SetupRemotePeerCallbacks_def upd_handshake_def)
  show ?case
  proof (rule rsat_bind, rule RemotePeer_Setup_keeps [OF p], goal_cases)
    case (4 q)
    show ?case by (rule rsat_bind [OF cb]) (use 4 i in \<open>auto intro: Handle_keeps act\<close>)
  qed (use i in simp_all)
qed

lemma OnSystemPacket_keeps [keeps]:
  assumes p: "peer_ok me n p" "0 < i" "i < n" shows "rsat (peer_ok me n) (OnSystemPacket env i packet p)"
  unfolding OnSystemPacket_def
proof (rule rsat_if, goal_cases)
  case 1
  show ?case
    by (rule rsat_bind [OF OnDisconnect_keeps [OF p(1)]], rule rsat_bind [OF rsat_any], rule rsat_bind [OF EnqueueOutOfBand_keeps])
      (use p in \<open>auto intro: rsat_Inr RemotePeer_Reset_keeps\<close>)
next
  case 2
  show ?case using p(1) by (auto simp: rsat_def)
qed

lemma OnPing_keeps [keeps]: "peer_ok me n p \<Longrightarrow> rsat (peer_ok me n) (OnPing env addr p)"
  unfolding OnPing_def by (intro rsat_if rsat_Inr rsat_bind [OF rsat_any] keeps)

lemma OnConnectAttempt_keeps [keeps]: "peer_ok me n p \<Longrightarrow> rsat (peer_ok me n) (OnConnectAttempt env addr packet p)"
  unfolding OnConnectAttempt_def
  by (rule rsat_option, rule keeps, assumption, rule rsat_bind [OF rsat_any])
    (auto intro!: rsat_if rsat_Inr Handle_keeps dest: GetRemoteByAddress_keeps)

lemma OnAdvertisement_keeps [keeps]: "peer_ok me n p \<Longrightarrow> rsat (peer_ok me n) (OnAdvertisement env addr packet p)"
  unfolding OnAdvertisement_def Let_def by (intro rsat_bind [OF rsat_any] keeps)

lemma OnUnconnectedMessage_stream_keeps [keeps]:
  "peer_ok me n p \<Longrightarrow> rsat (peer_ok me n) (OnUnconnectedMessage_stream env addr s p)"
  unfolding OnUnconnectedMessage_stream_def
  by (rule rsat_bind [OF rsat_any], rule rsat_prod, rule rsat_prod_app, rule rsat_rassert, rule rsat_bind [OF rsat_any], rule rsat_prod,
      intro rsat_if rsat_option rsat_Inr OnPing_keeps OnConnectAttempt_keeps DisconnectImmediate_keeps OnAdvertisement_keeps)

lemma OnUnconnectedMessage_keeps [keeps]:
  "peer_ok me n p \<Longrightarrow> rsat (peer_ok me n) (OnUnconnectedMessage env addr msg len p)"
  unfolding OnUnconnectedMessage_def
  by (rule rsat_bind [OF rsat_any], rule rsat_bind [OF rsat_any], rule rsat_prod, rule rsat_prod_app)
    (intro rsat_if rsat_Inr rsat_rassert OnUnconnectedMessage_stream_keeps)

lemma HandleIncomingPacket_keeps [keeps]:
  assumes p: "peer_ok me n p" shows "rsat (peer_ok me n) (HandleIncomingPacket i header packet p)"
  unfolding HandleIncomingPacket_def
proof (rule rsat_bind_pair [OF GetChannelBuffer_keeps [OF p]], goal_cases)
  case (1 ch q)
  have "peer_ok me n (upd_slot i (\<lambda>r. r\<lparr>channels := (channels r)(ix \<mapsto> b)\<rparr>) (q\<lparr>m_inbox := x\<rparr>))" if "channels (at_slot i q) ix \<noteq> None" for ix b x
    by (rule peer_ok_upd) (use 1 that in \<open>simp_all add: slot_ok_def layers_used_def channels_ok_def\<close>)
  then show ?case using 1 by (auto simp: rsat_def split: option.splits)
qed

lemma HandleSplitPacket_keeps [keeps]:
  assumes p: "peer_ok me n p" shows "rsat (\<lambda>(p, _). peer_ok me n p) (HandleSplitPacket i header s p)"
  unfolding HandleSplitPacket_def Let_def
proof (rule rsat_bind [OF rsat_any], rule rsat_prod, rule rsat_bind [OF rsat_any], rule rsat_prod, goal_cases)
  case (1 _ asm s' _ q asm')
  have p1: "peer_ok me n (upd_slot i (\<lambda>r. r\<lparr>assembly := asm'\<rparr>) p)"
    by (rule peer_ok_same [OF p]) (simp add: same_slot_def layers_used_def)
  then show ?case
    by (intro rsat_option rsat_bind [OF HandleIncomingPacket_keeps]) (auto intro: rsat_Inr)
qed

lemma OnReadFinished_packet_keeps [keeps]:
  assumes p: "peer_ok me n p" "0 < i" "i < n"
  shows "rsat (\<lambda>(p, _). peer_ok me n p) (OnReadFinished_packet env i len header s p)"
  unfolding OnReadFinished_packet_def Let_def
proof (rule rsat_rassert, rule rsat_rassert, rule rsat_option, rule rsat_Inl, rule rsat_prod, goal_cases)
  case (1 c st c')
  have p1: "peer_ok me n (upd_slot i (\<lambda>r. r\<lparr>congestion := Some c'\<rparr>) p)" by (rule peer_ok_congestion) (use p 1 in simp_all)
  note p2 = upd_stats_keeps [OF this, of i "PeerStats_Add PACKETS_RECEIVED 1"]
  have "rsat (peer_ok me n) (if m_command packet < USER_PACKET then OnSystemPacket env i packet q else HandleIncomingPacket i header packet q)"
    if "peer_ok me n q" for packet q using that p(2,3) by (auto intro: keeps)
  note hd = this [OF p2]
  show ?case
  proof (intro rsat_if, goal_cases)
    case 2
    show ?case by (rule rsat_bind [OF rsat_any], rule rsat_prod, rule rsat_bind [OF hd]) (simp add: rsat_def)
  qed (use p1 p2 in \<open>auto intro: keeps rsat_Inr\<close>)
qed

lemma OnReadFinished_loop_keeps [keeps]:
  "peer_ok me n p \<Longrightarrow> 0 < i \<Longrightarrow> i < n \<Longrightarrow> rsat (peer_ok me n) (OnReadFinished_loop env i len header s p)"
proof (induction env i len header s p rule: OnReadFinished_loop.induct)
  case (1 env i len header s p)
  show ?case
  proof (subst OnReadFinished_loop.simps, rule rsat_bind_pair [where R = "\<lambda>a b. PacketHeader_Deserialize header s = Inr (a, b)"], goal_cases)
    case 1
    show ?case by (auto simp: rsat_def)
  next
    case (2 res s1)
    show ?case
    proof (rule rsat_prod, rule rsat_if, goal_cases)
      case 1
      show ?case by (rule rsat_Inr) (rule "1.prems")
    next
      case (2 ok h)
      show ?case
      proof (rule rsat_bind_pair [where R = "\<lambda>q s2. peer_ok me n q \<and> OnReadFinished_packet env i len h s1 p = Inr (q, s2)"], goal_cases)
        case 1
        show ?case using OnReadFinished_packet_keeps [OF "1.prems", of env len h s1] by (auto simp: rsat_def)
      next
        case (2 q s2)
        then show ?case using "1.IH" "1.prems"(2,3) \<open>PacketHeader_Deserialize header s = Inr (res, s1)\<close> \<open>res = (ok, h)\<close> \<open>\<not> \<not> ok\<close> by auto
      qed
    qed
  qed
qed

lemma OnReadFinished_decrypt_keeps [keeps]:
  "peer_ok me n p \<Longrightarrow> rsat (\<lambda>(_, _, p). peer_ok me n p) (OnReadFinished_decrypt env i s p)"
  by (auto simp: OnReadFinished_decrypt_def rsat_def split: option.splits)

lemma OnReadFinished_connected_keeps [keeps]:
  assumes p: "peer_ok me n p" "0 < i" "i < n"
  shows "rsat (peer_ok me n) (OnReadFinished_connected env i header s p)"
  unfolding OnReadFinished_connected_def Let_def
proof (rule rsat_option, rule rsat_Inl, rule rsat_prod, rule rsat_if, goal_cases)
  case (1 c st c')
  then show ?case using p by (auto intro: rsat_Inr peer_ok_congestion)
next
  case (2 c st c')
  then have p1: "peer_ok me n (upd_slot i (\<lambda>r. r\<lparr>congestion := Some c'\<rparr>) p)" using p by (auto intro: peer_ok_congestion)
  show ?case
    by (rule rsat_bind [where R = "peer_ok me n"], (auto intro!: rsat_if rsat_Inr p1 HandleAcknowledgements_keeps) [1],
        rule rsat_bind [where R = "peer_ok me n"], (auto intro!: rsat_if rsat_Inr HandleNonAcknowledgements_keeps) [1])
      (rule OnReadFinished_loop_keeps [OF _ p(2,3)])
qed

lemma OnReadFinished_keeps [keeps]:
  assumes p: "peer_ok me n p" shows "rsat (peer_ok me n) (OnReadFinished env error addr buf len p)"
  unfolding OnReadFinished_def Let_def
proof (rule rsat_if, rule keeps, rule p, rule rsat_option, rule keeps, rule p, goal_cases)
  case (1 i)
  then have i: "0 < i" "i < n" using GetRemoteByAddress_keeps [OF _ p] by auto
  show ?case
    by (rule rsat_bind [OF rsat_any], rule rsat_bind_triple [OF OnReadFinished_decrypt_keeps [OF upd_stats_keeps [OF upd_stats_keeps [OF p]]]],
        rule rsat_if, rule keeps, assumption, rule rsat_bind [OF rsat_any], rule rsat_prod, rule rsat_prod_app,
        rule rsat_if, rule keeps, assumption, rule rsat_if, rule keeps, assumption, rule rsat_if, rule keeps, assumption,
        rule rsat_bind [OF rsat_any], rule rsat_if, rule keeps, assumption, rule keeps)
      (use i in simp_all)
qed

section \<open>Building datagrams\<close>

lemma outbox_upd_used:
  assumes "k < length (outbox r) \<Longrightarrow> op_crypto out = op_crypto (outbox r ! k)"
  shows "layers_used (r\<lparr>outbox := (outbox r)[k := out]\<rparr>) \<subseteq> layers_used r"
proof (cases "k < length (outbox r)")
  case True
  then have "op_crypto ` set ((outbox r)[k := out]) \<subseteq> op_crypto ` set (outbox r)"
    using set_update_subset_insert [of "outbox r" k out] assms by (fastforce dest: nth_mem)
  then show ?thesis by (auto simp: layers_used_def)
qed (simp add: layers_used_def list_update_beyond)

lemma set_sendNext_same: "rsat (\<lambda>r'. same_slot r r' \<and> length (outbox r') = length (outbox r)) (set_sendNext env k r)"
  by (simp add: set_sendNext_def rsat_def same_slot_def outbox_upd_used split: option.splits)

definition queue_ok :: "RemotePeer \<Rightarrow> nat list \<Rightarrow> RemotePeer \<Rightarrow> bool" where
  "queue_ok r0 ks r \<longleftrightarrow> same_slot r0 r \<and> (\<forall>k \<in> set ks. k < length (outbox r))"

lemma GetQueuedPacket_range: "GetQueuedPacket now box len resend = Some k \<Longrightarrow> k < length box"
  by (auto simp: GetQueuedPacket_def find_Some_iff)

lemma Datagram_AddResendPacket_keeps:
  assumes q: "queue_ok r0 ks r" shows "rsat (\<lambda>(ks, r). queue_ok r0 ks r) (Datagram_AddResendPacket env budget (ks, r))"
  unfolding Datagram_AddResendPacket_def prod.case
proof (rule rsat_option, goal_cases)
  case 1
  show ?case using q by (simp add: rsat_def)
next
  case (2 k)
  note k = GetQueuedPacket_range [OF 2]
  show ?case
  proof (rule rsat_bind [OF set_sendNext_same])
    fix r' assume r': "same_slot r r' \<and> length (outbox r') = length (outbox r)"
    have "same_slot r' (r'\<lparr>rp_stats := x\<rparr>)" for x by (simp add: same_slot_def layers_used_def)
    then have "same_slot r0 (r'\<lparr>rp_stats := x\<rparr>)" for x using q r' same_slot_trans unfolding queue_ok_def by blast
    then show "rsat (\<lambda>(ks, r). queue_ok r0 ks r) (Inr (ks @ [k], r'\<lparr>rp_stats := PeerStats_Add PACKETS_LOST 1 (rp_stats r')\<rparr>))"
      using q k r' by (auto simp: rsat_def queue_ok_def)
  qed
qed

lemma Datagram_AddNewPacket_keeps:
  assumes q: "queue_ok r0 ks r" shows "rsat (\<lambda>(ks, r, _). queue_ok r0 ks r) (Datagram_AddNewPacket env (ks, r, budget))"
  unfolding Datagram_AddNewPacket_def prod.case
proof (rule rsat_option, goal_cases)
  case 1
  show ?case using q by (simp add: rsat_def)
next
  case (2 k)
  note k = GetQueuedPacket_range [OF 2]
  show ?case
  proof (rule rsat_bind [OF set_sendNext_same], rule rsat_rassert)
    fix r' assume r': "same_slot r r' \<and> length (outbox r') = length (outbox r)"
    then have "same_slot r0 r'" using q same_slot_trans unfolding queue_ok_def by blast
    then show "rsat (\<lambda>(ks, r, _). queue_ok r0 ks r) (Inr (ks @ [k], r', budget - m_length (op_blob (outbox r' ! k))))"
      using q k r' by (auto simp: rsat_def queue_ok_def)
  qed
qed

lemma Datagram_AddNewPackets_keeps:
  "queue_ok r0 ks r \<Longrightarrow> rsat (\<lambda>(ks, r). queue_ok r0 ks r) (Datagram_AddNewPackets fuel env (ks, r, budget))"
proof (induction fuel arbitrary: ks r budget)
  case (Suc fuel)
  show ?case unfolding Datagram_AddNewPackets.simps
  proof (rule rsat_if, rule rsat_bind [OF Datagram_AddNewPacket_keeps [OF Suc.prems]], goal_cases)
    case (1 x)
    then show ?case using Suc.IH by (cases x) auto
  qed (use Suc.prems in \<open>simp add: rsat_def\<close>)
qed (simp add: rsat_def)

lemma Datagram_count_keeps:
  assumes "peer_ok me n p"
  shows "rsat (\<lambda>(x, p'). peer_ok me n p' \<and> (x \<noteq> None \<longrightarrow> p_layers p' = p_layers p)) (Datagram_count i ks len ids p)"
  using assms
proof (induction ks arbitrary: len ids p)
  case (Cons k ks)
  let ?out = "(outbox (at_slot i p) ! k)\<lparr>sendCount := sendCount (outbox (at_slot i p) ! k) + 1\<rparr>"
  let ?p = "upd_slot i (\<lambda>r. r\<lparr>outbox := (outbox r)[k := ?out]\<rparr>) p"
  have p1: "peer_ok me n ?p"
    by (rule peer_ok_same [OF Cons.prems]) (simp add: same_slot_def outbox_upd_used)
  show ?case unfolding Datagram_count.simps Let_def
  proof (rule rsat_if, goal_cases)
    case 1
    show ?case
      by (rule rsat_bind [where R = "peer_ok me n"], rule rsat_if, rule OnMessageReceipt_keeps [OF p1], rule rsat_Inr, rule p1,
          intro rsat_rassert rsat_bind [OF DisconnectImmediate_keeps]) (auto simp: rsat_def)
  next
    case 2
    show ?case using Cons.IH [OF p1] by simp
  qed
qed (simp add: rsat_def)

lemma Datagram_write_same: "same_slot r0 r \<Longrightarrow> rsat (\<lambda>(_, r). same_slot r0 r) (Datagram_write ks invalid blob r)"
proof (induction ks invalid blob r rule: Datagram_write.induct)
  case (2 k ks invalid blob r)
  show ?case unfolding Datagram_write.simps Let_def
    by (rule rsat_if, rule rsat_Inl, rule rsat_bind [where R = "\<lambda>b. WriteBytes_stream (op_blob (outbox r ! k)) blob = Inr b"])
      (use 2 same_slot_trans [OF 2(3) RemovePacketFromOutbox_same] in \<open>auto simp: rsat_def\<close>)
qed (simp add: rsat_def)

lemma sent_keeps:
  assumes p: "peer_ok me n p" and r: "same_slot (at_slot i p) r" and d: "layer_ok (length (p_layers p)) (od_crypto d)"
  shows "peer_ok me n (upd_slot i (\<lambda>_. r\<lparr>rp_stats := x, sentbox := sentbox r @ [d]\<rparr>) p)"
proof (rule peer_ok_upd [OF p])
  fix r0 assume r0: "i < n" "r0 = at_slot i p" "slot_ok (length (p_layers p)) (length (m_channels p)) i r0"
  then have "slot_ok (length (p_layers p)) (length (m_channels p)) i r" using same_slot_keeps [OF r] by simp
  moreover have "layers_used (r\<lparr>rp_stats := x, sentbox := sentbox r @ [d]\<rparr>) = insert (od_crypto d) (layers_used r)" by (auto simp: layers_used_def)
  ultimately show "slot_ok (length (p_layers p)) (length (m_channels p)) i (r\<lparr>rp_stats := x, sentbox := sentbox r @ [d]\<rparr>) \<and>
      (i = 0 \<longrightarrow> reserved r0 \<longrightarrow> reserved (r\<lparr>rp_stats := x, sentbox := sentbox r @ [d]\<rparr>))"
    using d r r0(2) by (simp add: slot_ok_def same_slot_def)
qed

lemma MakeDatagram_keeps [keeps]:
  assumes p: "peer_ok me n p" "i < n" shows "rsat (\<lambda>(_, p). peer_ok me n p) (MakeDatagram env i p)"
  unfolding MakeDatagram_def Let_def
proof (rule rsat_if, simp add: rsat_def p, rule rsat_option, rule rsat_Inl, rule rsat_rassert, rule rsat_if, simp add: rsat_def p,
    rule rsat_bind_pair [where R = "queue_ok (at_slot i p)"], goal_cases)
  case (1 c)
  have "queue_ok (at_slot i p) [] (at_slot i p)" by (simp add: queue_ok_def)
  then show ?case by (auto intro: rsat_Inr Datagram_AddResendPacket_keeps)
next
  case (2 c ks r)
  show ?case
  proof (rule rsat_bind_pair [OF Datagram_AddNewPackets_keeps [OF 2(5)]], rule rsat_if, goal_cases)
    case (1 ks r)
    then show ?case using peer_ok_same [OF p(1), of i "\<lambda>_. r"] by (simp add: rsat_def queue_ok_def)
  next
    case (2 ks r)
    let ?p = "upd_slot i (\<lambda>_. r) p"
    have p1: "peer_ok me n ?p" using 2 peer_ok_same [OF p(1), of i "\<lambda>_. r"] by (simp add: queue_ok_def)
    have at: "at_slot i ?p = r" "p_layers ?p = p_layers p" using p peer_okD(3) [OF p(1)] by simp_all
    have "hd ks < length (outbox r)" using 2 by (simp add: queue_ok_def)
    then have layer: "layer_ok (length (p_layers p)) (op_crypto (outbox r ! hd ks))"
      using peer_okD(6) [OF p1 p(2)] at by (simp add: slot_ok_def layers_used_def)
    show ?case
    proof (rule rsat_rassert, rule rsat_option, rule rsat_Inl, rule rsat_prod, goal_cases)
      case (1 c did c')
      have p2: "peer_ok me n (upd_slot i (\<lambda>r. r\<lparr>congestion := Some c'\<rparr>) ?p)"
        by (rule peer_ok_congestion [OF p1]) (use 1 at in simp)
      show ?case
      proof (rule rsat_bind_pair [OF Datagram_count_keeps [OF p2]], rule rsat_option, simp add: rsat_def, rule rsat_prod,
          rule rsat_bind [OF rsat_any], goal_cases)
        case (1 x p3 y len ids blob)
        then have p3: "peer_ok me n p3" "p_layers p3 = p_layers p" by simp_all
        show ?case
          by (rule rsat_bind_pair [OF Datagram_write_same [OF same_slot_refl]], rule rsat_Inr, unfold prod.case, rule sent_keeps [OF p3(1)])
            (use layer p3(2) at in simp_all)
      qed
    qed
  qed
qed

lemma MakeAckgram_keeps [keeps]:
  assumes p: "peer_ok me n p" shows "rsat (\<lambda>(_, p). peer_ok me n p) (MakeAckgram env i p)"
  unfolding MakeAckgram_def Let_def
proof (rule rsat_option, rule rsat_Inl, goal_cases)
  case (1 c)
  have "peer_ok me n (upd_slot i (\<lambda>r. r\<lparr>congestion := Some c', sentbox := sentbox r @ [d]\<rparr>) p)" if "od_crypto d = None" for c' d
    by (rule peer_ok_same [OF p]) (use 1 that in \<open>simp add: same_slot_def layers_used_def\<close>)
  then show ?case by (auto simp: rsat_def split: prod.splits)
qed

lemma GetNextDatagram_keeps [keeps]: "peer_ok me n p \<Longrightarrow> i < n \<Longrightarrow> rsat (\<lambda>(_, p). peer_ok me n p) (GetNextDatagram env i p)"
  unfolding GetNextDatagram_def by (intro rsat_option rsat_Inl rsat_if rsat_rassert MakeAckgram_keeps MakeDatagram_keeps)

section \<open>Writing and the worker thread\<close>

lemma DoReadCycle_keeps: "peer_ok me n p \<Longrightarrow> peer_ok me n (DoReadCycle p)"
  by (auto simp: DoReadCycle_def BeginRead_def master_ok_def peer_ok_def)

lemma DoWriteCycle_encrypt_keeps [keeps]:
  assumes p: "peer_ok me n p" shows "rsat (\<lambda>(_, p). peer_ok me n p) (DoWriteCycle_encrypt env i k p)"
proof -
  have sent: "peer_ok me n (upd_slot i (\<lambda>r. r\<lparr>sentbox := (sentbox r)[k := (sentbox (at_slot i p) ! k)\<lparr>od_blob := b\<rparr>]\<rparr>) p)" for b
  proof (rule peer_ok_same [OF p])
    fix r assume r: "r = at_slot i p"
    have "layers_used (r\<lparr>sentbox := (sentbox r)[k := (sentbox r ! k)\<lparr>od_blob := b\<rparr>]\<rparr>) \<subseteq> layers_used r"
    proof (cases "k < length (sentbox r)")
      case True
      then have "od_crypto ` set ((sentbox r)[k := (sentbox r ! k)\<lparr>od_blob := b\<rparr>]) \<subseteq> od_crypto ` set (sentbox r)"
        using set_update_subset_insert [of "sentbox r" k] by (fastforce dest: nth_mem)
      then show ?thesis by (auto simp: layers_used_def)
    qed (simp add: layers_used_def list_update_beyond)
    then show "same_slot r (r\<lparr>sentbox := (sentbox r)[k := (sentbox (at_slot i p) ! k)\<lparr>od_blob := b\<rparr>]\<rparr>)"
      using r by (simp add: same_slot_def)
  qed
  show ?thesis unfolding DoWriteCycle_encrypt_def Let_def
    by (rule rsat_if, simp add: rsat_def p, rule rsat_option, simp add: rsat_def p, rule rsat_if, simp add: rsat_def p,
        rule rsat_bind [OF rsat_any], rule rsat_if, rule rsat_bind [OF DisconnectImmediate_keeps [OF sent]])
      (simp_all add: rsat_def sent)
qed

lemma DoWriteCycle_keeps [keeps]:
  assumes p: "peer_ok me n p" "i < n" shows "rsat (peer_ok me n) (DoWriteCycle env i p)"
  unfolding DoWriteCycle_def Let_def
proof (rule rsat_if, simp add: rsat_def p, rule rsat_bind_pair [OF GetNextDatagram_keeps [OF upd_stats_keeps [OF p(1)] p(2)]],
    rule rsat_option, simp add: rsat_def, rule rsat_bind_pair [OF DoWriteCycle_encrypt_keeps], assumption, rule rsat_if, simp add: rsat_def,
    rule rsat_option, rule rsat_Inl, rule rsat_bind [OF rsat_any], rule rsat_Inr, goal_cases)
  case (1 _ _ k go q c data)
  have w: "peer_ok me n (q'\<lparr>m_masterSocket := BeginWrite addr data (i, did) (m_masterSocket q')\<rparr>)" if "peer_ok me n q'" for q' addr data did
    by (rule peer_ok_socket [OF that]) (use that p(2) in \<open>simp add: peer_ok_def BeginWrite_def master_ok_def\<close>)
  show ?case by (rule w, rule peer_ok_congestion) (use 1 in \<open>simp_all add: upd_stats_keeps\<close>)
qed

lemma OnWriteFinished_keeps [keeps]: "peer_ok me n p \<Longrightarrow> rsat (peer_ok me n) (OnWriteFinished i error p)"
  unfolding OnWriteFinished_def by (intro rsat_if DisconnectImmediate_keeps rsat_Inr)

lemma update_congestion_keeps: "peer_ok me n p \<Longrightarrow> peer_ok me n (update_congestion env i p)"
  by (auto simp: update_congestion_def Let_def same_slot_def layers_used_def intro!: peer_ok_same split: option.splits prod.splits)

lemma update_receipts_keeps [keeps]:
  assumes p: "peer_ok me n p" shows "rsat (peer_ok me n) (update_receipts env i p)"
  unfolding update_receipts_def Let_def
proof (rule rsat_option, simp add: rsat_def p, rule rsat_prod, rule rsat_prod, rule rsat_bind [OF OnMessageReceipts_inbox], rule rsat_Inr, goal_cases)
  case (1 t keep x rs t' q)
  have "set (map fst (filter snd (zip ds keep))) \<subseteq> set ds" for ds :: "OutgoingDatagram list" by (auto dest: set_zip_leftD)
  then have "same_slot r (r\<lparr>receipt := Some t', sentbox := map fst (filter snd (zip (sentbox r) keep))\<rparr>)" if "receipt r \<noteq> None" for r
    using that by (auto simp: same_slot_def layers_used_def image_iff dest: set_zip_leftD)
  then show ?case using 1 p inbox_onlyD [OF 1(4)] by (intro peer_ok_same) simp_all
qed

lemma ThreadWorker_slot_keeps [keeps]:
  assumes p: "peer_ok me n p" "i < n" shows "rsat (\<lambda>(_, p). peer_ok me n p) (ThreadWorker_slot env i p)"
  unfolding ThreadWorker_slot_def Let_def
proof (rule rsat_if, simp add: rsat_def p, rule rsat_bind [where R = "peer_ok me n"], goal_cases)
  case 1
  show ?case using p by (intro rsat_option rsat_if rsat_Inr Handshaker_Update_keeps)
next
  case (2 q)
  show ?case
    by (rule rsat_bind [OF update_receipts_keeps [OF update_congestion_keeps [OF 2(2)]]], rule rsat_if, rule rsat_bind [OF DisconnectImmediate_keeps],
        assumption, simp add: rsat_def, rule rsat_if, simp add: rsat_def, rule rsat_bind [OF DoWriteCycle_keeps [OF DoReadCycle_keeps p(2)]])
      (simp_all add: rsat_def)
qed

lemma ThreadWorker_slots_keeps:
  "peer_ok me n p \<Longrightarrow> (\<forall>i \<in> set is. i < n) \<Longrightarrow> rsat (\<lambda>(_, p). peer_ok me n p) (ThreadWorker_slots env is p)"
proof (induction "is" arbitrary: p)
  case (Cons i "is")
  show ?case unfolding ThreadWorker_slots.simps
    by (rule rsat_bind_pair [OF ThreadWorker_slot_keeps]) (use Cons in \<open>auto simp: rsat_def\<close>)
qed (simp add: rsat_def)

lemma ThreadWorker_keeps [keeps]:
  assumes p: "peer_ok me n p" shows "rsat (peer_ok me n) (ThreadWorker env p)"
proof -
  have "\<forall>i \<in> set [0..<Suc (GetMaximumPeers p)]. i < n" using p by (auto simp: GetMaximumPeers_def size_sub_eq peer_ok_def)
  note slots = ThreadWorker_slots_keeps [OF p this]
  show ?thesis unfolding ThreadWorker_def
    by (rule rsat_if, simp add: rsat_def p, rule rsat_if, simp add: rsat_def p, rule rsat_bind_pair [OF slots]) (simp add: rsat_def)
qed

section \<open>Events of the socket\<close>

lemma socket_connected_keeps [keeps]:
  assumes p: "peer_ok me n p" shows "rsat (peer_ok me n) (socket_connected env p)"
  unfolding socket_connected_def Let_def
proof (rule rsat_prod, goal_cases)
  case (1 posted sock)
  have m: "master_ok n (reserved (at_slot 0 p)) (m_masterSocket p)" using p by (simp add: peer_ok_def)
  then have "master_ok n (reserved (at_slot 0 p)) sock" "\<And>i e a. posted = Some (i, e, a) \<Longrightarrow> i < n"
    using 1 by (auto simp: SocketUDP_ThreadWorker_def master_ok_def split: if_splits list.splits)
  then show ?case using peer_ok_socket [OF p] by (auto intro!: rsat_option rsat_Inr OnSocketConnected_keeps split: prod.splits)
qed

lemma socket_read_keeps [keeps]:
  assumes p: "peer_ok me n p" shows "rsat (peer_ok me n) (socket_read env error addr data p)"
proof -
  have f: "peer_ok me n (p\<lparr>m_masterSocket := fill_readbuf d (m_masterSocket p)\<rparr>)" for d
    by (rule peer_ok_socket [OF p]) (use p in \<open>simp add: peer_ok_def master_ok_def fill_readbuf_def Let_def\<close>)
  have a: "peer_ok me n (q\<lparr>m_masterSocket := after_read e (m_masterSocket q)\<rparr>)" if "peer_ok me n q" for q e
    by (rule peer_ok_socket [OF that]) (use that in \<open>simp add: peer_ok_def master_ok_def after_read_def BeginRead_def\<close>)
  show ?thesis unfolding socket_read_def Let_def by (intro rsat_bind [OF OnReadFinished_keeps [OF f]] rsat_Inr a)
qed

lemma socket_written_keeps [keeps]:
  assumes p: "peer_ok me n p" shows "rsat (peer_ok me n) (socket_written error p)"
proof -
  have "peer_ok me n (p\<lparr>m_masterSocket := snd (write_completion (m_masterSocket p))\<rparr>)"
    by (rule peer_ok_socket [OF p]) (use p in \<open>simp add: peer_ok_def master_ok_def write_completion_def\<close>)
  then show ?thesis unfolding socket_written_def Let_def
    by (auto intro!: rsat_option rsat_Inr OnWriteFinished_keeps split: prod.splits)
qed

section \<open>Reachable states\<close>

text \<open>The events of the network threads, and the calls of the application interface that change the peer.\<close>

datatype event =
    Worker "slot \<Rightarrow> Env"
  | Connected Env
  | Read Env bool RemoteAddress "u8 list"
  | Written bool

fun on_event :: "event \<Rightarrow> Peer \<Rightarrow> Peer result" where
  "on_event (Worker env) p = ThreadWorker env p"
| "on_event (Connected env) p = socket_connected env p"
| "on_event (Read env error addr data) p = socket_read env error addr data p"
| "on_event (Written error) p = socket_written error p"

datatype call =
    CBind Env SocketProtocol u16
  | CConnect Env "u8 list" u16 "cell list option"
  | CDisconnect Env PeerID Timespan
  | CDisconnectImmediate PeerID
  | CStop Env Timespan "event list"
  | CSend Env Packet PeerID PacketOptions PacketPriority Channel
  | CSendLoopback Packet
  | CReceive
  | CPing Env "u8 list" u16
  | CPingLocalNetwork Env u16
  | CSetOfflineAdvertisement BinaryStream
  | CDisableOfflineAdvertisement
  | CSetEncryptionEnabled Env bool
  | CSetEncryptionIdentity Env "cell list option" "cell list option"
  | CMakeChannel ChannelMode
  | CSetMaximumIncomingPeers nat
  | CRpcRegisterSlot "u8 list" callback
  | CRpcUnregisterSlot "u8 list"
  | CRpcSignal Env "u8 list" PeerID BinaryStream
  | CDestroy

fun on_call :: "call \<Rightarrow> Peer \<Rightarrow> Peer result" where
  "on_call (CBind env family port) p = rbind (Bind env family port p) (\<lambda>(_, p). Inr p)"
| "on_call (CConnect env host port key) p = rbind (Connect env host port key p) (\<lambda>(_, p). Inr p)"
| "on_call (CDisconnect env who linger) p = Disconnect env who linger p"
| "on_call (CDisconnectImmediate who) p = DisconnectImmediate_id who p"
| "on_call (CStop env linger events) p = Stop env linger (rfold on_event events) p"
| "on_call (CSend env packet who opts prio channel) p = rbind (Send env packet who opts prio channel p) (\<lambda>(_, p). Inr p)"
| "on_call (CSendLoopback packet) p = SendLoopback packet p"
| "on_call CReceive p = Inr (snd (Receive p))"
| "on_call (CPing env host port) p = Ping env host port p"
| "on_call (CPingLocalNetwork env port) p = PingLocalNetwork env port p"
| "on_call (CSetOfflineAdvertisement data) p = SetOfflineAdvertisement data p"
| "on_call CDisableOfflineAdvertisement p = DisableOfflineAdvertisement p"
| "on_call (CSetEncryptionEnabled env enabled) p = SetEncryptionEnabled env enabled p"
| "on_call (CSetEncryptionIdentity env secret public) p = SetEncryptionIdentity env secret public p"
| "on_call (CMakeChannel mode) p = Inr (snd (MakeChannel mode p))"
| "on_call (CSetMaximumIncomingPeers k) p = Inr (SetMaximumIncomingPeers k p)"
| "on_call (CRpcRegisterSlot name handler) p = RpcRegisterSlot name handler p"
| "on_call (CRpcUnregisterSlot name) p = RpcUnregisterSlot name p"
| "on_call (CRpcSignal env name who params) p = RpcSignal env name who params p"
| "on_call CDestroy p = Inr (Peer_destroy p)"

inductive reaches :: "Peer \<Rightarrow> Peer \<Rightarrow> bool" for p0 where
  reaches_start: "reaches p0 p0"
| reaches_event: "reaches p0 p \<Longrightarrow> on_event e p = Inr p' \<Longrightarrow> reaches p0 p'"
| reaches_call: "reaches p0 p \<Longrightarrow> on_call c p = Inr p' \<Longrightarrow> reaches p0 p'"

lemma on_event_keeps: "peer_ok me n p \<Longrightarrow> rsat (peer_ok me n) (on_event e p)"
  by (cases e) (simp_all add: keeps)

lemma Peer_destroy_keeps: "peer_ok me n p \<Longrightarrow> peer_ok me n (Peer_destroy p)"
  by (simp add: Peer_destroy_def PacketQueue_Stop_def Let_def)
    (auto intro!: peer_ok_socket SocketUDP_Unbind_keeps simp: peer_ok_def)

lemma on_call_keeps:
  assumes "peer_ok me n p" shows "rsat (peer_ok me n) (on_call c p)"
proof -
  have pair: "rsat (peer_ok me n) (rbind m (\<lambda>(_, p). Inr p))" if "rsat (\<lambda>(_, p). peer_ok me n p) m" for m :: "('a \<times> Peer) result"
    by (rule rsat_bind_pair [OF that]) (rule rsat_Inr)
  show ?thesis using assms
    by (cases c) (auto intro!: pair keeps rsat_rfold on_event_keeps rsat_Inr Receive_keeps MakeChannel_keeps SetMaximumIncomingPeers_keeps Peer_destroy_keeps)
qed

lemma Peer_new_keeps:
  assumes "Peer_new rng maxPeers = Inr p" "maxPeers + 1 < 2 ^ 64"
  shows "peer_ok (m_id p) (maxPeers + 1) p"
proof -
  have r: "m_remotes p = replicate (maxPeers + 1) RemotePeer_new" "m_remotesMax p = maxPeers + 1" "m_remotesIncoming p = 0"
    "m_channels p = [UNORDERED]" "m_remoteLookup p = Map.empty" "m_masterSocket p = SocketUDP_new" "p_layers p = []"
    using assms(1) by (auto simp: Peer_new_def)
  then have "at_slot i p = RemotePeer_new" if "i < maxPeers + 1" for i
    using that nth_replicate [of i "maxPeers + 1" RemotePeer_new] by (simp add: at_slot_def)
  moreover have "slot_ok k c i RemotePeer_new" for k c i
    by (simp add: RemotePeer_new_def slot_ok_def layers_used_def layer_ok_def channels_ok_def)
  ultimately show ?thesis using r assms(2)
    by (simp add: peer_ok_def lookup_ok_def master_ok_def SocketUDP_new_def)
qed

text \<open>
  C8.  Whatever calls the application makes and whatever the network delivers, in whichever order, the
  peer stays well formed: its identity and the number of its slots never change; exactly the taken slots
  have a congestion control and a receipt tracker, and exactly the taken slots other than the first have a
  handshake and an encryption layer; only taken slots are active; every stored index of a slot, of an
  encryption layer or of a channel is in range; and connect attempts are accepted only once the first slot is set up.
\<close>

theorem peer_stays_well_formed:
  assumes "Peer_new rng maxPeers = Inr p0" "maxPeers + 1 < 2 ^ 64" "reaches p0 p"
  shows "peer_ok (m_id p0) (maxPeers + 1) p"
  using assms(3) Peer_new_keeps [OF assms(1,2)]
  by (induction rule: reaches.induct) (auto dest: rsatD [OF on_event_keeps] rsatD [OF on_call_keeps])

theorem peer_stays_well_formed_witness:
  "Peer_new [11] 1 = Inr (example_new 11 1) \<and> reaches (example_new 11 1) (example_fresh 11 1 0) \<and>
    peer_ok 11 2 (example_fresh 11 1 0)"
proof -
  have new: "Peer_new [11] 1 = Inr (example_new 11 1)" by (simp add: example_new)
  have b: "Bind (example_env 1) IPv4 1337 (SetMaximumIncomingPeers 0 (example_new 11 1)) = Inr (True, example_fresh 11 1 0)"
    by (rule example_bind) simp_all
  have "on_call (CSetMaximumIncomingPeers 0) (example_new 11 1) = Inr (SetMaximumIncomingPeers 0 (example_new 11 1))"
    "on_call (CBind (example_env 1) IPv4 1337) (SetMaximumIncomingPeers 0 (example_new 11 1)) = Inr (example_fresh 11 1 0)"
    by (simp_all only: on_call.simps b rbind_simps prod.case)
  then have r: "reaches (example_new 11 1) (example_fresh 11 1 0)" using reaches_start reaches_call by blast
  have "peer_ok (m_id (example_new 11 1)) (1 + 1) (example_fresh 11 1 0)" by (rule peer_stays_well_formed [OF new _ r]) simp
  moreover have "m_id (example_new 11 1) = 11" by (simp add: example_new_def Peer_new_def)
  ultimately show ?thesis using new r unfolding one_add_one by simp
qed

end
