(* ===== verification/Passes.thy ===== *)
theory Passes
  imports Connecting
begin

text \<open>
  The passes of the worker thread over one established connection: the clean-up of the congestion
  control and of the sent box, and the write cycle behind it.  The receipts they post, and what becomes of a
  message whose datagram is lost.
\<close>

section \<open>Receipts in the inbox\<close>

definition receipt_notice :: "PacketID \<times> bool \<Rightarrow> Packet" where
  "receipt_notice = (\<lambda>(i, delivered).
     packet_of (ucast i) (if delivered then NOTIFY_RECEIPT_ACKED else NOTIFY_RECEIPT_LOST) (be32 i))"

lemma OnMessageReceipt_ok: "OnMessageReceipt i d p = Inr (p\<lparr>m_inbox := m_inbox p @ [receipt_notice (i, d)]\<rparr>)"
proof -
  define cmd where "cmd = (if d then NOTIFY_RECEIPT_ACKED else NOTIFY_RECEIPT_LOST)"
  obtain b where b: "WriteInt32 i (BinaryStream_new 4) = Inr b" "written b (be32 i) []"
    using int32.put_aligned [OF _ written_new, of i LittleEndian 4] by (auto simp: flushed_def max_stream_def)
  have ne: "be32 i \<noteq> []" "length (be32 i) = 4" by (simp_all add: be32_def)
  have "flushed (be32 i) [] = be32 i" by (simp add: flushed_def)
  with moved_packet [OF b(2), of cmd] ne obtain packet s' where
    packet: "Packet_of_moved_stream cmd b = (packet, s')" "packet_ok packet" "m_command packet = cmd" "payload packet = be32 i"
    by auto
  have "packet_ok (SetSender (ucast i) packet)" "payload (SetSender (ucast i) packet) = be32 i"
    using packet(2,4) by (simp_all add: SetSender_def packet_ok_def payload_def split: option.splits)
  then have "Packet_copy (SetSender (ucast i) packet) = Inr (receipt_notice (i, d))"
    using Packet_copy_ok [of "SetSender (ucast i) packet"] packet(3) ne by (simp add: SetSender_def receipt_notice_def cmd_def)
  then show ?thesis using b(1) packet(1)
    by (simp add: OnMessageReceipt_def SendLoopback_def EnqueueLoopback_def Let_def cmd_def [symmetric] del: rbind_eq_Inr)
qed

lemma OnMessageReceipts_ok: "OnMessageReceipts rs p = Inr (p\<lparr>m_inbox := m_inbox p @ map receipt_notice rs\<rparr>)"
  unfolding OnMessageReceipts_def
  by (induction rs arbitrary: p) (auto simp: OnMessageReceipt_ok)

section \<open>A pass over one connection\<close>

text \<open>The slot is connected, not being disconnected, and the socket is open.\<close>

definition running :: "slot \<Rightarrow> Peer \<Rightarrow> bool" where
  "running i p \<longleftrightarrow> i < length (m_remotes p) \<and> active (at_slot i p) \<and> rp_socket (at_slot i p) \<and>
     (\<exists>h. handshake (at_slot i p) = Some h \<and> hs_result h = CR_OK) \<and> disconnect (at_slot i p) = 0 \<and>
     congestion (at_slot i p) \<noteq> None \<and> receipt (at_slot i p) \<noteq> None \<and> su_is_open (m_masterSocket p)"

text \<open>The slot, the notices of receipts and the socket when the write cycle begins.\<close>

definition tidied :: "Timestamp \<Rightarrow> RemotePeer \<Rightarrow> RemotePeer" where
  "tidied now r = (case congestion r of None \<Rightarrow> r | Some c \<Rightarrow> (case receipt r of None \<Rightarrow> r | Some t \<Rightarrow>
     let (c', st) = CongestionControlWindow_Update now c (rp_stats r);
         (keep, rs, t') = ReceiptTracker_Update now (map (\<lambda>d. (od_discard d, od_packets d)) (sentbox r)) t
     in r\<lparr>congestion := Some c', rp_stats := st, receipt := Some t',
          sentbox := map fst (filter snd (zip (sentbox r) keep))\<rparr>))"

definition notices :: "Timestamp \<Rightarrow> RemotePeer \<Rightarrow> Packet list" where
  "notices now r = (case receipt r of None \<Rightarrow> [] | Some t \<Rightarrow>
     map receipt_notice (fst (snd (ReceiptTracker_Update now (map (\<lambda>d. (od_discard d, od_packets d)) (sentbox r)) t))))"

definition before_write :: "Timestamp \<Rightarrow> slot \<Rightarrow> Peer \<Rightarrow> Peer" where
  "before_write now i p = DoReadCycle ((upd_slot i (tidied now) p)\<lparr>m_inbox := m_inbox p @ notices now (at_slot i p)\<rparr>)"

lemma DoReadCycle_fields [simp]:
  "m_remotes (DoReadCycle p) = m_remotes p" "at_slot i (DoReadCycle p) = at_slot i p" "m_inbox (DoReadCycle p) = m_inbox p"
  "m_crypto_enabled (DoReadCycle p) = m_crypto_enabled p" "p_layers (DoReadCycle p) = p_layers p"
  "m_remotesMax (DoReadCycle p) = m_remotesMax p" "m_remoteLookup (DoReadCycle p) = m_remoteLookup p" "m_channels (DoReadCycle p) = m_channels p" "p_calls (DoReadCycle p) = p_calls p"
  "su_write (m_masterSocket (DoReadCycle p)) = su_write (m_masterSocket p)"
  "m_sending (m_masterSocket (DoReadCycle p)) = m_sending (m_masterSocket p)"
  "su_is_open (m_masterSocket (DoReadCycle p)) = su_is_open (m_masterSocket p)"
  by (simp_all add: DoReadCycle_def at_slot_def BeginRead_def)

lemma worker_pass:
  assumes "running i p"
  shows "ThreadWorker_slot env i p = rbind (DoWriteCycle env i (before_write (e_now env) i p)) (\<lambda>p. Inr (True, p))"
proof -
  obtain c t h where r: "congestion (at_slot i p) = Some c" "receipt (at_slot i p) = Some t"
    "handshake (at_slot i p) = Some h" "hs_result h = CR_OK" and i: "i < length (m_remotes p)"
    using assms by (auto simp: running_def)
  have fin: "IsDone h" using r(4) by (simp add: IsDone_def)
  let ?p1 = "update_congestion env i p"
  let ?p2 = "(upd_slot i (tidied (e_now env)) p)\<lparr>m_inbox := m_inbox p @ notices (e_now env) (at_slot i p)\<rparr>"
  obtain c' st where c': "CongestionControlWindow_Update (e_now env) c (rp_stats (at_slot i p)) = (c', st)" by fastforce
  obtain keep rs t' where t': "ReceiptTracker_Update (e_now env)
      (map (\<lambda>d. (od_discard d, od_packets d)) (sentbox (at_slot i p))) t = (keep, rs, t')" using prod_cases3 by blast
  have at1: "at_slot i ?p1 = at_slot i p\<lparr>congestion := Some c', rp_stats := st\<rparr>"
    using r i c' by (simp add: update_congestion_def)
  have up: "update_receipts env i ?p1 = Inr ?p2"
    using at1 r i c' t' unfolding update_receipts_def at1
    by (simp add: OnMessageReceipts_ok notices_def tidied_def update_congestion_def upd_slot_def at_slot_def)
  have slot2: "at_slot i ?p2 = tidied (e_now env) (at_slot i p)" using i by simp
  then have "disconnect (at_slot i ?p2) = 0" "rp_socket (at_slot i ?p2)" "su_is_open (m_masterSocket ?p2)"
    using assms r by (auto simp: running_def tidied_def split: prod.splits)
  then show ?thesis
    using assms r(3) fin up
    by (simp add: ThreadWorker_slot_def running_def before_write_def Timestamp_IsValid_def IsOpenAndReady_def)
qed


text \<open>One pass, without the flag.\<close>

definition pass :: "Env \<Rightarrow> slot \<Rightarrow> Peer \<Rightarrow> Peer result" where
  "pass env i p = rbind (ThreadWorker_slot env i p) (\<lambda>(go, p). Inr p)"

lemma pass_running: "running i p \<Longrightarrow> pass env i p = DoWriteCycle env i (before_write (e_now env) i p)"
  by (simp add: pass_def worker_pass rbind_assoc) (cases "DoWriteCycle env i (before_write (e_now env) i p)"; simp)

section \<open>The clean-up of the congestion control\<close>

definition cleaned :: "Timestamp \<Rightarrow> CongestionControlWindow \<Rightarrow> CongestionControlWindow" where
  "cleaned now c = fst (CongestionControlWindow_Update now c PeerStats_empty)"

lemma cleaned_eq: "fst (CongestionControlWindow_Update now c st) = cleaned now c"
  by (simp add: cleaned_def CongestionControlWindow_Update_def CongestionControl_Update_def Let_def split: prod.split)

lemma cleaned_fields [simp]:
  "m_nextPacket (cleaned now c) = m_nextPacket c" "m_nextDatagram (cleaned now c) = m_nextDatagram c"
  "m_remoteDatagram (cleaned now c) = m_remoteDatagram c" "m_oldestUnsentAck (cleaned now c) = m_oldestUnsentAck c"
  "m_rttHistory (cleaned now c) = m_rttHistory c" "m_rttMin (cleaned now c) = m_rttMin c"
  "m_rttMax (cleaned now c) = m_rttMax c" "m_rttAvg (cleaned now c) = m_rttAvg c"
  "m_acks (cleaned now c) = m_acks c" "m_nacks (cleaned now c) = m_nacks c"
  "m_window (cleaned now c) = m_window c" "m_threshold (cleaned now c) = m_threshold c"
  by (simp_all add: cleaned_def CongestionControlWindow_Update_def CongestionControl_Update_def Let_def split: prod.split)

lemma cleaned_RTO [simp]: "GetRetransmissionRTO n (cleaned now c) = GetRetransmissionRTO n c"
  by (simp add: GetRetransmissionRTO_def GetRTTHistoryAvailable_def Let_def)

lemma cleaned_acks [simp]: "GetNeedsToSendAcks now (cleaned t c) = GetNeedsToSendAcks now c"
  by (simp add: GetNeedsToSendAcks_def)

lemma cleaned_idle:
  "cc_outgoing c = [] \<Longrightarrow> cc_outgoing (cleaned now c) = []"
  "cc_outgoing c = [] \<Longrightarrow> m_bytesInFlight (cleaned now c) = m_bytesInFlight c"
  by (simp_all add: cleaned_def CongestionControlWindow_Update_def CongestionControl_Update_def Let_def)

lemma cleaned_history:
  "m_datagramHistory c d = None \<Longrightarrow> m_datagramHistory (cleaned now c) d = None"
  "m_packetHistory c k = None \<Longrightarrow> m_packetHistory (cleaned now c) k = None"
  by (simp_all add: cleaned_def CongestionControlWindow_Update_def CongestionControl_Update_def Let_def expire_history_def
      split: prod.split)

text \<open>Without a round-trip time everything sent before is forgotten.\<close>

lemma cleaned_forgets:
  assumes "m_rttAvg c = 0" "m_nextUpdate c \<le> now" "\<forall>(d, pif) \<in> set (cc_outgoing c). pif_sent pif \<le> now \<and> pif_bytes pif < 2 ^ 64"
    and "m_bytesInFlight c = tracked (cc_outgoing c) mod 2 ^ 64"
  shows "cc_outgoing (cleaned now c) = []" "m_bytesInFlight (cleaned now c) = 0"
proof -
  obtain n m where e: "expire_outgoing now 0 (m_bytesInFlight c) (cc_outgoing c) = (n, m)" by fastforce
  have "wire_expired now 0 pif" if "(d, pif) \<in> set (cc_outgoing c)" for d pif
    using assms(3) that by (auto simp: wire_expired_def Timestamp_plus_def intro: le_trans [OF mod_less_eq_dividend])
  then have f: "filter (\<lambda>(d, pif). \<not> wire_expired now 0 pif) (cc_outgoing c) = []" by (auto simp: filter_empty_conv)
  have "n = (tracked m + 0) mod 2 ^ 64 \<and> m = filter (\<lambda>(d, pif). \<not> wire_expired now 0 pif) (cc_outgoing c)"
    by (rule expire_outgoing_tracked [OF e]) (use assms(3,4) in auto)
  then have "m = []" "n = 0" using f by simp_all
  then show "cc_outgoing (cleaned now c) = []" "m_bytesInFlight (cleaned now c) = 0"
    using e assms(1,2)
    by (simp_all add: cleaned_def CongestionControlWindow_Update_def CongestionControl_Update_def Let_def Time_Elapsed_def)
qed

lemma cleaned_early: "now < m_nextUpdate c \<Longrightarrow> cleaned now c = c"
  by (simp add: cleaned_def CongestionControlWindow_Update_def CongestionControl_Update_def Let_def Time_Elapsed_def)

lemma kept_subset: "fst ` {x \<in> set (zip xs ks). snd x} \<subseteq> set xs"
  using set_zip_leftD by fastforce

lemma tidied_fields:
  assumes "congestion r = Some c" "receipt r \<noteq> None"
  shows "congestion (tidied now r) = Some (cleaned now c)" "outbox (tidied now r) = outbox r"
    "set (sentbox (tidied now r)) \<subseteq> set (sentbox r)" "receipt (tidied now r) \<noteq> None"
    "same_connection (r\<lparr>receipt := receipt (tidied now r)\<rparr>) (tidied now r)"
proof -
  obtain t where t: "receipt r = Some t" using assms(2) by auto
  obtain c' st where c': "CongestionControlWindow_Update now c (rp_stats r) = (c', st)" by fastforce
  then have "c' = cleaned now c" using cleaned_eq [of now c "rp_stats r"] by simp
  moreover obtain keep rs t' where "ReceiptTracker_Update now (map (\<lambda>d. (od_discard d, od_packets d)) (sentbox r)) t = (keep, rs, t')"
    using prod_cases3 by blast
  ultimately have e: "tidied now r = r\<lparr>congestion := Some (cleaned now c), rp_stats := st, receipt := Some t',
      sentbox := map fst (filter snd (zip (sentbox r) keep))\<rparr>"
    using assms(1) t c' by (simp add: tidied_def)
  show "congestion (tidied now r) = Some (cleaned now c)" "outbox (tidied now r) = outbox r" "receipt (tidied now r) \<noteq> None"
    "same_connection (r\<lparr>receipt := receipt (tidied now r)\<rparr>) (tidied now r)"
    by (simp_all add: e same_connection_def)
  show "set (sentbox (tidied now r)) \<subseteq> set (sentbox r)" using kept_subset by (simp add: e)
qed

text \<open>Datagrams that carry no packets cause no receipts.\<close>

lemma lose_none:
  assumes "\<forall>(t, ids) \<in> set ds. ids = []"
  shows "fst (snd (ReceiptTracker_Update now ds t)) = []" "snd (snd (ReceiptTracker_Update now ds t)) = t"
  using assms by (induction ds) (auto split: prod.splits)

lemma tidied_quiet:
  assumes "congestion r = Some c" "receipt r = Some t" "\<forall>d \<in> set (sentbox r). od_packets d = []"
  shows "receipt (tidied now r) = Some t" "notices now r = []"
proof -
  let ?ds = "map (\<lambda>d. (od_discard d, od_packets d)) (sentbox r)"
  have "\<forall>(t, ids) \<in> set ?ds. ids = []" using assms(3) by auto
  note l = lose_none [OF this, of now t]
  show "receipt (tidied now r) = Some t" "notices now r = []"
    using assms(1,2) l by (auto simp: tidied_def notices_def split: prod.splits)
qed

section \<open>Nothing to send\<close>

lemma fill_nothing:
  assumes "\<forall>out \<in> set (outbox r). 0 < sendCount out"
  shows "Datagram_AddNewPackets (b + length (outbox r) + 1) env (q, r, b) = Inr (q, r)"
proof (cases "b = 0")
  case False
  then obtain f where f: "b + length (outbox r) + 1 = Suc (Suc f)" by (cases b) auto
  have "GetQueuedPacket now (outbox r) m False = None" for now m
    using assms by (auto simp: GetQueuedPacket_def find_None_iff)
  then show ?thesis unfolding f by (simp add: Datagram_AddNewPacket_def)
qed simp

lemma MakeDatagram_nothing:
  assumes i: "i < length (m_remotes p)" and c: "congestion (at_slot i p) = Some c"
    and w: "\<forall>out \<in> set (outbox (at_slot i p)). 0 < sendCount out \<and> (m_bytesInFlight c = 0 \<or> e_now env < sendNext out)"
  shows "MakeDatagram env i p = Inr (None, p)"
proof (cases "outbox (at_slot i p) = []")
  case False
  let ?r = "at_slot i p"
  have fit: "GetTransmissionBudget c + GetRetransmissionBudget c \<le> MTU" by (rule window.budgets_fit)
  have re: "(if GetRetransmissionBudget c > 0 then Datagram_AddResendPacket env (GetRetransmissionBudget c) ([], ?r)
      else Inr ([], ?r)) = Inr ([], ?r)"
  proof (cases "m_bytesInFlight c = 0")
    case True
    then show ?thesis by (simp add: GetRetransmissionBudget_def)
  next
    case False
    then have "\<forall>out \<in> set (outbox ?r). e_now env < sendNext out" using w by auto
    then have "GetQueuedPacket (e_now env) (outbox ?r) m True = None" for m
      by (auto simp: GetQueuedPacket_def find_None_iff Time_Elapsed_def not_le)
    then show ?thesis by (simp add: Datagram_AddResendPacket_def)
  qed
  have fl: "Datagram_AddNewPackets (GetTransmissionBudget c + length (outbox ?r) + 1) env ([], ?r, GetTransmissionBudget c) = Inr ([], ?r)"
    using w by (intro fill_nothing) auto
  have up: "upd_slot i (\<lambda>_. ?r) p = p" using i by (simp add: upd_slot_def at_slot_def)
  have "(GetTransmissionBudget c + GetRetransmissionBudget c \<le> MTU) = True" "(outbox ?r = []) = False" using fit False by simp_all
  then show ?thesis unfolding MakeDatagram_def
    by (simp only: c option.case Let_def if_False if_True rassert_simps rbind_simps prod.case re fl up simp_thms if_cancel)
qed (simp add: MakeDatagram_def)

lemma DoWriteCycle_nothing:
  assumes i: "i < length (m_remotes p)" and c: "congestion (at_slot i p) = Some c" and a: "\<not> GetNeedsToSendAcks (e_now env) c"
    and w: "\<forall>out \<in> set (outbox (at_slot i p)). 0 < sendCount out \<and> (m_bytesInFlight c = 0 \<or> e_now env < sendNext out)"
  shows "\<exists>st. DoWriteCycle env i p = Inr (upd_slot i (\<lambda>r. r\<lparr>rp_stats := st\<rparr>) p)"
proof (cases "m_sending (m_masterSocket p)")
  case True
  have "upd_slot i (\<lambda>r. r\<lparr>rp_stats := rp_stats (at_slot i p)\<rparr>) p = p" by (simp add: upd_slot_def at_slot_def)
  then show ?thesis using True by (auto simp: DoWriteCycle_def IsWritePending_def intro!: exI [of _ "rp_stats (at_slot i p)"])
next
  case False
  let ?st = "PeerStats_Set PACKETS_IN_QUEUE (length (outbox (at_slot i p))) (rp_stats (at_slot i p))"
  let ?p = "upd_slot i (\<lambda>r. r\<lparr>rp_stats := ?st\<rparr>) p"
  have st: "upd_stats i (PeerStats_Set PACKETS_IN_QUEUE (length (outbox (at_slot i p)))) p = ?p"
    by (simp add: upd_stats_def upd_slot_def at_slot_def)
  have "MakeDatagram env i ?p = Inr (None, ?p)" using i c w by (intro MakeDatagram_nothing [where c = c]) auto
  then have "GetNextDatagram env i ?p = Inr (None, ?p)" using i c a by (simp add: GetNextDatagram_def)
  then show ?thesis using False unfolding DoWriteCycle_def Let_def st
    by (simp add: IsWritePending_def) (rule exI, rule refl)
qed

section \<open>Lost messages\<close>

lemma before_write_fields:
  assumes "running i p" "congestion (at_slot i p) = Some c"
  shows "at_slot i (before_write now i p) = tidied now (at_slot i p)" "length (m_remotes (before_write now i p)) = length (m_remotes p)"
    "running i (before_write now i p)" "m_sending (m_masterSocket (before_write now i p)) = m_sending (m_masterSocket p)"
    "su_write (m_masterSocket (before_write now i p)) = su_write (m_masterSocket p)"
    "m_crypto_enabled (before_write now i p) = m_crypto_enabled p"
    "m_inbox (before_write now i p) = m_inbox p @ notices now (at_slot i p)" "same_link i p (before_write now i p)"
    "m_remoteLookup (before_write now i p) = m_remoteLookup p"
proof -
  have i: "i < length (m_remotes p)" "receipt (at_slot i p) \<noteq> None" using assms by (simp_all add: running_def)
  show a: "at_slot i (before_write now i p) = tidied now (at_slot i p)" using i(1) by (simp add: before_write_def)
  show "length (m_remotes (before_write now i p)) = length (m_remotes p)"
    "m_sending (m_masterSocket (before_write now i p)) = m_sending (m_masterSocket p)"
    "su_write (m_masterSocket (before_write now i p)) = su_write (m_masterSocket p)"
    "m_crypto_enabled (before_write now i p) = m_crypto_enabled p"
    "m_inbox (before_write now i p) = m_inbox p @ notices now (at_slot i p)" "m_remoteLookup (before_write now i p) = m_remoteLookup p"
    by (simp_all add: before_write_def)
  note td = tidied_fields [OF assms(2) i(2), of now]
  have "m_remotes (before_write now i p) = (m_remotes p)[i := tidied now (at_slot i p)]"
    by (simp add: before_write_def upd_slot_def at_slot_def)
  then show "same_link i p (before_write now i p)" using td(1,5) unfolding same_link_def
    by (intro conjI exI [of _ "tidied now (at_slot i p)"]) (auto simp: before_write_def same_connection_def)
  show "running i (before_write now i p)"
    using assms(1) td unfolding running_def a
    by (auto simp: before_write_def same_connection_def)
qed

text \<open>
  Everything in the outbox has been sent, no acknowledgement was ever received, and what is still counted as in
  flight is forgotten before it may be repeated.
\<close>

definition stranded :: "Timestamp \<Rightarrow> slot \<Rightarrow> Peer \<Rightarrow> bool" where
  "stranded w i p \<longleftrightarrow> running i p \<and> (\<exists>c. congestion (at_slot i p) = Some c \<and> m_acks c = [] \<and> m_nacks c = [] \<and> m_rttAvg c = 0 \<and>
     (\<forall>(d, pif) \<in> set (cc_outgoing c). pif_sent pif \<le> w \<and> pif_bytes pif < 2 ^ 64) \<and>
     m_bytesInFlight c = tracked (cc_outgoing c) mod 2 ^ 64 \<and>
     (\<forall>out \<in> set (outbox (at_slot i p)). 0 < sendCount out \<and> (m_bytesInFlight c = 0 \<or> m_nextUpdate c \<le> sendNext out)))"

lemma stranded_pass:
  assumes s: "stranded w i p" and w: "w \<le> e_now env"
  shows "\<exists>p'. pass env i p = Inr p' \<and> stranded w i p' \<and> outbox (at_slot i p') = outbox (at_slot i p) \<and>
    su_write (m_masterSocket p') = su_write (m_masterSocket p)"
proof -
  obtain c where r: "running i p" and c: "congestion (at_slot i p) = Some c" "m_acks c = []" "m_nacks c = []" "m_rttAvg c = 0"
    "\<forall>(d, pif) \<in> set (cc_outgoing c). pif_sent pif \<le> w \<and> pif_bytes pif < 2 ^ 64"
    "m_bytesInFlight c = tracked (cc_outgoing c) mod 2 ^ 64"
    "\<forall>out \<in> set (outbox (at_slot i p)). 0 < sendCount out \<and> (m_bytesInFlight c = 0 \<or> m_nextUpdate c \<le> sendNext out)"
    using s unfolding stranded_def by blast
  have i: "i < length (m_remotes p)" "receipt (at_slot i p) \<noteq> None" using r by (simp_all add: running_def)
  define c' where "c' = cleaned (e_now env) c"
  define q where "q = before_write (e_now env) i p"
  note bw = before_write_fields [OF r c(1), of "e_now env", folded q_def]
  note td = tidied_fields [OF c(1) i(2), of "e_now env", folded bw(1) c'_def]
  have "\<forall>(d, pif) \<in> set (cc_outgoing c). pif_sent pif \<le> e_now env \<and> pif_bytes pif < 2 ^ 64" using c(5) w by fastforce
  note forgets = cleaned_forgets [OF c(4) _ this c(6)]
  have late: "cc_outgoing c' = []" "m_bytesInFlight c' = 0" if "m_nextUpdate c \<le> e_now env"
    using forgets [OF that] by (simp_all add: c'_def)
  have early: "c' = c" if "e_now env < m_nextUpdate c" using cleaned_early [OF that] by (simp add: c'_def)
  have wait: "\<forall>out \<in> set (outbox (at_slot i q)). 0 < sendCount out \<and> (m_bytesInFlight c' = 0 \<or> e_now env < sendNext out)"
    and wait': "\<forall>out \<in> set (outbox (at_slot i q)). 0 < sendCount out \<and> (m_bytesInFlight c' = 0 \<or> m_nextUpdate c' \<le> sendNext out)"
    using c(7) td(2) late early by (cases "m_nextUpdate c \<le> e_now env"; auto)+
  have acks: "m_acks c' = []" "m_nacks c' = []" "m_rttAvg c' = 0" using c(2-4) by (simp_all add: c'_def)
  then have "\<not> GetNeedsToSendAcks (e_now env) c'" by (simp add: GetNeedsToSendAcks_def)
  then obtain st where st: "DoWriteCycle env i q = Inr (upd_slot i (\<lambda>r. r\<lparr>rp_stats := st\<rparr>) q)"
    using DoWriteCycle_nothing [OF _ td(1) _ wait] i(1) bw(2) by auto
  let ?p' = "upd_slot i (\<lambda>r. r\<lparr>rp_stats := st\<rparr>) q"
  have a: "at_slot i ?p' = at_slot i q\<lparr>rp_stats := st\<rparr>" using i(1) bw(2) by simp
  have "running i ?p'" using bw(3) unfolding running_def a by simp
  moreover have "(\<forall>(d, pif) \<in> set (cc_outgoing c'). pif_sent pif \<le> w \<and> pif_bytes pif < 2 ^ 64) \<and>
      m_bytesInFlight c' = tracked (cc_outgoing c') mod 2 ^ 64"
    using c(5,6) late early by (cases "m_nextUpdate c \<le> e_now env") auto
  ultimately have "stranded w i ?p'" using acks wait' td(1) unfolding stranded_def a by auto
  then show ?thesis using st td(2) bw(5) a pass_running [OF r, of env] by (simp add: q_def [symmetric])
qed

lemma stranded_passes:
  assumes "stranded w i p" "\<forall>env \<in> set envs. w \<le> e_now env"
  shows "\<exists>p'. rfold (\<lambda>env. pass env i) envs p = Inr p' \<and> outbox (at_slot i p') = outbox (at_slot i p) \<and>
    su_write (m_masterSocket p') = su_write (m_masterSocket p)"
  using assms
proof (induction envs arbitrary: p)
  case (Cons env envs)
  obtain p1 where "pass env i p = Inr p1" "stranded w i p1" "outbox (at_slot i p1) = outbox (at_slot i p)"
    "su_write (m_masterSocket p1) = su_write (m_masterSocket p)" using stranded_pass [OF Cons.prems(1)] Cons.prems(2) by auto
  then show ?case using Cons.IH [of p1] Cons.prems(2) by auto
qed simp

section \<open>A message leaves\<close>

text \<open>Nothing is queued or in flight, and nothing has to be acknowledged.\<close>

definition ready :: "slot \<Rightarrow> Peer \<Rightarrow> bool" where
  "ready i p \<longleftrightarrow> running i p \<and> rp_id (at_slot i p) \<noteq> 0 \<and> outbox (at_slot i p) = [] \<and>
     (\<forall>d \<in> set (sentbox (at_slot i p)). od_packets d = []) \<and> \<not> m_sending (m_masterSocket p) \<and> \<not> m_crypto_enabled p \<and>
     (\<exists>c. congestion (at_slot i p) = Some c \<and> m_bytesInFlight c = 0 \<and> cc_outgoing c = [] \<and> MTU \<le> m_window c \<and>
        m_acks c = [] \<and> m_nacks c = [])"

text \<open>The packets \<open>os\<close> are queued and nothing else is going on; \<open>t\<close> is the receipt tracker.\<close>

definition idle_window :: "CongestionControlWindow \<Rightarrow> bool" where
  "idle_window c \<longleftrightarrow> m_bytesInFlight c = 0 \<and> cc_outgoing c = [] \<and> MTU \<le> m_window c \<and> m_acks c = [] \<and> m_nacks c = []"

definition loaded :: "slot \<Rightarrow> CongestionControlWindow \<Rightarrow> ReceiptTracker \<Rightarrow> OutgoingPacket list \<Rightarrow> Peer \<Rightarrow> bool" where
  "loaded i c t os p \<longleftrightarrow> running i p \<and> rp_id (at_slot i p) \<noteq> 0 \<and> congestion (at_slot i p) = Some c \<and> receipt (at_slot i p) = Some t \<and>
     outbox (at_slot i p) = os \<and> (\<forall>d \<in> set (sentbox (at_slot i p)). od_packets d = []) \<and>
     \<not> m_sending (m_masterSocket p) \<and> \<not> m_crypto_enabled p \<and> idle_window c"

lemma ready_iff: "ready i p \<longleftrightarrow> (\<exists>c t. loaded i c t [] p)"
  by (auto simp: ready_def loaded_def idle_window_def running_def)

text \<open>The connection and the inbox are as before.\<close>

definition framed :: "slot \<Rightarrow> Peer \<Rightarrow> Peer \<Rightarrow> bool" where
  "framed i p p' \<longleftrightarrow> same_link i p p' \<and> m_inbox p' = m_inbox p \<and>
     same_connection (at_slot i p\<lparr>receipt := receipt (at_slot i p')\<rparr>) (at_slot i p')"

lemma framed_trans: "framed i p q \<Longrightarrow> framed i q r \<Longrightarrow> i < length (m_remotes p) \<Longrightarrow> framed i p r"
  by (auto simp: framed_def same_connection_def intro: same_link_trans)

lemma framed_addr: "framed i p q \<Longrightarrow> rp_addr (at_slot i q) = rp_addr (at_slot i p)"
  by (simp add: framed_def same_connection_def)

lemma Send_loaded:
  assumes a: "accepts who i p" and l: "loaded i c t os p"
    and ok: "packet_ok packet" "pkt_length packet < CHUNK_SIZE" and ch: "channel_id channel = 0"
  shows "\<exists>p1 out. Send env packet who opts prio channel p = Inr (m_nextPacket c, p1) \<and>
    queued (e_now env) i (rp_addr (at_slot i p)) opts 0 0 (m_nextPacket c) (enc_Packet packet) 0 out \<and>
    loaded i (c\<lparr>m_nextPacket := m_nextPacket c + 1\<rparr>) (tracked_message opts (m_nextPacket c) (enc_Packet packet) t) (os @ [out]) p1 \<and>
    accepts who i p1 \<and> framed i p p1 \<and> sentbox (at_slot i p1) = sentbox (at_slot i p) \<and> m_remoteLookup p1 who = Some i"
proof -
  let ?full = "enc_Packet packet"
  have one: "segments (length ?full) = 1"
    using length_enc_Packet [OF ok(1)] ok(2) by (simp add: GetDatagramLength_def segments_def CHUNK_SIZE_eq)
  have big: "pkt_length packet < PACKET_MAX_LENGTH" using ok(2) by (simp add: PACKET_MAX_LENGTH_def CHUNK_SIZE_eq)
  have c: "congestion (at_slot i p) = Some c" using l by (simp add: loaded_def)
  obtain xs p1 r where s: "Send env packet who opts prio channel p = Inr (m_nextPacket c, p1)"
    "list_all2 (queued (e_now env) i (rp_addr (at_slot i p)) opts 0 0 (m_nextPacket c) ?full) [0..<segments (length ?full)] xs"
    "m_remotes p1 = (m_remotes p)[i := r]" "same_connection (at_slot i p\<lparr>receipt := receipt r\<rparr>) r"
    "outbox r = outbox (at_slot i p) @ xs" "congestion r = Some (c\<lparr>m_nextPacket := m_nextPacket c + 1\<rparr>)"
    "m_masterSocket p1 = m_masterSocket p" "m_crypto_enabled p1 = m_crypto_enabled p"
    "sentbox r = sentbox (at_slot i p)" "m_inbox p1 = m_inbox p" "same_link i p p1"
    "receipt r = map_option (tracked_message opts (m_nextPacket c) ?full) (receipt (at_slot i p))" "m_remoteLookup p1 who = Some i"
    using Send_ok [OF a ok(1) big c ch, of env opts prio] one by (auto simp: after_message_def)
  obtain out where out: "xs = [out]" "queued (e_now env) i (rp_addr (at_slot i p)) opts 0 0 (m_nextPacket c) ?full 0 out"
    using s(2) one by (auto simp: list_all2_Cons1)
  have i: "i < length (m_remotes p)" "at_slot i p1 = r" using a s(3) by (simp_all add: accepts_def at_slot_def)
  have "running i p1" using l s(3,4,6,7,12) i unfolding loaded_def running_def i(2) by (auto simp: same_connection_def)
  then have "loaded i (c\<lparr>m_nextPacket := m_nextPacket c + 1\<rparr>) (tracked_message opts (m_nextPacket c) ?full t) (os @ [out]) p1"
    using l s(4-9,12) i(2) out(1) by (simp add: loaded_def idle_window_def same_connection_def)
  moreover have "accepts who i p1" using a s(3,4,6,12,13) i
    by (auto simp: accepts_def same_connection_def IsDisconnecting_def fst_GetRemoteByID)
  ultimately show ?thesis using s(1,4,9-11,13) i(2) out(2) by (auto simp: framed_def)
qed

text \<open>The packets are on their way: the state of the slot after the write cycle.\<close>

definition packets_datagram :: "DatagramID \<Rightarrow> OutgoingPacket list \<Rightarrow> u8 list" where
  "packets_datagram did os = enc_DatagramHeader (data_header True did (blob_lengths os)) @ concat (map blob_bytes os)"

lemma packets_datagram_single: "packets_datagram did [out] = packet_datagram did out"
  by (simp add: packets_datagram_def packet_datagram_def)

definition under_way :: "Timestamp \<Rightarrow> slot \<Rightarrow> CongestionControlWindow \<Rightarrow> ReceiptTracker \<Rightarrow> OutgoingPacket list \<Rightarrow> Peer \<Rightarrow> Peer \<Rightarrow> bool" where
  "under_way now i c t os p p2 \<longleftrightarrow>
     su_write (m_masterSocket p2) = Some (rp_addr (at_slot i p), packets_datagram (m_nextDatagram c) os, (i, m_nextDatagram c)) \<and>
     su_is_open (m_masterSocket p2) \<and> framed i p p2 \<and> receipt (at_slot i p2) = Some t \<and>
     outbox (at_slot i p2) = map (sent (Timestamp_plus now (GetRetransmissionRTO 0 c))) os \<and>
     congestion (at_slot i p2) = Some (NotifySendingBytes now (m_nextDatagram c) (length (packets_datagram (m_nextDatagram c) os))
       ((cleaned now c)\<lparr>m_nextDatagram := m_nextDatagram c + 1\<rparr>)) \<and>
     (\<exists>sb d. sentbox (at_slot i p2) = sb @ [d] \<and> set sb \<subseteq> set (sentbox (at_slot i p)) \<and> od_id d = m_nextDatagram c \<and>
        od_packets d = map op_id os)"

lemma under_way_framed:
  "framed i p p1 \<Longrightarrow> sentbox (at_slot i p1) = sentbox (at_slot i p) \<Longrightarrow> i < length (m_remotes p) \<Longrightarrow>
   under_way now i c t os p1 p2 \<Longrightarrow> under_way now i c t os p p2"
  by (auto simp: under_way_def framed_addr intro: framed_trans)

lemma loaded_leaves:
  assumes l: "loaded i c t os p" and os: "os \<noteq> []" "\<forall>x \<in> set os. sendable (e_now env) x \<and> blob_ok x \<and> HasFlag RELIABLE x"
    and addr: "op_addr (hd os) = rp_addr (at_slot i p)" and fit: "blob_lengths os \<le> MTU"
    and rto: "e_now env < Timestamp_plus (e_now env) (GetRetransmissionRTO 0 c)"
  shows "\<exists>p2. pass env i p = Inr p2 \<and> under_way (e_now env) i c t os p p2 \<and> m_remoteLookup p2 = m_remoteLookup p"
proof -
  let ?now = "e_now env" and ?did = "m_nextDatagram c" and ?c = "cleaned (e_now env) c"
  have run: "running i p" and f: "congestion (at_slot i p) = Some c" "receipt (at_slot i p) = Some t" "outbox (at_slot i p) = os"
    "\<forall>d \<in> set (sentbox (at_slot i p)). od_packets d = []" "\<not> m_sending (m_masterSocket p)" "\<not> m_crypto_enabled p"
    "rp_id (at_slot i p) \<noteq> 0" and w: "idle_window c" using l by (simp_all add: loaded_def)
  define q where "q = before_write ?now i p"
  note bw = before_write_fields [OF run f(1), of ?now, folded q_def]
  note tq = tidied_quiet [OF f(1,2,4), of ?now]
  note td = tidied_fields [OF f(1), of ?now, folded bw(1), unfolded f(2), simplified]
  have i: "i < length (m_remotes p)" "i < length (m_remotes q)" using run bw(2) by (simp_all add: running_def)
  have sc: "same_connection (at_slot i p) (at_slot i q)" "receipt (at_slot i q) = Some t"
    using td(5) tq(1) f(2) by (simp_all add: bw(1) same_connection_def)
  have conn: "IsConnected (at_slot i q)" "\<not> IsOutOfBand (at_slot i q)"
    using sc(1) run f(7) by (auto simp: same_connection_def IsConnected_def IsOutOfBand_def running_def)
  have cc: "m_bytesInFlight ?c = 0" "MTU \<le> m_window ?c" "\<not> GetNeedsToSendAcks ?now ?c"
    using w by (auto simp: idle_window_def cleaned_idle GetNeedsToSendAcks_def)
  have bud: "blob_lengths os \<le> GetTransmissionBudget ?c"
    using cc fit by (simp add: GetTransmissionBudget_def GetRetransmissionBudget_def size_sub_eq MTU_def)
  have q': "?now < Timestamp_plus ?now (GetRetransmissionRTO 0 ?c)" "\<not> m_sending (m_masterSocket q)" "\<not> m_crypto_enabled q"
    "outbox (at_slot i q) = os" using rto f(3,5,6) bw(4,6) td(2) by simp_all
  obtain r' d where r': "DoWriteCycle env i q = Inr ((upd_slot i (\<lambda>_. r') q)\<lparr>m_masterSocket :=
        BeginWrite (op_addr (hd os)) (packets_datagram ?did os) (i, ?did) (m_masterSocket q)\<rparr>)"
    "same_connection (at_slot i q) r'" "outbox r' = map (sent (Timestamp_plus ?now (GetRetransmissionRTO 0 ?c))) os"
    "congestion r' = Some (NotifySendingBytes ?now ?did (length (packets_datagram ?did os)) (?c\<lparr>m_nextDatagram := ?did + 1\<rparr>))"
    "sentbox r' = sentbox (at_slot i q) @ [d]" "od_id d = ?did" "od_packets d = map op_id os"
    using DoWriteCycle_all [OF i(2) q'(2,3,4) os td(1) cc(3) refl q'(1) conn(2) bud, of "packets_datagram ?did os"] conn(1)
    by (auto simp: packets_datagram_def)
  let ?p2 = "(upd_slot i (\<lambda>_. r') q)\<lparr>m_masterSocket :=
        BeginWrite (op_addr (hd os)) (packets_datagram ?did os) (i, ?did) (m_masterSocket q)\<rparr>"
  have at2: "at_slot i ?p2 = r'" using i(2) by simp
  have "same_link i q ?p2" using r'(2,4) i(2) by (auto simp: same_link_def same_connection_def upd_slot_def)
  then have "same_link i p ?p2" by (rule same_link_trans [OF bw(8) _ i(1)])
  moreover have "same_connection (at_slot i p) r'" "receipt r' = Some t" using sc r'(2) by (simp_all add: same_connection_def)
  moreover have "su_is_open (m_masterSocket q)" using bw(3) by (simp add: running_def)
  ultimately have "under_way ?now i c t os p ?p2"
    using r'(3-7) td(3) bw(7) tq(2) f(2) addr unfolding under_way_def framed_def at2 by (auto simp: BeginWrite_def same_connection_def)
  moreover have "pass env i p = Inr ?p2" using r'(1) pass_running [OF run, of env] unfolding q_def [symmetric] by (rule trans [rotated])
  ultimately show ?thesis using bw(9) by auto
qed

text \<open>A reliable message of one packet, once it is queued.\<close>

lemma queued_sendable:
  assumes "queued now i addr opts 0 0 pid full 0 out" "length full \<le> CHUNK_SIZE" "full \<noteq> []" "(opts AND RELIABLE) = RELIABLE" "now \<le> now'"
  shows "sendable now' out \<and> blob_ok out \<and> HasFlag RELIABLE out" "op_addr out = addr" "op_id out = pid" "m_length (op_blob out) \<le> MTU"
proof -
  have one: "segments (length full) = 1" using assms(2,3) by (cases full) (auto simp: segments_def CHUNK_SIZE_eq)
  note bo = queued_blob [OF assms(1) _ assms(3), unfolded one, simplified]
  show "sendable now' out \<and> blob_ok out \<and> HasFlag RELIABLE out"
    using assms(1,4,5) bo one by (simp add: sendable_def queued_def HasFlag_def)
  show "op_addr out = addr" "op_id out = pid" "m_length (op_blob out) \<le> MTU"
    using assms(1) bo(3) one by (simp_all add: queued_def segment_id_def MTU_def)
qed

lemma message_leaves:
  assumes a: "accepts who i p" and rdy: "ready i p" and c: "congestion (at_slot i p) = Some c" and t: "receipt (at_slot i p) = Some t"
    and ok: "packet_ok packet" "pkt_length packet < CHUNK_SIZE" and ch: "channel_id channel = 0"
    and rel: "(opts AND RELIABLE) = RELIABLE" and now: "e_now env \<le> e_now env'"
    and rto: "e_now env' < Timestamp_plus (e_now env') (GetRetransmissionRTO 0 c)"
  shows "\<exists>p1 p2 out. Send env packet who opts prio channel p = Inr (m_nextPacket c, p1) \<and> pass env' i p1 = Inr p2 \<and>
    queued (e_now env) i (rp_addr (at_slot i p)) opts 0 0 (m_nextPacket c) (enc_Packet packet) 0 out \<and>
    under_way (e_now env') i (c\<lparr>m_nextPacket := m_nextPacket c + 1\<rparr>) (tracked_message opts (m_nextPacket c) (enc_Packet packet) t) [out] p p2"
proof -
  have l: "loaded i c t [] p" using rdy c t by (auto simp: ready_iff loaded_def)
  have i: "i < length (m_remotes p)" using a by (simp add: accepts_def)
  have len: "length (enc_Packet packet) \<le> CHUNK_SIZE" using length_enc_Packet [OF ok(1)] ok(2) by (simp add: GetDatagramLength_def)
  obtain p1 out where s: "Send env packet who opts prio channel p = Inr (m_nextPacket c, p1)"
    "queued (e_now env) i (rp_addr (at_slot i p)) opts 0 0 (m_nextPacket c) (enc_Packet packet) 0 out"
    "loaded i (c\<lparr>m_nextPacket := m_nextPacket c + 1\<rparr>) (tracked_message opts (m_nextPacket c) (enc_Packet packet) t) [out] p1"
    "framed i p p1" "sentbox (at_slot i p1) = sentbox (at_slot i p)"
    using Send_loaded [OF a l ok ch, of env opts prio] by auto
  note q = queued_sendable [OF s(2) len enc_Packet_nonempty rel now]
  obtain p2 where "pass env' i p1 = Inr p2"
    "under_way (e_now env') i (c\<lparr>m_nextPacket := m_nextPacket c + 1\<rparr>) (tracked_message opts (m_nextPacket c) (enc_Packet packet) t) [out] p1 p2"
    using loaded_leaves [OF s(3), of env'] q framed_addr [OF s(4)] rto by (auto simp: RTO_nextPacket)
  then show ?thesis using s(1,2) under_way_framed [OF s(4,5) i] by blast
qed

lemma socket_written_ok:
  "su_write (m_masterSocket p) = Some (addr, data, (i, did)) \<Longrightarrow>
   socket_written False p = Inr (p\<lparr>m_masterSocket := (m_masterSocket p)\<lparr>m_sending := False, su_write := None\<rparr>\<rparr>)"
  by (simp add: socket_written_def write_completion_def OnWriteFinished_def)

lemma packet_datagram_length:
  assumes "queued now i addr opts chan seq container full 0 out" "length full \<le> CHUNK_SIZE" "full \<noteq> []"
  shows "length (packet_datagram did out) \<le> MTU"
proof -
  have "length full \<le> PACKET_MAX_LENGTH" "0 < segments (length full)"
    using assms(2) by (simp_all add: PACKET_MAX_LENGTH_def CHUNK_SIZE_eq segments_def)
  note qd = queued_datagram [OF assms(1) this assms(3) refl]
  show ?thesis using qd(2) [of did] unfolding qd(1) datagram_ok_def by blast
qed

lemma cleaned_next: "m_nextUpdate c \<le> now + FromMilliseconds 20 \<Longrightarrow> m_nextUpdate (cleaned now c) \<le> now + FromMilliseconds 20"
  by (simp add: cleaned_def CongestionControlWindow_Update_def CongestionControl_Update_def Let_def Timestamp_plus_def split: prod.split)

text \<open>
  C36.  On a connection over which no acknowledgement has arrived yet, a reliable message whose only datagram is
  lost is never repeated: however often and at whatever times the worker thread comes by, it writes nothing, and
  the packet stays in the outbox.  The clean-up of the congestion control counts the datagram as not in flight any more
  before the packet may be repeated, and without bytes in flight there is no budget for repetitions.
\<close>

theorem lost_message_never_resent:
  assumes "accepts who i p" "ready i p" "congestion (at_slot i p) = Some c" "channel_id channel = 0"
    and "packet_ok packet" "pkt_length packet < CHUNK_SIZE" "(opts AND RELIABLE) = RELIABLE"
    and "m_rttHistory c = []" "m_rttAvg c = 0" "m_nextUpdate c \<le> e_now env' + FromMilliseconds 20"
    and "e_now env \<le> e_now env'" "e_now env' + FromMilliseconds 105 < 2 ^ 64" "\<forall>e \<in> set envs. e_now env' \<le> e_now e"
  shows "\<exists>p1 p2 p3 p4. Send env packet who opts prio channel p = Inr (m_nextPacket c, p1) \<and>
    pass env' i p1 = Inr p2 \<and> su_write (m_masterSocket p2) \<noteq> None \<and> socket_written False p2 = Inr p3 \<and>
    rfold (\<lambda>e. pass e i) envs p3 = Inr p4 \<and> su_write (m_masterSocket p4) = None \<and>
    map op_id (outbox (at_slot i p4)) = [m_nextPacket c]"
proof -
  let ?now = "e_now env'" and ?full = "enc_Packet packet"
  have rto: "GetRetransmissionRTO 0 c = FromMilliseconds 105"
    using assms(8) by (simp add: GetRetransmissionRTO_def GetRTTHistoryAvailable_def FromMilliseconds_eq THREAD_SLEEP_PACKETQUEUE_TICK_def)
  have t: "Timestamp_plus ?now (GetRetransmissionRTO 0 c) = ?now + FromMilliseconds 105"
    using assms(12) by (simp add: rto Timestamp_plus_def)
  then have "?now < Timestamp_plus ?now (GetRetransmissionRTO 0 c)" by (simp add: FromMilliseconds_eq)
  moreover obtain tr where "receipt (at_slot i p) = Some tr" using assms(1) by (auto simp: accepts_def)
  ultimately obtain p1 p2 out where
    s: "Send env packet who opts prio channel p = Inr (m_nextPacket c, p1)" "pass env' i p1 = Inr p2"
      "queued (e_now env) i (rp_addr (at_slot i p)) opts 0 0 (m_nextPacket c) ?full 0 out"
    and u: "under_way ?now i (c\<lparr>m_nextPacket := m_nextPacket c + 1\<rparr>) (tracked_message opts (m_nextPacket c) ?full tr) [out] p p2"
    using message_leaves [OF assms(1-3) _ assms(5,6,4,7,11), of tr prio] by blast
  define data where "data = packet_datagram (m_nextDatagram c) out"
  let ?c = "cleaned ?now (c\<lparr>m_nextPacket := m_nextPacket c + 1\<rparr>)"
  let ?p3 = "p2\<lparr>m_masterSocket := (m_masterSocket p2)\<lparr>m_sending := False, su_write := None\<rparr>\<rparr>"
  have len: "length ?full \<le> CHUNK_SIZE" using length_enc_Packet [OF assms(5)] assms(6) by (simp add: GetDatagramLength_def)
  have dl: "length data < 2 ^ 64" using packet_datagram_length [OF s(3) len enc_Packet_nonempty, of "m_nextDatagram c"] by (simp add: data_def MTU_def)
  have idle: "cc_outgoing ?c = []" "m_bytesInFlight ?c = 0" "m_acks ?c = []" "m_nacks ?c = []" "m_rttAvg ?c = 0"
    using assms(2,3,9) by (auto simp: ready_def cleaned_idle)
  have nx: "m_nextUpdate ?c \<le> ?now + FromMilliseconds 20" using assms(10) by (intro cleaned_next) simp
  have "running i ?p3" using assms(2) u unfolding ready_def running_def under_way_def framed_def
    by (auto simp: same_link_def same_connection_def)
  moreover have "congestion (at_slot i ?p3) = Some (NotifySendingBytes ?now (m_nextDatagram c) (length data)
      (?c\<lparr>m_nextDatagram := m_nextDatagram c + 1\<rparr>))" using u by (simp add: under_way_def data_def packets_datagram_single)
  moreover have "outbox (at_slot i ?p3) = [sent (?now + FromMilliseconds 105) out]" using u t by (simp add: under_way_def RTO_nextPacket)
  ultimately have "stranded ?now i ?p3" using idle dl nx
    by (simp add: stranded_def NotifySendingBytes_def sent_def FromMilliseconds_eq)
  from stranded_passes [OF this assms(13)] obtain p4 where p4: "rfold (\<lambda>e. pass e i) envs ?p3 = Inr p4"
    "outbox (at_slot i p4) = outbox (at_slot i ?p3)" "su_write (m_masterSocket p4) = None" by auto
  have "op_id out = m_nextPacket c" using s(3) len by (simp add: queued_def segment_id_def segments_def CHUNK_SIZE_eq)
  then have "map op_id (outbox (at_slot i p4)) = [m_nextPacket c]" using p4(2) u by (simp add: under_way_def sent_def)
  moreover have "su_write (m_masterSocket p2) \<noteq> None" "socket_written False p2 = Inr ?p3"
    using u by (auto simp: under_way_def intro: socket_written_ok)
  ultimately show ?thesis using s(1,2) p4(1,3) by (intro exI conjI) assumption+
qed

lemma example_window:
  "m_bytesInFlight (CongestionControlWindow_new t) = 0" "cc_outgoing (CongestionControlWindow_new t) = []"
  "m_window (CongestionControlWindow_new t) = MTU" "m_acks (CongestionControlWindow_new t) = []"
  "m_nacks (CongestionControlWindow_new t) = []" "m_rttHistory (CongestionControlWindow_new t) = []"
  "m_rttAvg (CongestionControlWindow_new t) = 0" "m_nextUpdate (CongestionControlWindow_new t) = t"
  "m_remoteDatagram (CongestionControlWindow_new t) = 0"
  by (simp_all add: CongestionControlWindow_new_def CongestionControl_new_def CongestionControl.defs CongestionControlWindow.defs)

lemma example_ready: "other \<noteq> 0 \<Longrightarrow> ready 1 (example_peer me other addr)"
  using example_window [of 0]
  by (simp add: ready_def running_def example_peer_def at_slot_def RemotePeer_new_def SocketUDP_new_def)

theorem lost_message_never_resent_witness:
  "\<exists>p1 p2 p3 p4. Send (example_env 1) (packet_of 0 20 [1, 2, 3]) 12 RELIABLE MEDIUM Channel_default
      (example_peer 11 12 (example_address 2)) = Inr (0, p1) \<and>
    pass (example_env 2) 1 p1 = Inr p2 \<and> su_write (m_masterSocket p2) \<noteq> None \<and> socket_written False p2 = Inr p3 \<and>
    rfold (\<lambda>e. pass e 1) [example_env 30000000, example_env 200000000, example_env 900000000] p3 = Inr p4 \<and>
    su_write (m_masterSocket p4) = None \<and> map op_id (outbox (at_slot 1 p4)) = [0]"
  using lost_message_never_resent [of 12 1 "example_peer 11 12 (example_address 2)" _ Channel_default
      "packet_of 0 20 [1, 2, 3]" RELIABLE "example_env 2" "example_env 1"
      "[example_env 30000000, example_env 200000000, example_env 900000000]" MEDIUM]
    example_accepts example_congestion example_ready example_window [of 0]
  by (simp add: example_fields CHUNK_SIZE_eq FromMilliseconds_eq del: One_nat_def)

end
