(* ===== verification/Conversation.thy ===== *)
theory Conversation
  imports Passes
begin

text \<open>
  The loop of a burst of reliable messages: they are sent, carried to the other peer in one datagram, acknowledged, and the
  acknowledgement is carried back.  Afterwards both connections are again in the state in which the loop began,
  so that a whole conversation of bursts can be run.
\<close>

section \<open>Round-trip times\<close>

definition rtt_ok :: "nat \<Rightarrow> CongestionControlWindow \<Rightarrow> bool" where
  "rtt_ok T c \<longleftrightarrow> (\<forall>x \<in> set (m_rttHistory c). x \<le> T) \<and>
     (m_rttHistory c \<noteq> [] \<longrightarrow> m_rttAvg c \<le> T \<and> m_rttMax c \<le> T \<and> m_rttMin c \<le> m_rttMax c)"

lemma rtt_fold:
  assumes "fold (\<lambda>e (avg, mx, mn). ((avg + e) mod 2 ^ 64, max mx e, min mn e)) h (a, x, n) = (a', x', n')"
    "\<forall>e \<in> set h. e \<le> T"
  shows "a' \<le> a + T * length h \<and> x' \<le> max x T \<and> (h \<noteq> [] \<or> n \<le> x \<longrightarrow> n' \<le> x')"
  using assms
proof (induction h arbitrary: a x n)
  case (Cons e h)
  have e: "e \<le> T" using Cons.prems(2) by simp
  have "a' \<le> (a + e) mod 2 ^ 64 + T * length h \<and> x' \<le> max (max x e) T \<and>
      (h \<noteq> [] \<or> min n e \<le> max x e \<longrightarrow> n' \<le> x')" using Cons by simp
  moreover have "(a + e) mod 2 ^ 64 \<le> a + T" using e mod_less_eq_dividend [of "a + e" "2 ^ 64"] by linarith
  ultimately show ?case using e by (auto simp: min_le_iff_disj le_max_iff_disj)
qed simp

lemma rtt_ok_recalculate:
  assumes "\<forall>x \<in> set (m_rttHistory c). x \<le> T" "m_rttHistory c \<noteq> []"
  shows "rtt_ok T (RecalculateRTT c)"
proof -
  obtain a x n where f: "fold (\<lambda>e (avg, mx, mn). ((avg + e) mod 2 ^ 64, max mx e, min mn e)) (m_rttHistory c) (0, 0, 2 ^ 64 - 1) = (a, x, n)"
    using prod_cases3 by blast
  have "a \<le> T * length (m_rttHistory c)" "x \<le> T" "n \<le> x" using rtt_fold [OF f assms(1)] assms(2) by auto
  moreover from this(1) have "a div length (m_rttHistory c) \<le> T"
    using div_le_mono [of a "T * length (m_rttHistory c)" "length (m_rttHistory c)"] assms(2) by simp
  ultimately show ?thesis using f assms(1) by (simp add: rtt_ok_def RecalculateRTT_def)
qed

lemma rtt_ok_RTO:
  assumes "rtt_ok T c" "T \<le> 2 ^ 58" "now \<le> T"
  shows "now < Timestamp_plus now (GetRetransmissionRTO 0 c)"
proof -
  have "0 < GetRetransmissionRTO 0 c \<and> GetRetransmissionRTO 0 c \<le> 6 * T + FromMilliseconds 105"
  proof (cases "GetRTTHistoryAvailable c")
    case True
    then have b: "m_rttAvg c \<le> T" "m_rttMax c \<le> T" "m_rttMin c \<le> m_rttMax c"
      using assms(1) by (auto simp: rtt_ok_def GetRTTHistoryAvailable_def)
    then have "size_sub (m_rttMax c) (m_rttMin c) = m_rttMax c - m_rttMin c" using assms(2) by (intro size_sub_eq) auto
    moreover have "2 * m_rttAvg c + 4 * (m_rttMax c - m_rttMin c) + FromMilliseconds 5 < 2 ^ 64"
      using b assms(2) by (simp add: FromMilliseconds_eq)
    ultimately show ?thesis using True b by (simp add: GetRetransmissionRTO_def THREAD_SLEEP_PACKETQUEUE_TICK_def FromMilliseconds_eq)
  qed (simp add: GetRetransmissionRTO_def THREAD_SLEEP_PACKETQUEUE_TICK_def FromMilliseconds_eq)
  then show ?thesis using assms(2,3) by (simp add: Timestamp_plus_def FromMilliseconds_eq)
qed

section \<open>The congestion control of the sender\<close>

lemma RecalculateRTT_more [simp]:
  "m_nextPacket (RecalculateRTT c) = m_nextPacket c" "m_remoteDatagram (RecalculateRTT c) = m_remoteDatagram c"
  "m_acks (RecalculateRTT c) = m_acks c" "m_nacks (RecalculateRTT c) = m_nacks c" "m_nextUpdate (RecalculateRTT c) = m_nextUpdate c"
  by (simp_all add: RecalculateRTT_def split: prod.split)

lemma NotifyReceivedAck_fields:
  "m_nextPacket (NotifyReceivedAck now d c) = m_nextPacket c" "m_nextDatagram (NotifyReceivedAck now d c) = m_nextDatagram c"
  "m_remoteDatagram (NotifyReceivedAck now d c) = m_remoteDatagram c" "m_acks (NotifyReceivedAck now d c) = m_acks c"
  "m_nacks (NotifyReceivedAck now d c) = m_nacks c" "m_datagramHistory (NotifyReceivedAck now d c) = m_datagramHistory c"
  by (simp_all add: NotifyReceivedAck_def CongestionControl_NotifyReceivedAck_def Let_def split: option.split)

lemma ack_one_in_flight:
  assumes "cc_outgoing c = [(d, \<lparr>pif_bytes = n, pif_sent = t\<rparr>)]" "m_bytesInFlight c = n" "n < 2 ^ 64"
  shows "m_bytesInFlight (NotifyReceivedAck now d c) = 0" "cc_outgoing (NotifyReceivedAck now d c) = []"
  using assms by (simp_all add: NotifyReceivedAck_def CongestionControl_NotifyReceivedAck_def Let_def size_sub_eq erase_def)

lemma rtt_ok_scheme: "rtt_ok T (c\<lparr>m_bytesInFlight := x, cc_outgoing := y\<rparr>) = rtt_ok T c" "rtt_ok T (c\<lparr>m_window := z\<rparr>) = rtt_ok T c"
  by (simp_all add: rtt_ok_def)

lemma rtt_ok_ack:
  assumes "rtt_ok T c" "\<forall>(d, pif) \<in> set (cc_outgoing c). pif_sent pif \<le> now" "now \<le> T"
  shows "rtt_ok T (NotifyReceivedAck now d c)"
proof -
  have "rtt_ok T (CongestionControl_NotifyReceivedAck now d c)"
  proof (cases "map_of (cc_outgoing c) d")
    case (Some pif)
    let ?h = "m_rttHistory c @ [Time_Between now (pif_sent pif)]"
    let ?h' = "if length ?h > CONGESTION_RTT_HISTORY_LEN then tl ?h else ?h"
    have "pif_sent pif \<le> now" using assms(2) map_of_SomeD [OF Some] by auto
    then have "Time_Between now (pif_sent pif) \<le> T" using assms(3) by (auto simp: Time_Between_def)
    then have "\<forall>x \<in> set ?h. x \<le> T" using assms(1) by (simp add: rtt_ok_def)
    then have "\<forall>x \<in> set ?h'. x \<le> T" using list.set_sel(2) [of ?h] by (auto simp: tl_append split: list.splits)
    moreover have "?h' \<noteq> []" by (auto simp: CONGESTION_RTT_HISTORY_LEN_def tl_append split: list.splits)
    ultimately have "rtt_ok T (RecalculateRTT (c\<lparr>m_rttHistory := ?h'\<rparr>))" by (intro rtt_ok_recalculate) simp_all
    then show ?thesis using Some by (simp add: CongestionControl_NotifyReceivedAck_def Let_def rtt_ok_scheme)
  qed (simp add: CongestionControl_NotifyReceivedAck_def assms(1))
  then show ?thesis by (simp add: NotifyReceivedAck_def Let_def rtt_ok_scheme)
qed

text \<open>An acknowledgement that carries no data.\<close>

definition noted_ackgram :: "Timestamp \<Rightarrow> DatagramID \<Rightarrow> CongestionControlWindow \<Rightarrow> CongestionControlWindow" where
  "noted_ackgram now d c = snd (NotifyReceivedDatagram now d True c)"

lemma noted_ackgram_fields:
  assumes "m_datagramHistory c d = None" "d = m_remoteDatagram c"
  shows "NotifyReceivedDatagram now d True c = (NEW, noted_ackgram now d c)"
    "m_datagramHistory (noted_ackgram now d c) = (m_datagramHistory c)(d \<mapsto> now)" "m_remoteDatagram (noted_ackgram now d c) = d + 1"
    "m_acks (noted_ackgram now d c) = m_acks c" "m_nacks (noted_ackgram now d c) = m_nacks c"
    "m_nextPacket (noted_ackgram now d c) = m_nextPacket c" "m_nextDatagram (noted_ackgram now d c) = m_nextDatagram c"
    "cc_outgoing (noted_ackgram now d c) = cc_outgoing c" "m_bytesInFlight (noted_ackgram now d c) = m_bytesInFlight c"
    "rtt_ok T (noted_ackgram now d c) = rtt_ok T c" "window_ok k (noted_ackgram now d c) = window_ok k c"
  using assms by (simp_all add: noted_ackgram_def NotifyReceivedDatagram_def Let_def nack_gap_eq rtt_ok_def window_ok_def)

definition acked_window :: "Timestamp \<Rightarrow> Timestamp \<Rightarrow> nat \<Rightarrow> DatagramID \<Rightarrow> CongestionControlWindow \<Rightarrow> CongestionControlWindow" where
  "acked_window now now' n a c = NotifyReceivedAck now' (m_nextDatagram c) (noted_ackgram now' a
     (NotifySendingBytes now (m_nextDatagram c) n
       ((cleaned now c)\<lparr>m_nextDatagram := m_nextDatagram c + 1\<rparr>)))"

lemma acked_window_fields:
  assumes idle: "m_bytesInFlight c = 0" "cc_outgoing c = []" "m_acks c = []" "m_nacks c = []" and n: "n < 2 ^ 64"
    and a: "m_datagramHistory c a = None" "a = m_remoteDatagram c"
    and w: "window_ok k c" "k < 2 ^ 50" and r: "rtt_ok T c" "now \<le> now'" "now' \<le> T"
  defines "c' \<equiv> acked_window now now' n a c"
  shows "m_bytesInFlight c' = 0" "cc_outgoing c' = []" "m_acks c' = []" "m_nacks c' = []"
    "m_nextPacket c' = m_nextPacket c" "m_nextDatagram c' = m_nextDatagram c + 1" "m_remoteDatagram c' = a + 1"
    "x \<noteq> a \<Longrightarrow> m_datagramHistory c x = None \<Longrightarrow> m_datagramHistory c' x = None"
    "window_ok (Suc k) c'" "rtt_ok T c'"
proof -
  let ?c1 = "cleaned now c"
  let ?c2 = "NotifySendingBytes now (m_nextDatagram c) n (?c1\<lparr>m_nextDatagram := m_nextDatagram c + 1\<rparr>)"
  have h: "m_datagramHistory ?c1 x = None" if "m_datagramHistory c x = None" for x
    using cleaned_history(1) [of c x now] that by simp
  have c2: "cc_outgoing ?c2 = [(m_nextDatagram c, \<lparr>pif_bytes = n, pif_sent = now\<rparr>)]" "m_bytesInFlight ?c2 = n"
    "m_datagramHistory ?c2 = m_datagramHistory ?c1" "m_remoteDatagram ?c2 = m_remoteDatagram c" "m_acks ?c2 = []" "m_nacks ?c2 = []"
    "m_nextPacket ?c2 = m_nextPacket c" "m_nextDatagram ?c2 = m_nextDatagram c + 1" "window_ok k ?c2" "rtt_ok T ?c2"
    using idle n w(1) r(1) by (simp_all add: NotifySendingBytes_def cleaned_idle window_ok_def rtt_ok_def)
  have "m_datagramHistory ?c2 a = None" "a = m_remoteDatagram ?c2" using h [OF a(1)] a(2) c2(3,4) by simp_all
  note f = noted_ackgram_fields [OF this]
  let ?c3 = "noted_ackgram now' a ?c2"
  have c': "c' = NotifyReceivedAck now' (m_nextDatagram c) ?c3" by (simp add: c'_def acked_window_def)
  show "m_bytesInFlight c' = 0" "cc_outgoing c' = []"
    using ack_one_in_flight [of ?c3 "m_nextDatagram c" n now now'] f(8,9) c2(1,2) n by (simp_all add: c')
  show "m_acks c' = []" "m_nacks c' = []" "m_nextPacket c' = m_nextPacket c" "m_nextDatagram c' = m_nextDatagram c + 1"
    "m_remoteDatagram c' = a + 1" using f(3-7) c2(5-8) by (simp_all add: c' NotifyReceivedAck_fields)
  show "x \<noteq> a \<Longrightarrow> m_datagramHistory c x = None \<Longrightarrow> m_datagramHistory c' x = None"
    using h f(2) c2(3) by (simp add: c' NotifyReceivedAck_fields)
  show "window_ok (Suc k) c'" using window_ok_ack [of k ?c3] w(2) f(11) c2(9) by (simp add: c')
  show "rtt_ok T c'" using rtt_ok_ack [of T ?c3 now'] f(8,10) c2(1,10) r(2,3) by (simp add: c')
qed

section \<open>The acknowledgement is written\<close>

definition ack_header :: "DatagramID \<Rightarrow> DatagramID list \<Rightarrow> DatagramID list \<Rightarrow> DatagramHeader" where
  "ack_header did as ns = DatagramHeader_default\<lparr>flag_data := False, flag_link := True, dh_datagramID := did,
     acks := as, nacks := ns\<rparr>"

lemma ack_header_simps [simp]:
  "\<not> flag_data (ack_header did as ns)" "flag_link (ack_header did as ns)" "dh_datagramID (ack_header did as ns) = did"
  "acks (ack_header did as ns) = as" "nacks (ack_header did as ns) = ns" "dataLength (ack_header did as ns) = 0"
  by (simp_all add: ack_header_def DatagramHeader_default_def)

lemma DoWriteCycle_ackgram:
  assumes i: "i < length (m_remotes p)" and idle: "\<not> m_sending (m_masterSocket p)" and plain: "\<not> m_crypto_enabled p"
    and c: "congestion (at_slot i p) = Some c" and need: "GetNeedsToSendAcks (e_now env) c" and conn: "IsConnected (at_slot i p)"
    and data: "data = enc_DatagramHeader (ack_header (m_nextDatagram c) (m_acks c) (m_nacks c))" "length data \<le> max_stream"
  shows "\<exists>r' d. DoWriteCycle env i p = Inr ((upd_slot i (\<lambda>_. r') p)\<lparr>m_masterSocket :=
        BeginWrite (rp_addr (at_slot i p)) data (i, m_nextDatagram c) (m_masterSocket p)\<rparr>) \<and>
    same_connection (at_slot i p) r' \<and> outbox r' = outbox (at_slot i p) \<and>
    sentbox r' = sentbox (at_slot i p) @ [d] \<and> od_packets d = [] \<and>
    congestion r' = Some (NotifySendingBytes (e_now env) (m_nextDatagram c) (length data)
      (c\<lparr>m_acks := [], m_nacks := [], m_nextDatagram := m_nextDatagram c + 1\<rparr>))"
proof -
  let ?r = "at_slot i p" and ?did = "m_nextDatagram c"
  let ?st = "PeerStats_Set PACKETS_IN_QUEUE (length (outbox ?r)) (rp_stats ?r)"
  let ?p1 = "upd_slot i (\<lambda>r. r\<lparr>rp_stats := ?st\<rparr>) p"
  let ?c = "c\<lparr>m_acks := [], m_nacks := [], m_nextDatagram := ?did + 1\<rparr>"
  obtain blob where blob: "DatagramHeader_Serialize (ack_header ?did (m_acks c) (m_nacks c)) (BinaryStream_new BINARYSTREAM_DEFAULT_CAPACITY) = Inr blob"
    "written blob data []" using DatagramHeader_Serialize_written [OF _ written_new, of "ack_header ?did (m_acks c) (m_nacks c)"] data by auto
  let ?d = "\<lparr>od_crypto = None, od_blob = blob, od_addr = rp_addr ?r, od_id = ?did,
    od_discard = Timestamp_plus (e_now env) (FromSeconds 1), od_packets = []\<rparr>"
  let ?r2 = "?r\<lparr>rp_stats := ?st, congestion := Some ?c, sentbox := sentbox ?r @ [?d]\<rparr>"
  have "MakeAckgram env i ?p1 = Inr (Some (length (sentbox ?r)), upd_slot i (\<lambda>_. ?r2) ?p1)"
    using i c blob(1) unfolding MakeAckgram_def
    by (simp add: MakeAckList_def GetNextDatagramID_def ack_header_def upd_slot_def at_slot_def)
  then have nx: "GetNextDatagram env i ?p1 = Inr (Some (length (sentbox ?r)), upd_slot i (\<lambda>_. ?r2) ?p1)"
    using i c need conn by (simp add: GetNextDatagram_def IsConnected_def)
  have d: "sentbox ?r2 ! length (sentbox ?r) = ?d" "written (od_blob ?d) data []" "congestion ?r2 = Some ?c" using blob(2) by simp_all
  obtain st' where w: "DoWriteCycle env i p = Inr ((upd_slot i (\<lambda>_. ?r2\<lparr>rp_stats := st',
      congestion := Some (NotifySendingBytes (e_now env) ?did (length data) ?c)\<rparr>) p)
    \<lparr>m_masterSocket := BeginWrite (rp_addr ?r) data (i, ?did) (m_masterSocket p)\<rparr>)"
    using DoWriteCycle_next [OF i idle plain refl nx d] by auto
  let ?r3 = "?r2\<lparr>rp_stats := st', congestion := Some (NotifySendingBytes (e_now env) ?did (length data) ?c)\<rparr>"
  have "same_connection ?r ?r3" by (simp add: same_connection_def)
  then show ?thesis using w by (intro exI [of _ ?r3] exI [of _ ?d] conjI) simp_all
qed

text \<open>The receiving side is idle: nothing to acknowledge, and no write under way.\<close>

definition listening :: "slot \<Rightarrow> Peer \<Rightarrow> bool" where
  "listening j q \<longleftrightarrow> running j q \<and> \<not> m_sending (m_masterSocket q) \<and> \<not> m_crypto_enabled q \<and>
     (\<forall>d \<in> set (sentbox (at_slot j q)). od_packets d = []) \<and>
     (\<exists>c. congestion (at_slot j q) = Some c \<and> m_acks c = [] \<and> m_nacks c = [])"

definition noted_packets :: "Timestamp \<Rightarrow> PacketID list \<Rightarrow> CongestionControlWindow \<Rightarrow> CongestionControlWindow" where
  "noted_packets now ks c = fold (noted_packet now) ks c"

lemma noted_packets_simps [simp]:
  "noted_packets now [] c = c" "noted_packets now (k # ks) c = noted_packets now ks (noted_packet now k c)"
  by (simp_all add: noted_packets_def)

lemma noted_packets_fields:
  "m_acks (noted_packets now ks c) = m_acks c" "m_nacks (noted_packets now ks c) = m_nacks c"
  "m_oldestUnsentAck (noted_packets now ks c) = m_oldestUnsentAck c" "m_remoteDatagram (noted_packets now ks c) = m_remoteDatagram c"
  "m_nextDatagram (noted_packets now ks c) = m_nextDatagram c" "m_datagramHistory (noted_packets now ks c) = m_datagramHistory c"
  "y \<notin> set ks \<Longrightarrow> m_packetHistory (noted_packets now ks c) y = m_packetHistory c y"
  by (induction ks arbitrary: c) (simp_all add: noted_packet_def)

lemma noted_first:
  assumes "m_datagramHistory c d = None" "d = m_remoteDatagram c" "m_acks c = []" "m_nacks c = []"
  shows "m_acks (noted_packets now ks (noted_datagram now d c)) = [d]" "m_nacks (noted_packets now ks (noted_datagram now d c)) = []"
    "m_oldestUnsentAck (noted_packets now ks (noted_datagram now d c)) = now"
    "m_nextDatagram (noted_packets now ks (noted_datagram now d c)) = m_nextDatagram c"
  using assms by (simp_all add: noted_packets_fields noted_datagram_def NotifyReceivedDatagram_def Let_def nack_gap_eq)

text \<open>The congestion control of the receiver after the whole exchange.\<close>

definition acking_window ::
  "Timestamp \<Rightarrow> Timestamp \<Rightarrow> nat \<Rightarrow> DatagramID \<Rightarrow> PacketID list \<Rightarrow> CongestionControlWindow \<Rightarrow> CongestionControlWindow" where
  "acking_window now now' n did ks c = NotifySendingBytes now' (m_nextDatagram c) n
     ((cleaned now' (noted_packets now ks (noted_datagram now did c)))
       \<lparr>m_acks := [], m_nacks := [], m_nextDatagram := m_nextDatagram c + 1\<rparr>)"

lemma acking_window_fields:
  assumes "m_datagramHistory c d = None" "d = m_remoteDatagram c"
  shows "m_acks (acking_window now now' n d ks c) = []" "m_nacks (acking_window now now' n d ks c) = []"
    "m_remoteDatagram (acking_window now now' n d ks c) = d + 1" "m_nextDatagram (acking_window now now' n d ks c) = m_nextDatagram c + 1"
    "x \<noteq> d \<Longrightarrow> m_datagramHistory c x = None \<Longrightarrow> m_datagramHistory (acking_window now now' n d ks c) x = None"
    "y \<notin> set ks \<Longrightarrow> m_packetHistory c y = None \<Longrightarrow> m_packetHistory (acking_window now now' n d ks c) y = None"
proof -
  show "x \<noteq> d \<Longrightarrow> m_datagramHistory c x = None \<Longrightarrow> m_datagramHistory (acking_window now now' n d ks c) x = None"
    "y \<notin> set ks \<Longrightarrow> m_packetHistory c y = None \<Longrightarrow> m_packetHistory (acking_window now now' n d ks c) y = None"
    using cleaned_history [of "noted_packets now ks (noted_datagram now d c)"]
    by (auto simp: acking_window_def NotifySendingBytes_def noted_packets_fields noted_histories)
qed (use assms in \<open>simp_all add: acking_window_def NotifySendingBytes_def noted_packets_fields noted_datagram_def NotifyReceivedDatagram_def Let_def\<close>)

lemma socket_written_frame:
  assumes "su_write (m_masterSocket p) = Some (addr, data, (i, did))" "congestion (at_slot j p) \<noteq> None" "j < length (m_remotes p)"
  shows "\<exists>p'. socket_written False p = Inr p' \<and> at_slot k p' = at_slot k p \<and> m_inbox p' = m_inbox p \<and> same_link j p p' \<and>
    su_is_open (m_masterSocket p') = su_is_open (m_masterSocket p) \<and> \<not> m_sending (m_masterSocket p') \<and>
    m_crypto_enabled p' = m_crypto_enabled p \<and> length (m_remotes p') = length (m_remotes p) \<and>
    m_remoteLookup p' = m_remoteLookup p"
  unfolding socket_written_ok [OF assms(1)] using same_link_fields(2) [OF assms(2,3)] by simp

lemma running_same:
  assumes "running i p" "same_connection (at_slot i p\<lparr>receipt := receipt (at_slot i p')\<rparr>) (at_slot i p')"
    "length (m_remotes p') = length (m_remotes p)" "congestion (at_slot i p') \<noteq> None" "receipt (at_slot i p') \<noteq> None"
    "su_is_open (m_masterSocket p')"
  shows "running i p'"
  using assms unfolding running_def by (auto simp: same_connection_def)

lemma same_link_length: "same_link i p q \<Longrightarrow> length (m_remotes q) = length (m_remotes p)"
  by (auto simp: same_link_def)

lemma ack_header_length: "length (enc_DatagramHeader (ack_header a [d] [])) = 10"
  by (simp add: enc_DatagramHeader_def enc_ids_def be32_def)

text \<open>The pass that is due writes the acknowledgement, and the write completes.\<close>

lemma ack_leaves:
  assumes run: "running j q" and c: "congestion (at_slot j q) = Some c" and a: "m_acks c = [did]" "m_nacks c = []"
    and need: "GetNeedsToSendAcks (e_now env) c" and sb: "\<forall>d \<in> set (sentbox (at_slot j q)). od_packets d = []"
    and idle: "\<not> m_sending (m_masterSocket q)" "\<not> m_crypto_enabled q"
  shows "\<exists>q2 q3. pass env j q = Inr q2 \<and> su_write (m_masterSocket q2) =
      Some (rp_addr (at_slot j q), enc_DatagramHeader (ack_header (m_nextDatagram c) [did] []), (j, m_nextDatagram c)) \<and>
    socket_written False q2 = Inr q3 \<and> same_link j q q3 \<and> listening j q3 \<and> m_inbox q3 = m_inbox q \<and>
    congestion (at_slot j q3) = Some (NotifySendingBytes (e_now env) (m_nextDatagram c) 10
      ((cleaned (e_now env) c)\<lparr>m_acks := [], m_nacks := [], m_nextDatagram := m_nextDatagram c + 1\<rparr>))"
proof -
  obtain t where t: "receipt (at_slot j q) = Some t" using run by (auto simp: running_def)
  define p where "p = before_write (e_now env) j q"
  note bw = before_write_fields [OF run c, of "e_now env", folded p_def]
  note tq = tidied_quiet [OF c t sb, of "e_now env"] and td = tidied_fields [OF c, of "e_now env", folded bw(1), unfolded t, simplified]
  have j: "j < length (m_remotes q)" "j < length (m_remotes p)" using run bw(2) by (simp_all add: running_def)
  let ?c = "cleaned (e_now env) c" and ?ack = "enc_DatagramHeader (ack_header (m_nextDatagram c) [did] [])"
  have conn: "IsConnected (at_slot j p)" using bw(3) by (auto simp: IsConnected_def running_def)
  have pl: "\<not> m_sending (m_masterSocket p)" "\<not> m_crypto_enabled p" using idle bw(4,6) by simp_all
  have data: "?ack = enc_DatagramHeader (ack_header (m_nextDatagram ?c) (m_acks ?c) (m_nacks ?c))" using a by simp
  have "length ?ack \<le> max_stream" "GetNeedsToSendAcks (e_now env) ?c" using need by (simp_all add: ack_header_length max_stream_def)
  from DoWriteCycle_ackgram [OF j(2) pl td(1) this(2) conn data this(1)] obtain r d where
    r: "DoWriteCycle env j p = Inr ((upd_slot j (\<lambda>_. r) p)\<lparr>m_masterSocket :=
        BeginWrite (rp_addr (at_slot j p)) ?ack (j, m_nextDatagram c) (m_masterSocket p)\<rparr>)"
    "same_connection (at_slot j p) r" "sentbox r = sentbox (at_slot j p) @ [d]" "od_packets d = []"
    "congestion r = Some (NotifySendingBytes (e_now env) (m_nextDatagram c) 10
      (?c\<lparr>m_acks := [], m_nacks := [], m_nextDatagram := m_nextDatagram c + 1\<rparr>))" by (auto simp: ack_header_length)
  define q2 where "q2 = (upd_slot j (\<lambda>_. r) p)\<lparr>m_masterSocket :=
        BeginWrite (rp_addr (at_slot j p)) ?ack (j, m_nextDatagram c) (m_masterSocket p)\<rparr>"
  have at2: "at_slot j q2 = r" using j(2) by (simp add: q2_def)
  have sc: "same_connection (at_slot j q) (at_slot j p)" using td(5) tq(1) t bw(1) by (simp add: same_connection_def)
  have "same_link j p q2" using r(2,5) j(2) by (auto simp: same_link_def same_connection_def upd_slot_def q2_def)
  then have l2: "same_link j q q2" by (rule same_link_trans [OF bw(8) _ j(1)])
  have w: "su_write (m_masterSocket q2) = Some (rp_addr (at_slot j q), ?ack, (j, m_nextDatagram c))"
    using sc by (simp add: q2_def BeginWrite_def same_connection_def)
  have f2: "m_inbox q2 = m_inbox q" "length (m_remotes q2) = length (m_remotes q)" "su_is_open (m_masterSocket q2)" "\<not> m_crypto_enabled q2"
    using bw(2,3,7) tq(2) pl(2) by (simp_all add: q2_def BeginWrite_def running_def)
  have "congestion (at_slot j q2) \<noteq> None" "j < length (m_remotes q2)" using at2 r(5) f2(2) j(1) by simp_all
  from socket_written_frame [OF w this, of j] obtain q3 where
    q3: "socket_written False q2 = Inr q3" "at_slot j q3 = r" "m_inbox q3 = m_inbox q2" "same_link j q2 q3"
      "su_is_open (m_masterSocket q3)" "\<not> m_sending (m_masterSocket q3)" "\<not> m_crypto_enabled q3" "length (m_remotes q3) = length (m_remotes q)"
    using at2 f2 by auto
  have "running j q3" using sc r(2,5) q3 t by (intro running_same [OF run]) (auto simp: same_connection_def)
  moreover have "\<forall>d \<in> set (sentbox r). od_packets d = []" using r(3,4) td(3) sb bw(1) by auto
  ultimately have "listening j q3" using q3 r(5) by (simp add: listening_def NotifySendingBytes_def)
  moreover have "pass env j q = Inr q2" using pass_running [OF run, of env] r(1) by (simp add: p_def [symmetric] q2_def)
  moreover have "same_link j q q3" by (rule same_link_trans [OF l2 q3(4) j(1)])
  ultimately show ?thesis using w q3 f2(1) r(5) by auto
qed

section \<open>A datagram of several packets arrives\<close>

definition user_wire :: "nat \<Rightarrow> wire_packet \<Rightarrow> bool" where
  "user_wire n = (\<lambda>(h, bs). \<not> flag_segment h \<and> ph_offset h = 0 \<and> ph_channel h = 0 \<and> \<not> hd bs < USER_PACKET \<and> length bs < n)"

definition wire_id :: "wire_packet \<Rightarrow> PacketID" where
  "wire_id = (\<lambda>(h, bs). ph_id h)"

definition wire_message :: "PeerID \<Rightarrow> wire_packet \<Rightarrow> Packet" where
  "wire_message who = (\<lambda>(h, bs). packet_of who (hd bs) (tl bs))"

lemma wires_received:
  assumes "j < length (m_remotes p)" "congestion (at_slot j p) = Some c" "\<forall>x \<in> set ps. user_wire n x"
    "distinct (map wire_id ps)" "\<forall>x \<in> set ps. m_packetHistory c (wire_id x) = None" "ps \<noteq> []"
  shows "\<exists>st. receive_packets env j n h0 ps p = Inr ((upd_slot j (\<lambda>r. r\<lparr>
      congestion := Some (noted_packets (e_now env) (map wire_id ps) c), rp_stats := st\<rparr>) p)
      \<lparr>m_inbox := m_inbox p @ map (wire_message (rp_id (at_slot j p))) ps\<rparr>)"
  using assms
proof (induction ps arbitrary: p c h0)
  case (Cons x ps)
  obtain h bs where x: "x = (h, bs)" by (cases x)
  have u: "length bs < n" "\<not> flag_segment (read_over h0 h)" "ph_offset (read_over h0 h) = 0" "ph_channel (read_over h0 h) = 0"
    "\<not> hd bs < USER_PACKET" "m_packetHistory c (ph_id (read_over h0 h)) = None" "ph_id (read_over h0 h) = ph_id h"
    using Cons.prems(3,5) x by (simp_all add: user_wire_def wire_id_def)
  obtain st where st: "receive_packet env j n (read_over h0 h) bs p = Inr ((upd_slot j (\<lambda>r. r\<lparr>
      congestion := Some (noted_packet (e_now env) (ph_id h) c), rp_stats := st\<rparr>) p)
      \<lparr>m_inbox := m_inbox p @ [packet_of (rp_id (at_slot j p)) (hd bs) (tl bs)]\<rparr>)" (is "_ = Inr ?p1")
    using receive_user_packet [OF Cons.prems(1,2) u(6,1-5), of env] u(7) by auto
  show ?case
  proof (cases "ps = []")
    case True
    then show ?thesis using st x by (auto simp: wire_message_def wire_id_def)
  next
    case False
    have p1: "j < length (m_remotes ?p1)" "congestion (at_slot j ?p1) = Some (noted_packet (e_now env) (ph_id h) c)"
      "rp_id (at_slot j ?p1) = rp_id (at_slot j p)" using Cons.prems(1) by simp_all
    have un: "\<forall>y \<in> set ps. m_packetHistory (noted_packet (e_now env) (ph_id h) c) (wire_id y) = None"
      using Cons.prems(4,5) x by (force simp: noted_packet_def wire_id_def)
    obtain st' where "receive_packets env j n (read_over h0 h) ps ?p1 = Inr ((upd_slot j (\<lambda>r. r\<lparr>
        congestion := Some (noted_packets (e_now env) (map wire_id ps) (noted_packet (e_now env) (ph_id h) c)), rp_stats := st'\<rparr>) ?p1)
        \<lparr>m_inbox := m_inbox ?p1 @ map (wire_message (rp_id (at_slot j p))) ps\<rparr>)"
      using Cons.IH [OF p1(1,2) _ _ un False, of "read_over h0 h"] Cons.prems(3,4) p1(3) by auto
    then show ?thesis using st x Cons.prems(1) by (intro exI [of _ st']) (simp add: wire_message_def wire_id_def upd_slot_def)
  qed
qed simp

lemma wires_arrive:
  assumes ok: "datagram_ok (data_header True did n) ps" and ps: "\<forall>x \<in> set ps. user_wire n x" "distinct (map wire_id ps)"
    and l: "link j addr p" and c: "congestion (at_slot j p) = Some c" "m_datagramHistory c did = None"
      "\<forall>x \<in> set ps. m_packetHistory c (wire_id x) = None"
  shows "\<exists>p'. socket_read env False addr (enc_datagram (data_header True did n) ps) p = Inr p' \<and> same_link j p p' \<and>
    m_inbox p' = m_inbox p @ map (wire_message (rp_id (at_slot j p))) ps \<and> same_sending j p p' \<and>
    congestion (at_slot j p') = Some (noted_packets (e_now env) (map wire_id ps) (noted_datagram (e_now env) did c))"
proof -
  let ?h = "data_header True did n" and ?now = "e_now env"
  let ?fl = "p\<lparr>m_masterSocket := fill_readbuf (enc_datagram ?h ps) (m_masterSocket p)\<rparr>"
  let ?q = "count_datagram j (length (enc_datagram ?h ps)) ?fl"
  let ?q1 = "upd_slot j (\<lambda>r. r\<lparr>congestion := Some (noted_datagram ?now did c)\<rparr>) ?q"
  have j: "j < length (m_remotes p)" "j < length (m_remotes ?q)" using l by (simp_all add: link_def)
  obtain st where st: "at_slot j ?q = at_slot j p\<lparr>rp_stats := st\<rparr>" using at_count_datagram [of j ?fl] j(1) by auto
  have at1: "at_slot j ?q1 = at_slot j p\<lparr>rp_stats := st, congestion := Some (noted_datagram ?now did c)\<rparr>" "j < length (m_remotes ?q1)"
    using st j by simp_all
  have cq: "congestion (at_slot j ?q) = Some c" "congestion (at_slot j ?q1) = Some (noted_datagram ?now did c)"
    "rp_id (at_slot j ?q1) = rp_id (at_slot j p)" using st c(1) at1 by simp_all
  have un: "\<forall>x \<in> set ps. m_packetHistory (noted_datagram ?now did c) (wire_id x) = None" "ps \<noteq> []"
    using c(3) ok by (simp_all add: noted_histories(1) datagram_ok_def)
  obtain st' where rp: "receive_packets env j n PacketHeader_default ps ?q1 = Inr ((upd_slot j (\<lambda>r. r\<lparr>
      congestion := Some (noted_packets ?now (map wire_id ps) (noted_datagram ?now did c)), rp_stats := st'\<rparr>) ?q1)
      \<lparr>m_inbox := m_inbox ?q1 @ map (wire_message (rp_id (at_slot j p))) ps\<rparr>)" (is "_ = Inr ?q2")
    using wires_received [OF at1(2) cq(2) ps un, of env PacketHeader_default] unfolding cq(3) by blast
  let ?p' = "?q2\<lparr>m_masterSocket := after_read False (m_masterSocket ?q2)\<rparr>"
  have "socket_read env False addr (enc_datagram ?h ps) p = Inr ?p'"
    using link_read [OF l ok, of env] receive_data [OF cq(1) c(2), of env n ps] rp by simp
  moreover have at': "at_slot j ?p' = at_slot j ?q1\<lparr>congestion := Some (noted_packets ?now (map wire_id ps) (noted_datagram ?now did c)),
      rp_stats := st'\<rparr>" using at1(2) by simp
  moreover have "same_link j p ?q" using j(1) c(1)
    by (simp add: count_datagram_def upd_stats_def) (auto simp: same_link_def upd_slot_def at_slot_def)
  moreover have "same_link j ?q ?p'" using j by (auto simp: same_link_def upd_slot_def at_slot_def)
  moreover have "m_inbox ?p' = m_inbox p @ map (wire_message (rp_id (at_slot j p))) ps" by simp
  moreover have "same_sending j p ?p'" unfolding same_sending_def at' at1(1) by (simp add: same_connection_def)
  ultimately show ?thesis using same_link_trans [of j p ?q ?p'] j(1) by (intro exI [of _ ?p'] conjI) simp_all
qed

text \<open>The datagram is acknowledged by the next pass that is due.\<close>

lemma wires_acked:
  assumes ok: "datagram_ok (data_header True did n) ps" and ps: "\<forall>x \<in> set ps. user_wire n x" "distinct (map wire_id ps)"
    and l: "link j addr q" "listening j q" and c: "congestion (at_slot j q) = Some c"
    and new: "m_datagramHistory c did = None" "did = m_remoteDatagram c" "\<forall>x \<in> set ps. m_packetHistory c (wire_id x) = None"
    and t: "e_now env + FromMilliseconds 10 \<le> e_now env'" "e_now env' < 2 ^ 64"
  shows "\<exists>q1 q2 q3. socket_read env False addr (enc_datagram (data_header True did n) ps) q = Inr q1 \<and> pass env' j q1 = Inr q2 \<and>
    su_write (m_masterSocket q2) =
      Some (rp_addr (at_slot j q), enc_DatagramHeader (ack_header (m_nextDatagram c) [did] []), (j, m_nextDatagram c)) \<and>
    socket_written False q2 = Inr q3 \<and> same_link j q q3 \<and> listening j q3 \<and>
    m_inbox q3 = m_inbox q @ map (wire_message (rp_id (at_slot j q))) ps \<and>
    congestion (at_slot j q3) = Some (acking_window (e_now env) (e_now env') 10 did (map wire_id ps) c)"
proof -
  have run: "running j q" and idle: "m_acks c = []" "m_nacks c = []" and j: "j < length (m_remotes q)"
    using l(2) c by (auto simp: listening_def running_def)
  let ?c1 = "noted_packets (e_now env) (map wire_id ps) (noted_datagram (e_now env) did c)"
  obtain q1 where q1: "socket_read env False addr (enc_datagram (data_header True did n) ps) q = Inr q1" "same_link j q q1"
    "m_inbox q1 = m_inbox q @ map (wire_message (rp_id (at_slot j q))) ps" "same_sending j q q1"
    "congestion (at_slot j q1) = Some ?c1" using wires_arrive [OF ok ps l(1) c new(1,3), of env] by blast
  note nf = noted_first [OF new(1,2) idle, of "e_now env" "map wire_id ps"]
  have "running j q1"
    using run q1(4,5) same_link_length [OF q1(2)] by (intro running_same [OF run]) (auto simp: running_def same_sending_def same_connection_def)
  moreover have "GetNeedsToSendAcks (e_now env') ?c1" using nf t by (simp add: GetNeedsToSendAcks_def Time_Elapsed_def Timestamp_plus_def)
  moreover have "\<forall>d \<in> set (sentbox (at_slot j q1)). od_packets d = []" "\<not> m_sending (m_masterSocket q1)" "\<not> m_crypto_enabled q1"
    "rp_addr (at_slot j q1) = rp_addr (at_slot j q)"
    using l(2) q1(2,4) by (auto simp: listening_def same_sending_def same_link_def same_connection_def)
  ultimately show ?thesis using ack_leaves [of j q1 ?c1 did env'] q1 nf(1,2,4) same_link_trans [OF q1(2) _ j]
    by (fastforce simp: acking_window_def)
qed

section \<open>The acknowledgement arrives\<close>

lemma find_last: "\<forall>x \<in> set sb. od_id x \<noteq> od_id d \<Longrightarrow> find_datagram (od_id d) (sb @ [d]) = Some (length sb)"
  unfolding find_datagram_def by (rule find_upt) (auto simp: nth_append)

lemma Acknowledge_single:
  "m_splits t = [] \<Longrightarrow> Acknowledge k t = Inr (acked (m_tracker t) [k], t\<lparr>m_tracker := m_tracker t - {k}\<rparr>)"
  using Acknowledge_flat [of t k] by (cases t) (simp add: splits_ok_def completed_def remaining_def)

lemma acknowledge_all:
  assumes "i < length (m_remotes p)" "receipt (at_slot i p) = Some t" "m_splits t = []" "outbox (at_slot i p) = os" "distinct (map op_id os)"
  shows "rfold (acknowledge_packet i) (map op_id os) p = Inr ((upd_slot i (\<lambda>r. r\<lparr>
      receipt := Some (t\<lparr>m_tracker := m_tracker t - set (map op_id os)\<rparr>), outbox := []\<rparr>) p)
    \<lparr>m_inbox := m_inbox p @ map receipt_notice (acked (m_tracker t) (map op_id os))\<rparr>)"
  using assms
proof (induction os arbitrary: p t)
  case Nil
  then have "at_slot i p\<lparr>receipt := Some t, outbox := []\<rparr> = at_slot i p" by simp
  then have "upd_slot i (\<lambda>r. r\<lparr>receipt := Some t, outbox := []\<rparr>) p = p" using Nil(1) by (simp add: upd_slot_def at_slot_def)
  then show ?case by (simp add: acked_def)
next
  case (Cons out os)
  let ?t = "t\<lparr>m_tracker := m_tracker t - {op_id out}\<rparr>"
  let ?p1 = "(upd_slot i (\<lambda>r. r\<lparr>receipt := Some ?t, outbox := os\<rparr>) p)
    \<lparr>m_inbox := m_inbox p @ map receipt_notice (acked (m_tracker t) [op_id out])\<rparr>"
  have rm: "RemovePacketFromOutbox (op_id out) (at_slot i p\<lparr>receipt := x\<rparr>) = at_slot i p\<lparr>receipt := x, outbox := os\<rparr>" for x
    using RemovePacket_first [of "at_slot i p\<lparr>receipt := x\<rparr>" out os] Cons.prems(4) by simp
  have one: "acknowledge_packet i (op_id out) p = Inr ?p1"
    using rm [unfolded at_slot_def] Cons.prems(1) unfolding acknowledge_packet_def Cons.prems(2)
    by (simp add: Acknowledge_single [OF Cons.prems(3)] OnMessageReceipts_ok upd_slot_def at_slot_def)
  have ack: "acked (m_tracker t - {op_id out}) (map op_id os) = acked (m_tracker t) (map op_id os)"
    "acked (m_tracker t) (op_id out # map op_id os) = acked (m_tracker t) [op_id out] @ acked (m_tracker t) (map op_id os)"
    using Cons.prems(5) by (auto simp: acked_def intro!: arg_cong [of _ _ "map _"] filter_cong)
  have "rfold (acknowledge_packet i) (map op_id os) ?p1 = Inr ((upd_slot i (\<lambda>r. r\<lparr>
      receipt := Some (?t\<lparr>m_tracker := m_tracker ?t - set (map op_id os)\<rparr>), outbox := []\<rparr>) ?p1)
    \<lparr>m_inbox := m_inbox ?p1 @ map receipt_notice (acked (m_tracker ?t) (map op_id os))\<rparr>)"
    by (rule Cons.IH) (use Cons.prems in simp_all)
  moreover have "m_tracker t - {op_id out} - set (map op_id os) = m_tracker t - set (map op_id (out # os))" by auto
  ultimately show ?case using one Cons.prems(1) by (simp add: ack upd_slot_def)
qed

lemma acknowledge_last:
  assumes i: "i < length (m_remotes p)" and c: "congestion (at_slot i p) = Some c" and sb: "sentbox (at_slot i p) = sb @ [d]"
    and d: "\<forall>x \<in> set sb. od_id x \<noteq> od_id d" "od_packets d = map op_id os"
    and t: "receipt (at_slot i p) = Some t" "m_splits t = []" and o: "outbox (at_slot i p) = os" "distinct (map op_id os)"
  shows "HandleAcknowledgements env i [od_id d] p = Inr ((upd_slot i (\<lambda>r. r\<lparr>receipt := Some (t\<lparr>m_tracker := m_tracker t - set (map op_id os)\<rparr>),
      outbox := [], sentbox := sb, congestion := Some (NotifyReceivedAck (e_now env) (od_id d) c)\<rparr>) p)
    \<lparr>m_inbox := m_inbox p @ map receipt_notice (acked (m_tracker t) (map op_id os))\<rparr>)"
proof -
  note all = acknowledge_all [OF i t o]
  have "list_erase (length sb) (sb @ [d]) = sb" by (simp add: list_erase_def)
  then show ?thesis using i c sb find_last [OF d(1)] all d(2)
    unfolding HandleAcknowledgements_def acknowledge_datagram_def
    by (simp add: nth_append upd_slot_def at_slot_def)
qed

lemma ack_arrives:
  assumes l: "link i addr p" and c: "congestion (at_slot i p) = Some c" "m_datagramHistory c a = None" "a = m_remoteDatagram c"
    and sb: "sentbox (at_slot i p) = sb @ [d]" "\<forall>x \<in> set sb. od_id x \<noteq> od_id d" "od_packets d = map op_id os"
    and t: "receipt (at_slot i p) = Some t" "m_splits t = []" and o: "outbox (at_slot i p) = os" "distinct (map op_id os)"
  shows "\<exists>p'. socket_read env False addr (enc_DatagramHeader (ack_header a [od_id d] [])) p = Inr p' \<and> same_link i p p' \<and>
    m_inbox p' = m_inbox p @ map receipt_notice (acked (m_tracker t) (map op_id os)) \<and>
    congestion (at_slot i p') = Some (NotifyReceivedAck (e_now env) (od_id d) (noted_ackgram (e_now env) a c)) \<and>
    receipt (at_slot i p') = Some (t\<lparr>m_tracker := m_tracker t - set (map op_id os)\<rparr>) \<and> outbox (at_slot i p') = [] \<and> sentbox (at_slot i p') = sb \<and>
    same_connection (at_slot i p\<lparr>receipt := receipt (at_slot i p')\<rparr>) (at_slot i p') \<and>
    m_sending (m_masterSocket p') = m_sending (m_masterSocket p) \<and> su_is_open (m_masterSocket p') = su_is_open (m_masterSocket p) \<and>
    m_remoteLookup p' = m_remoteLookup p"
proof -
  let ?h = "ack_header a [od_id d] []" and ?c = "noted_ackgram (e_now env) a c"
  have data: "enc_DatagramHeader ?h = enc_datagram ?h []" by (simp add: enc_datagram_def)
  have ok: "datagram_ok ?h []" using ack_header_length [of a "od_id d"]
    by (simp add: datagram_ok_def valid_DatagramHeader_def enc_datagram_def MTU_def)
  let ?q = "count_datagram i (length (enc_datagram ?h [])) (p\<lparr>m_masterSocket := fill_readbuf (enc_datagram ?h []) (m_masterSocket p)\<rparr>)"
  have i: "i < length (m_remotes p)" using l by (simp add: link_def)
  obtain st where st: "at_slot i ?q = at_slot i p\<lparr>rp_stats := st\<rparr>"
    using at_count_datagram [of i "p\<lparr>m_masterSocket := fill_readbuf (enc_datagram ?h []) (m_masterSocket p)\<rparr>" "length (enc_datagram ?h [])"] i by auto
  let ?q1 = "upd_slot i (\<lambda>r. r\<lparr>congestion := Some ?c\<rparr>) ?q"
  have at1: "at_slot i ?q1 = at_slot i p\<lparr>rp_stats := st, congestion := Some ?c\<rparr>" "i < length (m_remotes ?q1)" using st i by simp_all
  let ?f = "\<lambda>r. r\<lparr>receipt := Some (t\<lparr>m_tracker := m_tracker t - set (map op_id os)\<rparr>),
      outbox := [], sentbox := sb, congestion := Some (NotifyReceivedAck (e_now env) (od_id d) ?c)\<rparr>"
  let ?p2 = "(upd_slot i ?f ?q1)\<lparr>m_inbox := m_inbox ?q1 @ map receipt_notice (acked (m_tracker t) (map op_id os))\<rparr>"
  have ack: "HandleAcknowledgements env i [od_id d] ?q1 = Inr ?p2"
    by (rule acknowledge_last [OF at1(2) _ _ sb(2,3) _ t(2) _ o(2)]) (use at1 sb t o in simp_all)
  have "receive_datagram env i ?h [] ?q = Inr ?p2"
    unfolding receive_datagram_def using st c noted_ackgram_fields(1) [OF c(2,3), of "e_now env"] ack by simp
  then have rd: "socket_read env False addr (enc_DatagramHeader ?h) p = Inr (?p2\<lparr>m_masterSocket := after_read False (m_masterSocket ?p2)\<rparr>)"
    using link_read [OF l ok, of env] by (simp add: data)
  let ?p3 = "?p2\<lparr>m_masterSocket := after_read False (m_masterSocket ?p2)\<rparr>"
  have at3: "at_slot i ?p3 = ?f (at_slot i ?q1)" using at1(2) by simp
  have "same_link i p ?q" using i c(1)
    by (simp add: count_datagram_def upd_stats_def) (auto simp: same_link_def upd_slot_def at_slot_def)
  moreover have "same_link i ?q ?p3" using i by (auto simp: same_link_def upd_slot_def at_slot_def)
  ultimately have "same_link i p ?p3" by (rule same_link_trans [OF _ _ i])
  moreover have "same_connection (at_slot i p\<lparr>receipt := receipt (at_slot i ?p3)\<rparr>) (at_slot i ?p3)"
    unfolding at3 at1 by (simp add: same_connection_def)
  moreover have "m_inbox ?p3 = m_inbox p @ map receipt_notice (acked (m_tracker t) (map op_id os))"
    "m_sending (m_masterSocket ?p3) = m_sending (m_masterSocket p)" "su_is_open (m_masterSocket ?p3) = su_is_open (m_masterSocket p)"
    "m_remoteLookup ?p3 = m_remoteLookup p"
    by (simp_all add: count_datagram_def upd_stats_def)
  ultimately show ?thesis using rd at3 by (intro exI [of _ ?p3] conjI) simp_all
qed

section \<open>Conversations\<close>

text \<open>A pass that writes a datagram, which the network carries to the peer at the address \<open>dst\<close>.\<close>

definition carry :: "Env \<Rightarrow> slot \<Rightarrow> RemoteAddress \<Rightarrow> RemoteAddress \<Rightarrow> Env \<Rightarrow> Peer \<Rightarrow> Peer \<Rightarrow> (Peer \<times> Peer) result" where
  "carry env i src dst env' p q =
     rbind (pass env i p) (\<lambda>p. case su_write (m_masterSocket p) of
         None \<Rightarrow> Inr (p, q)
       | Some (addr, data, _) \<Rightarrow>
           rbind (socket_written False p) (\<lambda>p.
           if addr = dst then rbind (socket_read env' False src data q) (\<lambda>q. Inr (p, q)) else Inr (p, q)))"

text \<open>When a datagram is written, read, acknowledged, and when the acknowledgement is read.\<close>

record timing =
  x_write :: Env
  x_read :: Env
  x_ack :: Env
  x_acked :: Env

text \<open>The arguments of a call of \<open>Send\<close> over the default channel, and when it is made.\<close>

record message =
  msg_env :: Env
  msg_packet :: Packet
  msg_options :: PacketOptions
  msg_priority :: PacketPriority

text \<open>A single message, and several that are all sent before the next pass.\<close>

record turn = timing +
  x_send :: Env
  x_packet :: Packet
  x_options :: PacketOptions
  x_priority :: PacketPriority

record burst = timing +
  x_messages :: "message list"

text \<open>The passes in which what is queued is carried over and its acknowledgement back.\<close>

definition settle ::
  "slot \<Rightarrow> RemoteAddress \<Rightarrow> slot \<Rightarrow> RemoteAddress \<Rightarrow> 'x timing_scheme \<Rightarrow> Peer \<Rightarrow> Peer \<Rightarrow> (Peer \<times> Peer) result" where
  "settle i addrA j addrB x p q =
     rbind (carry (x_write x) i addrA addrB (x_read x) p q) (\<lambda>(p, q).
     rbind (carry (x_ack x) j addrB addrA (x_acked x) q p) (\<lambda>(q, p). Inr (p, q)))"

text \<open>The calls of \<open>Send\<close> one after the other, with the identifiers they return.\<close>

fun post :: "PeerID \<Rightarrow> message list \<Rightarrow> Peer \<Rightarrow> (PacketID list \<times> Peer) result" where
  "post who [] p = Inr ([], p)"
| "post who (m # ms) p =
     rbind (Send (msg_env m) (msg_packet m) who (msg_options m) (msg_priority m) Channel_default p) (\<lambda>(pid, p).
     rbind (post who ms p) (\<lambda>(pids, p). Inr (pid # pids, p)))"

text \<open>A burst, in a conversation in which \<open>Send\<close> has returned the identifiers \<open>pids\<close> so far.\<close>

definition exchange ::
  "slot \<Rightarrow> RemoteAddress \<Rightarrow> PeerID \<Rightarrow> slot \<Rightarrow> RemoteAddress \<Rightarrow> burst \<Rightarrow> PacketID list \<times> Peer \<times> Peer \<Rightarrow>
   (PacketID list \<times> Peer \<times> Peer) result" where
  "exchange i addrA who j addrB x = (\<lambda>(pids, p, q).
     rbind (post who (x_messages x) p) (\<lambda>(new, p).
     rbind (settle i addrA j addrB x p q) (\<lambda>(p, q). Inr (pids @ new, p, q))))"

text \<open>
  A reliable user message of one packet.  The clocks of the two peers are independent; the acknowledgement is
  written once it is due.  A burst fits one datagram: its header has 7 bytes, and each packet has a header of 11 bytes
  and the command in front of its payload.
\<close>

definition message_ok :: "message \<Rightarrow> bool" where
  "message_ok m \<longleftrightarrow> packet_ok (msg_packet m) \<and> pkt_length (msg_packet m) < CHUNK_SIZE \<and> USER_PACKET \<le> m_command (msg_packet m) \<and>
     (msg_options m AND RELIABLE) = RELIABLE"

definition times_ok :: "nat \<Rightarrow> 'x timing_scheme \<Rightarrow> bool" where
  "times_ok T x \<longleftrightarrow> e_now (x_write x) \<le> e_now (x_acked x) \<and> e_now (x_acked x) \<le> T \<and>
     e_now (x_read x) + FromMilliseconds 10 \<le> e_now (x_ack x) \<and> e_now (x_ack x) < 2 ^ 64"

definition turn_message :: "turn \<Rightarrow> message" where
  "turn_message x = \<lparr>msg_env = x_send x, msg_packet = x_packet x, msg_options = x_options x, msg_priority = x_priority x\<rparr>"

definition turn_ok :: "nat \<Rightarrow> turn \<Rightarrow> bool" where
  "turn_ok T x \<longleftrightarrow> message_ok (turn_message x) \<and> e_now (x_send x) \<le> e_now (x_write x) \<and> times_ok T x"

definition messages_size :: "message list \<Rightarrow> nat" where
  "messages_size ms = (\<Sum>m \<leftarrow> ms. pkt_length (msg_packet m) + 12)"

definition messages_ok :: "Timestamp \<Rightarrow> message list \<Rightarrow> bool" where
  "messages_ok now ms \<longleftrightarrow> ms \<noteq> [] \<and> (\<forall>m \<in> set ms. message_ok m \<and> e_now (msg_env m) \<le> now) \<and> messages_size ms + 7 \<le> MTU"

definition burst_ok :: "nat \<Rightarrow> burst \<Rightarrow> bool" where
  "burst_ok T x \<longleftrightarrow> messages_ok (e_now (x_write x)) (x_messages x) \<and> times_ok T x"

lemma turn_messages_ok: "turn_ok T x \<Longrightarrow> messages_ok (e_now (x_write x)) [turn_message x]"
  by (simp add: turn_ok_def messages_ok_def messages_size_def message_ok_def turn_message_def CHUNK_SIZE_eq MTU_def)

text \<open>The identifiers that follow \<open>pid\<close>.\<close>

definition ids :: "PacketID \<Rightarrow> nat \<Rightarrow> PacketID list" where
  "ids pid n = map (\<lambda>k. pid + of_nat k) [0..<n]"

lemma ids_simps [simp]: "ids pid 0 = []" "ids pid (Suc n) = pid # ids (pid + 1) n" "length (ids pid n) = n"
proof -
  have "[0..<Suc n] = 0 # map Suc [0..<n]" by (simp add: map_Suc_upt upt_conv_Cons del: upt_Suc)
  then show "ids pid (Suc n) = pid # ids (pid + 1) n" by (simp add: ids_def o_def add.assoc del: upt_Suc)
qed (simp_all add: ids_def)

lemma ids_append: "ids pid (m + n) = ids pid m @ ids (pid + of_nat m) n"
  by (induction m arbitrary: pid) (simp_all add: add.assoc)

lemma of_nat_u32: "a < 2 ^ 32 \<Longrightarrow> b < 2 ^ 32 \<Longrightarrow> (of_nat a :: u32) = of_nat b \<longleftrightarrow> a = b"
proof -
  assume "a < 2 ^ 32" "b < 2 ^ 32"
  then have "unat (of_nat a :: u32) = a" "unat (of_nat b :: u32) = b" by (simp_all add: unat_of_nat_small)
  then show ?thesis by metis
qed

lemma ids_fresh: "m + k < 2 ^ 32 \<Longrightarrow> pid + of_nat (m + k) \<notin> set (ids pid m)"
proof
  assume k: "m + k < 2 ^ 32" and "pid + of_nat (m + k) \<in> set (ids pid m)"
  then obtain x where x: "x < m" "(of_nat (m + k) :: u32) = of_nat x" by (auto simp: ids_def simp del: of_nat_add)
  then have "m + k = x" using of_nat_u32 [OF k, of x] k by simp
  then show False using x(1) by simp
qed

lemma distinct_ids: "n \<le> 2 ^ 32 \<Longrightarrow> distinct (ids pid n)"
  unfolding ids_def distinct_map by (auto intro!: inj_onI simp: of_nat_u32)

text \<open>
  The two ends of a connection agree on the next datagrams in both directions, and the next \<open>n\<close>
  identifiers are not in use.
\<close>

definition unused :: "nat \<Rightarrow> CongestionControlWindow \<Rightarrow> CongestionControlWindow \<Rightarrow> ReceiptTracker \<Rightarrow> OutgoingDatagram list \<Rightarrow> bool" where
  "unused n c d t sb \<longleftrightarrow> (\<forall>m < n. m_datagramHistory d (m_nextDatagram c + of_nat m) = None \<and>
     m_packetHistory d (m_nextPacket c + of_nat m) = None \<and> m_datagramHistory c (m_nextDatagram d + of_nat m) = None \<and>
     m_nextPacket c + of_nat m \<notin> m_tracker t \<and> (\<forall>x \<in> set sb. od_id x \<noteq> m_nextDatagram c + of_nat m))"

definition in_step ::
  "nat \<Rightarrow> nat \<Rightarrow> slot \<Rightarrow> RemoteAddress \<Rightarrow> PeerID \<Rightarrow> slot \<Rightarrow> RemoteAddress \<Rightarrow> Peer \<Rightarrow> Peer \<Rightarrow> bool" where
  "in_step n T i addrA who j addrB p q \<longleftrightarrow> n \<le> 2 ^ 32 \<and>
     ready i p \<and> accepts who i p \<and> link i addrB p \<and> rp_addr (at_slot i p) = addrB \<and>
     listening j q \<and> link j addrA q \<and> rp_addr (at_slot j q) = addrA \<and>
     (\<exists>c d t k. congestion (at_slot i p) = Some c \<and> congestion (at_slot j q) = Some d \<and> receipt (at_slot i p) = Some t \<and>
        m_splits t = [] \<and> m_remoteDatagram d = m_nextDatagram c \<and> m_remoteDatagram c = m_nextDatagram d \<and>
        window_ok k c \<and> k + n \<le> 2 ^ 50 \<and> rtt_ok T c \<and> unused n c d t (sentbox (at_slot i p)))"

lemma unused_first:
  assumes "unused n c d t sb" "0 < n"
  shows "m_datagramHistory d (m_nextDatagram c) = None" "m_datagramHistory c (m_nextDatagram d) = None"
    "\<forall>x \<in> set sb. od_id x \<noteq> m_nextDatagram c"
  using assms by (auto simp: unused_def dest: spec [of _ 0])

lemma unused_ids:
  "unused (m + n) c d t sb \<Longrightarrow> \<forall>x \<in> set (ids (m_nextPacket c) m). m_packetHistory d x = None \<and> x \<notin> m_tracker t"
  by (auto simp: unused_def ids_def)

lemma unused_next:
  assumes u: "unused (m + n) c d t sb" and n: "m + n \<le> 2 ^ 32" "0 < m"
    and sb: "set sb' \<subseteq> set sb" and t: "m_tracker t' \<subseteq> m_tracker t"
    and c': "m_nextPacket c' = m_nextPacket c + of_nat m" "m_nextDatagram c' = m_nextDatagram c + 1" "m_nextDatagram d' = m_nextDatagram d + 1"
    and h: "\<And>x. x \<noteq> m_nextDatagram d \<Longrightarrow> m_datagramHistory c x = None \<Longrightarrow> m_datagramHistory c' x = None"
      "\<And>x. x \<noteq> m_nextDatagram c \<Longrightarrow> m_datagramHistory d x = None \<Longrightarrow> m_datagramHistory d' x = None"
      "\<And>x. x \<notin> set (ids (m_nextPacket c) m) \<Longrightarrow> m_packetHistory d x = None \<Longrightarrow> m_packetHistory d' x = None"
  shows "unused n c' d' t' sb'"
  unfolding unused_def c'
proof (intro allI impI)
  fix k assume k: "k < n"
  have s: "x + 1 + of_nat k = x + of_nat (Suc k)" "x + of_nat m + of_nat k = x + of_nat (m + k)" for x :: u32 by simp_all
  have ne: "x + of_nat (Suc k) \<noteq> x" for x :: u32 using of_nat_u32 [of "Suc k" 0] k n by simp
  have fr: "m_nextPacket c + of_nat (m + k) \<notin> set (ids (m_nextPacket c) m)" by (rule ids_fresh) (use k n in simp)
  have "Suc k < m + n" "m + k < m + n" using k n by simp_all
  then have "m_datagramHistory d (m_nextDatagram c + of_nat (Suc k)) = None" "m_datagramHistory c (m_nextDatagram d + of_nat (Suc k)) = None"
    "\<forall>x \<in> set sb. od_id x \<noteq> m_nextDatagram c + of_nat (Suc k)" "m_packetHistory d (m_nextPacket c + of_nat (m + k)) = None"
    "m_nextPacket c + of_nat (m + k) \<notin> m_tracker t" using u unfolding unused_def by blast+
  with h(1,2) [OF ne] h(3) [OF fr] show "m_datagramHistory d' (m_nextDatagram c + 1 + of_nat k) = None \<and> m_packetHistory d' (m_nextPacket c + of_nat m + of_nat k) = None \<and>
      m_datagramHistory c' (m_nextDatagram d + 1 + of_nat k) = None \<and> m_nextPacket c + of_nat m + of_nat k \<notin> m_tracker t' \<and>
      (\<forall>x \<in> set sb'. od_id x \<noteq> m_nextDatagram c + 1 + of_nat k)"
    using sb t unfolding s by blast
qed

section \<open>The packets of a burst\<close>

text \<open>A message and the identifier of its packet: how it is queued, and how it stands in the datagram.\<close>

definition lined_up :: "slot \<Rightarrow> RemoteAddress \<Rightarrow> message \<times> PacketID \<Rightarrow> OutgoingPacket \<Rightarrow> bool" where
  "lined_up i addr = (\<lambda>(m, pid). queued (e_now (msg_env m)) i addr (msg_options m) 0 0 pid (enc_Packet (msg_packet m)) 0)"

definition wire_of :: "message \<times> PacketID \<Rightarrow> wire_packet" where
  "wire_of = (\<lambda>(m, pid). (segment_header (msg_options m) 0 0 pid pid (enc_Packet (msg_packet m)) 0, enc_Packet (msg_packet m)))"

definition tracked :: "(message \<times> PacketID) list \<Rightarrow> ReceiptTracker \<Rightarrow> ReceiptTracker" where
  "tracked es t = fold (\<lambda>(m, pid). tracked_message (msg_options m) pid (enc_Packet (msg_packet m))) es t"

lemma message_fits:
  assumes "message_ok m"
  shows "length (enc_Packet (msg_packet m)) = pkt_length (msg_packet m) + 1" "length (enc_Packet (msg_packet m)) \<le> CHUNK_SIZE"
    "segments (length (enc_Packet (msg_packet m))) = 1" "segment (enc_Packet (msg_packet m)) 0 = enc_Packet (msg_packet m)"
    "segment_id pid (enc_Packet (msg_packet m)) 0 = pid" "\<not> hd (enc_Packet (msg_packet m)) < USER_PACKET"
proof -
  have m: "packet_ok (msg_packet m)" "pkt_length (msg_packet m) < CHUNK_SIZE" "USER_PACKET \<le> m_command (msg_packet m)"
    using assms by (simp_all add: message_ok_def)
  show l: "length (enc_Packet (msg_packet m)) = pkt_length (msg_packet m) + 1"
    using length_enc_Packet [OF m(1)] by (simp add: GetDatagramLength_def)
  show "length (enc_Packet (msg_packet m)) \<le> CHUNK_SIZE" "segments (length (enc_Packet (msg_packet m))) = 1"
    "segment (enc_Packet (msg_packet m)) 0 = enc_Packet (msg_packet m)" "segment_id pid (enc_Packet (msg_packet m)) 0 = pid"
    using m(2) l by (simp_all add: segments_def segment_def segment_id_def CHUNK_SIZE_eq)
  show "\<not> hd (enc_Packet (msg_packet m)) < USER_PACKET" using m(3) by (simp add: enc_Packet_def not_less)
qed

lemma lined_up_wire:
  assumes q: "lined_up i addr (m, pid) out" and m: "message_ok m"
  shows "blob_bytes out = enc_packets [wire_of (m, pid)]" "m_length (op_blob out) = pkt_length (msg_packet m) + 12" "op_id out = pid"
    "wire_packet_ok (wire_of (m, pid))" "wire_id (wire_of (m, pid)) = pid"
    "pkt_length (msg_packet m) + 12 \<le> n \<Longrightarrow> user_wire n (wire_of (m, pid))"
    "length (enc_packets [wire_of (m, pid)]) = pkt_length (msg_packet m) + 12"
proof -
  let ?full = "enc_Packet (msg_packet m)"
  let ?h = "segment_header (msg_options m) 0 0 pid pid ?full 0"
  note f = message_fits [OF m]
  have w: "written (op_blob out) (enc_PacketHeader ?h @ ?full) []" "op_id out = pid"
    using q by (simp_all add: lined_up_def queued_def f(3-5))
  show "op_id out = pid" by (rule w(2))
  show "blob_bytes out = enc_packets [wire_of (m, pid)]" using w(1) by (simp add: blob_bytes_def written_def flushed_def wire_of_def)
  have h: "\<not> flag_segment ?h" "\<not> flag_jumbo ?h" "ph_offset ?h = 0" "ph_channel ?h = 0" "ph_id ?h = pid"
    using f(1-3) by (simp_all add: segment_header_def CHUNK_SIZE_eq)
  then have "length (enc_PacketHeader ?h) = 11" by (simp add: enc_PacketHeader_def be32_def be16_def)
  then show "m_length (op_blob out) = pkt_length (msg_packet m) + 12"
    "length (enc_packets [wire_of (m, pid)]) = pkt_length (msg_packet m) + 12"
    using m_length_written [OF w(1)] f(1) by (simp_all add: wire_of_def)
  have "length ?full \<le> PACKET_MAX_LENGTH" using f(2) by (simp add: CHUNK_SIZE_eq PACKET_MAX_LENGTH_def)
  from segment_header_fits(1) [OF this, of 0 "msg_options m" 0 0 pid pid] show "wire_packet_ok (wire_of (m, pid))"
    by (simp add: f(3,4) enc_Packet_nonempty wire_of_def)
  show "wire_id (wire_of (m, pid)) = pid" "pkt_length (msg_packet m) + 12 \<le> n \<Longrightarrow> user_wire n (wire_of (m, pid))"
    using h f(1,6) by (simp_all add: wire_id_def wire_of_def user_wire_def)
qed

lemma lined_up_all:
  assumes "list_all2 (lined_up i addr) es os" "\<forall>e \<in> set es. message_ok (fst e)"
  shows "concat (map blob_bytes os) = enc_packets (map wire_of es)" "blob_lengths os = messages_size (map fst es)"
    "length (enc_packets (map wire_of es)) = messages_size (map fst es)"
    "map op_id os = map snd es" "map wire_id (map wire_of es) = map snd es" "\<forall>x \<in> set (map wire_of es). wire_packet_ok x"
    "\<forall>x \<in> set (map wire_of es). user_wire (messages_size (map fst es)) x"
proof -
  have "concat (map blob_bytes os) = enc_packets (map wire_of es) \<and> blob_lengths os = messages_size (map fst es) \<and>
    length (enc_packets (map wire_of es)) = messages_size (map fst es) \<and>
    map op_id os = map snd es \<and> map wire_id (map wire_of es) = map snd es \<and> (\<forall>x \<in> set (map wire_of es). wire_packet_ok x) \<and>
    (\<forall>n \<ge> messages_size (map fst es). \<forall>x \<in> set (map wire_of es). user_wire n x)"
    using assms
  proof (induction es os rule: list_all2_induct)
    case Nil
    then show ?case by (simp add: messages_size_def)
  next
    case (Cons e es out os)
    obtain m pid where e: "e = (m, pid)" by (cases e)
    have m: "message_ok m" "lined_up i addr (m, pid) out" using Cons e by simp_all
    note l = lined_up_wire [OF m(2,1)]
    have app: "enc_packets (map wire_of (e # es)) = blob_bytes out @ enc_packets (map wire_of es)"
      using l(1) e by (simp add: enc_packets_def)
    have n: "messages_size (map fst (e # es)) = pkt_length (msg_packet m) + 12 + messages_size (map fst es)" by (simp add: e messages_size_def)
    have len: "length (blob_bytes out) = pkt_length (msg_packet m) + 12" using l(1,7) by simp
    have IH: "concat (map blob_bytes os) = enc_packets (map wire_of es) \<and> blob_lengths os = messages_size (map fst es) \<and>
      length (enc_packets (map wire_of es)) = messages_size (map fst es) \<and>
      map op_id os = map snd es \<and> map wire_id (map wire_of es) = map snd es \<and> (\<forall>x \<in> set (map wire_of es). wire_packet_ok x) \<and>
      (\<forall>n \<ge> messages_size (map fst es). \<forall>x \<in> set (map wire_of es). user_wire n x)"
      by (rule Cons.IH) (use Cons.prems in simp)
    have w: "wire_packet_ok (wire_of e)" "wire_id (wire_of e) = pid" "op_id out = pid" "snd e = pid" using l(3-5) e by simp_all
    have "user_wire n x" if "messages_size (map fst (e # es)) \<le> n" "x \<in> set (map wire_of (e # es))" for n x
      using that IH l(6) [of n] e unfolding n by auto
    then show ?case unfolding app n using IH w len l(2) by simp
  qed
  then show "concat (map blob_bytes os) = enc_packets (map wire_of es)" "blob_lengths os = messages_size (map fst es)"
    "length (enc_packets (map wire_of es)) = messages_size (map fst es)"
    "map op_id os = map snd es" "map wire_id (map wire_of es) = map snd es" "\<forall>x \<in> set (map wire_of es). wire_packet_ok x"
    "\<forall>x \<in> set (map wire_of es). user_wire (messages_size (map fst es)) x" by blast+
qed

lemma burst_datagram:
  assumes "list_all2 (lined_up i addr) es os" "\<forall>e \<in> set es. message_ok (fst e)" "es \<noteq> []" "messages_size (map fst es) + 7 \<le> MTU"
  shows "packets_datagram did os = enc_datagram (data_header True did (messages_size (map fst es))) (map wire_of es)"
    "datagram_ok (data_header True did (messages_size (map fst es))) (map wire_of es)"
    "length (packets_datagram did os) < 2 ^ 64"
proof -
  note a = lined_up_all [OF assms(1,2)]
  let ?h = "data_header True did (messages_size (map fst es))"
  show d: "packets_datagram did os = enc_datagram ?h (map wire_of es)"
    by (simp add: packets_datagram_def enc_datagram_def a(1,2))
  have "length (enc_DatagramHeader ?h) = 7" by (simp add: enc_DatagramHeader_def enc_ids_def be32_def be16_def)
  then have "length (enc_datagram ?h (map wire_of es)) = messages_size (map fst es) + 7" by (simp add: enc_datagram_def a(3))
  then show "datagram_ok ?h (map wire_of es)" "length (packets_datagram did os) < 2 ^ 64"
    using assms(3,4) a(3,6) by (auto simp: d datagram_ok_def valid_DatagramHeader_def MTU_def)
qed

text \<open>The messages in the queue, in the order in which they were sent.\<close>

lemma post_loaded:
  assumes "accepts who i p" "loaded i c t os p" "\<forall>m \<in> set ms. message_ok m" "ms \<noteq> []"
  shows "\<exists>p1 new. post who ms p = Inr (ids (m_nextPacket c) (length ms), p1) \<and>
    list_all2 (lined_up i (rp_addr (at_slot i p))) (zip ms (ids (m_nextPacket c) (length ms))) new \<and>
    loaded i (c\<lparr>m_nextPacket := m_nextPacket c + of_nat (length ms)\<rparr>) (tracked (zip ms (ids (m_nextPacket c) (length ms))) t) (os @ new) p1 \<and>
    accepts who i p1 \<and> framed i p p1 \<and> sentbox (at_slot i p1) = sentbox (at_slot i p) \<and> m_remoteLookup p1 who = Some i"
  using assms
proof (induction ms arbitrary: p c t os)
  case (Cons m ms)
  let ?c = "c\<lparr>m_nextPacket := m_nextPacket c + 1\<rparr>" and ?e = "(m, m_nextPacket c)"
  have m: "packet_ok (msg_packet m)" "pkt_length (msg_packet m) < CHUNK_SIZE" "channel_id Channel_default = 0"
    using Cons.prems(3) by (simp_all add: message_ok_def Channel_default_def)
  have i: "i < length (m_remotes p)" using Cons.prems(1) by (simp add: accepts_def)
  obtain p1 out where s: "Send (msg_env m) (msg_packet m) who (msg_options m) (msg_priority m) Channel_default p = Inr (m_nextPacket c, p1)"
    "lined_up i (rp_addr (at_slot i p)) ?e out" "loaded i ?c (tracked [?e] t) (os @ [out]) p1"
    "accepts who i p1" "framed i p p1" "sentbox (at_slot i p1) = sentbox (at_slot i p)" "m_remoteLookup p1 who = Some i"
    using Send_loaded [OF Cons.prems(1,2) m, of "msg_env m" "msg_options m" "msg_priority m"] by (auto simp: lined_up_def tracked_def)
  show ?case
  proof (cases "ms = []")
    case True
    then show ?thesis using s by (auto simp: intro!: exI [of _ "[out]"])
  next
    case False
    obtain p2 new where r: "post who ms p1 = Inr (ids (m_nextPacket c + 1) (length ms), p2)"
      "list_all2 (lined_up i (rp_addr (at_slot i p1))) (zip ms (ids (m_nextPacket c + 1) (length ms))) new"
      "loaded i (?c\<lparr>m_nextPacket := m_nextPacket c + 1 + of_nat (length ms)\<rparr>)
        (tracked (zip ms (ids (m_nextPacket c + 1) (length ms))) (tracked [?e] t)) ((os @ [out]) @ new) p2"
      "accepts who i p2" "framed i p1 p2" "sentbox (at_slot i p2) = sentbox (at_slot i p1)" "m_remoteLookup p2 who = Some i"
      using Cons.IH [OF s(4,3) _ False] Cons.prems(3) by auto
    have "tracked (zip (m # ms) (ids (m_nextPacket c) (length (m # ms)))) t =
        tracked (zip ms (ids (m_nextPacket c + 1) (length ms))) (tracked [?e] t)" by (simp add: tracked_def)
    then have "loaded i (c\<lparr>m_nextPacket := m_nextPacket c + of_nat (length (m # ms))\<rparr>)
        (tracked (zip (m # ms) (ids (m_nextPacket c) (length (m # ms)))) t) (os @ out # new) p2"
      using r(3) by (simp add: add.assoc)
    then show ?thesis using s(1,2,6) r(1,2,4,6,7) framed_trans [OF s(5) r(5) i] framed_addr [OF s(5)]
      by (intro exI [of _ p2] exI [of _ "out # new"]) simp
  qed
qed simp

section \<open>A burst and its receipts\<close>

text \<open>What the application of the sender is told.\<close>

definition receipt_of :: "PacketOptions \<Rightarrow> PacketID \<Rightarrow> Packet list" where
  "receipt_of opts pid = (if options_and opts WITH_RECEIPT then [receipt_notice (pid, True)] else [])"

definition receipts_of :: "(message \<times> PacketID) list \<Rightarrow> Packet list" where
  "receipts_of es = concat (map (\<lambda>(m, pid). receipt_of (msg_options m) pid) es)"

definition delivery_of :: "PeerID \<Rightarrow> message \<Rightarrow> Packet" where
  "delivery_of who m = packet_of who (m_command (msg_packet m)) (payload (msg_packet m))"

lemma wire_delivery: "wire_message who (wire_of e) = delivery_of who (fst e)"
  by (cases e) (simp add: wire_message_def wire_of_def delivery_of_def enc_Packet_def)

lemma tracked_receipts:
  assumes "\<forall>e \<in> set es. message_ok (fst e)" "distinct (map snd es)" "m_tracker t \<inter> set (map snd es) = {}" "m_splits t = []"
  shows "m_splits (tracked es t) = []" "m_tracker t \<subseteq> m_tracker (tracked es t)" "m_tracker (tracked es t) \<subseteq> m_tracker t \<union> set (map snd es)"
    "map receipt_notice (acked (m_tracker (tracked es t)) (map snd es)) = receipts_of es"
proof -
  have "m_splits (tracked es t) = [] \<and> m_tracker t \<subseteq> m_tracker (tracked es t) \<and> m_tracker (tracked es t) \<subseteq> m_tracker t \<union> set (map snd es) \<and>
    map receipt_notice (acked (m_tracker (tracked es t)) (map snd es)) = receipts_of es"
    using assms
  proof (induction es arbitrary: t)
    case Nil
    then show ?case by (simp add: tracked_def acked_def receipts_of_def)
  next
    case (Cons e es)
    obtain m pid where e: "e = (m, pid)" by (cases e)
    define t1 where "t1 = tracked_message (msg_options m) pid (enc_Packet (msg_packet m)) t"
    have t1: "tracked (e # es) t = tracked es t1" by (simp add: tracked_def e t1_def)
    have one: "segments (length (enc_Packet (msg_packet m))) = 1" using message_fits(3) Cons.prems(1) e by simp
    have tr: "m_splits t1 = []" "m_tracker t1 = (if options_and (msg_options m) WITH_RECEIPT then insert pid (m_tracker t) else m_tracker t)"
      using one Cons.prems(4) by (simp_all add: t1_def tracked_message_def Track_def)
    have IH: "m_splits (tracked es t1) = [] \<and> m_tracker t1 \<subseteq> m_tracker (tracked es t1) \<and> m_tracker (tracked es t1) \<subseteq> m_tracker t1 \<union> set (map snd es) \<and>
      map receipt_notice (acked (m_tracker (tracked es t1)) (map snd es)) = receipts_of es"
      by (rule Cons.IH) (use Cons.prems tr e in \<open>auto split: if_splits\<close>)
    have "pid \<in> m_tracker (tracked es t1) \<longleftrightarrow> options_and (msg_options m) WITH_RECEIPT"
      using IH Cons.prems(2,3) tr(2) e by (auto split: if_splits)
    then show ?case using IH tr(2) unfolding t1
      by (auto simp: e acked_def receipts_of_def receipt_of_def split: if_splits)
  qed
  then show "m_splits (tracked es t) = []" "m_tracker t \<subseteq> m_tracker (tracked es t)" "m_tracker (tracked es t) \<subseteq> m_tracker t \<union> set (map snd es)"
    "map receipt_notice (acked (m_tracker (tracked es t)) (map snd es)) = receipts_of es" by blast+
qed

text \<open>The acknowledgement of what is under way.\<close>

lemma under_way_acked:
  assumes u: "under_way now i c t os p p2" and ld: "loaded i c t os p" and ac: "accepts who i p" and lk: "m_remoteLookup p2 who = Some i"
    and l: "link i addr p" and t: "m_splits t = []" and o: "distinct (map op_id os)" and n: "length (packets_datagram (m_nextDatagram c) os) < 2 ^ 64"
    and a: "m_datagramHistory c a = None" "a = m_remoteDatagram c" and sb: "\<forall>x \<in> set (sentbox (at_slot i p)). od_id x \<noteq> m_nextDatagram c"
    and w: "window_ok k c" "k < 2 ^ 50" and r: "rtt_ok T c" "now \<le> e_now env" "e_now env \<le> T"
  defines "c' \<equiv> acked_window now (e_now env) (length (packets_datagram (m_nextDatagram c) os)) a c"
  shows "\<exists>p3 p4. socket_written False p2 = Inr p3 \<and>
    socket_read env False addr (enc_DatagramHeader (ack_header a [m_nextDatagram c] [])) p3 = Inr p4 \<and>
    same_link i p p4 \<and> ready i p4 \<and> accepts who i p4 \<and> m_inbox p4 = m_inbox p @ map receipt_notice (acked (m_tracker t) (map op_id os)) \<and>
    congestion (at_slot i p4) = Some c' \<and> set (sentbox (at_slot i p4)) \<subseteq> set (sentbox (at_slot i p)) \<and>
    receipt (at_slot i p4) = Some (t\<lparr>m_tracker := m_tracker t - set (map op_id os)\<rparr>)"
proof -
  let ?did = "m_nextDatagram c" and ?t = "t\<lparr>m_tracker := m_tracker t - set (map op_id os)\<rparr>"
  let ?os = "map (sent (Timestamp_plus now (GetRetransmissionRTO 0 c))) os"
  let ?c2 = "NotifySendingBytes now ?did (length (packets_datagram ?did os)) ((cleaned now c)\<lparr>m_nextDatagram := ?did + 1\<rparr>)"
  obtain sb' d where d: "sentbox (at_slot i p2) = sb' @ [d]" "set sb' \<subseteq> set (sentbox (at_slot i p))" "od_id d = ?did" "od_packets d = map op_id os"
    using u by (auto simp: under_way_def)
  have id: "map op_id ?os = map op_id os" by (simp add: sent_def)
  have i: "i < length (m_remotes p)" using l by (simp add: link_def)
  have c2: "congestion (at_slot i p2) = Some ?c2" "receipt (at_slot i p2) = Some t" "framed i p p2" "i < length (m_remotes p2)"
    "outbox (at_slot i p2) = ?os" using u i same_link_length by (auto simp: under_way_def framed_def)
  obtain p3 where p3: "socket_written False p2 = Inr p3" "at_slot i p3 = at_slot i p2" "m_inbox p3 = m_inbox p2" "same_link i p2 p3"
    "su_is_open (m_masterSocket p3)" "\<not> m_sending (m_masterSocket p3)" "m_remoteLookup p3 = m_remoteLookup p2"
    using socket_written_frame [of p2 _ _ i ?did i i] u c2(1,4) by (auto simp: under_way_def)
  have "same_link i p p2" using c2(3) by (simp add: framed_def)
  then have l3: "same_link i p p3" by (rule same_link_trans [OF _ p3(4) i])
  have h: "m_datagramHistory ?c2 a = None" "a = m_remoteDatagram ?c2"
    using cleaned_history(1) [of c a now] a by (simp_all add: NotifySendingBytes_def)
  have sb': "\<forall>x \<in> set sb'. od_id x \<noteq> od_id d" using sb d(2,3) by auto
  have s3: "congestion (at_slot i p3) = Some ?c2" "receipt (at_slot i p3) = Some t" "sentbox (at_slot i p3) = sb' @ [d]"
    "outbox (at_slot i p3) = ?os" "od_packets d = map op_id ?os" "distinct (map op_id ?os)"
    unfolding id using c2 p3(2) d(1,4) o by simp_all
  have cw: "NotifyReceivedAck (e_now env) ?did (noted_ackgram (e_now env) a ?c2) = c'" by (simp add: c'_def acked_window_def)
  obtain p4 where p4: "socket_read env False addr (enc_DatagramHeader (ack_header a [?did] [])) p3 = Inr p4" "same_link i p3 p4"
    "m_inbox p4 = m_inbox p3 @ map receipt_notice (acked (m_tracker t) (map op_id os))" "congestion (at_slot i p4) = Some c'"
    "receipt (at_slot i p4) = Some ?t" "outbox (at_slot i p4) = []" "sentbox (at_slot i p4) = sb'"
    "same_connection (at_slot i p3\<lparr>receipt := receipt (at_slot i p4)\<rparr>) (at_slot i p4)"
    "m_sending (m_masterSocket p4) = m_sending (m_masterSocket p3)" "su_is_open (m_masterSocket p4) = su_is_open (m_masterSocket p3)"
    "m_remoteLookup p4 = m_remoteLookup p3"
    using ack_arrives [OF link_same [OF l l3] s3(1) h s3(3) sb' s3(5,2) t s3(4,6), of env, unfolded d(3) id cw] by (elim exE conjE) (rule that, assumption+)
  have p4': "\<not> m_sending (m_masterSocket p4)" "su_is_open (m_masterSocket p4)" "m_remoteLookup p4 who = Some i"
    using p4(9-11) p3(5-7) lk by simp_all
  have l4: "same_link i p p4" by (rule same_link_trans [OF l3 p4(2) i])
  have sc: "same_connection (at_slot i p\<lparr>receipt := receipt (at_slot i p4)\<rparr>) (at_slot i p4)"
    using c2(3) p3(2) p4(8) by (simp add: framed_def same_connection_def)
  have "running i p" using ld by (simp add: loaded_def)
  then have run: "running i p4" by (rule running_same [OF _ sc same_link_length [OF l4] _ _ p4'(2)]) (simp_all add: p4(4,5))
  have idle: "m_bytesInFlight c = 0" "cc_outgoing c = []" "m_acks c = []" "m_nacks c = []" using ld by (auto simp: loaded_def idle_window_def)
  note f = acked_window_fields [OF idle n a w r, folded c'_def]
  have "\<forall>x \<in> set sb'. od_packets x = []" using ld d(2) by (auto simp: loaded_def)
  then have "ready i p4" using run ld l4 sc p4(4-7) p4' f(1-4,9)
    by (auto simp: ready_def loaded_def same_connection_def window_ok_def same_link_def)
  moreover have "accepts who i p4" using ac sc p4(4,5) p4' same_link_length [OF l4]
    by (auto simp: accepts_def same_connection_def IsDisconnecting_def fst_GetRemoteByID)
  moreover have "m_inbox p4 = m_inbox p @ map receipt_notice (acked (m_tracker t) (map op_id os))" using c2(3) p3(3) p4(3) by (simp add: framed_def)
  ultimately show ?thesis using p3(1) p4(1,4,5,7) l4 d(2) by auto
qed

text \<open>The first half: the messages are on their way.\<close>

lemma burst_leaves:
  assumes st: "in_step n T i addrA who j addrB p q" and ms: "messages_ok (e_now env) ms" and now: "e_now env \<le> T" "T \<le> 2 ^ 58"
    and c: "congestion (at_slot i p) = Some c" and t: "receipt (at_slot i p) = Some t"
  defines "es \<equiv> zip ms (ids (m_nextPacket c) (length ms))" and "c1 \<equiv> c\<lparr>m_nextPacket := m_nextPacket c + of_nat (length ms)\<rparr>"
  shows "\<exists>p1 p2 os. post who ms p = Inr (ids (m_nextPacket c) (length ms), p1) \<and> pass env i p1 = Inr p2 \<and>
    list_all2 (lined_up i addrB) es os \<and> loaded i c1 (tracked es t) os p1 \<and> accepts who i p1 \<and> framed i p p1 \<and>
    sentbox (at_slot i p1) = sentbox (at_slot i p) \<and> under_way (e_now env) i c1 (tracked es t) os p1 p2 \<and> m_remoteLookup p2 who = Some i"
proof -
  have p: "ready i p" "accepts who i p" "rp_addr (at_slot i p) = addrB" "rtt_ok T c" using st c by (auto simp: in_step_def)
  have l: "loaded i c t [] p" using p(1) c t by (auto simp: ready_iff loaded_def)
  have m: "\<forall>m \<in> set ms. message_ok m" "ms \<noteq> []" "messages_size ms + 7 \<le> MTU" using ms by (auto simp: messages_ok_def)
  obtain p1 os where s: "post who ms p = Inr (ids (m_nextPacket c) (length ms), p1)" "list_all2 (lined_up i addrB) es os"
    "loaded i c1 (tracked es t) os p1" "accepts who i p1" "framed i p p1" "sentbox (at_slot i p1) = sentbox (at_slot i p)"
    "m_remoteLookup p1 who = Some i"
    using post_loaded [OF p(2) l m(1,2)] p(3) by (auto simp: es_def c1_def)
  have es: "\<forall>e \<in> set es. message_ok (fst e) \<and> e_now (msg_env (fst e)) \<le> e_now env" "map fst es = ms"
    using ms by (auto simp: es_def messages_ok_def dest: set_zip_leftD)
  have len: "length os = length es" "os \<noteq> []" using list_all2_lengthD [OF s(2)] m(2) by (auto simp: es_def)
  have os: "(sendable (e_now env) x \<and> blob_ok x \<and> HasFlag RELIABLE x) \<and> op_addr x = addrB" if x: "x \<in> set os" for x
  proof -
    obtain k where k: "k < length es" "x = os ! k" using x len by (auto simp: in_set_conv_nth)
    obtain m pid where e: "es ! k = (m, pid)" by (cases "es ! k")
    have "lined_up i addrB (m, pid) x" using list_all2_nthD [OF s(2) k(1)] k(2) e by simp
    then have q: "queued (e_now (msg_env m)) i addrB (msg_options m) 0 0 pid (enc_Packet (msg_packet m)) 0 x" by (simp add: lined_up_def)
    have mk: "message_ok m" "e_now (msg_env m) \<le> e_now env" using es(1) nth_mem [OF k(1)] e by force+
    have "(msg_options m AND RELIABLE) = RELIABLE" using mk(1) by (simp add: message_ok_def)
    note qs = queued_sendable [OF q message_fits(2) [OF mk(1)] enc_Packet_nonempty this mk(2)]
    show ?thesis using qs(1,2) by blast
  qed
  have "blob_lengths os \<le> MTU" using lined_up_all(2) [OF s(2)] es m(3) by simp
  moreover have "e_now env < Timestamp_plus (e_now env) (GetRetransmissionRTO 0 c1)"
    using rtt_ok_RTO [OF p(4) now(2,1)] by (simp add: c1_def RTO_nextPacket)
  moreover have "op_addr (hd os) = rp_addr (at_slot i p1)" using os [of "hd os"] len(2) framed_addr [OF s(5)] p(3) by simp
  ultimately obtain p2 where "pass env i p1 = Inr p2" "under_way (e_now env) i c1 (tracked es t) os p1 p2" "m_remoteLookup p2 = m_remoteLookup p1"
    using loaded_leaves [OF s(3) len(2)] os by blast
  then show ?thesis using s by auto
qed

text \<open>The second half: the datagram is read and acknowledged, and the acknowledgement is read.\<close>

lemma burst_read:
  assumes os: "list_all2 (lined_up i addr') es os" and es: "\<forall>e \<in> set es. message_ok (fst e)" "es \<noteq> []" "messages_size (map fst es) + 7 \<le> MTU"
    "distinct (map snd es)" and l: "link j addr q" "listening j q" and c: "congestion (at_slot j q) = Some c"
    and new: "m_datagramHistory c did = None" "did = m_remoteDatagram c" "\<forall>k \<in> set (map snd es). m_packetHistory c k = None"
    and t: "e_now env + FromMilliseconds 10 \<le> e_now env'" "e_now env' < 2 ^ 64"
  shows "\<exists>q1 q2 q3. socket_read env False addr (packets_datagram did os) q = Inr q1 \<and> pass env' j q1 = Inr q2 \<and>
    su_write (m_masterSocket q2) =
      Some (rp_addr (at_slot j q), enc_DatagramHeader (ack_header (m_nextDatagram c) [did] []), (j, m_nextDatagram c)) \<and>
    socket_written False q2 = Inr q3 \<and> same_link j q q3 \<and> listening j q3 \<and>
    m_inbox q3 = m_inbox q @ map (delivery_of (rp_id (at_slot j q))) (map fst es) \<and>
    congestion (at_slot j q3) = Some (acking_window (e_now env) (e_now env') 10 did (map snd es) c)"
proof -
  note la = lined_up_all [OF os es(1)] and bd = burst_datagram [OF os es(1-3), of did]
  have "\<forall>e \<in> set es. wire_id (wire_of e) = snd e" using la(5) by simp
  then have "\<forall>y \<in> set (map wire_of es). m_packetHistory c (wire_id y) = None" using new(3) by auto
  from wires_acked [OF bd(2) la(7) es(4) [folded la(5)] l c new(1,2) this t, unfolded la(5)]
  show ?thesis by (simp add: bd(1) wire_delivery o_def)
qed

lemma burst_receipted:
  assumes u: "under_way now i c (tracked es t) os p p2" "loaded i c (tracked es t) os p" "accepts who i p" "m_remoteLookup p2 who = Some i" "link i addr p"
    and es: "list_all2 (lined_up i addr') es os" "\<forall>e \<in> set es. message_ok (fst e)" "es \<noteq> []" "messages_size (map fst es) + 7 \<le> MTU"
    and ids: "distinct (map snd es)" "\<forall>k \<in> set (map snd es). k \<notin> m_tracker t" "m_splits t = []"
    and a: "m_datagramHistory c a = None" "a = m_remoteDatagram c" and sb: "\<forall>x \<in> set (sentbox (at_slot i p)). od_id x \<noteq> m_nextDatagram c"
    and w: "window_ok k c" "k < 2 ^ 50" and r: "rtt_ok T c" "now \<le> e_now env" "e_now env \<le> T"
  shows "\<exists>p3 p4 t' n. socket_written False p2 = Inr p3 \<and>
    socket_read env False addr (enc_DatagramHeader (ack_header a [m_nextDatagram c] [])) p3 = Inr p4 \<and>
    same_link i p p4 \<and> ready i p4 \<and> accepts who i p4 \<and> m_inbox p4 = m_inbox p @ receipts_of es \<and>
    congestion (at_slot i p4) = Some (acked_window now (e_now env) n a c) \<and> n < 2 ^ 64 \<and>
    set (sentbox (at_slot i p4)) \<subseteq> set (sentbox (at_slot i p)) \<and>
    receipt (at_slot i p4) = Some t' \<and> m_splits t' = [] \<and> m_tracker t' \<subseteq> m_tracker t"
proof -
  note la = lined_up_all [OF es(1,2)] and bd = burst_datagram [OF es, of "m_nextDatagram c"]
  have "m_tracker t \<inter> set (map snd es) = {}" using ids(2) by auto
  note tr = tracked_receipts [OF es(2) ids(1) this ids(3)]
  have "distinct (map op_id os)" using ids(1) la(4) by simp
  note ua = under_way_acked [OF u tr(1) this bd(3) a sb w r, unfolded la(4) tr(4)]
  show ?thesis using ua bd(3) tr(1,3) by (elim exE conjE) (intro exI conjI, assumption+, auto)
qed

text \<open>The whole loop, with the congestion control of both sides after it.\<close>

lemma burst_carried:
  assumes p: "in_step (length ms + n) T i addrA who j addrB p q" and ms: "messages_ok (e_now (x_write x)) ms" and x: "times_ok T x"
    and T: "T \<le> 2 ^ 58" and c: "congestion (at_slot i p) = Some c" and d: "congestion (at_slot j q) = Some d"
      "receipt (at_slot i p) = Some t" "m_splits t = []" "m_remoteDatagram d = m_nextDatagram c" "m_remoteDatagram c = m_nextDatagram d"
    and w: "window_ok k c" "k < 2 ^ 50" "rtt_ok T c" and un: "unused (length ms + n) c d t (sentbox (at_slot i p))"
  defines "c1 \<equiv> c\<lparr>m_nextPacket := m_nextPacket c + of_nat (length ms)\<rparr>" and "pids \<equiv> ids (m_nextPacket c) (length ms)"
  shows "\<exists>p1 p' q' t' N. post who ms p = Inr (pids, p1) \<and> settle i addrA j addrB x p1 q = Inr (p', q') \<and>
    same_link i p p' \<and> ready i p' \<and> accepts who i p' \<and> m_inbox p' = m_inbox p @ receipts_of (zip ms pids) \<and>
    congestion (at_slot i p') = Some (acked_window (e_now (x_write x)) (e_now (x_acked x)) N (m_nextDatagram d) c1) \<and> N < 2 ^ 64 \<and>
    set (sentbox (at_slot i p')) \<subseteq> set (sentbox (at_slot i p)) \<and>
    receipt (at_slot i p') = Some t' \<and> m_splits t' = [] \<and> m_tracker t' \<subseteq> m_tracker t \<and>
    same_link j q q' \<and> listening j q' \<and> m_inbox q' = m_inbox q @ map (delivery_of (rp_id (at_slot j q))) ms \<and>
    congestion (at_slot j q') = Some (acking_window (e_now (x_read x)) (e_now (x_ack x)) 10 (m_nextDatagram c) pids d)"
proof -
  let ?did = "m_nextDatagram c" and ?m = "length ms"
  define es where "es = zip ms pids"
  have st: "link i addrB p" "rp_addr (at_slot i p) = addrB" "listening j q" "link j addrA q" "rp_addr (at_slot j q) = addrA" "?m + n \<le> 2 ^ 32"
    using p by (simp_all add: in_step_def)
  have tm: "e_now (x_write x) \<le> e_now (x_acked x)" "e_now (x_acked x) \<le> T" "e_now (x_write x) \<le> T"
      "e_now (x_read x) + FromMilliseconds 10 \<le> e_now (x_ack x)" "e_now (x_ack x) < 2 ^ 64"
    using x by (auto simp: times_ok_def)
  have es: "map fst es = ms" "map snd es = pids" "length es = ?m" by (simp_all add: es_def pids_def)
  have m: "0 < ?m + n" "es \<noteq> []" using ms es(3) by (auto simp: messages_ok_def)
  have ok: "\<forall>e \<in> set es. message_ok (fst e)" "messages_size (map fst es) + 7 \<le> MTU" "distinct (map snd es)"
    using ms st(6) es distinct_ids [of ?m "m_nextPacket c"] by (auto simp: messages_ok_def pids_def [symmetric] es_def dest: set_zip_leftD)
  note fr = unused_first [OF un m(1)] and fi = unused_ids [OF un, folded pids_def es(2)]
  have fi': "\<forall>k \<in> set (map snd es). m_packetHistory d k = None" "\<forall>k \<in> set (map snd es). k \<notin> m_tracker t" using fi by auto
  from burst_leaves [OF p ms tm(3) T c d(2), folded pids_def es_def c1_def] obtain p1 p2 os where
    s: "post who ms p = Inr (pids, p1)" "pass (x_write x) i p1 = Inr p2" "list_all2 (lined_up i addrB) es os"
      "loaded i c1 (tracked es t) os p1" "accepts who i p1" "framed i p p1" "sentbox (at_slot i p1) = sentbox (at_slot i p)"
      "under_way (e_now (x_write x)) i c1 (tracked es t) os p1 p2" "m_remoteLookup p2 who = Some i" by blast
  from burst_read [OF s(3) ok(1) m(2) ok(2,3) st(4,3) d(1) fr(1) d(4) [symmetric] fi'(1) tm(4,5)] obtain q1 q2 q3 where
    r: "socket_read (x_read x) False addrA (packets_datagram ?did os) q = Inr q1" "pass (x_ack x) j q1 = Inr q2"
      "su_write (m_masterSocket q2) = Some (addrA, enc_DatagramHeader (ack_header (m_nextDatagram d) [?did] []), (j, m_nextDatagram d))"
      "socket_written False q2 = Inr q3" "same_link j q q3" "listening j q3"
      "m_inbox q3 = m_inbox q @ map (delivery_of (rp_id (at_slot j q))) ms"
      "congestion (at_slot j q3) = Some (acking_window (e_now (x_read x)) (e_now (x_ack x)) 10 ?did pids d)"
    unfolding es(1,2) st(5) by blast
  have c1: "m_nextDatagram c1 = ?did" "window_ok k c1" "rtt_ok T c1" using w by (simp_all add: c1_def window_ok_def rtt_ok_def)
  have sl: "same_link i p p1" "m_inbox p1 = m_inbox p" "i < length (m_remotes p)" using s(6) st(1) by (simp_all add: framed_def link_def)
  have a: "m_datagramHistory c1 (m_nextDatagram d) = None" "m_nextDatagram d = m_remoteDatagram c1"
    "\<forall>x \<in> set (sentbox (at_slot i p1)). od_id x \<noteq> m_nextDatagram c1" using fr(2,3) d(5) s(7) by (simp_all add: c1_def)
  obtain p3 p4 t' N where b: "socket_written False p2 = Inr p3"
      "socket_read (x_acked x) False addrB (enc_DatagramHeader (ack_header (m_nextDatagram d) [?did] [])) p3 = Inr p4"
      "same_link i p1 p4" "ready i p4" "accepts who i p4" "m_inbox p4 = m_inbox p @ receipts_of es"
      "congestion (at_slot i p4) = Some (acked_window (e_now (x_write x)) (e_now (x_acked x)) N (m_nextDatagram d) c1)" "N < 2 ^ 64"
      "set (sentbox (at_slot i p4)) \<subseteq> set (sentbox (at_slot i p))"
      "receipt (at_slot i p4) = Some t'" "m_splits t' = []" "m_tracker t' \<subseteq> m_tracker t"
    using burst_receipted [OF s(8,4,5,9) link_same [OF st(1) sl(1)] s(3) ok(1) m(2) ok(2,3) fi'(2) d(3) a c1(2) w(2) c1(3) tm(1,2)]
    unfolding c1(1) s(7) sl(2) by blast
  have "su_write (m_masterSocket p2) = Some (addrB, packets_datagram ?did os, (i, ?did))"
    using s(8) st(2) framed_addr [OF s(6)] by (simp add: under_way_def c1(1))
  then have "settle i addrA j addrB x p1 q = Inr (p4, q3)" using s(2) b(1,2) r(1-4) by (simp add: settle_def carry_def)
  then show ?thesis using s(1) b r(5-8) same_link_trans [OF sl(1) b(3) sl(3)] unfolding es_def by blast
qed

lemma burst_settles:
  assumes st: "in_step (length ms + n) T i addrA who j addrB p q" and ms: "messages_ok (e_now (x_write x)) ms" and x: "times_ok T x"
    and T: "T \<le> 2 ^ 58" and c: "congestion (at_slot i p) = Some c"
  shows "\<exists>p1 p' q' c'. post who ms p = Inr (ids (m_nextPacket c) (length ms), p1) \<and>
    settle i addrA j addrB x p1 q = Inr (p', q') \<and> in_step n T i addrA who j addrB p' q' \<and>
    m_inbox q' = m_inbox q @ map (delivery_of (rp_id (at_slot j q))) ms \<and>
    m_inbox p' = m_inbox p @ receipts_of (zip ms (ids (m_nextPacket c) (length ms))) \<and> rp_id (at_slot j q') = rp_id (at_slot j q) \<and>
    congestion (at_slot i p') = Some c' \<and> m_nextPacket c' = m_nextPacket c + of_nat (length ms)"
proof -
  let ?did = "m_nextDatagram c" and ?m = "length ms" and ?ids = "ids (m_nextPacket c) (length ms)"
  let ?c1 = "c\<lparr>m_nextPacket := m_nextPacket c + of_nat ?m\<rparr>"
  obtain d t k where p: "ready i p" "link i addrB p" "rp_addr (at_slot i p) = addrB"
    and q: "link j addrA q" "rp_addr (at_slot j q) = addrA"
    and d: "congestion (at_slot j q) = Some d" "receipt (at_slot i p) = Some t" "m_splits t = []" "m_remoteDatagram d = ?did"
      "m_remoteDatagram c = m_nextDatagram d" and w: "window_ok k c" "k + (?m + n) \<le> 2 ^ 50" "rtt_ok T c"
    and un: "unused (?m + n) c d t (sentbox (at_slot i p))" and n: "?m + n \<le> 2 ^ 32"
    using st c unfolding in_step_def by auto
  have m: "0 < ?m" "0 < ?m + n" and tm: "e_now (x_write x) \<le> e_now (x_acked x)" "e_now (x_acked x) \<le> T"
    using ms x by (auto simp: messages_ok_def times_ok_def)
  have k: "k < 2 ^ 50" "Suc k + n \<le> 2 ^ 50" using w(2) m(1) by linarith+
  obtain p1 p' q' t' N where b: "post who ms p = Inr (?ids, p1)" "settle i addrA j addrB x p1 q = Inr (p', q')"
    "same_link i p p'" "ready i p'" "accepts who i p'" "m_inbox p' = m_inbox p @ receipts_of (zip ms ?ids)"
    "congestion (at_slot i p') = Some (acked_window (e_now (x_write x)) (e_now (x_acked x)) N (m_nextDatagram d) ?c1)" "N < 2 ^ 64"
    "set (sentbox (at_slot i p')) \<subseteq> set (sentbox (at_slot i p))"
    "receipt (at_slot i p') = Some t'" "m_splits t' = []" "m_tracker t' \<subseteq> m_tracker t"
    "same_link j q q'" "listening j q'" "m_inbox q' = m_inbox q @ map (delivery_of (rp_id (at_slot j q))) ms"
    "congestion (at_slot j q') = Some (acking_window (e_now (x_read x)) (e_now (x_ack x)) 10 ?did ?ids d)"
    using burst_carried [OF st ms x T c d w(1) k(1) w(3) un] by blast
  define c' where "c' = acked_window (e_now (x_write x)) (e_now (x_acked x)) N (m_nextDatagram d) ?c1"
  note fr = unused_first [OF un m(2)]
  have c1: "m_bytesInFlight ?c1 = 0" "cc_outgoing ?c1 = []" "m_acks ?c1 = []" "m_nacks ?c1 = []"
    "m_datagramHistory ?c1 (m_nextDatagram d) = None" "m_nextDatagram d = m_remoteDatagram ?c1" "window_ok k ?c1" "rtt_ok T ?c1"
    using w p(1) c fr(2) d(5) by (auto simp: window_ok_def rtt_ok_def ready_def)
  note f = acked_window_fields [OF c1(1-4) b(8) c1(5-7) k(1) c1(8) tm, folded c'_def, simplified]
  note g = acking_window_fields [OF fr(1) d(4) [symmetric]]
  have "unused n c' (acking_window (e_now (x_read x)) (e_now (x_ack x)) 10 ?did ?ids d) t' (sentbox (at_slot i p'))"
    by (rule unused_next [OF un n m(1) b(9,12) f(5,6) g(4) f(8) g(5,6)])
  moreover have same: "rp_addr (at_slot i p') = addrB" "rp_addr (at_slot j q') = addrA" "rp_id (at_slot j q') = rp_id (at_slot j q)"
    using b(3,13) p q by (auto simp: same_link_def link_def at_slot_def)
  ultimately have "in_step n T i addrA who j addrB p' q'"
    using n k(2) unfolding in_step_def
    by (intro conjI exI [of _ c'] exI [of _ "acking_window _ _ _ _ _ _"] exI [of _ t'] exI [of _ "Suc k"])
      (simp_all add: b(4,5,7,10,11,14,16) f(6,7,9,10) g(3,4) link_same [OF p(2) b(3)] link_same [OF q(1) b(13)] c'_def [symmetric])
  then show ?thesis using b(1,2,6,7,15) same(3) f(5) by (auto simp: c'_def [symmetric])
qed

lemma conversation_step:
  assumes "in_step (length (x_messages x) + n) T i addrA who j addrB p q" "burst_ok T x" "T \<le> 2 ^ 58" "congestion (at_slot i p) = Some c"
  shows "\<exists>p' q' c'. exchange i addrA who j addrB x (pids, p, q) = Inr (pids @ ids (m_nextPacket c) (length (x_messages x)), p', q') \<and>
    in_step n T i addrA who j addrB p' q' \<and> m_inbox q' = m_inbox q @ map (delivery_of (rp_id (at_slot j q))) (x_messages x) \<and>
    m_inbox p' = m_inbox p @ receipts_of (zip (x_messages x) (ids (m_nextPacket c) (length (x_messages x)))) \<and>
    rp_id (at_slot j q') = rp_id (at_slot j q) \<and> congestion (at_slot i p') = Some c' \<and>
    m_nextPacket c' = m_nextPacket c + of_nat (length (x_messages x))"
proof -
  have "messages_ok (e_now (x_write x)) (x_messages x)" "times_ok T x" using assms(2) by (simp_all add: burst_ok_def)
  from burst_settles [OF assms(1) this assms(3,4)] show ?thesis by (auto simp: exchange_def)
qed

lemma conversation_runs:
  assumes "in_step (length (concat (map x_messages xs))) T i addrA who j addrB p q" "\<forall>x \<in> set xs. burst_ok T x" "T \<le> 2 ^ 58"
    "congestion (at_slot i p) = Some c"
  defines "ms \<equiv> concat (map x_messages xs)"
  shows "\<exists>p' q'. rfold (exchange i addrA who j addrB) xs (pids, p, q) = Inr (pids @ ids (m_nextPacket c) (length ms), p', q') \<and>
    in_step 0 T i addrA who j addrB p' q' \<and> m_inbox q' = m_inbox q @ map (delivery_of (rp_id (at_slot j q))) ms \<and>
    m_inbox p' = m_inbox p @ receipts_of (zip ms (ids (m_nextPacket c) (length ms)))"
  unfolding ms_def using assms(1-4)
proof (induction xs arbitrary: pids p q c)
  case Nil
  then show ?case by (simp add: receipts_of_def)
next
  case (Cons x xs)
  let ?m = "x_messages x" and ?ms = "concat (map x_messages xs)"
  have st: "in_step (length ?m + length ?ms) T i addrA who j addrB p q" "burst_ok T x" using Cons.prems by simp_all
  obtain p1 q1 c1 where b: "exchange i addrA who j addrB x (pids, p, q) = Inr (pids @ ids (m_nextPacket c) (length ?m), p1, q1)"
    "in_step (length ?ms) T i addrA who j addrB p1 q1" "m_inbox q1 = m_inbox q @ map (delivery_of (rp_id (at_slot j q))) ?m"
    "m_inbox p1 = m_inbox p @ receipts_of (zip ?m (ids (m_nextPacket c) (length ?m)))"
    "rp_id (at_slot j q1) = rp_id (at_slot j q)" "congestion (at_slot i p1) = Some c1" "m_nextPacket c1 = m_nextPacket c + of_nat (length ?m)"
    using conversation_step [OF st Cons.prems(3,4), of pids] by blast
  have "\<forall>x \<in> set xs. burst_ok T x" using Cons.prems(2) by simp
  from Cons.IH [OF b(2) this Cons.prems(3) b(6), of "pids @ ids (m_nextPacket c) (length ?m)", unfolded b(5,7)] obtain p' q' where
    r: "rfold (exchange i addrA who j addrB) xs (pids @ ids (m_nextPacket c) (length ?m), p1, q1) =
        Inr ((pids @ ids (m_nextPacket c) (length ?m)) @ ids (m_nextPacket c + of_nat (length ?m)) (length ?ms), p', q')"
      "in_step 0 T i addrA who j addrB p' q'" "m_inbox q' = m_inbox q1 @ map (delivery_of (rp_id (at_slot j q))) ?ms"
      "m_inbox p' = m_inbox p1 @ receipts_of (zip ?ms (ids (m_nextPacket c + of_nat (length ?m)) (length ?ms)))" by blast
  have "zip (?m @ ?ms) (ids (m_nextPacket c) (length ?m + length ?ms)) =
      zip ?m (ids (m_nextPacket c) (length ?m)) @ zip ?ms (ids (m_nextPacket c + of_nat (length ?m)) (length ?ms))"
    by (simp add: ids_append)
  then show ?case using b(1,3,4) r by (simp add: ids_append receipts_of_def)
qed

text \<open>
  C4.  One peer talks to another in bursts: it sends any number of reliable messages over the default channel that fit into
  one datagram together, one pass writes them, the network carries the datagram, and the next burst begins when the acknowledgement has come back.
  Every message of every burst is delivered exactly once and in the order of the calls of \<open>Send\<close>, with its command
  and payload unchanged.  Each message sent with a receipt request posts exactly one receipt, carrying the identifier \<open>Send\<close> returned for
  that message, also in this order.  Afterwards nothing is queued, nothing is in flight and no acknowledgement is owed at the sender.
  (When more is queued than one datagram holds, the datagram is filled with whatever still fits, so a small message may pass a
  large one; the order is a property of such bursts and not of unordered traffic in general.)
\<close>

theorem conversation_delivers:
  assumes "in_step (length (concat (map x_messages xs))) T i addrA who j addrB p q" "\<forall>x \<in> set xs. burst_ok T x" "T \<le> 2 ^ 58"
    "congestion (at_slot i p) = Some c"
  shows "\<exists>pids p' q' c'. rfold (exchange i addrA who j addrB) xs ([], p, q) = Inr (pids, p', q') \<and>
    pids = ids (m_nextPacket c) (length (concat (map x_messages xs))) \<and> distinct pids \<and>
    m_inbox q' = m_inbox q @ map (\<lambda>m. packet_of (rp_id (at_slot j q)) (m_command (msg_packet m)) (payload (msg_packet m)))
      (concat (map x_messages xs)) \<and>
    m_inbox p' = m_inbox p @ concat (map (\<lambda>(m, pid). receipt_of (msg_options m) pid) (zip (concat (map x_messages xs)) pids)) \<and>
    outbox (at_slot i p') = [] \<and> congestion (at_slot i p') = Some c' \<and> m_bytesInFlight c' = 0 \<and> cc_outgoing c' = [] \<and> m_acks c' = []"
proof -
  let ?n = "length (concat (map x_messages xs))"
  obtain p' q' where r: "rfold (exchange i addrA who j addrB) xs ([], p, q) = Inr (ids (m_nextPacket c) ?n, p', q')"
    "in_step 0 T i addrA who j addrB p' q'" "m_inbox q' = m_inbox q @ map (delivery_of (rp_id (at_slot j q))) (concat (map x_messages xs))"
    "m_inbox p' = m_inbox p @ receipts_of (zip (concat (map x_messages xs)) (ids (m_nextPacket c) ?n))"
    using conversation_runs [OF assms, of "[]"] by auto
  have "?n \<le> 2 ^ 32" using assms(1) by (simp add: in_step_def)
  then have "distinct (ids (m_nextPacket c) ?n)" by (rule distinct_ids)
  moreover obtain c' where "outbox (at_slot i p') = []" "congestion (at_slot i p') = Some c'" "m_bytesInFlight c' = 0" "cc_outgoing c' = []"
    "m_acks c' = []" using r(2) by (auto simp: in_step_def ready_def)
  moreover have "delivery_of who = (\<lambda>m. packet_of who (m_command (msg_packet m)) (payload (msg_packet m)))" for who
    by (simp add: delivery_of_def fun_eq_iff)
  ultimately show ?thesis using r(1,3,4) unfolding receipts_of_def by (intro exI conjI) simp_all
qed

text \<open>One message, as its own burst.\<close>

lemma turn_settles:
  assumes "in_step (Suc n) T i addrA who j addrB p q" "turn_ok T x" "T \<le> 2 ^ 58" "congestion (at_slot i p) = Some c"
  shows "\<exists>p1 p' q'. Send (x_send x) (x_packet x) who (x_options x) (x_priority x) Channel_default p = Inr (m_nextPacket c, p1) \<and>
    settle i addrA j addrB x p1 q = Inr (p', q') \<and>
    m_inbox q' = m_inbox q @ [packet_of (rp_id (at_slot j q)) (m_command (x_packet x)) (payload (x_packet x))]"
proof -
  have "times_ok T x" using assms(2) by (simp add: turn_ok_def)
  from burst_settles [OF _ turn_messages_ok [OF assms(2)] this assms(3,4)] assms(1) show ?thesis
    by (fastforce simp: turn_message_def delivery_of_def)
qed

lemma message_sent:
  assumes st: "in_step n T i addrA who j addrB p q" and ok: "packet_ok packet" "pkt_length packet < CHUNK_SIZE"
    and rel: "(opts AND RELIABLE) = RELIABLE" and now: "e_now env \<le> e_now env'" "e_now env' \<le> T" "T \<le> 2 ^ 58"
    and c: "congestion (at_slot i p) = Some c"
  shows "\<exists>p1 p2 out. Send env packet who opts prio Channel_default p = Inr (m_nextPacket c, p1) \<and> pass env' i p1 = Inr p2 \<and>
    queued (e_now env) i addrB opts 0 0 (m_nextPacket c) (enc_Packet packet) 0 out \<and>
    su_write (m_masterSocket p2) = Some (addrB, packet_datagram (m_nextDatagram c) out, (i, m_nextDatagram c)) \<and>
    (\<exists>p3. socket_written False p2 = Inr p3)"
proof -
  obtain t where p: "ready i p" "accepts who i p" "rp_addr (at_slot i p) = addrB" "rtt_ok T c" "receipt (at_slot i p) = Some t"
    using st c by (auto simp: in_step_def)
  have "e_now env' < Timestamp_plus (e_now env') (GetRetransmissionRTO 0 c)" by (rule rtt_ok_RTO [OF p(4) now(3,2)])
  from message_leaves [OF p(2,1) c p(5) ok _ rel now(1) this, of Channel_default prio] p(3) show ?thesis
    by (fastforce simp: Channel_default_def under_way_def packets_datagram_single socket_written_ok)
qed

section \<open>Examples\<close>

lemma example_in_step:
  assumes "me \<noteq> 0" "other \<noteq> 0" "n \<le> 2 ^ 32"
  shows "in_step n T 1 a other 1 b (example_peer me other b) (example_peer other me a)"
proof -
  let ?p = "example_peer me other b" and ?q = "example_peer other me a" and ?c = "CongestionControlWindow_new 0"
  have "listening 1 ?q" using example_ready [OF assms(1), of other a] example_congestion [of other me a] example_window [of 0]
    by (auto simp: listening_def ready_def)
  moreover have "receipt (at_slot 1 ?p) = Some ReceiptTracker_new" "sentbox (at_slot 1 ?p) = []"
    by (simp_all add: example_peer_def at_slot_def RemotePeer_new_def)
  moreover have "window_ok 1 ?c" "rtt_ok T ?c" using example_window [of 0]
    by (simp_all add: window_ok_def rtt_ok_def CongestionControlWindow_new_def CongestionControl_new_def CongestionControl.extend_def
        CongestionControlWindow.fields_def MTU_def CONGESTION_WINDOW_SSTHRESH_def)
  moreover have "unused n ?c ?c ReceiptTracker_new []"
    by (simp add: unused_def ReceiptTracker_new_def CongestionControlWindow_new_def CongestionControl_new_def CongestionControl.extend_def)
  moreover have "1 + n \<le> 2 ^ 50" using assms(3) by simp
  ultimately show ?thesis
    using assms example_ready [OF assms(2), of me b] example_accepts [OF assms(2), of me b] example_linked example_congestion
      example_window(9) [of 0] unfolding in_step_def example_fields by (auto simp: example_fields ReceiptTracker_new_def)
qed

definition example_timing :: "Timestamp \<Rightarrow> timing" where
  "example_timing t = \<lparr>x_write = example_env (t + 1), x_read = example_env (t + 2), x_ack = example_env (t + 20000000),
     x_acked = example_env (t + 20000001)\<rparr>"

definition example_turn :: "Timestamp \<Rightarrow> u8 list \<Rightarrow> PacketOptions \<Rightarrow> turn" where
  "example_turn t bs opts = timing.extend (example_timing t) (turn.fields (example_env t) (packet_of 0 20 bs) opts MEDIUM)"

definition example_burst :: "Timestamp \<Rightarrow> (u8 list \<times> PacketOptions) list \<Rightarrow> burst" where
  "example_burst t ms = timing.extend (example_timing t) (burst.fields (map (\<lambda>(bs, opts).
     \<lparr>msg_env = example_env t, msg_packet = packet_of 0 20 bs, msg_options = opts, msg_priority = MEDIUM\<rparr>) ms))"

lemmas example_messages = example_turn_def example_burst_def example_timing_def timing.extend_def turn.fields_def burst.fields_def

lemma example_turn_ok: "t \<le> 2 ^ 29 \<Longrightarrow> length bs < CHUNK_SIZE \<Longrightarrow> opts AND RELIABLE = RELIABLE \<Longrightarrow> turn_ok (2 ^ 30) (example_turn t bs opts)"
  by (simp add: turn_ok_def turn_message_def message_ok_def times_ok_def example_messages example_fields FromMilliseconds_eq USER_PACKET_def
      packet_of_def packet_ok_def CHUNK_SIZE_eq)

lemma example_next: "m_nextPacket (CongestionControlWindow_new t) = 0"
  by (simp add: CongestionControlWindow_new_def CongestionControl_new_def CongestionControl.extend_def CongestionControlWindow.fields_def)

theorem conversation_delivers_witness:
  "\<exists>p' q'. rfold (exchange 1 (example_address 1) 12 1 (example_address 2))
        [example_burst 1 [([1, 2, 3], RELIABLE), ([7], RELIABLE OR WITH_RECEIPT)], example_burst 50000000 [([4], RELIABLE OR WITH_RECEIPT)]]
        ([], example_peer 11 12 (example_address 2), example_peer 12 11 (example_address 1)) = Inr ([0, 1, 2], p', q') \<and>
     m_inbox q' = [packet_of 11 20 [1, 2, 3], packet_of 11 20 [7], packet_of 11 20 [4]] \<and>
     m_inbox p' = [receipt_notice (1, True), receipt_notice (2, True)] \<and> outbox (at_slot 1 p') = []"
proof -
  let ?xs = "[example_burst 1 [([1, 2, 3], RELIABLE), ([7], RELIABLE OR WITH_RECEIPT)], example_burst 50000000 [([4], RELIABLE OR WITH_RECEIPT)]]"
  have ok: "\<forall>x \<in> set ?xs. burst_ok (2 ^ 30) x"
    by (simp add: burst_ok_def messages_ok_def message_ok_def messages_size_def times_ok_def example_messages example_fields CHUNK_SIZE_eq
        FromMilliseconds_eq RELIABLE_def WITH_RECEIPT_def USER_PACKET_def MTU_def)
  have st: "in_step (length (concat (map x_messages ?xs))) (2 ^ 30) 1 (example_address 1) 12 1 (example_address 2)
      (example_peer 11 12 (example_address 2)) (example_peer 12 11 (example_address 1))"
    by (rule example_in_step) (simp_all add: example_messages)
  show ?thesis
    using conversation_delivers [OF st ok _ example_congestion]
    by (simp add: example_next example_fields example_messages receipt_of_def options_and_def RELIABLE_def WITH_RECEIPT_def del: One_nat_def rfold.simps) blast
qed

end
