(* ===== verification/Simulation.thy ===== *)
theory Simulation
  imports Complex_Main Connecting
begin

text \<open>
  The build with \<^verbatim>\<open>WIREFOX_ENABLE_NETWORK_SIM\<close>, in which a peer drops a share of what it reads and holds back
  what it received: the conditional parts of \<^verbatim>\<open>source/Peer.cpp\<close>, \<^verbatim>\<open>source/Peer.h\<close> and
  \<^verbatim>\<open>source/PacketQueue.cpp\<close>.  The outputs of the random number generator are a list; a loss rate is the rational
  number its \<^verbatim>\<open>float\<close> stands for.  All other theories model the default build, where
  \<^verbatim>\<open>SetNetworkSimulation\<close> ignores its arguments.
\<close>

section \<open>State and settings\<close>

definition SetNetworkSimulation :: "rat \<Rightarrow> nat \<Rightarrow> Peer \<Rightarrow> Peer" where
  "SetNetworkSimulation packetLoss additionalPing p = p"

record SimPeer =
  sim_peer :: Peer
  m_simLossRate :: rat
  m_simExtraPing :: nat
  m_simrng :: "u64 list"
  m_simqueue :: "(Packet \<times> Timestamp) list"

definition SetNetworkSimulation_sim :: "rat \<Rightarrow> nat \<Rightarrow> SimPeer \<Rightarrow> SimPeer" where
  "SetNetworkSimulation_sim packetLoss additionalPing s = s\<lparr>m_simLossRate := packetLoss, m_simExtraPing := additionalPing\<rparr>"

section \<open>Packet loss\<close>

text \<open>
  The conversion of an unsigned integer to a single-precision number: 24 significant bits, rounded to the nearest, ties to
  even.
\<close>

fun bit_length :: "nat \<Rightarrow> nat" where
  "bit_length n = (if n = 0 then 0 else Suc (bit_length (n div 2)))"

declare bit_length.simps [simp del]

definition to_float :: "nat \<Rightarrow> nat" where
  "to_float n =
     (let k = bit_length n - 24; q = n div 2 ^ k; r = n mod 2 ^ k
      in if k = 0 then n
         else if 2 * r > 2 ^ k \<or> 2 * r = 2 ^ k \<and> odd q then Suc q * 2 ^ k else q * 2 ^ k)"

definition PollArtificialPacketLoss :: "SimPeer \<Rightarrow> (bool \<times> SimPeer) result" where
  "PollArtificialPacketLoss s =
     (if \<not> m_simLossRate s > 0 then Inr (False, s) else
      case m_simrng s of [] \<Rightarrow> Inl NoReturn
      | x # rng \<Rightarrow> Inr (of_nat (to_float (unat x)) / of_nat (to_float (2 ^ 64 - 1)) < m_simLossRate s, s\<lparr>m_simrng := rng\<rparr>))"

text \<open>Reading a datagram; one that is lost on purpose is dropped between the checks of its header and its contents.\<close>

definition OnReadFinished_sim ::
  "Env \<Rightarrow> bool \<Rightarrow> RemoteAddress \<Rightarrow> cell list option \<Rightarrow> nat \<Rightarrow> SimPeer \<Rightarrow> SimPeer result" where
  "OnReadFinished_sim env error sender buffer transferred s =
     (let p = sim_peer s; back = (\<lambda>m. rbind m (\<lambda>p. Inr (s\<lparr>sim_peer := p\<rparr>))); remote = GetRemoteByAddress sender p
      in if error then back (DisconnectImmediate remote p) else
      case remote of
        None \<Rightarrow> back (OnUnconnectedMessage env sender buffer transferred p)
      | Some i \<Rightarrow>
        rbind (BinaryStream_wrap buffer transferred READONLY) (\<lambda>inbuffer.
        let p = upd_stats i (PeerStats_Add DATAGRAMS_RECEIVED 1) p;
            p = upd_stats i (PeerStats_Add BYTES_RECEIVED transferred) p
        in rbind (OnReadFinished_decrypt env i inbuffer p) (\<lambda>(ok, inbuffer, p).
           if \<not> ok then back (DisconnectImmediate (Some i) p) else
           rbind (DatagramHeader_Deserialize DatagramHeader_default inbuffer) (\<lambda>((ok, header), inbuffer).
           if \<not> ok then back (DisconnectImmediate (Some i) p) else
           if flag_data header \<and> dataLength header + m_position inbuffer > MTU
           then back (DisconnectImmediate (Some i) p) else
           if \<not> flag_link header then back (OnUnconnectedMessage_stream env sender inbuffer p) else
           rbind (the_handshake i p) (\<lambda>h.
           if \<not> IsDone h \<or> hs_result h \<noteq> CR_OK then back (DisconnectImmediate (Some i) p) else
           rbind (PollArtificialPacketLoss s) (\<lambda>(lost, s).
           if lost then Inr (s\<lparr>sim_peer := p\<rparr>) else
           rbind (OnReadFinished_connected env i header inbuffer p) (\<lambda>p. Inr (s\<lparr>sim_peer := p\<rparr>))))))))"

section \<open>Latency\<close>

text \<open>The delay queue is filled from the inbox, and the first packet whose delay is over is released.\<close>

function Receive_drain :: "Timestamp \<Rightarrow> SimPeer \<Rightarrow> SimPeer" where
  "Receive_drain now s = (case DequeueIncoming (sim_peer s) of
      (None, p) \<Rightarrow> s\<lparr>sim_peer := p\<rparr>
    | (Some packet, p) \<Rightarrow> Receive_drain now (s\<lparr>sim_peer := p,
        m_simqueue := m_simqueue s @ [(packet, Timestamp_plus now (FromMilliseconds (m_simExtraPing s)))]\<rparr>))"
  by pat_completeness auto
termination
  by (relation "measure (\<lambda>(now, s). length (m_inbox (sim_peer s)))") (auto simp: DequeueIncoming_def split: list.splits)

declare Receive_drain.simps [simp del]

fun Receive_release :: "Timestamp \<Rightarrow> (Packet \<times> Timestamp) list \<Rightarrow> Packet option \<times> (Packet \<times> Timestamp) list" where
  "Receive_release now [] = (None, [])"
| "Receive_release now (itr # q) =
     (if Time_Elapsed now (snd itr) then (Some (fst itr), q)
      else (let (p, q) = Receive_release now q in (p, itr # q)))"

definition Receive_sim :: "Timestamp \<Rightarrow> SimPeer \<Rightarrow> Packet option \<times> SimPeer" where
  "Receive_sim now s =
     (let s = Receive_drain now s; (p, q) = Receive_release now (m_simqueue s)
      in (p, s\<lparr>m_simqueue := q\<rparr>))"

lemma Receive_drain_eq:
  "Receive_drain now s = s\<lparr>sim_peer := (sim_peer s)\<lparr>m_inbox := []\<rparr>, m_simqueue := m_simqueue s @
     map (\<lambda>p. (p, Timestamp_plus now (FromMilliseconds (m_simExtraPing s)))) (m_inbox (sim_peer s))\<rparr>"
proof (induction now s rule: Receive_drain.induct)
  case (1 now s)
  show ?case
  proof (cases "m_inbox (sim_peer s)")
    case Nil
    then have "DequeueIncoming (sim_peer s) = (None, sim_peer s)" by (simp add: DequeueIncoming_def)
    then show ?thesis using Nil by (simp add: Receive_drain.simps [of now s])
  next
    case (Cons x xs)
    then have d: "DequeueIncoming (sim_peer s) = (Some x, (sim_peer s)\<lparr>m_inbox := xs\<rparr>)" by (simp add: DequeueIncoming_def)
    show ?thesis unfolding Receive_drain.simps [of now s] using "1" [OF d [symmetric] refl] Cons by (simp add: d)
  qed
qed

section \<open>What the simulation changes\<close>

text \<open>Packets that are posted to the inbox, and calls of \<^verbatim>\<open>Receive\<close> at given times.\<close>

datatype inbox_event = Posted Packet | Polled Timestamp

definition post :: "Packet \<Rightarrow> Peer \<Rightarrow> Peer" where
  "post x p = p\<lparr>m_inbox := m_inbox p @ [x]\<rparr>"

fun polls :: "inbox_event list \<Rightarrow> Peer \<Rightarrow> Packet option list \<times> Peer" where
  "polls [] p = ([], p)"
| "polls (Posted x # es) p = polls es (post x p)"
| "polls (Polled now # es) p = (let (r, p) = Receive p; (rs, p) = polls es p in (r # rs, p))"

fun polls_sim :: "inbox_event list \<Rightarrow> SimPeer \<Rightarrow> Packet option list \<times> SimPeer" where
  "polls_sim [] s = ([], s)"
| "polls_sim (Posted x # es) s = polls_sim es (s\<lparr>sim_peer := post x (sim_peer s)\<rparr>)"
| "polls_sim (Polled now # es) s = (let (r, s) = Receive_sim now s; (rs, s) = polls_sim es s in (r # rs, s))"

definition posted :: "inbox_event list \<Rightarrow> Packet list" where
  "posted es = concat (map (\<lambda>e. case e of Posted x \<Rightarrow> [x] | Polled _ \<Rightarrow> []) es)"

definition poll_times :: "inbox_event list \<Rightarrow> Timestamp list" where
  "poll_times es = concat (map (\<lambda>e. case e of Posted _ \<Rightarrow> [] | Polled t \<Rightarrow> [t]) es)"

definition returned :: "Packet option list \<Rightarrow> Packet list" where
  "returned rs = concat (map (\<lambda>r. case r of None \<Rightarrow> [] | Some x \<Rightarrow> [x]) rs)"

definition waiting :: "SimPeer \<Rightarrow> Packet list" where
  "waiting s = map fst (m_simqueue s) @ m_inbox (sim_peer s)"

text \<open>A clock that does not run backwards or over, and a delay queue that is in the order of its times.\<close>

definition clock_ok :: "Timespan \<Rightarrow> Timestamp \<Rightarrow> inbox_event list \<Rightarrow> bool" where
  "clock_ok d t es \<longleftrightarrow> sorted (t # poll_times es) \<and> (\<forall>x \<in> set (poll_times es). x + d < 2 ^ 64)"

definition delays_ok :: "Timespan \<Rightarrow> Timestamp \<Rightarrow> (Packet \<times> Timestamp) list \<Rightarrow> bool" where
  "delays_ok d t q \<longleftrightarrow> sorted (map snd q) \<and> (\<forall>x \<in> set q. snd x \<le> t + d)"

lemma event_simps [simp]:
  "posted [] = []" "posted (Posted x # es) = x # posted es" "posted (Polled t # es) = posted es"
  "poll_times [] = []" "poll_times (Posted x # es) = poll_times es" "poll_times (Polled t # es) = t # poll_times es"
  "returned [] = []" "returned (None # rs) = returned rs" "returned (Some x # rs) = x # returned rs"
  by (simp_all add: posted_def poll_times_def returned_def)

lemma clock_ok_Polled: "clock_ok d t (Polled now # es) \<longleftrightarrow> t \<le> now \<and> now + d < 2 ^ 64 \<and> clock_ok d now es"
  by (auto simp: clock_ok_def)

lemma clock_ok_Posted [simp]: "clock_ok d t (Posted x # es) = clock_ok d t es"
  by (simp add: clock_ok_def)

text \<open>The first packet of an ordered queue is the one that is released, if any is.\<close>

lemma release_none: "\<forall>x \<in> set q. \<not> Time_Elapsed now (snd x) \<Longrightarrow> Receive_release now q = (None, q)"
  by (induction q) simp_all

lemma release_sorted:
  assumes "sorted (map snd q)"
  shows "Receive_release now q = (case q of [] \<Rightarrow> (None, []) | x # q' \<Rightarrow> if Time_Elapsed now (snd x) then (Some (fst x), q') else (None, q))"
proof (cases q)
  case (Cons x q')
  then have "\<not> Time_Elapsed now (snd x) \<Longrightarrow> Receive_release now q = (None, q)"
    using assms by (intro release_none) (auto simp: Time_Elapsed_def)
  then show ?thesis using Cons by auto
qed simp

lemma Receive_sim_step:
  assumes q: "delays_ok d t (m_simqueue s)" and d: "d = FromMilliseconds (m_simExtraPing s)" and t: "t \<le> now" "now + d < 2 ^ 64"
    and r: "Receive_sim now s = (r, s')"
  shows "delays_ok d now (m_simqueue s') \<and> m_simExtraPing s' = m_simExtraPing s \<and> waiting s = returned [r] @ waiting s' \<and>
    (d = 0 \<longrightarrow> r = None \<longrightarrow> waiting s = []) \<and> (sim_peer s')\<lparr>m_inbox := []\<rparr> = (sim_peer s)\<lparr>m_inbox := []\<rparr>"
proof -
  define q where "q = m_simqueue s @ map (\<lambda>p. (p, now + d)) (m_inbox (sim_peer s))"
  have "sorted (map snd q)" using assms(1) t by (auto simp: q_def delays_ok_def sorted_append o_def sorted_map)
  then have s: "delays_ok d now q" using assms(1) t by (auto simp: q_def delays_ok_def)
  have w: "waiting s = map fst q" by (simp add: q_def waiting_def o_def)
  have "Receive_drain now s = s\<lparr>sim_peer := (sim_peer s)\<lparr>m_inbox := []\<rparr>, m_simqueue := q\<rparr>"
    using t by (simp add: q_def Receive_drain_eq d Timestamp_plus_def)
  then have r': "(r, s') = (let (r, q) = Receive_release now q in (r, s\<lparr>sim_peer := (sim_peer s)\<lparr>m_inbox := []\<rparr>, m_simqueue := q\<rparr>))"
    using r by (simp add: Receive_sim_def split: prod.splits)
  show ?thesis
  proof (cases q)
    case Nil
    then show ?thesis using r' s w by (simp add: waiting_def delays_ok_def)
  next
    case (Cons x q')
    have rel: "Receive_release now q = (if Time_Elapsed now (snd x) then (Some (fst x), q') else (None, q))"
      using release_sorted [of q now] s Cons by (simp add: delays_ok_def)
    have "d = 0 \<Longrightarrow> Time_Elapsed now (snd x)" using s Cons by (simp add: delays_ok_def Time_Elapsed_def)
    then show ?thesis using r' s w Cons rel by (auto simp: delays_ok_def waiting_def split: if_splits)
  qed
qed

lemma polls_sim_conserve:
  assumes "delays_ok d t (m_simqueue s)" "d = FromMilliseconds (m_simExtraPing s)" "clock_ok d t es" "polls_sim es s = (rs, s')"
  shows "returned rs @ waiting s' = waiting s @ posted es"
  using assms
proof (induction es arbitrary: s t rs)
  case Nil
  then show ?case by simp
next
  case (Cons e es)
  show ?case
  proof (cases e)
    case (Posted x)
    then have "returned rs @ waiting s' = waiting (s\<lparr>sim_peer := post x (sim_peer s)\<rparr>) @ posted es"
      using Cons.prems by (intro Cons.IH) simp_all
    then show ?thesis using Posted by (simp add: waiting_def post_def)
  next
    case (Polled now)
    obtain r s1 rs' where r: "Receive_sim now s = (r, s1)" "polls_sim es s1 = (rs', s')" "rs = r # rs'"
      using Cons.prems(4) Polled by (auto split: prod.splits)
    have c: "t \<le> now" "now + d < 2 ^ 64" "clock_ok d now es" using Cons.prems(3) Polled by (simp_all add: clock_ok_Polled)
    note st = Receive_sim_step [OF Cons.prems(1,2) c(1,2) r(1)]
    have "returned rs' @ waiting s' = waiting s1 @ posted es"
      using st Cons.prems(2) c(3) r(2) by (intro Cons.IH [of now]) simp_all
    then show ?thesis using st r(3) Polled by (cases r) simp_all
  qed
qed

lemma polls_sim_immediate:
  assumes "delays_ok 0 t (m_simqueue s)" "m_simExtraPing s = 0" "clock_ok 0 t es"
  shows "fst (polls_sim es s) = fst (polls es ((sim_peer s)\<lparr>m_inbox := waiting s\<rparr>))"
  using assms
proof (induction es arbitrary: s t)
  case Nil
  then show ?case by simp
next
  case (Cons e es)
  show ?case
  proof (cases e)
    case (Posted x)
    then show ?thesis using Cons.IH [of t "s\<lparr>sim_peer := post x (sim_peer s)\<rparr>"] Cons.prems by (simp add: waiting_def post_def)
  next
    case (Polled now)
    obtain r s1 where r: "Receive_sim now s = (r, s1)" by fastforce
    have d: "0 = FromMilliseconds (m_simExtraPing s)" using Cons.prems(2) by (simp add: FromMilliseconds_eq)
    have c: "t \<le> now" "now + 0 < 2 ^ 64" "clock_ok 0 now es" using Cons.prems(3) Polled by (simp_all add: clock_ok_Polled)
    note st = Receive_sim_step [OF Cons.prems(1) d c(1,2) r]
    have "(sim_peer s1)\<lparr>m_inbox := xs\<rparr> = (sim_peer s)\<lparr>m_inbox := xs\<rparr>" for xs
      using arg_cong [of _ _ "\<lambda>p. p\<lparr>m_inbox := xs\<rparr>", OF conjunct2 [OF conjunct2 [OF conjunct2 [OF conjunct2 [OF st]]]]] by simp
    moreover have "Receive ((sim_peer s)\<lparr>m_inbox := waiting s\<rparr>) = (r, (sim_peer s)\<lparr>m_inbox := waiting s1\<rparr>)"
      using st by (cases r) (auto simp: Receive_def DequeueIncoming_def)
    ultimately show ?thesis using Cons.IH [of now s1] st Cons.prems(2) c(3) Polled r by (simp add: Let_def split_beta)
  qed
qed

lemma OnReadFinished_sim_off:
  assumes "\<not> m_simLossRate s > 0"
  shows "OnReadFinished_sim env error sender buffer n s =
    rbind (OnReadFinished env error sender buffer n (sim_peer s)) (\<lambda>p. Inr (s\<lparr>sim_peer := p\<rparr>))"
  using assms unfolding OnReadFinished_sim_def OnReadFinished_def PollArtificialPacketLoss_def
  by (auto simp: Let_def rbind_assoc fun_eq_iff split: option.splits intro!: rbind_cong)

text \<open>
  C19.  With the simulation compiled in but set to no loss and no extra latency, a peer behaves as in the default build: it
  treats every datagram it reads in the same way, and a program that calls \<^verbatim>\<open>Receive\<close> at any times, with packets being
  posted in between, gets the same packets from the same calls.
\<close>

theorem simulation_off_equivalent:
  assumes "m_simLossRate s = 0" "m_simExtraPing s = 0" "m_simqueue s = []" "clock_ok 0 0 es"
  shows "OnReadFinished_sim env error sender buffer n s =
      rbind (OnReadFinished env error sender buffer n (sim_peer s)) (\<lambda>p. Inr (s\<lparr>sim_peer := p\<rparr>)) \<and>
    fst (polls_sim es s) = fst (polls es (sim_peer s))"
  using OnReadFinished_sim_off [of s] polls_sim_immediate [of 0 s es] assms by (simp add: delays_ok_def waiting_def)

definition example_sim :: "nat \<Rightarrow> Peer \<Rightarrow> SimPeer" where
  "example_sim ping p = \<lparr>sim_peer = p, m_simLossRate = 0, m_simExtraPing = ping, m_simrng = [], m_simqueue = []\<rparr>"

theorem simulation_off_equivalent_witness:
  "fst (polls_sim [Posted (packet_of 0 20 [1]), Posted (packet_of 0 21 []), Polled 5, Polled 7, Polled 9] (example_sim 0 (example_new 11 1))) =
   fst (polls [Posted (packet_of 0 20 [1]), Posted (packet_of 0 21 []), Polled 5, Polled 7, Polled 9] (example_new 11 1))"
  using simulation_off_equivalent [of "example_sim 0 (example_new 11 1)"
      "[Posted (packet_of 0 20 [1]), Posted (packet_of 0 21 []), Polled 5, Polled 7, Polled 9]"]
  by (simp add: example_sim_def clock_ok_def del: polls.simps polls_sim.simps)

text \<open>
  Whatever the extra latency, no packet is lost, doubled or overtaken by a later one on its way through the delay queue: the
  packets that the calls of \<^verbatim>\<open>Receive\<close> returned, followed by those still waiting, are the packets posted, in order.
\<close>

lemma simulated_latency_keeps_order:
  assumes "m_simqueue s = []" "clock_ok (FromMilliseconds (m_simExtraPing s)) t es" "polls_sim es s = (rs, s')"
  shows "returned rs @ waiting s' = m_inbox (sim_peer s) @ posted es"
  using polls_sim_conserve [OF _ refl assms(2,3)] assms(1) by (simp add: delays_ok_def waiting_def)

end
