(* ===== verification/CBindings.thy ===== *)
theory CBindings
  imports Peer_Invariant Conversation Simulation
begin

text \<open>
  The C interface: \<^verbatim>\<open>source/WirefoxCBindings.cpp\<close>.  A handle is the address of an object, 0 the null
  pointer; the two global tables own the objects.  A fresh object gets the address the allocator returns, an
  argument of the operations that create one: an allocator never returns null or the address of a live object, but it
  may return an address again once the object that had it is gone.  The casts between the enumerations of the two
  languages keep the value.  Dereferencing a handle that is in no table is a failure.
\<close>

section \<open>Handle tables\<close>

type_synonym handle = nat

type_synonym 'a handles = "(handle \<times> 'a) list"

definition find_handle :: "handle \<Rightarrow> 'a handles \<Rightarrow> 'a option" where
  "find_handle h t = map_of t h"

definition add_handle :: "handle \<Rightarrow> 'a \<Rightarrow> 'a handles \<Rightarrow> 'a handles" where
  "add_handle h x t = t @ [(h, x)]"

fun erase_handle :: "handle \<Rightarrow> 'a handles \<Rightarrow> 'a handles" where
  "erase_handle h [] = []"
| "erase_handle h (e # t) = (if fst e = h then t else e # erase_handle h t)"

fun put_handle :: "handle \<Rightarrow> 'a \<Rightarrow> 'a handles \<Rightarrow> 'a handles" where
  "put_handle h x [] = []"
| "put_handle h x (e # t) = (if fst e = h then (h, x) # t else e # put_handle h x t)"

definition handles_ok :: "'a handles \<Rightarrow> bool" where
  "handles_ok t \<longleftrightarrow> distinct (map fst t) \<and> 0 \<notin> set (map fst t)"

text \<open>What the bindings rely on.\<close>

locale handle_table =
  fixes get :: "handle \<Rightarrow> 't \<Rightarrow> 'a option"
    and add :: "handle \<Rightarrow> 'a \<Rightarrow> 't \<Rightarrow> 't"
    and erase :: "handle \<Rightarrow> 't \<Rightarrow> 't"
    and put :: "handle \<Rightarrow> 'a \<Rightarrow> 't \<Rightarrow> 't"
    and ok :: "'t \<Rightarrow> bool"
  assumes get_null: "ok t \<Longrightarrow> get 0 t = None"
    and add_ok: "ok t \<Longrightarrow> h \<noteq> 0 \<Longrightarrow> get h t = None \<Longrightarrow> ok (add h x t)"
    and erase_ok: "ok t \<Longrightarrow> ok (erase h t)"
    and put_ok: "ok t \<Longrightarrow> ok (put h x t)"
    and get_add: "ok t \<Longrightarrow> get h t = None \<Longrightarrow> get k (add h x t) = (if k = h then Some x else get k t)"
    and get_erase: "ok t \<Longrightarrow> get k (erase h t) = (if k = h then None else get k t)"
    and get_put: "get k (put h x t) = (if k = h then map_option (\<lambda>_. x) (get h t) else get k t)"
begin

lemma erase_twice: "ok t \<Longrightarrow> get k (erase h (erase h t)) = get k (erase h t)"
  by (simp add: get_erase erase_ok)

lemma add_then_erase: "ok t \<Longrightarrow> h \<noteq> 0 \<Longrightarrow> get h t = None \<Longrightarrow> get k (erase h (add h x t)) = get k t"
  by (simp add: get_erase get_add add_ok)

lemma put_all:
  assumes "\<And>k x. get k t = Some x \<Longrightarrow> P x" "P x" "get k (put h x t) = Some y"
  shows "P y"
  using assms by (auto simp: get_put split: if_splits)

lemma add_all:
  assumes "ok t" "get h t = None" "\<And>k x. get k t = Some x \<Longrightarrow> P x" "P x" "get k (add h x t) = Some y"
  shows "P y"
  using assms by (auto simp: get_add split: if_splits)

lemma erase_all:
  assumes "ok t" "\<And>k x. get k t = Some x \<Longrightarrow> P x" "get k (erase h t) = Some y"
  shows "P y"
  using assms by (auto simp: get_erase split: if_splits)

end

lemma erase_handle_fst: "map fst (erase_handle h t) = remove1 h (map fst t)"
  by (induction t) auto

lemma put_handle_fst: "map fst (put_handle h x t) = map fst t"
  by (induction t) auto

lemma find_none: "find_handle h t = None \<longleftrightarrow> h \<notin> set (map fst t)"
  by (auto simp: find_handle_def map_of_eq_None_iff)

lemma find_erase: "distinct (map fst t) \<Longrightarrow> find_handle k (erase_handle h t) = (if k = h then None else find_handle k t)"
  by (induction t) (force simp: find_handle_def map_of_eq_None_iff)+

lemma find_add: "find_handle h t = None \<Longrightarrow> find_handle k (add_handle h x t) = (if k = h then Some x else find_handle k t)"
  by (induction t) (auto simp: find_handle_def add_handle_def split: if_splits)

interpretation table: handle_table find_handle add_handle erase_handle put_handle handles_ok
proof
  show "find_handle k (put_handle h x t) = (if k = h then map_option (\<lambda>_. x) (find_handle h t) else find_handle k t)" for k h and x :: 'a and t
    by (induction t) (auto simp: find_handle_def)
  show "handles_ok t \<Longrightarrow> find_handle k (erase_handle h t) = (if k = h then None else find_handle k t)" for k h and t :: "'a handles"
    by (simp add: handles_ok_def find_erase)
  show "handles_ok t \<Longrightarrow> handles_ok (erase_handle h t)" for h and t :: "'a handles"
    by (auto simp: handles_ok_def erase_handle_fst dest: notin_set_remove1)
  show "handles_ok t \<Longrightarrow> h \<noteq> 0 \<Longrightarrow> find_handle h t = None \<Longrightarrow> handles_ok (add_handle h x t)" for h and x :: 'a and t
    by (auto simp: handles_ok_def find_none add_handle_def)
qed (simp_all add: handles_ok_def find_none find_add put_handle_fst)

section \<open>The bindings\<close>

record Bindings =
  m_handlesPeer :: "Peer handles"
  m_handlesPacket :: "Packet handles"

definition Bindings_new :: Bindings where
  "Bindings_new = \<lparr>m_handlesPeer = [], m_handlesPacket = []\<rparr>"

definition HandleToPeer :: "handle \<Rightarrow> Bindings \<Rightarrow> Peer result" where
  "HandleToPeer h b = (case find_handle h (m_handlesPeer b) of None \<Rightarrow> Inl NullPointer | Some p \<Rightarrow> Inr p)"

definition HandleToPacket :: "handle \<Rightarrow> Bindings \<Rightarrow> Packet result" where
  "HandleToPacket h b = (case find_handle h (m_handlesPacket b) of None \<Rightarrow> Inl NullPointer | Some p \<Rightarrow> Inr p)"

text \<open>A member function called through a handle: the object is updated in place.\<close>

definition through :: "handle \<Rightarrow> (Peer \<Rightarrow> ('r \<times> Peer) result) \<Rightarrow> Bindings \<Rightarrow> ('r \<times> Bindings) result" where
  "through h f b = rbind (HandleToPeer h b) (\<lambda>p. rbind (f p) (\<lambda>(r, p).
     Inr (r, b\<lparr>m_handlesPeer := put_handle h p (m_handlesPeer b)\<rparr>)))"

definition void :: "(Peer \<Rightarrow> Peer result) \<Rightarrow> Peer \<Rightarrow> (unit \<times> Peer) result" where
  "void f p = rbind (f p) (\<lambda>p. Inr ((), p))"

definition wirefox_peer_create :: "handle \<Rightarrow> u64 list \<Rightarrow> nat \<Rightarrow> Bindings \<Rightarrow> (handle \<times> Bindings) result" where
  "wirefox_peer_create a rng maxPeers b =
     rbind (IPeer_Factory_Create rng maxPeers) (\<lambda>p.
     Inr (a, b\<lparr>m_handlesPeer := add_handle a p (m_handlesPeer b)\<rparr>))"

definition wirefox_peer_destroy :: "handle \<Rightarrow> Bindings \<Rightarrow> Bindings" where
  "wirefox_peer_destroy h b =
     (if h = 0 then b else
      if find_handle h (m_handlesPeer b) \<noteq> None then b\<lparr>m_handlesPeer := erase_handle h (m_handlesPeer b)\<rparr> else b)"

definition wirefox_peer_bind :: "Env \<Rightarrow> handle \<Rightarrow> SocketProtocol \<Rightarrow> u16 \<Rightarrow> Bindings \<Rightarrow> (nat \<times> Bindings) result" where
  "wirefox_peer_bind env h protocol port =
     through h (\<lambda>p. rbind (Bind env protocol port p) (\<lambda>(ok, p). Inr (if ok then 1 else 0, p)))"

definition wirefox_peer_stop :: "Env \<Rightarrow> (Peer \<Rightarrow> Peer result) \<Rightarrow> handle \<Rightarrow> nat \<Rightarrow> Bindings \<Rightarrow> (unit \<times> Bindings) result" where
  "wirefox_peer_stop env sleep h linger = through h (void (Stop env (FromMilliseconds linger) sleep))"

definition wirefox_peer_connect :: "Env \<Rightarrow> handle \<Rightarrow> u8 list \<Rightarrow> u16 \<Rightarrow> Bindings \<Rightarrow> (ConnectAttemptResult \<times> Bindings) result" where
  "wirefox_peer_connect env h host port = through h (Connect env host port None)"

definition wirefox_peer_disconnect :: "Env \<Rightarrow> handle \<Rightarrow> PeerID \<Rightarrow> nat \<Rightarrow> Bindings \<Rightarrow> (unit \<times> Bindings) result" where
  "wirefox_peer_disconnect env h who linger = through h (void (Disconnect env who (FromMilliseconds linger)))"

definition wirefox_peer_disconnect_immediate :: "handle \<Rightarrow> PeerID \<Rightarrow> Bindings \<Rightarrow> (unit \<times> Bindings) result" where
  "wirefox_peer_disconnect_immediate h who = through h (void (DisconnectImmediate_id who))"

definition wirefox_peer_send_loopback :: "handle \<Rightarrow> handle \<Rightarrow> Bindings \<Rightarrow> (unit \<times> Bindings) result" where
  "wirefox_peer_send_loopback h packet b =
     rbind (HandleToPacket packet b) (\<lambda>typedPacket. through h (void (SendLoopback typedPacket)) b)"

definition wirefox_peer_send ::
  "Env \<Rightarrow> handle \<Rightarrow> handle \<Rightarrow> PeerID \<Rightarrow> PacketOptions \<Rightarrow> PacketPriority \<Rightarrow> ChannelIndex \<Rightarrow> Bindings \<Rightarrow> (PacketID \<times> Bindings) result" where
  "wirefox_peer_send env h packet recipient opts priority channelIndex b =
     rbind (HandleToPeer h b) (\<lambda>peer.
     rbind (GetChannelModeByIndex channelIndex peer) (\<lambda>mode.
     rbind (HandleToPacket packet b) (\<lambda>packet.
     through h (Send env packet recipient opts priority \<lparr>channel_id = channelIndex, channel_mode = mode\<rparr>) b)))"

definition wirefox_peer_receive :: "handle \<Rightarrow> handle \<Rightarrow> Bindings \<Rightarrow> (handle \<times> Bindings) result" where
  "wirefox_peer_receive a h b =
     rbind (through h (\<lambda>p. Inr (Receive p)) b) (\<lambda>(uptr, b).
     case uptr of None \<Rightarrow> Inr (0, b)
     | Some packet \<Rightarrow> Inr (a, b\<lparr>m_handlesPacket := add_handle a packet (m_handlesPacket b)\<rparr>))"

definition wirefox_peer_make_channel :: "handle \<Rightarrow> ChannelMode \<Rightarrow> Bindings \<Rightarrow> (ChannelIndex \<times> Bindings) result" where
  "wirefox_peer_make_channel h mode = through h (\<lambda>p. let (channel, p) = MakeChannel mode p in Inr (channel_id channel, p))"

definition wirefox_peer_get_channel_mode :: "handle \<Rightarrow> ChannelIndex \<Rightarrow> Bindings \<Rightarrow> ChannelMode result" where
  "wirefox_peer_get_channel_mode h index b = rbind (HandleToPeer h b) (GetChannelModeByIndex index)"

definition wirefox_peer_get_my_id :: "handle \<Rightarrow> Bindings \<Rightarrow> PeerID result" where
  "wirefox_peer_get_my_id h b = rbind (HandleToPeer h b) (\<lambda>p. Inr (GetMyPeerID p))"

definition wirefox_peer_get_max_peers :: "handle \<Rightarrow> Bindings \<Rightarrow> nat result" where
  "wirefox_peer_get_max_peers h b = rbind (HandleToPeer h b) (\<lambda>p. Inr (GetMaximumPeers p))"

definition wirefox_peer_get_max_incoming_peers :: "handle \<Rightarrow> Bindings \<Rightarrow> nat result" where
  "wirefox_peer_get_max_incoming_peers h b = rbind (HandleToPeer h b) (\<lambda>p. Inr (GetMaximumIncomingPeers p))"

definition wirefox_peer_set_max_incoming_peers :: "handle \<Rightarrow> nat \<Rightarrow> Bindings \<Rightarrow> (unit \<times> Bindings) result" where
  "wirefox_peer_set_max_incoming_peers h incoming = through h (\<lambda>p. Inr ((), SetMaximumIncomingPeers incoming p))"

definition wirefox_peer_get_ping :: "handle \<Rightarrow> PeerID \<Rightarrow> Bindings \<Rightarrow> nat result" where
  "wirefox_peer_get_ping h who b = rbind (HandleToPeer h b) (GetPing who)"

definition wirefox_peer_get_ping_available :: "handle \<Rightarrow> PeerID \<Rightarrow> Bindings \<Rightarrow> nat result" where
  "wirefox_peer_get_ping_available h who b =
     rbind (HandleToPeer h b) (\<lambda>p. rbind (GetPingAvailable who p) (\<lambda>available. Inr (if available then 1 else 0)))"

definition wirefox_peer_set_network_sim :: "handle \<Rightarrow> rat \<Rightarrow> nat \<Rightarrow> Bindings \<Rightarrow> (unit \<times> Bindings) result" where
  "wirefox_peer_set_network_sim h packetLoss additionalPing =
     through h (\<lambda>p. Inr ((), SetNetworkSimulation packetLoss additionalPing p))"

definition wirefox_peer_set_offline_ad :: "handle \<Rightarrow> cell list option \<Rightarrow> nat \<Rightarrow> Bindings \<Rightarrow> (unit \<times> Bindings) result" where
  "wirefox_peer_set_offline_ad h data len b =
     rbind (BinaryStream_wrap data len READONLY) (\<lambda>ad. through h (void (SetOfflineAdvertisement ad)) b)"

definition wirefox_peer_disable_offline_ad :: "handle \<Rightarrow> Bindings \<Rightarrow> (unit \<times> Bindings) result" where
  "wirefox_peer_disable_offline_ad h = through h (void DisableOfflineAdvertisement)"

definition wirefox_peer_ping :: "Env \<Rightarrow> handle \<Rightarrow> u8 list \<Rightarrow> u16 \<Rightarrow> Bindings \<Rightarrow> (unit \<times> Bindings) result" where
  "wirefox_peer_ping env h host port = through h (void (Ping env host port))"

definition wirefox_peer_ping_local_network :: "Env \<Rightarrow> handle \<Rightarrow> u16 \<Rightarrow> Bindings \<Rightarrow> (unit \<times> Bindings) result" where
  "wirefox_peer_ping_local_network env h port = through h (void (PingLocalNetwork env port))"

definition wirefox_peer_get_stat :: "handle \<Rightarrow> PeerID \<Rightarrow> PeerStatID \<Rightarrow> Bindings \<Rightarrow> nat result" where
  "wirefox_peer_get_stat h who stat b =
     rbind (HandleToPeer h b) (\<lambda>p. case GetStats who p of None \<Rightarrow> Inr 0 | Some stats \<Rightarrow> Inr (PeerStats_Get stats stat))"

definition wirefox_peer_get_crypto_key_length :: "Env \<Rightarrow> handle \<Rightarrow> Bindings \<Rightarrow> nat result" where
  "wirefox_peer_get_crypto_key_length env h b = rbind (HandleToPeer h b) (\<lambda>_. Inr (GetEncryptionKeyLength env))"

definition wirefox_peer_get_crypto_enabled :: "handle \<Rightarrow> Bindings \<Rightarrow> nat result" where
  "wirefox_peer_get_crypto_enabled h b = rbind (HandleToPeer h b) (\<lambda>p. Inr (if GetEncryptionEnabled p then 1 else 0))"

definition wirefox_peer_set_crypto_enabled :: "Env \<Rightarrow> handle \<Rightarrow> int \<Rightarrow> Bindings \<Rightarrow> (unit \<times> Bindings) result" where
  "wirefox_peer_set_crypto_enabled env h enabled = through h (void (SetEncryptionEnabled env (enabled \<noteq> 0)))"

definition wirefox_peer_set_crypto_identity ::
  "Env \<Rightarrow> handle \<Rightarrow> cell list option \<Rightarrow> cell list option \<Rightarrow> Bindings \<Rightarrow> (unit \<times> Bindings) result" where
  "wirefox_peer_set_crypto_identity env h secret public = through h (void (SetEncryptionIdentity env secret public))"

definition wirefox_peer_generate_crypto_identity :: "Env \<Rightarrow> handle \<Rightarrow> Bindings \<Rightarrow> (bytes \<times> bytes) option result" where
  "wirefox_peer_generate_crypto_identity env h b = rbind (HandleToPeer h b) (\<lambda>_. GenerateIdentity env)"

definition wirefox_packet_create :: "handle \<Rightarrow> PacketCommand \<Rightarrow> cell list option \<Rightarrow> nat \<Rightarrow> Bindings \<Rightarrow> (handle \<times> Bindings) result" where
  "wirefox_packet_create a cmd data len b =
     rbind (Packet_of_data cmd data len) (\<lambda>packet.
     Inr (a, b\<lparr>m_handlesPacket := add_handle a packet (m_handlesPacket b)\<rparr>))"

definition wirefox_packet_destroy :: "handle \<Rightarrow> Bindings \<Rightarrow> Bindings" where
  "wirefox_packet_destroy h b =
     (if h = 0 then b else
      if find_handle h (m_handlesPacket b) \<noteq> None then b\<lparr>m_handlesPacket := erase_handle h (m_handlesPacket b)\<rparr> else b)"

definition wirefox_packet_get_data :: "handle \<Rightarrow> Bindings \<Rightarrow> cell list option result" where
  "wirefox_packet_get_data h b = rbind (HandleToPacket h b) (\<lambda>packet. Inr (m_data packet))"

definition wirefox_packet_get_length :: "handle \<Rightarrow> Bindings \<Rightarrow> nat result" where
  "wirefox_packet_get_length h b = rbind (HandleToPacket h b) (\<lambda>packet. Inr (pkt_length packet))"

definition wirefox_packet_get_cmd :: "handle \<Rightarrow> Bindings \<Rightarrow> u8 result" where
  "wirefox_packet_get_cmd h b = rbind (HandleToPacket h b) (\<lambda>packet. Inr (m_command packet))"

definition wirefox_packet_get_sender :: "handle \<Rightarrow> Bindings \<Rightarrow> PeerID result" where
  "wirefox_packet_get_sender h b = rbind (HandleToPacket h b) (\<lambda>packet. Inr (m_sender packet))"

section \<open>Every call through a handle is a call on the object\<close>

text \<open>The functions that change a peer, by the handle they are called with.\<close>

datatype c_call =
    C_bind Env SocketProtocol u16
  | C_stop Env "event list" nat
  | C_connect Env "u8 list" u16
  | C_disconnect Env PeerID nat
  | C_disconnect_immediate PeerID
  | C_send_loopback handle
  | C_send Env handle PeerID PacketOptions PacketPriority ChannelIndex
  | C_receive handle
  | C_make_channel ChannelMode
  | C_set_max_incoming_peers nat
  | C_set_offline_ad "cell list option" nat
  | C_disable_offline_ad
  | C_ping Env "u8 list" u16
  | C_ping_local_network Env u16
  | C_set_crypto_enabled Env int
  | C_set_crypto_identity Env "cell list option" "cell list option"

definition forget :: "('r \<times> Bindings) result \<Rightarrow> Bindings result" where
  "forget m = rbind m (\<lambda>(_, b). Inr b)"

fun on_c_call :: "handle \<Rightarrow> c_call \<Rightarrow> Bindings \<Rightarrow> Bindings result" where
  "on_c_call h (C_bind env protocol port) b = forget (wirefox_peer_bind env h protocol port b)"
| "on_c_call h (C_stop env events linger) b = forget (wirefox_peer_stop env (rfold on_event events) h linger b)"
| "on_c_call h (C_connect env host port) b = forget (wirefox_peer_connect env h host port b)"
| "on_c_call h (C_disconnect env who linger) b = forget (wirefox_peer_disconnect env h who linger b)"
| "on_c_call h (C_disconnect_immediate who) b = forget (wirefox_peer_disconnect_immediate h who b)"
| "on_c_call h (C_send_loopback packet) b = forget (wirefox_peer_send_loopback h packet b)"
| "on_c_call h (C_send env packet who opts prio channel) b = forget (wirefox_peer_send env h packet who opts prio channel b)"
| "on_c_call h (C_receive a) b = forget (wirefox_peer_receive a h b)"
| "on_c_call h (C_make_channel mode) b = forget (wirefox_peer_make_channel h mode b)"
| "on_c_call h (C_set_max_incoming_peers n) b = forget (wirefox_peer_set_max_incoming_peers h n b)"
| "on_c_call h (C_set_offline_ad data len) b = forget (wirefox_peer_set_offline_ad h data len b)"
| "on_c_call h C_disable_offline_ad b = forget (wirefox_peer_disable_offline_ad h b)"
| "on_c_call h (C_ping env host port) b = forget (wirefox_peer_ping env h host port b)"
| "on_c_call h (C_ping_local_network env port) b = forget (wirefox_peer_ping_local_network env h port b)"
| "on_c_call h (C_set_crypto_enabled env enabled) b = forget (wirefox_peer_set_crypto_enabled env h enabled b)"
| "on_c_call h (C_set_crypto_identity env secret public) b = forget (wirefox_peer_set_crypto_identity env h secret public b)"

text \<open>The member function behind such a function, with the arguments it is called with.\<close>

fun member_call :: "Peer \<Rightarrow> Bindings \<Rightarrow> c_call \<Rightarrow> call result" where
  "member_call p b (C_bind env protocol port) = Inr (CBind env protocol port)"
| "member_call p b (C_stop env events linger) = Inr (CStop env (FromMilliseconds linger) events)"
| "member_call p b (C_connect env host port) = Inr (CConnect env host port None)"
| "member_call p b (C_disconnect env who linger) = Inr (CDisconnect env who (FromMilliseconds linger))"
| "member_call p b (C_disconnect_immediate who) = Inr (CDisconnectImmediate who)"
| "member_call p b (C_send_loopback packet) = rbind (HandleToPacket packet b) (\<lambda>x. Inr (CSendLoopback x))"
| "member_call p b (C_send env packet who opts prio channel) = rbind (GetChannelModeByIndex channel p) (\<lambda>mode.
     rbind (HandleToPacket packet b) (\<lambda>x. Inr (CSend env x who opts prio \<lparr>channel_id = channel, channel_mode = mode\<rparr>)))"
| "member_call p b (C_receive a) = Inr CReceive"
| "member_call p b (C_make_channel mode) = Inr (CMakeChannel mode)"
| "member_call p b (C_set_max_incoming_peers n) = Inr (CSetMaximumIncomingPeers n)"
| "member_call p b (C_set_offline_ad data len) = rbind (BinaryStream_wrap data len READONLY) (\<lambda>ad. Inr (CSetOfflineAdvertisement ad))"
| "member_call p b C_disable_offline_ad = Inr CDisableOfflineAdvertisement"
| "member_call p b (C_ping env host port) = Inr (CPing env host port)"
| "member_call p b (C_ping_local_network env port) = Inr (CPingLocalNetwork env port)"
| "member_call p b (C_set_crypto_enabled env enabled) = Inr (CSetEncryptionEnabled env (enabled \<noteq> 0))"
| "member_call p b (C_set_crypto_identity env secret public) = Inr (CSetEncryptionIdentity env secret public)"

text \<open>The packet a call adds to the table of packets.\<close>

definition received :: "Peer \<Rightarrow> c_call \<Rightarrow> Packet handles" where
  "received p c = (case c of C_receive a \<Rightarrow> (case fst (Receive p) of None \<Rightarrow> [] | Some x \<Rightarrow> [(a, x)]) | _ \<Rightarrow> [])"

lemmas wirefox_calls = wirefox_peer_bind_def wirefox_peer_stop_def wirefox_peer_connect_def wirefox_peer_disconnect_def
  wirefox_peer_disconnect_immediate_def wirefox_peer_send_loopback_def wirefox_peer_send_def wirefox_peer_receive_def
  wirefox_peer_make_channel_def wirefox_peer_set_max_incoming_peers_def wirefox_peer_set_offline_ad_def
  wirefox_peer_disable_offline_ad_def wirefox_peer_ping_def wirefox_peer_ping_local_network_def
  wirefox_peer_set_crypto_enabled_def wirefox_peer_set_crypto_identity_def

lemma through_live:
  assumes "find_handle h (m_handlesPeer b) = Some p"
  shows "through h f b = rbind (f p) (\<lambda>(r, p). Inr (r, b\<lparr>m_handlesPeer := put_handle h p (m_handlesPeer b)\<rparr>))"
  using assms by (simp add: through_def HandleToPeer_def)

lemma forget_through:
  assumes "find_handle h (m_handlesPeer b) = Some p"
  shows "forget (through h f b) = rbind (rbind (f p) (\<lambda>(_, p). Inr p)) (\<lambda>p. Inr (b\<lparr>m_handlesPeer := put_handle h p (m_handlesPeer b)\<rparr>))"
  by (cases "f p") (auto simp: forget_def through_live [OF assms] split: prod.splits)

lemma void_call: "rbind (void f p) (\<lambda>(_, p). Inr p) = f p"
  by (cases "f p") (simp_all add: void_def)

lemma call_is_member_call:
  assumes "find_handle h (m_handlesPeer b) = Some p"
  shows "on_c_call h c b = rbind (member_call p b c) (\<lambda>m. rbind (on_call m p) (\<lambda>p'.
    Inr (b\<lparr>m_handlesPeer := put_handle h p' (m_handlesPeer b), m_handlesPacket := m_handlesPacket b @ received p c\<rparr>)))"
proof (cases c)
  case (C_send env packet who opts prio channel)
  then show ?thesis
    using assms by (cases "GetChannelModeByIndex channel p"; cases "HandleToPacket packet b")
      (simp_all add: wirefox_calls forget_through [OF assms] HandleToPeer_def received_def, simp_all add: forget_def)
next
  case (C_send_loopback packet)
  then show ?thesis
    by (cases "HandleToPacket packet b") (simp_all add: wirefox_calls forget_through [OF assms] void_call received_def, simp add: forget_def)
next
  case (C_set_offline_ad data len)
  then show ?thesis
    by (cases "BinaryStream_wrap data len READONLY")
      (simp_all add: wirefox_calls forget_through [OF assms] void_call received_def, simp add: forget_def)
next
  case (C_receive a)
  then show ?thesis
    by (cases "Receive p") (auto simp: wirefox_calls through_live [OF assms] received_def forget_def add_handle_def split: option.splits)
next
  case (C_bind env protocol port)
  then show ?thesis
    by (cases "Bind env protocol port p") (auto simp: wirefox_calls forget_through [OF assms] received_def)
next
  case (C_make_channel mode)
  then show ?thesis
    by (cases "MakeChannel mode p") (auto simp: wirefox_calls forget_through [OF assms] received_def)
qed (simp_all add: wirefox_calls forget_through [OF assms] void_call received_def)

lemma rbind_fails: "\<exists>e. rbind m (\<lambda>x. Inl e') = Inl e"
  by (cases m) simp_all

lemma call_dead:
  assumes "find_handle h (m_handlesPeer b) = None"
  shows "\<exists>e. on_c_call h c b = Inl e"
proof -
  have t: "through h f b = Inl NullPointer" for f :: "Peer \<Rightarrow> ('r \<times> Peer) result"
    using assms by (simp add: through_def HandleToPeer_def)
  show ?thesis
    using assms by (cases c) (auto simp: wirefox_calls t forget_def HandleToPeer_def rbind_assoc intro: rbind_fails)
qed

section \<open>The tables stay well formed\<close>

definition bindings_ok :: "Bindings \<Rightarrow> bool" where
  "bindings_ok b \<longleftrightarrow> handles_ok (m_handlesPeer b) \<and> handles_ok (m_handlesPacket b) \<and>
     (\<forall>h p. find_handle h (m_handlesPeer b) = Some p \<longrightarrow> find_handle h (m_handlesPacket b) = None \<and> peer_ok (m_id p) (m_remotesMax p) p)"

text \<open>What the allocator promises of the address of a new object.\<close>

definition allocated :: "handle \<Rightarrow> Bindings \<Rightarrow> bool" where
  "allocated a b \<longleftrightarrow> a \<noteq> 0 \<and> find_handle a (m_handlesPeer b) = None \<and> find_handle a (m_handlesPacket b) = None"

inductive c_reaches :: "Bindings \<Rightarrow> bool" where
  c_start: "c_reaches Bindings_new"
| c_peer_create: "c_reaches b \<Longrightarrow> allocated a b \<Longrightarrow> maxPeers + 1 < 2 ^ 64 \<Longrightarrow>
    wirefox_peer_create a rng maxPeers b = Inr (h, b') \<Longrightarrow> c_reaches b'"
| c_peer_destroy: "c_reaches b \<Longrightarrow> c_reaches (wirefox_peer_destroy h b)"
| c_peer_call: "c_reaches b \<Longrightarrow> (\<And>a. c = C_receive a \<Longrightarrow> allocated a b) \<Longrightarrow> on_c_call h c b = Inr b' \<Longrightarrow> c_reaches b'"
| c_peer_event: "c_reaches b \<Longrightarrow> forget (through h (void (on_event e)) b) = Inr b' \<Longrightarrow> c_reaches b'"
| c_packet_create: "c_reaches b \<Longrightarrow> allocated a b \<Longrightarrow> wirefox_packet_create a cmd data len b = Inr (h, b') \<Longrightarrow> c_reaches b'"
| c_packet_destroy: "c_reaches b \<Longrightarrow> c_reaches (wirefox_packet_destroy h b)"

lemma peer_ok_same_id: "peer_ok me n p \<Longrightarrow> m_id p = me \<and> m_remotesMax p = n"
  by (simp add: peer_ok_def)

lemma keeps_peer: "peer_ok (m_id p) (m_remotesMax p) p \<Longrightarrow> rsat (peer_ok (m_id p) (m_remotesMax p)) m \<Longrightarrow> m = Inr p' \<Longrightarrow>
    peer_ok (m_id p') (m_remotesMax p') p'"
  using rsatD peer_ok_same_id by metis

lemma bindings_put:
  assumes "bindings_ok b" "peer_ok (m_id p) (m_remotesMax p) p"
  shows "bindings_ok (b\<lparr>m_handlesPeer := put_handle h p (m_handlesPeer b)\<rparr>)"
  using assms table.put_ok table.get_put [of _ h p "m_handlesPeer b"] by (auto simp: bindings_ok_def split: if_splits)

lemma bindings_packet:
  assumes "bindings_ok b" "allocated a b"
  shows "bindings_ok (b\<lparr>m_handlesPacket := add_handle a x (m_handlesPacket b)\<rparr>)"
  using assms table.add_ok table.get_add [of "m_handlesPacket b" a _ x] by (auto simp: bindings_ok_def allocated_def split: if_splits)

lemma bindings_call:
  assumes ok: "bindings_ok b" and a: "\<And>a. c = C_receive a \<Longrightarrow> allocated a b" and b': "on_c_call h c b = Inr b'"
  shows "bindings_ok b'"
proof -
  obtain p where p: "find_handle h (m_handlesPeer b) = Some p" using call_dead [of h b c] b' by fastforce
  then have pok: "peer_ok (m_id p) (m_remotesMax p) p" using ok by (simp add: bindings_ok_def)
  obtain m p' where m: "on_call m p = Inr p'"
    "b' = b\<lparr>m_handlesPeer := put_handle h p' (m_handlesPeer b), m_handlesPacket := m_handlesPacket b @ received p c\<rparr>"
    using b' unfolding call_is_member_call [OF p] by auto
  have p': "bindings_ok (b\<lparr>m_handlesPeer := put_handle h p' (m_handlesPeer b)\<rparr>)" (is "bindings_ok ?b")
    by (rule bindings_put [OF ok keeps_peer [OF pok on_call_keeps [OF pok] m(1)]])
  show ?thesis
  proof (cases "received p c")
    case Nil
    then show ?thesis using m(2) p' by simp
  next
    case (Cons y ys)
    then obtain a x where c: "c = C_receive a" "received p c = [(a, x)]" by (auto simp: received_def split: c_call.splits option.splits)
    have "allocated a ?b" using a [OF c(1)] by (auto simp: allocated_def table.get_put)
    then show ?thesis using bindings_packet [OF p', of a x] m(2) c(2) by (simp add: add_handle_def)
  qed
qed

lemma bindings_event:
  assumes ok: "bindings_ok b" and b': "forget (through h (void (on_event e)) b) = Inr b'"
  shows "bindings_ok b'"
proof -
  obtain p where p: "find_handle h (m_handlesPeer b) = Some p"
    using b' by (cases "find_handle h (m_handlesPeer b)") (auto simp: forget_def through_def HandleToPeer_def)
  then have pok: "peer_ok (m_id p) (m_remotesMax p) p" using ok by (simp add: bindings_ok_def)
  obtain p' where "on_event e p = Inr p'" "b' = b\<lparr>m_handlesPeer := put_handle h p' (m_handlesPeer b)\<rparr>"
    using b' by (auto simp: forget_through [OF p] void_call)
  then show ?thesis using bindings_put [OF ok keeps_peer [OF pok on_event_keeps [OF pok]]] by simp
qed

lemma bindings_create:
  assumes ok: "bindings_ok b" and a: "allocated a b" "maxPeers + 1 < 2 ^ 64" and b': "wirefox_peer_create a rng maxPeers b = Inr (h, b')"
  shows "bindings_ok b'"
proof -
  obtain p where p: "Peer_new rng maxPeers = Inr p" "b' = b\<lparr>m_handlesPeer := add_handle a p (m_handlesPeer b)\<rparr>"
    using b' by (auto simp: wirefox_peer_create_def IPeer_Factory_Create_def)
  have "peer_ok (m_id p) (m_remotesMax p) p" using Peer_new_keeps [OF p(1) a(2)] peer_ok_same_id by metis
  then show ?thesis using ok a table.add_ok table.get_add [of "m_handlesPeer b" a _ p]
    by (auto simp: bindings_ok_def allocated_def p(2) split: if_splits)
qed

text \<open>
  C9.  Whatever a program does with the C interface, as long as the allocator hands out no live address: no two live
  objects share a handle, no live object has the null handle, no handle is both of a peer and of a packet, and every
  peer in the table is well formed.
\<close>

theorem bindings_stay_well_formed: "c_reaches b \<Longrightarrow> bindings_ok b"
proof (induction rule: c_reaches.induct)
  case c_start
  then show ?case by (simp add: bindings_ok_def Bindings_new_def handles_ok_def find_handle_def)
next
  case (c_peer_destroy b h)
  then show ?case using table.erase_ok table.get_erase [of "m_handlesPeer b"]
    by (auto simp: bindings_ok_def wirefox_peer_destroy_def split: if_splits)
next
  case (c_packet_create b a cmd data len h b')
  then show ?case using bindings_packet by (auto simp: wirefox_packet_create_def)
next
  case (c_packet_destroy b h)
  then show ?case using table.erase_ok table.get_erase [of "m_handlesPacket b"]
    by (auto simp: bindings_ok_def wirefox_packet_destroy_def split: if_splits)
qed (blast intro: bindings_create bindings_call bindings_event)+

theorem bindings_stay_well_formed_witness:
  "\<exists>b. c_reaches b \<and> m_handlesPeer b = [(64, example_new 11 1)] \<and> find_handle 128 (m_handlesPacket b) = Some (packet_of 0 20 [1, 2]) \<and>
     bindings_ok b"
proof -
  let ?b1 = "\<lparr>m_handlesPeer = [(64, example_new 11 1)], m_handlesPacket = []\<rparr>"
  let ?b2 = "\<lparr>m_handlesPeer = [(64, example_new 11 1)], m_handlesPacket = [(128, packet_of 0 20 [1, 2])]\<rparr>"
  have "wirefox_peer_create 64 [11] 1 Bindings_new = Inr (64, ?b1)"
    using example_new [of 11 1] by (simp add: wirefox_peer_create_def IPeer_Factory_Create_def Bindings_new_def add_handle_def)
  then have b1: "c_reaches ?b1" by (rule c_peer_create [OF c_start, rotated 2]) (simp_all add: allocated_def Bindings_new_def find_handle_def)
  have "Packet_of_data 20 (Some [Some 1, Some 2]) 2 = Inr (packet_of 0 20 [1, 2])"
    by (simp add: Packet_of_data_def CopyFrom_def memcpy_cells_def packet_of_def)
  then have "wirefox_packet_create 128 20 (Some [Some 1, Some 2]) 2 ?b1 = Inr (128, ?b2)"
    by (simp add: wirefox_packet_create_def add_handle_def)
  then have "c_reaches ?b2" by (rule c_packet_create [OF b1, rotated]) (simp add: allocated_def find_handle_def)
  then show ?thesis using bindings_stay_well_formed [of ?b2] by (intro exI [of _ ?b2]) (simp add: find_handle_def)
qed

section \<open>Destroyed objects\<close>

text \<open>
  Destroying a peer through its handle removes that object and nothing else: afterwards every call through the
  handle fails and destroying it again, like destroying null, does nothing; the handles of all other peers and of all packets
  still reach the same objects.  If the allocator hands out the address again, the old handle reaches the new peer.
\<close>

lemma destroyed_peer_handle:
  assumes "bindings_ok b" "b' = wirefox_peer_destroy h b"
  shows "(\<exists>e. on_c_call h c b' = Inl e) \<and> wirefox_peer_destroy h b' = b' \<and> wirefox_peer_destroy 0 b' = b' \<and>
    HandleToPacket k b' = HandleToPacket k b \<and> HandleToPeer k b' = (if k = h then Inl NullPointer else HandleToPeer k b) \<and>
    (wirefox_peer_create h rng n b' = Inr (h', b'') \<longrightarrow> IPeer_Factory_Create rng n = HandleToPeer h b'')"
proof -
  have ok: "handles_ok (m_handlesPeer b)" using assms(1) by (simp add: bindings_ok_def)
  have get: "find_handle k (m_handlesPeer b') = (if k = h then None else find_handle k (m_handlesPeer b))" for k
    using table.get_erase [OF ok, of k h] table.get_null [OF ok] by (auto simp: assms(2) wirefox_peer_destroy_def)
  then have none: "find_handle h (m_handlesPeer b') = None" by simp
  have "wirefox_peer_create h rng n b' = Inr (h', b'') \<longrightarrow> IPeer_Factory_Create rng n = HandleToPeer h b''"
    using find_add [OF none, of h] by (auto simp: wirefox_peer_create_def HandleToPeer_def)
  moreover have "wirefox_peer_destroy h b' = b'" "wirefox_peer_destroy 0 b' = b'" using none by (simp_all add: wirefox_peer_destroy_def)
  moreover have "HandleToPacket k b' = HandleToPacket k b" by (simp add: HandleToPacket_def assms(2) wirefox_peer_destroy_def)
  ultimately show ?thesis using call_dead [OF none] get [of k] by (simp add: HandleToPeer_def)
qed

lemma destroyed_peer_handle_witness:
  "\<exists>b. bindings_ok b \<and> HandleToPeer 64 b = Inr (example_new 11 1) \<and> HandleToPeer 64 (wirefox_peer_destroy 64 b) = Inl NullPointer \<and>
     HandleToPeer 96 (wirefox_peer_destroy 64 b) = Inr (example_new 12 3)"
proof -
  let ?b = "\<lparr>m_handlesPeer = [(64, example_new 11 1), (96, example_new 12 3)], m_handlesPacket = []\<rparr>"
  have "peer_ok (m_id (example_new 11 1)) (1 + 1) (example_new 11 1)" by (rule Peer_new_keeps [OF example_new]) simp_all
  moreover have "peer_ok (m_id (example_new 12 3)) (3 + 1) (example_new 12 3)" by (rule Peer_new_keeps [OF example_new]) simp_all
  ultimately have "peer_ok (m_id (example_new 11 1)) (m_remotesMax (example_new 11 1)) (example_new 11 1)"
    "peer_ok (m_id (example_new 12 3)) (m_remotesMax (example_new 12 3)) (example_new 12 3)"
    using peer_ok_same_id by metis+
  then have ok: "bindings_ok ?b" by (simp add: bindings_ok_def handles_ok_def find_handle_def)
  have "HandleToPeer 64 (wirefox_peer_destroy 64 ?b) = Inl NullPointer \<and> HandleToPeer 96 (wirefox_peer_destroy 64 ?b) = HandleToPeer 96 ?b"
    using destroyed_peer_handle [OF ok refl, of 64 C_disable_offline_ad 64 "[]" 1 0 ?b]
      destroyed_peer_handle [OF ok refl, of 64 C_disable_offline_ad 96 "[]" 1 0 ?b] by simp
  then show ?thesis using ok by (intro exI [of _ ?b]) (simp add: HandleToPeer_def find_handle_def)
qed

section \<open>A message from one handle to another\<close>

text \<open>The worker threads and sockets of two peers of the table, while the message is carried over.\<close>

definition c_settle :: "handle \<Rightarrow> slot \<Rightarrow> RemoteAddress \<Rightarrow> handle \<Rightarrow> slot \<Rightarrow> RemoteAddress \<Rightarrow> turn \<Rightarrow> Bindings \<Rightarrow> Bindings result" where
  "c_settle h i addrA k j addrB x b =
     rbind (HandleToPeer h b) (\<lambda>p. rbind (HandleToPeer k b) (\<lambda>q.
     rbind (settle i addrA j addrB x p q) (\<lambda>(p, q).
     Inr (b\<lparr>m_handlesPeer := put_handle h p (put_handle k q (m_handlesPeer b))\<rparr>))))"

lemma Packet_of_bytes: "Packet_of_data cmd (Some (map Some bs)) (length bs) = Inr (packet_of 0 cmd bs)"
  by (cases bs) (auto simp: Packet_of_data_def CopyFrom_def memcpy_cells_def packet_of_def)

text \<open>
  Through the C interface a reliable message survives the journey: a packet made from a command and a buffer and sent to
  a connected peer comes out of \<open>wirefox_peer_receive\<close> at the other end as a fresh handle, from which the command, the length
  and the bytes that went in can be read, and the identity of the sender.
\<close>

lemma c_message_ok:
  assumes p: "find_handle h (m_handlesPeer b) = Some p" and q: "find_handle k (m_handlesPeer b) = Some q" and hk: "h \<noteq> k"
    and st: "in_step 1 T i addrA who j addrB p q" and x: "turn_ok T x" "x_packet x = packet_of 0 cmd bs" "T \<le> 2 ^ 58"
    and c: "m_channels p = UNORDERED # cs" and inbox: "m_inbox q = []"
    and a: "allocated a b" "allocated a' b" "a \<noteq> a'"
  shows "\<exists>pid b1 b2 b3 b4. wirefox_packet_create a cmd (Some (map Some bs)) (length bs) b = Inr (a, b1) \<and>
    wirefox_peer_send (x_send x) h a who (x_options x) (x_priority x) 0 b1 = Inr (pid, b2) \<and>
    c_settle h i addrA k j addrB x b2 = Inr b3 \<and> wirefox_peer_receive a' k b3 = Inr (a', b4) \<and>
    wirefox_packet_get_cmd a' b4 = Inr cmd \<and> wirefox_packet_get_length a' b4 = Inr (length bs) \<and>
    wirefox_packet_get_data a' b4 = Inr (if bs = [] then None else Some (map Some bs)) \<and>
    wirefox_packet_get_sender a' b4 = Inr (rp_id (at_slot j q))"
proof -
  let ?b1 = "b\<lparr>m_handlesPacket := add_handle a (packet_of 0 cmd bs) (m_handlesPacket b)\<rparr>"
  obtain w where w: "congestion (at_slot i p) = Some w" using st by (auto simp: in_step_def)
  have st': "in_step (Suc 0) T i addrA who j addrB p q" using st by simp
  obtain pid p1 p2 q2 where run: "Send (x_send x) (packet_of 0 cmd bs) who (x_options x) (x_priority x) Channel_default p = Inr (pid, p1)"
    "settle i addrA j addrB x p1 q = Inr (p2, q2)" "m_inbox q2 = [packet_of (rp_id (at_slot j q)) cmd bs]"
    using turn_settles [OF st' x(1,3) w] inbox x(2) by auto
  let ?b2 = "?b1\<lparr>m_handlesPeer := put_handle h p1 (m_handlesPeer b)\<rparr>"
  let ?b3 = "?b2\<lparr>m_handlesPeer := put_handle h p2 (put_handle k q2 (m_handlesPeer ?b2))\<rparr>"
  have pk: "find_handle a (m_handlesPacket ?b1) = Some (packet_of 0 cmd bs)" using a(1) by (simp add: find_add allocated_def)
  have "wirefox_packet_create a cmd (Some (map Some bs)) (length bs) b = Inr (a, ?b1)"
    by (simp add: wirefox_packet_create_def Packet_of_bytes)
  moreover have "wirefox_peer_send (x_send x) h a who (x_options x) (x_priority x) 0 ?b1 = Inr (pid, ?b2)"
    using p pk run(1) c by (simp add: wirefox_peer_send_def HandleToPeer_def HandleToPacket_def GetChannelModeByIndex_def through_live Channel_default_def)
  moreover have "c_settle h i addrA k j addrB x ?b2 = Inr ?b3"
    using p q hk run(2) by (simp add: c_settle_def HandleToPeer_def table.get_put)
  moreover have "find_handle k (m_handlesPeer ?b3) = Some q2" using q hk by (simp add: table.get_put)
  then have "wirefox_peer_receive a' k ?b3 = Inr (a', ?b3\<lparr>m_handlesPeer := put_handle k (q2\<lparr>m_inbox := []\<rparr>) (m_handlesPeer ?b3),
      m_handlesPacket := add_handle a' (packet_of (rp_id (at_slot j q)) cmd bs) (m_handlesPacket ?b1)\<rparr>)" (is "_ = Inr (_, ?b4)")
    using run(3) by (simp add: wirefox_peer_receive_def through_live Receive_def DequeueIncoming_def)
  moreover have "find_handle a' (m_handlesPacket ?b4) = Some (packet_of (rp_id (at_slot j q)) cmd bs)"
    using a by (simp add: find_add allocated_def)
  ultimately show ?thesis
    by (auto simp: wirefox_packet_get_cmd_def wirefox_packet_get_length_def wirefox_packet_get_data_def wirefox_packet_get_sender_def
        HandleToPacket_def packet_of_def)
qed

text \<open>
  The advertisement of a C program is wrapped in a read-only stream whose capacity is its length.  The peer can copy such a stream only when
  the length is a power of two.
\<close>

lemma c_advertisement_iff:
  assumes "find_handle h (m_handlesPeer b) = Some p" "\<not> m_readonly (m_advertisement p)" "m_length (m_advertisement p) = 0"
    and "0 < length ad" "length ad \<le> 2 ^ 32"
  shows "(\<exists>b'. wirefox_peer_set_offline_ad h (Some (map Some ad)) (length ad) b = Inr ((), b')) \<longleftrightarrow> (\<exists>k. length ad = 2 ^ k)"
proof -
  obtain other where w: "BinaryStream_wrap (Some (map Some ad)) (length ad) READONLY = Inr other" by (simp add: BinaryStream_wrap_def)
  have "(\<exists>b'. wirefox_peer_set_offline_ad h (Some (map Some ad)) (length ad) b = Inr ((), b')) \<longleftrightarrow>
      (\<exists>s. BinaryStream_assign (m_advertisement p) other = Inr s)"
    using assms(1) w by (auto simp: wirefox_peer_set_offline_ad_def through_def void_def HandleToPeer_def SetOfflineAdvertisement_def)
  then show ?thesis using assign_readonly_iff [OF assms(4,5,2,3) w] by simp
qed

end
