(* ===== verification/Peer_Move.thy ===== *)
theory Peer_Move
  imports Connecting
begin

text \<open>
  The move operations of \<^verbatim>\<open>source/Peer.cpp\<close>.  Here the members of the class that are pointers matter: the socket, the
  slots and the queue of a peer object may be null, and a queue refers to the peer object it was built by, by its address.
  The other theories model a peer that was never moved, in which all three exist.
\<close>

record PacketQueueObject =
  q_peer :: nat   \<comment> \<open>the address in \<^verbatim>\<open>m_peer\<close>\<close>
  q_inbox :: "Packet list"
  q_abort :: bool
  q_thread :: bool

record PeerObject =
  o_id :: PeerID
  o_remotesMax :: nat
  o_remotesIncoming :: nat
  o_advertisement :: BinaryStream
  o_rpc :: "callback RpcController"
  o_masterSocket :: "(slot, slot \<times> DatagramID) SocketUDP option"
  o_remotes :: "RemotePeer list option"
  o_queue :: "PacketQueueObject option"
  o_remoteLookup :: "PeerID \<rightharpoonup> slot"
  o_channels :: "ChannelMode list"
  o_crypto_identity :: "Keypair option"
  o_crypto_enabled :: bool

text \<open>The object of a peer that lives at an address.\<close>

definition object_of :: "nat \<Rightarrow> Peer \<Rightarrow> PeerObject" where
  "object_of a p = \<lparr>o_id = m_id p, o_remotesMax = m_remotesMax p, o_remotesIncoming = m_remotesIncoming p,
     o_advertisement = m_advertisement p, o_rpc = m_rpc p, o_masterSocket = Some (m_masterSocket p),
     o_remotes = Some (m_remotes p), o_queue = Some \<lparr>q_peer = a, q_inbox = m_inbox p,
       q_abort = m_updateThreadAbort p, q_thread = m_updateThread p\<rparr>,
     o_remoteLookup = m_remoteLookup p, o_channels = m_channels p, o_crypto_identity = m_crypto_identity p,
     o_crypto_enabled = m_crypto_enabled p\<rparr>"

definition Peer_move_assign :: "PeerObject \<Rightarrow> PeerObject \<Rightarrow> PeerObject \<times> PeerObject" where
  "Peer_move_assign this other =
     (this\<lparr>o_id := o_id other, o_remotesMax := o_remotesMax other, o_remotesIncoming := o_remotesIncoming other,
           o_masterSocket := o_masterSocket other, o_remotes := o_remotes other, o_queue := o_queue other,
           o_remoteLookup := o_remoteLookup other, o_channels := o_channels other\<rparr>,
      other\<lparr>o_id := 0, o_remotesMax := 0, o_remotesIncoming := 0, o_masterSocket := None, o_remotes := None,
            o_queue := None, o_remoteLookup := Map.empty, o_channels := []\<rparr>)"

definition Peer_moved :: "PeerObject \<Rightarrow> PeerObject \<times> PeerObject" where
  "Peer_moved other = Peer_move_assign
     \<lparr>o_id = 0, o_remotesMax = 0, o_remotesIncoming = 0, o_advertisement = BinaryStream_new 0, o_rpc = RpcController_new,
      o_masterSocket = None, o_remotes = None, o_queue = None, o_remoteLookup = Map.empty, o_channels = [],
      o_crypto_identity = None, o_crypto_enabled = False\<rparr> other"

definition PeerObject_destroy :: "PeerObject \<Rightarrow> PeerObject result" where
  "PeerObject_destroy this = (case o_masterSocket this of None \<Rightarrow> Inl NullPointer
     | Some sock \<Rightarrow> (let this = this\<lparr>o_masterSocket := Some (SocketUDP_Unbind sock)\<rparr>
         in case o_queue this of None \<Rightarrow> Inl NullPointer
            | Some q \<Rightarrow> Inr (this\<lparr>o_queue := Some (q\<lparr>q_abort := True, q_thread := False\<rparr>)\<rparr>)))"

text \<open>A peer that was not moved is destroyed as the other theories say.\<close>

lemma destroy_unmoved: "PeerObject_destroy (object_of a p) = Inr (object_of a (Peer_destroy p))"
  by (simp add: PeerObject_destroy_def object_of_def Peer_destroy_def PacketQueue_Stop_def Let_def)

text \<open>
  Moving a peer leaves neither object usable.  The new one has the slots, the socket and the queue, but the queue goes on
  working for the old object, and the offline advertisement, the registered procedures and the encryption settings stay behind; the old one cannot
  even be destroyed, since its destructor follows the null pointer that the move left.
\<close>

lemma moved_peer_broken:
  assumes "Peer_moved (object_of a p) = (new, old)"
  shows "PeerObject_destroy old = Inl NullPointer \<and> o_remotes old = None \<and>
    o_remotes new = Some (m_remotes p) \<and> map_option q_peer (o_queue new) = Some a \<and>
    \<not> o_crypto_enabled new \<and> o_crypto_identity new = None \<and> o_rpc new = RpcController_new \<and>
    m_length (o_advertisement new) = 0 \<and> o_rpc old = m_rpc p \<and> o_crypto_enabled old = m_crypto_enabled p"
  using assms by (auto simp: Peer_moved_def Peer_move_assign_def object_of_def PeerObject_destroy_def BinaryStream_new_def)

end
