(* ===== verification/Battle_Board.thy ===== *)
theory Battle_Board
  imports Config "HOL-Library.AList"
begin

text \<open>
  The boards of the Battleships example: \<^verbatim>\<open>Ship.cs\<close>, \<^verbatim>\<open>Board.cs\<close> and \<^verbatim>\<open>BoardPosition.cs\<close>
  under \<^verbatim>\<open>examples/Battleships\<close>.  Enumerations are numbers, since a cast from a byte makes any number one of
  them.  A dictionary is the list of its entries in the order of enumeration; \<^verbatim>\<open>ArgumentOutOfRangeException\<close> is
  the failure \<open>OutOfRange\<close>.
\<close>

section \<open>Ships\<close>

type_synonym ShipType = nat

definition Carrier :: ShipType where "Carrier = 0"
definition Battleship :: ShipType where "Battleship = 1"
definition Cruiser :: ShipType where "Cruiser = 2"
definition Submarine :: ShipType where "Submarine = 3"
definition Destroyer :: ShipType where "Destroyer = 4"

type_synonym ShipOrientation = nat

definition Horizontal :: ShipOrientation where "Horizontal = 0"
definition Vertical :: ShipOrientation where "Vertical = 1"

lemmas ship_types = Carrier_def Battleship_def Cruiser_def Submarine_def Destroyer_def

type_synonym ShotResult = nat

definition Miss :: ShotResult where "Miss = 0"
definition Hit :: ShotResult where "Hit = 1"

lemma shot_results [simp]: "Miss \<noteq> Hit" "Hit \<noteq> Miss"
  by (simp_all add: Miss_def Hit_def)

record BoardPosition =
  bp_x :: int
  bp_y :: int

definition Dimensions :: int where "Dimensions = 10"

definition IsWithinBoard :: "BoardPosition \<Rightarrow> bool" where
  "IsWithinBoard p \<longleftrightarrow> bp_x p \<ge> 0 \<and> bp_y p \<ge> 0 \<and> bp_x p < Dimensions \<and> bp_y p < Dimensions"

record Ship =
  sh_Type :: ShipType
  Orientation :: ShipOrientation
  Position :: BoardPosition
  Damage :: "bool list"

definition Ship_new :: "ShipType \<Rightarrow> Ship" where
  "Ship_new type = \<lparr>sh_Type = type, Orientation = Horizontal, Position = \<lparr>bp_x = 0, bp_y = 0\<rparr>, Damage = replicate 5 False\<rparr>"

definition GetShipLength :: "Ship \<Rightarrow> nat result" where
  "GetShipLength s =
     (if sh_Type s = Carrier then Inr 5
      else if sh_Type s = Battleship then Inr 4
      else if sh_Type s = Cruiser \<or> sh_Type s = Submarine then Inr 3
      else if sh_Type s = Destroyer then Inr 2
      else Inl OutOfRange)"

definition Overlaps :: "BoardPosition \<Rightarrow> Ship \<Rightarrow> (bool \<times> int) result" where
  "Overlaps shot s =
     (let check = (\<lambda>index. if index < 0 then Inr (False, index)
            else rbind (GetShipLength s) (\<lambda>n. Inr (index < int n, index)))
      in if Orientation s = Horizontal
         then if bp_y shot \<noteq> bp_y (Position s) then Inr (False, - 1) else check (bp_x shot - bp_x (Position s))
         else if bp_x shot \<noteq> bp_x (Position s) then Inr (False, - 1) else check (bp_y shot - bp_y (Position s)))"

definition Ship_DoIncomingShotAt :: "BoardPosition \<Rightarrow> Ship \<Rightarrow> (bool \<times> Ship) result" where
  "Ship_DoIncomingShotAt shot s = rbind (Overlaps shot s) (\<lambda>(hit, index).
     if \<not> hit then Inr (False, s)
     else if nat index < length (Damage s) then Inr (True, s\<lparr>Damage := (Damage s)[nat index := True]\<rparr>)
     else Inl OutOfBounds)"

text \<open>The loops over indices and entries that stop at the first that decides.\<close>

fun rany :: "('a \<Rightarrow> bool result) \<Rightarrow> 'a list \<Rightarrow> bool result" where
  "rany f [] = Inr False"
| "rany f (x # xs) = rbind (f x) (\<lambda>found. if found then Inr True else rany f xs)"

definition rall :: "('a \<Rightarrow> bool result) \<Rightarrow> 'a list \<Rightarrow> bool result" where
  "rall f xs = rbind (rany (\<lambda>x. rbind (f x) (\<lambda>b. Inr (\<not> b))) xs) (\<lambda>b. Inr (\<not> b))"

definition IsSunk :: "Ship \<Rightarrow> bool result" where
  "IsSunk s = rbind (GetShipLength s) (\<lambda>n.
     rall (\<lambda>i. if i < length (Damage s) then Inr (Damage s ! i) else Inl OutOfBounds) [0..<n])"

section \<open>Boards\<close>

record Board =
  Ships :: "(ShipType \<times> Ship) list"
  Shots :: "(BoardPosition \<times> ShotResult) list"

definition Board_new :: Board where
  "Board_new = \<lparr>Ships = [], Shots = []\<rparr>"

definition PlaceShip :: "ShipType \<Rightarrow> Ship \<Rightarrow> Board \<Rightarrow> Board" where
  "PlaceShip type data b = b\<lparr>Ships := AList.update type data (Ships b)\<rparr>"

definition RemoveShip :: "ShipType \<Rightarrow> Board \<Rightarrow> Board" where
  "RemoveShip type b = b\<lparr>Ships := AList.delete type (Ships b)\<rparr>"

fun shoot_ships :: "BoardPosition \<Rightarrow> (ShipType \<times> Ship) list \<Rightarrow> ((ShotResult \<times> ShipType) \<times> (ShipType \<times> Ship) list) result" where
  "shoot_ships shot [] = Inr ((Miss, 0), [])"
| "shoot_ships shot (e # es) = rbind (Ship_DoIncomingShotAt shot (snd e)) (\<lambda>(hit, s).
     if hit then Inr ((Hit, sh_Type s), (fst e, s) # es)
     else rbind (shoot_ships shot es) (\<lambda>(res, es). Inr (res, (fst e, s) # es)))"

definition DoIncomingShotAt :: "BoardPosition \<Rightarrow> Board \<Rightarrow> ((ShotResult \<times> ShipType) \<times> Board) result" where
  "DoIncomingShotAt shot b = rbind (shoot_ships shot (Ships b)) (\<lambda>(res, ships). Inr (res, b\<lparr>Ships := ships\<rparr>))"

definition SetShotResultAt :: "BoardPosition \<Rightarrow> ShotResult \<Rightarrow> Board \<Rightarrow> Board" where
  "SetShotResultAt shot res b = b\<lparr>Shots := AList.update shot res (Shots b)\<rparr>"

definition IsCellOccupied :: "BoardPosition \<Rightarrow> Board \<Rightarrow> bool result" where
  "IsCellOccupied pos b = rany (\<lambda>e. rbind (Overlaps pos (snd e)) (\<lambda>(hit, _). Inr hit)) (Ships b)"

definition CanPlaceShip :: "Ship \<Rightarrow> Board \<Rightarrow> bool result" where
  "CanPlaceShip ship b =
     rbind (GetShipLength ship) (\<lambda>n.
     let min = Position ship;
         max = (if Orientation ship = Horizontal then min\<lparr>bp_x := bp_x min + int n - 1\<rparr> else min\<lparr>bp_y := bp_y min + int n - 1\<rparr>)
     in if \<not> IsWithinBoard min then Inr False
        else if \<not> IsWithinBoard max then Inr False
        else rbind (rany (\<lambda>(x, y). IsCellOccupied \<lparr>bp_x = x, bp_y = y\<rparr> b)
               [(x, y). x \<leftarrow> [bp_x min..bp_x max], y \<leftarrow> [bp_y min..bp_y max]]) (\<lambda>occupied. Inr (\<not> occupied)))"

definition GetAllShipsSunk :: "Board \<Rightarrow> bool result" where
  "GetAllShipsSunk b = rall (\<lambda>e. IsSunk (snd e)) (Ships b)"

section \<open>The cells of a fleet\<close>

text \<open>The length of a ship, the cell with an index, and all its cells.\<close>

definition len :: "ShipType \<Rightarrow> nat" where
  "len t = [5, 4, 3, 3, 2] ! t"

definition cell_at :: "Ship \<Rightarrow> nat \<Rightarrow> BoardPosition" where
  "cell_at s i = (if Orientation s = Horizontal then (Position s)\<lparr>bp_x := bp_x (Position s) + int i\<rparr>
     else (Position s)\<lparr>bp_y := bp_y (Position s) + int i\<rparr>)"

definition cells :: "Ship \<Rightarrow> BoardPosition set" where
  "cells s = cell_at s ` {..<len (sh_Type s)}"

definition occupied :: "Board \<Rightarrow> BoardPosition set" where
  "occupied b = (\<Union>s \<in> snd ` set (Ships b). cells s)"

definition grid :: "BoardPosition set" where
  "grid = {p. IsWithinBoard p}"

definition shot_cells :: "Board \<Rightarrow> BoardPosition set" where
  "shot_cells b = fst ` set (Shots b)"

definition ship_ok :: "Ship \<Rightarrow> bool" where
  "ship_ok s \<longleftrightarrow> sh_Type s < 5 \<and> length (Damage s) = 5 \<and> Orientation s < 256 \<and> cells s \<subseteq> grid"

definition board_ok :: "Board \<Rightarrow> bool" where
  "board_ok b \<longleftrightarrow> distinct (map fst (Ships b)) \<and> (\<forall>t s. (t, s) \<in> set (Ships b) \<longrightarrow> sh_Type s = t \<and> ship_ok s) \<and>
     (\<forall>t s t' s'. (t, s) \<in> set (Ships b) \<longrightarrow> (t', s') \<in> set (Ships b) \<longrightarrow> t \<noteq> t' \<longrightarrow> cells s \<inter> cells s' = {}) \<and>
     shot_cells b \<subseteq> grid"

text \<open>The damage of every ship is what the shots did.\<close>

definition damage_ok :: "Board \<Rightarrow> bool" where
  "damage_ok b \<longleftrightarrow> (\<forall>t s i. (t, s) \<in> set (Ships b) \<longrightarrow> i < len t \<longrightarrow> Damage s ! i = (cell_at s i \<in> shot_cells b)) \<and>
     (\<forall>p r. (p, r) \<in> set (Shots b) \<longrightarrow> (r = Hit) = (p \<in> occupied b))"

lemma rany_Inr: "(\<And>x. x \<in> set xs \<Longrightarrow> f x = Inr (P x)) \<Longrightarrow> rany f xs = Inr (\<exists>x \<in> set xs. P x)"
  by (induction xs) auto

lemma rall_Inr: "(\<And>x. x \<in> set xs \<Longrightarrow> f x = Inr (P x)) \<Longrightarrow> rall f xs = Inr (\<forall>x \<in> set xs. P x)"
  unfolding rall_def by (subst rany_Inr [where P = "\<lambda>x. \<not> P x"]) auto

lemma GetShipLength_ok: "sh_Type s < 5 \<Longrightarrow> GetShipLength s = Inr (len (sh_Type s))"
  by (auto simp: GetShipLength_def ship_types len_def less_Suc_eq numeral_eq_Suc)

lemma len_bounds: "t < 5 \<Longrightarrow> 0 < len t \<and> len t \<le> 5"
  by (auto simp: len_def less_Suc_eq numeral_eq_Suc)

lemma cell_at_inj: "cell_at s i = cell_at s j \<longleftrightarrow> i = j"
  by (auto simp: cell_at_def) (metis BoardPosition.select_convs BoardPosition.surjective BoardPosition.update_convs add_left_cancel of_nat_eq_iff)+

lemma in_cells:
  assumes "sh_Type s < 5"
  shows "p \<in> cells s \<longleftrightarrow> (if Orientation s = Horizontal
      then bp_y p = bp_y (Position s) \<and> 0 \<le> bp_x p - bp_x (Position s) \<and> bp_x p - bp_x (Position s) < int (len (sh_Type s))
      else bp_x p = bp_x (Position s) \<and> 0 \<le> bp_y p - bp_y (Position s) \<and> bp_y p - bp_y (Position s) < int (len (sh_Type s)))"
    (is "_ \<longleftrightarrow> ?R")
proof
  assume ?R
  then have "p = cell_at s (nat (if Orientation s = Horizontal then bp_x p - bp_x (Position s) else bp_y p - bp_y (Position s)))"
    "nat (if Orientation s = Horizontal then bp_x p - bp_x (Position s) else bp_y p - bp_y (Position s)) < len (sh_Type s)"
    by (auto simp: cell_at_def split: if_splits)
  then show "p \<in> cells s" unfolding cells_def by blast
qed (auto simp: cells_def cell_at_def)

lemma Overlaps_ok:
  assumes "sh_Type s < 5"
  shows "\<exists>k. Overlaps p s = Inr (p \<in> cells s, k) \<and> (p \<in> cells s \<longrightarrow> 0 \<le> k \<and> nat k < len (sh_Type s) \<and> p = cell_at s (nat k))"
  using in_cells [OF assms, of p] GetShipLength_ok [OF assms]
  by (auto simp: Overlaps_def Let_def cell_at_def split: if_splits)

lemma Ship_shot:
  assumes "ship_ok s"
  shows "p \<notin> cells s \<Longrightarrow> Ship_DoIncomingShotAt p s = Inr (False, s)"
    "i < len (sh_Type s) \<Longrightarrow> Ship_DoIncomingShotAt (cell_at s i) s = Inr (True, s\<lparr>Damage := (Damage s)[i := True]\<rparr>)"
proof -
  have t: "sh_Type s < 5" using assms by (simp add: ship_ok_def)
  show "p \<notin> cells s \<Longrightarrow> Ship_DoIncomingShotAt p s = Inr (False, s)"
    using Overlaps_ok [OF t, of p] by (auto simp: Ship_DoIncomingShotAt_def)
  assume i: "i < len (sh_Type s)"
  then have "cell_at s i \<in> cells s" by (simp add: cells_def)
  then obtain k where "Overlaps (cell_at s i) s = Inr (True, k)" "nat k = i"
    using Overlaps_ok [OF t, of "cell_at s i"] by (auto simp: cell_at_inj)
  then show "Ship_DoIncomingShotAt (cell_at s i) s = Inr (True, s\<lparr>Damage := (Damage s)[i := True]\<rparr>)"
    using assms i len_bounds [OF t] by (simp add: Ship_DoIncomingShotAt_def ship_ok_def)
qed

lemma IsSunk_ok: "ship_ok s \<Longrightarrow> IsSunk s = Inr (\<forall>i < len (sh_Type s). Damage s ! i)"
  using len_bounds [of "sh_Type s"] unfolding IsSunk_def
  by (simp add: ship_ok_def GetShipLength_ok) (subst rall_Inr [where P = "\<lambda>i. Damage s ! i"], auto)

lemma board_okD:
  assumes "board_ok b" "(t, s) \<in> set (Ships b)"
  shows "sh_Type s = t" "ship_ok s" "t < 5" "\<And>t' s'. (t', s') \<in> set (Ships b) \<Longrightarrow> t' \<noteq> t \<Longrightarrow> cells s \<inter> cells s' = {}"
  using assms unfolding board_ok_def ship_ok_def by blast+

lemma IsCellOccupied_ok:
  assumes "board_ok b"
  shows "IsCellOccupied p b = Inr (p \<in> occupied b)"
proof -
  have "rbind (Overlaps p (snd e)) (\<lambda>(hit, _). Inr hit) = Inr (p \<in> cells (snd e))" if "e \<in> set (Ships b)" for e
  proof -
    have "sh_Type (snd e) < 5" using board_okD(1,3) [OF assms, of "fst e" "snd e"] that by simp
    then show ?thesis using Overlaps_ok [of "snd e" p] by auto
  qed
  then show ?thesis unfolding IsCellOccupied_def occupied_def
    by (subst rany_Inr [where P = "\<lambda>e. p \<in> cells (snd e)"]) auto
qed

text \<open>The rectangle that is searched is the ship.\<close>

lemma grid_iff: "p \<in> grid \<longleftrightarrow> 0 \<le> bp_x p \<and> bp_x p < 10 \<and> 0 \<le> bp_y p \<and> bp_y p < 10"
  by (auto simp: grid_def IsWithinBoard_def Dimensions_def)

lemma CanPlaceShip_ok:
  assumes b: "board_ok b" and t: "sh_Type s < 5"
  shows "CanPlaceShip s b = Inr (cells s \<subseteq> grid \<and> cells s \<inter> occupied b = {})"
proof -
  let ?n = "len (sh_Type s)" and ?m = "Position s"
  let ?M = "if Orientation s = Horizontal then ?m\<lparr>bp_x := bp_x ?m + int ?n - 1\<rparr> else ?m\<lparr>bp_y := bp_y ?m + int ?n - 1\<rparr>"
  let ?L = "[(x, y). x \<leftarrow> [bp_x ?m..bp_x ?M], y \<leftarrow> [bp_y ?m..bp_y ?M]]"
  have n: "0 < ?n" using len_bounds [OF t] by simp
  have M: "?M = cell_at s (?n - 1)" "?m = cell_at s 0" using n by (auto simp: cell_at_def of_nat_diff)
  then have "?M \<in> cells s" "?m \<in> cells s" using n by (auto simp: cells_def)
  moreover have "cell_at s i \<in> grid" if "?M \<in> grid" "?m \<in> grid" "i < ?n" for i
    using that by (auto simp: grid_iff cell_at_def split: if_splits)
  ultimately have grid: "cells s \<subseteq> grid \<longleftrightarrow> ?m \<in> grid \<and> ?M \<in> grid" by (auto simp: cells_def)
  define L where "L = ?L"
  have "(x, y) \<in> set L \<longleftrightarrow> bp_x ?m \<le> x \<and> x \<le> bp_x ?M \<and> bp_y ?m \<le> y \<and> y \<le> bp_y ?M" for x y by (auto simp: L_def)
  then have mem: "(x, y) \<in> set L \<longleftrightarrow> \<lparr>bp_x = x, bp_y = y\<rparr> \<in> cells s" for x y
    using n by (auto simp: in_cells [OF t])
  have occ: "(\<exists>e \<in> set L. \<lparr>bp_x = fst e, bp_y = snd e\<rparr> \<in> occupied b) \<longleftrightarrow> cells s \<inter> occupied b \<noteq> {}"
  proof
    assume "cells s \<inter> occupied b \<noteq> {}"
    then obtain x y where "\<lparr>bp_x = x, bp_y = y\<rparr> \<in> cells s \<inter> occupied b" by (metis BoardPosition.cases ex_in_conv)
    then show "\<exists>e \<in> set L. \<lparr>bp_x = fst e, bp_y = snd e\<rparr> \<in> occupied b" using mem [of x y] by force
  qed (use mem in auto)
  have "rany (\<lambda>(x, y). IsCellOccupied \<lparr>bp_x = x, bp_y = y\<rparr> b) L = Inr (\<exists>e \<in> set L. \<lparr>bp_x = fst e, bp_y = snd e\<rparr> \<in> occupied b)"
    by (rule rany_Inr) (simp add: IsCellOccupied_ok [OF b] split_beta)
  then show ?thesis
    using grid occ unfolding CanPlaceShip_def GetShipLength_ok [OF t] rbind_simps Let_def grid_def L_def by simp
qed

section \<open>Placing\<close>

lemma set_update: "distinct (map fst xs) \<Longrightarrow> set (AList.update k v xs) = insert (k, v) {e \<in> set xs. fst e \<noteq> k}"
  by (induction xs) (force split: if_splits)+

lemma length_update_in: "k \<in> fst ` set xs \<Longrightarrow> length (AList.update k v xs) = length xs"
  by (induction xs) auto

lemma update_keys: "fst ` set (AList.update k v xs) = insert k (fst ` set xs)"
  by (induction xs) auto

lemma PlaceShip_ok:
  assumes b: "board_ok b" and s: "sh_Type s = t" "ship_ok s" "\<And>t' s'. (t', s') \<in> set (Ships b) \<Longrightarrow> t' \<noteq> t \<Longrightarrow> cells s \<inter> cells s' = {}"
  shows "board_ok (PlaceShip t s b)" "set (Ships (PlaceShip t s b)) = insert (t, s) {e \<in> set (Ships b). fst e \<noteq> t}"
    "Shots (PlaceShip t s b) = Shots b"
proof -
  have d: "distinct (map fst (Ships b))" using b by (simp add: board_ok_def)
  show set: "set (Ships (PlaceShip t s b)) = insert (t, s) {e \<in> set (Ships b). fst e \<noteq> t}" "Shots (PlaceShip t s b) = Shots b"
    by (simp_all add: PlaceShip_def set_update [OF d])
  have "cells s1 \<inter> cells s2 = {}" if "(t1, s1) \<in> set (Ships (PlaceShip t s b))" "(t2, s2) \<in> set (Ships (PlaceShip t s b))" "t1 \<noteq> t2" for t1 s1 t2 s2
  proof (cases "t1 = t \<or> t2 = t")
    case True
    then show ?thesis using that s(3) [of t1 s1] s(3) [of t2 s2] unfolding set by auto
  next
    case False
    then show ?thesis using that b unfolding set board_ok_def by auto
  qed
  moreover have "sh_Type s1 = t1 \<and> ship_ok s1" if "(t1, s1) \<in> set (Ships (PlaceShip t s b))" for t1 s1
    using that b s(1,2) unfolding set board_ok_def by auto
  moreover have "distinct (map fst (Ships (PlaceShip t s b)))" using distinct_update [OF d] by (simp add: PlaceShip_def)
  moreover have "shot_cells (PlaceShip t s b) \<subseteq> grid" using b by (simp add: board_ok_def shot_cells_def set)
  ultimately show "board_ok (PlaceShip t s b)" unfolding board_ok_def by simp
qed

lemma damage_ok_unshot:
  assumes "\<And>t s i. (t, s) \<in> set (Ships b) \<Longrightarrow> i < len t \<Longrightarrow> \<not> Damage s ! i" "Shots b = []"
  shows "damage_ok b"
  using assms by (simp add: damage_ok_def shot_cells_def)

section \<open>Shooting\<close>

text \<open>The ships after a cell was hit.\<close>

definition damaged :: "nat \<Rightarrow> Ship \<Rightarrow> Ship" where
  "damaged i s = s\<lparr>Damage := (Damage s)[i := True]\<rparr>"

lemma damaged_simps [simp]:
  "sh_Type (damaged i s) = sh_Type s" "cell_at (damaged i s) = cell_at s" "cells (damaged i s) = cells s"
  "ship_ok (damaged i s) = ship_ok s" "Damage (damaged i s) = (Damage s)[i := True]" "Position (damaged i s) = Position s"
  "Orientation (damaged i s) = Orientation s"
proof -
  show c: "cell_at (damaged i s) = cell_at s" by (auto simp: damaged_def cell_at_def fun_eq_iff)
  show "cells (damaged i s) = cells s" using c by (simp add: cells_def damaged_def)
  then show "ship_ok (damaged i s) = ship_ok s" by (simp add: ship_ok_def damaged_def)
qed (simp_all add: damaged_def)

lemma shoot_ships_miss:
  assumes "\<forall>e \<in> set es. ship_ok (snd e) \<and> p \<notin> cells (snd e)"
  shows "shoot_ships p es = Inr ((Miss, 0), es)"
  using assms by (induction es) (auto simp: Ship_shot)

lemma shoot_ships_hit:
  assumes "\<forall>e \<in> set es. ship_ok (snd e) \<and> (fst e \<noteq> t \<longrightarrow> cell_at s i \<notin> cells (snd e))" "distinct (map fst es)"
    "(t, s) \<in> set es" "sh_Type s = t" "i < len t"
  shows "shoot_ships (cell_at s i) es = Inr ((Hit, t), AList.update t (damaged i s) es)"
  using assms
proof (induction es)
  case Nil
  then show ?case by simp
next
  case (Cons e es)
  show ?case
  proof (cases "e = (t, s)")
    case True
    then show ?thesis using Cons.prems Ship_shot(2) [of s i] by (simp add: damaged_def)
  next
    case False
    then have "(t, s) \<in> set es" "fst e \<noteq> t" using Cons.prems(2,3) by (auto simp: image_iff)
    moreover have "Ship_DoIncomingShotAt (cell_at s i) (snd e) = Inr (False, snd e)"
      using Cons.prems(1) \<open>fst e \<noteq> t\<close> by (intro Ship_shot(1)) auto
    ultimately show ?thesis using Cons by (cases e) simp
  qed
qed

text \<open>A shot and its record; the ships stay where they are.\<close>

definition same_places :: "Board \<Rightarrow> Board \<Rightarrow> bool" where
  "same_places b b' \<longleftrightarrow> (\<forall>t s. (t, s) \<in> set (Ships b) \<longrightarrow>
     (\<exists>s'. (t, s') \<in> set (Ships b') \<and> Position s' = Position s \<and> Orientation s' = Orientation s \<and> cells s' = cells s))"

definition after_shot :: "BoardPosition \<Rightarrow> ShotResult \<Rightarrow> Board \<Rightarrow> Board \<Rightarrow> bool" where
  "after_shot p r b b' \<longleftrightarrow> shot_cells b' = insert p (shot_cells b) \<and> occupied b' = occupied b \<and>
     Shots b' = AList.update p r (Shots b) \<and> same_places b b' \<and> fst ` set (Ships b') = fst ` set (Ships b) \<and> length (Ships b') = length (Ships b)"

lemma Shots_keep:
  assumes b: "damage_ok b" and p: "p \<notin> shot_cells b" and o: "occupied b' = occupied b"
    "Shots b' = AList.update p r (Shots b)" "r = Hit \<longleftrightarrow> p \<in> occupied b"
  shows "\<forall>p r. (p, r) \<in> set (Shots b') \<longrightarrow> (r = Hit) = (p \<in> occupied b')"
proof -
  have "set (AList.update p r xs) \<subseteq> insert (p, r) (set xs)" for xs by (induction xs) auto
  then have "(q, r') \<in> set (Shots b') \<Longrightarrow> (q, r') = (p, r) \<or> (q, r') \<in> set (Shots b)" for q r' unfolding o(2) by blast
  then show ?thesis using b o(1,3) unfolding damage_ok_def by blast
qed

lemma shot_cells_update: "shot_cells (SetShotResultAt p r b) = insert p (shot_cells b)"
  by (simp add: shot_cells_def SetShotResultAt_def update_keys)

lemma shot_miss:
  assumes ok: "board_ok b" "damage_ok b" and p: "p \<in> grid" "p \<notin> shot_cells b" "p \<notin> occupied b"
  shows "DoIncomingShotAt p b = Inr ((Miss, 0), b)" "board_ok (SetShotResultAt p Miss b)" "damage_ok (SetShotResultAt p Miss b)"
    "after_shot p Miss b (SetShotResultAt p Miss b)"
proof -
  let ?b = "SetShotResultAt p Miss b"
  have "\<forall>e \<in> set (Ships b). ship_ok (snd e) \<and> p \<notin> cells (snd e)" using board_okD [OF ok(1)] p(3) by (force simp: occupied_def)
  then show "DoIncomingShotAt p b = Inr ((Miss, 0), b)" by (simp add: DoIncomingShotAt_def shoot_ships_miss)
  have b: "Ships ?b = Ships b" "occupied ?b = occupied b" by (simp_all add: SetShotResultAt_def occupied_def)
  show "after_shot p Miss b ?b" by (auto simp add: after_shot_def shot_cells_update b same_places_def) (simp add: SetShotResultAt_def)
  show "board_ok ?b" using ok(1) p(1) by (simp add: board_ok_def b(1) shot_cells_update)
  have "cell_at s i \<noteq> p" if "(t, s) \<in> set (Ships b)" "i < len t" for t s i
    using that p(3) board_okD(1) [OF ok(1) that(1)] by (force simp: occupied_def cells_def)
  then show "damage_ok ?b"
    using ok(2) Shots_keep [OF ok(2) p(2) b(2), of Miss] p(3)
    unfolding damage_ok_def b(1) shot_cells_update by (simp add: SetShotResultAt_def)
qed

lemma shot_hit:
  assumes ok: "board_ok b" "damage_ok b" and p: "cell_at s i \<notin> shot_cells b" "(t, s) \<in> set (Ships b)" "i < len t"
  defines "b1 \<equiv> PlaceShip t (damaged i s) b" and "b' \<equiv> SetShotResultAt (cell_at s i) Hit (PlaceShip t (damaged i s) b)"
  shows "DoIncomingShotAt (cell_at s i) b = Inr ((Hit, t), b1)" "board_ok b'" "damage_ok b'" "after_shot (cell_at s i) Hit b b'"
    "map_of (Ships b1) t = Some (damaged i s)"
proof -
  let ?p = "cell_at s i"
  note s = board_okD [OF ok(1) p(2)]
  have d: "distinct (map fst (Ships b))" using ok(1) by (simp add: board_ok_def)
  have only: "(t, s') \<in> set (Ships b) \<Longrightarrow> s' = s" for s' using d p(2) by (metis map_of_is_SomeI option.inject)
  have pc: "?p \<in> cells s" using s(1) p(3) by (simp add: cells_def)
  then have occ: "?p \<in> occupied b" using p(2) by (force simp: occupied_def)
  have "\<forall>e \<in> set (Ships b). ship_ok (snd e) \<and> (fst e \<noteq> t \<longrightarrow> ?p \<notin> cells (snd e))"
  proof
    fix e assume "e \<in> set (Ships b)"
    then have e: "(fst e, snd e) \<in> set (Ships b)" by simp
    then show "ship_ok (snd e) \<and> (fst e \<noteq> t \<longrightarrow> ?p \<notin> cells (snd e))" using board_okD(2) [OF ok(1) e] s(4) [OF e] pc by blast
  qed
  then show "DoIncomingShotAt ?p b = Inr ((Hit, t), b1)"
    using shoot_ships_hit [OF _ d p(2) s(1) p(3)] by (simp add: DoIncomingShotAt_def b1_def PlaceShip_def)
  have b1: "board_ok b1" "set (Ships b1) = insert (t, damaged i s) {e \<in> set (Ships b). fst e \<noteq> t}" "Shots b1 = Shots b"
    unfolding b1_def using PlaceShip_ok [OF ok(1), of "damaged i s" t] s by simp_all
  show "map_of (Ships b1) t = Some (damaged i s)" by (simp add: b1_def PlaceShip_def update_conv)
  have b': "b' = SetShotResultAt ?p Hit b1" "Ships b' = Ships b1" by (simp_all add: b'_def b1_def SetShotResultAt_def)
  have "e \<in> set (Ships b) \<Longrightarrow> fst e = t \<Longrightarrow> e = (t, s)" for e using only by (cases e) simp
  then have "set (Ships b) = insert (t, s) {e \<in> set (Ships b). fst e \<noteq> t}" using p(2) by blast
  then obtain R where "set (Ships b) = insert (t, s) R" "set (Ships b') = insert (t, damaged i s) R" using b1(2) b'(2) by metis
  then have o: "occupied b' = occupied b" "fst ` set (Ships b') = fst ` set (Ships b)" by (simp_all add: occupied_def)
  have shots: "Shots b' = AList.update ?p Hit (Shots b)" "shot_cells b' = insert ?p (shot_cells b)"
    using b1(3) by (simp_all add: b'(1) shot_cells_update) (simp_all add: SetShotResultAt_def shot_cells_def)
  have "length (Ships b') = length (Ships b)"
    using p(2) unfolding b'(2) b1_def PlaceShip_def by (force intro: length_update_in)
  moreover have "same_places b b'"
    unfolding same_places_def
  proof (intro allI impI)
    fix t1 s1 assume s1: "(t1, s1) \<in> set (Ships b)"
    show "\<exists>s'. (t1, s') \<in> set (Ships b') \<and> Position s' = Position s1 \<and> Orientation s' = Orientation s1 \<and> cells s' = cells s1"
    proof (cases "t1 = t")
      case True
      then show ?thesis using only s1 b'(2) b1(2) by (intro exI [of _ "damaged i s"]) auto
    qed (use s1 b'(2) b1(2) in auto)
  qed
  ultimately show "after_shot ?p Hit b b'" using o shots by (simp add: after_shot_def)
  show "board_ok b'" using b1(1,3) shots(2) ok(1) s(2) pc by (auto simp: board_ok_def b'(2) ship_ok_def)
  have "Damage s1 ! k = (cell_at s1 k \<in> shot_cells b')" if s1: "(t1, s1) \<in> set (Ships b')" "k < len t1" for t1 s1 k
  proof (cases "t1 = t")
    case True
    then have "s1 = damaged i s" using s1 b'(2) b1(2) by auto
    then show ?thesis using s1 True ok(2) p s(2,3) len_bounds [OF s(3)] unfolding shots(2) damage_ok_def
      by (auto simp: cell_at_inj nth_list_update ship_ok_def)
  next
    case False
    then have in_b: "(t1, s1) \<in> set (Ships b)" using s1 b'(2) b1(2) by auto
    have "cell_at s1 k \<in> cells s1" using s1(2) board_okD(1) [OF ok(1) in_b] by (simp add: cells_def)
    then have "cell_at s1 k \<noteq> ?p" using s(4) [OF in_b False] pc by auto
    then show ?thesis using in_b s1(2) ok(2) unfolding shots(2) damage_ok_def by auto
  qed
  then show "damage_ok b'" using Shots_keep [OF ok(2) p(1) o(1) shots(1)] occ unfolding damage_ok_def by simp
qed

lemma GetAllShipsSunk_ok:
  assumes "board_ok b" "damage_ok b"
  shows "GetAllShipsSunk b = Inr (occupied b \<subseteq> shot_cells b)"
proof -
  have "IsSunk (snd e) = Inr (cells (snd e) \<subseteq> shot_cells b)" if "e \<in> set (Ships b)" for e
  proof -
    have e: "(fst e, snd e) \<in> set (Ships b)" using that by simp
    then have "Damage (snd e) ! i = (cell_at (snd e) i \<in> shot_cells b)" if "i < len (fst e)" for i
      using assms(2) that unfolding damage_ok_def by blast
    then show ?thesis using board_okD(1,2) [OF assms(1) e] by (auto simp: IsSunk_ok cells_def)
  qed
  then have "GetAllShipsSunk b = Inr (\<forall>e \<in> set (Ships b). cells (snd e) \<subseteq> shot_cells b)"
    unfolding GetAllShipsSunk_def by (rule rall_Inr)
  then show ?thesis by (auto simp: occupied_def)
qed

end
