(* ===== verification/Battle_Server.thy ===== *)
theory Battle_Server
  imports Battle_Board
begin

text \<open>
  The server of the Battleships example: \<^verbatim>\<open>examples/Battleships/Server.cs\<close>.  The peer the server talks through is
  seen by what it is asked to do: the messages handed to \<^verbatim>\<open>Send\<close>, in order, and whether \<^verbatim>\<open>Stop\<close> was
  called; received packets are messages with a sender, a command and a payload.  A reader that runs over the end of the
  payload is the failure \<open>OutOfBounds\<close>, a null reference \<open>NullPointer\<close>; either ends the process.
  A random choice is an argument of the handler that makes it.
\<close>

section \<open>Messages\<close>

text \<open>
  The commands of \<^verbatim>\<open>GameCommand.cs\<close> count from \<^verbatim>\<open>USER_PACKET\<close> of the C-sharp wrapper
  (\<^verbatim>\<open>extras/WirefoxCSharp/Enumerations.cs\<close>), which is 14.
\<close>

definition CS_USER_PACKET :: PacketCommand where "CS_USER_PACKET = 14"
definition GC_BeginSession :: PacketCommand where "GC_BeginSession = CS_USER_PACKET"
definition GC_Chat :: PacketCommand where "GC_Chat = 15"
definition GC_PlaceShip :: PacketCommand where "GC_PlaceShip = 16"
definition GC_BeginGame :: PacketCommand where "GC_BeginGame = 17"
definition GC_YourTurn :: PacketCommand where "GC_YourTurn = 18"
definition GC_OpponentTurn :: PacketCommand where "GC_OpponentTurn = 19"
definition GC_Shoot :: PacketCommand where "GC_Shoot = 20"
definition GC_ShootResult :: PacketCommand where "GC_ShootResult = 21"
definition GC_ShootIncoming :: PacketCommand where "GC_ShootIncoming = 22"
definition GC_GameWin :: PacketCommand where "GC_GameWin = 23"
definition GC_GameLose :: PacketCommand where "GC_GameLose = 24"
definition GC_OpponentDisconnected :: PacketCommand where "GC_OpponentDisconnected = 25"

lemmas game_commands = CS_USER_PACKET_def GC_BeginSession_def GC_Chat_def GC_PlaceShip_def GC_BeginGame_def GC_YourTurn_def
  GC_OpponentTurn_def GC_Shoot_def GC_ShootResult_def GC_ShootIncoming_def GC_GameWin_def GC_GameLose_def GC_OpponentDisconnected_def

type_synonym message = "PeerID \<times> PacketCommand \<times> u8 list"

text \<open>Reading a byte of a payload, and the bytes that are written.\<close>

fun cs_ReadByte :: "u8 list \<Rightarrow> (nat \<times> u8 list) result" where
  "cs_ReadByte [] = Inl OutOfBounds"
| "cs_ReadByte (x # xs) = Inr (unat x, xs)"

definition cs_ReadBoolean :: "u8 list \<Rightarrow> (bool \<times> u8 list) result" where
  "cs_ReadBoolean xs = rbind (cs_ReadByte xs) (\<lambda>(n, xs). Inr (n \<noteq> 0, xs))"

definition cs_bool :: "bool \<Rightarrow> u8" where
  "cs_bool b = (if b then 1 else 0)"

definition cs_shot :: "ShotResult \<Rightarrow> u8" where
  "cs_shot r = of_nat r"

lemma cs_shot_simps [simp]: "cs_shot Miss = 0" "cs_shot Hit = 1"
  by (simp_all add: cs_shot_def Miss_def Hit_def)

section \<open>State\<close>

record Player =
  NetworkID :: PeerID
  pl_Board :: Board
  IsPlayerOne :: bool

record Server =
  player1 :: Player
  player2 :: Player
  whoseTurn :: bool
  shotLaunchedThisTurn :: bool
  gameStarted :: bool
  workerStop :: bool
  sv_sent :: "message list"
  sv_stopped :: bool

text \<open>A reference to one of the two players.\<close>

datatype seat = Player1 | Player2

definition the_player :: "seat \<Rightarrow> Server \<Rightarrow> Player" where
  "the_player w sv = (case w of Player1 \<Rightarrow> player1 sv | Player2 \<Rightarrow> player2 sv)"

definition upd_board :: "seat \<Rightarrow> (Board \<Rightarrow> Board) \<Rightarrow> Server \<Rightarrow> Server" where
  "upd_board w f sv = (case w of
      Player1 \<Rightarrow> sv\<lparr>player1 := (player1 sv)\<lparr>pl_Board := f (pl_Board (player1 sv))\<rparr>\<rparr>
    | Player2 \<Rightarrow> sv\<lparr>player2 := (player2 sv)\<lparr>pl_Board := f (pl_Board (player2 sv))\<rparr>\<rparr>)"

definition Player_new :: "bool \<Rightarrow> Player" where
  "Player_new one = \<lparr>NetworkID = 0, pl_Board = Board_new, IsPlayerOne = one\<rparr>"

definition send_to :: "PeerID \<Rightarrow> PacketCommand \<Rightarrow> u8 list \<Rightarrow> Server \<Rightarrow> Server" where
  "send_to who cmd payload sv = sv\<lparr>sv_sent := sv_sent sv @ [(who, cmd, payload)]\<rparr>"

definition IsActive :: "Server \<Rightarrow> bool" where
  "IsActive sv \<longleftrightarrow> \<not> workerStop sv"

definition Server_Initialize :: "Server \<Rightarrow> Server" where
  "Server_Initialize sv =
     (if IsActive sv then sv
      else sv\<lparr>workerStop := False, gameStarted := False, shotLaunchedThisTurn := False,
              player1 := Player_new True, player2 := Player_new False, sv_sent := [], sv_stopped := False\<rparr>)"

definition Server_Stop :: "Server \<Rightarrow> Server" where
  "Server_Stop sv = (if \<not> IsActive sv then sv else sv\<lparr>workerStop := True, sv_stopped := True\<rparr>)"

definition GetPlayerForPeerID :: "PeerID \<Rightarrow> Server \<Rightarrow> seat option" where
  "GetPlayerForPeerID who sv =
     (if NetworkID (player1 sv) = who then Some Player1
      else if NetworkID (player2 sv) = who then Some Player2
      else None)"

definition GetOtherPlayer :: "seat option \<Rightarrow> Server \<Rightarrow> seat result" where
  "GetOtherPlayer first sv = (case first of None \<Rightarrow> Inl NullPointer
     | Some w \<Rightarrow> Inr (if NetworkID (the_player w sv) = NetworkID (player1 sv) then Player2 else Player1))"

section \<open>Handlers\<close>

definition OnPlayerConnect :: "PeerID \<Rightarrow> Server \<Rightarrow> Server" where
  "OnPlayerConnect remoteID sv =
     (if NetworkID (player1 sv) = 0 then sv\<lparr>player1 := (player1 sv)\<lparr>NetworkID := remoteID\<rparr>\<rparr> else
      let sv = sv\<lparr>player2 := (player2 sv)\<lparr>NetworkID := remoteID\<rparr>\<rparr>
      in send_to (NetworkID (player2 sv)) GC_BeginSession [] (send_to (NetworkID (player1 sv)) GC_BeginSession [] sv))"

definition BeginNextTurn :: "Server \<Rightarrow> Server" where
  "BeginNextTurn sv =
     (let sv = sv\<lparr>shotLaunchedThisTurn := False, whoseTurn := \<not> whoseTurn sv\<rparr>;
          sv = send_to (if whoseTurn sv then NetworkID (player1 sv) else NetworkID (player2 sv)) GC_YourTurn [] sv
      in send_to (if whoseTurn sv then NetworkID (player2 sv) else NetworkID (player1 sv)) GC_OpponentTurn [] sv)"

definition OnPlayerDisconnect :: "PeerID \<Rightarrow> Server \<Rightarrow> Server result" where
  "OnPlayerDisconnect sender sv =
     rbind (GetOtherPlayer (GetPlayerForPeerID sender sv) sv) (\<lambda>other.
     Inr ((send_to (NetworkID (the_player other sv)) GC_OpponentDisconnected [] sv)\<lparr>sv_stopped := True\<rparr>))"

definition OnPlayerChat :: "PeerID \<Rightarrow> PacketCommand \<Rightarrow> u8 list \<Rightarrow> Server \<Rightarrow> Server result" where
  "OnPlayerChat sender cmd payload sv = (case GetPlayerForPeerID sender sv of None \<Rightarrow> Inr sv
     | Some w \<Rightarrow> rbind (GetOtherPlayer (Some w) sv) (\<lambda>other. Inr (send_to (NetworkID (the_player other sv)) cmd payload sv)))"

text \<open>The request to place a ship, and the start of the game once both fleets are complete.\<close>

definition place_request :: "seat \<Rightarrow> u8 list \<Rightarrow> Server \<Rightarrow> Server result" where
  "place_request w payload sv =
     rbind (cs_ReadByte payload) (\<lambda>(type, s).
     rbind (cs_ReadByte s) (\<lambda>(ori, s).
     rbind (cs_ReadByte s) (\<lambda>(x, s).
     rbind (cs_ReadByte s) (\<lambda>(y, s).
     let ship = (Ship_new type)\<lparr>Position := \<lparr>bp_x = int x, bp_y = int y\<rparr>, Orientation := ori\<rparr>
     in rbind (CanPlaceShip ship (pl_Board (the_player w sv))) (\<lambda>acceptable.
        let sv = (if acceptable then upd_board w (PlaceShip type ship) sv else sv)
        in Inr (send_to (NetworkID (the_player w sv)) GC_PlaceShip [of_nat type, cs_bool acceptable] sv))))))"

definition begin_game :: "bool \<Rightarrow> Server \<Rightarrow> Server" where
  "begin_game coin sv =
     (let sv = send_to (NetworkID (player1 sv)) GC_BeginGame [] sv;
          sv = send_to (NetworkID (player2 sv)) GC_BeginGame [] sv
      in BeginNextTurn (sv\<lparr>whoseTurn := coin, gameStarted := True\<rparr>))"

definition OnPlayerPlaceShip :: "bool \<Rightarrow> PeerID \<Rightarrow> u8 list \<Rightarrow> Server \<Rightarrow> Server result" where
  "OnPlayerPlaceShip coin sender payload sv =
     (if gameStarted sv then Inr sv else
      case GetPlayerForPeerID sender sv of None \<Rightarrow> Inr sv
      | Some w \<Rightarrow>
        rbind (place_request w payload sv) (\<lambda>sv.
        let p1done = length (Ships (pl_Board (player1 sv))) = 5;
            p2done = length (Ships (pl_Board (player2 sv))) = 5
        in Inr (if p1done \<and> p2done then begin_game coin sv else sv)))"

text \<open>The shot itself: the bytes of the answer, whether it was acceptable, its result and the boards after it.\<close>

definition answer_shot :: "seat \<Rightarrow> BoardPosition \<Rightarrow> Server \<Rightarrow> (u8 list \<times> bool \<times> ShotResult \<times> Server) result" where
  "answer_shot opponent pos sv =
     (let xy = [of_int (bp_x pos), of_int (bp_y pos)]; board = pl_Board (the_player opponent sv)
      in if \<not> IsWithinBoard pos \<or> map_of (Shots board) pos \<noteq> None
         then Inr (xy @ [cs_bool False], False, Miss, sv\<lparr>shotLaunchedThisTurn := False\<rparr>)
         else
         rbind (DoIncomingShotAt pos board) (\<lambda>((result, hitWhat), board).
         let board = SetShotResultAt pos result board;
             sv = upd_board opponent (\<lambda>_. board) sv;
             out = xy @ [cs_bool True, cs_shot result]
         in if result \<noteq> Hit then Inr (out, True, result, sv) else
            (case map_of (Ships board) hitWhat of None \<Rightarrow> Inl OutOfRange
             | Some ship \<Rightarrow>
               rbind (IsSunk ship) (\<lambda>sunk.
               Inr (out @ [cs_bool sunk] @ (if sunk then [of_nat hitWhat, of_int (bp_x (Position ship)),
                      of_int (bp_y (Position ship)), of_nat (Orientation ship)] else []), True, result, sv)))))"

definition OnPlayerShoot :: "PeerID \<Rightarrow> u8 list \<Rightarrow> Server \<Rightarrow> Server result" where
  "OnPlayerShoot sender payload sv =
     (if \<not> gameStarted sv then Inr sv else
      case GetPlayerForPeerID sender sv of None \<Rightarrow> Inr sv
      | Some w \<Rightarrow>
        if IsPlayerOne (the_player w sv) \<noteq> whoseTurn sv then Inr sv else
        if shotLaunchedThisTurn sv then Inr sv else
        let sv = sv\<lparr>shotLaunchedThisTurn := True\<rparr>
        in rbind (GetOtherPlayer (Some w) sv) (\<lambda>opponent.
           rassert (w \<noteq> opponent) (
           rbind (cs_ReadByte payload) (\<lambda>(x, s).
           rbind (cs_ReadByte s) (\<lambda>(y, s).
           let pos = \<lparr>bp_x = int x, bp_y = int y\<rparr>
           in rbind (answer_shot opponent pos sv) (\<lambda>(answer, acceptable, result, sv).
              let sv = send_to (NetworkID (the_player w sv)) GC_ShootResult answer sv
              in if \<not> acceptable then Inr sv else
                 let sv = send_to (NetworkID (the_player opponent sv)) GC_ShootIncoming [of_nat x, of_nat y, cs_shot result] sv
                 in rbind (GetAllShipsSunk (pl_Board (the_player opponent sv))) (\<lambda>sunk.
                    Inr (if sunk
                      then (send_to (NetworkID (the_player opponent sv)) GC_GameLose []
                             (send_to (NetworkID (the_player w sv)) GC_GameWin [] sv))\<lparr>gameStarted := False\<rparr>
                      else BeginNextTurn sv))))))))"

text \<open>The loop of the worker thread over the packets it receives, each with the coin its handler may toss.\<close>

definition handle_message :: "bool \<times> message \<Rightarrow> Server \<Rightarrow> Server result" where
  "handle_message = (\<lambda>(coin, sender, cmd, payload) sv.
     if cmd = NOTIFY_CONNECTION_INCOMING then Inr (OnPlayerConnect sender sv)
     else if cmd = NOTIFY_CONNECTION_LOST \<or> cmd = NOTIFY_DISCONNECTED then OnPlayerDisconnect sender sv
     else if cmd = GC_PlaceShip then OnPlayerPlaceShip coin sender payload sv
     else if cmd = GC_Shoot then OnPlayerShoot sender payload sv
     else if cmd = GC_Chat then OnPlayerChat sender cmd payload sv
     else Inr sv)"

definition Server_ThreadWorker :: "(bool \<times> message) list \<Rightarrow> Server \<Rightarrow> Server result" where
  "Server_ThreadWorker = rfold handle_message"

section \<open>One shot\<close>

definition opp :: "seat \<Rightarrow> seat" where
  "opp w = (case w of Player1 \<Rightarrow> Player2 | Player2 \<Rightarrow> Player1)"

definition at_turn :: "Server \<Rightarrow> seat" where
  "at_turn sv = (if whoseTurn sv then Player1 else Player2)"

definition id_of :: "seat \<Rightarrow> Server \<Rightarrow> PeerID" where
  "id_of w sv = NetworkID (the_player w sv)"

definition board_of :: "seat \<Rightarrow> Server \<Rightarrow> Board" where
  "board_of w sv = pl_Board (the_player w sv)"

definition players_ok :: "Server \<Rightarrow> bool" where
  "players_ok sv \<longleftrightarrow> IsPlayerOne (player1 sv) \<and> \<not> IsPlayerOne (player2 sv) \<and> (\<forall>w. board_ok (board_of w sv))"

text \<open>A game that is going on: both fleets are complete, the damage is that of the shots, and both are afloat.\<close>

definition playing :: "Server \<Rightarrow> bool" where
  "playing sv \<longleftrightarrow> gameStarted sv \<and> \<not> shotLaunchedThisTurn sv \<and> players_ok sv \<and> NetworkID (player1 sv) \<noteq> NetworkID (player2 sv) \<and>
     (\<forall>w. damage_ok (board_of w sv) \<and> length (Ships (board_of w sv)) = 5 \<and> \<not> occupied (board_of w sv) \<subseteq> shot_cells (board_of w sv))"

lemma seat_simps [simp]:
  "opp Player1 = Player2" "opp Player2 = Player1" "opp (opp w) = w" "opp w \<noteq> w" "w \<noteq> opp w"
  by (cases w; simp add: opp_def)+

lemma all_seats: "(\<forall>w. P w) \<longleftrightarrow> P u \<and> P (opp u)"
  by (cases u) (auto, (metis seat.exhaust)+)

lemma the_player_simps [simp]:
  "the_player w (send_to a c m sv) = the_player w sv" "the_player w (sv\<lparr>shotLaunchedThisTurn := x\<rparr>) = the_player w sv"
  "the_player w (sv\<lparr>whoseTurn := x\<rparr>) = the_player w sv" "the_player w (sv\<lparr>gameStarted := x\<rparr>) = the_player w sv"
  "the_player w (sv\<lparr>sv_stopped := x\<rparr>) = the_player w sv" "the_player w (sv\<lparr>sv_sent := l\<rparr>) = the_player w sv"
  "the_player w (upd_board u f sv) = (if w = u then (the_player w sv)\<lparr>pl_Board := f (pl_Board (the_player w sv))\<rparr> else the_player w sv)"
  "the_player Player1 sv = player1 sv" "the_player Player2 sv = player2 sv"
  by (auto simp: the_player_def send_to_def upd_board_def split: seat.splits)

lemma server_simps [simp]:
  "whoseTurn (send_to a c m sv) = whoseTurn sv" "shotLaunchedThisTurn (send_to a c m sv) = shotLaunchedThisTurn sv"
  "gameStarted (send_to a c m sv) = gameStarted sv" "sv_sent (send_to a c m sv) = sv_sent sv @ [(a, c, m)]"
  "player1 (send_to a c m sv) = player1 sv" "player2 (send_to a c m sv) = player2 sv"
  "whoseTurn (upd_board u f sv) = whoseTurn sv" "shotLaunchedThisTurn (upd_board u f sv) = shotLaunchedThisTurn sv"
  "gameStarted (upd_board u f sv) = gameStarted sv" "sv_sent (upd_board u f sv) = sv_sent sv"
  "NetworkID (player1 (upd_board u f sv)) = NetworkID (player1 sv)" "NetworkID (player2 (upd_board u f sv)) = NetworkID (player2 sv)"
  "IsPlayerOne (player1 (upd_board u f sv)) = IsPlayerOne (player1 sv)" "IsPlayerOne (player2 (upd_board u f sv)) = IsPlayerOne (player2 sv)"
  by (auto simp: send_to_def upd_board_def split: seat.splits)

lemma turn_simps [simp]:
  "the_player w (BeginNextTurn sv) = the_player w sv" "whoseTurn (BeginNextTurn sv) = (\<not> whoseTurn sv)"
  "\<not> shotLaunchedThisTurn (BeginNextTurn sv)" "gameStarted (BeginNextTurn sv) = gameStarted sv"
  "player1 (BeginNextTurn sv) = player1 sv" "player2 (BeginNextTurn sv) = player2 sv"
  "sv_sent (BeginNextTurn sv) = sv_sent sv @ [(id_of (opp (at_turn sv)) sv, GC_YourTurn, []), (id_of (at_turn sv) sv, GC_OpponentTurn, [])]"
  by (auto simp: BeginNextTurn_def Let_def id_of_def at_turn_def)

lemma shot_known: "map_of (Shots b) p \<noteq> None \<longleftrightarrow> p \<in> shot_cells b"
  by (force simp: shot_cells_def map_of_eq_None_iff)

text \<open>What the shooter is told of a ship that was hit.\<close>

definition sunk_report :: "BoardPosition \<Rightarrow> Board \<Rightarrow> u8 list \<Rightarrow> bool" where
  "sunk_report p b report \<longleftrightarrow> (\<exists>t s. (t, s) \<in> set (Ships b) \<and> p \<in> cells s \<and> report =
     (if cells s \<subseteq> shot_cells b then [1, of_nat t, of_int (bp_x (Position s)), of_int (bp_y (Position s)), of_nat (Orientation s)] else [0]))"

text \<open>The board is the one the two operations on it make.\<close>

definition server_shot :: "BoardPosition \<Rightarrow> Board \<Rightarrow> Board \<Rightarrow> bool" where
  "server_shot p b b' \<longleftrightarrow> (\<exists>what b1. DoIncomingShotAt p b = Inr ((if p \<in> occupied b then Hit else Miss, what), b1) \<and>
     b' = SetShotResultAt p (if p \<in> occupied b then Hit else Miss) b1 \<and> what < 5)"

lemma answer_shot_ok:
  assumes ok: "board_ok (board_of u sv)" "damage_ok (board_of u sv)" and p: "p \<in> grid" "p \<notin> shot_cells (board_of u sv)"
  shows "\<exists>b' report. answer_shot u p sv = Inr ([of_int (bp_x p), of_int (bp_y p), 1] @ report, True,
      if p \<in> occupied (board_of u sv) then Hit else Miss, upd_board u (\<lambda>_. b') sv) \<and>
    board_ok b' \<and> damage_ok b' \<and> after_shot p (if p \<in> occupied (board_of u sv) then Hit else Miss) (board_of u sv) b' \<and>
    (if p \<in> occupied b' then \<exists>r. report = 1 # r \<and> sunk_report p b' r else report = [0]) \<and>
    server_shot p (board_of u sv) b'"
proof -
  let ?b = "board_of u sv"
  have g: "IsWithinBoard p" "map_of (Shots ?b) p = None" using p shot_known [of ?b p] by (auto simp: grid_def)
  show ?thesis
  proof (cases "p \<in> occupied ?b")
    case False
    note m = shot_miss [OF ok p False]
    have "answer_shot u p sv = Inr ([of_int (bp_x p), of_int (bp_y p), 1] @ [0], True, Miss, upd_board u (\<lambda>_. SetShotResultAt p Miss ?b) sv)"
      using g m(1) by (simp add: answer_shot_def Let_def board_of_def cs_bool_def)
    moreover have "p \<notin> occupied (SetShotResultAt p Miss ?b)" using m(4) False by (simp add: after_shot_def)
    moreover have "server_shot p ?b (SetShotResultAt p Miss ?b)" using m(1) False by (simp add: server_shot_def)
    ultimately show ?thesis using m False by auto
  next
    case True
    then obtain t s where s: "(t, s) \<in> set (Ships ?b)" "p \<in> cells s" by (auto simp: occupied_def)
    then obtain i where i: "p = cell_at s i" "i < len t" using board_okD(1) [OF ok(1) s(1)] by (auto simp: cells_def)
    note h = shot_hit [OF ok p(2) [unfolded i(1)] s(1) i(2)]
    let ?b1 = "PlaceShip t (damaged i s) ?b"
    let ?b' = "SetShotResultAt p Hit ?b1"
    have m: "map_of (Ships ?b') t = Some (damaged i s)" using h(5) by (simp add: SetShotResultAt_def)
    then have in': "(t, damaged i s) \<in> set (Ships ?b')" by (rule map_of_SomeD)
    have d: "damage_ok ?b'" "board_ok ?b'" using h(2,3) by (simp_all add: i(1))
    note s' = board_okD [OF d(2) in']
    have "IsSunk (damaged i s) = Inr (\<forall>j < len t. Damage (damaged i s) ! j)" using IsSunk_ok [OF s'(2)] s'(1) by simp
    also have "(\<forall>j < len t. Damage (damaged i s) ! j) = (cells s \<subseteq> shot_cells ?b')"
      using d(1) in' s'(1) unfolding damage_ok_def cells_def by force
    finally have sunk: "IsSunk (damaged i s) = Inr (cells s \<subseteq> shot_cells ?b')" .
    let ?r = "if cells s \<subseteq> shot_cells ?b' then [1, of_nat t, of_int (bp_x (Position s)), of_int (bp_y (Position s)), of_nat (Orientation s)] else [0]"
    have "answer_shot u p sv = Inr ([of_int (bp_x p), of_int (bp_y p), 1] @ 1 # ?r, True, Hit, upd_board u (\<lambda>_. ?b') sv)"
      using g h(1) m sunk by (simp add: answer_shot_def Let_def board_of_def cs_bool_def i(1))
    moreover have "sunk_report p ?b' ?r" unfolding sunk_report_def using in' s(2) by (intro exI [of _ t] exI [of _ "damaged i s"]) simp
    moreover have "after_shot p Hit ?b ?b'" "p \<in> occupied ?b'" using h(4) True by (simp_all add: i(1) after_shot_def)
    moreover have "server_shot p ?b ?b'"
      using h(1) True s'(3) unfolding server_shot_def by (intro exI [of _ t] exI [of _ ?b1]) (simp add: i(1))
    ultimately show ?thesis using d True by (intro exI [of _ ?b'] exI [of _ "1 # ?r"]) simp
  qed
qed

text \<open>A shot of the player whose turn it is, at a cell of the board that was not shot before.\<close>

definition shot_payload :: "BoardPosition \<Rightarrow> u8 list" where
  "shot_payload p = [of_int (bp_x p), of_int (bp_y p)]"

lemma grid_bytes: "p \<in> grid \<Longrightarrow> int (unat (of_int (bp_x p) :: u8)) = bp_x p \<and> int (unat (of_int (bp_y p) :: u8)) = bp_y p"
  by (simp add: grid_iff unat_eq_nat_uint unsigned_of_int take_bit_eq_mod)

lemma playing_turn:
  assumes "playing sv"
  shows "GetPlayerForPeerID (id_of w sv) sv = Some w" "GetOtherPlayer (Some w) sv = Inr (opp w)"
    "IsPlayerOne (the_player (at_turn sv) sv) = whoseTurn sv" "IsPlayerOne (the_player (opp (at_turn sv)) sv) \<noteq> whoseTurn sv"
  using assms by (cases w; auto simp: playing_def players_ok_def id_of_def GetPlayerForPeerID_def GetOtherPlayer_def at_turn_def)+

lemma shoot_ok:
  assumes pl: "playing sv" and p: "p \<in> grid" "p \<notin> shot_cells (board_of (opp (at_turn sv)) sv)"
  defines "w \<equiv> at_turn sv" and "b \<equiv> board_of (opp (at_turn sv)) sv"
  shows "\<exists>b' report. board_ok b' \<and> damage_ok b' \<and> after_shot p (if p \<in> occupied b then Hit else Miss) b b' \<and>
    (if p \<in> occupied b then \<exists>r. report = 1 # r \<and> sunk_report p b' r else report = [0]) \<and> server_shot p b b' \<and>
    OnPlayerShoot (id_of w sv) (shot_payload p) sv = Inr (
      let sv = upd_board (opp w) (\<lambda>_. b') sv;
          sv = send_to (id_of w sv) GC_ShootResult (shot_payload p @ [1] @ report) (sv\<lparr>shotLaunchedThisTurn := True\<rparr>);
          sv = send_to (id_of (opp w) sv) GC_ShootIncoming (shot_payload p @ [cs_shot (if p \<in> occupied b then Hit else Miss)]) sv
      in if occupied b' \<subseteq> shot_cells b'
         then (send_to (id_of (opp w) sv) GC_GameLose [] (send_to (id_of w sv) GC_GameWin [] sv))\<lparr>gameStarted := False\<rparr>
         else BeginNextTurn sv)"
proof -
  have ok: "board_ok b" "damage_ok b" using pl by (auto simp: playing_def players_ok_def b_def)
  have st: "gameStarted sv" "\<not> shotLaunchedThisTurn sv" using pl by (auto simp: playing_def)
  let ?sv = "sv\<lparr>shotLaunchedThisTurn := True\<rparr>"
  have b: "board_of (opp w) ?sv = b" by (simp add: board_of_def b_def w_def)
  obtain b' report where a: "answer_shot (opp w) p ?sv = Inr ([of_int (bp_x p), of_int (bp_y p), 1] @ report, True,
      if p \<in> occupied b then Hit else Miss, upd_board (opp w) (\<lambda>_. b') ?sv)" "board_ok b'" "damage_ok b'"
    "after_shot p (if p \<in> occupied b then Hit else Miss) b b'"
    "if p \<in> occupied b' then \<exists>r. report = 1 # r \<and> sunk_report p b' r else report = [0]" "server_shot p b b'"
    using answer_shot_ok [of "opp w" ?sv p, unfolded b] ok p by (auto simp: b_def)
  have pos: "\<lparr>bp_x = int (unat (of_int (bp_x p) :: u8)), bp_y = int (unat (of_int (bp_y p) :: u8))\<rparr> = p"
    using grid_bytes [OF p(1)] by simp
  have other: "GetOtherPlayer (Some w) ?sv = Inr (opp w)" using playing_turn(2) [OF pl, of w] by (simp add: GetOtherPlayer_def)
  have "OnPlayerShoot (id_of w sv) (shot_payload p) sv = Inr (
      let sv = upd_board (opp w) (\<lambda>_. b') ?sv;
          sv = send_to (id_of w sv) GC_ShootResult ([of_int (bp_x p), of_int (bp_y p), 1] @ report) sv;
          sv = send_to (id_of (opp w) sv) GC_ShootIncoming [of_int (bp_x p), of_int (bp_y p), cs_shot (if p \<in> occupied b then Hit else Miss)] sv
      in if occupied b' \<subseteq> shot_cells b'
         then (send_to (id_of (opp w) sv) GC_GameLose [] (send_to (id_of w sv) GC_GameWin [] sv))\<lparr>gameStarted := False\<rparr>
         else BeginNextTurn sv)"
    using st playing_turn(1) [OF pl, of w] playing_turn(3) [OF pl] other a(1) pos GetAllShipsSunk_ok [OF a(2,3)]
    by (simp add: OnPlayerShoot_def shot_payload_def Let_def id_of_def w_def)
  moreover have "upd_board u f ?sv = (upd_board u f sv)\<lparr>shotLaunchedThisTurn := True\<rparr>" for u f by (simp add: upd_board_def split: seat.split)
  ultimately show ?thesis
    using a(2-6) by (intro exI [of _ b'] exI [of _ report]) (simp add: after_shot_def shot_payload_def Let_def id_of_def)
qed

lemma board_of_simps [simp]:
  "board_of w (send_to a c m sv) = board_of w sv" "board_of w (sv\<lparr>shotLaunchedThisTurn := x\<rparr>) = board_of w sv"
  "board_of w (sv\<lparr>gameStarted := y\<rparr>) = board_of w sv" "board_of w (BeginNextTurn sv) = board_of w sv"
  "board_of w (upd_board u (\<lambda>_. b) sv) = (if w = u then b else board_of w sv)"
  "id_of w (send_to a c m sv) = id_of w sv" "id_of w (sv\<lparr>shotLaunchedThisTurn := x\<rparr>) = id_of w sv"
  "id_of w (sv\<lparr>gameStarted := y\<rparr>) = id_of w sv" "id_of w (BeginNextTurn sv) = id_of w sv" "id_of w (upd_board u f sv) = id_of w sv"
  by (auto simp: board_of_def id_of_def)

lemma at_turn_simps [simp]:
  "at_turn (send_to a c m sv) = at_turn sv" "at_turn (sv\<lparr>shotLaunchedThisTurn := x\<rparr>) = at_turn sv"
  "at_turn (sv\<lparr>gameStarted := y\<rparr>) = at_turn sv" "at_turn (BeginNextTurn sv) = opp (at_turn sv)" "at_turn (upd_board u f sv) = at_turn sv"
  by (auto simp: at_turn_def)

lemma shoot_step:
  assumes pl: "playing sv" and p: "p \<in> grid" "p \<notin> shot_cells (board_of (opp (at_turn sv)) sv)"
  defines "w \<equiv> at_turn sv"
  shows "\<exists>sv'. OnPlayerShoot (id_of w sv) (shot_payload p) sv = Inr sv' \<and> board_of w sv' = board_of w sv \<and> (\<forall>u. id_of u sv' = id_of u sv) \<and>
    shot_cells (board_of (opp w) sv') = insert p (shot_cells (board_of (opp w) sv)) \<and>
    occupied (board_of (opp w) sv') = occupied (board_of (opp w) sv) \<and>
    (if occupied (board_of (opp w) sv') \<subseteq> shot_cells (board_of (opp w) sv')
     then \<not> gameStarted sv' \<and> (\<exists>l. sv_sent sv' = sv_sent sv @ l @ [(id_of w sv, GC_GameWin, []), (id_of (opp w) sv, GC_GameLose, [])])
     else playing sv' \<and> at_turn sv' = opp w)"
proof -
  let ?r = "if p \<in> occupied (board_of (opp w) sv) then Hit else Miss"
  obtain b' report where b: "board_ok b'" "damage_ok b'" "after_shot p ?r (board_of (opp w) sv) b'"
    and run: "OnPlayerShoot (id_of w sv) (shot_payload p) sv = Inr (
      let sv = upd_board (opp w) (\<lambda>_. b') sv;
          sv = send_to (id_of w sv) GC_ShootResult (shot_payload p @ [1] @ report) (sv\<lparr>shotLaunchedThisTurn := True\<rparr>);
          sv = send_to (id_of (opp w) sv) GC_ShootIncoming (shot_payload p @ [cs_shot ?r]) sv
      in if occupied b' \<subseteq> shot_cells b'
         then (send_to (id_of (opp w) sv) GC_GameLose [] (send_to (id_of w sv) GC_GameWin [] sv))\<lparr>gameStarted := False\<rparr>
         else BeginNextTurn sv)"
    using shoot_ok [OF pl p] unfolding w_def by blast
  have a: "shot_cells b' = insert p (shot_cells (board_of (opp w) sv))" "occupied b' = occupied (board_of (opp w) sv)" "length (Ships b') = 5"
    using b(3) pl by (auto simp: after_shot_def playing_def)
  show ?thesis
  proof (cases "occupied b' \<subseteq> shot_cells b'")
    case True
    then show ?thesis using run a by (simp add: Let_def)
  next
    case False
    then show ?thesis using run a pl b
      by (simp add: Let_def playing_def players_ok_def all_seats [of _ w]) (simp add: w_def)
  qed
qed

section \<open>The game ends\<close>

text \<open>The players take turns shooting at the cells a strategy picks, until the server ends the game.\<close>

fun play :: "(Server \<Rightarrow> BoardPosition) \<Rightarrow> nat \<Rightarrow> Server \<Rightarrow> Server result" where
  "play pick 0 sv = Inr sv"
| "play pick (Suc n) sv = (if gameStarted sv
     then rbind (OnPlayerShoot (id_of (at_turn sv) sv) (shot_payload (pick sv)) sv) (play pick n) else Inr sv)"

definition legal :: "(Server \<Rightarrow> BoardPosition) \<Rightarrow> bool" where
  "legal pick \<longleftrightarrow> (\<forall>sv. playing sv \<longrightarrow> pick sv \<in> grid \<and> pick sv \<notin> shot_cells (board_of (opp (at_turn sv)) sv))"

lemma grid_eq: "grid = (\<lambda>(x, y). \<lparr>bp_x = x, bp_y = y\<rparr>) ` ({0..9} \<times> {0..9})"
proof (intro set_eqI iffI)
  fix p :: BoardPosition assume "p \<in> grid"
  then show "p \<in> (\<lambda>(x, y). \<lparr>bp_x = x, bp_y = y\<rparr>) ` ({0..9} \<times> {0..9})"
    by (intro image_eqI [of _ _ "(bp_x p, bp_y p)"]) (auto simp: grid_iff)
qed (auto simp: grid_iff)

lemma card_grid: "card grid = 100" "finite grid"
proof -
  have "inj_on (\<lambda>(x, y). \<lparr>bp_x = x, bp_y = y\<rparr>) ({0..9 :: int} \<times> {0..9 :: int})" by (auto simp: inj_on_def)
  then show "card grid = 100" unfolding grid_eq by (simp add: card_image)
  show "finite grid" unfolding grid_eq by simp
qed

definition shots_fired :: "Server \<Rightarrow> nat" where
  "shots_fired sv = card (shot_cells (board_of Player1 sv)) + card (shot_cells (board_of Player2 sv))"

lemma afloat_card:
  assumes "board_ok b" "\<not> occupied b \<subseteq> shot_cells b"
  shows "card (shot_cells b) \<le> 99"
proof -
  have "cells (snd e) \<subseteq> grid" if "e \<in> set (Ships b)" for e
    using board_okD(2) [OF assms(1), of "fst e" "snd e"] that by (simp add: ship_ok_def)
  then have "occupied b \<subseteq> grid" unfolding occupied_def by blast
  then have "shot_cells b \<subset> grid" using assms by (auto simp: board_ok_def)
  then have "card (shot_cells b) < card grid" by (rule psubset_card_mono [OF card_grid(2)])
  then show ?thesis by (simp add: card_grid(1))
qed

lemma playing_bound: "playing sv \<Longrightarrow> shots_fired sv \<le> 198"
  using add_mono [OF afloat_card [of "board_of Player1 sv"] afloat_card [of "board_of Player2 sv"]]
  by (simp add: playing_def players_ok_def shots_fired_def)

lemma shots_fired_step:
  assumes "finite (shot_cells (board_of (opp w) sv))" "p \<notin> shot_cells (board_of (opp w) sv)" "board_of w sv' = board_of w sv"
    "shot_cells (board_of (opp w) sv') = insert p (shot_cells (board_of (opp w) sv))"
  shows "shots_fired sv' = Suc (shots_fired sv)"
  using assms by (cases w) (simp_all add: shots_fired_def)

text \<open>The end of a game: one fleet is sunk, the other is afloat, and both players are told.\<close>

definition won_by :: "seat \<Rightarrow> Server \<Rightarrow> bool" where
  "won_by w sv \<longleftrightarrow> \<not> gameStarted sv \<and> occupied (board_of (opp w) sv) \<subseteq> shot_cells (board_of (opp w) sv) \<and>
     \<not> occupied (board_of w sv) \<subseteq> shot_cells (board_of w sv) \<and>
     (\<exists>l. sv_sent sv = l @ [(id_of w sv, GC_GameWin, []), (id_of (opp w) sv, GC_GameLose, [])])"

lemma play_ends:
  assumes "playing sv" "legal pick" "198 < shots_fired sv + n"
  shows "\<exists>sv' w. play pick n sv = Inr sv' \<and> won_by w sv'"
  using assms
proof (induction n arbitrary: sv)
  case 0
  then show ?case using playing_bound [of sv] by simp
next
  case (Suc n)
  let ?w = "at_turn sv"
  have p: "pick sv \<in> grid" "pick sv \<notin> shot_cells (board_of (opp ?w) sv)" using Suc.prems(1,2) by (auto simp: legal_def)
  obtain sv1 where s: "OnPlayerShoot (id_of ?w sv) (shot_payload (pick sv)) sv = Inr sv1" "board_of ?w sv1 = board_of ?w sv"
    "\<And>u. id_of u sv1 = id_of u sv" "shot_cells (board_of (opp ?w) sv1) = insert (pick sv) (shot_cells (board_of (opp ?w) sv))"
    "if occupied (board_of (opp ?w) sv1) \<subseteq> shot_cells (board_of (opp ?w) sv1)
     then \<not> gameStarted sv1 \<and> (\<exists>l. sv_sent sv1 = sv_sent sv @ l @ [(id_of ?w sv, GC_GameWin, []), (id_of (opp ?w) sv, GC_GameLose, [])])
     else playing sv1 \<and> at_turn sv1 = opp ?w"
    using shoot_step [OF Suc.prems(1) p] by blast
  have g: "gameStarted sv" using Suc.prems(1) by (simp add: playing_def)
  then have pl: "play pick (Suc n) sv = play pick n sv1" using s(1) by simp
  have "finite (shot_cells (board_of (opp ?w) sv))" by (simp add: shot_cells_def)
  then have n: "shots_fired sv1 = Suc (shots_fired sv)" using shots_fired_step [OF _ p(2) s(2,4)] by simp
  show ?case
  proof (cases "occupied (board_of (opp ?w) sv1) \<subseteq> shot_cells (board_of (opp ?w) sv1)")
    case True
    then have "won_by ?w sv1" using s(2,3,5) Suc.prems(1) by (auto simp: won_by_def playing_def)
    moreover have "play pick n sv1 = Inr sv1" using True s(5) by (cases n) simp_all
    ultimately show ?thesis using pl by auto
  next
    case False
    then show ?thesis using Suc.IH [of sv1] Suc.prems(2,3) s(5) n pl by simp
  qed
qed

section \<open>Every run of the server\<close>

text \<open>
  Before the game and during it.  Once a game was won the states are no longer described: placing ships is then allowed
  again, on boards that were shot at.
\<close>

definition undamaged :: "Board \<Rightarrow> bool" where
  "undamaged b \<longleftrightarrow> Shots b = [] \<and> (\<forall>t s i. (t, s) \<in> set (Ships b) \<longrightarrow> i < len t \<longrightarrow> \<not> Damage s ! i)"

definition placing :: "Server \<Rightarrow> bool" where
  "placing sv \<longleftrightarrow> \<not> gameStarted sv \<and> \<not> shotLaunchedThisTurn sv \<and> players_ok sv \<and> (\<forall>w. undamaged (board_of w sv))"

definition seated :: "PeerID set \<Rightarrow> Server \<Rightarrow> bool" where
  "seated J sv \<longleftrightarrow> (\<forall>w. id_of w sv \<in> insert 0 J \<and> (Ships (board_of w sv) \<noteq> [] \<longrightarrow> id_of w sv \<noteq> 0)) \<and>
     (id_of Player1 sv = 0 \<longrightarrow> id_of Player2 sv = 0) \<and> (id_of Player1 sv \<noteq> 0 \<longrightarrow> id_of Player1 sv \<noteq> id_of Player2 sv)"

definition won :: "Server \<Rightarrow> bool" where
  "won sv \<longleftrightarrow> (\<exists>u. (u, GC_GameWin, []) \<in> set (sv_sent sv))"

definition server_ok :: "PeerID set \<Rightarrow> Server \<Rightarrow> bool" where
  "server_ok J sv \<longleftrightarrow> won sv \<or> seated J sv \<and> (placing sv \<or> playing sv)"

definition sends_more :: "Server \<Rightarrow> Server \<Rightarrow> bool" where
  "sends_more sv sv' \<longleftrightarrow> (\<exists>l. sv_sent sv' = sv_sent sv @ l)"

lemma sends_more_refl [simp]: "sends_more sv sv"
  by (simp add: sends_more_def)

lemma sends_more_trans: "sends_more a b \<Longrightarrow> sends_more b c \<Longrightarrow> sends_more a c"
  by (auto simp: sends_more_def)

lemma sends_more_simps:
  "sends_more sv sv' \<Longrightarrow> sends_more sv (send_to a c m sv')" "sends_more sv sv' \<Longrightarrow> sends_more sv (BeginNextTurn sv')"
  "sends_more sv sv' \<Longrightarrow> sends_more sv (begin_game coin sv')" "sends_more sv sv' \<Longrightarrow> sends_more sv (upd_board u f sv')"
  "sends_more sv sv' \<Longrightarrow> sends_more sv (sv'\<lparr>gameStarted := y\<rparr>)" "sends_more sv sv' \<Longrightarrow> sends_more sv (sv'\<lparr>sv_stopped := y\<rparr>)"
  "sends_more sv sv' \<Longrightarrow> sends_more sv (sv'\<lparr>player1 := pl\<rparr>)" "sends_more sv sv' \<Longrightarrow> sends_more sv (sv'\<lparr>player2 := pl\<rparr>)"
  by (auto simp: sends_more_def begin_game_def Let_def)

lemma place_request_ok:
  assumes b: "board_ok (board_of w sv)" "undamaged (board_of w sv)" and r: "place_request w payload sv = Inr sv'"
  shows "\<exists>b' l. sv' = (upd_board w (\<lambda>_. b') sv)\<lparr>sv_sent := sv_sent sv @ l\<rparr> \<and> board_ok b' \<and> undamaged b'"
proof -
  obtain type ori x y rest where p: "payload = type # ori # x # y # rest"
  proof -
    consider "payload = []" | a where "payload = [a]" | a c where "payload = [a, c]" | a c d where "payload = [a, c, d]"
      | type ori x y rest where "payload = type # ori # x # y # rest" by (metis list.exhaust)
    then show thesis using r that by cases (auto simp: place_request_def)
  qed
  let ?t = "unat type"
  let ?s = "(Ship_new ?t)\<lparr>Position := \<lparr>bp_x = int (unat x), bp_y = int (unat y)\<rparr>, Orientation := unat ori\<rparr>"
  let ?b = "board_of w sv"
  obtain a where a: "CanPlaceShip ?s ?b = Inr a"
    and sv': "sv' = send_to (NetworkID (the_player w (if a then upd_board w (PlaceShip ?t ?s) sv else sv))) GC_PlaceShip
      [of_nat ?t, cs_bool a] (if a then upd_board w (PlaceShip ?t ?s) sv else sv)"
    using r by (auto simp: place_request_def p Let_def board_of_def)
  have t: "?t < 5" using a by (auto simp: CanPlaceShip_def GetShipLength_def ship_types Ship_new_def split: if_splits)
  have same: "upd_board w (\<lambda>_. pl_Board (the_player w sv)) sv = sv" by (simp add: upd_board_def the_player_def split: seat.split)
  show ?thesis
  proof (cases a)
    case False
    then show ?thesis using sv' b same unfolding board_of_def by (intro exI [of _ ?b]) (auto simp: send_to_def board_of_def)
  next
    case True
    then have c: "cells ?s \<subseteq> grid" "cells ?s \<inter> occupied ?b = {}" using CanPlaceShip_ok [OF b(1), of ?s] a t by (auto simp: Ship_new_def)
    then have "cells ?s \<inter> cells s' = {}" if "(t', s') \<in> set (Ships ?b)" for t' s' using that by (force simp: occupied_def)
    moreover have "sh_Type ?s = ?t" "ship_ok ?s" using c(1) t unsigned_less [of ori, where ?'a = nat] by (simp_all add: ship_ok_def Ship_new_def)
    ultimately have ok: "board_ok (PlaceShip ?t ?s ?b)" "set (Ships (PlaceShip ?t ?s ?b)) = insert (?t, ?s) {e \<in> set (Ships ?b). fst e \<noteq> ?t}"
      "Shots (PlaceShip ?t ?s ?b) = Shots ?b" using PlaceShip_ok [OF b(1), of ?s ?t] by simp_all
    have "\<not> Damage ?s ! i" if "i < len ?t" for i using that len_bounds [OF t] by (simp add: Ship_new_def)
    then have "undamaged (PlaceShip ?t ?s ?b)" using b(2) unfolding undamaged_def ok(2,3) by auto
    moreover have "upd_board w (PlaceShip ?t ?s) sv = upd_board w (\<lambda>_. PlaceShip ?t ?s ?b) sv"
      by (simp add: upd_board_def board_of_def the_player_def split: seat.split)
    ultimately show ?thesis using True sv' ok(1) by (auto simp: send_to_def)
  qed
qed

lemma answer_shot_sent: "rsat (\<lambda>(_, _, _, sv'). sv_sent sv' = sv_sent sv) (answer_shot u p sv)"
  by (auto simp: answer_shot_def Let_def rsat_def split: if_splits option.splits)

lemma OnPlayerShoot_sends: "rsat (sends_more sv) (OnPlayerShoot sender payload sv)"
proof -
  have a: "sv_sent sv' = sv_sent sv" if "answer_shot u p (sv\<lparr>shotLaunchedThisTurn := True\<rparr>) = Inr (x, y, z, sv')" for u p x y z sv'
    using rsatD [OF answer_shot_sent that] by simp
  show ?thesis
    unfolding rsat_def OnPlayerShoot_def
    by (auto simp: Let_def rassert_def sends_more_def dest!: a split: if_splits option.splits)
qed

lemma handle_sends: "rsat (sends_more sv) (handle_message m sv)"
proof -
  obtain coin sender cmd payload where m: "m = (coin, sender, cmd, payload)" by (cases m)
  have "rsat (sends_more sv) (OnPlayerDisconnect sender sv)" "rsat (sends_more sv) (OnPlayerChat sender cmd payload sv)"
    by (auto simp: rsat_def OnPlayerDisconnect_def OnPlayerChat_def intro!: sends_more_simps split: option.splits)
  moreover have "sends_more sv (OnPlayerConnect sender sv)" by (auto simp: OnPlayerConnect_def Let_def intro!: sends_more_simps)
  moreover have "rsat (sends_more sv) (place_request w payload sv)" for w
    by (auto simp: rsat_def place_request_def Let_def intro!: sends_more_simps split: if_splits)
  then have "rsat (sends_more sv) (OnPlayerPlaceShip coin sender payload sv)"
    by (auto simp: rsat_def OnPlayerPlaceShip_def Let_def intro!: sends_more_simps split: option.splits)
  ultimately show ?thesis using OnPlayerShoot_sends [of sv sender payload] by (auto simp: handle_message_def m rsat_Inr)
qed

lemma begin_game_playing:
  assumes pl: "placing sv" and s: "seated J sv" "length (Ships (board_of Player1 sv)) = 5" "length (Ships (board_of Player2 sv)) = 5"
  shows "playing (begin_game coin sv)" "seated J (begin_game coin sv)"
proof -
  have same: "board_of w (begin_game coin sv) = board_of w sv" "id_of w (begin_game coin sv) = id_of w sv"
    "IsPlayerOne (the_player w (begin_game coin sv)) = IsPlayerOne (the_player w sv)" for w
    by (simp_all add: begin_game_def Let_def board_of_def id_of_def)
  show "seated J (begin_game coin sv)" using s(1) by (simp add: seated_def same)
  have b: "board_ok (board_of w sv)" "undamaged (board_of w sv)" for w using pl by (simp_all add: placing_def players_ok_def)
  have n: "length (Ships (board_of w sv)) = 5" for w using s(2,3) by (cases w) simp_all
  have "occupied (board_of w sv) \<noteq> {}" for w
  proof -
    obtain t s r where c: "Ships (board_of w sv) = (t, s) # r" using n [of w] by (cases "Ships (board_of w sv)") auto
    then have in': "(t, s) \<in> set (Ships (board_of w sv))" by simp
    have "cell_at s 0 \<in> cells s" using board_okD(1,3) [OF b(1) in'] len_bounds [of t] by (simp add: cells_def)
    then show ?thesis using c by (auto simp: occupied_def)
  qed
  moreover have "shot_cells (board_of w sv) = {}" "damage_ok (board_of w sv)" for w
    using b(2) [of w] damage_ok_unshot [of "board_of w sv"] by (auto simp: undamaged_def shot_cells_def)
  moreover have "Ships (board_of Player1 sv) \<noteq> []" using n [of Player1] by auto
  then have "NetworkID (player1 sv) \<noteq> NetworkID (player2 sv)" using s(1) unfolding seated_def by (metis id_of_def the_player_simps(8,9))
  ultimately show "playing (begin_game coin sv)"
    using pl same(1) same(3) [of Player1] same(3) [of Player2] same(2) [of Player1] same(2) [of Player2] n
    by (auto simp: playing_def placing_def players_ok_def id_of_def) (simp_all add: begin_game_def Let_def)
qed

lemma send_keeps:
  "placing (send_to a c m sv) = placing sv" "playing (send_to a c m sv) = playing sv" "seated J (send_to a c m sv) = seated J sv"
  "placing (sv\<lparr>sv_stopped := y\<rparr>) = placing sv" "playing (sv\<lparr>sv_stopped := y\<rparr>) = playing sv" "seated J (sv\<lparr>sv_stopped := y\<rparr>) = seated J sv"
  by (simp_all add: placing_def playing_def seated_def players_ok_def board_of_def id_of_def)

lemma placing_place:
  assumes ok: "seated J sv" "placing sv" and w: "GetPlayerForPeerID sender sv = Some w" "sender \<noteq> 0" and r: "place_request w payload sv = Inr sv'"
  shows "seated J sv' \<and> placing sv'"
proof -
  have "board_ok (board_of w sv)" "undamaged (board_of w sv)" using ok(2) by (simp_all add: placing_def players_ok_def)
  from place_request_ok [OF this r] obtain b' l where b': "sv' = (upd_board w (\<lambda>_. b') sv)\<lparr>sv_sent := sv_sent sv @ l\<rparr>" "board_ok b'" "undamaged b'"
    by blast
  have id: "id_of w sv \<noteq> 0" using w by (auto simp: GetPlayerForPeerID_def id_of_def split: if_splits)
  have "board_of u sv' = (if u = w then b' else board_of u sv)" "id_of u sv' = id_of u sv"
    "IsPlayerOne (the_player u sv') = IsPlayerOne (the_player u sv)" for u
    by (simp_all add: b'(1) board_of_def id_of_def)
  moreover have "gameStarted sv' = gameStarted sv" "shotLaunchedThisTurn sv' = shotLaunchedThisTurn sv" by (simp_all add: b'(1))
  moreover have "IsPlayerOne (player1 sv') = IsPlayerOne (player1 sv)" "IsPlayerOne (player2 sv') = IsPlayerOne (player2 sv)" by (simp_all add: b'(1))
  ultimately show ?thesis using ok b'(2,3) id by (simp add: seated_def placing_def players_ok_def)
qed

lemma OnPlayerPlaceShip_ok:
  assumes "seated J sv" "placing sv" "sender \<noteq> 0"
  shows "rsat (\<lambda>sv'. seated J sv' \<and> (placing sv' \<or> playing sv')) (OnPlayerPlaceShip coin sender payload sv)"
  unfolding OnPlayerPlaceShip_def
proof (intro rsat_if rsat_option)
  fix w assume w: "GetPlayerForPeerID sender sv = Some w"
  have "rsat (\<lambda>sv'. seated J sv' \<and> placing sv') (place_request w payload sv)"
    using placing_place [OF assms(1,2) w assms(3)] by (simp add: rsat_def)
  then show "rsat (\<lambda>sv'. seated J sv' \<and> (placing sv' \<or> playing sv')) (rbind (place_request w payload sv) (\<lambda>sv.
      let p1done = length (Ships (pl_Board (player1 sv))) = 5; p2done = length (Ships (pl_Board (player2 sv))) = 5
      in Inr (if p1done \<and> p2done then begin_game coin sv else sv)))"
  proof (rule rsat_bind)
    fix sv' assume "seated J sv' \<and> placing sv'"
    then show "rsat (\<lambda>sv'. seated J sv' \<and> (placing sv' \<or> playing sv')) (let p1done = length (Ships (pl_Board (player1 sv'))) = 5;
        p2done = length (Ships (pl_Board (player2 sv'))) = 5 in Inr (if p1done \<and> p2done then begin_game coin sv' else sv'))"
      using begin_game_playing [of sv' J coin] by (auto simp: Let_def rsat_def board_of_def)
  qed
qed (use assms in \<open>auto simp: rsat_def placing_def\<close>)

lemma OnPlayerConnect_ok:
  assumes "seated J sv" "placing sv \<or> playing sv" "sender \<noteq> 0" "sender \<notin> J"
  shows "seated (insert sender J) (OnPlayerConnect sender sv) \<and> (placing (OnPlayerConnect sender sv) \<or> playing (OnPlayerConnect sender sv))"
proof -
  let ?sv = "OnPlayerConnect sender sv"
  have b: "board_of w ?sv = board_of w sv" for w by (cases w) (simp_all add: OnPlayerConnect_def Let_def board_of_def)
  have o: "IsPlayerOne (player1 ?sv) = IsPlayerOne (player1 sv)" "IsPlayerOne (player2 ?sv) = IsPlayerOne (player2 sv)"
    "gameStarted ?sv = gameStarted sv" "shotLaunchedThisTurn ?sv = shotLaunchedThisTurn sv"
    by (simp_all add: OnPlayerConnect_def Let_def)
  have i: "id_of Player1 ?sv = (if id_of Player1 sv = 0 then sender else id_of Player1 sv)"
    "id_of Player2 ?sv = (if id_of Player1 sv = 0 then id_of Player2 sv else sender)"
    by (simp_all add: OnPlayerConnect_def Let_def id_of_def)
  have seat: "(\<forall>w. P w) \<longleftrightarrow> P Player1 \<and> P Player2" for P by (metis seat.exhaust)
  have s: "seated (insert sender J) ?sv" using assms(1,3,4) unfolding seated_def seat b i by auto
  have "playing sv \<Longrightarrow> length (Ships (board_of Player1 sv)) = 5" by (simp add: playing_def)
  then have "playing sv \<Longrightarrow> Ships (board_of Player1 sv) \<noteq> []" by auto
  then have "playing sv \<Longrightarrow> id_of Player1 ?sv \<noteq> id_of Player2 ?sv" using s assms(1) unfolding seated_def by (metis b i(1) assms(3))
  then have "playing sv \<Longrightarrow> playing ?sv" "placing sv \<Longrightarrow> placing ?sv"
    by (simp_all add: playing_def placing_def players_ok_def b o id_of_def)
  then show ?thesis using s assms(2) by blast
qed

lemma OnPlayerShoot_rest: "OnPlayerShoot sender (x # y # rest) sv = OnPlayerShoot sender [x, y] sv"
  by (simp add: OnPlayerShoot_def split: option.split)

lemma shoot_rejected:
  assumes pl: "playing sv" and p: "p = \<lparr>bp_x = int (unat x), bp_y = int (unat y)\<rparr>"
    "p \<notin> grid \<or> p \<in> shot_cells (board_of (opp (at_turn sv)) sv)"
  shows "OnPlayerShoot (id_of (at_turn sv) sv) [x, y] sv = Inr (send_to (id_of (at_turn sv) sv) GC_ShootResult [x, y, 0] sv)"
proof -
  let ?w = "at_turn sv" and ?sv = "sv\<lparr>shotLaunchedThisTurn := True\<rparr>"
  have st: "gameStarted sv" "\<not> shotLaunchedThisTurn sv" using pl by (auto simp: playing_def)
  have "?sv\<lparr>shotLaunchedThisTurn := False\<rparr> = sv" using st(2) by simp
  then have "answer_shot (opp ?w) p ?sv = Inr ([x, y, 0], False, Miss, sv)"
    using p shot_known [of "board_of (opp ?w) sv" p]
    by (auto simp: answer_shot_def Let_def cs_bool_def grid_def board_of_def)
  moreover have "GetOtherPlayer (Some ?w) ?sv = Inr (opp ?w)" using playing_turn(2) [OF pl, of ?w] by (simp add: GetOtherPlayer_def)
  ultimately show ?thesis
    using st playing_turn(1) [OF pl, of ?w] playing_turn(3) [OF pl] p(1) by (simp add: OnPlayerShoot_def Let_def id_of_def)
qed

lemma same_seats:
  assumes "seated J sv" "playing sv" "\<forall>u. id_of u sv' = id_of u sv"
  shows "seated J sv'"
proof -
  have "length (Ships (board_of w sv)) = 5" for w using assms(2) by (simp add: playing_def)
  then have "id_of w sv \<noteq> 0" for w using assms(1) unfolding seated_def by (metis list.size(3) zero_neq_numeral)
  then show ?thesis using assms(1,3) by (simp add: seated_def)
qed

lemma OnPlayerShoot_ok:
  assumes s: "seated J sv" and pl: "playing sv"
  shows "rsat (\<lambda>sv'. won sv' \<or> seated J sv' \<and> playing sv') (OnPlayerShoot sender payload sv)"
proof -
  let ?w = "at_turn sv"
  have st: "gameStarted sv" "\<not> shotLaunchedThisTurn sv" using pl by (auto simp: playing_def)
  have cur: "sender = id_of ?w sv" if "GetPlayerForPeerID sender sv = Some u" "IsPlayerOne (the_player u sv) = whoseTurn sv" for u
    using that pl by (auto simp: GetPlayerForPeerID_def id_of_def at_turn_def playing_def players_ok_def split: if_splits)
  show ?thesis
  proof (cases "sender = id_of ?w sv")
    case False
    then have "OnPlayerShoot sender payload sv = Inr sv" using cur st by (auto simp: OnPlayerShoot_def split: option.split)
    then show ?thesis using s pl by (simp add: rsat_def)
  next
    case True
    show ?thesis
    proof (cases "length payload < 2")
      case True
      then consider "payload = []" | x where "payload = [x]" by (cases payload; cases "tl payload") auto
      then show ?thesis using s pl by cases (auto simp: rsat_def OnPlayerShoot_def Let_def rassert_def split: option.splits if_splits)
    next
      case False
      then obtain x y rest where xy: "payload = x # y # rest" by (metis One_nat_def Suc_1 length_Cons less_Suc0 list.exhaust list.size(3) not_less_eq zero_less_Suc)
      let ?p = "\<lparr>bp_x = int (unat x), bp_y = int (unat y)\<rparr>"
      have r: "OnPlayerShoot sender payload sv = OnPlayerShoot (id_of ?w sv) [x, y] sv" using OnPlayerShoot_rest xy \<open>sender = _\<close> by simp
      show ?thesis
      proof (cases "?p \<notin> grid \<or> ?p \<in> shot_cells (board_of (opp ?w) sv)")
        case True
        then show ?thesis using shoot_rejected [OF pl refl] s pl r by (simp add: rsat_def send_keeps)
      next
        case False
        then have p: "?p \<in> grid" "?p \<notin> shot_cells (board_of (opp ?w) sv)" by auto
        have "shot_payload ?p = [x, y]" by (simp add: shot_payload_def)
        then show ?thesis using shoot_step [OF pl p] same_seats [OF s pl] r by (auto simp: rsat_def won_def split: if_splits)
      qed
    qed
  qed
qed

text \<open>The messages the wrapped peer delivers: no sender is null, and a peer that connects is not one that connected before.\<close>

fun deliverable :: "PeerID set \<Rightarrow> (bool \<times> message) list \<Rightarrow> bool" where
  "deliverable J [] = True"
| "deliverable J ((coin, sender, cmd, payload) # ms) \<longleftrightarrow> sender \<noteq> 0 \<and>
     (if cmd = NOTIFY_CONNECTION_INCOMING then sender \<notin> J \<and> deliverable (insert sender J) ms else deliverable J ms)"

lemma handle_ok:
  assumes ok: "server_ok J sv" and m: "sender \<noteq> 0" "cmd = NOTIFY_CONNECTION_INCOMING \<Longrightarrow> sender \<notin> J"
  shows "rsat (server_ok (if cmd = NOTIFY_CONNECTION_INCOMING then insert sender J else J)) (handle_message (coin, sender, cmd, payload) sv)"
proof (cases "won sv")
  case True
  then show ?thesis using handle_sends [of sv "(coin, sender, cmd, payload)"] by (auto simp: rsat_def server_ok_def won_def sends_more_def)
next
  case False
  then have s: "seated J sv" "placing sv \<or> playing sv" using ok by (auto simp: server_ok_def)
  have keep: "server_ok J sv'" if "seated J sv' \<and> (placing sv' \<or> playing sv')" for sv' using that by (simp add: server_ok_def)
  have place: "rsat (server_ok J) (OnPlayerPlaceShip coin sender payload sv)"
    using s(2) OnPlayerPlaceShip_ok [OF s(1) _ m(1), of coin payload] s(1)
    by (auto simp: rsat_def server_ok_def OnPlayerPlaceShip_def [of coin sender payload sv] playing_def)
  have shoot: "rsat (server_ok J) (OnPlayerShoot sender payload sv)"
    using s(2) OnPlayerShoot_ok [OF s(1), of sender payload] s(1)
    by (auto simp: rsat_def server_ok_def OnPlayerShoot_def [of sender payload sv] placing_def)
  have "rsat (server_ok J) (OnPlayerDisconnect sender sv)" "rsat (server_ok J) (OnPlayerChat sender cmd payload sv)"
    using s by (auto simp: rsat_def OnPlayerDisconnect_def OnPlayerChat_def send_keeps intro!: keep split: option.splits)
  then show ?thesis using place shoot OnPlayerConnect_ok [OF s m(1)] m(2) s
    by (auto simp: handle_message_def rsat_Inr server_ok_def)
qed

lemma worker_ok:
  assumes "server_ok J sv" "deliverable J ms"
  shows "rsat (\<lambda>sv'. \<exists>J. server_ok J sv') (Server_ThreadWorker ms sv)"
  using assms
proof (induction ms arbitrary: J sv)
  case Nil
  then show ?case by (auto simp: Server_ThreadWorker_def rsat_def)
next
  case (Cons m ms)
  obtain coin sender cmd payload where m: "m = (coin, sender, cmd, payload)" by (cases m)
  let ?J = "if cmd = NOTIFY_CONNECTION_INCOMING then insert sender J else J"
  have "rsat (server_ok ?J) (handle_message m sv)"
    unfolding m by (rule handle_ok [OF Cons.prems(1)]) (use Cons.prems(2) m in \<open>auto split: if_splits\<close>)
  moreover have "deliverable ?J ms" using Cons.prems(2) m by (auto split: if_splits)
  ultimately show ?case using Cons.IH [of ?J] unfolding Server_ThreadWorker_def rfold.simps by (intro rsat_bind [where R = "server_ok ?J"]) simp_all
qed

lemma initial_ok:
  assumes "\<not> IsActive sv"
  shows "server_ok {} (Server_Initialize sv)"
proof -
  have "board_of w (Server_Initialize sv) = Board_new" "id_of w (Server_Initialize sv) = 0" for w
    using assms by (cases w; simp add: Server_Initialize_def board_of_def id_of_def Player_new_def)+
  then show ?thesis using assms
    by (simp add: server_ok_def seated_def placing_def players_ok_def Board_new_def board_ok_def undamaged_def shot_cells_def)
      (simp add: Server_Initialize_def Player_new_def)
qed

text \<open>
  C16.  Whatever packets the two players and the network send to a new server, in whichever order: once the server has started a game,
  and as long as the players then shoot in turns at cells that are still open, the game is over after at most 199 shots.  The winner is told so
  and so is the loser; every cell of the fleet of the loser was shot, and the winner has a cell left.
\<close>

theorem battle_ends:
  assumes "\<not> IsActive sv0" "deliverable {} ms" "Server_ThreadWorker ms (Server_Initialize sv0) = Inr sv" "gameStarted sv" "\<not> won sv" "legal pick"
  shows "\<exists>sv' w. play pick 199 sv = Inr sv' \<and> won_by w sv'"
proof -
  have "\<exists>J. server_ok J sv" using rsatD [OF worker_ok [OF initial_ok [OF assms(1)] assms(2)] assms(3)] .
  then have "playing sv" using assms(4,5) by (auto simp: server_ok_def placing_def)
  then show ?thesis by (rule play_ends [OF _ assms(6)]) simp
qed

text \<open>The first cell that is still open.\<close>

definition grid_cells :: "BoardPosition list" where
  "grid_cells = [\<lparr>bp_x = x, bp_y = y\<rparr>. x \<leftarrow> [0..9], y \<leftarrow> [0..9]]"

definition first_open :: "Server \<Rightarrow> BoardPosition" where
  "first_open sv = (case find (\<lambda>p. map_of (Shots (board_of (opp (at_turn sv)) sv)) p = None) grid_cells of
     None \<Rightarrow> \<lparr>bp_x = 0, bp_y = 0\<rparr> | Some p \<Rightarrow> p)"

lemma legal_first_open: "legal first_open"
  unfolding legal_def
proof (intro allI impI)
  fix sv assume pl: "playing sv"
  let ?b = "board_of (opp (at_turn sv)) sv"
  have "board_ok ?b" "\<not> occupied ?b \<subseteq> shot_cells ?b" using pl by (auto simp: playing_def players_ok_def)
  then have "card (shot_cells ?b) < card grid" using afloat_card by (fastforce simp: card_grid(1))
  moreover have "finite (shot_cells ?b)" by (simp add: shot_cells_def)
  ultimately have "\<not> grid \<subseteq> shot_cells ?b" using card_mono leD by blast
  then obtain p where p: "p \<in> grid" "p \<notin> shot_cells ?b" by blast
  have g: "set grid_cells = grid" unfolding grid_eq grid_cells_def by auto
  obtain q where q: "find (\<lambda>p. map_of (Shots ?b) p = None) grid_cells = Some q"
    using p g shot_known [of ?b p] by (cases "find (\<lambda>p. map_of (Shots ?b) p = None) grid_cells") (auto simp: find_None_iff)
  then have "q \<in> grid" "q \<notin> shot_cells ?b" using g shot_known [of ?b q] by (auto simp: find_Some_iff)
  then show "first_open sv \<in> grid \<and> first_open sv \<notin> shot_cells ?b" by (simp add: first_open_def q)
qed

definition example_server :: Server where
  "example_server = \<lparr>player1 = Player_new True, player2 = Player_new False, whoseTurn = False, shotLaunchedThisTurn = False,
     gameStarted = False, workerStop = True, sv_sent = [], sv_stopped = False\<rparr>"

definition example_fleet :: "PeerID \<Rightarrow> (bool \<times> message) list" where
  "example_fleet who = map (\<lambda>t. (True, who, GC_PlaceShip, [t, 0, 0, t])) [0, 1, 2, 3, 4]"

definition example_messages :: "(bool \<times> message) list" where
  "example_messages = [(True, 1, NOTIFY_CONNECTION_INCOMING, []), (True, 2, NOTIFY_CONNECTION_INCOMING, [])] @ example_fleet 1 @ example_fleet 2"

lemma example_run: "\<exists>sv. Server_ThreadWorker example_messages (Server_Initialize example_server) = Inr sv \<and> gameStarted sv \<and>
    (\<forall>m \<in> set (sv_sent sv). fst (snd m) \<noteq> GC_GameWin)"
proof -
  have "(case Server_ThreadWorker example_messages (Server_Initialize example_server) of Inl _ \<Rightarrow> False
      | Inr sv \<Rightarrow> gameStarted sv \<and> list_all (\<lambda>m. fst (snd m) \<noteq> GC_GameWin) (sv_sent sv))"
    by code_simp
  then show ?thesis by (auto simp: list_all_iff split: sum.splits)
qed

theorem battle_ends_witness:
  "\<exists>sv sv' w. Server_ThreadWorker example_messages (Server_Initialize example_server) = Inr sv \<and> gameStarted sv \<and>
    play first_open 199 sv = Inr sv' \<and> won_by w sv'"
proof -
  obtain sv where sv: "Server_ThreadWorker example_messages (Server_Initialize example_server) = Inr sv" "gameStarted sv"
    "\<forall>m \<in> set (sv_sent sv). fst (snd m) \<noteq> GC_GameWin" using example_run by blast
  have "deliverable {} example_messages"
    by (simp add: example_messages_def example_fleet_def GC_PlaceShip_def config_defs)
  moreover have "\<not> won sv" using sv(3) by (force simp: won_def)
  moreover have "\<not> IsActive example_server" by (simp add: IsActive_def example_server_def)
  ultimately show ?thesis using battle_ends [OF _ _ sv(1,2) _ legal_first_open] sv(1,2) by blast
qed

section \<open>Hostile and late messages\<close>

text \<open>
  A request to place a ship of a type that does not exist ends the server, and so does one that is too short.
\<close>

lemma bad_ship_crashes:
  assumes "\<not> gameStarted sv" "GetPlayerForPeerID sender sv = Some w" "5 \<le> unat type"
  shows "OnPlayerPlaceShip coin sender (type # ori # x # y # rest) sv = Inl OutOfRange" "OnPlayerPlaceShip coin sender [] sv = Inl OutOfBounds"
  using assms by (simp_all add: OnPlayerPlaceShip_def place_request_def Let_def CanPlaceShip_def GetShipLength_def ship_types Ship_new_def)

text \<open>
  After the game was won the server takes requests to place ships again, and since both fleets are complete, any such request of
  a player, acceptable or not, starts the next game on the boards of the last one.
\<close>

lemma win_restarts:
  assumes s: "\<not> gameStarted sv" "length (Ships (pl_Board (player1 sv))) = 5" "length (Ships (pl_Board (player2 sv))) = 5"
    and w: "GetPlayerForPeerID sender sv = Some w" "board_ok (board_of w sv)" "unat type < 5"
    and full: "\<not> cells ((Ship_new (unat type))\<lparr>Position := \<lparr>bp_x = int (unat x), bp_y = int (unat y)\<rparr>, Orientation := unat ori\<rparr>) \<subseteq> grid"
  shows "\<exists>sv'. OnPlayerPlaceShip coin sender [type, ori, x, y] sv = Inr sv' \<and> gameStarted sv' \<and> (\<forall>u. board_of u sv' = board_of u sv)"
proof -
  let ?s = "(Ship_new (unat type))\<lparr>Position := \<lparr>bp_x = int (unat x), bp_y = int (unat y)\<rparr>, Orientation := unat ori\<rparr>"
  have "CanPlaceShip ?s (pl_Board (the_player w sv)) = Inr False"
    using CanPlaceShip_ok [OF w(2), of ?s] w(3) full by (simp add: Ship_new_def board_of_def)
  then have "place_request w [type, ori, x, y] sv = Inr (send_to (NetworkID (the_player w sv)) GC_PlaceShip [type, 0] sv)"
    by (simp add: place_request_def Let_def cs_bool_def)
  then show ?thesis using s w(1) by (auto simp: OnPlayerPlaceShip_def Let_def begin_game_def board_of_def)
qed

end
