(* ===== verification/Battle_Client.thy ===== *)
theory Battle_Client
  imports Battle_Server
begin

text \<open>
  The client of the Battleships example: \<^verbatim>\<open>examples/Battleships/Client.cs\<close> and the game logic of
  \<^verbatim>\<open>FormGame.cs\<close>, and of \<^verbatim>\<open>FormConnect.cs\<close> what opens the game.  What the forms draw and the texts they show are left out; looking up the letter of a row
  can fail and is kept.  A message to the server is recorded in the order of the calls of \<^verbatim>\<open>Send\<close>.
\<close>

section \<open>State\<close>

datatype GamePhase = PlacingShips | WaitForOpponent | OurTurn | OpponentTurn | Ended

record Client =
  cl_Board :: Board
  TrackingBoard :: Board
  m_Phase :: GamePhase
  m_MousePosition :: BoardPosition
  m_Placing :: "Ship option"
  m_PlacingType :: ShipType
  m_ExpectDisconnect :: bool
  picMainBoard_Enabled :: bool
  cl_closed :: bool
  cl_sent :: "(PacketCommand \<times> u8 list) list"





section \<open>Requests\<close>






section \<open>Answers\<close>







section \<open>What the players see\<close>



























section \<open>A whole session\<close>














definition told :: "Server \<Rightarrow> seat \<Rightarrow> Client \<Rightarrow> Client" where
  "told sv u c = (if u = at_turn sv then c\<lparr>m_Phase := OurTurn, picMainBoard_Enabled := True\<rparr> else c\<lparr>m_Phase := OpponentTurn\<rparr>)"

lemma told_simps [simp]:
  "cl_Board (told sv u c) = cl_Board c" "TrackingBoard (told sv u c) = TrackingBoard c" "m_Placing (told sv u c) = m_Placing c"
  "m_Phase (told sv u c) = (if u = at_turn sv then OurTurn else OpponentTurn)"
  "picMainBoard_Enabled c \<Longrightarrow> picMainBoard_Enabled (told sv u c)"
  by (simp_all add: told_def)


















end
