(* ===== verification/CSharp.thy ===== *)
theory CSharp
  imports CBindings Battle_Server
begin

text \<open>
  The C-sharp wrapper, \<^verbatim>\<open>extras/WirefoxCSharp\<close>: the classes \<^verbatim>\<open>Packet\<close> and \<^verbatim>\<open>Peer\<close> over the functions of
  the C interface.  An object holds the handle it was given; a buffer passed to the interface is a copy of a managed array.
  Where a method takes an address \<open>a\<close>, that is the address the allocator of the library returns.  A length of time is a
  \<^verbatim>\<open>TimeSpan\<close>, in ticks of 100 nanoseconds.
\<close>

section \<open>Packets\<close>

record CsPacket =
  cp_handle :: handle
  cp_cmd :: PacketCommand
  cp_payload :: "u8 list option"
  cp_sender :: PeerID

definition cs_Packet :: "handle \<Rightarrow> PacketCommand \<Rightarrow> u8 list option \<Rightarrow> Bindings \<Rightarrow> (CsPacket \<times> Bindings) result" where
  "cs_Packet a cmd data b =
     (let n = (case data of None \<Rightarrow> 0 | Some bs \<Rightarrow> length bs);
          buffer = map_option (map Some) data
      in rbind (wirefox_packet_create a cmd buffer n b) (\<lambda>(h, b).
         Inr (\<lparr>cp_handle = h, cp_cmd = cmd, cp_payload = data, cp_sender = 0\<rparr>, b)))"

definition cs_Packet_of_handle :: "handle \<Rightarrow> Bindings \<Rightarrow> CsPacket result" where
  "cs_Packet_of_handle h b =
     rbind (wirefox_packet_get_cmd h b) (\<lambda>cmd.
     rbind (wirefox_packet_get_sender h b) (\<lambda>sender.
     rbind (wirefox_packet_get_data h b) (\<lambda>dataptr.
     rbind (case dataptr of None \<Rightarrow> Inr []
            | Some m \<Rightarrow> rbind (wirefox_packet_get_length h b) (\<lambda>n.
                if n < 2 ^ 32 then load_bytes (Some m) 0 n else Inl OutOfRange)) (\<lambda>data.
     Inr \<lparr>cp_handle = h, cp_cmd = cmd, cp_payload = Some data, cp_sender = sender\<rparr>))))"

definition cs_Packet_Dispose :: "CsPacket \<Rightarrow> Bindings \<Rightarrow> CsPacket \<times> Bindings" where
  "cs_Packet_Dispose packet b = (packet\<lparr>cp_handle := 0\<rparr>, wirefox_packet_destroy (cp_handle packet) b)"

definition cs_GetHandle :: "CsPacket \<Rightarrow> handle" where
  "cs_GetHandle packet = cp_handle packet"

definition cs_GetCommand :: "CsPacket \<Rightarrow> PacketCommand" where
  "cs_GetCommand packet = cp_cmd packet"

definition cs_GetSender :: "CsPacket \<Rightarrow> PeerID" where
  "cs_GetSender packet = cp_sender packet"

definition cs_GetBuffer :: "CsPacket \<Rightarrow> u8 list option" where
  "cs_GetBuffer packet = cp_payload packet"

text \<open>The reader of \<^verbatim>\<open>GetStream\<close> is the list of the bytes it has still to read.\<close>

definition cs_GetStream :: "CsPacket \<Rightarrow> u8 list result" where
  "cs_GetStream packet = (case cp_payload packet of None \<Rightarrow> Inl NullPointer | Some bs \<Rightarrow> Inr bs)"

section \<open>Peers\<close>

record CsPeer =
  cs_handle :: handle

record CsChannel =
  Index :: ChannelIndex
  Mode :: ChannelMode

text \<open>Conversions of numbers: to 32 bits, and from ticks to milliseconds.\<close>

definition cs_uint :: "int \<Rightarrow> nat" where
  "cs_uint x = nat (x mod 2 ^ 32)"

definition cs_int :: "nat \<Rightarrow> int result" where
  "cs_int x = (if x < 2 ^ 32 then Inr (sint (of_nat x :: u32)) else Inl OutOfRange)"

definition cs_milliseconds :: "int \<Rightarrow> nat result" where
  "cs_milliseconds ticks =
     (let ms = ticks div 10000 in if 0 \<le> ticks \<and> ms < 2 ^ 32 then Inr (nat ms) else Inl Indeterminate)"

definition cs_Peer :: "handle \<Rightarrow> u64 list \<Rightarrow> int \<Rightarrow> Bindings \<Rightarrow> (CsPeer \<times> Bindings) result" where
  "cs_Peer a rng maxPeers b =
     rbind (wirefox_peer_create a rng (cs_uint maxPeers) b) (\<lambda>(h, b). Inr (\<lparr>cs_handle = h\<rparr>, b))"

definition cs_Peer_Dispose :: "CsPeer \<Rightarrow> Bindings \<Rightarrow> CsPeer \<times> Bindings" where
  "cs_Peer_Dispose peer b = (peer\<lparr>cs_handle := 0\<rparr>, wirefox_peer_destroy (cs_handle peer) b)"

definition cs_Stop :: "Env \<Rightarrow> (Peer \<Rightarrow> Peer result) \<Rightarrow> int \<Rightarrow> CsPeer \<Rightarrow> Bindings \<Rightarrow> (unit \<times> Bindings) result" where
  "cs_Stop env sleep linger peer b =
     rbind (cs_milliseconds linger) (\<lambda>ms. wirefox_peer_stop env sleep (cs_handle peer) ms b)"

definition cs_Bind :: "Env \<Rightarrow> SocketProtocol \<Rightarrow> u16 \<Rightarrow> CsPeer \<Rightarrow> Bindings \<Rightarrow> (bool \<times> Bindings) result" where
  "cs_Bind env protocol port peer b =
     rbind (wirefox_peer_bind env (cs_handle peer) protocol port b) (\<lambda>(r, b). Inr (r \<noteq> 0, b))"

definition cs_Connect :: "Env \<Rightarrow> u8 list \<Rightarrow> u16 \<Rightarrow> CsPeer \<Rightarrow> Bindings \<Rightarrow> (ConnectAttemptResult \<times> Bindings) result" where
  "cs_Connect env host port peer = wirefox_peer_connect env (cs_handle peer) host port"

definition cs_Disconnect_linger :: "Env \<Rightarrow> PeerID \<Rightarrow> int \<Rightarrow> CsPeer \<Rightarrow> Bindings \<Rightarrow> (unit \<times> Bindings) result" where
  "cs_Disconnect_linger env who linger peer b =
     rbind (cs_milliseconds linger) (\<lambda>ms. wirefox_peer_disconnect env (cs_handle peer) who ms b)"

definition cs_Disconnect :: "Env \<Rightarrow> PeerID \<Rightarrow> CsPeer \<Rightarrow> Bindings \<Rightarrow> (unit \<times> Bindings) result" where
  "cs_Disconnect env who peer b = cs_Disconnect_linger env who (200 * 10000) peer b"

definition cs_DisconnectImmediate :: "PeerID \<Rightarrow> CsPeer \<Rightarrow> Bindings \<Rightarrow> (unit \<times> Bindings) result" where
  "cs_DisconnectImmediate who peer = wirefox_peer_disconnect_immediate (cs_handle peer) who"

definition cs_Send ::
  "Env \<Rightarrow> CsPacket \<Rightarrow> PeerID \<Rightarrow> PacketOptions \<Rightarrow> PacketPriority \<Rightarrow> CsPeer \<Rightarrow> Bindings \<Rightarrow> (PacketID \<times> Bindings) result" where
  "cs_Send env packet recipient opts priority peer =
     wirefox_peer_send env (cs_handle peer) (cs_GetHandle packet) recipient opts priority 0"

definition cs_SendLoopback :: "CsPacket \<Rightarrow> CsPeer \<Rightarrow> Bindings \<Rightarrow> (unit \<times> Bindings) result" where
  "cs_SendLoopback packet peer = wirefox_peer_send_loopback (cs_handle peer) (cs_GetHandle packet)"

definition cs_Receive :: "handle \<Rightarrow> CsPeer \<Rightarrow> Bindings \<Rightarrow> (CsPacket option \<times> Bindings) result" where
  "cs_Receive a peer b =
     rbind (wirefox_peer_receive a (cs_handle peer) b) (\<lambda>(packetHandle, b).
     if packetHandle = 0 then Inr (None, b)
     else rbind (cs_Packet_of_handle packetHandle b) (\<lambda>packet. Inr (Some packet, b)))"

definition cs_MakeChannel :: "ChannelMode \<Rightarrow> CsPeer \<Rightarrow> Bindings \<Rightarrow> (CsChannel \<times> Bindings) result" where
  "cs_MakeChannel mode peer b =
     rbind (wirefox_peer_make_channel (cs_handle peer) mode b) (\<lambda>(idx, b). Inr (\<lparr>Index = idx, Mode = mode\<rparr>, b))"

definition cs_GetChannelModeByIndex :: "ChannelIndex \<Rightarrow> CsPeer \<Rightarrow> Bindings \<Rightarrow> ChannelMode result" where
  "cs_GetChannelModeByIndex index peer = wirefox_peer_get_channel_mode (cs_handle peer) index"

definition cs_GetMyPeerID :: "CsPeer \<Rightarrow> Bindings \<Rightarrow> PeerID result" where
  "cs_GetMyPeerID peer = wirefox_peer_get_my_id (cs_handle peer)"

definition cs_GetMaxPeers :: "CsPeer \<Rightarrow> Bindings \<Rightarrow> int result" where
  "cs_GetMaxPeers peer b = rbind (wirefox_peer_get_max_peers (cs_handle peer) b) cs_int"

definition cs_GetMaxIncomingPeers :: "CsPeer \<Rightarrow> Bindings \<Rightarrow> int result" where
  "cs_GetMaxIncomingPeers peer b = rbind (wirefox_peer_get_max_incoming_peers (cs_handle peer) b) cs_int"

definition cs_SetMaxIncomingPeers :: "int \<Rightarrow> CsPeer \<Rightarrow> Bindings \<Rightarrow> (unit \<times> Bindings) result" where
  "cs_SetMaxIncomingPeers incoming peer = wirefox_peer_set_max_incoming_peers (cs_handle peer) (cs_uint incoming)"

definition cs_GetPing :: "PeerID \<Rightarrow> CsPeer \<Rightarrow> Bindings \<Rightarrow> int result" where
  "cs_GetPing who peer b = rbind (wirefox_peer_get_ping (cs_handle peer) who b) cs_int"

definition cs_GetPingAvailable :: "PeerID \<Rightarrow> CsPeer \<Rightarrow> Bindings \<Rightarrow> bool result" where
  "cs_GetPingAvailable who peer b = rbind (wirefox_peer_get_ping_available (cs_handle peer) who b) (\<lambda>n. Inr (n \<noteq> 0))"

definition cs_GetStat :: "PeerID \<Rightarrow> PeerStatID \<Rightarrow> CsPeer \<Rightarrow> Bindings \<Rightarrow> nat result" where
  "cs_GetStat who stat peer = wirefox_peer_get_stat (cs_handle peer) who stat"

definition cs_SetNetworkSimulator :: "rat \<Rightarrow> nat \<Rightarrow> CsPeer \<Rightarrow> Bindings \<Rightarrow> (unit \<times> Bindings) result" where
  "cs_SetNetworkSimulator packetLoss additionalPing peer = wirefox_peer_set_network_sim (cs_handle peer) packetLoss additionalPing"

definition cs_SetOfflineAdvertisement :: "u8 list \<Rightarrow> CsPeer \<Rightarrow> Bindings \<Rightarrow> (unit \<times> Bindings) result" where
  "cs_SetOfflineAdvertisement ad peer = wirefox_peer_set_offline_ad (cs_handle peer) (Some (map Some ad)) (length ad)"

definition cs_DisableOfflineAdvertisement :: "CsPeer \<Rightarrow> Bindings \<Rightarrow> (unit \<times> Bindings) result" where
  "cs_DisableOfflineAdvertisement peer = wirefox_peer_disable_offline_ad (cs_handle peer)"

definition cs_Ping :: "Env \<Rightarrow> u8 list \<Rightarrow> u16 \<Rightarrow> CsPeer \<Rightarrow> Bindings \<Rightarrow> (unit \<times> Bindings) result" where
  "cs_Ping env host port peer = wirefox_peer_ping env (cs_handle peer) host port"

definition cs_PingLocalNetwork :: "Env \<Rightarrow> u16 \<Rightarrow> CsPeer \<Rightarrow> Bindings \<Rightarrow> (unit \<times> Bindings) result" where
  "cs_PingLocalNetwork env port peer = wirefox_peer_ping_local_network env (cs_handle peer) port"

definition cs_GetEncryptionKeyLength :: "Env \<Rightarrow> CsPeer \<Rightarrow> Bindings \<Rightarrow> int result" where
  "cs_GetEncryptionKeyLength env peer b = rbind (wirefox_peer_get_crypto_key_length env (cs_handle peer) b) cs_int"

definition cs_GetEncryptionEnabled :: "CsPeer \<Rightarrow> Bindings \<Rightarrow> bool result" where
  "cs_GetEncryptionEnabled peer b = rbind (wirefox_peer_get_crypto_enabled (cs_handle peer) b) (\<lambda>n. Inr (n \<noteq> 0))"

definition cs_SetEncryptionEnabled :: "Env \<Rightarrow> bool \<Rightarrow> CsPeer \<Rightarrow> Bindings \<Rightarrow> (unit \<times> Bindings) result" where
  "cs_SetEncryptionEnabled env enabled peer = wirefox_peer_set_crypto_enabled env (cs_handle peer) (of_bool enabled)"

text \<open>\<^verbatim>\<open>Marshal.Copy\<close> of the first bytes of an array, which throws if the array is shorter.\<close>

definition cs_copied :: "u8 list \<Rightarrow> int \<Rightarrow> cell list result" where
  "cs_copied bs n = (if 0 \<le> n \<and> nat n \<le> length bs then Inr (map Some (take (nat n) bs)) else Inl OutOfRange)"

definition cs_SetEncryptionIdentity :: "Env \<Rightarrow> u8 list \<Rightarrow> u8 list \<Rightarrow> CsPeer \<Rightarrow> Bindings \<Rightarrow> (unit \<times> Bindings) result" where
  "cs_SetEncryptionIdentity env keySecret keyPublic peer b =
     rbind (cs_GetEncryptionKeyLength env peer b) (\<lambda>n.
     rbind (cs_copied keySecret n) (\<lambda>bufferS.
     rbind (cs_copied keyPublic n) (\<lambda>bufferP.
     wirefox_peer_set_crypto_identity env (cs_handle peer) (Some bufferS) (Some bufferP) b)))"

text \<open>The buffers come from the heap; what the library does not write to them is indeterminate.\<close>

definition cs_GenerateIdentity :: "Env \<Rightarrow> CsPeer \<Rightarrow> Bindings \<Rightarrow> (u8 list \<times> u8 list) result" where
  "cs_GenerateIdentity env peer b =
     rbind (cs_GetEncryptionKeyLength env peer b) (\<lambda>n.
     rbind (wirefox_peer_generate_crypto_identity env (cs_handle peer) b) (\<lambda>written.
     let blank = replicate (nat n) None;
         (bufferS, bufferP) = (case written of None \<Rightarrow> (blank, blank)
           | Some (s, p) \<Rightarrow> (map Some s @ drop (length s) blank, map Some p @ drop (length p) blank))
     in rbind (load_bytes (Some bufferS) 0 (nat n)) (\<lambda>keySecret.
        rbind (load_bytes (Some bufferP) 0 (nat n)) (\<lambda>keyPublic. Inr (keySecret, keyPublic)))))"

section \<open>A message from one program to another\<close>

text \<open>
  C11.  Between two C-sharp programs a reliable message of one packet, with a command of the application, survives the journey: a \<^verbatim>\<open>Packet\<close> made from a command and an array and
  given to \<^verbatim>\<open>Send\<close> comes out of \<^verbatim>\<open>Receive\<close> of the connected peer as a \<^verbatim>\<open>Packet\<close> with the same command and the
  same bytes, as an array and as a stream, and with the identity of the sender.
\<close>

theorem csharp_message_roundtrip:
  assumes "find_handle (cs_handle P) (m_handlesPeer b) = Some p" "find_handle (cs_handle Q) (m_handlesPeer b) = Some q" "cs_handle P \<noteq> cs_handle Q"
    "in_step 1 T i addrA who j addrB p q" "turn_ok T x" "x_packet x = packet_of 0 cmd bs" "T \<le> 2 ^ 58"
    "m_channels p = UNORDERED # cs" "m_inbox q = []" "allocated a b" "allocated a' b" "a \<noteq> a'"
  shows "\<exists>packet pid r b1 b2 b3 b4. cs_Packet a cmd (Some bs) b = Inr (packet, b1) \<and>
    cs_Send (x_send x) packet who (x_options x) (x_priority x) P b1 = Inr (pid, b2) \<and>
    c_settle (cs_handle P) i addrA (cs_handle Q) j addrB x b2 = Inr b3 \<and> cs_Receive a' Q b3 = Inr (Some r, b4) \<and>
    cs_GetCommand r = cmd \<and> cs_GetBuffer r = Some bs \<and> cs_GetStream r = Inr bs \<and> cs_GetSender r = rp_id (at_slot j q)"
proof -
  obtain pid b1 b2 b3 b4 where r: "wirefox_packet_create a cmd (Some (map Some bs)) (length bs) b = Inr (a, b1)"
    "wirefox_peer_send (x_send x) (cs_handle P) a who (x_options x) (x_priority x) 0 b1 = Inr (pid, b2)"
    "c_settle (cs_handle P) i addrA (cs_handle Q) j addrB x b2 = Inr b3" "wirefox_peer_receive a' (cs_handle Q) b3 = Inr (a', b4)"
    "wirefox_packet_get_cmd a' b4 = Inr cmd" "wirefox_packet_get_length a' b4 = Inr (length bs)"
    "wirefox_packet_get_data a' b4 = Inr (if bs = [] then None else Some (map Some bs))"
    "wirefox_packet_get_sender a' b4 = Inr (rp_id (at_slot j q))"
    using c_message_ok [OF assms] by blast
  let ?packet = "\<lparr>cp_handle = a, cp_cmd = cmd, cp_payload = Some bs, cp_sender = 0\<rparr>"
  let ?r = "\<lparr>cp_handle = a', cp_cmd = cmd, cp_payload = Some bs, cp_sender = rp_id (at_slot j q)\<rparr>"
  have "length bs < 2 ^ 32" using assms(5,6) by (simp add: turn_ok_def turn_message_def message_ok_def packet_of_def CHUNK_SIZE_eq)
  then have "cs_Packet_of_handle a' b4 = Inr ?r" using r(5-8) by (simp add: cs_Packet_of_handle_def load_bytes_def)
  moreover have "a' \<noteq> 0" using assms(11) by (simp add: allocated_def)
  ultimately have "cs_Receive a' Q b3 = Inr (Some ?r, b4)" using r(4) by (simp add: cs_Receive_def)
  moreover have "cs_Packet a cmd (Some bs) b = Inr (?packet, b1)" using r(1) by (simp add: cs_Packet_def)
  moreover have "cs_Send (x_send x) ?packet who (x_options x) (x_priority x) P b1 = Inr (pid, b2)"
    using r(2) by (simp add: cs_Send_def cs_GetHandle_def)
  ultimately show ?thesis using r(3)
    by (intro exI [of _ ?packet] exI [of _ pid] exI [of _ ?r] exI [of _ b1] exI [of _ b2] exI [of _ b3] exI [of _ b4])
      (simp add: cs_GetCommand_def cs_GetBuffer_def cs_GetStream_def cs_GetSender_def)
qed

definition example_bindings :: Bindings where
  "example_bindings = \<lparr>m_handlesPeer = [(64, example_peer 11 12 (example_address 2)), (96, example_peer 12 11 (example_address 1))],
     m_handlesPacket = []\<rparr>"

lemma example_step:
  "in_step 1 (2 ^ 30) 1 (example_address 1) 12 1 (example_address 2) (example_peer 11 12 (example_address 2)) (example_peer 12 11 (example_address 1))"
  by (rule example_in_step) simp_all

lemma example_bindings_ok:
  "find_handle (cs_handle \<lparr>cs_handle = 64\<rparr>) (m_handlesPeer example_bindings) = Some (example_peer 11 12 (example_address 2))"
  "find_handle (cs_handle \<lparr>cs_handle = 96\<rparr>) (m_handlesPeer example_bindings) = Some (example_peer 12 11 (example_address 1))"
  "m_channels (example_peer 11 12 (example_address 2)) = UNORDERED # []" "allocated 128 example_bindings" "allocated 160 example_bindings"
  "turn_ok (2 ^ 30) (example_turn 1 [1, 2, 3] RELIABLE)"
proof -
  show "turn_ok (2 ^ 30) (example_turn 1 [1, 2, 3] RELIABLE)" by (rule example_turn_ok) (simp_all add: CHUNK_SIZE_eq)
qed (simp_all add: example_bindings_def find_handle_def example_peer_def allocated_def del: One_nat_def)

lemma example_turn_fields:
  "x_packet (example_turn 1 bs opts) = packet_of 0 20 bs" "x_send (example_turn 1 bs opts) = example_env 1"
  "x_options (example_turn 1 bs opts) = opts" "x_priority (example_turn 1 bs opts) = MEDIUM"
  by (simp_all add: example_messages)

theorem csharp_message_roundtrip_witness:
  "\<exists>packet pid r b1 b2 b3 b4. cs_Packet 128 20 (Some [1, 2, 3]) example_bindings = Inr (packet, b1) \<and>
    cs_Send (example_env 1) packet 12 RELIABLE MEDIUM \<lparr>cs_handle = 64\<rparr> b1 = Inr (pid, b2) \<and>
    c_settle 64 1 (example_address 1) 96 1 (example_address 2) (example_turn 1 [1, 2, 3] RELIABLE) b2 = Inr b3 \<and>
    cs_Receive 160 \<lparr>cs_handle = 96\<rparr> b3 = Inr (Some r, b4) \<and> cs_GetCommand r = 20 \<and> cs_GetStream r = Inr [1, 2, 3] \<and> cs_GetSender r = 11"
  using csharp_message_roundtrip [OF example_bindings_ok(1,2) _ example_step example_bindings_ok(6) example_turn_fields(1) _ example_bindings_ok(3) _ example_bindings_ok(4,5)]
  by (simp add: example_turn_fields example_fields del: One_nat_def, blast)

section \<open>The first command of a C-sharp program\<close>

text \<open>
  A packet with a command of the system that has no handler ends the reading peer.
\<close>

lemma reserved_command_arrives:
  assumes full: "length full \<le> CHUNK_SIZE" "full \<noteq> []" and cmd: "hd full < USER_PACKET" "hd full \<noteq> DISCONNECT_REQUEST" "hd full \<noteq> RPC_SIGNAL"
    and q: "queued now i addr' opts 0 0 container full 0 out"
    and l: "link j addr p" and c: "congestion (at_slot j p) = Some c" "m_datagramHistory c did = None" "m_packetHistory c container = None"
  shows "socket_read env False addr (packet_datagram did out) p = Inl AssertFailure"
proof -
  have one: "segments (length full) = 1" using full by (cases full) (auto simp: segments_def CHUNK_SIZE_eq)
  have fl: "length full \<le> PACKET_MAX_LENGTH" using full(1) by (simp add: PACKET_MAX_LENGTH_def CHUNK_SIZE_eq)
  have seg: "segment full 0 = full" using full(1) by (simp add: segment_def)
  let ?h = "segment_header opts 0 0 container (segment_id container full 0) full 0"
  let ?len = "m_length (op_blob out)"
  have dg: "packet_datagram did out = enc_datagram (data_header True did ?len) [(?h, full)]"
    "datagram_ok (data_header True did ?len) [(?h, full)]" "length full < ?len"
    using queued_datagram [OF q fl _ full(2) refl] one by (simp_all add: seg)
  note rd = link_read_packet [OF l c(1,2) dg(2) refl, of env]
  have h: "\<not> flag_segment (read_over PacketHeader_default ?h)" "ph_offset (read_over PacketHeader_default ?h) = 0"
    "ph_id (read_over PacketHeader_default ?h) = container"
    using one by (simp_all add: segment_header_def segment_id_def)
  have "m_packetHistory (noted_datagram (e_now env) did c) container = None" using c(3) by (simp add: noted_histories(1))
  then show ?thesis
    using cmd h dg(3) rd(1,4)
    by (simp add: dg(1) receive_packet_def rassert_def NotifyReceivedPacket_def Let_def packet_of_def OnSystemPacket_def)
qed

text \<open>
  C38.  The enumeration of the wrapper gives the first command of a program the number that the library gives to a
  notification of its own.  So the first command cannot be used: a \<^verbatim>\<open>Packet\<close> with that command is accepted by \<^verbatim>\<open>Send\<close>, and when it arrives
  the receiving peer fails an assertion.  \<^verbatim>\<open>BeginSession\<close>, the first message of the Battleships example, is such a packet.
\<close>

theorem csharp_first_command_fails:
  assumes h: "find_handle (cs_handle P) (m_handlesPeer b) = Some p" "find_handle (cs_handle Q) (m_handlesPeer b) = Some q" "cs_handle P \<noteq> cs_handle Q"
    and st: "in_step 1 T i addrA who j addrB p q" and x: "turn_ok T x" "T \<le> 2 ^ 58" and bs: "length bs < CHUNK_SIZE"
    and c: "m_channels p = UNORDERED # cs" and a: "allocated a b"
  shows "\<exists>packet pid b1 b2. cs_Packet a GC_BeginSession (Some bs) b = Inr (packet, b1) \<and>
    cs_Send (x_send x) packet who (x_options x) (x_priority x) P b1 = Inr (pid, b2) \<and>
    c_settle (cs_handle P) i addrA (cs_handle Q) j addrB x b2 = Inl AssertFailure"
proof -
  let ?packet = "packet_of 0 GC_BeginSession bs"
  let ?b1 = "b\<lparr>m_handlesPacket := add_handle a ?packet (m_handlesPacket b)\<rparr>"
  obtain w d where w: "congestion (at_slot i p) = Some w" "congestion (at_slot j q) = Some d"
    and q: "link j addrA q"
    and fr: "m_datagramHistory d (m_nextDatagram w) = None" "m_packetHistory d (m_nextPacket w) = None"
    using st unfolding in_step_def unused_def by (auto dest: spec [of _ 0])
  have ok: "packet_ok ?packet" "pkt_length ?packet < CHUNK_SIZE" "(x_options x AND RELIABLE) = RELIABLE"
    "e_now (x_send x) \<le> e_now (x_write x)" "e_now (x_write x) \<le> T"
    using x(1) bs by (auto simp: turn_ok_def turn_message_def message_ok_def times_ok_def packet_of_def packet_ok_def CHUNK_SIZE_eq)
  obtain pid p1 p2 p3 out where s: "Send (x_send x) ?packet who (x_options x) (x_priority x) Channel_default p = Inr (pid, p1)"
    "pass (x_write x) i p1 = Inr p2" "queued (e_now (x_send x)) i addrB (x_options x) 0 0 (m_nextPacket w) (enc_Packet ?packet) 0 out"
    "su_write (m_masterSocket p2) = Some (addrB, packet_datagram (m_nextDatagram w) out, (i, m_nextDatagram w))" "socket_written False p2 = Inr p3"
    using message_sent [OF st ok x(2) w(1)] by blast
  have "length (enc_Packet ?packet) \<le> CHUNK_SIZE" "hd (enc_Packet ?packet) = GC_BeginSession"
    using length_enc_Packet [OF ok(1)] ok(2) by (simp_all add: GetDatagramLength_def enc_Packet_def packet_of_def)
  then have "socket_read (x_read x) False addrA (packet_datagram (m_nextDatagram w) out) q = Inl AssertFailure"
    using reserved_command_arrives [OF _ enc_Packet_nonempty _ _ _ s(3) q w(2) fr]
    by (simp add: game_commands config_defs)
  then have settle: "settle i addrA j addrB x p1 q = Inl AssertFailure" using s(2,4,5) by (simp add: settle_def carry_def)
  let ?b2 = "?b1\<lparr>m_handlesPeer := put_handle (cs_handle P) p1 (m_handlesPeer b)\<rparr>"
  let ?k = "\<lparr>cp_handle = a, cp_cmd = GC_BeginSession, cp_payload = Some bs, cp_sender = 0\<rparr>"
  have "find_handle a (m_handlesPacket ?b1) = Some ?packet" using a by (simp add: find_add allocated_def)
  then have "cs_Send (x_send x) ?k who (x_options x) (x_priority x) P ?b1 = Inr (pid, ?b2)"
    using h(1) s(1) c by (simp add: cs_Send_def cs_GetHandle_def wirefox_peer_send_def HandleToPeer_def HandleToPacket_def
      GetChannelModeByIndex_def through_live Channel_default_def)
  moreover have "cs_Packet a GC_BeginSession (Some bs) b = Inr (?k, ?b1)"
    by (simp add: cs_Packet_def wirefox_packet_create_def Packet_of_bytes)
  moreover have "c_settle (cs_handle P) i addrA (cs_handle Q) j addrB x ?b2 = Inl AssertFailure"
    using h settle by (simp add: c_settle_def HandleToPeer_def table.get_put)
  ultimately show ?thesis by blast
qed

theorem csharp_first_command_fails_witness:
  "\<exists>packet pid b1 b2. cs_Packet 128 GC_BeginSession (Some []) example_bindings = Inr (packet, b1) \<and>
    cs_Send (example_env 1) packet 12 RELIABLE MEDIUM \<lparr>cs_handle = 64\<rparr> b1 = Inr (pid, b2) \<and>
    c_settle 64 1 (example_address 1) 96 1 (example_address 2) (example_turn 1 [1, 2, 3] RELIABLE) b2 = Inl AssertFailure"
  using csharp_first_command_fails [OF example_bindings_ok(1,2) _ example_step example_bindings_ok(6) _ _ example_bindings_ok(3,4), of "[]"]
  by (simp add: example_turn_fields CHUNK_SIZE_eq del: One_nat_def)

end
