(* ===== verification/Texts.thy ===== *)
theory Texts
  imports Stream_Values
begin

text \<open>
  Texts of the example programs: string literals as bytes and the decimal notation of \<^verbatim>\<open>std::to_string\<close>, and the room a text
  takes on a stream.
\<close>

definition lit :: "string \<Rightarrow> u8 list" where
  "lit s = map of_char s"

text \<open>
  \<^verbatim>\<open>strncmp\<close> with the length of a literal, and \<^verbatim>\<open>strcmp\<close>, which both see a text only up to its first zero byte.
\<close>

definition c_str :: "u8 list \<Rightarrow> u8 list" where
  "c_str s = takeWhile (\<lambda>ch. ch \<noteq> 0) s"

definition has_prefix :: "u8 list \<Rightarrow> u8 list \<Rightarrow> bool" where
  "has_prefix s pre \<longleftrightarrow> take (length pre) (c_str s) = pre"

fun to_string :: "nat \<Rightarrow> u8 list" where
  "to_string n = (if n < 10 then [of_nat (48 + n)] else to_string (n div 10) @ [of_nat (48 + n mod 10)])"

declare to_string.simps [simp del]

lemma lit_simps [simp]: "length (lit s) = length s" "lit [] = []"
  by (simp_all add: lit_def)

lemma length_to_string: "n < 10 ^ k \<Longrightarrow> 0 < k \<Longrightarrow> length (to_string n) \<le> k"
proof (induction n arbitrary: k rule: to_string.induct)
  case (1 n)
  show ?case
  proof (cases "n < 10")
    case False
    then obtain j where k: "k = Suc j" "0 < j" using 1(2,3) by (cases k; cases "k - 1") auto
    then have "n div 10 < 10 ^ j" using 1(2) by auto
    then show ?thesis using 1(1) [OF False _ k(2)] False k(1) by (simp add: to_string.simps [of n])
  qed (use 1(3) in \<open>simp add: to_string.simps [of n]\<close>)
qed

lemma enc_string_size: "length (enc_string m) \<le> length m + 5" "enc_string m \<noteq> []"
  using length_enc7_le [of "of_nat (length m)"] by (simp_all add: enc_string_def enc7.simps [of "of_nat (length m)"])

end
