(* ===== verification/FileCopy.thy ===== *)
theory FileCopy
  imports Passes Texts
begin

text \<open>
  The file transfer example, \<^verbatim>\<open>examples/FileCopy/Main.cpp\<close>: the loops of \<^verbatim>\<open>StartSender\<close> and
  \<^verbatim>\<open>StartReceiver\<close>.  A file is its bytes; the input stream is what is still to be read of it.  The peer is seen by
  what the program asks of it: the packets handed to \<^verbatim>\<open>Send\<close> and the calls of \<^verbatim>\<open>Disconnect\<close>, in order.
  The identifier that \<^verbatim>\<open>Send\<close> returns for the \<open>n\<close>-th packet is \<open>ids n\<close>, and whether a file of a name can be
  opened for writing is \<open>opens\<close>.
\<close>

section \<open>Commands and packets\<close>

definition CHUNKS_IN_FLIGHT :: nat where "CHUNKS_IN_FLIGHT = 1"
definition FILE_CHUNK_SIZE :: nat where "FILE_CHUNK_SIZE = 65536"
definition FILE_BEGIN :: PacketCommand where "FILE_BEGIN = USER_PACKET"
definition FILE_CHUNK :: PacketCommand where "FILE_CHUNK = USER_PACKET + 1"
definition FILE_END :: PacketCommand where "FILE_END = USER_PACKET + 2"

lemmas file_commands = FILE_BEGIN_def FILE_CHUNK_def FILE_END_def

definition begin_packet :: "u8 list \<Rightarrow> nat \<Rightarrow> Packet result" where
  "begin_packet filename filelen =
     rbind (WriteString filename (BinaryStream_new BINARYSTREAM_DEFAULT_CAPACITY)) (\<lambda>outstream.
     rbind (WriteInt64 (of_nat filelen) outstream) (\<lambda>outstream.
     Inr (fst (Packet_of_moved_stream FILE_BEGIN outstream))))"

definition chunk_packet :: "u8 list \<Rightarrow> Packet result" where
  "chunk_packet chunk =
     rbind (WriteInt32 (of_nat (length chunk)) (BinaryStream_new FILE_CHUNK_SIZE)) (\<lambda>outstream.
     rbind (WriteBytes chunk outstream) (\<lambda>outstream.
     Inr (fst (Packet_of_moved_stream FILE_CHUNK outstream))))"

section \<open>The sender\<close>

record FileSender =
  filename :: "u8 list"
  infile :: "u8 list"
  infile_eof :: bool
  filelen :: nat
  chunksTotal :: nat
  chunksSent :: nat
  receiverID :: PeerID
  awaiting :: "PacketID set"
  fs_sent :: "(Packet \<times> PacketOptions) list"
  fs_disconnects :: "PeerID list"
  fs_done :: bool

definition FileSender_new :: "u8 list \<Rightarrow> u8 list \<Rightarrow> FileSender" where
  "FileSender_new name bs = \<lparr>filename = name, infile = bs, infile_eof = False, filelen = length bs,
     chunksTotal = length bs div FILE_CHUNK_SIZE + 1, chunksSent = 0, receiverID = 0, awaiting = {}, fs_sent = [],
     fs_disconnects = [], fs_done = False\<rparr>"

definition fs_Send :: "Packet \<Rightarrow> PacketOptions \<Rightarrow> FileSender \<Rightarrow> FileSender" where
  "fs_Send packet opts s = s\<lparr>fs_sent := fs_sent s @ [(packet, opts)]\<rparr>"

definition fs_packet :: "Packet \<Rightarrow> FileSender \<Rightarrow> FileSender result" where
  "fs_packet recv s =
     (if m_command recv = NOTIFY_CONNECT_SUCCESS
      then (let s = s\<lparr>receiverID := m_sender recv\<rparr>
            in rbind (begin_packet (filename s) (filelen s)) (\<lambda>packet. Inr (fs_Send packet RELIABLE s)))
      else if m_command recv = NOTIFY_CONNECT_FAILED then Inr (s\<lparr>fs_done := True\<rparr>)
      else if m_command recv = NOTIFY_CONNECTION_LOST \<or> m_command recv = NOTIFY_DISCONNECTED then Inr (s\<lparr>fs_done := True\<rparr>)
      else if m_command recv = NOTIFY_RECEIPT_ACKED
      then rbind (GetStream recv) (\<lambda>instream.
           rbind (ReadUInt32 instream) (\<lambda>(pid, _).
           Inr (s\<lparr>chunksSent := chunksSent s + 1, awaiting := awaiting s - {pid}\<rparr>)))
      else if m_command recv = NOTIFY_RECEIPT_LOST then Inl AssertFailure
      else if m_command recv = FILE_END then Inr (s\<lparr>fs_disconnects := fs_disconnects s @ [receiverID s]\<rparr>)
      else Inr s)"

fun fs_receive :: "Packet list \<Rightarrow> FileSender \<Rightarrow> FileSender result" where
  "fs_receive [] s = Inr s"
| "fs_receive (recv # rs) s = rbind (fs_packet recv s) (\<lambda>s. if fs_done s then Inr s else fs_receive rs s)"

text \<open>One round of the loop that sends chunks; a short read sets the end of file.\<close>

definition fs_chunk :: "(nat \<Rightarrow> PacketID) \<Rightarrow> FileSender \<Rightarrow> FileSender result" where
  "fs_chunk ids s =
     (let chunk = take FILE_CHUNK_SIZE (infile s);
          s = s\<lparr>infile := drop FILE_CHUNK_SIZE (infile s), infile_eof := length (infile s) < FILE_CHUNK_SIZE\<rparr>
      in rbind (chunk_packet chunk) (\<lambda>packet.
         let packetID = ids (length (fs_sent s));
             s = fs_Send packet (options_or RELIABLE WITH_RECEIPT) s;
             s = s\<lparr>awaiting := insert packetID (awaiting s)\<rparr>
         in if infile_eof s
            then rbind (Packet_of_data FILE_END None 0) (\<lambda>packetEof.
                 Inr (fs_Send packetEof (options_or RELIABLE WITH_RECEIPT) s))
            else Inr s))"

definition fs_unread :: "FileSender \<Rightarrow> nat" where
  "fs_unread s = (if infile_eof s then 0 else length (infile s) + 1)"

lemma fs_chunk_unread: "fs_chunk ids s = Inr s' \<Longrightarrow> \<not> infile_eof s \<Longrightarrow> fs_unread s' < fs_unread s"
  by (auto simp: fs_chunk_def fs_unread_def fs_Send_def Let_def FILE_CHUNK_SIZE_def split: if_splits)

function fs_chunks :: "(nat \<Rightarrow> PacketID) \<Rightarrow> FileSender \<Rightarrow> FileSender result" where
  "fs_chunks ids s =
     (if receiverID s \<noteq> 0 \<and> card (awaiting s) < CHUNKS_IN_FLIGHT \<and> \<not> infile_eof s
      then (case fs_chunk ids s of Inl e \<Rightarrow> Inl e | Inr s' \<Rightarrow> fs_chunks ids s')
      else Inr s)"
  by pat_completeness auto
termination
  by (relation "measure (\<lambda>(_, s). fs_unread s)") (auto simp: fs_chunk_unread)

declare fs_chunks.simps [simp del]

definition fs_pass :: "(nat \<Rightarrow> PacketID) \<Rightarrow> Packet list \<Rightarrow> FileSender \<Rightarrow> FileSender result" where
  "fs_pass ids recv s = rbind (fs_receive recv s) (\<lambda>s. if fs_done s then Inr s else fs_chunks ids s)"

section \<open>The receiver\<close>

text \<open>The output file is its name and what was written to it; \<open>fr_files\<close> are the files that were closed, newest first.\<close>

record FileReceiver =
  outfile :: "(u8 list \<times> u8 list) option"
  fr_files :: "(u8 list \<times> u8 list) list"
  senderID :: PeerID
  fr_filelen :: nat
  filerecv :: nat
  fr_sent :: "(Packet \<times> PacketOptions) list"
  fr_disconnects :: "PeerID list"
  fr_done :: bool

definition FileReceiver_new :: FileReceiver where
  "FileReceiver_new = \<lparr>outfile = None, fr_files = [], senderID = 0, fr_filelen = 0, filerecv = 0, fr_sent = [], fr_disconnects = [],
     fr_done = False\<rparr>"

definition fr_close :: "FileReceiver \<Rightarrow> FileReceiver" where
  "fr_close r = (case outfile r of None \<Rightarrow> r | Some f \<Rightarrow> r\<lparr>outfile := None, fr_files := f # fr_files r\<rparr>)"

definition recv_prefix :: "u8 list" where
  "recv_prefix = [0x72, 0x65, 0x63, 0x76, 0x5F]"

definition fr_begin :: "(u8 list \<Rightarrow> bool) \<Rightarrow> Packet \<Rightarrow> FileReceiver \<Rightarrow> FileReceiver result" where
  "fr_begin opens recv r =
     rbind (GetStream recv) (\<lambda>instream.
     rbind (ReadString instream) (\<lambda>(name, instream).
     let name = recv_prefix @ name
     in rbind (ReadUInt64 instream) (\<lambda>(len, _).
        let r = fr_close (r\<lparr>fr_filelen := unat len\<rparr>)
        in Inr (if opens name then r\<lparr>outfile := Some (name, [])\<rparr> else r))))"

definition fr_chunk :: "Packet \<Rightarrow> FileReceiver \<Rightarrow> FileReceiver result" where
  "fr_chunk recv r =
     rbind (GetStream recv) (\<lambda>instream.
     rbind (ReadUInt32 instream) (\<lambda>(len, instream).
     rassert (unat len \<le> FILE_CHUNK_SIZE) (
     let r = r\<lparr>filerecv := (filerecv r + unat len) mod 2 ^ 64\<rparr>
     in rbind (ReadBytes (unat len) instream) (\<lambda>(buffer, _).
        case outfile r of None \<Rightarrow> Inr r
        | Some (name, sofar) \<Rightarrow>
            (case buffer of None \<Rightarrow> Inl Indeterminate | Some bs \<Rightarrow> Inr (r\<lparr>outfile := Some (name, sofar @ bs)\<rparr>))))))"

text \<open>The file is closed when the function returns.\<close>

definition fr_end :: "Packet \<Rightarrow> FileReceiver \<Rightarrow> FileReceiver result" where
  "fr_end recv r =
     rbind (Packet_of_data FILE_END None 0) (\<lambda>packetEof.
     Inr ((fr_close r)\<lparr>fr_sent := fr_sent r @ [(packetEof, options_or RELIABLE WITH_RECEIPT)],
       fr_disconnects := fr_disconnects r @ [m_sender recv], fr_done := True\<rparr>))"

definition fr_packet :: "(u8 list \<Rightarrow> bool) \<Rightarrow> Packet \<Rightarrow> FileReceiver \<Rightarrow> FileReceiver result" where
  "fr_packet opens recv r =
     (if m_command recv = NOTIFY_CONNECTION_INCOMING then Inr (r\<lparr>senderID := m_sender recv\<rparr>)
      else if m_command recv = NOTIFY_CONNECTION_LOST \<or> m_command recv = NOTIFY_DISCONNECTED
      then Inr ((fr_close r)\<lparr>fr_done := True\<rparr>)
      else if m_command recv = FILE_BEGIN then fr_begin opens recv r
      else if m_command recv = FILE_CHUNK then fr_chunk recv r
      else if m_command recv = FILE_END then fr_end recv r
      else Inr r)"

section \<open>The packets of a transfer\<close>

lemma begin_packet_ok:
  assumes "valid_string name" "length name < 2 ^ 30"
  shows "\<exists>p. begin_packet name n = Inr p \<and> m_command p = FILE_BEGIN \<and> payload p = enc_string name @ be64 (of_nat n)"
proof -
  have len: "length (enc_string name) \<le> length name + 5" by (rule enc_string_size(1))
  obtain s1 where s1: "WriteString name (BinaryStream_new BINARYSTREAM_DEFAULT_CAPACITY) = Inr s1" "written s1 (enc_string name) []"
    using str.put_aligned [OF assms(1) written_new] len assms(2) by (auto simp: flushed_def max_stream_def)
  obtain s2 where s2: "WriteInt64 (of_nat n) s1 = Inr s2" "written s2 (enc_string name @ be64 (of_nat n)) []"
    using int64.put_aligned [OF _ s1(2), of "of_nat n" LittleEndian] len assms(2) by (auto simp: flushed_def max_stream_def)
  obtain p s' where "Packet_of_moved_stream FILE_BEGIN s2 = (p, s')" "m_command p = FILE_BEGIN" "payload p = enc_string name @ be64 (of_nat n)"
    using moved_packet [OF s2(2), of FILE_BEGIN] len assms(2) by (auto simp: flushed_def be64_def be32_def)
  then show ?thesis using s1(1) s2(1) by (simp add: begin_packet_def)
qed

lemma chunk_packet_ok:
  assumes "length bs \<le> FILE_CHUNK_SIZE"
  shows "\<exists>p. chunk_packet bs = Inr p \<and> m_command p = FILE_CHUNK \<and> payload p = be32 (of_nat (length bs)) @ bs"
proof -
  obtain s1 where s1: "WriteInt32 (of_nat (length bs)) (BinaryStream_new FILE_CHUNK_SIZE) = Inr s1" "written s1 (be32 (of_nat (length bs))) []"
    using int32.put_aligned [OF _ written_new, of "of_nat (length bs)" LittleEndian FILE_CHUNK_SIZE] by (auto simp: flushed_def max_stream_def)
  obtain s2 where s2: "WriteBytes bs s1 = Inr s2" "written s2 (be32 (of_nat (length bs)) @ bs) []"
    using written_WriteBytes [OF s1(2), of bs] assms by (auto simp: flushed_def max_stream_def FILE_CHUNK_SIZE_def)
  obtain p s' where "Packet_of_moved_stream FILE_CHUNK s2 = (p, s')" "m_command p = FILE_CHUNK" "payload p = be32 (of_nat (length bs)) @ bs"
    using moved_packet [OF s2(2), of FILE_CHUNK] assms by (auto simp: flushed_def be32_def FILE_CHUNK_SIZE_def)
  then show ?thesis using s1(1) s2(1) by (simp add: chunk_packet_def)
qed

lemma fr_begin_ok:
  assumes "valid_string name" "length name < 2 ^ 30"
  shows "fr_begin opens (packet_of who FILE_BEGIN (enc_string name @ be64 n)) r =
    Inr (let r = fr_close (r\<lparr>fr_filelen := unat n\<rparr>) in if opens (recv_prefix @ name) then r\<lparr>outfile := Some (recv_prefix @ name, [])\<rparr> else r)"
proof -
  have "length (enc_string name) \<le> length name + 5" by (rule enc_string_size(1))
  then obtain s where s: "GetStream (packet_of who FILE_BEGIN (enc_string name @ be64 n)) = Inr s" "reading s 0 (enc_string name @ be64 n)"
    using GetStream_packet_of [of "enc_string name @ be64 n"] assms(2) by auto
  obtain s1 where s1: "ReadString s = Inr (name, s1)" "reading s1 0 (be64 n)"
    using str.get_aligned [OF assms(1) s(2)] by auto
  obtain s2 where "ReadUInt64 s1 = Inr (n, s2)" using int64.get_aligned [OF _ s1(2), of n "[]"] by auto
  then show ?thesis using s(1) s1(1) by (simp add: fr_begin_def Let_def)
qed

lemma fr_chunk_ok:
  assumes "length bs \<le> FILE_CHUNK_SIZE"
  shows "fr_chunk (packet_of who FILE_CHUNK (be32 (of_nat (length bs)) @ bs)) r =
    Inr (r\<lparr>filerecv := (filerecv r + length bs) mod 2 ^ 64, outfile := map_option (\<lambda>(name, c). (name, c @ bs)) (outfile r)\<rparr>)"
proof -
  have n: "unat (of_nat (length bs) :: u32) = length bs" using assms by (simp add: unat_of_nat FILE_CHUNK_SIZE_def)
  obtain s where s: "GetStream (packet_of who FILE_CHUNK (be32 (of_nat (length bs)) @ bs)) = Inr s" "reading s 0 (be32 (of_nat (length bs)) @ bs)"
    using GetStream_packet_of [of "be32 (of_nat (length bs)) @ bs"] assms by (auto simp: FILE_CHUNK_SIZE_def)
  obtain s1 where s1: "ReadUInt32 s = Inr (of_nat (length bs), s1)" "reading s1 0 bs" using int32.get_aligned [OF _ s(2)] by auto
  obtain s2 where "ReadBytes (length bs) s1 = Inr (Some bs, s2)" using reading_ReadBytes' [OF s1(2), of bs "[]"] by auto
  then show ?thesis using s(1) s1(1) n assms by (auto simp: fr_chunk_def Let_def rassert_def split: option.split)
qed

lemma receipt_ok: "fs_packet (receipt_notice (pid, True)) s = Inr (s\<lparr>chunksSent := chunksSent s + 1, awaiting := awaiting s - {pid}\<rparr>)"
proof -
  obtain t where t: "GetStream (receipt_notice (pid, True)) = Inr t" "reading t 0 (be32 pid)"
    using GetStream_packet_of [of "be32 pid"] by (auto simp: receipt_notice_def)
  obtain t' where "ReadUInt32 t = Inr (pid, t')" using int32.get_aligned [OF _ t(2), of pid "[]"] by auto
  moreover have "m_command (receipt_notice (pid, True)) = NOTIFY_RECEIPT_ACKED" by (simp add: receipt_notice_def packet_of_def)
  moreover have "NOTIFY_RECEIPT_ACKED \<notin> {NOTIFY_CONNECT_SUCCESS, NOTIFY_CONNECT_FAILED, NOTIFY_CONNECTION_LOST, NOTIFY_DISCONNECTED}"
    by (simp add: config_defs)
  ultimately show ?thesis using t(1) by (simp add: fs_packet_def)
qed

section \<open>A transfer\<close>

text \<open>
  The two programs and the state of what the library carries between them: how many of the packets of the sender have arrived
  (the channel is ordered), the packets of which the sender has got the receipt, and how many replies of the receiver have arrived.
\<close>

record transfer =
  t_sender :: FileSender
  t_receiver :: FileReceiver
  t_arrived :: nat
  t_acked :: "nat set"
  t_replies :: nat

text \<open>What a pass of the sender may find: the receipt of one of its packets, or a reply of the receiver.\<close>

datatype notice = Receipt nat | Reply nat

definition replied :: "notice list \<Rightarrow> nat list" where
  "replied ns = concat (map (\<lambda>x. case x of Receipt _ \<Rightarrow> [] | Reply j \<Rightarrow> [j]) ns)"

definition receipted :: "notice list \<Rightarrow> nat list" where
  "receipted ns = concat (map (\<lambda>x. case x of Receipt k \<Rightarrow> [k] | Reply _ \<Rightarrow> []) ns)"

definition notice_packet :: "(nat \<Rightarrow> PacketID) \<Rightarrow> PeerID \<Rightarrow> FileReceiver \<Rightarrow> notice \<Rightarrow> Packet" where
  "notice_packet ids who r x = (case x of
      Receipt k \<Rightarrow> receipt_notice (ids k, True)
    | Reply j \<Rightarrow> as_received who (fst (fr_sent r ! j)))"

text \<open>
  A step is a pass of the sender's loop or the arrival of the next packet at the receiver.  A receipt comes at most once, for a packet
  that was sent and asked for it, and carries the identifier that \<^verbatim>\<open>Send\<close> gave that packet.
\<close>

datatype copy_event = SenderPasses "notice list" | PacketArrives

definition copy_enabled :: "copy_event \<Rightarrow> transfer \<Rightarrow> bool" where
  "copy_enabled e st = (case e of
      SenderPasses ns \<Rightarrow> distinct (receipted ns) \<and>
        (\<forall>k \<in> set (receipted ns). k < length (fs_sent (t_sender st)) \<and> k \<notin> t_acked st \<and> options_and (snd (fs_sent (t_sender st) ! k)) WITH_RECEIPT) \<and>
        replied ns = [t_replies st..<t_replies st + length (replied ns)] \<and> t_replies st + length (replied ns) \<le> length (fr_sent (t_receiver st))
    | PacketArrives \<Rightarrow> t_arrived st < length (fs_sent (t_sender st)) \<and> \<not> fr_done (t_receiver st))"

definition copy_step :: "(nat \<Rightarrow> PacketID) \<Rightarrow> (u8 list \<Rightarrow> bool) \<Rightarrow> PeerID \<Rightarrow> PeerID \<Rightarrow> copy_event \<Rightarrow> transfer \<Rightarrow> transfer result" where
  "copy_step ids opens me who e st = (case e of
      SenderPasses ns \<Rightarrow>
        rbind (fs_pass ids (map (notice_packet ids who (t_receiver st)) ns) (t_sender st)) (\<lambda>s.
        Inr (st\<lparr>t_sender := s, t_acked := t_acked st \<union> set (receipted ns), t_replies := t_replies st + length (replied ns)\<rparr>))
    | PacketArrives \<Rightarrow>
        rbind (fr_packet opens (as_received me (fst (fs_sent (t_sender st) ! t_arrived st))) (t_receiver st)) (\<lambda>r.
        Inr (st\<lparr>t_receiver := r, t_arrived := Suc (t_arrived st)\<rparr>)))"

inductive copies :: "(nat \<Rightarrow> PacketID) \<Rightarrow> (u8 list \<Rightarrow> bool) \<Rightarrow> PeerID \<Rightarrow> PeerID \<Rightarrow> transfer \<Rightarrow> transfer \<Rightarrow> bool"
  for ids opens me who where
  copies_step: "copy_enabled e st \<Longrightarrow> copy_step ids opens me who e st = Inr st' \<Longrightarrow> copies ids opens me who st st'"

inductive_cases copiesE: "copies ids opens me who st st'"

text \<open>The connection is made: the first pass of both programs.\<close>

definition connected :: "(nat \<Rightarrow> PacketID) \<Rightarrow> (u8 list \<Rightarrow> bool) \<Rightarrow> PeerID \<Rightarrow> PeerID \<Rightarrow> u8 list \<Rightarrow> u8 list \<Rightarrow> transfer result" where
  "connected ids opens me who name bs =
     rbind (fs_pass ids [packet_of who NOTIFY_CONNECT_SUCCESS [1]] (FileSender_new name bs)) (\<lambda>s.
     rbind (fr_packet opens (packet_of me NOTIFY_CONNECTION_INCOMING [1]) FileReceiver_new) (\<lambda>r.
     Inr \<lparr>t_sender = s, t_receiver = r, t_arrived = 0, t_acked = {}, t_replies = 0\<rparr>))"

text \<open>What was sent of the file so far, and what of it has arrived.\<close>

definition chunk_sent :: "u8 list \<Rightarrow> Packet \<times> PacketOptions \<Rightarrow> bool" where
  "chunk_sent c = (\<lambda>(p, opts). m_command p = FILE_CHUNK \<and> payload p = be32 (of_nat (length c)) @ c \<and> opts = options_or RELIABLE WITH_RECEIPT)"

definition sends_file :: "PeerID \<Rightarrow> u8 list \<Rightarrow> u8 list \<Rightarrow> u8 list list \<Rightarrow> FileSender \<Rightarrow> bool" where
  "sends_file who name bs cs s \<longleftrightarrow> receiverID s = who \<and> \<not> fs_done s \<and> filename s = name \<and> finite (awaiting s) \<and> card (awaiting s) \<le> 1 \<and>
     (\<forall>c \<in> set cs. length c \<le> FILE_CHUNK_SIZE) \<and> concat cs @ infile s = bs \<and> (infile_eof s \<longrightarrow> infile s = []) \<and>
     (\<exists>b l. m_command (fst b) = FILE_BEGIN \<and> payload (fst b) = enc_string name @ be64 (of_nat (length bs)) \<and> list_all2 chunk_sent cs l \<and>
        fs_sent s = b # l @ (if infile_eof s then [(packet_of 0 FILE_END [], options_or RELIABLE WITH_RECEIPT)] else []))"

definition has_file :: "(u8 list \<Rightarrow> bool) \<Rightarrow> u8 list \<Rightarrow> u8 list \<Rightarrow> u8 list list \<Rightarrow> bool \<Rightarrow> nat \<Rightarrow> FileReceiver \<Rightarrow> bool" where
  "has_file opens name bs cs eof n r \<longleftrightarrow>
     (if n = 0 then outfile r = None \<and> fr_files r = [] \<and> filerecv r = 0 \<and> \<not> fr_done r \<and> fr_sent r = []
      else fr_filelen r = length bs mod 2 ^ 64 \<and> filerecv r = length (concat (take (n - 1) cs)) mod 2 ^ 64 \<and>
        (let f = (recv_prefix @ name, concat (take (n - 1) cs)) in
         if eof \<and> n = length cs + 2 then fr_done r \<and> map fst (fr_sent r) = [packet_of 0 FILE_END []] \<and> outfile r = None \<and>
           fr_files r = (if opens (fst f) then [f] else [])
         else \<not> fr_done r \<and> fr_sent r = [] \<and> outfile r = (if opens (fst f) then Some f else None) \<and> fr_files r = []))"

definition awaits :: "(nat \<Rightarrow> PacketID) \<Rightarrow> nat set \<Rightarrow> FileSender \<Rightarrow> bool" where
  "awaits ids ks s \<longleftrightarrow> ks \<subseteq> {..<length (fs_sent s)} \<and>
     (\<forall>x \<in> awaiting s. \<exists>k < length (fs_sent s). k \<notin> ks \<and> options_and (snd (fs_sent s ! k)) WITH_RECEIPT \<and> x = ids k)"

definition transfer_ok :: "(nat \<Rightarrow> PacketID) \<Rightarrow> (u8 list \<Rightarrow> bool) \<Rightarrow> PeerID \<Rightarrow> u8 list \<Rightarrow> u8 list \<Rightarrow> transfer \<Rightarrow> bool" where
  "transfer_ok ids opens who name bs st \<longleftrightarrow> who \<noteq> 0 \<and> valid_string name \<and> length name < 2 ^ 30 \<and>
     t_arrived st \<le> length (fs_sent (t_sender st)) \<and> t_replies st \<le> length (fr_sent (t_receiver st)) \<and> awaits ids (t_acked st) (t_sender st) \<and>
     (\<exists>cs. sends_file who name bs cs (t_sender st) \<and> has_file opens name bs cs (infile_eof (t_sender st)) (t_arrived st) (t_receiver st))"

text \<open>The passes of the sender.\<close>

lemma asks_receipt: "options_and (options_or RELIABLE WITH_RECEIPT) WITH_RECEIPT"
  by (simp add: options_and_def options_or_def RELIABLE_def WITH_RECEIPT_def)

lemma fs_chunk_ok:
  assumes s: "sends_file who name bs cs s" "\<not> infile_eof s" "awaiting s = {}" "awaits ids ks s"
  shows "\<exists>s' c. fs_chunk ids s = Inr s' \<and> sends_file who name bs (cs @ [c]) s' \<and> awaiting s' \<noteq> {} \<and> finite (awaiting s') \<and> awaits ids ks s'"
proof -
  define c where "c = take FILE_CHUNK_SIZE (infile s)"
  have len: "length c \<le> FILE_CHUNK_SIZE" by (simp add: c_def)
  obtain p where p: "chunk_packet c = Inr p" "m_command p = FILE_CHUNK" "payload p = be32 (of_nat (length c)) @ c"
    using chunk_packet_ok [OF len] by blast
  obtain b l where bl: "m_command (fst b) = FILE_BEGIN" "payload (fst b) = enc_string name @ be64 (of_nat (length bs))" "list_all2 chunk_sent cs l"
    "fs_sent s = b # l" using s(1,2) by (auto simp: sends_file_def)
  let ?e = "length (infile s) < FILE_CHUNK_SIZE" and ?o = "options_or RELIABLE WITH_RECEIPT"
  let ?s = "s\<lparr>infile := drop FILE_CHUNK_SIZE (infile s), infile_eof := ?e, awaiting := {ids (length (fs_sent s))},
    fs_sent := b # (l @ [(p, ?o)]) @ (if ?e then [(packet_of 0 FILE_END [], ?o)] else [])\<rparr>"
  have "fs_chunk ids s = Inr ?s"
    using p(1) s(3) bl(4) by (simp add: fs_chunk_def c_def Let_def fs_Send_def Packet_of_data_def CopyFrom_def packet_of_def)
  moreover have "list_all2 chunk_sent (cs @ [c]) (l @ [(p, ?o)])" using list_all2_appendI [OF bl(3), of "[c]" "[(p, ?o)]"] p(2,3) by (simp add: chunk_sent_def)
  then have "sends_file who name bs (cs @ [c]) ?s"
    unfolding sends_file_def using s(1) len bl(1,2)
    by (intro conjI exI [of _ b] exI [of _ "l @ [(p, ?o)]"]) (auto simp: sends_file_def c_def)
  moreover have "fs_sent ?s ! length (fs_sent s) = (p, ?o)" "length (fs_sent s) \<notin> ks" "ks \<subseteq> {..<length (fs_sent s)}"
    using bl(4) s(4) by (auto simp: nth_append awaits_def)
  then have "awaits ids ks ?s" unfolding awaits_def using bl(4) asks_receipt by (auto intro!: exI [of _ "length (fs_sent s)"])
  ultimately show ?thesis by (intro exI [of _ ?s] exI [of _ c]) simp
qed

lemma fs_chunks_ok:
  assumes s: "sends_file who name bs cs s" and who: "who \<noteq> 0" and aw: "awaits ids ks s"
  shows "\<exists>s' cs'. fs_chunks ids s = Inr s' \<and> sends_file who name bs (cs @ cs') s' \<and> awaits ids ks s' \<and>
    (if \<not> infile_eof s \<and> awaiting s = {} then length cs' = 1 \<and> fs_unread s' < fs_unread s else cs' = [] \<and> s' = s)"
proof (cases "\<not> infile_eof s \<and> awaiting s = {}")
  case True
  obtain s' c where s': "fs_chunk ids s = Inr s'" "sends_file who name bs (cs @ [c]) s'" "awaiting s' \<noteq> {}" "finite (awaiting s')" "awaits ids ks s'"
    using fs_chunk_ok [OF s _ _ aw] True by blast
  have "fs_chunks ids s' = Inr s'" using s'(3,4) by (simp add: fs_chunks.simps [of ids s'] CHUNKS_IN_FLIGHT_def)
  then have "fs_chunks ids s = Inr s'" using True s s'(1) who by (simp add: fs_chunks.simps [of ids s] CHUNKS_IN_FLIGHT_def sends_file_def)
  then show ?thesis using s'(2,5) True fs_chunk_unread [OF s'(1)] by (intro exI [of _ s'] exI [of _ "[c]"]) simp
next
  case False
  then have "fs_chunks ids s = Inr s"
    using s by (auto simp: fs_chunks.simps [of ids s] CHUNKS_IN_FLIGHT_def sends_file_def)
  then show ?thesis using s aw False by (intro exI [of _ s] exI [of _ "[]"]) simp
qed

text \<open>What is found of receipts and replies.\<close>

lemma notice_simps [simp]:
  "receipted [] = []" "receipted (Receipt k # ns) = k # receipted ns" "receipted (Reply j # ns) = receipted ns"
  "replied [] = []" "replied (Receipt k # ns) = replied ns" "replied (Reply j # ns) = j # replied ns"
  by (simp_all add: receipted_def replied_def)

lemma reply_ok: "fs_packet (packet_of who FILE_END []) s = Inr (s\<lparr>fs_disconnects := fs_disconnects s @ [receiverID s]\<rparr>)"
proof -
  have "m_command (packet_of who FILE_END []) = FILE_END" "FILE_END \<notin> {NOTIFY_CONNECT_SUCCESS, NOTIFY_CONNECT_FAILED, NOTIFY_CONNECTION_LOST,
      NOTIFY_DISCONNECTED, NOTIFY_RECEIPT_ACKED, NOTIFY_RECEIPT_LOST}"
    by (simp_all add: packet_of_def file_commands config_defs)
  then show ?thesis by (simp add: fs_packet_def)
qed

lemma notice_ok:
  assumes "sends_file who name bs cs s" "\<And>j. x = Reply j \<Longrightarrow> as_received who (fst (fr_sent r ! j)) = packet_of who FILE_END []"
  shows "\<exists>s'. fs_packet (notice_packet ids who r x) s = Inr s' \<and> sends_file who name bs cs s' \<and> awaiting s' = awaiting s - ids ` set (receipted [x]) \<and>
    fs_sent s' = fs_sent s \<and> infile s' = infile s \<and> infile_eof s' = infile_eof s"
proof (cases x)
  case (Receipt k)
  have card: "finite (awaiting s)" "card (awaiting s) \<le> 1" using assms(1) by (simp_all add: sends_file_def)
  then have "card (awaiting s - {ids k}) \<le> 1" using card_Diff1_le [of "awaiting s" "ids k"] by linarith
  then show ?thesis using assms(1) Receipt by (auto simp: notice_packet_def receipt_ok sends_file_def)
next
  case (Reply j)
  then show ?thesis using assms by (simp add: notice_packet_def reply_ok) (simp add: sends_file_def)
qed

lemma fs_receive_ok:
  assumes "sends_file who name bs cs s" "\<forall>j \<in> set (replied ns). as_received who (fst (fr_sent r ! j)) = packet_of who FILE_END []"
  shows "\<exists>s'. fs_receive (map (notice_packet ids who r) ns) s = Inr s' \<and> sends_file who name bs cs s' \<and> awaiting s' = awaiting s - ids ` set (receipted ns) \<and>
    fs_sent s' = fs_sent s \<and> infile s' = infile s \<and> infile_eof s' = infile_eof s"
  using assms
proof (induction ns arbitrary: s)
  case (Cons x ns)
  have "as_received who (fst (fr_sent r ! j)) = packet_of who FILE_END []" if "x = Reply j" for j using Cons.prems(2) that by simp
  from notice_ok [OF Cons.prems(1) this, where ids = ids] obtain s1 where
    s1: "fs_packet (notice_packet ids who r x) s = Inr s1" "sends_file who name bs cs s1" "awaiting s1 = awaiting s - ids ` set (receipted [x])"
      "fs_sent s1 = fs_sent s" "infile s1 = infile s" "infile_eof s1 = infile_eof s" by blast
  obtain s2 where s2: "fs_receive (map (notice_packet ids who r) ns) s1 = Inr s2" "sends_file who name bs cs s2"
    "awaiting s2 = awaiting s1 - ids ` set (receipted ns)" "fs_sent s2 = fs_sent s1" "infile s2 = infile s1" "infile_eof s2 = infile_eof s1"
    using Cons.IH [OF s1(2)] Cons.prems(2) by (cases x) auto
  have "\<not> fs_done s1" using s1(2) by (simp add: sends_file_def)
  then have "fs_receive (map (notice_packet ids who r) (x # ns)) s = Inr s2" using s1(1) s2(1) by simp
  moreover have "awaiting s2 = awaiting s - ids ` set (receipted (x # ns))" using s1(3) s2(3) by (cases x) auto
  ultimately show ?case using s1(4-6) s2(2,4-6) by (intro exI [of _ s2]) simp
qed simp

lemma fs_pass_ok:
  assumes s: "sends_file who name bs cs s" "awaits ids ks s" and who: "who \<noteq> 0"
    and r: "\<forall>j \<in> set (replied ns). as_received who (fst (fr_sent r ! j)) = packet_of who FILE_END []"
    and ns: "\<forall>k \<in> set (receipted ns). k < length (fs_sent s)"
  shows "\<exists>s' cs'. fs_pass ids (map (notice_packet ids who r) ns) s = Inr s' \<and> sends_file who name bs (cs @ cs') s' \<and>
    awaits ids (ks \<union> set (receipted ns)) s' \<and>
    (if \<not> infile_eof s \<and> awaiting s \<subseteq> ids ` set (receipted ns) then length cs' = 1 \<and> fs_unread s' < fs_unread s
     else cs' = [] \<and> fs_sent s' = fs_sent s \<and> infile_eof s' = infile_eof s \<and> fs_unread s' = fs_unread s \<and> (ns = [] \<longrightarrow> s' = s))"
proof -
  obtain s1 where s1: "fs_receive (map (notice_packet ids who r) ns) s = Inr s1" "sends_file who name bs cs s1"
    "awaiting s1 = awaiting s - ids ` set (receipted ns)" "fs_sent s1 = fs_sent s" "infile s1 = infile s" "infile_eof s1 = infile_eof s"
    using fs_receive_ok [OF s(1) r] by blast
  have "awaits ids (ks \<union> set (receipted ns)) s1" using s(2) ns s1(3,4) unfolding awaits_def by fastforce
  from fs_chunks_ok [OF s1(2) who this] obtain s2 cs' where s2: "fs_chunks ids s1 = Inr s2" "sends_file who name bs (cs @ cs') s2"
    "awaits ids (ks \<union> set (receipted ns)) s2"
    "if \<not> infile_eof s1 \<and> awaiting s1 = {} then length cs' = 1 \<and> fs_unread s2 < fs_unread s1 else cs' = [] \<and> s2 = s1" by blast
  have "\<not> fs_done s1" using s1(2) by (simp add: sends_file_def)
  then have "fs_pass ids (map (notice_packet ids who r) ns) s = Inr s2" using s1(1) s2(1) by (simp add: fs_pass_def)
  moreover have "fs_unread s1 = fs_unread s" "awaiting s1 = {} \<longleftrightarrow> awaiting s \<subseteq> ids ` set (receipted ns)" "ns = [] \<Longrightarrow> s1 = s"
    using s1 by (auto simp: fs_unread_def)
  ultimately show ?thesis using s2(2-4) s1(4,6) by (intro exI [of _ s2] exI [of _ cs']) (auto split: if_splits)
qed

text \<open>The arrival of a packet.\<close>

lemma fr_packet_ok:
  assumes s: "sends_file who name bs cs s" and r: "has_file opens name bs cs (infile_eof s) n r" "\<not> fr_done r" and n: "n < length (fs_sent s)"
    and name: "valid_string name" "length name < 2 ^ 30"
  shows "\<exists>r'. fr_packet opens (as_received me (fst (fs_sent s ! n))) r = Inr r' \<and> has_file opens name bs cs (infile_eof s) (Suc n) r'"
proof -
  obtain b l where bl: "m_command (fst b) = FILE_BEGIN" "payload (fst b) = enc_string name @ be64 (of_nat (length bs))" "list_all2 chunk_sent cs l"
    "fs_sent s = b # l @ (if infile_eof s then [(packet_of 0 FILE_END [], options_or RELIABLE WITH_RECEIPT)] else [])"
    using s by (auto simp: sends_file_def)
  have len: "length l = length cs" using bl(3) by (simp add: list_all2_lengthD)
  have cmd: "FILE_BEGIN \<notin> {NOTIFY_CONNECTION_INCOMING, NOTIFY_CONNECTION_LOST, NOTIFY_DISCONNECTED}"
    "FILE_CHUNK \<notin> {NOTIFY_CONNECTION_INCOMING, NOTIFY_CONNECTION_LOST, NOTIFY_DISCONNECTED, FILE_BEGIN}"
    "FILE_END \<notin> {NOTIFY_CONNECTION_INCOMING, NOTIFY_CONNECTION_LOST, NOTIFY_DISCONNECTED, FILE_BEGIN, FILE_CHUNK}"
    by (simp_all add: file_commands config_defs)
  consider "n = 0" | m where "n = Suc m" "m < length cs" | "n = Suc (length cs)" "infile_eof s"
    using n bl(4) len by (cases n) (auto split: if_splits simp: less_Suc_eq)
  then show ?thesis
  proof cases
    case 1
    have "as_received me (fst (fs_sent s ! n)) = packet_of me FILE_BEGIN (enc_string name @ be64 (of_nat (length bs)))"
      using 1 bl by (simp add: as_received_def)
    moreover have "m_command (packet_of me FILE_BEGIN x) = FILE_BEGIN" for x by (simp add: packet_of_def)
    ultimately have "fr_packet opens (as_received me (fst (fs_sent s ! n))) r =
        Inr (let r = fr_close (r\<lparr>fr_filelen := unat (of_nat (length bs) :: u64)\<rparr>) in if opens (recv_prefix @ name) then r\<lparr>outfile := Some (recv_prefix @ name, [])\<rparr> else r)"
      using cmd(1) fr_begin_ok [OF name] by (simp add: fr_packet_def)
    then show ?thesis using r(1) 1 by (auto simp: has_file_def Let_def fr_close_def unat_of_nat)
  next
    case (2 m)
    have c: "chunk_sent (cs ! m) (l ! m)" "length (cs ! m) \<le> FILE_CHUNK_SIZE"
      using bl(3) 2(2) s by (auto simp: list_all2_conv_all_nth sends_file_def)
    have "fs_sent s ! n = l ! m" using bl(4) 2 len by (simp add: nth_append)
    then have "as_received me (fst (fs_sent s ! n)) = packet_of me FILE_CHUNK (be32 (of_nat (length (cs ! m))) @ cs ! m)"
      using c(1) by (auto simp: as_received_def chunk_sent_def split: prod.splits)
    moreover have "m_command (packet_of me FILE_CHUNK x) = FILE_CHUNK" for x by (simp add: packet_of_def)
    ultimately have "fr_packet opens (as_received me (fst (fs_sent s ! n))) r =
        Inr (r\<lparr>filerecv := (filerecv r + length (cs ! m)) mod 2 ^ 64, outfile := map_option (\<lambda>(name, c). (name, c @ cs ! m)) (outfile r)\<rparr>)"
      using cmd(2) fr_chunk_ok [OF c(2), of me r] by (simp add: fr_packet_def)
    moreover have "take n cs = take m cs @ [cs ! m]" using 2 by (simp add: take_Suc_conv_app_nth)
    ultimately show ?thesis using r 2 by (auto simp: has_file_def Let_def mod_add_left_eq)
  next
    case 3
    have "fst (fs_sent s ! n) = packet_of 0 FILE_END []" using bl(4) 3 len by (simp add: nth_append)
    moreover have fin: "m_command (packet_of sender FILE_END []) = FILE_END" for sender by (simp add: packet_of_def)
    ultimately have "as_received me (fst (fs_sent s ! n)) = packet_of me FILE_END []" by (simp add: as_received_def)
    moreover note fin [of me]
    ultimately have "\<exists>opts y. fr_packet opens (as_received me (fst (fs_sent s ! n))) r =
        Inr ((fr_close r)\<lparr>fr_sent := fr_sent r @ [(packet_of 0 FILE_END [], opts)], fr_disconnects := y, fr_done := True\<rparr>)"
      using cmd(3) by (auto simp: fr_packet_def fr_end_def Packet_of_data_def CopyFrom_def packet_of_def)
    moreover have "fr_sent r = []" using r by (auto simp: has_file_def Let_def split: if_splits)
    ultimately show ?thesis using r 3 by (auto simp: has_file_def Let_def fr_close_def)
  qed
qed

section \<open>The whole transfer\<close>

definition work_left :: "transfer \<Rightarrow> nat" where
  "work_left st = 5 * fs_unread (t_sender st) + (length (fs_sent (t_sender st)) - t_arrived st) +
     (length (fs_sent (t_sender st)) - card (t_acked st))"

lemma sent_length: "sends_file who name bs cs s \<Longrightarrow> length (fs_sent s) = Suc (length cs) + (if infile_eof s then 1 else 0)"
  by (auto simp: sends_file_def dest!: list_all2_lengthD)

lemma has_file_more:
  assumes "has_file opens name bs cs False n r" "n \<le> Suc (length cs)" "cs' \<noteq> [] \<or> \<not> eof"
  shows "has_file opens name bs (cs @ cs') eof n r"
  using assms by (cases cs') (auto simp: has_file_def Let_def)

lemma has_file_replies:
  assumes "has_file opens name bs cs eof n r" "j < length (fr_sent r)"
  shows "fr_done r" "as_received who (fst (fr_sent r ! j)) = packet_of who FILE_END []"
proof -
  have m: "fr_done r \<and> map fst (fr_sent r) = [packet_of 0 FILE_END []]"
    using assms by (auto simp: has_file_def Let_def split: if_splits)
  then show "fr_done r" by simp
  have "fst (fr_sent r ! j) = packet_of 0 FILE_END []" using m assms(2) by (cases "fr_sent r") auto
  then show "as_received who (fst (fr_sent r ! j)) = packet_of who FILE_END []" by (simp add: as_received_def)
qed

lemma pass_keeps:
  assumes ok: "transfer_ok ids opens who name bs st" and ns: "copy_enabled (SenderPasses ns) st"
  shows "\<exists>st'. copy_step ids opens me who (SenderPasses ns) st = Inr st' \<and> transfer_ok ids opens who name bs st' \<and>
    (\<not> fr_done (t_receiver st) \<longrightarrow> st' = st \<or> work_left st' < work_left st) \<and>
    (\<not> infile_eof (t_sender st) \<and> awaiting (t_sender st) \<subseteq> ids ` set (receipted ns) \<longrightarrow> work_left st' < work_left st)"
proof -
  let ?s = "t_sender st" and ?r = "t_receiver st" and ?n = "t_arrived st" and ?ks = "t_acked st"
  obtain cs where s: "sends_file who name bs cs ?s" "has_file opens name bs cs (infile_eof ?s) ?n ?r" "awaits ids ?ks ?s"
    and n: "?n \<le> length (fs_sent ?s)" "who \<noteq> 0" "valid_string name" "length name < 2 ^ 30"
    using ok by (auto simp: transfer_ok_def)
  have e: "distinct (receipted ns)" "\<forall>k \<in> set (receipted ns). k < length (fs_sent ?s)" "set (receipted ns) \<inter> ?ks = {}"
    "\<forall>j \<in> set (replied ns). j < length (fr_sent ?r)"
    and more: "t_replies st + length (replied ns) \<le> length (fr_sent ?r)"
  proof -
    have rep: "replied ns = [t_replies st..<t_replies st + length (replied ns)]" using ns by (simp add: copy_enabled_def)
    show "t_replies st + length (replied ns) \<le> length (fr_sent ?r)" using ns by (simp add: copy_enabled_def)
    then show "\<forall>j \<in> set (replied ns). j < length (fr_sent ?r)" by (subst rep) simp
  qed (use ns in \<open>auto simp: copy_enabled_def\<close>)
  have rep: "\<forall>j \<in> set (replied ns). as_received who (fst (fr_sent ?r ! j)) = packet_of who FILE_END []"
    using has_file_replies(2) [OF s(2)] e(4) by blast
  obtain s' cs' where s': "fs_pass ids (map (notice_packet ids who ?r) ns) ?s = Inr s'" "sends_file who name bs (cs @ cs') s'"
    "awaits ids (?ks \<union> set (receipted ns)) s'"
    and c: "if \<not> infile_eof ?s \<and> awaiting ?s \<subseteq> ids ` set (receipted ns) then length cs' = 1 \<and> fs_unread s' < fs_unread ?s
     else cs' = [] \<and> fs_sent s' = fs_sent ?s \<and> infile_eof s' = infile_eof ?s \<and> fs_unread s' = fs_unread ?s \<and> (ns = [] \<longrightarrow> s' = ?s)"
    using fs_pass_ok [OF s(1,3) n(2) rep e(2)] by blast
  note l = sent_length [OF s(1)] sent_length [OF s'(2)]
  define st' where "st' = st\<lparr>t_sender := s', t_acked := ?ks \<union> set (receipted ns), t_replies := t_replies st + length (replied ns)\<rparr>"
  have "copy_step ids opens me who (SenderPasses ns) st = Inr st'" using s'(1) by (simp add: copy_step_def st'_def)
  moreover have "has_file opens name bs (cs @ cs') (infile_eof s') ?n ?r"
    using c s(2) n(1) l(1) has_file_more [of opens name bs cs ?n ?r cs' "infile_eof s'"] by (cases "cs' = []") (auto split: if_splits)
  moreover have "?n \<le> length (fs_sent s')" using n(1) l c by (auto split: if_splits)
  ultimately have ok': "copy_step ids opens me who (SenderPasses ns) st = Inr st'" "transfer_ok ids opens who name bs st'"
    using s'(2,3) n(2-4) more unfolding st'_def by (auto simp: transfer_ok_def)
  have ks: "finite ?ks" "?ks \<subseteq> {..<length (fs_sent ?s)}" using s(3) finite_subset by (auto simp: awaits_def)
  then have "card (?ks \<union> set (receipted ns)) = card ?ks + length (receipted ns)" "card (?ks \<union> set (receipted ns)) \<le> length (fs_sent ?s)"
    using card_Un_disjoint [of ?ks "set (receipted ns)"] e(1-3) distinct_card [of "receipted ns"] card_mono [of "{..<length (fs_sent ?s)}" "?ks \<union> set (receipted ns)"]
    by (auto simp: Int_commute)
  then have w: "work_left st' + length (receipted ns) + (if length cs' = 1 then 1 else 0) \<le> work_left st"
    using c l n(1) unfolding work_left_def st'_def by (auto split: if_splits)
  have "st' = st" if "\<not> fr_done ?r" "receipted ns = []" "cs' = []"
  proof -
    have "fr_sent ?r = []" using has_file_replies(1) [OF s(2)] that(1) by (cases "fr_sent ?r") auto
    then have "replied ns = []" using e(4) by (cases "replied ns") auto
    then have "ns = []" using that(2) by (cases ns) (auto simp: receipted_def replied_def split: notice.splits)
    then show ?thesis using c that(3) by (auto simp: st'_def split: if_splits)
  qed
  then have "\<not> fr_done ?r \<longrightarrow> st' = st \<or> work_left st' < work_left st"
    using w c by (cases "receipted ns"; cases "cs' = []") (auto split: if_splits)
  then show ?thesis using ok' w c by (intro exI [of _ st']) auto
qed

lemma arrival_keeps:
  assumes "transfer_ok ids opens who name bs st" "copy_enabled PacketArrives st"
  shows "\<exists>st'. copy_step ids opens me who PacketArrives st = Inr st' \<and> transfer_ok ids opens who name bs st' \<and> work_left st' < work_left st"
proof -
  have e: "t_arrived st < length (fs_sent (t_sender st))" "\<not> fr_done (t_receiver st)" using assms(2) by (simp_all add: copy_enabled_def)
  obtain cs where "sends_file who name bs cs (t_sender st)" "has_file opens name bs cs (infile_eof (t_sender st)) (t_arrived st) (t_receiver st)"
    "valid_string name" "length name < 2 ^ 30"
    using assms(1) by (auto simp: transfer_ok_def)
  moreover have "t_replies st = 0"
    using assms(1) has_file_replies(1) [OF calculation(2), of 0] e(2) by (cases "fr_sent (t_receiver st)") (auto simp: transfer_ok_def)
  ultimately show ?thesis
    using fr_packet_ok [OF _ _ e(2,1), of who name bs cs opens me] assms(1) e(1) by (auto simp: transfer_ok_def copy_step_def work_left_def)
qed

text \<open>No step fails.\<close>

lemma copy_step_ok:
  assumes "transfer_ok ids opens who name bs st" "copy_enabled e st"
  shows "\<exists>st'. copy_step ids opens me who e st = Inr st' \<and> transfer_ok ids opens who name bs st'"
  using assms pass_keeps [of ids opens who name bs st _ me] arrival_keeps [of ids opens who name bs st me] by (cases e) auto

text \<open>Before the end some step always brings the transfer forward.\<close>

lemma copy_progress:
  assumes ok: "transfer_ok ids opens who name bs st" and go: "\<not> fr_done (t_receiver st)"
  shows "\<exists>st'. copies ids opens me who st st' \<and> work_left st' < work_left st"
proof (cases "t_arrived st < length (fs_sent (t_sender st))")
  case True
  then have "copy_enabled PacketArrives st" using go by (simp add: copy_enabled_def)
  then show ?thesis using arrival_keeps [OF ok, of me] by (blast intro: copies_step)
next
  case False
  obtain cs where s: "sends_file who name bs cs (t_sender st)" "has_file opens name bs cs (infile_eof (t_sender st)) (t_arrived st) (t_receiver st)"
    "t_arrived st = length (fs_sent (t_sender st))" "awaits ids (t_acked st) (t_sender st)"
    using ok False by (auto simp: transfer_ok_def)
  have eof: "\<not> infile_eof (t_sender st)" using s(2,3) go sent_length [OF s(1)] by (auto simp: has_file_def Let_def)
  have "\<exists>ns. copy_enabled (SenderPasses ns) st \<and> awaiting (t_sender st) \<subseteq> ids ` set (receipted ns)"
  proof (cases "awaiting (t_sender st) = {}")
    case True
    then show ?thesis using ok by (intro exI [of _ "[]"]) (simp add: copy_enabled_def transfer_ok_def)
  next
    case False
    then obtain x where x: "awaiting (t_sender st) = {x}"
      using s(1) by (auto simp: sends_file_def card_le_Suc0_iff_eq)
    then obtain k where "k < length (fs_sent (t_sender st))" "k \<notin> t_acked st" "options_and (snd (fs_sent (t_sender st) ! k)) WITH_RECEIPT" "x = ids k"
      using s(4) by (auto simp: awaits_def)
    then show ?thesis using x ok by (intro exI [of _ "[Receipt k]"]) (simp add: copy_enabled_def transfer_ok_def)
  qed
  then show ?thesis using pass_keeps [OF ok, of _ me] eof by (blast intro: copies_step)
qed

interpretation copying: descending "copies ids opens me who" "transfer_ok ids opens who name bs" "\<lambda>st. fr_done (t_receiver st)" work_left
  for ids opens me who name bs
proof
  fix st st' assume ok: "transfer_ok ids opens who name bs st" and step: "copies ids opens me who st st'"
  from step obtain e where e: "copy_enabled e st" "copy_step ids opens me who e st = Inr st'" by (auto elim: copiesE)
  then show "transfer_ok ids opens who name bs st'" using copy_step_ok [OF ok e(1), of me] by auto
  assume d: "\<not> fr_done (t_receiver st)" "st' \<noteq> st"
  show "work_left st' < work_left st"
  proof (cases e)
    case (SenderPasses ns)
    then show ?thesis using pass_keeps [OF ok, of ns me] e d by auto
  next
    case PacketArrives
    then show ?thesis using arrival_keeps [OF ok, of me] e by auto
  qed
qed (rule copy_progress)

lemma connected_ok:
  assumes "who \<noteq> 0" "valid_string name" "length name < 2 ^ 30"
  shows "\<exists>st. connected ids opens me who name bs = Inr st \<and> transfer_ok ids opens who name bs st"
proof -
  obtain p where p: "begin_packet name (length bs) = Inr p" "m_command p = FILE_BEGIN" "payload p = enc_string name @ be64 (of_nat (length bs))"
    using begin_packet_ok [OF assms(2,3)] by blast
  let ?s = "(FileSender_new name bs)\<lparr>receiverID := who, fs_sent := [(p, RELIABLE)]\<rparr>"
  have rs: "fs_receive [packet_of who NOTIFY_CONNECT_SUCCESS [1]] (FileSender_new name bs) = Inr ?s"
    using p(1) by (simp add: fs_packet_def packet_of_def Let_def fs_Send_def FileSender_new_def)
  have "sends_file who name bs [] ?s" "awaits ids {} ?s" using p(2,3) by (simp_all add: sends_file_def awaits_def FileSender_new_def)
  then obtain s cs where s: "fs_chunks ids ?s = Inr s" "sends_file who name bs cs s" "awaits ids {} s"
    using fs_chunks_ok [OF _ assms(1), of name bs "[]" ?s ids "{}"] by auto
  then have "fs_pass ids [packet_of who NOTIFY_CONNECT_SUCCESS [1]] (FileSender_new name bs) = Inr s"
    unfolding fs_pass_def rs by (simp add: FileSender_new_def)
  moreover have "fr_packet opens (packet_of me NOTIFY_CONNECTION_INCOMING [1]) FileReceiver_new = Inr (FileReceiver_new\<lparr>senderID := me\<rparr>)"
    by (simp add: fr_packet_def packet_of_def)
  moreover have "has_file opens name bs cs (infile_eof s) 0 (FileReceiver_new\<lparr>senderID := me\<rparr>)" by (simp add: has_file_def FileReceiver_new_def)
  ultimately show ?thesis using s(2,3) assms by (auto simp: connected_def transfer_ok_def)
qed

lemma transfer_result:
  assumes ok: "transfer_ok ids opens who name bs st" and d: "fr_done (t_receiver st)" and o: "opens (recv_prefix @ name)"
  shows "fr_files (t_receiver st) = [(recv_prefix @ name, bs)] \<and> filerecv (t_receiver st) = fr_filelen (t_receiver st)"
proof -
  let ?n = "t_arrived st" and ?s = "t_sender st"
  obtain cs where cs: "sends_file who name bs cs ?s" "has_file opens name bs cs (infile_eof ?s) ?n (t_receiver st)"
    using ok by (auto simp: transfer_ok_def)
  have "infile_eof ?s" "?n = length cs + 2" using cs(2) d by (auto simp: has_file_def Let_def split: if_splits)
  then have "concat (take (?n - 1) cs) = bs" using cs(1) by (auto simp: sends_file_def)
  then show ?thesis using cs(2) d o by (auto simp: has_file_def Let_def split: if_splits)
qed

text \<open>
  C5.  The file transfer copies the file, provided that the library delivers the packets of the sender in order and posts only receipts of
  packets that were sent and asked for one, once each and with the identifier that \<^verbatim>\<open>Send\<close> returned.  However passes, receipts and
  arrivals interleave: no step fails, and when the receiver has ended it has closed one file, under the name of the file with the prefix
  \<^verbatim>\<open>recv_\<close>, with exactly the bytes of the file, and has counted as many bytes as were announced.  Before that, something can
  always happen; and every endless run in which something keeps happening until the receiver has ended, that is which does not consist of
  idle passes from some moment on, reaches the end of the receiver.
\<close>

theorem file_copied:
  assumes name: "who \<noteq> 0" "valid_string name" "length name < 2 ^ 30" and opens: "opens (recv_prefix @ name)"
    and st0: "connected ids opens me who name bs = Inr st0"
  shows "(\<forall>st. (copies ids opens me who)\<^sup>*\<^sup>* st0 st \<longrightarrow>
      (\<forall>e. copy_enabled e st \<longrightarrow> (\<exists>st'. copy_step ids opens me who e st = Inr st')) \<and>
      (if fr_done (t_receiver st)
       then fr_files (t_receiver st) = [(recv_prefix @ name, bs)] \<and> filerecv (t_receiver st) = fr_filelen (t_receiver st)
       else \<exists>st'. copies ids opens me who st st' \<and> st' \<noteq> st)) \<and>
    (\<forall>run. run 0 = st0 \<and> (\<forall>t. copies ids opens me who (run t) (run (Suc t))) \<and>
      (\<forall>t. \<not> fr_done (t_receiver (run t)) \<longrightarrow> (\<exists>u \<ge> t. run (Suc u) \<noteq> run u)) \<longrightarrow>
      (\<exists>t. fr_done (t_receiver (run t))))"
proof -
  have ok0: "transfer_ok ids opens who name bs st0" using connected_ok [OF name, of ids opens me bs] st0 by auto
  have "(\<forall>e. copy_enabled e st \<longrightarrow> (\<exists>st'. copy_step ids opens me who e st = Inr st')) \<and>
      (if fr_done (t_receiver st)
       then fr_files (t_receiver st) = [(recv_prefix @ name, bs)] \<and> filerecv (t_receiver st) = fr_filelen (t_receiver st)
       else \<exists>st'. copies ids opens me who st st' \<and> st' \<noteq> st)" if "(copies ids opens me who)\<^sup>*\<^sup>* st0 st" for st
  proof -
    have ok: "transfer_ok ids opens who name bs st" by (rule copying.stays_ok [OF that ok0])
    have "\<exists>st'. copies ids opens me who st st' \<and> st' \<noteq> st" if "\<not> fr_done (t_receiver st)" using copy_progress [OF ok that] by auto
    then show ?thesis using copy_step_ok [OF ok, of _ me] transfer_result [OF ok _ opens] by auto
  qed
  moreover have "\<exists>t. fr_done (t_receiver (run t))" if "run 0 = st0" "\<forall>t. copies ids opens me who (run t) (run (Suc t))"
    "\<forall>t. \<not> fr_done (t_receiver (run t)) \<longrightarrow> (\<exists>u \<ge> t. run (Suc u) \<noteq> run u)" for run
    by (rule copying.fair_run_finishes [where run = run]) (use that ok0 in auto)
  ultimately show ?thesis by blast
qed

theorem file_copied_witness:
  "\<exists>st0 st. connected of_nat (\<lambda>_. True) 5 7 [97] [1, 2, 3] = Inr st0 \<and> (copies of_nat (\<lambda>_. True) 5 7)\<^sup>*\<^sup>* st0 st \<and>
    fr_done (t_receiver st) \<and> fr_files (t_receiver st) = [([0x72, 0x65, 0x63, 0x76, 0x5F, 97], [1, 2, 3])]"
proof -
  have name: "(7 :: PeerID) \<noteq> 0" "valid_string [97]" "length [97 :: u8] < 2 ^ 30" by (simp_all add: valid_string_def)
  obtain st0 where st0: "connected of_nat (\<lambda>_. True) 5 7 [97] [1, 2, 3] = Inr st0" "transfer_ok of_nat (\<lambda>_. True) 7 [97] [1, 2, 3] st0"
    using connected_ok [OF name] by blast
  obtain st where st: "(copies of_nat (\<lambda>_. True) 5 7)\<^sup>*\<^sup>* st0 st" "fr_done (t_receiver st)"
    using copying.finishes [OF st0(2)] by blast
  then show ?thesis using file_copied [OF name TrueI st0(1)] st0(1) by (auto simp: recv_prefix_def)
qed

text \<open>
  The receiver does not look whether the file could be opened: if it could not, all the bytes are counted and none are kept.
\<close>

lemma unopened_file_lost:
  assumes "length bs \<le> FILE_CHUNK_SIZE" "outfile r = None"
  shows "\<exists>r'. fr_chunk (packet_of who FILE_CHUNK (be32 (of_nat (length bs)) @ bs)) r = Inr r' \<and> outfile r' = None \<and> fr_files r' = fr_files r \<and>
    filerecv r' = (filerecv r + length bs) mod 2 ^ 64"
  using fr_chunk_ok [OF assms(1), of who r] assms(2) by auto

end
