(* ===== verification/Chat.thy ===== *)
theory Chat
  imports Passes Simulation Texts
begin

text \<open>
  The chat example, \<^verbatim>\<open>examples/Chat\<close>: \<^verbatim>\<open>ChatServer\<close>, \<^verbatim>\<open>ChatClient\<close> and the helpers of \<^verbatim>\<open>Shared.h\<close>.
  The peer is seen by what it is asked to do, in order; a text is its bytes.  The lines a client prints are kept where they are
  messages of the chat; the other output is left out.  \<^verbatim>\<open>isspace\<close> is defined for the values of an \<^verbatim>\<open>unsigned char\<close>; a
  plain \<^verbatim>\<open>char\<close> of the upper half becomes a negative number.
\<close>

section \<open>Texts\<close>

definition CHAT_MESSAGE :: PacketCommand where "CHAT_MESSAGE = USER_PACKET"

definition isspace :: "u8 \<Rightarrow> bool result" where
  "isspace ch = (if ch < 128 then Inr (ch = 32 \<or> 9 \<le> ch \<and> ch \<le> 13) else Inl OutOfBounds)"

fun ltrim :: "u8 list \<Rightarrow> u8 list result" where
  "ltrim [] = Inr []"
| "ltrim (ch # s) = rbind (isspace ch) (\<lambda>space. if space then ltrim s else Inr (ch # s))"

definition rtrim :: "u8 list \<Rightarrow> u8 list result" where
  "rtrim s = rbind (ltrim (rev s)) (\<lambda>t. Inr (rev t))"

definition trim :: "u8 list \<Rightarrow> u8 list result" where
  "trim s = rbind (ltrim s) rtrim"

definition message_packet :: "u8 list \<Rightarrow> Packet result" where
  "message_packet message =
     rbind (WriteString message (BinaryStream_new BINARYSTREAM_DEFAULT_CAPACITY)) (\<lambda>outstream.
     Inr (fst (Packet_of_moved_stream CHAT_MESSAGE outstream)))"

section \<open>The server\<close>

definition SERVER_KEY_SECRET :: "u8 list" where
  "SERVER_KEY_SECRET =
     [0xB9, 0x8D, 0xB6, 0x97, 0x0B, 0x33, 0x78, 0xB3, 0xD4, 0xBE, 0x70, 0x2B, 0xC0, 0x3B, 0x63, 0xB5,
      0x3C, 0x29, 0xA0, 0xFA, 0xA7, 0x21, 0x8F, 0x59, 0x4D, 0xA4, 0x02, 0xBB, 0xF2, 0xEA, 0x52, 0xCA]"

definition SERVER_KEY_PUBLIC :: "u8 list" where
  "SERVER_KEY_PUBLIC =
     [0x1B, 0xB1, 0x24, 0x3B, 0x00, 0xE8, 0x60, 0x94, 0xB9, 0x7E, 0x3B, 0xFF, 0x2D, 0x84, 0x7B, 0x49,
      0x50, 0xE1, 0x33, 0x74, 0xAC, 0x1B, 0x47, 0x84, 0x1D, 0x1D, 0xFE, 0xB7, 0xDE, 0x6F, 0xAB, 0x2C]"

definition CHAT_MAX_CLIENTS :: nat where "CHAT_MAX_CLIENTS = 32"

text \<open>
  The peer of the server and the channel of the chat, \<open>None\<close> when the port cannot be bound and the program exits; \<open>rpc\<close> stands for the
  callback that is bound to \<^verbatim>\<open>ExampleRPC\<close>.
\<close>

definition ChatServer_new :: "Env \<Rightarrow> u64 list \<Rightarrow> u16 \<Rightarrow> callback \<Rightarrow> (Peer \<times> Channel) option result" where
  "ChatServer_new env rng port rpc =
     rbind (IPeer_Factory_Create rng CHAT_MAX_CLIENTS) (\<lambda>peer.
     let peer = SetMaximumIncomingPeers CHAT_MAX_CLIENTS peer; peer = SetNetworkSimulation (1 / 10) 5 peer
     in rbind (SetEncryptionEnabled env True peer) (\<lambda>peer.
        rbind (SetEncryptionIdentity env (Some (map Some SERVER_KEY_SECRET)) (Some (map Some SERVER_KEY_PUBLIC)) peer) (\<lambda>peer.
        rbind (Bind env IPv4 port peer) (\<lambda>(ok, peer).
        if \<not> ok then Inr None else
        rbind (RpcRegisterSlot (lit ''ExampleRPC'') rpc peer) (\<lambda>peer.
        let (channel, peer) = MakeChannel ORDERED peer in Inr (Some (peer, channel)))))))"

record ChatUser =
  cu_id :: PeerID
  nick :: "u8 list"

record ChatServer =
  m_users :: "ChatUser list"
  chat_sent :: "(PeerID \<times> Packet) list"

definition SendToSpecific :: "PeerID \<Rightarrow> u8 list \<Rightarrow> ChatServer \<Rightarrow> ChatServer result" where
  "SendToSpecific who message sv =
     rbind (message_packet message) (\<lambda>packet. Inr (sv\<lparr>chat_sent := chat_sent sv @ [(who, packet)]\<rparr>))"

definition Broadcast :: "u8 list \<Rightarrow> ChatServer \<Rightarrow> ChatServer result" where
  "Broadcast message sv = rfold (\<lambda>user. SendToSpecific (cu_id user) message) (m_users sv) sv"

definition GetUserByPeerID :: "PeerID \<Rightarrow> ChatServer \<Rightarrow> ChatUser option" where
  "GetUserByPeerID who sv = find (\<lambda>u. cu_id u = who) (m_users sv)"

text \<open>A change of the user a pointer refers to: the first user with the identity.\<close>

fun rename_first :: "PeerID \<Rightarrow> u8 list \<Rightarrow> ChatUser list \<Rightarrow> ChatUser list" where
  "rename_first who name [] = []"
| "rename_first who name (u # us) = (if cu_id u = who then u\<lparr>nick := name\<rparr> # us else u # rename_first who name us)"

fun erase_first :: "PeerID \<Rightarrow> ChatUser list \<Rightarrow> ChatUser list" where
  "erase_first who [] = []"
| "erase_first who (u # us) = (if cu_id u = who then us else u # erase_first who us)"

definition HandleChatMessage :: "ChatUser \<Rightarrow> u8 list \<Rightarrow> ChatServer \<Rightarrow> ChatServer result" where
  "HandleChatMessage user message sv =
     (if has_prefix message (lit ''/nick '')
      then if length message < 7 then SendToSpecific (cu_id user) (lit ''Usage: /nick <name>'') sv
           else rbind (trim (drop 6 message)) (\<lambda>desiredNick.
                if desiredNick = [] then SendToSpecific (cu_id user) (lit ''Please provide a non-empty nick.'') sv
                else rbind (Broadcast (nick user @ lit '' has changed their nick to '' @ desiredNick) sv) (\<lambda>sv.
                     Inr (sv\<lparr>m_users := rename_first (cu_id user) desiredNick (m_users sv)\<rparr>)))
      else if c_str message = lit ''/list''
      then SendToSpecific (cu_id user) (lit ''Connected users: '' @ concat (map (\<lambda>u. nick u @ lit '', '') (m_users sv))) sv
      else Broadcast (lit ''['' @ nick user @ lit ''] '' @ message) sv)"

text \<open>The random number of a new nickname is an argument.\<close>

definition OnUserJoined :: "u64 \<Rightarrow> PeerID \<Rightarrow> ChatServer \<Rightarrow> ChatServer result" where
  "OnUserJoined rnd who sv =
     (let newbie = \<lparr>cu_id = who, nick = lit ''RandomStranger'' @ to_string (unat rnd mod 100000 + 10000)\<rparr>
      in rbind (Broadcast (nick newbie @ lit '' has joined the chat!'') sv) (\<lambda>sv.
         rbind (SendToSpecific who (lit ''Welcome!'') sv) (\<lambda>sv.
         Inr (sv\<lparr>m_users := m_users sv @ [newbie]\<rparr>))))"

definition OnUserLeft :: "PeerID \<Rightarrow> ChatServer \<Rightarrow> ChatServer result" where
  "OnUserLeft who sv = (case GetUserByPeerID who sv of None \<Rightarrow> Inr sv
    | Some u \<Rightarrow> rbind (Broadcast (nick u @ lit '' has left the chat! :('') sv) (\<lambda>sv.
        Inr (sv\<lparr>m_users := erase_first who (m_users sv)\<rparr>)))"

definition server_packet :: "u64 \<times> Packet \<Rightarrow> ChatServer \<Rightarrow> ChatServer result" where
  "server_packet = (\<lambda>(rnd, recv) sv.
     if m_command recv = NOTIFY_CONNECTION_INCOMING then OnUserJoined rnd (m_sender recv) sv
     else if m_command recv = NOTIFY_CONNECTION_LOST \<or> m_command recv = NOTIFY_DISCONNECTED then OnUserLeft (m_sender recv) sv
     else (case GetUserByPeerID (m_sender recv) sv of None \<Rightarrow> Inr sv
       | Some user \<Rightarrow>
           if m_command recv = CHAT_MESSAGE
           then rbind (GetStream recv) (\<lambda>instream.
                rbind (ReadString instream) (\<lambda>(message, _). HandleChatMessage user message sv))
           else Inr sv))"

definition ChatServer_Tick :: "(u64 \<times> Packet) list \<Rightarrow> ChatServer \<Rightarrow> ChatServer result" where
  "ChatServer_Tick = rfold server_packet"

definition ExampleRPC :: "PeerID \<Rightarrow> BinaryStream \<Rightarrow> ChatServer \<Rightarrow> ChatServer result" where
  "ExampleRPC sender instream sv =
     rbind (ReadString instream) (\<lambda>(userString, _).
     SendToSpecific sender (lit ''[RPC] This is an RPC. Your input was: '' @ userString) sv)"

section \<open>The client\<close>

datatype client_call =
    ClientConnect "u8 list" u16
  | ClientDisconnect PeerID
  | ClientRpc "u8 list" PeerID BinaryStream
  | ClientSend Packet PeerID

record ChatClient =
  m_server :: PeerID
  m_port :: u16
  m_connected :: bool
  chat_shown :: "u8 list list"
  chat_calls :: "client_call list"

definition ChatClient_new :: "Env \<Rightarrow> u64 list \<Rightarrow> u16 \<Rightarrow> (Peer \<times> Channel \<times> ChatClient) option result" where
  "ChatClient_new env rng port =
     rbind (IPeer_Factory_Create rng 1) (\<lambda>peer.
     let peer = SetNetworkSimulation (1 / 10) 5 peer
     in rbind (SetEncryptionEnabled env True peer) (\<lambda>peer.
        rbind (Bind env IPv4 0 peer) (\<lambda>(ok, peer).
        if \<not> ok then Inr None else
        let (channel, peer) = MakeChannel ORDERED peer
        in Inr (Some (peer, channel, \<lparr>m_server = 0, m_port = port, m_connected = False, chat_shown = [], chat_calls = []\<rparr>)))))"

definition client_packet :: "Packet \<Rightarrow> ChatClient \<Rightarrow> ChatClient result" where
  "client_packet recv c =
     (if m_command recv = NOTIFY_CONNECT_SUCCESS then Inr (c\<lparr>m_server := m_sender recv, m_connected := True\<rparr>)
      else if m_command recv = NOTIFY_CONNECT_FAILED
      then rbind (GetStream recv) (\<lambda>instream. rbind (ReadByte instream) (\<lambda>(result, _). Inr c))
      else if m_command recv = NOTIFY_CONNECTION_LOST \<or> m_command recv = NOTIFY_DISCONNECTED then Inr (c\<lparr>m_connected := False\<rparr>)
      else if m_command recv = CHAT_MESSAGE
      then rbind (GetStream recv) (\<lambda>instream.
           rbind (ReadString instream) (\<lambda>(line, _). Inr (c\<lparr>chat_shown := chat_shown c @ [line]\<rparr>)))
      else Inr c)"

definition ChatClient_Tick :: "Packet list \<Rightarrow> ChatClient \<Rightarrow> ChatClient result" where
  "ChatClient_Tick = rfold client_packet"

definition calls :: "client_call \<Rightarrow> ChatClient \<Rightarrow> ChatClient" where
  "calls x c = c\<lparr>chat_calls := chat_calls c @ [x]\<rparr>"

definition ChatClient_Connect :: "u8 list \<Rightarrow> u16 \<Rightarrow> ChatClient \<Rightarrow> ChatClient" where
  "ChatClient_Connect host port c = (if m_connected c then c else calls (ClientConnect host port) c)"

definition HandleInput :: "u8 list \<Rightarrow> ChatClient \<Rightarrow> ChatClient result" where
  "HandleInput input c =
     (if has_prefix input (lit ''/connect '')
      then if length input < 10 then Inr c else Inr (ChatClient_Connect (drop 9 input) (m_port c) c)
      else if c_str input = lit ''/dc'' \<or> c_str input = lit ''/disconnect''
      then if \<not> m_connected c then Inr c else Inr (calls (ClientDisconnect (m_server c)) c)
      else if has_prefix input (lit ''/rpc '')
      then if length input < 6 then Inr c
           else rbind (WriteString (drop 5 input) (BinaryStream_new BINARYSTREAM_DEFAULT_CAPACITY)) (\<lambda>outstream.
                Inr (calls (ClientRpc (lit ''ExampleRPC'') (m_server c) outstream) c))
      else rassert (length input > 0) (
           rbind (message_packet input) (\<lambda>packet. Inr (calls (ClientSend packet (m_server c)) c))))"

section \<open>Messages on the wire\<close>

definition says :: "u8 list \<Rightarrow> Packet \<Rightarrow> bool" where
  "says m p \<longleftrightarrow> m_command p = CHAT_MESSAGE \<and> payload p = enc_string m"

lemma message_packet_ok:
  assumes "length m < 2 ^ 30"
  shows "\<exists>p. message_packet m = Inr p \<and> says m p"
proof -
  have v: "valid_string m" using assms by (simp add: valid_string_def)
  have len: "length (enc_string m) \<le> length m + 5" by (rule enc_string_size(1))
  obtain s where s: "WriteString m (BinaryStream_new BINARYSTREAM_DEFAULT_CAPACITY) = Inr s" "written s (enc_string m) []"
    using str.put_aligned [OF v written_new] len assms by (auto simp: flushed_def max_stream_def)
  have "enc_string m \<noteq> []" by (rule enc_string_size(2))
  then obtain p s' where "Packet_of_moved_stream CHAT_MESSAGE s = (p, s')" "says m p"
    using moved_packet [OF s(2), of CHAT_MESSAGE] len assms by (auto simp: flushed_def says_def)
  then show ?thesis using s(1) by (simp add: message_packet_def)
qed

lemma read_message:
  assumes "says m p" "length m < 2 ^ 30"
  shows "\<exists>s s'. GetStream (as_received who p) = Inr s \<and> ReadString s = Inr (m, s')"
proof -
  have v: "valid_string m" using assms(2) by (simp add: valid_string_def)
  have "length (enc_string m) \<le> length m + 5" by (rule enc_string_size(1))
  then obtain s where s: "GetStream (as_received who p) = Inr s" "reading s 0 (enc_string m)"
    using GetStream_packet_of [of "enc_string m" who CHAT_MESSAGE] assms by (auto simp: as_received_def says_def)
  then show ?thesis using str.get_aligned [OF v s(2), of "[]"] by auto
qed

lemma received_fields: "m_command (as_received who p) = m_command p" "m_sender (as_received who p) = who"
  by (simp_all add: as_received_def packet_of_def)

lemma chat_command: "CHAT_MESSAGE \<notin> {NOTIFY_CONNECTION_INCOMING, NOTIFY_CONNECTION_LOST, NOTIFY_DISCONNECTED, NOTIFY_CONNECT_SUCCESS, NOTIFY_CONNECT_FAILED}"
  by (simp add: CHAT_MESSAGE_def config_defs)

lemma client_shows:
  assumes "says m p" "length m < 2 ^ 30"
  shows "client_packet (as_received who p) c = Inr (c\<lparr>chat_shown := chat_shown c @ [m]\<rparr>)"
  using read_message [OF assms, of who] assms(1) chat_command by (auto simp: client_packet_def received_fields says_def)

lemma SendToSpecific_ok:
  assumes "length m < 2 ^ 30"
  shows "\<exists>p. says m p \<and> SendToSpecific who m sv = Inr (sv\<lparr>chat_sent := chat_sent sv @ [(who, p)]\<rparr>)"
  using message_packet_ok [OF assms] by (auto simp: SendToSpecific_def)

lemma Broadcast_ok:
  assumes "length m < 2 ^ 30"
  shows "\<exists>p. says m p \<and> Broadcast m sv = Inr (sv\<lparr>chat_sent := chat_sent sv @ map (\<lambda>u. (cu_id u, p)) (m_users sv)\<rparr>)"
proof -
  obtain p where p: "message_packet m = Inr p" "says m p" using message_packet_ok [OF assms] by blast
  have "rfold (\<lambda>user. SendToSpecific (cu_id user) m) us sv = Inr (sv\<lparr>chat_sent := chat_sent sv @ map (\<lambda>u. (cu_id u, p)) us\<rparr>)" for us sv
    by (induction us arbitrary: sv) (simp_all add: SendToSpecific_def p(1))
  then show ?thesis using p(2) by (auto simp: Broadcast_def)
qed

section \<open>The room\<close>

text \<open>What can happen: a peer that is not in the room connects, one that is leaves, or one in the room sends a text of printable size.\<close>

datatype chat_event = Joins u64 PeerID | Leaves bool PeerID | Says PeerID "u8 list"

fun possible :: "ChatServer \<Rightarrow> chat_event \<Rightarrow> bool" where
  "possible sv (Joins rnd who) \<longleftrightarrow> who \<notin> cu_id ` set (m_users sv) \<and> length (m_users sv) < CHAT_MAX_CLIENTS"
| "possible sv (Leaves lost who) \<longleftrightarrow> True"
| "possible sv (Says who m) \<longleftrightarrow> length m < 2 ^ 20 \<and> (\<forall>ch \<in> set m. ch < 128)"

fun event_packet :: "chat_event \<Rightarrow> u64 \<times> Packet" where
  "event_packet (Joins rnd who) = (rnd, packet_of who NOTIFY_CONNECTION_INCOMING [1])"
| "event_packet (Leaves lost who) = (0, packet_of who (if lost then NOTIFY_CONNECTION_LOST else NOTIFY_DISCONNECTED) [])"
| "event_packet (Says who m) = (0, packet_of who CHAT_MESSAGE (enc_string m))"

inductive room :: "ChatServer \<Rightarrow> bool" where
  room_opens: "room \<lparr>m_users = [], chat_sent = []\<rparr>"
| room_event: "room sv \<Longrightarrow> possible sv e \<Longrightarrow> server_packet (event_packet e) sv = Inr sv' \<Longrightarrow> room sv'"

definition users_ok :: "ChatUser list \<Rightarrow> bool" where
  "users_ok us \<longleftrightarrow> distinct (map cu_id us) \<and> length us \<le> CHAT_MAX_CLIENTS \<and> (\<forall>u \<in> set us. nick u \<noteq> [] \<and> length (nick u) < 2 ^ 20)"

lemma rename_first_ids: "map cu_id (rename_first who name us) = map cu_id us" "length (rename_first who name us) = length us"
  by (induction us) auto

lemma users_ok_rename:
  assumes "users_ok us" "name \<noteq> []" "length name < 2 ^ 20"
  shows "users_ok (rename_first who name us)"
proof -
  have "\<forall>u \<in> set (rename_first who name us). nick u \<noteq> [] \<and> length (nick u) < 2 ^ 20"
    using assms(2,3) assms(1) [unfolded users_ok_def] by (induction us) auto
  then show ?thesis using assms(1) by (simp add: users_ok_def rename_first_ids)
qed

lemma erase_first_subset: "set (erase_first who us) \<subseteq> set us" "length (erase_first who us) \<le> length us"
  by (induction us) auto

lemma users_ok_erase: "users_ok us \<Longrightarrow> users_ok (erase_first who us)"
proof -
  assume ok: "users_ok us"
  have "distinct (map cu_id us) \<Longrightarrow> distinct (map cu_id (erase_first who us))"
    using erase_first_subset(1) [of who] by (induction us) auto
  then show ?thesis using ok erase_first_subset [of who us] by (auto simp: users_ok_def)
qed

lemma ltrim_ok: "\<forall>ch \<in> set s. ch < 128 \<Longrightarrow> \<exists>t. ltrim s = Inr t \<and> set t \<subseteq> set s \<and> length t \<le> length s"
  by (induction s) (auto simp: isspace_def)

lemma trim_ok:
  assumes "\<forall>ch \<in> set s. ch < 128"
  shows "\<exists>t. trim s = Inr t \<and> length t \<le> length s"
proof -
  obtain t where t: "ltrim s = Inr t" "set t \<subseteq> set s" "length t \<le> length s" using ltrim_ok [OF assms] by blast
  then have "\<forall>ch \<in> set (rev t). ch < 128" using assms by auto
  from ltrim_ok [OF this] obtain u where "ltrim (rev t) = Inr u" "length u \<le> length t" by auto
  then show ?thesis using t by (auto simp: trim_def rtrim_def)
qed

text \<open>Every operation of the server, on a room that is in order.\<close>

definition goes_on :: "ChatServer result \<Rightarrow> bool" where
  "goes_on r \<longleftrightarrow> (\<exists>sv. r = Inr sv \<and> users_ok (m_users sv))"

lemma goes_on_send: "users_ok (m_users sv) \<Longrightarrow> length m < 2 ^ 30 \<Longrightarrow> goes_on (SendToSpecific who m sv)"
  using SendToSpecific_ok [of m who sv] by (auto simp: goes_on_def)

lemma goes_on_broadcast:
  assumes "users_ok (m_users sv)" "length m < 2 ^ 30" "\<And>sv'. m_users sv' = m_users sv \<Longrightarrow> goes_on (f sv')"
  shows "goes_on (rbind (Broadcast m sv) f)"
  using Broadcast_ok [OF assms(2), of sv] assms(3) by auto

lemma OnUserJoined_users:
  "\<exists>sv'. OnUserJoined rnd who sv = Inr sv' \<and>
    m_users sv' = m_users sv @ [\<lparr>cu_id = who, nick = lit ''RandomStranger'' @ to_string (unat rnd mod 100000 + 10000)\<rparr>]"
proof -
  let ?name = "lit ''RandomStranger'' @ to_string (unat rnd mod 100000 + 10000)"
  have "length (to_string (unat rnd mod 100000 + 10000)) \<le> 6" by (rule length_to_string) simp_all
  then have "length (?name @ lit '' has joined the chat!'') < 2 ^ 30" by simp
  from Broadcast_ok [OF this, of sv] obtain sv1 where "Broadcast (?name @ lit '' has joined the chat!'') sv = Inr sv1" "m_users sv1 = m_users sv" by auto
  then show ?thesis using SendToSpecific_ok [of "lit ''Welcome!''" who sv1] by (auto simp: OnUserJoined_def Let_def)
qed

lemma OnUserJoined_ok:
  assumes ok: "users_ok (m_users sv)" and e: "who \<notin> cu_id ` set (m_users sv)" "length (m_users sv) < CHAT_MAX_CLIENTS"
  shows "goes_on (OnUserJoined rnd who sv)"
proof -
  have "length (to_string (unat rnd mod 100000 + 10000)) \<le> 6" by (rule length_to_string) simp_all
  then have "users_ok (m_users sv @ [\<lparr>cu_id = who, nick = lit ''RandomStranger'' @ to_string (unat rnd mod 100000 + 10000)\<rparr>])"
    using ok e by (auto simp: users_ok_def lit_def)
  then show ?thesis using OnUserJoined_users [of rnd who sv] by (auto simp: goes_on_def)
qed

lemma OnUserLeft_ok: "users_ok (m_users sv) \<Longrightarrow> goes_on (OnUserLeft who sv)"
proof (cases "GetUserByPeerID who sv")
  case (Some u)
  assume ok: "users_ok (m_users sv)"
  have "u \<in> set (m_users sv)" using Some by (auto simp: GetUserByPeerID_def find_Some_iff in_set_conv_nth)
  then have "length (nick u) < 2 ^ 20" using ok by (simp add: users_ok_def)
  then have "goes_on (rbind (Broadcast (nick u @ lit '' has left the chat! :('') sv) (\<lambda>sv. Inr (sv\<lparr>m_users := erase_first who (m_users sv)\<rparr>)))"
    using users_ok_erase [OF ok] by (intro goes_on_broadcast [OF ok]) (auto simp: goes_on_def)
  then show ?thesis using Some by (simp add: OnUserLeft_def)
qed (auto simp: OnUserLeft_def goes_on_def)

lemma list_text: "users_ok us \<Longrightarrow> length (concat (map (\<lambda>u. nick u @ lit '', '') us)) \<le> length us * 2 ^ 21"
proof (induction us)
  case (Cons u us)
  then have "length (nick u) < 2 ^ 20" "users_ok us" by (auto simp: users_ok_def)
  then show ?case using Cons.IH by simp
qed simp

lemma HandleChatMessage_ok:
  assumes ok: "users_ok (m_users sv)" and u: "u \<in> set (m_users sv)" and m: "length m < 2 ^ 20" "\<forall>ch \<in> set m. ch < 128"
  shows "goes_on (HandleChatMessage u m sv)"
proof -
  have n: "length (nick u) < 2 ^ 20" using ok u by (simp add: users_ok_def)
  have "length (m_users sv) \<le> 32" using ok by (simp add: users_ok_def CHAT_MAX_CLIENTS_def)
  then have l: "length (concat (map (\<lambda>u. nick u @ lit '', '') (m_users sv))) \<le> 32 * 2 ^ 21"
    using list_text [OF ok] by (meson mult_le_mono1 order_trans)
  have "\<forall>ch \<in> set (drop 6 m). ch < 128" using m(2) by (meson in_set_dropD)
  then obtain t where t: "trim (drop 6 m) = Inr t" "length t \<le> length (drop 6 m)" using trim_ok by blast
  have tl: "length t < 2 ^ 20" using t(2) m(1) by simp
  have b: "goes_on (Broadcast x sv)" if "length x < 2 ^ 30" for x using Broadcast_ok [OF that, of sv] ok by (auto simp: goes_on_def)
  have r: "goes_on (rbind (Broadcast (nick u @ lit '' has changed their nick to '' @ t) sv)
      (\<lambda>sv. Inr (sv\<lparr>m_users := rename_first (cu_id u) t (m_users sv)\<rparr>)))" if "t \<noteq> []"
    by (rule goes_on_broadcast [OF ok]) (use n tl that ok users_ok_rename [OF ok that tl] in \<open>auto simp: goes_on_def\<close>)
  show ?thesis
    unfolding HandleChatMessage_def t(1) rbind_simps
    using n m(1) l by (auto intro!: goes_on_send [OF ok] b r)
qed

lemma event_ok:
  assumes ok: "users_ok (m_users sv)" and e: "possible sv e"
  shows "goes_on (server_packet (event_packet e) sv)"
proof (cases e)
  case (Joins rnd who)
  then show ?thesis using OnUserJoined_ok [OF ok] e by (simp add: server_packet_def packet_of_def)
next
  case (Leaves lost who)
  then show ?thesis using OnUserLeft_ok [OF ok] by (simp add: server_packet_def packet_of_def config_defs)
next
  case (Says who m)
  show ?thesis
  proof (cases "GetUserByPeerID who sv")
    case None
    then show ?thesis using Says ok chat_command by (simp add: server_packet_def packet_of_def goes_on_def)
  next
    case (Some u)
    have u: "u \<in> set (m_users sv)" using Some by (auto simp: GetUserByPeerID_def find_Some_iff in_set_conv_nth)
    obtain p where p: "says m p" using message_packet_ok [of m] e Says by auto
    then have "packet_of who CHAT_MESSAGE (enc_string m) = as_received who p" by (simp add: as_received_def says_def)
    then show ?thesis
      using read_message [OF p, of who] Some Says e chat_command HandleChatMessage_ok [OF ok u, of m] p
      by (auto simp: server_packet_def received_fields says_def)
  qed
qed

lemma room_ok: "room sv \<Longrightarrow> users_ok (m_users sv)"
proof (induction rule: room.induct)
  case (room_event sv e sv')
  then show ?case using event_ok [of sv e] by (auto simp: goes_on_def)
qed (simp add: users_ok_def)

text \<open>A text that is no command of the client or the server.\<close>

definition plain :: "u8 list \<Rightarrow> bool" where
  "plain m \<longleftrightarrow> m \<noteq> [] \<and> \<not> has_prefix m (lit ''/connect '') \<and> c_str m \<noteq> lit ''/dc'' \<and> c_str m \<noteq> lit ''/disconnect'' \<and>
     \<not> has_prefix m (lit ''/rpc '') \<and> \<not> has_prefix m (lit ''/nick '') \<and> c_str m \<noteq> lit ''/list''"

text \<open>
  C32.  What a user types reaches everyone in the chat: in every room, whatever its users said and did before, a plain line typed into the client of
  a user becomes one packet to the server, and from that the server makes one packet to every user in the room, none of whom it addresses twice; a client that gets it
  shows the line with the name of the user.
\<close>

theorem chat_reaches_everyone:
  assumes r: "room sv" and u: "u \<in> set (m_users sv)" and m: "plain m" "length m < 2 ^ 20"
  shows "\<exists>packet p sv'. HandleInput m c = Inr (calls (ClientSend packet (m_server c)) c) \<and>
    server_packet (rnd, as_received (cu_id u) packet) sv = Inr sv' \<and> m_users sv' = m_users sv \<and>
    chat_sent sv' = chat_sent sv @ map (\<lambda>v. (cu_id v, p)) (m_users sv) \<and> distinct (map cu_id (m_users sv)) \<and>
    (\<forall>server d. client_packet (as_received server p) d = Inr (d\<lparr>chat_shown := chat_shown d @ [lit ''['' @ nick u @ lit ''] '' @ m]\<rparr>))"
proof -
  have ok: "users_ok (m_users sv)" by (rule room_ok [OF r])
  have n: "length (nick u) < 2 ^ 20" and d: "distinct (map cu_id (m_users sv))" using ok u by (simp_all add: users_ok_def)
  have find: "GetUserByPeerID (cu_id u) sv = Some u"
  proof -
    have "distinct (map cu_id us) \<Longrightarrow> u \<in> set us \<Longrightarrow> find (\<lambda>v. cu_id v = cu_id u) us = Some u" for us by (induction us) (auto simp: image_iff)
    then show ?thesis using d u by (simp add: GetUserByPeerID_def)
  qed
  obtain packet where packet: "message_packet m = Inr packet" "says m packet" using message_packet_ok [of m] m(2) by auto
  let ?line = "lit ''['' @ nick u @ lit ''] '' @ m"
  have len: "length ?line < 2 ^ 30" using n m(2) by simp
  obtain p where p: "says ?line p" "Broadcast ?line sv = Inr (sv\<lparr>chat_sent := chat_sent sv @ map (\<lambda>v. (cu_id v, p)) (m_users sv)\<rparr>)"
    using Broadcast_ok [OF len] by blast
  have "HandleInput m c = Inr (calls (ClientSend packet (m_server c)) c)"
    using m(1) packet(1) by (simp add: HandleInput_def plain_def)
  moreover have "HandleChatMessage u m sv = Broadcast ?line sv" using m(1) by (simp add: HandleChatMessage_def plain_def)
  then have "server_packet (rnd, as_received (cu_id u) packet) sv = Inr (sv\<lparr>chat_sent := chat_sent sv @ map (\<lambda>v. (cu_id v, p)) (m_users sv)\<rparr>)"
    using read_message [OF packet(2), of "cu_id u"] m(2) packet(2) find chat_command p(2)
    by (auto simp: server_packet_def received_fields says_def)
  ultimately show ?thesis using client_shows [OF p(1) len] d
    by (intro exI [of _ packet] exI [of _ p] exI [of _ "sv\<lparr>chat_sent := chat_sent sv @ map (\<lambda>v. (cu_id v, p)) (m_users sv)\<rparr>"]) simp
qed

lemma example_room:
  "\<exists>sv u. room sv \<and> u \<in> set (m_users sv) \<and> nick u = lit ''RandomStranger10005'' \<and> map cu_id (m_users sv) = [1, 2]"
proof -
  have join: "server_packet (rnd, packet_of who NOTIFY_CONNECTION_INCOMING [1]) sv = OnUserJoined rnd who sv" for rnd who sv by (simp add: server_packet_def packet_of_def)
  have name: "lit ''RandomStranger'' @ to_string (unat (5 :: u64) mod 100000 + 10000) = lit ''RandomStranger10005''"
    by (simp add: to_string.simps lit_def)
  obtain sv1 where sv1: "OnUserJoined 5 1 \<lparr>m_users = [], chat_sent = []\<rparr> = Inr sv1" "m_users sv1 = [\<lparr>cu_id = 1, nick = lit ''RandomStranger10005''\<rparr>]"
    using OnUserJoined_users [of 5 1 "\<lparr>m_users = [], chat_sent = []\<rparr>"] name by auto
  obtain sv where sv: "OnUserJoined 7 2 sv1 = Inr sv" "\<exists>x. m_users sv = [\<lparr>cu_id = 1, nick = lit ''RandomStranger10005''\<rparr>, \<lparr>cu_id = 2, nick = x\<rparr>]"
    using OnUserJoined_users [of 7 2 sv1] sv1(2) by auto
  have "room sv1" by (rule room_event [OF room_opens, of "Joins 5 1"]) (simp_all add: CHAT_MAX_CLIENTS_def join sv1(1))
  then have "room sv" by (rule room_event [of _ "Joins 7 2"]) (simp_all add: CHAT_MAX_CLIENTS_def join sv(1) sv1(2))
  then show ?thesis using sv(2) by (intro exI [of _ sv] exI [of _ "hd (m_users sv)"]) auto
qed

theorem chat_reaches_everyone_witness:
  "\<exists>sv u packet p sv'. room sv \<and> u \<in> set (m_users sv) \<and>
    server_packet (0, as_received (cu_id u) packet) sv = Inr sv' \<and> chat_sent sv' = chat_sent sv @ [(1, p), (2, p)] \<and>
    client_packet (as_received 9 p) \<lparr>m_server = 9, m_port = 0, m_connected = True, chat_shown = [], chat_calls = []\<rparr> =
      Inr \<lparr>m_server = 9, m_port = 0, m_connected = True, chat_shown = [lit ''[RandomStranger10005] hello''], chat_calls = []\<rparr>"
proof -
  obtain sv u where sv: "room sv" "u \<in> set (m_users sv)" "nick u = lit ''RandomStranger10005''" "map cu_id (m_users sv) = [1, 2]"
    using example_room by (elim exE conjE) (rule that)
  have "plain (lit ''hello'')" "length (lit ''hello'') < 2 ^ 20" by (simp_all add: plain_def has_prefix_def c_str_def lit_def)
  from chat_reaches_everyone [OF sv(1,2) this, of undefined 0] obtain packet p sv' where
    r: "server_packet (0, as_received (cu_id u) packet) sv = Inr sv'" "chat_sent sv' = chat_sent sv @ map (\<lambda>v. (cu_id v, p)) (m_users sv)"
      "\<forall>server d. client_packet (as_received server p) d = Inr (d\<lparr>chat_shown := chat_shown d @ [lit ''['' @ nick u @ lit ''] '' @ lit ''hello'']\<rparr>)"
    by blast
  have "map (\<lambda>v. (cu_id v, p)) (m_users sv) = [(1, p), (2, p)]" using sv(4) by (auto simp: map_eq_Cons_conv)
  moreover have "lit ''['' @ nick u @ lit ''] '' @ lit ''hello'' = lit ''[RandomStranger10005] hello''" by (simp add: sv(3) lit_def)
  ultimately show ?thesis using sv(1,2) r by (intro exI [of _ sv] exI [of _ u] exI [of _ packet] exI [of _ p] exI [of _ sv']) simp
qed

text \<open>A nickname of the upper half of the character set is looked up outside the table of \<^verbatim>\<open>isspace\<close>.\<close>

lemma foreign_nick_fails:
  assumes "128 \<le> ch" "has_prefix m (lit ''/nick '')" "drop 6 m = ch # rest"
  shows "HandleChatMessage u m sv = Inl OutOfBounds"
proof -
  have "\<not> length m < 7"
  proof
    assume "length m < 7"
    then have "drop 6 m = []" by simp
    then show False using assms(3) by simp
  qed
  then show ?thesis using assms by (simp add: HandleChatMessage_def trim_def isspace_def not_less [symmetric])
qed

section \<open>Setting up, and remote calls\<close>

definition same_settings :: "Peer \<Rightarrow> Peer \<Rightarrow> bool" where
  "same_settings p q \<longleftrightarrow> m_channels q = m_channels p \<and> m_rpc q = m_rpc p \<and> m_crypto_enabled q = m_crypto_enabled p"

lemma Bind_settings: "Bind env family port p = Inr (ok, q) \<Longrightarrow> same_settings p q"
  by (cases "SocketUDP_Bind (e_net env) family port (m_masterSocket p)")
    (auto simp: same_settings_def Bind_def RemotePeer_Setup_def upd_slot_def Let_def)

lemma Peer_new_settings:
  assumes "Peer_new rng n = Inr p"
  shows "m_channels p = [UNORDERED]" "m_rpc p = RpcController_new" "\<not> IsOpenAndReady (m_masterSocket p)"
  using assms by (auto simp: Peer_new_def SocketUDP_new_def IsOpenAndReady_def)

lemma encryption_settings:
  assumes "SetEncryptionEnabled env True p = Inr q" "\<not> IsOpenAndReady (m_masterSocket p)"
  shows "m_channels q = m_channels p" "m_rpc q = m_rpc p" "m_crypto_enabled q = e_encryption env"
    "SetEncryptionIdentity env secret public q = Inr r \<Longrightarrow> same_settings q r"
  using assms by (auto simp: SetEncryptionEnabled_def SetEncryptionIdentity_def same_settings_def split: if_splits)

lemma chat_channel: "m_channels p = [UNORDERED] \<Longrightarrow> fst (MakeChannel ORDERED p) = \<lparr>channel_id = 1, channel_mode = ORDERED\<rparr>"
  by (simp add: MakeChannel_def)

lemma chat_server_set_up:
  assumes "ChatServer_new env rng port rpc = Inr (Some (p, channel))"
  shows "channel = \<lparr>channel_id = 1, channel_mode = ORDERED\<rparr>" "m_crypto_enabled p = e_encryption env"
    "\<exists>h. djb2hash (lit ''ExampleRPC'') = Inr h \<and> callbacks h (m_rpc p) = [rpc]"
proof -
  obtain p0 p1 p2 p3 p4 where s: "Peer_new rng CHAT_MAX_CLIENTS = Inr p0"
    "SetEncryptionEnabled env True (SetMaximumIncomingPeers CHAT_MAX_CLIENTS p0) = Inr p1"
    "SetEncryptionIdentity env (Some (map Some SERVER_KEY_SECRET)) (Some (map Some SERVER_KEY_PUBLIC)) p1 = Inr p2"
    "Bind env IPv4 port p2 = Inr (True, p3)" "RpcRegisterSlot (lit ''ExampleRPC'') rpc p3 = Inr p4" "MakeChannel ORDERED p4 = (channel, p)"
    using assms by (auto simp: ChatServer_new_def IPeer_Factory_Create_def SetNetworkSimulation_def Let_def case_prod_beta prod_eq_iff split: if_splits)
  note f0 = Peer_new_settings [OF s(1)]
  have f: "m_channels (SetMaximumIncomingPeers CHAT_MAX_CLIENTS p0) = [UNORDERED]" "m_rpc (SetMaximumIncomingPeers CHAT_MAX_CLIENTS p0) = RpcController_new"
    "\<not> IsOpenAndReady (m_masterSocket (SetMaximumIncomingPeers CHAT_MAX_CLIENTS p0))"
    using f0 by (simp_all add: SetMaximumIncomingPeers_def)
  note e = encryption_settings [OF s(2) f(3)]
  have p3: "m_channels p3 = [UNORDERED]" "m_rpc p3 = RpcController_new" "m_crypto_enabled p3 = e_encryption env"
    using e(1-3) e(4) [OF s(3)] Bind_settings [OF s(4)] f by (simp_all add: same_settings_def)
  obtain c where c: "Slot (lit ''ExampleRPC'') rpc RpcController_new = Inr c" "p4 = p3\<lparr>m_rpc := c\<rparr>"
    using s(5) p3(2) by (auto simp: RpcRegisterSlot_def)
  have p: "m_crypto_enabled p = m_crypto_enabled p4" "m_rpc p = m_rpc p4" using s(6) by (auto simp: MakeChannel_def Let_def split: if_splits)
  show "channel = \<lparr>channel_id = 1, channel_mode = ORDERED\<rparr>" using chat_channel [of p4] c(2) p3(1) s(6) by simp
  show "m_crypto_enabled p = e_encryption env" using p(1) c(2) p3(3) by simp
  obtain h where h: "djb2hash (lit ''ExampleRPC'') = Inr h" "\<lparr>m_slots = [h \<mapsto> [rpc]]\<rparr> = c" using c(1) by (auto simp: Slot_def RpcController_new_def Let_def)
  then have "m_slots (m_rpc p) = [h \<mapsto> [rpc]]" using p(2) c(2) by auto
  then show "\<exists>h. djb2hash (lit ''ExampleRPC'') = Inr h \<and> callbacks h (m_rpc p) = [rpc]" using h(1) by (simp add: callbacks_def)
qed

lemma chat_client_set_up:
  assumes "ChatClient_new env rng port = Inr (Some (p, channel, c))"
  shows "channel = \<lparr>channel_id = 1, channel_mode = ORDERED\<rparr>" "m_crypto_enabled p = e_encryption env"
proof -
  obtain p0 p1 p2 where s: "Peer_new rng 1 = Inr p0" "SetEncryptionEnabled env True p0 = Inr p1"
    "Bind env IPv4 0 p1 = Inr (True, p2)" "MakeChannel ORDERED p2 = (channel, p)"
    using assms by (auto simp: ChatClient_new_def IPeer_Factory_Create_def SetNetworkSimulation_def Let_def split: if_splits prod.splits)
  note f = Peer_new_settings [OF s(1)]
  note e = encryption_settings [OF s(2) f(3)]
  have p2: "m_channels p2 = [UNORDERED]" "m_crypto_enabled p2 = e_encryption env" using e(1-3) Bind_settings [OF s(3)] f(1) by (simp_all add: same_settings_def)
  show "channel = \<lparr>channel_id = 1, channel_mode = ORDERED\<rparr>" using chat_channel [OF p2(1)] s(4) by simp
  show "m_crypto_enabled p = e_encryption env" using p2(2) s(4) by (auto simp: MakeChannel_def Let_def split: if_splits)
qed

text \<open>A call that a user types is answered with the text it was made with.\<close>

lemma chat_rpc_answered:
  assumes "ChatServer_new env rng port rpc = Inr (Some (p, channel))" "m \<noteq> []" "length m < 2 ^ 20"
  shows "\<exists>outstream packet r. HandleInput (lit ''/rpc '' @ m) c = Inr (calls (ClientRpc (lit ''ExampleRPC'') (m_server c) outstream) c) \<and>
    RpcSignal_packet (lit ''ExampleRPC'') outstream = Inr packet \<and>
    OnRpcSignal (as_received who packet) (m_rpc p) = Inr [(rpc, who, r)] \<and>
    (\<forall>sv. \<exists>answer. says (lit ''[RPC] This is an RPC. Your input was: '' @ m) answer \<and>
      ExampleRPC who r sv = Inr (sv\<lparr>chat_sent := chat_sent sv @ [(who, answer)]\<rparr>))"
proof -
  have v: "valid_string m" "valid_string (lit ''ExampleRPC'')" using assms(3) by (simp_all add: valid_string_def)
  note sz = enc_string_size [of m]
  obtain s where s: "WriteString m (BinaryStream_new BINARYSTREAM_DEFAULT_CAPACITY) = Inr s" "written s (enc_string m) []"
    using str.put_aligned [OF v(1) written_new] sz assms(3) by (auto simp: flushed_def max_stream_def)
  have bytes: "load_bytes (GetBuffer s) 0 (m_length s) = Inr (enc_string m)" "m_length s = length (enc_string m)"
    using load_written [OF s(2)] m_length_written [OF s(2)] by simp_all
  obtain h where h: "djb2hash (lit ''ExampleRPC'') = Inr h" "callbacks h (m_rpc p) = [rpc]"
    using chat_server_set_up(3) [OF assms(1)] by blast
  obtain packet where packet: "RpcSignal_packet (lit ''ExampleRPC'') s = Inr packet" "packet_ok packet" "m_command packet = RPC_SIGNAL"
    "payload packet = rpc_payload (lit ''ExampleRPC'') (of_nat (length (enc_string m))) (enc_string m)"
    using RpcSignal_packet_ok [OF v(2) bytes] sz assms(3) by auto
  have q: "packet_ok (as_received who packet)" "payload (as_received who packet) = payload packet" "m_sender (as_received who packet) = who"
    using length_payload [OF packet(2)] packet(2) packet_ok_packet_of [of "payload packet"]
    by (simp_all add: as_received_def payload_packet_of received_fields packet_ok_def [of packet])
  obtain r where r: "OnRpcSignal (as_received who packet) (m_rpc p) = Inr [(rpc, who, r)]" "reading r 0 (enc_string m)"
    using OnRpcSignal_reading [OF q(1) _ v(2) h(1), of "enc_string m" "m_rpc p"] q(2,3) packet(4) h(2) sz assms(3) by auto
  obtain r' where r': "ReadString r = Inr (m, r')" using str.get_aligned [OF v(1) r(2), of "[]"] by auto
  have "HandleInput (lit ''/rpc '' @ m) c = Inr (calls (ClientRpc (lit ''ExampleRPC'') (m_server c) s) c)"
    using s(1) assms(2) by (simp add: HandleInput_def has_prefix_def c_str_def lit_def)
  moreover have "\<exists>answer. says (lit ''[RPC] This is an RPC. Your input was: '' @ m) answer \<and>
      ExampleRPC who r sv = Inr (sv\<lparr>chat_sent := chat_sent sv @ [(who, answer)]\<rparr>)" for sv
    using SendToSpecific_ok [of "lit ''[RPC] This is an RPC. Your input was: '' @ m" who sv] assms(3) r' by (auto simp: ExampleRPC_def)
  ultimately show ?thesis using packet(1) r(1) by blast
qed

end
