(* ===== verification/Discovery.thy ===== *)
theory Discovery
  imports Connecting Texts
begin

text \<open>
  Discovery on the local network: a peer that is pinged answers with its advertisement, and the peer that asked tells its
  program where the advertisement came from.  And \<^verbatim>\<open>examples/LanDiscovery/Main.cpp\<close>, which lists the lobbies of a network
  in this way; the outputs of its random number generator are arguments.
\<close>

section \<open>The example program\<close>

definition adjectives :: "u8 list list" where
  "adjectives = [lit ''Awesome'', lit ''Glorious'', lit ''Wonderful'', lit ''Brilliant'', lit ''Shiny'']"

definition myLobbyName :: "u32 \<Rightarrow> u32 \<Rightarrow> u8 list" where
  "myLobbyName r1 r2 = adjectives ! (unat r1 mod length adjectives) @ lit '' Lobby No. '' @ to_string (unat r2)"

definition lan_advert :: "u8 list \<Rightarrow> u32 \<Rightarrow> BinaryStream result" where
  "lan_advert name r3 =
     rbind (WriteString name (BinaryStream_new BINARYSTREAM_DEFAULT_CAPACITY)) (\<lambda>advert.
     rbind (WriteString (lit ''de_dust2'') advert) (\<lambda>advert.
     rbind (WriteInt32 (r3 mod 50) advert) (\<lambda>advert.
     WriteInt32 50 advert)))"

definition lan_start :: "Env \<Rightarrow> u64 list \<Rightarrow> u16 \<Rightarrow> u32 \<Rightarrow> u32 \<Rightarrow> u32 \<Rightarrow> Peer result" where
  "lan_start env rng port r1 r2 r3 =
     rbind (lan_advert (myLobbyName r1 r2) r3) (\<lambda>advert.
     rbind (IPeer_Factory_Create rng 1) (\<lambda>peer.
     rbind (Bind env IPv4 port peer) (\<lambda>(_, peer).
     rbind (SetOfflineAdvertisement advert peer) (\<lambda>peer.
     rbind (Reset advert) (\<lambda>_. Inr peer)))))"

record Lobby =
  hostname :: "u8 list"
  nameLobby :: "u8 list"
  nameMap :: "u8 list"
  playerCount :: int
  playerMax :: int

definition lan_packet :: "Packet \<Rightarrow> Lobby list result" where
  "lan_packet recv =
     (if m_command recv = NOTIFY_ADVERTISEMENT
      then rbind (GetStream recv) (\<lambda>instream.
           rbind (ReadString instream) (\<lambda>(host, instream).
           rbind (ReadString instream) (\<lambda>(lobby, instream).
           rbind (ReadString instream) (\<lambda>(mapname, instream).
           rbind (ReadInt32 instream) (\<lambda>(count, instream).
           rbind (ReadInt32 instream) (\<lambda>(most, instream).
           Inr [\<lparr>hostname = host, nameLobby = lobby, nameMap = mapname, playerCount = count, playerMax = most\<rparr>]))))))
      else Inr [])"

text \<open>The lobbies that are printed while the packets that have arrived are processed.\<close>

function lan_receive :: "Lobby list \<Rightarrow> Peer \<Rightarrow> (Lobby list \<times> Peer) result" where
  "lan_receive shown peer = (case Receive peer of
      (None, peer) \<Rightarrow> Inr (shown, peer)
    | (Some recv, peer) \<Rightarrow> (case lan_packet recv of Inl e \<Rightarrow> Inl e | Inr ls \<Rightarrow> lan_receive (shown @ ls) peer))"
  by pat_completeness auto
termination
  by (relation "measure (\<lambda>(_, p). length (m_inbox p))") (auto simp: Receive_def DequeueIncoming_def split: list.splits)

declare lan_receive.simps [simp del]

text \<open>A line of input; the result says whether the program goes on.\<close>

definition lan_input :: "Env \<Rightarrow> u16 \<Rightarrow> u8 list \<Rightarrow> Peer \<Rightarrow> (bool \<times> Peer) result" where
  "lan_input env port userInput peer =
     (if userInput = [] then Inr (True, peer)
      else if c_str userInput = lit ''e'' then Inr (False, peer)
      else if c_str userInput = lit ''b'' then rbind (PingLocalNetwork env port peer) (\<lambda>peer. Inr (True, peer))
      else Inr (True, peer))"

section \<open>Advertisements\<close>

lemma Write7Bit_copyable:
  "written s c bits \<Longrightarrow> copyable s \<Longrightarrow> length (flushed c bits) + length (enc7 raw) \<le> 2 ^ 31 \<Longrightarrow>
   \<exists>s'. Write7BitEncodedInt raw s = Inr s' \<and> written s' (flushed c bits @ enc7 raw) [] \<and> copyable s'"
proof (induction raw arbitrary: s c bits rule: enc7.induct)
  case (1 raw)
  let ?b = "if drop_bit 7 raw > 0 then ucast (raw AND 0x7F) OR 0x80 else (ucast (raw AND 0x7F) :: u8)"
  have enc: "enc7 raw = ?b # (if drop_bit 7 raw > 0 then enc7 (drop_bit 7 raw) else [])" by (subst enc7.simps) simp
  obtain s1 where s1: "WriteByte ?b s = Inr s1" "written s1 (flushed c bits @ [?b]) []" "copyable s1"
    using WriteByte_copyable [OF "1.prems"(1,2), of ?b] "1.prems"(3) enc by auto
  have eq: "Write7BitEncodedInt raw s = (if drop_bit 7 raw > 0 then Write7BitEncodedInt (drop_bit 7 raw) s1 else Inr s1)"
    using s1(1) by (subst Write7BitEncodedInt.simps) (auto simp: Let_def)
  show ?case
  proof (cases "drop_bit 7 raw > 0")
    case True
    from "1.IH" [OF True s1(2,3)] "1.prems"(3) enc True eq show ?thesis by (simp add: flushed_def)
  next
    case False
    with eq s1 enc show ?thesis by simp
  qed
qed

lemma WriteString_copyable:
  assumes "written s c []" "copyable s" "length c + length str + 5 \<le> 2 ^ 31" "length str < 2 ^ 30"
  shows "\<exists>s'. WriteString str s = Inr s' \<and> written s' (c @ enc_string str) [] \<and> copyable s'"
proof -
  obtain s1 where s1: "Write7BitEncodedInt (of_nat (length str)) s = Inr s1" "written s1 (c @ enc7 (of_nat (length str))) []" "copyable s1"
    using Write7Bit_copyable [OF assms(1,2), of "of_nat (length str)"] length_enc7_le [of "of_nat (length str)"] assms(3) by (auto simp: flushed_def)
  obtain s2 where "WriteBytes str s1 = Inr s2" "written s2 (c @ enc_string str) []" "copyable s2"
    using WriteBytes_copyable [OF s1(2,3), of str] length_enc7_le [of "of_nat (length str)"] assms(3) by (auto simp: flushed_def enc_string_def)
  then show ?thesis using s1(1) assms(4) by (simp add: WriteString_def)
qed

lemma WriteInt32_copyable:
  assumes "written s c []" "copyable s" "length c + 4 \<le> 2 ^ 31"
  shows "\<exists>s'. WriteInt32 n s = Inr s' \<and> written s' (c @ be32 n) [] \<and> copyable s'"
  using WriteBytes_copyable [OF assms(1,2), of "be32 n"] assms(3) by (simp add: flushed_def WriteInt32_on_def mem_Htonl)

definition enc_advert :: "u8 list \<Rightarrow> u32 \<Rightarrow> u8 list" where
  "enc_advert name r3 = enc_string name @ enc_string (lit ''de_dust2'') @ be32 (r3 mod 50) @ be32 50"

lemma enc_advert_size: "length (enc_advert name r3) \<le> length name + 26" "enc_advert name r3 \<noteq> []"
  using enc_string_size [of name] enc_string_size [of "lit ''de_dust2''"] by (simp_all add: enc_advert_def)

lemma lan_advert_ok:
  assumes "length name < 1000"
  shows "\<exists>s. lan_advert name r3 = Inr s \<and> written s (enc_advert name r3) [] \<and> copyable s"
proof -
  note sz = enc_string_size [of name] enc_string_size [of "lit ''de_dust2''"]
  have "copyable (BinaryStream_new BINARYSTREAM_DEFAULT_CAPACITY)" by (rule copyable_new) (simp_all add: BINARYSTREAM_DEFAULT_CAPACITY_def)
  then obtain s1 where s1: "WriteString name (BinaryStream_new BINARYSTREAM_DEFAULT_CAPACITY) = Inr s1" "written s1 (enc_string name) []" "copyable s1"
    using WriteString_copyable [of "BinaryStream_new BINARYSTREAM_DEFAULT_CAPACITY" "[]" name, OF written_new] assms by auto
  obtain s2 where s2: "WriteString (lit ''de_dust2'') s1 = Inr s2" "written s2 (enc_string name @ enc_string (lit ''de_dust2'')) []" "copyable s2"
    using WriteString_copyable [OF s1(2,3), of "lit ''de_dust2''"] sz assms by auto
  obtain s3 where s3: "WriteInt32 (r3 mod 50) s2 = Inr s3" "written s3 (enc_string name @ enc_string (lit ''de_dust2'') @ be32 (r3 mod 50)) []" "copyable s3"
    using WriteInt32_copyable [OF s2(2,3), of "r3 mod 50"] sz assms by auto
  obtain s4 where "WriteInt32 50 s3 = Inr s4" "written s4 (enc_advert name r3) []" "copyable s4"
    using WriteInt32_copyable [OF s3(2,3), of 50] sz assms by (auto simp: enc_advert_def)
  then show ?thesis using s1(1) s2(1) s3(1) by (simp add: lan_advert_def)
qed

section \<open>A ping and its answer\<close>

lemma oob_ready_frame:
  assumes "oob_ready n p"
  shows "oob_ready n ((upd_slot 0 (\<lambda>r. r\<lparr>outbox := x\<rparr>) p)\<lparr>m_masterSocket := after_read False (fill_readbuf data (m_masterSocket p))\<rparr>)"
    "oob_ready n (upd_slot 0 (\<lambda>r. r\<lparr>outbox := x\<rparr>) p)"
  using assms by (auto simp: oob_ready_def after_read_def BeginRead_def fill_readbuf_def Let_def)

text \<open>An out-of-band packet in an otherwise empty queue leaves in one datagram.\<close>

lemma ping_queued:
  assumes r: "oob_ready n p" "0 < m_remotesMax p" "outbox (at_slot 0 p) = []"
    and res: "SocketUDP_Resolve (e_net env) host port (m_masterSocket p) = Some dst"
  shows "\<exists>out. Ping env host port p = Inr (upd_slot 0 (\<lambda>r. r\<lparr>outbox := [out]\<rparr>) p) \<and> waiting (e_now env) dst [PING] out"
proof -
  let ?ping = "\<lparr>m_sender = 0, m_command = PING, pkt_length = 0, m_data = None\<rparr>"
  have ping: "Packet_of_data PING None 0 = Inr ?ping" by (simp add: Packet_of_data_def CopyFrom_def)
  have ok: "packet_ok ?ping" "pkt_length ?ping < MTU - 100" "enc_Packet ?ping = [PING]"
    by (simp_all add: packet_ok_def MTU_def enc_Packet_def payload_def)
  obtain out where out: "EnqueueOutOfBand env ?ping dst None p = Inr (upd_slot 0 (\<lambda>r. r\<lparr>outbox := outbox r @ [out]\<rparr>) p)"
    "waiting (e_now env) dst [PING] out" using EnqueueOutOfBand_ok [OF ok(1,2) r(2), of env dst] ok(3) by auto
  have "upd_slot 0 (\<lambda>r. r\<lparr>outbox := outbox r @ [out]\<rparr>) p = upd_slot 0 (\<lambda>r. r\<lparr>outbox := [out]\<rparr>) p"
    using r(1,3) by (simp add: upd_slot_def at_slot_def)
  then show ?thesis using ping out res by (auto simp: Ping_def)
qed

lemma ping_answered:
  assumes r: "oob_ready n q" "0 < m_remotesMax q" "outbox (at_slot 0 q) = []" "GetRemoteByAddress addr q = None"
    and ad: "written (m_advertisement q) ad []" "ad \<noteq> []" "length ad < 1200"
  shows "\<exists>q1 out. socket_read env False addr (oob_datagram did [PING]) q = Inr q1 \<and> outbox (at_slot 0 q1) = [out] \<and>
    waiting (e_now env) addr (ADVERTISEMENT # ad) out \<and> oob_ready n q1"
proof -
  let ?q0 = "q\<lparr>m_masterSocket := fill_readbuf (oob_datagram did [PING]) (m_masterSocket q)\<rparr>"
  have fl: "flushed ad [] = ad" by (simp add: flushed_def)
  obtain pong where pong: "Packet_of_stream ADVERTISEMENT (m_advertisement q) = Inr pong" "packet_ok pong" "m_command pong = ADVERTISEMENT" "payload pong = ad"
    using packet_constructors_agree [OF ad(1), of ADVERTISEMENT] ad(2,3) fl by auto
  have ne: "\<not> IsEmpty (m_advertisement q)"
    using ad(1,2) m_length_written [OF ad(1)] by (auto simp: IsEmpty_def written_def stream_ok_def contents_def cells_def flushed_def)
  have "pkt_length pong < MTU - 100" using length_payload [OF pong(2)] pong(4) ad(3) by (simp add: MTU_def)
  then obtain out where out: "EnqueueOutOfBand env pong addr None ?q0 = Inr (upd_slot 0 (\<lambda>r. r\<lparr>outbox := outbox r @ [out]\<rparr>) ?q0)"
    "waiting (e_now env) addr (ADVERTISEMENT # ad) out"
    using EnqueueOutOfBand_ok [OF pong(2), of ?q0 env addr] r(2) pong(3,4) by (auto simp: enc_Packet_def)
  let ?q1 = "(upd_slot 0 (\<lambda>r. r\<lparr>outbox := [out]\<rparr>) q)\<lparr>m_masterSocket := after_read False (fill_readbuf (oob_datagram did [PING]) (m_masterSocket q))\<rparr>"
  have up: "(upd_slot 0 (\<lambda>r. r\<lparr>outbox := outbox r @ [out]\<rparr>) ?q0)\<lparr>m_masterSocket := after_read False (m_masterSocket ?q0)\<rparr> = ?q1"
    using r(1,3) by (simp add: upd_slot_def at_slot_def)
  have "socket_read env False addr (oob_datagram did [PING]) q = Inr ?q1"
    using oob_received [of "[PING]" PING "[]" addr q env did] r(4) ne pong(1) out(1) up
    by (simp add: on_unconnected_def packet_of_def arrived_unknown OnPing_def SendOutOfBand_def)
  moreover have "outbox (at_slot 0 ?q1) = [out]" using r(1) by (simp add: oob_ready_def)
  ultimately show ?thesis using out(2) oob_ready_frame(1) [OF r(1)] by blast
qed

lemma advertisement_posted:
  assumes known: "GetRemoteByAddress addr p = None" and ad: "ad \<noteq> []" "length ad < 1200" "length (RemoteAddress_ToString (e_net env) addr) < 2 ^ 20"
  shows "\<exists>p'. socket_read env False addr (oob_datagram did (ADVERTISEMENT # ad)) p = Inr p' \<and>
    m_inbox p' = m_inbox p @ [packet_of 0 NOTIFY_ADVERTISEMENT (enc_string (RemoteAddress_ToString (e_net env) addr) @ ad)]"
proof -
  let ?a = "RemoteAddress_ToString (e_net env) addr"
  let ?p0 = "p\<lparr>m_masterSocket := fill_readbuf (oob_datagram did (ADVERTISEMENT # ad)) (m_masterSocket p)\<rparr>"
  have pk: "packet_ok (packet_of 0 ADVERTISEMENT ad)" by (rule packet_ok_packet_of) (use ad(2) in simp)
  obtain s where s: "GetStream (packet_of 0 ADVERTISEMENT ad) = Inr s" "reading s 0 ad" "m_position s = 0"
    using GetStream_reading [OF pk] by (auto simp: payload_packet_of)
  note sz = enc_string_size [of ?a]
  obtain s1 where s1: "WriteString ?a (BinaryStream_new (m_length s + length ?a + 4)) = Inr s1" "written s1 (enc_string ?a) []"
    using str.put_aligned [OF _ written_new, of ?a] sz ad(3) by (auto simp: flushed_def max_stream_def valid_string_def)
  obtain s2 where s2: "WriteBytes_stream s s1 = Inr s2" "written s2 (enc_string ?a @ ad) []"
    using WriteBytes_stream_written [OF s(2,3) s1(2)] sz ad(2,3) by (auto simp: max_stream_def)
  obtain packet s3 where packet: "Packet_of_moved_stream NOTIFY_ADVERTISEMENT s2 = (packet, s3)" "packet_ok packet" "m_sender packet = 0"
    "m_command packet = NOTIFY_ADVERTISEMENT" "payload packet = enc_string ?a @ ad"
    using moved_packet [OF s2(2), of NOTIFY_ADVERTISEMENT] sz ad by (auto simp: flushed_def)
  have "EnqueueLoopback packet ?p0 = Inr (?p0\<lparr>m_inbox := m_inbox p @ [packet_of 0 NOTIFY_ADVERTISEMENT (enc_string ?a @ ad)]\<rparr>)"
    using Packet_copy_ok [OF packet(2)] packet(3-5) ad(1) by (simp add: EnqueueLoopback_def)
  then have "OnAdvertisement env addr (packet_of 0 ADVERTISEMENT ad) ?p0 = Inr (?p0\<lparr>m_inbox := m_inbox p @ [packet_of 0 NOTIFY_ADVERTISEMENT (enc_string ?a @ ad)]\<rparr>)"
    using s(1) s1(1) s2(1) packet(1) by (simp add: OnAdvertisement_def Let_def)
  then show ?thesis
    using oob_received [of "ADVERTISEMENT # ad" ADVERTISEMENT ad addr p env did] known ad(2)
    by (simp add: on_unconnected_def arrived_unknown packet_of_def config_defs)
qed

text \<open>
  The whole exchange: a ping to the address \<open>dst\<close>, which reaches a peer that advertises, and the answer.
\<close>

lemma discovered:
  assumes p: "oob_ready 19 p" "0 < m_remotesMax p" "outbox (at_slot 0 p) = []" "GetRemoteByAddress addrB p = None"
    and res: "SocketUDP_Resolve (e_net env) host port (m_masterSocket p) = Some dst"
    and q: "oob_ready (length ad + 19) q" "0 < m_remotesMax q" "outbox (at_slot 0 q) = []" "GetRemoteByAddress addrA q = None"
    and ad: "written (m_advertisement q) ad []" "ad \<noteq> []" "length ad < 1200" "length (RemoteAddress_ToString (e_net env) addrB) < 2 ^ 20"
  shows "\<exists>p1 p2 p3 q1 q2. Ping env host port p = Inr p1 \<and> transmit env 0 addrA dst env' p1 q = Inr (p2, q1) \<and>
    transmit env' 0 addrB addrA env q1 p2 = Inr (q2, p3) \<and>
    m_inbox p3 = m_inbox p @ [packet_of 0 NOTIFY_ADVERTISEMENT (enc_string (RemoteAddress_ToString (e_net env) addrB) @ ad)]"
proof -
  obtain out where out: "Ping env host port p = Inr (upd_slot 0 (\<lambda>r. r\<lparr>outbox := [out]\<rparr>) p)" "waiting (e_now env) dst [PING] out"
    using ping_queued [OF p(1-3) res] by blast
  let ?p1 = "upd_slot 0 (\<lambda>r. r\<lparr>outbox := [out]\<rparr>) p"
  have p1: "oob_ready 19 ?p1" "outbox (at_slot 0 ?p1) = [out]" using oob_ready_frame(2) [OF p(1)] p(1) by (simp_all add: oob_ready_def)
  obtain p2' p2 did r s where w1: "DoWriteCycle env 0 ?p1 = Inr p2'" "su_write (m_masterSocket p2') = Some (dst, oob_datagram did [PING], (0, did))"
    "socket_written False p2' = Inr p2" "p2 = (upd_slot 0 (\<lambda>_. r) ?p1)\<lparr>m_masterSocket := s\<rparr>"
    using send_oob [OF _ out(2) order.refl p1(2), of 0] p1(1) by auto
  obtain q1 out' where k: "socket_read env' False addrA (oob_datagram did [PING]) q = Inr q1" "outbox (at_slot 0 q1) = [out']"
    "waiting (e_now env') addrA (ADVERTISEMENT # ad) out'" "oob_ready (length ad + 19) q1"
    using ping_answered [OF q ad(1-3), of env' did] by blast
  obtain q2' q2 did' where w2: "DoWriteCycle env' 0 q1 = Inr q2'"
    "su_write (m_masterSocket q2') = Some (addrA, oob_datagram did' (ADVERTISEMENT # ad), (0, did'))" "socket_written False q2' = Inr q2"
    using send_oob [OF _ k(3) order.refl k(2), of 0] k(4) ad(3) by (auto simp: add.commute)
  have "GetRemoteByAddress addrB p2 = None" "m_inbox p2 = m_inbox p" using p(4) w1(4) by simp_all
  then obtain p3 where "socket_read env False addrB (oob_datagram did' (ADVERTISEMENT # ad)) p2 = Inr p3"
    "m_inbox p3 = m_inbox p @ [packet_of 0 NOTIFY_ADVERTISEMENT (enc_string (RemoteAddress_ToString (e_net env) addrB) @ ad)]"
    using advertisement_posted [OF _ ad(2-4), of p2 did'] by auto
  then show ?thesis using out(1) w1(1-3) k(1) w2 by (simp add: transmit_def)
qed

section \<open>The list of lobbies\<close>

lemma length_myLobbyName: "length (myLobbyName r1 r2) < 100"
proof -
  have "unat r2 < 2 ^ 32" using unsigned_less [of r2] by simp
  then have "unat r2 < 10 ^ 10" by simp
  then have l: "length (to_string (unat r2)) \<le> 10" by (rule length_to_string) simp
  have "adjectives ! (unat r1 mod length adjectives) \<in> set adjectives" by (rule nth_mem) (simp add: adjectives_def)
  then have "length (adjectives ! (unat r1 mod length adjectives)) \<le> 9" by (auto simp: adjectives_def)
  with l show ?thesis by (simp add: myLobbyName_def)
qed

lemma lan_start_ok:
  assumes s: "lan_start env rng port r1 r2 r3 = Inr p" and up: "GetState (m_masterSocket p) = OPEN"
  shows "n \<le> MTU \<Longrightarrow> oob_ready n p" "0 < m_remotesMax p" "outbox (at_slot 0 p) = []" "GetRemoteByAddress addr p = None" "m_inbox p = []"
    "GetProtocol (m_masterSocket p) = IPv4" "written (m_advertisement p) (enc_advert (myLobbyName r1 r2) r3) []"
proof -
  obtain advert where a: "lan_advert (myLobbyName r1 r2) r3 = Inr advert" "written advert (enc_advert (myLobbyName r1 r2) r3) []" "copyable advert"
    using lan_advert_ok [of "myLobbyName r1 r2" r3] length_myLobbyName [of r1 r2] by auto
  obtain p0 where p0: "Peer_new rng 1 = Inr p0" using s a(1) by (cases "Peer_new rng 1") (auto simp: lan_start_def IPeer_Factory_Create_def)
  obtain ok p1 where p1: "Bind env IPv4 port p0 = Inr (ok, p1)"
    using s a(1) p0 by (cases "Bind env IPv4 port p0") (auto simp: lan_start_def IPeer_Factory_Create_def)
  obtain ad where ad: "BinaryStream_assign (m_advertisement p1) advert = Inr ad" "p = p1\<lparr>m_advertisement := ad\<rparr>"
    using s a(1) p0 p1 by (cases "BinaryStream_assign (m_advertisement p1) advert"; cases "Reset advert")
      (auto simp: lan_start_def IPeer_Factory_Create_def SetOfflineAdvertisement_def)
  have ad1: "m_advertisement p1 = BinaryStream_new 0"
    using p0 p1 by (auto simp: Peer_new_def Bind_def RemotePeer_Setup_def upd_slot_def Let_def split: if_splits sum.splits prod.splits)
  have ok: "ok"
    using p0 p1 up ad(2) by (auto simp: Peer_new_def Bind_def RemotePeer_Setup_def upd_slot_def SocketUDP_Bind_def SocketUDP_new_def GetState_def Let_def split: if_splits)
  have inc: "p0\<lparr>m_remotesIncoming := 0\<rparr> = p0" using p0 by (auto simp: Peer_new_def)
  have b: "Bind env IPv4 port (p0\<lparr>m_remotesIncoming := 0\<rparr>) = Inr (True, p1)" using p1 ok inc by simp
  note bn = Bind_new [OF p0 b] and o = new_oob_ready [OF p0 b] and i = idle_slots [OF Bind_new(1,3,5) [OF p0 b]]
  show "n \<le> MTU \<Longrightarrow> oob_ready n p" using o(1) ad(2) by (simp add: oob_ready_def at_slot_def)
  show "0 < m_remotesMax p" "m_inbox p = []" "GetProtocol (m_masterSocket p) = IPv4" using bn ad(2) by (simp_all add: GetProtocol_def)
  show "outbox (at_slot 0 p) = []" using o(2) [of 0] ad(2) by (simp add: at_slot_def)
  show "GetRemoteByAddress addr p = None" using i(3) [of addr] ad(2) by (simp add: GetRemoteByAddress_def at_slot_def)
  show "written (m_advertisement p) (enc_advert (myLobbyName r1 r2) r3) []"
    using assign_copyable [OF reusable_new [of 0] a(2,3)] ad ad1 by auto
qed

lemma lan_packet_ok:
  assumes "length host < 2 ^ 20" "length name < 1000"
  shows "lan_packet (packet_of who NOTIFY_ADVERTISEMENT (enc_string host @ enc_advert name r3)) =
    Inr [\<lparr>hostname = host, nameLobby = name, nameMap = lit ''de_dust2'', playerCount = int (unat r3 mod 50), playerMax = 50\<rparr>]"
proof -
  have v: "valid_string host" "valid_string name" "valid_string (lit ''de_dust2'')" using assms by (simp_all add: valid_string_def)
  have "length (enc_string host @ enc_advert name r3) < 2 ^ 32" using enc_string_size [of host] enc_advert_size [of name r3] assms by simp
  then obtain s where s: "GetStream (packet_of who NOTIFY_ADVERTISEMENT (enc_string host @ enc_advert name r3)) = Inr s" "reading s 0 (enc_string host @ enc_advert name r3)"
    using GetStream_packet_of by blast
  obtain s1 where s1: "ReadString s = Inr (host, s1)" "reading s1 0 (enc_string name @ enc_string (lit ''de_dust2'') @ be32 (r3 mod 50) @ be32 50)"
    using str.get_aligned [OF v(1) s(2)] by (auto simp: enc_advert_def)
  obtain s2 where s2: "ReadString s1 = Inr (name, s2)" "reading s2 0 (enc_string (lit ''de_dust2'') @ be32 (r3 mod 50) @ be32 50)"
    using str.get_aligned [OF v(2) s1(2)] by auto
  obtain s3 where s3: "ReadString s2 = Inr (lit ''de_dust2'', s3)" "reading s3 0 (be32 (r3 mod 50) @ be32 50)"
    using str.get_aligned [OF v(3) s2(2)] by auto
  obtain s4 where s4: "ReadUInt32 s3 = Inr (r3 mod 50, s4)" "reading s4 0 (be32 50)" using int32.get_aligned [OF _ s3(2), of "r3 mod 50"] by auto
  obtain s5 where s5: "ReadUInt32 s4 = Inr (50, s5)" using int32.get_aligned [OF _ s4(2), of 50 "[]"] by auto
  have "unat (r3 mod 50) = unat r3 mod 50" by (simp add: unat_mod_distrib)
  moreover have "sint (r3 mod 50) = int (unat (r3 mod 50))"
  proof -
    have "unat (r3 mod 50) < 50" by (simp add: unat_mod_distrib)
    then show ?thesis using small_word(3) [of "unat (r3 mod 50)"] by simp
  qed
  ultimately show ?thesis using s(1) s1(1) s2(1) s3(1) s4(1) s5 by (simp add: lan_packet_def packet_of_def ReadInt32_def)
qed

text \<open>
  C12.  Lobbies on the local network find each other: when two instances of the program have bound their sockets and the user of one asks for a
  broadcast, then, once the broadcast has reached the other instance and its answer has come back, the first instance lists the other lobby, under
  the address it answered from and with the name, the map and the numbers of players that the other instance advertises.
\<close>

theorem lobby_found:
  assumes a: "lan_start envA rngA port a1 a2 a3 = Inr p" "GetState (m_masterSocket p) = OPEN"
    and b: "lan_start envB rngB port b1 b2 b3 = Inr q" "GetState (m_masterSocket q) = OPEN"
    and net: "SocketUDP_Resolve (e_net env) multicast_v4 port (m_masterSocket p) = Some everyone"
      "length (RemoteAddress_ToString (e_net env) addrB) < 2 ^ 20"
  shows "\<exists>p1 p2 p3 p4 q1 q2. lan_input env port (lit ''b'') p = Inr (True, p1) \<and>
    transmit env 0 addrA everyone env' p1 q = Inr (p2, q1) \<and> transmit env' 0 addrB addrA env q1 p2 = Inr (q2, p3) \<and>
    lan_receive [] p3 = Inr ([\<lparr>hostname = RemoteAddress_ToString (e_net env) addrB, nameLobby = myLobbyName b1 b2,
      nameMap = lit ''de_dust2'', playerCount = int (unat b3 mod 50), playerMax = 50\<rparr>], p4)"
proof -
  note pa = lan_start_ok [OF a] and qb = lan_start_ok [OF b]
  let ?ad = "enc_advert (myLobbyName b1 b2) b3" and ?host = "RemoteAddress_ToString (e_net env) addrB"
  have ad: "length ?ad < 126" "?ad \<noteq> []" using enc_advert_size [of "myLobbyName b1 b2" b3] length_myLobbyName [of b1 b2] by simp_all
  have o: "oob_ready 19 p" "oob_ready (length ?ad + 19) q" using pa(1) [of 19] qb(1) [of "length ?ad + 19"] ad(1) by (simp_all add: MTU_def)
  have "length ?ad < 1200" using ad(1) by simp
  from discovered [OF o(1) pa(2-4) net(1) o(2) qb(2-4,7) ad(2) this net(2)] obtain p1 p2 p3 q1 q2 where
    d: "Ping env multicast_v4 port p = Inr p1" "transmit env 0 addrA everyone env' p1 q = Inr (p2, q1)"
    "transmit env' 0 addrB addrA env q1 p2 = Inr (q2, p3)" "m_inbox p3 = m_inbox p @ [packet_of 0 NOTIFY_ADVERTISEMENT (enc_string ?host @ ?ad)]"
    by blast
  have "lan_input env port (lit ''b'') p = Inr (True, p1)"
    using d(1) pa(6) by (simp add: lan_input_def PingLocalNetwork_def lit_def c_str_def)
  moreover have "lan_packet (packet_of 0 NOTIFY_ADVERTISEMENT (enc_string ?host @ ?ad)) = Inr [\<lparr>hostname = ?host, nameLobby = myLobbyName b1 b2,
      nameMap = lit ''de_dust2'', playerCount = int (unat b3 mod 50), playerMax = 50\<rparr>]"
    using lan_packet_ok [OF net(2)] length_myLobbyName [of b1 b2] by simp
  then have "\<exists>p4. lan_receive [] p3 = Inr ([\<lparr>hostname = ?host, nameLobby = myLobbyName b1 b2,
      nameMap = lit ''de_dust2'', playerCount = int (unat b3 mod 50), playerMax = 50\<rparr>], p4)"
    using d(4) pa(5) by (simp add: lan_receive.simps Receive_def DequeueIncoming_def)
  ultimately show ?thesis using d(2,3) by blast
qed

text \<open>Two instances of the program.\<close>

lemma example_lan:
  assumes "me \<noteq> 0"
  shows "\<exists>p. lan_start (example_env 1) [me] 1337 r1 r2 r3 = Inr p \<and> GetState (m_masterSocket p) = OPEN \<and>
    SocketUDP_Resolve (e_net (example_env 1)) multicast_v4 1337 (m_masterSocket p) = Some (example_address 1)"
proof -
  obtain advert where a: "lan_advert (myLobbyName r1 r2) r3 = Inr advert" "written advert (enc_advert (myLobbyName r1 r2) r3) []" "copyable advert"
    using lan_advert_ok [of "myLobbyName r1 r2" r3] length_myLobbyName [of r1 r2] by auto
  have "(example_new me 1)\<lparr>m_remotesIncoming := 0\<rparr> = example_new me 1" using assms by (simp add: example_new_def Peer_new_def)
  then have b: "Bind (example_env 1) IPv4 1337 (example_new me 1) = Inr (True, example_fresh me 1 0)" using example_bind(2) [of me 0 1] assms by simp
  have f: "m_advertisement (example_fresh me 1 0) = BinaryStream_new 0" "GetState (m_masterSocket (example_fresh me 1 0)) = OPEN"
    "SocketUDP_Resolve (e_net (example_env 1)) multicast_v4 1337 (m_masterSocket (example_fresh me 1 0)) = Some (example_address 1)"
    using assms by (simp_all add: example_fresh_defs upd_slot_def)
  obtain ad where ad: "BinaryStream_assign (BinaryStream_new 0) advert = Inr ad" using assign_copyable [OF reusable_new [of 0] a(2,3)] by auto
  have "reusable advert" using a(2) by (auto simp: written_def stream_ok_def reusable_def cells_def split: option.splits)
  then obtain s where "Reset advert = Inr s" using Reset_reusable by blast
  then show ?thesis using a(1) example_new [OF assms] b ad f by (simp add: lan_start_def IPeer_Factory_Create_def SetOfflineAdvertisement_def)
qed

theorem lobby_found_witness:
  "\<exists>p q p1 p2 p3 p4 q1 q2. lan_start (example_env 1) [11] 1337 0 1 2 = Inr p \<and> lan_start (example_env 1) [12] 1337 3 4 55 = Inr q \<and>
    lan_input (example_env 1) 1337 (lit ''b'') p = Inr (True, p1) \<and>
    transmit (example_env 1) 0 (example_address 2) (example_address 1) (example_env 1) p1 q = Inr (p2, q1) \<and>
    transmit (example_env 1) 0 (example_address 1) (example_address 2) (example_env 1) q1 p2 = Inr (q2, p3) \<and>
    lan_receive [] p3 = Inr ([\<lparr>hostname = [49], nameLobby = lit ''Brilliant Lobby No. 4'', nameMap = lit ''de_dust2'', playerCount = 5, playerMax = 50\<rparr>], p4)"
proof -
  obtain p where p: "lan_start (example_env 1) [11] 1337 0 1 2 = Inr p" "GetState (m_masterSocket p) = OPEN"
    "SocketUDP_Resolve (e_net (example_env 1)) multicast_v4 1337 (m_masterSocket p) = Some (example_address 1)" using example_lan [of 11 0 1 2] by auto
  obtain q where q: "lan_start (example_env 1) [12] 1337 3 4 55 = Inr q" "GetState (m_masterSocket q) = OPEN" using example_lan [of 12 3 4 55] by auto
  have host: "RemoteAddress_ToString (e_net (example_env 1)) (example_address 1) = [49]"
    by (simp add: RemoteAddress_ToString_def example_env_def example_network_def example_address_def)
  have name: "myLobbyName 3 4 = lit ''Brilliant Lobby No. 4''" by (simp add: myLobbyName_def adjectives_def lit_def to_string.simps)
  show ?thesis using lobby_found [OF p(1,2) q p(3), of "example_address 1" "example_address 2" "example_env 1"] p(1) q(1) unfolding host name by simp
qed

end
