(* ===== verification/HelloWorld.thy ===== *)
theory HelloWorld
  imports Connecting Texts
begin

text \<open>
  The introductory example, \<^verbatim>\<open>examples/HelloWorld/Main.cpp\<close>: a server and a client in one program.  The client connects, the server
  greets it, and the client prints the greeting.  What the client prints on events is kept; the other output is left out.
\<close>

section \<open>The program\<close>

definition SERVER_PORT :: u16 where "SERVER_PORT = 1337"
definition CLIENT_PORT :: u16 where "CLIENT_PORT = 0"

text \<open>The two peers; \<open>None\<close> when the program gives up because a socket cannot be bound.\<close>

definition hello_setup_server :: "Env \<Rightarrow> u64 list \<Rightarrow> Peer option result" where
  "hello_setup_server env rng =
     rbind (IPeer_Factory_Create rng 1) (\<lambda>server.
     rbind (Bind env IPv4 SERVER_PORT server) (\<lambda>(ok, server).
     Inr (if \<not> ok then None else Some (SetMaximumIncomingPeers 1 server))))"

definition hello_setup_client :: "Env \<Rightarrow> u64 list \<Rightarrow> Peer option result" where
  "hello_setup_client env rng =
     rbind (IPeer_Factory_Create rng 1) (\<lambda>client.
     rbind (Bind env IPv4 CLIENT_PORT client) (\<lambda>(ok, client).
     Inr (if \<not> ok then None else Some client)))"

definition hello_connect :: "Env \<Rightarrow> Peer \<Rightarrow> Peer option result" where
  "hello_connect env client =
     rbind (Connect env (lit ''localhost'') SERVER_PORT None client) (\<lambda>(connectRet, client).
     Inr (if connectRet \<noteq> OK then None else Some client))"

definition hello_packet :: "Packet result" where
  "hello_packet =
     rbind (WriteInt64 1337 (BinaryStream_new BINARYSTREAM_DEFAULT_CAPACITY)) (\<lambda>outstream.
     rbind (WriteString (lit ''Hello world!'') outstream) (\<lambda>outstream.
     Inr (fst (Packet_of_moved_stream USER_PACKET outstream))))"

definition hello_server_packet :: "Env \<Rightarrow> Packet \<Rightarrow> Peer \<Rightarrow> Peer result" where
  "hello_server_packet env recv server =
     (if m_command recv = NOTIFY_CONNECTION_INCOMING
      then rbind hello_packet (\<lambda>packet.
           rbind (Send env packet (m_sender recv) RELIABLE MEDIUM Channel_default server) (\<lambda>(_, server). Inr server))
      else Inr server)"

lemma upd_slot_inbox [simp]: "m_inbox (upd_slot i f p) = m_inbox p" "m_inbox (upd_stats i g p) = m_inbox p"
  by (simp_all add: upd_slot_def upd_stats_def)

lemma Send_inbox:
  assumes "Send env packet who opts prio channel p = Inr (pid, p')"
  shows "m_inbox p' = m_inbox p"
proof -
  have g: "m_inbox (snd (GetRemoteByID who p)) = m_inbox p" by (auto simp: GetRemoteByID_def split: option.splits)
  have c: "m_inbox q' = m_inbox q" if "GetChannelBuffer i k q = Inr (b, q')" for i k q b q'
    using that by (auto simp: GetChannelBuffer_def Let_def split: option.splits if_splits)
  have "m_inbox q' = m_inbox q" if e: "EnqueueOutgoing env packet i opts prio channel q = Inr (pid, q')" for i q q'
    using e unfolding EnqueueOutgoing_def Let_def
    by (auto simp: rbind_def rassert_def split: option.splits sum.splits prod.splits if_splits dest!: c)
  then show ?thesis using assms g by (auto simp: Send_def split: option.splits prod.splits if_splits)
qed

lemma hello_server_packet_inbox: "hello_server_packet env recv p = Inr p' \<Longrightarrow> m_inbox p' = m_inbox p"
  by (auto simp: hello_server_packet_def rbind_def split: if_splits sum.splits dest: Send_inbox)

function hello_server :: "Env \<Rightarrow> Peer \<Rightarrow> Peer result" where
  "hello_server env server = (case Receive server of
      (None, server) \<Rightarrow> Inr server
    | (Some recv, server) \<Rightarrow> (case hello_server_packet env recv server of Inl e \<Rightarrow> Inl e | Inr server' \<Rightarrow> hello_server env server'))"
  by pat_completeness auto
termination
  by (relation "measure (\<lambda>(_, p). length (m_inbox p))")
    (auto simp: Receive_def DequeueIncoming_def dest!: hello_server_packet_inbox split: list.splits)

declare hello_server.simps [simp del]

datatype hello_line = ConnectSuccessful | ConnectFailed u8 | Number int | String "u8 list"

text \<open>What the client prints for a packet, and whether it is to leave its loop.\<close>

definition hello_client_packet :: "Packet \<Rightarrow> (hello_line list \<times> bool) result" where
  "hello_client_packet recv =
     rbind (GetStream recv) (\<lambda>instream.
     if m_command recv = NOTIFY_CONNECT_SUCCESS then Inr ([ConnectSuccessful], False)
     else if m_command recv = NOTIFY_CONNECT_FAILED
     then rbind (ReadByte instream) (\<lambda>(problem, _). Inr ([ConnectFailed problem], True))
     else if m_command recv = USER_PACKET
     then rbind (ReadInt64 instream) (\<lambda>(n, instream).
          rbind (ReadString instream) (\<lambda>(str, _). Inr ([Number n, String str], True)))
     else Inr ([], False))"

function hello_client :: "hello_line list \<Rightarrow> bool \<Rightarrow> Peer \<Rightarrow> (hello_line list \<times> bool \<times> Peer) result" where
  "hello_client shown exit client = (case Receive client of
      (None, client) \<Rightarrow> Inr (shown, exit, client)
    | (Some recv, client) \<Rightarrow> (case hello_client_packet recv of Inl e \<Rightarrow> Inl e
        | Inr (ls, ex) \<Rightarrow> hello_client (shown @ ls) (exit \<or> ex) client))"
  by pat_completeness auto
termination
  by (relation "measure (\<lambda>(_, _, p). length (m_inbox p))") (auto simp: Receive_def DequeueIncoming_def split: list.splits)

declare hello_client.simps [simp del]

section \<open>The greeting\<close>

definition enc_hello_world :: "u8 list" where
  "enc_hello_world = be64 1337 @ enc_string (lit ''Hello world!'')"

lemma hello_world_size: "length enc_hello_world < 100" "enc_hello_world \<noteq> []"
  using enc_string_size [of "lit ''Hello world!''"] by (simp_all add: enc_hello_world_def)

lemma hello_packet_ok: "\<exists>p. hello_packet = Inr p \<and> packet_ok p \<and> m_command p = USER_PACKET \<and> payload p = enc_hello_world"
proof -
  obtain s1 where s1: "WriteInt64 1337 (BinaryStream_new BINARYSTREAM_DEFAULT_CAPACITY) = Inr s1" "written s1 (be64 1337) []"
    using int64.put_aligned [OF _ written_new, of 1337 LittleEndian] by (auto simp: flushed_def max_stream_def)
  obtain s2 where s2: "WriteString (lit ''Hello world!'') s1 = Inr s2" "written s2 enc_hello_world []"
    using str.put_aligned [OF _ s1(2), of "lit ''Hello world!''"] enc_string_size [of "lit ''Hello world!''"]
    by (auto simp: flushed_def max_stream_def valid_string_def enc_hello_world_def)
  obtain p s3 where "Packet_of_moved_stream USER_PACKET s2 = (p, s3)" "packet_ok p" "m_command p = USER_PACKET" "payload p = enc_hello_world"
    using moved_packet [OF s2(2), of USER_PACKET] hello_world_size by (auto simp: flushed_def)
  then show ?thesis using s1(1) s2(1) by (simp add: hello_packet_def)
qed

lemma hello_shown: "hello_client_packet (packet_of who USER_PACKET enc_hello_world) = Inr ([Number 1337, String (lit ''Hello world!'')], True)"
proof -
  obtain s where s: "GetStream (packet_of who USER_PACKET enc_hello_world) = Inr s" "reading s 0 (be64 1337 @ enc_string (lit ''Hello world!''))"
    using GetStream_packet_of [of enc_hello_world] hello_world_size(1) by (auto simp: enc_hello_world_def)
  obtain s1 where s1: "ReadUInt64 s = Inr (1337, s1)" "reading s1 0 (enc_string (lit ''Hello world!''))"
    using int64.get_aligned [OF _ s(2), of 1337] by auto
  obtain s2 where "ReadString s1 = Inr (lit ''Hello world!'', s2)"
    using str.get_aligned [OF _ s1(2), of "lit ''Hello world!''" "[]"] by (auto simp: valid_string_def)
  then show ?thesis using s(1) s1(1) by (simp add: hello_client_packet_def ReadInt64_def packet_of_def config_defs)
qed

lemma success_shown: "hello_client_packet (packet_of who NOTIFY_CONNECT_SUCCESS [CR_OK]) = Inr ([ConnectSuccessful], False)"
  using GetStream_packet_of [of "[CR_OK]" who NOTIFY_CONNECT_SUCCESS] by (auto simp: hello_client_packet_def packet_of_def)

lemma established_inbox: "established i addr who (p\<lparr>m_inbox := x\<rparr>) = established i addr who p"
  by (simp add: established_def link_def secured_def GetRemoteByAddress_def fst_GetRemoteByID find_remote_def at_slot_def cong: option.case_cong)

text \<open>The server sends its greeting to the peer that has connected.\<close>

lemma server_greets:
  assumes q: "established j addrA who q" "who \<noteq> 0" "oob_ready 0 q" "e_now env < 2 ^ 63" and inbox: "m_inbox q = [packet_of who NOTIFY_CONNECTION_INCOMING bs]"
    and p: "established i addrB me p"
  shows "\<exists>q1 q2 p1. hello_server env q = Inr q1 \<and> transmit env j addrB addrA env' q1 p = Inr (q2, p1) \<and>
    m_inbox p1 = m_inbox p @ [packet_of me USER_PACKET enc_hello_world]"
proof -
  obtain packet where packet: "hello_packet = Inr packet" "packet_ok packet" "m_command packet = USER_PACKET" "payload packet = enc_hello_world"
    using hello_packet_ok by blast
  have "pkt_length packet < CHUNK_SIZE" using length_payload [OF packet(2)] packet(4) hello_world_size(1) by (simp add: CHUNK_SIZE_eq)
  then obtain q1 q2 p1 where m: "Send env packet who RELIABLE MEDIUM Channel_default (q\<lparr>m_inbox := []\<rparr>) = Inr (0, q1)"
    "transmit env j addrB addrA env' q1 p = Inr (q2, p1)" "m_inbox p1 = m_inbox p @ [packet_of me USER_PACKET enc_hello_world]"
    using established_message [of j addrA who "q\<lparr>m_inbox := []\<rparr>" env i addrB me p packet Channel_default RELIABLE MEDIUM env'] q p packet(2-4)
    by (auto simp: established_inbox oob_ready_def at_slot_def Channel_default_def)
  have "m_inbox q1 = []" using Send_inbox [OF m(1)] by simp
  moreover have "hello_server_packet env (packet_of who NOTIFY_CONNECTION_INCOMING bs) (q\<lparr>m_inbox := []\<rparr>) = Inr q1"
    using m(1) packet(1) by (auto simp: hello_server_packet_def packet_of_def)
  ultimately have "hello_server env q = Inr q1" using inbox
    by (simp add: hello_server.simps [of env q] hello_server.simps [of env q1] Receive_def DequeueIncoming_def)
  then show ?thesis using m(2,3) by blast
qed

lemma hello_server_bound:
  assumes "hello_setup_server env rng = Inr (Some q)"
  shows "\<exists>p0. Peer_new rng 1 = Inr p0 \<and> Bind env IPv4 SERVER_PORT (p0\<lparr>m_remotesIncoming := 1\<rparr>) = Inr (True, q)"
proof -
  obtain p0 where p0: "Peer_new rng 1 = Inr p0" using assms by (cases "Peer_new rng 1") (auto simp: hello_setup_server_def IPeer_Factory_Create_def)
  obtain q0 where q0: "Bind env IPv4 SERVER_PORT p0 = Inr (True, q0)" "q = SetMaximumIncomingPeers 1 q0"
    using assms p0 by (cases "Bind env IPv4 SERVER_PORT p0") (auto simp: hello_setup_server_def IPeer_Factory_Create_def split: if_splits)
  have "p0\<lparr>m_remotesIncoming := 0\<rparr> = p0" using p0 by (auto simp: Peer_new_def)
  then have "m_remotesMax q0 = 2" using Bind_new(3) [OF p0, of env IPv4 SERVER_PORT 0 q0] q0(1) by simp
  then have "q = q0\<lparr>m_remotesIncoming := 1\<rparr>" using q0(2) by (simp add: SetMaximumIncomingPeers_def GetMaximumPeers_def size_sub_def)
  then have "Bind env IPv4 SERVER_PORT (p0\<lparr>m_remotesIncoming := 1\<rparr>) = Inr (True, q)"
    using q0(1) p0 by (auto simp: Peer_new_def Bind_def RemotePeer_Setup_def upd_slot_def Let_def split: prod.splits)
  then show ?thesis using p0 by blast
qed

text \<open>
  C2.  The introductory program does what it says: when both sockets are bound and the network carries the datagrams, the client connects to the
  server in three datagrams, the server answers the notification of the connection with its greeting, and one datagram later the client has printed that it
  is connected, the number 1337 and the text of the greeting, and leaves its loop.
\<close>

theorem hello_world:
  assumes q: "hello_setup_server env' rng' = Inr (Some q)" and p: "hello_setup_client env rng = Inr (Some p)"
    and env: "DefaultEncryption_new env = Inr l" "DefaultEncryption_new env' = Inr l'" "e_now env' < 2 ^ 63"
    and net: "SocketUDP_Resolve (e_net env) (lit ''localhost'') SERVER_PORT (m_masterSocket p) = Some addrB"
  shows "\<exists>p1 p2 p3 p4 p5 p6 p7 q1 q2 q3 q4 q5. hello_connect env p = Inr (Some p1) \<and> socket_connected env p1 = Inr p2 \<and>
    transmit env 0 addrA addrB env' p2 q = Inr (p3, q1) \<and> transmit env' 0 addrB addrA env q1 p3 = Inr (q2, p4) \<and>
    transmit env 0 addrA addrB env' p4 q2 = Inr (p5, q3) \<and> hello_server env' q3 = Inr q4 \<and>
    transmit env' 1 addrB addrA env q4 p5 = Inr (q5, p6) \<and>
    hello_client [] False p6 = Inr ([ConnectSuccessful, Number 1337, String (lit ''Hello world!'')], True, p7)"
proof -
  obtain q0 where q0: "Peer_new rng' 1 = Inr q0" "Bind env' IPv4 SERVER_PORT (q0\<lparr>m_remotesIncoming := 1\<rparr>) = Inr (True, q)"
    using hello_server_bound [OF q] by blast
  obtain p0 where p0: "Peer_new rng 1 = Inr p0" using p by (cases "Peer_new rng 1") (auto simp: hello_setup_client_def IPeer_Factory_Create_def)
  have "Bind env IPv4 CLIENT_PORT p0 = Inr (True, p)"
    using p p0 by (cases "Bind env IPv4 CLIENT_PORT p0") (auto simp: hello_setup_client_def IPeer_Factory_Create_def split: if_splits)
  moreover have "p0\<lparr>m_remotesIncoming := 0\<rparr> = p0" using p0 by (auto simp: Peer_new_def)
  ultimately have b: "Bind env IPv4 CLIENT_PORT (p0\<lparr>m_remotesIncoming := 0\<rparr>) = Inr (True, p)" by simp
  have ids: "m_id p \<noteq> 0" "m_id q \<noteq> 0" "m_inbox p = []" "m_inbox q = []" using Bind_new(7,8) [OF p0 b] Bind_new(7,8) [OF q0] by auto
  have c: "can_call env 1 (lit ''localhost'') SERVER_PORT addrB (m_id q) p"
    by (rule new_can_call [OF p0 b _ env(1) _ _ net]) (simp_all add: SERVER_PORT_def lit_def)
  have a: "can_answer env' 1 addrA (m_id p) q" by (rule new_can_answer [OF q0 _ _ env(2)]) simp_all
  obtain p1 p2 p3 p4 p5 q1 q2 q3 where x: "Connect env (lit ''localhost'') SERVER_PORT None p = Inr (OK, p1)" "socket_connected env p1 = Inr p2"
    "transmit env 0 addrA addrB env' p2 q = Inr (p3, q1)" "transmit env' 0 addrB addrA env q1 p3 = Inr (q2, p4)"
    "transmit env 0 addrA addrB env' p4 q2 = Inr (p5, q3)" "established 1 addrB (m_id q) p5" "established 1 addrA (m_id p) q3" "oob_ready 0 q3"
    "m_inbox p5 = m_inbox p @ [packet_of (m_id q) NOTIFY_CONNECT_SUCCESS [CR_OK]]" "m_inbox q3 = m_inbox q @ [packet_of (m_id p) NOTIFY_CONNECTION_INCOMING [CR_OK]]"
    using handshake_exchange [OF c a ids(1,2)] by blast
  have inbox: "m_inbox q3 = [packet_of (m_id p) NOTIFY_CONNECTION_INCOMING [CR_OK]]" using x(10) ids(4) by simp
  obtain q4 q5 p6 where g: "hello_server env' q3 = Inr q4" "transmit env' 1 addrB addrA env q4 p5 = Inr (q5, p6)"
    "m_inbox p6 = [packet_of (m_id q) NOTIFY_CONNECT_SUCCESS [CR_OK], packet_of (m_id q) USER_PACKET enc_hello_world]"
    using server_greets [OF x(7) ids(1) x(8) env(3) inbox x(6), of env] x(9) ids(3) by auto
  have "\<exists>p7. hello_client [] False p6 = Inr ([ConnectSuccessful, Number 1337, String (lit ''Hello world!'')], True, p7)"
    using g(3) by (simp add: hello_client.simps Receive_def DequeueIncoming_def hello_shown success_shown)
  moreover have "hello_connect env p = Inr (Some p1)" using x(1) by (simp add: hello_connect_def)
  ultimately show ?thesis using x(2-5) g(1,2) by blast
qed

theorem hello_world_witness:
  "\<exists>p q p1 p2 p3 p4 p5 p6 p7 q1 q2 q3 q4 q5. hello_setup_server (example_env 1) [12] = Inr (Some q) \<and>
    hello_setup_client (example_env 1) [11] = Inr (Some p) \<and> hello_connect (example_env 1) p = Inr (Some p1) \<and> socket_connected (example_env 1) p1 = Inr p2 \<and>
    transmit (example_env 1) 0 (example_address 2) (example_address 1) (example_env 1) p2 q = Inr (p3, q1) \<and>
    transmit (example_env 1) 0 (example_address 1) (example_address 2) (example_env 1) q1 p3 = Inr (q2, p4) \<and>
    transmit (example_env 1) 0 (example_address 2) (example_address 1) (example_env 1) p4 q2 = Inr (p5, q3) \<and> hello_server (example_env 1) q3 = Inr q4 \<and>
    transmit (example_env 1) 1 (example_address 1) (example_address 2) (example_env 1) q4 p5 = Inr (q5, p6) \<and>
    hello_client [] False p6 = Inr ([ConnectSuccessful, Number 1337, String (lit ''Hello world!'')], True, p7)"
proof -
  obtain q where q: "hello_setup_server (example_env 1) [12] = Inr (Some q)"
    by (simp add: hello_setup_server_def IPeer_Factory_Create_def example_fresh_defs)
  obtain p where p: "hello_setup_client (example_env 1) [11] = Inr (Some p)"
    "SocketUDP_Resolve (e_net (example_env 1)) (lit ''localhost'') SERVER_PORT (m_masterSocket p) = Some (example_address 1)"
    by (simp add: hello_setup_client_def IPeer_Factory_Create_def example_fresh_defs upd_slot_def SERVER_PORT_def)
  have now: "e_now (example_env 1) < 2 ^ 63" by (simp add: example_env_def)
  show ?thesis using hello_world [OF q p(1) example_layer example_layer now p(2), of "example_address 2"] q p(1) by blast
qed

end
