(* ===== verification/Spec2Isabelle.thy ===== *)
theory Spec2Isabelle
  imports Mailbox CBindings Peer_Move Battle_Client CSharp FileCopy Chat Discovery HelloWorld
begin

text \<open>
  Wirefox is a C++ library for message-oriented communication over UDP, with a C interface, a C-sharp wrapper and example programs.
  This development models the library, its bindings and the examples, and proves what a user of them relies on.

  \<^bold>\<open>The program.\<close>  A \<^verbatim>\<open>Peer\<close> owns a UDP socket and a fixed number of slots (\<^verbatim>\<open>RemotePeer\<close>), one for each other
  peer, and slot 0 for packets that belong to no connection.  A message is a \<^verbatim>\<open>Packet\<close>: a command and a payload, which is built and
  read with a \<^verbatim>\<open>BinaryStream\<close>.  \<^verbatim>\<open>Send\<close> gives it to the packet queue, which splits it into segments.  The worker thread of the
  queue asks the datagram builder for a datagram that the congestion control allows and writes it to the socket, encrypted once the
  connection has a session key.  What arrives is decrypted, checked for duplicates, acknowledged, reassembled, put in order by the channel it
  belongs to, and ends in the inbox from which \<^verbatim>\<open>Receive\<close> takes it.  A connection begins with a handshake of three datagrams, or more
  when keys are exchanged.

  \<^bold>\<open>Conventions.\<close>  Code that can fail returns \<open>failure + 'a\<close>; every assertion, exception, read outside of a buffer and use of a
  null pointer is a value of \<open>failure\<close>.  Memory is a list of cells, which may be uninitialised.  Integers that can wrap are words of
  their width; \<^verbatim>\<open>size_t\<close> is a natural number with its wrap-around written out where the code can reach it.  Objects that other objects point to
  are indices: a slot is its index in \<open>m_remotes\<close>, an encryption layer its index in \<open>p_layers\<close>.  The clock, the outputs of random number
  generators, asio and libsodium are arguments, collected in the record \<open>Env\<close>; the predicate \<open>sodium_laws\<close> states what is documented of libsodium and
  is satisfied by \<open>example_sodium\<close>.  The threads of the library hold a lock whenever they touch a slot; they are modelled as operations on the peer
  that happen one after the other, in every order.

  \<^bold>\<open>The library.\<close>
  \<^item> \<open>Prelude\<close>, \<open>Ordered_Map\<close>, \<open>Config\<close>: results, memory, words; \<^verbatim>\<open>std::map\<close> (locale \<open>std_map\<close>); the enumerations, settings,
    statistics and time of \<^verbatim>\<open>include/wirefox\<close>.  The locale \<open>progressing\<close> collects what is shared by programs that can always get nearer to their
    end, and \<open>descending\<close>, which extends it, what is shared by those that do so with every step that changes something: a run
    that does not stand still for ever ends.
  \<^item> \<open>BinaryStream\<close>, \<open>Stream_Laws\<close>, \<open>Stream_Codec\<close>, \<open>Stream_Values\<close>: \<^verbatim>\<open>BinaryStream.cpp\<close>.  An invariant of streams, the contract between a writer and
    its reader (locales \<open>codec\<close> and \<open>aligning_codec\<close>, interpreted for bytes, integers of each width, numbers of variable length and strings), and
    that any sequence of values, flags included, is read back as it was written.
  \<^item> \<open>Headers\<close>, \<open>Packets\<close>: \<^verbatim>\<open>PacketHeader.cpp\<close>, \<^verbatim>\<open>DatagramHeader.cpp\<close>, \<^verbatim>\<open>Packet.cpp\<close>.  Round trips, and what is accepted of arbitrary bytes.
    The layout is the one the code writes, which is not the one of \<^verbatim>\<open>docs/md/WireFormat.md\<close>.
  \<^item> \<open>ChannelBuffers\<close>, \<open>Reassembly\<close>, \<open>Congestion\<close>, \<open>Receipts\<close>, \<open>Rpc\<close>: the parts of a connection.  Ordered channels deliver every packet once and in
    order, sequenced ones never an older one; segments in any order are put together; bytes in flight are counted exactly, the budgets never
    exceed a datagram (locale \<open>budgets\<close>), duplicates are detected and gaps reported; a receipt is posted once; a remote call reaches the
    registered callbacks with its parameters.
  \<^item> \<open>Encryption\<close>, \<open>Authenticator\<close>: \<^verbatim>\<open>EncryptionLayerSodium.cpp\<close>, \<^verbatim>\<open>EncryptionLayerNull.h\<close>, \<^verbatim>\<open>EncryptionAuthenticator.cpp\<close>.  Sessions
    decrypt what they encrypted and refuse what was changed; the exchange succeeds with the right identity and fails with another one.
  \<^item> \<open>Sockets\<close>: \<^verbatim>\<open>SocketUDP.cpp\<close>, \<^verbatim>\<open>RemoteAddressASIO.cpp\<close>, over the functions of asio as parameters.
  \<^item> \<open>Peer_State\<close>, \<open>Handshake\<close>, \<open>Datagrams\<close>, \<open>Peers\<close>, \<open>Queue\<close>: \<^verbatim>\<open>RemotePeer.cpp\<close>, \<^verbatim>\<open>Handshaker.cpp\<close>,
    \<^verbatim>\<open>HandshakerThreeWay.cpp\<close>, \<^verbatim>\<open>DatagramBuilder.cpp\<close>, \<^verbatim>\<open>Peer.cpp\<close>, \<^verbatim>\<open>PacketQueue.cpp\<close>, as functions on the state of a peer.
  \<^item> \<open>Sending\<close>, \<open>Arrival\<close>, \<open>Delivery\<close>: a message of any length up to the limit is delivered as it was.
  \<^item> \<open>Connecting\<close>: the handshake connects two peers, and fresh peers can talk.
  \<^item> \<open>Mailbox\<close>: the receiving side refines a mailbox that remembers what it has seen (locale \<open>refines\<close>), for datagrams that are lost, repeated or out
    of order.
  \<^item> \<open>Passes\<close>, \<open>Conversation\<close>: the passes of the worker thread, acknowledgements included.  A conversation is a sequence of bursts from one peer to
    the other: several calls of \<^verbatim>\<open>Send\<close>, a pass that writes all the packets in one datagram, and the acknowledgement of the other side.  However many
    bursts, the messages are delivered in the order sent, their receipts are posted in this order, and nothing stays in flight.  Bursts larger than
    a datagram are not covered, since the builder takes whatever packet still fits.  What becomes of a message whose datagram is lost.
  \<^item> \<open>Peer_Invariant\<close>: the invariant of a peer, kept by every call of the interface and every event of the network.
  \<^item> \<open>Peer_Move\<close>: moving and destroying a peer object.
  \<^item> \<open>Simulation\<close>: the build with \<^verbatim>\<open>WIREFOX_ENABLE_NETWORK_SIM\<close>, which without loss and latency behaves as the default build.

  \<^bold>\<open>Bindings.\<close>
  \<^item> \<open>CBindings\<close>: \<^verbatim>\<open>WirefoxCBindings.cpp\<close> over two tables of handles (locale \<open>handle_table\<close>); the tables stay well formed.
  \<^item> \<open>CSharp\<close>: \<^verbatim>\<open>extras/WirefoxCSharp\<close>; a message survives the journey between two C-sharp programs, unless it uses the first command, whose
    number the two languages disagree on.

  \<^bold>\<open>Examples.\<close>
  \<^item> \<open>Texts\<close>: literals and numbers as bytes.
  \<^item> \<open>HelloWorld\<close>, \<open>Discovery\<close>: \<^verbatim>\<open>examples/HelloWorld\<close> and \<^verbatim>\<open>examples/LanDiscovery\<close>, run on the model of the library from the creation of the peers to what
    is printed.
  \<^item> \<open>FileCopy\<close>, \<open>Chat\<close>: \<^verbatim>\<open>examples/FileCopy\<close> and \<^verbatim>\<open>examples/Chat\<close>, over what they ask of a peer.  A transfer is a system of two programs and a channel
    that delivers reliable packets in order and returns each receipt asked for once; every run of it that goes on ends with the file copied exactly.
  \<^item> \<open>Battle_Board\<close>, \<open>Battle_Server\<close>, \<open>Battle_Client\<close>: \<^verbatim>\<open>examples/Battleships\<close>; a game ends after at most 199 shots, and the views of the players agree
    with the server.  As shipped no game is played at all, since the first message of the server carries the command that the two languages
    disagree on; the sessions are those of forms that do open.

  \<^bold>\<open>Bounds and fuel.\<close>  Loops are recursive functions with termination proofs, with two exceptions.  The loop of \<^verbatim>\<open>MakeDatagram\<close> has fuel, one
  more than the budget and the number of waiting packets; \<open>AddNewPackets_returns\<close> shows that a fuel above the budget is enough, since a round that does not
  end the loop spends at least one byte.  The recursion of \<^verbatim>\<open>ReceiptTracker::Acknowledge\<close> is bounded by the number of split packets, since every level
  erases one of them.  The loop that rejects unsuitable random numbers runs over the list of the generator and is \<open>NoReturn\<close> when the list is used up.
  Statements about streams assume lengths below \<open>max_stream\<close>, the largest length for which
  \<^verbatim>\<open>ToNextPowerOfTwo\<close> still gives a power of two.

  \<^bold>\<open>Not modelled.\<close>  \<^verbatim>\<open>AwaitableEvent\<close> only blocks threads.  Data races and the interleaving of threads inside an operation, as operations hold the lock of
  the slot.  Output to the console.  The forms of the Battleships client apart from its game state, and the command lines of the examples.  asio, libsodium
  and catch2 are third-party code.  The tests.  The priority argument of \<^verbatim>\<open>Send\<close>, which the code ignores as well.
\<close>

end
